(* ===== verification/Prelude.thy ===== *)
theory Prelude
  imports Complex_Main "HOL-Library.AList"
begin

text \<open>
  The vocabulary every component of the overlay shares: the JSON-shaped values the
  Python code passes around, the text rendering of integers and UTC instants, the
  insertion-ordered dictionary operations (an association list, oldest entry first),
  the bounded first-in-first-out eviction that the in-memory registers use, and the
  generic lemmas about them.

  Python strings are lists of characters. Only the ASCII behaviour of
  \<open>str.strip\<close> and \<open>str.lower\<close> is modelled.
\<close>

named_theorems od_simps \<open>equations of the ordered-dictionary operations\<close>

section \<open>Floor division\<close>

lemma le_floor_div_iff:
  fixes q n d :: int
  assumes "0 < d"
  shows "q \<le> n div d \<longleftrightarrow> q * d \<le> n"
proof
  assume "q \<le> n div d"
  then have "q * d \<le> (n div d) * d"
    using assms by (simp add: mult_right_mono)
  also have "\<dots> \<le> n"
    using assms by (simp add: minus_mod_eq_div_mult [symmetric])
  finally show "q * d \<le> n" .
next
  assume "q * d \<le> n"
  then have "(q * d) div d \<le> n div d"
    using assms by (rule zdiv_mono1)
  then show "q \<le> n div d"
    using assms by simp
qed

section \<open>Python values\<close>

datatype pyval =
    PNone
  | PBool bool
  | PInt int
  | PFloat rat
  | PStr string
  | PList "pyval list"
  | PDict "(string \<times> pyval) list"

type_synonym pydict = "(string \<times> pyval) list"

text \<open>Truth value testing: \<open>None\<close>, zero and the empty containers are false.\<close>

fun truthy :: "pyval \<Rightarrow> bool" where
  "truthy PNone = False"
| "truthy (PBool b) = b"
| "truthy (PInt i) = (i \<noteq> 0)"
| "truthy (PFloat r) = (r \<noteq> 0)"
| "truthy (PStr s) = (s \<noteq> [])"
| "truthy (PList xs) = (xs \<noteq> [])"
| "truthy (PDict d) = (d \<noteq> [])"

text \<open>\<open>d.get(k)\<close>: \<open>None\<close> when the key is absent.\<close>

definition dget :: "pydict \<Rightarrow> string \<Rightarrow> pyval" where
  "dget d k = (case map_of d k of None \<Rightarrow> PNone | Some v \<Rightarrow> v)"

lemma dget_Nil [simp]: "dget [] k = PNone"
  by (simp add: dget_def)

lemma dget_Cons [simp]: "dget ((k', v) # d) k = (if k = k' then v else dget d k)"
  by (simp add: dget_def)

definition opt_str :: "string option \<Rightarrow> pyval" where
  "opt_str s = (case s of None \<Rightarrow> PNone | Some t \<Rightarrow> PStr t)"

text \<open>\<open>s or d\<close> for an optional string: both \<open>None\<close> and the empty string are false.\<close>

definition str_or :: "string option \<Rightarrow> string \<Rightarrow> string" where
  "str_or s d = (case s of None \<Rightarrow> d | Some t \<Rightarrow> if t = [] then d else t)"

section \<open>Text\<close>

text \<open>
  A string is a list of code points below 256, the range of HOL's characters. Within it,
  white space is what \<open>str.strip\<close> removes and \<open>lower\<close> maps the capitals of ASCII and of
  the Latin-1 letters.
\<close>

definition ws :: "char \<Rightarrow> bool" where
  "ws c \<longleftrightarrow>
     (let n = (of_char c :: nat)
      in n = 32 \<or> (9 \<le> n \<and> n \<le> 13) \<or> (28 \<le> n \<and> n \<le> 31) \<or> n = 133 \<or> n = 160)"

definition strip :: "string \<Rightarrow> string" where
  "strip s = rev (dropWhile ws (rev (dropWhile ws s)))"

definition lower_char :: "char \<Rightarrow> char" where
  "lower_char c =
     (let n = (of_char c :: nat)
      in if (65 \<le> n \<and> n \<le> 90) \<or> (192 \<le> n \<and> n \<le> 222 \<and> n \<noteq> 215) then char_of (n + 32) else c)"

definition lower :: "string \<Rightarrow> string" where
  "lower s = map lower_char s"

definition normalized :: "string \<Rightarrow> string" where
  "normalized s = lower (strip s)"

text \<open>The same on the bits of a character, which evaluates faster.\<close>

lemma lower_char_code [code]:
  "lower_char (Char b0 b1 b2 b3 b4 b5 b6 b7) =
     (if b6 \<and> \<not> b5 \<and>
         (if b7 then \<not> (b0 \<and> b1 \<and> b2 \<and> b3 \<and> b4) \<and> \<not> (b0 \<and> b1 \<and> b2 \<and> \<not> b3 \<and> b4)
          else (b0 \<or> b1 \<or> b2 \<or> b3 \<or> b4) \<and> \<not> (b4 \<and> b3 \<and> (b2 \<or> b1 \<and> b0)))
      then Char b0 b1 b2 b3 b4 True b6 b7 else Char b0 b1 b2 b3 b4 b5 b6 b7)"
  by (cases b0; cases b1; cases b2; cases b3; cases b4; cases b5; cases b6; cases b7) (simp_all add: lower_char_def Let_def char_of_def bit_iff_odd)

lemma ws_code [code]:
  "ws (Char b0 b1 b2 b3 b4 b5 b6 b7) \<longleftrightarrow>
     (if b7 then \<not> b6 \<and> (b5 \<and> \<not> b4 \<and> \<not> b3 \<and> \<not> b2 \<and> \<not> b1 \<and> \<not> b0 \<or> \<not> b5 \<and> \<not> b4 \<and> \<not> b3 \<and> b2 \<and> \<not> b1 \<and> b0)
      else \<not> b6 \<and> (b5 \<and> \<not> b4 \<and> \<not> b3 \<and> \<not> b2 \<and> \<not> b1 \<and> \<not> b0 \<or>
        \<not> b5 \<and> (b4 \<and> b3 \<and> b2 \<or> \<not> b4 \<and> b3 \<and> (b2 \<and> \<not> b1 \<or> \<not> b2 \<and> (b1 \<or> b0)))))"
  by (cases b0; cases b1; cases b2; cases b3; cases b4; cases b5; cases b6; cases b7) (simp_all add: ws_def Let_def)

lemma ws_lower [simp]: "ws (lower_char c) = ws c"
  by (auto simp: ws_def lower_char_def Let_def)

lemma lower_char_idem [simp]: "lower_char (lower_char c) = lower_char c"
  by (auto simp: lower_char_def Let_def)

lemma lower_lower [simp]: "lower (lower s) = lower s"
  by (simp add: lower_def)

lemma dropWhile_ws_lower: "dropWhile ws (lower s) = lower (dropWhile ws s)"
  by (induction s) (simp_all add: lower_def)

lemma strip_lower: "strip (lower s) = lower (strip s)"
  by (simp add: strip_def dropWhile_ws_lower rev_map lower_def [symmetric])
     (metis dropWhile_ws_lower lower_def rev_map)

lemma strip_strip [simp]: "strip (strip s) = strip s"
proof -
  have front: "dropWhile ws (rev (dropWhile ws (rev (dropWhile ws s)))) = rev (dropWhile ws (rev (dropWhile ws s)))"
    for s
  proof (cases "rev (dropWhile ws (rev (dropWhile ws s)))")
    case (Cons c u)
    have "dropWhile ws s = rev (dropWhile ws (rev (dropWhile ws s))) @ rev (takeWhile ws (rev (dropWhile ws s)))"
      by (metis rev_append rev_rev_ident takeWhile_dropWhile_id)
    then have d: "dropWhile ws s = c # u @ rev (takeWhile ws (rev (dropWhile ws s)))"
      using Cons by simp
    then have "dropWhile ws s \<noteq> []" by (metis list.distinct(1))
    then have "\<not> ws (hd (dropWhile ws s))" by (rule hd_dropWhile)
    then have "\<not> ws c" using d by (metis list.sel(1))
    then show ?thesis using Cons by simp
  next
    case Nil
    then show ?thesis by (simp only: Nil dropWhile.simps)
  qed
  show ?thesis by (simp add: strip_def front)
qed

lemma normalized_idem [simp]: "normalized (normalized s) = normalized s"
  by (simp add: normalized_def strip_lower)

definition digit :: "nat \<Rightarrow> char" where
  "digit n = char_of (48 + n mod 10)"

fun show_nat :: "nat \<Rightarrow> string" where
  "show_nat n = (if n < 10 then [digit n] else show_nat (n div 10) @ [digit n])"

declare show_nat.simps [simp del]

definition show_int :: "int \<Rightarrow> string" where
  "show_int i = (if i < 0 then ''-'' @ show_nat (nat (- i)) else show_nat (nat i))"

text \<open>Zero-padded decimal of a fixed width, \<open>f"{n:0wd}"\<close> for \<open>n < 10 ^ w\<close>.\<close>

definition pad :: "nat \<Rightarrow> int \<Rightarrow> string" where
  "pad w i = (let s = show_int i in replicate (w - length s) CHR ''0'' @ s)"

lemma show_nat_nonempty [simp]: "show_nat n \<noteq> []"
  by (subst show_nat.simps) simp

section \<open>Exceptions and \<open>int()\<close>\<close>

datatype py_exn =
    ValueError string
  | TypeError string
  | KeyError string
  | ConfigError string
  | OtherError string

definition is_digit :: "char \<Rightarrow> bool" where
  "is_digit c \<longleftrightarrow> (let n = (of_char c :: nat) in 48 \<le> n \<and> n \<le> 57)"

lemma is_digit_code [code]:
  "is_digit (Char b0 b1 b2 b3 b4 b5 b6 b7) \<longleftrightarrow> \<not> b7 \<and> \<not> b6 \<and> b5 \<and> b4 \<and> (\<not> b3 \<or> \<not> b2 \<and> \<not> b1)"
  by (cases b0; cases b1; cases b2; cases b3; cases b4; cases b5; cases b6; cases b7) (simp_all add: is_digit_def Let_def)

text \<open>
  Decimal digits with single underscores between them, as \<open>int(str)\<close> accepts; the
  flag says whether an underscore may come next (it may after a digit), and the text
  must end after a digit.
\<close>

fun digits_value :: "bool \<Rightarrow> int \<Rightarrow> string \<Rightarrow> int option" where
  "digits_value after_digit acc [] = (if after_digit then Some acc else None)"
| "digits_value after_digit acc (c # cs) =
     (if is_digit c then digits_value True (acc * 10 + (int (of_char c) - 48)) cs
      else if c = CHR ''_'' \<and> after_digit then digits_value False acc cs
      else None)"

definition parse_int :: "string \<Rightarrow> int option" where
  "parse_int s =
     (case strip s of
        [] \<Rightarrow> None
      | c # cs \<Rightarrow>
          if c = CHR ''-'' then map_option uminus (digits_value False 0 cs)
          else if c = CHR ''+'' then digits_value False 0 cs
          else digits_value False 0 (c # cs))"

text \<open>\<open>int(v)\<close>: a float is truncated towards zero, a boolean is 0 or 1.\<close>

fun py_int :: "pyval \<Rightarrow> py_exn + int" where
  "py_int (PInt i) = Inr i"
| "py_int (PBool b) = Inr (if b then 1 else 0)"
| "py_int (PFloat r) = Inr (if r \<ge> 0 then \<lfloor>r\<rfloor> else \<lceil>r\<rceil>)"
| "py_int (PStr s) =
     (case parse_int s of
        None \<Rightarrow> Inl (ValueError ''invalid literal for int() with base 10'')
      | Some i \<Rightarrow> Inr i)"
| "py_int v = Inl (TypeError ''int() argument must be a string or a real number'')"

section \<open>UTC instants and their text\<close>

text \<open>
  An instant is the number of microseconds since the Unix epoch, in UTC. The calendar
  date of a day number is computed with the usual era arithmetic of the proleptic
  Gregorian calendar, which is the calendar of Python's \<open>datetime\<close>.
\<close>

definition us_per_day :: int where
  "us_per_day = 86400 * 1000000"

definition civil_of_day :: "int \<Rightarrow> int \<times> int \<times> int" where
  "civil_of_day day =
     (let z = day + 719468; era = z div 146097; doe = z mod 146097;
          yoe = (doe - doe div 1460 + doe div 36524 - doe div 146096) div 365;
          doy = doe - (365 * yoe + yoe div 4 - yoe div 100);
          mp = (5 * doy + 2) div 153;
          d = doy - (153 * mp + 2) div 5 + 1;
          m = (if mp < 10 then mp + 3 else mp - 9)
      in (yoe + era * 400 + (if m \<le> 2 then 1 else 0), m, d))"

definition date_text :: "int \<Rightarrow> string" where
  "date_text us =
     (case civil_of_day (us div us_per_day) of
        (y, m, d) \<Rightarrow> pad 4 y @ ''-'' @ pad 2 m @ ''-'' @ pad 2 d)"

definition iso_text :: "int \<Rightarrow> string" where
  "iso_text us =
     (let s = (us mod us_per_day) div 1000000
      in date_text us @ ''T'' @ pad 2 (s div 3600) @ '':'' @ pad 2 (s div 60 mod 60)
           @ '':'' @ pad 2 (s mod 60) @ ''.'' @ pad 3 (us mod 1000000 div 1000) @ ''Z'')"

text \<open>
  A stored timestamp is text; what the code needs to know about it besides its
  characters is what \<open>datetime.fromisoformat\<close> reads in them: an instant with a time
  zone, a naive time, or nothing (it raises \<open>ValueError\<close>). Both are carried.
\<close>

datatype iso_reading = Aware int | Naive int | Not_Iso

record stamp =
  stamp_text :: string
  reads :: iso_reading

text \<open>What the code writes has millisecond precision and a trailing \<open>Z\<close>.\<close>

definition iso_stamp :: "int \<Rightarrow> stamp" where
  "iso_stamp us = \<lparr>stamp_text = iso_text us, reads = Aware (us - us mod 1000)\<rparr>"

lemma reads_iso [simp]: "reads (iso_stamp us) = Aware (us - us mod 1000)"
  by (simp add: iso_stamp_def)

section \<open>Insertion-ordered dictionaries\<close>

text \<open>
  \<open>d[k] = v\<close> keeps the position of an existing key (\<open>AList.update\<close>);
  \<open>d[k] = v; d.move_to_end(k)\<close> puts it last.
\<close>

definition od_put :: "'k \<Rightarrow> 'v \<Rightarrow> ('k \<times> 'v) list \<Rightarrow> ('k \<times> 'v) list" where
  "od_put k v d = AList.delete k d @ [(k, v)]"

text \<open>\<open>while len(d) > cap: d.popitem(last=False)\<close>.\<close>

fun evict :: "nat \<Rightarrow> ('k \<times> 'v) list \<Rightarrow> ('k \<times> 'v) list" where
  "evict cap [] = []"
| "evict cap (p # d) = (if length (p # d) > cap then evict cap d else p # d)"

abbreviation keys :: "('k \<times> 'v) list \<Rightarrow> 'k list" where
  "keys d \<equiv> map fst d"

lemma evict_eq_drop [od_simps]: "evict cap d = drop (length d - cap) d"
proof (induction d)
  case Nil
  then show ?case by simp
next
  case (Cons p d)
  then show ?case by (simp add: Suc_diff_le)
qed

lemma length_evict [simp]: "length (evict cap d) = min cap (length d)"
  by (simp add: evict_eq_drop)

lemma evict_small [simp]: "length d \<le> cap \<Longrightarrow> evict cap d = d"
  by (simp add: evict_eq_drop)

lemma distinct_keys_od_put [simp]: "distinct (keys d) \<Longrightarrow> distinct (keys (od_put k v d))"
  by (simp add: od_put_def delete_keys distinct_removeAll)

lemma distinct_keys_evict [simp]: "distinct (keys d) \<Longrightarrow> distinct (keys (evict cap d))"
  by (simp add: evict_eq_drop drop_map [symmetric] distinct_drop)

end
