(* ===== verification/Sticky_Stop.thy ===== *)
theory Sticky_Stop
  imports Prelude
begin

text \<open>
  The sticky-stop circuit breaker (\<open>shared/sticky_stop.py\<close>): the two-level,
  forward-only state machine that stops an agent after repeated tool failures, a
  cascade of refusals or a cost overrun, its SQLite-backed store, and the audit
  record written for every transition.

  The machine is built over an injected store and an injected audit sink, as the
  Python class is: \<open>'w ports\<close> holds the store's \<open>get\<close> and \<open>put\<close> and the sink's
  \<open>write\<close>, over a world \<open>'w\<close> that each call may change. An operation returns its
  result, or the exception it raises, together with the world it leaves behind, so
  that what was persisted before an exception is visible. The clock is an argument.
\<close>

section \<open>Levels, conditions, thresholds and state\<close>

datatype level = OK | HARD_STOP

definition level_value :: "level \<Rightarrow> string" where
  "level_value l = (case l of OK \<Rightarrow> ''OK'' | HARD_STOP \<Rightarrow> ''HARD_STOP'')"

text \<open>\<open>_LEVEL_ORDER\<close>, as the library's linear order on levels.\<close>

definition level_rank :: "level \<Rightarrow> nat" where
  "level_rank l = (case l of OK \<Rightarrow> 0 | HARD_STOP \<Rightarrow> 1)"

instantiation level :: linorder
begin

definition less_eq_level :: "level \<Rightarrow> level \<Rightarrow> bool" where
  "less_eq_level a b \<longleftrightarrow> level_rank a \<le> level_rank b"

definition less_level :: "level \<Rightarrow> level \<Rightarrow> bool" where
  "less_level a b \<longleftrightarrow> level_rank a < level_rank b"

instance
  by standard (auto simp: less_eq_level_def less_level_def level_rank_def split: level.splits)

end

lemma level_order [simp]: "OK \<le> l" "l \<le> HARD_STOP" "(l \<le> OK) = (l = OK)"
    "(HARD_STOP \<le> l) = (l = HARD_STOP)" "OK < HARD_STOP" "\<not> HARD_STOP < l"
  by (cases l; simp add: less_eq_level_def less_level_def level_rank_def)+

definition LEGACY_LEVELS :: "string list" where
  "LEGACY_LEVELS = [''WARN'', ''SOFT_STOP'']"

text \<open>A persisted word outside the vocabulary reads as \<open>OK\<close>, as do the removed rungs.\<close>

definition level_from_stored :: "string \<Rightarrow> level" where
  "level_from_stored raw =
     (if raw \<in> set LEGACY_LEVELS then OK
      else if raw = ''OK'' then OK
      else if raw = ''HARD_STOP'' then HARD_STOP
      else OK)"

datatype condition =
    CONSECUTIVE_TOOL_FAILURES
  | REFUSAL_CASCADE
  | TIME_BUDGET_EXCEEDED
  | COST_THRESHOLD
  | CAPTAIN_CLEAR

definition condition_value :: "condition \<Rightarrow> string" where
  "condition_value c =
     (case c of
        CONSECUTIVE_TOOL_FAILURES \<Rightarrow> ''consecutive_tool_failures''
      | REFUSAL_CASCADE \<Rightarrow> ''refusal_cascade''
      | TIME_BUDGET_EXCEEDED \<Rightarrow> ''time_budget_exceeded''
      | COST_THRESHOLD \<Rightarrow> ''cost_threshold''
      | CAPTAIN_CLEAR \<Rightarrow> ''captain_clear'')"

definition conditions :: "condition list" where
  "conditions = [CONSECUTIVE_TOOL_FAILURES, REFUSAL_CASCADE, TIME_BUDGET_EXCEEDED,
                 COST_THRESHOLD, CAPTAIN_CLEAR]"

text \<open>\<open>StickyStopCondition(raw)\<close>: \<open>None\<close> stands for the \<open>ValueError\<close> it raises.\<close>

definition condition_of :: "string \<Rightarrow> condition option" where
  "condition_of raw = find (\<lambda>c. condition_value c = raw) conditions"

record thresholds =
  tool_failure_hard_stop :: int
  tool_failure_window_seconds :: int
  refusal_hard_stop :: int
  refusal_window_seconds :: int
  time_budget_seconds :: int
  cost_daily_cents :: int
  cost_hard_stop_pct :: int

definition DEFAULT_THRESHOLDS :: thresholds where
  "DEFAULT_THRESHOLDS =
     \<lparr>tool_failure_hard_stop = 8, tool_failure_window_seconds = 600,
      refusal_hard_stop = 20, refusal_window_seconds = 1800,
      time_budget_seconds = 3600, cost_daily_cents = 5000, cost_hard_stop_pct = 200\<rparr>"

record sstate =
  customer :: string
  persona :: string
  slevel :: level
  updated_at :: stamp
  reason :: "string option"
  cause :: "condition option"
  consecutive_tool_failures :: int
  tool_failure_window_started_at :: "stamp option"
  refusal_count :: int
  refusal_window_started_at :: "stamp option"
  cost_cents_today :: int
  cost_date :: "string option"

datatype exn =
    Value_Error string
  | Type_Error string
  | Sticky_Stop_Error sstate
  | Audit_Write_Failed string

text \<open>\<open>StickyStopState.__post_init__\<close>: both key parts are required.\<close>

definition check_state :: "sstate \<Rightarrow> exn + sstate" where
  "check_state s =
     (if customer s = [] then Inl (Value_Error ''customer is required'')
      else if persona s = [] then Inl (Value_Error ''persona is required'')
      else Inr s)"

definition fresh_state :: "string \<Rightarrow> string \<Rightarrow> int \<Rightarrow> sstate" where
  "fresh_state c p now =
     \<lparr>customer = c, persona = p, slevel = OK, updated_at = iso_stamp now, reason = None,
      cause = None, consecutive_tool_failures = 0, tool_failure_window_started_at = None,
      refusal_count = 0, refusal_window_started_at = None, cost_cents_today = 0,
      cost_date = None\<rparr>"

section \<open>Audit records, the ports and the machine\<close>

record audit_record =
  action_type :: string
  actor :: string
  actor_role :: string
  metadata :: pydict
  skill_name :: "string option"

record 'w ports =
  store_get :: "string \<Rightarrow> string \<Rightarrow> 'w \<Rightarrow> exn + sstate option"
  store_put :: "sstate \<Rightarrow> 'w \<Rightarrow> 'w"
  audit_write :: "audit_record \<Rightarrow> 'w \<Rightarrow> exn + 'w"

type_synonym 'w outcome = "(exn + sstate) \<times> 'w"

definition get_state :: "'w ports \<Rightarrow> int \<Rightarrow> string \<Rightarrow> string \<Rightarrow> 'w \<Rightarrow> exn + sstate" where
  "get_state P now c p w =
     (case store_get P c p w of
        Inl e \<Rightarrow> Inl e
      | Inr (Some s) \<Rightarrow> Inr s
      | Inr None \<Rightarrow> check_state (fresh_state c p now))"

section \<open>The ladder\<close>

definition level_for_tool_failures :: "thresholds \<Rightarrow> int \<Rightarrow> level" where
  "level_for_tool_failures t count =
     (if count \<ge> tool_failure_hard_stop t then HARD_STOP else OK)"

definition level_for_refusals :: "thresholds \<Rightarrow> int \<Rightarrow> level" where
  "level_for_refusals t count = (if count \<ge> refusal_hard_stop t then HARD_STOP else OK)"

definition level_for_cost :: "thresholds \<Rightarrow> int \<Rightarrow> level" where
  "level_for_cost t cents =
     (if cost_daily_cents t \<le> 0 then OK
      else let pct = (cents * 100) div cost_daily_cents t
           in if pct \<ge> cost_hard_stop_pct t then HARD_STOP else OK)"

definition forward_only :: "level \<Rightarrow> level \<Rightarrow> level" where
  "forward_only current proposed = (if proposed > current then proposed else current)"

text \<open>
  Returns the new count and the window's start. Text that does not parse restarts the
  window; a naive time parses, and subtracting it from an aware one raises.
\<close>

definition tick_window :: "int \<Rightarrow> stamp option \<Rightarrow> int \<Rightarrow> int \<Rightarrow> exn + (int \<times> stamp)" where
  "tick_window count started now window_seconds =
     (case started of
        None \<Rightarrow> Inr (1, iso_stamp now)
      | Some s \<Rightarrow>
          (case reads s of
             Not_Iso \<Rightarrow> Inr (1, iso_stamp now)
           | Naive _ \<Rightarrow> Inl (Type_Error ''can't subtract offset-naive and offset-aware datetimes'')
           | Aware t \<Rightarrow>
               if now - t > window_seconds * 1000000 then Inr (1, iso_stamp now)
               else Inr (count + 1, s)))"

text \<open>
  \<open>_commit_transition\<close>: persist first, then audit a transition or an observation. An
  audit failure propagates; what was persisted stays.
\<close>

definition commit_transition ::
  "'w ports \<Rightarrow> sstate \<Rightarrow> sstate \<Rightarrow> condition \<Rightarrow> bool \<Rightarrow> string option \<Rightarrow> pydict \<Rightarrow> bool \<Rightarrow>
   'w \<Rightarrow> 'w outcome" where
  "commit_transition P current next cond transitioned skill extra observation w =
     (let w1 = store_put P next w in
      if \<not> transitioned \<and> \<not> observation then (Inr next, w1)
      else
        let act = (if slevel next = HARD_STOP \<and> \<not> observation
                   then ''AGENT_STOPPED'' else ''INVARIANT_VIOLATION'');
            meta = AList.updates (keys extra) (map snd extra)
              [(''sticky_stop_transition'', PBool transitioned),
               (''customer'', PStr (customer next)),
               (''persona'', PStr (persona next)),
               (''from_state'', PStr (level_value (slevel current))),
               (''to_state'', PStr (level_value (slevel next))),
               (''condition_triggered'', PStr (condition_value cond)),
               (''reason'', opt_str (reason next))]
        in case audit_write P \<lparr>action_type = act, actor = ''agent'', actor_role = ''agent'',
                               metadata = meta, skill_name = skill\<rparr> w1 of
             Inl e \<Rightarrow> (Inl e, w1)
           | Inr w2 \<Rightarrow> (Inr next, w2))"


section \<open>Counter updates\<close>

definition PInts :: "(string \<times> int) list \<Rightarrow> pydict" where
  "PInts kvs = map (\<lambda>(k, v). (k, PInt v)) kvs"

definition ladder_reason :: "string \<Rightarrow> int \<Rightarrow> int \<Rightarrow> string option \<Rightarrow> string" where
  "ladder_reason label count window skill =
     label @ ''='' @ show_int count @ '' (window='' @ show_int window @ ''s, skill=''
       @ str_or skill ''unknown'' @ '')''"

definition record_tool_failure ::
  "'w ports \<Rightarrow> thresholds \<Rightarrow> int \<Rightarrow> string \<Rightarrow> string \<Rightarrow> string option \<Rightarrow> 'w \<Rightarrow> 'w outcome" where
  "record_tool_failure P t now c p skill w =
     (case get_state P now c p w of
        Inl e \<Rightarrow> (Inl e, w)
      | Inr s \<Rightarrow>
          (case tick_window (consecutive_tool_failures s) (tool_failure_window_started_at s)
                  now (tool_failure_window_seconds t) of
             Inl e \<Rightarrow> (Inl e, w)
           | Inr (new_count, new_window) \<Rightarrow>
               let next_level = forward_only (slevel s) (level_for_tool_failures t new_count);
                   moved = (next_level \<noteq> slevel s)
               in commit_transition P s
                    (s\<lparr>slevel := next_level, updated_at := iso_stamp now,
                       consecutive_tool_failures := new_count,
                       tool_failure_window_started_at := Some new_window,
                       reason := (if moved
                                  then Some (ladder_reason ''consecutive_tool_failures'' new_count
                                               (tool_failure_window_seconds t) skill)
                                  else reason s),
                       cause := (if moved then Some CONSECUTIVE_TOOL_FAILURES else cause s)\<rparr>)
                    CONSECUTIVE_TOOL_FAILURES moved skill
                    [(''consecutive_tool_failures'', PInt new_count),
                     (''window_seconds'', PInt (tool_failure_window_seconds t)),
                     (''thresholds'', PDict (PInts [(''hard_stop'', tool_failure_hard_stop t)]))]
                    False w))"

definition record_tool_success ::
  "'w ports \<Rightarrow> int \<Rightarrow> string \<Rightarrow> string \<Rightarrow> 'w \<Rightarrow> 'w outcome" where
  "record_tool_success P now c p w =
     (case get_state P now c p w of
        Inl e \<Rightarrow> (Inl e, w)
      | Inr s \<Rightarrow>
          if consecutive_tool_failures s = 0 then (Inr s, w)
          else let s' = s\<lparr>updated_at := iso_stamp now, consecutive_tool_failures := 0,
                          tool_failure_window_started_at := None\<rparr>
               in (Inr s', store_put P s' w))"

definition record_refusal ::
  "'w ports \<Rightarrow> thresholds \<Rightarrow> int \<Rightarrow> string \<Rightarrow> string \<Rightarrow> string option \<Rightarrow> 'w \<Rightarrow> 'w outcome" where
  "record_refusal P t now c p skill w =
     (case get_state P now c p w of
        Inl e \<Rightarrow> (Inl e, w)
      | Inr s \<Rightarrow>
          (case tick_window (refusal_count s) (refusal_window_started_at s)
                  now (refusal_window_seconds t) of
             Inl e \<Rightarrow> (Inl e, w)
           | Inr (new_count, new_window) \<Rightarrow>
               let next_level = forward_only (slevel s) (level_for_refusals t new_count);
                   moved = (next_level \<noteq> slevel s)
               in commit_transition P s
                    (s\<lparr>slevel := next_level, updated_at := iso_stamp now,
                       refusal_count := new_count,
                       refusal_window_started_at := Some new_window,
                       reason := (if moved
                                  then Some (ladder_reason ''refusal_cascade'' new_count
                                               (refusal_window_seconds t) skill)
                                  else reason s),
                       cause := (if moved then Some REFUSAL_CASCADE else cause s)\<rparr>)
                    REFUSAL_CASCADE moved skill
                    [(''refusal_count'', PInt new_count),
                     (''window_seconds'', PInt (refusal_window_seconds t)),
                     (''thresholds'', PDict (PInts [(''hard_stop'', refusal_hard_stop t)]))]
                    False w))"

text \<open>An overrun is recorded and changes no state.\<close>

definition record_runtime_seconds ::
  "'w ports \<Rightarrow> thresholds \<Rightarrow> int \<Rightarrow> string \<Rightarrow> string \<Rightarrow> rat \<Rightarrow> 'w \<Rightarrow> 'w outcome" where
  "record_runtime_seconds P t now c p seconds w =
     (case get_state P now c p w of
        Inl e \<Rightarrow> (Inl e, w)
      | Inr s \<Rightarrow>
          if seconds \<le> of_int (time_budget_seconds t) then (Inr s, w)
          else commit_transition P s s TIME_BUDGET_EXCEEDED False None
                 [(''observed_seconds'', PFloat seconds),
                  (''budget_seconds'', PInt (time_budget_seconds t)),
                  (''level_unchanged_by_design'', PBool True)]
                 True w)"

text \<open>
  The percentage in the reason text, \<open>f"{x * 100:.0f}"\<close>: rounded half to even, here
  of the exact quotient (the source divides in binary floating point first).
\<close>

definition round_half_even :: "int \<Rightarrow> int \<Rightarrow> int" where
  "round_half_even n d =
     (let q = n div d; r = 2 * (n mod d)
      in if r < d then q else if r > d then q + 1 else if even q then q else q + 1)"

definition cost_reason :: "thresholds \<Rightarrow> int \<Rightarrow> string" where
  "cost_reason t spent =
     ''cost_threshold='' @ show_int spent @ ''c / cap='' @ show_int (cost_daily_cents t)
       @ ''c ('' @ show_int (round_half_even (spent * 100) (max (cost_daily_cents t) 1)) @ ''%)''"

definition record_cost_cents ::
  "'w ports \<Rightarrow> thresholds \<Rightarrow> int \<Rightarrow> string \<Rightarrow> string \<Rightarrow> int \<Rightarrow> 'w \<Rightarrow> 'w outcome" where
  "record_cost_cents P t now c p amount w =
     (if amount < 0 then (Inl (Value_Error ''amount_cents must be non-negative''), w)
      else case get_state P now c p w of
        Inl e \<Rightarrow> (Inl e, w)
      | Inr s \<Rightarrow>
          let today = date_text now;
              new_total = (if cost_date s = Some today then cost_cents_today s else 0) + amount;
              next_level = forward_only (slevel s) (level_for_cost t new_total);
              moved = (next_level \<noteq> slevel s)
          in commit_transition P s
               (s\<lparr>slevel := next_level, updated_at := iso_stamp now,
                  cost_cents_today := new_total, cost_date := Some today,
                  reason := (if moved then Some (cost_reason t new_total) else reason s),
                  cause := (if moved then Some COST_THRESHOLD else cause s)\<rparr>)
               COST_THRESHOLD moved None
               [(''cost_cents_today'', PInt new_total),
                (''cost_daily_cents_cap'', PInt (cost_daily_cents t)),
                (''hard_stop_pct'', PInt (cost_hard_stop_pct t))]
               False w)"

section \<open>The dispatch guard and the Captain's reset\<close>

definition assert_allowed :: "'w ports \<Rightarrow> int \<Rightarrow> string \<Rightarrow> string \<Rightarrow> 'w \<Rightarrow> exn + sstate" where
  "assert_allowed P now c p w =
     (case get_state P now c p w of
        Inl e \<Rightarrow> Inl e
      | Inr s \<Rightarrow> if slevel s = HARD_STOP then Inl (Sticky_Stop_Error s) else Inr s)"

definition clear ::
  "'w ports \<Rightarrow> int \<Rightarrow> string \<Rightarrow> string \<Rightarrow> string \<Rightarrow> string \<Rightarrow> 'w \<Rightarrow> 'w outcome" where
  "clear P now c p captain_id why w =
     (if captain_id = [] then (Inl (Value_Error ''captain_id is required for clear()''), w)
      else if why = [] then (Inl (Value_Error ''reason is required for clear()''), w)
      else case get_state P now c p w of
        Inl e \<Rightarrow> (Inl e, w)
      | Inr prior \<Rightarrow>
          (case check_state
                  ((fresh_state c p now)\<lparr>cost_cents_today := cost_cents_today prior,
                                        cost_date := cost_date prior\<rparr>) of
             Inl e \<Rightarrow> (Inl e, w)
           | Inr cleared \<Rightarrow>
               let w1 = store_put P cleared w in
               (case audit_write P
                       \<lparr>action_type = ''AGENT_RESUMED'', actor = captain_id,
                        actor_role = ''captain'',
                        metadata =
                          [(''sticky_stop_cleared'', PBool True),
                           (''customer'', PStr c), (''persona'', PStr p),
                           (''from_state'', PStr (level_value (slevel prior))),
                           (''to_state'', PStr (level_value OK)),
                           (''condition_triggered'', PStr (condition_value CAPTAIN_CLEAR)),
                           (''prior_reason'', opt_str (reason prior)),
                           (''prior_condition'',
                              opt_str (map_option condition_value (cause prior))),
                           (''clear_reason'', PStr why)],
                        skill_name = None\<rparr> w1 of
                  Inl e \<Rightarrow> (Inl e, w1)
                | Inr w2 \<Rightarrow> (Inr cleared, w2))))"

section \<open>The SQLite store\<close>

text \<open>
  A row of \<open>sticky_stop_state\<close> as its columns; nullable columns are options. The table
  is the list of its rows in insertion order, with (customer, persona) as primary key:
  the upsert overwrites every column of the row with that key in place, or appends.
\<close>

record row =
  r_customer :: string
  r_persona :: string
  r_level :: string
  r_updated_at :: stamp
  r_reason :: "string option"
  r_condition :: "string option"
  r_tool_failures :: "int option"
  r_tool_window :: "stamp option"
  r_refusals :: "int option"
  r_refusal_window :: "stamp option"
  r_cost_today :: "int option"
  r_cost_date :: "string option"

type_synonym table = "row list"

definition row_key :: "row \<Rightarrow> string \<times> string" where
  "row_key r = (r_customer r, r_persona r)"

fun upsert :: "row \<Rightarrow> table \<Rightarrow> table" where
  "upsert r [] = [r]"
| "upsert r (x # xs) = (if row_key x = row_key r then r # xs else x # upsert r xs)"

definition row_state :: "row \<Rightarrow> exn + sstate" where
  "row_state r =
     (let fields = (\<lambda>cnd. check_state
        \<lparr>customer = r_customer r, persona = r_persona r,
         slevel = level_from_stored (r_level r), updated_at = r_updated_at r,
         reason = r_reason r, cause = cnd,
         consecutive_tool_failures = (case r_tool_failures r of None \<Rightarrow> 0 | Some n \<Rightarrow> n),
         tool_failure_window_started_at = r_tool_window r,
         refusal_count = (case r_refusals r of None \<Rightarrow> 0 | Some n \<Rightarrow> n),
         refusal_window_started_at = r_refusal_window r,
         cost_cents_today = (case r_cost_today r of None \<Rightarrow> 0 | Some n \<Rightarrow> n),
         cost_date = r_cost_date r\<rparr>)
      in case r_condition r of
           None \<Rightarrow> fields None
         | Some raw \<Rightarrow>
             if raw = [] then fields None
             else (case condition_of raw of
                     None \<Rightarrow> Inl (Value_Error raw)
                   | Some cnd \<Rightarrow> fields (Some cnd)))"

definition sqlite_get :: "table \<Rightarrow> string \<Rightarrow> string \<Rightarrow> exn + sstate option" where
  "sqlite_get tab c p =
     (case find (\<lambda>r. row_key r = (c, p)) tab of
        None \<Rightarrow> Inr None
      | Some r \<Rightarrow> (case row_state r of Inl e \<Rightarrow> Inl e | Inr s \<Rightarrow> Inr (Some s)))"

definition state_row :: "sstate \<Rightarrow> row" where
  "state_row s =
     \<lparr>r_customer = customer s, r_persona = persona s, r_level = level_value (slevel s),
      r_updated_at = updated_at s, r_reason = reason s,
      r_condition = map_option condition_value (cause s),
      r_tool_failures = Some (consecutive_tool_failures s),
      r_tool_window = tool_failure_window_started_at s,
      r_refusals = Some (refusal_count s), r_refusal_window = refusal_window_started_at s,
      r_cost_today = Some (cost_cents_today s), r_cost_date = cost_date s\<rparr>"

definition sqlite_put :: "sstate \<Rightarrow> table \<Rightarrow> table" where
  "sqlite_put s tab = upsert (state_row s) tab"


text \<open>
  The production world: the Machine-local table and the broker-owned audit ledger,
  which may refuse a write. \<open>AuditLedgerSink.write\<close> lets that failure propagate;
  \<open>_NoAuditSink\<close> records nothing.
\<close>

record world =
  table :: table
  ledger :: "audit_record list"
  ledger_up :: bool

definition world_get :: "string \<Rightarrow> string \<Rightarrow> world \<Rightarrow> exn + sstate option" where
  "world_get c p w = sqlite_get (table w) c p"

definition world_put :: "sstate \<Rightarrow> world \<Rightarrow> world" where
  "world_put s w = w\<lparr>table := sqlite_put s (table w)\<rparr>"

definition ledger_write :: "audit_record \<Rightarrow> world \<Rightarrow> exn + world" where
  "ledger_write r w =
     (if ledger_up w then Inr (w\<lparr>ledger := ledger w @ [r]\<rparr>)
      else Inl (Audit_Write_Failed ''audit ledger write failed''))"

definition ledger_ports :: "world ports" where
  "ledger_ports =
     \<lparr>store_get = world_get, store_put = world_put, audit_write = ledger_write\<rparr>"

definition no_audit_ports :: "world ports" where
  "no_audit_ports =
     \<lparr>store_get = world_get, store_put = world_put, audit_write = (\<lambda>r w. Inr w)\<rparr>"

section \<open>Runs of recorded events\<close>

datatype event =
    Tool_Failure "string option"
  | Tool_Success
  | Refusal "string option"
  | Runtime rat
  | Cost int

fun record_event ::
  "'w ports \<Rightarrow> thresholds \<Rightarrow> int \<Rightarrow> string \<Rightarrow> string \<Rightarrow> event \<Rightarrow> 'w \<Rightarrow> 'w outcome" where
  "record_event P t now c p (Tool_Failure sk) w = record_tool_failure P t now c p sk w"
| "record_event P t now c p Tool_Success w = record_tool_success P now c p w"
| "record_event P t now c p (Refusal sk) w = record_refusal P t now c p sk w"
| "record_event P t now c p (Runtime s) w = record_runtime_seconds P t now c p s w"
| "record_event P t now c p (Cost a) w = record_cost_cents P t now c p a w"

text \<open>A log of timed events for any keys; a caller that sees an exception carries on.\<close>

fun run_events ::
  "'w ports \<Rightarrow> thresholds \<Rightarrow> (int \<times> string \<times> string \<times> event) list \<Rightarrow> 'w \<Rightarrow> 'w" where
  "run_events P t [] w = w"
| "run_events P t ((now, c, p, e) # es) w =
     run_events P t es (snd (record_event P t now c p e w))"

text \<open>The level dispatch sees for a key: an absent row is \<open>OK\<close>.\<close>

definition level_at :: "'w ports \<Rightarrow> string \<Rightarrow> string \<Rightarrow> 'w \<Rightarrow> level" where
  "level_at P c p w = (case store_get P c p w of Inr (Some s) \<Rightarrow> slevel s | _ \<Rightarrow> OK)"

text \<open>Every way the machine changes the world: a recorded event or a Captain's clear.\<close>

inductive sticky_step ::
  "'w ports \<Rightarrow> thresholds \<Rightarrow> (string \<times> string) option \<Rightarrow> 'w \<Rightarrow> 'w \<Rightarrow> bool"
  for P t where
  recorded: "record_event P t now c p e w = (r, w') \<Longrightarrow> sticky_step P t None w w'"
| cleared: "clear P now c p captain why w = (r, w') \<Longrightarrow> sticky_step P t (Some (c, p)) w w'"

inductive_cases recordedE: "sticky_step P t None w w'"
inductive_cases clearedE: "sticky_step P t (Some k) w w'"

text \<open>
  The shape of an event that changed the store: the row of its key was replaced by one
  at least as high on the ladder.
\<close>

definition raises_to ::
  "'w ports \<Rightarrow> int \<Rightarrow> string \<Rightarrow> string \<Rightarrow> 'w \<Rightarrow> sstate \<Rightarrow> 'w \<Rightarrow> bool" where
  "raises_to P now c p w s' w' \<longleftrightarrow>
     (\<exists>s. get_state P now c p w = Inr s \<and> customer s' = customer s \<and> persona s' = persona s \<and>
          slevel s \<le> slevel s' \<and>
          (\<forall>c' p'. store_get P c' p' w' = store_get P c' p' (store_put P s' w)))"

lemma forward_only_ge [simp]: "l \<le> forward_only l l'"
  by (simp add: forward_only_def less_imp_le)

section \<open>The store and sink interfaces\<close>

text \<open>What the machine relies on from a store and from any sink.\<close>

locale sticky_store =
  fixes P :: "'w ports"
  assumes get_put_same: "\<lbrakk>customer s \<noteq> []; persona s \<noteq> []\<rbrakk> \<Longrightarrow>
      store_get P (customer s) (persona s) (store_put P s w) = Inr (Some s)"
    and get_put_other: "(c, p) \<noteq> (customer s, persona s) \<Longrightarrow>
      store_get P c p (store_put P s w) = store_get P c p w"
    and get_key: "store_get P c p w = Inr (Some s) \<Longrightarrow>
      customer s = c \<and> persona s = p \<and> c \<noteq> [] \<and> p \<noteq> []"
    and get_audit: "audit_write P r w = Inr w' \<Longrightarrow> store_get P c p w' = store_get P c p w"
begin

lemma get_put_key:
  "\<lbrakk>customer s = c; persona s = p; c \<noteq> []; p \<noteq> []\<rbrakk> \<Longrightarrow>
   store_get P c p (store_put P s w) = Inr (Some s)"
  using get_put_same by auto

lemma get_state_key:
  "get_state P now c p w = Inr s \<Longrightarrow> customer s = c \<and> persona s = p \<and> c \<noteq> [] \<and> p \<noteq> []"
  by (auto simp: get_state_def check_state_def fresh_state_def dest: get_key
      split: sum.splits option.splits if_splits)

lemma level_at_get_state: "get_state P now c p w = Inr s \<Longrightarrow> level_at P c p w = slevel s"
  by (auto simp: get_state_def check_state_def fresh_state_def level_at_def
      split: sum.splits option.splits if_splits)

lemma level_at_put_same:
  "\<lbrakk>customer s = c; persona s = p; c \<noteq> []; p \<noteq> []\<rbrakk> \<Longrightarrow>
   level_at P c p (store_put P s w) = slevel s"
  by (simp add: level_at_def get_put_key)

lemma level_at_put_other:
  "(c, p) \<noteq> (customer s, persona s) \<Longrightarrow> level_at P c p (store_put P s w) = level_at P c p w"
  by (simp add: level_at_def get_put_other)

text \<open>
  Whatever the sink does, the store after \<open>_commit_transition\<close> is the store after the
  put of the new state.
\<close>

lemma commit_store:
  assumes "commit_transition P cur next cond moved sk extra obs w = (r, w')"
  shows "\<forall>c p. store_get P c p w' = store_get P c p (store_put P next w)"
proof (intro allI)
  fix c p
  show "store_get P c p w' = store_get P c p (store_put P next w)"
    using assms
    by (auto simp: commit_transition_def Let_def get_audit [where c = c and p = p]
        split: if_splits sum.splits)
qed

lemma raises_to_put:
  "\<lbrakk>get_state P now c p w = Inr s; slevel s \<le> slevel s'; customer s' = customer s;
    persona s' = persona s\<rbrakk> \<Longrightarrow> raises_to P now c p w s' (store_put P s' w)"
  by (auto simp: raises_to_def)

lemma raises_to_commit:
  assumes "get_state P now c p w = Inr s" "slevel s \<le> slevel s'"
    and "customer s' = customer s" "persona s' = persona s"
    and "commit_transition P s s' cond moved sk extra obs w = (r, w')"
  shows "raises_to P now c p w s' w'"
  using assms commit_store [OF assms(5)] by (auto simp: raises_to_def)

lemma record_event_shape:
  assumes "record_event P t now c p e w = (r, w')"
  shows "w' = w \<or> (\<exists>s'. raises_to P now c p w s' w')"
  using assms
proof (cases e)
  case (Tool_Failure sk)
  with assms show ?thesis
    by (auto simp: record_tool_failure_def Let_def split: sum.splits prod.splits
        dest!: raises_to_commit [rotated 4])
next
  case Tool_Success
  with assms show ?thesis
    by (fastforce simp: record_tool_success_def Let_def split: sum.splits if_splits
        intro: raises_to_put)
next
  case (Refusal sk)
  with assms show ?thesis
    by (auto simp: record_refusal_def Let_def split: sum.splits prod.splits
        dest!: raises_to_commit [rotated 4])
next
  case (Runtime sec)
  with assms show ?thesis
    by (auto simp: record_runtime_seconds_def split: sum.splits if_splits
        dest!: raises_to_commit [rotated 4])
next
  case (Cost a)
  with assms show ?thesis
    by (auto simp: record_cost_cents_def Let_def split: sum.splits if_splits
        dest!: raises_to_commit [rotated 4])
qed

lemma raises_level:
  assumes "raises_to P now c p w s' w'"
  shows "level_at P c' p' w \<le> level_at P c' p' w'"
proof -
  obtain s where s: "get_state P now c p w = Inr s" "customer s' = customer s"
      "persona s' = persona s" "slevel s \<le> slevel s'"
      "\<forall>c' p'. store_get P c' p' w' = store_get P c' p' (store_put P s' w)"
    using assms by (auto simp: raises_to_def)
  have w': "level_at P c' p' w' = level_at P c' p' (store_put P s' w)"
    using s(5) by (simp add: level_at_def)
  show ?thesis
  proof (cases "(c', p') = (c, p)")
    case True
    then show ?thesis
      using s get_state_key [OF s(1)] w' level_at_get_state [OF s(1)]
      by (simp add: level_at_put_same)
  next
    case False
    then have "(c', p') \<noteq> (customer s', persona s')"
      using s get_state_key [OF s(1)] by simp
    then show ?thesis using w' by (simp add: level_at_put_other)
  qed
qed

text \<open>No recorded event lowers the level of any key.\<close>

lemma record_event_mono: "level_at P c' p' w \<le> level_at P c' p' (snd (record_event P t now c p e w))"
  by (cases "record_event P t now c p e w")
     (auto dest!: record_event_shape dest: raises_level)

lemma run_events_mono: "level_at P c' p' w \<le> level_at P c' p' (run_events P t es w)"
proof (induction es arbitrary: w)
  case Nil
  then show ?case by simp
next
  case (Cons e es)
  then show ?case
    by (cases e) (auto intro: order_trans [OF record_event_mono])
qed

text \<open>Once stopped, dispatch refuses whatever is recorded afterwards.\<close>

lemma assert_allowed_stopped:
  assumes "level_at P c p w = HARD_STOP"
  shows "\<exists>s. assert_allowed P now c p w = Inl (Sticky_Stop_Error s) \<and> customer s = c \<and>
    persona s = p \<and> slevel s = HARD_STOP"
  using assms
  by (auto simp: assert_allowed_def level_at_def get_state_def dest: get_key
      split: sum.splits option.splits)

lemma stop_survives_events:
  assumes "level_at P c p w = HARD_STOP"
  shows "level_at P c p (run_events P t es w) = HARD_STOP"
  using run_events_mono [of c p w t es] assms by simp

text \<open>A clear touches no other key.\<close>

lemma clear_frame:
  assumes "clear P now c p captain why w = (r, w')" and "(c', p') \<noteq> (c, p)"
  shows "store_get P c' p' w' = store_get P c' p' w"
  using assms
  by (auto simp: clear_def Let_def check_state_def fresh_state_def get_put_other
      get_audit [where c = c' and p = p'] split: if_splits sum.splits)

lemma clear_level:
  assumes "clear P now c p captain why w = (Inr s, w')"
  shows "level_at P c p w' = OK"
  using assms
  by (auto simp: clear_def Let_def check_state_def fresh_state_def level_at_def get_put_key
      get_audit [where c = c and p = p] split: if_splits sum.splits)

text \<open>The only step that lowers a key's level is a clear of that key.\<close>

lemma lowering_step_is_clear:
  assumes "sticky_step P t k w w'" and "level_at P c p w' < level_at P c p w"
  shows "k = Some (c, p)"
  using assms(1)
proof cases
  case (recorded now c0 p0 e r)
  then have "level_at P c p w \<le> level_at P c p w'"
    using record_event_mono [of c p w t now c0 p0 e] by simp
  with assms(2) show ?thesis by simp
next
  case (cleared now c0 p0 captain why r)
  then show ?thesis
    using assms(2) clear_frame [of now c0 p0 captain why w r w' c p]
    by (cases "(c0, p0) = (c, p)") (auto simp: level_at_def)
qed

end


text \<open>A sink that appends each record to a trail, when it accepts it.\<close>

locale audited_store = sticky_store P for P :: "'w ports" +
  fixes trail :: "'w \<Rightarrow> audit_record list"
  assumes trail_put: "trail (store_put P s w) = trail w"
    and trail_audit: "audit_write P r w = Inr w' \<Longrightarrow> trail w' = trail w @ [r]"
begin

text \<open>A transition that returns has left exactly one record, naming both levels.\<close>

lemma commit_trail:
  assumes "commit_transition P cur next cond moved sk extra obs w = (Inr s, w')"
  shows "if moved \<or> obs
    then \<exists>rec. trail w' = trail w @ [rec] \<and> actor rec = ''agent'' \<and> skill_name rec = sk \<and>
           action_type rec = (if slevel next = HARD_STOP \<and> \<not> obs then ''AGENT_STOPPED''
                              else ''INVARIANT_VIOLATION'')
    else trail w' = trail w"
  using assms
  by (auto simp: commit_transition_def Let_def trail_put dest!: trail_audit
      split: if_splits sum.splits)

definition stop_record :: "'w \<Rightarrow> 'w \<Rightarrow> bool" where
  "stop_record w w' \<longleftrightarrow> (\<exists>r. trail w' = trail w @ [r] \<and> action_type r = ''AGENT_STOPPED'')"

lemma ladder_trail:
  assumes "commit_transition P s s1 cond (forward_only (slevel s) l \<noteq> slevel s) sk extra False w
      = (Inr s', w')"
    and "slevel s1 = forward_only (slevel s) l"
  shows "(trail w' = trail w \<longleftrightarrow> slevel s' = slevel s) \<and>
    (slevel s' \<noteq> slevel s \<longrightarrow> stop_record w w')"
proof -
  have "s' = s1"
    using assms(1) by (auto simp: commit_transition_def Let_def split: if_splits sum.splits)
  moreover have "forward_only (slevel s) l \<noteq> slevel s \<Longrightarrow> forward_only (slevel s) l = HARD_STOP"
    by (cases "slevel s"; cases l) (auto simp: forward_only_def)
  ultimately show ?thesis
    using commit_trail [OF assms(1)] assms(2) by (auto simp: stop_record_def split: if_splits)
qed

text \<open>
  Audit completeness: an event that returns normally left a record exactly when it moved
  the level of its key or observed an overrun, and a move to \<open>HARD_STOP\<close> left an
  \<open>AGENT_STOPPED\<close>.
\<close>

lemma event_trail:
  assumes "record_event P t now c p e w = (Inr s', w')" "get_state P now c p w = Inr s"
    and "\<forall>sec. e \<noteq> Runtime sec"
  shows "(trail w' = trail w \<longleftrightarrow> slevel s' = slevel s) \<and>
    (slevel s' \<noteq> slevel s \<longrightarrow> stop_record w w')"
proof (cases e)
  case (Tool_Failure sk)
  with assms(1,2) show ?thesis
    by (auto simp: record_tool_failure_def Let_def split: sum.splits prod.splits
        dest!: ladder_trail)
next
  case Tool_Success
  with assms(1,2) show ?thesis
    by (auto simp: record_tool_success_def Let_def trail_put split: if_splits)
next
  case (Refusal sk)
  with assms(1,2) show ?thesis
    by (auto simp: record_refusal_def Let_def split: sum.splits prod.splits
        dest!: ladder_trail)
next
  case (Cost a)
  with assms(1) have "\<not> a < 0"
    by (auto simp: record_cost_cents_def)
  with Cost assms(1,2) show ?thesis
    by (auto simp: record_cost_cents_def Let_def dest!: ladder_trail)
qed (use assms in auto)

text \<open>An overrun changes no row and leaves one observation.\<close>

lemma runtime_trail:
  assumes "record_runtime_seconds P t now c p sec w = (Inr s', w')"
    and "sec > of_int (time_budget_seconds t)"
  shows "\<exists>r. trail w' = trail w @ [r] \<and> action_type r = ''INVARIANT_VIOLATION''"
  using assms
  by (auto simp: record_runtime_seconds_def split: sum.splits dest!: commit_trail)

end


section \<open>Streaks and daily totals\<close>

context sticky_store begin

lemma commit_row:
  assumes "commit_transition P cur s1 cond moved sk extra obs w = (r, w')"
    and "customer s1 = c" "persona s1 = p" "c \<noteq> []" "p \<noteq> []"
  shows "store_get P c p w' = Inr (Some s1)"
  using commit_store [OF assms(1)] assms(2-) by (simp add: get_put_key)

lemma tool_failure_row:
  assumes "get_state P now c p w = Inr s"
    and "tick_window (consecutive_tool_failures s) (tool_failure_window_started_at s) now
           (tool_failure_window_seconds t) = Inr (n, win)"
  shows "\<exists>s'. store_get P c p (snd (record_tool_failure P t now c p sk w)) = Inr (Some s') \<and>
    consecutive_tool_failures s' = n \<and> tool_failure_window_started_at s' = Some win \<and>
    slevel s' = forward_only (slevel s) (level_for_tool_failures t n)"
  using assms get_state_key [OF assms(1)]
  by (cases "record_tool_failure P t now c p sk w")
     (auto simp: record_tool_failure_def Let_def dest!: commit_row)

lemma get_state_of_row: "store_get P c p w = Inr (Some s) \<Longrightarrow> get_state P now c p w = Inr s"
  by (simp add: get_state_def)

lemma get_state_fresh:
  "\<lbrakk>store_get P c p w = Inr None; c \<noteq> []; p \<noteq> []\<rbrakk> \<Longrightarrow>
   get_state P now c p w = Inr (fresh_state c p now)"
  by (simp add: get_state_def check_state_def fresh_state_def)

lemma failures_from:
  assumes "store_get P c p w = Inr (Some s)"
    and "tool_failure_window_started_at s = Some win" "reads win = Aware start"
    and "slevel s = level_for_tool_failures t (consecutive_tool_failures s)"
    and "\<forall>now \<in> set nows. now - start \<le> tool_failure_window_seconds t * 1000000"
  shows "\<exists>s'. store_get P c p
        (run_events P t (map (\<lambda>now. (now, c, p, Tool_Failure sk)) nows) w) = Inr (Some s') \<and>
      consecutive_tool_failures s' = consecutive_tool_failures s + int (length nows) \<and>
      slevel s' = level_for_tool_failures t (consecutive_tool_failures s')"
  using assms
proof (induction nows arbitrary: w s)
  case Nil
  then show ?case by simp
next
  case (Cons now nows)
  have tick: "tick_window (consecutive_tool_failures s) (tool_failure_window_started_at s) now
      (tool_failure_window_seconds t) = Inr (consecutive_tool_failures s + 1, win)"
    using Cons.prems by (simp add: tick_window_def)
  obtain s1 where s1:
    "store_get P c p (snd (record_tool_failure P t now c p sk w)) = Inr (Some s1)"
    "consecutive_tool_failures s1 = consecutive_tool_failures s + 1"
    "tool_failure_window_started_at s1 = Some win"
    "slevel s1 = forward_only (slevel s) (level_for_tool_failures t (consecutive_tool_failures s + 1))"
    using tool_failure_row [OF get_state_of_row [OF Cons.prems(1)] tick] by blast
  have "slevel s1 = level_for_tool_failures t (consecutive_tool_failures s1)"
    using s1(2,4) Cons.prems(4) by (auto simp: forward_only_def level_for_tool_failures_def)
  from Cons.IH [OF s1(1,3) Cons.prems(3) this] Cons.prems(5) s1(2) show ?case
    by auto
qed

lemma failures_fresh:
  assumes "store_get P c p w = Inr None" "c \<noteq> []" "p \<noteq> []"
    and "\<forall>now \<in> set (t0 # nows). now - (t0 - t0 mod 1000) \<le> tool_failure_window_seconds t * 1000000"
  shows "\<exists>s'. store_get P c p
        (run_events P t (map (\<lambda>now. (now, c, p, Tool_Failure sk)) (t0 # nows)) w) = Inr (Some s') \<and>
      consecutive_tool_failures s' = int (length (t0 # nows)) \<and>
      slevel s' = level_for_tool_failures t (int (length (t0 # nows)))"
proof -
  have tick: "tick_window (consecutive_tool_failures (fresh_state c p t0))
      (tool_failure_window_started_at (fresh_state c p t0)) t0 (tool_failure_window_seconds t)
      = Inr (1, iso_stamp t0)"
    by (simp add: tick_window_def fresh_state_def)
  obtain s1 where s1:
    "store_get P c p (snd (record_tool_failure P t t0 c p sk w)) = Inr (Some s1)"
    "consecutive_tool_failures s1 = 1"
    "tool_failure_window_started_at s1 = Some (iso_stamp t0)"
    "slevel s1 = forward_only OK (level_for_tool_failures t 1)"
    using tool_failure_row [OF get_state_fresh [OF assms(1-3)] tick]
    by (auto simp: fresh_state_def)
  have "slevel s1 = level_for_tool_failures t (consecutive_tool_failures s1)"
    using s1(2,4) by (auto simp: forward_only_def level_for_tool_failures_def)
  from failures_from [OF s1(1,3) _ this] assms(4) s1(2) show ?thesis
    by fastforce
qed

lemma cost_row:
  assumes "get_state P now c p w = Inr s" "a \<ge> 0"
    and "k = (if cost_date s = Some (date_text now) then cost_cents_today s else 0) + a"
  shows "\<exists>s'. store_get P c p (snd (record_cost_cents P t now c p a w)) = Inr (Some s') \<and>
    cost_cents_today s' = k \<and> cost_date s' = Some (date_text now) \<and>
    slevel s' = forward_only (slevel s) (level_for_cost t k)"
  using assms get_state_key [OF assms(1)]
  by (cases "record_cost_cents P t now c p a w")
     (auto simp: record_cost_cents_def Let_def dest!: commit_row)

lemma level_for_cost_mono: "k \<le> k' \<Longrightarrow> level_for_cost t k \<le> level_for_cost t k'"
proof -
  assume "k \<le> k'"
  show ?thesis
  proof (cases "cost_daily_cents t \<le> 0")
    case True
    then show ?thesis by (simp add: level_for_cost_def)
  next
    case False
    with \<open>k \<le> k'\<close> have "(k * 100) div cost_daily_cents t \<le> (k' * 100) div cost_daily_cents t"
      by (simp add: zdiv_mono1)
    then show ?thesis by (auto simp: level_for_cost_def Let_def)
  qed
qed

lemma costs_from:
  assumes "store_get P c p w = Inr (Some s)" "cost_date s = Some today"
    and "slevel s = level_for_cost t (cost_cents_today s)"
    and "\<forall>(now, a) \<in> set spends. date_text now = today \<and> a \<ge> 0"
  shows "\<exists>s'. store_get P c p
        (run_events P t (map (\<lambda>(now, a). (now, c, p, Cost a)) spends) w) = Inr (Some s') \<and>
      cost_cents_today s' = cost_cents_today s + sum_list (map snd spends) \<and>
      slevel s' = level_for_cost t (cost_cents_today s')"
  using assms
proof (induction spends arbitrary: w s)
  case Nil
  then show ?case by simp
next
  case (Cons sp spends)
  obtain now a where sp: "sp = (now, a)" by (cases sp)
  with Cons.prems have a: "a \<ge> 0" and d: "date_text now = today" by auto
  let ?k = "cost_cents_today s + a"
  obtain s1 where s1: "store_get P c p (snd (record_cost_cents P t now c p a w)) = Inr (Some s1)"
    "cost_cents_today s1 = ?k" "cost_date s1 = Some today"
    "slevel s1 = forward_only (slevel s) (level_for_cost t ?k)"
    using cost_row [OF get_state_of_row [OF Cons.prems(1)] a refl, where t = t and now = now] Cons.prems(2) d
    by auto
  have "slevel s1 = level_for_cost t (cost_cents_today s1)"
    using s1(2,4) Cons.prems(3) level_for_cost_mono [of "cost_cents_today s" ?k t] a
    by (auto simp: forward_only_def)
  from Cons.IH [OF s1(1,3) this] Cons.prems(4) sp s1(2) show ?case
    by auto
qed

end


section \<open>The SQLite store satisfies the interface\<close>

lemma condition_roundtrip [simp]: "condition_of (condition_value k) = Some k"
  by (cases k) (simp_all add: condition_of_def conditions_def condition_value_def)

lemma condition_value_nonempty [simp]: "condition_value k \<noteq> []"
  by (cases k) (simp_all add: condition_value_def)

lemma level_roundtrip [simp]: "level_from_stored (level_value l) = l"
  by (cases l) (simp_all add: level_from_stored_def level_value_def LEGACY_LEVELS_def)

lemma row_state_roundtrip:
  "\<lbrakk>customer s \<noteq> []; persona s \<noteq> []\<rbrakk> \<Longrightarrow> row_state (state_row s) = Inr s"
  by (cases "cause s") (simp_all add: row_state_def state_row_def check_state_def)

lemma find_upsert:
  "find (\<lambda>x. row_key x = k) (upsert r tab) =
     (if k = row_key r then Some r else find (\<lambda>x. row_key x = k) tab)"
  by (induction tab) auto

lemma row_state_key:
  "row_state r = Inr s \<Longrightarrow> row_key r = (customer s, persona s) \<and> customer s \<noteq> [] \<and> persona s \<noteq> []"
  by (auto simp: row_state_def row_key_def check_state_def Let_def
      split: option.splits if_splits)

lemma row_key_state_row [simp]: "row_key (state_row s) = (customer s, persona s)"
  by (simp add: row_key_def state_row_def)

lemma world_get_put:
  "world_get c p (world_put s w) =
     (if (c, p) = (customer s, persona s)
      then (case row_state (state_row s) of Inl e \<Rightarrow> Inl e | Inr s' \<Rightarrow> Inr (Some s'))
      else world_get c p w)"
  by (auto simp: world_get_def world_put_def sqlite_get_def sqlite_put_def find_upsert)

lemma world_get_key:
  "world_get c p w = Inr (Some s) \<Longrightarrow> customer s = c \<and> persona s = p \<and> c \<noteq> [] \<and> p \<noteq> []"
  by (auto simp: world_get_def sqlite_get_def find_Some_iff split: option.splits sum.splits
      dest!: row_state_key)

lemma world_get_ledger: "ledger_write r w = Inr w' \<Longrightarrow> world_get c p w' = world_get c p w"
  by (auto simp: ledger_write_def world_get_def split: if_splits)

lemma world_put_trail: "ledger (world_put s w) = ledger w"
  by (simp add: world_put_def)

lemma ledger_write_trail: "ledger_write r w = Inr w' \<Longrightarrow> ledger w' = ledger w @ [r]"
  by (auto simp: ledger_write_def split: if_splits)

lemmas world_laws = world_get_put row_state_roundtrip world_get_ledger

interpretation led: audited_store ledger_ports ledger
  by unfold_locales
     (auto simp: ledger_ports_def world_laws world_put_trail dest: world_get_key ledger_write_trail)

interpretation silent: sticky_store no_audit_ports
  by unfold_locales
     (auto simp: no_audit_ports_def world_laws dest: world_get_key)

section \<open>Properties\<close>

text \<open>
  the store is faithful. Reading a key right after a state was put under it returns
  that state, field for field, and no other key's answer changes.
\<close>

theorem store_roundtrip:
  assumes "customer s \<noteq> []" "persona s \<noteq> []"
  shows "sqlite_get (sqlite_put s tab) (customer s) (persona s) = Inr (Some s) \<and>
    (\<forall>c p. (c, p) \<noteq> (customer s, persona s) \<longrightarrow>
       sqlite_get (sqlite_put s tab) c p = sqlite_get tab c p)"
  using assms by (simp add: sqlite_get_def sqlite_put_def find_upsert row_state_roundtrip)

theorem store_roundtrip_witness:
  "sqlite_get (sqlite_put (fresh_state ''acme'' ''marcus'' 0) []) ''acme'' ''marcus''
     = Inr (Some (fresh_state ''acme'' ''marcus'' 0))"
  using store_roundtrip [of "fresh_state ''acme'' ''marcus'' 0" "[]"]
  by (simp add: fresh_state_def)

text \<open>
  C9: a stop is sticky. Once a key is at \<open>HARD_STOP\<close>, no sequence of recorded events, for
  this key or others, at any times and whether or not their audit writes succeed, makes
  the dispatch guard let the key through: it raises, carrying the stopped state.
\<close>

theorem stop_is_sticky:
  assumes "level_at ledger_ports c p w = HARD_STOP"
  shows "\<exists>s. assert_allowed ledger_ports now c p (run_events ledger_ports t es w)
        = Inl (Sticky_Stop_Error s) \<and> customer s = c \<and> persona s = p \<and> slevel s = HARD_STOP"
  by (rule led.assert_allowed_stopped) (rule led.stop_survives_events [OF assms])

definition stopped_world :: world where
  "stopped_world =
     \<lparr>table = [state_row ((fresh_state ''acme'' ''marcus'' 0)\<lparr>slevel := HARD_STOP\<rparr>)],
      ledger = [], ledger_up = True\<rparr>"

lemma stopped_world_level: "level_at ledger_ports ''acme'' ''marcus'' stopped_world = HARD_STOP"
  by (simp add: level_at_def ledger_ports_def world_get_def stopped_world_def sqlite_get_def
      row_key_def state_row_def fresh_state_def row_state_def level_value_def
      level_from_stored_def LEGACY_LEVELS_def check_state_def)

theorem stop_is_sticky_witness:
  "\<exists>s. assert_allowed ledger_ports 9 ''acme'' ''marcus''
      (run_events ledger_ports DEFAULT_THRESHOLDS
         [(1, ''acme'', ''marcus'', Tool_Success), (5, ''acme'', ''marcus'', Cost 3)] stopped_world)
      = Inl (Sticky_Stop_Error s) \<and> customer s = ''acme'' \<and> persona s = ''marcus'' \<and>
        slevel s = HARD_STOP"
  by (rule stop_is_sticky [OF stopped_world_level])

text \<open>
  the Captain's clear is the only backward transition. In any world, a step that
  lowers the level of a key is a \<open>clear\<close> of that very key.
\<close>

theorem only_clear_lowers:
  assumes "sticky_step ledger_ports t k w w'"
    and "level_at ledger_ports c p w' < level_at ledger_ports c p w"
  shows "k = Some (c, p)"
  using assms by (rule led.lowering_step_is_clear)

lemma cleared_example:
  "clear ledger_ports 7 ''acme'' ''marcus'' ''scott'' ''false positive'' stopped_world = (r, w') \<Longrightarrow>
   \<exists>s. r = Inr s"
  by (auto simp: clear_def get_state_def ledger_ports_def world_get_def stopped_world_def
      sqlite_get_def row_key_def state_row_def fresh_state_def row_state_def check_state_def
      ledger_write_def world_put_def Let_def split: if_splits)

theorem only_clear_lowers_witness:
  "\<exists>k w'. sticky_step ledger_ports DEFAULT_THRESHOLDS k stopped_world w' \<and>
     level_at ledger_ports ''acme'' ''marcus'' w' < level_at ledger_ports ''acme'' ''marcus'' stopped_world \<and>
     k = Some (''acme'', ''marcus'')"
proof -
  obtain r w' where c:
    "clear ledger_ports 7 ''acme'' ''marcus'' ''scott'' ''false positive'' stopped_world = (r, w')"
    by fastforce
  then obtain s where "r = Inr s" using cleared_example by blast
  with c have lv: "level_at ledger_ports ''acme'' ''marcus'' w' = OK"
    using led.clear_level by blast
  have st: "sticky_step ledger_ports DEFAULT_THRESHOLDS (Some (''acme'', ''marcus'')) stopped_world w'"
    by (rule sticky_step.cleared [OF c])
  have lt: "level_at ledger_ports ''acme'' ''marcus'' w'
      < level_at ledger_ports ''acme'' ''marcus'' stopped_world"
    by (simp add: lv stopped_world_level)
  from only_clear_lowers [OF st lt] st lt show ?thesis by blast
qed


text \<open>
  the failure ladder counts consecutive failures. For a key with no row, recording
  one failure and then any number of further failures inside the window of the first
  leaves a row that counts all of them, at \<open>HARD_STOP\<close> exactly when the count reached the
  threshold. The window opens at the first failure's stored time, which has millisecond
  precision.
\<close>

theorem consecutive_failures_trip:
  assumes "world_get c p w = Inr None" "c \<noteq> []" "p \<noteq> []"
    and "\<forall>now \<in> set (t0 # nows).
      now - (t0 - t0 mod 1000) \<le> tool_failure_window_seconds t * 1000000"
  shows "\<exists>s. world_get c p (run_events ledger_ports t
        (map (\<lambda>now. (now, c, p, Tool_Failure sk)) (t0 # nows)) w) = Inr (Some s) \<and>
      consecutive_tool_failures s = int (length (t0 # nows)) \<and>
      (slevel s = HARD_STOP \<longleftrightarrow> tool_failure_hard_stop t \<le> int (length (t0 # nows)))"
  using led.failures_fresh [of c p w t0 nows t sk] assms
  by (fastforce simp: ledger_ports_def level_for_tool_failures_def)

definition empty_world :: world where
  "empty_world = \<lparr>table = [], ledger = [], ledger_up = True\<rparr>"

lemma empty_world_get [simp]: "world_get c p empty_world = Inr None"
  by (simp add: world_get_def empty_world_def sqlite_get_def)

theorem consecutive_failures_trip_witness:
  "\<exists>s. world_get ''acme'' ''marcus'' (run_events ledger_ports DEFAULT_THRESHOLDS
        (map (\<lambda>now. (now, ''acme'', ''marcus'', Tool_Failure None)) (0 # [1, 2, 3, 4, 5, 6, 7]))
        empty_world) = Inr (Some s) \<and>
      consecutive_tool_failures s = int (length (0 # [1, 2, 3, 4, 5, 6, 7 :: int])) \<and>
      (slevel s = HARD_STOP \<longleftrightarrow>
         tool_failure_hard_stop DEFAULT_THRESHOLDS \<le> int (length (0 # [1, 2, 3, 4, 5, 6, 7 :: int])))"
  by (rule consecutive_failures_trip) (simp_all add: DEFAULT_THRESHOLDS_def)

text \<open>
  the cost ladder. Within one UTC day, recorded costs add up, and the key stands at
  \<open>HARD_STOP\<close> exactly when the day's total has reached the authored percentage of the
  daily cap (with a positive cap).
\<close>

theorem daily_cost_trips:
  assumes "world_get c p w = Inr (Some s)" "cost_date s = Some today"
    and "slevel s = level_for_cost t (cost_cents_today s)" "cost_daily_cents t > 0"
    and "\<forall>(now, a) \<in> set spends. date_text now = today \<and> a \<ge> 0"
  shows "\<exists>s'. world_get c p (run_events ledger_ports t
        (map (\<lambda>(now, a). (now, c, p, Cost a)) spends) w) = Inr (Some s') \<and>
      cost_cents_today s' = cost_cents_today s + sum_list (map snd spends) \<and>
      (slevel s' = HARD_STOP \<longleftrightarrow>
         cost_hard_stop_pct t * cost_daily_cents t \<le> (cost_cents_today s + sum_list (map snd spends)) * 100)"
proof -
  from led.costs_from [of c p w s today t spends] assms obtain s' where
    "world_get c p (run_events ledger_ports t
        (map (\<lambda>(now, a). (now, c, p, Cost a)) spends) w) = Inr (Some s')"
    "cost_cents_today s' = cost_cents_today s + sum_list (map snd spends)"
    "slevel s' = level_for_cost t (cost_cents_today s')"
    by (auto simp: ledger_ports_def)
  then show ?thesis
    using assms(4) by (auto simp: level_for_cost_def Let_def le_floor_div_iff)
qed


definition spent_world :: world where
  "spent_world =
     \<lparr>table = [state_row ((fresh_state ''acme'' ''marcus'' 0)\<lparr>cost_cents_today := 9000,
                 cost_date := Some (date_text 0)\<rparr>)], ledger = [], ledger_up = True\<rparr>"

theorem daily_cost_trips_witness:
  "\<exists>s'. world_get ''acme'' ''marcus'' (run_events ledger_ports DEFAULT_THRESHOLDS
        (map (\<lambda>(now, a). (now, ''acme'', ''marcus'', Cost a)) [(0, 600), (0, 400)]) spent_world)
        = Inr (Some s') \<and>
      cost_cents_today s' = 9000 + sum_list (map snd [(0 :: int, 600), (0, 400)]) \<and>
      (slevel s' = HARD_STOP \<longleftrightarrow>
         cost_hard_stop_pct DEFAULT_THRESHOLDS * cost_daily_cents DEFAULT_THRESHOLDS
           \<le> (9000 + sum_list (map snd [(0 :: int, 600), (0, 400)])) * 100)"
proof -
  let ?s = "(fresh_state ''acme'' ''marcus'' 0)\<lparr>cost_cents_today := 9000,
              cost_date := Some (date_text 0)\<rparr>"
  have "world_get ''acme'' ''marcus'' spent_world = Inr (Some ?s)"
    by (simp add: world_get_def spent_world_def sqlite_get_def row_state_roundtrip fresh_state_def)
  then show ?thesis
    using daily_cost_trips [of "''acme''" "''marcus''" spent_world ?s "date_text 0"
        DEFAULT_THRESHOLDS "[(0, 600), (0, 400)]"]
    by (simp add: fresh_state_def DEFAULT_THRESHOLDS_def level_for_cost_def)
qed

text \<open>
  audit completeness. A tool failure, tool success, refusal or cost event that returns
  normally left the ledger as it was exactly when the level of its key did not move; when
  the level moved, the ledger has exactly one more record, an \<open>AGENT_STOPPED\<close>.
\<close>

theorem transitions_are_audited:
  assumes "record_event ledger_ports t now c p e w = (Inr s', w')"
    and "get_state ledger_ports now c p w = Inr s" and "\<forall>sec. e \<noteq> Runtime sec"
  shows "(ledger w' = ledger w \<longleftrightarrow> slevel s' = slevel s) \<and>
    (slevel s' \<noteq> slevel s \<longrightarrow>
       (\<exists>r. ledger w' = ledger w @ [r] \<and> action_type r = ''AGENT_STOPPED''))"
  using led.event_trail [OF assms] by (simp add: led.stop_record_def)

lemma probe_cost_event:
  "record_event ledger_ports DEFAULT_THRESHOLDS 0 ''acme'' ''marcus'' (Cost 10000) empty_world
     = (Inr s', w') \<Longrightarrow> slevel s' = HARD_STOP"
  by (auto simp: record_cost_cents_def Let_def get_state_def ledger_ports_def check_state_def
      fresh_state_def commit_transition_def ledger_write_def world_put_def empty_world_def
      world_get_def sqlite_get_def forward_only_def level_for_cost_def DEFAULT_THRESHOLDS_def
      split: if_splits)

theorem transitions_are_audited_witness:
  "\<exists>s' w' r. record_event ledger_ports DEFAULT_THRESHOLDS 0 ''acme'' ''marcus'' (Cost 10000) empty_world
      = (Inr s', w') \<and> ledger w' = ledger empty_world @ [r] \<and> action_type r = ''AGENT_STOPPED''"
proof -
  obtain res w' where ev:
    "record_event ledger_ports DEFAULT_THRESHOLDS 0 ''acme'' ''marcus'' (Cost 10000) empty_world
      = (res, w')" by fastforce
  then obtain s' where res: "res = Inr s'"
    by (auto simp: record_cost_cents_def Let_def get_state_def ledger_ports_def check_state_def
        fresh_state_def commit_transition_def ledger_write_def world_put_def empty_world_def
        world_get_def sqlite_get_def split: if_splits)
  have st: "get_state ledger_ports 0 ''acme'' ''marcus'' empty_world
      = Inr (fresh_state ''acme'' ''marcus'' 0)"
    by (simp add: get_state_def ledger_ports_def check_state_def fresh_state_def)
  have ev': "record_event ledger_ports DEFAULT_THRESHOLDS 0 ''acme'' ''marcus'' (Cost 10000)
      empty_world = (Inr s', w')"
    using ev res by simp
  have "slevel s' \<noteq> slevel (fresh_state ''acme'' ''marcus'' 0)"
    using probe_cost_event [OF ev'] by (simp add: fresh_state_def)
  then show ?thesis
    using transitions_are_audited [OF ev' st] ev' by blast
qed

text \<open>
  a trip stands even when it cannot be audited. If the ledger refuses the record of a
  recorded event, the operation raises, but the row it computed, at its new level, has
  been persisted, so dispatch sees the stop.
\<close>

theorem unaudited_trip_stands:
  assumes "get_state ledger_ports now c p w = Inr s" "\<not> ledger_up w"
    and "a \<ge> 0" "cost_hard_stop_pct t * cost_daily_cents t
           \<le> ((if cost_date s = Some (date_text now) then cost_cents_today s else 0) + a) * 100"
    and "cost_daily_cents t > 0" "slevel s = OK"
  shows "\<exists>e w'. record_event ledger_ports t now c p (Cost a) w = (Inl e, w') \<and>
    level_at ledger_ports c p w' = HARD_STOP"
proof -
  let ?k = "(if cost_date s = Some (date_text now) then cost_cents_today s else 0) + a"
  have lv: "level_for_cost t ?k = HARD_STOP"
    using assms(4,5) by (simp add: level_for_cost_def Let_def le_floor_div_iff)
  obtain s1 where
    "store_get ledger_ports c p (snd (record_cost_cents ledger_ports t now c p a w)) = Inr (Some s1)"
    "slevel s1 = forward_only (slevel s) (level_for_cost t ?k)"
    using led.cost_row [OF assms(1,3) refl, of t] by blast
  moreover have "\<exists>e. fst (record_cost_cents ledger_ports t now c p a w) = Inl e"
    using assms lv
    by (auto simp: record_cost_cents_def Let_def commit_transition_def ledger_ports_def
        ledger_write_def world_put_def forward_only_def split: if_splits)
  ultimately show ?thesis
    using lv assms(6)
    by (cases "record_cost_cents ledger_ports t now c p a w")
       (auto simp: level_at_def forward_only_def)
qed

theorem unaudited_trip_stands_witness:
  "\<exists>e w'. record_event ledger_ports DEFAULT_THRESHOLDS 0 ''acme'' ''marcus'' (Cost 10000)
      (empty_world\<lparr>ledger_up := False\<rparr>) = (Inl e, w') \<and>
    level_at ledger_ports ''acme'' ''marcus'' w' = HARD_STOP"
  by (rule unaudited_trip_stands [where s = "fresh_state ''acme'' ''marcus'' 0"])
     (simp_all add: get_state_def ledger_ports_def world_get_def sqlite_get_def empty_world_def
        check_state_def fresh_state_def DEFAULT_THRESHOLDS_def)

end
