(* ===== verification/Cost_Breaker.thy ===== *)
theory Cost_Breaker
  imports Sticky_Stop "HOL-Library.Char_ord" "HOL-Library.List_Lexorder"
begin

text \<open>
  The glue that binds the sticky-stop machine to a Machine (\<open>shared/cost_breaker.py\<close>):
  thresholds from the authored configuration, the breaker handle, the Captain's clear and
  the operator's pin over the whole table, the read-only observer the webhook gate and
  the heartbeat use, and the boot probe.

  A configuration is its parsed document, a mapping; \<open>None\<close> is no configuration at all.
\<close>

section \<open>Authored thresholds\<close>

text \<open>\<open>CustomerConfig.sticky_stop\<close>.\<close>

definition sticky_stop_block :: "pydict \<Rightarrow> py_exn + pydict" where
  "sticky_stop_block data =
     (case (if truthy (dget data ''safety'') then dget data ''safety'' else PDict []) of
        PDict safety \<Rightarrow>
          (case (if truthy (dget safety ''sticky_stop'') then dget safety ''sticky_stop''
                 else PDict []) of
             PDict raw \<Rightarrow> Inr raw
           | _ \<Rightarrow> Inl (ConfigError ''customer.yaml: safety.sticky_stop must be a mapping''))
      | _ \<Rightarrow> Inl (ConfigError ''customer.yaml: safety must be a mapping''))"

definition config_block :: "pydict option \<Rightarrow> py_exn + pydict" where
  "config_block cfg = (case cfg of None \<Rightarrow> Inr [] | Some d \<Rightarrow> sticky_stop_block d)"

text \<open>
  The body of the \<open>try\<close>: an authored value that is not a positive integer raises.
\<close>

definition authored_positive :: "pydict option \<Rightarrow> string \<Rightarrow> py_exn + int option" where
  "authored_positive cfg key =
     (case config_block cfg of
        Inl e \<Rightarrow> Inl e
      | Inr block \<Rightarrow>
          if dget block key = PNone then Inr None
          else (case py_int (dget block key) of
                  Inl e \<Rightarrow> Inl e
                | Inr n \<Rightarrow> if n \<le> 0 then Inl (ValueError (key @ '' must be positive''))
                           else Inr (Some n)))"

definition thresholds_from_config :: "pydict option \<Rightarrow> thresholds" where
  "thresholds_from_config cfg =
     (case authored_positive cfg ''cost_cap_daily_cents'' of
        Inl e \<Rightarrow> DEFAULT_THRESHOLDS
      | Inr None \<Rightarrow> DEFAULT_THRESHOLDS
      | Inr (Some n) \<Rightarrow> DEFAULT_THRESHOLDS\<lparr>cost_daily_cents := n\<rparr>)"

section \<open>The breaker handle\<close>

record breaker =
  b_customer :: string
  b_persona :: string
  b_thresholds :: thresholds

definition build_breaker :: "string \<Rightarrow> string \<Rightarrow> pydict option \<Rightarrow> breaker" where
  "build_breaker c p cfg =
     \<lparr>b_customer = c, b_persona = p, b_thresholds = thresholds_from_config cfg\<rparr>"

text \<open>The synchronous facade: every method forwards to the machine under the handle's key.\<close>

definition breaker_record :: "breaker \<Rightarrow> int \<Rightarrow> event \<Rightarrow> world \<Rightarrow> world outcome" where
  "breaker_record b now e w =
     record_event ledger_ports (b_thresholds b) now (b_customer b) (b_persona b) e w"

definition breaker_assert_allowed :: "breaker \<Rightarrow> int \<Rightarrow> world \<Rightarrow> exn + sstate" where
  "breaker_assert_allowed b now w =
     assert_allowed ledger_ports now (b_customer b) (b_persona b) w"

section \<open>The Captain's clear of every stopped row\<close>

type_synonym row_ref = "string \<times> string \<times> string"

fun clear_rows ::
  "world ports \<Rightarrow> int \<Rightarrow> string \<Rightarrow> string \<Rightarrow> row_ref list \<Rightarrow> world \<Rightarrow>
   (exn + row_ref list) \<times> world" where
  "clear_rows P now captain why [] w = (Inr [], w)"
| "clear_rows P now captain why ((c, p, l) # rest) w =
     (case clear P now c p captain why w of
        (Inl e, w') \<Rightarrow> (Inl e, w')
      | (Inr _, w') \<Rightarrow>
          (case clear_rows P now captain why rest w' of
             (Inl e, w'') \<Rightarrow> (Inl e, w'')
           | (Inr done_rows, w'') \<Rightarrow> (Inr ((c, p, l) # done_rows), w'')))"

text \<open>\<open>SELECT customer, persona, level FROM sticky_stop_state WHERE level != 'OK'\<close>.\<close>

definition non_ok_rows :: "table \<Rightarrow> row_ref list" where
  "non_ok_rows tab =
     map (\<lambda>r. (r_customer r, r_persona r, r_level r)) (filter (\<lambda>r. r_level r \<noteq> ''OK'') tab)"

text \<open>
  \<open>exists\<close> says whether the state file is there; \<open>audited\<close> whether the caller passed an
  audit client (the gate-driven clear passes none).
\<close>

definition clear_hard_stops ::
  "bool \<Rightarrow> bool \<Rightarrow> int \<Rightarrow> string \<Rightarrow> string \<Rightarrow> world \<Rightarrow> (exn + row_ref list) \<times> world" where
  "clear_hard_stops exists audited now captain why w =
     (if captain = [] \<or> why = []
      then (Inl (Value_Error ''captain_id and reason are required''), w)
      else if \<not> exists then (Inr [], w)
      else let rows = non_ok_rows (table w) in
        if rows = [] then (Inr [], w)
        else clear_rows (if audited then ledger_ports else no_audit_ports) now captain why rows w)"

section \<open>The operator's pin\<close>

definition pin_reason :: "string \<Rightarrow> string \<Rightarrow> string" where
  "pin_reason actor_id why = ''operator_pause by '' @ actor_id @ '': '' @ why"

definition pin_row :: "string \<Rightarrow> int \<Rightarrow> row \<Rightarrow> row" where
  "pin_row why now r =
     r\<lparr>r_level := level_value HARD_STOP, r_reason := Some why, r_condition := None,
       r_updated_at := iso_stamp now\<rparr>"

text \<open>A row inserted with the schema's column defaults.\<close>

definition machine_row :: "string \<Rightarrow> string \<Rightarrow> int \<Rightarrow> row" where
  "machine_row slug why now =
     \<lparr>r_customer = slug, r_persona = ''_machine'', r_level = level_value HARD_STOP,
      r_updated_at = iso_stamp now, r_reason = Some why, r_condition = None,
      r_tool_failures = Some 0, r_tool_window = None, r_refusals = Some 0,
      r_refusal_window = None, r_cost_today = Some 0, r_cost_date = None\<rparr>"

definition pin_hard_stops ::
  "string \<Rightarrow> int \<Rightarrow> string \<Rightarrow> string \<Rightarrow> world \<Rightarrow> (exn + row_ref list) \<times> world" where
  "pin_hard_stops slug now actor_id why w =
     (if actor_id = [] \<or> why = []
      then (Inl (Value_Error ''actor_id and reason are required''), w)
      else
        let stamped = pin_reason actor_id why;
            rows = table w;
            pinned = map (\<lambda>r. (r_customer r, r_persona r, r_level r)) rows;
            updated = map (pin_row stamped now) rows
        in if \<exists>r \<in> set rows. r_persona r = ''_machine''
           then (Inr pinned, w\<lparr>table := updated\<rparr>)
           else (Inr (pinned @ [(slug, ''_machine'', ''OK'')]),
                 w\<lparr>table := updated @ [machine_row slug stamped now]\<rparr>))"

section \<open>The read-only observer\<close>

record stop_view =
  v_level :: "string option"
  v_reason :: "string option"
  v_condition :: "string option"

text \<open>
  What opening and reading the state file gives: no file, an error, the rows, or the
  levels only on a seat whose table predates the cause columns. A row read is (level,
  reason, condition, updated_at).
\<close>

type_synonym cause_row = "string \<times> string option \<times> string option \<times> string option"

datatype db_read = Absent | Read_Failed | Rows "cause_row list" | Levels_Only "string list"

definition no_cause :: "string option \<Rightarrow> stop_view" where
  "no_cause l = \<lparr>v_level = l, v_reason = None, v_condition = None\<rparr>"

definition vocabulary :: "string list" where
  "vocabulary = [level_value OK, level_value HARD_STOP]"

definition rank_of :: "string \<Rightarrow> int" where
  "rank_of l = (if l = level_value OK then 0 else 1)"

definition nonempty :: "string option \<Rightarrow> string option" where
  "nonempty s = (case s of None \<Rightarrow> None | Some t \<Rightarrow> if t = [] then None else Some t)"

type_synonym worst_state = "stop_view option \<times> int \<times> string"

text \<open>One turn of the loop over the rows.\<close>

definition observe_row :: "worst_state \<Rightarrow> cause_row \<Rightarrow> worst_state" where
  "observe_row acc r =
     (case acc of (worst, worst_rank, worst_updated) \<Rightarrow>
      case r of (l0, rsn0, cnd0, updated) \<Rightarrow>
      let (l, rsn, cnd) = (if l0 \<in> set LEGACY_LEVELS then (level_value OK, None, None)
                           else (l0, rsn0, cnd0)) in
      if l \<notin> set vocabulary then acc
      else
        let rank = rank_of l; stp = str_or updated [] in
        if rank < worst_rank \<or> (rank = worst_rank \<and> stp \<le> worst_updated) then acc
        else (Some \<lparr>v_level = Some l, v_reason = map_option (take 300) (nonempty rsn),
                    v_condition = nonempty cnd\<rparr>, rank, stp))"

definition observe :: "cause_row list \<Rightarrow> stop_view" where
  "observe rows =
     (if rows = [] then no_cause (Some (level_value OK))
      else case foldl observe_row (None, -1, []) rows of
        (None, _, _) \<Rightarrow> no_cause (Some ''unknown'')
      | (Some v, _, _) \<Rightarrow>
          if v_level v = Some (level_value OK) then no_cause (v_level v) else v)"

definition read_stop_state :: "db_read \<Rightarrow> stop_view" where
  "read_stop_state db =
     (case db of
        Absent \<Rightarrow> no_cause None
      | Read_Failed \<Rightarrow> no_cause (Some ''unknown'')
      | Rows rows \<Rightarrow> observe rows
      | Levels_Only ls \<Rightarrow> observe (map (\<lambda>l. (l, None, None, None)) ls))"

definition read_level :: "db_read \<Rightarrow> string option" where
  "read_level db = v_level (read_stop_state db)"

text \<open>Reading the machine's own table.\<close>

definition cause_row :: "row \<Rightarrow> cause_row" where
  "cause_row r = (r_level r, r_reason r, r_condition r, Some (stamp_text (r_updated_at r)))"

definition read_world :: "world \<Rightarrow> db_read" where
  "read_world w = Rows (map cause_row (table w))"

section \<open>The boot probe\<close>

text \<open>The outcome names the message the probe returns and the values it interpolates.\<close>

datatype probe_result =
    Probe_Ok
  | Ladder_Did_Not_Trip sstate sstate
  | Guard_Did_Not_Refuse
  | Probe_Raised exn

definition run_boot_probe :: "world ports \<Rightarrow> int \<Rightarrow> world \<Rightarrow> probe_result" where
  "run_boot_probe P now w =
     (let t = DEFAULT_THRESHOLDS\<lparr>cost_daily_cents := 1\<rparr> in
      case record_cost_cents P t now ''_probe'' ''_probe'' 1000 w of
        (Inl e, _) \<Rightarrow> Probe_Raised e
      | (Inr recorded, w1) \<Rightarrow>
          (case get_state P now ''_probe'' ''_probe'' w1 of
             Inl e \<Rightarrow> Probe_Raised e
           | Inr s \<Rightarrow>
               if slevel s \<noteq> HARD_STOP then Ladder_Did_Not_Trip s recorded
               else (case assert_allowed P now ''_probe'' ''_probe'' w1 of
                       Inl (Sticky_Stop_Error _) \<Rightarrow> Probe_Ok
                     | Inl e \<Rightarrow> Probe_Raised e
                     | Inr _ \<Rightarrow> Guard_Did_Not_Refuse)))"


section \<open>The observer's loop\<close>

lemma level_values [simp]: "level_value OK = ''OK''" "level_value HARD_STOP = ''HARD_STOP''"
  by (simp_all add: level_value_def)

lemma legacy_levels [simp]: "''HARD_STOP'' \<notin> set LEGACY_LEVELS" "''OK'' \<notin> set LEGACY_LEVELS"
  by (simp_all add: LEGACY_LEVELS_def)

text \<open>A stored level that is in the ladder's vocabulary, the removed rungs included.\<close>

definition recognised :: "string \<Rightarrow> bool" where
  "recognised l \<longleftrightarrow> l = ''OK'' \<or> l = ''HARD_STOP'' \<or> l \<in> set LEGACY_LEVELS"

text \<open>
  What the loop knows after the rows seen so far: at rank 1 it holds the cause of a
  stopped row with the latest stamp among the stopped rows; at rank 0 no row seen is
  stopped and one was recognised; at rank -1 it has seen no recognised row.
\<close>

definition latest_stop :: "cause_row list \<Rightarrow> stop_view \<Rightarrow> string \<Rightarrow> bool" where
  "latest_stop rows v stp \<longleftrightarrow>
     (\<exists>rsn cnd u. (''HARD_STOP'', rsn, cnd, u) \<in> set rows \<and> stp = str_or u [] \<and>
        v = \<lparr>v_level = Some ''HARD_STOP'', v_reason = map_option (take 300) (nonempty rsn),
             v_condition = nonempty cnd\<rparr>) \<and>
     (\<forall>rsn cnd u. (''HARD_STOP'', rsn, cnd, u) \<in> set rows \<longrightarrow> str_or u [] \<le> stp)"

definition loop_inv :: "cause_row list \<Rightarrow> worst_state \<Rightarrow> bool" where
  "loop_inv rows acc \<longleftrightarrow>
     (case acc of
        (None, rank, _) \<Rightarrow> rank = -1 \<and> (\<forall>r \<in> set rows. \<not> recognised (fst r))
      | (Some v, rank, stp) \<Rightarrow>
          (rank = 1 \<and> latest_stop rows v stp) \<or>
          (rank = 0 \<and> v_level v = Some ''OK'' \<and> (\<exists>r \<in> set rows. recognised (fst r)) \<and>
             (\<forall>r \<in> set rows. fst r \<noteq> ''HARD_STOP'')))"

lemma latest_stop_later:
  assumes "latest_stop rows v stp" "str_or u [] \<le> stp"
  shows "latest_stop (rows @ [(l, rsn, cnd, u)]) v stp"
  using assms by (auto simp: latest_stop_def)

lemma latest_stop_other:
  assumes "latest_stop rows v stp" "l \<noteq> ''HARD_STOP''"
  shows "latest_stop (rows @ [(l, rsn, cnd, u)]) v stp"
  using assms by (auto simp: latest_stop_def)

lemma latest_stop_new:
  assumes "\<forall>r \<in> set rows. fst r \<noteq> ''HARD_STOP''"
  shows "latest_stop (rows @ [(''HARD_STOP'', rsn, cnd, u)])
    \<lparr>v_level = Some ''HARD_STOP'', v_reason = map_option (take 300) (nonempty rsn),
     v_condition = nonempty cnd\<rparr> (str_or u [])"
  using assms by (fastforce simp: latest_stop_def)

lemma latest_stop_newer:
  assumes "latest_stop rows v stp" "stp < str_or u []"
  shows "latest_stop (rows @ [(''HARD_STOP'', rsn, cnd, u)])
    \<lparr>v_level = Some ''HARD_STOP'', v_reason = map_option (take 300) (nonempty rsn),
     v_condition = nonempty cnd\<rparr> (str_or u [])"
  using assms by (fastforce simp: latest_stop_def intro: order_trans less_imp_le)

definition stop_cause :: "string option \<Rightarrow> string option \<Rightarrow> stop_view" where
  "stop_cause rsn cnd =
     \<lparr>v_level = Some ''HARD_STOP'', v_reason = map_option (take 300) (nonempty rsn),
      v_condition = nonempty cnd\<rparr>"

lemma observe_row_hard:
  "observe_row (worst, rank, stp) (''HARD_STOP'', rsn, cnd, u) =
     (if 1 < rank \<or> (rank = 1 \<and> str_or u [] \<le> stp) then (worst, rank, stp)
      else (Some (stop_cause rsn cnd), 1, str_or u []))"
  by (auto simp: observe_row_def vocabulary_def rank_of_def Let_def stop_cause_def)

lemma observe_row_ok:
  assumes "l = ''OK'' \<or> l \<in> set LEGACY_LEVELS"
  obtains v where "v_level v = Some ''OK''"
    "observe_row (worst, rank, stp) (l, rsn, cnd, u) =
      (if 0 < rank \<or> (rank = 0 \<and> str_or u [] \<le> stp) then (worst, rank, stp)
       else (Some v, 0, str_or u []))"
proof (cases "l \<in> set LEGACY_LEVELS")
  case True
  then show ?thesis
    by (intro that [of "no_cause (Some ''OK'')"])
       (simp_all add: observe_row_def vocabulary_def rank_of_def no_cause_def nonempty_def Let_def)
next
  case False
  with assms show ?thesis
    by (intro that [of "\<lparr>v_level = Some ''OK'', v_reason = map_option (take 300) (nonempty rsn),
          v_condition = nonempty cnd\<rparr>"])
       (simp_all add: observe_row_def vocabulary_def rank_of_def Let_def)
qed

lemma observe_row_other:
  "\<not> recognised l \<Longrightarrow> observe_row acc (l, rsn, cnd, u) = acc"
  by (cases acc) (auto simp: observe_row_def vocabulary_def recognised_def Let_def)

lemma observe_row_inv:
  assumes "loop_inv rows acc"
  shows "loop_inv (rows @ [r]) (observe_row acc r)"
proof -
  obtain worst rank stp where acc: "acc = (worst, rank, stp)" by (cases acc)
  obtain l rsn cnd u where r: "r = (l, rsn, cnd, u)" by (cases r)
  consider (hard) "l = ''HARD_STOP''" | (ok) "l = ''OK'' \<or> l \<in> set LEGACY_LEVELS"
    | (other) "\<not> recognised l"
    by (auto simp: recognised_def)
  then show ?thesis
  proof cases
    case hard
    show ?thesis
    proof (cases "1 < rank \<or> (rank = 1 \<and> str_or u [] \<le> stp)")
      case True
      then obtain v where "worst = Some v" "rank = 1" "latest_stop rows v stp" "str_or u [] \<le> stp"
        using assms by (auto simp: acc loop_inv_def split: option.splits)
      then show ?thesis
        using hard by (simp add: acc r observe_row_hard loop_inv_def latest_stop_later)
    next
      case False
      then have "(\<forall>r \<in> set rows. fst r \<noteq> ''HARD_STOP'') \<or>
          (\<exists>v. latest_stop rows v stp \<and> stp < str_or u [])"
        using assms by (auto simp: acc loop_inv_def recognised_def not_le split: option.splits)
      then show ?thesis
        using False hard latest_stop_new latest_stop_newer
        by (auto simp: acc r observe_row_hard loop_inv_def stop_cause_def)
    qed
  next
    case ok
    then have l: "l \<noteq> ''HARD_STOP''" "recognised l" by (auto simp: recognised_def)
    obtain v where v: "v_level v = Some ''OK''"
      "observe_row (worst, rank, stp) (l, rsn, cnd, u) =
        (if 0 < rank \<or> (rank = 0 \<and> str_or u [] \<le> stp) then (worst, rank, stp)
         else (Some v, 0, str_or u []))"
      using observe_row_ok [OF ok] by blast
    show ?thesis
    proof (cases "rank = 1")
      case True
      then show ?thesis
        using assms v l
        by (cases worst) (auto simp: acc r loop_inv_def intro: latest_stop_other)
    next
      case False
      then have "rank \<le> 0" "\<forall>r \<in> set rows. fst r \<noteq> ''HARD_STOP''"
        using assms by (cases worst; auto simp: acc loop_inv_def recognised_def)+
      then show ?thesis
        using assms v l False
        by (cases worst) (auto simp: acc r loop_inv_def)
    qed
  next
    case other
    then have "l \<noteq> ''HARD_STOP''" by (auto simp: recognised_def)
    then show ?thesis
      using assms other
      by (auto simp: acc r loop_inv_def observe_row_other intro: latest_stop_other
          split: option.splits)
  qed
qed

lemma observe_loop: "loop_inv rows (foldl observe_row (None, -1, []) rows)"
proof (induction rows rule: rev_induct)
  case Nil
  then show ?case by (simp add: loop_inv_def)
next
  case (snoc r rows)
  then show ?case using observe_row_inv by simp
qed

lemma observe_hard:
  "v_level (observe rows) = Some ''HARD_STOP'' \<longleftrightarrow> (\<exists>r \<in> set rows. fst r = ''HARD_STOP'')"
proof -
  obtain worst rank stp where acc: "foldl observe_row (None, -1, []) rows = (worst, rank, stp)"
    by (metis prod_cases3)
  with observe_loop [of rows] have "loop_inv rows (worst, rank, stp)" by simp
  then show ?thesis
    by (cases worst)
       (force simp: observe_def acc loop_inv_def no_cause_def latest_stop_def recognised_def)+
qed

lemma observe_hard_cause:
  assumes "v_level (observe rows) = Some ''HARD_STOP''"
  shows "\<exists>stp. latest_stop rows (observe rows) stp"
proof -
  obtain worst rank stp where acc: "foldl observe_row (None, -1, []) rows = (worst, rank, stp)"
    by (metis prod_cases3)
  with observe_loop [of rows] have "loop_inv rows (worst, rank, stp)" by simp
  then show ?thesis
    using assms
    by (cases worst) (auto simp: observe_def acc loop_inv_def no_cause_def split: if_splits)
qed


section \<open>Clearing and pinning the table\<close>

definition keyed :: "table \<Rightarrow> bool" where
  "keyed tab \<longleftrightarrow> distinct (map row_key tab)"

lemma set_upsert:
  "keyed tab \<Longrightarrow> set (upsert r tab) = insert r {x \<in> set tab. row_key x \<noteq> row_key r}"
  by (induction tab) (auto simp: keyed_def image_iff)

lemma keys_upsert: "set (map row_key (upsert r tab)) = insert (row_key r) (set (map row_key tab))"
  by (induction tab) auto

lemma keyed_upsert [simp]: "keyed tab \<Longrightarrow> keyed (upsert r tab)"
proof (induction tab)
  case (Cons x tab)
  then show ?case using keys_upsert [of r tab] by (auto simp: keyed_def)
qed (simp add: keyed_def)

lemma find_keyed:
  "\<lbrakk>keyed tab; r \<in> set tab; row_key r = k\<rbrakk> \<Longrightarrow> find (\<lambda>x. row_key x = k) tab = Some r"
  by (induction tab) (auto simp: keyed_def image_iff)

text \<open>Both sinks leave the table to the store.\<close>

lemma clear_table:
  assumes "clear P now c p captain why w = (Inr s, w')"
    and "P = ledger_ports \<or> P = no_audit_ports"
  shows "table w' = upsert (state_row s) (table w) \<and> customer s = c \<and> persona s = p \<and>
    slevel s = OK"
  using assms
  by (auto simp: clear_def check_state_def fresh_state_def ledger_ports_def no_audit_ports_def
      world_put_def sqlite_put_def ledger_write_def Let_def split: if_splits sum.splits)

lemma clear_failed_table:
  assumes "clear P now c p captain why w = (Inl e, w')"
    and "P = ledger_ports \<or> P = no_audit_ports"
  shows "table w' = table w \<or> (\<exists>s. table w' = upsert (state_row s) (table w) \<and>
    customer s = c \<and> persona s = p)"
  using assms
  by (auto simp: clear_def check_state_def fresh_state_def ledger_ports_def no_audit_ports_def
      world_put_def sqlite_put_def ledger_write_def Let_def split: if_splits sum.splits)

lemma clear_rows_table:
  assumes "clear_rows P now captain why refs w = (Inr xs, w')"
    and "P = ledger_ports \<or> P = no_audit_ports" "keyed (table w)"
    and "r \<in> set (table w')"
  shows "r_level r = ''OK'' \<or> (r \<in> set (table w) \<and> row_key r \<notin> (\<lambda>(c, p, l). (c, p)) ` set refs)"
  using assms
proof (induction refs arbitrary: w xs)
  case Nil
  then show ?case by simp
next
  case (Cons ref refs)
  obtain c p l where ref: "ref = (c, p, l)" by (cases ref)
  obtain s w1 ys where one: "clear P now c p captain why w = (Inr s, w1)"
    and rest: "clear_rows P now captain why refs w1 = (Inr ys, w')"
    using Cons.prems(1) by (auto simp: ref split: prod.splits sum.splits)
  have t: "table w1 = upsert (state_row s) (table w)" "(customer s, persona s) = (c, p)"
      "r_level (state_row s) = ''OK''"
    using clear_table [OF one Cons.prems(2)] by (auto simp: state_row_def)
  have "keyed (table w1)" using Cons.prems(3) t by simp
  from Cons.IH [OF rest Cons.prems(2) this Cons.prems(4)] show ?case
    using t set_upsert [OF Cons.prems(3), of "state_row s"] by (auto simp: ref)
qed

text \<open>A row whose cause is outside the vocabulary cannot be loaded, so it cannot be cleared.\<close>

definition unreadable :: "row \<Rightarrow> bool" where
  "unreadable r \<longleftrightarrow> (\<exists>raw. r_condition r = Some raw \<and> raw \<noteq> [] \<and> condition_of raw = None)"

lemma unreadable_get:
  assumes "keyed tab" "r \<in> set tab" "unreadable r" "row_key r = (c, p)"
  shows "\<exists>e. sqlite_get tab c p = Inl e"
  using assms find_keyed [OF assms(1,2,4)]
  by (auto simp: sqlite_get_def row_state_def unreadable_def)

lemma unreadable_blocks_clear:
  assumes "keyed (table w)" "r \<in> set (table w)" "unreadable r"
    and "row_key r \<in> (\<lambda>(c, p, l). (c, p)) ` set refs" "captain \<noteq> []" "why \<noteq> []"
    and P: "P = ledger_ports \<or> P = no_audit_ports"
  shows "\<exists>e w'. clear_rows P now captain why refs w = (Inl e, w') \<and> r \<in> set (table w')"
  using assms(1-4)
proof (induction refs arbitrary: w)
  case Nil
  then show ?case by simp
next
  case (Cons ref refs)
  obtain c p l where ref: "ref = (c, p, l)" by (cases ref)
  obtain res w1 where one: "clear P now c p captain why w = (res, w1)" by fastforce
  show ?case
  proof (cases "row_key r = (c, p)")
    case True
    then obtain e where "sqlite_get (table w) c p = Inl e"
      using unreadable_get [OF Cons.prems(1-3)] by blast
    then have "clear P now c p captain why w = (Inl e, w)"
      using P assms(5,6)
      by (auto simp: clear_def get_state_def ledger_ports_def no_audit_ports_def world_get_def)
    then show ?thesis
      using Cons.prems(2) by (simp add: ref)
  next
    case False
    show ?thesis
    proof (cases res)
      case (Inl e)
      then have "r \<in> set (table w1)"
        using clear_failed_table [OF one [unfolded Inl] P] Cons.prems(1,2) False set_upsert
        by auto
      then show ?thesis using one Inl by (auto simp: ref)
    next
      case (Inr s)
      have t: "table w1 = upsert (state_row s) (table w)" "(customer s, persona s) = (c, p)"
        using clear_table [OF one [unfolded Inr] P] by auto
      then have "keyed (table w1)" "r \<in> set (table w1)"
        using Cons.prems(1,2) False set_upsert [OF Cons.prems(1), of "state_row s"] by auto
      from Cons.IH [OF this Cons.prems(3)] Cons.prems(4) False show ?thesis
        using one Inr by (fastforce simp: ref split: prod.splits sum.splits)
    qed
  qed
qed

section \<open>Properties\<close>

text \<open>
  the observer reports a stop exactly when some stored row is at \<open>HARD_STOP\<close>, and then
  its cause is the cause of a stopped row whose timestamp no other stopped row exceeds:
  a level is never paired with another row's reason.
\<close>

theorem observer_reports_the_stop_and_its_cause:
  "(read_level (Rows rows) = Some ''HARD_STOP'' \<longleftrightarrow> (\<exists>r \<in> set rows. fst r = ''HARD_STOP'')) \<and>
   (read_level (Rows rows) \<noteq> Some ''HARD_STOP'' \<or>
     (\<exists>stp. latest_stop rows (read_stop_state (Rows rows)) stp))"
  using observe_hard [of rows] observe_hard_cause [of rows]
  by (auto simp: read_level_def read_stop_state_def)

theorem observer_reports_the_stop_and_its_cause_witness:
  "read_level (Rows [(''HARD_STOP'', Some ''refused'', None, Some ''2''), (''OK'', None, None, None)])
     = Some ''HARD_STOP'' \<and>
   v_reason (read_stop_state (Rows [(''HARD_STOP'', Some ''refused'', None, Some ''2''),
     (''OK'', None, None, None)])) = Some ''refused''"
  using observer_reports_the_stop_and_its_cause
    [of "[(''HARD_STOP'', Some ''refused'', None, Some ''2''), (''OK'', None, None, None)]"]
  by (auto simp: latest_stop_def nonempty_def)

text \<open>
  after a clear of the whole table that returned, the gate's reader no longer sees a
  stop, on the audited and on the gate-driven path.
\<close>

theorem cleared_table_is_not_stopped:
  assumes "clear_hard_stops True audited now captain why w = (Inr cleared, w')"
    and "keyed (table w)"
  shows "read_level (read_world w') \<noteq> Some ''HARD_STOP''"
proof -
  have "\<forall>r \<in> set (table w'). r_level r = ''OK''"
  proof (cases "non_ok_rows (table w) = []")
    case True
    then show ?thesis
      using assms(1)
      by (auto simp: clear_hard_stops_def Let_def non_ok_rows_def filter_empty_conv split: if_splits)
  next
    case False
    then have "clear_rows (if audited then ledger_ports else no_audit_ports) now captain why
        (non_ok_rows (table w)) w = (Inr cleared, w')"
      using assms(1) by (auto simp: clear_hard_stops_def Let_def split: if_splits)
    from clear_rows_table [OF this _ assms(2)] show ?thesis
      by (force simp: non_ok_rows_def row_key_def)
  qed
  then show ?thesis
    by (auto simp: read_level_def read_stop_state_def read_world_def observe_hard cause_row_def)
qed


theorem cleared_table_is_not_stopped_witness:
  "\<exists>cleared w'. clear_hard_stops True True 7 ''scott'' ''false positive'' stopped_world
      = (Inr cleared, w') \<and> read_level (read_world w') \<noteq> Some ''HARD_STOP''"
proof -
  obtain res w' where c: "clear_hard_stops True True 7 ''scott'' ''false positive'' stopped_world
      = (res, w')" by fastforce
  then obtain xs where "res = Inr xs"
    by (auto simp: clear_hard_stops_def non_ok_rows_def stopped_world_def state_row_def
        fresh_state_def clear_def get_state_def ledger_ports_def world_get_def sqlite_get_def
        row_key_def row_state_def level_from_stored_def LEGACY_LEVELS_def check_state_def
        ledger_write_def world_put_def Let_def split: if_splits)
  with c have "clear_hard_stops True True 7 ''scott'' ''false positive'' stopped_world
      = (Inr xs, w')" by simp
  moreover have "keyed (table stopped_world)"
    by (simp add: keyed_def stopped_world_def)
  ultimately show ?thesis
    using cleared_table_is_not_stopped by blast
qed

text \<open>
  a stopped row whose stored condition is outside the vocabulary cannot be recovered.
  The Captain's clear of the table raises, and the row is still there, unchanged: the
  level parser tolerates unknown words, the condition parser does not.
\<close>

theorem unknown_condition_blocks_recovery:
  assumes "keyed (table w)" "r \<in> set (table w)" "unreadable r" "r_level r \<noteq> ''OK''"
    and "captain \<noteq> []" "why \<noteq> []"
  shows "\<exists>e w'. clear_hard_stops True audited now captain why w = (Inl e, w') \<and>
    r \<in> set (table w')"
proof -
  have "row_key r \<in> (\<lambda>(c, p, l). (c, p)) ` set (non_ok_rows (table w))"
    using assms(2,4) by (force simp: non_ok_rows_def row_key_def)
  moreover from this have "non_ok_rows (table w) \<noteq> []" by auto
  ultimately show ?thesis
    using unreadable_blocks_clear [OF assms(1-3) _ assms(5,6),
        of "non_ok_rows (table w)" "if audited then ledger_ports else no_audit_ports" now] assms(5,6)
    by (auto simp: clear_hard_stops_def Let_def)
qed

definition odd_row :: row where
  "odd_row = (state_row ((fresh_state ''acme'' ''marcus'' 0)\<lparr>slevel := HARD_STOP\<rparr>))
     \<lparr>r_condition := Some ''wall_clock''\<rparr>"

theorem unknown_condition_blocks_recovery_witness:
  "\<exists>e w'. clear_hard_stops True False 7 ''scott'' ''ok'' (empty_world\<lparr>table := [odd_row]\<rparr>)
      = (Inl e, w') \<and> odd_row \<in> set (table w')"
  by (rule unknown_condition_blocks_recovery)
     (simp_all add: keyed_def unreadable_def odd_row_def condition_of_def conditions_def
        condition_value_def state_row_def fresh_state_def)

text \<open>
  an operator pause reaches dispatch and the gate. After a pin that returned, the gate
  reads \<open>HARD_STOP\<close>, there is a Machine row, and dispatch refuses every key that has a
  row, now and after any further recorded events.
\<close>

theorem pin_stops_every_row:
  assumes "pin_hard_stops slug now who why w = (Inr pinned, w')"
    and "keyed (table w)" "slug \<noteq> []"
    and "\<forall>r \<in> set (table w). r_customer r \<noteq> [] \<and> r_persona r \<noteq> []"
  shows "read_level (read_world w') = Some ''HARD_STOP'' \<and>
    (\<exists>r \<in> set (table w'). r_persona r = ''_machine'') \<and>
    (\<forall>r \<in> set (table w'). \<exists>s. assert_allowed ledger_ports later (r_customer r) (r_persona r)
       (run_events ledger_ports t es w') = Inl (Sticky_Stop_Error s) \<and> slevel s = HARD_STOP)"
proof -
  let ?why = "pin_reason who why"
  let ?upd = "map (pin_row ?why now) (table w)"
  have keyp: "row_key (pin_row y now r) = row_key r" for y r
    by (simp add: pin_row_def row_key_def)
  have tab: "table w' = ?upd \<and> (\<exists>r \<in> set (table w). r_persona r = ''_machine'') \<or>
      table w' = ?upd @ [machine_row slug ?why now] \<and>
      (\<forall>r \<in> set (table w). r_persona r \<noteq> ''_machine'')"
    using assms(1) by (auto simp: pin_hard_stops_def Let_def split: if_splits)
  have stopped: "r_level r = ''HARD_STOP'' \<and> r_condition r = None \<and> r_customer r \<noteq> [] \<and>
      r_persona r \<noteq> []"
    if "r \<in> set (table w')" for r
    using that tab assms(3,4) by (auto simp: pin_row_def machine_row_def)
  have machine: "\<exists>r \<in> set (table w'). r_persona r = ''_machine''"
    using tab by (auto simp: pin_row_def machine_row_def)
  have keys: "map row_key ?upd = map row_key (table w)" by (simp add: keyp)
  have keyed: "keyed (table w')"
    using tab
  proof (elim disjE conjE)
    assume "table w' = ?upd"
    then show ?thesis using keys assms(2) by (simp add: keyed_def del: map_map)
  next
    assume new: "table w' = ?upd @ [machine_row slug ?why now]"
      and "\<forall>r \<in> set (table w). r_persona r \<noteq> ''_machine''"
    then have "row_key (machine_row slug ?why now) \<notin> set (map row_key ?upd)"
      by (auto simp: machine_row_def row_key_def keys simp del: map_map)
    with new keys assms(2) show ?thesis by (simp add: keyed_def del: map_map set_map)
  qed
  have at: "level_at ledger_ports (r_customer r) (r_persona r) w' = HARD_STOP"
    if r: "r \<in> set (table w')" for r
  proof -
    have "find (\<lambda>x. row_key x = (r_customer r, r_persona r)) (table w') = Some r"
      using find_keyed [OF keyed r] by (metis row_key_def)
    then show ?thesis
      using stopped [OF r]
      by (simp add: level_at_def ledger_ports_def world_get_def sqlite_get_def row_state_def
          check_state_def level_from_stored_def)
  qed
  have "read_level (read_world w') = Some ''HARD_STOP''"
    using machine stopped
    by (auto simp: read_level_def read_stop_state_def read_world_def observe_hard cause_row_def)
  moreover have "\<exists>s. assert_allowed ledger_ports later (r_customer r) (r_persona r)
      (run_events ledger_ports t es w') = Inl (Sticky_Stop_Error s) \<and> slevel s = HARD_STOP"
    if "r \<in> set (table w')" for r
    using led.assert_allowed_stopped [OF led.stop_survives_events [OF at [OF that]]] by blast
  ultimately show ?thesis using machine by blast
qed

theorem pin_stops_every_row_witness:
  "\<exists>pinned w'. pin_hard_stops ''acme'' 3 ''dana'' ''pause'' stopped_world = (Inr pinned, w') \<and>
    read_level (read_world w') = Some ''HARD_STOP''"
proof -
  obtain res w' where q: "pin_hard_stops ''acme'' 3 ''dana'' ''pause'' stopped_world = (res, w')"
    by fastforce
  then have "\<exists>pinned. res = Inr pinned"
    by (auto simp: pin_hard_stops_def Let_def split: if_splits)
  then obtain pinned where "res = Inr pinned" by blast
  with q have p: "pin_hard_stops ''acme'' 3 ''dana'' ''pause'' stopped_world = (Inr pinned, w')"
    by simp
  have k: "keyed (table stopped_world)" "''acme'' \<noteq> []"
    "\<forall>r \<in> set (table stopped_world). r_customer r \<noteq> [] \<and> r_persona r \<noteq> []"
    by (simp_all add: keyed_def stopped_world_def state_row_def fresh_state_def)
  from pin_stops_every_row [OF p k] p show ?thesis by blast
qed

text \<open>
  the boot probe succeeds on a working store: in any world without a probe row, at any
  time, spending past the one-cent cap trips the ladder and the guard refuses.
\<close>

theorem boot_probe_passes:
  assumes "world_get ''_probe'' ''_probe'' w = Inr None"
  shows "run_boot_probe no_audit_ports now w = Probe_Ok"
proof -
  let ?t = "DEFAULT_THRESHOLDS\<lparr>cost_daily_cents := 1\<rparr>"
  have st: "get_state no_audit_ports now ''_probe'' ''_probe'' w
      = Inr (fresh_state ''_probe'' ''_probe'' now)"
    using assms by (simp add: get_state_def no_audit_ports_def check_state_def fresh_state_def)
  obtain s1 where s1: "store_get no_audit_ports ''_probe'' ''_probe''
      (snd (record_cost_cents no_audit_ports ?t now ''_probe'' ''_probe'' 1000 w)) = Inr (Some s1)"
    "slevel s1 = forward_only OK (level_for_cost ?t 1000)"
    using silent.cost_row [OF st _ refl, of 1000 ?t] by (auto simp: fresh_state_def)
  have lv: "slevel s1 = HARD_STOP"
    using s1(2) by (simp add: level_for_cost_def DEFAULT_THRESHOLDS_def forward_only_def)
  obtain res w1 where rec: "record_cost_cents no_audit_ports ?t now ''_probe'' ''_probe'' 1000 w
      = (res, w1)" by fastforce
  have "\<exists>s2. res = Inr s2"
    using rec st
    by (auto simp: record_cost_cents_def commit_transition_def no_audit_ports_def Let_def
        check_state_def fresh_state_def world_put_def sqlite_put_def split: if_splits)
  then obtain s2 where run: "record_cost_cents no_audit_ports ?t now ''_probe'' ''_probe'' 1000 w
      = (Inr s2, w1)" using rec by blast
  then have "get_state no_audit_ports now ''_probe'' ''_probe'' w1 = Inr s1"
    using s1(1) by (simp add: get_state_def)
  then show ?thesis
    using run lv by (simp add: run_boot_probe_def assert_allowed_def)
qed

theorem boot_probe_passes_witness: "run_boot_probe no_audit_ports 5 empty_world = Probe_Ok"
  by (rule boot_probe_passes) simp

end
