(* ===== verification/Action_Classes.thy ===== *)
theory Action_Classes
  imports Prelude
begin

text \<open>
  The action-class vocabulary shared by the audit and trust plugins
  (\<open>shared/action_classes.py\<close>): the closed set of classes, the tools banned outright,
  the registry that maps every known tool to its class, and \<open>classify_tool\<close>.
\<close>

section \<open>Action classes\<close>

datatype action_class =
    READ | INTERNAL_WRITE | EXTERNAL_SEND | EXTERNAL_SEND_INTERNAL | EXTERNAL_SEND_CLIENT
  | EXTERNAL_SEND_VENDOR | EXTERNAL_SEND_AS_STAFF | COMMITMENT | DESTRUCTIVE | CODE_EXECUTION
  | REFUSED_CLASS

fun class_value :: "action_class \<Rightarrow> string" where
  "class_value READ = ''read''"
| "class_value INTERNAL_WRITE = ''internal_write''"
| "class_value EXTERNAL_SEND = ''external_send''"
| "class_value EXTERNAL_SEND_INTERNAL = ''external_send_internal''"
| "class_value EXTERNAL_SEND_CLIENT = ''external_send_client''"
| "class_value EXTERNAL_SEND_VENDOR = ''external_send_vendor''"
| "class_value EXTERNAL_SEND_AS_STAFF = ''external_send_as_staff''"
| "class_value COMMITMENT = ''commitment''"
| "class_value DESTRUCTIVE = ''destructive''"
| "class_value CODE_EXECUTION = ''code_execution''"
| "class_value REFUSED_CLASS = ''refused''"

definition action_classes :: "action_class list" where
  "action_classes =
     [READ, INTERNAL_WRITE, EXTERNAL_SEND, EXTERNAL_SEND_INTERNAL, EXTERNAL_SEND_CLIENT,
      EXTERNAL_SEND_VENDOR, EXTERNAL_SEND_AS_STAFF, COMMITMENT, DESTRUCTIVE, CODE_EXECUTION,
      REFUSED_CLASS]"

text \<open>\<open>ActionClass(s)\<close>: \<open>None\<close> stands for the \<open>ValueError\<close>.\<close>

definition class_of :: "string \<Rightarrow> action_class option" where
  "class_of s = find (\<lambda>a. class_value a = s) action_classes"

lemma class_of_value [simp]: "class_of (class_value a) = Some a"
  by (cases a) (simp_all add: class_of_def action_classes_def)

lemma class_of_Some [simp]: "class_of s = Some a \<longleftrightarrow> s = class_value a"
  by (auto simp: class_of_def find_Some_iff dest: sym)
     (metis class_of_def class_of_value find_Some_iff)

lemma class_value_inj [simp]: "class_value a = class_value b \<longleftrightarrow> a = b"
  by (metis class_of_value option.inject)

text \<open>No vertical pack declares a floor.\<close>

definition VERTICAL_FLOORS :: "(string \<times> (string \<times> string) list) list" where
  "VERTICAL_FLOORS = []"

section \<open>Banned tools\<close>

definition BANNED_TOOLS :: "string list" where
  "BANNED_TOOLS =
    [''mcp_agentmail_agent_attach_human'', ''mcp_agentmail_connect_app'',
     ''mcp_agentmail_get_app'', ''mcp_agentmail_list_apps'', ''mcp_agentmail_search_apps'',
     ''email_send'', ''email_send_message'', ''email_reply'', ''email_reply_all'',
     ''email_forward'', ''sms_send'', ''sms_send_message'', ''payments_initiate_transfer'',
     ''payments_send_payment'', ''payments_refund'', ''payments_authorize_charge'',
     ''payments_void_authorization'', ''mcp_smokeball_create_transaction'',
     ''mcp_smokeball_protect_funds'', ''mcp_smokeball_unprotect_funds'',
     ''calendar_delete_event'', ''practice_management_delete_matter'',
     ''practice_management_close_matter_permanent'', ''connector_revoke_oauth'',
     ''connector_unbind_permanent'']"

definition BANNED_REASON :: "(string \<times> string) list" where
  "BANNED_REASON =
    [(''email_send'', ''banned_tool_pattern_a''),
     (''email_send_message'', ''banned_tool_pattern_a''),
     (''email_reply'', ''banned_tool_pattern_a''),
     (''email_reply_all'', ''banned_tool_pattern_a''),
     (''email_forward'', ''banned_tool_pattern_a''), (''sms_send'', ''banned_tool_pattern_a''),
     (''sms_send_message'', ''banned_tool_pattern_a''),
     (''payments_initiate_transfer'', ''banned_tool_destructive''),
     (''payments_send_payment'', ''banned_tool_destructive''),
     (''payments_refund'', ''banned_tool_destructive''),
     (''payments_authorize_charge'', ''banned_tool_destructive''),
     (''payments_void_authorization'', ''banned_tool_destructive''),
     (''calendar_delete_event'', ''banned_tool_destructive''),
     (''practice_management_delete_matter'', ''banned_tool_destructive''),
     (''practice_management_close_matter_permanent'', ''banned_tool_destructive''),
     (''connector_revoke_oauth'', ''banned_tool_destructive''),
     (''connector_unbind_permanent'', ''banned_tool_destructive''),
     (''mcp_smokeball_create_transaction'', ''banned_tool_destructive''),
     (''mcp_smokeball_protect_funds'', ''banned_tool_destructive''),
     (''mcp_smokeball_unprotect_funds'', ''banned_tool_destructive'')]"

section \<open>The registry\<close>

text \<open>The persona mailbox, attachments, record store, invites and settings.\<close>

definition mailbox_tools :: "(string \<times> action_class) list" where
  "mailbox_tools =
    [(''mcp_agentmail_send_message'', EXTERNAL_SEND), (''smd_send_message'', EXTERNAL_SEND),
     (''mcp_agentmail_send_draft'', EXTERNAL_SEND),
     (''mcp_agentmail_reply_to_message'', EXTERNAL_SEND),
     (''mcp_agentmail_forward_message'', EXTERNAL_SEND),
     (''mcp_agentmail_create_draft'', INTERNAL_WRITE),
     (''mcp_agentmail_update_draft'', INTERNAL_WRITE),
     (''mcp_agentmail_create_inbox'', COMMITMENT), (''mcp_agentmail_update_inbox'', COMMITMENT),
     (''mcp_agentmail_update_thread'', INTERNAL_WRITE),
     (''mcp_agentmail_update_message'', INTERNAL_WRITE),
     (''mcp_agentmail_delete_draft'', INTERNAL_WRITE),
     (''mcp_agentmail_delete_inbox'', DESTRUCTIVE),
     (''mcp_agentmail_delete_thread'', DESTRUCTIVE), (''mcp_agentmail_list_inboxes'', READ),
     (''mcp_agentmail_get_inbox'', READ), (''mcp_agentmail_list_threads'', READ),
     (''mcp_agentmail_search_threads'', READ), (''mcp_agentmail_get_thread'', READ),
     (''mcp_agentmail_get_attachment'', READ), (''mcp_agentmail_list_messages'', READ),
     (''mcp_agentmail_search_messages'', READ), (''mcp_agentmail_list_drafts'', READ),
     (''mcp_agentmail_get_draft'', READ), (''mcp_agentmail_auth_me'', READ),
     (''mcp_agentmail_get_message'', READ), (''mcp_agentmail_search_inboxes'', READ),
     (''mail_list_attachments'', READ), (''mail_spool_attachment'', READ),
     (''mail_spool_message'', READ), (''record_store_list'', READ),
     (''record_store_read'', READ), (''record_store_write'', INTERNAL_WRITE),
     (''calendar_invite_create'', INTERNAL_WRITE), (''calendar_invite_update'', INTERNAL_WRITE),
     (''calendar_invite_cancel'', INTERNAL_WRITE), (''calendar_invite_list'', READ),
     (''couples_settings_read'', READ), (''couples_settings_change'', INTERNAL_WRITE),
     (''voice_note_transcribe'', READ), (''web_search'', READ)]"

text \<open>The Graph mailbox, the principal's mailbox and calendar, practice management.\<close>

definition connector_tools :: "(string \<times> action_class) list" where
  "connector_tools =
    [(''mcp_msgraph_mail_list_messages'', READ), (''mcp_msgraph_mail_read_message'', READ),
     (''mcp_msgraph_mail_poll_delta'', READ), (''mcp_msgraph_mail_list_staff_messages'', READ),
     (''mcp_msgraph_mail_read_staff_message'', READ),
     (''mcp_msgraph_mail_create_draft'', INTERNAL_WRITE),
     (''mcp_msgraph_mail_send_message'', EXTERNAL_SEND),
     (''mcp_msgraph_mail_reply_message'', EXTERNAL_SEND),
     (''mcp_msgraph_mail_get_prompt'', READ), (''mcp_msgraph_mail_list_prompts'', READ),
     (''mcp_msgraph_mail_list_resources'', READ), (''mcp_msgraph_mail_read_resource'', READ),
     (''agentmail:send_message'', EXTERNAL_SEND), (''agentmail:send_draft'', EXTERNAL_SEND),
     (''agentmail:reply_to_message'', EXTERNAL_SEND),
     (''agentmail:forward_message'', EXTERNAL_SEND),
     (''agentmail:create_draft'', INTERNAL_WRITE), (''agentmail:update_draft'', INTERNAL_WRITE),
     (''email_list_messages'', READ), (''email_get_message'', READ), (''email_search'', READ),
     (''email_get_thread'', READ), (''email_list_labels'', READ),
     (''email_create_draft'', INTERNAL_WRITE), (''email_update_draft'', INTERNAL_WRITE),
     (''email_delete_draft'', INTERNAL_WRITE), (''sms_list_messages'', READ),
     (''sms_get_message'', READ), (''sms_create_draft'', INTERNAL_WRITE),
     (''calendar_list_events'', READ), (''calendar_get_event'', READ),
     (''calendar_search_events'', READ), (''calendar_check_availability'', READ),
     (''calendar_create_event_draft'', INTERNAL_WRITE), (''calendar_propose_time'', COMMITMENT),
     (''calendar_respond_invitation_draft'', INTERNAL_WRITE),
     (''practice_management_search_matters'', READ), (''practice_management_get_matter'', READ),
     (''practice_management_list_documents'', READ),
     (''practice_management_get_document'', READ), (''practice_management_list_tasks'', READ),
     (''practice_management_create_note'', INTERNAL_WRITE),
     (''practice_management_create_task_draft'', INTERNAL_WRITE),
     (''practice_management_update_matter_field'', INTERNAL_WRITE),
     (''practice_management_open_matter_draft'', COMMITMENT)]"

text \<open>The practice-management connector, reads.\<close>

definition smokeball_read_tools :: "(string \<times> action_class) list" where
  "smokeball_read_tools =
    [(''mcp_smokeball_get_prompt'', READ), (''mcp_smokeball_list_prompts'', READ),
     (''mcp_smokeball_list_resources'', READ), (''mcp_smokeball_read_resource'', READ),
     (''mcp_smokeball_auth_status'', READ), (''mcp_smokeball_list_matters'', READ),
     (''mcp_smokeball_get_matter'', READ), (''mcp_smokeball_get_matter_layouts'', READ),
     (''mcp_smokeball_list_matter_types'', READ), (''mcp_smokeball_get_stage_sets'', READ),
     (''mcp_smokeball_get_stage_to_matter_mappings'', READ),
     (''mcp_smokeball_get_contacts'', READ), (''mcp_smokeball_get_contact'', READ),
     (''mcp_smokeball_get_contact_relations'', READ), (''mcp_smokeball_list_tasks'', READ),
     (''mcp_smokeball_get_task'', READ), (''mcp_smokeball_search_staff'', READ),
     (''mcp_smokeball_get_staff'', READ), (''mcp_smokeball_get_roles_on_matter'', READ),
     (''mcp_smokeball_get_relationships_on_matter'', READ),
     (''mcp_smokeball_get_files_on_matter'', READ), (''mcp_smokeball_get_file'', READ),
     (''mcp_smokeball_get_download_url'', READ), (''mcp_smokeball_read_document'', READ),
     (''mcp_smokeball_read_attachment_text'', READ),
     (''mcp_smokeball_get_memos_on_matter'', READ), (''mcp_smokeball_get_bank_accounts'', READ),
     (''mcp_smokeball_get_matter_balances'', READ),
     (''mcp_smokeball_get_matter_billing_config'', READ), (''mcp_smokeball_get_fees'', READ),
     (''mcp_smokeball_get_expenses'', READ), (''mcp_smokeball_resolve_invoice_matter'', READ),
     (''mcp_smokeball_read_attachment_pages'', READ),
     (''mcp_smokeball_get_webhook_subscriptions'', READ),
     (''mcp_smokeball_get_event_types'', READ), (''mcp_smokeball_list_events'', READ),
     (''mcp_smokeball_list_folders'', READ)]"

text \<open>The practice-management connector, writes and acts.\<close>

definition smokeball_write_tools :: "(string \<times> action_class) list" where
  "smokeball_write_tools =
    [(''mcp_smokeball_create_memo'', INTERNAL_WRITE),
     (''mcp_smokeball_update_memo'', INTERNAL_WRITE),
     (''mcp_smokeball_patch_matter'', INTERNAL_WRITE),
     (''mcp_smokeball_create_contact'', INTERNAL_WRITE),
     (''mcp_smokeball_create_task'', INTERNAL_WRITE),
     (''mcp_smokeball_update_task'', INTERNAL_WRITE),
     (''mcp_smokeball_add_file'', INTERNAL_WRITE),
     (''mcp_smokeball_file_attachment_to_matter'', INTERNAL_WRITE),
     (''mcp_smokeball_stage_vendor_invoice'', INTERNAL_WRITE),
     (''mcp_smokeball_file_attachment_pages_to_matter'', INTERNAL_WRITE),
     (''mcp_smokeball_add_medicals_row'', INTERNAL_WRITE),
     (''mcp_smokeball_add_medicals_provider'', INTERNAL_WRITE),
     (''mcp_smokeball_render_firm_form_letter'', INTERNAL_WRITE),
     (''mcp_smokeball_render_sr1'', INTERNAL_WRITE),
     (''mcp_smokeball_render_sr19'', INTERNAL_WRITE),
     (''mcp_smokeball_render_funding_case_eval'', INTERNAL_WRITE),
     (''mcp_smokeball_add_negotiation_rows'', INTERNAL_WRITE),
     (''mcp_smokeball_render_docx_template'', INTERNAL_WRITE),
     (''mcp_smokeball_render_docx_draft'', INTERNAL_WRITE),
     (''mcp_smokeball_add_workbook'', INTERNAL_WRITE),
     (''mcp_smokeball_get_upload_url'', INTERNAL_WRITE),
     (''mcp_smokeball_create_webhook_subscription'', COMMITMENT),
     (''mcp_smokeball_create_event'', INTERNAL_WRITE),
     (''mcp_smokeball_update_event'', INTERNAL_WRITE),
     (''mcp_smokeball_create_event_reminder'', INTERNAL_WRITE),
     (''mcp_smokeball_create_folder'', INTERNAL_WRITE),
     (''mcp_smokeball_create_matter'', COMMITMENT), (''mcp_smokeball_delete_file'', DESTRUCTIVE),
     (''mcp_smokeball_prepare_event_deletion'', READ),
     (''mcp_smokeball_delete_events'', DESTRUCTIVE),
     (''mcp_smokeball_prepare_records_order'', READ),
     (''mcp_smokeball_place_records_order'', COMMITMENT),
     (''mcp_smokeball_records_orders_for_matter'', READ)]"

text \<open>The second practice connector, memory, the workspace.\<close>

definition business_tools :: "(string \<times> action_class) list" where
  "business_tools =
    [(''mcp_clio_oktopeak_list_matters'', READ), (''mcp_clio_oktopeak_get_matter'', READ),
     (''mcp_clio_oktopeak_search_contacts'', READ), (''mcp_clio_oktopeak_get_contact'', READ),
     (''mcp_clio_oktopeak_list_documents'', READ), (''mcp_clio_oktopeak_get_document'', READ),
     (''mcp_clio_oktopeak_list_tasks'', READ), (''mcp_clio_oktopeak_list_calendars'', READ),
     (''mcp_clio_oktopeak_list_calendar_entries'', READ),
     (''mcp_clio_oktopeak_list_time_entries'', READ),
     (''mcp_clio_oktopeak_get_billing_summary'', READ), (''mcp_clio_oktopeak_list_users'', READ),
     (''mcp_clio_oktopeak_get_user'', READ), (''mcp_clio_oktopeak_export_audit_log'', READ),
     (''mcp_clio_oktopeak_create_note'', INTERNAL_WRITE),
     (''mcp_clio_oktopeak_create_task'', INTERNAL_WRITE),
     (''mcp_clio_oktopeak_update_task'', INTERNAL_WRITE),
     (''mcp_clio_oktopeak_complete_task'', INTERNAL_WRITE),
     (''mcp_clio_oktopeak_upload_document'', INTERNAL_WRITE),
     (''mcp_clio_oktopeak_create_matter'', COMMITMENT),
     (''mcp_clio_oktopeak_create_calendar_entry'', COMMITMENT),
     (''mcp_clio_oktopeak_log_time_entry'', COMMITMENT),
     (''mcp_clio_oktopeak_create_activity'', COMMITMENT), (''mcp_reference_echo'', READ),
     (''mcp_reference_record'', INTERNAL_WRITE), (''memory_search'', READ),
     (''memory_get_rule'', READ), (''memory_list_rules'', READ), (''read_file'', READ),
     (''search_files'', READ), (''skills_list'', READ), (''skill_view'', READ),
     (''session_search'', READ), (''voice_score_draft'', READ),
     (''voice_list_judge_history'', READ), (''vision_analyze'', READ),
     (''connector_get_status'', READ), (''connector_list_bindings'', READ),
     (''smd_deliver_draft'', READ), (''workspace_gmail_search'', READ),
     (''workspace_gmail_get'', READ), (''workspace_gmail_create_draft'', INTERNAL_WRITE),
     (''workspace_gmail_modify'', DESTRUCTIVE), (''workspace_gmail_archive'', DESTRUCTIVE),
     (''workspace_calendar_list'', READ), (''workspace_calendar_get'', READ),
     (''workspace_calendar_create_draft'', INTERNAL_WRITE),
     (''workspace_calendar_update_draft'', INTERNAL_WRITE), (''workspace_drive_list'', READ),
     (''workspace_drive_get'', READ), (''workspace_drive_export'', READ),
     (''workspace_docs_create'', INTERNAL_WRITE), (''workspace_docs_get'', READ),
     (''workspace_docs_append'', INTERNAL_WRITE), (''workspace_sheets_create'', INTERNAL_WRITE),
     (''workspace_sheets_get_values'', READ),
     (''workspace_sheets_update_values'', INTERNAL_WRITE)]"

text \<open>The agent runtime and the overlay's own tools.\<close>

definition runtime_tools :: "(string \<times> action_class) list" where
  "runtime_tools =
    [(''execute_code'', CODE_EXECUTION), (''terminal'', CODE_EXECUTION),
     (''process'', CODE_EXECUTION), (''delegate_task'', CODE_EXECUTION),
     (''computer_use'', CODE_EXECUTION), (''cronjob'', CODE_EXECUTION),
     (''skill_manage'', CODE_EXECUTION), (''todo'', INTERNAL_WRITE),
     (''record_peer_preference'', INTERNAL_WRITE), (''remember'', INTERNAL_WRITE),
     (''clarify'', INTERNAL_WRITE), (''write_file'', INTERNAL_WRITE),
     (''patch'', INTERNAL_WRITE), (''escalation_append'', INTERNAL_WRITE),
     (''escalation_state'', READ), (''escalation_reply_ack'', INTERNAL_WRITE),
     (''casework_finish'', INTERNAL_WRITE), (''casework_brief'', INTERNAL_WRITE),
     (''reply_verdicts'', INTERNAL_WRITE), (''casework_step_done'', INTERNAL_WRITE),
     (''correction_capture'', INTERNAL_WRITE), (''establish_stage_document'', INTERNAL_WRITE),
     (''establish_submit'', INTERNAL_WRITE), (''establish_status'', READ),
     (''establish_propose'', INTERNAL_WRITE), (''establish_pending'', READ),
     (''operations_request'', INTERNAL_WRITE), (''operator_seat_facts'', READ),
     (''start_background_job'', CODE_EXECUTION), (''job_status'', READ),
     (''job_cancel'', INTERNAL_WRITE), (''job_record_sideeffect'', INTERNAL_WRITE),
     (''medchron_job_submit'', INTERNAL_WRITE), (''medchron_job_status'', READ),
     (''medchron_allowance'', READ), (''reply_bind'', INTERNAL_WRITE),
     (''demand_job_submit'', INTERNAL_WRITE), (''demand_job_status'', READ),
     (''demand_allowance'', READ), (''drafting_job_submit'', INTERNAL_WRITE),
     (''drafting_job_status'', READ), (''drafting_allowance'', READ),
     (''litigation_job_submit'', INTERNAL_WRITE), (''litigation_job_status'', READ),
     (''negotiation_job_status'', READ), (''note_job_status'', READ)]"

definition TOOL_ACTION_CLASS_MAP :: "(string \<times> action_class) list" where
  "TOOL_ACTION_CLASS_MAP =
     mailbox_tools @ connector_tools @ smokeball_read_tools @ smokeball_write_tools @
     business_tools @ runtime_tools"

section \<open>Classification\<close>

datatype classify_error =
    Name_Required
  | Banned_Tool string string

record classification =
  c_class :: action_class
  c_unmapped :: bool

definition classify_tool :: "string \<Rightarrow> classify_error + classification" where
  "classify_tool tool_name =
     (if tool_name = [] then Inl Name_Required
      else let n = normalized tool_name in
        if n = [] then Inl Name_Required
        else if n \<in> set BANNED_TOOLS
        then Inl (Banned_Tool n (case map_of BANNED_REASON n of
                                   None \<Rightarrow> ''banned_tool'' | Some r \<Rightarrow> r))
        else case map_of TOOL_ACTION_CLASS_MAP n of
               Some a \<Rightarrow> Inr \<lparr>c_class = a, c_unmapped = False\<rparr>
             | None \<Rightarrow> Inr \<lparr>c_class = REFUSED_CLASS, c_unmapped = True\<rparr>)"

section \<open>The vocabulary is closed and disjoint\<close>

text \<open>
  Comparisons that stop at the first difference, so that the tables can be compared by
  evaluation.
\<close>

fun same_text :: "string \<Rightarrow> string \<Rightarrow> bool" where
  "same_text [] t = (t = [])"
| "same_text (c # s) t = (case t of [] \<Rightarrow> False | d # t' \<Rightarrow> if c = d then same_text s t' else False)"

fun among :: "string \<Rightarrow> string list \<Rightarrow> bool" where
  "among s [] = False"
| "among s (t # ts) = (if same_text s t then True else among s ts)"

lemma same_text [simp]: "same_text s t \<longleftrightarrow> s = t"
  by (induction s t rule: same_text.induct) (auto split: list.splits)

lemma among [simp]: "among s ts \<longleftrightarrow> s \<in> set ts"
  by (induction ts) auto

text \<open>
  The characters of tool names, read off their bits: the code points from 96 to 127, the
  underscore, the digits and the colon. None of them is white space or a capital.
\<close>

fun plain_char :: "char \<Rightarrow> bool" where
  "plain_char (Char b0 b1 b2 b3 b4 b5 b6 b7) =
     (if b7 then False else if b6 then (if b5 then True else b0 \<and> b1 \<and> b2 \<and> b3 \<and> b4)
      else b5 \<and> b4 \<and> (if b3 then \<not> b2 \<and> \<not> (b1 \<and> b0) else True))"

fun plain :: "string \<Rightarrow> bool" where
  "plain [] = True"
| "plain (c # s) = (if plain_char c then plain s else False)"

lemma plain_char: "plain_char c \<Longrightarrow> \<not> ws c \<and> lower_char c = c"
  by (cases c) (auto simp: ws_def lower_char_def Let_def of_char_def horner_sum_simps split: if_splits)

lemma plain_all: "plain s \<Longrightarrow> c \<in> set s \<Longrightarrow> plain_char c"
  by (induction s) (auto split: if_splits)

lemma plain_normalized: "plain s \<Longrightarrow> normalized s = s"
proof -
  assume s: "plain s"
  have none: "dropWhile ws u = u" if "set u \<subseteq> set s" for u
    using that plain_all [OF s] plain_char by (cases u) auto
  have "strip s = s"
    by (simp add: strip_def none)
  moreover have "lower s = s"
    using plain_all [OF s] plain_char by (auto simp: lower_def intro: map_idI)
  ultimately show ?thesis by (simp add: normalized_def)
qed

definition well_registered :: "(string \<times> action_class) list \<Rightarrow> bool" where
  "well_registered tools \<longleftrightarrow>
     list_all (\<lambda>(t, a). if among t BANNED_TOOLS then False else True) tools \<and>
     list_all (\<lambda>(t, a). if plain t then t \<noteq> [] else False) tools \<and>
     list_all (\<lambda>(t, a). a \<in> {READ, INTERNAL_WRITE, EXTERNAL_SEND, COMMITMENT, DESTRUCTIVE,
        CODE_EXECUTION}) tools"

lemma well_registered_append [simp]:
  "well_registered (xs @ ys) \<longleftrightarrow> well_registered xs \<and> well_registered ys"
  by (auto simp: well_registered_def)

lemma mailbox_tools: "well_registered mailbox_tools" by code_simp
lemma connector_tools: "well_registered connector_tools" by code_simp
lemma smokeball_read_tools: "well_registered smokeball_read_tools" by code_simp
lemma smokeball_write_tools: "well_registered smokeball_write_tools" by code_simp
lemma business_tools: "well_registered business_tools" by code_simp
lemma runtime_tools: "well_registered runtime_tools" by code_simp

lemma registry_ok: "well_registered TOOL_ACTION_CLASS_MAP"
  by (simp add: TOOL_ACTION_CLASS_MAP_def mailbox_tools connector_tools smokeball_read_tools
      smokeball_write_tools business_tools runtime_tools)

lemma registered:
  assumes "map_of TOOL_ACTION_CLASS_MAP t = Some a"
  shows "t \<notin> set BANNED_TOOLS" "normalized t = t" "t \<noteq> []"
    "a \<in> {READ, INTERNAL_WRITE, EXTERNAL_SEND, COMMITMENT, DESTRUCTIVE, CODE_EXECUTION}"
  using registry_ok map_of_SomeD [OF assms]
  by (auto simp: well_registered_def list_all_iff plain_normalized split: if_splits)

lemma banned_ok: "list_all (\<lambda>t. if plain t then t \<noteq> [] else False) BANNED_TOOLS"
  by code_simp

lemma banned: "t \<in> set BANNED_TOOLS \<Longrightarrow> normalized t = t \<and> t \<noteq> []"
  using banned_ok by (auto simp: list_all_iff plain_normalized split: if_splits)

text \<open>What a name that is neither banned nor registered classifies as.\<close>

lemma classify_cases:
  assumes "classify_tool t = Inr cl"
  shows "normalized t \<notin> set BANNED_TOOLS"
    "cl = \<lparr>c_class = REFUSED_CLASS, c_unmapped = True\<rparr> \<or>
     (\<exists>a. map_of TOOL_ACTION_CLASS_MAP (normalized t) = Some a \<and>
        cl = \<lparr>c_class = a, c_unmapped = False\<rparr>)"
  using assms by (auto simp: classify_tool_def Let_def split: if_splits option.splits)

section \<open>Properties\<close>

text \<open>
  the registry and the ban list are disjoint and both are reachable through
  \<open>classify_tool\<close>. A registered name classifies as its registered class, which is one of
  the six a tool can carry statically; a banned name is always refused by name; and any
  spelling that differs only in case or surrounding white space gets the same verdict.
\<close>

theorem registry_and_bans_are_disjoint_and_live:
  "(map_of TOOL_ACTION_CLASS_MAP t = Some a \<longrightarrow>
      classify_tool t = Inr \<lparr>c_class = a, c_unmapped = False\<rparr> \<and>
      a \<in> {READ, INTERNAL_WRITE, EXTERNAL_SEND, COMMITMENT, DESTRUCTIVE, CODE_EXECUTION}) \<and>
   (t \<in> set BANNED_TOOLS \<longrightarrow> (\<exists>r. classify_tool t = Inl (Banned_Tool t r))) \<and>
   (normalized u = normalized t \<and> t \<noteq> [] \<and> u \<noteq> [] \<longrightarrow> classify_tool u = classify_tool t)"
proof (intro conjI impI)
  assume "map_of TOOL_ACTION_CLASS_MAP t = Some a"
  then show "classify_tool t = Inr \<lparr>c_class = a, c_unmapped = False\<rparr>"
    "a \<in> {READ, INTERNAL_WRITE, EXTERNAL_SEND, COMMITMENT, DESTRUCTIVE, CODE_EXECUTION}"
    using registered [of t a] by (simp_all add: classify_tool_def)
next
  assume "t \<in> set BANNED_TOOLS"
  then show "\<exists>r. classify_tool t = Inl (Banned_Tool t r)"
    using banned [of t] by (simp add: classify_tool_def)
next
  assume "normalized u = normalized t \<and> t \<noteq> [] \<and> u \<noteq> []"
  then show "classify_tool u = classify_tool t" by (simp add: classify_tool_def)
qed

theorem registry_and_bans_are_disjoint_and_live_witness:
  "classify_tool ''email_send'' = Inl (Banned_Tool ''email_send'' ''banned_tool_pattern_a'') \<and>
   classify_tool '' EMAIL_send '' = classify_tool ''email_send''"
proof -
  have "normalized '' EMAIL_send '' = normalized ''email_send''" by code_simp
  moreover have "''email_send'' \<in> set BANNED_TOOLS"
    by (simp add: BANNED_TOOLS_def)
  moreover have "map_of BANNED_REASON ''email_send'' = Some ''banned_tool_pattern_a''"
    by (simp add: BANNED_REASON_def)
  ultimately show ?thesis
    using registry_and_bans_are_disjoint_and_live [of "''email_send''" READ "'' EMAIL_send ''"]
      banned [of "''email_send''"]
    by (auto simp: classify_tool_def)
qed

text \<open>
  five banned names have no entry in the reason table, so their refusal carries the
  default code, which is outside the two documented categories.
\<close>

theorem some_bans_have_no_category:
  "filter (\<lambda>t. map_of BANNED_REASON t = None) BANNED_TOOLS =
     [''mcp_agentmail_agent_attach_human'', ''mcp_agentmail_connect_app'',
      ''mcp_agentmail_get_app'', ''mcp_agentmail_list_apps'', ''mcp_agentmail_search_apps''] \<and>
   classify_tool ''mcp_agentmail_connect_app''
     = Inl (Banned_Tool ''mcp_agentmail_connect_app'' ''banned_tool'') \<and>
   ''banned_tool'' \<notin> snd ` set BANNED_REASON"
proof -
  have n: "normalized ''mcp_agentmail_connect_app'' = ''mcp_agentmail_connect_app''" by code_simp
  have "''mcp_agentmail_connect_app'' \<in> set BANNED_TOOLS"
    "map_of BANNED_REASON ''mcp_agentmail_connect_app'' = None"
    by (simp_all add: BANNED_TOOLS_def BANNED_REASON_def)
  then have "classify_tool ''mcp_agentmail_connect_app''
     = Inl (Banned_Tool ''mcp_agentmail_connect_app'' ''banned_tool'')"
    using n by (simp add: classify_tool_def)
  then show ?thesis
    by (simp add: BANNED_TOOLS_def BANNED_REASON_def)
qed

end
