(* ===== verification/Trust_Ceiling.thy ===== *)
theory Trust_Ceiling
  imports Action_Classes
begin

text \<open>
  The policy core of the trust gate (\<open>plugins/hermes-smd-trust/enforce.py\<close>): exposure
  ceilings and their order, the resolution of a persona's ceiling against a vertical
  floor, and \<open>enforce\<close>, which decides one tool call. The hook around it is in
  \<open>Trust_Gate\<close>.

  An exposure map is an association list from action classes to ceilings; an absent map
  and an empty one are both \<open>[]\<close>, as the code treats them alike. A dash that is not a
  Latin-1 character is written as a semicolon in the reason sentences.
\<close>

section \<open>Ceilings\<close>

datatype ceiling = AUTONOMOUS | CONFIRM | DRAFT_FOR_REVIEW | REFUSED

fun ceiling_value :: "ceiling \<Rightarrow> string" where
  "ceiling_value AUTONOMOUS = ''autonomous''"
| "ceiling_value CONFIRM = ''confirm''"
| "ceiling_value DRAFT_FOR_REVIEW = ''draft_for_review''"
| "ceiling_value REFUSED = ''refused''"

fun RESTRICTIVENESS :: "ceiling \<Rightarrow> nat" where
  "RESTRICTIVENESS AUTONOMOUS = 0"
| "RESTRICTIVENESS CONFIRM = 1"
| "RESTRICTIVENESS DRAFT_FOR_REVIEW = 2"
| "RESTRICTIVENESS REFUSED = 3"

text \<open>Larger is more restrictive.\<close>

instantiation ceiling :: linorder
begin

definition less_eq_ceiling :: "ceiling \<Rightarrow> ceiling \<Rightarrow> bool" where
  "less_eq_ceiling a b \<longleftrightarrow> RESTRICTIVENESS a \<le> RESTRICTIVENESS b"

definition less_ceiling :: "ceiling \<Rightarrow> ceiling \<Rightarrow> bool" where
  "less_ceiling a b \<longleftrightarrow> RESTRICTIVENESS a < RESTRICTIVENESS b"

instance
proof
  fix x y :: ceiling
  show "x \<le> y \<Longrightarrow> y \<le> x \<Longrightarrow> x = y"
    by (cases x; cases y) (simp_all add: less_eq_ceiling_def)
qed (auto simp: less_eq_ceiling_def less_ceiling_def)

end

definition ceiling_of :: "string \<Rightarrow> ceiling option" where
  "ceiling_of s =
     find (\<lambda>c. ceiling_value c = s) [AUTONOMOUS, CONFIRM, DRAFT_FOR_REVIEW, REFUSED]"

lemma ceiling_of_value [simp]: "ceiling_of (ceiling_value c) = Some c"
  by (cases c) (simp_all add: ceiling_of_def)

lemma ceiling_of_SomeD: "ceiling_of s = Some c \<Longrightarrow> s = ceiling_value c"
  by (auto simp: ceiling_of_def split: if_splits)

lemma ceiling_of_Some [simp]: "ceiling_of s = Some c \<longleftrightarrow> s = ceiling_value c"
  by (auto dest: ceiling_of_SomeD)

definition most_restrictive :: "ceiling \<Rightarrow> ceiling \<Rightarrow> ceiling" where
  "most_restrictive a b = (if RESTRICTIVENESS a \<ge> RESTRICTIVENESS b then a else b)"

lemma most_restrictive_max [simp]: "most_restrictive a b = max a b"
  by (cases a; cases b) (simp_all add: most_restrictive_def max_def less_eq_ceiling_def)

type_synonym exposure = "(action_class \<times> ceiling) list"

definition resolve_ceiling :: "action_class \<Rightarrow> exposure \<Rightarrow> exposure \<Rightarrow> ceiling" where
  "resolve_ceiling action expo floors =
     (let base = (case map_of expo action of None \<Rightarrow> REFUSED | Some c \<Rightarrow> c)
      in case map_of floors action of None \<Rightarrow> base | Some f \<Rightarrow> most_restrictive base f)"

section \<open>Decisions\<close>

datatype audit_action = Audit_Allow | Audit_Draft | Audit_Refuse | Audit_Await | Audit_Report

record decision =
  d_allowed :: bool
  d_reason :: string
  d_audit :: audit_action
  d_class :: action_class
  d_authored :: "ceiling option"
  d_floor :: "ceiling option"
  d_effective :: "ceiling option"

definition verdict :: "bool \<Rightarrow> audit_action \<Rightarrow> string \<Rightarrow> action_class \<Rightarrow> decision" where
  "verdict ok audit why action =
     \<lparr>d_allowed = ok, d_reason = why, d_audit = audit, d_class = action,
      d_authored = None, d_floor = None, d_effective = None\<rparr>"

definition allow :: "string \<Rightarrow> action_class \<Rightarrow> decision" where
  "allow why action = verdict True Audit_Allow why action"

definition draft :: "string \<Rightarrow> action_class \<Rightarrow> decision" where
  "draft why action = verdict False Audit_Draft why action"

definition refuse :: "string \<Rightarrow> action_class \<Rightarrow> decision" where
  "refuse why action = verdict False Audit_Refuse why action"

definition await_approval :: "string \<Rightarrow> action_class \<Rightarrow> decision" where
  "await_approval why action = verdict False Audit_Await why action"

section \<open>The policy\<close>

text \<open>
  The acts whose payload rides on the withheld call (\<open>shared/act_broker.py\<close>). A tool name
  that is not a string is in no table.
\<close>

definition CALL_PAYLOAD_ACTS :: "(string \<times> string) list" where
  "CALL_PAYLOAD_ACTS =
     [(''mcp_smokeball_delete_events'', ''destructive''),
      (''mcp_smokeball_place_records_order'', ''commitment'')]"

definition is_call_payload_act :: "string \<Rightarrow> bool" where
  "is_call_payload_act tool_name \<longleftrightarrow> tool_name \<in> fst ` set CALL_PAYLOAD_ACTS"

definition decide_approval_class ::
  "action_class \<Rightarrow> ceiling \<Rightarrow> bool \<Rightarrow> string \<Rightarrow> audit_action \<Rightarrow> bool \<Rightarrow> decision" where
  "decide_approval_class action effective approved draft_reason draft_audit act_shape =
     (let label = class_value action in
      if effective = REFUSED
      then refuse (label @ '' refused: no authored exposure (fail-closed, ADR 0056) or a floor refuses it'') action
      else if effective = DRAFT_FOR_REVIEW then verdict False draft_audit draft_reason action
      else if effective = CONFIRM \<and> (action = COMMITMENT \<or> (action = DESTRUCTIVE \<and> act_shape))
      then (if approved
            then allow (label @ '' confirmed by an administrator's current-turn approval'') action
            else await_approval (label @ '' at authored confirm ceiling; withheld pending the administrator's confirmation'') action)
      else if \<not> approved
      then refuse (label @ '' action requires explicit current-turn approval'') action
      else allow (label @ '' with current-turn approval'') action)"

definition enforce_resolved :: "action_class \<Rightarrow> ceiling \<Rightarrow> string \<Rightarrow> bool \<Rightarrow> decision" where
  "enforce_resolved action effective tool_name approved =
     (if action = COMMITMENT
      then decide_approval_class COMMITMENT effective approved
        ''draft_for_review skills do not originate commitments; produce draft instead''
        Audit_Draft False
      else if action = DESTRUCTIVE
      then decide_approval_class DESTRUCTIVE effective approved
        ''draft_for_review skills do not originate destructive actions; report instead''
        Audit_Refuse (is_call_payload_act tool_name)
      else if action \<in> {EXTERNAL_SEND, EXTERNAL_SEND_INTERNAL, EXTERNAL_SEND_CLIENT,
                       EXTERNAL_SEND_VENDOR}
      then (if effective = AUTONOMOUS
            then allow (class_value action @ '' permitted: authored exposure is autonomous'') action
            else if effective = CONFIRM
            then (if approved
                  then allow (class_value action @ '' confirmed by explicit current-turn approval (ADR 0071)'') action
                  else await_approval (class_value action @ '' at authored confirm ceiling; withheld pending current-turn approval'') action)
            else if effective = DRAFT_FOR_REVIEW
            then draft (class_value action @ '' at authored draft_for_review ceiling; routing to draft'') action
            else refuse (class_value action @ '' refused: no authored exposure (fail-closed, ADR 0056) or a vertical floor refuses it'') action)
      else if action = EXTERNAL_SEND_AS_STAFF
      then (if effective = CONFIRM
            then await_approval (class_value action @ '' at authored confirm ceiling; proposed to the named staff member for emailed approval (ss ADR 0089)'') action
            else refuse (class_value action @ '' refused: its only posture is an authored confirm (ss ADR 0089); unauthored or any other value refuses'') action)
      else if action = CODE_EXECUTION
      then (if effective = AUTONOMOUS
            then allow ''code_execution permitted: authored exposure is autonomous'' action
            else refuse ''code_execution refused: no authored exposure (fail-closed, ADR 0056) or a vertical floor narrows it'' action)
      else if action = INTERNAL_WRITE
      then (if effective = AUTONOMOUS then allow ''autonomous internal write'' action
            else if effective = DRAFT_FOR_REVIEW
            then verdict True Audit_Draft ''internal write executed under draft_for_review ceiling'' action
            else refuse ''internal_write refused: no authored exposure (fail-closed, ADR 0056)'' action)
      else refuse (''unknown action class '' @ class_value action @ ''; defaulting to refuse'') action)"

definition TRUST_CLASS_INTERNAL :: string where
  "TRUST_CLASS_INTERNAL = ''internal''"

definition TAINT_GATED_CLASSES :: "action_class set" where
  "TAINT_GATED_CLASSES =
     {EXTERNAL_SEND, EXTERNAL_SEND_INTERNAL, EXTERNAL_SEND_CLIENT, EXTERNAL_SEND_VENDOR,
      DESTRUCTIVE, COMMITMENT, CODE_EXECUTION}"

text \<open>
  The arguments are the action class, the exposure, the tool name, the current-turn
  approval, the vertical floors and the trust class of what the turn ingested.
\<close>

definition enforce ::
  "action_class \<Rightarrow> exposure \<Rightarrow> string \<Rightarrow> bool \<Rightarrow> exposure \<Rightarrow> string \<Rightarrow> decision" where
  "enforce action expo tool_name approved floors trust_class =
     (let floor = map_of floors action in
      if action = READ
      then (allow ''read action'' READ)\<lparr>d_floor := floor, d_effective := Some AUTONOMOUS\<rparr>
      else if action = REFUSED_CLASS
      then (refuse (''tool '' @ tool_name @ '' is not in the action-class registry; unknown tools fail closed (issue #1327); add it to TOOL_ACTION_CLASS_MAP or BANNED_TOOLS to govern it'') action)
             \<lparr>d_effective := Some REFUSED\<rparr>
      else
        let authored = map_of expo action;
            effective = resolve_ceiling action expo floors;
            trail = (\<lambda>d. d\<lparr>d_class := action, d_authored := authored, d_floor := floor,
                              d_effective := Some effective\<rparr>)
        in if trust_class \<noteq> TRUST_CLASS_INTERNAL \<and> action \<in> TAINT_GATED_CLASSES
           then trail (refuse (class_value action @ '' refused: this turn ingested untrusted inbound content (trust_class='' @ trust_class @ ''); a sensitive action cannot fire autonomously on a tainted turn; read and draft only'') action)
           else trail (enforce_resolved action effective tool_name approved))"

section \<open>What the policy allows\<close>

definition reversible_approved :: "action_class \<Rightarrow> ceiling \<Rightarrow> bool \<Rightarrow> bool" where
  "reversible_approved action effective approved \<longleftrightarrow>
     action \<in> {COMMITMENT, DESTRUCTIVE} \<and> effective \<in> {AUTONOMOUS, CONFIRM} \<and> approved"

definition send_permitted :: "action_class \<Rightarrow> ceiling \<Rightarrow> bool \<Rightarrow> bool" where
  "send_permitted action effective approved \<longleftrightarrow>
     action \<in> {EXTERNAL_SEND, EXTERNAL_SEND_INTERNAL, EXTERNAL_SEND_CLIENT,
                EXTERNAL_SEND_VENDOR} \<and>
     (effective = AUTONOMOUS \<or> (effective = CONFIRM \<and> approved))"

definition local_permitted :: "action_class \<Rightarrow> ceiling \<Rightarrow> bool" where
  "local_permitted action effective \<longleftrightarrow>
     (action = CODE_EXECUTION \<and> effective = AUTONOMOUS) \<or>
     (action = INTERNAL_WRITE \<and> effective \<in> {AUTONOMOUS, DRAFT_FOR_REVIEW})"

lemmas verdict_defs = verdict_def allow_def draft_def refuse_def await_approval_def
lemmas permitted_defs = reversible_approved_def send_permitted_def local_permitted_def

lemma enforce_resolved_allows [simp]:
  "action \<noteq> READ \<Longrightarrow> d_allowed (enforce_resolved action effective tool_name approved) \<longleftrightarrow>
     reversible_approved action effective approved \<or> send_permitted action effective approved \<or>
     local_permitted action effective"
  by (cases action; cases effective; cases approved)
     (simp_all add: enforce_resolved_def decide_approval_class_def verdict_defs permitted_defs Let_def)

lemma enforce_read [simp]: "d_allowed (enforce READ expo t ok floors tc)"
  by (simp add: enforce_def verdict_defs Let_def)

lemma enforce_unknown [simp]: "\<not> d_allowed (enforce REFUSED_CLASS expo t ok floors tc)"
  by (simp add: enforce_def verdict_defs Let_def)

lemma enforce_allows:
  "d_allowed (enforce action expo t approved floors tc) \<longleftrightarrow>
     action = READ \<or>
     (let effective = resolve_ceiling action expo floors in
        (tc = TRUST_CLASS_INTERNAL \<or> action \<notin> TAINT_GATED_CLASSES) \<and>
        (reversible_approved action effective approved \<or>
         send_permitted action effective approved \<or> local_permitted action effective))"
  by (cases "action = READ"; cases "action = REFUSED_CLASS")
     (auto simp: enforce_def verdict_defs permitted_defs Let_def)

lemma enforce_class [simp]: "d_class (enforce action expo t approved floors tc) = action"
  by (simp add: enforce_def verdict_defs Let_def)

lemma ceiling_top [simp]: "c \<le> REFUSED"
  by (cases c) (simp_all add: less_eq_ceiling_def)

lemma resolve_unauthored:
  "map_of expo action = None \<Longrightarrow> resolve_ceiling action expo floors = REFUSED"
  by (auto simp: resolve_ceiling_def max.absorb1 split: option.splits)

lemma rank_zero: "RESTRICTIVENESS c = 0 \<Longrightarrow> c = AUTONOMOUS"
  by (cases c) simp_all

lemma resolve_autonomous: "resolve_ceiling action expo floors = AUTONOMOUS \<longleftrightarrow>
    map_of expo action = Some AUTONOMOUS \<and> map_of floors action \<in> {None, Some AUTONOMOUS}"
  by (cases "map_of expo action"; cases "map_of floors action")
     (auto simp: resolve_ceiling_def max_def less_eq_ceiling_def elim: RESTRICTIVENESS.elims
       intro: rank_zero)

lemma resolve_open:
  assumes "resolve_ceiling action expo floors \<noteq> REFUSED"
  obtains c where "map_of expo action = Some c" "c \<noteq> REFUSED" "map_of floors action \<noteq> Some REFUSED"
proof -
  obtain c where c: "map_of expo action = Some c"
    using assms resolve_unauthored by (cases "map_of expo action") auto
  moreover have "c \<noteq> REFUSED" "map_of floors action \<noteq> Some REFUSED"
    using assms c by (auto simp: resolve_ceiling_def max.absorb1 max.absorb2 split: option.splits)
  ultimately show ?thesis by (rule that)
qed

text \<open>A posture is at least as narrow as another when every class resolves at least as high.\<close>

definition narrower :: "exposure \<Rightarrow> exposure \<Rightarrow> exposure \<Rightarrow> exposure \<Rightarrow> bool" where
  "narrower expo floors expo' floors' \<longleftrightarrow>
     (\<forall>a. resolve_ceiling a expo' floors' \<le> resolve_ceiling a expo floors)"

lemma permitted_mono:
  assumes "e' \<le> (e::ceiling)" "action \<noteq> INTERNAL_WRITE"
    and "reversible_approved action e ok \<or> send_permitted action e ok \<or> local_permitted action e"
  shows "reversible_approved action e' ok \<or> send_permitted action e' ok \<or> local_permitted action e'"
  using assms by (cases e; cases e') (auto simp: permitted_defs less_eq_ceiling_def)

lemma floor_narrows: "resolve_ceiling a expo [] \<le> resolve_ceiling a expo floors"
  by (auto simp: resolve_ceiling_def Let_def split: option.splits)

lemma allowed_authority:
  assumes "d_allowed (enforce action expo tool approved floors trust_class)" "action \<noteq> READ"
  shows "(\<exists>c. map_of expo action = Some c \<and> c \<noteq> REFUSED \<and>
      map_of floors action \<noteq> Some REFUSED \<and>
      (approved \<or> action = INTERNAL_WRITE \<or>
        c = AUTONOMOUS \<and> map_of floors action \<in> {None, Some AUTONOMOUS})) \<and>
    action \<notin> {REFUSED_CLASS, EXTERNAL_SEND_AS_STAFF} \<and>
    (action = INTERNAL_WRITE \<or> trust_class = TRUST_CLASS_INTERNAL) \<and>
    (action \<in> {COMMITMENT, DESTRUCTIVE} \<longrightarrow> approved) \<and>
    (action = CODE_EXECUTION \<longrightarrow> map_of expo action = Some AUTONOMOUS)"
proof -
  define e where "e = resolve_ceiling action expo floors"
  have a: "trust_class = TRUST_CLASS_INTERNAL \<or> action \<notin> TAINT_GATED_CLASSES"
    "reversible_approved action e approved \<or> send_permitted action e approved \<or>
     local_permitted action e"
    using assms by (simp_all add: enforce_allows Let_def e_def)
  have "e \<noteq> REFUSED" using a(2) by (auto simp: permitted_defs)
  then obtain c where c: "map_of expo action = Some c" "c \<noteq> REFUSED"
      "map_of floors action \<noteq> Some REFUSED"
    unfolding e_def by (rule resolve_open)
  have "approved \<or> action = INTERNAL_WRITE \<or> e = AUTONOMOUS"
    using a(2) by (auto simp: permitted_defs)
  then have "approved \<or> action = INTERNAL_WRITE \<or>
      map_of expo action = Some AUTONOMOUS \<and> map_of floors action \<in> {None, Some AUTONOMOUS}"
    by (simp add: e_def resolve_autonomous)
  with c have "\<exists>c. map_of expo action = Some c \<and> c \<noteq> REFUSED \<and>
      map_of floors action \<noteq> Some REFUSED \<and>
      (approved \<or> action = INTERNAL_WRITE \<or>
        c = AUTONOMOUS \<and> map_of floors action \<in> {None, Some AUTONOMOUS})"
    by auto
  moreover have "e = AUTONOMOUS \<or> action \<noteq> CODE_EXECUTION"
    using a(2) by (auto simp: permitted_defs)
  then have "action = CODE_EXECUTION \<longrightarrow> map_of expo action = Some AUTONOMOUS"
    by (auto simp: e_def resolve_autonomous)
  moreover have "action \<notin> {REFUSED_CLASS, EXTERNAL_SEND_AS_STAFF}"
    "action = INTERNAL_WRITE \<or> trust_class = TRUST_CLASS_INTERNAL"
    "action \<in> {COMMITMENT, DESTRUCTIVE} \<longrightarrow> approved"
    using a by (auto simp: permitted_defs TAINT_GATED_CLASSES_def)
  ultimately show ?thesis by blast
qed

section \<open>Properties\<close>

text \<open>
  C7: no action without authority. Whatever a call that is not a read is allowed to do was
  authored for exactly that class, at a ceiling other than refused, with no refusing
  floor; never for an unknown tool or a staff send; never on a turn that ingested
  untrusted content, unless the class is an internal write; commitments and destructive
  acts only with this turn's approval; sends only at an authored autonomous ceiling that
  no floor narrows, or with this turn's approval; code only at the autonomous ceiling.
\<close>

theorem nothing_fires_without_authority:
  assumes "d_allowed (enforce action expo tool approved floors trust_class)" "action \<noteq> READ"
  shows "(\<exists>c. map_of expo action = Some c \<and> c \<noteq> REFUSED \<and>
      map_of floors action \<noteq> Some REFUSED \<and>
      (approved \<or> action = INTERNAL_WRITE \<or>
        c = AUTONOMOUS \<and> map_of floors action \<in> {None, Some AUTONOMOUS})) \<and>
    action \<notin> {REFUSED_CLASS, EXTERNAL_SEND_AS_STAFF} \<and>
    (action = INTERNAL_WRITE \<or> trust_class = TRUST_CLASS_INTERNAL) \<and>
    (action \<in> {COMMITMENT, DESTRUCTIVE} \<longrightarrow> approved) \<and>
    (action = CODE_EXECUTION \<longrightarrow> map_of expo action = Some AUTONOMOUS)"
  using assms by (rule allowed_authority)

theorem nothing_fires_without_authority_witness:
  "map_of [(COMMITMENT, CONFIRM)] COMMITMENT = Some CONFIRM \<and>
   d_allowed (enforce COMMITMENT [(COMMITMENT, CONFIRM)] ''t'' True [] ''internal'') \<and>
   map_of ([]::exposure) COMMITMENT \<noteq> Some REFUSED"
proof -
  have ok: "d_allowed (enforce COMMITMENT [(COMMITMENT, CONFIRM)] ''t'' True [] ''internal'')"
    by (simp add: enforce_allows Let_def TRUST_CLASS_INTERNAL_def resolve_ceiling_def permitted_defs)
  then show ?thesis
    using nothing_fires_without_authority [OF ok] by auto
qed

text \<open>
  narrowing only takes away. With every class resolving at least as restrictively,
  whatever is still allowed was allowed before, for every class but internal writes; in
  particular a vertical floor only removes.
\<close>

theorem narrowing_only_removes:
  assumes "narrower expo floors expo' floors'" "action \<noteq> INTERNAL_WRITE"
    and "d_allowed (enforce action expo tool approved floors trust_class)"
  shows "d_allowed (enforce action expo' tool approved floors' trust_class)"
proof -
  have "resolve_ceiling action expo' floors' \<le> resolve_ceiling action expo floors"
    using assms(1) by (simp add: narrower_def)
  from permitted_mono [OF this assms(2)] show ?thesis
    using assms(3) by (auto simp: enforce_allows Let_def)
qed

theorem narrowing_only_removes_witness:
  "d_allowed (enforce EXTERNAL_SEND [(EXTERNAL_SEND, AUTONOMOUS)] ''send'' True [] ''internal'')"
proof (rule narrowing_only_removes)
  show "narrower [(EXTERNAL_SEND, AUTONOMOUS)] [(EXTERNAL_SEND, CONFIRM)]
      [(EXTERNAL_SEND, AUTONOMOUS)] []"
    by (simp add: narrower_def floor_narrows)
  show "EXTERNAL_SEND \<noteq> INTERNAL_WRITE" by simp
  show "d_allowed (enforce EXTERNAL_SEND [(EXTERNAL_SEND, AUTONOMOUS)] ''send'' True
      [(EXTERNAL_SEND, CONFIRM)] ''internal'')"
    by (simp add: enforce_allows Let_def TRUST_CLASS_INTERNAL_def resolve_ceiling_def
        permitted_defs max_def less_eq_ceiling_def)
qed

text \<open>
  internal writes are the exception. An internal write authored at confirm is refused,
  and narrowing it to draft-for-review, by the authored value or by a floor, releases it:
  the order of restrictiveness does not order what the policy does with this class.
\<close>

theorem narrowing_releases_internal_writes:
  "CONFIRM < DRAFT_FOR_REVIEW \<and>
   \<not> d_allowed (enforce INTERNAL_WRITE [(INTERNAL_WRITE, CONFIRM)] tool approved [] trust_class) \<and>
   d_allowed (enforce INTERNAL_WRITE [(INTERNAL_WRITE, DRAFT_FOR_REVIEW)] tool approved [] trust_class) \<and>
   d_allowed (enforce INTERNAL_WRITE [(INTERNAL_WRITE, CONFIRM)] tool approved
     [(INTERNAL_WRITE, DRAFT_FOR_REVIEW)] trust_class)"
  by (simp add: enforce_allows Let_def resolve_ceiling_def permitted_defs TAINT_GATED_CLASSES_def
      max_def less_ceiling_def less_eq_ceiling_def)

text \<open>
  a destructive tool without a call-payload act shape, authored at confirm, is not
  always refused: with the current-turn approval it runs, though its exposure never
  reached autonomous. Without the approval it is refused, not withheld.
\<close>

theorem approved_destructive_runs_at_confirm:
  "is_call_payload_act ''mcp_smokeball_delete_file'' = False \<and>
   d_allowed (enforce DESTRUCTIVE [(DESTRUCTIVE, CONFIRM)] ''mcp_smokeball_delete_file'' True [] ''internal'') \<and>
   d_audit (enforce DESTRUCTIVE [(DESTRUCTIVE, CONFIRM)] ''mcp_smokeball_delete_file'' False [] ''internal'')
     = Audit_Refuse"
  by (simp add: enforce_allows Let_def resolve_ceiling_def permitted_defs TRUST_CLASS_INTERNAL_def
      is_call_payload_act_def CALL_PAYLOAD_ACTS_def enforce_def enforce_resolved_def
      decide_approval_class_def verdict_defs)

end
