(* ===== verification/Customer_Config.thy ===== *)
theory Customer_Config
  imports Prelude
begin

text \<open>
  The read-only view of an authored \<open>customer.yaml\<close> (\<open>shared/customer_config.py\<close>): the
  mapping blocks, the rosters and the authority lists. A document is its parsed mapping.
  Accessors that raise on a malformed block return a sum; the authority lists fail closed
  to the empty list instead, as the code does.
\<close>

section \<open>Blocks\<close>

text \<open>
  What loading the file gives: it is missing (or the loader is a stub), it faults, or it
  holds a document.
\<close>

datatype config_file = Missing_File | Faulty_File | Document pydict

text \<open>\<open>data.get(key) or {}\<close>, which must be a mapping.\<close>

definition mapping_block :: "pydict \<Rightarrow> string \<Rightarrow> py_exn + pydict" where
  "mapping_block d key =
     (if \<not> truthy (dget d key) then Inr []
      else case dget d key of
        PDict block \<Rightarrow> Inr block
      | _ \<Rightarrow> Inl (ConfigError (''customer.yaml: '' @ key @ '' must be a mapping'')))"

definition list_block :: "pydict \<Rightarrow> string \<Rightarrow> string \<Rightarrow> py_exn + pyval list" where
  "list_block d key label =
     (if \<not> truthy (dget d key) then Inr []
      else case dget d key of
        PList xs \<Rightarrow> Inr xs
      | _ \<Rightarrow> Inl (ConfigError (''customer.yaml: '' @ label @ '' must be a list'')))"

definition scope :: "pydict \<Rightarrow> py_exn + pydict" where
  "scope d = mapping_block d ''scope''"

definition voice_library :: "pydict \<Rightarrow> py_exn + pydict" where
  "voice_library d = mapping_block d ''voice_library''"

definition output_classes :: "pydict \<Rightarrow> py_exn + pydict" where
  "output_classes d = mapping_block d ''output_classes''"

definition seat :: "pydict \<Rightarrow> py_exn + pydict" where
  "seat d = mapping_block d ''seat''"

definition escalation :: "pydict \<Rightarrow> py_exn + pydict" where
  "escalation d = mapping_block d ''escalation''"

definition send_policy_block :: "pydict \<Rightarrow> py_exn + pydict" where
  "send_policy_block d = mapping_block d ''send_policy''"

definition memory_block :: "pydict \<Rightarrow> py_exn + pydict" where
  "memory_block d = mapping_block d ''memory''"

definition google_auth :: "pydict \<Rightarrow> py_exn + pydict" where
  "google_auth d = mapping_block d ''google_auth''"

definition telegram_block :: "pydict \<Rightarrow> py_exn + pydict" where
  "telegram_block d = mapping_block d ''telegram''"

definition relationship :: "pydict \<Rightarrow> py_exn + pydict" where
  "relationship d = mapping_block d ''relationship''"

definition connectors :: "pydict \<Rightarrow> py_exn + (string \<times> pydict) list" where
  "connectors d =
     map_sum id (map (\<lambda>(k, v). (k, case v of PDict c \<Rightarrow> c | _ \<Rightarrow> []))) (mapping_block d ''connectors'')"

definition personas :: "pydict \<Rightarrow> py_exn + pyval list" where
  "personas d = list_block d ''personas'' ''personas''"

section \<open>Rosters\<close>

fun clean_addresses :: "pyval list \<Rightarrow> string list" where
  "clean_addresses [] = []"
| "clean_addresses (v # vs) =
     (case v of
        PStr s \<Rightarrow> (if normalized s = [] then clean_addresses vs
                   else normalized s # clean_addresses vs)
      | _ \<Rightarrow> clean_addresses vs)"

definition inbound_roster :: "pydict \<Rightarrow> py_exn + string list" where
  "inbound_roster d =
     (case scope d of
        Inl e \<Rightarrow> Inl e
      | Inr sc \<Rightarrow> map_sum id clean_addresses
          (list_block sc ''inbound_allow_from'' ''scope.inbound_allow_from''))"

definition typed_classes :: "string list" where
  "typed_classes = [''client'', ''records_vendor'', ''firm_staff'']"

definition typed_entry :: "pyval \<Rightarrow> (string \<times> string) option" where
  "typed_entry v =
     (case v of
        PDict e \<Rightarrow>
          (case (dget e ''address'', dget e ''class'') of
             (PStr a, PStr c) \<Rightarrow>
               if normalized a = [] \<or> normalized c \<notin> set typed_classes then None
               else Some (normalized a, normalized c)
           | _ \<Rightarrow> None)
      | _ \<Rightarrow> None)"

definition outbound_roster :: "pydict \<Rightarrow> py_exn + (string \<times> string) list" where
  "outbound_roster d =
     (case scope d of
        Inl e \<Rightarrow> Inl e
      | Inr sc \<Rightarrow> map_sum id (List.map_filter typed_entry)
          (list_block sc ''outbound_roster'' ''scope.outbound_roster''))"

text \<open>The text after the last \<open>@\<close>, or nothing when there is none.\<close>

definition sender_domain :: "string \<Rightarrow> string" where
  "sender_domain addr =
     (if CHR ''@'' \<in> set addr then rev (takeWhile (\<lambda>c. c \<noteq> CHR ''@'') (rev addr)) else [])"

fun roster_has :: "string list \<Rightarrow> string \<Rightarrow> bool" where
  "roster_has [] addr = False"
| "roster_has (entry # rest) addr =
     (if take 1 entry = ''@''
      then (if sender_domain addr \<noteq> [] \<and> entry = ''@'' @ sender_domain addr then True
            else roster_has rest addr)
      else if entry = addr then True else roster_has rest addr)"

definition sender_on_roster :: "pydict \<Rightarrow> pyval \<Rightarrow> py_exn + bool" where
  "sender_on_roster d v =
     (case v of
        PStr s \<Rightarrow>
          (if normalized s = [] then Inr False
           else map_sum id (\<lambda>roster. roster_has roster (normalized s)) (inbound_roster d))
      | _ \<Rightarrow> Inr False)"

section \<open>Authority lists\<close>

text \<open>
  \<open>norm.partition("@")\<close>; within Latin-1 every string is already in normal form NFC, so
  the normalisation some accessors add is the identity here.
\<close>

definition local_part :: "string \<Rightarrow> string" where
  "local_part s = takeWhile (\<lambda>c. c \<noteq> CHR ''@'') s"

definition domain_part :: "string \<Rightarrow> string" where
  "domain_part s = drop 1 (dropWhile (\<lambda>c. c \<noteq> CHR ''@'') s)"

text \<open>A person, not a domain.\<close>

definition one_address :: "string \<Rightarrow> bool" where
  "one_address s \<longleftrightarrow> count_list s (CHR ''@'') = 1 \<and> take 1 s \<noteq> ''@'' \<and> local_part s \<noteq> []"

definition dotted :: "string \<Rightarrow> bool" where
  "dotted host \<longleftrightarrow>
     CHR ''.'' \<in> set host \<and> take 1 host \<noteq> ''.'' \<and> take 1 (rev host) \<noteq> ''.''"

definition person_form :: "string \<Rightarrow> bool" where
  "person_form s \<longleftrightarrow> one_address s \<and> dotted (domain_part s)"

definition person_address :: "pyval \<Rightarrow> string" where
  "person_address v =
     (case v of PStr s \<Rightarrow> if person_form (normalized s) then normalized s else [] | _ \<Rightarrow> [])"

text \<open>
  \<open>scope[key]\<close> as a list, the empty list on any other shape: the authority lists are read
  inside a hook and never raise.
\<close>

definition scope_list :: "pydict \<Rightarrow> string \<Rightarrow> pyval list" where
  "scope_list d key =
     (case dget d ''scope'' of
        PDict sc \<Rightarrow> (case dget sc key of PList xs \<Rightarrow> xs | _ \<Rightarrow> [])
      | _ \<Rightarrow> [])"

text \<open>The loop of the authority lists: keep what passes the test, once, in order.\<close>

fun collect :: "(string \<Rightarrow> bool) \<Rightarrow> string list \<Rightarrow> pyval list \<Rightarrow> string list" where
  "collect ok out [] = out"
| "collect ok out (v # vs) =
     (case v of
        PStr s \<Rightarrow>
          (if ok (normalized s) \<and> normalized s \<notin> set out
           then collect ok (out @ [normalized s]) vs else collect ok out vs)
      | _ \<Rightarrow> collect ok out vs)"

definition admins :: "pydict \<Rightarrow> string list" where
  "admins d = collect person_form [] (scope_list d ''admins'')"

definition rule_requests_to :: "pydict \<Rightarrow> string list" where
  "rule_requests_to d =
     collect (\<lambda>a. a \<in> set (admins d)) [] (scope_list d ''rule_requests_to'')"

definition OPS_REPLY_DOMAINS :: "string list" where
  "OPS_REPLY_DOMAINS = [''smd.services'', ''smdurgan.com'']"

definition ops_reply_from :: "pydict \<Rightarrow> string list" where
  "ops_reply_from d =
     collect (\<lambda>a. one_address a \<and> domain_part a \<in> set OPS_REPLY_DOMAINS) []
       (scope_list d ''ops_reply_from'')"

text \<open>Exact membership: no domain widening.\<close>

definition exact_member :: "string list \<Rightarrow> pyval \<Rightarrow> bool" where
  "exact_member xs v =
     (case v of PStr s \<Rightarrow> normalized s \<noteq> [] \<and> normalized s \<in> set xs | _ \<Rightarrow> False)"

definition sender_is_admin :: "pydict \<Rightarrow> pyval \<Rightarrow> bool" where
  "sender_is_admin d v = exact_member (admins d) v"

definition sender_may_answer_ops :: "pydict \<Rightarrow> pyval \<Rightarrow> bool" where
  "sender_may_answer_ops d v = exact_member (ops_reply_from d) v"

text \<open>
  Staff the Operator may send as, address and authored name; devices, mailbox and the
  admin its replies go to. In both lists the first entry of an address wins.
\<close>

fun first_entries ::
  "(pyval \<Rightarrow> (string \<times> 'a) option) \<Rightarrow> (string \<times> 'a) list \<Rightarrow> pyval list \<Rightarrow> (string \<times> 'a) list" where
  "first_entries entry out [] = out"
| "first_entries entry out (v # vs) =
     (case entry v of
        None \<Rightarrow> first_entries entry out vs
      | Some (a, x) \<Rightarrow>
          if a \<in> set (keys out) then first_entries entry out vs
          else first_entries entry (out @ [(a, x)]) vs)"

definition staff_entry :: "pyval \<Rightarrow> (string \<times> string) option" where
  "staff_entry v =
     (case v of
        PDict e \<Rightarrow>
          (case (dget e ''address'', dget e ''name'') of
             (PStr a, PStr n) \<Rightarrow>
               if strip n \<noteq> [] \<and> person_form (normalized a) then Some (normalized a, strip n)
               else None
           | _ \<Rightarrow> None)
      | _ \<Rightarrow> None)"

definition staff_send_as :: "pydict \<Rightarrow> (string \<times> string) list" where
  "staff_send_as d = first_entries staff_entry [] (scope_list d ''staff_send_as'')"

definition staff_send_as_entry :: "pydict \<Rightarrow> pyval \<Rightarrow> (string \<times> string) option" where
  "staff_send_as_entry d v =
     (case v of
        PStr s \<Rightarrow> (if normalized s = [] then None
                   else find (\<lambda>e. fst e = normalized s) (staff_send_as d))
      | _ \<Rightarrow> None)"

definition device_entry :: "string list \<Rightarrow> pyval \<Rightarrow> (string \<times> string) option" where
  "device_entry adm v =
     (case v of
        PDict e \<Rightarrow>
          (let a = person_address (dget e ''address''); r = person_address (dget e ''replies_to'') in
             if a = [] \<or> r = [] \<or> r \<notin> set adm then None else Some (a, r))
      | _ \<Rightarrow> None)"

definition device_senders :: "pydict \<Rightarrow> (string \<times> string) list" where
  "device_senders d = first_entries (device_entry (admins d)) [] (scope_list d ''device_senders'')"

definition device_reply_target :: "pydict \<Rightarrow> pyval \<Rightarrow> string option" where
  "device_reply_target d v =
     (if person_address v = [] then None
      else map_option snd (find (\<lambda>e. fst e = person_address v) (device_senders d)))"

text \<open>The first persona with the slug; \<open>PNone\<close> stands for a persona that is not there.\<close>

fun find_persona :: "string \<Rightarrow> pyval list \<Rightarrow> pydict option" where
  "find_persona slug [] = None"
| "find_persona slug (v # vs) =
     (case v of
        PDict p \<Rightarrow> if dget p ''slug'' = PStr slug then Some p else find_persona slug vs
      | _ \<Rightarrow> find_persona slug vs)"

text \<open>\<open>d.get(k)\<close> of something that may not be a mapping.\<close>

definition sub :: "pyval \<Rightarrow> string \<Rightarrow> pyval" where
  "sub v k = (case v of PDict e \<Rightarrow> dget e k | _ \<Rightarrow> PNone)"

definition external_send_as_staff_ceiling :: "pydict \<Rightarrow> pyval \<Rightarrow> string option" where
  "external_send_as_staff_ceiling d slug =
     (case slug of
        PStr s \<Rightarrow>
          (if s = [] then None
           else case personas d of
             Inl _ \<Rightarrow> None
           | Inr ps \<Rightarrow>
               (case find_persona s ps of
                  None \<Rightarrow> None
                | Some p \<Rightarrow>
                    (case sub (sub (dget p ''entitlements'') ''exposure'') ''external_send_as_staff'' of
                       PStr c \<Rightarrow> if c = [] then None else Some c
                     | _ \<Rightarrow> None)))
      | _ \<Rightarrow> None)"

text \<open>The firm's own name for an address; the first authored user with it decides.\<close>

fun user_name :: "string \<Rightarrow> pyval list \<Rightarrow> string option" where
  "user_name wanted [] = None"
| "user_name wanted (v # vs) =
     (case v of
        PDict e \<Rightarrow>
          (case dget e ''email'' of
             PStr m \<Rightarrow>
               if normalized m \<noteq> wanted then user_name wanted vs
               else (case dget e ''full_name'' of
                       PStr n \<Rightarrow> if strip n = [] then None else Some (strip n)
                     | _ \<Rightarrow> None)
           | _ \<Rightarrow> user_name wanted vs)
      | _ \<Rightarrow> user_name wanted vs)"

definition authored_person_name :: "pydict \<Rightarrow> pyval \<Rightarrow> string option" where
  "authored_person_name d v =
     (case v of
        PStr s \<Rightarrow>
          (if normalized s = [] then None
           else case dget d ''users'' of PList us \<Rightarrow> user_name (normalized s) us | _ \<Rightarrow> None)
      | _ \<Rightarrow> None)"

section \<open>The relationship block\<close>

record person =
  p_id :: string
  p_name :: string
  p_role :: "string option"
  p_prefers :: "string list"
  p_avoid :: "string list"

fun clean_str_list :: "pyval \<Rightarrow> string list" where
  "clean_str_list (PList vs) =
     List.map_filter (\<lambda>v. case v of PStr s \<Rightarrow> if s = [] then None else Some s | _ \<Rightarrow> None) vs"
| "clean_str_list _ = []"

definition relationship_person :: "pyval \<Rightarrow> person option" where
  "relationship_person v =
     (case v of
        PDict e \<Rightarrow>
          (case (dget e ''id'', dget e ''name'') of
             (PStr i, PStr n) \<Rightarrow>
               if i = [] \<or> n = [] then None
               else Some \<lparr>p_id = i, p_name = n,
                 p_role = (case dget e ''role'' of PStr r \<Rightarrow> if r = [] then None else Some r
                             | _ \<Rightarrow> None),
                 p_prefers = clean_str_list (dget e ''prefers''),
                 p_avoid = clean_str_list (dget e ''avoid'')\<rparr>
           | _ \<Rightarrow> None)
      | _ \<Rightarrow> None)"

definition relationship_people :: "pydict \<Rightarrow> py_exn + person list" where
  "relationship_people d =
     map_sum id (\<lambda>r. case dget r ''people'' of
                       PList vs \<Rightarrow> List.map_filter relationship_person vs | _ \<Rightarrow> [])
       (relationship d)"

section \<open>Lemmas\<close>

lemma collect_sound:
  assumes "\<forall>a \<in> set out. P a" "\<forall>s. ok (normalized s) \<longrightarrow> P (normalized s)" "distinct out"
  shows "(\<forall>a \<in> set (collect ok out vs). P a) \<and> distinct (collect ok out vs)"
  using assms
proof (induction vs arbitrary: out)
  case Nil
  then show ?case by simp
next
  case (Cons v vs)
  show ?case
  proof (cases "\<exists>s. v = PStr s \<and> ok (normalized s) \<and> normalized s \<notin> set out")
    case True
    then obtain s where s: "v = PStr s" "ok (normalized s)" "normalized s \<notin> set out" by blast
    then have "\<forall>a \<in> set (out @ [normalized s]). P a" "distinct (out @ [normalized s])"
      using Cons.prems by auto
    from Cons.IH [OF this(1) Cons.prems(2) this(2)] show ?thesis using s by simp
  next
    case False
    then have "collect ok out (v # vs) = collect ok out vs" by (cases v) auto
    then show ?thesis using Cons.IH [OF Cons.prems] by simp
  qed
qed

lemma collect_subset: "set (collect ok [] vs) \<subseteq> {a. ok a \<and> normalized a = a}"
  using collect_sound [of "[]" "\<lambda>a. ok a \<and> normalized a = a" ok vs] by auto

lemma distinct_collect [simp]: "distinct (collect ok [] vs)"
  using collect_sound [of "[]" "\<lambda>a. True" ok vs] by simp

lemma first_entries_sound:
  assumes "\<forall>e \<in> set out. P e" "\<And>v e. entry v = Some e \<Longrightarrow> P e" "distinct (keys out)"
  shows "(\<forall>e \<in> set (first_entries entry out vs). P e) \<and> distinct (keys (first_entries entry out vs))"
  using assms(1,3)
proof (induction vs arbitrary: out)
  case Nil
  then show ?case by simp
next
  case (Cons v vs)
  show ?case
  proof (cases "\<exists>a x. entry v = Some (a, x) \<and> a \<notin> set (keys out)")
    case True
    then obtain a x where e: "entry v = Some (a, x)" "a \<notin> set (keys out)" by blast
    then have "\<forall>e \<in> set (out @ [(a, x)]). P e" "distinct (keys (out @ [(a, x)]))"
      using Cons.prems assms(2) by auto
    from Cons.IH [OF this] show ?thesis using e by simp
  next
    case False
    then have "first_entries entry out (v # vs) = first_entries entry out vs"
      by (cases "entry v") auto
    then show ?thesis using Cons.IH [OF Cons.prems] by simp
  qed
qed

lemma first_entries_from:
  assumes "\<And>v e. entry v = Some e \<Longrightarrow> P e"
  shows "set (first_entries entry [] vs) \<subseteq> {e. P e}" "distinct (keys (first_entries entry [] vs))"
  using first_entries_sound [of "[]" P entry vs] assms by auto

lemma staff_entry_form: "staff_entry v = Some e \<Longrightarrow> person_form (fst e) \<and> snd e \<noteq> []"
  by (auto simp: staff_entry_def split: pyval.splits if_splits)

lemma person_address_form: "person_address v \<noteq> [] \<Longrightarrow> person_form (person_address v)"
  by (auto simp: person_address_def split: pyval.splits if_splits)

lemma device_entry_form: "device_entry adm v = Some e \<Longrightarrow> person_form (fst e) \<and> snd e \<in> set adm"
  by (auto simp: device_entry_def Let_def person_address_form split: pyval.splits if_splits)

section \<open>Properties\<close>

text \<open>
  C40: authority is person-shaped and closed under the admin list, whatever the document
  holds. Every admin, every staff sender and every device is one exact address with a
  dotted domain, listed once; every requester of rules and every person a device's mail
  goes to is an admin; whoever answers operations requests is at an operations domain.
\<close>

theorem authority_lists_hold_people:
  "set (admins d) \<subseteq> {a. person_form a \<and> normalized a = a} \<and> distinct (admins d) \<and>
   set (rule_requests_to d) \<subseteq> set (admins d) \<and>
   set (ops_reply_from d) \<subseteq> {a. one_address a \<and> domain_part a \<in> set OPS_REPLY_DOMAINS} \<and>
   set (staff_send_as d) \<subseteq> {e. person_form (fst e) \<and> snd e \<noteq> []} \<and>
   distinct (keys (staff_send_as d)) \<and>
   set (device_senders d) \<subseteq> {e. person_form (fst e) \<and> snd e \<in> set (admins d)} \<and>
   distinct (keys (device_senders d))"
proof (intro conjI)
  show "set (admins d) \<subseteq> {a. person_form a \<and> normalized a = a}" "distinct (admins d)"
    unfolding admins_def by (rule collect_subset) simp
  show "set (rule_requests_to d) \<subseteq> set (admins d)"
    using collect_subset [of "\<lambda>a. a \<in> set (admins d)"] by (fastforce simp: rule_requests_to_def)
  show "set (ops_reply_from d) \<subseteq> {a. one_address a \<and> domain_part a \<in> set OPS_REPLY_DOMAINS}"
    unfolding ops_reply_from_def by (rule subset_trans [OF collect_subset]) auto
  show "set (staff_send_as d) \<subseteq> {e. person_form (fst e) \<and> snd e \<noteq> []}"
    unfolding staff_send_as_def by (rule first_entries_from) (rule staff_entry_form)
  show "set (device_senders d) \<subseteq> {e. person_form (fst e) \<and> snd e \<in> set (admins d)}"
    unfolding device_senders_def by (rule first_entries_from) (rule device_entry_form)
qed (simp_all add: staff_send_as_def device_senders_def
      first_entries_from(2) [where P = "\<lambda>e. True"])

text \<open>
  administration is exact. A sender is an admin when, trimmed and in lower case, it is
  on the admin list, so being on a domain is never enough: a sender whose address is not
  person-shaped is no admin of any document, and a scope or list of the wrong shape has
  no admins, no answerers, no staff senders and no devices at all.
\<close>

theorem admin_is_exact_and_fails_closed:
  "(sender_is_admin d (PStr s) \<longleftrightarrow> normalized s \<in> set (admins d)) \<and>
   (sender_is_admin d v \<longrightarrow> (\<exists>s. v = PStr s \<and> person_form (normalized s))) \<and>
   ((\<forall>sc. dget d ''scope'' \<noteq> PDict sc) \<longrightarrow>
      \<not> sender_is_admin d v \<and> \<not> sender_may_answer_ops d v \<and>
      staff_send_as d = [] \<and> device_senders d = [])"
proof (intro conjI impI)
  have pf: "person_form a" if "a \<in> set (admins d)" for a
    using that collect_subset [of person_form] by (auto simp: admins_def)
  then have ne: "a \<noteq> []" if "a \<in> set (admins d)" for a
    using that by (fastforce simp: person_form_def one_address_def)
  show "sender_is_admin d (PStr s) \<longleftrightarrow> normalized s \<in> set (admins d)"
    using ne by (auto simp: sender_is_admin_def exact_member_def)
  show "\<exists>s. v = PStr s \<and> person_form (normalized s)" if "sender_is_admin d v"
    using that pf by (cases v) (auto simp: sender_is_admin_def exact_member_def)
next
  assume "\<forall>sc. dget d ''scope'' \<noteq> PDict sc"
  then have none: "scope_list d k = []" for k
    by (auto simp: scope_list_def split: pyval.splits)
  show "\<not> sender_is_admin d v" "\<not> sender_may_answer_ops d v" "staff_send_as d = []"
    "device_senders d = []"
    by (auto simp: sender_is_admin_def sender_may_answer_ops_def exact_member_def admins_def
        ops_reply_from_def staff_send_as_def device_senders_def none split: pyval.splits)
qed

theorem admin_is_exact_and_fails_closed_witness:
  "sender_is_admin [(''scope'', PDict [(''admins'', PList [PStr '' Dana@firm.example''])])]
     (PStr ''dana@FIRM.example'') \<and>
   \<not> sender_is_admin [(''scope'', PList [])] (PStr ''dana@firm.example'')"
proof -
  let ?d = "[(''scope'', PDict [(''admins'', PList [PStr '' Dana@firm.example''])])]"
  have "normalized ''dana@FIRM.example'' \<in> set (admins ?d)"
    by (simp add: admins_def scope_list_def) code_simp
  then show ?thesis
    using admin_is_exact_and_fails_closed [of ?d "''dana@FIRM.example''"]
      admin_is_exact_and_fails_closed [of "[(''scope'', PList [])]" "[]" "PStr ''dana@firm.example''"]
    by simp
qed

end
