(* ===== verification/Stores.thy ===== *)
theory Stores
  imports Prelude
begin

text \<open>
  Interfaces of the stores and registers the components share, each with the lemmas its
  clients use.
\<close>

section \<open>Keyed stores\<close>

text \<open>
  The interface of a table keyed by one column: a lookup, and a write that changes the
  answer for its key only. \<open>ok\<close> says which writes the reader recognises.
\<close>

locale keyed_store =
  fixes get :: "'s \<Rightarrow> 'k \<Rightarrow> 'v option"
    and put :: "'k \<Rightarrow> 'v \<Rightarrow> 's \<Rightarrow> 's"
    and ok :: "'k \<Rightarrow> 'v \<Rightarrow> bool"
  assumes get_put: "ok k v \<Longrightarrow> get (put k v s) = (get s)(k \<mapsto> v)"
begin

lemma get_put_all:
  "\<forall>(k, v) \<in> set kvs. ok k v \<Longrightarrow> get (fold (\<lambda>(k, v). put k v) kvs s) = get s ++ map_of (rev kvs)"
  by (induction kvs arbitrary: s) (auto simp: get_put map_add_def fun_eq_iff split: option.splits)

lemma get_put_distinct:
  assumes "\<forall>(k, v) \<in> set kvs. ok k v" "distinct (keys kvs)"
  shows "get (fold (\<lambda>(k, v). put k v) kvs s) k = (case map_of kvs k of None \<Rightarrow> get s k | Some v \<Rightarrow> Some v)"
proof -
  have "map_of (rev kvs) = map_of kvs"
    using assms(2) by (intro map_of_eqI) (auto simp: rev_map [symmetric] intro: sym)
  then show ?thesis by (simp add: get_put_all [OF assms(1)] map_add_def)
qed

end

section \<open>Bounded registers\<close>

text \<open>
  The interface of a bounded first-in-first-out register: a write is readable at once, it
  answers for its own key only, it can lose other keys but never change them, and it loses
  nothing while there is room.
\<close>

locale bounded_register =
  fixes get :: "'s \<Rightarrow> 'k \<Rightarrow> 'v option"
    and put :: "'k \<Rightarrow> 'v \<Rightarrow> 's \<Rightarrow> 's"
    and held :: "'s \<Rightarrow> 'k set"
    and cap :: nat
  assumes get_held: "get s k \<noteq> None \<longleftrightarrow> k \<in> held s"
    and finite_held: "finite (held s)"
    and get_put_same: "0 < cap \<Longrightarrow> get (put k v s) k = Some v"
    and get_put_other: "k' \<noteq> k \<Longrightarrow> get (put k v s) k' = get s k' \<or> get (put k v s) k' = None"
    and room: "card (insert k (held s)) \<le> cap \<Longrightarrow> k' \<noteq> k \<Longrightarrow> get (put k v s) k' = get s k'"
begin

lemma held_put: "0 < cap \<Longrightarrow> held (put k v s) \<subseteq> insert k (held s)"
proof
  fix x
  assume "x \<in> held (put k v s)"
  then show "x \<in> insert k (held s)"
    using get_put_other [of x k v s] get_held [of s x] get_held [of "put k v s" x]
    by (cases "x = k") auto
qed

lemma get_put:
  assumes "0 < cap" "card (insert k (held s)) \<le> cap"
  shows "get (put k v s) = (get s)(k \<mapsto> v)"
  using assms get_put_same room by (auto simp: fun_eq_iff)

lemma held_put_room:
  assumes "0 < cap" "card (insert k (held s)) \<le> cap"
  shows "held (put k v s) = insert k (held s)"
  using get_put [OF assms] get_held by (auto simp: fun_upd_def split: if_splits; metis)

text \<open>While the keys written stay within a small set, nothing is lost.\<close>

lemma fits:
  assumes "held s \<subseteq> K" "k \<in> K" "finite K" "card K \<le> cap"
  shows "card (insert k (held s)) \<le> cap"
  using assms by (meson card_mono insert_subset le_trans)

end

text \<open>
  An ordered dictionary written with \<open>d[k] = v; d.move_to_end(k)\<close> and trimmed to \<open>cap\<close> is
  such a register.
\<close>

definition bounded_put :: "nat \<Rightarrow> 'k \<Rightarrow> 'v \<Rightarrow> ('k \<times> 'v) list \<Rightarrow> ('k \<times> 'v) list" where
  "bounded_put cap k v d = evict cap (od_put k v d)"

lemma map_of_od_put [simp]: "map_of (od_put k v d) = (map_of d)(k \<mapsto> v)"
proof
  fix x
  have "map_of (AList.delete k d) = (map_of d)(k := None)" by (rule delete_conv')
  then show "map_of (od_put k v d) x = ((map_of d)(k \<mapsto> v)) x"
    by (simp add: od_put_def map_add_def split: option.splits)
qed

lemma keys_od_put: "set (keys (od_put k v d)) = insert k (set (keys d))"
  by (auto simp: od_put_def delete_keys)

lemma map_of_drop:
  assumes "distinct (keys d)"
  shows "map_of (drop n d) k = (if k \<in> set (keys (drop n d)) then map_of d k else None)"
proof (cases "k \<in> set (keys (drop n d))")
  case True
  then obtain v where v: "(k, v) \<in> set (drop n d)" by auto
  then have "(k, v) \<in> set d" by (meson in_set_dropD)
  then show ?thesis
    using v assms True by (metis distinct_drop drop_map map_of_is_SomeI)
qed (simp add: map_of_eq_None_iff)

lemma bounded_get_same:
  assumes "distinct (keys d)" "0 < cap"
  shows "map_of (bounded_put cap k v d) k = Some v"
proof -
  have d: "distinct (keys (od_put k v d))" using assms(1) by simp
  let ?n = "length (od_put k v d) - cap"
  have "?n < length (od_put k v d)" using assms(2) by (simp add: od_put_def)
  then have "(k, v) \<in> set (drop ?n (od_put k v d))"
    by (simp add: od_put_def)
  then have "(k, v) \<in> set (bounded_put cap k v d)" by (simp add: bounded_put_def evict_eq_drop)
  moreover have "distinct (keys (bounded_put cap k v d))" using d by (simp add: bounded_put_def)
  ultimately show ?thesis by simp
qed

lemma bounded_get_other:
  assumes "distinct (keys d)" "k' \<noteq> k"
  shows "map_of (bounded_put cap k v d) k' = map_of d k' \<or> map_of (bounded_put cap k v d) k' = None"
proof -
  have d: "distinct (keys (od_put k v d))" using assms(1) by simp
  show ?thesis
    using assms(2)
    by (simp add: bounded_put_def evict_eq_drop map_of_drop [OF d] del: map_map set_map)
qed

lemma bounded_room:
  assumes "distinct (keys d)" "card (insert k (set (keys d))) \<le> cap"
  shows "bounded_put cap k v d = od_put k v d"
proof -
  have "distinct (keys (od_put k v d))" using assms(1) by simp
  then have "length (od_put k v d) = card (insert k (set (keys d)))"
    by (metis distinct_card keys_od_put length_map)
  then show ?thesis using assms(2) by (simp add: bounded_put_def)
qed

lemma distinct_bounded_put [simp]: "distinct (keys d) \<Longrightarrow> distinct (keys (bounded_put cap k v d))"
  by (simp add: bounded_put_def)

lemma length_bounded_put [simp]: "length (bounded_put cap k v d) \<le> cap"
  by (simp add: bounded_put_def)

text \<open>
  The registers as values: ordered dictionaries, whose keys are distinct by construction.
\<close>

typedef ('k, 'v) odict = "{d :: ('k \<times> 'v) list. distinct (keys d)}"
  by (rule exI [of _ "[]"]) simp

setup_lifting type_definition_odict

lift_definition empty_odict :: "('k, 'v) odict" is "[]" by simp

lift_definition odict_get :: "('k, 'v) odict \<Rightarrow> 'k \<Rightarrow> 'v option" is "\<lambda>d k. map_of d k" .

lift_definition odict_put :: "nat \<Rightarrow> 'k \<Rightarrow> 'v \<Rightarrow> ('k, 'v) odict \<Rightarrow> ('k, 'v) odict"
  is "bounded_put" by simp

lift_definition odict_keys :: "('k, 'v) odict \<Rightarrow> 'k list" is "\<lambda>d. keys d" .

lift_definition odict_pop :: "'k \<Rightarrow> ('k, 'v) odict \<Rightarrow> ('k, 'v) odict" is "\<lambda>k d. AList.delete k d"
  by (simp add: distinct_delete)

text \<open>\<open>d.move_to_end(k)\<close> for a key that is there.\<close>

lift_definition odict_touch :: "'k \<Rightarrow> ('k, 'v) odict \<Rightarrow> ('k, 'v) odict"
  is "\<lambda>k d. case map_of d k of None \<Rightarrow> d | Some v \<Rightarrow> od_put k v d"
  by (simp split: option.splits)

text \<open>\<open>d[k] = v\<close> for a key that keeps its place.\<close>

lift_definition odict_set :: "'k \<Rightarrow> 'v \<Rightarrow> ('k, 'v) odict \<Rightarrow> ('k, 'v) odict"
  is "\<lambda>k v d. AList.update k v d" by (simp add: distinct_update)

lemma odict_get_set [simp]: "odict_get (odict_set k v d) = (odict_get d)(k \<mapsto> v)"
  by transfer (simp add: update_conv')

lemma odict_get_empty [simp]: "odict_get empty_odict k = None"
  by transfer simp

lemma odict_get_pop [simp]: "odict_get (odict_pop k d) = (odict_get d)(k := None)"
  by transfer (auto simp: fun_eq_iff delete_conv')

lemma odict_get_touch [simp]: "odict_get (odict_touch k d) = odict_get d"
  by transfer (auto simp: fun_eq_iff split: option.splits)

lemma odict_keys_get: "k \<in> set (odict_keys d) \<longleftrightarrow> odict_get d k \<noteq> None"
  by transfer (auto simp: map_of_eq_None_iff)

lemma odict_keys_empty [simp]: "odict_keys empty_odict = []"
  by transfer simp

lemma odict_keys_pop [simp]: "set (odict_keys (odict_pop k d)) = set (odict_keys d) - {k}"
  by (auto simp: odict_keys_get split: if_splits)

lemma odict_keys_touch [simp]: "set (odict_keys (odict_touch k d)) = set (odict_keys d)"
  by (auto simp: odict_keys_get)

lemma odict_size: "length (odict_keys (odict_put cap k v d)) \<le> cap"
  by transfer simp

interpretation od: bounded_register odict_get "odict_put cap" "\<lambda>d. set (odict_keys d)" cap for cap
proof
  fix d :: "('k, 'v) odict" and k k' :: 'k and v :: 'v
  show "odict_get d k \<noteq> None \<longleftrightarrow> k \<in> set (odict_keys d)" by (simp add: odict_keys_get)
  show "0 < cap \<Longrightarrow> odict_get (odict_put cap k v d) k = Some v"
    by transfer (rule bounded_get_same)
  show "k' \<noteq> k \<Longrightarrow> odict_get (odict_put cap k v d) k' = odict_get d k' \<or>
      odict_get (odict_put cap k v d) k' = None"
    by transfer (rule bounded_get_other)
  show "card (insert k (set (odict_keys d))) \<le> cap \<Longrightarrow> k' \<noteq> k \<Longrightarrow>
      odict_get (odict_put cap k v d) k' = odict_get d k'"
    by transfer (simp add: bounded_room)
qed simp

text \<open>A full register forgets its oldest key when a new one comes.\<close>

lemma odict_full:
  assumes "odict_keys d = k0 # ks" "length (odict_keys d) = cap" "k \<notin> set (odict_keys d)"
  shows "odict_keys (odict_put cap k v d) = ks @ [k]"
  using assms
  by transfer (auto simp: bounded_put_def evict_eq_drop od_put_def drop_map delete_id map_of_eq_None_iff
      Suc_diff_le)

lemma odict_keys_fresh:
  assumes "length (odict_keys d) < cap" "k \<notin> set (odict_keys d)"
  shows "odict_keys (odict_put cap k v d) = odict_keys d @ [k]"
  using assms by transfer (auto simp: bounded_put_def evict_eq_drop od_put_def delete_id)

end
