(* ===== verification/Exposure_Override.thy ===== *)
theory Exposure_Override
  imports Trust_Ceiling Customer_Config Stores
begin

text \<open>
  The client-owned entitlement dial (\<open>shared/exposure_override.py\<close>) and the exposure a
  persona actually runs under (\<open>_parse_exposure_map\<close>, \<open>_overlay_runtime_overrides\<close> and
  \<open>_resolve_persona_exposure\<close> of \<open>enforce.py\<close>).

  The string-level maps are the code's: their keys and values round-trip with the two
  enumerations. \<open>str()\<close> of an authored value that is not a string is never a word of
  either vocabulary, so such an entry is dropped like any unknown word.
\<close>

type_synonym strmap = "(string \<times> string) list"

section \<open>Parsing authored maps\<close>

definition as_text :: "pyval \<Rightarrow> string option" where
  "as_text v = (case v of PStr s \<Rightarrow> Some s | _ \<Rightarrow> None)"

definition exposure_entry :: "string \<times> pyval \<Rightarrow> (action_class \<times> ceiling) option" where
  "exposure_entry kv =
     (case class_of (fst kv) of
        None \<Rightarrow> None
      | Some a \<Rightarrow>
          if a = READ then None
          else map_option (Pair a) (Option.bind (as_text (snd kv)) ceiling_of))"

fun parse_entries :: "exposure \<Rightarrow> pydict \<Rightarrow> exposure" where
  "parse_entries out [] = out"
| "parse_entries out (kv # d) =
     (case exposure_entry kv of
        None \<Rightarrow> parse_entries out d
      | Some (a, c) \<Rightarrow> parse_entries (AList.update a c out) d)"

definition parse_exposure_map :: "pyval \<Rightarrow> exposure" where
  "parse_exposure_map raw = (case raw of PDict d \<Rightarrow> parse_entries [] d | _ \<Rightarrow> [])"

section \<open>Bounds\<close>

definition CEILINGS :: "string list" where
  "CEILINGS = map ceiling_value [AUTONOMOUS, CONFIRM, DRAFT_FOR_REVIEW, REFUSED]"

definition overridable :: "string \<Rightarrow> bool" where
  "overridable s = (case class_of s of None \<Rightarrow> False | Some a \<Rightarrow> a \<noteq> READ \<and> a \<noteq> REFUSED_CLASS)"

fun clean_entries :: "strmap \<Rightarrow> pydict \<Rightarrow> strmap" where
  "clean_entries out [] = out"
| "clean_entries out ((k, v) # d) =
     (case as_text v of
        None \<Rightarrow> clean_entries out d
      | Some s \<Rightarrow>
          if overridable k \<and> s \<in> set CEILINGS then clean_entries (AList.update k s out) d
          else clean_entries out d)"

definition clean :: "pyval \<Rightarrow> strmap" where
  "clean raw = (case raw of PDict d \<Rightarrow> clean_entries [] d | _ \<Rightarrow> [])"

definition authored_bounds :: "config_file \<Rightarrow> string \<Rightarrow> py_exn + strmap \<times> strmap" where
  "authored_bounds cfg slug =
     (case cfg of
        Missing_File \<Rightarrow> Inr ([], [])
      | Faulty_File \<Rightarrow> Inl (ConfigError ''customer.yaml unreadable'')
      | Document d \<Rightarrow>
          (case personas d of
             Inl e \<Rightarrow> Inl e
           | Inr ps \<Rightarrow>
               (case find_persona slug ps of
                  None \<Rightarrow> Inr ([], [])
                | Some p \<Rightarrow>
                    (case dget p ''entitlements'' of
                       PDict ent \<Rightarrow>
                         Inr (clean (dget ent ''exposure''), clean (dget ent ''exposure_ceiling''))
                     | _ \<Rightarrow> Inr ([], [])))))"

definition sget :: "strmap \<Rightarrow> string \<Rightarrow> string option" where
  "sget m k = (case map_of m k of None \<Rightarrow> None | Some v \<Rightarrow> if v = [] then None else Some v)"

definition max_allowed :: "string \<Rightarrow> strmap \<Rightarrow> strmap \<Rightarrow> string" where
  "max_allowed action expo ceil =
     (case sget ceil action of
        Some c \<Rightarrow> c
      | None \<Rightarrow> (case sget expo action of Some c \<Rightarrow> c | None \<Rightarrow> ''refused''))"

definition string_rank :: "string \<Rightarrow> nat option" where
  "string_rank s = map_option RESTRICTIVENESS (ceiling_of s)"

section \<open>Writing overrides\<close>

record override_row =
  o_customer :: string
  o_persona :: string
  o_action :: string
  o_ceiling :: string
  o_actor :: string
  o_reason :: string
  o_updated :: string

datatype rejection =
    Malformed_Entry
  | Unknown_Action pyval
  | Unknown_Ceiling pyval string
  | Exceeds_Ceiling string string string

datatype override_error =
    Missing_Argument
  | No_Changes
  | Bounds_Unreadable py_exn
  | Bound_Key_Error string
  | Rejected "rejection list"

text \<open>
  One entry of the batch. The bound comes from the cleaned maps, so it is always a word of
  the vocabulary; the branch for any other one is the \<open>KeyError\<close> of the rank table.
\<close>

definition normalize_change ::
  "strmap \<Rightarrow> strmap \<Rightarrow> pyval \<Rightarrow> override_error + (rejection + string \<times> string)" where
  "normalize_change expo ceil entry =
     (case entry of
        PDict e \<Rightarrow>
          (let action = as_text (dget e ''action_class''); value = as_text (dget e ''ceiling'') in
           case action of
             None \<Rightarrow> Inr (Inl (Unknown_Action (dget e ''action_class'')))
           | Some a \<Rightarrow>
               if \<not> overridable a then Inr (Inl (Unknown_Action (dget e ''action_class'')))
               else (case value of
                 None \<Rightarrow> Inr (Inl (Unknown_Ceiling (dget e ''ceiling'') a))
               | Some v \<Rightarrow>
                   if v \<notin> set CEILINGS then Inr (Inl (Unknown_Ceiling (dget e ''ceiling'') a))
                   else
                     let bound = max_allowed a expo ceil in
                     case (string_rank v, string_rank bound) of
                       (Some rv, Some rb) \<Rightarrow>
                         if rv < rb then Inr (Inl (Exceeds_Ceiling a v bound)) else Inr (Inr (a, v))
                     | _ \<Rightarrow> Inl (Bound_Key_Error bound)))
      | _ \<Rightarrow> Inr (Inl Malformed_Entry))"

fun normalize_changes ::
  "strmap \<Rightarrow> strmap \<Rightarrow> pyval list \<Rightarrow> override_error + rejection list \<times> (string \<times> string) list" where
  "normalize_changes expo ceil [] = Inr ([], [])"
| "normalize_changes expo ceil (e # es) =
     (case normalize_change expo ceil e of
        Inl err \<Rightarrow> Inl err
      | Inr r \<Rightarrow>
          (case normalize_changes expo ceil es of
             Inl err \<Rightarrow> Inl err
           | Inr (rej, ok) \<Rightarrow>
               (case r of Inl x \<Rightarrow> Inr (x # rej, ok) | Inr x \<Rightarrow> Inr (rej, x # ok))))"

text \<open>The conflict clause keeps the row's place and replaces what was set.\<close>

definition row_of :: "override_row \<Rightarrow> string \<times> string \<times> string" where
  "row_of r = (o_customer r, o_persona r, o_action r)"

fun put_override :: "override_row \<Rightarrow> override_row list \<Rightarrow> override_row list" where
  "put_override r [] = [r]"
| "put_override r (x # xs) = (if row_of x = row_of r then r # xs else x # put_override r xs)"

definition set_overrides ::
  "config_file \<Rightarrow> string \<Rightarrow> string \<Rightarrow> string \<Rightarrow> pyval \<Rightarrow> string \<Rightarrow> string \<Rightarrow> override_row list \<Rightarrow>
   (override_error + (string \<times> string) list) \<times> override_row list" where
  "set_overrides cfg customer now persona changes actor_id why tab =
     (if persona = [] \<or> actor_id = [] \<or> why = [] then (Inl Missing_Argument, tab)
      else case changes of
        PList es \<Rightarrow>
          (if es = [] then (Inl No_Changes, tab)
           else case authored_bounds cfg persona of
             Inl e \<Rightarrow> (Inl (Bounds_Unreadable e), tab)
           | Inr (expo, ceil) \<Rightarrow>
               (case normalize_changes expo ceil es of
                  Inl err \<Rightarrow> (Inl err, tab)
                | Inr (rej, ok) \<Rightarrow>
                    if rej \<noteq> [] then (Inl (Rejected rej), tab)
                    else (Inr ok,
                      fold (\<lambda>(a, v). put_override
                        \<lparr>o_customer = customer, o_persona = persona, o_action = a, o_ceiling = v,
                         o_actor = actor_id, o_reason = why, o_updated = now\<rparr>) ok tab)))
      | _ \<Rightarrow> (Inl No_Changes, tab))"

section \<open>Reading overrides\<close>

datatype override_store = No_Store | Store_Fault | Store "override_row list"

definition read_overrides :: "string \<Rightarrow> string \<Rightarrow> override_row list \<Rightarrow> strmap" where
  "read_overrides customer persona tab =
     map (\<lambda>r. (o_action r, o_ceiling r))
       (filter (\<lambda>r. o_customer r = customer \<and> o_persona r = persona \<and>
                    overridable (o_action r) \<and> o_ceiling r \<in> set CEILINGS) tab)"

definition read_store :: "string \<Rightarrow> string \<Rightarrow> override_store \<Rightarrow> py_exn + strmap" where
  "read_store customer persona st =
     (case st of
        No_Store \<Rightarrow> Inr []
      | Store_Fault \<Rightarrow> Inl (OtherError ''sqlite3.Error'')
      | Store tab \<Rightarrow> Inr (read_overrides customer persona tab))"

definition clamp :: "strmap \<Rightarrow> strmap \<Rightarrow> string \<Rightarrow> string \<Rightarrow> string" where
  "clamp expo ceil action v =
     (let bound = max_allowed action expo ceil;
          bound_rank = (case string_rank bound of None \<Rightarrow> RESTRICTIVENESS REFUSED | Some n \<Rightarrow> n)
      in case string_rank v of
           None \<Rightarrow> v
         | Some n \<Rightarrow> if n \<ge> bound_rank then v else bound)"

fun layer :: "strmap \<Rightarrow> strmap \<Rightarrow> strmap \<Rightarrow> strmap \<Rightarrow> strmap" where
  "layer expo ceil eff [] = eff"
| "layer expo ceil eff ((a, v) # ovs) =
     (if string_rank v = None then layer expo ceil eff ovs
      else layer expo ceil (AList.update a (clamp expo ceil a v) eff) ovs)"

definition effective_exposure :: "strmap \<Rightarrow> strmap \<Rightarrow> strmap \<Rightarrow> strmap" where
  "effective_exposure expo ceil ovs = layer expo ceil expo ovs"

section \<open>The exposure a persona runs under\<close>

definition string_map :: "exposure \<Rightarrow> strmap" where
  "string_map e = map (\<lambda>(a, c). (class_value a, ceiling_value c)) e"

definition overlay_runtime_overrides :: "strmap \<Rightarrow> exposure \<Rightarrow> exposure \<Rightarrow> exposure" where
  "overlay_runtime_overrides ovs authored ceiling_map =
     parse_exposure_map (PDict (map (\<lambda>(k, v). (k, PStr v))
       (effective_exposure (string_map authored) (string_map ceiling_map) ovs)))"

definition resolve_persona_exposure ::
  "config_file \<Rightarrow> string \<Rightarrow> override_store \<Rightarrow> string \<Rightarrow> py_exn + exposure" where
  "resolve_persona_exposure cfg customer st slug =
     (if slug = [] then Inr []
      else case cfg of
        Missing_File \<Rightarrow> Inr []
      | Faulty_File \<Rightarrow> Inl (ConfigError ''customer.yaml unreadable'')
      | Document d \<Rightarrow>
          (case personas d of
             Inl e \<Rightarrow> Inl e
           | Inr ps \<Rightarrow>
               (case find_persona slug ps of
                  None \<Rightarrow> Inr []
                | Some p \<Rightarrow>
                    (let ent = dget p ''entitlements'';
                         authored = parse_exposure_map (sub ent ''exposure'');
                         bounds = parse_exposure_map (sub ent ''exposure_ceiling'')
                     in map_sum id (\<lambda>ovs. overlay_runtime_overrides ovs authored bounds)
                          (read_store customer slug st)))))"

section \<open>What the maps say\<close>

lemma map_of_string_map [simp]:
  "map_of (string_map e) (class_value a) = map_option ceiling_value (map_of e a)"
  by (induction e) (auto simp: string_map_def)

lemma ceilings [simp]: "s \<in> set CEILINGS \<longleftrightarrow> (\<exists>c. s = ceiling_value c)"
proof -
  have "UNIV = set [AUTONOMOUS, CONFIRM, DRAFT_FOR_REVIEW, REFUSED]"
    using ceiling.exhaust by auto
  then show ?thesis unfolding CEILINGS_def by (metis (no_types, lifting) UNIV_I image_iff list.set_map)
qed

lemma ceiling_value_nonempty [simp]: "ceiling_value c \<noteq> []"
  by (cases c) simp_all

lemma ceiling_value_inj [simp]: "ceiling_value a = ceiling_value b \<longleftrightarrow> a = b"
  by (metis ceiling_of_value option.inject)

lemma overridable_value [simp]: "overridable (class_value a) \<longleftrightarrow> a \<noteq> READ \<and> a \<noteq> REFUSED_CLASS"
  by (simp add: overridable_def)

lemma overridable_cases: "overridable s \<Longrightarrow> \<exists>a. s = class_value a \<and> a \<noteq> READ \<and> a \<noteq> REFUSED_CLASS"
  by (auto simp: overridable_def split: option.splits)

lemma string_rank_value [simp]: "string_rank (ceiling_value c) = Some (RESTRICTIVENESS c)"
  by (simp add: string_rank_def)

lemma distinct_parse_entries: "distinct (keys out) \<Longrightarrow> distinct (keys (parse_entries out d))"
  by (induction out d rule: parse_entries.induct)
     (auto simp: distinct_update split: option.splits)

lemma distinct_parse [simp]: "distinct (keys (parse_exposure_map raw))"
  by (auto simp: parse_exposure_map_def distinct_parse_entries split: pyval.splits)

text \<open>Both parsers read the same authored value for a class an override may address.\<close>

lemma clean_parse_entries:
  assumes "overridable (class_value a)"
    and "map_of outs (class_value a) = map_option ceiling_value (map_of out a)"
  shows "map_of (clean_entries outs d) (class_value a)
    = map_option ceiling_value (map_of (parse_entries out d) a)"
  using assms(2)
proof (induction d arbitrary: outs out)
  case Nil
  then show ?case by simp
next
  case (Cons kv d)
  obtain k v where kv: "kv = (k, v)" by (cases kv)
  show ?case
  proof (cases "exposure_entry kv")
    case None
    then have "clean_entries outs (kv # d) = clean_entries outs d \<or>
        (\<exists>s. clean_entries outs (kv # d) = clean_entries (AList.update k s outs) d \<and> overridable k
          \<and> s \<in> set CEILINGS \<and> as_text v = Some s)"
      by (auto simp: kv split: option.splits if_splits)
    moreover have "\<not> (overridable k \<and> s \<in> set CEILINGS \<and> as_text v = Some s)" for s
      using None by (auto simp: kv exposure_entry_def dest!: overridable_cases)
    ultimately show ?thesis using Cons None by (auto simp: kv)
  next
    case (Some e)
    then obtain b c where e: "e = (b, c)" "k = class_value b" "as_text v = Some (ceiling_value c)"
      "b \<noteq> READ"
      by (cases e)
         (auto simp: kv exposure_entry_def bind_eq_Some_conv split: option.splits if_splits)
    have "map_of (if overridable k then AList.update k (ceiling_value c) outs else outs) (class_value a)
        = map_option ceiling_value (map_of (AList.update b c out) a)"
      using Cons.prems e assms(1) by (auto simp: update_conv')
    moreover have "clean_entries outs (kv # d)
        = clean_entries (if overridable k then AList.update k (ceiling_value c) outs else outs) d"
      using e by (auto simp: kv)
    ultimately show ?thesis
      using Cons.IH [of "if overridable k then AList.update k (ceiling_value c) outs else outs"
          "AList.update b c out"] Some e
      by simp
  qed
qed

lemma clean_parse:
  assumes "a \<noteq> READ" "a \<noteq> REFUSED_CLASS"
  shows "map_of (clean raw) (class_value a) = map_option ceiling_value (map_of (parse_exposure_map raw) a)"
  using assms clean_parse_entries [of a "[]" "[]"]
  by (auto simp: clean_def parse_exposure_map_def split: pyval.splits)

lemma parse_strings:
  assumes "distinct (keys m)"
  shows "map_of (parse_entries out (map (\<lambda>(k, v). (k, PStr v)) m)) a =
    (if a = READ then map_of out a
     else case map_of m (class_value a) of
       None \<Rightarrow> map_of out a
     | Some v \<Rightarrow> (case ceiling_of v of None \<Rightarrow> map_of out a | Some c \<Rightarrow> Some c))"
  using assms
proof (induction m arbitrary: out)
  case Nil
  then show ?case by simp
next
  case (Cons kv m)
  obtain k v where kv: "kv = (k, v)" by (cases kv)
  have fresh: "map_of m k = None" using Cons.prems by (simp add: kv map_of_eq_None_iff)
  show ?case
    using Cons.IH Cons.prems fresh
    by (auto simp: kv exposure_entry_def as_text_def update_conv' bind_eq_Some_conv
        split: option.splits if_splits)
qed

section \<open>The dial\<close>

text \<open>What an authored posture permits a class to be raised to.\<close>

definition bound_of :: "exposure \<Rightarrow> exposure \<Rightarrow> action_class \<Rightarrow> ceiling" where
  "bound_of authored ceiling_map a =
     (case map_of ceiling_map a of
        Some c \<Rightarrow> c
      | None \<Rightarrow> (case map_of authored a of Some c \<Rightarrow> c | None \<Rightarrow> REFUSED))"

lemma max_allowed_value [simp]:
  "max_allowed (class_value a) (string_map authored) (string_map ceiling_map)
    = ceiling_value (bound_of authored ceiling_map a)"
  by (auto simp: max_allowed_def sget_def bound_of_def split: option.splits)

lemma clamp_value [simp]:
  "clamp (string_map authored) (string_map ceiling_map) (class_value a) (ceiling_value v)
    = ceiling_value (max v (bound_of authored ceiling_map a))"
  by (auto simp: clamp_def Let_def max_def less_eq_ceiling_def)
     (metis RESTRICTIVENESS.simps ceiling_value.simps less_eq_ceiling_def linorder_le_cases order_antisym)

lemma layer_lookup:
  assumes "distinct (keys ovs)"
  shows "map_of (layer expo ceil eff ovs) k =
    (case map_of ovs k of
       None \<Rightarrow> map_of eff k
     | Some v \<Rightarrow> if string_rank v = None then map_of eff k else Some (clamp expo ceil k v))"
  using assms
proof (induction ovs arbitrary: eff)
  case Nil
  then show ?case by simp
next
  case (Cons av ovs)
  obtain a v where av: "av = (a, v)" by (cases av)
  have "map_of ovs a = None" using Cons.prems by (simp add: av map_of_eq_None_iff)
  then show ?case using Cons by (auto simp: av update_conv' split: option.splits)
qed

lemma distinct_layer: "distinct (keys eff) \<Longrightarrow> distinct (keys (layer expo ceil eff ovs))"
  by (induction expo ceil eff ovs rule: layer.induct) (auto simp: distinct_update)

lemma distinct_string_map [simp]: "distinct (keys (string_map e)) \<longleftrightarrow> distinct (keys e)"
  by (induction e) (auto simp: string_map_def image_iff split: prod.splits)

text \<open>The overlay, in closed form: an override counts at the stricter of itself and its bound.\<close>

lemma overlay_lookup:
  assumes "distinct (keys ovs)" "distinct (keys authored)" "a \<noteq> READ"
  shows "map_of (overlay_runtime_overrides ovs authored ceiling_map) a =
    (case Option.bind (map_of ovs (class_value a)) ceiling_of of
       None \<Rightarrow> map_of authored a
     | Some v \<Rightarrow> Some (max v (bound_of authored ceiling_map a)))"
proof -
  have d: "distinct (keys (effective_exposure (string_map authored) (string_map ceiling_map) ovs))"
    using assms(2) by (simp add: effective_exposure_def distinct_layer)
  show ?thesis
    using assms(3)
    by (auto simp: overlay_runtime_overrides_def parse_exposure_map_def parse_strings [OF d [unfolded effective_exposure_def]]
        effective_exposure_def layer_lookup [OF assms(1)] string_rank_def
        split: option.splits)
qed

text \<open>The table of overrides is keyed; the primary key makes its rows distinct.\<close>

definition unique_rows :: "override_row list \<Rightarrow> bool" where
  "unique_rows tab \<longleftrightarrow> distinct (map row_of tab)"

lemma rows_put: "row_of ` set (put_override r tab) = insert (row_of r) (row_of ` set tab)"
  by (induction tab) auto

lemma unique_put [simp]: "unique_rows tab \<Longrightarrow> unique_rows (put_override r tab)"
  by (induction tab) (auto simp: unique_rows_def rows_put [unfolded image_def] image_iff rows_put)

definition dial_row :: "string \<Rightarrow> string \<Rightarrow> string \<Rightarrow> string \<Rightarrow> string \<Rightarrow> string \<Rightarrow> string \<Rightarrow> override_row" where
  "dial_row c p who why now a v =
     \<lparr>o_customer = c, o_persona = p, o_action = a, o_ceiling = v, o_actor = who,
      o_reason = why, o_updated = now\<rparr>"

lemma read_put:
  assumes "overridable a" "v \<in> set CEILINGS"
  shows "map_of (read_overrides c p (put_override (dial_row c p who why now a v) tab))
    = (map_of (read_overrides c p tab))(a \<mapsto> v)"
  using assms
  by (induction tab) (auto simp: read_overrides_def dial_row_def row_of_def fun_eq_iff)

interpretation dial: keyed_store
  "\<lambda>tab. map_of (read_overrides c p tab)"
  "\<lambda>a v. put_override (dial_row c p who why now a v)"
  "\<lambda>a v. overridable a \<and> v \<in> set CEILINGS" for c p who why now
  by unfold_locales (simp add: read_put)

lemma distinct_read [simp]: "unique_rows tab \<Longrightarrow> distinct (keys (read_overrides c p tab))"
proof (induction tab)
  case (Cons r tab)
  then show ?case
    by (auto simp: unique_rows_def read_overrides_def row_of_def image_iff)
qed (simp add: read_overrides_def)

lemma normalize_sound:
  assumes "normalize_changes expo ceil es = Inr ([], kvs)" "(a, v) \<in> set kvs"
  shows "overridable a \<and> v \<in> set CEILINGS \<and>
    (\<exists>rv rb. string_rank v = Some rv \<and> string_rank (max_allowed a expo ceil) = Some rb \<and> rb \<le> rv)"
  using assms
proof (induction es arbitrary: kvs)
  case Nil
  then show ?case by simp
next
  case (Cons e es)
  then obtain x ks where x: "normalize_change expo ceil e = Inr (Inr x)"
      "normalize_changes expo ceil es = Inr ([], ks)" "kvs = x # ks"
    by (auto split: sum.splits prod.splits)
  show ?case
  proof (cases "x = (a, v)")
    case True
    then show ?thesis
      using x(1) by (auto simp: normalize_change_def Let_def split: pyval.splits option.splits if_splits)
  next
    case False
    then show ?thesis using Cons.IH [OF x(2)] Cons.prems(2) x(3) by auto
  qed
qed

text \<open>The bounds the writer checks are the bounds the reader clamps to.\<close>

definition authored_posture :: "config_file \<Rightarrow> string \<Rightarrow> exposure \<times> exposure" where
  "authored_posture cfg slug =
     (case cfg of
        Document d \<Rightarrow>
          (case personas d of
             Inr ps \<Rightarrow>
               (case find_persona slug ps of
                  Some p \<Rightarrow> (parse_exposure_map (sub (dget p ''entitlements'') ''exposure''),
                             parse_exposure_map (sub (dget p ''entitlements'') ''exposure_ceiling''))
                | None \<Rightarrow> ([], []))
           | Inl _ \<Rightarrow> ([], []))
      | _ \<Rightarrow> ([], []))"

lemma bounds_agree:
  assumes "authored_bounds cfg slug = Inr (expo, ceil)" "overridable (class_value a)"
  shows "max_allowed (class_value a) expo ceil =
    ceiling_value (bound_of (fst (authored_posture cfg slug)) (snd (authored_posture cfg slug)) a)"
  using assms
  by (auto simp: authored_bounds_def authored_posture_def max_allowed_def sget_def bound_of_def
      clean_parse sub_def parse_exposure_map_def [of PNone]
      split: config_file.splits sum.splits option.splits pyval.splits)

lemma resolve_posture:
  assumes "resolve_persona_exposure cfg customer st slug = Inr e" "slug \<noteq> []"
    "read_store customer slug st = Inr ovs"
  shows "e = [] \<and> authored_posture cfg slug = ([], []) \<or>
    e = overlay_runtime_overrides ovs (fst (authored_posture cfg slug)) (snd (authored_posture cfg slug))"
  using assms
  by (auto simp: resolve_persona_exposure_def authored_posture_def Let_def
      split: config_file.splits sum.splits option.splits)

section \<open>Properties\<close>

text \<open>Where no row of the table names a class, and where one does.\<close>

lemma resolved_ceiling:
  assumes "resolve_persona_exposure cfg customer (Store tab) slug = Inr e" "slug \<noteq> []" "unique_rows tab" "a \<noteq> READ"
  shows "resolve_ceiling a e [] =
    (case Option.bind (map_of (read_overrides customer slug tab) (class_value a)) ceiling_of of
       None \<Rightarrow> resolve_ceiling a (fst (authored_posture cfg slug)) []
     | Some v \<Rightarrow> max v (bound_of (fst (authored_posture cfg slug)) (snd (authored_posture cfg slug)) a))"
proof -
  let ?auth = "fst (authored_posture cfg slug)" and ?bnds = "snd (authored_posture cfg slug)"
  let ?ovs = "read_overrides customer slug tab"
  have "distinct (keys ?auth)"
    by (auto simp: authored_posture_def split: config_file.splits sum.splits option.splits)
  then have over: "map_of (overlay_runtime_overrides ?ovs ?auth ?bnds) a =
      (case Option.bind (map_of ?ovs (class_value a)) ceiling_of of
         None \<Rightarrow> map_of ?auth a | Some v \<Rightarrow> Some (max v (bound_of ?auth ?bnds a)))"
    using assms(3,4) by (intro overlay_lookup) simp_all
  consider "e = []" "?auth = []" "?bnds = []" | "e = overlay_runtime_overrides ?ovs ?auth ?bnds"
    using resolve_posture [OF assms(1,2), of ?ovs] by (auto simp: read_store_def)
  then show ?thesis
  proof cases
    case 1
    have "max v REFUSED = REFUSED" for v by (cases v) (simp_all add: max_def less_eq_ceiling_def)
    then show ?thesis using 1 by (simp add: bound_of_def resolve_ceiling_def split: option.split)
  next
    case 2
    then show ?thesis using over by (simp add: resolve_ceiling_def split: option.split)
  qed
qed

text \<open>
  C8: the dial never raises a posture past its bound. In the exposure resolved for a persona from
  the table of overrides, a class that no row with a known ceiling names runs under its authored
  ceiling; a class that such a row names runs under the stricter of the row's ceiling and the
  class's bound, which is the authored bound or else the authored ceiling or else refused. With no
  authored bounds the dial can therefore only narrow. An authored ceiling that lies above its own
  authored bound is not the dial's doing and is left as it is while no row names the class.
\<close>

theorem dial_never_raises_past_the_bound:
  assumes "resolve_persona_exposure cfg customer (Store tab) slug = Inr e" "slug \<noteq> []" "unique_rows tab" "a \<noteq> READ"
    and "authored_posture cfg slug = (auth, bounds)"
  shows "resolve_ceiling a e [] =
      (case Option.bind (map_of (read_overrides customer slug tab) (class_value a)) ceiling_of of
         None \<Rightarrow> resolve_ceiling a auth [] | Some v \<Rightarrow> max v (bound_of auth bounds a)) \<and>
    (bounds = [] \<longrightarrow> resolve_ceiling a auth [] \<le> resolve_ceiling a e [])"
proof -
  have "resolve_ceiling a auth [] \<le> bound_of auth [] a"
    by (simp add: resolve_ceiling_def bound_of_def split: option.split)
  then show ?thesis
    using resolved_ceiling [OF assms(1-4)] by (auto simp: assms(5) max.coboundedI2 split: option.split)
qed

definition capped_config :: config_file where
  "capped_config = Document [(''personas'', PList [PDict [(''slug'', PStr ''ops''),
     (''entitlements'', PDict [(''exposure'', PDict [(''external_send'', PStr ''confirm'')])])]])]"

lemma dial_never_raises_past_the_bound_witness:
  "\<exists>e. resolve_persona_exposure capped_config ''acme''
      (Store [dial_row ''acme'' ''ops'' ''dana'' ''raise'' ''now'' ''external_send'' ''autonomous'']) ''ops'' = Inr e \<and>
    resolve_ceiling EXTERNAL_SEND e [] = CONFIRM"
proof -
  let ?tab = "[dial_row ''acme'' ''ops'' ''dana'' ''raise'' ''now'' ''external_send'' ''autonomous'']"
  have r: "resolve_persona_exposure capped_config ''acme'' (Store ?tab) ''ops'' = Inr [(EXTERNAL_SEND, CONFIRM)]"
    "authored_posture capped_config ''ops'' = ([(EXTERNAL_SEND, CONFIRM)], [])"
    "map_of (read_overrides ''acme'' ''ops'' ?tab) (class_value EXTERNAL_SEND) = Some ''autonomous''"
    by code_simp+
  have "resolve_ceiling EXTERNAL_SEND [(EXTERNAL_SEND, CONFIRM)] [] = CONFIRM"
    using dial_never_raises_past_the_bound [OF r(1) _ _ _ r(2), of EXTERNAL_SEND] r(3)
    by (simp add: unique_rows_def bound_of_def ceiling_of_def max_def less_eq_ceiling_def)
  then show ?thesis using r(1) by blast
qed

lemma set_overrides_accepted:
  assumes "set_overrides cfg customer now persona changes who why tab = (Inr kvs, tab')"
  obtains es expo ceil where "persona \<noteq> []" "authored_bounds cfg persona = Inr (expo, ceil)"
    "normalize_changes expo ceil es = Inr ([], kvs)"
    "tab' = fold (\<lambda>(a, v). put_override (dial_row customer persona who why now a v)) kvs tab"
  using assms that
  by (auto simp: set_overrides_def dial_row_def case_prod_unfold
      split: if_splits pyval.splits sum.splits prod.splits)

lemma unique_fold: "unique_rows tab \<Longrightarrow> unique_rows (fold (\<lambda>(a, v). put_override (f a v)) kvs tab)"
  by (induction kvs arbitrary: tab) auto

text \<open>
  an accepted change is what the persona then runs under. When a batch that names each
  class once is accepted, every value in it is within the class's authored bound, and the
  exposure resolved from the written table gives each class exactly the requested ceiling.
\<close>

theorem accepted_change_takes_effect:
  assumes "set_overrides cfg customer now persona changes who why tab = (Inr kvs, tab')"
    and "unique_rows tab" "distinct (keys kvs)" "(class_value a, ceiling_value c) \<in> set kvs"
    and "resolve_persona_exposure cfg customer (Store tab') persona = Inr e"
  shows "resolve_ceiling a e [] = c \<and>
    bound_of (fst (authored_posture cfg persona)) (snd (authored_posture cfg persona)) a \<le> c"
proof -
  let ?auth = "fst (authored_posture cfg persona)" and ?bnds = "snd (authored_posture cfg persona)"
  obtain es expo ceil where s: "persona \<noteq> []" "authored_bounds cfg persona = Inr (expo, ceil)"
    "normalize_changes expo ceil es = Inr ([], kvs)"
    "tab' = fold (\<lambda>(a, v). put_override (dial_row customer persona who why now a v)) kvs tab"
    using assms(1) by (rule set_overrides_accepted)
  have ok: "\<forall>(a, v) \<in> set kvs. overridable a \<and> v \<in> set CEILINGS"
    using normalize_sound [OF s(3)] by auto
  have a: "a \<noteq> READ" "a \<noteq> REFUSED_CLASS" and within: "bound_of ?auth ?bnds a \<le> c"
    using normalize_sound [OF s(3) assms(4)] bounds_agree [OF s(2), of a]
    by (auto simp: less_eq_ceiling_def)
  have "map_of (read_overrides customer persona tab') (class_value a) = Some (ceiling_value c)"
    using dial.get_put_distinct [OF ok assms(3)] assms(3,4) by (simp add: s(4))
  moreover have "unique_rows tab'" using assms(2) by (simp add: s(4) unique_fold)
  ultimately show ?thesis using resolved_ceiling [OF assms(5) s(1) _ a(1)] within by (simp add: max.absorb1)
qed

definition dial_config :: config_file where
  "dial_config = Document [(''personas'', PList [PDict [(''slug'', PStr ''ops''),
     (''entitlements'', PDict [(''exposure'', PDict [(''external_send'', PStr ''confirm'')]),
       (''exposure_ceiling'', PDict [(''external_send'', PStr ''autonomous'')])])]])]"

theorem accepted_change_takes_effect_witness:
  "\<exists>tab' e. set_overrides dial_config ''acme'' ''now'' ''ops''
      (PList [PDict [(''action_class'', PStr ''external_send''), (''ceiling'', PStr ''autonomous'')]])
      ''dana'' ''raise'' [] = (Inr [(''external_send'', ''autonomous'')], tab') \<and>
    resolve_persona_exposure dial_config ''acme'' (Store tab') ''ops'' = Inr e \<and>
    resolve_ceiling EXTERNAL_SEND e [] = AUTONOMOUS"
proof -
  let ?set = "set_overrides dial_config ''acme'' ''now'' ''ops''
      (PList [PDict [(''action_class'', PStr ''external_send''), (''ceiling'', PStr ''autonomous'')]])
      ''dana'' ''raise'' []"
  have "fst ?set = Inr [(''external_send'', ''autonomous'')]" by code_simp
  then obtain tab' where s: "?set = (Inr [(''external_send'', ''autonomous'')], tab')"
    by (metis prod.collapse)
  have "\<exists>e. resolve_persona_exposure dial_config ''acme'' (Store tab') ''ops'' = Inr e"
    by (simp add: resolve_persona_exposure_def dial_config_def personas_def list_block_def
        read_store_def Let_def)
  then obtain e where e: "resolve_persona_exposure dial_config ''acme'' (Store tab') ''ops'' = Inr e"
    by blast
  have "resolve_ceiling EXTERNAL_SEND e [] = AUTONOMOUS"
    using accepted_change_takes_effect [OF s _ _ _ e, of EXTERNAL_SEND AUTONOMOUS]
    by (simp add: unique_rows_def)
  with s e show ?thesis by blast
qed

end
