(* ===== verification/Text.thy ===== *)
theory Text
  imports Prelude
begin

text \<open>
  String operations of the standard library that several components use: splitting on a
  character, white-space words, first and last occurrence of a substring.
\<close>

section \<open>Splitting\<close>

text \<open>\<open>s.split(c)\<close> for a one-character separator.\<close>

fun split_on :: "char \<Rightarrow> string \<Rightarrow> string list" where
  "split_on d [] = [[]]"
| "split_on d (c # s) =
     (if c = d then [] # split_on d s
      else case split_on d s of l # ls \<Rightarrow> (c # l) # ls | [] \<Rightarrow> [[c]])"

lemma split_on_nonempty [simp]: "split_on d s \<noteq> []"
  by (induction s) (auto split: list.splits)

lemma split_on_plain [simp]: "d \<notin> set s \<Longrightarrow> split_on d s = [s]"
  by (induction s) auto

lemma split_on_append:
  "split_on d (s @ d # t) = split_on d s @ split_on d t"
  by (induction s) (auto split: list.splits)

text \<open>\<open>s.split()\<close>: the words between runs of white space.\<close>

fun words_from :: "string \<Rightarrow> string \<Rightarrow> string list" where
  "words_from w [] = (if w = [] then [] else [w])"
| "words_from w (c # s) =
     (if ws c then (if w = [] then words_from [] s else w # words_from [] s)
      else words_from (w @ [c]) s)"

definition words :: "string \<Rightarrow> string list" where
  "words s = words_from [] s"

text \<open>\<open>re.sub(r"\s+", " ", s)\<close>.\<close>

fun squeeze_from :: "bool \<Rightarrow> string \<Rightarrow> string" where
  "squeeze_from in_run [] = []"
| "squeeze_from in_run (c # s) =
     (if ws c then (if in_run then squeeze_from True s else CHR '' '' # squeeze_from True s)
      else c # squeeze_from False s)"

definition squeeze :: "string \<Rightarrow> string" where
  "squeeze s = squeeze_from False s"

lemma squeeze_plain: "c \<in> set (squeeze_from r s) \<Longrightarrow> ws c \<Longrightarrow> c = CHR '' ''"
  by (induction s arbitrary: r) (auto split: if_splits)

section \<open>Occurrences\<close>

definition starts_with :: "string \<Rightarrow> string \<Rightarrow> bool" where
  "starts_with s pat \<longleftrightarrow> take (length pat) s = pat"

lemma starts_with_append [simp]: "starts_with (pat @ s) pat"
  by (simp add: starts_with_def)

text \<open>The text before and after the first occurrence of a pattern.\<close>

fun cut_first :: "string \<Rightarrow> string \<Rightarrow> (string \<times> string) option" where
  "cut_first pat s =
     (if starts_with s pat then Some ([], drop (length pat) s)
      else case s of
        [] \<Rightarrow> None
      | c # t \<Rightarrow> (case cut_first pat t of None \<Rightarrow> None | Some (a, b) \<Rightarrow> Some (c # a, b)))"

declare cut_first.simps [simp del]

definition cut_last :: "string \<Rightarrow> string \<Rightarrow> (string \<times> string) option" where
  "cut_last pat s =
     (case cut_first (rev pat) (rev s) of None \<Rightarrow> None | Some (b, a) \<Rightarrow> Some (rev a, rev b))"

definition contains :: "string \<Rightarrow> string \<Rightarrow> bool" where
  "contains s pat \<longleftrightarrow> cut_first pat s \<noteq> None"

lemma cut_first_split: "cut_first pat s = Some (a, b) \<Longrightarrow> s = a @ pat @ b"
proof (induction s arbitrary: a)
  case Nil
  then show ?case
    by (subst (asm) cut_first.simps) (auto simp: starts_with_def split: if_splits)
next
  case (Cons c s)
  show ?case
  proof (cases "starts_with (c # s) pat")
    case True
    then show ?thesis
      using Cons.prems
      by (subst (asm) (1) cut_first.simps) (auto simp: starts_with_def intro: append_take_drop_id [symmetric, THEN trans])
  next
    case False
    then obtain a' where "cut_first pat s = Some (a', b)" "a = c # a'"
      using Cons.prems by (subst (asm) (1) cut_first.simps) (auto split: option.splits)
    then show ?thesis using Cons.IH by simp
  qed
qed

lemma cut_first_plain:
  assumes "hd pat \<notin> set pre" "pat \<noteq> []"
  shows "cut_first pat (pre @ pat @ post) = Some (pre, post)"
  using assms(1)
proof (induction pre)
  case Nil
  then show ?case by (subst cut_first.simps) simp
next
  case (Cons c pre)
  then have "\<not> starts_with ((c # pre) @ pat @ post) pat"
    using assms(2) by (cases pat) (auto simp: starts_with_def)
  then show ?case using Cons by (subst cut_first.simps) simp
qed

lemma cut_last_end:
  assumes "pat \<noteq> []"
  shows "cut_last pat (s @ pat) = Some (s, [])"
proof -
  have "cut_first (rev pat) (rev (s @ pat)) = Some ([], rev s)"
    using cut_first_plain [of "rev pat" "[]" "rev s"] assms by simp
  then show ?thesis by (simp add: cut_last_def)
qed

text \<open>The first occurrence is the leftmost one.\<close>

lemma cut_first_leftmost:
  assumes "s = x @ pat @ y"
  shows "\<exists>a b. cut_first pat s = Some (a, b) \<and> length a \<le> length x"
  using assms
proof (induction x arbitrary: s)
  case Nil
  then show ?case by (subst cut_first.simps) simp
next
  case (Cons c x)
  then obtain a b where "cut_first pat (x @ pat @ y) = Some (a, b)" "length a \<le> length x" by blast
  then show ?case using Cons.prems by (subst cut_first.simps) auto
qed

text \<open>
  Inserting text behind a prefix that ends in a character the pattern does not have moves
  the first occurrence behind that prefix.
\<close>

lemma cut_first_insert:
  assumes first: "cut_first pat (pre @ pat @ post) = Some (pre, post)"
    and pre: "pre = [] \<or> last pre \<notin> set pat" and "pat \<noteq> []"
  shows "\<exists>q b. cut_first pat (pre @ mid @ pat @ post) = Some (pre @ q, b) \<and> take (length q) mid = q"
proof -
  let ?s = "pre @ mid @ pat @ post"
  obtain a b where ab: "cut_first pat ?s = Some (a, b)" and le: "length a \<le> length (pre @ mid)"
    using cut_first_leftmost [of ?s "pre @ mid" pat post] by auto
  have s: "?s = a @ pat @ b" using ab by (rule cut_first_split)
  have "length pre \<le> length a"
  proof (rule ccontr)
    assume "\<not> length pre \<le> length a"
    then have short: "length a < length pre" by simp
    then have "pre \<noteq> []" by auto
    then have nl: "last pre \<notin> set pat" using pre by blast
    have a: "a = take (length a) pre"
      using s short by (metis append_eq_conv_conj less_imp_le_nat take_append diff_is_0_eq take0 append_Nil2)
    show False
    proof (cases "length a + length pat \<le> length pre")
      case True
      then have "pre = a @ pat @ drop (length a + length pat) pre"
        using s by (metis append.assoc append_eq_conv_conj append_take_drop_id length_append
            le_add_diff_inverse2 take_append diff_is_0_eq take0 append_Nil2)
      then obtain y where "pre @ pat @ post = a @ pat @ y" by (metis append.assoc)
      from cut_first_leftmost [OF this] first short show False by auto
    next
      case False
      let ?i = "length pre - 1"
      have i: "length a \<le> ?i" "?i - length a < length pat" "?i < length pre"
        using short False by auto
      have "last pre = pre ! ?i" using \<open>pre \<noteq> []\<close> by (simp add: last_conv_nth)
      also have "\<dots> = ?s ! ?i" using i(3) by (simp add: nth_append)
      also have "\<dots> = (pat @ b) ! (?i - length a)" using i(1) by (subst s) (simp add: nth_append)
      also have "\<dots> = pat ! (?i - length a)" using i(2) by (simp add: nth_append)
      finally show False using nl i(2) by simp
    qed
  qed
  then obtain q where q: "a = pre @ q"
    using s by (metis append_eq_append_conv_if append_take_drop_id)
  moreover have "mid @ pat @ post = q @ pat @ b" using s q by simp
  then have "take (length q) mid = q"
    using le q by (metis append_eq_conv_conj diff_is_0_eq length_append nat_add_left_cancel_le take0
        take_append append_Nil2)
  ultimately show ?thesis using ab by blast
qed

end
