(* ===== verification/Recipients.thy ===== *)
theory Recipients
  imports Action_Classes Customer_Config Text
begin

text \<open>
  Outbound recipients: the classification of an address against the human-authored
  rosters (\<open>shared/recipient_classifier.py\<close>) and the recipient set of a proactive send
  (\<open>shared/outbound_recipient.py\<close>).

  Within Latin-1 the NFC normalisation is the identity, and the disqualifying characters
  are the brackets, quote, comma and semicolon, the C0 controls and the space, DEL and
  the C1 controls up to the no-break space.
\<close>

section \<open>Canonical addresses\<close>

datatype recipient_class = INTERNAL | CLIENT | VENDOR | OUTSIDE | UNKNOWN

definition disqualifying :: "char \<Rightarrow> bool" where
  "disqualifying c \<longleftrightarrow>
     c \<in> {CHR ''<'', CHR ''>'', CHR 0x22, CHR '','', CHR '';''} \<or>
     (let n = (of_char c :: nat) in n \<le> 32 \<or> (127 \<le> n \<and> n \<le> 160))"

text \<open>The dot-separated labels of a domain.\<close>

definition labels :: "string \<Rightarrow> string list" where
  "labels host = split_on (CHR ''.'') host"

definition good_domain :: "string \<Rightarrow> bool" where
  "good_domain host \<longleftrightarrow> 2 \<le> length (labels host) \<and> [] \<notin> set (labels host)"

text \<open>The checks on an already normalised address.\<close>

definition canonical_form :: "string \<Rightarrow> string option" where
  "canonical_form s =
     (if s = [] \<or> list_ex disqualifying s \<or> count_list s (CHR ''@'') \<noteq> 1 then None
      else if local_part s = [] \<or> domain_part s = [] \<or> \<not> good_domain (domain_part s) then None
      else Some (local_part s @ ''@'' @ domain_part s))"

definition canonicalize_address :: "string \<Rightarrow> string option" where
  "canonicalize_address raw = canonical_form (normalized raw)"

definition canonicalize_roster_entry :: "string \<Rightarrow> string option" where
  "canonicalize_roster_entry entry =
     (let s = normalized entry in
      if s = [] \<or> list_ex disqualifying s then None
      else if take 1 s = ''@''
      then (if good_domain (drop 1 s) then Some (''@'' @ drop 1 s) else None)
      else canonicalize_address s)"

definition roster_entry_matches :: "string \<Rightarrow> string \<Rightarrow> string \<Rightarrow> bool" where
  "roster_entry_matches entry canon canon_domain =
     (case canonicalize_roster_entry entry of
        None \<Rightarrow> False
      | Some e \<Rightarrow> if take 1 e = ''@'' then canon_domain = drop 1 e else canon = e)"

section \<open>One recipient\<close>

definition classify_recipient :: "string \<Rightarrow> string list \<Rightarrow> bool \<Rightarrow> recipient_class" where
  "classify_recipient recipient roster from_tainted =
     (case canonicalize_address recipient of
        None \<Rightarrow> UNKNOWN
      | Some canon \<Rightarrow>
          if from_tainted then OUTSIDE
          else if list_ex (\<lambda>e. roster_entry_matches e canon (domain_part canon)) roster
          then INTERNAL else OUTSIDE)"

definition typed_class :: "string \<Rightarrow> recipient_class option" where
  "typed_class s = map_of [(''client'', CLIENT), (''records_vendor'', VENDOR), (''firm_staff'', INTERNAL)] s"

text \<open>The classes of the typed entries that match.\<close>

definition typed_matches :: "(string \<times> string) list \<Rightarrow> string \<Rightarrow> recipient_class set" where
  "typed_matches typed canon =
     set (List.map_filter (\<lambda>(e, c).
       case typed_class c of
         None \<Rightarrow> None
       | Some cls \<Rightarrow> if roster_entry_matches e canon (domain_part canon) then Some cls else None) typed)"

definition classify_one_typed ::
  "string \<Rightarrow> string list \<Rightarrow> (string \<times> string) list \<Rightarrow> bool \<Rightarrow> recipient_class" where
  "classify_one_typed recipient internal typed from_tainted =
     (case canonicalize_address recipient of
        None \<Rightarrow> UNKNOWN
      | Some canon \<Rightarrow>
          if from_tainted then OUTSIDE
          else let matched = typed_matches typed canon in
            if matched = {CLIENT} then CLIENT
            else if matched = {VENDOR} then VENDOR
            else if matched = {INTERNAL} then INTERNAL
            else if matched \<noteq> {} then OUTSIDE
            else if list_ex (\<lambda>e. roster_entry_matches e canon (domain_part canon)) internal
            then INTERNAL else OUTSIDE)"

section \<open>A whole send\<close>

fun class_rank :: "recipient_class \<Rightarrow> nat" where
  "class_rank INTERNAL = 0"
| "class_rank OUTSIDE = 1"
| "class_rank UNKNOWN = 2"
| "class_rank _ = 0"

definition classify_recipients :: "string list \<Rightarrow> string list \<Rightarrow> bool \<Rightarrow> recipient_class" where
  "classify_recipients recipients roster from_tainted =
     (if recipients = [] then UNKNOWN
      else foldl (\<lambda>worst r. let cls = classify_recipient r roster from_tainted in
                    if class_rank cls > class_rank worst then cls else worst) INTERNAL recipients)"

definition classify_recipients_typed ::
  "string list \<Rightarrow> string list \<Rightarrow> (string \<times> string) list \<Rightarrow> bool \<Rightarrow> recipient_class" where
  "classify_recipients_typed recipients internal typed from_tainted =
     (if recipients = [] then UNKNOWN
      else
        let seen = (\<lambda>r. classify_one_typed r internal typed from_tainted) ` set recipients in
        if UNKNOWN \<in> seen then UNKNOWN
        else if OUTSIDE \<in> seen then OUTSIDE
        else let non_internal = seen - {INTERNAL} in
          if non_internal = {} then INTERNAL
          else if non_internal = {CLIENT} then CLIENT
          else if non_internal = {VENDOR} then VENDOR
          else OUTSIDE)"

text \<open>\<open>None\<close> is the raised \<open>UnclassifiedRecipientError\<close>.\<close>

fun send_action_class :: "recipient_class \<Rightarrow> string option" where
  "send_action_class INTERNAL = Some ''external_send_internal''"
| "send_action_class CLIENT = Some ''external_send_client''"
| "send_action_class VENDOR = Some ''external_send_vendor''"
| "send_action_class OUTSIDE = Some ''external_send''"
| "send_action_class UNKNOWN = None"

section \<open>The recipients of a send\<close>

definition DIRECT_TO_SEND_TOOLS :: "string list" where
  "DIRECT_TO_SEND_TOOLS =
     [''mcp_agentmail_send_message'', ''smd_send_message'', ''mcp_agentmail_forward_message'',
      ''mcp_msgraph_mail_send_message'']"

definition DRAFT_SEND_TOOLS :: "string list" where
  "DRAFT_SEND_TOOLS = [''mcp_agentmail_send_draft'']"

definition DRAFT_RECORD_TOOLS :: "string list" where
  "DRAFT_RECORD_TOOLS =
     [''mcp_agentmail_create_draft'', ''mcp_agentmail_update_draft'',
      ''mcp_msgraph_mail_create_draft'']"

definition CLASSIFIED_SEND_TOOLS :: "string list" where
  "CLASSIFIED_SEND_TOOLS = DIRECT_TO_SEND_TOOLS @ DRAFT_SEND_TOOLS"

text \<open>
  \<open>parse\<close> is the address half of \<open>email.utils.parseaddr\<close>. The arguments of a call are a
  mapping; a value under a recipient key is a string, a list, or ignored.
\<close>

definition normalize_addr :: "(string \<Rightarrow> string) \<Rightarrow> pyval \<Rightarrow> string" where
  "normalize_addr parse v = (case v of PStr s \<Rightarrow> normalized (parse s) | _ \<Rightarrow> [])"

definition address_items :: "pyval \<Rightarrow> pyval list" where
  "address_items v = (case v of PStr s \<Rightarrow> [PStr s] | PList xs \<Rightarrow> xs | _ \<Rightarrow> [])"

definition addresses_under :: "(string \<Rightarrow> string) \<Rightarrow> pydict \<Rightarrow> string \<Rightarrow> string list" where
  "addresses_under parse args key =
     filter (\<lambda>a. a \<noteq> []) (map (normalize_addr parse) (address_items (dget args key)))"

definition extract_to_recipients :: "(string \<Rightarrow> string) \<Rightarrow> pydict \<Rightarrow> string set" where
  "extract_to_recipients parse args = set (addresses_under parse args ''to'')"

definition extract_send_recipients :: "(string \<Rightarrow> string) \<Rightarrow> pydict \<Rightarrow> string set" where
  "extract_send_recipients parse args =
     set (addresses_under parse args ''to'') \<union> set (addresses_under parse args ''cc'') \<union>
     set (addresses_under parse args ''bcc'')"

text \<open>
  The draft id in a result that is already a mapping; \<open>decode\<close> is \<open>json.loads\<close> with its
  failures as \<open>None\<close>.
\<close>

definition id_under :: "pyval \<Rightarrow> string \<Rightarrow> string option" where
  "id_under v key =
     (case v of
        PDict d \<Rightarrow> (case dget d key of PStr s \<Rightarrow> if s = [] then None else Some s | _ \<Rightarrow> None)
      | _ \<Rightarrow> None)"

definition draft_id_of :: "pyval \<Rightarrow> string option" where
  "draft_id_of v =
     (case id_under v ''draft_id'' of Some s \<Rightarrow> Some s | None \<Rightarrow> id_under v ''id'')"

definition extract_draft_id :: "(string \<Rightarrow> pyval option) \<Rightarrow> pyval \<Rightarrow> string" where
  "extract_draft_id decode result =
     (case (case result of PStr s \<Rightarrow> decode s | v \<Rightarrow> Some v) of
        None \<Rightarrow> []
      | Some v \<Rightarrow>
          (case draft_id_of v of
             Some s \<Rightarrow> s
           | None \<Rightarrow> (case draft_id_of (sub v ''draft'') of Some s \<Rightarrow> s | None \<Rightarrow> [])))"

text \<open>Draft id to recipients, per session; bounded, oldest entry evicted first.\<close>

type_synonym draft_registry = "(string \<times> string set) list"

definition max_drafts :: nat where
  "max_drafts = 2048"

definition draft_key :: "string \<Rightarrow> string \<Rightarrow> string" where
  "draft_key session_id draft_id = session_id @ [char_of (31::nat)] @ draft_id"

definition record_draft ::
  "string \<Rightarrow> string \<Rightarrow> string set \<Rightarrow> draft_registry \<Rightarrow> draft_registry" where
  "record_draft session_id draft_id recipients reg =
     (if draft_id = [] \<or> recipients = {} then reg
      else evict max_drafts (od_put (draft_key session_id draft_id) recipients reg))"

definition lookup_draft :: "string \<Rightarrow> string \<Rightarrow> draft_registry \<Rightarrow> string set option" where
  "lookup_draft session_id draft_id reg =
     (if draft_id = [] then None else map_of reg (draft_key session_id draft_id))"

definition record_draft_from_post_tool_call ::
  "(string \<Rightarrow> string) \<Rightarrow> (string \<Rightarrow> pyval option) \<Rightarrow> string \<Rightarrow> pydict \<Rightarrow> pyval \<Rightarrow> string \<Rightarrow>
   draft_registry \<Rightarrow> draft_registry" where
  "record_draft_from_post_tool_call parse decode tool_name args result session_id reg =
     (if tool_name \<notin> set DRAFT_RECORD_TOOLS then reg
      else record_draft session_id (extract_draft_id decode result)
             (extract_send_recipients parse args) reg)"

definition send_recipients ::
  "(string \<Rightarrow> string) \<Rightarrow> draft_registry \<Rightarrow> string \<Rightarrow> pydict \<Rightarrow> string \<Rightarrow> string set option" where
  "send_recipients parse reg tool_name args session_id =
     (if tool_name \<in> set DIRECT_TO_SEND_TOOLS
      then (let r = extract_send_recipients parse args in if r = {} then None else Some r)
      else if tool_name \<in> set DRAFT_SEND_TOOLS
      then (case dget args ''draft_id'' of
              PStr s \<Rightarrow> if s = [] then None else lookup_draft session_id s reg
            | _ \<Rightarrow> None)
      else None)"

section \<open>Lemmas\<close>

lemma canonical_shape:
  assumes "canonicalize_address r = Some canon"
  shows "canon = local_part (normalized r) @ ''@'' @ domain_part (normalized r)"
    "CHR ''@'' \<notin> set (local_part (normalized r))"
  using assms
  by (auto simp: canonicalize_address_def canonical_form_def local_part_def split: if_splits
      dest: set_takeWhileD)

text \<open>What a matching entry is: the address itself, or its whole domain.\<close>

lemma entry_shape: "canonicalize_roster_entry e = Some x \<Longrightarrow> x \<noteq> []"
  by (auto simp: canonicalize_roster_entry_def Let_def canonicalize_address_def canonical_form_def
      split: if_splits)

lemma entry_matches:
  assumes "roster_entry_matches e canon (domain_part canon)"
  shows "canonicalize_roster_entry e = Some canon \<or>
    canonicalize_roster_entry e = Some (''@'' @ domain_part canon)"
proof -
  obtain x where x: "canonicalize_roster_entry e = Some x"
    using assms by (auto simp: roster_entry_matches_def split: option.splits)
  then obtain c u where "x = c # u" using entry_shape by (cases x) auto
  then show ?thesis using assms x by (auto simp: roster_entry_matches_def split: if_splits)
qed

lemma typed_class_Some:
  "typed_class c = Some cls \<longleftrightarrow>
     (c, cls) \<in> {(''client'', CLIENT), (''records_vendor'', VENDOR), (''firm_staff'', INTERNAL)}"
  by (auto simp: typed_class_def)

lemma typed_matches_authored:
  "cls \<in> typed_matches typed canon \<longleftrightarrow>
     (\<exists>(e, c) \<in> set typed. typed_class c = Some cls \<and>
        roster_entry_matches e canon (domain_part canon))"
  by (force simp: typed_matches_def List.map_filter_def split: option.splits if_splits)

text \<open>The entry names the address, or the whole domain of it.\<close>

definition names_entry :: "string \<Rightarrow> string \<Rightarrow> bool" where
  "names_entry e canon \<longleftrightarrow>
     canonicalize_roster_entry e \<in> {Some canon, Some (''@'' @ domain_part canon)}"

lemma domain_of_canonical:
  assumes "canonicalize_address r = Some canon"
  shows "take 1 canon \<noteq> ''@''"
  using canonical_shape [OF assms] assms
  by (cases "local_part (normalized r)")
     (auto simp: canonicalize_address_def canonical_form_def split: if_splits)

lemma names_entry:
  assumes "canonicalize_address r = Some canon"
  shows "roster_entry_matches e canon (domain_part canon) \<longleftrightarrow> names_entry e canon"
  using entry_matches [of e canon] domain_of_canonical [OF assms]
  by (auto simp: names_entry_def roster_entry_matches_def)

definition recipient_classes ::
  "string list \<Rightarrow> string list \<Rightarrow> (string \<times> string) list \<Rightarrow> bool \<Rightarrow> recipient_class set" where
  "recipient_classes rs internal typed tainted =
     (\<lambda>r. classify_one_typed r internal typed tainted) ` set rs"

lemma classes_empty [simp]: "recipient_classes rs internal typed tainted = {} \<longleftrightarrow> rs = []"
  by (simp add: recipient_classes_def)

text \<open>The aggregation, as a function of the set of classes.\<close>

definition aggregate :: "recipient_class set \<Rightarrow> recipient_class" where
  "aggregate S =
     (if S = {} \<or> UNKNOWN \<in> S then UNKNOWN else if OUTSIDE \<in> S then OUTSIDE
      else if S - {INTERNAL} = {} then INTERNAL
      else if S - {INTERNAL} = {CLIENT} then CLIENT
      else if S - {INTERNAL} = {VENDOR} then VENDOR else OUTSIDE)"

lemma only_class: "c \<noteq> INTERNAL \<Longrightarrow> S - {INTERNAL} = {c} \<longleftrightarrow> c \<in> S \<and> S \<subseteq> {INTERNAL, c}"
  by blast

lemma aggregate_classes:
  "aggregate S = INTERNAL \<longleftrightarrow> S = {INTERNAL}"
  "aggregate S = CLIENT \<longleftrightarrow> CLIENT \<in> S \<and> S \<subseteq> {INTERNAL, CLIENT}"
  "aggregate S = VENDOR \<longleftrightarrow> VENDOR \<in> S \<and> S \<subseteq> {INTERNAL, VENDOR}"
  "aggregate S = UNKNOWN \<longleftrightarrow> S = {} \<or> UNKNOWN \<in> S"
proof -
  show "aggregate S = INTERNAL \<longleftrightarrow> S = {INTERNAL}"
    unfolding aggregate_def by (auto split: if_splits)
  show "aggregate S = CLIENT \<longleftrightarrow> CLIENT \<in> S \<and> S \<subseteq> {INTERNAL, CLIENT}"
    unfolding aggregate_def by (simp add: only_class) blast
  show "aggregate S = VENDOR \<longleftrightarrow> VENDOR \<in> S \<and> S \<subseteq> {INTERNAL, VENDOR}"
    unfolding aggregate_def by (simp add: only_class) blast
  show "aggregate S = UNKNOWN \<longleftrightarrow> S = {} \<or> UNKNOWN \<in> S"
    unfolding aggregate_def by simp
qed

lemma aggregate_outside: "S \<subseteq> {OUTSIDE, UNKNOWN} \<Longrightarrow> aggregate S \<in> {OUTSIDE, UNKNOWN}"
  unfolding aggregate_def by auto

lemma classify_typed_split:
  "classify_recipients_typed rs internal typed tainted
    = aggregate (recipient_classes rs internal typed tainted)"
  by (simp add: classify_recipients_typed_def recipient_classes_def aggregate_def Let_def)

lemma tainted_classes: "recipient_classes rs internal typed True \<subseteq> {OUTSIDE, UNKNOWN}"
  by (auto simp: recipient_classes_def classify_one_typed_def split: option.splits)

section \<open>Properties\<close>

text \<open>
  a send is as trusted as its least trusted recipient. It is internal only when every
  recipient is; it takes the client or the vendor class only when every recipient is
  internal or of that class; one unresolvable recipient, or none at all, makes it
  unknown, one outside recipient makes it outside, and clients mixed with vendors are
  outside. On a turn whose recipients come from untrusted content no send gets a rostered
  class.
\<close>

theorem send_is_its_least_trusted_recipient:
  "(classify_recipients_typed rs internal typed tainted = INTERNAL \<longleftrightarrow>
      recipient_classes rs internal typed tainted = {INTERNAL}) \<and>
    (classify_recipients_typed rs internal typed tainted = CLIENT \<longleftrightarrow>
      CLIENT \<in> recipient_classes rs internal typed tainted \<and>
      recipient_classes rs internal typed tainted \<subseteq> {INTERNAL, CLIENT}) \<and>
    (classify_recipients_typed rs internal typed tainted = VENDOR \<longleftrightarrow>
      VENDOR \<in> recipient_classes rs internal typed tainted \<and>
      recipient_classes rs internal typed tainted \<subseteq> {INTERNAL, VENDOR}) \<and>
    (classify_recipients_typed rs internal typed tainted = UNKNOWN \<longleftrightarrow>
      rs = [] \<or> UNKNOWN \<in> recipient_classes rs internal typed tainted) \<and>
    classify_recipients_typed rs internal typed True \<in> {OUTSIDE, UNKNOWN}"
proof -
  have "aggregate (recipient_classes rs internal typed True) \<in> {OUTSIDE, UNKNOWN}"
    by (rule aggregate_outside) (rule tainted_classes)
  then show ?thesis
    by (simp only: classify_typed_split aggregate_classes classes_empty simp_thms)
qed

text \<open>
  a rostered class is authored by name. A single recipient is client or vendor only
  if entries of exactly that typed class, and of no other, name its canonical address or
  its whole domain; it is internal only if a firm-staff entry does, or no typed entry
  does and an entry of the reply roster does. In particular the reply roster cannot make
  staff of an address the typed roster knows.
\<close>

theorem rostered_class_is_authored:
  assumes "canonicalize_address r = Some canon"
  shows "(classify_one_typed r internal typed tainted \<in> {CLIENT, VENDOR} \<longrightarrow>
      (\<forall>(e, c) \<in> set typed. names_entry e canon \<longrightarrow> typed_class c \<in>
         {None, Some (classify_one_typed r internal typed tainted)}) \<and>
      (\<exists>(e, c) \<in> set typed. names_entry e canon \<and>
         typed_class c = Some (classify_one_typed r internal typed tainted))) \<and>
    (classify_one_typed r internal typed tainted = INTERNAL \<longrightarrow>
      (\<exists>(e, c) \<in> set typed. names_entry e canon \<and> c = ''firm_staff'') \<or>
      (\<forall>(e, c) \<in> set typed. names_entry e canon \<longrightarrow> typed_class c = None) \<and>
        (\<exists>e \<in> set internal. names_entry e canon))"
proof -
  define M where "M = typed_matches typed canon"
  have M: "cls \<in> M \<longleftrightarrow> (\<exists>(e, c) \<in> set typed. typed_class c = Some cls \<and> names_entry e canon)" for cls
    by (simp add: M_def typed_matches_authored names_entry [OF assms])
  have cl: "classify_one_typed r internal typed tainted =
     (if tainted then OUTSIDE else if M = {CLIENT} then CLIENT else if M = {VENDOR} then VENDOR
      else if M = {INTERNAL} then INTERNAL else if M \<noteq> {} then OUTSIDE
      else if list_ex (\<lambda>e. names_entry e canon) internal then INTERNAL else OUTSIDE)"
    using assms by (simp add: classify_one_typed_def M_def Let_def names_entry [OF assms])
  have only: "\<forall>(e, c) \<in> set typed. names_entry e canon \<longrightarrow> typed_class c \<in> {None, Some x}"
    if "M \<subseteq> {x}" for x
    using that M by (fastforce simp: subset_iff)
  have one: "M = {x}" if "classify_one_typed r internal typed tainted = x" "x \<in> {CLIENT, VENDOR}" for x
    using that by (auto simp: cl split: if_splits)
  have "M = {INTERNAL} \<or> M = {} \<and> list_ex (\<lambda>e. names_entry e canon) internal"
    if "classify_one_typed r internal typed tainted = INTERNAL"
    using that by (simp add: cl split: if_splits)
  moreover have "\<exists>(e, c) \<in> set typed. names_entry e canon \<and> c = ''firm_staff''"
    if staff: "M = {INTERNAL}"
  proof -
    obtain e c where "(e, c) \<in> set typed" "typed_class c = Some INTERNAL" "names_entry e canon"
      using staff M [of INTERNAL] by auto
    then show ?thesis by (auto simp: typed_class_Some)
  qed
  moreover have "\<forall>(e, c) \<in> set typed. names_entry e canon \<longrightarrow> typed_class c = None"
    if empty: "M = {}"
  proof (clarify)
    fix e c
    assume "(e, c) \<in> set typed" "names_entry e canon"
    then show "typed_class c = None"
      using empty M by (cases "typed_class c") auto
  qed
  moreover have "\<exists>e \<in> set internal. names_entry e canon"
    if "list_ex (\<lambda>e. names_entry e canon) internal"
    using that by (simp add: list_ex_iff)
  moreover have "\<exists>(e, c) \<in> set typed. names_entry e canon \<and> typed_class c = Some x" if "M = {x}" for x
    using that M [of x] by auto
  ultimately show ?thesis using one only by blast
qed

theorem rostered_class_is_authored_witness:
  "canonicalize_address ''dana@firm.example'' = Some ''dana@firm.example'' \<and>
   classify_one_typed ''dana@firm.example'' [''@firm.example''] [(''dana@firm.example'', ''client'')] False
     = CLIENT \<and> names_entry ''dana@firm.example'' ''dana@firm.example''"
proof -
  have c: "canonicalize_address ''dana@firm.example'' = Some ''dana@firm.example''" by code_simp
  have k: "classify_one_typed ''dana@firm.example'' [''@firm.example'']
      [(''dana@firm.example'', ''client'')] False = CLIENT" by code_simp
  from rostered_class_is_authored [OF c, of "[''@firm.example'']" "[(''dana@firm.example'', ''client'')]"
      False] c k
  show ?thesis by simp
qed

end
