(* ===== verification/Session_Registers.thy ===== *)
theory Session_Registers
  imports Inbound Stores
begin

text \<open>
  The per-session registers between the inbound chokepoints and the gates
  (\<open>shared/inbound.py\<close>): the sticky taint, the pending items, and the origin that anchors
  the recipient lock. Capacities are the dataclass fields; the production values are
  named. Clocks are arguments; identities and contents are opaque.
\<close>

section \<open>Session taint\<close>

definition trust_rank :: "string \<Rightarrow> nat option" where
  "trust_rank tc =
     map_of [(''internal'', 0), (''known_external'', 1), (''unknown_external'', 2)] tc"

type_synonym taint = "(string, string) odict"

definition max_sessions :: nat where
  "max_sessions = 512"

text \<open>The stored classes are always words of the vocabulary, so their rank is defined.\<close>

definition known_rank :: "string \<Rightarrow> nat" where
  "known_rank tc = (case trust_rank tc of Some r \<Rightarrow> r | None \<Rightarrow> 2)"

definition mark :: "nat \<Rightarrow> string \<Rightarrow> string \<Rightarrow> taint \<Rightarrow> taint" where
  "mark cap session_id tc reg =
     (if session_id = [] then reg
      else
        let tc' = (if trust_rank tc = None then ''unknown_external'' else tc);
            rank = known_rank tc' in
        if rank = 0 then reg
        else case odict_get reg session_id of
          Some old \<Rightarrow>
            (if known_rank old \<ge> rank then odict_touch session_id reg
             else odict_put cap session_id tc' reg)
        | None \<Rightarrow> odict_put cap session_id tc' reg)"

definition trust_class :: "taint \<Rightarrow> string \<Rightarrow> string" where
  "trust_class reg session_id =
     (if session_id = [] then ''internal''
      else case odict_get reg session_id of None \<Rightarrow> ''internal'' | Some tc \<Rightarrow> tc)"

definition is_tainted :: "taint \<Rightarrow> string \<Rightarrow> bool" where
  "is_tainted reg session_id \<longleftrightarrow> trust_class reg session_id \<noteq> ''internal''"

section \<open>Pending items\<close>

record 'e item =
  i_session :: string
  i_content :: string
  i_envelope :: 'e
  i_enqueued_at :: int

text \<open>Queues by session; a full queue drops its oldest item.\<close>

type_synonym 'e pending = "(string \<times> 'e item list) list"

definition pending_of :: "'e pending \<Rightarrow> string \<Rightarrow> 'e item list" where
  "pending_of p s = (case map_of p s of None \<Rightarrow> [] | Some q \<Rightarrow> q)"

definition enqueue :: "nat \<Rightarrow> 'e item \<Rightarrow> 'e pending \<Rightarrow> 'e pending" where
  "enqueue max_per_session x p =
     (let q = pending_of p (i_session x) @ [x]
      in AList.update (i_session x) (drop (length q - max_per_session) q) p)"

definition drain :: "string \<Rightarrow> 'e pending \<Rightarrow> 'e item list \<times> 'e pending" where
  "drain s p = (pending_of p s, AList.delete s p)"

definition drain_unkeyed_fresh :: "int \<Rightarrow> int \<Rightarrow> 'e pending \<Rightarrow> 'e item list \<times> 'e pending" where
  "drain_unkeyed_fresh max_age now p =
     (filter (\<lambda>x. now - i_enqueued_at x \<le> max_age) (pending_of p []), AList.delete [] p)"

definition pending_size :: "'e pending \<Rightarrow> nat" where
  "pending_size p = sum_list (map (length \<circ> snd) p)"

section \<open>Inbound origins\<close>

text \<open>The attribution fields the registers read; the others ride along unread.\<close>

record origin =
  or_sender :: string
  or_message_id :: string

record origins =
  by_session :: "(string, origin) odict"
  by_address :: "(string, origin) odict"
  by_message :: "(string, origin) odict"
  unbound :: "(int \<times> origin) list"
  turn_prompt :: "(string, string) odict"
  prompts_seen :: "(string, string set) odict"

definition no_origins :: origins where
  "no_origins =
     \<lparr>by_session = empty_odict, by_address = empty_odict, by_message = empty_odict, unbound = [],
      turn_prompt = empty_odict, prompts_seen = empty_odict\<rparr>"

definition unbound_max :: nat where
  "unbound_max = 8"

definition queue_unbound :: "int \<Rightarrow> origin \<Rightarrow> origins \<Rightarrow> origins" where
  "queue_unbound now orig reg =
     (let q = unbound reg @ [(now, orig)] in reg\<lparr>unbound := drop (length q - unbound_max) q\<rparr>)"

text \<open>First inbound wins: an existing lock is only refreshed.\<close>

definition lock :: "nat \<Rightarrow> string \<Rightarrow> origin \<Rightarrow> origins \<Rightarrow> origins" where
  "lock cap session_id orig reg =
     (case odict_get (by_session reg) session_id of
        Some _ \<Rightarrow> reg\<lparr>by_session := odict_touch session_id (by_session reg)\<rparr>
      | None \<Rightarrow> reg\<lparr>by_session := odict_put cap session_id orig (by_session reg)\<rparr>)"

definition record_origin :: "nat \<Rightarrow> int \<Rightarrow> string \<Rightarrow> origin \<Rightarrow> origins \<Rightarrow> origins" where
  "record_origin cap now session_id orig reg =
     (if or_sender orig = [] then reg
      else
        let reg1 = (if or_message_id orig = [] then reg
                    else reg\<lparr>by_message := odict_put cap (or_message_id orig) orig (by_message reg)\<rparr>);
            addr = normalized (or_sender orig);
            reg2 = (if addr = [] then reg1
                    else reg1\<lparr>by_address := odict_put cap addr orig (by_address reg1)\<rparr>)
        in if session_id = [] then queue_unbound now orig reg2 else lock cap session_id orig reg2)"

fun drop_queued :: "string \<Rightarrow> (int \<times> origin) list \<Rightarrow> (int \<times> origin) list" where
  "drop_queued m [] = []"
| "drop_queued m ((ts, orig) # q) =
     (if or_message_id orig = m then q else (ts, orig) # drop_queued m q)"

definition bind :: "nat \<Rightarrow> string \<Rightarrow> string \<Rightarrow> origins \<Rightarrow> bool \<times> origins" where
  "bind cap session_id message_id reg =
     (if session_id = [] \<or> message_id = [] then (False, reg)
      else case odict_get (by_message reg) message_id of
        None \<Rightarrow> (False, reg)
      | Some orig \<Rightarrow>
          if odict_get (by_session reg) session_id \<noteq> None
          then (False, reg\<lparr>by_session := odict_touch session_id (by_session reg)\<rparr>)
          else (True, (lock cap session_id orig reg)\<lparr>unbound := drop_queued message_id (unbound reg)\<rparr>))"

text \<open>\<open>setdefault\<close> inserts without trimming; the loop below it trims both registers.\<close>

definition note_turn_prompt :: "nat \<Rightarrow> string \<Rightarrow> string \<Rightarrow> origins \<Rightarrow> origins" where
  "note_turn_prompt cap session_id message_id reg =
     (if session_id = [] then reg
      else
        let seen = (case odict_get (prompts_seen reg) session_id of None \<Rightarrow> {} | Some s \<Rightarrow> s)
        in reg\<lparr>turn_prompt := odict_put cap session_id message_id (turn_prompt reg),
               prompts_seen :=
                 (if message_id = [] then prompts_seen reg
                  else odict_put cap session_id (insert message_id seen) (prompts_seen reg))\<rparr>)"

definition turn_prompt_id :: "string \<Rightarrow> origins \<Rightarrow> string" where
  "turn_prompt_id session_id reg =
     (if session_id = [] then [] else
      case odict_get (turn_prompt reg) session_id of None \<Rightarrow> [] | Some m \<Rightarrow> m)"

definition get_origin :: "string \<Rightarrow> origins \<Rightarrow> origin option" where
  "get_origin session_id reg =
     (if session_id = [] then None else odict_get (by_session reg) session_id)"

definition bound_this_turn :: "string \<Rightarrow> origins \<Rightarrow> origin option" where
  "bound_this_turn session_id reg =
     (case get_origin session_id reg of
        None \<Rightarrow> None
      | Some orig \<Rightarrow>
          let prompt_id = turn_prompt_id session_id reg;
              seen = (case odict_get (prompts_seen reg) session_id of None \<Rightarrow> {} | Some s \<Rightarrow> s)
          in if prompt_id = [] \<or> or_message_id orig \<noteq> prompt_id \<or> seen \<noteq> {prompt_id} then None
             else Some orig)"

fun drop_expired :: "int \<Rightarrow> int \<Rightarrow> (int \<times> origin) list \<Rightarrow> (int \<times> origin) list" where
  "drop_expired max_age now [] = []"
| "drop_expired max_age now ((ts, orig) # q) =
     (if now - ts > max_age then drop_expired max_age now q else (ts, orig) # q)"

definition claim_unbound :: "int \<Rightarrow> int \<Rightarrow> origins \<Rightarrow> origin option \<times> origins" where
  "claim_unbound max_age now reg =
     (case drop_expired max_age now (unbound reg) of
        [(ts, orig)] \<Rightarrow> (Some orig, reg\<lparr>unbound := []\<rparr>)
      | q \<Rightarrow> (None, reg\<lparr>unbound := q\<rparr>))"

definition bind_origin_from_prompt :: "nat \<Rightarrow> string \<Rightarrow> pyval \<Rightarrow> origins \<Rightarrow> bool \<times> origins" where
  "bind_origin_from_prompt cap session_id user_message reg =
     (if session_id = [] then (False, reg)
      else case user_message of
        PStr prompt \<Rightarrow>
          (case prompt_message_id prompt of
             None \<Rightarrow> (False, note_turn_prompt cap session_id [] reg)
           | Some m \<Rightarrow> bind cap session_id m (note_turn_prompt cap session_id m reg))
      | _ \<Rightarrow> (False, note_turn_prompt cap session_id [] reg))"

section \<open>The taint, mark by mark\<close>

type_synonym marks = "(string \<times> string) list"

definition run_marks :: "nat \<Rightarrow> marks \<Rightarrow> taint" where
  "run_marks cap ms = fold (\<lambda>(s, tc). mark cap s tc) ms empty_odict"

text \<open>The worst rank a session was marked with.\<close>

fun worst :: "string \<Rightarrow> marks \<Rightarrow> nat" where
  "worst s [] = 0"
| "worst s ((s', tc) # ms) = (if s' = s then max (known_rank tc) (worst s ms) else worst s ms)"

lemma worst_append [simp]: "worst s (ms @ ms') = max (worst s ms) (worst s ms')"
  by (induction s ms rule: worst.induct) auto

lemma known_rank_internal [simp]: "known_rank ''internal'' = 0"
  by (simp add: known_rank_def trust_rank_def)

lemma known_rank_unknown [simp]: "known_rank ''unknown_external'' = 2"
  by (simp add: known_rank_def trust_rank_def)

lemma known_rank_fail_closed: "trust_rank tc = None \<Longrightarrow> known_rank tc = 2"
  by (simp add: known_rank_def)

lemma mark_cases:
  assumes "s \<noteq> []"
  shows "(mark cap s tc reg = reg \<and> known_rank tc = 0) \<or>
    (mark cap s tc reg = odict_touch s reg \<and>
       (\<exists>old. odict_get reg s = Some old \<and> known_rank tc \<le> known_rank old)) \<or>
    (\<exists>tc'. mark cap s tc reg = odict_put cap s tc' reg \<and> known_rank tc' = known_rank tc \<and>
       (\<forall>old. odict_get reg s = Some old \<longrightarrow> known_rank old < known_rank tc))"
proof -
  define tc' where "tc' = (if trust_rank tc = None then ''unknown_external'' else tc)"
  have k: "known_rank tc' = known_rank tc" by (simp add: tc'_def known_rank_fail_closed)
  have m: "mark cap s tc reg =
      (if known_rank tc = 0 then reg
       else case odict_get reg s of
         Some old \<Rightarrow> (if known_rank old \<ge> known_rank tc then odict_touch s reg
                      else odict_put cap s tc' reg)
       | None \<Rightarrow> odict_put cap s tc' reg)"
    unfolding mark_def Let_def tc'_def [symmetric] k using assms by simp
  show ?thesis
    unfolding m using k by (cases "odict_get reg s") auto
qed

lemma mark_rank:
  assumes "0 < cap" "card (insert s (set (odict_keys reg))) \<le> cap" "s \<noteq> []" "x \<noteq> []"
  shows "known_rank (trust_class (mark cap s tc reg) x) =
    (if x = s then max (known_rank tc) (known_rank (trust_class reg x))
     else known_rank (trust_class reg x))"
  using mark_cases [OF assms(3), of cap tc reg]
proof (elim disjE exE conjE)
  fix tc'
  assume "mark cap s tc reg = odict_put cap s tc' reg" "known_rank tc' = known_rank tc"
    "\<forall>old. odict_get reg s = Some old \<longrightarrow> known_rank old < known_rank tc"
  then show ?thesis
    using assms(3,4) by (cases "odict_get reg s") (simp_all add: trust_class_def od.get_put [OF assms(1,2)])
qed (use assms(3,4) in \<open>auto simp: trust_class_def\<close>)

lemma mark_keys:
  assumes "0 < cap" "card (insert s (set (odict_keys reg))) \<le> cap"
  shows "set (odict_keys (mark cap s tc reg)) \<subseteq> insert s (set (odict_keys reg))"
  using od.held_put [OF assms(1), of s _ reg]
  by (auto simp: mark_def Let_def split: option.splits)

lemma run_marks_worst:
  assumes "0 < cap" "finite K" "card K \<le> cap" "fst ` set ms \<subseteq> K" "x \<noteq> []"
  shows "known_rank (trust_class (run_marks cap ms) x) = worst x ms \<and>
    set (odict_keys (run_marks cap ms)) \<subseteq> K"
  using assms(4)
proof (induction ms rule: rev_induct)
  case Nil
  then show ?case using assms(5) by (simp add: run_marks_def trust_class_def)
next
  case (snoc m ms)
  obtain s tc where m: "m = (s, tc)" by (cases m)
  let ?reg = "run_marks cap ms"
  have IH: "known_rank (trust_class ?reg x) = worst x ms" "set (odict_keys ?reg) \<subseteq> K"
    using snoc by auto
  have room: "card (insert s (set (odict_keys ?reg))) \<le> cap"
    using od.fits [OF IH(2) _ assms(2,3), of s] snoc.prems m by auto
  have run: "run_marks cap (ms @ [m]) = mark cap s tc ?reg"
    by (simp add: run_marks_def m)
  show ?case
  proof (cases "s = []")
    case True
    then show ?thesis using run IH assms(5) m by (simp add: mark_def)
  next
    case False
    have "known_rank (trust_class (mark cap s tc ?reg) x) =
        (if x = s then max (known_rank tc) (worst x ms) else worst x ms)"
      using mark_rank [OF assms(1) room False assms(5), of tc] by (simp only: IH(1))
    moreover have "set (odict_keys (mark cap s tc ?reg)) \<subseteq> K"
      using mark_keys [OF assms(1) room, of tc] IH(2) snoc.prems m by auto
    ultimately show ?thesis unfolding run by (simp add: m max.commute)
  qed
qed

section \<open>The origin registers, step by step\<close>

datatype origin_op =
    Record_Op int string origin
  | Bind_Op string string
  | Prompt_Op string pyval
  | Claim_Op int int

fun origin_step :: "nat \<Rightarrow> origin_op \<Rightarrow> origins \<Rightarrow> origins" where
  "origin_step cap (Record_Op now s orig) reg = record_origin cap now s orig reg"
| "origin_step cap (Bind_Op s m) reg = snd (bind cap s m reg)"
| "origin_step cap (Prompt_Op s v) reg = snd (bind_origin_from_prompt cap s v reg)"
| "origin_step cap (Claim_Op max_age now) reg = snd (claim_unbound max_age now reg)"

fun run_origins :: "nat \<Rightarrow> origin_op list \<Rightarrow> origins \<Rightarrow> origins" where
  "run_origins cap [] reg = reg"
| "run_origins cap (x # xs) reg = run_origins cap xs (origin_step cap x reg)"

fun op_session :: "origin_op \<Rightarrow> string" where
  "op_session (Record_Op now s orig) = s"
| "op_session (Bind_Op s m) = s"
| "op_session (Prompt_Op s v) = s"
| "op_session (Claim_Op max_age now) = []"

text \<open>What a step does to the session index: nothing, a refresh, or one new lock.\<close>

lemma lock_sessions: "by_session (lock cap s orig reg) =
    (if odict_get (by_session reg) s = None then odict_put cap s orig (by_session reg)
     else odict_touch s (by_session reg))"
  by (simp add: lock_def split: option.splits)

lemma note_sessions [simp]: "by_session (note_turn_prompt cap s m reg) = by_session reg"
  by (simp add: note_turn_prompt_def Let_def)

lemma note_messages [simp]: "by_message (note_turn_prompt cap s m reg) = by_message reg"
  by (simp add: note_turn_prompt_def Let_def)

lemma bind_sessions:
  "by_session (snd (bind cap s m reg)) \<in>
     {by_session reg, odict_touch s (by_session reg)} \<union>
     {odict_put cap s orig (by_session reg) | orig.
        odict_get (by_session reg) s = None \<and> s \<noteq> [] \<and> odict_get (by_message reg) m = Some orig}"
  by (auto simp: bind_def lock_sessions split: option.splits)

lemma claim_sessions [simp]: "by_session (snd (claim_unbound max_age now reg)) = by_session reg"
  by (auto simp: claim_unbound_def split: list.splits)

lemma record_sessions:
  "by_session (record_origin cap now s orig reg) \<in>
     {by_session reg, odict_touch s (by_session reg)} \<union>
     {d. d = odict_put cap s orig (by_session reg) \<and> odict_get (by_session reg) s = None \<and> s \<noteq> []}"
  by (auto simp: record_origin_def Let_def queue_unbound_def lock_sessions)

lemma step_sessions:
  "by_session (origin_step cap x reg) \<in>
     {by_session reg, odict_touch (op_session x) (by_session reg)} \<union>
     {odict_put cap (op_session x) orig (by_session reg) | orig.
        odict_get (by_session reg) (op_session x) = None \<and> op_session x \<noteq> []}"
proof (cases x)
  case (Record_Op now s orig)
  then show ?thesis using record_sessions [of cap now s orig reg] by auto
next
  case (Bind_Op s m)
  then show ?thesis using bind_sessions [of cap s m reg] by auto
next
  case (Prompt_Op s v)
  have "snd (bind_origin_from_prompt cap s v reg) = reg \<or>
      (\<exists>m. snd (bind_origin_from_prompt cap s v reg) = note_turn_prompt cap s m reg) \<or>
      (\<exists>m. snd (bind_origin_from_prompt cap s v reg) = snd (bind cap s m (note_turn_prompt cap s m reg)))"
    by (auto simp: bind_origin_from_prompt_def split: pyval.splits option.splits)
  then show ?thesis
    using Prompt_Op bind_sessions [of cap s _ "note_turn_prompt cap s _ reg"] by fastforce
next
  case (Claim_Op max_age now)
  then show ?thesis by simp
qed

lemma step_keeps_lock:
  assumes "0 < cap" "card (insert (op_session x) (set (odict_keys (by_session reg)))) \<le> cap"
    and "odict_get (by_session reg) s = Some orig"
  shows "odict_get (by_session (origin_step cap x reg)) s = Some orig \<and>
    set (odict_keys (by_session (origin_step cap x reg))) \<subseteq>
      insert (op_session x) (set (odict_keys (by_session reg)))"
  using step_sessions [of cap x reg]
proof (elim UnE insertE emptyE CollectE exE conjE)
  fix orig'
  assume new: "by_session (origin_step cap x reg) = odict_put cap (op_session x) orig' (by_session reg)"
    "odict_get (by_session reg) (op_session x) = None"
  then have "s \<noteq> op_session x" using assms(3) by auto
  then show ?thesis
    unfolding new(1) using od.held_put [OF assms(1)] assms(3) by (simp add: od.get_put [OF assms(1,2)])
qed (use assms(3) in auto)

lemma step_may_only_forget:
  assumes "odict_get (by_session reg) s = Some orig"
  shows "odict_get (by_session (origin_step cap x reg)) s \<in> {Some orig, None}"
  using step_sessions [of cap x reg]
proof (elim UnE insertE emptyE CollectE exE conjE)
  fix orig'
  assume new: "by_session (origin_step cap x reg) = odict_put cap (op_session x) orig' (by_session reg)"
    "odict_get (by_session reg) (op_session x) = None"
  then have "s \<noteq> op_session x" using assms by auto
  then show ?thesis
    unfolding new(1) using od.get_put_other [of s "op_session x" cap orig' "by_session reg"] assms by auto
qed (use assms in auto)

text \<open>Every origin the registers hold was recorded.\<close>

definition all_from :: "origin set \<Rightarrow> origins \<Rightarrow> bool" where
  "all_from R reg \<longleftrightarrow>
     (\<forall>k orig. odict_get (by_session reg) k = Some orig \<longrightarrow> orig \<in> R) \<and>
     (\<forall>k orig. odict_get (by_message reg) k = Some orig \<longrightarrow> orig \<in> R)"

lemma put_from:
  assumes "odict_get (odict_put cap k v d) k' = Some w" "\<And>k w. odict_get d k = Some w \<Longrightarrow> w \<in> R" "v \<in> R"
  shows "w \<in> R"
proof (cases "k' = k")
  case True
  show ?thesis
  proof (cases "0 < cap")
    case True
    then show ?thesis using assms \<open>k' = k\<close> od.get_put_same [of cap k v d] by auto
  next
    case False
    then have "odict_keys (odict_put cap k v d) = []" using odict_size [of cap k v d] by simp
    then show ?thesis using assms(1) odict_keys_get [of k' "odict_put cap k v d"] by simp
  qed
next
  case False
  then show ?thesis using assms od.get_put_other [of k' k cap v d] by (metis option.distinct(1))
qed

fun recorded :: "origin_op \<Rightarrow> origin set" where
  "recorded (Record_Op now s orig) = (if or_sender orig = [] then {} else {orig})"
| "recorded _ = {}"

definition held_in :: "origin set \<Rightarrow> (string, origin) odict \<Rightarrow> bool" where
  "held_in R d \<longleftrightarrow> (\<forall>k v. odict_get d k = Some v \<longrightarrow> v \<in> R)"

lemma put_held: "held_in R d \<Longrightarrow> v \<in> R \<Longrightarrow> held_in R (odict_put cap k v d)"
  unfolding held_in_def by (blast intro: put_from)

lemma touch_held [simp]: "held_in R (odict_touch k d) = held_in R d"
  by (simp add: held_in_def)

lemma all_from_held: "all_from R reg \<longleftrightarrow> held_in R (by_session reg) \<and> held_in R (by_message reg)"
  by (simp add: all_from_def held_in_def)

lemma all_from_parts:
  "all_from R reg \<Longrightarrow> v \<in> R \<Longrightarrow> all_from R (reg\<lparr>by_message := odict_put cap k v (by_message reg)\<rparr>)"
  "all_from R reg \<Longrightarrow> all_from R (reg\<lparr>by_address := A\<rparr>)"
  "all_from R reg \<Longrightarrow> all_from R (queue_unbound now orig reg)"
  "all_from R reg \<Longrightarrow> R \<subseteq> S \<Longrightarrow> all_from S reg"
  "all_from R reg \<Longrightarrow> all_from R (reg\<lparr>unbound := q\<rparr>)"
  by (auto simp: all_from_held queue_unbound_def Let_def put_held) (auto simp: held_in_def)

lemma lock_from: "all_from R reg \<Longrightarrow> v \<in> R \<Longrightarrow> all_from R (lock cap s v reg)"
  by (simp add: all_from_held lock_def put_held split: option.split)

lemma record_from:
  assumes "all_from R reg"
  shows "all_from (R \<union> recorded (Record_Op now s orig)) (record_origin cap now s orig reg)"
proof -
  have "all_from (insert orig R) reg" using assms by (rule all_from_parts(4)) blast
  then show ?thesis using assms by (simp add: record_origin_def Let_def all_from_parts(1-3) lock_from)
qed

lemma bind_from:
  assumes "all_from R reg"
  shows "all_from R (snd (bind cap s m reg))"
proof (cases "odict_get (by_message reg) m")
  case (Some orig)
  then have "orig \<in> R" using assms by (auto simp: all_from_def)
  from lock_from [OF assms this] show ?thesis using assms Some by (simp add: bind_def all_from_parts(5)) (simp add: all_from_held)
qed (use assms in \<open>simp add: bind_def\<close>)

lemma note_from: "all_from R (note_turn_prompt cap s m reg) \<longleftrightarrow> all_from R reg"
  by (simp add: all_from_def)

lemma step_from:
  assumes "all_from R reg"
  shows "all_from (R \<union> recorded x) (origin_step cap x reg)"
proof (cases x)
  case (Record_Op now s orig)
  then show ?thesis using record_from [OF assms] by simp
next
  case (Bind_Op s m)
  then show ?thesis using bind_from [OF assms] by simp
next
  case (Prompt_Op s v)
  then show ?thesis
    using assms bind_from note_from
    by (auto simp: bind_origin_from_prompt_def split: pyval.splits option.splits)
next
  case (Claim_Op max_age now)
  have "by_message (snd (claim_unbound max_age now reg)) = by_message reg"
    by (auto simp: claim_unbound_def split: list.splits)
  then show ?thesis using Claim_Op assms by (simp add: all_from_def)
qed

lemma run_from: "all_from R reg \<Longrightarrow> all_from (R \<union> \<Union> (recorded ` set xs)) (run_origins cap xs reg)"
proof (induction xs arbitrary: R reg)
  case (Cons x xs)
  from Cons.IH [OF step_from [OF Cons.prems]] show ?case by (simp add: Un_assoc)
qed simp

lemma run_keeps_lock:
  assumes "0 < cap" "finite K" "card K \<le> cap" "op_session ` set xs \<subseteq> K"
    and "set (odict_keys (by_session reg)) \<subseteq> K" "odict_get (by_session reg) s = Some orig"
  shows "odict_get (by_session (run_origins cap xs reg)) s = Some orig"
  using assms(4-6)
proof (induction xs arbitrary: reg)
  case (Cons x xs)
  have "card (insert (op_session x) (set (odict_keys (by_session reg)))) \<le> cap"
    using od.fits [OF Cons.prems(2) _ assms(2,3)] Cons.prems(1) by simp
  from step_keeps_lock [OF assms(1) this Cons.prems(3)] show ?case
    using Cons by auto
qed simp

section \<open>Properties\<close>

text \<open>
  taint is sticky and worst-of. While the sessions ever marked fit the register, the
  class the trust gate reads for a session is exactly the worst one it was ever marked
  with, in any order and with any interleaving of sessions; an unrecognised class counts
  as the worst.
\<close>

theorem taint_is_the_worst_seen:
  assumes "0 < cap" "card (fst ` set ms) \<le> cap" "x \<noteq> []"
  shows "known_rank (trust_class (run_marks cap ms) x) = worst x ms \<and>
    (is_tainted (run_marks cap ms) x \<longleftrightarrow> (\<exists>tc. (x, tc) \<in> set ms \<and> 0 < known_rank tc))"
proof -
  have r: "known_rank (trust_class (run_marks cap ms) x) = worst x ms"
    using run_marks_worst [OF assms(1) _ assms(2) order_refl assms(3)] by simp
  have w: "0 < worst x ms \<longleftrightarrow> (\<exists>tc. (x, tc) \<in> set ms \<and> 0 < known_rank tc)" for ms
    by (induction x ms rule: worst.induct) (auto simp: less_max_iff_disj)
  have i: "known_rank tc = 0 \<longleftrightarrow> tc = ''internal''" for tc
    by (auto simp: known_rank_def trust_rank_def)
  have "is_tainted (run_marks cap ms) x \<longleftrightarrow> 0 < worst x ms"
    unfolding is_tainted_def i [symmetric] r by simp
  then show ?thesis using r w [of ms] by simp
qed

theorem taint_is_the_worst_seen_witness:
  "is_tainted (run_marks max_sessions
     [(''s'', ''known_external''), (''t'', ''internal''), (''s'', ''internal'')]) ''s'' \<and>
   \<not> is_tainted (run_marks max_sessions
     [(''s'', ''known_external''), (''t'', ''internal''), (''s'', ''internal'')]) ''t''"
proof -
  let ?ms = "[(''s'', ''known_external''), (''t'', ''internal''), (''s'', ''internal'')]"
  have c: "0 < max_sessions" "card (fst ` set ?ms) \<le> max_sessions"
    by (simp_all add: max_sessions_def card_insert_if)
  have "known_rank ''known_external'' = 1" by (simp add: known_rank_def trust_rank_def)
  then show ?thesis
    using taint_is_the_worst_seen [OF c, of "''s''"] taint_is_the_worst_seen [OF c, of "''t''"]
    by auto
qed

text \<open>
  the recipient lock is set once. A session's origin is never replaced: through any
  sequence of recordings, bindings, prompts and claims it keeps the first origin while
  the sessions in play fit the register, a single step can at most forget it, and every
  origin a session is ever locked to was recorded with a sender by the router.
\<close>

theorem recipient_lock_never_moves:
  assumes "0 < cap" "get_origin s reg = Some orig"
    and "card (insert s (op_session ` set ops) \<union> set (odict_keys (by_session reg))) \<le> cap"
  shows "get_origin s (run_origins cap ops reg) = Some orig \<and>
    get_origin s (origin_step cap op reg) \<in> {Some orig, None} \<and>
    (\<forall>s' orig'. get_origin s' (run_origins cap ops no_origins) = Some orig' \<longrightarrow>
       or_sender orig' \<noteq> [] \<and> (\<exists>now s0. Record_Op now s0 orig' \<in> set ops))"
proof -
  have s: "s \<noteq> []" "odict_get (by_session reg) s = Some orig"
    using assms(2) by (auto simp: get_origin_def split: if_splits)
  have "odict_get (by_session (run_origins cap ops reg)) s = Some orig"
    by (rule run_keeps_lock [OF assms(1) _ assms(3) _ _ s(2)]) auto
  moreover have "odict_get (by_session (origin_step cap op reg)) s \<in> {Some orig, None}"
    by (rule step_may_only_forget [OF s(2)])
  moreover have "or_sender orig' \<noteq> [] \<and> (\<exists>now s0. Record_Op now s0 orig' \<in> set ops)"
    if "get_origin s' (run_origins cap ops no_origins) = Some orig'" for s' orig'
  proof -
    have "all_from {} no_origins" by (simp add: all_from_def no_origins_def)
    from run_from [OF this, of ops cap] that have "orig' \<in> \<Union> (recorded ` set ops)"
      by (auto simp: all_from_def get_origin_def split: if_splits)
    then obtain x where x: "x \<in> set ops" "orig' \<in> recorded x" by blast
    show ?thesis
    proof (cases x)
      case (Record_Op now s0 orig0)
      then show ?thesis using x by (auto split: if_splits)
    qed (use x in auto)
  qed
  ultimately show ?thesis using s(1) by (simp add: get_origin_def)
qed

definition probe_origin :: origin where
  "probe_origin = \<lparr>or_sender = ''dana@firm.example'', or_message_id = ''m1''\<rparr>"

theorem recipient_lock_never_moves_witness:
  "get_origin ''s'' (run_origins max_sessions
      [Record_Op 5 ''s'' (probe_origin\<lparr>or_sender := ''evil@x.y''\<rparr>), Bind_Op ''s'' ''m1'']
      (record_origin max_sessions 0 ''s'' probe_origin no_origins)) = Some probe_origin"
proof -
  let ?reg = "record_origin max_sessions 0 ''s'' probe_origin no_origins"
  let ?ops = "[Record_Op 5 ''s'' (probe_origin\<lparr>or_sender := ''evil@x.y''\<rparr>), Bind_Op ''s'' ''m1'']"
  have c: "0 < max_sessions" by (simp add: max_sessions_def)
  have n: "normalized (or_sender probe_origin) \<noteq> []" by code_simp
  have b: "by_session ?reg = odict_put max_sessions ''s'' probe_origin empty_odict"
    using n by (simp add: record_origin_def Let_def lock_def no_origins_def probe_origin_def)
  have g: "get_origin ''s'' ?reg = Some probe_origin"
    using od.get_put_same [OF c] by (simp add: get_origin_def b)
  have "set (odict_keys (by_session ?reg)) \<subseteq> {''s''}"
    using od.held_put [OF c, of "''s''" probe_origin empty_odict] by (simp add: b)
  then have eq: "insert ''s'' (op_session ` set ?ops) \<union> set (odict_keys (by_session ?reg)) = {''s''}"
    by auto
  have "card (insert ''s'' (op_session ` set ?ops) \<union> set (odict_keys (by_session ?reg))) \<le> max_sessions"
    unfolding eq by (simp add: max_sessions_def)
  from recipient_lock_never_moves [OF c g this] show ?thesis by blast
qed

text \<open>
  an act is attributed to this turn's own email or to nobody. After a turn's prompt
  has been noted and bound, the origin the turn speaks for has the message id the prompt
  names above the delimiter, and no other email was ever handed to the session; a prompt
  that names none, or that is not text, speaks for nobody, whatever the session's lock.
\<close>

theorem turn_speaks_for_its_own_email:
  assumes "0 < cap" "s \<noteq> []"
  shows "(bound_this_turn s (snd (bind_origin_from_prompt cap s v reg)) = Some orig \<longrightarrow>
      (\<exists>prompt. v = PStr prompt \<and> prompt_message_id prompt = Some (or_message_id orig)) \<and>
      (\<forall>seen. odict_get (prompts_seen reg) s = Some seen \<longrightarrow> seen \<subseteq> {or_message_id orig})) \<and>
    ((\<forall>prompt. v = PStr prompt \<longrightarrow> prompt_message_id prompt = None) \<longrightarrow>
      bound_this_turn s (snd (bind_origin_from_prompt cap s v reg)) = None)"
proof -
  have bind_fields: "turn_prompt (snd (bind cap s m r)) = turn_prompt r"
      "prompts_seen (snd (bind cap s m r)) = prompts_seen r" for m r
    by (auto simp: bind_def lock_def split: option.splits)
  have noted: "odict_get (turn_prompt (note_turn_prompt cap s m reg)) s = Some m"
      "m \<noteq> [] \<Longrightarrow> odict_get (prompts_seen (note_turn_prompt cap s m reg)) s =
        Some (insert m (case odict_get (prompts_seen reg) s of None \<Rightarrow> {} | Some x \<Rightarrow> x))" for m
    using assms(2) od.get_put_same [OF assms(1)] by (simp_all add: note_turn_prompt_def Let_def)
  have silent: "bound_this_turn s r = None" if "odict_get (turn_prompt r) s = Some []" for r
    using that by (simp add: bound_this_turn_def turn_prompt_id_def get_origin_def split: option.splits)
  show ?thesis
  proof (cases "\<exists>prompt m. v = PStr prompt \<and> prompt_message_id prompt = Some m")
    case True
    then obtain prompt m where v: "v = PStr prompt" "prompt_message_id prompt = Some m" by blast
    let ?r = "snd (bind cap s m (note_turn_prompt cap s m reg))"
    have r: "snd (bind_origin_from_prompt cap s v reg) = ?r"
      using v assms(2) by (simp add: bind_origin_from_prompt_def)
    have t: "turn_prompt_id s ?r = m"
      using assms(2) noted(1) by (simp add: turn_prompt_id_def bind_fields)
    have "m = or_message_id orig \<and> (\<forall>seen. odict_get (prompts_seen reg) s = Some seen \<longrightarrow> seen \<subseteq> {m})"
      if "bound_this_turn s ?r = Some orig"
      using that t noted(2) [of m]
      by (auto simp: bound_this_turn_def bind_fields Let_def split: option.splits if_splits)
    then show ?thesis using v r by auto
  next
    case False
    then have "snd (bind_origin_from_prompt cap s v reg) = note_turn_prompt cap s [] reg"
      using assms(2) by (auto simp: bind_origin_from_prompt_def split: pyval.splits option.splits)
    then show ?thesis using silent noted(1) by simp
  qed
qed

theorem turn_speaks_for_its_own_email_witness:
  "bound_this_turn ''s'' (snd (bind_origin_from_prompt max_sessions ''s'' (PStr ''wake'') no_origins))
     = None"
proof -
  have "prompt_message_id ''wake'' = None" by code_simp
  then show ?thesis
    using turn_speaks_for_its_own_email [of max_sessions "''s''" "PStr ''wake''" no_origins]
    by (auto simp: max_sessions_def)
qed

text \<open>
  an email handed to a session that is already locked stays claimable. The binding of
  the second email of a session is refused before the claim queue is cleaned, so for the
  claim window another turn, with no email of its own, is attributed to that sender.
\<close>

theorem second_email_can_attribute_another_turn:
  assumes "0 < cap" "get_origin s reg = Some first" "unbound reg = []"
    and "or_sender orig \<noteq> []" "or_message_id orig \<noteq> []" "later - now \<le> max_age"
  shows "let reg1 = record_origin cap now [] orig reg; (ok, reg2) = bind cap s (or_message_id orig) reg1
    in ok = False \<and> fst (claim_unbound max_age later reg2) = Some orig"
proof -
  have s: "s \<noteq> []" "odict_get (by_session reg) s = Some first"
    using assms(2) by (auto simp: get_origin_def split: if_splits)
  let ?reg1 = "record_origin cap now [] orig reg"
  have r: "by_session ?reg1 = by_session reg" "unbound ?reg1 = [(now, orig)]"
      "odict_get (by_message ?reg1) (or_message_id orig) = Some orig"
    using assms(3-5) od.get_put_same [OF assms(1)]
    by (simp_all add: record_origin_def Let_def queue_unbound_def unbound_max_def)
  have "bind cap s (or_message_id orig) ?reg1
      = (False, ?reg1\<lparr>by_session := odict_touch s (by_session ?reg1)\<rparr>)"
    using s assms(5) r by (simp add: bind_def)
  then show ?thesis using r(2) assms(6) by (simp add: claim_unbound_def)
qed

theorem second_email_can_attribute_another_turn_witness:
  "fst (claim_unbound 180 60 (snd (bind max_sessions ''s'' ''m1''
     (record_origin max_sessions 0 [] probe_origin (no_origins\<lparr>by_session :=
        odict_put max_sessions ''s'' (probe_origin\<lparr>or_message_id := ''m0''\<rparr>) empty_odict\<rparr>)))))
     = Some probe_origin"
proof -
  let ?reg = "no_origins\<lparr>by_session :=
        odict_put max_sessions ''s'' (probe_origin\<lparr>or_message_id := ''m0''\<rparr>) empty_odict\<rparr>"
  have c: "0 < max_sessions" by (simp add: max_sessions_def)
  have "get_origin ''s'' ?reg = Some (probe_origin\<lparr>or_message_id := ''m0''\<rparr>)"
    using od.get_put_same [OF c] by (simp add: get_origin_def)
  from second_email_can_attribute_another_turn [OF c this, of probe_origin 60 0 180]
  show ?thesis by (simp add: no_origins_def probe_origin_def case_prod_unfold Let_def)
qed

lemma mark_fresh:
  assumes "s \<noteq> []" "s \<notin> set (odict_keys reg)"
  shows "mark cap s ''unknown_external'' reg = odict_put cap s ''unknown_external'' reg"
  using assms
  by (simp add: mark_def Let_def odict_keys_get trust_rank_def known_rank_def)

lemma marked_keys:
  assumes "distinct ss" "length ss \<le> cap" "[] \<notin> set ss"
  shows "odict_keys (run_marks cap (map (\<lambda>s. (s, ''unknown_external'')) ss)) = ss"
  using assms
proof (induction ss rule: rev_induct)
  case Nil
  then show ?case by (simp add: run_marks_def)
next
  case (snoc s ss)
  let ?reg = "run_marks cap (map (\<lambda>s. (s, ''unknown_external'')) ss)"
  have k: "odict_keys ?reg = ss" using snoc by simp
  have "run_marks cap (map (\<lambda>s. (s, ''unknown_external'')) (ss @ [s]))
      = mark cap s ''unknown_external'' ?reg"
    by (simp add: run_marks_def)
  also have "\<dots> = odict_put cap s ''unknown_external'' ?reg"
    by (rule mark_fresh) (use snoc.prems k in auto)
  finally show ?case using odict_keys_fresh [of ?reg cap s] snoc.prems k by simp
qed

text \<open>
  stickiness ends with the register's capacity. When one more session is tainted than
  the register holds, the first of them reads as never tainted again, though its content
  is still in its context: the gate sees it as internal.
\<close>

theorem evicted_taint_reads_clean:
  assumes "distinct (s # ss)" "length ss = cap" "[] \<notin> set (s # ss)" "0 < cap"
  shows "trust_class (run_marks cap (map (\<lambda>x. (x, ''unknown_external'')) (s # ss))) s = ''internal''"
proof -
  obtain z zs where ss: "ss = zs @ [z]" using assms(2,4) by (cases ss rule: rev_cases) auto
  let ?ms = "map (\<lambda>x. (x, ''unknown_external'')) (s # zs)"
  let ?reg = "run_marks cap ?ms"
  have k: "odict_keys ?reg = s # zs"
    using marked_keys [of "s # zs" cap] assms ss by auto
  have "run_marks cap (map (\<lambda>x. (x, ''unknown_external'')) (s # ss)) = mark cap z ''unknown_external'' ?reg"
    by (simp add: run_marks_def ss)
  also have "\<dots> = odict_put cap z ''unknown_external'' ?reg"
    using mark_fresh [of z ?reg cap] k assms ss by auto
  also have "odict_keys \<dots> = zs @ [z]"
    by (rule odict_full [where ks = zs and ?k0.0 = s]) (use k assms ss in auto)
  finally have "s \<notin> set (odict_keys (run_marks cap (map (\<lambda>x. (x, ''unknown_external'')) (s # ss))))"
    using assms(1) ss by (metis distinct.simps(2))
  then show ?thesis by (simp add: trust_class_def odict_keys_get)
qed

theorem evicted_taint_reads_clean_witness:
  "trust_class (run_marks 2 (map (\<lambda>x. (x, ''unknown_external'')) [''a'', ''b'', ''c''])) ''a'' = ''internal''"
  by (rule evicted_taint_reads_clean) simp_all

end
