(* ===== verification/Trust_Register.thy ===== *)
theory Trust_Register
  imports Stores
begin

text \<open>
  The hand-off of one tool call's trust decision from the gate's pre-hook to the audit
  plugin's post-hook (\<open>shared/trust_decision.py\<close>): a process-wide register keyed by the
  call id, and one slot per thread. Decisions are opaque; a thread is the argument of the
  operation that runs on it.
\<close>

section \<open>The register\<close>

record ('t, 'd) register =
  by_call :: "(string, string \<times> 'd) odict"
  last_on :: "'t \<Rightarrow> (string \<times> string \<times> 'd) option"

definition max_calls :: nat where
  "max_calls = 256"

definition empty_register :: "('t, 'd) register" where
  "empty_register = \<lparr>by_call = empty_odict, last_on = (\<lambda>t. None)\<rparr>"

datatype match_kind = Keyed | Sequential | No_Match

definition record_decision ::
  "nat \<Rightarrow> 't \<Rightarrow> string \<Rightarrow> string \<Rightarrow> 'd \<Rightarrow> ('t, 'd) register \<Rightarrow> ('t, 'd) register" where
  "record_decision cap thr call_id tool d reg =
     (if tool = [] then reg
      else \<lparr>by_call = (if call_id = [] then by_call reg
                       else odict_put cap call_id (tool, d) (by_call reg)),
            last_on = (last_on reg)(thr := Some (call_id, tool, d))\<rparr>)"

text \<open>The fallback: this thread's slot, if its tool agrees.\<close>

definition take_sequential ::
  "'t \<Rightarrow> string \<Rightarrow> ('t, 'd) register \<Rightarrow> ('d option \<times> match_kind) \<times> ('t, 'd) register" where
  "take_sequential thr tool reg =
     (case last_on reg thr of
        Some (k, tool', d) \<Rightarrow>
          if tool' = tool
          then ((Some d, Sequential),
                reg\<lparr>last_on := (last_on reg)(thr := None),
                    by_call := (if k = [] then by_call reg else odict_pop k (by_call reg))\<rparr>)
          else ((None, No_Match), reg)
      | None \<Rightarrow> ((None, No_Match), reg))"

definition take_decision ::
  "'t \<Rightarrow> string \<Rightarrow> string \<Rightarrow> ('t, 'd) register \<Rightarrow>
   ('d option \<times> match_kind) \<times> ('t, 'd) register" where
  "take_decision thr call_id tool reg =
     (if tool = [] then ((None, No_Match), reg)
      else if call_id = [] then take_sequential thr tool reg
      else
        let popped = reg\<lparr>by_call := odict_pop call_id (by_call reg)\<rparr> in
        case odict_get (by_call reg) call_id of
          Some (tool', d) \<Rightarrow>
            if tool' = tool
            then ((Some d, Keyed),
                  (case last_on reg thr of
                     Some (k, _, _) \<Rightarrow>
                       if k = call_id then popped\<lparr>last_on := (last_on reg)(thr := None)\<rparr> else popped
                   | None \<Rightarrow> popped))
            else take_sequential thr tool popped
        | None \<Rightarrow> take_sequential thr tool popped)"

definition clear_register :: "'t \<Rightarrow> ('t, 'd) register \<Rightarrow> ('t, 'd) register" where
  "clear_register thr reg =
     \<lparr>by_call = empty_odict, last_on = (last_on reg)(thr := None)\<rparr>"

section \<open>Runs on one thread\<close>

datatype 'd call_op = Recorded string string 'd | Taken string string

text \<open>The decisions handed out, in order.\<close>

fun handed_out :: "nat \<Rightarrow> 't \<Rightarrow> 'd call_op list \<Rightarrow> ('t, 'd) register \<Rightarrow> 'd list" where
  "handed_out cap thr [] reg = []"
| "handed_out cap thr (Recorded k tool d # ops) reg =
     handed_out cap thr ops (record_decision cap thr k tool d reg)"
| "handed_out cap thr (Taken k tool # ops) reg =
     (case take_decision thr k tool reg of
        ((res, _), reg') \<Rightarrow>
          (case res of None \<Rightarrow> [] | Some d \<Rightarrow> [d]) @ handed_out cap thr ops reg')"

fun decisions :: "'d call_op list \<Rightarrow> 'd list" where
  "decisions [] = []"
| "decisions (Recorded k tool d # ops) = d # decisions ops"
| "decisions (Taken k tool # ops) = decisions ops"

text \<open>
  The pairs of key and decision the register holds: keyed, and in the thread's slot. They
  are different decisions, unless they are the two copies of one recording.
\<close>

definition keyed :: "('t, 'd) register \<Rightarrow> (string \<times> 'd) set" where
  "keyed reg = {(k, d). \<exists>tool. odict_get (by_call reg) k = Some (tool, d)}"

definition slot :: "'t \<Rightarrow> ('t, 'd) register \<Rightarrow> (string \<times> 'd) set" where
  "slot thr reg = {(k, d). \<exists>tool. last_on reg thr = Some (k, tool, d)}"

definition apart :: "'d set \<Rightarrow> (string \<times> 'd) set \<Rightarrow> (string \<times> 'd) set \<Rightarrow> bool" where
  "apart live P S \<longleftrightarrow>
     snd ` (P \<union> S) \<subseteq> live \<and> [] \<notin> fst ` P \<and>
     (\<forall>k k' d. (k, d) \<in> P \<longrightarrow> (k', d) \<in> P \<union> S \<longrightarrow> k = k')"

definition coherent :: "'t \<Rightarrow> 'd set \<Rightarrow> ('t, 'd) register \<Rightarrow> bool" where
  "coherent thr live reg \<longleftrightarrow> apart live (keyed reg) (slot thr reg)"

lemma apart_record:
  assumes "apart live P S" "d \<notin> live" "P' \<subseteq> P \<union> {(k, d)}" "k = [] \<Longrightarrow> P' \<subseteq> P"
  shows "apart (insert d live) P' {(k, d)}"
proof -
  have "[] \<notin> fst ` P'" using assms(1,3,4) by (cases "k = []") (auto simp: apart_def)
  moreover have "snd ` (P' \<union> {(k, d)}) \<subseteq> insert d live"
    using assms(1,3) by (force simp: apart_def)
  moreover have "k1 = k2" if "(k1, d1) \<in> P'" "(k2, d1) \<in> P' \<union> {(k, d)}" for k1 k2 d1
  proof (cases "d1 = d")
    case True
    then have "(k1, d1) \<notin> P" "(k2, d1) \<notin> P" using assms(1,2) by (force simp: apart_def)+
    then show ?thesis using that assms(3) by auto
  next
    case False
    then have "(k1, d1) \<in> P" "(k2, d1) \<in> P" using that assms(3) by auto
    then show ?thesis using assms(1) by (auto simp: apart_def)
  qed
  ultimately show ?thesis unfolding apart_def by blast
qed

lemma apart_mono: "apart live P S \<Longrightarrow> P' \<subseteq> P \<Longrightarrow> S' \<subseteq> S \<Longrightarrow> apart live P' S'"
  unfolding apart_def by (meson Un_iff Un_mono image_mono subsetD subset_trans)

lemma apart_take:
  assumes "apart live P S" "P' \<subseteq> P" "S' \<subseteq> S" "d \<notin> snd ` (P' \<union> S')"
  shows "apart (live - {d}) P' S'"
proof -
  have "apart live P' S'" using assms(1-3) by (rule apart_mono)
  then show ?thesis using assms(4) unfolding apart_def by blast
qed

lemma odict_put_Some:
  assumes "odict_get (odict_put cap k v d) k' = Some w"
  shows "(k' = k \<and> w = v) \<or> (k' \<noteq> k \<and> odict_get d k' = Some w)"
proof (cases "k' = k")
  case True
  have "0 < cap"
  proof (rule ccontr)
    assume "\<not> 0 < cap"
    then have "odict_keys (odict_put cap k v d) = []" using odict_size [of cap k v d] by simp
    then show False using assms odict_keys_get [of k' "odict_put cap k v d"] by simp
  qed
  then show ?thesis using assms True od.get_put_same [of cap k v d] by simp
next
  case False
  then show ?thesis using assms od.get_put_other [of k' k cap v d] by (metis option.distinct(1))
qed

lemma coherent_record:
  assumes "coherent thr live reg" "d \<notin> live"
  shows "coherent thr (insert d live) (record_decision cap thr k tool d reg)"
proof (cases "tool = []")
  case True
  then show ?thesis using assms by (auto simp: coherent_def apart_def record_decision_def)
next
  case False
  have "slot thr (record_decision cap thr k tool d reg) = {(k, d)}"
    using False by (auto simp: slot_def record_decision_def)
  moreover have "keyed (record_decision cap thr k tool d reg) \<subseteq> keyed reg \<union> {(k, d)}"
    using False by (auto simp: keyed_def record_decision_def dest!: odict_put_Some split: if_splits)
  moreover have "keyed (record_decision cap thr k tool d reg) \<subseteq> keyed reg" if "k = []"
    using False that by (auto simp: keyed_def record_decision_def)
  ultimately show ?thesis
    using apart_record [OF assms(1) [unfolded coherent_def] assms(2)] by (simp add: coherent_def)
qed

text \<open>Taking hands out a live decision at most, and it is no longer live.\<close>

lemma keyed_pop [simp]: "keyed (reg\<lparr>by_call := odict_pop k (by_call reg)\<rparr>) = {p \<in> keyed reg. fst p \<noteq> k}"
  by (auto simp: keyed_def split: if_splits)

lemma keyed_slot [simp]: "keyed (reg\<lparr>last_on := f\<rparr>) = keyed reg"
  by (simp add: keyed_def)

lemma slot_pop [simp]: "slot thr (reg\<lparr>by_call := f\<rparr>) = slot thr reg"
  by (simp add: slot_def)

lemma slot_clear [simp]: "slot thr (reg\<lparr>last_on := (last_on reg')(thr := None)\<rparr>) = {}"
  by (simp add: slot_def)

lemma coherent_pop:
  "coherent thr live reg \<Longrightarrow> coherent thr live (reg\<lparr>by_call := odict_pop k (by_call reg)\<rparr>)"
  unfolding coherent_def by (erule apart_mono) auto

lemma coherent_sequential:
  assumes "coherent thr live reg" "take_sequential thr tool reg = ((res, m), reg')"
  shows "case res of None \<Rightarrow> coherent thr live reg' | Some d \<Rightarrow> d \<in> live \<and> coherent thr (live - {d}) reg'"
proof (cases res)
  case None
  then show ?thesis using assms by (auto simp: take_sequential_def split: option.splits if_splits)
next
  case (Some d)
  then obtain k where k: "last_on reg thr = Some (k, tool, d)"
    "reg' = (reg\<lparr>last_on := (last_on reg)(thr := None)\<rparr>)
       \<lparr>by_call := (if k = [] then by_call reg else odict_pop k (by_call reg))\<rparr>"
    using assms(2) by (auto simp: take_sequential_def split: option.splits if_splits)
  have s: "(k, d) \<in> slot thr reg" using k(1) by (simp add: slot_def)
  then have only: "k' = k \<and> k' \<noteq> []" if "(k', d) \<in> keyed reg" for k'
    using assms(1) that unfolding coherent_def apart_def by (metis Un_iff fst_conv image_eqI)
  have K: "keyed reg' = (if k = [] then keyed reg else {p \<in> keyed reg. fst p \<noteq> k})"
    by (auto simp: k(2) keyed_def split: if_splits)
  have S: "slot thr reg' = {}" by (simp add: k(2) slot_def)
  have "d \<in> live" using s assms(1) by (force simp: coherent_def apart_def)
  moreover have "apart (live - {d}) (keyed reg') (slot thr reg')"
    by (rule apart_take [OF assms(1) [unfolded coherent_def]]) (use only in \<open>auto simp: K S split: if_splits\<close>)
  ultimately show ?thesis by (simp add: Some coherent_def)
qed

lemma coherent_take:
  assumes "coherent thr live reg" "take_decision thr call_id tool reg = ((res, m), reg')"
  shows "case res of None \<Rightarrow> coherent thr live reg' | Some d \<Rightarrow> d \<in> live \<and> coherent thr (live - {d}) reg'"
proof -
  let ?popped = "reg\<lparr>by_call := odict_pop call_id (by_call reg)\<rparr>"
  consider (none) "tool = []" | (seq) r where "take_sequential thr tool r = ((res, m), reg')"
      "r = reg \<or> r = ?popped"
    | (keyed) d where "odict_get (by_call reg) call_id = Some (tool, d)" "res = Some d"
      "reg' = (case last_on reg thr of
                 Some (k, _, _) \<Rightarrow>
                   if k = call_id then ?popped\<lparr>last_on := (last_on reg)(thr := None)\<rparr> else ?popped
               | None \<Rightarrow> ?popped)"
    using assms(2) by (auto simp: take_decision_def Let_def split: if_splits option.splits)
  then show ?thesis
  proof cases
    case none
    then show ?thesis using assms by (auto simp: take_decision_def)
  next
    case seq
    then show ?thesis using coherent_sequential [OF _ seq(1)] coherent_pop [OF assms(1)] assms(1) by auto
  next
    case keyed
    have in_keyed: "(call_id, d) \<in> keyed reg" using keyed(1) by (auto simp: keyed_def)
    then have only: "k = call_id" if "(k, d) \<in> keyed reg \<union> slot thr reg" for k
      using assms(1) that unfolding coherent_def apart_def by blast
    have K: "keyed reg' = {p \<in> keyed reg. fst p \<noteq> call_id}"
      by (auto simp: keyed(3) keyed_def split: option.splits if_splits)
    have S: "slot thr reg' = {p \<in> slot thr reg. fst p \<noteq> call_id}"
      by (auto simp: keyed(3) slot_def split: option.splits)
    have "d \<in> live" using in_keyed assms(1) by (force simp: coherent_def apart_def)
    moreover have "apart (live - {d}) (keyed reg') (slot thr reg')"
      by (rule apart_take [OF assms(1) [unfolded coherent_def]]) (use only in \<open>auto simp: K S\<close>)
    ultimately show ?thesis by (simp add: keyed(2) coherent_def)
  qed
qed

lemma handed_out_once:
  assumes "coherent thr live reg" "distinct (decisions ops)" "set (decisions ops) \<inter> live = {}"
  shows "distinct (handed_out cap thr ops reg) \<and>
    set (handed_out cap thr ops reg) \<subseteq> live \<union> set (decisions ops)"
  using assms
proof (induction cap thr ops reg arbitrary: live rule: handed_out.induct)
  case (1 cap thr reg)
  then show ?case by simp
next
  case (2 cap thr k tool d ops reg)
  from coherent_record [OF 2(2), of d cap k tool] 2(3,4)
  have "coherent thr (insert d live) (record_decision cap thr k tool d reg)" by simp
  from 2(1) [OF this] 2(3,4) show ?case by auto
next
  case (3 cap thr k tool ops reg)
  obtain res m reg' where t: "take_decision thr k tool reg = ((res, m), reg')"
    by (metis prod.collapse)
  show ?case
  proof (cases res)
    case None
    then have "coherent thr live reg'" using coherent_take [OF 3(2) t] by simp
    from 3(1) [OF t [symmetric] refl this] 3(3,4) None show ?thesis by (simp add: t)
  next
    case (Some d)
    then have d: "d \<in> live" "coherent thr (live - {d}) reg'" using coherent_take [OF 3(2) t] by auto
    from 3(1) [OF t [symmetric] refl d(2)] 3(3,4) d(1) Some show ?thesis by (auto simp: t)
  qed
qed

section \<open>Properties\<close>

text \<open>
  on one thread a decision is attributed to at most one row. However recordings and
  takes of one thread interleave, with or without call ids, with ids that repeat, and
  under eviction, no recorded decision is handed out twice and none is invented.
\<close>

theorem decision_is_handed_out_once:
  assumes "distinct (decisions ops)"
  shows "distinct (handed_out cap thr ops empty_register) \<and>
    set (handed_out cap thr ops empty_register) \<subseteq> set (decisions ops)"
proof -
  have "coherent thr {} empty_register" by (simp add: coherent_def apart_def keyed_def slot_def empty_register_def)
  from handed_out_once [OF this assms] show ?thesis by simp
qed

theorem decision_is_handed_out_once_witness:
  "distinct (handed_out max_calls () [Recorded ''c1'' ''t'' (1::nat), Taken ''c1'' ''t'', Taken [] ''t'']
     empty_register)"
  using decision_is_handed_out_once
    [of "[Recorded ''c1'' ''t'' (1::nat), Taken ''c1'' ''t'', Taken [] ''t'']" max_calls "()"]
  by simp

text \<open>
  across threads the single use fails. A decision recorded on one thread and collected
  under its call id on another stays in the first thread's slot, so that thread's next
  take of the same tool hands the same decision to a second row.
\<close>

theorem decision_can_be_taken_on_two_threads:
  assumes "0 < cap" "thr \<noteq> thr'" "tool \<noteq> []" "call_id \<noteq> []"
  shows "let reg = record_decision cap thr call_id tool d empty_register;
             (first, reg1) = take_decision thr' call_id tool reg;
             (second, reg2) = take_decision thr [] tool reg1
    in first = (Some d, Keyed) \<and> second = (Some d, Sequential)"
proof -
  let ?reg = "record_decision cap thr call_id tool d (empty_register :: ('a, 'b) register)"
  have f: "by_call ?reg = odict_put cap call_id (tool, d) empty_odict"
      "last_on ?reg = (\<lambda>t. None)(thr := Some (call_id, tool, d))"
    using assms by (simp_all add: record_decision_def empty_register_def)
  have first: "take_decision thr' call_id tool ?reg =
      ((Some d, Keyed), ?reg\<lparr>by_call := odict_pop call_id (by_call ?reg)\<rparr>)"
    using assms by (simp add: take_decision_def f Let_def od.get_put_same)
  show ?thesis
    using assms
    by (simp add: first take_decision_def [of thr "[]"] take_sequential_def f Let_def)
qed

theorem decision_can_be_taken_on_two_threads_witness:
  "fst (take_decision False [] ''t'' (snd (take_decision True ''c1'' ''t''
     (record_decision max_calls False ''c1'' ''t'' (7::nat) empty_register)))) = (Some 7, Sequential)"
  using decision_can_be_taken_on_two_threads [of max_calls False True "''t''" "''c1''" "7::nat"]
  by (simp add: max_calls_def case_prod_unfold Let_def)

text \<open>
  the fallback does not compare call ids. A take for a call whose decision was never
  recorded hands out the decision this thread's slot holds for another call of the same
  tool, though both ids are known and differ.
\<close>

theorem fallback_ignores_the_call_id:
  assumes "tool \<noteq> []" "a \<noteq> []" "b \<noteq> []" "a \<noteq> b"
  shows "fst (take_decision thr b tool (record_decision cap thr a tool d empty_register))
    = (Some d, Sequential)"
proof -
  have "odict_get (odict_put cap a (tool, d) empty_odict) b = None"
    using assms(4) od.get_put_other [of b a cap "(tool, d)" empty_odict] by auto
  then show ?thesis
    using assms by (simp add: take_decision_def record_decision_def empty_register_def take_sequential_def)
qed

theorem fallback_ignores_the_call_id_witness:
  "fst (take_decision () ''c2'' ''send'' (record_decision max_calls () ''c1'' ''send'' (7::nat) empty_register))
     = (Some 7, Sequential)"
  by (rule fallback_ignores_the_call_id) simp_all

end
