(* ===== verification/Pending_Send.thy ===== *)
theory Pending_Send
  imports Prelude "HOL-Library.Multiset"
begin

text \<open>
  Sends withheld at the confirm ceiling and their approval (\<open>shared/pending_send.py\<close>), and
  the principals they are bound to (\<open>shared/turn_principal.py\<close>). Times are microseconds;
  the stored arguments are opaque, as the register only copies them. A consumed record
  leaves the register at once, so the flag that marks it is not modelled.
\<close>

section \<open>Principals\<close>

record principal =
  pr_platform :: string
  pr_user :: string
  pr_chat :: string
  pr_chat_type :: string

definition UNBOUND :: principal where
  "UNBOUND = \<lparr>pr_platform = [], pr_user = [], pr_chat = [], pr_chat_type = []\<rparr>"

definition principal_bound :: "principal \<Rightarrow> bool" where
  "principal_bound p \<longleftrightarrow> pr_user p \<noteq> [] \<or> pr_chat p \<noteq> []"

text \<open>\<open>env\<close> is the session context, with an unreadable or unset name as the empty string.\<close>

definition session_env :: "(string \<Rightarrow> string) \<Rightarrow> string \<Rightarrow> string" where
  "session_env env name = strip (env name)"

definition current :: "(string \<Rightarrow> string) \<Rightarrow> principal" where
  "current env =
     \<lparr>pr_platform = lower (session_env env ''HERMES_SESSION_PLATFORM''),
      pr_user = session_env env ''HERMES_SESSION_USER_ID'',
      pr_chat = session_env env ''HERMES_SESSION_CHAT_ID'',
      pr_chat_type = lower (session_env env ''HERMES_SESSION_CHAT_TYPE'')\<rparr>"

definition requester_of_turn :: "(string \<Rightarrow> string) \<Rightarrow> principal" where
  "requester_of_turn env =
     (let turn = current env in
      if pr_platform turn = ''telegram'' \<and> pr_user turn \<noteq> [] then turn
      else if session_env env ''HERMES_CRON_SESSION'' = ''1'' \<and>
              lower (session_env env ''HERMES_CRON_AUTO_DELIVER_PLATFORM'') = ''telegram'' \<and>
              session_env env ''HERMES_CRON_AUTO_DELIVER_CHAT_ID'' \<noteq> []
      then \<lparr>pr_platform = ''telegram'', pr_user = [],
            pr_chat = session_env env ''HERMES_CRON_AUTO_DELIVER_CHAT_ID'', pr_chat_type = []\<rparr>
      else UNBOUND)"

section \<open>Records\<close>

record 'a pending_send =
  p_tool :: string
  p_args :: 'a
  p_recipients :: "string set"
  p_created :: int
  p_approved :: bool
  p_source :: "string option"
  p_anchor :: "(string \<times> string) list option"
  p_lane :: "string option"
  p_requester :: principal
  p_session :: "string option"

definition TTL :: int where
  "TTL = 15 * 60 * 1000000"

definition overlaps :: "principal \<Rightarrow> principal \<Rightarrow> bool" where
  "overlaps a b \<longleftrightarrow>
     (pr_user a = [] \<or> pr_user b = [] \<or> pr_user a = pr_user b) \<and>
     (pr_chat a = [] \<or> pr_chat b = [] \<or> pr_chat a = pr_chat b)"

definition same_chat :: "principal \<Rightarrow> principal option \<Rightarrow> bool" where
  "same_chat b other =
     (case other of
        None \<Rightarrow> False
      | Some p \<Rightarrow>
          if pr_chat b = [] \<or> pr_chat b \<noteq> pr_chat p then False
          else \<not> (pr_chat_type b \<noteq> [] \<and> pr_chat_type p \<noteq> [] \<and> pr_chat_type b \<noteq> pr_chat_type p))"

definition may_approve :: "principal \<Rightarrow> principal option \<Rightarrow> bool \<Rightarrow> bool" where
  "may_approve req approver sole =
     (if pr_user req \<noteq> []
      then (case approver of
              None \<Rightarrow> False
            | Some p \<Rightarrow> pr_user p = pr_user req \<and> same_chat req approver)
      else if sole then True
      else if pr_chat req \<noteq> [] then same_chat req approver
      else False)"

definition may_consume :: "principal \<Rightarrow> principal \<Rightarrow> bool" where
  "may_consume req turn =
     (if pr_user req = [] then True else pr_user turn = pr_user req \<and> same_chat req (Some turn))"

section \<open>The register, oldest first\<close>

type_synonym 'a sends = "'a pending_send list"

definition expired :: "int \<Rightarrow> int \<Rightarrow> 'a pending_send \<Rightarrow> bool" where
  "expired ttl now r \<longleftrightarrow> now - p_created r > ttl"

definition prune :: "int \<Rightarrow> int \<Rightarrow> 'a sends \<Rightarrow> 'a sends" where
  "prune ttl now reg = filter (\<lambda>r. \<not> expired ttl now r) reg"

definition live :: "int \<Rightarrow> int \<Rightarrow> 'a sends \<Rightarrow> 'a sends" where
  "live ttl now reg = rev (prune ttl now reg)"

definition capture ::
  "int \<Rightarrow> int \<Rightarrow> string \<Rightarrow> 'a \<Rightarrow> string set \<Rightarrow> (string \<times> string) list option \<Rightarrow> string option \<Rightarrow>
   principal \<Rightarrow> string option \<Rightarrow> 'a sends \<Rightarrow> 'a sends" where
  "capture ttl now tool args recips anchor lane req sess reg =
     filter (\<lambda>r. \<not> overlaps (p_requester r) req) (prune ttl now reg) @
     [\<lparr>p_tool = tool, p_args = args, p_recipients = recips, p_created = now, p_approved = False,
       p_source = None, p_anchor = anchor, p_lane = lane, p_requester = req, p_session = sess\<rparr>]"

text \<open>Newest first: the first record the approver may approve is marked.\<close>

fun approve_first ::
  "string \<Rightarrow> principal option \<Rightarrow> bool \<Rightarrow> 'a sends \<Rightarrow> 'a pending_send option \<times> 'a sends" where
  "approve_first source approver sole [] = (None, [])"
| "approve_first source approver sole (r # rs) =
     (if may_approve (p_requester r) approver sole
      then (let r' = r\<lparr>p_approved := True, p_source := Some source\<rparr> in (Some r', r' # rs))
      else (case approve_first source approver sole rs of (res, rs') \<Rightarrow> (res, r # rs')))"

definition approve ::
  "int \<Rightarrow> int \<Rightarrow> string \<Rightarrow> principal option \<Rightarrow> bool \<Rightarrow> 'a sends \<Rightarrow> 'a pending_send option \<times> 'a sends" where
  "approve ttl now source approver sole reg =
     (case approve_first source approver sole (live ttl now reg) of (res, rs) \<Rightarrow> (res, rev rs))"

definition releasable :: "string \<Rightarrow> string set \<Rightarrow> principal \<Rightarrow> 'a pending_send \<Rightarrow> bool" where
  "releasable tool recips turn r \<longleftrightarrow>
     p_approved r \<and> p_tool r = tool \<and> p_recipients r = recips \<and> may_consume (p_requester r) turn"

definition approved_match ::
  "int \<Rightarrow> int \<Rightarrow> string \<Rightarrow> string set \<Rightarrow> principal \<Rightarrow> 'a sends \<Rightarrow> 'a pending_send option" where
  "approved_match ttl now tool recips turn reg =
     find (releasable tool recips turn) (live ttl now reg)"

fun drop_first :: "('a \<Rightarrow> bool) \<Rightarrow> 'a list \<Rightarrow> 'a list" where
  "drop_first P [] = []"
| "drop_first P (x # xs) = (if P x then xs else x # drop_first P xs)"

definition take_for_send ::
  "int \<Rightarrow> int \<Rightarrow> string \<Rightarrow> string set \<Rightarrow> principal \<Rightarrow> 'a sends \<Rightarrow> 'a pending_send option \<times> 'a sends" where
  "take_for_send ttl now tool recips turn reg =
     (approved_match ttl now tool recips turn reg,
      rev (drop_first (releasable tool recips turn) (live ttl now reg)))"

definition peek :: "'a sends \<Rightarrow> 'a pending_send option" where
  "peek reg = (if reg = [] then None else Some (last reg))"

section \<open>Runs\<close>

datatype 'a send_op =
    Captured int string 'a "string set" "(string \<times> string) list option" "string option" principal
      "string option"
  | Approved int string "principal option" bool
  | Matched int string "string set" principal
  | Released int string "string set" principal

fun send_step :: "int \<Rightarrow> 'a send_op \<Rightarrow> 'a sends \<Rightarrow> 'a pending_send option \<times> 'a sends" where
  "send_step ttl (Captured now tool args recips anchor lane req sess) reg =
     (None, capture ttl now tool args recips anchor lane req sess reg)"
| "send_step ttl (Approved now source approver sole) reg =
     (None, snd (approve ttl now source approver sole reg))"
| "send_step ttl (Matched now tool recips turn) reg = (None, prune ttl now reg)"
| "send_step ttl (Released now tool recips turn) reg = take_for_send ttl now tool recips turn reg"

text \<open>The register after a history, oldest operation first, and what was released.\<close>

fun send_run :: "int \<Rightarrow> 'a send_op list \<Rightarrow> 'a sends \<Rightarrow> 'a pending_send list \<times> 'a sends" where
  "send_run ttl [] reg = ([], reg)"
| "send_run ttl (x # xs) reg =
     (case send_step ttl x reg of
        (res, reg') \<Rightarrow>
          (case send_run ttl xs reg' of
             (out, reg'') \<Rightarrow> ((case res of None \<Rightarrow> out | Some r \<Rightarrow> r # out), reg'')))"

section \<open>One question per approver\<close>

definition one_each :: "'a sends \<Rightarrow> bool" where
  "one_each reg \<longleftrightarrow> sorted_wrt (\<lambda>a b. \<not> overlaps (p_requester a) (p_requester b)) reg"

lemma overlaps_sym: "overlaps a b \<longleftrightarrow> overlaps b a"
  by (auto simp: overlaps_def)

lemma one_each_filter: "one_each reg \<Longrightarrow> one_each (filter P reg)"
  by (simp add: one_each_def sorted_wrt_filter)

lemma one_each_rev: "one_each (rev reg) \<longleftrightarrow> one_each reg"
  by (simp add: one_each_def sorted_wrt_rev overlaps_sym)

lemma requesters_approve_first:
  "map p_requester (snd (approve_first source approver sole rs)) = map p_requester rs"
  by (induction rs) (auto simp: Let_def split: prod.splits)

lemma one_each_requesters: "one_each reg \<longleftrightarrow> sorted_wrt (\<lambda>a b. \<not> overlaps a b) (map p_requester reg)"
  by (simp add: one_each_def sorted_wrt_map)

lemma drop_first_filter: "sorted_wrt R xs \<Longrightarrow> sorted_wrt R (drop_first P xs)"
proof (induction xs)
  case (Cons x xs)
  have "set (drop_first P xs) \<subseteq> set xs" by (induction xs) auto
  then show ?case using Cons by auto
qed simp

lemma one_each_step: "one_each reg \<Longrightarrow> one_each (snd (send_step ttl x reg))"
proof (cases x)
  case (Captured now tool args recips anchor lane req sess)
  then show "one_each reg \<Longrightarrow> ?thesis"
    by (simp add: one_each_def capture_def prune_def sorted_wrt_append sorted_wrt_filter)
next
  case (Approved now source approver sole)
  assume "one_each reg"
  then have "one_each (live ttl now reg)" by (simp add: live_def one_each_rev prune_def one_each_filter)
  then have "one_each (snd (approve_first source approver sole (live ttl now reg)))"
    by (simp add: one_each_requesters requesters_approve_first)
  then show ?thesis
    using Approved by (simp add: approve_def one_each_rev case_prod_unfold)
next
  case (Matched now tool recips turn)
  then show "one_each reg \<Longrightarrow> ?thesis" by (simp add: prune_def one_each_filter)
next
  case (Released now tool recips turn)
  assume "one_each reg"
  then have "one_each (live ttl now reg)" by (simp add: live_def one_each_rev prune_def one_each_filter)
  then have "one_each (drop_first (releasable tool recips turn) (live ttl now reg))"
    unfolding one_each_def by (rule drop_first_filter)
  then show ?thesis using Released by (simp add: take_for_send_def one_each_rev)
qed

lemma one_each_run: "one_each reg \<Longrightarrow> one_each (snd (send_run ttl xs reg))"
proof (induction xs arbitrary: reg)
  case (Cons x xs)
  then show ?case using one_each_step [OF Cons.prems, of ttl x] by (simp add: case_prod_unfold)
qed simp

lemma approver_of_two:
  assumes "may_approve a approver False" "may_approve b approver False"
  shows "overlaps a b"
  using assms
  by (auto simp: may_approve_def same_chat_def overlaps_def split: if_splits option.splits)

section \<open>Where a released payload comes from\<close>

definition comes_from :: "int \<Rightarrow> 'a send_op set \<Rightarrow> 'a pending_send \<Rightarrow> bool" where
  "comes_from ttl past r \<longleftrightarrow>
     Captured (p_created r) (p_tool r) (p_args r) (p_recipients r) (p_anchor r) (p_lane r)
       (p_requester r) (p_session r) \<in> past \<and>
     (p_approved r \<longrightarrow> (\<exists>t source approver sole. Approved t source approver sole \<in> past \<and>
        p_source r = Some source \<and> t - p_created r \<le> ttl \<and>
        may_approve (p_requester r) approver sole))"

lemma comes_from_mono: "comes_from ttl past r \<Longrightarrow> past \<subseteq> past' \<Longrightarrow> comes_from ttl past' r"
  unfolding comes_from_def by blast

lemma approve_first_from:
  assumes "\<forall>r \<in> set rs. comes_from ttl past r \<and> now - p_created r \<le> ttl"
    and "Approved now source approver sole \<in> past"
  shows "\<forall>r \<in> set (snd (approve_first source approver sole rs)). comes_from ttl past r"
  using assms(1)
proof (induction rs)
  case (Cons r rs)
  show ?case
  proof (cases "may_approve (p_requester r) approver sole")
    case True
    then have "comes_from ttl past (r\<lparr>p_approved := True, p_source := Some source\<rparr>)"
      using Cons.prems assms(2) by (fastforce simp: comes_from_def)
    then show ?thesis using True Cons.prems by (simp add: Let_def)
  next
    case False
    then show ?thesis using Cons by (simp split: prod.splits)
  qed
qed simp

lemma set_drop_first: "set (drop_first P xs) \<subseteq> set xs"
  by (induction xs) auto

lemma send_step_from:
  assumes "\<forall>r \<in> set reg. comes_from ttl past r"
  shows "\<forall>r \<in> set (snd (send_step ttl x reg)). comes_from ttl (insert x past) r"
proof -
  have later: "\<forall>r \<in> set reg. comes_from ttl (insert x past) r"
  proof
    fix r assume "r \<in> set reg"
    then show "comes_from ttl (insert x past) r"
      by (intro comes_from_mono [OF bspec [OF assms]] subset_insertI)
  qed
  then have alive: "\<forall>r \<in> set (live ttl now reg). comes_from ttl (insert x past) r \<and> now - p_created r \<le> ttl"
    for now by (simp add: live_def prune_def expired_def)
  show ?thesis
  proof (cases x)
    case (Captured now tool args recips anchor lane req sess)
    then have "comes_from ttl (insert x past)
        \<lparr>p_tool = tool, p_args = args, p_recipients = recips, p_created = now, p_approved = False,
         p_source = None, p_anchor = anchor, p_lane = lane, p_requester = req, p_session = sess\<rparr>"
      by (simp add: comes_from_def)
    then show ?thesis using Captured later by (simp add: capture_def prune_def)
  next
    case (Approved now source approver sole)
    have "\<forall>r \<in> set (snd (approve_first source approver sole (live ttl now reg))).
        comes_from ttl (insert x past) r"
      by (rule approve_first_from [OF alive]) (simp add: Approved)
    then show ?thesis using Approved by (simp add: approve_def case_prod_unfold)
  next
    case (Matched now tool recips turn)
    then show ?thesis using later by (simp add: prune_def)
  next
    case (Released now tool recips turn)
    have "\<forall>r \<in> set (drop_first (releasable tool recips turn) (live ttl now reg)).
        comes_from ttl (insert x past) r"
    proof
      fix r assume "r \<in> set (drop_first (releasable tool recips turn) (live ttl now reg))"
      then have "r \<in> set (live ttl now reg)" by (rule subsetD [OF set_drop_first])
      then show "comes_from ttl (insert x past) r" using alive by blast
    qed
    then show ?thesis using Released by (simp add: take_for_send_def)
  qed
qed

lemma send_run_from:
  assumes "\<forall>r \<in> set reg. comes_from ttl past r"
  shows "\<forall>r \<in> set (snd (send_run ttl xs reg)). comes_from ttl (past \<union> set xs) r"
  using assms
proof (induction xs arbitrary: reg past)
  case (Cons x xs)
  from Cons.IH [OF send_step_from [OF Cons.prems]] show ?case by (simp add: case_prod_unfold)
qed simp

lemma find_member: "find P xs = Some x \<Longrightarrow> x \<in> set xs \<and> P x"
  by (induction xs) (auto split: if_splits)

section \<open>Each capture is released at most once\<close>

definition as_captured :: "'a pending_send \<Rightarrow> 'a pending_send" where
  "as_captured r = r\<lparr>p_approved := False, p_source := None\<rparr>"

fun captures :: "'a send_op list \<Rightarrow> 'a pending_send list" where
  "captures [] = []"
| "captures (Captured now tool args recips anchor lane req sess # xs) =
     \<lparr>p_tool = tool, p_args = args, p_recipients = recips, p_created = now, p_approved = False,
      p_source = None, p_anchor = anchor, p_lane = lane, p_requester = req, p_session = sess\<rparr> #
     captures xs"
| "captures (Approved now source approver sole # xs) = captures xs"
| "captures (Matched now tool recips turn # xs) = captures xs"
| "captures (Released now tool recips turn # xs) = captures xs"

abbreviation sheets :: "'a sends \<Rightarrow> 'a pending_send multiset" where
  "sheets reg \<equiv> image_mset as_captured (mset reg)"

lemma sheets_filter: "sheets (filter P reg) \<subseteq># sheets reg"
  by (simp add: image_mset_subseteq_mono)

lemma sheets_live: "sheets (live ttl now reg) \<subseteq># sheets reg"
  by (simp add: live_def prune_def image_mset_subseteq_mono)

lemma sheets_approve_first:
  "sheets (snd (approve_first source approver sole rs)) = sheets rs"
  by (induction rs) (simp_all add: Let_def as_captured_def case_prod_unfold)

lemma mset_drop_first: "find P xs = Some x \<Longrightarrow> add_mset x (mset (drop_first P xs)) = mset xs"
  by (induction xs) (auto split: if_splits)

lemma drop_first_none: "find P xs = None \<Longrightarrow> drop_first P xs = xs"
  by (induction xs) (auto split: if_splits)

lemma step_sheets:
  "image_mset as_captured (mset (case fst (send_step ttl x reg) of None \<Rightarrow> [] | Some r \<Rightarrow> [r])) +
     sheets (snd (send_step ttl x reg)) \<subseteq># sheets reg + mset (captures [x])"
proof (cases x)
  case (Captured now tool args recips anchor lane req sess)
  have "sheets (filter (\<lambda>r. \<not> overlaps (p_requester r) req) (prune ttl now reg)) \<subseteq># sheets reg"
    using sheets_filter [of "\<lambda>r. \<not> overlaps (p_requester r) req" "prune ttl now reg"]
      sheets_filter [of _ reg]
    by (simp only: prune_def) (rule subset_mset.order_trans)
  then show ?thesis using Captured by (simp add: capture_def as_captured_def)
next
  case (Approved now source approver sole)
  then show ?thesis
    using sheets_live [of ttl now reg]
    by (simp add: approve_def case_prod_unfold sheets_approve_first)
next
  case (Matched now tool recips turn)
  then show ?thesis using sheets_filter [of _ reg] by (simp add: prune_def)
next
  case (Released now tool recips turn)
  show ?thesis
  proof (cases "find (releasable tool recips turn) (live ttl now reg)")
    case None
    then show ?thesis
      using Released sheets_live [of ttl now reg]
      by (simp add: take_for_send_def approved_match_def drop_first_none)
  next
    case (Some r)
    then have "image_mset as_captured (add_mset r (mset (drop_first (releasable tool recips turn)
        (live ttl now reg)))) = sheets (live ttl now reg)"
      using mset_drop_first by metis
    then show ?thesis
      using Released Some sheets_live [of ttl now reg]
      by (simp add: take_for_send_def approved_match_def)
  qed
qed

lemma captures_Cons: "captures (x # xs) = captures [x] @ captures xs"
  by (cases x) simp_all

lemma run_sheets:
  "image_mset as_captured (mset (fst (send_run ttl xs reg))) + sheets (snd (send_run ttl xs reg))
     \<subseteq># sheets reg + mset (captures xs)"
proof (induction xs arbitrary: reg)
  case (Cons x xs)
  define reg' where "reg' = snd (send_step ttl x reg)"
  define one where "one = image_mset as_captured
    (mset (case fst (send_step ttl x reg) of None \<Rightarrow> [] | Some r \<Rightarrow> [r]))"
  have out: "image_mset as_captured (mset (fst (send_run ttl (x # xs) reg))) =
      one + image_mset as_captured (mset (fst (send_run ttl xs reg')))"
    by (simp add: one_def reg'_def case_prod_unfold split: option.split)
  have left: "snd (send_run ttl (x # xs) reg) = snd (send_run ttl xs reg')"
    by (simp add: reg'_def case_prod_unfold)
  have "one + sheets reg' \<subseteq># sheets reg + mset (captures [x])"
    unfolding one_def reg'_def by (rule step_sheets)
  then have "one + (sheets reg' + mset (captures xs)) \<subseteq># sheets reg + mset (captures (x # xs))"
    using mset_subset_eq_mono_add_right_cancel [of "one + sheets reg'" "mset (captures xs)"]
    by (simp add: captures_Cons [of x xs] add.assoc)
  moreover have "one + (image_mset as_captured (mset (fst (send_run ttl xs reg'))) +
      sheets (snd (send_run ttl xs reg'))) \<subseteq># one + (sheets reg' + mset (captures xs))"
    using Cons.IH [of reg'] by simp
  ultimately show ?case unfolding out left add.assoc by (rule subset_mset.order_trans [rotated])
qed simp

text \<open>Pruning first changes nothing at the same instant.\<close>

lemma prune_prune [simp]: "prune ttl now (prune ttl now reg) = prune ttl now reg"
  by (simp add: prune_def)

lemma take_for_send_prune [simp]:
  "take_for_send ttl now tool recips turn (prune ttl now reg) = take_for_send ttl now tool recips turn reg"
  by (simp add: take_for_send_def approved_match_def live_def)

lemma take_for_send_match [simp]:
  "fst (take_for_send ttl now tool recips turn reg) = approved_match ttl now tool recips turn reg"
  by (simp add: take_for_send_def)

section \<open>Properties\<close>

text \<open>on a seat with several principals, after any history of captures, approvals and
  releases, an approver who may approve one outstanding send may approve no other: a bare "yes"
  means one thing.\<close>

theorem a_yes_means_one_send:
  assumes "reg = snd (send_run ttl xs [])" "i < j" "j < length reg"
    and "may_approve (p_requester (reg ! i)) approver False"
  shows "\<not> may_approve (p_requester (reg ! j)) approver False"
proof
  assume "may_approve (p_requester (reg ! j)) approver False"
  then have "overlaps (p_requester (reg ! i)) (p_requester (reg ! j))"
    using assms(4) by (intro approver_of_two)
  moreover have "one_each reg" unfolding assms(1) by (rule one_each_run) (simp add: one_each_def)
  ultimately show False using assms(2,3) by (simp add: one_each_def sorted_wrt_iff_nth_less)
qed

definition partner :: "string \<Rightarrow> string \<Rightarrow> principal" where
  "partner u c = \<lparr>pr_platform = ''telegram'', pr_user = u, pr_chat = c, pr_chat_type = []\<rparr>"

definition two_partners :: "nat send_op list" where
  "two_partners =
     [Captured 0 ''send'' 1 {''a@x''} None None (partner ''7'' ''7'') None,
      Captured 5 ''send'' 2 {''b@x''} None None (partner ''8'' ''8'') None]"

lemma a_yes_means_one_send_witness:
  "\<not> may_approve (p_requester (snd (send_run TTL two_partners []) ! 1)) (Some (partner ''7'' ''7''))
     False"
  by (rule a_yes_means_one_send [OF refl, of 0])
    (simp_all add: two_partners_def capture_def prune_def expired_def TTL_def overlaps_def
       partner_def may_approve_def same_chat_def)

text \<open>a send that is released was captured with exactly the payload, recipients, anchor and
  requester it is released with; someone entitled to approve it did so while it was live; and it
  answers the call that releases it: same tool, same recipients, a turn that may spend it, in time.\<close>

theorem released_send_was_captured_and_approved:
  assumes "reg = snd (send_run ttl xs [])"
    and "fst (take_for_send ttl now tool recips turn reg) = Some r"
  shows "as_captured r \<in> set (captures xs) \<and>
    (\<exists>t source approver sole. Approved t source approver sole \<in> set xs \<and>
       p_source r = Some source \<and> t - p_created r \<le> ttl \<and>
       may_approve (p_requester r) approver sole) \<and>
    p_tool r = tool \<and> p_recipients r = recips \<and> may_consume (p_requester r) turn \<and>
    now - p_created r \<le> ttl"
proof (intro conjI)
  have r: "r \<in> set (live ttl now reg)" "releasable tool recips turn r"
    using find_member [OF assms(2) [unfolded take_for_send_def approved_match_def fst_conv]]
    by simp_all
  then have "r \<in> set reg" by (simp add: live_def prune_def)
  then have "as_captured r \<in># sheets reg" by simp
  moreover have "sheets reg \<subseteq># mset (captures xs)"
    using subset_mset.order_trans [OF mset_subset_eq_add_right run_sheets [of ttl xs "[]"]] assms(1)
    by simp
  ultimately have "as_captured r \<in># mset (captures xs)" by (rule mset_subset_eqD [rotated])
  then show "as_captured r \<in> set (captures xs)" by simp
  have "comes_from ttl ({} \<union> set xs) r"
    using send_run_from [of "[]" ttl "{}" xs] \<open>r \<in> set reg\<close> assms(1) by simp
  then show "\<exists>t source approver sole. Approved t source approver sole \<in> set xs \<and>
      p_source r = Some source \<and> t - p_created r \<le> ttl \<and> may_approve (p_requester r) approver sole"
    using r(2) by (simp add: comes_from_def releasable_def)
  show "p_tool r = tool" "p_recipients r = recips" "may_consume (p_requester r) turn"
    "now - p_created r \<le> ttl"
    using r by (simp_all add: releasable_def live_def prune_def expired_def)
qed

lemma released_send_was_captured_and_approved_witness:
  "\<exists>r. fst (take_for_send TTL 9 ''send'' {''a@x''} (partner ''7'' ''7'')
        (snd (send_run TTL (two_partners @ [Approved 7 ''telegram:7'' (Some (partner ''7'' ''7'')) False])
           []))) = Some r \<and> p_args r = 1 \<and>
     as_captured r \<in> set (captures
       (two_partners @ [Approved 7 ''telegram:7'' (Some (partner ''7'' ''7'')) False]))"
proof -
  define r :: "nat pending_send" where
    "r = \<lparr>p_tool = ''send'', p_args = 1, p_recipients = {''a@x''}, p_created = 0,
          p_approved = True, p_source = Some ''telegram:7'', p_anchor = None, p_lane = None,
          p_requester = partner ''7'' ''7'', p_session = None\<rparr>"
  have taken: "fst (take_for_send TTL 9 ''send'' {''a@x''} (partner ''7'' ''7'')
      (snd (send_run TTL (two_partners @ [Approved 7 ''telegram:7'' (Some (partner ''7'' ''7'')) False])
         []))) = Some r"
    by (simp add: r_def two_partners_def capture_def prune_def expired_def TTL_def overlaps_def
        partner_def may_approve_def same_chat_def approve_def live_def take_for_send_def
        approved_match_def releasable_def may_consume_def Let_def)
  from released_send_was_captured_and_approved [OF refl taken] taken show ?thesis
    by (auto simp: r_def)
qed

text \<open>C5: whatever the history, the released sends are a sub-multiset of the captured ones: no
  approval lets one withheld send go out twice.\<close>

theorem each_capture_is_released_once:
  "image_mset as_captured (mset (fst (send_run ttl xs []))) \<subseteq># mset (captures xs)"
  using subset_mset.order_trans [OF mset_subset_eq_add_left run_sheets [of ttl xs "[]"]] by simp

definition dm_and_routine :: "nat send_op list" where
  "dm_and_routine =
     [Captured 0 ''send'' 1 {''a@x''} None None (partner ''7'' ''7'') None,
      Captured 5 ''send'' 2 {''b@x''} None None (partner [] ''42'') None]"

text \<open>with one principal on the seat, a send raised in a direct message and one raised by a
  routine into a group are both outstanding and both approvable by the same reply, which goes to
  the newer one: the records do not all overlap there.\<close>

theorem sole_principal_can_have_two_outstanding:
  "length (snd (send_run TTL dm_and_routine [])) = 2 \<and>
   list_all (\<lambda>r. may_approve (p_requester r) (Some (partner ''7'' ''7'')) True)
     (snd (send_run TTL dm_and_routine [])) \<and>
   map_option p_args (fst (approve TTL 9 ''telegram:7'' (Some (partner ''7'' ''7'')) True
     (snd (send_run TTL dm_and_routine [])))) = Some 2"
  by (simp_all add: dm_and_routine_def capture_def prune_def expired_def TTL_def overlaps_def
      partner_def may_approve_def same_chat_def approve_def live_def Let_def)

text \<open>the register still reports a withheld send as outstanding after it expired, when
  nothing can approve or release it any more.\<close>

theorem peek_reports_an_expired_send:
  assumes "later > now + ttl"
  shows "peek (capture ttl now tool args recips anchor lane req sess []) \<noteq> None \<and>
     live ttl later (capture ttl now tool args recips anchor lane req sess []) = []"
  using assms
  by (simp_all add: peek_def capture_def prune_def live_def expired_def)

lemma peek_reports_an_expired_send_witness:
  "live TTL (TTL + 1) (capture TTL 0 ''send'' (1 :: nat) {} None None UNBOUND None []) = []"
  by (rule conjunct2 [OF peek_reports_an_expired_send]) simp

end
