(* ===== verification/Pending_Acts.thy ===== *)
theory Pending_Acts
  imports Stores Trust_Ceiling "HOL-Library.Multiset"
begin

text \<open>
  The commitment half of read-back and confirm: the payload vocabulary of the acts
  (\<open>shared/act_broker.py\<close>) and the session-keyed register of the one outstanding act
  (\<open>shared/pending_acts.py\<close>). Times are microseconds. A session id that is not a
  non-empty string is written as the empty one. The broker behind its socket is not here:
  the trust gate takes its answers as parameters.
\<close>

section \<open>Payloads\<close>

definition ACT_PAYLOAD_KEYS :: "(string \<times> string list) list" where
  "ACT_PAYLOAD_KEYS =
     [(''mcp_smokeball_create_matter'',
       [''description'', ''matter_type_id'', ''client_contact_id'', ''number'',
        ''client_contact_name'', ''matter_type_name'']),
      (''mcp_smokeball_delete_events'', [''events'']),
      (''mcp_smokeball_place_records_order'', [''order''])]"

definition ACT_ARG_KEYS :: "(string \<times> string list) list" where
  "ACT_ARG_KEYS =
     [(''mcp_smokeball_create_matter'',
       [''description'', ''matter_type_id'', ''client_contact_id'', ''number'']),
      (''mcp_smokeball_delete_events'', [''events'']),
      (''mcp_smokeball_place_records_order'', [''order''])]"

definition ACT_REQUIRED_KEYS :: "(string \<times> string list) list" where
  "ACT_REQUIRED_KEYS =
     [(''mcp_smokeball_create_matter'', [''description'', ''matter_type_id'', ''client_contact_id'']),
      (''mcp_smokeball_delete_events'', [''events'']),
      (''mcp_smokeball_place_records_order'', [''order''])]"

text \<open>\<open>d.get(tool, ())\<close>\<close>

definition keys_for :: "(string \<times> string list) list \<Rightarrow> string \<Rightarrow> string list" where
  "keys_for table tool = (case map_of table tool of None \<Rightarrow> [] | Some ks \<Rightarrow> ks)"

definition tool_arguments :: "string \<Rightarrow> pydict \<Rightarrow> pydict" where
  "tool_arguments tool payload =
     filter (\<lambda>(k, v). k \<in> set (keys_for ACT_ARG_KEYS tool)) payload"

definition is_act_tool :: "string \<Rightarrow> bool" where
  "is_act_tool tool \<longleftrightarrow> map_of ACT_PAYLOAD_KEYS tool \<noteq> None"

text \<open>The entries of \<open>keys\<close> whose value in the mapping passes the test, in the order of \<open>keys\<close>.\<close>

definition project :: "(pyval \<Rightarrow> bool) \<Rightarrow> string list \<Rightarrow> pydict \<Rightarrow> pydict" where
  "project ok ks d = map (\<lambda>k. (k, dget d k)) (filter (\<lambda>k. ok (dget d k)) ks)"

definition complete :: "string \<Rightarrow> pydict \<Rightarrow> bool" where
  "complete tool payload \<longleftrightarrow> set (keys_for ACT_REQUIRED_KEYS tool) \<subseteq> fst ` set payload"

text \<open>The arguments of the withheld call; a value that is not a mapping has no payload.\<close>

definition call_payload :: "string \<Rightarrow> pydict option \<Rightarrow> pydict option" where
  "call_payload tool args =
     (case args of
        None \<Rightarrow> None
      | Some d \<Rightarrow>
          if \<not> is_call_payload_act tool then None
          else (let payload = project truthy (keys_for ACT_PAYLOAD_KEYS tool) d in
                if complete tool payload then Some payload else None))"

section \<open>The register\<close>

definition FAILED_STATUSES :: "string list" where
  "FAILED_STATUSES =
     [''error'', ''errored'', ''failed'', ''failure'', ''refused'', ''blocked'', ''denied'']"

definition tool_call_failed :: "pyval \<Rightarrow> pyval \<Rightarrow> bool" where
  "tool_call_failed status error_type \<longleftrightarrow>
     (case status of PStr s \<Rightarrow> normalized s \<in> set FAILED_STATUSES | _ \<Rightarrow> False) \<or>
     (case error_type of PStr s \<Rightarrow> normalized s \<notin> {[], ''none'', ''null''} | _ \<Rightarrow> False)"

record confirmed_act =
  ca_proposal :: string
  ca_tool :: string
  ca_payload :: pydict
  ca_instructed_by :: string
  ca_confirmed_by :: string
  ca_message :: string
  ca_at :: int

record pending_act =
  pa_proposal :: string
  pa_tool :: string
  pa_readback :: string
  pa_created :: int
  pa_delivered :: bool
  pa_confirmed :: "confirmed_act option"
  pa_in_flight :: bool

type_synonym acts = "(string, pending_act) odict"

definition ACT_TTL :: int where
  "ACT_TTL = 600 * 1000000"

definition max_act_sessions :: nat where
  "max_act_sessions = 64"

text \<open>Every read drops the session's record when it has expired and makes a live one recent.\<close>

definition live_act :: "int \<Rightarrow> int \<Rightarrow> string \<Rightarrow> acts \<Rightarrow> pending_act option \<times> acts" where
  "live_act ttl now sid reg =
     (if sid = [] then (None, reg)
      else case odict_get reg sid of
             None \<Rightarrow> (None, reg)
           | Some r \<Rightarrow>
               if now - pa_created r > ttl then (None, odict_pop sid reg)
               else (Some r, odict_touch sid reg))"

definition has_open :: "int \<Rightarrow> int \<Rightarrow> string \<Rightarrow> acts \<Rightarrow> bool \<times> acts" where
  "has_open ttl now sid reg = (case live_act ttl now sid reg of (r, reg') \<Rightarrow> (r \<noteq> None, reg'))"

definition note_proposed ::
  "int \<Rightarrow> nat \<Rightarrow> int \<Rightarrow> string \<Rightarrow> string \<Rightarrow> string \<Rightarrow> string \<Rightarrow> acts \<Rightarrow> bool \<times> acts" where
  "note_proposed ttl cap now sid proposal tool readback reg =
     (if sid = [] then (False, reg)
      else if proposal = [] \<or> tool = [] \<or> readback = [] then (False, reg)
      else case has_open ttl now sid reg of
             (busy, reg') \<Rightarrow>
               if busy then (False, reg')
               else (True, odict_put cap sid
                       \<lparr>pa_proposal = proposal, pa_tool = tool, pa_readback = readback,
                        pa_created = now, pa_delivered = False, pa_confirmed = None,
                        pa_in_flight = False\<rparr> reg'))"

definition proposed :: "int \<Rightarrow> int \<Rightarrow> string \<Rightarrow> acts \<Rightarrow> string list \<times> acts" where
  "proposed ttl now sid reg =
     (case live_act ttl now sid reg of
        (Some r, reg') \<Rightarrow>
          (if pa_delivered r \<or> pa_confirmed r \<noteq> None then [] else [pa_readback r], reg')
      | (None, reg') \<Rightarrow> ([], reg'))"

definition mark_delivered ::
  "int \<Rightarrow> nat \<Rightarrow> int \<Rightarrow> string \<Rightarrow> string \<Rightarrow> acts \<Rightarrow> bool \<times> acts" where
  "mark_delivered ttl cap now sid readback reg =
     (case live_act ttl now sid reg of
        (Some r, reg') \<Rightarrow>
          if pa_readback r \<noteq> readback then (False, reg')
          else (True, odict_put cap sid (r\<lparr>pa_delivered := True\<rparr>) reg')
      | (None, reg') \<Rightarrow> (False, reg'))"

definition mark_confirmed ::
  "int \<Rightarrow> nat \<Rightarrow> int \<Rightarrow> string \<Rightarrow> confirmed_act \<Rightarrow> acts \<Rightarrow> bool \<times> acts" where
  "mark_confirmed ttl cap now sid a reg =
     (if sid = [] \<or> ca_proposal a = [] \<or> ca_tool a = [] then (False, reg)
      else
        case (case live_act ttl now sid reg of
                (Some r, reg') \<Rightarrow> (r, reg')
              | (None, reg') \<Rightarrow>
                  (let r = \<lparr>pa_proposal = ca_proposal a, pa_tool = ca_tool a, pa_readback = [],
                            pa_created = now, pa_delivered = True, pa_confirmed = None,
                            pa_in_flight = False\<rparr>
                   in (r, odict_put cap sid r reg'))) of
          (r, reg') \<Rightarrow>
            if pa_proposal r \<noteq> ca_proposal a \<or> pa_tool r \<noteq> ca_tool a then (False, reg')
            else if pa_confirmed r \<noteq> None \<or> pa_in_flight r then (False, reg')
            else (True, odict_put cap sid (r\<lparr>pa_confirmed := Some a\<rparr>) reg'))"

text \<open>The confirmed act of this record for this tool, if it is still an approval.\<close>

definition approval_for :: "string \<Rightarrow> pending_act option \<Rightarrow> confirmed_act option" where
  "approval_for tool rec =
     (case rec of
        None \<Rightarrow> None
      | Some r \<Rightarrow> if pa_in_flight r \<or> pa_tool r \<noteq> tool then None else pa_confirmed r)"

definition peek_confirmed ::
  "int \<Rightarrow> int \<Rightarrow> string \<Rightarrow> string \<Rightarrow> acts \<Rightarrow> confirmed_act option \<times> acts" where
  "peek_confirmed ttl now sid tool reg =
     (case live_act ttl now sid reg of (r, reg') \<Rightarrow> (approval_for tool r, reg'))"

definition take_in_flight ::
  "int \<Rightarrow> nat \<Rightarrow> int \<Rightarrow> string \<Rightarrow> string \<Rightarrow> acts \<Rightarrow> confirmed_act option \<times> acts" where
  "take_in_flight ttl cap now sid tool reg =
     (case peek_confirmed ttl now sid tool reg of
        (None, reg') \<Rightarrow> (None, reg')
      | (Some a, reg') \<Rightarrow>
          (Some a,
           case odict_get reg' sid of
             None \<Rightarrow> reg'
           | Some r \<Rightarrow> odict_put cap sid (r\<lparr>pa_in_flight := True\<rparr>) reg'))"

definition finish_act ::
  "int \<Rightarrow> int \<Rightarrow> string \<Rightarrow> string \<Rightarrow> acts \<Rightarrow> confirmed_act option \<times> acts" where
  "finish_act ttl now sid tool reg =
     (case live_act ttl now sid reg of
        (Some r, reg') \<Rightarrow>
          if \<not> pa_in_flight r \<or> pa_confirmed r = None \<or> pa_tool r \<noteq> tool then (None, reg')
          else (pa_confirmed r, odict_pop sid reg')
      | (None, reg') \<Rightarrow> (None, reg'))"

definition peek_act :: "int \<Rightarrow> int \<Rightarrow> string \<Rightarrow> acts \<Rightarrow> pending_act option \<times> acts" where
  "peek_act = live_act"

definition clear_act :: "string option \<Rightarrow> acts \<Rightarrow> acts" where
  "clear_act sid reg = (case sid of None \<Rightarrow> empty_odict | Some s \<Rightarrow> odict_pop s reg)"

section \<open>Runs\<close>

datatype act_op =
    Proposal int string string string string
  | Delivery int string string
  | Confirmation int string confirmed_act
  | Execution int string string
  | Outcome int string string
  | Looked int string
  | Dropped "string option"

fun act_step :: "int \<Rightarrow> nat \<Rightarrow> act_op \<Rightarrow> acts \<Rightarrow> acts" where
  "act_step ttl cap (Proposal now sid proposal tool readback) reg =
     snd (note_proposed ttl cap now sid proposal tool readback reg)"
| "act_step ttl cap (Delivery now sid readback) reg = snd (mark_delivered ttl cap now sid readback reg)"
| "act_step ttl cap (Confirmation now sid a) reg = snd (mark_confirmed ttl cap now sid a reg)"
| "act_step ttl cap (Execution now sid tool) reg = snd (take_in_flight ttl cap now sid tool reg)"
| "act_step ttl cap (Outcome now sid tool) reg = snd (finish_act ttl now sid tool reg)"
| "act_step ttl cap (Looked now sid) reg = snd (live_act ttl now sid reg)"
| "act_step ttl cap (Dropped sid) reg = clear_act sid reg"

text \<open>What one operation executes in a session, and which confirmation it accepts there.\<close>

fun executed_now :: "int \<Rightarrow> nat \<Rightarrow> string \<Rightarrow> act_op \<Rightarrow> acts \<Rightarrow> confirmed_act list" where
  "executed_now ttl cap s (Execution now sid tool) reg =
     (if sid = s then (case fst (take_in_flight ttl cap now sid tool reg) of None \<Rightarrow> [] | Some a \<Rightarrow> [a])
      else [])"
| "executed_now ttl cap s x reg = []"

fun confirmed_now :: "int \<Rightarrow> nat \<Rightarrow> string \<Rightarrow> act_op \<Rightarrow> acts \<Rightarrow> confirmed_act list" where
  "confirmed_now ttl cap s (Confirmation now sid a) reg =
     (if sid = s \<and> fst (mark_confirmed ttl cap now sid a reg) then [a] else [])"
| "confirmed_now ttl cap s x reg = []"

fun executions :: "int \<Rightarrow> nat \<Rightarrow> string \<Rightarrow> act_op list \<Rightarrow> acts \<Rightarrow> confirmed_act list" where
  "executions ttl cap s [] reg = []"
| "executions ttl cap s (x # xs) reg =
     executed_now ttl cap s x reg @ executions ttl cap s xs (act_step ttl cap x reg)"

fun confirmations :: "int \<Rightarrow> nat \<Rightarrow> string \<Rightarrow> act_op list \<Rightarrow> acts \<Rightarrow> confirmed_act list" where
  "confirmations ttl cap s [] reg = []"
| "confirmations ttl cap s (x # xs) reg =
     confirmed_now ttl cap s x reg @ confirmations ttl cap s xs (act_step ttl cap x reg)"

text \<open>The approval a session still holds.\<close>

definition unspent :: "pending_act option \<Rightarrow> confirmed_act multiset" where
  "unspent rec =
     (case rec of
        None \<Rightarrow> {#}
      | Some r \<Rightarrow> if pa_in_flight r then {#}
                  else (case pa_confirmed r of None \<Rightarrow> {#} | Some a \<Rightarrow> {#a#}))"

lemma unspent_simps [simp]:
  "unspent None = {#}"
  "unspent (Some r) = (if pa_in_flight r then {#}
     else (case pa_confirmed r of None \<Rightarrow> {#} | Some a \<Rightarrow> {#a#}))"
  by (simp_all add: unspent_def)

text \<open>The record a session holds after a read.\<close>

definition alive :: "int \<Rightarrow> int \<Rightarrow> pending_act option \<Rightarrow> pending_act option" where
  "alive ttl now rec =
     (case rec of None \<Rightarrow> None | Some r \<Rightarrow> if now - pa_created r > ttl then None else Some r)"

lemma live_act_fst: "fst (live_act ttl now sid reg) = (if sid = [] then None else alive ttl now (odict_get reg sid))"
  by (simp add: live_act_def alive_def split: option.split)

lemma live_act_get:
  "odict_get (snd (live_act ttl now sid reg)) s =
     (if s = sid \<and> sid \<noteq> [] then alive ttl now (odict_get reg s) else odict_get reg s)"
  by (simp add: live_act_def alive_def split: option.split)

lemmas act_op_defs = note_proposed_def has_open_def mark_delivered_def mark_confirmed_def
  take_in_flight_def peek_confirmed_def finish_act_def clear_act_def

text \<open>An operation on one session can make another lose its record, never change it.\<close>

definition fades :: "string \<Rightarrow> acts \<Rightarrow> acts \<Rightarrow> bool" where
  "fades s reg reg' \<longleftrightarrow> odict_get reg' s = odict_get reg s \<or> odict_get reg' s = None"

lemma fades_refl [simp]: "fades s reg reg"
  by (simp add: fades_def)

lemma fades_put [simp]: "s \<noteq> sid \<Longrightarrow> fades s reg reg' \<Longrightarrow> fades s reg (odict_put cap sid r reg')"
  using od.get_put_other [of s sid cap r reg'] unfolding fades_def by metis

lemma fades_pop [simp]: "s \<noteq> sid \<Longrightarrow> fades s reg reg' \<Longrightarrow> fades s reg (odict_pop sid reg')"
  by (simp add: fades_def)

lemma fades_live [simp]: "s \<noteq> sid \<Longrightarrow> fades s reg (snd (live_act ttl now sid reg))"
  by (simp add: fades_def live_act_get)

fun act_session :: "act_op \<Rightarrow> string option" where
  "act_session (Proposal now sid proposal tool readback) = Some sid"
| "act_session (Delivery now sid readback) = Some sid"
| "act_session (Confirmation now sid a) = Some sid"
| "act_session (Execution now sid tool) = Some sid"
| "act_session (Outcome now sid tool) = Some sid"
| "act_session (Looked now sid) = Some sid"
| "act_session (Dropped sid) = sid"

lemma act_step_other:
  assumes "act_session x \<noteq> Some s"
  shows "fades s reg (act_step ttl cap x reg)"
proof (cases x)
  case (Dropped sid)
  then show ?thesis using assms by (cases sid) (simp_all add: clear_act_def fades_def)
qed (use assms in \<open>auto simp: act_op_defs case_prod_unfold Let_def split: option.split\<close>)

lemma unspent_alive: "unspent (alive ttl now rec) \<subseteq># unspent rec"
  by (simp add: alive_def split: option.split)

lemma step_spends:
  assumes "0 < cap" "act_session x = Some s"
  shows "mset (executed_now ttl cap s x reg) + unspent (odict_get (act_step ttl cap x reg) s) \<subseteq>#
    unspent (odict_get reg s) + mset (confirmed_now ttl cap s x reg)"
proof (cases "s = []")
  case True
  then show ?thesis
    using assms(2)
    by (cases x) (simp_all add: act_op_defs live_act_def case_prod_unfold approval_for_def)
next
  case s: False
  have put [simp]: "odict_get (odict_put cap s r reg') s = Some r" for r reg'
    by (rule od.get_put_same [OF assms(1)])
  note live = live_act_fst live_act_get
  show ?thesis
  proof (cases x)
    case (Confirmation now sid a)
    then show ?thesis
      using assms(2) s unspent_alive [of ttl now "odict_get reg s"]
      by (auto simp: act_op_defs case_prod_unfold live Let_def alive_def split: option.split if_splits)
  next
    case (Execution now sid tool)
    then show ?thesis
      using assms(2) s unspent_alive [of ttl now "odict_get reg s"]
      by (auto simp: act_op_defs case_prod_unfold live approval_for_def alive_def
          split: option.split if_splits)
  next
    case (Dropped sid)
    then show ?thesis using assms(2) by (simp add: clear_act_def)
  qed (use assms(2) s in \<open>auto simp: act_op_defs case_prod_unfold live Let_def alive_def
         split: option.split if_splits\<close>)
qed

lemma step_other_spends:
  assumes "act_session x \<noteq> Some s"
  shows "unspent (odict_get (act_step ttl cap x reg) s) \<subseteq># unspent (odict_get reg s)"
    and "executed_now ttl cap s x reg = []"
proof -
  show "unspent (odict_get (act_step ttl cap x reg) s) \<subseteq># unspent (odict_get reg s)"
    using act_step_other [OF assms, of reg ttl cap] by (auto simp: fades_def)
  show "executed_now ttl cap s x reg = []" using assms by (cases x) simp_all
qed

lemma step_account:
  assumes "0 < cap"
  shows "mset (executed_now ttl cap s x reg) + unspent (odict_get (act_step ttl cap x reg) s) \<subseteq>#
    unspent (odict_get reg s) + mset (confirmed_now ttl cap s x reg)"
proof (cases "act_session x = Some s")
  case False
  then show ?thesis
    using step_other_spends [OF False] by (simp add: subset_mset.add_increasing2)
qed (rule step_spends [OF assms])

lemma run_account:
  assumes "0 < cap"
  shows "mset (executions ttl cap s xs reg) \<subseteq>#
    unspent (odict_get reg s) + mset (confirmations ttl cap s xs reg)"
proof (induction xs arbitrary: reg)
  case (Cons x xs)
  let ?reg = "act_step ttl cap x reg" and ?done = "mset (executed_now ttl cap s x reg)"
  have "mset (executions ttl cap s (x # xs) reg) \<subseteq>#
      ?done + (unspent (odict_get ?reg s) + mset (confirmations ttl cap s xs ?reg))"
    using Cons.IH [of ?reg] by simp
  also have "\<dots> \<subseteq># (unspent (odict_get reg s) + mset (confirmed_now ttl cap s x reg)) +
      mset (confirmations ttl cap s xs ?reg)"
    using step_account [OF assms, of ttl s x reg] by (simp add: add.assoc [symmetric])
  finally show ?case by (simp add: add.assoc)
qed simp

text \<open>Looking twice at one instant changes nothing; a spent approval is none.\<close>

lemma alive_alive [simp]: "alive ttl now (alive ttl now rec) = alive ttl now rec"
  by (simp add: alive_def split: option.split)

lemma peek_again:
  "fst (peek_confirmed ttl now sid tool (snd (peek_confirmed ttl now sid tool' reg))) =
     fst (peek_confirmed ttl now sid tool reg)"
  by (simp add: peek_confirmed_def case_prod_unfold live_act_fst live_act_get)

lemma peek_sid: "fst (peek_confirmed ttl now sid tool reg) = Some a \<Longrightarrow> sid \<noteq> []"
  by (auto simp: peek_confirmed_def case_prod_unfold live_act_fst approval_for_def split: if_splits)

lemma take_spends:
  assumes "0 < cap" "fst (peek_confirmed ttl now sid tool reg) = Some a"
  shows "fst (peek_confirmed ttl later sid tool' (snd (take_in_flight ttl cap now sid tool reg))) = None"
proof -
  have put [simp]: "odict_get (odict_put cap sid r reg') sid = Some r" for r reg'
    by (rule od.get_put_same [OF assms(1)])
  obtain r where r: "odict_get (snd (peek_confirmed ttl now sid tool reg)) sid = Some r"
    using assms(2) peek_sid [OF assms(2)]
    by (auto simp: peek_confirmed_def case_prod_unfold live_act_fst live_act_get approval_for_def
        split: option.splits)
  have "odict_get (snd (take_in_flight ttl cap now sid tool reg)) sid = Some (r\<lparr>pa_in_flight := True\<rparr>)"
    using r assms(2) by (simp add: take_in_flight_def case_prod_unfold split: option.split)
  then show ?thesis
    by (simp add: peek_confirmed_def case_prod_unfold live_act_fst alive_def approval_for_def)
qed

section \<open>Properties\<close>

text \<open>C6: whatever proposals, deliveries, confirmations, executions, outcomes, reads and drops
  happen in whatever sessions, the acts a session executes are a sub-multiset of the
  confirmations it accepted: each runs with the confirmed payload, and none runs twice.\<close>

theorem each_confirmation_executes_once:
  assumes "0 < cap"
  shows "mset (executions ttl cap s xs empty_odict) \<subseteq># mset (confirmations ttl cap s xs empty_odict)"
  using run_account [OF assms, of ttl s xs empty_odict] by simp

definition yes :: "string \<Rightarrow> confirmed_act" where
  "yes proposal =
     \<lparr>ca_proposal = proposal, ca_tool = ''mcp_smokeball_create_matter'', ca_payload = [],
      ca_instructed_by = ''a@firm'', ca_confirmed_by = ''a@firm'', ca_message = ''m1'', ca_at = 3\<rparr>"

lemma each_confirmation_executes_once_witness:
  "mset (executions ACT_TTL max_act_sessions ''s''
     [Confirmation 1 ''s'' (yes ''p''), Execution 2 ''s'' ''mcp_smokeball_create_matter'',
      Execution 3 ''s'' ''mcp_smokeball_create_matter''] empty_odict) \<subseteq>#
   mset (confirmations ACT_TTL max_act_sessions ''s''
     [Confirmation 1 ''s'' (yes ''p''), Execution 2 ''s'' ''mcp_smokeball_create_matter'',
      Execution 3 ''s'' ''mcp_smokeball_create_matter''] empty_odict)"
  by (rule each_confirmation_executes_once) (simp add: max_act_sessions_def)

text \<open>an act the administrator was asked about stays the one they are answering. While a
  session's record is live no proposal is recorded there and no confirmation of another proposal
  or tool is accepted; both leave the record as it was.\<close>

theorem open_act_is_not_superseded:
  assumes "odict_get reg sid = Some r" "now - pa_created r \<le> ttl" "sid \<noteq> []"
    and "ca_proposal a \<noteq> pa_proposal r \<or> ca_tool a \<noteq> pa_tool r"
  shows "\<not> fst (note_proposed ttl cap now sid proposal tool readback reg) \<and>
    odict_get (snd (note_proposed ttl cap now sid proposal tool readback reg)) sid = Some r \<and>
    \<not> fst (mark_confirmed ttl cap now sid a reg) \<and>
    odict_get (snd (mark_confirmed ttl cap now sid a reg)) sid = Some r"
proof -
  have live: "live_act ttl now sid reg = (Some r, odict_touch sid reg)"
    using assms(1-3) by (simp add: live_act_def)
  show ?thesis using assms(1,4) by (auto simp: note_proposed_def has_open_def mark_confirmed_def live)
qed

definition asked :: pending_act where
  "asked = \<lparr>pa_proposal = ''p'', pa_tool = ''mcp_smokeball_create_matter'', pa_readback = ''line'',
     pa_created = 1, pa_delivered = True, pa_confirmed = None, pa_in_flight = False\<rparr>"

lemma asked_get: "odict_get (odict_put max_act_sessions ''s'' asked empty_odict) ''s'' = Some asked"
  by (rule od.get_put_same) (simp add: max_act_sessions_def)

lemma open_act_is_not_superseded_witness:
  "\<not> fst (mark_confirmed ACT_TTL max_act_sessions 2 ''s'' (yes ''q'')
     (odict_put max_act_sessions ''s'' asked empty_odict))"
proof -
  have "2 - pa_created asked \<le> ACT_TTL" "''s'' \<noteq> []"
    "ca_proposal (yes ''q'') \<noteq> pa_proposal asked \<or> ca_tool (yes ''q'') \<noteq> pa_tool asked"
    by (simp_all add: ACT_TTL_def yes_def asked_def)
  from open_act_is_not_superseded [OF asked_get this] show ?thesis by blast
qed

text \<open>a confirmation that is accepted buys exactly one execution. Until the record expires
  the session's next call of that tool receives the confirmed act, and after it no call does.\<close>

theorem confirmation_buys_one_execution:
  assumes "0 < cap" "mark_confirmed ttl cap t0 sid a reg = (True, reg1)"
    and "odict_get reg1 sid = Some r" "now - pa_created r \<le> ttl"
    and "take_in_flight ttl cap now sid (ca_tool a) reg1 = (res, reg2)"
  shows "res = Some a \<and> fst (take_in_flight ttl cap later sid tool reg2) = None"
proof -
  have sid: "sid \<noteq> []" using assms(2) by (auto simp: mark_confirmed_def)
  have put [simp]: "odict_get (odict_put cap sid r' reg') sid = Some r'" for r' reg'
    by (rule od.get_put_same [OF assms(1)])
  have r: "pa_confirmed r = Some a" "pa_tool r = ca_tool a" "\<not> pa_in_flight r"
    using assms(2,3) by (auto simp: mark_confirmed_def case_prod_unfold Let_def split: if_splits option.splits)
  have live: "live_act ttl now sid reg1 = (Some r, odict_touch sid reg1)"
    using assms(3,4) sid by (simp add: live_act_def)
  have res: "res = Some a" "odict_get reg2 sid = Some (r\<lparr>pa_in_flight := True\<rparr>)"
    using assms(3,5) r by (auto simp: take_in_flight_def peek_confirmed_def live approval_for_def)
  have "fst (peek_confirmed ttl later sid tool reg2) = None"
    by (simp add: peek_confirmed_def case_prod_unfold live_act_fst res(2) alive_def approval_for_def)
  then show ?thesis using res(1) by (simp add: take_in_flight_def case_prod_unfold split: option.split)
qed

lemma confirmation_buys_one_execution_witness:
  "fst (take_in_flight ACT_TTL max_act_sessions 5 ''s'' (ca_tool (yes ''p''))
     (snd (mark_confirmed ACT_TTL max_act_sessions 2 ''s'' (yes ''p'') empty_odict))) = Some (yes ''p'')"
proof -
  have cap: "0 < max_act_sessions" by (simp add: max_act_sessions_def)
  have put [simp]: "odict_get (odict_put max_act_sessions k r d) k = Some r"
    for k r and d :: acts by (rule od.get_put_same [OF cap])
  let ?m = "mark_confirmed ACT_TTL max_act_sessions 2 ''s'' (yes ''p'') empty_odict"
  have m: "fst ?m" "odict_get (snd ?m) ''s'' =
      Some \<lparr>pa_proposal = ''p'', pa_tool = ca_tool (yes ''p''), pa_readback = [], pa_created = 2,
            pa_delivered = True, pa_confirmed = Some (yes ''p''), pa_in_flight = False\<rparr>"
    by (simp_all add: mark_confirmed_def live_act_def yes_def Let_def)
  have "fst (take_in_flight ACT_TTL max_act_sessions 5 ''s'' (ca_tool (yes ''p'')) (snd ?m)) = Some (yes ''p'')"
    using confirmation_buys_one_execution [OF cap, of ACT_TTL 2 "''s''" "yes ''p''" empty_odict "snd ?m",
        OF _ m(2), of 5 "fst (take_in_flight ACT_TTL max_act_sessions 5 ''s'' (ca_tool (yes ''p'')) (snd ?m))"
        "snd (take_in_flight ACT_TTL max_act_sessions 5 ''s'' (ca_tool (yes ''p'')) (snd ?m))"] m(1)
    by (simp add: ACT_TTL_def prod_eq_iff)
  then show ?thesis .
qed

text \<open>the register knows a proposal only by session, so the same proposal answered twice, each
  answer opening a session of its own, is confirmed and executed in both.\<close>

theorem same_proposal_runs_in_two_sessions:
  "executions ACT_TTL max_act_sessions ''s1''
     [Confirmation 1 ''s1'' (yes ''p''), Confirmation 2 ''s2'' (yes ''p''),
      Execution 3 ''s1'' (ca_tool (yes ''p'')), Execution 4 ''s2'' (ca_tool (yes ''p''))]
     empty_odict = [yes ''p''] \<and>
   executions ACT_TTL max_act_sessions ''s2''
     [Confirmation 1 ''s1'' (yes ''p''), Confirmation 2 ''s2'' (yes ''p''),
      Execution 3 ''s1'' (ca_tool (yes ''p'')), Execution 4 ''s2'' (ca_tool (yes ''p''))]
     empty_odict = [yes ''p'']"
  by code_simp

end
