(* ===== verification/Trust_Gate.thy ===== *)
theory Trust_Gate
  imports Exposure_Override Recipients Session_Registers Trust_Register Pending_Send Pending_Acts
    "HOL-Library.Char_ord" "HOL-Library.List_Lexorder"
begin

text \<open>
  The pre-call hook of the trust gate (\<open>plugins/hermes-smd-trust/enforce.py\<close>,
  \<open>_evaluate_tool_call\<close>) and the helpers it calls, over the registers of the other theories.
  A call reads the clock once. The gates of other modules (matter mixing, read volume,
  staff send-as, matter identity, message structure, content, voice, authored spec) are a
  record of functions of exactly what the hook hands them; a gate that raises is read as one
  that blocks, as the hook's outer handler turns the fault into a block. The broker that
  mints proposals is a parameter too. A block is a constructor with the values its message
  is made of. Log lines are left out.
\<close>

section \<open>The environment of a call\<close>

datatype broker_answer = Broker_Down | Broker_Refused string | Broker_Proposed string string

datatype volume = Within | Reported string | Over string

record gates =
  mixing :: "string \<Rightarrow> string \<Rightarrow> pydict \<Rightarrow> string option"
  read_volume :: "string \<Rightarrow> string \<Rightarrow> volume"
  send_as_requested :: "string \<Rightarrow> pydict \<Rightarrow> bool"
  send_as_propose :: "string \<Rightarrow> pydict \<Rightarrow> string \<Rightarrow> string \<Rightarrow> string"
  mismatch :: "string \<Rightarrow> pydict \<Rightarrow> string set \<Rightarrow> bool \<Rightarrow> (string list \<times> string) option"
  mismatch_blocks :: bool
  multi_matter :: "string \<Rightarrow> string list"
  multi_matter_blocks :: bool
  structure_floor :: "string \<Rightarrow> string \<Rightarrow> string \<Rightarrow> string \<Rightarrow> string option \<Rightarrow> bool \<Rightarrow> string option"
  classify_content :: "string option \<Rightarrow> py_exn + string list option"
  voice_gate :: "string \<Rightarrow> string \<Rightarrow> string \<Rightarrow> string option"
  spec_gate :: "string \<Rightarrow> string \<Rightarrow> string \<Rightarrow> string option \<Rightarrow> bool \<Rightarrow> string option"

record world =
  w_now :: int
  w_config :: config_file
  w_overrides :: override_store
  w_customer :: string
  w_persona :: string
  w_vertical :: string
  w_session_env :: "string \<Rightarrow> string"
  w_parse :: "string \<Rightarrow> string"
  w_str :: "pyval \<Rightarrow> string"
  w_taint :: taint
  w_drafts :: draft_registry
  w_origins :: origins
  w_anchor :: "string \<Rightarrow> (string \<times> string) list option \<times> string option"
  w_broker :: "string \<Rightarrow> pydict \<Rightarrow> string \<Rightarrow> string \<Rightarrow> string \<Rightarrow> broker_answer"
  w_gates :: gates

text \<open>The decision handed to the audit row (\<open>shared/trust_decision.py\<close>).\<close>

record trust_decision =
  td_class :: string
  td_audit :: audit_action
  td_allowed :: bool
  td_authored :: "ceiling option"
  td_floor :: "ceiling option"
  td_effective :: "ceiling option"
  td_persona :: string
  td_reason :: string
  td_match :: string
  td_session :: string

text \<open>What a call can change; \<open>g_replayed\<close> is what \<open>send_anchor.note_replay\<close> was told.\<close>

record 't gate_state =
  g_sends :: "pydict sends"
  g_acts :: acts
  g_rows :: "('t, trust_decision) register"
  g_replayed :: "((string \<times> string) list option \<times> string option \<times> string set) list"

record 't tool_call =
  tc_thread :: 't
  tc_tool :: string
  tc_session :: string
  tc_id :: string
  tc_match :: string
  tc_code_fixed :: bool

datatype block =
    Fault_Block
  | Banned_Block string
  | Mixing_Block string
  | Volume_Block string
  | Unavailable_Block action_class
  | Refused_Block string
  | Send_As_Block string
  | Act_Origin_Block
  | Act_Open_Block
  | Act_No_Payload_Block string
  | Act_Not_Authored_Block
  | Act_Unreachable_Block
  | Act_Refused_Block string
  | Act_No_Sentence_Block
  | Act_Withheld_Block string
  | Mismatch_Block "string list" string
  | Multi_Matter_Block "string list"
  | Structure_Block string
  | Unscanned_Block
  | Content_Block "string list"
  | Voice_Block string
  | Spec_Block string

section \<open>Helpers\<close>

definition BANNED_REFUSAL_MESSAGE :: "(string \<times> string) list" where
  "BANNED_REFUSAL_MESSAGE =
     [(''email_send'', ''autonomous email send is forbidden (ADR 0035)''),
      (''email_send_message'', ''autonomous email send is forbidden (ADR 0005)''),
      (''email_reply'', ''autonomous email reply is forbidden (ADR 0005)''),
      (''email_reply_all'', ''autonomous email reply-all is forbidden (ADR 0005)''),
      (''email_forward'', ''autonomous email forward is forbidden (ADR 0005)''),
      (''sms_send'', ''autonomous SMS send is forbidden (ADR 0005)''),
      (''sms_send_message'', ''autonomous SMS send is forbidden (ADR 0005)''),
      (''payments_initiate_transfer'', ''autonomous money movement is forbidden''),
      (''payments_send_payment'', ''autonomous money movement is forbidden''),
      (''payments_refund'', ''autonomous money movement is forbidden''),
      (''payments_authorize_charge'', ''autonomous money movement is forbidden''),
      (''payments_void_authorization'', ''autonomous money movement is forbidden''),
      (''calendar_delete_event'', ''calendar event deletion is forbidden''),
      (''practice_management_delete_matter'', ''matter deletion is forbidden''),
      (''practice_management_close_matter_permanent'', ''permanent matter close is forbidden''),
      (''connector_revoke_oauth'', ''connector OAuth revocation is forbidden''),
      (''connector_unbind_permanent'', ''permanent connector unbind is forbidden'')]"

text \<open>\<open>str(v)\<close>; \<open>other\<close> is the text of a value that is not a string, an integer or a constant.\<close>

definition py_str :: "(pyval \<Rightarrow> string) \<Rightarrow> pyval \<Rightarrow> string" where
  "py_str other v =
     (case v of
        PStr s \<Rightarrow> s | PNone \<Rightarrow> ''None'' | PBool b \<Rightarrow> (if b then ''True'' else ''False'')
      | PInt i \<Rightarrow> show_int i | _ \<Rightarrow> other v)"

definition resolve_vertical :: "world \<Rightarrow> py_exn + string" where
  "resolve_vertical w =
     (case w_config w of
        Missing_File \<Rightarrow> Inr (w_vertical w)
      | Faulty_File \<Rightarrow> Inl (ConfigError ''customer.yaml unreadable'')
      | Document d \<Rightarrow>
          (let v = (case map_of d ''vertical'' of None \<Rightarrow> [] | Some x \<Rightarrow> py_str (w_str w) x)
           in Inr (if v = [] then w_vertical w else v)))"

text \<open>The enum-keyed floors; the shared table holds no malformed entry.\<close>

definition derive_vertical_floors :: "(string \<times> (string \<times> string) list) list \<Rightarrow> (string \<times> exposure) list"
  where "derive_vertical_floors table =
     map (\<lambda>(v, fs). (v, List.map_filter
       (\<lambda>(a, c). case (class_of a, ceiling_of c) of (Some a', Some c') \<Rightarrow> Some (a', c') | _ \<Rightarrow> None) fs))
     table"

definition resolve_vertical_floors :: "world \<Rightarrow> py_exn + exposure" where
  "resolve_vertical_floors w =
     map_sum id (\<lambda>v. case map_of (derive_vertical_floors VERTICAL_FLOORS) v of None \<Rightarrow> [] | Some f \<Rightarrow> f)
       (resolve_vertical w)"

definition resolve_current_turn_approval :: "pydict \<Rightarrow> bool" where
  "resolve_current_turn_approval args = truthy (dget args ''_current_turn_approval'')"

definition SEND_BODY_ARG_KEYS :: "string list" where
  "SEND_BODY_ARG_KEYS =
     [''subject'', ''text'', ''html'', ''html_body'', ''body'', ''body_plain'', ''body_text'',
      ''content'', ''message'']"

definition body_part :: "(pyval \<Rightarrow> string) \<Rightarrow> pyval \<Rightarrow> string list" where
  "body_part other v =
     (case v of
        PStr s \<Rightarrow> if strip s = [] then [] else [s]
      | PNone \<Rightarrow> []
      | PDict _ \<Rightarrow> []
      | PList _ \<Rightarrow> []
      | _ \<Rightarrow> if strip (py_str other v) = [] then [] else [strip (py_str other v)])"

definition extract_send_body :: "(pyval \<Rightarrow> string) \<Rightarrow> pydict \<Rightarrow> string option" where
  "extract_send_body other args =
     (let parts = concat (map (\<lambda>k. body_part other (dget args k)) SEND_BODY_ARG_KEYS)
      in if parts = [] then None else Some (join [char_of (10 :: nat)] parts))"

definition apply_content_floor :: "world \<Rightarrow> pydict \<Rightarrow> block option" where
  "apply_content_floor w args =
     (case classify_content (w_gates w) (extract_send_body (w_str w) args) of
        Inl _ \<Rightarrow> Some Unscanned_Block
      | Inr None \<Rightarrow> None
      | Inr (Some cats) \<Rightarrow> Some (Content_Block cats))"

section \<open>Recipients of a send\<close>

definition roster_from :: "config_file \<Rightarrow> (pydict \<Rightarrow> py_exn + 'a list) \<Rightarrow> py_exn + 'a list" where
  "roster_from cfg read =
     (case cfg of
        Missing_File \<Rightarrow> Inr []
      | Faulty_File \<Rightarrow> Inl (ConfigError ''customer.yaml unreadable'')
      | Document d \<Rightarrow> read d)"

definition resolve_roster :: "config_file \<Rightarrow> py_exn + string list" where
  "resolve_roster cfg = roster_from cfg inbound_roster"

definition resolve_typed_roster :: "config_file \<Rightarrow> py_exn + (string \<times> string) list" where
  "resolve_typed_roster cfg = roster_from cfg outbound_roster"

fun class_action :: "recipient_class \<Rightarrow> action_class" where
  "class_action INTERNAL = EXTERNAL_SEND_INTERNAL"
| "class_action CLIENT = EXTERNAL_SEND_CLIENT"
| "class_action VENDOR = EXTERNAL_SEND_VENDOR"
| "class_action OUTSIDE = EXTERNAL_SEND"
| "class_action UNKNOWN = EXTERNAL_SEND"

definition reclassify_send ::
  "world \<Rightarrow> string \<Rightarrow> pydict \<Rightarrow> action_class \<Rightarrow> string \<Rightarrow> bool \<Rightarrow> py_exn + action_class" where
  "reclassify_send w tool args base sid tainted =
     (if base \<noteq> EXTERNAL_SEND \<or> tool \<notin> set CLASSIFIED_SEND_TOOLS then Inr base
      else case send_recipients (w_parse w) (w_drafts w) tool args sid of
             None \<Rightarrow> Inr EXTERNAL_SEND
           | Some recips \<Rightarrow>
               if recips = {} then Inr EXTERNAL_SEND
               else (case resolve_roster (w_config w) of
                       Inl e \<Rightarrow> Inl e
                     | Inr internal \<Rightarrow>
                         (case resolve_typed_roster (w_config w) of
                            Inl e \<Rightarrow> Inl e
                          | Inr typed \<Rightarrow>
                              Inr (class_action (classify_recipients_typed
                                     (sorted_list_of_set recips) internal typed tainted)))))"

definition taint_gate_input :: "string \<Rightarrow> action_class \<Rightarrow> bool \<Rightarrow> string" where
  "taint_gate_input session_taint effective code_fixed =
     (if code_fixed \<and> effective = EXTERNAL_SEND_INTERNAL then TRUST_CLASS_INTERNAL else session_taint)"

definition resolve_send_recipients :: "world \<Rightarrow> string \<Rightarrow> pydict \<Rightarrow> string \<Rightarrow> string set" where
  "resolve_send_recipients w tool args sid =
     (case send_recipients (w_parse w) (w_drafts w) tool args sid of None \<Rightarrow> {} | Some r \<Rightarrow> r)"

text \<open>The class of a send for a reader that does not enforce, or nothing.\<close>

definition resolved_send_class :: "world \<Rightarrow> string \<Rightarrow> pydict \<Rightarrow> string \<Rightarrow> bool \<Rightarrow> action_class option" where
  "resolved_send_class w tool args sid code_fixed =
     (case classify_tool tool of
        Inl _ \<Rightarrow> None
      | Inr c \<Rightarrow>
          if c_class c \<noteq> EXTERNAL_SEND then None
          else (case reclassify_send w tool args (c_class c) sid
                       (is_tainted (w_taint w) sid \<and> \<not> code_fixed) of
                  Inl _ \<Rightarrow> None
                | Inr a \<Rightarrow> Some a))"

section \<open>Proposing a commitment\<close>

definition resolve_admin_origin :: "world \<Rightarrow> string \<Rightarrow> (string \<times> string) option" where
  "resolve_admin_origin w sid =
     (case get_origin sid (w_origins w) of
        None \<Rightarrow> None
      | Some orig \<Rightarrow>
          (let sender = normalized (or_sender orig) in
           if sender = [] then None
           else case w_config w of
                  Document d \<Rightarrow> if sender_is_admin d (PStr sender) then Some (sender, or_message_id orig) else None
                | _ \<Rightarrow> None))"

definition filled :: "pyval \<Rightarrow> bool" where
  "filled v = (case v of PStr s \<Rightarrow> strip s \<noteq> [] | _ \<Rightarrow> False)"

definition resolve_authored_act :: "config_file \<Rightarrow> string \<Rightarrow> pydict option" where
  "resolve_authored_act cfg tool =
     (if keys_for ACT_PAYLOAD_KEYS tool = [] then None
      else case cfg of
             Document d \<Rightarrow>
               (case sub (sub (dget d ''self_initiation'') ''document_library'') ''operator_matter'' of
                  PDict authored \<Rightarrow>
                    (let payload = project filled (keys_for ACT_PAYLOAD_KEYS tool) authored in
                     if complete tool payload then Some payload else None)
                | _ \<Rightarrow> None)
           | _ \<Rightarrow> None)"

definition propose_commitment_act ::
  "world \<Rightarrow> string \<Rightarrow> string \<Rightarrow> pydict \<Rightarrow> 't gate_state \<Rightarrow> block \<times> 't gate_state" where
  "propose_commitment_act w tool sid args st =
     (case resolve_admin_origin w sid of
        None \<Rightarrow> (Act_Origin_Block, st)
      | Some (sender, message_id) \<Rightarrow>
          if peek (g_sends st) \<noteq> None then (Act_Open_Block, st)
          else case has_open ACT_TTL (w_now w) sid (g_acts st) of
            (busy, acts') \<Rightarrow>
              (let st' = st\<lparr>g_acts := acts'\<rparr> in
               if busy then (Act_Open_Block, st')
               else case (if is_call_payload_act tool then call_payload tool (Some args)
                          else resolve_authored_act (w_config w) tool) of
                 None \<Rightarrow> (if is_call_payload_act tool then Act_No_Payload_Block tool
                          else Act_Not_Authored_Block, st')
               | Some payload \<Rightarrow>
                   (case w_broker w tool payload sender message_id sid of
                      Broker_Down \<Rightarrow> (Act_Unreachable_Block, st')
                    | Broker_Refused why \<Rightarrow> (Act_Refused_Block why, st')
                    | Broker_Proposed proposal readback \<Rightarrow>
                        if readback = [] \<or> proposal = [] then (Act_No_Sentence_Block, st')
                        else (Act_Withheld_Block readback,
                              st'\<lparr>g_acts := snd (note_proposed ACT_TTL max_act_sessions (w_now w) sid
                                     proposal tool readback acts')\<rparr>))))"

section \<open>Deciding a call\<close>

definition call_row ::
  "world \<Rightarrow> 't tool_call \<Rightarrow> string \<Rightarrow> audit_action \<Rightarrow> bool \<Rightarrow> string \<Rightarrow> ceiling option \<Rightarrow> trust_decision"
  where "call_row w c cls audit ok why effective =
     \<lparr>td_class = cls, td_audit = audit, td_allowed = ok, td_authored = None, td_floor = None,
      td_effective = effective, td_persona = w_persona w, td_reason = why,
      td_match = tc_match c, td_session = tc_session c\<rparr>"

definition decision_row :: "world \<Rightarrow> 't tool_call \<Rightarrow> decision \<Rightarrow> string \<Rightarrow> trust_decision" where
  "decision_row w c d why =
     \<lparr>td_class = class_value (d_class d), td_audit = d_audit d, td_allowed = d_allowed d,
      td_authored = d_authored d, td_floor = d_floor d, td_effective = d_effective d,
      td_persona = w_persona w, td_reason = why, td_match = tc_match c, td_session = tc_session c\<rparr>"

definition note_row :: "'t tool_call \<Rightarrow> trust_decision \<Rightarrow> 't gate_state \<Rightarrow> 't gate_state" where
  "note_row c d st =
     st\<lparr>g_rows := record_decision max_calls (tc_thread c) (tc_id c) (tc_tool c) d (g_rows st)\<rparr>"

definition SEND_CLASSES :: "action_class set" where
  "SEND_CLASSES =
     {EXTERNAL_SEND, EXTERNAL_SEND_INTERNAL, EXTERNAL_SEND_CLIENT, EXTERNAL_SEND_VENDOR}"

definition OUTWARD_CLASSES :: "action_class set" where
  "OUTWARD_CLASSES = {EXTERNAL_SEND, EXTERNAL_SEND_CLIENT, EXTERNAL_SEND_VENDOR}"

text \<open>What the guarded part of the hook works out: the class, and which approval is replayed.\<close>

record resolved =
  r_class :: action_class
  r_send_as :: bool
  r_recips :: "string set"
  r_confirmed :: "confirmed_act option"
  r_replay :: bool
  r_decision :: decision

definition r_is_send :: "resolved \<Rightarrow> bool" where
  "r_is_send r \<longleftrightarrow> r_class r \<in> SEND_CLASSES"

definition is_commitment :: "string \<Rightarrow> action_class \<Rightarrow> bool" where
  "is_commitment tool cls \<longleftrightarrow> cls = COMMITMENT \<or> (cls = DESTRUCTIVE \<and> is_call_payload_act tool)"

definition effective_class ::
  "world \<Rightarrow> 't tool_call \<Rightarrow> action_class \<Rightarrow> pydict \<Rightarrow> py_exn + action_class" where
  "effective_class w c base args =
     (if send_as_requested (w_gates w) (tc_tool c) args then Inr EXTERNAL_SEND_AS_STAFF
      else reclassify_send w (tc_tool c) args base (tc_session c)
             (is_tainted (w_taint w) (tc_session c) \<and> \<not> tc_code_fixed c))"

definition TAINT_EXEMPT_NOTE :: "string \<Rightarrow> string" where
  "TAINT_EXEMPT_NOTE taint = '' | TAINT_EXEMPT: code_fixed_recipients (turn trust_class='' @ taint @
     ''; recipients fixed by the pre_run envelope, Captain decision 2026-09-28)''"

text \<open>
  The stored payloads are replayed over the live arguments before the policy decides: a
  matching approved send first, then a confirmed act of this session and tool.
\<close>

definition decide_call ::
  "world \<Rightarrow> 't tool_call \<Rightarrow> exposure \<Rightarrow> exposure \<Rightarrow> action_class \<Rightarrow> pydict \<Rightarrow> 't gate_state \<Rightarrow>
   resolved \<times> pydict \<times> 't gate_state" where
  "decide_call w c expo floors cls args st =
     (let taint = trust_class (w_taint w) (tc_session c);
          gate_taint = taint_gate_input taint cls (tc_code_fixed c);
          recips = (if cls \<in> SEND_CLASSES
                    then resolve_send_recipients w (tc_tool c) args (tc_session c) else {});
          turn = current (w_session_env w);
          stored = (if recips = {} then None
                    else approved_match TTL (w_now w) (tc_tool c) recips turn (g_sends st));
          sends1 = (if recips = {} then g_sends st else prune TTL (w_now w) (g_sends st));
          args1 = (case stored of None \<Rightarrow> args | Some rec \<Rightarrow> p_args rec);
          looked = (if is_commitment (tc_tool c) cls
                    then peek_confirmed ACT_TTL (w_now w) (tc_session c) (tc_tool c) (g_acts st)
                    else (None, g_acts st));
          confirmed = fst looked;
          args2 = (case confirmed of None \<Rightarrow> args1
                   | Some a \<Rightarrow> tool_arguments (tc_tool c) (ca_payload a));
          replay = (stored \<noteq> None \<or> confirmed \<noteq> None);
          d = enforce cls expo (tc_tool c) (replay \<or> resolve_current_turn_approval args2) floors gate_taint;
          d' = (if gate_taint = taint then d
                else d\<lparr>d_reason := d_reason d @ TAINT_EXEMPT_NOTE taint\<rparr>)
      in (\<lparr>r_class = cls, r_send_as = send_as_requested (w_gates w) (tc_tool c) args,
           r_recips = recips, r_confirmed = confirmed, r_replay = replay, r_decision = d'\<rparr>,
          args2, st\<lparr>g_sends := sends1, g_acts := snd looked\<rparr>))"

definition resolve_call ::
  "world \<Rightarrow> 't tool_call \<Rightarrow> action_class \<Rightarrow> pydict \<Rightarrow> 't gate_state \<Rightarrow>
   py_exn + resolved \<times> pydict \<times> 't gate_state" where
  "resolve_call w c base args st =
     (case resolve_persona_exposure (w_config w) (w_customer w) (w_overrides w) (w_persona w) of
        Inl e \<Rightarrow> Inl e
      | Inr expo \<Rightarrow>
          (case resolve_vertical_floors w of
             Inl e \<Rightarrow> Inl e
           | Inr floors \<Rightarrow>
               (case effective_class w c base args of
                  Inl e \<Rightarrow> Inl e
                | Inr cls \<Rightarrow> Inr (decide_call w c expo floors cls args st))))"

section \<open>After the decision\<close>

text \<open>A send withheld at the confirm ceiling is captured with its requester, anchor and session.\<close>

definition capture_withheld ::
  "world \<Rightarrow> 't tool_call \<Rightarrow> resolved \<Rightarrow> pydict \<Rightarrow> 't gate_state \<Rightarrow> 't gate_state" where
  "capture_withheld w c r args st =
     (if r_is_send r \<and> r_recips r \<noteq> {} \<and> d_audit (r_decision r) = Audit_Await
      then st\<lparr>g_sends := capture TTL (w_now w) (tc_tool c) args (r_recips r)
                 (fst (w_anchor w (tc_session c))) (snd (w_anchor w (tc_session c)))
                 (requester_of_turn (w_session_env w))
                 (if tc_session c = [] then None else Some (tc_session c)) (g_sends st)\<rparr>
      else st)"

text \<open>Matter identity and mixing: one re-record with every fragment that applies.\<close>

definition matter_checks ::
  "world \<Rightarrow> 't tool_call \<Rightarrow> resolved \<Rightarrow> pydict \<Rightarrow> 't gate_state \<Rightarrow> block option \<times> 't gate_state" where
  "matter_checks w c r args st =
     (if r_class r \<notin> OUTWARD_CLASSES then (None, st)
      else
        let g = w_gates w; d = r_decision r;
            found = mismatch g (tc_session c) args (r_recips r) (r_class r = EXTERNAL_SEND_VENDOR);
            withholds = (found \<noteq> None \<and> mismatch_blocks g);
            multi = multi_matter g (tc_session c);
            fragments =
              (case found of Some (_, why) \<Rightarrow> if withholds then ['' | MATTER_MISMATCH: '' @ why] else []
               | None \<Rightarrow> []) @
              (if multi = [] then []
               else ['' | MULTI_MATTER_SESSION: session read content from '' @ show_nat (length multi) @
                     '' matters ('' @ join '', '' multi @ '')''])
        in if withholds \<and> d_allowed d
           then (map_option (\<lambda>(ms, why). Mismatch_Block ms why) found, st)
           else if multi \<noteq> [] \<and> d_allowed d \<and> multi_matter_blocks g
           then (Some (Multi_Matter_Block multi), st)
           else (None, if fragments = [] then st
                       else note_row c (decision_row w c d (d_reason d @ concat fragments)) st))"

definition later_checks :: "world \<Rightarrow> 't tool_call \<Rightarrow> resolved \<Rightarrow> pydict \<Rightarrow> block option" where
  "later_checks w c r args =
     (let g = w_gates w; d = r_decision r; cls = class_value (r_class r);
          sid = tc_session c; tool = tc_tool c; body = extract_send_body (w_str w) args;
          outward = (d_allowed d \<and> r_class r \<in> OUTWARD_CLASSES);
          alone = (d_effective d = Some AUTONOMOUS)
      in case (if r_is_send r then structure_floor g tool cls sid (tc_id c) body (d_allowed d) else None) of
           Some m \<Rightarrow> Some (Structure_Block m)
         | None \<Rightarrow>
             (case (if outward then apply_content_floor w args else None) of
                Some b \<Rightarrow> Some b
              | None \<Rightarrow>
                  (case (if outward \<and> alone then voice_gate g tool cls sid else None) of
                     Some m \<Rightarrow> Some (Voice_Block m)
                   | None \<Rightarrow>
                       (case (if d_allowed d \<and> alone
                              then spec_gate g tool cls sid body (truthy (dget args ''_smd_templated_body''))
                              else None) of
                          Some m \<Rightarrow> Some (Spec_Block m)
                        | None \<Rightarrow> if d_allowed d then None else Some (Refused_Block (d_reason d))))))"

text \<open>The approval is spent once the call has cleared every gate of the hook.\<close>

definition spend ::
  "world \<Rightarrow> 't tool_call \<Rightarrow> resolved \<Rightarrow> 't gate_state \<Rightarrow> 't gate_state" where
  "spend w c r st =
     (let st1 =
        (if r_is_send r \<and> r_replay r
         then (case take_for_send TTL (w_now w) (tc_tool c) (r_recips r) (current (w_session_env w))
                      (g_sends st) of
                 (res, sends') \<Rightarrow>
                   st\<lparr>g_sends := sends',
                      g_replayed := (case res of None \<Rightarrow> g_replayed st
                        | Some rec \<Rightarrow> g_replayed st @ [(p_anchor rec, p_lane rec, p_recipients rec)])\<rparr>)
         else st)
      in if is_commitment (tc_tool c) (r_class r) \<and> r_confirmed r \<noteq> None
         then st1\<lparr>g_acts := snd (take_in_flight ACT_TTL max_act_sessions (w_now w) (tc_session c)
                     (tc_tool c) (g_acts st1))\<rparr>
         else st1)"

definition settle ::
  "world \<Rightarrow> 't tool_call \<Rightarrow> resolved \<Rightarrow> pydict \<Rightarrow> 't gate_state \<Rightarrow> block option \<times> 't gate_state" where
  "settle w c r args st0 =
     (let d = r_decision r;
          st = capture_withheld w c r args (note_row c (decision_row w c d (d_reason d)) st0)
      in if r_send_as r
         then (if d_audit d \<noteq> Audit_Await then (Some (Refused_Block (d_reason d)), st)
               else (Some (Send_As_Block (send_as_propose (w_gates w) (tc_tool c) args (tc_session c)
                       (tc_id c))), st))
         else if is_commitment (tc_tool c) (r_class r) \<and> r_confirmed r = None \<and> d_audit d = Audit_Await
         then (case propose_commitment_act w (tc_tool c) (tc_session c) args st of
                 (b, st') \<Rightarrow> (Some b, st'))
         else case matter_checks w c r args st of
                (Some b, st') \<Rightarrow> (Some b, st')
              | (None, st') \<Rightarrow>
                  (case later_checks w c r args of
                     Some b \<Rightarrow> (Some b, st')
                   | None \<Rightarrow> (None, spend w c r st')))"

text \<open>
  The whole decision: no block means the call runs, with the returned arguments.
\<close>

definition evaluate_tool_call ::
  "world \<Rightarrow> 't tool_call \<Rightarrow> pydict \<Rightarrow> 't gate_state \<Rightarrow> block option \<times> pydict \<times> 't gate_state" where
  "evaluate_tool_call w c args st =
     (if tc_tool c = [] then (None, args, st)
      else case classify_tool (tc_tool c) of
        Inl Name_Required \<Rightarrow> (Some Fault_Block, args, st)
      | Inl (Banned_Tool name why) \<Rightarrow>
          (let msg = (case map_of BANNED_REFUSAL_MESSAGE name of None \<Rightarrow> why | Some m \<Rightarrow> m)
           in (Some (Banned_Block msg), args,
               note_row c (call_row w c ''banned'' Audit_Refuse False msg (Some REFUSED)) st))
      | Inr cl \<Rightarrow>
          (case mixing (w_gates w) (tc_session c) (tc_tool c) args of
             Some m \<Rightarrow> (Some (Mixing_Block m), args,
               note_row c (call_row w c (class_value READ) Audit_Refuse False
                 (''MATTER_MIXING_FENCE: '' @ m) (Some REFUSED)) st)
           | None \<Rightarrow>
               (case read_volume (w_gates w) (tc_session c) (tc_tool c) of
                  Over m \<Rightarrow> (Some (Volume_Block m), args,
                    note_row c (call_row w c (class_value READ) Audit_Refuse False
                      (''READ_VOLUME_GATE: '' @ m) (Some REFUSED)) st)
                | v \<Rightarrow>
                    (let st1 = (case v of
                         Reported m \<Rightarrow> note_row c (call_row w c (class_value READ) Audit_Report True
                           (''READ_VOLUME_GATE: '' @ m) None) st
                       | _ \<Rightarrow> st)
                     in case resolve_call w c (c_class cl) args st1 of
                          Inl e \<Rightarrow>
                            (if c_class cl = READ
                             then (None, args, note_row c (call_row w c (class_value READ) Audit_Allow True
                               ''read allowed despite an indeterminate exposure resolution'' None) st1)
                             else (Some (Unavailable_Block (c_class cl)), args,
                               note_row c (call_row w c (class_value (c_class cl)) Audit_Refuse False
                                 ''trust decision unavailable; failing closed'' None) st1))
                        | Inr (r, args', st2) \<Rightarrow>
                            (case settle w c r args' st2 of (b, st3) \<Rightarrow> (b, args', st3))))))"

section \<open>How a call comes to be allowed\<close>

lemma note_row_fields [simp]:
  "g_sends (note_row c d st) = g_sends st" "g_acts (note_row c d st) = g_acts st"
  "g_replayed (note_row c d st) = g_replayed st"
  by (simp_all add: note_row_def)

lemma later_checks_None: "later_checks w c r args = None \<Longrightarrow> d_allowed (r_decision r)"
  by (auto simp: later_checks_def Let_def split: option.splits if_splits)

lemma matter_checks_fields:
  "matter_checks w c r args st = (b, st') \<Longrightarrow> g_sends st' = g_sends st \<and> g_acts st' = g_acts st"
  by (auto simp: matter_checks_def Let_def split: if_splits)

lemma capture_allowed: "d_audit (r_decision r) \<noteq> Audit_Await \<Longrightarrow> capture_withheld w c r args st = st"
  by (simp add: capture_withheld_def)

lemma settle_allows:
  assumes "settle w c r args st = (None, st')"
  obtains st1 where "d_allowed (r_decision r)" "\<not> r_send_as r"
    "st' = spend w c r st1"
    "g_sends st1 = g_sends (capture_withheld w c r args (note_row c (decision_row w c (r_decision r)
       (d_reason (r_decision r))) st))" "g_acts st1 = g_acts st"
proof -
  let ?st = "capture_withheld w c r args (note_row c (decision_row w c (r_decision r) (d_reason (r_decision r))) st)"
  have acts: "g_acts ?st = g_acts st" by (simp add: capture_withheld_def)
  have "\<not> r_send_as r" using assms by (auto simp: settle_def Let_def split: if_splits)
  moreover obtain st1 where m: "matter_checks w c r args ?st = (None, st1)"
    "later_checks w c r args = None" "st' = spend w c r st1"
    using assms by (auto simp: settle_def Let_def split: if_splits prod.splits option.splits)
  ultimately show ?thesis
    using that later_checks_None [OF m(2)] matter_checks_fields [OF m(1)] acts by simp
qed

lemma evaluate_allows:
  assumes "evaluate_tool_call w c args st = (None, args', st')" "tc_tool c \<noteq> []"
    and "classify_tool (tc_tool c) = Inr cl" "c_class cl \<noteq> READ"
  obtains r st1 st2 where "resolve_call w c (c_class cl) args st1 = Inr (r, args', st2)"
    "settle w c r args' st2 = (None, st')" "g_sends st1 = g_sends st" "g_acts st1 = g_acts st"
  using assms
  by (auto simp: evaluate_tool_call_def Let_def split: option.splits volume.splits sum.splits if_splits prod.splits)

lemma resolve_call_parts:
  assumes "resolve_call w c base args st = Inr (r, args', st')"
  obtains expo floors cls where
    "resolve_persona_exposure (w_config w) (w_customer w) (w_overrides w) (w_persona w) = Inr expo"
    "resolve_vertical_floors w = Inr floors" "effective_class w c base args = Inr cls"
    "decide_call w c expo floors cls args st = (r, args', st')"
  using assms by (auto simp: resolve_call_def split: sum.splits)

text \<open>The send the call would release, and the act it would execute.\<close>

definition sendable :: "world \<Rightarrow> 't tool_call \<Rightarrow> action_class \<Rightarrow> pydict \<Rightarrow> string set" where
  "sendable w c cls args =
     (if cls \<in> SEND_CLASSES then resolve_send_recipients w (tc_tool c) args (tc_session c) else {})"

definition approved_send ::
  "world \<Rightarrow> 't tool_call \<Rightarrow> action_class \<Rightarrow> pydict \<Rightarrow> 't gate_state \<Rightarrow> pydict pending_send option" where
  "approved_send w c cls args st =
     (if sendable w c cls args = {} then None
      else approved_match TTL (w_now w) (tc_tool c) (sendable w c cls args) (current (w_session_env w))
             (g_sends st))"

definition approved_act ::
  "world \<Rightarrow> 't tool_call \<Rightarrow> action_class \<Rightarrow> 't gate_state \<Rightarrow> confirmed_act option" where
  "approved_act w c cls st =
     (if is_commitment (tc_tool c) cls
      then fst (peek_confirmed ACT_TTL (w_now w) (tc_session c) (tc_tool c) (g_acts st)) else None)"

definition call_args :: "'t tool_call \<Rightarrow> pydict \<Rightarrow> pydict pending_send option \<Rightarrow> confirmed_act option \<Rightarrow> pydict"
  where "call_args c args s a =
     (case a of Some act \<Rightarrow> tool_arguments (tc_tool c) (ca_payload act)
      | None \<Rightarrow> (case s of Some rec \<Rightarrow> p_args rec | None \<Rightarrow> args))"

lemma decide_call_parts:
  assumes "decide_call w c expo floors cls args st = (r, args', st')"
  defines "s \<equiv> approved_send w c cls args st" and "a \<equiv> approved_act w c cls st"
  shows "r_class r = cls" "r_recips r = sendable w c cls args" "r_confirmed r = a"
    "r_replay r \<longleftrightarrow> s \<noteq> None \<or> a \<noteq> None" "args' = call_args c args s a"
    "g_sends st' = (if sendable w c cls args = {} then g_sends st else prune TTL (w_now w) (g_sends st))"
    "g_acts st' = (if is_commitment (tc_tool c) cls
       then snd (peek_confirmed ACT_TTL (w_now w) (tc_session c) (tc_tool c) (g_acts st)) else g_acts st)"
    "d_allowed (r_decision r) = d_allowed (enforce cls expo (tc_tool c)
       (s \<noteq> None \<or> a \<noteq> None \<or> resolve_current_turn_approval args') floors
       (taint_gate_input (trust_class (w_taint w) (tc_session c)) cls (tc_code_fixed c)))"
    "d_audit (r_decision r) = d_audit (enforce cls expo (tc_tool c)
       (s \<noteq> None \<or> a \<noteq> None \<or> resolve_current_turn_approval args') floors
       (taint_gate_input (trust_class (w_taint w) (tc_session c)) cls (tc_code_fixed c)))"
proof -
  note parts = decide_call_def Let_def s_def a_def approved_send_def approved_act_def
    sendable_def call_args_def
  have r: "r = fst (decide_call w c expo floors cls args st)"
    and args': "args' = fst (snd (decide_call w c expo floors cls args st))"
    and st': "st' = snd (snd (decide_call w c expo floors cls args st))"
    using assms(1) by simp_all
  show "r_class r = cls" unfolding r by (simp add: decide_call_def Let_def)
  show "r_recips r = sendable w c cls args" unfolding r by (simp add: parts)
  show "r_confirmed r = a" unfolding r by (simp add: parts)
  show replay: "r_replay r \<longleftrightarrow> s \<noteq> None \<or> a \<noteq> None"
    unfolding r by (simp add: parts del: not_None_eq)
  show args: "args' = call_args c args s a" unfolding args'
    by (cases "is_commitment (tc_tool c) cls") (auto simp: parts split: option.split)
  show "g_sends st' = (if sendable w c cls args = {} then g_sends st else prune TTL (w_now w) (g_sends st))"
    unfolding st' by (simp add: parts)
  show "g_acts st' = (if is_commitment (tc_tool c) cls
      then snd (peek_confirmed ACT_TTL (w_now w) (tc_session c) (tc_tool c) (g_acts st)) else g_acts st)"
    unfolding st' by (simp add: parts)
  let ?d = "enforce cls expo (tc_tool c) (r_replay r \<or> resolve_current_turn_approval args') floors
    (taint_gate_input (trust_class (w_taint w) (tc_session c)) cls (tc_code_fixed c))"
  have "d_allowed (r_decision r) = d_allowed ?d" "d_audit (r_decision r) = d_audit ?d"
    unfolding r args' by (simp_all add: decide_call_def Let_def del: not_None_eq)
  then show "d_allowed (r_decision r) = d_allowed (enforce cls expo (tc_tool c)
       (s \<noteq> None \<or> a \<noteq> None \<or> resolve_current_turn_approval args') floors
       (taint_gate_input (trust_class (w_taint w) (tc_session c)) cls (tc_code_fixed c)))"
    "d_audit (r_decision r) = d_audit (enforce cls expo (tc_tool c)
       (s \<noteq> None \<or> a \<noteq> None \<or> resolve_current_turn_approval args') floors
       (taint_gate_input (trust_class (w_taint w) (tc_session c)) cls (tc_code_fixed c)))"
    unfolding replay disj_assoc by simp_all
qed

lemma allowed_is_not_awaiting:
  "d_allowed (enforce cls expo tool ok floors tc) \<Longrightarrow>
     d_audit (enforce cls expo tool ok floors tc) \<noteq> Audit_Await"
  by (cases cls)
    (auto simp: enforce_def enforce_resolved_def decide_approval_class_def verdict_defs Let_def
       split: if_splits)

text \<open>One description of an allowed call, from which the properties follow.\<close>

definition approved_call ::
  "world \<Rightarrow> 't tool_call \<Rightarrow> action_class \<Rightarrow> pydict \<Rightarrow> 't gate_state \<Rightarrow> pydict \<Rightarrow> bool" where
  "approved_call w c cls args st args' \<longleftrightarrow>
     approved_send w c cls args st \<noteq> None \<or> approved_act w c cls st \<noteq> None \<or>
     resolve_current_turn_approval args'"

definition allowed_by ::
  "world \<Rightarrow> 't tool_call \<Rightarrow> action_class \<Rightarrow> pydict \<Rightarrow> 't gate_state \<Rightarrow> pydict \<Rightarrow> 't gate_state \<Rightarrow>
   exposure \<Rightarrow> exposure \<Rightarrow> action_class \<Rightarrow> resolved \<Rightarrow> 't gate_state \<Rightarrow> bool" where
  "allowed_by w c base args st args' st' expo floors cls r st1 \<longleftrightarrow>
     resolve_persona_exposure (w_config w) (w_customer w) (w_overrides w) (w_persona w) = Inr expo \<and>
     effective_class w c base args = Inr cls \<and>
     d_allowed (enforce cls expo (tc_tool c) (approved_call w c cls args st args') floors
       (taint_gate_input (trust_class (w_taint w) (tc_session c)) cls (tc_code_fixed c))) \<and>
     args' = call_args c args (approved_send w c cls args st) (approved_act w c cls st) \<and>
     st' = spend w c r st1 \<and> r_class r = cls \<and> r_recips r = sendable w c cls args \<and>
     r_confirmed r = approved_act w c cls st \<and>
     (r_replay r \<longleftrightarrow> approved_send w c cls args st \<noteq> None \<or> approved_act w c cls st \<noteq> None) \<and>
     g_sends st1 = (if sendable w c cls args = {} then g_sends st else prune TTL (w_now w) (g_sends st)) \<and>
     g_acts st1 = (if is_commitment (tc_tool c) cls
       then snd (peek_confirmed ACT_TTL (w_now w) (tc_session c) (tc_tool c) (g_acts st)) else g_acts st)"

lemma allowed_call:
  assumes "evaluate_tool_call w c args st = (None, args', st')" "tc_tool c \<noteq> []"
    and "classify_tool (tc_tool c) = Inr cl" "c_class cl \<noteq> READ"
  shows "\<exists>expo floors cls r st1. allowed_by w c (c_class cl) args st args' st' expo floors cls r st1"
proof -
  obtain r s1 s2 where r: "resolve_call w c (c_class cl) args s1 = Inr (r, args', s2)"
      "settle w c r args' s2 = (None, st')" "g_sends s1 = g_sends st" "g_acts s1 = g_acts st"
    using evaluate_allows [OF assms] by blast
  obtain expo floors cls where e:
      "resolve_persona_exposure (w_config w) (w_customer w) (w_overrides w) (w_persona w) = Inr expo"
      "resolve_vertical_floors w = Inr floors" "effective_class w c (c_class cl) args = Inr cls"
      "decide_call w c expo floors cls args s1 = (r, args', s2)"
    using resolve_call_parts [OF r(1)] by blast
  note d = decide_call_parts [OF e(4)]
  have same: "approved_send w c cls args s1 = approved_send w c cls args st"
    "approved_act w c cls s1 = approved_act w c cls st"
    using r(3,4) by (simp_all add: approved_send_def approved_act_def)
  obtain st1 where st1: "d_allowed (r_decision r)" "st' = spend w c r st1"
    "g_sends st1 = g_sends (capture_withheld w c r args' (note_row c (decision_row w c (r_decision r)
       (d_reason (r_decision r))) s2))" "g_acts st1 = g_acts s2"
    using settle_allows [OF r(2)] by blast
  have "d_audit (r_decision r) \<noteq> Audit_Await"
    using st1(1) d(8,9) allowed_is_not_awaiting by metis
  then have "g_sends st1 = g_sends s2" using st1(3) by (simp add: capture_allowed)
  then have "allowed_by w c (c_class cl) args st args' st' expo floors cls r st1"
    unfolding allowed_by_def approved_call_def
    using e(1,3) d st1(1,2,4) r(3,4) unfolding same by simp
  then show ?thesis by blast
qed

text \<open>The class a call is decided under differs from the registry's only for sends.\<close>

lemma reclassify_class:
  assumes "reclassify_send w tool args base sid tainted = Inr cls"
  shows "cls = base \<or> base = EXTERNAL_SEND \<and> cls \<in> SEND_CLASSES"
proof -
  have "class_action k \<in> SEND_CLASSES" for k by (cases k) (simp_all add: SEND_CLASSES_def)
  then show ?thesis
    using assms by (auto simp: reclassify_send_def SEND_CLASSES_def split: if_splits option.splits sum.splits)
qed

lemma effective_class_cases:
  assumes "effective_class w c base args = Inr cls"
  shows "cls = base \<or> cls = EXTERNAL_SEND_AS_STAFF \<or> base = EXTERNAL_SEND \<and> cls \<in> SEND_CLASSES"
proof (cases "send_as_requested (w_gates w) (tc_tool c) args")
  case False
  then have "reclassify_send w (tc_tool c) args base (tc_session c)
      (is_tainted (w_taint w) (tc_session c) \<and> \<not> tc_code_fixed c) = Inr cls"
    using assms by (simp add: effective_class_def)
  from reclassify_class [OF this] show ?thesis by blast
qed (use assms in \<open>simp add: effective_class_def\<close>)

lemma approved_send_class: "approved_send w c cls args st \<noteq> None \<Longrightarrow> cls \<in> SEND_CLASSES"
  by (auto simp: approved_send_def sendable_def split: if_splits)

lemma approved_act_class: "approved_act w c cls st \<noteq> None \<Longrightarrow> is_commitment (tc_tool c) cls"
  by (auto simp: approved_act_def split: if_splits)

lemma commitment_not_send: "is_commitment tool cls \<Longrightarrow> cls \<notin> SEND_CLASSES"
  by (auto simp: is_commitment_def SEND_CLASSES_def)

text \<open>Without the runtime's flag in the arguments, an approval is a stored one.\<close>

lemma approval_is_stored:
  assumes "dget args ''_current_turn_approval'' = PNone"
    and "args' = call_args c args (approved_send w c cls args st) (approved_act w c cls st)"
    and "approved_call w c cls args st args'"
  shows "approved_send w c cls args st \<noteq> None \<or> approved_act w c cls st \<noteq> None"
  using assms
  by (auto simp: approved_call_def call_args_def resolve_current_turn_approval_def split: option.splits)

lemma gate_taint:
  "taint_gate_input (trust_class (w_taint w) sid) cls fixed = TRUST_CLASS_INTERNAL \<Longrightarrow>
     \<not> is_tainted (w_taint w) sid \<or> fixed \<and> cls = EXTERNAL_SEND_INTERNAL"
  by (auto simp: taint_gate_input_def is_tainted_def TRUST_CLASS_INTERNAL_def split: if_splits)

section \<open>Rows and proposals\<close>

definition rows_at :: "'t tool_call \<Rightarrow> 't gate_state \<Rightarrow> (string \<times> string \<times> trust_decision) option" where
  "rows_at c st = last_on (g_rows st) (tc_thread c)"

lemma rows_note [simp]: "tc_tool c \<noteq> [] \<Longrightarrow> rows_at c (note_row c d st) = Some (tc_id c, tc_tool c, d)"
  by (simp add: rows_at_def note_row_def record_decision_def)

lemma rows_updates [simp]:
  "rows_at c (st\<lparr>g_sends := x\<rparr>) = rows_at c st" "rows_at c (st\<lparr>g_acts := y\<rparr>) = rows_at c st"
  "rows_at c (st\<lparr>g_replayed := z\<rparr>) = rows_at c st"
  by (simp_all add: rows_at_def)

lemma rows_capture [simp]: "rows_at c (capture_withheld w c r args st) = rows_at c st"
  by (simp add: capture_withheld_def)

lemma rows_spend [simp]: "rows_at c (spend w c r st) = rows_at c st"
  by (simp add: spend_def Let_def case_prod_unfold)

lemma rows_propose [simp]:
  "rows_at c (snd (propose_commitment_act w tool sid args st)) = rows_at c st"
  by (simp add: propose_commitment_act_def case_prod_unfold Let_def split: option.split broker_answer.split)

text \<open>The row of a call: of this call, session and persona, saying \<open>ok\<close>.\<close>

definition row_says :: "world \<Rightarrow> 't tool_call \<Rightarrow> 't gate_state \<Rightarrow> bool \<Rightarrow> bool" where
  "row_says w c st ok \<longleftrightarrow>
     (\<exists>d. rows_at c st = Some (tc_id c, tc_tool c, d) \<and> td_session d = tc_session c \<and>
        td_persona d = w_persona w \<and> td_allowed d = ok)"

lemma matter_row:
  assumes "tc_tool c \<noteq> []" "rows_at c st = Some (tc_id c, tc_tool c, decision_row w c (r_decision r) why)"
  shows "row_says w c (snd (matter_checks w c r args st)) (d_allowed (r_decision r))"
  using assms by (auto simp: matter_checks_def Let_def row_says_def decision_row_def)

lemma settle_row:
  assumes "tc_tool c \<noteq> []" "settle w c r args st = (b, st')"
  shows "row_says w c st' (d_allowed (r_decision r))"
proof -
  define st1 where "st1 = capture_withheld w c r args
    (note_row c (decision_row w c (r_decision r) (d_reason (r_decision r))) st)"
  have held: "rows_at c st1 = Some (tc_id c, tc_tool c, decision_row w c (r_decision r) (d_reason (r_decision r)))"
    using assms(1) by (simp add: st1_def)
  then have here: "row_says w c st1 (d_allowed (r_decision r))" by (simp add: row_says_def decision_row_def)
  have put: "row_says w c (snd (propose_commitment_act w (tc_tool c) (tc_session c) args st1))
      (d_allowed (r_decision r))"
    using here by (simp add: row_says_def)
  have mat: "row_says w c (snd (matter_checks w c r args st1)) (d_allowed (r_decision r))"
    by (rule matter_row [OF assms(1) held])
  then have spent: "row_says w c (spend w c r (snd (matter_checks w c r args st1))) (d_allowed (r_decision r))"
    by (simp add: row_says_def)
  show ?thesis
    using assms(2) here put mat spent
    by (auto simp: settle_def Let_def st1_def [symmetric] case_prod_unfold split: if_splits prod.splits option.splits)
qed

text \<open>What the broker is asked to propose: the call's own payload, or the act the configuration authors for the tool.\<close>

definition act_payload :: "world \<Rightarrow> string \<Rightarrow> pydict \<Rightarrow> pydict option" where
  "act_payload w tool args =
     (if is_call_payload_act tool then call_payload tool (Some args) else resolve_authored_act (w_config w) tool)"

lemma propose_withheld:
  assumes "propose_commitment_act w tool sid args st = (Act_Withheld_Block line, st')" "tool \<noteq> []"
  shows "\<exists>doc sender m. w_config w = Document doc \<and> sender \<in> set (admins doc) \<and>
      resolve_admin_origin w sid = Some (sender, m) \<and> g_sends st = [] \<and>
      \<not> fst (has_open ACT_TTL (w_now w) sid (g_acts st)) \<and>
      fst (proposed ACT_TTL (w_now w) sid (g_acts st')) = [line] \<and>
      (\<exists>payload proposal. act_payload w tool args = Some payload \<and>
         w_broker w tool payload sender m sid = Broker_Proposed proposal line)"
proof -
  obtain sender m where origin: "resolve_admin_origin w sid = Some (sender, m)"
    using assms(1) by (auto simp: propose_commitment_act_def split: option.splits)
  then have sid: "sid \<noteq> []"
    by (auto simp: resolve_admin_origin_def get_origin_def split: if_splits)
  obtain doc where doc: "w_config w = Document doc" "sender \<in> set (admins doc)"
    using origin
    by (auto simp: resolve_admin_origin_def Let_def sender_is_admin_def exact_member_def
        split: option.splits config_file.splits if_splits)
  let ?acts = "snd (has_open ACT_TTL (w_now w) sid (g_acts st))"
  obtain proposal payload where p: "proposal \<noteq> []" "line \<noteq> []" "g_sends st = []"
      "\<not> fst (has_open ACT_TTL (w_now w) sid (g_acts st))"
      "g_acts st' = snd (note_proposed ACT_TTL max_act_sessions (w_now w) sid proposal tool line ?acts)"
      and broker: "act_payload w tool args = Some payload" "w_broker w tool payload sender m sid = Broker_Proposed proposal line"
    using assms(1) origin
    by (auto simp: propose_commitment_act_def act_payload_def case_prod_unfold Let_def peek_def
        split: option.splits if_splits broker_answer.splits)
  have "\<not> fst (has_open ACT_TTL (w_now w) sid ?acts)"
    using p(4) sid by (simp add: has_open_def case_prod_unfold live_act_fst live_act_get alive_def)
  moreover have "odict_get (odict_put max_act_sessions sid r d) sid = Some r" for r and d :: acts
    by (rule od.get_put_same) (simp add: max_act_sessions_def)
  ultimately have "fst (proposed ACT_TTL (w_now w) sid (g_acts st')) = [line]"
    using p(1,2,5) sid assms(2)
    by (simp add: note_proposed_def case_prod_unfold proposed_def live_act_def ACT_TTL_def)
  then show ?thesis using doc origin p broker by blast
qed

lemma allowed_is_direct:
  assumes "resolve_call w c base args0 st0 = Inr (r, args, st)" "d_allowed (r_decision r)"
  shows "d_audit (r_decision r) \<noteq> Audit_Await" "\<not> r_send_as r"
proof -
  obtain expo floors cls where e: "effective_class w c base args0 = Inr cls"
      "decide_call w c expo floors cls args0 st0 = (r, args, st)"
    using resolve_call_parts [OF assms(1)] by blast
  note d = decide_call_parts [OF e(2)]
  show "d_audit (r_decision r) \<noteq> Audit_Await"
    using assms(2) allowed_is_not_awaiting unfolding d(8,9) by blast
  have "cls \<noteq> EXTERNAL_SEND_AS_STAFF"
    using assms(2) unfolding d(8) by (auto simp: enforce_def enforce_resolved_def verdict_defs Let_def split: if_splits)
  moreover have "r_send_as r = send_as_requested (w_gates w) (tc_tool c) args0"
    using e(2) by (auto simp: decide_call_def Let_def)
  ultimately show "\<not> r_send_as r" using e(1) by (auto simp: effective_class_def split: if_splits)
qed

lemma later_checks_refusal:
  "d_allowed (r_decision r) \<Longrightarrow> later_checks w c r args \<noteq> Some (Refused_Block why)"
  by (auto simp: later_checks_def Let_def apply_content_floor_def split: option.splits sum.splits if_splits)

lemma matter_checks_refusal:
  "fst (matter_checks w c r args st) \<noteq> Some (Refused_Block why)"
  by (auto simp: matter_checks_def Let_def)

lemma settle_refusal:
  assumes "resolve_call w c base args0 st0 = Inr (r, args, st)"
    and "settle w c r args st = (Some (Refused_Block why), st')"
  shows "\<not> d_allowed (r_decision r)"
proof
  assume ok: "d_allowed (r_decision r)"
  note direct = allowed_is_direct [OF assms(1) ok]
  show False
    using assms(2) direct later_checks_refusal [OF ok]
      matter_checks_refusal [of w c r args "capture_withheld w c r args
        (note_row c (decision_row w c (r_decision r) (d_reason (r_decision r))) st)" why]
    by (auto simp: settle_def Let_def split: prod.splits option.splits)
qed

lemma settle_pass:
  assumes "resolve_call w c base args0 st0 = Inr (r, args, st)" "settle w c r args st = (None, st')"
  shows "d_allowed (r_decision r)"
  using settle_allows [OF assms(2)] by blast

section \<open>A sample seat\<close>

definition quiet_gates :: gates where
  "quiet_gates =
     \<lparr>mixing = (\<lambda>s t a. None), read_volume = (\<lambda>s t. Within), send_as_requested = (\<lambda>t a. False),
      send_as_propose = (\<lambda>t a s i. []), mismatch = (\<lambda>s a r x. None), mismatch_blocks = True,
      multi_matter = (\<lambda>s. []), multi_matter_blocks = True,
      structure_floor = (\<lambda>t k s i b ok. None), classify_content = (\<lambda>b. Inr None),
      voice_gate = (\<lambda>t k s. None), spec_gate = (\<lambda>t k s b x. None)\<rparr>"

definition sample_world :: "string \<Rightarrow> string \<Rightarrow> world" where
  "sample_world action ceil =
     \<lparr>w_now = 10, w_config = Document [(''personas'', PList [PDict [(''slug'', PStr ''op''),
        (''entitlements'', PDict [(''exposure'', PDict [(action, PStr ceil)])])]]),
        (''scope'', PDict [(''admins'', PList [PStr ''a@firm.example''])])],
      w_overrides = No_Store, w_customer = ''c'', w_persona = ''op'', w_vertical = [],
      w_session_env = (\<lambda>n. []), w_parse = (\<lambda>s. s), w_str = (\<lambda>v. []),
      w_taint = empty_odict, w_drafts = [], w_origins = no_origins, w_anchor = (\<lambda>s. (None, None)),
      w_broker = (\<lambda>t p a m s. Broker_Proposed ''p'' ''line''), w_gates = quiet_gates\<rparr>"

definition sample_call :: "string \<Rightarrow> unit tool_call" where
  "sample_call tool = \<lparr>tc_thread = (), tc_tool = tool, tc_session = ''s'', tc_id = ''k'',
     tc_match = ''keyed'', tc_code_fixed = False\<rparr>"

definition sample_state :: "unit gate_state" where
  "sample_state = \<lparr>g_sends = [], g_acts = empty_odict, g_rows = empty_register, g_replayed = []\<rparr>"

definition sample_args :: pydict where
  "sample_args = [(''to'', PStr ''x@y.com'')]"

text \<open>A withheld send its requester approved, and an act an administrator confirmed.\<close>

definition approved_state :: "unit gate_state" where
  "approved_state = sample_state\<lparr>g_sends :=
     [\<lparr>p_tool = ''mcp_agentmail_send_message'', p_args = [(''to'', PStr ''x@y.com''), (''text'', PStr ''hi'')],
       p_recipients = {''x@y.com''}, p_created = 5, p_approved = True, p_source = Some ''telegram:7'',
       p_anchor = None, p_lane = None, p_requester = UNBOUND, p_session = None\<rparr>]\<rparr>"

definition matter_act :: confirmed_act where
  "matter_act =
     \<lparr>ca_proposal = ''p'', ca_tool = ''mcp_smokeball_create_matter'',
      ca_payload = [(''description'', PStr ''d''), (''client_contact_name'', PStr ''n'')],
      ca_instructed_by = ''a@firm.example'', ca_confirmed_by = ''a@firm.example'', ca_message = ''m'',
      ca_at = 5\<rparr>"

definition confirmed_state :: "unit gate_state" where
  "confirmed_state = sample_state\<lparr>g_acts :=
     snd (mark_confirmed ACT_TTL max_act_sessions 5 ''s'' matter_act empty_odict)\<rparr>"

abbreviation send_world :: world where
  "send_world \<equiv> sample_world ''external_send'' ''confirm''"

abbreviation send_call :: "unit tool_call" where
  "send_call \<equiv> sample_call ''mcp_agentmail_send_message''"

abbreviation act_world :: world where
  "act_world \<equiv> sample_world ''commitment'' ''confirm''"

abbreviation act_call :: "unit tool_call" where
  "act_call \<equiv> sample_call ''mcp_smokeball_create_matter''"

abbreviation tainted_world :: world where
  "tainted_world \<equiv> (sample_world ''internal_write'' ''autonomous'')
     \<lparr>w_taint := mark max_sessions ''s'' ''unknown_external'' empty_odict\<rparr>"

abbreviation asking_world :: world where
  "asking_world \<equiv> act_world\<lparr>w_origins := lock 8 ''s'' \<lparr>or_sender = ''a@firm.example'', or_message_id = ''m''\<rparr> no_origins,
     w_config := Document [(''personas'', PList [PDict [(''slug'', PStr ''op''),
        (''entitlements'', PDict [(''exposure'', PDict [(''commitment'', PStr ''confirm'')])])]]),
        (''scope'', PDict [(''admins'', PList [PStr ''a@firm.example''])]),
        (''self_initiation'', PDict [(''document_library'', PDict [(''operator_matter'',
          PDict [(''description'', PStr ''d''), (''matter_type_id'', PStr ''t''), (''client_contact_id'', PStr ''k'')])])])]\<rparr>"

lemma sample_send_runs:
  "fst (evaluate_tool_call send_world send_call sample_args approved_state) = None"
  by code_simp

lemma sample_act_runs:
  "fst (evaluate_tool_call act_world act_call [] confirmed_state) = None"
  by code_simp

lemma sample_draft_runs:
  "fst (evaluate_tool_call tainted_world (sample_call ''mcp_agentmail_create_draft'') [] sample_state) = None"
  by code_simp

lemma sample_read_runs:
  "fst (evaluate_tool_call (send_world\<lparr>w_config := Faulty_File\<rparr>) (sample_call ''mcp_agentmail_get_message'') []
     sample_state) = None"
  by code_simp

lemma sample_ask_runs:
  "fst (evaluate_tool_call asking_world act_call [] sample_state) = Some (Act_Withheld_Block ''line'')"
  by code_simp

lemmas sample_runs = sample_send_runs sample_act_runs sample_draft_runs sample_read_runs sample_ask_runs

lemma sample_classes:
  "classify_tool ''mcp_agentmail_send_message'' = Inr \<lparr>c_class = EXTERNAL_SEND, c_unmapped = False\<rparr>"
  "classify_tool ''mcp_smokeball_create_matter'' = Inr \<lparr>c_class = COMMITMENT, c_unmapped = False\<rparr>"
  by code_simp+

lemma sample_tools:
  "tc_tool send_call \<noteq> []" "tc_tool act_call \<noteq> []"
  "classify_tool (tc_tool send_call) = Inr \<lparr>c_class = EXTERNAL_SEND, c_unmapped = False\<rparr>"
  "classify_tool (tc_tool act_call) = Inr \<lparr>c_class = COMMITMENT, c_unmapped = False\<rparr>"
  "dget sample_args ''_current_turn_approval'' = PNone"
  by (simp_all add: sample_call_def sample_classes sample_args_def)

lemma ex_first_two: "\<exists>x. P x \<and> Q x \<and> R x \<Longrightarrow> \<exists>x. P x \<and> Q x"
  by blast

lemma ex_second: "\<exists>x. P x \<and> Q x \<and> R x \<Longrightarrow> \<exists>x. Q x"
  by blast

lemma parts: "fst x = b \<Longrightarrow> x = (b, fst (snd x), snd (snd x))"
  by (simp add: prod_eq_iff)

lemma tainted_call_class:
  assumes "evaluate_tool_call w c args st = (None, args', st')" "tc_tool c \<noteq> []"
    and "is_tainted (w_taint w) (tc_session c)" "\<not> tc_code_fixed c"
  shows "\<exists>cl. classify_tool (tc_tool c) = Inr cl \<and> c_class cl \<in> {READ, INTERNAL_WRITE}"
proof -
  obtain cl where cl: "classify_tool (tc_tool c) = Inr cl"
    using assms(1,2)
    by (cases "classify_tool (tc_tool c)")
       (auto simp: evaluate_tool_call_def Let_def split: classify_error.splits)
  have "c_class cl = INTERNAL_WRITE" if read: "c_class cl \<noteq> READ"
  proof -
    obtain expo floors cls r st1 where
      "allowed_by w c (c_class cl) args st args' st' expo floors cls r st1"
      using allowed_call [OF assms(1,2) cl read] by blast
    note e = this [unfolded allowed_by_def]
    have cases: "cls = c_class cl \<or> cls = EXTERNAL_SEND_AS_STAFF \<or>
        c_class cl = EXTERNAL_SEND \<and> cls \<in> SEND_CLASSES"
      using effective_class_cases e by blast
    then have "cls \<noteq> READ" using read by (auto simp: SEND_CLASSES_def)
    then have "cls = INTERNAL_WRITE" using allowed_authority e gate_taint assms(3,4) by blast
    then show ?thesis using cases by (auto simp: SEND_CLASSES_def)
  qed
  then show ?thesis using cl by auto
qed

section \<open>Properties\<close>

text \<open>C1: a call that is not a read runs on somebody's authority. If the hook lets such a call pass, one whose
  arguments carry no approval of their own making, the persona's exposure was readable and authors the
  class the call was decided under, above refused; and the class is an internal write, or autonomous in
  that exposure (never a commitment or a destructive act), or covered by a stored approval: a withheld
  send this turn may release or an act an administrator confirmed in this session. If the session read
  untrusted content, the class is an internal write, or mail to staff whose recipients code fixed.\<close>

theorem allowed_call_is_authorized:
  assumes "evaluate_tool_call w c args st = (None, args', st')" "tc_tool c \<noteq> []"
    and "classify_tool (tc_tool c) = Inr cl" "c_class cl \<noteq> READ"
    and "dget args ''_current_turn_approval'' = PNone"
  shows "\<exists>expo cls ceil.
    resolve_persona_exposure (w_config w) (w_customer w) (w_overrides w) (w_persona w) = Inr expo \<and>
    effective_class w c (c_class cl) args = Inr cls \<and> map_of expo cls = Some ceil \<and>
    ceil \<noteq> REFUSED \<and> cls \<notin> {REFUSED_CLASS, EXTERNAL_SEND_AS_STAFF} \<and>
    (ceil = AUTONOMOUS \<and> cls \<notin> {COMMITMENT, DESTRUCTIVE} \<or> cls = INTERNAL_WRITE \<or>
     approved_send w c cls args st \<noteq> None \<or> approved_act w c cls st \<noteq> None) \<and>
    (cls = INTERNAL_WRITE \<or> \<not> is_tainted (w_taint w) (tc_session c) \<or>
     tc_code_fixed c \<and> cls = EXTERNAL_SEND_INTERNAL)"
proof -
  obtain expo floors cls r st1 where
    "allowed_by w c (c_class cl) args st args' st' expo floors cls r st1"
    using allowed_call [OF assms(1-4)] by blast
  note e = this [unfolded allowed_by_def]
  have "cls \<noteq> READ"
    using effective_class_cases assms(4) e by (fastforce simp: SEND_CLASSES_def)
  note auth = allowed_authority [OF _ this]
  have stored: "approved_send w c cls args st \<noteq> None \<or> approved_act w c cls st \<noteq> None"
    if "approved_call w c cls args st args'"
    using approval_is_stored [OF assms(5) _ that] e by blast
  have taint: "cls = INTERNAL_WRITE \<or> \<not> is_tainted (w_taint w) (tc_session c) \<or>
     tc_code_fixed c \<and> cls = EXTERNAL_SEND_INTERNAL"
    using auth e gate_taint by blast
  have "\<exists>ceil. map_of expo cls = Some ceil \<and> ceil \<noteq> REFUSED \<and>
      cls \<notin> {REFUSED_CLASS, EXTERNAL_SEND_AS_STAFF} \<and>
      (ceil = AUTONOMOUS \<and> cls \<notin> {COMMITMENT, DESTRUCTIVE} \<or> cls = INTERNAL_WRITE \<or>
       approved_call w c cls args st args')"
    using auth e by blast
  then show ?thesis using e stored taint by blast
qed

lemma allowed_call_is_authorized_witness:
  "\<exists>expo cls ceil. resolve_persona_exposure (w_config send_world) (w_customer send_world)
      (w_overrides send_world) (w_persona send_world) = Inr expo \<and>
    effective_class send_world send_call EXTERNAL_SEND sample_args = Inr cls \<and>
    map_of expo cls = Some ceil \<and> ceil \<noteq> REFUSED"
  using allowed_call_is_authorized [OF parts [OF sample_runs(1)]] sample_classes(1)
  by (simp add: sample_call_def sample_args_def) blast

text \<open>C4: a session that read untrusted content can read and draft, nothing else: whatever the approvals
  outstanding, a call of it that passes the hook, and whose recipients code did not fix, is of the read
  or the internal-write class. (Mail to staff with recipients that code fixed is the one exception the
  gate makes; the hypothesis leaves it out.)\<close>

theorem tainted_turn_reads_and_drafts:
  assumes "evaluate_tool_call w c args st = (None, args', st')" "tc_tool c \<noteq> []"
    and "is_tainted (w_taint w) (tc_session c)" "\<not> tc_code_fixed c"
  shows "\<exists>cl. classify_tool (tc_tool c) = Inr cl \<and> c_class cl \<in> {READ, INTERNAL_WRITE}"
  using assms by (rule tainted_call_class)

lemma tainted_turn_reads_and_drafts_witness:
  "\<exists>cl. classify_tool ''mcp_agentmail_create_draft'' = Inr cl \<and> c_class cl \<in> {READ, INTERNAL_WRITE}"
proof -
  have "is_tainted (w_taint tainted_world) ''s''" by code_simp
  then show ?thesis
    using tainted_turn_reads_and_drafts [OF parts [OF sample_runs(3)]] by (simp add: sample_call_def)
qed

text \<open>C2: what ships on an approval is what was withheld. An allowed send at the confirm ceiling
  runs with the arguments stored when it was captured, to the recipients it was captured for, and
  the record is consumed: the register afterwards is the one left by taking it.\<close>

theorem confirmed_send_ships_the_stored_payload:
  assumes "evaluate_tool_call w c args st = (None, args', st')" "tc_tool c \<noteq> []"
    and "classify_tool (tc_tool c) = Inr cl" "c_class cl \<noteq> READ"
    and "dget args ''_current_turn_approval'' = PNone"
    and "resolve_persona_exposure (w_config w) (w_customer w) (w_overrides w) (w_persona w) = Inr expo"
    and "effective_class w c (c_class cl) args = Inr cls" "cls \<in> SEND_CLASSES"
    and "map_of expo cls \<noteq> Some AUTONOMOUS"
  shows "\<exists>rec. args' = p_args rec \<and>
    p_recipients rec = resolve_send_recipients w (tc_tool c) args (tc_session c) \<and>
    take_for_send TTL (w_now w) (tc_tool c) (p_recipients rec) (current (w_session_env w)) (g_sends st)
      = (Some rec, g_sends st')"
proof -
  obtain expo' floors cls' r st1 where
    by': "allowed_by w c (c_class cl) args st args' st' expo' floors cls' r st1"
    using allowed_call [OF assms(1-4)] by blast
  have "expo' = expo" "cls' = cls" using by' assms(6,7) unfolding allowed_by_def by simp_all
  then have "allowed_by w c (c_class cl) args st args' st' expo floors cls r st1"
    using by' by blast
  note e = this [unfolded allowed_by_def]
  have "cls \<noteq> READ" "cls \<noteq> INTERNAL_WRITE" using assms(8) by (auto simp: SEND_CLASSES_def)
  have act: "approved_act w c cls st = None"
    using approved_act_class commitment_not_send assms(8) by blast
  have "approved_call w c cls args st args'"
    using allowed_authority [OF _ \<open>cls \<noteq> READ\<close>] \<open>cls \<noteq> INTERNAL_WRITE\<close> assms(9) e by blast
  then obtain rec where rec: "approved_send w c cls args st = Some rec"
    using approval_is_stored [OF assms(5)] act e by blast
  let ?recips = "sendable w c cls args" and ?turn = "current (w_session_env w)"
  have m: "?recips \<noteq> {}" "approved_match TTL (w_now w) (tc_tool c) ?recips ?turn (g_sends st) = Some rec"
    using rec by (auto simp: approved_send_def split: if_splits)
  have "p_recipients rec = ?recips"
    using find_member [OF m(2) [unfolded approved_match_def]] by (simp add: releasable_def)
  moreover have "?recips = resolve_send_recipients w (tc_tool c) args (tc_session c)"
    using assms(8) by (simp add: sendable_def)
  moreover have "args' = p_args rec" using e rec act by (simp add: call_args_def)
  moreover have "g_sends st' = snd (take_for_send TTL (w_now w) (tc_tool c) ?recips ?turn (g_sends st))"
    using e assms(8) rec act m(1) by (simp add: spend_def r_is_send_def case_prod_unfold)
  ultimately show ?thesis using m(2) by (intro exI [of _ rec]) (simp add: prod_eq_iff)
qed

lemma confirmed_send_ships_the_stored_payload_witness:
  "\<exists>rec :: pydict pending_send. fst (snd (evaluate_tool_call send_world send_call sample_args approved_state)) = p_args rec \<and>
     p_recipients rec = resolve_send_recipients send_world (tc_tool send_call) sample_args (tc_session send_call)"
proof -
  have e: "resolve_persona_exposure (w_config send_world) (w_customer send_world) (w_overrides send_world)
      (w_persona send_world) = Inr [(EXTERNAL_SEND, CONFIRM)]"
    "effective_class send_world send_call (c_class \<lparr>c_class = EXTERNAL_SEND, c_unmapped = False\<rparr>)
      sample_args = Inr EXTERNAL_SEND"
    by code_simp+
  have "\<exists>rec. fst (snd (evaluate_tool_call send_world send_call sample_args approved_state)) = p_args rec \<and>
     p_recipients rec = resolve_send_recipients send_world (tc_tool send_call) sample_args (tc_session send_call) \<and>
     take_for_send TTL (w_now send_world) (tc_tool send_call) (p_recipients rec)
       (current (w_session_env send_world)) (g_sends approved_state) =
     (Some rec, g_sends (snd (snd (evaluate_tool_call send_world send_call sample_args approved_state))))"
    by (rule confirmed_send_ships_the_stored_payload [OF parts [OF sample_runs(1)] sample_tools(1,3) _
          sample_tools(5) e]) (simp_all add: SEND_CLASSES_def)
  then show ?thesis by (rule ex_first_two)
qed

text \<open>C3: a commitment or destructive act runs with the payload the administrator confirmed, cut
  to the keys of the tool, in the session that holds the confirmation, and the confirmation is
  spent: no later call of any tool in that session finds it.\<close>

theorem commitment_runs_the_confirmed_payload:
  assumes "evaluate_tool_call w c args st = (None, args', st')" "tc_tool c \<noteq> []"
    and "classify_tool (tc_tool c) = Inr cl" "c_class cl \<in> {COMMITMENT, DESTRUCTIVE}"
    and "dget args ''_current_turn_approval'' = PNone"
  shows "\<exists>a. fst (peek_confirmed ACT_TTL (w_now w) (tc_session c) (tc_tool c) (g_acts st)) = Some a \<and>
    args' = tool_arguments (tc_tool c) (ca_payload a) \<and>
    fst (peek_confirmed ACT_TTL later (tc_session c) tool (g_acts st')) = None"
proof -
  have read: "c_class cl \<noteq> READ" using assms(4) by auto
  obtain expo floors cls r st1 where
    "allowed_by w c (c_class cl) args st args' st' expo floors cls r st1"
    using allowed_call [OF assms(1-3) read] by blast
  note e = this [unfolded allowed_by_def]
  have "effective_class w c (c_class cl) args = Inr cls" using e by blast
  from effective_class_cases [OF this] have "cls = c_class cl \<or> cls = EXTERNAL_SEND_AS_STAFF"
    using assms(4) by auto
  moreover have readless: "cls \<noteq> READ" using calculation read by auto
  ultimately have cls: "cls = c_class cl" "cls \<noteq> READ"
    using allowed_authority [OF _ readless] e by blast+
  have send: "approved_send w c cls args st = None"
    using approved_send_class assms(4) cls by (fastforce simp: SEND_CLASSES_def)
  have "cls \<in> {COMMITMENT, DESTRUCTIVE}" using assms(4) cls(1) by simp
  then have "approved_call w c cls args st args'"
    using allowed_authority [OF _ cls(2)] e by blast
  then obtain a where a: "approved_act w c cls st = Some a"
    using approval_is_stored [OF assms(5)] send e by blast
  then have k: "is_commitment (tc_tool c) cls"
      "fst (peek_confirmed ACT_TTL (w_now w) (tc_session c) (tc_tool c) (g_acts st)) = Some a"
    by (auto simp: approved_act_def split: if_splits)
  then have st1: "fst (peek_confirmed ACT_TTL (w_now w) (tc_session c) (tc_tool c) (g_acts st1)) = Some a"
    using e by (simp add: peek_again)
  have "r_class r \<notin> SEND_CLASSES" using commitment_not_send k(1) e by blast
  then have "g_acts st' = snd (take_in_flight ACT_TTL max_act_sessions (w_now w) (tc_session c) (tc_tool c)
      (g_acts st1))"
    using e k(1) a by (simp add: spend_def r_is_send_def)
  moreover have "0 < max_act_sessions" by (simp add: max_act_sessions_def)
  ultimately have "fst (peek_confirmed ACT_TTL later (tc_session c) tool (g_acts st')) = None"
    using take_spends st1 by metis
  then show ?thesis using k(2) e a by (simp add: call_args_def)
qed

lemma commitment_runs_the_confirmed_payload_witness:
  "\<exists>a :: confirmed_act. fst (snd (evaluate_tool_call act_world act_call [] confirmed_state)) =
     tool_arguments (tc_tool act_call) (ca_payload a)"
proof -
  have "\<exists>a. fst (peek_confirmed ACT_TTL (w_now act_world) (tc_session act_call) (tc_tool act_call)
        (g_acts confirmed_state)) = Some a \<and>
     fst (snd (evaluate_tool_call act_world act_call [] confirmed_state)) =
       tool_arguments (tc_tool act_call) (ca_payload a) \<and>
     fst (peek_confirmed ACT_TTL 10 (tc_session act_call) []
       (g_acts (snd (snd (evaluate_tool_call act_world act_call [] confirmed_state))))) = None"
    by (rule commitment_runs_the_confirmed_payload [OF parts [OF sample_runs(2)] sample_tools(2,4)]) simp_all
  then show ?thesis by (rule ex_second)
qed

text \<open>a fault in reading the entitlements stops everything but reads. If the persona's exposure
  cannot be resolved, a call the hook lets pass is of the read class.\<close>

theorem unreadable_exposure_stops_all_but_reads:
  assumes "resolve_persona_exposure (w_config w) (w_customer w) (w_overrides w) (w_persona w) = Inl e"
    and "fst (evaluate_tool_call w c args st) = None" "tc_tool c \<noteq> []"
  shows "\<exists>cl. classify_tool (tc_tool c) = Inr cl \<and> c_class cl = READ"
proof -
  obtain args' st' where ev: "evaluate_tool_call w c args st = (None, args', st')"
    using assms(2) by (metis prod.collapse)
  obtain cl where cl: "classify_tool (tc_tool c) = Inr cl"
    using ev assms(3)
    by (cases "classify_tool (tc_tool c)")
       (auto simp: evaluate_tool_call_def Let_def split: classify_error.splits)
  have "c_class cl = READ"
  proof (rule ccontr)
    assume "c_class cl \<noteq> READ"
    from allowed_call [OF ev assms(3) cl this] show False
      using assms(1) by (auto simp: allowed_by_def)
  qed
  then show ?thesis using cl by blast
qed

lemma unreadable_exposure_stops_all_but_reads_witness:
  "\<exists>cl. classify_tool ''mcp_agentmail_get_message'' = Inr cl \<and> c_class cl = READ"
  using unreadable_exposure_stops_all_but_reads [OF _ sample_runs(4)]
  by (simp add: sample_call_def sample_world_def resolve_persona_exposure_def)

text \<open>every verdict is handed to the ledger. Whatever the hook answers for a named tool, this
  call's row is the one its thread holds next, for this session and persona; a call that passes
  has a row that says it was allowed, and a call the policy refused has one that says it was not.\<close>

theorem every_verdict_is_recorded:
  assumes "evaluate_tool_call w c args st = (b, args', st')" "tc_tool c \<noteq> []" "b \<noteq> Some Fault_Block"
  shows "\<exists>ok. row_says w c st' ok \<and> (b = None \<longrightarrow> ok) \<and> ((\<exists>why. b = Some (Refused_Block why)) \<longrightarrow> \<not> ok)"
proof -
  have direct [simp]: "row_says w c (note_row c (call_row w c cls a ok why e) s) ok' \<longleftrightarrow> ok' = ok"
    for cls a ok ok' why e s
    using assms(2) by (auto simp: row_says_def call_row_def)
  show ?thesis
  proof (cases "classify_tool (tc_tool c)")
    case (Inl e)
    then show ?thesis
      using assms by (cases e) (auto simp: evaluate_tool_call_def Let_def)
  next
    case (Inr cl)
    show ?thesis
    proof (cases "\<exists>r args1 st1 st2. resolve_call w c (c_class cl) args st1 = Inr (r, args1, st2) \<and>
        settle w c r args1 st2 = (b, st')")
      case True
      then obtain r args1 st1 st2 where r: "resolve_call w c (c_class cl) args st1 = Inr (r, args1, st2)"
        "settle w c r args1 st2 = (b, st')" by blast
      show ?thesis
        using settle_row [OF assms(2) r(2)] settle_pass [OF r(1)] settle_refusal [OF r(1)] r(2)
        by (intro exI [of _ "d_allowed (r_decision r)"]) auto
    next
      case False
      then show ?thesis
        using assms Inr
        by (auto simp: evaluate_tool_call_def Let_def
            split: option.splits volume.splits sum.splits if_splits prod.splits)
    qed
  qed
qed

lemma every_verdict_is_recorded_witness:
  "\<exists>ok. row_says send_world send_call
     (snd (snd (evaluate_tool_call send_world send_call sample_args approved_state))) ok \<and> ok"
  using every_verdict_is_recorded [OF parts [OF sample_runs(1)]] by (simp add: sample_call_def)

text \<open>A call whose settling withholds an act put that act to the broker.\<close>

lemma settle_proposes:
  assumes "settle w c r args' st2 = (Some (Act_Withheld_Block line), st')"
  shows "\<exists>st3. propose_commitment_act w (tc_tool c) (tc_session c) args' st3 = (Act_Withheld_Block line, st') \<and>
    g_acts st3 = g_acts st2"
proof -
  define st3 where "st3 = capture_withheld w c r args'
    (note_row c (decision_row w c (r_decision r) (d_reason (r_decision r))) st2)"
  have matter: "fst (matter_checks w c r args' st3) \<noteq> Some (Act_Withheld_Block line)"
    by (auto simp: matter_checks_def Let_def)
  have later: "later_checks w c r args' \<noteq> Some (Act_Withheld_Block line)"
    by (auto simp: later_checks_def Let_def apply_content_floor_def split: option.splits sum.splits if_splits)
  have "propose_commitment_act w (tc_tool c) (tc_session c) args' st3 = (Act_Withheld_Block line, st')"
    using assms matter later
    by (auto simp: settle_def Let_def st3_def [symmetric] split: if_splits prod.splits option.splits)
  moreover have "g_acts st3 = g_acts st2" by (simp add: st3_def capture_withheld_def)
  ultimately show ?thesis by blast
qed

text \<open>C10: a commitment is put to an administrator, one at a time, in the sentence the broker wrote.
  If the hook answers that an act is withheld for confirmation, then the session was opened by an
  email from an authored administrator, no act was outstanding, the broker was asked with that
  administrator, the message and the payload of the act and answered with a proposal whose sentence
  the block carries as it is, and the session now owes the person exactly that sentence.\<close>

theorem acts_are_proposed_to_administrators:
  assumes "evaluate_tool_call w c args st = (Some (Act_Withheld_Block line), args', st')"
  shows "\<exists>doc sender m. w_config w = Document doc \<and> sender \<in> set (admins doc) \<and>
    resolve_admin_origin w (tc_session c) = Some (sender, m) \<and>
    \<not> fst (has_open ACT_TTL (w_now w) (tc_session c) (g_acts st)) \<and>
    fst (proposed ACT_TTL (w_now w) (tc_session c) (g_acts st')) = [line] \<and>
    (\<exists>payload proposal. act_payload w (tc_tool c) args' = Some payload \<and>
       w_broker w (tc_tool c) payload sender m (tc_session c) = Broker_Proposed proposal line)"
proof -
  have tool: "tc_tool c \<noteq> []" using assms by (auto simp: evaluate_tool_call_def)
  obtain cl where cl: "classify_tool (tc_tool c) = Inr cl" "mixing (w_gates w) (tc_session c) (tc_tool c) args = None"
    using assms tool
    by (auto simp: evaluate_tool_call_def Let_def split: option.splits sum.splits classify_error.splits)
  define st1 where "st1 = (case read_volume (w_gates w) (tc_session c) (tc_tool c) of
      Reported m \<Rightarrow> note_row c (call_row w c (class_value READ) Audit_Report True
        (''READ_VOLUME_GATE: '' @ m) None) st
    | _ \<Rightarrow> st)"
  have acts1: "g_acts st1 = g_acts st" by (simp add: st1_def split: volume.split)
  obtain x where x: "resolve_call w c (c_class cl) args st1 = Inr x"
      "(case x of (r, a, st2) \<Rightarrow> case settle w c r a st2 of (b, st3) \<Rightarrow> (b, a, st3)) =
        (Some (Act_Withheld_Block line), args', st')"
    using assms tool cl
    by (cases "read_volume (w_gates w) (tc_session c) (tc_tool c)";
        cases "resolve_call w c (c_class cl) args st1")
       (simp_all add: evaluate_tool_call_def Let_def st1_def split: if_splits)
  obtain r st2 where r: "resolve_call w c (c_class cl) args st1 = Inr (r, args', st2)"
      "settle w c r args' st2 = (Some (Act_Withheld_Block line), st')"
    using x by (cases x) (auto split: prod.splits)
  obtain expo floors cls where "decide_call w c expo floors cls args st1 = (r, args', st2)"
    using resolve_call_parts [OF r(1)] by blast
  from decide_call_parts(7) [OF this] have acts: "g_acts st2 = g_acts st \<or>
      g_acts st2 = snd (peek_confirmed ACT_TTL (w_now w) (tc_session c) (tc_tool c) (g_acts st))"
    using acts1 by (simp split: if_splits)
  obtain st3 where st3: "propose_commitment_act w (tc_tool c) (tc_session c) args' st3 = (Act_Withheld_Block line, st')"
      "g_acts st3 = g_acts st2"
    using settle_proposes [OF r(2)] by blast
  note p = propose_withheld [OF st3(1) tool]
  have "fst (has_open ACT_TTL (w_now w) (tc_session c)
      (snd (peek_confirmed ACT_TTL (w_now w) (tc_session c) (tc_tool c) (g_acts st)))) =
      fst (has_open ACT_TTL (w_now w) (tc_session c) (g_acts st))"
    by (simp add: has_open_def peek_confirmed_def case_prod_unfold live_act_fst live_act_get)
  then show ?thesis using p acts st3(2) by metis
qed

lemma acts_are_proposed_to_administrators_witness:
  "\<exists>sender m payload proposal. resolve_admin_origin asking_world ''s'' = Some (sender, m) \<and>
    (\<exists>tool line. w_broker asking_world tool payload sender m ''s'' = Broker_Proposed proposal line)"
  using acts_are_proposed_to_administrators [OF parts [OF sample_runs(5)]]
  by (simp add: sample_call_def) blast

end
