(* ===== verification/Audit_Chain.thy ===== *)
theory Audit_Chain
  imports Prelude "HOL-Library.Multiset"
begin

text \<open>
  The hash chain of the audit ledger (\<open>shared/audit_chain.py\<close>): canonical rows, links, and
  the verifier of an export. \<open>sha\<close> is the hexadecimal SHA-256 of the UTF-8 bytes of a text.
  A row carries its twelve column values as texts, \<open>None\<close> for NULL, and the two chain
  columns. The verifier's walk is a partial function: its result is \<open>None\<close> exactly when
  the loop would not end.
\<close>

section \<open>Canonical rows and links\<close>

definition GENESIS :: string where
  "GENESIS = ''GENESIS''"

definition CHAIN_COLUMNS :: "string list" where
  "CHAIN_COLUMNS =
     [''id'', ''ts'', ''action_type'', ''actor'', ''actor_role'', ''skill_name'', ''matter_ref'',
      ''input_digest'', ''output_digest'', ''diff_digest'', ''trust_ceiling'', ''metadata'']"

definition FIELD_SEP :: char where
  "FIELD_SEP = char_of (31 :: nat)"

definition LINK_SEP :: char where
  "LINK_SEP = char_of (30 :: nat)"

definition NONE_MARK :: string where
  "NONE_MARK = [char_of (0 :: nat)]"

definition field_text :: "string option \<Rightarrow> string" where
  "field_text v = (case v of None \<Rightarrow> NONE_MARK | Some s \<Rightarrow> s)"

fun sep_join :: "char \<Rightarrow> string list \<Rightarrow> string" where
  "sep_join c [] = []"
| "sep_join c [x] = x"
| "sep_join c (x # y # xs) = x @ c # sep_join c (y # xs)"

definition canonical_row :: "string option list \<Rightarrow> py_exn + string" where
  "canonical_row values =
     (if length values \<noteq> length CHAIN_COLUMNS
      then Inl (ValueError ''canonical_row: wrong number of values'')
      else Inr (sep_join FIELD_SEP (map field_text values)))"

definition compute_row_hash ::
  "(string \<Rightarrow> string) \<Rightarrow> string \<Rightarrow> string option list \<Rightarrow> py_exn + string" where
  "compute_row_hash sha prev values =
     (if prev = [] then Inl (ValueError ''compute_row_hash: prev_hash must be non-empty'')
      else map_sum id (\<lambda>body. sha (prev @ LINK_SEP # body)) (canonical_row values))"

definition legacy_anchor :: "(string \<Rightarrow> string) \<Rightarrow> string option \<Rightarrow> string" where
  "legacy_anchor sha row = (case row of None \<Rightarrow> GENESIS | Some i \<Rightarrow> sha (''LEGACY:'' @ i))"

section \<open>Verifying an export\<close>

record chain_row =
  cr_values :: "string option list"
  cr_prev :: "string option"
  cr_hash :: "string option"

text \<open>\<open>str(row.get("id"))\<close>\<close>

definition row_id :: "chain_row \<Rightarrow> string" where
  "row_id r = (case cr_values r of Some s # _ \<Rightarrow> s | _ \<Rightarrow> ''None'')"

datatype chain_break =
    Half_Chained string
  | Mutated string
  | No_Start
  | Second_Start string
  | Unjustified_Start string
  | Fork string
  | Unreachable nat

record scan =
  sc_chained :: "string list"
  sc_legacy :: nat
  sc_anchors :: "string list"
  sc_breaks :: "chain_break list"
  sc_by_prev :: "(string \<times> chain_row list) list"

definition empty_scan :: scan where
  "empty_scan = \<lparr>sc_chained = [], sc_legacy = 0, sc_anchors = [], sc_breaks = [], sc_by_prev = []\<rparr>"

text \<open>\<open>d.setdefault(p, []).append(r)\<close>\<close>

fun add_child :: "string \<Rightarrow> chain_row \<Rightarrow> (string \<times> chain_row list) list \<Rightarrow> (string \<times> chain_row list) list"
  where
  "add_child p r [] = [(p, [r])]"
| "add_child p r ((q, rs) # d) = (if q = p then (q, rs @ [r]) # d else (q, rs) # add_child p r d)"

definition scan_row :: "(string \<Rightarrow> string) \<Rightarrow> chain_row \<Rightarrow> scan \<Rightarrow> py_exn + scan" where
  "scan_row sha r sc =
     (case (cr_hash r, cr_prev r) of
        (None, None) \<Rightarrow>
          Inr (sc\<lparr>sc_legacy := sc_legacy sc + 1,
                  sc_anchors := legacy_anchor sha (Some (row_id r)) # sc_anchors sc\<rparr>)
      | (Some h, Some p) \<Rightarrow>
          (case compute_row_hash sha p (cr_values r) of
             Inl e \<Rightarrow> Inl e
           | Inr h' \<Rightarrow>
               if h' \<noteq> h then Inr (sc\<lparr>sc_breaks := sc_breaks sc @ [Mutated (row_id r)]\<rparr>)
               else Inr (sc\<lparr>sc_chained := List.insert h (sc_chained sc),
                            sc_by_prev := add_child p r (sc_by_prev sc)\<rparr>))
      | _ \<Rightarrow> Inr (sc\<lparr>sc_breaks := sc_breaks sc @ [Half_Chained (row_id r)]\<rparr>))"

fun scan_rows :: "(string \<Rightarrow> string) \<Rightarrow> chain_row list \<Rightarrow> scan \<Rightarrow> py_exn + scan" where
  "scan_rows sha [] sc = Inr sc"
| "scan_rows sha (r # rows) sc =
     (case scan_row sha r sc of Inl e \<Rightarrow> Inl e | Inr sc' \<Rightarrow> scan_rows sha rows sc')"

definition children :: "(string \<times> chain_row list) list \<Rightarrow> string \<Rightarrow> chain_row list" where
  "children by_prev h = (case map_of by_prev h of None \<Rightarrow> [] | Some rs \<Rightarrow> rs)"

definition chain_starts :: "string list \<Rightarrow> (string \<times> chain_row list) list \<Rightarrow> chain_row list" where
  "chain_starts chained by_prev =
     concat (map snd (filter (\<lambda>(p, rs). p = GENESIS \<or> p \<notin> set chained) by_prev))"

text \<open>The loop from the first start: rows visited, the last hash, and the forks seen.\<close>

partial_function (option) walk ::
  "(string \<times> chain_row list) list \<Rightarrow> chain_row \<Rightarrow> nat \<Rightarrow> chain_break list \<Rightarrow>
   (string \<times> nat \<times> chain_break list) option" where
  "walk by_prev cursor visited bs =
     (let h = the (cr_hash cursor); kids = children by_prev h;
          bs' = bs @ map (\<lambda>r. Fork (row_id r)) (drop 1 kids)
      in if kids = [] then Some (h, visited + 1, bs')
         else walk by_prev (hd kids) (visited + 1) bs')"

record chain_report =
  cp_ok :: bool
  cp_chained :: nat
  cp_legacy :: nat
  cp_head :: "string option"
  cp_breaks :: "chain_break list"

definition report_of ::
  "scan \<Rightarrow> chain_break list \<Rightarrow> string option \<Rightarrow> nat \<Rightarrow> chain_report" where
  "report_of sc bs head visited =
     (let chained = length (sc_chained sc);
          all = bs @ (if chained > visited then [Unreachable (chained - visited)] else [])
      in \<lparr>cp_ok = (all = []), cp_chained = chained, cp_legacy = sc_legacy sc, cp_head = head,
          cp_breaks = all\<rparr>)"

definition verify_scan :: "scan \<Rightarrow> chain_report option" where
  "verify_scan sc =
     (let starts = chain_starts (sc_chained sc) (sc_by_prev sc);
          bs1 = sc_breaks sc @ (if sc_chained sc \<noteq> [] \<and> starts = [] then [No_Start] else []) @
            map (\<lambda>r. Second_Start (row_id r)) (drop 1 starts)
      in case starts of
           [] \<Rightarrow> Some (report_of sc bs1 None 0)
         | s # _ \<Rightarrow>
             (let p = the (cr_prev s);
                  bs2 = bs1 @ (if p \<noteq> GENESIS \<and> p \<notin> set (sc_anchors sc)
                               then [Unjustified_Start (row_id s)] else [])
              in case walk (sc_by_prev sc) s 0 bs2 of
                   None \<Rightarrow> None
                 | Some (head, visited, bs3) \<Rightarrow> Some (report_of sc bs3 (Some head) visited)))"

definition verify_chain :: "(string \<Rightarrow> string) \<Rightarrow> chain_row list \<Rightarrow> py_exn + chain_report option" where
  "verify_chain sha rows = map_sum id verify_scan (scan_rows sha rows empty_scan)"

section \<open>What the scan collects\<close>

text \<open>A row that links: both chain columns, and a hash that recomputes.\<close>

definition sound_row :: "(string \<Rightarrow> string) \<Rightarrow> chain_row \<Rightarrow> bool" where
  "sound_row sha r \<longleftrightarrow>
     (\<exists>p h. cr_prev r = Some p \<and> cr_hash r = Some h \<and> compute_row_hash sha p (cr_values r) = Inr h)"

definition legacy_row :: "chain_row \<Rightarrow> bool" where
  "legacy_row r \<longleftrightarrow> cr_prev r = None \<and> cr_hash r = None"

abbreviation prev_of :: "chain_row \<Rightarrow> string" where
  "prev_of r \<equiv> the (cr_prev r)"

abbreviation hash_of :: "chain_row \<Rightarrow> string" where
  "hash_of r \<equiv> the (cr_hash r)"

lemma children_add:
  "children (add_child p r d) h = children d h @ (if h = p then [r] else [])"
  by (induction p r d rule: add_child.induct) (auto simp: children_def)

lemma keys_add: "set (map fst (add_child p r d)) = insert p (set (map fst d))"
  by (induction p r d rule: add_child.induct) auto

lemma distinct_add: "distinct (map fst d) \<Longrightarrow> distinct (map fst (add_child p r d))"
proof (induction p r d rule: add_child.induct)
  case (2 p r q rs d)
  then show ?case using keys_add [of p r d] by auto
qed simp

text \<open>The relation between the scan of some rows and those rows.\<close>

definition scanned :: "(string \<Rightarrow> string) \<Rightarrow> chain_row list \<Rightarrow> scan \<Rightarrow> bool" where
  "scanned sha rows sc \<longleftrightarrow>
     set (sc_chained sc) = hash_of ` set (filter (sound_row sha) rows) \<and> distinct (sc_chained sc) \<and>
     sc_legacy sc = length (filter legacy_row rows) \<and>
     set (sc_anchors sc) = (\<lambda>r. legacy_anchor sha (Some (row_id r))) ` set (filter legacy_row rows) \<and>
     (sc_breaks sc = [] \<longleftrightarrow> list_all (\<lambda>r. sound_row sha r \<or> legacy_row r) rows) \<and>
     (\<forall>h. children (sc_by_prev sc) h = filter (\<lambda>r. sound_row sha r \<and> prev_of r = h) rows) \<and>
     distinct (map fst (sc_by_prev sc)) \<and>
     set (map fst (sc_by_prev sc)) = prev_of ` set (filter (sound_row sha) rows)"

lemma scanned_empty: "scanned sha [] empty_scan"
  by (simp add: scanned_def empty_scan_def children_def)

lemma scan_row_scanned:
  assumes "scanned sha rows sc" "scan_row sha r sc = Inr sc'"
  shows "scanned sha (rows @ [r]) sc'"
proof -
  consider "legacy_row r" | h p where "cr_hash r = Some h" "cr_prev r = Some p"
    | "(cr_hash r = None) \<noteq> (cr_prev r = None)"
    by (cases "cr_hash r"; cases "cr_prev r") (auto simp: legacy_row_def)
  then show ?thesis
  proof cases
    case 1
    then have "\<not> sound_row sha r" by (simp add: sound_row_def legacy_row_def)
    moreover have "sc' = sc\<lparr>sc_legacy := sc_legacy sc + 1,
        sc_anchors := legacy_anchor sha (Some (row_id r)) # sc_anchors sc\<rparr>"
      using assms(2) 1 by (simp add: scan_row_def legacy_row_def)
    ultimately show ?thesis using assms(1) 1 by (simp add: scanned_def)
  next
    case (2 h p)
    then have leg: "\<not> legacy_row r" by (simp add: legacy_row_def)
    show ?thesis
    proof (cases "compute_row_hash sha p (cr_values r) = Inr h")
      case True
      then have snd: "sound_row sha r" using 2 by (simp add: sound_row_def)
      have sc': "sc' = sc\<lparr>sc_chained := List.insert h (sc_chained sc),
          sc_by_prev := add_child p r (sc_by_prev sc)\<rparr>"
        using assms(2) 2 True by (simp add: scan_row_def)
      have "set (map fst (add_child p r (sc_by_prev sc))) = insert p (set (map fst (sc_by_prev sc)))"
        by (rule keys_add)
      then show ?thesis
        using assms(1) snd leg 2 by (simp add: sc' scanned_def children_add distinct_add)
    next
      case False
      then have snd: "\<not> sound_row sha r" using 2 by (auto simp: sound_row_def)
      moreover have "sc' = sc\<lparr>sc_breaks := sc_breaks sc @ [Mutated (row_id r)]\<rparr>"
        using assms(2) 2 False by (auto simp: scan_row_def split: sum.splits if_splits)
      ultimately show ?thesis using assms(1) leg by (simp add: scanned_def)
    qed
  next
    case 3
    then have "\<not> sound_row sha r" "\<not> legacy_row r" by (auto simp: sound_row_def legacy_row_def)
    moreover have "sc' = sc\<lparr>sc_breaks := sc_breaks sc @ [Half_Chained (row_id r)]\<rparr>"
      using assms(2) 3 by (auto simp: scan_row_def split: option.splits)
    ultimately show ?thesis using assms(1) by (simp add: scanned_def)
  qed
qed

lemma scan_rows_scanned:
  "scanned sha seen sc \<Longrightarrow> scan_rows sha rows sc = Inr sc' \<Longrightarrow> scanned sha (seen @ rows) sc'"
proof (induction rows arbitrary: seen sc)
  case (Cons r rows)
  then obtain sc1 where sc1: "scan_row sha r sc = Inr sc1" "scan_rows sha rows sc1 = Inr sc'"
    by (auto split: sum.splits)
  from Cons.IH [OF scan_row_scanned [OF Cons.prems(1) sc1(1)] sc1(2)] show ?case by simp
qed simp

text \<open>The scan raises only on an empty \<open>prev_hash\<close> beside a hash, or a row without its twelve columns.\<close>

definition shaped :: "chain_row \<Rightarrow> bool" where
  "shaped r \<longleftrightarrow> length (cr_values r) = length CHAIN_COLUMNS \<and> (cr_hash r \<noteq> None \<longrightarrow> cr_prev r \<noteq> Some [])"

lemma shaped_computes:
  "shaped r \<Longrightarrow> cr_hash r = Some h \<Longrightarrow> cr_prev r = Some p \<Longrightarrow>
     compute_row_hash sha p (cr_values r) =
       Inr (sha (p @ LINK_SEP # sep_join FIELD_SEP (map field_text (cr_values r))))"
  by (simp add: shaped_def compute_row_hash_def canonical_row_def)

lemma scan_returns:
  "\<forall>r \<in> set rows. shaped r \<Longrightarrow> \<exists>sc'. scan_rows sha rows sc = Inr sc'"
proof (induction rows arbitrary: sc)
  case (Cons r rows)
  have "\<exists>sc1. scan_row sha r sc = Inr sc1"
    using Cons.prems shaped_computes [of r]
    by (cases "cr_hash r"; cases "cr_prev r") (auto simp: scan_row_def)
  then show ?case using Cons by auto
qed simp

section \<open>Chains\<close>

fun linked_from :: "string \<Rightarrow> chain_row list \<Rightarrow> bool" where
  "linked_from a [] = True"
| "linked_from a (r # rs) = (prev_of r = a \<and> linked_from (hash_of r) rs)"

lemma linked_append:
  "linked_from a (us @ vs) \<longleftrightarrow> linked_from a us \<and> linked_from (if us = [] then a else hash_of (last us)) vs"
  by (induction us arbitrary: a) auto

lemma linked_nth: "linked_from a rs \<Longrightarrow> Suc i < length rs \<Longrightarrow> prev_of (rs ! Suc i) = hash_of (rs ! i)"
proof (induction rs arbitrary: a i)
  case (Cons r rs)
  then show ?case by (cases i; cases rs) auto
qed simp

lemma linked_distinct:
  assumes "linked_from a rs" "a \<notin> hash_of ` set rs" "inj_on hash_of (set rs)"
  shows "distinct rs"
  using assms
proof (induction rs rule: rev_induct)
  case (snoc x rs)
  have sub: "set rs \<subseteq> set (rs @ [x])" by auto
  then have d: "distinct rs"
    using snoc inj_on_subset [OF snoc.prems(3) sub] by (auto simp: linked_append)
  moreover have "x \<notin> set rs"
  proof
    assume "x \<in> set rs"
    then obtain i where i: "i < length rs" "rs ! i = x" by (auto simp: in_set_conv_nth)
    have ne: "rs \<noteq> []" using i by auto
    then have px: "prev_of x = hash_of (last rs)" using snoc.prems(1) by (simp add: linked_append)
    show False
    proof (cases i)
      case 0
      then have "prev_of x = a" using i ne snoc.prems(1) by (cases rs) auto
      then show ?thesis using px snoc.prems(2) ne by auto
    next
      case (Suc j)
      have "prev_of x = hash_of (rs ! j)"
        using linked_nth [of a rs j] snoc.prems(1) i Suc by (simp add: linked_append)
      then have "hash_of (rs ! j) = hash_of (last rs)" using px by simp
      then have "rs ! j = last rs"
        using inj_onD [OF snoc.prems(3), of "rs ! j" "last rs"] ne i Suc by simp
      then have "j = length rs - 1"
        using d ne i Suc nth_eq_iff_index_eq [of rs j "length rs - 1"] by (simp add: last_conv_nth)
      then show ?thesis using i Suc by simp
    qed
  qed
  ultimately show ?case by simp
qed simp

text \<open>The path the walk follows when no row has two children.\<close>

fun sole_path :: "(string \<times> chain_row list) list \<Rightarrow> chain_row list \<Rightarrow> bool" where
  "sole_path d [] = False"
| "sole_path d [x] = (children d (hash_of x) = [])"
| "sole_path d (x # y # xs) = (children d (hash_of x) = [y] \<and> sole_path d (y # xs))"

lemma walk_along:
  "sole_path d (x # xs) \<Longrightarrow>
     walk d x v bs = Some (hash_of (last (x # xs)), v + length (x # xs), bs)"
proof (induction xs arbitrary: x v)
  case Nil
  then show ?case by (subst walk.simps) (simp add: Let_def)
next
  case (Cons y xs)
  then have "walk d x v bs = walk d y (v + 1) bs" by (subst walk.simps) (simp add: Let_def)
  then show ?case using Cons by simp
qed

definition clean_walk ::
  "(string \<times> chain_row list) list \<Rightarrow> chain_row \<Rightarrow> nat \<Rightarrow> chain_break list \<Rightarrow>
   string \<times> nat \<times> chain_break list \<Rightarrow> bool" where
  "clean_walk d x v bs res \<longleftrightarrow>
     (snd (snd res) = [] \<longrightarrow>
       bs = [] \<and> (\<exists>xs. sole_path d (x # xs) \<and> fst (snd res) = v + length (x # xs)))"

lemma walk_clean: "walk d x v bs = Some res \<Longrightarrow> clean_walk d x v bs res"
proof (induction d x v bs res rule: walk.raw_induct [rotated, consumes 1, case_names step])
  case (step walk' d x v bs res)
  show ?case
  proof (cases "children d (hash_of x)")
    case Nil
    then have "sole_path d [x]" by simp
    then show ?thesis using step(2) Nil by (fastforce simp: clean_walk_def Let_def)
  next
    case (Cons y ys)
    then have "walk' d y (v + 1) (bs @ map (\<lambda>r. Fork (row_id r)) ys) = Some res"
      using step(2) by (simp add: Let_def)
    from step(1) [OF this] have "clean_walk d y (v + 1) (bs @ map (\<lambda>r. Fork (row_id r)) ys) res" .
    then have c: "bs = [] \<and> ys = [] \<and> (\<exists>xs. sole_path d (y # xs) \<and> fst (snd res) = v + 1 + length (y # xs))"
      if "snd (snd res) = []"
      using that by (simp add: clean_walk_def)
    show ?thesis
      unfolding clean_walk_def
    proof
      assume "snd (snd res) = []"
      from c [OF this] obtain xs where "bs = []" "ys = []" "sole_path d (y # xs)"
          "fst (snd res) = v + 1 + length (y # xs)" by blast
      moreover from this have "sole_path d (x # y # xs)" using Cons by simp
      ultimately show "bs = [] \<and> (\<exists>xs. sole_path d (x # xs) \<and> fst (snd res) = v + length (x # xs))"
        by (intro conjI exI [of _ "y # xs"]) auto
    qed
  qed
qed

lemma sole_path_unique: "sole_path d (x # xs) \<Longrightarrow> sole_path d (x # ys) \<Longrightarrow> xs = ys"
proof (induction xs arbitrary: x ys)
  case Nil
  then show ?case by (cases ys) auto
next
  case (Cons z xs)
  then show ?case by (cases ys) auto
qed

lemma sole_path_suffix: "sole_path d (us @ x # xs) \<Longrightarrow> sole_path d (x # xs)"
proof (induction us)
  case (Cons u us)
  then show ?case by (cases us) auto
qed simp

lemma sole_path_distinct: "sole_path d xs \<Longrightarrow> distinct xs"
proof (induction xs)
  case (Cons x xs)
  have "x \<notin> set xs"
  proof
    assume "x \<in> set xs"
    then obtain us vs where xs: "xs = us @ x # vs" by (auto simp: in_set_conv_decomp)
    then have "sole_path d (x # vs)" using sole_path_suffix [of d "x # us" x vs] Cons.prems by simp
    then have "xs = vs" using sole_path_unique Cons.prems by blast
    then show False using xs by simp
  qed
  then show ?case using Cons by (cases xs) auto
qed simp

text \<open>Every row after the first of such a path is the one child of some hash.\<close>

lemma sole_path_child: "sole_path d (s # xs) \<Longrightarrow> y \<in> set xs \<Longrightarrow> \<exists>h. children d h = [y]"
proof (induction xs arbitrary: s)
  case (Cons z xs)
  then show ?case by auto
qed simp

section \<open>The verifier returns\<close>

abbreviation linking :: "(string \<Rightarrow> string) \<Rightarrow> chain_row list \<Rightarrow> chain_row list" where
  "linking sha rows \<equiv> filter (sound_row sha) rows"

definition anchors :: "(string \<Rightarrow> string) \<Rightarrow> chain_row list \<Rightarrow> string set" where
  "anchors sha rows = (\<lambda>r. legacy_anchor sha (Some (row_id r))) ` set (filter legacy_row rows)"

text \<open>What the verifier relies on of SHA-256 over the rows of one export: no two of the linking
  rows share a hash, and no hash is the genesis word or the anchor of a legacy row.\<close>

definition no_collision :: "(string \<Rightarrow> string) \<Rightarrow> chain_row list \<Rightarrow> bool" where
  "no_collision sha rows \<longleftrightarrow>
     inj_on hash_of (set (linking sha rows)) \<and> GENESIS \<notin> hash_of ` set (linking sha rows) \<and>
     anchors sha rows \<inter> hash_of ` set (linking sha rows) = {}"

lemma walk_returns:
  assumes kids: "\<And>h. children d h = filter (\<lambda>r. sound_row sha r \<and> prev_of r = h) rows"
    and inj: "inj_on hash_of (set (linking sha rows))"
    and a: "a \<notin> hash_of ` set (linking sha rows)"
  shows "linked_from a (us @ [x]) \<Longrightarrow> set (us @ [x]) \<subseteq> set (linking sha rows) \<Longrightarrow>
           \<exists>res. walk d x v bs = Some res"
proof (induction "card (set (linking sha rows)) - length us" arbitrary: us x v bs rule: less_induct)
  case less
  show ?case
  proof (cases "children d (hash_of x)")
    case Nil
    then show ?thesis by (subst walk.simps) (simp add: Let_def)
  next
    case (Cons y ys)
    have "distinct (us @ [x])"
      by (rule linked_distinct [OF less.prems(1)])
        (use less.prems(2) a inj_on_subset [OF inj less.prems(2)] in auto)
    then have "length (us @ [x]) \<le> card (set (linking sha rows))"
      using card_mono [OF _ less.prems(2)] distinct_card [of "us @ [x]"] by simp
    then have m: "card (set (linking sha rows)) - length (us @ [x]) < card (set (linking sha rows)) - length us"
      by simp
    have "y \<in> set (children d (hash_of x))" using Cons by simp
    then have y: "y \<in> set (linking sha rows)" "prev_of y = hash_of x" by (auto simp: kids)
    have "\<exists>res. walk d y (v + 1) (bs @ map (\<lambda>r. Fork (row_id r)) ys) = Some res"
      using less.hyps [OF m, of y] less.prems y by (simp add: linked_append)
    then show ?thesis using Cons by (subst walk.simps) (simp add: Let_def)
  qed
qed

lemma starts_in:
  assumes "scanned sha rows sc"
  shows "r \<in> set (chain_starts (sc_chained sc) (sc_by_prev sc)) \<longleftrightarrow>
           r \<in> set (linking sha rows) \<and>
           (prev_of r = GENESIS \<or> prev_of r \<notin> hash_of ` set (linking sha rows))"
proof -
  have kids: "\<And>h. children (sc_by_prev sc) h = filter (\<lambda>r. sound_row sha r \<and> prev_of r = h) rows"
    and d: "distinct (map fst (sc_by_prev sc))"
    and ch: "set (sc_chained sc) = hash_of ` set (linking sha rows)"
    using assms by (auto simp: scanned_def)
  have entry: "rs = filter (\<lambda>r. sound_row sha r \<and> prev_of r = p) rows" if "(p, rs) \<in> set (sc_by_prev sc)" for p rs
    using kids [of p] that d by (simp add: children_def)
  have key: "\<exists>rs. (prev_of r, rs) \<in> set (sc_by_prev sc)" if "r \<in> set (linking sha rows)"
    using assms that by (force simp: scanned_def)
  show ?thesis
  proof
    assume "r \<in> set (chain_starts (sc_chained sc) (sc_by_prev sc))"
    then obtain p rs where "(p, rs) \<in> set (sc_by_prev sc)" "p = GENESIS \<or> p \<notin> set (sc_chained sc)" "r \<in> set rs"
      by (auto simp: chain_starts_def)
    then show "r \<in> set (linking sha rows) \<and>
        (prev_of r = GENESIS \<or> prev_of r \<notin> hash_of ` set (linking sha rows))"
      using entry [of p rs] ch by auto
  next
    assume r: "r \<in> set (linking sha rows) \<and>
        (prev_of r = GENESIS \<or> prev_of r \<notin> hash_of ` set (linking sha rows))"
    then obtain rs where rs: "(prev_of r, rs) \<in> set (sc_by_prev sc)" using key by blast
    have "rs = filter (\<lambda>r'. sound_row sha r' \<and> prev_of r' = prev_of r) rows" by (rule entry [OF rs])
    then have "r \<in> set rs" using r by simp
    then show "r \<in> set (chain_starts (sc_chained sc) (sc_by_prev sc))"
      using rs r ch by (force simp: chain_starts_def)
  qed
qed

lemma verify_scan_returns:
  assumes s: "scanned sha rows sc" and inj: "inj_on hash_of (set (linking sha rows))"
    and g: "GENESIS \<notin> hash_of ` set (linking sha rows)"
  shows "\<exists>rep. verify_scan sc = Some rep"
proof (cases "chain_starts (sc_chained sc) (sc_by_prev sc)")
  case Nil
  then show ?thesis by (simp add: verify_scan_def Let_def)
next
  case (Cons x xs)
  then have x: "x \<in> set (linking sha rows)" "prev_of x \<notin> hash_of ` set (linking sha rows)"
    using starts_in [OF s, of x] g by auto
  have "\<exists>res. walk (sc_by_prev sc) x v bs = Some res" for v bs
    by (rule walk_returns [where sha = sha and rows = rows and a = "prev_of x" and us = "[]"])
      (use x s inj in \<open>auto simp: scanned_def\<close>)
  then have "walk (sc_by_prev sc) x v bs \<noteq> None" for v bs by simp
  then show ?thesis
    using Cons by (simp add: verify_scan_def Let_def option.case_eq_if case_prod_unfold del: not_None_eq)
qed

section \<open>What a clean report means\<close>

text \<open>The specification: every row is a legacy row or a linking one, and the linking ones form
  one line that begins at the genesis word or at the anchor of a legacy row of the export.\<close>

definition intact :: "(string \<Rightarrow> string) \<Rightarrow> chain_row list \<Rightarrow> bool" where
  "intact sha rows \<longleftrightarrow>
     (\<forall>r \<in> set rows. sound_row sha r \<or> legacy_row r) \<and>
     (\<exists>a \<in> insert GENESIS (anchors sha rows).
        \<exists>rs. mset rs = mset (linking sha rows) \<and> linked_from a rs)"

lemma filter_single:
  assumes "distinct xs" "{x \<in> set xs. P x} = {y}"
  shows "filter P xs = [y]"
proof -
  have "distinct (filter P xs)" "set (filter P xs) = {y}" using assms by auto
  then show ?thesis
  proof (cases "filter P xs")
    case (Cons z zs)
    have "z = y" "set zs \<subseteq> {y}" "z \<notin> set zs"
      using \<open>distinct (filter P xs)\<close> \<open>set (filter P xs) = {y}\<close> unfolding Cons by auto
    then show ?thesis using Cons by (cases zs) auto
  qed simp
qed

text \<open>On a line of rows whose hashes differ, only the next row names a row as its parent.\<close>

lemma linked_next:
  assumes "linked_from a rs" "distinct rs" "inj_on hash_of (set rs)" "a \<notin> hash_of ` set rs"
    and "r \<in> set rs" "k < length rs" "prev_of r = hash_of (rs ! k)"
  shows "Suc k < length rs \<and> r = rs ! Suc k"
proof -
  obtain i where i: "i < length rs" "r = rs ! i" using assms(5) by (auto simp: in_set_conv_nth)
  show ?thesis
  proof (cases i)
    case 0
    then have "prev_of r = a" using i assms(1) by (cases rs) auto
    then show ?thesis using assms(4,6,7) by auto
  next
    case (Suc j)
    then have "hash_of (rs ! j) = hash_of (rs ! k)" using linked_nth [OF assms(1), of j] i assms(7) by simp
    then have "rs ! j = rs ! k" using assms(6) i Suc by (intro inj_onD [OF assms(3)]) auto
    then have "j = k" using nth_eq_iff_index_eq [OF assms(2)] assms(6) i Suc by simp
    then show ?thesis using i Suc by simp
  qed
qed

lemma sole_path_set:
  assumes "sole_path d (x # xs)" "\<And>h. children d h = filter (\<lambda>r. sound_row sha r \<and> prev_of r = h) rows"
  shows "set xs \<subseteq> set (linking sha rows)"
proof
  fix y assume "y \<in> set xs"
  then obtain h where "children d h = [y]" using sole_path_child [OF assms(1)] by blast
  then have "y \<in> set (children d h)" by simp
  then show "y \<in> set (linking sha rows)" by (auto simp: assms(2))
qed

lemma sole_path_linked:
  assumes "\<And>h. children d h = filter (\<lambda>r. sound_row sha r \<and> prev_of r = h) rows"
  shows "sole_path d (x # xs) \<Longrightarrow> linked_from (prev_of x) (x # xs)"
proof (induction xs arbitrary: x)
  case (Cons y xs)
  then have "y \<in> set (children d (hash_of x))" by simp
  then have "prev_of y = hash_of x" by (auto simp: assms)
  then show ?case using Cons by simp
qed simp

lemma linked_sole_path:
  assumes kids: "\<And>h. children d h = filter (\<lambda>r. sound_row sha r \<and> prev_of r = h) rows"
    and dist: "distinct (linking sha rows)"
    and inj: "inj_on hash_of (set (linking sha rows))"
    and a: "a \<notin> hash_of ` set (linking sha rows)"
    and all: "set rs = set (linking sha rows)" "distinct rs" "linked_from a rs"
  shows "rs = us @ x # xs \<Longrightarrow> sole_path d (x # xs)"
proof (induction xs arbitrary: us x)
  case Nil
  have "prev_of r \<noteq> hash_of x" if "r \<in> set rs" for r
    using linked_next [OF all(3,2) inj [folded all(1)] a [folded all(1)] that, of "length us"] Nil by auto
  then have "filter (\<lambda>r. sound_row sha r \<and> prev_of r = hash_of x) rows = []"
    using all(1) by (auto simp: filter_empty_conv)
  then show ?case by (simp add: kids)
next
  case (Cons y ys)
  have rec: "sole_path d (y # ys)" by (rule Cons.IH [of "us @ [x]"]) (use Cons.prems in simp)
  have py: "prev_of y = hash_of x" using all(3) Cons.prems by (simp add: linked_append)
  have "r = y" if "r \<in> set rs" "prev_of r = hash_of x" for r
    using linked_next [OF all(3,2) inj [folded all(1)] a [folded all(1)] that(1), of "length us"]
      that(2) Cons.prems by (auto simp: nth_append)
  then have "{r \<in> set (linking sha rows). prev_of r = hash_of x} = {y}"
    using py all(1) Cons.prems by auto
  from filter_single [OF dist this] have "children d (hash_of x) = [y]"
    by (simp add: kids conj_commute)
  then show ?case using rec by simp
qed

lemma starts_single:
  assumes s: "scanned sha rows sc" and st: "chain_starts (sc_chained sc) (sc_by_prev sc) = [x]"
  shows "filter (\<lambda>r. sound_row sha r \<and> prev_of r = prev_of x) rows = [x]"
proof -
  let ?F = "filter (\<lambda>r. sound_row sha r \<and> prev_of r = prev_of x) rows"
  have kids: "\<And>h. children (sc_by_prev sc) h = filter (\<lambda>r. sound_row sha r \<and> prev_of r = h) rows"
    using s by (simp add: scanned_def)
  have x: "x \<in> set ?F" "prev_of x = GENESIS \<or> prev_of x \<notin> set (sc_chained sc)"
    using starts_in [OF s, of x] st s by (auto simp: scanned_def)
  have ne: "?F \<noteq> []" using x(1) by (metis empty_iff empty_set)
  with x have "map_of (sc_by_prev sc) (prev_of x) = Some ?F"
    using kids [of "prev_of x"] by (simp add: children_def split: option.splits)
  then have "(prev_of x, ?F) \<in> set (sc_by_prev sc)" by (rule map_of_SomeD)
  then obtain us vs where "sc_by_prev sc = us @ (prev_of x, ?F) # vs" by (auto simp: in_set_conv_decomp)
  then obtain us' vs' where "us' @ ?F @ vs' = [x]" using st x(2) by (auto simp: chain_starts_def)
  then show ?thesis using ne by (auto simp: append_eq_Cons_conv)
qed

lemma distinct_by_count: "(\<And>y. y \<in> set xs \<Longrightarrow> count (mset xs) y = 1) \<Longrightarrow> distinct xs"
  unfolding distinct_count_atmost_1 by (metis count_mset_0_iff)

lemma clean_report_intact:
  assumes s: "scanned sha rows sc" and c: "no_collision sha rows"
    and v: "verify_scan sc = Some rep" and ok: "cp_ok rep"
  shows "intact sha rows"
proof -
  have kids: "\<And>h. children (sc_by_prev sc) h = filter (\<lambda>r. sound_row sha r \<and> prev_of r = h) rows"
    and ch: "set (sc_chained sc) = hash_of ` set (linking sha rows)" "distinct (sc_chained sc)"
    and anc: "set (sc_anchors sc) = anchors sha rows"
    using s by (auto simp: scanned_def anchors_def)
  have inj: "inj_on hash_of (set (linking sha rows))" using c by (simp add: no_collision_def)
  have len: "length (sc_chained sc) = card (set (linking sha rows))"
    using ch distinct_card [of "sc_chained sc"] card_image [OF inj] by simp
  show ?thesis
  proof (cases "chain_starts (sc_chained sc) (sc_by_prev sc)")
    case Nil
    then have "sc_breaks sc = []" "sc_chained sc = []"
      using v ok by (auto simp: verify_scan_def report_of_def Let_def split: if_splits)
    then have "linking sha rows = []" "\<forall>r \<in> set rows. sound_row sha r \<or> legacy_row r"
      using s ch by (auto simp: scanned_def list_all_iff)
    then show ?thesis unfolding intact_def by (intro conjI bexI [of _ GENESIS] exI [of _ "[]"]) auto
  next
    case (Cons x xs)
    define bs2 where "bs2 = sc_breaks sc @ map (\<lambda>r. Second_Start (row_id r)) xs @
      (if prev_of x \<noteq> GENESIS \<and> prev_of x \<notin> set (sc_anchors sc) then [Unjustified_Start (row_id x)] else [])"
    obtain head visited bs3 where w: "walk (sc_by_prev sc) x 0 bs2 = Some (head, visited, bs3)"
      "rep = report_of sc bs3 (Some head) visited"
      using v Cons by (auto simp: verify_scan_def Let_def bs2_def split: option.splits)
    then have r: "bs3 = []" "length (sc_chained sc) \<le> visited"
      using ok by (auto simp: report_of_def Let_def split: if_splits)
    then obtain path where path: "bs2 = []" "sole_path (sc_by_prev sc) (x # path)" "visited = length (x # path)"
      using walk_clean [OF w(1)] by (auto simp: clean_walk_def)
    have xs: "xs = []" "sc_breaks sc = []" "prev_of x = GENESIS \<or> prev_of x \<in> anchors sha rows"
      using path(1) anc by (auto simp: bs2_def split: if_splits)
    have xin: "x \<in> set (linking sha rows)" using starts_in [OF s, of x] Cons by simp
    have sub: "set (x # path) \<subseteq> set (linking sha rows)"
      using xin sole_path_set [OF path(2) kids] by simp
    have dp: "distinct (x # path)" by (rule sole_path_distinct [OF path(2)])
    then have "card (set (x # path)) = visited" using path(3) distinct_card by metis
    then have eq: "set (x # path) = set (linking sha rows)"
      using card_seteq [OF _ sub] r(2) len by simp
    have one: "count (mset (linking sha rows)) y = 1" if y: "y \<in> set (x # path)" for y
    proof -
      have "\<exists>h. filter (\<lambda>r. sound_row sha r \<and> prev_of r = h) rows = [y]"
      proof (cases "y = x")
        case True
        then show ?thesis using starts_single [OF s] Cons xs(1) by auto
      next
        case False
        then show ?thesis using sole_path_child [OF path(2), of y] y kids by auto
      qed
      then obtain h where h: "filter (\<lambda>r. prev_of r = h) (linking sha rows) = [y]"
        by (auto simp: conj_commute)
      then have "prev_of y = h" using filter_eq_Cons_iff by (metis (mono_tags, lifting))
      have "count (mset (filter (\<lambda>r. prev_of r = h) (linking sha rows))) y = count (mset (linking sha rows)) y"
        using \<open>prev_of y = h\<close> by simp
      then show ?thesis unfolding h by simp
    qed
    have "distinct (linking sha rows)"
      by (rule distinct_by_count) (use one eq in blast)
    then have "mset (x # path) = mset (linking sha rows)"
      using dp eq set_eq_iff_mset_eq_distinct by blast
    moreover have "linked_from (prev_of x) (x # path)" by (rule sole_path_linked [OF kids path(2)])
    moreover have "\<forall>r \<in> set rows. sound_row sha r \<or> legacy_row r"
      using s xs(2) by (auto simp: scanned_def list_all_iff)
    ultimately show ?thesis using xs(3) unfolding intact_def by blast
  qed
qed

lemma distinct_groups:
  "distinct (map fst d) \<Longrightarrow> (\<And>p rs. (p, rs) \<in> set d \<Longrightarrow> distinct rs \<and> (\<forall>r \<in> set rs. f r = p)) \<Longrightarrow>
     distinct (concat (map snd (filter P d)))"
proof (induction d)
  case (Cons e d)
  obtain p rs where e: "e = (p, rs)" by (cases e)
  have "distinct (concat (map snd (filter P d)))"
    by (rule Cons.IH) (use Cons.prems in auto)
  moreover have "set rs \<inter> set rs' = {}" if "(q, rs') \<in> set d" for q rs'
  proof -
    have "q \<noteq> p" using Cons.prems(1) that e by force
    then show ?thesis using Cons.prems(2) [of p rs] Cons.prems(2) [of q rs'] that e by auto
  qed
  then have "set rs \<inter> set (concat (map snd (filter P d))) = {}" by fastforce
  ultimately show ?case using Cons.prems(2) [of p rs] e by auto
qed simp

lemma starts_distinct:
  assumes s: "scanned sha rows sc" and d: "distinct (linking sha rows)"
  shows "distinct (chain_starts (sc_chained sc) (sc_by_prev sc))"
proof -
  have kids: "\<And>h. children (sc_by_prev sc) h = filter (\<lambda>r. sound_row sha r \<and> prev_of r = h) rows"
    and dk: "distinct (map fst (sc_by_prev sc))"
    using s by (auto simp: scanned_def)
  have "(p, rs) \<in> set (sc_by_prev sc) \<Longrightarrow> distinct rs \<and> (\<forall>r \<in> set rs. prev_of r = p)" for p rs
  proof -
    assume "(p, rs) \<in> set (sc_by_prev sc)"
    then have "rs = filter (\<lambda>r. prev_of r = p) (linking sha rows)"
      using kids [of p] dk by (simp add: children_def conj_commute)
    then show "distinct rs \<and> (\<forall>r \<in> set rs. prev_of r = p)"
      using distinct_filter [OF d, of "\<lambda>r. prev_of r = p"] by (auto simp: conj_commute)
  qed
  then show ?thesis unfolding chain_starts_def by (intro distinct_groups [OF dk, where f = prev_of]) blast
qed

lemma anchor_no_hash:
  assumes "no_collision sha rows" "a \<in> insert GENESIS (anchors sha rows)"
  shows "a \<notin> hash_of ` set (linking sha rows)"
proof (cases "a = GENESIS")
  case True
  then show ?thesis using assms(1) by (simp add: no_collision_def)
next
  case False
  then have "a \<in> anchors sha rows" using assms(2) by simp
  moreover have "anchors sha rows \<inter> hash_of ` set (linking sha rows) = {}"
    using assms(1) by (simp only: no_collision_def)
  ultimately show ?thesis by (metis disjoint_iff)
qed

lemma intact_clean_report:
  assumes s: "scanned sha rows sc" and c: "no_collision sha rows" and i: "intact sha rows"
  shows "\<exists>rep. verify_scan sc = Some rep \<and> cp_ok rep"
proof -
  have kids: "\<And>h. children (sc_by_prev sc) h = filter (\<lambda>r. sound_row sha r \<and> prev_of r = h) rows"
    and ch: "set (sc_chained sc) = hash_of ` set (linking sha rows)" "distinct (sc_chained sc)"
    and anc: "set (sc_anchors sc) = anchors sha rows"
    using s by (auto simp: scanned_def anchors_def)
  have inj: "inj_on hash_of (set (linking sha rows))" using c by (simp add: no_collision_def)
  have len: "length (sc_chained sc) = card (set (linking sha rows))"
    using ch distinct_card [of "sc_chained sc"] card_image [OF inj] by simp
  have brk: "sc_breaks sc = []" using s i by (auto simp: scanned_def intact_def list_all_iff)
  obtain a rs where rs: "a \<in> insert GENESIS (anchors sha rows)" "mset rs = mset (linking sha rows)"
      "linked_from a rs"
    using i by (auto simp: intact_def)
  have set_rs: "set rs = set (linking sha rows)" by (rule mset_eq_setD [OF rs(2)])
  have a: "a \<notin> hash_of ` set (linking sha rows)"
    by (rule anchor_no_hash [OF c rs(1)])
  have dist: "distinct rs"
    by (rule linked_distinct [OF rs(3) a [folded set_rs] inj [folded set_rs]])
  then have dG: "distinct (linking sha rows)" by (rule mset_eq_imp_distinct_iff [OF rs(2), THEN iffD1])
  show ?thesis
  proof (cases rs)
    case Nil
    then have "linking sha rows = []" using set_rs by (metis set_empty)
    moreover from this have "chain_starts (sc_chained sc) (sc_by_prev sc) = []"
      using starts_in [OF s] by (metis empty_iff empty_set list.set_intros(1) neq_Nil_conv)
    ultimately show ?thesis using ch brk by (auto simp: verify_scan_def report_of_def Let_def)
  next
    case (Cons x xs)
    have px: "prev_of x = a" using rs(3) Cons by simp
    have sx: "r = x" if r: "r \<in> set (linking sha rows)"
      "prev_of r = GENESIS \<or> prev_of r \<notin> hash_of ` set (linking sha rows)" for r
    proof -
      obtain k where k: "k < length rs" "r = rs ! k" using r(1) set_rs by (metis in_set_conv_nth)
      show ?thesis
      proof (cases k)
        case (Suc j)
        then have "prev_of r = hash_of (rs ! j)" "rs ! j \<in> set (linking sha rows)"
          using linked_nth [OF rs(3), of j] k nth_mem [of j rs] unfolding set_rs by simp_all
        then have "prev_of r \<in> hash_of ` set (linking sha rows)" by blast
        moreover from this have "prev_of r \<noteq> GENESIS" using c by (auto simp: no_collision_def)
        ultimately show ?thesis using r(2) by blast
      qed (use k Cons in simp)
    qed
    let ?S = "chain_starts (sc_chained sc) (sc_by_prev sc)"
    have "set ?S = {x}"
    proof -
      have "x \<in> set (linking sha rows)" unfolding set_rs [symmetric] using Cons by simp
      then have "x \<in> set ?S" using starts_in [OF s, of x] px a by blast
      moreover have "r = x" if "r \<in> set ?S" for r
        using sx that starts_in [OF s, of r] by blast
      ultimately show ?thesis by blast
    qed
    moreover have "distinct ?S" by (rule starts_distinct [OF s dG])
    ultimately have st: "?S = [x]" using filter_single [of ?S "\<lambda>_. True" x] by simp
    have "sole_path (sc_by_prev sc) (x # xs)"
      by (rule linked_sole_path [OF kids dG inj a set_rs dist rs(3), of "[]"]) (use Cons in simp)
    from walk_along [OF this, of 0]
    have w: "walk (sc_by_prev sc) x 0 [] = Some (hash_of (last (x # xs)), length (x # xs), [])" by simp
    have "length (sc_chained sc) = length rs" using len set_rs distinct_card [OF dist] by simp
    moreover have "prev_of x = GENESIS \<or> prev_of x \<in> set (sc_anchors sc)" using px rs(1) anc by blast
    ultimately show ?thesis
      using st w brk Cons by (auto simp: verify_scan_def report_of_def Let_def)
  qed
qed

lemma verify_scanned:
  assumes "\<forall>r \<in> set rows. shaped r"
  shows "\<exists>sc. scanned sha rows sc \<and> verify_chain sha rows = Inr (verify_scan sc)"
proof -
  obtain sc where sc: "scan_rows sha rows empty_scan = Inr sc" using scan_returns [OF assms] by blast
  from scan_rows_scanned [OF scanned_empty sc] have "scanned sha rows sc" by simp
  then show ?thesis using sc by (auto simp: verify_chain_def)
qed

lemma clean_iff:
  assumes "\<forall>r \<in> set rows. shaped r" "no_collision sha rows"
  shows "(\<exists>rep. verify_chain sha rows = Inr (Some rep) \<and> cp_ok rep) \<longleftrightarrow> intact sha rows"
proof -
  obtain sc where "scanned sha rows sc" "verify_chain sha rows = Inr (verify_scan sc)"
    using verify_scanned [OF assms(1)] by blast
  then show ?thesis using clean_report_intact intact_clean_report assms(2) by auto
qed

lemma report_exists:
  assumes "\<forall>r \<in> set rows. shaped r" "inj_on hash_of (set (linking sha rows))"
    "GENESIS \<notin> hash_of ` set (linking sha rows)"
  shows "\<exists>rep. verify_chain sha rows = Inr (Some rep)"
proof -
  obtain sc where "scanned sha rows sc" "verify_chain sha rows = Inr (verify_scan sc)"
    using verify_scanned [OF assms(1)] by blast
  then show ?thesis using verify_scan_returns assms by fastforce
qed

lemma intact_distinct:
  assumes "no_collision sha rows" "intact sha rows"
  shows "distinct (linking sha rows)"
proof -
  have inj: "inj_on hash_of (set (linking sha rows))" using assms(1) by (simp add: no_collision_def)
  obtain a rs where rs: "a \<in> insert GENESIS (anchors sha rows)" "mset rs = mset (linking sha rows)"
      "linked_from a rs"
    using assms(2) by (auto simp: intact_def)
  have set_rs: "set rs = set (linking sha rows)" by (rule mset_eq_setD [OF rs(2)])
  have "distinct rs"
    by (rule linked_distinct [OF rs(3) anchor_no_hash [OF assms(1) rs(1), folded set_rs] inj [folded set_rs]])
  then show ?thesis by (rule mset_eq_imp_distinct_iff [OF rs(2), THEN iffD1])
qed

lemma no_collision_mono:
  assumes "set xs \<subseteq> set rows" "no_collision sha rows"
  shows "no_collision sha xs"
proof -
  have "set (linking sha xs) \<subseteq> set (linking sha rows)" "anchors sha xs \<subseteq> anchors sha rows"
    using assms(1) by (auto simp: anchors_def)
  then show ?thesis
    using assms(2) unfolding no_collision_def by (meson disjoint_iff image_mono inj_on_subset subsetD)
qed

lemma removal_breaks:
  assumes c: "no_collision sha rows" and i: "intact sha rows"
    and x: "x \<in> set (linking sha rows)" and v: "v \<in> set (linking sha rows)" "prev_of v = hash_of x"
  shows "\<not> intact sha (remove1 x rows)"
proof
  let ?L = "linking sha rows"
  assume "intact sha (remove1 x rows)"
  then obtain a rs where rs: "a \<in> insert GENESIS (anchors sha (remove1 x rows))"
      "mset rs = mset (linking sha (remove1 x rows))" "linked_from a rs"
    by (auto simp: intact_def)
  have inj: "inj_on hash_of (set ?L)" using c by (simp add: no_collision_def)
  have dL: "distinct ?L" by (rule intact_distinct [OF c i])
  have "anchors sha (remove1 x rows) \<subseteq> anchors sha rows"
    using set_remove1_subset [of x rows] by (auto simp: anchors_def)
  then have a: "a \<notin> hash_of ` set ?L" using rs(1) anchor_no_hash [OF c, of a] by blast
  have "set rs = set (linking sha (remove1 x rows))" by (rule mset_eq_setD [OF rs(2)])
  also have "linking sha (remove1 x rows) = remove1 x ?L" by (rule filter_remove1)
  finally have set_rs: "set rs = set ?L - {x}" using dL by (simp only: set_remove1_eq)
  have "v \<noteq> x"
  proof
    assume "v = x"
    obtain b ls where ls: "b \<in> insert GENESIS (anchors sha rows)" "mset ls = mset ?L" "linked_from b ls"
      using i by (auto simp: intact_def)
    have sl: "set ls = set ?L" "distinct ls"
      using mset_eq_setD [OF ls(2)] dL mset_eq_imp_distinct_iff [OF ls(2)] by simp_all
    obtain k where k: "k < length ls" "x = ls ! k" using x sl(1) by (metis in_set_conv_nth)
    have "Suc k < length ls \<and> v = ls ! Suc k"
      by (rule linked_next [OF ls(3) sl(2) inj [folded sl(1)] anchor_no_hash [OF c ls(1), folded sl(1)]])
        (use v sl(1) k in auto)
    then show False using \<open>v = x\<close> k nth_eq_iff_index_eq [OF sl(2), of k "Suc k"] by simp
  qed
  then obtain k where k: "k < length rs" "v = rs ! k" using v(1) set_rs by (metis Diff_iff in_set_conv_nth singletonD)
  show False
  proof (cases k)
    case 0
    then have "prev_of v = a" using rs(3) k by (cases rs) auto
    then show False using a v x by auto
  next
    case (Suc j)
    then have "rs ! j \<in> set ?L - {x}" "hash_of (rs ! j) = hash_of x"
      using linked_nth [OF rs(3), of j] k v(2) nth_mem [of j rs] unfolding set_rs by simp_all
    then show False using inj x by (auto dest: inj_onD)
  qed
qed

lemma intact_linking:
  "intact sha rows \<Longrightarrow> r \<in> set rows \<Longrightarrow> cr_hash r \<noteq> None \<Longrightarrow> r \<in> set (linking sha rows)"
  by (auto simp: intact_def legacy_row_def)

lemma linked_last:
  assumes "linked_from a rs" "x \<in> set rs" "\<forall>r \<in> set rs. prev_of r \<noteq> hash_of x" 
  shows "\<exists>us. rs = us @ [x]"
proof -
  obtain us vs where rs: "rs = us @ x # vs" using assms(2) by (auto simp: in_set_conv_decomp)
  have "vs = []"
  proof (cases vs)
    case (Cons v ws)
    then have "prev_of v = hash_of x" using assms(1) rs by (simp add: linked_append)
    then show ?thesis using assms(3) rs Cons by auto
  qed
  then show ?thesis using rs by blast
qed

lemma tip_removal_intact:
  assumes "no_collision sha rows" "intact sha rows"
    and "x \<in> set rows" "cr_hash x = Some h" "\<forall>r \<in> set rows. cr_prev r \<noteq> Some h"
  shows "intact sha (remove1 x rows)"
proof -
  let ?L = "linking sha rows"
  obtain a rs where rs: "a \<in> insert GENESIS (anchors sha rows)" "mset rs = mset ?L" "linked_from a rs"
    using assms(2) by (auto simp: intact_def)
  have set_rs: "set rs = set ?L" by (rule mset_eq_setD [OF rs(2)])
  have x: "x \<in> set ?L" using intact_linking assms(2-4) by blast
  have "prev_of r \<noteq> hash_of x" if "r \<in> set rs" for r
    using that assms(4,5) unfolding set_rs by (auto simp: sound_row_def)
  then obtain us where us: "rs = us @ [x]" using linked_last [OF rs(3)] x set_rs by blast
  have "x \<notin> set (filter legacy_row rows)" using assms(4) by (simp add: legacy_row_def)
  then have "filter legacy_row (remove1 x rows) = filter legacy_row rows"
    unfolding filter_remove1 by (rule remove1_idem)
  then have "anchors sha (remove1 x rows) = anchors sha rows" by (simp add: anchors_def)
  moreover have "mset us = mset (linking sha (remove1 x rows))"
    using arg_cong [OF rs(2), of "\<lambda>m. m - {#x#}"] us by (simp only: filter_remove1 mset_remove1) simp
  moreover have "linked_from a us" using rs(3) us by (simp add: linked_append)
  moreover have "\<forall>r \<in> set (remove1 x rows). sound_row sha r \<or> legacy_row r"
    using assms(2) set_remove1_subset [of x rows] unfolding intact_def by blast
  ultimately show ?thesis unfolding intact_def using rs(1) by blast
qed

section \<open>Properties\<close>

definition sample_values :: "string \<Rightarrow> string option list" where
  "sample_values i = Some i # replicate 10 (Some ''x'') @ [None]"

definition sample_sha :: "string \<Rightarrow> string" where
  "sample_sha s = CHR ''h'' # s"

definition link_row :: "(string \<Rightarrow> string) \<Rightarrow> string \<Rightarrow> string \<Rightarrow> chain_row" where
  "link_row sha i prev =
     \<lparr>cr_values = sample_values i, cr_prev = Some prev,
      cr_hash = Some (sha (prev @ LINK_SEP # sep_join FIELD_SEP (map field_text (sample_values i))))\<rparr>"

definition sample_old :: chain_row where
  "sample_old = \<lparr>cr_values = sample_values ''0'', cr_prev = None, cr_hash = None\<rparr>"

definition sample_one :: chain_row where
  "sample_one = link_row sample_sha ''1'' (legacy_anchor sample_sha (Some ''0''))"

definition sample_two :: chain_row where
  "sample_two = link_row sample_sha ''2'' (hash_of sample_one)"

definition sample_three :: chain_row where
  "sample_three = link_row sample_sha ''3'' (hash_of sample_two)"

definition sample_export :: "chain_row list" where
  "sample_export = [sample_two, sample_old, sample_one, sample_three]"

lemmas sample_chain_defs =
  sample_export_def sample_one_def sample_two_def sample_three_def sample_old_def link_row_def
  sample_values_def sample_sha_def

lemma sample_shaped: "\<forall>r \<in> set sample_export. shaped r"
  by (simp add: shaped_def CHAIN_COLUMNS_def sample_chain_defs legacy_anchor_def numeral_eq_Suc)

lemma link_row_sound: "prev \<noteq> [] \<Longrightarrow> sound_row sha (link_row sha i prev)"
  by (simp add: sound_row_def link_row_def compute_row_hash_def canonical_row_def sample_values_def
      CHAIN_COLUMNS_def)

lemma sample_linking: "linking sample_sha sample_export = [sample_two, sample_one, sample_three]"
proof -
  have "sound_row sample_sha sample_one" "sound_row sample_sha sample_two" "sound_row sample_sha sample_three"
    unfolding sample_one_def sample_two_def sample_three_def
    by (rule link_row_sound; simp add: legacy_anchor_def sample_sha_def link_row_def)+
  moreover have "\<not> sound_row sample_sha sample_old" by (simp add: sound_row_def sample_old_def)
  ultimately show ?thesis by (simp add: sample_export_def)
qed

lemma sample_hashes:
  "hash_of sample_one \<noteq> hash_of sample_two" "hash_of sample_one \<noteq> hash_of sample_three"
  "hash_of sample_two \<noteq> hash_of sample_three"
  "GENESIS \<notin> {hash_of sample_one, hash_of sample_two, hash_of sample_three}"
  "anchors sample_sha sample_export \<inter> {hash_of sample_one, hash_of sample_two, hash_of sample_three} = {}"
  by code_simp+

lemma sample_no_collision: "no_collision sample_sha sample_export"
  using sample_hashes unfolding no_collision_def sample_linking by (auto simp: inj_on_def)

lemma sample_intact: "intact sample_sha sample_export"
proof -
  have "linked_from (legacy_anchor sample_sha (Some ''0'')) [sample_one, sample_two, sample_three]"
    by (simp add: sample_one_def sample_two_def sample_three_def link_row_def)
  moreover have "legacy_anchor sample_sha (Some ''0'') \<in> anchors sample_sha sample_export"
    by (simp add: anchors_def sample_export_def legacy_row_def sample_old_def row_id_def sample_values_def)
  moreover have "mset [sample_one, sample_two, sample_three] = mset (linking sample_sha sample_export)"
    by (simp add: sample_linking add_mset_commute)
  moreover have "sound_row sample_sha r \<or> legacy_row r" if "r \<in> set sample_export" for r
  proof (cases "r = sample_old")
    case False
    then have "r \<in> set (linking sample_sha sample_export)"
      unfolding sample_linking using that by (auto simp: sample_export_def)
    then show ?thesis by simp
  qed (simp add: legacy_row_def sample_old_def)
  ultimately show ?thesis unfolding intact_def by blast
qed

text \<open>C34: the verifier always ends. Over rows with their twelve columns, when no two linking rows
  of the export share a hash and none hashes to the genesis word, the walk from the first start
  meets no row twice and a report comes back, whatever was deleted, forked, doubled or reordered.\<close>

theorem verifier_returns:
  assumes "\<forall>r \<in> set rows. shaped r" "inj_on hash_of (set (linking sha rows))"
    "GENESIS \<notin> hash_of ` set (linking sha rows)"
  shows "\<exists>rep. verify_chain sha rows = Inr (Some rep)"
  using assms by (rule report_exists)

lemma verifier_returns_witness: "\<exists>rep. verify_chain sample_sha sample_export = Inr (Some rep)"
  using verifier_returns [OF sample_shaped, of sample_sha] sample_no_collision
  by (simp add: no_collision_def)

text \<open>C33: the report is clean exactly when the ledger is intact: every row is a legacy row or
  recomputes its own hash, and the chained rows, in some order and each once, form one line of
  links that begins at the genesis word or at the anchor of a legacy row of the same export.\<close>

theorem clean_report_iff_intact:
  assumes "\<forall>r \<in> set rows. shaped r" "no_collision sha rows"
  shows "(\<exists>rep. verify_chain sha rows = Inr (Some rep) \<and> cp_ok rep) \<longleftrightarrow> intact sha rows"
  using assms by (rule clean_iff)

lemma clean_report_iff_intact_witness:
  "(\<exists>rep. verify_chain sample_sha sample_export = Inr (Some rep) \<and> cp_ok rep) \<and>
   intact sample_sha sample_export"
  using clean_report_iff_intact [OF sample_shaped sample_no_collision] sample_intact by blast

text \<open>a chained row that another row names as its parent cannot be taken out of a ledger
  unnoticed: when the whole export verifies clean, the export without that row gets a report,
  and the report is not clean.\<close>

theorem removed_parent_is_reported:
  assumes "\<forall>r \<in> set rows. shaped r" "no_collision sha rows"
    and "verify_chain sha rows = Inr (Some rep)" "cp_ok rep"
    and "x \<in> set rows" "cr_hash x = Some h" "v \<in> set rows" "cr_prev v = Some h" "cr_hash v = Some g"
  shows "\<exists>rep'. verify_chain sha (remove1 x rows) = Inr (Some rep') \<and> \<not> cp_ok rep'"
proof -
  have i: "intact sha rows" using clean_iff [OF assms(1,2)] assms(3,4) by blast
  have "\<not> intact sha (remove1 x rows)"
    by (rule removal_breaks [OF assms(2) i intact_linking [OF i assms(5)] intact_linking [OF i assms(7)]])
      (simp_all add: assms(6,8,9))
  moreover have s: "\<forall>r \<in> set (remove1 x rows). shaped r" and sub: "set (remove1 x rows) \<subseteq> set rows"
    using assms(1) set_remove1_subset [of x rows] by blast+
  have c: "no_collision sha (remove1 x rows)" by (rule no_collision_mono [OF sub assms(2)])
  ultimately show ?thesis
    using clean_iff [OF s c] report_exists [OF s, of sha] c unfolding no_collision_def by blast
qed

lemma removed_parent_is_reported_witness:
  "\<exists>rep'. verify_chain sample_sha (remove1 sample_two sample_export) = Inr (Some rep') \<and> \<not> cp_ok rep'"
proof -
  obtain rep where "verify_chain sample_sha sample_export = Inr (Some rep)" "cp_ok rep"
    using clean_iff [OF sample_shaped sample_no_collision] sample_intact by blast
  from removed_parent_is_reported [OF sample_shaped sample_no_collision this, of sample_two _ sample_three]
  show ?thesis by (simp add: sample_export_def sample_two_def sample_three_def link_row_def)
qed

text \<open>the newest row is the exception. Taking the row no other row names as its parent out of a
  ledger that verifies clean leaves a ledger that verifies clean.\<close>

theorem removed_tip_goes_unnoticed:
  assumes "\<forall>r \<in> set rows. shaped r" "no_collision sha rows" "intact sha rows"
    and "x \<in> set rows" "cr_hash x = Some h" "\<forall>r \<in> set rows. cr_prev r \<noteq> Some h"
  shows "\<exists>rep. verify_chain sha (remove1 x rows) = Inr (Some rep) \<and> cp_ok rep"
proof -
  have sub: "set (remove1 x rows) \<subseteq> set rows" by (rule set_remove1_subset)
  have s: "\<forall>r \<in> set (remove1 x rows). shaped r" using sub assms(1) by blast
  have "intact sha (remove1 x rows)" by (rule tip_removal_intact [OF assms(2-6)])
  then show ?thesis using clean_iff [OF s no_collision_mono [OF sub assms(2)]] by blast
qed

lemma removed_tip_goes_unnoticed_witness:
  "\<exists>rep. verify_chain sample_sha (remove1 sample_three sample_export) = Inr (Some rep) \<and> cp_ok rep"
  by (rule removed_tip_goes_unnoticed [OF sample_shaped sample_no_collision sample_intact,
        of sample_three "hash_of sample_three"])
    (simp add: sample_export_def sample_three_def link_row_def, simp add: sample_three_def link_row_def, code_simp)

end
