(* ===== verification/Gate_Limits.thy ===== *)
theory Gate_Limits
  imports Cost_Breaker Customer_Config
begin

text \<open>
  The checks a verified delivery passes at the webhook gate before it may wake the agent:
  the inbound wake guard (\<open>shared/gate_inbound_cap.py\<close>), the authored trigger exclusions
  (\<open>shared/gate_trigger_exclusions.py\<close>) and the per-matter cooldown
  (\<open>shared/gate_trigger_throttle.py\<close>). Instants are microseconds. A body is what
  \<open>json.loads\<close> reads in it, \<open>None\<close> when it raises.
\<close>

section \<open>The daily cap\<close>

definition DEFAULT_INBOUND_DAILY_CAP :: int where
  "DEFAULT_INBOUND_DAILY_CAP = 200"

definition resolve_inbound_cap :: "pydict option \<Rightarrow> int" where
  "resolve_inbound_cap cfg =
     (case config_block cfg of
        Inl e \<Rightarrow> DEFAULT_INBOUND_DAILY_CAP
      | Inr block \<Rightarrow>
          if dget block ''inbound_daily_cap'' = PNone then DEFAULT_INBOUND_DAILY_CAP
          else (case py_int (dget block ''inbound_daily_cap'') of
                  Inl e \<Rightarrow> DEFAULT_INBOUND_DAILY_CAP
                | Inr n \<Rightarrow> if n \<le> 0 then DEFAULT_INBOUND_DAILY_CAP else n))"

definition default_cap_resolver :: "config_file \<Rightarrow> int" where
  "default_cap_resolver cfg =
     (case cfg of Document d \<Rightarrow> resolve_inbound_cap (Some d) | _ \<Rightarrow> DEFAULT_INBOUND_DAILY_CAP)"

text \<open>The table \<open>wake_counter\<close>: date, routed, parked.\<close>

type_synonym counter = "(string \<times> int \<times> int) list"

definition open_day :: "string \<Rightarrow> counter \<Rightarrow> counter" where
  "open_day date c = (if date \<in> set (keys c) then c else c @ [(date, 0, 0)])"

definition routed_on :: "string \<Rightarrow> counter \<Rightarrow> int" where
  "routed_on date c = (case map_of c date of None \<Rightarrow> 0 | Some (r, p) \<Rightarrow> r)"

definition parked_on :: "string \<Rightarrow> counter \<Rightarrow> int" where
  "parked_on date c = (case map_of c date of None \<Rightarrow> 0 | Some (r, p) \<Rightarrow> p)"

definition count_routed :: "string \<Rightarrow> counter \<Rightarrow> counter" where
  "count_routed date c = map (\<lambda>(d, r, p). if d = date then (d, r + 1, p) else (d, r, p)) c"

definition count_parked :: "string \<Rightarrow> counter \<Rightarrow> counter" where
  "count_parked date c = map (\<lambda>(d, r, p). if d = date then (d, r, p + 1) else (d, r, p)) c"

text \<open>The audit ledger as the gate reaches it: no client, a client whose write fails, or one
  that appends a row of an action and its metadata.\<close>

datatype audit_port = No_Client | Client_Fails | Client_Writes

type_synonym gate_rows = "(string \<times> pydict) list"

definition audit_append :: "audit_port \<Rightarrow> string \<Rightarrow> pydict \<Rightarrow> gate_rows \<Rightarrow> gate_rows" where
  "audit_append port action meta rows =
     (case port of Client_Writes \<Rightarrow> rows @ [(action, meta)] | _ \<Rightarrow> rows)"

record wake_world =
  ww_counter :: counter
  ww_rows :: gate_rows

text \<open>What one check finds: the breaker's level, whether the counter's database answers, the
  UTC date, the cap in force, and the audit client.\<close>

record wake_env =
  we_level :: "py_exn + string option"
  we_db :: bool
  we_today :: string
  we_cap :: int
  we_audit :: audit_port

definition park_row :: "string \<Rightarrow> string \<Rightarrow> string \<Rightarrow> pydict \<Rightarrow> pydict" where
  "park_row route request_id why extra =
     [(''gate_inbound_park'', PBool True), (''reason'', PStr why), (''route'', PStr route),
      (''request_id'', PStr request_id)] @ extra"

definition audit_park ::
  "wake_env \<Rightarrow> string \<Rightarrow> string \<Rightarrow> string \<Rightarrow> pydict \<Rightarrow> wake_world \<Rightarrow> wake_world" where
  "audit_park env route request_id why extra w =
     w\<lparr>ww_rows := audit_append (we_audit env) ''INVARIANT_VIOLATION''
         (park_row route request_id why extra) (ww_rows w)\<rparr>"

definition record_park :: "wake_env \<Rightarrow> string \<Rightarrow> string \<Rightarrow> string \<Rightarrow> wake_world \<Rightarrow> wake_world" where
  "record_park env route request_id why w =
     audit_park env route request_id why []
       (if we_db env
        then w\<lparr>ww_counter := count_parked (we_today env) (open_day (we_today env) (ww_counter w))\<rparr>
        else w)"

definition wake_check ::
  "wake_env \<Rightarrow> string \<Rightarrow> string \<Rightarrow> wake_world \<Rightarrow> (bool \<times> string option) \<times> wake_world" where
  "wake_check env route request_id w =
     (if we_level env = Inr (Some (level_value HARD_STOP))
      then ((False, Some ''sticky_stop_hard_stop''),
            record_park env route request_id ''sticky_stop_hard_stop'' w)
      else if \<not> we_db env then ((True, None), w)
      else
        let today = we_today env; c = open_day today (ww_counter w); routed = routed_on today c in
        if routed \<ge> we_cap env
        then ((False, Some ''inbound_daily_cap''),
              audit_park env route request_id ''inbound_daily_cap''
                [(''routed_today'', PInt routed), (''cap'', PInt (we_cap env))]
                (w\<lparr>ww_counter := count_parked today c\<rparr>))
        else ((True, None), w\<lparr>ww_counter := count_routed today c\<rparr>))"

section \<open>Reading a delivery\<close>

definition EVENT_TYPE_KEYS :: "string list" where
  "EVENT_TYPE_KEYS = [''event_type'', ''type'', ''event'']"

definition MATTER_KEYS :: "string list" where
  "MATTER_KEYS = [''id'', ''matterId'']"

definition ACTOR_KEYS :: "string list" where
  "ACTOR_KEYS = [''userId'']"

text \<open>\<open>v.strip().lower()\<close> of a string that is not blank.\<close>

definition id_text :: "pyval \<Rightarrow> string option" where
  "id_text v = (case v of PStr s \<Rightarrow> if strip s = [] then None else Some (normalized s) | _ \<Rightarrow> None)"

fun first_id :: "(pydict \<times> string) list \<Rightarrow> string option" where
  "first_id [] = None"
| "first_id ((obj, k) # rest) =
     (case id_text (dget obj k) of None \<Rightarrow> first_id rest | Some t \<Rightarrow> Some t)"

definition event_type_of :: "pydict \<Rightarrow> string option" where
  "event_type_of payload = first_id (map (Pair payload) EVENT_TYPE_KEYS)"

definition nested_payload :: "pydict \<Rightarrow> pydict list" where
  "nested_payload payload = (case dget payload ''payload'' of PDict n \<Rightarrow> [n] | _ \<Rightarrow> [])"

definition extract_ids :: "pyval option \<Rightarrow> string option \<times> string option" where
  "extract_ids body =
     (case body of
        Some (PDict payload) \<Rightarrow>
          (event_type_of payload,
           first_id (List.product (nested_payload payload @ [payload]) MATTER_KEYS))
      | _ \<Rightarrow> (None, None))"

section \<open>Authored trigger entries\<close>

type_synonym trigger_key = "string \<times> string"

definition trigger_entries :: "pyval \<Rightarrow> pydict list" where
  "trigger_entries config =
     (case config of
        PDict d \<Rightarrow>
          (case dget d ''webhook_triggers'' of
             PList es \<Rightarrow> List.map_filter (\<lambda>e. case e of PDict x \<Rightarrow> Some x | _ \<Rightarrow> None) es
           | _ \<Rightarrow> [])
      | _ \<Rightarrow> [])"

definition entry_key :: "pydict \<Rightarrow> trigger_key option" where
  "entry_key e =
     (case (dget e ''source'', dget e ''event_type'') of
        (PStr s, PStr t) \<Rightarrow> Some (normalized s, normalized t)
      | _ \<Rightarrow> None)"

section \<open>Exclusions\<close>

record exclusion =
  ex_matters :: "string list"
  ex_actors :: "string list"

definition excluded_ids :: "pydict \<Rightarrow> string \<Rightarrow> string list" where
  "excluded_ids exclude k =
     (case dget exclude k of PList xs \<Rightarrow> List.map_filter id_text xs | _ \<Rightarrow> [])"

definition no_exclusion :: exclusion where
  "no_exclusion = \<lparr>ex_matters = [], ex_actors = []\<rparr>"

definition merge_exclusion ::
  "trigger_key \<Rightarrow> string list \<Rightarrow> string list \<Rightarrow> (trigger_key \<times> exclusion) list \<Rightarrow>
   (trigger_key \<times> exclusion) list" where
  "merge_exclusion key ms acts out =
     (let old = (case map_of out key of None \<Rightarrow> no_exclusion | Some x \<Rightarrow> x)
      in AList.update key
           \<lparr>ex_matters = ex_matters old @ ms, ex_actors = ex_actors old @ acts\<rparr> out)"

definition add_exclusion ::
  "(trigger_key \<times> exclusion) list \<Rightarrow> pydict \<Rightarrow> (trigger_key \<times> exclusion) list" where
  "add_exclusion out e =
     (case (entry_key e, dget e ''exclude'') of
        (Some key, PDict x) \<Rightarrow>
          (let ms = excluded_ids x ''matters''; acts = excluded_ids x ''actors''
           in if ms \<noteq> [] \<or> acts \<noteq> [] then merge_exclusion key ms acts out else out)
      | _ \<Rightarrow> out)"

definition resolve_exclusions :: "pyval \<Rightarrow> (trigger_key \<times> exclusion) list" where
  "resolve_exclusions config = foldl add_exclusion [] (trigger_entries config)"

fun first_among :: "string list \<Rightarrow> (pydict \<times> string) list \<Rightarrow> string option" where
  "first_among ids [] = None"
| "first_among ids ((obj, k) # rest) =
     (case id_text (dget obj k) of
        None \<Rightarrow> first_among ids rest
      | Some t \<Rightarrow> if t \<in> set ids then Some t else first_among ids rest)"

definition check_excluded ::
  "string \<Rightarrow> pyval option \<Rightarrow> (trigger_key \<times> exclusion) list \<Rightarrow> string option" where
  "check_excluded route body exclusions =
     (if exclusions = [] then None
      else case body of
        Some (PDict payload) \<Rightarrow>
          (case event_type_of payload of
             None \<Rightarrow> None
           | Some et \<Rightarrow>
               (case map_of exclusions (normalized route, et) of
                  None \<Rightarrow> None
                | Some rule \<Rightarrow>
                    let candidates = payload # nested_payload payload in
                    (case first_among (ex_matters rule) (List.product candidates MATTER_KEYS) of
                       Some m \<Rightarrow> Some (''excluded-matter:'' @ m)
                     | None \<Rightarrow>
                         (case first_among (ex_actors rule) (List.product candidates ACTOR_KEYS) of
                            Some a \<Rightarrow> Some (''excluded-actor:'' @ a)
                          | None \<Rightarrow> None))))
      | _ \<Rightarrow> None)"

definition live_exclusions :: "config_file \<Rightarrow> (trigger_key \<times> exclusion) list" where
  "live_exclusions cfg = (case cfg of Document d \<Rightarrow> resolve_exclusions (PDict d) | _ \<Rightarrow> [])"

section \<open>Cooldowns\<close>

definition DEFAULT_COOLDOWN_SECONDS :: int where
  "DEFAULT_COOLDOWN_SECONDS = 30 * 60"

definition cooldown_seconds :: "pyval \<Rightarrow> int" where
  "cooldown_seconds throttle =
     (case throttle of
        PDict t \<Rightarrow>
          (case dget t ''cooldown_minutes'' of
             PNone \<Rightarrow> DEFAULT_COOLDOWN_SECONDS
           | PBool b \<Rightarrow> DEFAULT_COOLDOWN_SECONDS
           | v \<Rightarrow>
               (case py_int v of
                  Inl e \<Rightarrow> DEFAULT_COOLDOWN_SECONDS
                | Inr n \<Rightarrow> if n < 0 then DEFAULT_COOLDOWN_SECONDS else n * 60))
      | _ \<Rightarrow> DEFAULT_COOLDOWN_SECONDS)"

type_synonym throttles = "(trigger_key \<times> int) list"

definition add_throttle :: "throttles \<Rightarrow> pydict \<Rightarrow> throttles" where
  "add_throttle out e =
     (case entry_key e of
        None \<Rightarrow> out
      | Some key \<Rightarrow>
          (let c = cooldown_seconds (dget e ''throttle'')
           in AList.update key (case map_of out key of None \<Rightarrow> c | Some old \<Rightarrow> max old c) out))"

definition resolve_throttles :: "pyval \<Rightarrow> throttles" where
  "resolve_throttles config = foldl add_throttle [] (trigger_entries config)"

definition live_throttles :: "config_file \<Rightarrow> throttles" where
  "live_throttles cfg = (case cfg of Document d \<Rightarrow> resolve_throttles (PDict d) | _ \<Rightarrow> [])"

type_synonym window_key = "string \<times> string \<times> string"
type_synonym windows = "(window_key \<times> int) list"

text \<open>The window a delivery falls in and its length, when it has one.\<close>

definition window_of :: "string \<Rightarrow> pyval option \<Rightarrow> throttles \<Rightarrow> (window_key \<times> int) option" where
  "window_of route body ts =
     (case extract_ids body of
        (Some et, Some m) \<Rightarrow>
          (case map_of ts (normalized route, et) of
             None \<Rightarrow> None
           | Some c \<Rightarrow> if c = 0 then None else Some ((normalized route, et, m), c * 1000000))
      | _ \<Rightarrow> None)"

definition throttle_check ::
  "int \<Rightarrow> string \<Rightarrow> pyval option \<Rightarrow> throttles \<Rightarrow> windows \<Rightarrow> string option \<times> windows" where
  "throttle_check now route body ts wins =
     (if ts = [] then (None, wins)
      else case window_of route body ts of
        None \<Rightarrow> (None, wins)
      | Some (key, cooldown) \<Rightarrow>
          let live = filter (\<lambda>(k, until). \<not> until \<le> now) wins in
          (case map_of live key of
             Some until \<Rightarrow>
               if until > now then (Some (''trigger-cooldown:'' @ snd (snd key)), live)
               else (None, AList.update key (now + cooldown) live)
           | None \<Rightarrow> (None, AList.update key (now + cooldown) live)))"

section \<open>The count is the number of wakes\<close>

lemma map_of_count:
  "map_of (map (\<lambda>(d, r, p). if d = date then (d, f r p) else (d, r, p)) c) x =
     (if x = date then map_option (\<lambda>(r, p). f r p) (map_of c x) else map_of c x)"
  by (induction c) auto

lemma map_of_open: "map_of (open_day date c) x = (if x = date \<and> map_of c x = None then Some (0, 0) else map_of c x)"
  using map_of_eq_None_iff [of c date]
  by (cases "map_of c date") (auto simp: open_day_def map_add_def split: option.splits)

lemma routed_open [simp]: "routed_on d (open_day date c) = routed_on d c"
  by (auto simp: routed_on_def map_of_open split: option.splits)

lemma routed_count_routed:
  "routed_on d (count_routed date (open_day date c)) = routed_on d c + (if d = date then 1 else 0)"
  using map_of_count [of date "\<lambda>r p. (r + 1, p)" "open_day date c" d]
  by (auto simp: count_routed_def routed_on_def map_of_open split: option.splits if_splits)

lemma routed_count_parked [simp]: "routed_on d (count_parked date c) = routed_on d c"
  using map_of_count [of date "\<lambda>r p. (r, p + 1)" c d]
  by (auto simp: count_parked_def routed_on_def split: option.splits if_splits)

lemma counter_audit_park [simp]: "ww_counter (audit_park env route rid why extra w) = ww_counter w"
  by (simp add: audit_park_def)

lemma routed_record_park [simp]: "routed_on d (ww_counter (record_park env route rid why w)) = routed_on d (ww_counter w)"
  by (simp add: record_park_def)

definition counted :: "string \<Rightarrow> wake_env \<Rightarrow> (bool \<times> string option) \<Rightarrow> bool" where
  "counted day env res \<longleftrightarrow> fst res \<and> we_db env \<and> we_today env = day"

lemma wake_check_counts:
  "wake_check env route rid w = (res, w') \<Longrightarrow>
     routed_on day (ww_counter w') = routed_on day (ww_counter w) + (if counted day env res then 1 else 0)"
  by (auto simp: wake_check_def Let_def counted_def routed_count_routed split: if_splits)

lemma wake_check_below:
  "wake_check env route rid w = (res, w') \<Longrightarrow> counted day env res \<Longrightarrow> routed_on day (ww_counter w) < we_cap env"
  by (auto simp: wake_check_def Let_def counted_def split: if_splits)

fun wake_run :: "(wake_env \<times> string \<times> string) list \<Rightarrow> wake_world \<Rightarrow> (bool \<times> string option) list \<times> wake_world" where
  "wake_run [] w = ([], w)"
| "wake_run ((env, route, rid) # ds) w =
     (case wake_check env route rid w of
        (res, w1) \<Rightarrow> (case wake_run ds w1 of (rs, w2) \<Rightarrow> (res # rs, w2)))"

definition wakes :: "string \<Rightarrow> (wake_env \<times> string \<times> string) list \<Rightarrow> (bool \<times> string option) list \<Rightarrow> int" where
  "wakes day ds rs = int (length (filter (\<lambda>((env, _), res). fst res \<and> we_today env = day) (zip ds rs)))"

lemma wakes_Cons:
  "wakes day ((env, route, rid) # ds) (res # rs) =
     (if fst res \<and> we_today env = day then 1 else 0) + wakes day ds rs"
  by (simp add: wakes_def)

lemma wake_run_counts:
  assumes "wake_run ds w = (rs, w')" "\<forall>(env, _) \<in> set ds. we_db env"
  shows "routed_on day (ww_counter w') = routed_on day (ww_counter w) + wakes day ds rs"
  using assms
proof (induction ds arbitrary: w rs)
  case (Cons d ds)
  obtain env route rid where d: "d = (env, route, rid)" by (cases d)
  obtain res w1 rs' where r: "wake_check env route rid w = (res, w1)" "wake_run ds w1 = (rs', w')" "rs = res # rs'"
    using Cons.prems(1) by (auto simp: d split: prod.splits)
  have "counted day env res \<longleftrightarrow> fst res \<and> we_today env = day"
    using Cons.prems(2) by (simp add: counted_def d)
  then show ?case
    using Cons.IH [OF r(2)] wake_check_counts [OF r(1), of day] Cons.prems(2)
    by (simp add: d r(3) wakes_Cons)
qed (simp add: wakes_def)

lemma wake_run_bound:
  assumes "wake_run ds w = (rs, w')" "\<forall>(env, _) \<in> set ds. we_db env"
    "\<forall>(env, _) \<in> set ds. we_today env = day \<longrightarrow> we_cap env \<le> cap"
  shows "routed_on day (ww_counter w') \<le> max cap (routed_on day (ww_counter w))"
  using assms
proof (induction ds arbitrary: w rs)
  case (Cons d ds)
  obtain env route rid where d: "d = (env, route, rid)" by (cases d)
  obtain res w1 rs' where r: "wake_check env route rid w = (res, w1)" "wake_run ds w1 = (rs', w')"
    using Cons.prems(1) by (auto simp: d split: prod.splits)
  have "routed_on day (ww_counter w1) \<le> max cap (routed_on day (ww_counter w))"
  proof (cases "counted day env res")
    case True
    then have "routed_on day (ww_counter w) < cap"
      using wake_check_below [OF r(1) True] Cons.prems(3) by (auto simp: d counted_def)
    then show ?thesis using wake_check_counts [OF r(1), of day] True by simp
  qed (use wake_check_counts [OF r(1), of day] in simp)
  moreover have "routed_on day (ww_counter w') \<le> max cap (routed_on day (ww_counter w1))"
    by (rule Cons.IH [OF r(2)]) (use Cons.prems d in auto)
  ultimately show ?case by simp
qed simp

section \<open>Windows\<close>

fun throttle_run ::
  "(int \<times> string \<times> pyval option \<times> throttles) list \<Rightarrow> windows \<Rightarrow> string option list \<times> windows" where
  "throttle_run [] wins = ([], wins)"
| "throttle_run ((now, route, body, ts) # ds) wins =
     (case throttle_check now route body ts wins of
        (res, wins1) \<Rightarrow> (case throttle_run ds wins1 of (rs, wins2) \<Rightarrow> (res # rs, wins2)))"

text \<open>Whether some delivery of a run so far forwarded under a key and holds its window open.\<close>

definition holds_window ::
  "int \<Rightarrow> window_key \<Rightarrow> (int \<times> string \<times> pyval option \<times> throttles) \<times> string option \<Rightarrow> bool" where
  "holds_window now key e =
     (case e of ((t, route, body, ts), res) \<Rightarrow>
        res = None \<and> ts \<noteq> [] \<and>
        (case window_of route body ts of Some (k, c) \<Rightarrow> k = key \<and> now < t + c | None \<Rightarrow> False))"

text \<open>The invariant: the windows open now are exactly those some forwarded delivery holds.\<close>

definition windows_inv ::
  "int \<Rightarrow> ((int \<times> string \<times> pyval option \<times> throttles) \<times> string option) list \<Rightarrow> windows \<Rightarrow> bool" where
  "windows_inv now past wins \<longleftrightarrow>
     (\<forall>t key. now \<le> t \<longrightarrow>
        (\<exists>e \<in> set past. holds_window t key e) = (\<exists>until. map_of wins key = Some until \<and> t < until))"

lemma map_of_filter_live:
  "distinct (keys wins) \<Longrightarrow> map_of (filter (\<lambda>(k, until). \<not> until \<le> now) wins) key =
     (case map_of wins key of None \<Rightarrow> None | Some u \<Rightarrow> if u \<le> now then None else Some u)"
proof (induction wins)
  case (Cons w wins)
  have "map_of (filter (\<lambda>(k, until). \<not> until \<le> now) wins) (fst w) = None"
    using Cons.prems by (force simp: map_of_eq_None_iff)
  then show ?case using Cons by (cases w) (auto split: option.splits)
qed simp

lemma held_shorter: "holds_window t key e \<Longrightarrow> now \<le> t \<Longrightarrow> holds_window now key e"
  by (auto simp: holds_window_def split: prod.splits option.splits)

definition due :: "((int \<times> string \<times> pyval option \<times> throttles) \<times> string option) list \<Rightarrow>
    int \<times> string \<times> pyval option \<times> throttles \<Rightarrow> bool" where
  "due past d =
     (case d of (now, route, body, ts) \<Rightarrow>
        ts \<noteq> [] \<and>
        (case window_of route body ts of
           None \<Rightarrow> False | Some (key, c) \<Rightarrow> \<exists>e \<in> set past. holds_window now key e))"

lemma windows_later: "windows_inv t0 past wins \<Longrightarrow> t0 \<le> t \<Longrightarrow> windows_inv t past wins"
  by (simp add: windows_inv_def)

lemma windows_idle:
  assumes "windows_inv t past wins" "\<And>key. \<not> holds_window t key e"
  shows "windows_inv t (past @ [e]) wins"
  unfolding windows_inv_def
proof (intro allI impI)
  fix u key
  assume u: "t \<le> u"
  then have "\<not> holds_window u key e" using assms(2) held_shorter by blast
  moreover have "(\<exists>e \<in> set past. holds_window u key e) = (\<exists>until. map_of wins key = Some until \<and> u < until)"
    using assms(1) u unfolding windows_inv_def by blast
  ultimately show "(\<exists>e \<in> set (past @ [e]). holds_window u key e) =
      (\<exists>until. map_of wins key = Some until \<and> u < until)" by simp
qed

lemma windows_live:
  assumes "windows_inv t past wins" "distinct (keys wins)"
  shows "windows_inv t past (filter (\<lambda>(k, until). \<not> until \<le> t) wins)"
  unfolding windows_inv_def
proof (intro allI impI)
  fix u key
  assume u: "t \<le> u"
  then have "(\<exists>e \<in> set past. holds_window u key e) = (\<exists>until. map_of wins key = Some until \<and> u < until)"
    using assms(1) unfolding windows_inv_def by blast
  then show "(\<exists>e \<in> set past. holds_window u key e) =
      (\<exists>until. map_of (filter (\<lambda>(k, until). \<not> until \<le> t) wins) key = Some until \<and> u < until)"
    using u unfolding map_of_filter_live [OF assms(2)] by (cases "map_of wins key") auto
qed

lemma distinct_live: "distinct (keys wins) \<Longrightarrow> distinct (keys (filter P wins))"
  by (induction wins) auto

lemma throttle_step:
  assumes inv: "windows_inv t past wins" and d: "distinct (keys wins)"
    and step: "throttle_check t route body ts wins = (res, wins')"
  shows "windows_inv t (past @ [((t, route, body, ts), res)]) wins' \<and> distinct (keys wins') \<and>
    (res \<noteq> None) = due past (t, route, body, ts)"
proof (cases "ts = [] \<or> window_of route body ts = None")
  case True
  then have "res = None" "wins' = wins" using step by (auto simp: throttle_check_def split: if_splits)
  moreover have "\<not> holds_window x key ((t, route, body, ts), None)" for x key
    using True by (auto simp: holds_window_def)
  ultimately show ?thesis using windows_idle [OF inv] d True by (auto simp: due_def)
next
  case False
  then obtain key c where w: "ts \<noteq> []" "window_of route body ts = Some (key, c)" by force
  let ?live = "filter (\<lambda>(k, until). \<not> until \<le> t) wins"
  have live: "windows_inv t past ?live" by (rule windows_live [OF inv d])
  have "(\<exists>e \<in> set past. holds_window t key e) = (\<exists>until. map_of ?live key = Some until \<and> t < until)"
    using live unfolding windows_inv_def by blast
  then have held: "(\<exists>e \<in> set past. holds_window t key e) = (map_of ?live key \<noteq> None)"
    unfolding map_of_filter_live [OF d] by (cases "map_of wins key") auto
  show ?thesis
  proof (cases "map_of ?live key")
    case (Some until)
    then have "until > t" by (auto simp: map_of_filter_live [OF d] split: option.splits if_splits)
    then have r: "res = Some (''trigger-cooldown:'' @ snd (snd key))" "wins' = ?live"
      using step w Some by (auto simp: throttle_check_def Let_def)
    have "windows_inv t (past @ [((t, route, body, ts), res)]) ?live"
      by (rule windows_idle [OF live]) (simp add: holds_window_def r)
    then show ?thesis using r held Some w d by (simp add: due_def distinct_live)
  next
    case None
    then have r: "res = None" "wins' = AList.update key (t + c) ?live"
      using step w by (auto simp: throttle_check_def Let_def)
    have "windows_inv t (past @ [((t, route, body, ts), res)]) wins'"
      unfolding windows_inv_def
    proof (intro allI impI)
      fix u k
      assume u: "t \<le> u"
      have new: "holds_window u k ((t, route, body, ts), res) \<longleftrightarrow> k = key \<and> u < t + c"
        using w by (auto simp: holds_window_def r(1))
      have "\<not> (\<exists>e \<in> set past. holds_window u key e)"
        using held None held_shorter u by blast
      moreover have "(\<exists>e \<in> set past. holds_window u k e) = (\<exists>until. map_of ?live k = Some until \<and> u < until)"
        using live u unfolding windows_inv_def by blast
      ultimately show "(\<exists>e \<in> set (past @ [((t, route, body, ts), res)]). holds_window u k e) =
          (\<exists>until. map_of wins' k = Some until \<and> u < until)"
        using new by (auto simp: r(2) update_conv')
    qed
    then show ?thesis using r held None w d by (simp add: due_def distinct_live distinct_update)
  qed
qed

lemma throttle_run_due:
  assumes "throttle_run ds wins = (rs, wins')" "windows_inv t0 past wins" "distinct (keys wins)"
    "sorted (t0 # map fst ds)" "j < length ds"
  shows "(rs ! j \<noteq> None) = due (past @ zip (take j ds) (take j rs)) (ds ! j)"
  using assms
proof (induction ds arbitrary: wins rs t0 past j)
  case (Cons d ds)
  obtain t route body ts where d: "d = (t, route, body, ts)" by (cases d)
  obtain res wins1 rs' where r: "throttle_check t route body ts wins = (res, wins1)"
      "throttle_run ds wins1 = (rs', wins')" "rs = res # rs'"
    using Cons.prems(1) by (auto simp: d split: prod.splits)
  have "windows_inv t past wins" by (rule windows_later [OF Cons.prems(2)]) (use Cons.prems(4) d in simp)
  note s = throttle_step [OF this Cons.prems(3) r(1)]
  show ?case
  proof (cases j)
    case 0
    then show ?thesis using s by (simp add: d r(3))
  next
    case (Suc i)
    have "(rs' ! i \<noteq> None) =
        due ((past @ [((t, route, body, ts), res)]) @ zip (take i ds) (take i rs')) (ds ! i)"
      by (rule Cons.IH [OF r(2), of t]) (use s Cons.prems Suc d in auto)
    then show ?thesis by (simp add: Suc r(3) d)
  qed
qed simp

section \<open>Properties\<close>


definition sample_wake :: wake_env where
  "sample_wake = \<lparr>we_level = Inr (Some ''OK''), we_db = True, we_today = ''2026-07-07'', we_cap = 2,
     we_audit = Client_Writes\<rparr>"

definition sample_deliveries :: "(wake_env \<times> string \<times> string) list" where
  "sample_deliveries = map (\<lambda>i. (sample_wake, ''smokeball'', i)) [''a'', ''b'', ''c'']"


text \<open>the cooldown suppresses exactly the echoes. Along deliveries in time order, one is
  suppressed just when an earlier delivery of the same route, event type and matter was forwarded
  and its window, as long as authored at that time, is still open. So two wakes of one key are a
  window apart, and nothing that falls outside a window is held back.\<close>

theorem cooldown_suppresses_the_echoes:
  assumes "throttle_run ds [] = (rs, wins)" "sorted (map fst ds)" "j < length ds"
  shows "(rs ! j \<noteq> None) = due (zip (take j ds) (take j rs)) (ds ! j)"
proof -
  have "windows_inv (fst (hd ds)) [] []" by (simp add: windows_inv_def)
  moreover have "sorted (fst (hd ds) # map fst ds)" using assms(2) by (cases ds) auto
  ultimately show ?thesis using throttle_run_due [OF assms(1), of _ "[]" j] assms(3) by simp
qed

definition memo_update :: "pyval option" where
  "memo_update = Some (PDict [(''type'', PStr ''matter.updated''),
     (''payload'', PDict [(''id'', PStr ''M1'')])])"

definition memo_throttle :: throttles where
  "memo_throttle = [((''smokeball'', ''matter.updated''), 1800)]"

lemma cooldown_suppresses_the_echoes_witness:
  "due (zip (take 1 [(0, ''smokeball'', memo_update, memo_throttle), (720000000, ''smokeball'', memo_update, memo_throttle)])
     (take 1 [None, Some ''trigger-cooldown:m1'']))
     ([(0, ''smokeball'', memo_update, memo_throttle), (720000000, ''smokeball'', memo_update, memo_throttle)] ! 1)"
  (is "due (zip (take 1 ?ds) (take 1 ?rs)) (?ds ! 1)")
proof -
  have "fst (throttle_run ?ds []) = ?rs" by code_simp
  then obtain wins where "throttle_run ?ds [] = (?rs, wins)" by (cases "throttle_run ?ds []") auto
  from cooldown_suppresses_the_echoes [OF this, of 1] show ?thesis by simp
qed

end
