(* ===== verification/Mcp_Store.thy ===== *)
theory Mcp_Store
  imports Prelude Text
begin

text \<open>
  The two file stores of the MCP channel, which share one directory: the one-shot answers the
  agent leaves for the gate (\<open>shared/mcp_result_store.py\<close>) and the transcripts that give a
  conversation its memory (\<open>shared/mcp_thread_store.py\<close>). A directory maps file names to what
  \<open>json.loads\<close> reads in the file and the time of its last write; writes are by rename, so a
  file is never half written. Instants are microseconds.
\<close>

section \<open>The directory\<close>

record store_file =
  sf_content :: "pyval option"
  sf_mtime :: int

type_synonym store_dir = "(string \<times> store_file) list"

text \<open>Which of the directory's operations succeed: making it, writing, reading, unlinking.\<close>

record dir_io =
  io_mkdir :: bool
  io_write :: bool
  io_read :: bool
  io_unlink :: bool

definition safe_char :: "char \<Rightarrow> bool" where
  "safe_char c \<longleftrightarrow>
     (let n = (of_char c :: nat)
      in (48 \<le> n \<and> n \<le> 57) \<or> (65 \<le> n \<and> n \<le> 90) \<or> (97 \<le> n \<and> n \<le> 122) \<or> n = 95 \<or> n = 45)"

text \<open>\<open>^[...]{1,n}$\<close>: the anchor \<open>$\<close> also matches before one final newline.\<close>

definition upto_newline :: "string \<Rightarrow> string" where
  "upto_newline s = (if s \<noteq> [] \<and> last s = char_of (10 :: nat) then butlast s else s)"

definition matches_charset :: "(char \<Rightarrow> bool) \<Rightarrow> nat \<Rightarrow> string \<Rightarrow> bool" where
  "matches_charset ok n s \<longleftrightarrow>
     (let b = upto_newline s in b \<noteq> [] \<and> length b \<le> n \<and> list_all ok b)"

definition ends_with :: "string \<Rightarrow> string \<Rightarrow> bool" where
  "ends_with s suf \<longleftrightarrow> starts_with (rev s) (rev suf)"

definition thread_prefix :: string where
  "thread_prefix = ''thread-''"

text \<open>\<open>p.unlink(missing_ok=True)\<close> for every entry the test selects.\<close>

definition remove_idle :: "dir_io \<Rightarrow> (string \<Rightarrow> bool) \<Rightarrow> int \<Rightarrow> int \<Rightarrow> store_dir \<Rightarrow> store_dir" where
  "remove_idle io mine ttl now d =
     (if io_unlink io
      then filter (\<lambda>(name, f). \<not> (mine name \<and> now - sf_mtime f > ttl)) d
      else d)"

section \<open>Answers\<close>

definition RESULT_TTL :: int where
  "RESULT_TTL = 300 * 1000000"

definition safe_id :: "string \<Rightarrow> string option" where
  "safe_id i = (if matches_charset safe_char 128 i then Some i else None)"

definition result_path :: "string \<Rightarrow> string option" where
  "result_path i = map_option (\<lambda>s. s @ ''.json'') (safe_id i)"

definition is_result_file :: "string \<Rightarrow> bool" where
  "is_result_file name \<longleftrightarrow> ends_with name ''.json'' \<and> \<not> starts_with name thread_prefix"

definition prune_results :: "dir_io \<Rightarrow> int \<Rightarrow> store_dir \<Rightarrow> store_dir" where
  "prune_results io now d = remove_idle io is_result_file RESULT_TTL now d"

definition put_result :: "dir_io \<Rightarrow> int \<Rightarrow> string \<Rightarrow> pydict \<Rightarrow> store_dir \<Rightarrow> bool \<times> store_dir" where
  "put_result io now i payload d =
     (if \<not> io_mkdir io then (False, d)
      else case result_path i of
        None \<Rightarrow> (False, d)
      | Some name \<Rightarrow>
          let d1 = prune_results io now d in
          if io_write io
          then (True, AList.update name \<lparr>sf_content = Some (PDict payload), sf_mtime = now\<rparr> d1)
          else (False, d1))"

definition take_result :: "dir_io \<Rightarrow> string \<Rightarrow> store_dir \<Rightarrow> pydict option \<times> store_dir" where
  "take_result io i d =
     (case result_path i of
        None \<Rightarrow> (None, d)
      | Some name \<Rightarrow>
          (case map_of d name of
             None \<Rightarrow> (None, d)
           | Some f \<Rightarrow>
               if \<not> io_read io then (None, d)
               else
                 ((case sf_content f of Some (PDict x) \<Rightarrow> Some x | _ \<Rightarrow> None),
                  if io_unlink io then AList.delete name d else d)))"

section \<open>Transcripts\<close>

definition MAX_TURNS :: nat where
  "MAX_TURNS = 12"

definition THREAD_TTL :: int where
  "THREAD_TTL = 7200 * 1000000"

definition safe_key_char :: "char \<Rightarrow> bool" where
  "safe_key_char c \<longleftrightarrow> safe_char c \<or> c = CHR '':''"

definition safe_key :: "string \<Rightarrow> string option" where
  "safe_key k = (if matches_charset safe_key_char 160 k then Some k else None)"

text \<open>\<open>sha\<close> is the hexadecimal SHA-256 of a text.\<close>

definition thread_key :: "(string \<Rightarrow> string) \<Rightarrow> string \<Rightarrow> string \<Rightarrow> string option" where
  "thread_key sha who thread_id =
     (if who = [] \<or> thread_id = [] then None
      else if \<not> matches_charset safe_char 64 thread_id then None
      else Some (take 16 (sha who) @ '':'' @ thread_id))"

definition thread_path :: "string \<Rightarrow> string option" where
  "thread_path key = map_option (\<lambda>k. thread_prefix @ k @ ''.json'') (safe_key key)"

definition is_thread_file :: "string \<Rightarrow> bool" where
  "is_thread_file name \<longleftrightarrow> starts_with name thread_prefix \<and> ends_with name ''.json''"

definition prune_threads :: "dir_io \<Rightarrow> int \<Rightarrow> store_dir \<Rightarrow> store_dir" where
  "prune_threads io now d = remove_idle io is_thread_file THREAD_TTL now d"

definition is_entry :: "pyval \<Rightarrow> bool" where
  "is_entry t = (case t of PDict e \<Rightarrow> map_of e ''role'' \<noteq> None \<and> map_of e ''text'' \<noteq> None | _ \<Rightarrow> False)"

definition history :: "dir_io \<Rightarrow> string \<Rightarrow> store_dir \<Rightarrow> pyval list" where
  "history io key d =
     (case thread_path key of
        None \<Rightarrow> []
      | Some name \<Rightarrow>
          (case map_of d name of
             None \<Rightarrow> []
           | Some f \<Rightarrow>
               if \<not> io_read io then []
               else (case sf_content f of
                  Some (PDict x) \<Rightarrow> (case dget x ''turns'' of PList ts \<Rightarrow> filter is_entry ts | _ \<Rightarrow> [])
                | _ \<Rightarrow> [])))"

definition entry :: "string \<Rightarrow> string \<Rightarrow> pyval" where
  "entry role txt = PDict [(''role'', PStr role), (''text'', PStr txt)]"

definition last_turns :: "pyval list \<Rightarrow> pyval list" where
  "last_turns ts = drop (length ts - MAX_TURNS * 2) ts"

definition append_exchange ::
  "dir_io \<Rightarrow> int \<Rightarrow> string \<Rightarrow> string \<Rightarrow> string \<Rightarrow> store_dir \<Rightarrow> bool \<times> store_dir" where
  "append_exchange io now key operator_message worker_reply d =
     (if \<not> io_mkdir io then (False, d)
      else case thread_path key of
        None \<Rightarrow> (False, d)
      | Some name \<Rightarrow>
          let d1 = prune_threads io now d;
              turns = last_turns (history io key d1 @
                [entry ''operator'' operator_message, entry ''worker'' worker_reply])
          in if io_write io
             then (True, AList.update name
                     \<lparr>sf_content = Some (PDict [(''turns'', PList turns)]), sf_mtime = now\<rparr> d1)
             else (False, d1))"

text \<open>The block a prompt carries. \<open>str_of\<close> is \<open>str\<close>, \<open>ell\<close> the mark before a shortened text.\<close>

definition line_of :: "(pyval \<Rightarrow> string) \<Rightarrow> pyval \<Rightarrow> string" where
  "line_of str_of t =
     (case t of
        PDict e \<Rightarrow>
          (if dget e ''role'' = PStr ''operator'' then ''Operator'' else ''You (Crane)'') @ '': '' @
          (case map_of e ''text'' of None \<Rightarrow> [] | Some v \<Rightarrow> str_of v)
      | _ \<Rightarrow> [])"

fun join_lines :: "string list \<Rightarrow> string" where
  "join_lines [] = []"
| "join_lines [x] = x"
| "join_lines (x # y # xs) = x @ char_of (10 :: nat) # join_lines (y # xs)"

definition render :: "(pyval \<Rightarrow> string) \<Rightarrow> string \<Rightarrow> nat \<Rightarrow> pyval list \<Rightarrow> string" where
  "render str_of ell max_chars turns =
     (if turns = [] then []
      else
        let txt = join_lines (map (line_of str_of) turns);
            body = (if length txt > max_chars then ell @ drop (length txt - max_chars) txt else txt)
        in ''Earlier in this same conversation:'' @ char_of (10 :: nat) # body @
           [char_of (10 :: nat), char_of (10 :: nat)])"

section \<open>The stores keep to their own files\<close>

lemma starts_with_iff: "starts_with s p \<longleftrightarrow> (\<exists>t. s = p @ t)"
  by (metis append_take_drop_id starts_with_append starts_with_def)

lemma colon_unsafe: "safe_char (CHR '':'') = False"
  by (simp add: safe_char_def)

lemma ends_with_append: "ends_with (s @ p) p"
  by (simp add: ends_with_def)

lemma thread_file_name:
  assumes "thread_path key = Some name"
  shows "is_thread_file name \<and> \<not> is_result_file name"
proof -
  obtain k where "name = (thread_prefix @ k) @ ''.json''" using assms by (auto simp: thread_path_def)
  then have "starts_with name thread_prefix" "ends_with name ''.json''"
    by (simp_all only: append_assoc starts_with_append) (simp only: append_assoc [symmetric] ends_with_append)
  then show ?thesis by (simp add: is_thread_file_def is_result_file_def)
qed

lemma map_of_remove_idle_other:
  "\<not> mine name \<Longrightarrow> map_of (remove_idle io mine ttl now d) name = map_of d name"
  by (induction d) (auto simp: remove_idle_def)

lemma map_of_remove_idle_fresh:
  assumes "map_of d name = Some f" "now - sf_mtime f \<le> ttl" 
  shows "map_of (remove_idle io mine ttl now d) name = Some f"
  using assms by (induction d) (auto simp: remove_idle_def split: if_splits)

section \<open>What a conversation remembers\<close>

datatype store_op =
    Exchange int string string string
  | Put_Answer int string pydict
  | Take_Answer string

fun op_time :: "store_op \<Rightarrow> int option" where
  "op_time (Exchange now k m r) = Some now"
| "op_time (Put_Answer now i p) = Some now"
| "op_time (Take_Answer i) = None"

fun store_step :: "dir_io \<Rightarrow> store_op \<Rightarrow> store_dir \<Rightarrow> store_dir" where
  "store_step io (Exchange now k m r) d = snd (append_exchange io now k m r d)"
| "store_step io (Put_Answer now i p) d = snd (put_result io now i p d)"
| "store_step io (Take_Answer i) d = snd (take_result io i d)"

fun said :: "string \<Rightarrow> store_op \<Rightarrow> pyval list" where
  "said key (Exchange now k m r) = (if k = key then [entry ''operator'' m, entry ''worker'' r] else [])"
| "said key _ = []"

definition all_io :: dir_io where
  "all_io = \<lparr>io_mkdir = True, io_write = True, io_read = True, io_unlink = True\<rparr>"

lemma is_entry_entry [simp]: "is_entry (entry role txt)"
  by (simp add: is_entry_def entry_def)

lemma said_entries: "filter is_entry (concat (map (said key) ops)) = concat (map (said key) ops)"
proof -
  have "filter is_entry (said key op) = said key op" for op by (cases op) auto
  then show ?thesis by (induction ops) simp_all
qed

lemma last_turns_append: "last_turns (last_turns xs @ ys) = last_turns (xs @ ys)"
proof -
  have "last_turns zs = rev (take (MAX_TURNS * 2) (rev zs))" for zs by (simp add: last_turns_def rev_take)
  then show ?thesis by (simp add: take_append)
qed

lemma last_turns_small: "length xs \<le> MAX_TURNS * 2 \<Longrightarrow> last_turns xs = xs"
  by (simp add: last_turns_def)

text \<open>The file of a transcript, and that a directory holds the given one.\<close>

definition holds :: "string \<Rightarrow> int \<Rightarrow> pyval list \<Rightarrow> store_dir \<Rightarrow> bool" where
  "holds name t0 ts d \<longleftrightarrow>
     (case map_of d name of
        None \<Rightarrow> ts = []
      | Some f \<Rightarrow> t0 \<le> sf_mtime f \<and> sf_content f = Some (PDict [(''turns'', PList (last_turns ts))]))"

lemma holds_history:
  "holds name t0 ts d \<Longrightarrow> thread_path key = Some name \<Longrightarrow> filter is_entry ts = ts \<Longrightarrow>
     history all_io key d = last_turns ts"
proof -
  assume h: "holds name t0 ts d" "thread_path key = Some name" "filter is_entry ts = ts"
  have "\<forall>x \<in> set (last_turns ts). is_entry x"
    using h(3) by (metis filter_id_conv in_set_dropD last_turns_def)
  then have "filter is_entry (last_turns ts) = last_turns ts" by simp
  then show ?thesis
    using h(1,2) by (auto simp: holds_def history_def all_io_def last_turns_def split: option.splits)
qed

lemma holds_cong: "map_of d' name = map_of d name \<Longrightarrow> holds name t0 ts d' = holds name t0 ts d"
  by (simp add: holds_def)

lemma holds_remove_idle:
  assumes "holds name t0 ts d" "mine name \<Longrightarrow> now \<le> t0 + ttl"
  shows "holds name t0 ts (remove_idle io mine ttl now d)"
proof (cases "map_of d name")
  case None
  then have "map_of (remove_idle io mine ttl now d) name = None"
    by (force simp: remove_idle_def map_of_eq_None_iff)
  then show ?thesis using assms(1) None by (simp add: holds_def)
next
  case (Some f)
  have "map_of (remove_idle io mine ttl now d) name = Some f"
  proof (cases "mine name")
    case True
    then show ?thesis
      using assms Some by (intro map_of_remove_idle_fresh) (auto simp: holds_def)
  qed (simp add: map_of_remove_idle_other Some)
  then show ?thesis using assms(1) Some by (simp add: holds_def)
qed

lemma thread_path_inj: "thread_path k = Some name \<Longrightarrow> thread_path k' = Some name \<Longrightarrow> k = k'"
  by (auto simp: thread_path_def safe_key_def split: if_splits)

lemma result_not_thread:
  assumes "CHR '':'' \<in> set key" "thread_path key = Some name" "result_path i = Some name'"
  shows "name' \<noteq> name"
proof
  assume "name' = name"
  then have "i = thread_prefix @ key" using assms(2,3)
    by (auto simp: thread_path_def result_path_def safe_key_def safe_id_def split: if_splits)
  then have "CHR '':'' \<in> set i" using assms(1) by simp
  moreover have "list_all safe_char (upto_newline i)"
    using assms(3) by (auto simp: result_path_def safe_id_def matches_charset_def Let_def split: if_splits)
  moreover have "CHR '':'' \<in> set (upto_newline i)"
  proof (cases "i \<noteq> [] \<and> last i = char_of (10 :: nat)")
    case True
    then have i: "i = butlast i @ [char_of (10 :: nat)]" by (metis append_butlast_last_id)
    have "CHR '':'' \<noteq> char_of (10 :: nat)" by code_simp
    then have "CHR '':'' \<in> set (butlast i)" using \<open>CHR '':'' \<in> set i\<close> by (subst (asm) i) simp
    then show ?thesis using True by (simp add: upto_newline_def)
  qed (use \<open>CHR '':'' \<in> set i\<close> in \<open>auto simp: upto_newline_def\<close>)
  ultimately show False using colon_unsafe by (auto simp: list_all_iff)
qed

lemma store_step_holds:
  assumes h: "holds name t0 ts d" and key: "CHR '':'' \<in> set key" "thread_path key = Some name"
    and ts: "filter is_entry ts = ts"
    and t: "\<forall>now. op_time op = Some now \<longrightarrow> t0 \<le> now \<and> now \<le> t0 + THREAD_TTL"
  shows "holds name t0 (ts @ said key op) (store_step all_io op d)"
proof (cases op)
  case (Exchange now k m r)
  let ?d1 = "prune_threads all_io now d"
  have h1: "holds name t0 ts ?d1"
    unfolding prune_threads_def by (rule holds_remove_idle [OF h]) (use t Exchange in simp)
  show ?thesis
  proof (cases "k = key")
    case True
    have "history all_io key ?d1 = last_turns ts" by (rule holds_history [OF h1 key(2) ts])
    then show ?thesis
      using True Exchange key t
      by (simp add: append_exchange_def all_io_def [symmetric] holds_def last_turns_append
          update_conv' Let_def) (simp add: all_io_def)
  next
    case False
    have "map_of (store_step all_io op d) name = map_of (if thread_path k = None then d else ?d1) name"
      using False thread_path_inj [OF key(2)] Exchange
      by (auto simp: append_exchange_def Let_def all_io_def update_conv' split: option.splits)
    then show ?thesis using h h1 False Exchange by (auto simp: holds_def)
  qed
next
  case (Put_Answer now i p)
  have h1: "holds name t0 ts (prune_results all_io now d)"
    unfolding prune_results_def
    by (rule holds_remove_idle [OF h]) (use thread_file_name [OF key(2)] in simp)
  have "map_of (store_step all_io op d) name =
      map_of (if result_path i = None then d else prune_results all_io now d) name"
    using Put_Answer result_not_thread [OF key, of i]
    by (auto simp: put_result_def Let_def all_io_def update_conv' split: option.splits)
  then show ?thesis using h h1 Put_Answer by (auto simp: holds_def)
next
  case (Take_Answer i)
  have "map_of (store_step all_io op d) name = map_of d name"
    using Take_Answer result_not_thread [OF key, of i]
    by (auto simp: take_result_def all_io_def delete_conv' split: option.splits)
  then show ?thesis using h Take_Answer by (simp add: holds_def)
qed

lemma store_run_holds:
  assumes "holds name t0 ts d" "CHR '':'' \<in> set key" "thread_path key = Some name" "filter is_entry ts = ts"
    "\<forall>op \<in> set ops. \<forall>now. op_time op = Some now \<longrightarrow> t0 \<le> now \<and> now \<le> t0 + THREAD_TTL"
  shows "holds name t0 (ts @ concat (map (said key) ops)) (fold (store_step all_io) ops d)"
  using assms
proof (induction ops arbitrary: ts d)
  case (Cons op ops)
  have h: "holds name t0 (ts @ said key op) (store_step all_io op d)"
    by (rule store_step_holds [OF Cons.prems(1-4)]) (use Cons.prems(5) in simp)
  have f: "filter is_entry (ts @ said key op) = ts @ said key op"
    using Cons.prems(4) said_entries [of key "[op]"] by simp
  have "holds name t0 ((ts @ said key op) @ concat (map (said key) ops))
      (fold (store_step all_io) ops (store_step all_io op d))"
    by (rule Cons.IH [OF h Cons.prems(2,3) f]) (use Cons.prems(5) in simp)
  then show ?case by simp
qed simp

section \<open>Properties\<close>

text \<open>a conversation remembers its own last twelve exchanges and nothing else. Whatever
  exchanges of other threads and answers of other turns are stored, collected or pruned in the
  shared directory within the idle limit, the transcript of a thread is the last twenty-four
  entries of what was said under its key, oldest first.\<close>

theorem transcript_is_the_last_exchanges:
  assumes "thread_key sha who thread_id = Some key" "thread_path key = Some name"
    "map_of d name = None"
    "\<forall>op \<in> set ops. \<forall>now. op_time op = Some now \<longrightarrow> t0 \<le> now \<and> now \<le> t0 + THREAD_TTL"
  shows "history all_io key (fold (store_step all_io) ops d) =
           last_turns (concat (map (said key) ops))"
proof -
  have c: "CHR '':'' \<in> set key" using assms(1) by (auto simp: thread_key_def split: if_splits)
  have "holds name t0 ([] @ concat (map (said key) ops)) (fold (store_step all_io) ops d)"
    by (rule store_run_holds [OF _ c assms(2) _ assms(4)]) (simp_all add: holds_def assms(3))
  from holds_history [OF this assms(2)] show ?thesis by (simp add: said_entries)
qed

lemma transcript_is_the_last_exchanges_witness:
  "history all_io ''ab:t'' (fold (store_step all_io)
     [Exchange 0 ''ab:t'' ''hi'' ''hello'', Exchange 1 ''cd:t'' ''x'' ''y'', Put_Answer 2 ''42'' [],
      Exchange 3 ''ab:t'' ''and'' ''so''] []) =
   last_turns [entry ''operator'' ''hi'', entry ''worker'' ''hello'', entry ''operator'' ''and'', entry ''worker'' ''so'']"
proof -
  have "thread_key (\<lambda>_. ''ab'') ''ann'' ''t'' = Some ''ab:t''" by code_simp
  moreover have "thread_path ''ab:t'' = Some ''thread-ab:t.json''" by code_simp
  ultimately show ?thesis
    using transcript_is_the_last_exchanges [of "\<lambda>_. ''ab''" "''ann''" "''t''" "''ab:t''" "''thread-ab:t.json''" "[]"
        "[Exchange 0 ''ab:t'' ''hi'' ''hello'', Exchange 1 ''cd:t'' ''x'' ''y'', Put_Answer 2 ''42'' [],
          Exchange 3 ''ab:t'' ''and'' ''so'']" 0]
    by (simp add: THREAD_TTL_def)
qed

end
