(* ===== verification/Webhook_Gate.thy ===== *)
theory Webhook_Gate
  imports Gate_Limits Exposure_Override Mcp_Store Text
begin

text \<open>
  The HTTP front door (\<open>webhook_gate.py\<close>, \<open>shared/forward_signature.py\<close>,
  \<open>shared/approve_page.py\<close>): vendor signatures, the replay guard, provenance stamping, the
  delivery handler with its limits, and the console's endpoints, which pause and resume the
  breaker, set the entitlement dial and drive turns. Strings are the latin-1 text \<open>http.server\<close>
  decodes headers to, a body is its bytes; both are lists of characters. Instants are
  microseconds and the clock is read once per request.
\<close>

section \<open>The library primitives\<close>

text \<open>HMAC-SHA256 of a key and a message as a hexadecimal and as a base64 text, and base64
  decoding, which may raise.\<close>

record crypto =
  hex_mac :: "string \<Rightarrow> string \<Rightarrow> string"
  b64_mac :: "string \<Rightarrow> string \<Rightarrow> string"
  b64_decode :: "string \<Rightarrow> string option"

definition ascii :: "string \<Rightarrow> bool" where
  "ascii s \<longleftrightarrow> list_all (\<lambda>c. (of_char c :: nat) < 128) s"

text \<open>\<open>hmac.compare_digest\<close> of two texts raises when one of them is not ASCII.\<close>

definition compare_digest :: "string \<Rightarrow> string \<Rightarrow> py_exn + bool" where
  "compare_digest a b =
     (if ascii a \<and> ascii b then Inr (a = b)
      else Inl (TypeError ''comparing strings with non-ASCII characters is not supported''))"

text \<open>\<open>s.encode()\<close> of a text of code points below 256.\<close>

definition utf8_char :: "char \<Rightarrow> string" where
  "utf8_char c =
     (let n = (of_char c :: nat)
      in if n < 128 then [c] else [char_of (192 + n div 64), char_of (128 + n mod 64)])"

definition utf8 :: "string \<Rightarrow> string" where
  "utf8 s = concat (map utf8_char s)"

section \<open>Vendor signatures\<close>

definition TIMESTAMP_TOLERANCE :: int where
  "TIMESTAMP_TOLERANCE = 300 * 1000000"

definition whsec :: string where
  "whsec = ''whsec_''"

text \<open>The loop over the space-separated \<open>version,signature\<close> parts.\<close>

fun any_part_matches :: "string \<Rightarrow> string list \<Rightarrow> py_exn + bool" where
  "any_part_matches expected [] = Inr False"
| "any_part_matches expected (p # ps) =
     (let (version, sig) = (case cut_first '','' p of None \<Rightarrow> (p, []) | Some vs \<Rightarrow> vs)
      in if version = ''v1'' \<and> sig \<noteq> []
         then (case compare_digest sig expected of
                 Inl e \<Rightarrow> Inl e
               | Inr True \<Rightarrow> Inr True
               | Inr False \<Rightarrow> any_part_matches expected ps)
         else any_part_matches expected ps)"

definition verify_svix_signature ::
  "crypto \<Rightarrow> string \<Rightarrow> string \<Rightarrow> string \<Rightarrow> string \<Rightarrow> string \<Rightarrow> int \<Rightarrow> py_exn + bool" where
  "verify_svix_signature K body svix_id svix_ts sig_header secret now =
     (if svix_id = [] \<or> svix_ts = [] \<or> sig_header = [] \<or> secret = [] then Inr False
      else case parse_int svix_ts of
        None \<Rightarrow> Inr False
      | Some ts \<Rightarrow>
          if \<bar>now - ts * 1000000\<bar> > TIMESTAMP_TOLERANCE then Inr False
          else
            (case b64_decode K (if starts_with secret whsec then drop (length whsec) secret else secret) of
               None \<Rightarrow> Inr False
             | Some key \<Rightarrow>
                 any_part_matches (b64_mac K key (utf8 svix_id @ ''.'' @ utf8 svix_ts @ ''.'' @ body))
                   (words sig_header)))"

definition DOTNET_TICKS_PER_SECOND :: int where
  "DOTNET_TICKS_PER_SECOND = 10000000"

definition DOTNET_EPOCH_OFFSET_SECONDS :: int where
  "DOTNET_EPOCH_OFFSET_SECONDS = 62135596800"

definition ticks_seconds :: "int \<Rightarrow> int" where
  "ticks_seconds ticks = ticks div DOTNET_TICKS_PER_SECOND - DOTNET_EPOCH_OFFSET_SECONDS"

definition verify_smokeball_signature ::
  "crypto \<Rightarrow> string \<Rightarrow> string \<Rightarrow> string \<Rightarrow> string \<Rightarrow> string \<Rightarrow> int \<Rightarrow> py_exn + bool" where
  "verify_smokeball_signature K timestamp request_id client_id sig_header secret now =
     (if timestamp = [] \<or> request_id = [] \<or> client_id = [] \<or> sig_header = [] \<or> secret = []
      then Inr False
      else
        let ts = strip timestamp in
        case parse_int ts of
          None \<Rightarrow> Inr False
        | Some ticks \<Rightarrow>
            if \<bar>now - ticks_seconds ticks * 1000000\<bar> > TIMESTAMP_TOLERANCE then Inr False
            else compare_digest (lower (strip sig_header))
                   (hex_mac K (utf8 secret) (utf8 (ts @ ''|'' @ request_id @ ''|'' @ client_id))))"

section \<open>The replay guard\<close>

definition REPLAY_TTL :: int where
  "REPLAY_TTL = TIMESTAMP_TOLERANCE + 60 * 1000000"

type_synonym replay = "(string \<times> int) list"

definition replay_seen_recently :: "int \<Rightarrow> string \<Rightarrow> replay \<Rightarrow> bool" where
  "replay_seen_recently now request_id seen =
     (request_id \<noteq> [] \<and> (case map_of seen request_id of None \<Rightarrow> False | Some until \<Rightarrow> until > now))"

definition replay_record :: "int \<Rightarrow> string \<Rightarrow> replay \<Rightarrow> replay" where
  "replay_record now request_id seen =
     (if request_id = [] then seen else AList.update request_id (now + REPLAY_TTL) seen)"

definition EDGE_REPLAY_ROUTES :: "string list" where
  "EDGE_REPLAY_ROUTES = [''smokeball'']"

section \<open>Requests and the gate's surroundings\<close>

text \<open>A request: the raw target, what \<open>urlsplit\<close> reads in it, the headers, and the bytes the
  client sends until it closes.\<close>

record request =
  rq_target :: string
  rq_path :: string
  rq_headers :: "(string \<times> string) list"
  rq_stream :: string

text \<open>Header names match without regard to case; \<open>headers.get(name)\<close>.\<close>

definition header :: "string \<Rightarrow> request \<Rightarrow> string option" where
  "header name rq = map_of (map (\<lambda>(k, v). (lower k, v)) (rq_headers rq)) (lower name)"

definition header_or :: "string \<Rightarrow> string \<Rightarrow> request \<Rightarrow> string" where
  "header_or name d rq = (case header name rq of None \<Rightarrow> d | Some v \<Rightarrow> v)"

definition content_length :: "request \<Rightarrow> py_exn + int" where
  "content_length rq =
     (let s = header_or ''Content-Length'' [] rq
      in if s = [] then Inr 0
         else case parse_int s of
           None \<Rightarrow> Inl (ValueError ''invalid literal for int() with base 10'')
         | Some n \<Rightarrow> Inr n)"

text \<open>\<open>rfile.read(n) if n else b""\<close>: minus one reads to the end of the stream, other negative
  lengths raise.\<close>

definition read_stream :: "int \<Rightarrow> string \<Rightarrow> py_exn + string" where
  "read_stream n stream =
     (if n \<ge> 0 then Inr (take (nat n) stream)
      else if n = -1 then Inr stream
      else Inl (ValueError ''read length must be non-negative or -1''))"

definition MAX_BODY_BYTES :: int where
  "MAX_BODY_BYTES = 1048576"

text \<open>One delivery to the adapter.\<close>

record forward =
  fw_route :: string
  fw_body :: string
  fw_headers :: "(string \<times> string) list"

datatype reading = Json pyval | Not_Json | Not_Text

datatype response =
    Reply int pyval
  | Adapter_Reply int string
  | Page int string string

text \<open>
  What surrounds one request: the clock, the primitives, JSON (\<open>loads\<close> of bytes, \<open>loads\<close> of the
  UTF-8 text of bytes, \<open>dumps\<close>), \<open>str\<close> of a value, the environment, the configuration file, the
  adapter's answer (\<open>None\<close> when the connection faults), how the breaker's file reads and whether
  it is there, whether the state databases take a write, whether the wake guard is armed, its
  database and audit client, the fresh identifier of a turn, what the agent's process stores
  between two polls, the broker's job verbs and its approve verb.
\<close>

record gate_env =
  ge_now :: int
  ge_crypto :: crypto
  ge_loads :: "string \<Rightarrow> reading"
  ge_loads_text :: "string \<Rightarrow> reading"
  ge_dumps :: "pyval \<Rightarrow> string"
  ge_str :: "pyval \<Rightarrow> string"
  ge_getenv :: "string \<Rightarrow> string option"
  ge_config :: config_file
  ge_adapter :: "forward \<Rightarrow> (int \<times> string) option"
  ge_breaker_read :: "Sticky_Stop.world \<Rightarrow> db_read"
  ge_breaker_file :: bool
  ge_state_ok :: bool
  ge_guard :: bool
  ge_db :: bool
  ge_audit :: audit_port
  ge_uuid :: string
  ge_agent :: "(string \<times> pydict) list list"
  ge_io :: dir_io
  ge_sha :: "string \<Rightarrow> string"
  ge_ellipsis :: string
  ge_slug :: string
  ge_job_read :: "string \<Rightarrow> py_exn + pydict option"
  ge_job_cancel :: "string \<Rightarrow> py_exn + bool"
  ge_decide :: "string \<Rightarrow> py_exn + pyval"
  ge_query_token :: "string \<Rightarrow> string option"

record gate =
  g_replay :: replay
  g_wake :: wake_world
  g_windows :: windows
  g_breaker :: Sticky_Stop.world
  g_overrides :: "override_row list"
  g_dir :: store_dir
  g_sent :: "forward list"

definition level_now :: "gate_env \<Rightarrow> gate \<Rightarrow> string option" where
  "level_now E g = read_level (ge_breaker_read E (g_breaker g))"

definition mark_handled :: "gate_env \<Rightarrow> string \<Rightarrow> string \<Rightarrow> gate \<Rightarrow> gate" where
  "mark_handled E route request_id g =
     (if route \<in> set EDGE_REPLAY_ROUTES
      then g\<lparr>g_replay := replay_record (ge_now E) request_id (g_replay g)\<rparr> else g)"

definition route_untriggered :: "config_file \<Rightarrow> string \<Rightarrow> bool" where
  "route_untriggered cfg route =
     (case cfg of
        Document d \<Rightarrow>
          (case dget d ''webhook_triggers'' of
             PList es \<Rightarrow> \<not> (\<exists>t \<in> set es. case t of PDict x \<Rightarrow> dget x ''source'' = PStr route | _ \<Rightarrow> False)
           | _ \<Rightarrow> True)
      | _ \<Rightarrow> False)"

text \<open>\<open>route.upper().replace('-', '_')\<close> of a route slug.\<close>

definition env_char :: "char \<Rightarrow> char" where
  "env_char c =
     (let n = (of_char c :: nat)
      in if 97 \<le> n \<and> n \<le> 122 then char_of (n - 32) else if c = CHR ''-'' then CHR ''_'' else c)"

definition route_secret :: "gate_env \<Rightarrow> string \<Rightarrow> string option" where
  "route_secret E route =
     (case ge_getenv E (''WEBHOOK_SECRET_'' @ map env_char route) of
        None \<Rightarrow> None | Some v \<Rightarrow> if v = [] then None else Some v)"

definition slug_char :: "char \<Rightarrow> bool" where
  "slug_char c \<longleftrightarrow> (let n = (of_char c :: nat) in (97 \<le> n \<and> n \<le> 122) \<or> (48 \<le> n \<and> n \<le> 57))"

definition route_ok :: "string \<Rightarrow> bool" where
  "route_ok route \<longleftrightarrow>
     (case upto_newline route of
        [] \<Rightarrow> False
      | c # cs \<Rightarrow> slug_char c \<and> length cs \<le> 31 \<and> list_all (\<lambda>x. slug_char x \<or> x = CHR ''-'') cs)"

definition py_text :: "gate_env \<Rightarrow> pyval \<Rightarrow> string" where
  "py_text E v = (case v of PStr s \<Rightarrow> s | _ \<Rightarrow> ge_str E v)"

text \<open>\<open>str(v or "").strip()\<close>\<close>

definition field_stripped :: "gate_env \<Rightarrow> pydict \<Rightarrow> string \<Rightarrow> string" where
  "field_stripped E d k = strip (if truthy (dget d k) then py_text E (dget d k) else [])"

section \<open>Stamping\<close>

definition message_id :: "gate_env \<Rightarrow> string \<Rightarrow> string option" where
  "message_id E body =
     (case ge_loads E body of
        Json (PDict payload) \<Rightarrow>
          (case dget payload ''message'' of
             PDict m \<Rightarrow>
               (let mid = (if truthy (dget m ''message_id'') then dget m ''message_id'' else dget m ''id'')
                in if truthy mid then Some (py_text E mid) else None)
           | _ \<Rightarrow> None)
      | _ \<Rightarrow> None)"

definition stamp_provenance :: "string \<Rightarrow> pydict \<Rightarrow> pydict" where
  "stamp_provenance route p =
     (if dget p ''source'' = PStr route then p
      else
        let p1 = (case dget p ''source'' of
                    PStr s \<Rightarrow> if s \<noteq> [] \<and> map_of p ''origin_source'' = None
                              then AList.update ''origin_source'' (PStr s) p else p
                  | _ \<Rightarrow> p)
        in AList.update ''source'' (PStr route) p1)"

fun first_text :: "pyval list \<Rightarrow> string option" where
  "first_text [] = None"
| "first_text (v # vs) =
     (case v of PStr s \<Rightarrow> if s \<noteq> [] then Some s else first_text vs | _ \<Rightarrow> first_text vs)"

definition stamp_event_type :: "pydict \<Rightarrow> pydict" where
  "stamp_event_type p =
     (if truthy (dget p ''event_type'') then p
      else case first_text [dget p ''type'', dget p ''event''] of
        None \<Rightarrow> p | Some t \<Rightarrow> AList.update ''event_type'' (PStr t) p)"

definition stamp_event_id :: "string \<Rightarrow> pydict \<Rightarrow> pydict" where
  "stamp_event_id event_id p =
     (if event_id \<noteq> [] \<and> \<not> truthy (dget p ''event_id'')
      then AList.update ''event_id'' (PStr event_id) p else p)"

definition stamped :: "string \<Rightarrow> string \<Rightarrow> pydict \<Rightarrow> pydict" where
  "stamped route event_id p = stamp_event_id event_id (stamp_event_type (stamp_provenance route p))"

text \<open>Every stamp that is set differs from the field it replaces, so an unchanged payload is one
  nothing was stamped on.\<close>

definition stamp_source :: "gate_env \<Rightarrow> string \<Rightarrow> string \<Rightarrow> string \<Rightarrow> string" where
  "stamp_source E body route event_id =
     (case ge_loads E body of
        Json (PDict p) \<Rightarrow>
          (if stamped route event_id p = p then body else ge_dumps E (PDict (stamped route event_id p)))
      | _ \<Rightarrow> body)"

section \<open>The forward hop\<close>

definition sign_forward :: "gate_env \<Rightarrow> string \<Rightarrow> string \<Rightarrow> string \<times> string" where
  "sign_forward E body secret =
     (let ts = show_int (ge_now E div 1000000)
      in (ts, hex_mac (ge_crypto E) (utf8 secret) (utf8 ts @ ''.'' @ body)))"

definition forward_headers :: "gate_env \<Rightarrow> string \<Rightarrow> string \<Rightarrow> string \<Rightarrow> string \<Rightarrow> (string \<times> string) list" where
  "forward_headers E body secret request_id content_type =
     (case sign_forward E body secret of
        (ts, sig) \<Rightarrow>
          [(''Content-Type'', content_type), (''X-Webhook-Signature-V2'', sig),
           (''X-Webhook-Timestamp'', ts), (''X-Request-ID'', request_id)])"

definition is_2xx :: "int \<Rightarrow> bool" where
  "is_2xx s \<longleftrightarrow> 200 \<le> s \<and> s < 300"

section \<open>Deliveries\<close>

definition agentmail_route_verify :: "gate_env \<Rightarrow> request \<Rightarrow> string \<Rightarrow> string \<Rightarrow> py_exn + bool \<times> string" where
  "agentmail_route_verify E rq body secret =
     (let i = header_or ''svix-id'' [] rq;
          ok = verify_svix_signature (ge_crypto E) body i (header_or ''svix-timestamp'' [] rq)
                 (header_or ''svix-signature'' [] rq) secret (ge_now E)
      in map_sum id (\<lambda>b. (b, if i \<noteq> [] then i else take 64 (str_or (message_id E body) []))) ok)"

definition smokeball_route_verify :: "gate_env \<Rightarrow> replay \<Rightarrow> request \<Rightarrow> string \<Rightarrow> py_exn + bool \<times> string" where
  "smokeball_route_verify E seen rq secret =
     (let client_id = str_or (ge_getenv E ''WEBHOOK_SMOKEBALL_CLIENT_ID'') [];
          request_id = header_or ''RequestId'' [] rq;
          ok = verify_smokeball_signature (ge_crypto E) (header_or ''Timestamp'' [] rq) request_id
                 client_id (header_or ''Signature'' [] rq) secret (ge_now E)
      in map_sum id (\<lambda>b. (b \<and> \<not> replay_seen_recently (ge_now E) request_id seen, request_id)) ok)"

definition route_verify ::
  "gate_env \<Rightarrow> gate \<Rightarrow> string \<Rightarrow> (request \<Rightarrow> string \<Rightarrow> string \<Rightarrow> py_exn + bool \<times> string) option" where
  "route_verify E g route =
     (if route = ''agentmail'' then Some (agentmail_route_verify E)
      else if route = ''smokeball'' then Some (\<lambda>rq body. smokeball_route_verify E (g_replay g) rq)
      else None)"

definition suppression_row :: "string \<Rightarrow> string \<Rightarrow> string \<Rightarrow> pydict" where
  "suppression_row route request_id why =
     [(''gate_trigger_exclusion'', PBool True), (''reason'', PStr why), (''route'', PStr route),
      (''request_id'', PStr request_id)]"

definition audit_suppression :: "gate_env \<Rightarrow> string \<Rightarrow> string \<Rightarrow> string \<Rightarrow> gate \<Rightarrow> gate" where
  "audit_suppression E route request_id why g =
     g\<lparr>g_wake := (g_wake g)\<lparr>ww_rows := audit_append (ge_audit E) ''WEBHOOK_SUPPRESSED''
         (suppression_row route request_id why) (ww_rows (g_wake g))\<rparr>\<rparr>"

definition suppress :: "gate_env \<Rightarrow> string \<Rightarrow> string \<Rightarrow> string \<Rightarrow> gate \<Rightarrow> response \<times> gate" where
  "suppress E route request_id why g =
     (Reply 202 (PDict [(''accepted'', PBool True), (''suppressed'', PStr why)]),
      mark_handled E route request_id (audit_suppression E route request_id why g))"

definition wake_env_of :: "gate_env \<Rightarrow> gate \<Rightarrow> wake_env" where
  "wake_env_of E g =
     \<lparr>we_level = Inr (level_now E g), we_db = ge_db E, we_today = date_text (ge_now E),
      we_cap = default_cap_resolver (ge_config E), we_audit = ge_audit E\<rparr>"

definition guard_check :: "gate_env \<Rightarrow> string \<Rightarrow> string \<Rightarrow> gate \<Rightarrow> (bool \<times> string option) \<times> gate" where
  "guard_check E route request_id g =
     (if \<not> ge_guard E then ((True, None), g)
      else case wake_check (wake_env_of E g) route request_id (g_wake g) of
        (res, w) \<Rightarrow> (res, g\<lparr>g_wake := w\<rparr>))"

definition json_body :: "gate_env \<Rightarrow> string \<Rightarrow> pyval option" where
  "json_body E body = (case ge_loads E body of Json v \<Rightarrow> Some v | _ \<Rightarrow> None)"

definition forward_delivery ::
  "gate_env \<Rightarrow> request \<Rightarrow> string \<Rightarrow> string \<Rightarrow> string \<Rightarrow> string \<Rightarrow> gate \<Rightarrow> response \<times> gate" where
  "forward_delivery E rq route secret request_id body g =
     (let b = stamp_source E body route request_id;
          fw = \<lparr>fw_route = route, fw_body = b,
                fw_headers = forward_headers E b secret request_id
                  (header_or ''Content-Type'' ''application/json'' rq)\<rparr>;
          g1 = g\<lparr>g_sent := g_sent g @ [fw]\<rparr>
      in case ge_adapter E fw of
           None \<Rightarrow> (Reply 503 (PDict [(''error'', PStr ''gateway unavailable''), (''retry'', PBool True)]), g1)
         | Some (status, payload) \<Rightarrow>
             (Adapter_Reply status payload,
              if is_2xx status then mark_handled E route request_id g1 else g1))"

text \<open>A verified delivery: guard, exclusions, untriggered routes, cooldown, then the forward.\<close>

definition handle_verified ::
  "gate_env \<Rightarrow> request \<Rightarrow> string \<Rightarrow> string \<Rightarrow> string \<Rightarrow> string \<Rightarrow> gate \<Rightarrow> response \<times> gate" where
  "handle_verified E rq route secret request_id body g =
     (case guard_check E route request_id g of
        ((False, why), g1) \<Rightarrow>
          (Reply 202 (PDict [(''accepted'', PBool True), (''parked'', opt_str why)]),
           mark_handled E route request_id g1)
      | ((True, _), g1) \<Rightarrow>
          (case check_excluded route (json_body E body) (live_exclusions (ge_config E)) of
             Some why \<Rightarrow> suppress E route request_id why g1
           | None \<Rightarrow>
               if route_untriggered (ge_config E) route
               then suppress E route request_id ''untriggered-route'' g1
               else
                 (case throttle_check (ge_now E) route (json_body E body)
                         (live_throttles (ge_config E)) (g_windows g1) of
                    (res, wins) \<Rightarrow>
                      let g2 = g1\<lparr>g_windows := wins\<rparr> in
                      (case res of
                         Some why \<Rightarrow> suppress E route request_id why g2
                       | None \<Rightarrow> forward_delivery E rq route secret request_id body g2))))"

definition err :: "int \<Rightarrow> string \<Rightarrow> response" where
  "err status what = Reply status (PDict [(''error'', PStr what)])"

definition webhooks_prefix :: string where
  "webhooks_prefix = ''/webhooks/''"

text \<open>\<open>path[len("/webhooks/"):].strip("/").split("/")[0]\<close>\<close>

definition strip_slashes :: "string \<Rightarrow> string" where
  "strip_slashes s =
     (let f = dropWhile (\<lambda>c. c = CHR ''/'') in rev (f (rev (f s))))"

definition route_of :: "string \<Rightarrow> string" where
  "route_of target = hd (split_on CHR ''/'' (strip_slashes (drop (length webhooks_prefix) target)))"

definition handle_delivery :: "gate_env \<Rightarrow> request \<Rightarrow> gate \<Rightarrow> (py_exn + response) \<times> gate" where
  "handle_delivery E rq g =
     (if \<not> starts_with (rq_target rq) webhooks_prefix then (Inr (err 404 ''unknown path''), g)
      else
        let route = route_of (rq_target rq) in
        if \<not> route_ok route then (Inr (err 404 ''unknown route''), g)
        else case route_secret E route of
          None \<Rightarrow> (Inr (err 401 ''unconfigured route''), g)
        | Some secret \<Rightarrow>
            (case content_length rq of
               Inl e \<Rightarrow> (Inl e, g)
             | Inr n \<Rightarrow>
                 if n > MAX_BODY_BYTES then (Inr (err 413 ''payload too large''), g)
                 else (case read_stream n (rq_stream rq) of
                    Inl e \<Rightarrow> (Inl e, g)
                  | Inr body \<Rightarrow>
                      (case route_verify E g route of
                         None \<Rightarrow> (Inr (err 401 ''unconfigured route''), g)
                       | Some verifier \<Rightarrow>
                           (case verifier rq body secret of
                              Inl e \<Rightarrow> (Inl e, g)
                            | Inr (ok, request_id) \<Rightarrow>
                                if \<not> ok then (Inr (err 401 ''invalid signature''), g)
                                else apfst Inr (handle_verified E rq route secret request_id body g))))))"

section \<open>Console endpoints\<close>

text \<open>An error reply carries its message; the exception text some add as a detail is left out.\<close>

definition bearer :: string where
  "bearer = ''Bearer ''"

text \<open>The check the console's endpoints share: the secret is set, and the bearer is it.\<close>

definition console_auth :: "gate_env \<Rightarrow> string \<Rightarrow> string \<Rightarrow> string \<Rightarrow> request \<Rightarrow> py_exn + response option" where
  "console_auth E unset missing wrong rq =
     (case ge_getenv E ''WEBHOOK_SECRET_MCP'' of
        None \<Rightarrow> Inr (Some (err 503 unset))
      | Some secret \<Rightarrow>
          if secret = [] then Inr (Some (err 503 unset))
          else
            let auth = header_or ''Authorization'' [] rq in
            if \<not> starts_with auth bearer then Inr (Some (err 401 missing))
            else map_sum id (\<lambda>same. if same then None else Some (err 401 wrong))
                   (compare_digest (drop (length bearer) auth) secret))"

text \<open>The length check and the read; the second of a pair is the body.\<close>

definition console_body :: "request \<Rightarrow> py_exn + response + string" where
  "console_body rq =
     (case content_length rq of
        Inl e \<Rightarrow> Inl e
      | Inr n \<Rightarrow>
          if n > MAX_BODY_BYTES then Inr (Inl (err 413 ''payload too large''))
          else map_sum id Inr (read_stream n (rq_stream rq)))"

text \<open>The common shape of the clear, set and entitlement handlers around their cores.\<close>

definition console_call ::
  "gate_env \<Rightarrow> string \<Rightarrow> (pydict \<Rightarrow> gate \<Rightarrow> response \<times> gate) \<Rightarrow> request \<Rightarrow> gate \<Rightarrow>
   (py_exn + response) \<times> gate" where
  "console_call E unset core rq g =
     (case console_auth E unset ''unauthorized'' ''unauthorized'' rq of
        Inl e \<Rightarrow> (Inl e, g)
      | Inr (Some r) \<Rightarrow> (Inr r, g)
      | Inr None \<Rightarrow>
          (case console_body rq of
             Inl e \<Rightarrow> (Inl e, g)
           | Inr (Inl r) \<Rightarrow> (Inr r, g)
           | Inr (Inr raw) \<Rightarrow>
               (case (if raw = [] then Json (PDict []) else ge_loads_text E raw) of
                  Json v \<Rightarrow> apfst Inr (core (case v of PDict d \<Rightarrow> d | _ \<Rightarrow> []) g)
                | _ \<Rightarrow> (Inr (err 400 ''invalid json''), g))))"

definition cleared_row :: "row_ref \<Rightarrow> pyval" where
  "cleared_row r =
     (case r of (c, p, l) \<Rightarrow> PDict [(''customer'', PStr c), (''persona'', PStr p), (''prior_level'', PStr l)])"

definition level_or_ok :: "gate_env \<Rightarrow> gate \<Rightarrow> string" where
  "level_or_ok E g = str_or (level_now E g) ''OK''"

definition CLEAR_COST_NOTE :: string where
  "CLEAR_COST_NOTE =
     ''Clearing does not reset today's recorded spend. If the stop was the daily cost cap, the next charged turn or job segment will stop the Operator again until the spend day resets at 00:00 UTC.''"

definition sticky_stop_clear :: "gate_env \<Rightarrow> pydict \<Rightarrow> gate \<Rightarrow> response \<times> gate" where
  "sticky_stop_clear E req g =
     (let captain = field_stripped E req ''captain_id''; why = field_stripped E req ''reason'' in
      if captain = [] \<or> why = [] then (err 400 ''captain_id and reason are required'', g)
      else if ge_breaker_file E \<and> \<not> ge_state_ok E then (err 500 ''clear failed'', g)
      else case clear_hard_stops (ge_breaker_file E) False (ge_now E) captain why (g_breaker g) of
        (res, w) \<Rightarrow>
          let g1 = g\<lparr>g_breaker := w\<rparr> in
          (case res of
             Inl e \<Rightarrow> (err 500 ''clear failed'', g1)
           | Inr rows \<Rightarrow>
               (Reply 200 (PDict [(''cleared'', PList (map cleared_row rows)),
                  (''level'', PStr (level_or_ok E g1)), (''cost_note'', PStr CLEAR_COST_NOTE)]), g1)))"

definition sticky_stop_set :: "gate_env \<Rightarrow> pydict \<Rightarrow> gate \<Rightarrow> response \<times> gate" where
  "sticky_stop_set E req g =
     (let actor = field_stripped E req ''actor_id''; why = field_stripped E req ''reason'' in
      if actor = [] \<or> why = [] then (err 400 ''actor_id and reason are required'', g)
      else if \<not> ge_state_ok E then (err 500 ''set failed'', g)
      else case pin_hard_stops (ge_slug E) (ge_now E) actor why (g_breaker g) of
        (res, w) \<Rightarrow>
          let g1 = g\<lparr>g_breaker := w\<rparr> in
          (case res of
             Inl e \<Rightarrow> (err 500 ''set failed'', g1)
           | Inr rows \<Rightarrow>
               (Reply 200 (PDict [(''pinned'', PList (map cleared_row rows)),
                  (''level'', PStr (level_or_ok E g1))]), g1)))"

text \<open>The configuration errors are subclasses of \<open>ValueError\<close>.\<close>

definition override_status :: "override_error \<Rightarrow> response" where
  "override_status e =
     (case e of
        Bound_Key_Error b \<Rightarrow> err 500 ''set failed''
      | Bounds_Unreadable (ValueError m) \<Rightarrow> err 409 ''rejected''
      | Bounds_Unreadable (ConfigError m) \<Rightarrow> err 409 ''rejected''
      | Bounds_Unreadable _ \<Rightarrow> err 500 ''set failed''
      | _ \<Rightarrow> err 409 ''rejected'')"

definition entitlement_set :: "gate_env \<Rightarrow> pydict \<Rightarrow> gate \<Rightarrow> response \<times> gate" where
  "entitlement_set E req g =
     (let persona = field_stripped E req ''persona''; actor = field_stripped E req ''actor_id'';
          why = field_stripped E req ''reason'' in
      if persona = [] \<or> actor = [] \<or> why = []
      then (err 400 ''persona, actor_id and reason are required'', g)
      else case dget req ''changes'' of
        PList cs \<Rightarrow>
          (if cs = [] then (err 400 ''changes must be a non-empty list'', g)
           else case set_overrides (ge_config E) (ge_slug E) (iso_text (ge_now E)) persona (PList cs)
                       actor why (g_overrides g) of
             (Inl e, tab) \<Rightarrow> (override_status e, g\<lparr>g_overrides := tab\<rparr>)
           | (Inr ok, tab) \<Rightarrow>
               if \<not> ge_state_ok E then (err 500 ''set failed'', g)
               else (Reply 200 (PDict [(''applied'', PList (map (\<lambda>(a, v).
                  PDict [(''action_class'', PStr a), (''ceiling'', PStr v)]) ok)),
                  (''persona'', PStr persona), (''updated_at'', PStr (iso_text (ge_now E)))]),
                g\<lparr>g_overrides := tab\<rparr>))
      | _ \<Rightarrow> (err 400 ''changes must be a non-empty list'', g))"

section \<open>Turns\<close>

definition MCP_ROUTE :: string where
  "MCP_ROUTE = ''mcp''"

definition HANDOFF_ROUTE :: string where
  "HANDOFF_ROUTE = ''handoff''"

definition ASK_TOOL_NAME :: string where
  "ASK_TOOL_NAME = ''ask_operator''"

text \<open>The answers the agent's process stores between two polls.\<close>

definition agent_puts :: "gate_env \<Rightarrow> (string \<times> pydict) list \<Rightarrow> store_dir \<Rightarrow> store_dir" where
  "agent_puts E puts d = fold (\<lambda>(i, p) d. snd (put_result (ge_io E) (ge_now E) i p d)) puts d"

text \<open>The poll loop: one round for each poll that falls before the deadline.\<close>

fun poll_answer ::
  "gate_env \<Rightarrow> string \<Rightarrow> (string \<times> pydict) list list \<Rightarrow> store_dir \<Rightarrow> pydict option \<times> store_dir" where
  "poll_answer E cid [] d = (None, d)"
| "poll_answer E cid (puts # rounds) d =
     (case take_result (ge_io E) cid (agent_puts E puts d) of
        (Some r, d1) \<Rightarrow> (Some r, d1)
      | (None, d1) \<Rightarrow> poll_answer E cid rounds d1)"

definition answer_text :: "gate_env \<Rightarrow> pydict \<Rightarrow> string" where
  "answer_text E r = (case dget r ''answer'' of PStr s \<Rightarrow> s | v \<Rightarrow> ge_dumps E v)"

definition turn_body :: "gate_env \<Rightarrow> string \<Rightarrow> string \<Rightarrow> string" where
  "turn_body E message hist =
     ge_dumps E (PDict
       [(''source'', PStr MCP_ROUTE), (''event_type'', PStr ASK_TOOL_NAME),
        (''message'', PStr message), (''history'', PStr hist), (''correlation_id'', PStr (ge_uuid E))])"

definition drive_agent_turn ::
  "gate_env \<Rightarrow> string \<Rightarrow> string \<Rightarrow> string option \<Rightarrow> gate \<Rightarrow> pydict option \<times> gate" where
  "drive_agent_turn E message who thread_id g =
     (case route_secret E MCP_ROUTE of
        None \<Rightarrow> (None, g)
      | Some secret \<Rightarrow>
          let tkey = (case thread_id of
                        None \<Rightarrow> None | Some t \<Rightarrow> if t = [] then None else thread_key (ge_sha E) who t);
              hist = (case tkey of None \<Rightarrow> [] | Some k \<Rightarrow>
                        render (py_text E) (ge_ellipsis E) 6000 (history (ge_io E) k (g_dir g)));
              body = turn_body E message hist;
              fw = \<lparr>fw_route = MCP_ROUTE, fw_body = body,
                    fw_headers = forward_headers E body secret (ge_uuid E) ''application/json''\<rparr>;
              g1 = g\<lparr>g_sent := g_sent g @ [fw]\<rparr>
          in case ge_adapter E fw of
               None \<Rightarrow> (None, g1)
             | Some (status, _) \<Rightarrow>
                 if status \<noteq> 200 \<and> status \<noteq> 202 then (None, g1)
                 else (case poll_answer E (ge_uuid E) (ge_agent E) (g_dir g1) of
                    (None, d) \<Rightarrow> (None, g1\<lparr>g_dir := d\<rparr>)
                  | (Some r, d) \<Rightarrow>
                      (Some r, g1\<lparr>g_dir := (case tkey of
                           None \<Rightarrow> d
                         | Some k \<Rightarrow> snd (append_exchange (ge_io E) (ge_now E) k message (answer_text E r) d))\<rparr>)))"

text \<open>The thread id of a request: absent, a string, or malformed.\<close>

definition thread_arg :: "pyval \<Rightarrow> string option option" where
  "thread_arg v = (case v of PNone \<Rightarrow> Some None | PStr s \<Rightarrow> Some (Some s) | _ \<Rightarrow> None)"

definition spoken :: "pyval \<Rightarrow> string option" where
  "spoken v = (case v of PStr s \<Rightarrow> if strip s = [] then None else Some s | _ \<Rightarrow> None)"

definition mcp_turn :: "gate_env \<Rightarrow> pyval \<Rightarrow> gate \<Rightarrow> response \<times> gate" where
  "mcp_turn E req g =
     (case req of
        PDict r \<Rightarrow>
          (case spoken (dget r ''message'') of
             None \<Rightarrow> (err 400 ''message (non-empty string) required'', g)
           | Some message \<Rightarrow>
               (case dget r ''principal_subject'' of
                  PStr who \<Rightarrow>
                    (if who = [] then (err 400 ''principal_subject required'', g)
                     else case thread_arg (dget r ''thread_id'') of
                       None \<Rightarrow> (err 400 ''thread_id must be a string'', g)
                     | Some tid \<Rightarrow>
                         (case drive_agent_turn E message who tid g of
                            (None, g1) \<Rightarrow> (err 504 ''turn_timeout'', g1)
                          | (Some res, g1) \<Rightarrow>
                              (Reply 200 (PDict [(''reply'', PStr (answer_text E res)),
                                 (''thread_id'', opt_str tid)]), g1)))
                | _ \<Rightarrow> (err 400 ''principal_subject required'', g)))
      | _ \<Rightarrow> (err 400 ''invalid body'', g))"

definition breaker_hard_stopped :: "gate_env \<Rightarrow> gate \<Rightarrow> bool" where
  "breaker_hard_stopped E g \<longleftrightarrow> level_now E g = Some (level_value HARD_STOP)"

definition paused :: response where
  "paused = Reply 503 (PDict [(''error'', PStr ''operator paused''),
     (''detail'', PStr ''cost breaker hard stop (sticky_stop)'')])"

definition handle_mcp_turn :: "gate_env \<Rightarrow> request \<Rightarrow> gate \<Rightarrow> (py_exn + response) \<times> gate" where
  "handle_mcp_turn E rq g =
     (case console_auth E ''mcp turn route not configured'' ''unauthorized'' ''unauthorized'' rq of
        Inl e \<Rightarrow> (Inl e, g)
      | Inr (Some r) \<Rightarrow> (Inr r, g)
      | Inr None \<Rightarrow>
          if breaker_hard_stopped E g then (Inr paused, g)
          else (case console_body rq of
             Inl e \<Rightarrow> (Inl e, g)
           | Inr (Inl r) \<Rightarrow> (Inr r, g)
           | Inr (Inr raw) \<Rightarrow>
               (case ge_loads E raw of
                  Json v \<Rightarrow> apfst Inr (mcp_turn E v g)
                | _ \<Rightarrow> (Inr (err 400 ''invalid JSON''), g))))"

definition handoff_id :: "pyval \<Rightarrow> string option" where
  "handoff_id v =
     (case v of
        PDict e \<Rightarrow>
          (case (dget e ''handoff_id'', dget e ''task'') of
             (PStr i, PStr task) \<Rightarrow> if i = [] \<or> task = [] then None else Some i
           | _ \<Rightarrow> None)
      | _ \<Rightarrow> None)"

text \<open>Only \<open>JSONDecodeError\<close> is caught here: bytes that are no text raise.\<close>

definition handle_handoff :: "gate_env \<Rightarrow> request \<Rightarrow> gate \<Rightarrow> (py_exn + response) \<times> gate" where
  "handle_handoff E rq g =
     (case console_auth E ''handoff route not configured'' ''bearer token required'' ''invalid bearer'' rq of
        Inl e \<Rightarrow> (Inl e, g)
      | Inr (Some r) \<Rightarrow> (Inr r, g)
      | Inr None \<Rightarrow>
          if breaker_hard_stopped E g then (Inr paused, g)
          else (case console_body rq of
             Inl e \<Rightarrow> (Inl e, g)
           | Inr (Inl r) \<Rightarrow> (Inr r, g)
           | Inr (Inr raw) \<Rightarrow>
               (case ge_loads E raw of
                  Not_Text \<Rightarrow> (Inl (ValueError ''UnicodeDecodeError''), g)
                | Not_Json \<Rightarrow> (Inr (err 400 ''invalid JSON''), g)
                | Json v \<Rightarrow>
                    (case handoff_id v of
                       None \<Rightarrow> (Inr (err 400 ''invalid envelope: handoff_id and task are required''), g)
                     | Some i \<Rightarrow>
                         let body = stamp_source E raw HANDOFF_ROUTE [];
                             secret = str_or (ge_getenv E ''WEBHOOK_SECRET_MCP'') [];
                             fw = \<lparr>fw_route = HANDOFF_ROUTE, fw_body = body,
                                   fw_headers = forward_headers E body secret (take 64 i) ''application/json''\<rparr>;
                             g1 = g\<lparr>g_sent := g_sent g @ [fw]\<rparr>
                         in (case ge_adapter E fw of
                               None \<Rightarrow> (Inr (Reply 503 (PDict [(''error'', PStr ''gateway unavailable''),
                                            (''retry'', PBool True)])), g1)
                             | Some (status, _) \<Rightarrow>
                                 if is_2xx status
                                 then (Inr (Reply 202 (PDict [(''accepted'', PBool True),
                                             (''handoff_id'', PStr i)])), g1)
                                 else (Inr (Reply 503 (PDict [(''error'', PStr ''gateway error''),
                                             (''retry'', PBool True)])), g1))))))"

section \<open>The approve page\<close>

definition MAX_TOKEN :: nat where
  "MAX_TOKEN = 400"

text \<open>\<open>ge_query_token\<close> is the first value \<open>parse_qs\<close> reads for \<open>t\<close>.\<close>

definition token_from_query :: "gate_env \<Rightarrow> string \<Rightarrow> string" where
  "token_from_query E q =
     (case ge_query_token E q of
        None \<Rightarrow> []
      | Some v \<Rightarrow> (let tok = strip v in if 0 < length tok \<and> length tok \<le> MAX_TOKEN then tok else []))"

definition incomplete_page :: response where
  "incomplete_page = Page 400 ''That link is incomplete'' ''Open the approval email again.''"

definition not_confirmed_tail :: string where
  "not_confirmed_tail =
     ''The send did not complete, and it is not confirmed whether the email went out. SMD has been told and will check. Look in your Sent folder before pressing again or replying to the approval email.''"

definition ascii_upper :: "string \<Rightarrow> string" where
  "ascii_upper s =
     map (\<lambda>c. let n = (of_char c :: nat) in if 97 \<le> n \<and> n \<le> 122 then char_of (n - 32) else c) s"

definition rstrip_dot :: "string \<Rightarrow> string" where
  "rstrip_dot s = rev (dropWhile (\<lambda>c. c = CHR ''.'') (rev s))"

definition verdict_page :: "string \<Rightarrow> string \<Rightarrow> response" where
  "verdict_page status why =
     (if status = ''DISPATCHED'' then Page 200 ''Sent'' ''The email has gone out from your address.''
      else if status = ''CANCELLED'' then Page 200 ''Cancelled'' ''Nothing was sent, and the draft is closed.''
      else if status = ''EXPIRED'' then Page 200 ''Too late'' ''That draft expired, so nothing was sent.''
      else if status = ''SUPERSEDED''
      then Page 200 ''Replaced'' ''A newer draft replaced this one. Answer that one instead.''
      else if status = ''FAILED''
      then Page 200 ''Not confirmed'' ((if why = [] then [] else rstrip_dot why @ ''. '') @ not_confirmed_tail)
      else Page 400 ''Nothing was done'' (if why = [] then ''That link is not valid for this draft.'' else why))"

definition apply_click :: "gate_env \<Rightarrow> string \<Rightarrow> py_exn + response" where
  "apply_click E token =
     (if token = [] then Inr incomplete_page
      else case ge_decide E token of
        Inl e \<Rightarrow> Inr (Page 503 ''We could not confirm what happened''
                   ''Your answer reached this seat, but no result came back, so we cannot say whether the email went out. SMD has been told and will check. Look in your Sent folder before pressing again or replying to the approval email.'')
      | Inr v \<Rightarrow>
          (case (if truthy v then v else PDict []) of
             PDict vd \<Rightarrow>
               Inr (verdict_page (ascii_upper (field_stripped E vd ''status''))
                      (field_stripped E vd ''reason''))
           | _ \<Rightarrow> Inl (OtherError ''AttributeError'')))"

definition handle_approve_click :: "gate_env \<Rightarrow> request \<Rightarrow> gate \<Rightarrow> (py_exn + response) \<times> gate" where
  "handle_approve_click E rq g =
     (let n = (case content_length rq of Inl e \<Rightarrow> 0 | Inr n \<Rightarrow> n);
          raw = (if 0 < n \<and> n \<le> 4096 then take (nat n) (rq_stream rq) else [])
      in (apply_click E (token_from_query E raw), g))"

section \<open>The dispatch of a POST\<close>

definition rstrip_slashes :: "string \<Rightarrow> string" where
  "rstrip_slashes s = rev (dropWhile (\<lambda>c. c = CHR ''/'') (rev s))"

definition do_POST :: "gate_env \<Rightarrow> request \<Rightarrow> gate \<Rightarrow> (py_exn + response) \<times> gate" where
  "do_POST E rq g =
     (let p = rstrip_slashes (rq_path rq) in
      if p = ''/approve'' then handle_approve_click E rq g
      else if p = ''/mcp/turn'' then handle_mcp_turn E rq g
      else if p = ''/sticky-stop/clear''
      then console_call E ''clear route not configured'' (sticky_stop_clear E) rq g
      else if p = ''/sticky-stop/set''
      then console_call E ''set route not configured'' (sticky_stop_set E) rq g
      else if p = ''/entitlement/set''
      then console_call E ''set route not configured'' (entitlement_set E) rq g
      else if p = ''/mcp''
      then (Inr (Reply 410 (PDict [(''error'', PStr ''gone''),
              (''detail'', PStr ''connect via the console MCP endpoint'')])), g)
      else if p = webhooks_prefix @ HANDOFF_ROUTE then handle_handoff E rq g
      else handle_delivery E rq g)"

section \<open>What a delivery may change\<close>

lemma sent_mark [simp]: "g_sent (mark_handled E route rid g) = g_sent g"
  by (simp add: mark_handled_def)

lemma breaker_mark [simp]: "g_breaker (mark_handled E route rid g) = g_breaker g"
  by (simp add: mark_handled_def)

lemma suppress_frame [simp]:
  "g_sent (snd (suppress E route rid why g)) = g_sent g"
  "g_breaker (snd (suppress E route rid why g)) = g_breaker g"
  by (simp_all add: suppress_def audit_suppression_def)

lemma guard_frame [simp]:
  "g_sent (snd (guard_check E route rid g)) = g_sent g"
  "g_breaker (snd (guard_check E route rid g)) = g_breaker g"
  "g_replay (snd (guard_check E route rid g)) = g_replay g"
  "g_windows (snd (guard_check E route rid g)) = g_windows g"
  by (simp_all add: guard_check_def case_prod_unfold)

lemma guard_hard_stop:
  assumes "breaker_hard_stopped E g" "ge_guard E"
  shows "\<exists>why. fst (guard_check E route rid g) = (False, why)"
  using assms
  by (auto simp: guard_check_def wake_check_def wake_env_of_def breaker_hard_stopped_def case_prod_unfold)

definition delivery_forward ::
  "gate_env \<Rightarrow> request \<Rightarrow> string \<Rightarrow> string \<Rightarrow> string \<Rightarrow> string \<Rightarrow> forward" where
  "delivery_forward E rq route secret request_id body =
     (let b = stamp_source E body route request_id
      in \<lparr>fw_route = route, fw_body = b,
          fw_headers = forward_headers E b secret request_id
            (header_or ''Content-Type'' ''application/json'' rq)\<rparr>)"

lemma forward_delivery_frame [simp]:
  "g_sent (snd (forward_delivery E rq route secret rid body g)) =
     g_sent g @ [delivery_forward E rq route secret rid body]"
  "g_breaker (snd (forward_delivery E rq route secret rid body g)) = g_breaker g"
  by (auto simp: forward_delivery_def delivery_forward_def Let_def split: option.splits)

text \<open>When a verified delivery forwards, no limit held it.\<close>

definition unlimited :: "gate_env \<Rightarrow> gate \<Rightarrow> string \<Rightarrow> string \<Rightarrow> string \<Rightarrow> bool" where
  "unlimited E g route rid body \<longleftrightarrow>
     fst (fst (guard_check E route rid g)) \<and>
     check_excluded route (json_body E body) (live_exclusions (ge_config E)) = None \<and>
     \<not> route_untriggered (ge_config E) route \<and>
     fst (throttle_check (ge_now E) route (json_body E body) (live_throttles (ge_config E)) (g_windows g)) = None"

lemma handle_verified_sent:
  "g_sent (snd (handle_verified E rq route secret rid body g)) =
     g_sent g @ (if unlimited E g route rid body then [delivery_forward E rq route secret rid body] else [])"
  unfolding handle_verified_def unlimited_def
  using guard_frame [of E route rid g]
  by (cases "guard_check E route rid g")
    (auto simp: case_prod_unfold Let_def split: option.splits bool.splits)

lemma handle_verified_breaker [simp]:
  "g_breaker (snd (handle_verified E rq route secret rid body g)) = g_breaker g"
  unfolding handle_verified_def
  using guard_frame [of E route rid g]
  by (cases "guard_check E route rid g")
    (auto simp: case_prod_unfold Let_def split: option.splits bool.splits)

text \<open>The signatures, as equations.\<close>

definition fresh :: "gate_env \<Rightarrow> int \<Rightarrow> bool" where
  "fresh E t \<longleftrightarrow> \<bar>ge_now E - t * 1000000\<bar> \<le> TIMESTAMP_TOLERANCE"

definition svix_signed :: "gate_env \<Rightarrow> request \<Rightarrow> string \<Rightarrow> string \<Rightarrow> bool" where
  "svix_signed E rq body secret \<longleftrightarrow>
     (\<exists>i ts t key part sig.
        header ''svix-id'' rq = Some i \<and> header ''svix-timestamp'' rq = Some ts \<and>
        header ''svix-signature'' rq = Some sig \<and> parse_int ts = Some t \<and> fresh E t \<and>
        b64_decode (ge_crypto E) (if starts_with secret whsec then drop (length whsec) secret else secret) = Some key \<and>
        part \<in> set (words sig) \<and>
        cut_first '','' part =
          Some (''v1'', b64_mac (ge_crypto E) key (utf8 i @ ''.'' @ utf8 ts @ ''.'' @ body)))"

definition smokeball_signed :: "gate_env \<Rightarrow> request \<Rightarrow> string \<Rightarrow> string \<Rightarrow> bool" where
  "smokeball_signed E rq secret rid \<longleftrightarrow>
     (\<exists>ts t client sig.
        header ''RequestId'' rq = Some rid \<and> rid \<noteq> [] \<and> header ''Timestamp'' rq = Some ts \<and>
        header ''Signature'' rq = Some sig \<and> ge_getenv E ''WEBHOOK_SMOKEBALL_CLIENT_ID'' = Some client \<and>
        parse_int (strip ts) = Some t \<and> fresh E (ticks_seconds t) \<and>
        lower (strip sig) =
          hex_mac (ge_crypto E) (utf8 secret) (utf8 (strip ts @ ''|'' @ rid @ ''|'' @ client)))"

lemma map_sum_Inr: "map_sum id f s = Inr y \<longleftrightarrow> (\<exists>x. s = Inr x \<and> y = f x)"
  by (cases s) auto

lemma any_part_matches_part:
  "any_part_matches expected ps = Inr True \<Longrightarrow>
     \<exists>p \<in> set ps. cut_first '','' p = Some (''v1'', expected)"
proof (induction ps)
  case (Cons p ps)
  obtain v s where c: "(case cut_first '','' p of None \<Rightarrow> (p, []) | Some vs \<Rightarrow> vs) = (v, s)" by fastforce
  show ?case
  proof (cases "v = ''v1'' \<and> s \<noteq> []")
    case True
    then have cp: "cut_first '','' p = Some (v, s)" using c by (auto split: option.splits)
    then show ?thesis
      using Cons True by (auto simp: compare_digest_def split: sum.splits bool.splits if_splits)
  next
    case False
    then show ?thesis using Cons c by auto
  qed
qed simp

lemma header_or_nonempty: "header_or name [] rq \<noteq> [] \<Longrightarrow> header name rq = Some (header_or name [] rq)"
  by (auto simp: header_or_def split: option.splits)

lemma agentmail_signed:
  assumes "agentmail_route_verify E rq body secret = Inr (True, rid)"
  shows "svix_signed E rq body secret"
proof -
  let ?i = "header_or ''svix-id'' [] rq" and ?ts = "header_or ''svix-timestamp'' [] rq"
    and ?sig = "header_or ''svix-signature'' [] rq"
  have v: "verify_svix_signature (ge_crypto E) body ?i ?ts ?sig secret (ge_now E) = Inr True"
    using assms by (auto simp: agentmail_route_verify_def Let_def map_sum_Inr)
  then have ne: "?i \<noteq> []" "?ts \<noteq> []" "?sig \<noteq> []"
    by (auto simp: verify_svix_signature_def split: if_splits)
  obtain t key where t: "parse_int ?ts = Some t" "fresh E t"
      "b64_decode (ge_crypto E) (if starts_with secret whsec then drop (length whsec) secret else secret) = Some key"
      "any_part_matches (b64_mac (ge_crypto E) key (utf8 ?i @ ''.'' @ utf8 ?ts @ ''.'' @ body)) (words ?sig) = Inr True"
    using v by (auto simp: verify_svix_signature_def fresh_def not_less split: if_splits option.splits)
  from any_part_matches_part [OF t(4)] t(1-3) show ?thesis
    unfolding svix_signed_def using ne [THEN header_or_nonempty] by blast
qed

lemma smokeball_verified:
  assumes "smokeball_route_verify E seen rq secret = Inr (True, rid)"
  shows "smokeball_signed E rq secret rid \<and> \<not> replay_seen_recently (ge_now E) rid seen"
proof -
  let ?r = "header_or ''RequestId'' [] rq" and ?ts = "header_or ''Timestamp'' [] rq"
    and ?sig = "header_or ''Signature'' [] rq" and ?c = "str_or (ge_getenv E ''WEBHOOK_SMOKEBALL_CLIENT_ID'') []"
  have v: "verify_smokeball_signature (ge_crypto E) ?ts ?r ?c ?sig secret (ge_now E) = Inr True"
    and rid: "rid = ?r" "\<not> replay_seen_recently (ge_now E) ?r seen"
    using assms by (auto simp: smokeball_route_verify_def Let_def map_sum_Inr)
  then have ne: "?r \<noteq> []" "?ts \<noteq> []" "?sig \<noteq> []" "?c \<noteq> []"
    by (auto simp: verify_smokeball_signature_def split: if_splits)
  then have c: "ge_getenv E ''WEBHOOK_SMOKEBALL_CLIENT_ID'' = Some ?c"
    by (auto simp: str_or_def split: option.splits if_splits)
  obtain t where "parse_int (strip ?ts) = Some t" "fresh E (ticks_seconds t)"
      "lower (strip ?sig) = hex_mac (ge_crypto E) (utf8 secret) (utf8 (strip ?ts @ ''|'' @ ?r @ ''|'' @ ?c))"
    using v by (auto simp: verify_smokeball_signature_def fresh_def not_less compare_digest_def Let_def
        split: if_splits option.splits)
  then show ?thesis
    unfolding smokeball_signed_def rid(1) using ne(1-3) [THEN header_or_nonempty] ne(1) c rid(2) by blast
qed

text \<open>The body a request's length admits.\<close>

definition admitted_body :: "request \<Rightarrow> string \<Rightarrow> bool" where
  "admitted_body rq body \<longleftrightarrow>
     (\<exists>n. content_length rq = Inr n \<and> n \<le> MAX_BODY_BYTES \<and> read_stream n (rq_stream rq) = Inr body)"

lemma handle_delivery_sent:
  assumes "g_sent (snd (handle_delivery E rq g)) \<noteq> g_sent g"
  shows "\<exists>secret rid body v. route_secret E (route_of (rq_target rq)) = Some secret \<and>
    admitted_body rq body \<and> route_verify E g (route_of (rq_target rq)) = Some v \<and>
    v rq body secret = Inr (True, rid) \<and> unlimited E g (route_of (rq_target rq)) rid body \<and>
    handle_delivery E rq g =
      apfst Inr (handle_verified E rq (route_of (rq_target rq)) secret rid body g)"
proof -
  let ?route = "route_of (rq_target rq)"
  have r: "starts_with (rq_target rq) webhooks_prefix" "route_ok ?route"
    using assms by (auto simp: handle_delivery_def Let_def split: if_splits)
  obtain secret where s: "route_secret E ?route = Some secret"
    using assms r by (auto simp: handle_delivery_def Let_def split: option.splits)
  obtain n where n: "content_length rq = Inr n" "n \<le> MAX_BODY_BYTES"
    using assms r s by (auto simp: handle_delivery_def Let_def not_less split: sum.splits if_splits)
  obtain body where b: "read_stream n (rq_stream rq) = Inr body"
    using assms r s n by (auto simp: handle_delivery_def Let_def split: sum.splits)
  obtain v where v: "route_verify E g ?route = Some v"
    using assms r s n b by (auto simp: handle_delivery_def Let_def split: option.splits)
  obtain ok rid where o: "v rq body secret = Inr (ok, rid)"
    using assms r s n b v by (auto simp: handle_delivery_def Let_def split: sum.splits)
  have ok: "ok" using assms r s n b v o by (auto simp: handle_delivery_def Let_def split: if_splits)
  have eq: "handle_delivery E rq g = apfst Inr (handle_verified E rq ?route secret rid body g)"
    using r s n b v o ok by (simp add: handle_delivery_def Let_def)
  then have "unlimited E g ?route rid body" using assms handle_verified_sent by (auto split: if_splits)
  moreover have "admitted_body rq body" using n b by (auto simp: admitted_body_def)
  ultimately show ?thesis
    using s v o ok eq by (intro exI [of _ secret] exI [of _ rid] exI [of _ body] exI [of _ v]) simp
qed

lemma handle_delivery_breaker [simp]: "g_breaker (snd (handle_delivery E rq g)) = g_breaker g"
  by (auto simp: handle_delivery_def Let_def split: option.splits sum.splits prod.splits)

definition console_bearer :: "gate_env \<Rightarrow> request \<Rightarrow> bool" where
  "console_bearer E rq \<longleftrightarrow>
     (\<exists>secret. ge_getenv E ''WEBHOOK_SECRET_MCP'' = Some secret \<and> secret \<noteq> [] \<and>
        header ''Authorization'' rq = Some (bearer @ secret))"

lemma console_auth_bearer:
  assumes "console_auth E unset missing wrong rq = Inr None"
  shows "console_bearer E rq"
proof -
  obtain secret where s: "ge_getenv E ''WEBHOOK_SECRET_MCP'' = Some secret" "secret \<noteq> []"
    using assms by (auto simp: console_auth_def split: option.splits if_splits)
  let ?auth = "header_or ''Authorization'' [] rq"
  have a: "starts_with ?auth bearer" "drop (length bearer) ?auth = secret"
    using assms s by (auto simp: console_auth_def Let_def compare_digest_def split: if_splits)
  then have "?auth = bearer @ secret" by (metis append_take_drop_id starts_with_def)
  moreover have "?auth \<noteq> []" using calculation by (simp add: bearer_def)
  ultimately show ?thesis
    using header_or_nonempty [of "''Authorization''" rq] s by (auto simp: console_bearer_def)
qed

lemma core_frame:
  "g_sent (snd (sticky_stop_clear E r g)) = g_sent g"
  "g_sent (snd (sticky_stop_set E r g)) = g_sent g"
  "g_sent (snd (entitlement_set E r g)) = g_sent g"
  "g_breaker (snd (entitlement_set E r g)) = g_breaker g"
  by (auto simp: sticky_stop_clear_def sticky_stop_set_def entitlement_set_def Let_def
      split: prod.splits sum.splits pyval.splits)

lemma console_call_cases:
  obtains (refused) "snd (console_call E unset core rq g) = g"
  | (served) req where "console_bearer E rq" "console_call E unset core rq g = apfst Inr (core req g)"
proof (cases "console_auth E unset ''unauthorized'' ''unauthorized'' rq")
  case (Inr a)
  show ?thesis
  proof (cases a)
    case None
    with Inr have c: "console_bearer E rq" by (auto intro: console_auth_bearer)
    show ?thesis
    proof (cases "\<exists>raw v. console_body rq = Inr (Inr raw) \<and>
        (if raw = [] then Json (PDict []) else ge_loads_text E raw) = Json v")
      case True
      then obtain raw v where "console_body rq = Inr (Inr raw)"
          "(if raw = [] then Json (PDict []) else ge_loads_text E raw) = Json v" by blast
      then have "console_call E unset core rq g = apfst Inr (core (case v of PDict d \<Rightarrow> d | _ \<Rightarrow> []) g)"
        using None Inr by (simp add: console_call_def)
      then show ?thesis by (rule served [OF c])
    next
      case False
      then have "snd (console_call E unset core rq g) = g"
        using None Inr by (auto simp: console_call_def split: sum.splits reading.splits)
      then show ?thesis by (rule refused)
    qed
  qed (use Inr that in \<open>auto simp: console_call_def\<close>)
qed (use that in \<open>auto simp: console_call_def\<close>)

lemma turn_sent:
  "\<exists>new. g_sent (snd (drive_agent_turn E m p t g)) = g_sent g @ new \<and> length new \<le> 1 \<and>
     (\<forall>fw \<in> set new. fw_route fw = MCP_ROUTE)"
  by (auto simp: drive_agent_turn_def Let_def split: option.splits prod.splits)

lemma turn_breaker [simp]: "g_breaker (snd (drive_agent_turn E m p t g)) = g_breaker g"
  by (auto simp: drive_agent_turn_def Let_def split: option.splits prod.splits)

lemma mcp_turn_cases:
  "snd (mcp_turn E v g) = g \<or> (\<exists>m who tid. snd (mcp_turn E v g) = snd (drive_agent_turn E m who tid g))"
proof (cases "\<exists>r m who tid. v = PDict r \<and> spoken (dget r ''message'') = Some m \<and>
    dget r ''principal_subject'' = PStr who \<and> who \<noteq> [] \<and> thread_arg (dget r ''thread_id'') = Some tid")
  case True
  then obtain r m who tid where v: "v = PDict r" "spoken (dget r ''message'') = Some m"
      "dget r ''principal_subject'' = PStr who" "who \<noteq> []" "thread_arg (dget r ''thread_id'') = Some tid"
    by blast
  have "snd (mcp_turn E v g) = snd (drive_agent_turn E m who tid g)"
    using v by (cases "drive_agent_turn E m who tid g"; cases "fst (drive_agent_turn E m who tid g)")
      (simp_all add: mcp_turn_def)
  then show ?thesis by blast
next
  case False
  then have "snd (mcp_turn E v g) = g"
    by (auto simp: mcp_turn_def split: pyval.split option.split)
  then show ?thesis by blast
qed

lemma mcp_turn_sent:
  "\<exists>new. g_sent (snd (mcp_turn E v g)) = g_sent g @ new \<and> length new \<le> 1 \<and>
     (\<forall>fw \<in> set new. fw_route fw = MCP_ROUTE)"
  using mcp_turn_cases [of E v g] turn_sent [of E _ _ _ g] by (metis append_Nil2 empty_iff empty_set le0 list.size(3))

lemma mcp_turn_breaker [simp]: "g_breaker (snd (mcp_turn E v g)) = g_breaker g"
  using mcp_turn_cases [of E v g] turn_breaker by metis

text \<open>A turn or a handoff reaches the adapter only with the bearer and below the hard stop.\<close>

lemma handle_mcp_turn_sent:
  "\<exists>new. g_sent (snd (handle_mcp_turn E rq g)) = g_sent g @ new \<and> length new \<le> 1 \<and>
     (\<forall>fw \<in> set new. fw_route fw = MCP_ROUTE) \<and>
     (new \<noteq> [] \<longrightarrow> console_bearer E rq \<and> \<not> breaker_hard_stopped E g)"
proof (cases "console_auth E ''mcp turn route not configured'' ''unauthorized'' ''unauthorized'' rq = Inr None \<and>
    \<not> breaker_hard_stopped E g")
  case True
  then have b: "console_bearer E rq" by (auto intro: console_auth_bearer)
  have "snd (handle_mcp_turn E rq g) = g \<or> (\<exists>v. snd (handle_mcp_turn E rq g) = snd (mcp_turn E v g))"
    using True by (auto simp: handle_mcp_turn_def split: sum.splits reading.splits)
  then show ?thesis
  proof
    assume "\<exists>v. snd (handle_mcp_turn E rq g) = snd (mcp_turn E v g)"
    then obtain v where "snd (handle_mcp_turn E rq g) = snd (mcp_turn E v g)" by blast
    then show ?thesis using mcp_turn_sent [of E v g] b True by auto
  qed simp
next
  case False
  then have "snd (handle_mcp_turn E rq g) = g"
    by (auto simp: handle_mcp_turn_def split: sum.splits option.splits)
  then show ?thesis by simp
qed

lemma handle_mcp_turn_breaker [simp]: "g_breaker (snd (handle_mcp_turn E rq g)) = g_breaker g"
  by (auto simp: handle_mcp_turn_def split: sum.splits option.splits reading.splits)

lemma handle_handoff_sent:
  "\<exists>new. g_sent (snd (handle_handoff E rq g)) = g_sent g @ new \<and> length new \<le> 1 \<and>
     (\<forall>fw \<in> set new. fw_route fw = HANDOFF_ROUTE) \<and>
     (new \<noteq> [] \<longrightarrow> console_bearer E rq \<and> \<not> breaker_hard_stopped E g)"
proof (cases "console_auth E ''handoff route not configured'' ''bearer token required'' ''invalid bearer'' rq = Inr None \<and>
    \<not> breaker_hard_stopped E g")
  case True
  then have "console_bearer E rq" by (auto intro: console_auth_bearer)
  then show ?thesis
    using True by (auto simp: handle_handoff_def Let_def split: sum.splits reading.splits option.splits)
next
  case False
  then have "snd (handle_handoff E rq g) = g"
    by (auto simp: handle_handoff_def split: sum.splits option.splits)
  then show ?thesis by simp
qed

lemma handle_handoff_breaker [simp]: "g_breaker (snd (handle_handoff E rq g)) = g_breaker g"
  by (auto simp: handle_handoff_def Let_def split: sum.splits reading.splits option.splits)

text \<open>What stands behind a forward: a vendor's signature over the request and no limit, or the
  console's bearer with the breaker below the hard stop.\<close>

definition vendor_authority :: "gate_env \<Rightarrow> request \<Rightarrow> gate \<Rightarrow> forward \<Rightarrow> bool" where
  "vendor_authority E rq g fw \<longleftrightarrow>
     (\<exists>secret rid body.
        route_secret E (fw_route fw) = Some secret \<and> admitted_body rq body \<and>
        fw = delivery_forward E rq (fw_route fw) secret rid body \<and> unlimited E g (fw_route fw) rid body \<and>
        (fw_route fw = ''agentmail'' \<and> svix_signed E rq body secret \<or>
         fw_route fw = ''smokeball'' \<and> smokeball_signed E rq secret rid \<and>
           \<not> replay_seen_recently (ge_now E) rid (g_replay g)))"

definition console_authority :: "gate_env \<Rightarrow> request \<Rightarrow> gate \<Rightarrow> forward \<Rightarrow> bool" where
  "console_authority E rq g fw \<longleftrightarrow>
     fw_route fw \<in> {MCP_ROUTE, HANDOFF_ROUTE} \<and> console_bearer E rq \<and> \<not> breaker_hard_stopped E g"

lemma delivery_authority:
  assumes "g_sent (snd (handle_delivery E rq g)) \<noteq> g_sent g"
  shows "\<exists>fw. g_sent (snd (handle_delivery E rq g)) = g_sent g @ [fw] \<and> vendor_authority E rq g fw"
proof -
  let ?route = "route_of (rq_target rq)"
  obtain secret rid body v where h: "route_secret E ?route = Some secret" "admitted_body rq body"
      "route_verify E g ?route = Some v" "v rq body secret = Inr (True, rid)" "unlimited E g ?route rid body"
      "handle_delivery E rq g = apfst Inr (handle_verified E rq ?route secret rid body g)"
    using handle_delivery_sent [OF assms] by blast
  let ?fw = "delivery_forward E rq ?route secret rid body"
  have route: "fw_route ?fw = ?route" by (simp add: delivery_forward_def Let_def)
  have sent: "g_sent (snd (handle_delivery E rq g)) = g_sent g @ [?fw]"
    using h(5,6) handle_verified_sent by simp
  have "?route = ''agentmail'' \<and> svix_signed E rq body secret \<or>
      ?route = ''smokeball'' \<and> smokeball_signed E rq secret rid \<and>
        \<not> replay_seen_recently (ge_now E) rid (g_replay g)"
    using h(3,4) agentmail_signed smokeball_verified
    by (auto simp: route_verify_def split: if_splits)
  then have "vendor_authority E rq g ?fw"
    unfolding vendor_authority_def route using h(1,2,5) by blast
  then show ?thesis using sent by blast
qed

lemma do_POST_sent:
  "g_sent (snd (do_POST E rq g)) = g_sent g \<or>
     (\<exists>fw. g_sent (snd (do_POST E rq g)) = g_sent g @ [fw] \<and>
        (vendor_authority E rq g fw \<or> console_authority E rq g fw))"
proof -
  have one: "new = [] \<or> (\<exists>fw. new = [fw])" if "length new \<le> 1" for new :: "forward list"
    using that by (cases new) auto
  define Q where "Q = (\<lambda>r :: (py_exn + response) \<times> gate. g_sent (snd r) = g_sent g \<or>
     (\<exists>fw. g_sent (snd r) = g_sent g @ [fw] \<and> (vendor_authority E rq g fw \<or> console_authority E rq g fw)))"
  have "Q (handle_mcp_turn E rq g)"
    using handle_mcp_turn_sent [of E rq g] one by (fastforce simp: console_authority_def Q_def)
  moreover have "Q (handle_handoff E rq g)"
    using handle_handoff_sent [of E rq g] one by (fastforce simp: console_authority_def Q_def)
  moreover have "Q (console_call E unset core rq g)"
    if "\<And>r. g_sent (snd (core r g)) = g_sent g" for unset core
    by (cases rule: console_call_cases [of E unset core rq g]) (simp_all add: that Q_def)
  then have "Q (console_call E unset (sticky_stop_clear E) rq g)"
    "Q (console_call E unset (sticky_stop_set E) rq g)" "Q (console_call E unset (entitlement_set E) rq g)" for unset
    using core_frame by blast+
  moreover have "Q (handle_delivery E rq g)"
    unfolding Q_def using delivery_authority [of E rq g] by blast
  moreover have "Q (handle_approve_click E rq g)" "Q (x, g)" for x
    by (simp_all add: Q_def handle_approve_click_def Let_def)
  ultimately have "Q (do_POST E rq g)" by (simp add: do_POST_def Let_def)
  then show ?thesis by (simp add: Q_def)
qed

section \<open>Runs of the gate\<close>

fun serve :: "(gate_env \<times> request) list \<Rightarrow> gate \<Rightarrow> gate" where
  "serve [] g = g"
| "serve ((E, rq) # rest) g = serve rest (snd (do_POST E rq g))"

text \<open>The breaker as the gate reads it is the table it writes.\<close>

definition reads_own_breaker :: "gate_env \<Rightarrow> bool" where
  "reads_own_breaker E \<longleftrightarrow> ge_breaker_read E = read_world"

definition clears :: "request \<Rightarrow> bool" where
  "clears rq \<longleftrightarrow> rstrip_slashes (rq_path rq) = ''/sticky-stop/clear''"

definition stopped_table :: "Sticky_Stop.world \<Rightarrow> bool" where
  "stopped_table w \<longleftrightarrow> (\<exists>r \<in> set (table w). r_level r = level_value HARD_STOP)"

lemma stopped_level: "reads_own_breaker E \<Longrightarrow> breaker_hard_stopped E g \<longleftrightarrow> stopped_table (g_breaker g)"
  using observe_hard [of "map cause_row (table (g_breaker g))"]
  by (auto simp: breaker_hard_stopped_def level_now_def reads_own_breaker_def read_level_def read_world_def
      read_stop_state_def stopped_table_def cause_row_def)

lemma pin_stops_table: "pin_hard_stops slug now who why w = (res, w') \<Longrightarrow> w' = w \<or> stopped_table w'"
  by (auto simp: pin_hard_stops_def Let_def stopped_table_def pin_row_def machine_row_def split: if_splits)

lemma pin_returned_stops: "pin_hard_stops slug now who why w = (Inr rows, w') \<Longrightarrow> stopped_table w'"
  by (auto simp: pin_hard_stops_def Let_def stopped_table_def pin_row_def machine_row_def split: if_splits)

lemma sticky_stop_set_breaker:
  "g_breaker (snd (sticky_stop_set E r g)) = g_breaker g \<or> stopped_table (g_breaker (snd (sticky_stop_set E r g)))"
  by (auto simp: sticky_stop_set_def Let_def split: prod.splits sum.splits dest: pin_stops_table)

lemma do_POST_keeps_stop:
  assumes "\<not> clears rq" "stopped_table (g_breaker g)"
  shows "stopped_table (g_breaker (snd (do_POST E rq g)))"
proof -
  define Q where "Q = (\<lambda>r :: (py_exn + response) \<times> gate. stopped_table (g_breaker (snd r)))"
  have "Q (console_call E unset core rq g)"
    if "\<And>r. g_breaker (snd (core r g)) = g_breaker g \<or> stopped_table (g_breaker (snd (core r g)))" for unset core
    using that assms(2) by (cases rule: console_call_cases [of E unset core rq g]) (auto simp: Q_def, metis)
  then have "Q (console_call E unset (sticky_stop_set E) rq g)" "Q (console_call E unset (entitlement_set E) rq g)" for unset
    using sticky_stop_set_breaker core_frame(4) by blast+
  moreover have "Q (handle_delivery E rq g)" "Q (handle_mcp_turn E rq g)" "Q (handle_handoff E rq g)"
    "Q (handle_approve_click E rq g)" "Q (x, g)" for x
    using assms(2) by (simp_all add: Q_def handle_approve_click_def Let_def)
  ultimately have "Q (do_POST E rq g)" using assms(1) by (simp add: do_POST_def Let_def clears_def)
  then show ?thesis by (simp add: Q_def)
qed

lemma stopped_sends_nothing:
  assumes "breaker_hard_stopped E g" "ge_guard E"
  shows "g_sent (snd (do_POST E rq g)) = g_sent g"
proof -
  have "\<not> unlimited E g route rid body" for route rid body
    using guard_hard_stop [OF assms, of route rid] by (auto simp: unlimited_def)
  then have "\<not> vendor_authority E rq g fw" for fw by (auto simp: vendor_authority_def)
  moreover have "\<not> console_authority E rq g fw" for fw using assms(1) by (simp add: console_authority_def)
  ultimately show ?thesis using do_POST_sent [of E rq g] by blast
qed

lemma serve_stopped:
  assumes "stopped_table (g_breaker g)"
    "\<forall>(E, rq) \<in> set rest. reads_own_breaker E \<and> ge_guard E \<and> \<not> clears rq"
  shows "g_sent (serve rest g) = g_sent g"
  using assms
proof (induction rest arbitrary: g)
  case (Cons e rest)
  obtain E rq where e: "e = (E, rq)" by (cases e)
  have "g_sent (snd (do_POST E rq g)) = g_sent g"
    using stopped_sends_nothing stopped_level Cons.prems by (auto simp: e)
  moreover have "g_sent (serve rest (snd (do_POST E rq g))) = g_sent (snd (do_POST E rq g))"
    by (rule Cons.IH [OF do_POST_keeps_stop]) (use Cons.prems in \<open>auto simp: e\<close>)
  ultimately show ?case by (simp add: e)
qed simp

section \<open>The replay guard over a run\<close>

definition replay_step :: "int \<Rightarrow> replay \<Rightarrow> replay \<Rightarrow> bool" where
  "replay_step now old new \<longleftrightarrow> new = old \<or> (\<exists>rid. new = replay_record now rid old)"

lemma replay_mark: "replay_step (ge_now E) (g_replay g) (g_replay (mark_handled E route rid g))"
  by (auto simp: replay_step_def mark_handled_def)

lemma replay_suppress: "replay_step (ge_now E) (g_replay g) (g_replay (snd (suppress E route rid why g)))"
  using replay_mark [of E "audit_suppression E route rid why g" route rid]
  by (simp add: suppress_def audit_suppression_def)

lemma replay_forward: "replay_step (ge_now E) (g_replay g) (g_replay (snd (forward_delivery E rq route secret rid body g)))"
  by (auto simp: forward_delivery_def Let_def replay_step_def mark_handled_def split: option.splits)

lemma replay_verified: "replay_step (ge_now E) (g_replay g) (g_replay (snd (handle_verified E rq route secret rid body g)))"
proof -
  obtain ok why g1 where gc: "guard_check E route rid g = ((ok, why), g1)" by (metis prod_cases3 surj_pair)
  then have g1: "g_replay g = g_replay g1" using guard_frame(3) [of E route rid g] by simp
  have "replay_step (ge_now E) (g_replay g1) (g_replay (snd (suppress E route rid w (g1\<lparr>g_windows := x\<rparr>))))"
    "replay_step (ge_now E) (g_replay g1) (g_replay (snd (forward_delivery E rq route secret rid body (g1\<lparr>g_windows := x\<rparr>))))" for w x
    using replay_suppress [of E "g1\<lparr>g_windows := x\<rparr>" route rid w]
      replay_forward [of E "g1\<lparr>g_windows := x\<rparr>" rq route secret rid body] by simp_all
  moreover have "replay_step (ge_now E) (g_replay g1) (g_replay (mark_handled E route rid g1))" by (rule replay_mark)
  ultimately show ?thesis
    unfolding handle_verified_def gc g1
    by (simp add: replay_suppress Let_def case_prod_unfold split: bool.split option.split)
qed

lemma replay_delivery: "replay_step (ge_now E) (g_replay g) (g_replay (snd (handle_delivery E rq g)))"
proof (cases "\<exists>secret rid body. snd (handle_delivery E rq g) =
    snd (handle_verified E rq (route_of (rq_target rq)) secret rid body g)")
  case True
  then show ?thesis using replay_verified by metis
next
  case False
  then have "snd (handle_delivery E rq g) = g"
    by (auto simp: handle_delivery_def Let_def split: option.splits sum.splits prod.splits if_splits)
  then show ?thesis by (simp add: replay_step_def)
qed

lemma turn_replay [simp]: "g_replay (snd (drive_agent_turn E m p t g)) = g_replay g"
  by (auto simp: drive_agent_turn_def Let_def split: option.splits prod.splits)

lemma replay_do_POST: "replay_step (ge_now E) (g_replay g) (g_replay (snd (do_POST E rq g)))"
proof -
  define Q where "Q = (\<lambda>r :: (py_exn + response) \<times> gate. replay_step (ge_now E) (g_replay g) (g_replay (snd r)))"
  have same: "Q r" if "g_replay (snd r) = g_replay g" for r using that by (simp add: Q_def replay_step_def)
  have "g_replay (snd (mcp_turn E v g)) = g_replay g" for v
    using mcp_turn_cases [of E v g] turn_replay by metis
  then have "Q (handle_mcp_turn E rq g)"
    by (intro same) (auto simp: handle_mcp_turn_def split: sum.splits option.splits reading.splits)
  moreover have "Q (handle_handoff E rq g)"
    by (intro same) (auto simp: handle_handoff_def Let_def split: sum.splits reading.splits option.splits)
  moreover have "Q (console_call E unset core rq g)"
    if "\<And>r. g_replay (snd (core r g)) = g_replay g" for unset core
    by (intro same, cases rule: console_call_cases [of E unset core rq g]) (simp_all add: that)
  moreover have "g_replay (snd (sticky_stop_clear E r g)) = g_replay g"
    "g_replay (snd (sticky_stop_set E r g)) = g_replay g"
    "g_replay (snd (entitlement_set E r g)) = g_replay g" for r
    by (auto simp: sticky_stop_clear_def sticky_stop_set_def entitlement_set_def Let_def
      split: prod.splits sum.splits pyval.splits)
  moreover have "Q (handle_delivery E rq g)" unfolding Q_def by (rule replay_delivery)
  moreover have "Q (handle_approve_click E rq g)" "Q (x, g)" for x
    by (simp_all add: same handle_approve_click_def Let_def)
  ultimately have "Q (do_POST E rq g)" by (simp add: do_POST_def Let_def)
  then show ?thesis by (simp add: Q_def)
qed

lemma replay_step_holds:
  assumes "replay_step now old new" "map_of old rid = Some u" "t \<le> u" "t \<le> now + REPLAY_TTL"
  shows "\<exists>u'. map_of new rid = Some u' \<and> t \<le> u'"
  using assms by (auto simp: replay_step_def replay_record_def update_conv' split: if_splits)

lemma serve_replay:
  assumes "map_of (g_replay g) rid = Some u" "t \<le> u" "\<forall>(E, rq) \<in> set rest. t \<le> ge_now E + REPLAY_TTL"
  shows "\<exists>u'. map_of (g_replay (serve rest g)) rid = Some u' \<and> t \<le> u'"
  using assms
proof (induction rest arbitrary: g u)
  case (Cons e rest)
  obtain E rq where e: "e = (E, rq)" by (cases e)
  have "t \<le> ge_now E + REPLAY_TTL" using Cons.prems(3) by (simp add: e)
  from replay_step_holds [OF replay_do_POST Cons.prems(1,2) this, of rq]
  obtain u' where "map_of (g_replay (snd (do_POST E rq g))) rid = Some u'" "t \<le> u'" by blast
  then show ?case using Cons.IH Cons.prems(3) by (simp add: e)
qed simp

text \<open>A forward the adapter took leaves its delivery id in the guard.\<close>

lemma verified_forward:
  assumes "unlimited E g route rid body"
  shows "\<exists>g2. snd (handle_verified E rq route secret rid body g) =
    snd (forward_delivery E rq route secret rid body g2) \<and> g_replay g2 = g_replay g"
proof -
  obtain why g1 where gc: "guard_check E route rid g = ((True, why), g1)"
    using assms by (metis (full_types) prod.collapse unlimited_def)
  then have g1: "g_replay g1 = g_replay g" "g_windows g1 = g_windows g"
    using guard_frame(3,4) [of E route rid g] by simp_all
  obtain wins where th: "throttle_check (ge_now E) route (json_body E body) (live_throttles (ge_config E)) (g_windows g1) = (None, wins)"
    using assms g1(2) by (metis prod.collapse unlimited_def)
  have "snd (handle_verified E rq route secret rid body g) =
      snd (forward_delivery E rq route secret rid body (g1\<lparr>g_windows := wins\<rparr>))"
    using assms gc th by (simp add: handle_verified_def unlimited_def)
  then show ?thesis using g1 by (intro exI [of _ "g1\<lparr>g_windows := wins\<rparr>"]) simp
qed

lemma handled_is_recorded:
  assumes "g_sent (snd (do_POST E rq g)) = g_sent g @ [fw]" "fw_route fw = ''smokeball''"
    "ge_adapter E fw = Some (status, payload)" "is_2xx status" "header ''RequestId'' rq = Some rid"
  shows "rid \<noteq> [] \<and> map_of (g_replay (snd (do_POST E rq g))) rid = Some (ge_now E + REPLAY_TTL)"
proof -
  have post: "snd (do_POST E rq g) = snd (handle_delivery E rq g)"
  proof -
    define Q where "Q = (\<lambda>r :: (py_exn + response) \<times> gate.
      g_sent (snd r) = g_sent g @ [fw] \<longrightarrow> snd r = snd (handle_delivery E rq g))"
    have "Q (console_call E unset core rq g)" if "\<And>r. g_sent (snd (core r g)) = g_sent g" for unset core
      by (cases rule: console_call_cases [of E unset core rq g]) (simp_all add: that Q_def)
    then have "Q (console_call E unset (sticky_stop_clear E) rq g)"
      "Q (console_call E unset (sticky_stop_set E) rq g)" "Q (console_call E unset (entitlement_set E) rq g)" for unset
      using core_frame by blast+
    moreover have "Q (handle_mcp_turn E rq g)"
      using handle_mcp_turn_sent [of E rq g] assms(2) by (auto simp: Q_def MCP_ROUTE_def)
    moreover have "Q (handle_handoff E rq g)"
      using handle_handoff_sent [of E rq g] assms(2) by (auto simp: Q_def HANDOFF_ROUTE_def)
    moreover have "Q (handle_approve_click E rq g)" "Q (x, g)" "Q (handle_delivery E rq g)" for x
      by (simp_all add: Q_def handle_approve_click_def Let_def)
    ultimately have "Q (do_POST E rq g)" by (simp add: do_POST_def Let_def)
    then show ?thesis using assms(1) by (simp add: Q_def)
  qed
  then have "g_sent (snd (handle_delivery E rq g)) \<noteq> g_sent g" using assms(1) by simp
  from handle_delivery_sent [OF this] obtain secret rid' body v where
    h: "route_verify E g (route_of (rq_target rq)) = Some v" "v rq body secret = Inr (True, rid')"
      "unlimited E g (route_of (rq_target rq)) rid' body"
      "handle_delivery E rq g = apfst Inr (handle_verified E rq (route_of (rq_target rq)) secret rid' body g)"
    by blast
  let ?fw = "delivery_forward E rq (route_of (rq_target rq)) secret rid' body"
  have fw: "fw = ?fw" using assms(1) post h(3,4) handle_verified_sent by simp
  then have route: "route_of (rq_target rq) = ''smokeball''"
    using assms(2) by (simp add: delivery_forward_def Let_def)
  have "smokeball_signed E rq secret rid'"
    using h(1,2) smokeball_verified by (simp add: route route_verify_def) blast
  then have rid: "rid' = rid" "rid \<noteq> []" using assms(5) by (auto simp: smokeball_signed_def)
  obtain g2 where g2: "snd (handle_verified E rq ''smokeball'' secret rid' body g) =
      snd (forward_delivery E rq ''smokeball'' secret rid' body g2)" "g_replay g2 = g_replay g"
    using verified_forward [OF h(3)] route by metis
  have "snd (do_POST E rq g) = snd (forward_delivery E rq ''smokeball'' secret rid body g2)"
    using post h(4) g2(1) by (simp add: route rid(1))
  moreover have "map_of (g_replay (snd (forward_delivery E rq ''smokeball'' secret rid body g2))) rid =
      Some (ge_now E + REPLAY_TTL)"
    using assms(3,4) fw rid(2)
    by (simp add: forward_delivery_def delivery_forward_def Let_def route rid(1) mark_handled_def
        EDGE_REPLAY_ROUTES_def replay_record_def update_conv')
  ultimately show ?thesis using rid(2) by simp
qed

section \<open>Sample surroundings\<close>

definition sample_getenv :: "string \<Rightarrow> string option" where
  "sample_getenv name =
     map_of [(''WEBHOOK_SECRET_SMOKEBALL'', ''k''), (''WEBHOOK_SMOKEBALL_CLIENT_ID'', ''c''),
             (''WEBHOOK_SECRET_MCP'', ''m'')] name"

definition sample_env :: "int \<Rightarrow> gate_env" where
  "sample_env now =
     \<lparr>ge_now = now,
      ge_crypto = \<lparr>hex_mac = (\<lambda>k m. ''ab''), b64_mac = (\<lambda>k m. ''QQ''), b64_decode = Some\<rparr>,
      ge_loads = (\<lambda>s. if s = [] then Not_Json else Json (PDict [])),
      ge_loads_text = (\<lambda>s. Json (PDict [(''actor_id'', PStr ''ann''), (''reason'', PStr ''pause'')])),
      ge_dumps = (\<lambda>v. ''{}''), ge_str = (\<lambda>v. []), ge_getenv = sample_getenv,
      ge_config = Document [(''webhook_triggers'', PList [PDict [(''source'', PStr ''smokeball'')]])],
      ge_adapter = (\<lambda>fw. Some (202, [])), ge_breaker_read = read_world, ge_breaker_file = True,
      ge_state_ok = True, ge_guard = True, ge_db = True, ge_audit = Client_Writes, ge_uuid = ''u'',
      ge_agent = [], ge_io = all_io, ge_sha = (\<lambda>s. ''00''), ge_ellipsis = [], ge_slug = ''acme'',
      ge_job_read = (\<lambda>i. Inr None), ge_job_cancel = (\<lambda>i. Inr False), ge_decide = (\<lambda>t. Inr PNone),
      ge_query_token = (\<lambda>q. None)\<rparr>"

definition empty_gate :: gate where
  "empty_gate =
     \<lparr>g_replay = [], g_wake = \<lparr>ww_counter = [], ww_rows = []\<rparr>, g_windows = [],
      g_breaker = \<lparr>table = [], ledger = [], ledger_up = True\<rparr>, g_overrides = [], g_dir = [], g_sent = []\<rparr>"

text \<open>A delivery stamped at the epoch.\<close>

definition smokeball_post :: request where
  "smokeball_post =
     \<lparr>rq_target = ''/webhooks/smokeball'', rq_path = ''/webhooks/smokeball'',
      rq_headers = [(''Timestamp'', ''621355968000000000''), (''RequestId'', ''r1''), (''Signature'', ''AB'')],
      rq_stream = []\<rparr>"

definition pause_post :: request where
  "pause_post =
     \<lparr>rq_target = ''/sticky-stop/set'', rq_path = ''/sticky-stop/set'',
      rq_headers = [(''Authorization'', ''Bearer m''), (''Content-Length'', ''2'')], rq_stream = ''{}''\<rparr>"

lemma sample_forwards:
  "map fw_route (g_sent (snd (do_POST (sample_env 0) smokeball_post empty_gate))) = [''smokeball'']"
  by code_simp

section \<open>Properties\<close>

text \<open>C11: nothing reaches the agent without authority. A POST hands the adapter at most one
  delivery, and only when the request carries a fresh signature of its vendor under the route's
  secret and passed every limit, or carries the console's bearer while the breaker is not at the
  hard stop. What is handed on is the admitted body, stamped and signed again.\<close>

theorem wake_needs_authority:
  "g_sent (snd (do_POST E rq g)) = g_sent g \<or>
     (\<exists>fw. g_sent (snd (do_POST E rq g)) = g_sent g @ [fw] \<and>
        (vendor_authority E rq g fw \<or> console_authority E rq g fw))"
  by (rule do_POST_sent)

lemma console_call_ok:
  assumes "console_call E unset core rq g = (Inr (Reply 200 b), g1)"
  shows "\<exists>req. core req g = (Reply 200 b, g1)"
proof -
  have auth: "console_auth E u m w rq \<noteq> Inr (Some (Reply 200 b))" for u m w
    by (auto simp: console_auth_def err_def Let_def map_sum_Inr split: option.splits)
  have body: "console_body rq \<noteq> Inr (Inl (Reply 200 b))"
    by (auto simp: console_body_def err_def map_sum_Inr split: sum.splits)
  show ?thesis
    using assms auth body
    by (auto simp: console_call_def err_def apfst_def map_prod_def split: sum.splits option.splits reading.splits prod.splits if_splits)
qed

lemma set_returned:
  "sticky_stop_set E req g = (Reply 200 b, g1) \<Longrightarrow> stopped_table (g_breaker g1)"
  by (auto simp: sticky_stop_set_def Let_def err_def split: prod.splits sum.splits if_splits dest: pin_returned_stops)

text \<open>C12: a pause holds while the gate can read it. Once the pause endpoint has answered 200, no request of
  any kind wakes the agent, no vendor delivery, no handoff and no turn, through any number of later
  requests, until one of them is the clear - provided that for each of those requests the guard is on and
  the breaker as read is the table the gate wrote. A breaker that cannot be read is not taken for a
  stop, and a gate whose guard was not armed does not look: both are outside the claim.\<close>

theorem pause_silences_the_machine:
  assumes "do_POST E0 rq0 g = (Inr (Reply 200 b), g1)" "rstrip_slashes (rq_path rq0) = ''/sticky-stop/set''"
    "\<forall>(E, rq) \<in> set rest. reads_own_breaker E \<and> ge_guard E \<and> \<not> clears rq"
  shows "g_sent (serve rest g1) = g_sent g"
proof -
  have "console_call E0 ''set route not configured'' (sticky_stop_set E0) rq0 g = (Inr (Reply 200 b), g1)"
    using assms(1,2) by (simp add: do_POST_def)
  from console_call_ok [OF this] obtain req where req: "sticky_stop_set E0 req g = (Reply 200 b, g1)" by blast
  have "g_sent g1 = g_sent g" using core_frame(2) [of E0 req g] req by simp
  then show ?thesis using serve_stopped [OF set_returned [OF req] assms(3)] by simp
qed

lemma pause_silences_the_machine_witness:
  "g_sent (serve [(sample_env 1, smokeball_post)] (snd (do_POST (sample_env 0) pause_post empty_gate))) = [] \<and>
   g_sent (snd (do_POST (sample_env 0) smokeball_post empty_gate)) \<noteq> []"
proof
  have "\<exists>b. fst (do_POST (sample_env 0) pause_post empty_gate) = Inr (Reply 200 b)"
    by (rule exI [of _ "PDict [(''pinned'', PList [PDict [(''customer'', PStr ''acme''),
        (''persona'', PStr ''_machine''), (''prior_level'', PStr ''OK'')]]), (''level'', PStr ''HARD_STOP'')]"]) code_simp
  then obtain b where "do_POST (sample_env 0) pause_post empty_gate =
      (Inr (Reply 200 b), snd (do_POST (sample_env 0) pause_post empty_gate))" by (metis prod.collapse)
  from pause_silences_the_machine [OF this, of "[(sample_env 1, smokeball_post)]"]
  show "g_sent (serve [(sample_env 1, smokeball_post)] (snd (do_POST (sample_env 0) pause_post empty_gate))) = []"
    by (simp add: pause_post_def rstrip_slashes_def reads_own_breaker_def sample_env_def clears_def
        smokeball_post_def empty_gate_def)
  show "g_sent (snd (do_POST (sample_env 0) smokeball_post empty_gate)) \<noteq> []" using sample_forwards by auto
qed

text \<open>C13: a signed delivery wakes the agent once. After a smokeball delivery was forwarded and the
  adapter took it, no later request that carries the same delivery id under the same stamp is
  forwarded on that route, whatever comes between, as long as the vendor's stamp is less than
  a minute ahead of the gate's clock.\<close>

theorem signed_delivery_wakes_once:
  assumes "g_sent (snd (do_POST E rq g)) = g_sent g @ [fw]" "fw_route fw = ''smokeball''"
    "ge_adapter E fw = Some (status, payload)" "is_2xx status"
    "header ''RequestId'' rq = Some rid" "parse_int (strip ts) = Some t"
    "ticks_seconds t * 1000000 < ge_now E + 60 * 1000000"
    "\<forall>(E', rq') \<in> set rest. ge_now E \<le> ge_now E'"
    "header ''RequestId'' rq2 = Some rid" "header ''Timestamp'' rq2 = Some ts"
  shows "\<forall>fw2. g_sent (snd (do_POST E2 rq2 (serve rest (snd (do_POST E rq g))))) =
      g_sent (serve rest (snd (do_POST E rq g))) @ [fw2] \<longrightarrow> fw_route fw2 \<noteq> ''smokeball''"
proof (intro allI impI notI)
  fix fw2
  let ?g = "serve rest (snd (do_POST E rq g))"
  assume sent: "g_sent (snd (do_POST E2 rq2 ?g)) = g_sent ?g @ [fw2]" and route: "fw_route fw2 = ''smokeball''"
  obtain u where u: "rid \<noteq> []" "map_of (g_replay ?g) rid = Some u" "ge_now E + REPLAY_TTL \<le> u"
    using handled_is_recorded [OF assms(1-5)] serve_replay [of _ rid _ "ge_now E + REPLAY_TTL" rest] assms(8)
    by fastforce
  have "vendor_authority E2 rq2 ?g fw2"
    using do_POST_sent [of E2 rq2 ?g] sent route
    by (auto simp: console_authority_def MCP_ROUTE_def HANDOFF_ROUTE_def)
  then obtain secret where "smokeball_signed E2 rq2 secret rid" "\<not> replay_seen_recently (ge_now E2) rid (g_replay ?g)"
    using route assms(9) by (auto simp: vendor_authority_def smokeball_signed_def)
  then have "fresh E2 (ticks_seconds t)" "u \<le> ge_now E2"
    using assms(6,10) u(1,2) by (auto simp: smokeball_signed_def replay_seen_recently_def)
  then show False using u(3) assms(7) by (simp add: fresh_def REPLAY_TTL_def TIMESTAMP_TOLERANCE_def abs_le_iff)
qed

lemma signed_delivery_wakes_once_witness:
  "\<not> (\<exists>fw2. g_sent (snd (do_POST (sample_env 200000000) smokeball_post (snd (do_POST (sample_env 0) smokeball_post empty_gate)))) =
      g_sent (snd (do_POST (sample_env 0) smokeball_post empty_gate)) @ [fw2] \<and> fw_route fw2 = ''smokeball'')"
proof -
  obtain fw where sent: "g_sent (snd (do_POST (sample_env 0) smokeball_post empty_gate)) = g_sent empty_gate @ [fw]"
      and route: "fw_route fw = ''smokeball''"
    using sample_forwards by (auto simp: empty_gate_def)
  have ad: "ge_adapter (sample_env 0) fw = Some (202, [])" by (simp add: sample_env_def)
  have t: "parse_int (strip ''621355968000000000'') = Some 621355968000000000" by code_simp
  have h: "header ''RequestId'' smokeball_post = Some ''r1''"
    "header ''Timestamp'' smokeball_post = Some ''621355968000000000''" by code_simp+
  show ?thesis unfolding not_ex de_Morgan_conj disj_not1
    using signed_delivery_wakes_once [OF sent route ad _ h(1) t, of "[]" smokeball_post "sample_env 200000000"] h
    by (simp add: is_2xx_def ticks_seconds_def DOTNET_TICKS_PER_SECOND_def DOTNET_EPOCH_OFFSET_SECONDS_def
        sample_env_def)
qed

text \<open>a stamp further ahead opens a second window. A delivery stamped five minutes ahead of the
  gate's clock is forwarded, and the same request is forwarded again after the guard has
  forgotten its id, while the stamp is still within the tolerance.\<close>

theorem stamp_ahead_wakes_twice:
  "length (g_sent (serve [(sample_env (-300000000), smokeball_post), (sample_env 60000000, smokeball_post)] empty_gate)) = 2"
  by code_simp

text \<open>what the agent is handed names its vendor. The body of a forwarded vendor delivery whose
  payload is an object reads as that payload with the route as its source, an event id, and
  every field that is not a stamp as the vendor sent it.\<close>

theorem forwarded_body_names_its_vendor:
  assumes "ge_loads E (ge_dumps E (PDict (stamped route rid p))) = Json (PDict (stamped route rid p))"
    "ge_loads E body = Json (PDict p)" "rid \<noteq> []"
  shows "\<exists>q. ge_loads E (fw_body (delivery_forward E rq route secret rid body)) = Json (PDict q) \<and>
    dget q ''source'' = PStr route \<and> truthy (dget q ''event_id'') \<and>
    (\<forall>k. k \<notin> {''source'', ''origin_source'', ''event_type'', ''event_id''} \<longrightarrow> dget q k = dget p k)"
proof -
  have b: "ge_loads E (fw_body (delivery_forward E rq route secret rid body)) = Json (PDict (stamped route rid p))"
    using assms(1,2) by (simp add: delivery_forward_def stamp_source_def Let_def)
  have upd: "dget (AList.update k v d) k' = (if k' = k then v else dget d k')" for k k' v d
    by (simp add: dget_def update_conv')
  have "dget (stamped route rid p) ''source'' = PStr route"
    by (auto simp: stamped_def stamp_event_id_def stamp_event_type_def stamp_provenance_def upd Let_def
        simp del: first_text.simps split: option.splits)
  moreover have "truthy (dget (stamped route rid p) ''event_id'')"
    using assms(3) by (auto simp: stamped_def stamp_event_id_def upd)
  moreover have "dget (stamped route rid p) k = dget p k"
    if "k \<notin> {''source'', ''origin_source'', ''event_type'', ''event_id''}" for k
    using that
    by (auto simp: stamped_def stamp_event_id_def stamp_event_type_def stamp_provenance_def upd Let_def
        simp del: first_text.simps split: option.splits pyval.splits)
  ultimately show ?thesis using b by blast
qed

definition sample_event :: pydict where
  "sample_event = [(''type'', PStr ''matter.updated''), (''source'', PStr ''API'')]"

definition stamping_env :: gate_env where
  "stamping_env = (sample_env 0)
     \<lparr>ge_dumps := (\<lambda>v. ''S''),
      ge_loads := (\<lambda>s. Json (PDict (if s = ''S'' then stamped ''smokeball'' ''r1'' sample_event else sample_event)))\<rparr>"

lemma forwarded_body_names_its_vendor_witness:
  "\<exists>q. ge_loads stamping_env (fw_body (delivery_forward stamping_env smokeball_post ''smokeball'' ''k'' ''r1'' ''B'')) =
       Json (PDict q) \<and> dget q ''source'' = PStr ''smokeball'' \<and> truthy (dget q ''event_id'') \<and>
     dget q ''type'' = PStr ''matter.updated''"
  using forwarded_body_names_its_vendor [of stamping_env "''smokeball''" "''r1''" sample_event "''B''" smokeball_post "''k''"]
  by (auto simp: stamping_env_def sample_event_def)

text \<open>a length of minus one passes the size cap. A request that declares it is read to the end of
  its stream, so a body of any size reaches the verifier.\<close>

theorem negative_length_passes_the_cap:
  assumes "content_length rq = Inr (-1)"
  shows "admitted_body rq (rq_stream rq)"
  using assms by (simp add: admitted_body_def read_stream_def MAX_BODY_BYTES_def)

lemma negative_length_passes_the_cap_witness:
  "admitted_body (smokeball_post\<lparr>rq_headers := [(''content-length'', ''-1'')], rq_stream := replicate 2000000 CHR ''x''\<rparr>)
     (replicate 2000000 CHR ''x'')"
proof -
  have "content_length (smokeball_post\<lparr>rq_headers := [(''content-length'', ''-1'')]\<rparr>) = Inr (-1)" by code_simp
  then have "content_length (smokeball_post\<lparr>rq_headers := [(''content-length'', ''-1'')], rq_stream := s\<rparr>) = Inr (-1)" for s
    by (simp add: content_length_def header_or_def header_def)
  from negative_length_passes_the_cap [OF this] show ?thesis by simp
qed

end
