(* ===== verification/Mcp_Dispatch.thy ===== *)
theory Mcp_Dispatch
  imports Webhook_Gate
begin

text \<open>
  The JSON-RPC core of the MCP channel (\<open>webhook_gate.py\<close>, \<open>_mcp_dispatch\<close> and the verbs under it):
  the metadata methods, the one conversational tool, and the job verbs, which read and flag the
  broker's job ledger.
\<close>

section \<open>Replies\<close>

definition rpc_ok :: "pyval \<Rightarrow> pydict \<Rightarrow> pyval" where
  "rpc_ok req_id result =
     PDict [(''jsonrpc'', PStr ''2.0''), (''id'', req_id), (''result'', PDict result)]"

definition rpc_err :: "pyval \<Rightarrow> int \<Rightarrow> string \<Rightarrow> pyval" where
  "rpc_err req_id code message =
     PDict [(''jsonrpc'', PStr ''2.0''), (''id'', req_id),
            (''error'', PDict [(''code'', PInt code), (''message'', PStr message)])]"

definition METHOD_NOT_FOUND :: int where
  "METHOD_NOT_FOUND = -32601"

definition INVALID_PARAMS :: int where
  "INVALID_PARAMS = -32602"

definition INTERNAL_ERROR :: int where
  "INTERNAL_ERROR = -32603"

definition quoted :: "string \<Rightarrow> string" where
  "quoted s = (let q = char_of (39 :: nat) in q # s @ [q])"

section \<open>The conversational tool\<close>

definition tool_text :: "string \<Rightarrow> pydict" where
  "tool_text t = [(''content'', PList [PDict [(''type'', PStr ''text''), (''text'', PStr t)]])]"

definition no_result_text :: string where
  "no_result_text = ''The Operator did not return a result in time. Please retry.''"

definition call_arguments :: "pydict \<Rightarrow> pydict option" where
  "call_arguments params =
     (if truthy (dget params ''arguments'')
      then (case dget params ''arguments'' of PDict a \<Rightarrow> Some a | _ \<Rightarrow> None)
      else Some [])"

definition mcp_tools_call :: "gate_env \<Rightarrow> string \<Rightarrow> pydict \<Rightarrow> gate \<Rightarrow> pyval \<times> gate" where
  "mcp_tools_call E who req g =
     (let i = dget req ''id'' in
      case dget req ''params'' of
        PDict params \<Rightarrow>
          (case dget params ''name'' of
             PStr name \<Rightarrow>
               (if name = [] then (rpc_err i INVALID_PARAMS ''tools/call requires a tool name'', g)
                else case call_arguments params of
                  None \<Rightarrow> (rpc_err i INVALID_PARAMS ''arguments must be an object'', g)
                | Some args \<Rightarrow>
                    if name \<noteq> ASK_TOOL_NAME
                    then (rpc_err i METHOD_NOT_FOUND (''unknown tool: '' @ name), g)
                    else (case spoken (dget args ''message'') of
                       None \<Rightarrow> (rpc_err i INVALID_PARAMS (''ask_operator requires a '' @ quoted ''message''), g)
                     | Some message \<Rightarrow>
                         (case thread_arg (dget args ''thread_id'') of
                            None \<Rightarrow> (rpc_err i INVALID_PARAMS (quoted ''thread_id'' @ '' must be a string''), g)
                          | Some tid \<Rightarrow>
                              (case drive_agent_turn E message who tid g of
                                 (None, g1) \<Rightarrow>
                                   (rpc_ok i (tool_text no_result_text @ [(''isError'', PBool True)]), g1)
                               | (Some r, g1) \<Rightarrow> (rpc_ok i (tool_text (answer_text E r)), g1)))))
           | _ \<Rightarrow> (rpc_err i INVALID_PARAMS ''tools/call requires a tool name'', g))
      | _ \<Rightarrow> (rpc_err i INVALID_PARAMS ''tools/call requires params'', g))"

section \<open>The job verbs\<close>

definition JOB_STATUS_FIELDS :: "string list" where
  "JOB_STATUS_FIELDS =
     [''status'', ''spent_cents'', ''budget_cents'', ''result_ref'', ''error'', ''attempts'']"

text \<open>The job id, or the error reply.\<close>

definition job_id_arg :: "pydict \<Rightarrow> string + pyval" where
  "job_id_arg req =
     (let i = dget req ''id'' in
      case dget req ''params'' of
        PDict params \<Rightarrow>
          (case dget params ''job_id'' of
             PStr j \<Rightarrow> if j = [] then Inr (rpc_err i INVALID_PARAMS ''job_id (string) required'') else Inl j
           | _ \<Rightarrow> Inr (rpc_err i INVALID_PARAMS ''job_id (string) required''))
      | _ \<Rightarrow> Inr (rpc_err i INVALID_PARAMS ''params object required''))"

definition job_not_found :: "string \<Rightarrow> pydict" where
  "job_not_found j = [(''found'', PBool False), (''job_id'', PStr j)]"

definition mcp_job_status :: "gate_env \<Rightarrow> pydict \<Rightarrow> pyval" where
  "mcp_job_status E req =
     (case job_id_arg req of
        Inr e \<Rightarrow> e
      | Inl j \<Rightarrow>
          rpc_ok (dget req ''id'')
            (case ge_job_read E j of
               Inr (Some job) \<Rightarrow>
                 [(''found'', PBool True), (''job_id'', PStr j)] @ map (\<lambda>f. (f, dget job f)) JOB_STATUS_FIELDS
             | _ \<Rightarrow> job_not_found j))"

definition mcp_job_cancel :: "gate_env \<Rightarrow> pydict \<Rightarrow> pyval" where
  "mcp_job_cancel E req =
     (case job_id_arg req of
        Inr e \<Rightarrow> e
      | Inl j \<Rightarrow>
          (case ge_job_cancel E j of
             Inl e \<Rightarrow> rpc_err (dget req ''id'') INTERNAL_ERROR ''job ledger unavailable''
           | Inr c \<Rightarrow> rpc_ok (dget req ''id'') [(''job_id'', PStr j), (''cancelled'', PBool c)]))"

section \<open>The dispatch\<close>

definition server_info :: pydict where
  "server_info = [(''name'', PStr ''smd-operator-connector''), (''title'', PStr ''SMD Operator''),
     (''version'', PStr ''0.1.0'')]"

definition string_schema :: "string \<Rightarrow> pyval" where
  "string_schema d = PDict [(''type'', PStr ''string''), (''description'', PStr d)]"

definition ask_tool :: pyval where
  "ask_tool = PDict
     [(''name'', PStr ASK_TOOL_NAME),
      (''description'', PStr ''Talk to the Operator. Send it a message - a question, an instruction, anything you would say to a capable coworker who has your Drive, your inbox, your memory, and judgment. It understands what you want, does it, and replies. Pass a stable 'thread_id' to keep the same conversation going across turns (it remembers what was already said in that thread).''),
      (''inputSchema'', PDict
         [(''type'', PStr ''object''),
          (''properties'', PDict
             [(''message'', string_schema ''What you want to say to the Operator.''),
              (''thread_id'', string_schema ''Optional. A stable id for THIS conversation; reuse it across turns so the Operator keeps context. Scoped to your identity.'')]),
          (''required'', PList [PStr ''message''])])]"

definition mcp_dispatch :: "gate_env \<Rightarrow> string \<Rightarrow> pydict \<Rightarrow> gate \<Rightarrow> (int \<times> pyval option) \<times> gate" where
  "mcp_dispatch E who req g =
     (let i = dget req ''id''; m = dget req ''method'' in
      if m = PStr ''initialize''
      then ((200, Some (rpc_ok i [(''protocolVersion'', PStr ''2025-06-18''),
               (''capabilities'', PDict [(''tools'', PDict [(''listChanged'', PBool False)])]),
               (''serverInfo'', PDict server_info)])), g)
      else if m = PStr ''notifications/initialized'' then ((202, None), g)
      else if m = PStr ''ping'' then ((200, Some (rpc_ok i [])), g)
      else if m = PStr ''tools/list'' then ((200, Some (rpc_ok i [(''tools'', PList [ask_tool])])), g)
      else if m = PStr ''tools/call'' then apfst (\<lambda>r. (200, Some r)) (mcp_tools_call E who req g)
      else if m = PStr ''job_status'' then ((200, Some (mcp_job_status E req)), g)
      else if m = PStr ''job_cancel'' then ((200, Some (mcp_job_cancel E req)), g)
      else ((200, Some (rpc_err i METHOD_NOT_FOUND (''method not found: '' @ py_text E m))), g))"

section \<open>Properties\<close>

text \<open>A reply answers a request: it is an object with that request's id and either a result or an
  error.\<close>

definition answers :: "pydict \<Rightarrow> pyval \<Rightarrow> bool" where
  "answers req r \<longleftrightarrow>
     (\<exists>x. r = rpc_ok (dget req ''id'') x) \<or> (\<exists>c m. r = rpc_err (dget req ''id'') c m)"

lemma answers_ok: "i = dget req ''id'' \<Longrightarrow> answers req (rpc_ok i x)"
  by (auto simp: answers_def)

lemma answers_err: "i = dget req ''id'' \<Longrightarrow> answers req (rpc_err i c m)"
  by (auto simp: answers_def)

lemma tools_call_answers: "answers req (fst (mcp_tools_call E who req g))"
  by (auto simp: mcp_tools_call_def Let_def answers_ok answers_err
      split: pyval.split option.split prod.split)

lemma jobs_answer: "answers req (mcp_job_status E req)" "answers req (mcp_job_cancel E req)"
  by (auto simp: mcp_job_status_def mcp_job_cancel_def job_id_arg_def Let_def answers_ok answers_err
      split: pyval.split sum.split)

lemma turn_sent_one:
  "g_sent (snd (drive_agent_turn E m p t g)) = g_sent g \<or>
     (\<exists>fw. g_sent (snd (drive_agent_turn E m p t g)) = g_sent g @ [fw] \<and> fw_route fw = MCP_ROUTE)"
  by (auto simp: drive_agent_turn_def Let_def split: option.splits prod.splits)

lemma tools_call_sent:
  "g_sent (snd (mcp_tools_call E who req g)) = g_sent g \<or>
     (\<exists>fw. g_sent (snd (mcp_tools_call E who req g)) = g_sent g @ [fw] \<and> fw_route fw = MCP_ROUTE)"
proof (cases "\<exists>m tid. snd (mcp_tools_call E who req g) = snd (drive_agent_turn E m who tid g)")
  case True
  then obtain m tid where eq: "snd (mcp_tools_call E who req g) = snd (drive_agent_turn E m who tid g)" by blast
  show ?thesis unfolding eq by (rule turn_sent_one)
next
  case False
  have "snd (case drive_agent_turn E m who tid g of
      (None, g1) \<Rightarrow> (a, g1) | (Some r, g1) \<Rightarrow> (f r, g1)) = snd (drive_agent_turn E m who tid g)"
    for m tid and a :: pyval and f
    by (cases "drive_agent_turn E m who tid g"; cases "fst (drive_agent_turn E m who tid g)") simp_all
  then have "snd (mcp_tools_call E who req g) = g"
    using False by (auto simp: mcp_tools_call_def Let_def split: pyval.split option.split) blast
  then show ?thesis by simp
qed

text \<open>C39: every request but the initialized notification gets one reply, which carries the request's
  own id; and whatever the method and its arguments, at most one turn is forwarded, by the
  conversational tool alone.\<close>

theorem every_request_is_answered:
  "(case mcp_dispatch E who req g of
      ((status, Some r), g1) \<Rightarrow> status = 200 \<and> answers req r
    | ((status, None), g1) \<Rightarrow> status = 202 \<and> dget req ''method'' = PStr ''notifications/initialized'') \<and>
   (g_sent (snd (mcp_dispatch E who req g)) = g_sent g \<or>
    dget req ''method'' = PStr ''tools/call'' \<and>
    (\<exists>fw. g_sent (snd (mcp_dispatch E who req g)) = g_sent g @ [fw] \<and> fw_route fw = MCP_ROUTE))"
proof -
  obtain r g1 where t: "mcp_tools_call E who req g = (r, g1)" by fastforce
  have a: "answers req r" using tools_call_answers [of req E who g] t by simp
  have s: "g_sent g1 = g_sent g \<or> (\<exists>fw. g_sent g1 = g_sent g @ [fw] \<and> fw_route fw = MCP_ROUTE)"
    using tools_call_sent [of E who req g] t by simp
  show ?thesis
    unfolding mcp_dispatch_def Let_def
    using a s by (auto simp: t answers_ok answers_err jobs_answer)
qed

end
