(* ===== verification/Casework_Ledger.thy ===== *)
theory Casework_Ledger
  imports Prelude "HOL-Library.Char_ord" "HOL-Library.List_Lexorder"
begin

text \<open>
  The casework ledger (\<open>shared/casework_ledger.py\<close>): what the Operator proposed about a firm's
  tasks, what a person decided, and what it then wrote. A row is its JSON object; the state of
  an item is folded from its rows in time order; an append is validated against the rows there
  are. Refusals are named by the door they keep shut. \<open>key_of\<close> is the digest over the
  normalised matter and the namespaced source id, \<open>day_of\<close> reads the date of a time stamp, and
  \<open>str_of\<close> is \<open>str\<close> of a value that is not a string.
\<close>

section \<open>Vocabulary\<close>

definition ITEM_KINDS :: "string list" where
  "ITEM_KINDS = [''task'', ''date'']"

definition RAISING_EVENTS :: "string list" where
  "RAISING_EVENTS = [''proposed'', ''named'', ''briefed'']"

definition VERDICT_EVENTS :: "string list" where
  "VERDICT_EVENTS = [''approved'', ''held'']"

definition OUTCOME_EVENTS :: "string list" where
  "OUTCOME_EVENTS = [''completed'', ''write_failed'']"

definition EVENTS :: "string list" where
  "EVENTS = RAISING_EVENTS @ VERDICT_EVENTS @ OUTCOME_EVENTS @
     [''closed_by_record'', ''mentioned'', ''step_started'', ''kept'', ''step_ran'']"

definition WITNESSED_EVENTS :: "string list" where
  "WITNESSED_EVENTS = RAISING_EVENTS @ [''mentioned'']"

definition ACTIONS :: "string list" where
  "ACTIONS = [''close'', ''complete'', ''keep'', ''reassign'', ''step'']"

definition LEVELS :: "string list" where
  "LEVELS = [''surfaces'', ''prepares'', ''handles'']"

definition WRITE_ACTIONS :: "string list" where
  "WRITE_ACTIONS = [''close'', ''complete'', ''reassign'']"

definition COMPLETE_SKILL :: string where
  "COMPLETE_SKILL = ''deadline-miss-escalator''"

definition CLASSES :: "string list" where
  "CLASSES = [''open'', ''done'', ''stale'', ''at_stake'']"

definition MAX_ITEM_NUMBER :: int where
  "MAX_ITEM_NUMBER = 999"

definition COMMON :: "string list" where
  "COMMON = [''v'', ''ts'', ''id'', ''skill'', ''matter_id'', ''kind'', ''source_id'', ''item_key'',
     ''event'', ''session_id'']"

definition ALLOWED :: "string \<Rightarrow> string list" where
  "ALLOWED kind =
     COMMON @
     (if kind \<in> set RAISING_EVENTS then [''n'', ''dispatch_ref'', ''thread_ref'', ''payload'']
      else if kind \<in> set VERDICT_EVENTS then [''n'', ''thread_ref'', ''decided_by'']
      else if kind = ''step_started'' then [''n'', ''thread_ref'']
      else if kind = ''closed_by_record'' then [''payload'']
      else if kind = ''completed'' then [''tool_call_id'']
      else if kind = ''write_failed'' then [''error'']
      else if kind = ''step_ran'' then [''payload'', ''tool_call_id'']
      else [])"

definition PAYLOAD_KEYS :: "string list" where
  "PAYLOAD_KEYS = [''action'', ''class'', ''staff_id'', ''to_staff_id'', ''reason'', ''evidence'', ''step'']"

definition among :: "pyval \<Rightarrow> string list \<Rightarrow> bool" where
  "among v xs = (case v of PStr s \<Rightarrow> s \<in> set xs | _ \<Rightarrow> False)"

definition valid_n :: "pyval \<Rightarrow> bool" where
  "valid_n v = (case v of PInt n \<Rightarrow> 1 \<le> n \<and> n \<le> MAX_ITEM_NUMBER | _ \<Rightarrow> False)"

definition short_str :: "pyval \<Rightarrow> nat \<Rightarrow> bool" where
  "short_str v limit = (case v of PStr s \<Rightarrow> strip s \<noteq> [] \<and> length s \<le> limit | _ \<Rightarrow> False)"

definition short_or_none :: "pyval \<Rightarrow> nat \<Rightarrow> bool" where
  "short_or_none v limit \<longleftrightarrow> v = PNone \<or> short_str v limit"

definition item_key :: "(string \<Rightarrow> string \<Rightarrow> string) \<Rightarrow> string \<Rightarrow> string \<Rightarrow> string \<Rightarrow> string option" where
  "item_key key_of matter kind source =
     (if kind \<notin> set ITEM_KINDS then None
      else if strip source = [] \<or> strip matter = [] then None
      else Some (key_of matter ((if kind = ''task'' then ''__cm_task:'' else ''__cm_date:'') @ strip source)))"

definition event_kind :: "pydict \<Rightarrow> string" where
  "event_kind e = (case dget e ''event'' of PStr s \<Rightarrow> s | _ \<Rightarrow> [])"

definition row_key :: "pydict \<Rightarrow> string" where
  "row_key e = (case dget e ''item_key'' of PStr s \<Rightarrow> s | _ \<Rightarrow> [])"

text \<open>What \<open>read_ledger\<close> keeps of the parsed lines of the file.\<close>

definition read_ledger :: "pyval option list \<Rightarrow> pydict list" where
  "read_ledger lines =
     List.map_filter (\<lambda>v. case v of
         Some (PDict e) \<Rightarrow>
           if among (dget e ''event'') EVENTS \<and> truthy (dget e ''item_key'') then Some e else None
       | _ \<Rightarrow> None) lines"

section \<open>State\<close>

type_synonym slot = "string \<times> int"

record line =
  ln_event :: string
  ln_payload :: pydict
  ln_dispatch :: "string option"
  ln_raised :: "string option"
  ln_verdict :: "string option"
  ln_verdict_ts :: "string option"
  ln_decided_by :: "pydict option"
  ln_started :: bool

text \<open>The authorized decision: the line in a slot, or a line whose slot was raised again.\<close>

datatype authorized = In_Slot slot | Replaced line

record item_state =
  it_matter :: "string option"
  it_kind :: "string option"
  it_source :: "string option"
  it_decisions :: "(slot \<times> line) list"
  it_last :: "slot option"
  it_named :: bool
  it_auth :: "string option"
  it_auth_line :: "authorized option"
  it_record :: "pydict option"
  it_completed :: bool
  it_via :: "string option"
  it_completed_day :: "int option"
  it_failed :: bool
  it_mentioned :: bool
  it_kept :: bool
  it_kept_day :: "int option"
  it_steps :: "(pydict \<times> int option) list"

definition new_item :: item_state where
  "new_item =
     \<lparr>it_matter = None, it_kind = None, it_source = None, it_decisions = [], it_last = None,
      it_named = False, it_auth = None, it_auth_line = None, it_record = None, it_completed = False,
      it_via = None, it_completed_day = None, it_failed = False, it_mentioned = False,
      it_kept = False, it_kept_day = None, it_steps = []\<rparr>"

record readers =
  rd_str :: "pyval \<Rightarrow> string"
  rd_day :: "string \<Rightarrow> int option"

definition text_or :: "readers \<Rightarrow> pyval \<Rightarrow> string" where
  "text_or R v = (if truthy v then (case v of PStr s \<Rightarrow> s | _ \<Rightarrow> rd_str R v) else [])"

definition slot_of :: "readers \<Rightarrow> pydict \<Rightarrow> slot" where
  "slot_of R e =
     (text_or R (dget e ''thread_ref''),
      case dget e ''n'' of PInt n \<Rightarrow> if valid_n (PInt n) then n else 0 | _ \<Rightarrow> 0)"

definition some_str :: "pyval \<Rightarrow> string option" where
  "some_str v = (case v of PStr s \<Rightarrow> Some s | _ \<Rightarrow> None)"

definition some_dict :: "pyval \<Rightarrow> pydict option" where
  "some_dict v = (case v of PDict d \<Rightarrow> Some d | _ \<Rightarrow> None)"

definition dict_or_empty :: "pyval \<Rightarrow> pydict" where
  "dict_or_empty v = (case v of PDict d \<Rightarrow> d | _ \<Rightarrow> [])"

text \<open>\<open>str(v)\<close> of an attribute that is set.\<close>

definition attr_text :: "readers \<Rightarrow> pyval \<Rightarrow> string option \<Rightarrow> string option" where
  "attr_text R v old = (case v of PNone \<Rightarrow> old | PStr s \<Rightarrow> Some s | _ \<Rightarrow> Some (rd_str R v))"

definition day_of_row :: "readers \<Rightarrow> pydict \<Rightarrow> int option" where
  "day_of_row R e = (case some_str (dget e ''ts'') of None \<Rightarrow> None | Some t \<Rightarrow> rd_day R (take 10 t))"

definition set_attrs :: "readers \<Rightarrow> pydict \<Rightarrow> item_state \<Rightarrow> item_state" where
  "set_attrs R e s =
     s\<lparr>it_matter := attr_text R (dget e ''matter_id'') (it_matter s),
       it_kind := attr_text R (dget e ''kind'') (it_kind s),
       it_source := attr_text R (dget e ''source_id'') (it_source s)\<rparr>"

definition raised_line :: "pydict \<Rightarrow> line" where
  "raised_line e =
     \<lparr>ln_event = event_kind e, ln_payload = dict_or_empty (dget e ''payload''),
      ln_dispatch = some_str (dget e ''dispatch_ref''), ln_raised = some_str (dget e ''ts''),
      ln_verdict = None, ln_verdict_ts = None, ln_decided_by = None, ln_started = False\<rparr>"

definition fold_raise :: "readers \<Rightarrow> pydict \<Rightarrow> item_state \<Rightarrow> item_state" where
  "fold_raise R e s =
     (let sl = slot_of R e in
      s\<lparr>it_auth_line :=
          (case it_auth_line s of
             Some (In_Slot sl') \<Rightarrow>
               (if sl' = sl then map_option Replaced (map_of (it_decisions s) sl) else Some (In_Slot sl'))
           | x \<Rightarrow> x),
        it_decisions := AList.update sl (raised_line e) (it_decisions s),
        it_last := Some sl,
        it_named := it_named s \<or> event_kind e = ''named''\<rparr>)"

definition line_action :: "line \<Rightarrow> pyval" where
  "line_action l = dget (ln_payload l) ''action''"

definition fold_verdict :: "readers \<Rightarrow> pydict \<Rightarrow> line \<Rightarrow> item_state \<Rightarrow> item_state" where
  "fold_verdict R e l s =
     (let sl = slot_of R e;
          l' = l\<lparr>ln_verdict := Some (event_kind e), ln_verdict_ts := some_str (dget e ''ts''),
                 ln_decided_by := some_dict (dget e ''decided_by'')\<rparr>;
          s' = s\<lparr>it_decisions := AList.update sl l' (it_decisions s)\<rparr>
      in if event_kind e = ''approved'' \<and> among (line_action l) WRITE_ACTIONS
         then s'\<lparr>it_auth := Some ''approved'', it_auth_line := Some (In_Slot sl)\<rparr> else s')"

definition fold_outcome :: "readers \<Rightarrow> pydict \<Rightarrow> item_state \<Rightarrow> item_state" where
  "fold_outcome R e s =
     (let s1 = (if event_kind e = ''completed''
                then s\<lparr>it_completed := True, it_via := it_auth s, it_completed_day := day_of_row R e,
                       it_mentioned := False\<rparr>
                else s)
      in s1\<lparr>it_failed := (event_kind e = ''write_failed''), it_auth := None, it_auth_line := None\<rparr>)"

definition fold_row :: "readers \<Rightarrow> item_state \<Rightarrow> pydict \<Rightarrow> item_state" where
  "fold_row R s0 e =
     (let kind = event_kind e; s = set_attrs R e s0; dec = map_of (it_decisions s) (slot_of R e) in
      if kind \<in> set RAISING_EVENTS then fold_raise R e s
      else if kind \<in> set VERDICT_EVENTS \<and> dec \<noteq> None then fold_verdict R e (the dec) s
      else if kind = ''step_started'' \<and> dec \<noteq> None
      then s\<lparr>it_decisions := AList.update (slot_of R e) ((the dec)\<lparr>ln_started := True\<rparr>) (it_decisions s)\<rparr>
      else if kind = ''closed_by_record''
      then s\<lparr>it_auth := Some ''closed_by_record'', it_auth_line := None,
             it_record := some_dict (dget e ''payload'')\<rparr>
      else if kind \<in> set OUTCOME_EVENTS then fold_outcome R e s
      else if kind = ''mentioned'' then s\<lparr>it_mentioned := True, it_steps := []\<rparr>
      else if kind = ''step_ran''
      then s\<lparr>it_steps := it_steps s @
               [(dict_or_empty (dget (dict_or_empty (dget e ''payload'')) ''step''), day_of_row R e)]\<rparr>
      else if kind = ''kept'' then s\<lparr>it_kept := True, it_kept_day := day_of_row R e\<rparr>
      else s)"

definition ts_text :: "readers \<Rightarrow> pydict \<Rightarrow> string" where
  "ts_text R e = text_or R (dget e ''ts'')"

definition fold_into :: "readers \<Rightarrow> (string \<times> item_state) list \<Rightarrow> pydict \<Rightarrow> (string \<times> item_state) list" where
  "fold_into R states e =
     (let k = text_or R (dget e ''item_key'') in
      if k = [] then states
      else AList.update k (fold_row R (case map_of states k of None \<Rightarrow> new_item | Some s \<Rightarrow> s) e) states)"

definition derive_state :: "readers \<Rightarrow> pydict list \<Rightarrow> (string \<times> item_state) list" where
  "derive_state R events = foldl (fold_into R) [] (sort_key (ts_text R) events)"

definition pending_decisions :: "item_state option \<Rightarrow> line list" where
  "pending_decisions st =
     (case st of None \<Rightarrow> [] | Some s \<Rightarrow> filter (\<lambda>l. ln_verdict l = None) (map snd (it_decisions s)))"

definition needs_mention :: "item_state option \<Rightarrow> bool" where
  "needs_mention st =
     (case st of None \<Rightarrow> False
      | Some s \<Rightarrow> it_steps s \<noteq> [] \<or>
          (it_completed s \<and> it_via s = Some ''closed_by_record'' \<and> \<not> it_mentioned s))"

definition is_kept_quiet :: "item_state option \<Rightarrow> int \<Rightarrow> int \<Rightarrow> bool" where
  "is_kept_quiet st today quiet_days =
     (case st of None \<Rightarrow> False
      | Some s \<Rightarrow> it_kept s \<and>
          (case it_kept_day s of None \<Rightarrow> False | Some d \<Rightarrow> today < d + max 0 quiet_days))"

section \<open>Validation\<close>

text \<open>The doors, in the order the checks meet them.\<close>

datatype door =
    Unknown_Event | Unknown_Fields | No_Skill | Bad_Kind | No_Matter_Or_Source | Wrong_Item_Key
  | No_Payload | Unknown_Payload_Fields | Bad_Action | Bad_Class | Close_At_Stake
  | Complete_Not_By_Digest | Complete_Not_A_Task | Complete_Without_Owner | Bad_Staff
  | Reassign_Without_Target | Step_Mismatch | Bad_Step | Bad_Reason | Bad_Evidence
  | Step_Not_Run_By_Operator | Not_Closed_By_Record | No_Send_Witness | Raise_Without_Thread
  | Already_Handed_Over | Answers_Nothing | Step_Not_Approved | Bad_Decided_By
  | Complete_Without_Name | Already_Answered | Not_Authorized | Bad_Error | No_Call_Id
  | Call_Already_Used | No_Call_Witness | Not_Held | Nothing_To_Mention

text \<open>\<open>if not b: raise door\<close>, then the rest.\<close>

definition unless :: "bool \<Rightarrow> door \<Rightarrow> door option \<Rightarrow> door option" where
  "unless b d rest = (if b then rest else Some d)"

definition char_in :: "(nat \<times> nat) list \<Rightarrow> char \<Rightarrow> bool" where
  "char_in ranges c \<longleftrightarrow> (let n = (of_char c :: nat) in \<exists>(a, b) \<in> set ranges. a \<le> n \<and> n \<le> b)"

text \<open>A full match of one to \<open>n\<close> characters of a class.\<close>

definition charset :: "(nat \<times> nat) list \<Rightarrow> nat \<Rightarrow> string \<Rightarrow> bool" where
  "charset ranges n s \<longleftrightarrow> s \<noteq> [] \<and> length s \<le> n \<and> list_all (char_in ranges) s"

definition step_chars :: "(nat \<times> nat) list" where
  "step_chars = [(65, 90), (97, 122), (48, 57), (95, 95), (46, 46), (58, 58), (45, 45)]"

definition skill_chars :: "(nat \<times> nat) list" where
  "skill_chars = [(97, 122), (48, 57), (95, 95), (45, 45)]"

definition hex_chars :: "(nat \<times> nat) list" where
  "hex_chars = [(48, 57), (97, 102)]"

definition str_matches :: "(string \<Rightarrow> bool) \<Rightarrow> pyval \<Rightarrow> bool" where
  "str_matches P v = (case v of PStr s \<Rightarrow> P s | _ \<Rightarrow> False)"

definition hex_text :: "nat \<Rightarrow> string \<Rightarrow> bool" where
  "hex_text n s \<longleftrightarrow> length s = n \<and> charset hex_chars n s"

definition valid_step :: "pyval \<Rightarrow> bool" where
  "valid_step v =
     (case v of
        PDict step \<Rightarrow>
          set (keys step) \<subseteq> set [''catalog_id'', ''skill'', ''level'', ''params''] \<and>
          str_matches (charset step_chars 120) (dget step ''catalog_id'') \<and>
          str_matches (charset skill_chars 64) (dget step ''skill'') \<and>
          among (dget step ''level'') LEVELS \<and>
          (case (case map_of step ''params'' of None \<Rightarrow> PDict [] | Some p \<Rightarrow> p) of
             PDict ps \<Rightarrow>
               length ps \<le> 10 \<and> list_all (\<lambda>(k, x). charset skill_chars 64 k \<and> short_str x 200) ps
           | _ \<Rightarrow> False)
      | _ \<Rightarrow> False)"

definition check_complete :: "pydict \<Rightarrow> string \<Rightarrow> pyval \<Rightarrow> door option \<Rightarrow> door option" where
  "check_complete payload item skill rest =
     unless (skill = PStr COMPLETE_SKILL) Complete_Not_By_Digest
       (unless (item = ''task'') Complete_Not_A_Task
          (unless (short_str (dget payload ''staff_id'') 128) Complete_Without_Owner rest))"

definition evidence_of :: "pydict \<Rightarrow> pyval" where
  "evidence_of payload = (case map_of payload ''evidence'' of None \<Rightarrow> PList [] | Some v \<Rightarrow> v)"

definition check_kind_shape :: "string \<Rightarrow> pydict \<Rightarrow> string \<Rightarrow> door option \<Rightarrow> door option" where
  "check_kind_shape kind payload item rest =
     (let action = dget payload ''action''; klass = dget payload ''class'' in
      unless (kind = ''step_ran'' \<longrightarrow>
                action = PStr ''step'' \<and> klass = PStr ''open'' \<and> item = ''date'' \<and>
                dget (dict_or_empty (dget payload ''step'')) ''level'' = PStr ''handles'')
        Step_Not_Run_By_Operator
        (unless (kind = ''closed_by_record'' \<longrightarrow>
                   action = PStr ''close'' \<and> klass = PStr ''done'' \<and> truthy (evidence_of payload) \<and> item = ''task'')
           Not_Closed_By_Record rest))"

definition validate_payload :: "string \<Rightarrow> pyval \<Rightarrow> string \<Rightarrow> pyval \<Rightarrow> door option \<Rightarrow> door option" where
  "validate_payload kind v item skill rest =
     (case v of
        PDict payload \<Rightarrow>
          (let action = dget payload ''action''; klass = dget payload ''class'';
               step = dget payload ''step''; ev = evidence_of payload in
           unless (set (keys payload) \<subseteq> set PAYLOAD_KEYS) Unknown_Payload_Fields
            (unless (among action ACTIONS) Bad_Action
             (unless (among klass CLASSES) Bad_Class
              (unless (\<not> (action = PStr ''close'' \<and> klass = PStr ''at_stake'')) Close_At_Stake
               ((if action = PStr ''complete'' then check_complete payload item skill else id)
                (unless (short_or_none (dget payload ''staff_id'') 128 \<and>
                         short_or_none (dget payload ''to_staff_id'') 128) Bad_Staff
                 (unless (\<not> (action = PStr ''reassign'' \<and> dget payload ''to_staff_id'' = PNone))
                    Reassign_Without_Target
                  (unless ((action = PStr ''step'') = (step \<noteq> PNone)) Step_Mismatch
                   (unless (step \<noteq> PNone \<longrightarrow> valid_step step) Bad_Step
                    (unless (short_or_none (dget payload ''reason'') 300) Bad_Reason
                     (unless (case ev of PList xs \<Rightarrow> length xs \<le> 20 \<and> list_all (\<lambda>x. short_str x 200) xs | _ \<Rightarrow> False)
                        Bad_Evidence
                        (check_kind_shape kind payload item rest))))))))))))
      | _ \<Rightarrow> Some No_Payload)"

definition valid_decided_by :: "pyval \<Rightarrow> bool" where
  "valid_decided_by v =
     (case v of
        PNone \<Rightarrow> True
      | PDict d \<Rightarrow> set (keys d) = {''name'', ''key''} \<and> short_str (dget d ''name'') 120 \<and>
          str_matches (hex_text 64) (dget d ''key'')
      | _ \<Rightarrow> False)"

definition validate_identity ::
  "(string \<Rightarrow> string \<Rightarrow> string) \<Rightarrow> pydict \<Rightarrow> door option \<Rightarrow> door option" where
  "validate_identity key_of e rest =
     unless (among (dget e ''event'') EVENTS) Unknown_Event
       (unless (set (keys e) \<subseteq> set (ALLOWED (event_kind e))) Unknown_Fields
          (unless (short_str (dget e ''skill'') 128) No_Skill
             (case dget e ''kind'' of
                PStr k \<Rightarrow>
                  unless (k \<in> set ITEM_KINDS) Bad_Kind
                    (unless (short_str (dget e ''matter_id'') 128 \<and> short_str (dget e ''source_id'') 128)
                       No_Matter_Or_Source
                       (case (dget e ''matter_id'', dget e ''source_id'') of
                          (PStr m, PStr s) \<Rightarrow>
                            unless (map_option PStr (item_key key_of m k s) = Some (dget e ''item_key''))
                              Wrong_Item_Key rest
                        | _ \<Rightarrow> Some No_Matter_Or_Source))
              | _ \<Rightarrow> Some Bad_Kind)))"

definition item_of :: "pydict \<Rightarrow> string" where
  "item_of e = (case dget e ''kind'' of PStr k \<Rightarrow> k | _ \<Rightarrow> [])"

definition check_raise :: "pydict \<Rightarrow> item_state option \<Rightarrow> door option" where
  "check_raise e st =
     unless (valid_n (dget e ''n'') \<and> str_matches (hex_text 32) (dget e ''dispatch_ref'') \<and>
             short_str (dget e ''thread_ref'') 512) Raise_Without_Thread
       (unless (\<not> (event_kind e = ''named'' \<and> (case st of None \<Rightarrow> False | Some s \<Rightarrow> it_named s)))
          Already_Handed_Over None)"

definition line_in :: "readers \<Rightarrow> pydict \<Rightarrow> item_state option \<Rightarrow> line option" where
  "line_in R e st =
     (case st of None \<Rightarrow> None
      | Some s \<Rightarrow>
          if fst (slot_of R e) \<noteq> [] \<and> snd (slot_of R e) \<noteq> 0
          then map_of (it_decisions s) (slot_of R e) else None)"

definition check_answer :: "readers \<Rightarrow> pydict \<Rightarrow> item_state option \<Rightarrow> door option" where
  "check_answer R e st =
     (case line_in R e st of
        None \<Rightarrow> Some Answers_Nothing
      | Some l \<Rightarrow>
          if event_kind e = ''step_started''
          then unless (ln_verdict l = Some ''approved'' \<and> line_action l = PStr ''step'') Step_Not_Approved None
          else
            unless (valid_decided_by (dget e ''decided_by'')) Bad_Decided_By
              (unless (\<not> (event_kind e = ''approved'' \<and> line_action l = PStr ''complete'' \<and>
                          dget e ''decided_by'' = PNone)) Complete_Without_Name
                 (unless (ln_verdict l = None) Already_Answered None)))"

definition check_call :: "(pydict \<Rightarrow> bool) \<Rightarrow> pydict \<Rightarrow> pydict list \<Rightarrow> door option" where
  "check_call audit_witness e existing =
     (let call = dget e ''tool_call_id'' in
      unless (short_str call 128) No_Call_Id
        (unless (\<not> (\<exists>x \<in> set existing. dget x ''tool_call_id'' = call)) Call_Already_Used
           (unless (audit_witness e) No_Call_Witness None)))"

definition check_outcome ::
  "(pydict \<Rightarrow> bool) \<Rightarrow> pydict \<Rightarrow> item_state option \<Rightarrow> pydict list \<Rightarrow> door option" where
  "check_outcome audit_witness e st existing =
     unless (case st of None \<Rightarrow> False | Some s \<Rightarrow> it_auth s \<noteq> None) Not_Authorized
       (if event_kind e = ''write_failed'' then unless (short_str (dget e ''error'') 500) Bad_Error None
        else check_call audit_witness e existing)"

definition check_followup :: "pydict \<Rightarrow> item_state option \<Rightarrow> door option" where
  "check_followup e st =
     unless (event_kind e = ''kept'' \<longrightarrow>
               (case st of None \<Rightarrow> False | Some s \<Rightarrow> \<exists>l \<in> snd ` set (it_decisions s). ln_verdict l = Some ''held''))
       Not_Held
       (unless (event_kind e = ''mentioned'' \<longrightarrow>
                  (case st of None \<Rightarrow> False | Some s \<Rightarrow> it_completed s \<or> it_steps s \<noteq> []))
          Nothing_To_Mention None)"

definition item_now :: "readers \<Rightarrow> pydict list \<Rightarrow> string \<Rightarrow> item_state option" where
  "item_now R existing k =
     map_of (derive_state R (filter (\<lambda>x. dget x ''item_key'' = PStr k) existing)) k"

text \<open>\<open>None\<close> when the row may be appended, else the door it met.\<close>

definition validate_append ::
  "readers \<Rightarrow> (string \<Rightarrow> string \<Rightarrow> string) \<Rightarrow> (pydict \<Rightarrow> bool) \<Rightarrow> (pydict \<Rightarrow> bool) \<Rightarrow>
   pydict list \<Rightarrow> pydict \<Rightarrow> door option" where
  "validate_append R key_of send_witness audit_witness existing e =
     (let kind = event_kind e; st = item_now R existing (row_key e) in
      validate_identity key_of e
        ((if ''payload'' \<in> set (ALLOWED kind)
          then validate_payload kind (dget e ''payload'') (item_of e) (dget e ''skill'') else id)
           (unless (kind \<in> set WITNESSED_EVENTS \<longrightarrow> send_witness e) No_Send_Witness
              (if kind \<in> set RAISING_EVENTS then check_raise e st
               else if kind \<in> set VERDICT_EVENTS \<or> kind = ''step_started'' then check_answer R e st
               else if kind \<in> set OUTCOME_EVENTS then check_outcome audit_witness e st existing
               else if kind = ''step_ran'' then check_call audit_witness e existing
               else check_followup e st))))"

section \<open>The ledger as it grows\<close>

definition stamp_event :: "string \<Rightarrow> string \<Rightarrow> pydict \<Rightarrow> pydict" where
  "stamp_event ts ulid e =
     AList.update ''v'' (PInt 1) (AList.update ''id'' (PStr ulid) (AList.update ''ts'' (PStr ts) e))"

text \<open>A ledger built by validated appends, stamped by a clock that does not step back. The
  witnesses answer for the moment of each append.\<close>

inductive grown :: "readers \<Rightarrow> (string \<Rightarrow> string \<Rightarrow> string) \<Rightarrow> pydict list \<Rightarrow> bool" for R key_of where
  grown_empty: "grown R key_of []"
| grown_append:
    "grown R key_of L \<Longrightarrow> validate_append R key_of sends calls L e = None \<Longrightarrow> ts \<noteq> [] \<Longrightarrow>
     \<forall>x \<in> set L. ts_text R x \<le> ts \<Longrightarrow> grown R key_of (L @ [stamp_event ts ulid e])"

section \<open>Reading the state off the rows of an item\<close>

definition item_rows :: "string \<Rightarrow> pydict list \<Rightarrow> pydict list" where
  "item_rows k L = filter (\<lambda>x. dget x ''item_key'' = PStr k) L"

abbreviation item_fold :: "readers \<Rightarrow> pydict list \<Rightarrow> item_state" where
  "item_fold R F \<equiv> foldl (fold_row R) new_item F"

lemma dget_update: "dget (AList.update k v d) k' = (if k' = k then v else dget d k')"
  by (simp add: dget_def update_conv')

lemma stamp_field [simp]:
  "k \<noteq> ''ts'' \<Longrightarrow> k \<noteq> ''id'' \<Longrightarrow> k \<noteq> ''v'' \<Longrightarrow> dget (stamp_event ts u e) k = dget e k"
  by (simp add: stamp_event_def dget_update)

lemma stamp_ts [simp]: "ts \<noteq> [] \<Longrightarrow> ts_text R (stamp_event ts u e) = ts"
  by (simp add: ts_text_def text_or_def stamp_event_def dget_update)

lemma stamp_kind [simp]: "event_kind (stamp_event ts u e) = event_kind e"
  by (simp add: event_kind_def)

lemma stamp_key [simp]: "row_key (stamp_event ts u e) = row_key e"
  by (simp add: row_key_def)

lemma stamp_slot [simp]: "slot_of R (stamp_event ts u e) = slot_of R e"
  by (simp add: slot_of_def)

lemma grown_sorted: "grown R key_of L \<Longrightarrow> sorted (map (ts_text R) L)"
  by (induction rule: grown.induct) (auto simp: sorted_append)

lemma fold_into_item:
  assumes "\<forall>x \<in> set F. dget x ''item_key'' = PStr k" "k \<noteq> []"
  shows "map_of (foldl (fold_into R) [] F) k = (if F = [] then None else Some (item_fold R F))"
  using assms(1)
proof (induction F rule: rev_induct)
  case (snoc x F)
  then have "text_or R (dget x ''item_key'') = k" using assms(2) by (simp add: text_or_def)
  then show ?case using snoc assms(2) by (auto simp: fold_into_def update_conv' Let_def)
qed simp

lemma item_now_grown:
  assumes "grown R key_of L" "k \<noteq> []"
  shows "item_now R L k = (if item_rows k L = [] then None else Some (item_fold R (item_rows k L)))"
proof -
  have "sorted (map (ts_text R) (item_rows k L))"
    unfolding item_rows_def by (rule sorted_filter [OF grown_sorted [OF assms(1)]])
  then have "item_now R L k = map_of (foldl (fold_into R) [] (item_rows k L)) k"
    by (simp add: item_now_def derive_state_def item_rows_def sort_key_id_if_sorted)
  then show ?thesis using fold_into_item [of "item_rows k L" k R] assms(2) by (auto simp: item_rows_def)
qed

definition raising :: "pydict \<Rightarrow> bool" where
  "raising x \<longleftrightarrow> event_kind x \<in> set RAISING_EVENTS"

definition verdict :: "pydict \<Rightarrow> bool" where
  "verdict x \<longleftrightarrow> event_kind x \<in> set VERDICT_EVENTS"

definition outcome :: "pydict \<Rightarrow> bool" where
  "outcome x \<longleftrightarrow> event_kind x \<in> set OUTCOME_EVENTS"

lemmas row_kinds = raising_def verdict_def outcome_def RAISING_EVENTS_def VERDICT_EVENTS_def OUTCOME_EVENTS_def

lemma set_attrs_frame [simp]:
  "it_decisions (set_attrs R e s) = it_decisions s" "it_auth (set_attrs R e s) = it_auth s"
  "it_named (set_attrs R e s) = it_named s"
  by (simp_all add: set_attrs_def)

lemma row_exclusive:
  "raising e \<Longrightarrow> \<not> verdict e \<and> \<not> outcome e \<and> event_kind e \<noteq> ''step_started'' \<and> event_kind e \<noteq> ''closed_by_record''"
  "verdict e \<Longrightarrow> \<not> raising e \<and> \<not> outcome e \<and> event_kind e \<noteq> ''step_started'' \<and> event_kind e \<noteq> ''closed_by_record''"
  "outcome e \<Longrightarrow> \<not> raising e \<and> \<not> verdict e \<and> event_kind e \<noteq> ''step_started'' \<and> event_kind e \<noteq> ''closed_by_record''"
  by (auto simp: row_kinds)

lemma started_row:
  "event_kind e = ''step_started'' \<Longrightarrow>
     \<not> raising e \<and> \<not> verdict e \<and> \<not> outcome e"
  "event_kind e = ''closed_by_record'' \<Longrightarrow>
     \<not> raising e \<and> \<not> verdict e \<and> \<not> outcome e"
  by (auto simp: row_kinds)

text \<open>What one row does to the open authorization and to a line.\<close>

lemma fold_parts [simp]:
  "it_auth (fold_raise R e s) = it_auth s"
  "it_decisions (fold_raise R e s) = AList.update (slot_of R e) (raised_line e) (it_decisions s)"
  "it_auth (fold_outcome R e s) = None"
  "it_decisions (fold_outcome R e s) = it_decisions s"
  "it_auth (fold_verdict R e l s) =
     (if event_kind e = ''approved'' \<and> among (line_action l) WRITE_ACTIONS then Some ''approved'' else it_auth s)"
  "it_decisions (fold_verdict R e l s) =
     AList.update (slot_of R e)
       (l\<lparr>ln_verdict := Some (event_kind e), ln_verdict_ts := some_str (dget e ''ts''),
          ln_decided_by := some_dict (dget e ''decided_by'')\<rparr>) (it_decisions s)"
  by (simp_all add: fold_raise_def fold_outcome_def fold_verdict_def Let_def)

definition quiet_row :: "readers \<Rightarrow> pydict \<Rightarrow> item_state \<Rightarrow> item_state" where
  "quiet_row R e s =
     (if event_kind e = ''mentioned'' then s\<lparr>it_mentioned := True, it_steps := []\<rparr>
      else if event_kind e = ''step_ran''
      then s\<lparr>it_steps := it_steps s @
               [(dict_or_empty (dget (dict_or_empty (dget e ''payload'')) ''step''), day_of_row R e)]\<rparr>
      else if event_kind e = ''kept'' then s\<lparr>it_kept := True, it_kept_day := day_of_row R e\<rparr>
      else s)"

lemma quiet_row_frame [simp]:
  "it_auth (quiet_row R e s) = it_auth s" "it_decisions (quiet_row R e s) = it_decisions s"
  "it_named (quiet_row R e s) = it_named s"
  by (simp_all add: quiet_row_def)

lemma fold_row_cases:
  "fold_row R s e =
     (if raising e then fold_raise R e (set_attrs R e s)
      else if verdict e \<and> map_of (it_decisions s) (slot_of R e) \<noteq> None
      then fold_verdict R e (the (map_of (it_decisions s) (slot_of R e))) (set_attrs R e s)
      else if event_kind e = ''step_started'' \<and> map_of (it_decisions s) (slot_of R e) \<noteq> None
      then set_attrs R e s\<lparr>it_decisions := AList.update (slot_of R e)
             ((the (map_of (it_decisions s) (slot_of R e)))\<lparr>ln_started := True\<rparr>) (it_decisions s)\<rparr>
      else if event_kind e = ''closed_by_record''
      then set_attrs R e s\<lparr>it_auth := Some ''closed_by_record'', it_auth_line := None,
             it_record := some_dict (dget e ''payload'')\<rparr>
      else if outcome e then fold_outcome R e (set_attrs R e s)
      else quiet_row R e (set_attrs R e s))"
  by (simp only: fold_row_def Let_def raising_def verdict_def outcome_def quiet_row_def set_attrs_frame)

lemma fold_row_raise: "raising e \<Longrightarrow> fold_row R s e = fold_raise R e (set_attrs R e s)"
  by (simp only: fold_row_cases if_True)

lemma fold_row_verdict:
  assumes "verdict e" "map_of (it_decisions s) (slot_of R e) = Some l"
  shows "fold_row R s e = fold_verdict R e l (set_attrs R e s)"
  using assms row_exclusive(2) [OF assms(1)] by (simp add: fold_row_cases)

lemma fold_row_outcome: "outcome e \<Longrightarrow> fold_row R s e = fold_outcome R e (set_attrs R e s)"
  using row_exclusive(3) [of e] by (simp add: fold_row_cases)

lemma fold_row_started:
  assumes "event_kind e = ''step_started''" "map_of (it_decisions s) (slot_of R e) = Some l"
  shows "fold_row R s e =
       set_attrs R e s\<lparr>it_decisions := AList.update (slot_of R e) (l\<lparr>ln_started := True\<rparr>) (it_decisions s)\<rparr>"
  using assms started_row(1) [OF assms(1)] by (simp add: fold_row_cases)

lemma fold_row_rest:
  assumes "\<not> raising e" "\<not> outcome e"
    "verdict e \<or> event_kind e = ''step_started'' \<Longrightarrow> map_of (it_decisions s) (slot_of R e) = None"
  shows "it_decisions (fold_row R s e) = it_decisions s"
    "it_auth (fold_row R s e) =
       (if event_kind e = ''closed_by_record'' then Some ''closed_by_record'' else it_auth s)"
proof -
  have "\<not> (verdict e \<and> map_of (it_decisions s) (slot_of R e) \<noteq> None)"
    using assms(3) by auto
  moreover have "\<not> (event_kind e = ''step_started'' \<and> map_of (it_decisions s) (slot_of R e) \<noteq> None)"
    using assms(3) by auto
  ultimately have "fold_row R s e =
      (if event_kind e = ''closed_by_record''
       then set_attrs R e s\<lparr>it_auth := Some ''closed_by_record'', it_auth_line := None,
              it_record := some_dict (dget e ''payload'')\<rparr>
       else quiet_row R e (set_attrs R e s))"
    using assms(1,2) by (simp only: fold_row_cases if_False)
  then show "it_decisions (fold_row R s e) = it_decisions s"
    "it_auth (fold_row R s e) =
       (if event_kind e = ''closed_by_record'' then Some ''closed_by_record'' else it_auth s)" by simp_all
qed

lemma row_cases:
  obtains (raise) "raising e" | (verdict) l where "verdict e" "m (slot_of R e) = Some l"
    | (outcome) "outcome e" | (started) l where "event_kind e = ''step_started''" "m (slot_of R e) = Some l"
    | (rest) "\<not> raising e" "\<not> outcome e" "verdict e \<or> event_kind e = ''step_started'' \<Longrightarrow> m (slot_of R e) = None"
  by (cases "m (slot_of R e)") auto

lemma fold_row_auth:
  "it_auth (fold_row R s e) =
     (if verdict e then
        (case map_of (it_decisions s) (slot_of R e) of
           Some l \<Rightarrow> if event_kind e = ''approved'' \<and> among (line_action l) WRITE_ACTIONS
                      then Some ''approved'' else it_auth s
         | None \<Rightarrow> it_auth s)
      else if event_kind e = ''closed_by_record'' then Some ''closed_by_record''
      else if outcome e then None else it_auth s)"
proof (rule row_cases [where e = e and m = "map_of (it_decisions s)" and R = R])
  assume raise: "raising e"
  then show ?thesis using row_exclusive(1) [OF raise] by (simp add: fold_row_raise)
next
  fix l
  assume verdict: "verdict e" "map_of (it_decisions s) (slot_of R e) = Some l"
  then show ?thesis using row_exclusive(2) [OF verdict(1)] by (simp add: fold_row_verdict)
next
  assume outcome: "outcome e"
  then show ?thesis using row_exclusive(3) [OF outcome] by (simp add: fold_row_outcome)
next
  fix l
  assume started: "event_kind e = ''step_started''" "map_of (it_decisions s) (slot_of R e) = Some l"
  then show ?thesis using started_row(1) [OF started(1)] by (simp add: fold_row_started)
next
  assume rest: "\<not> raising e" "\<not> outcome e"
    "verdict e \<or> event_kind e = ''step_started'' \<Longrightarrow> map_of (it_decisions s) (slot_of R e) = None"
  show ?thesis using rest row_exclusive(2) [of e] by (simp add: fold_row_rest(2) [OF rest])
qed

lemma fold_row_line:
  "map_of (it_decisions (fold_row R s e)) sl =
     (if raising e \<and> slot_of R e = sl then Some (raised_line e)
      else if verdict e \<and> slot_of R e = sl then
        map_option (\<lambda>l. l\<lparr>ln_verdict := Some (event_kind e), ln_verdict_ts := some_str (dget e ''ts''),
          ln_decided_by := some_dict (dget e ''decided_by'')\<rparr>) (map_of (it_decisions s) sl)
      else if event_kind e = ''step_started'' \<and> slot_of R e = sl then
        map_option (\<lambda>l. l\<lparr>ln_started := True\<rparr>) (map_of (it_decisions s) sl)
      else map_of (it_decisions s) sl)"
proof (rule row_cases [where e = e and m = "map_of (it_decisions s)" and R = R])
  assume raise: "raising e"
  then show ?thesis using row_exclusive(1) [OF raise] by (simp add: fold_row_raise update_conv')
next
  fix l
  assume verdict: "verdict e" "map_of (it_decisions s) (slot_of R e) = Some l"
  then show ?thesis using row_exclusive(2) [OF verdict(1)] by (auto simp: fold_row_verdict update_conv')
next
  assume outcome: "outcome e"
  then show ?thesis using row_exclusive(3) [OF outcome] by (simp add: fold_row_outcome)
next
  fix l
  assume started: "event_kind e = ''step_started''" "map_of (it_decisions s) (slot_of R e) = Some l"
  then show ?thesis using started_row(1) [OF started(1)] by (auto simp: fold_row_started update_conv')
next
  assume rest: "\<not> raising e" "\<not> outcome e"
    "verdict e \<or> event_kind e = ''step_started'' \<Longrightarrow> map_of (it_decisions s) (slot_of R e) = None"
  show ?thesis using rest(1) rest(3) by (auto simp: fold_row_rest(1) [OF rest])
qed

text \<open>The line in a slot is the last raise there, and is open while no verdict followed it.\<close>

definition line_from :: "readers \<Rightarrow> slot \<Rightarrow> pydict list \<Rightarrow> line \<Rightarrow> bool" where
  "line_from R sl F l \<longleftrightarrow>
     (\<exists>C h D. F = C @ h # D \<and> raising h \<and> slot_of R h = sl \<and>
        ln_payload l = dict_or_empty (dget h ''payload'') \<and>
        (\<forall>x \<in> set D. \<not> (raising x \<and> slot_of R x = sl)) \<and>
        (ln_verdict l = None \<longrightarrow> (\<forall>x \<in> set D. \<not> (verdict x \<and> slot_of R x = sl))))"

lemma line_from_snoc:
  assumes "line_from R sl F l" "\<not> (raising e \<and> slot_of R e = sl)" "ln_payload l' = ln_payload l"
    "ln_verdict l' = None \<Longrightarrow> ln_verdict l = None \<and> \<not> (verdict e \<and> slot_of R e = sl)"
  shows "line_from R sl (F @ [e]) l'"
proof -
  obtain C h D where h: "F = C @ h # D" "raising h" "slot_of R h = sl"
      "ln_payload l = dict_or_empty (dget h ''payload'')" "\<forall>x \<in> set D. \<not> (raising x \<and> slot_of R x = sl)"
      "ln_verdict l = None \<longrightarrow> (\<forall>x \<in> set D. \<not> (verdict x \<and> slot_of R x = sl))"
    using assms(1) unfolding line_from_def by (elim exE conjE) (rule that)
  have "F @ [e] = C @ h # (D @ [e])" using h(1) by simp
  moreover have "\<forall>x \<in> set (D @ [e]). \<not> (raising x \<and> slot_of R x = sl)" using h(5) assms(2) by auto
  moreover have "ln_verdict l' = None \<longrightarrow> (\<forall>x \<in> set (D @ [e]). \<not> (verdict x \<and> slot_of R x = sl))"
    using h(6) assms(4) by auto
  ultimately show ?thesis unfolding line_from_def using h(2-4) assms(3)
    by (intro exI [of _ C] exI [of _ h] exI [of _ "D @ [e]"]) (simp only: simp_thms)
qed

lemma line_of_fold:
  "map_of (it_decisions (item_fold R F)) sl = Some l \<Longrightarrow> line_from R sl F l"
proof (induction F arbitrary: l rule: rev_induct)
  case Nil
  then show ?case by (simp add: new_item_def)
next
  case (snoc e F)
  let ?s = "item_fold R F"
  show ?case
  proof (cases "raising e \<and> slot_of R e = sl")
    case True
    then have "l = raised_line e" using snoc.prems by (simp add: fold_row_line)
    then have "ln_payload l = dict_or_empty (dget e ''payload'')" by (simp add: raised_line_def)
    then show ?thesis
      unfolding line_from_def using True by (intro exI [of _ F] exI [of _ e] exI [of _ "[]"]) simp
  next
    case False
    obtain l0 where l0: "map_of (it_decisions ?s) sl = Some l0" "ln_payload l = ln_payload l0"
        "ln_verdict l = None \<Longrightarrow> ln_verdict l0 = None \<and> \<not> (verdict e \<and> slot_of R e = sl)"
    proof (cases "verdict e \<and> slot_of R e = sl")
      case True
      then show ?thesis using snoc.prems False that by (auto simp: fold_row_line)
    next
      case v: False
      show ?thesis
      proof (cases "event_kind e = ''step_started'' \<and> slot_of R e = sl")
        case True
        then show ?thesis using snoc.prems False v that by (auto simp: fold_row_line)
      next
        case st: False
        then show ?thesis using snoc.prems False v that by (auto simp: fold_row_line)
      qed
    qed
    show ?thesis
      by (rule line_from_snoc [OF snoc.IH [OF l0(1)] False l0(2)]) (use l0(3) in blast)
  qed
qed

section \<open>What licenses a write\<close>

definition row_action :: "pydict \<Rightarrow> pyval" where
  "row_action x = dget (dict_or_empty (dget x ''payload'')) ''action''"

definition row_class :: "pydict \<Rightarrow> pyval" where
  "row_class x = dget (dict_or_empty (dget x ''payload'')) ''class''"

text \<open>\<open>a\<close> answers the raise \<open>h\<close>: the same item and slot, and nothing raised or answered there
  since.\<close>

definition answers :: "readers \<Rightarrow> pydict list \<Rightarrow> pydict \<Rightarrow> pydict \<Rightarrow> bool" where
  "answers R A h a \<longleftrightarrow>
     (\<exists>C D. A = C @ h # D \<and> raising h \<and> row_key h = row_key a \<and> slot_of R h = slot_of R a \<and>
        (\<forall>x \<in> set D. row_key x = row_key a \<and> slot_of R x = slot_of R a \<longrightarrow> \<not> raising x \<and> \<not> verdict x))"

definition licenses :: "readers \<Rightarrow> pydict list \<Rightarrow> pydict \<Rightarrow> bool" where
  "licenses R A a \<longleftrightarrow>
     event_kind a = ''closed_by_record'' \<and> row_action a = PStr ''close'' \<and> row_class a = PStr ''done'' \<or>
     event_kind a = ''approved'' \<and>
       (\<exists>h. answers R A h a \<and> among (row_action h) WRITE_ACTIONS \<and>
          (row_action h = PStr ''close'' \<longrightarrow> row_class h \<noteq> PStr ''at_stake'') \<and>
          (row_action h = PStr ''complete'' \<longrightarrow>
             dget h ''skill'' = PStr COMPLETE_SKILL \<and> dget a ''decided_by'' \<noteq> PNone))"

text \<open>The write \<open>r\<close> has a license among the rows before it that no other write has spent.\<close>

definition licensed_write :: "readers \<Rightarrow> pydict list \<Rightarrow> pydict \<Rightarrow> bool" where
  "licensed_write R A r \<longleftrightarrow>
     (\<exists>A1 a A2. A = A1 @ a # A2 \<and> row_key a = row_key r \<and> licenses R A1 a \<and>
        (\<forall>x \<in> set A2. row_key x = row_key r \<longrightarrow> \<not> outcome x))"

lemma auth_of_fold:
  "it_auth (item_fold R F) \<noteq> None \<Longrightarrow>
     \<exists>C a D. F = C @ a # D \<and> (\<forall>x \<in> set D. \<not> outcome x) \<and>
       (event_kind a = ''closed_by_record'' \<or>
        event_kind a = ''approved'' \<and>
          (\<exists>l. map_of (it_decisions (item_fold R C)) (slot_of R a) = Some l \<and>
               among (line_action l) WRITE_ACTIONS))"
proof (induction F rule: rev_induct)
  case Nil
  then show ?case by (simp add: new_item_def)
next
  case (snoc e F)
  let ?s = "item_fold R F"
  let ?opens = "\<lambda>C a. event_kind a = ''closed_by_record'' \<or> event_kind a = ''approved'' \<and>
          (\<exists>l. map_of (it_decisions (item_fold R C)) (slot_of R a) = Some l \<and>
               among (line_action l) WRITE_ACTIONS)"
  have auth: "it_auth (fold_row R ?s e) \<noteq> None" using snoc.prems by simp
  show ?case
  proof (cases "?opens F e")
    case True
    then show ?thesis by (intro exI [of _ F] exI [of _ e] exI [of _ "[]"]) simp
  next
    case False
    have "\<not> outcome e" "it_auth ?s \<noteq> None"
      using auth False row_exclusive(2,3) [of e]
      by (auto simp: fold_row_auth split: if_splits option.splits)
    then obtain C a D where cad: "F = C @ a # D" "\<forall>x \<in> set D. \<not> outcome x" "?opens C a"
      using snoc.IH [OF \<open>it_auth ?s \<noteq> None\<close>] by (elim exE conjE) (rule that)
    have "F @ [e] = C @ a # (D @ [e])" "\<forall>x \<in> set (D @ [e]). \<not> outcome x"
      using cad(1,2) \<open>\<not> outcome e\<close> by simp_all
    then show ?thesis using cad(3) by (intro exI [of _ C] exI [of _ a] exI [of _ "D @ [e]"]) (rule conjI, assumption)+
  qed
qed

lemma filter_split:
  "filter P L = C @ a # D \<Longrightarrow> \<exists>A B. L = A @ a # B \<and> filter P A = C \<and> filter P B = D"
proof (induction L arbitrary: C)
  case (Cons x L)
  show ?case
  proof (cases "P x \<and> C = []")
    case True
    then have "x = a" "filter P L = D" using Cons.prems by simp_all
    then show ?thesis using True by (intro exI [of _ "[]"] exI [of _ L]) simp
  next
    case False
    define C' where "C' = (if P x then tl C else C)"
    have "filter P L = C' @ a # D" using Cons.prems False by (cases C) (auto simp: C'_def split: if_splits)
    then obtain A B where "L = A @ a # B" "filter P A = C'" "filter P B = D" using Cons.IH by blast
    then show ?thesis using Cons.prems False
      by (intro exI [of _ "x # A"] exI [of _ B]) (cases C; auto simp: C'_def split: if_splits)
  qed
qed simp

text \<open>What an accepted row met.\<close>

lemma unless_None [simp]: "(unless b d rest = None) = (b \<and> rest = None)"
  by (simp add: unless_def)

lemma identity_ok:
  assumes "validate_identity key_of e rest = None"
  shows "rest = None \<and> (\<exists>m s. dget e ''item_key'' = PStr (key_of m s))"
proof -
  obtain k where k: "dget e ''kind'' = PStr k" "k \<in> set ITEM_KINDS"
    using assms by (cases "dget e ''kind''") (auto simp: validate_identity_def)
  then obtain m s where ms: "dget e ''matter_id'' = PStr m" "dget e ''source_id'' = PStr s"
    using assms
    by (cases "dget e ''matter_id''"; cases "dget e ''source_id''") (auto simp: validate_identity_def)
  then have "rest = None" "map_option PStr (item_key key_of m k s) = Some (dget e ''item_key'')"
    using assms k by (simp_all add: validate_identity_def)
  then show ?thesis by (auto simp: item_key_def split: if_splits intro!: exI dest: sym)
qed

lemma payload_ok:
  assumes "validate_payload kind v item skill rest = None"
  shows "\<exists>p. v = PDict p \<and> rest = None \<and>
     \<not> (dget p ''action'' = PStr ''close'' \<and> dget p ''class'' = PStr ''at_stake'') \<and>
     (dget p ''action'' = PStr ''complete'' \<longrightarrow> skill = PStr COMPLETE_SKILL) \<and>
     (kind = ''closed_by_record'' \<longrightarrow> dget p ''action'' = PStr ''close'' \<and> dget p ''class'' = PStr ''done'')"
proof (cases v)
  case (PDict p)
  show ?thesis
    using assms PDict
    by (cases "dget p ''action'' = PStr ''complete''")
       (auto simp: validate_payload_def Let_def check_complete_def check_kind_shape_def)
qed (use assms in \<open>simp_all add: validate_payload_def\<close>)

lemma row_payload_ok:
  assumes "validate_payload kind (dget e ''payload'') item (dget e ''skill'') rest = None"
  shows "rest = None \<and> \<not> (row_action e = PStr ''close'' \<and> row_class e = PStr ''at_stake'') \<and>
     (row_action e = PStr ''complete'' \<longrightarrow> dget e ''skill'' = PStr COMPLETE_SKILL) \<and>
     (kind = ''closed_by_record'' \<longrightarrow> row_action e = PStr ''close'' \<and> row_class e = PStr ''done'')"
  using payload_ok [OF assms] by (auto simp: row_action_def row_class_def dict_or_empty_def)

lemma payload_kinds: "''payload'' \<in> set (ALLOWED kind) \<longleftrightarrow>
    kind \<in> set RAISING_EVENTS \<or> kind = ''closed_by_record'' \<or> kind = ''step_ran''"
  by (auto simp: ALLOWED_def COMMON_def RAISING_EVENTS_def VERDICT_EVENTS_def)

lemma accepted_tail:
  assumes ok: "validate_append R key_of sends calls L e = None"
  shows "(if raising e then check_raise e (item_now R L (row_key e))
    else if verdict e \<or> event_kind e = ''step_started'' then check_answer R e (item_now R L (row_key e))
    else if outcome e then check_outcome calls e (item_now R L (row_key e)) L
    else if event_kind e = ''step_ran'' then check_call calls e L
    else check_followup e (item_now R L (row_key e))) = None"
  "raising e \<or> event_kind e = ''closed_by_record'' \<Longrightarrow>
     \<not> (row_action e = PStr ''close'' \<and> row_class e = PStr ''at_stake'') \<and>
     (row_action e = PStr ''complete'' \<longrightarrow> dget e ''skill'' = PStr COMPLETE_SKILL) \<and>
     (event_kind e = ''closed_by_record'' \<longrightarrow> row_action e = PStr ''close'' \<and> row_class e = PStr ''done'')"
proof -
  let ?rest = "unless (event_kind e \<in> set WITNESSED_EVENTS \<longrightarrow> sends e) No_Send_Witness
   (if raising e then check_raise e (item_now R L (row_key e))
    else if verdict e \<or> event_kind e = ''step_started'' then check_answer R e (item_now R L (row_key e))
    else if outcome e then check_outcome calls e (item_now R L (row_key e)) L
    else if event_kind e = ''step_ran'' then check_call calls e L
    else check_followup e (item_now R L (row_key e)))"
  have p: "(if raising e \<or> event_kind e = ''closed_by_record'' \<or> event_kind e = ''step_ran''
        then validate_payload (event_kind e) (dget e ''payload'') (item_of e) (dget e ''skill'') else id) ?rest = None"
    using identity_ok [OF ok [unfolded validate_append_def Let_def]]
    unfolding payload_kinds raising_def verdict_def outcome_def by (rule conjunct1)
  have rest: "?rest = None"
  proof (cases "raising e \<or> event_kind e = ''closed_by_record'' \<or> event_kind e = ''step_ran''")
    case True
    then show ?thesis using row_payload_ok p by (simp only: if_True)
  next
    case False
    then show ?thesis using p by (simp only: if_False id_apply)
  qed
  then show "(if raising e then check_raise e (item_now R L (row_key e))
    else if verdict e \<or> event_kind e = ''step_started'' then check_answer R e (item_now R L (row_key e))
    else if outcome e then check_outcome calls e (item_now R L (row_key e)) L
    else if event_kind e = ''step_ran'' then check_call calls e L
    else check_followup e (item_now R L (row_key e))) = None"
    by (simp only: unless_None)
  assume "raising e \<or> event_kind e = ''closed_by_record''"
  then have "validate_payload (event_kind e) (dget e ''payload'') (item_of e) (dget e ''skill'') ?rest = None"
    using p by (simp only: if_True simp_thms disj_assoc [symmetric])
  from row_payload_ok [OF this] show "\<not> (row_action e = PStr ''close'' \<and> row_class e = PStr ''at_stake'') \<and>
     (row_action e = PStr ''complete'' \<longrightarrow> dget e ''skill'' = PStr COMPLETE_SKILL) \<and>
     (event_kind e = ''closed_by_record'' \<longrightarrow> row_action e = PStr ''close'' \<and> row_class e = PStr ''done'')"
    by (rule conjunct2)
qed

lemma accepted_key:
  assumes ok: "validate_append R key_of sends calls L e = None"
  shows "\<exists>m s. dget e ''item_key'' = PStr (key_of m s)"
  using identity_ok [OF ok [unfolded validate_append_def Let_def]] by (rule conjunct2)

lemma accepted_verdict:
  assumes ok: "validate_append R key_of sends calls L e = None" and "verdict e"
  shows "\<exists>l. line_in R e (item_now R L (row_key e)) = Some l \<and> ln_verdict l = None \<and>
     (event_kind e = ''approved'' \<and> line_action l = PStr ''complete'' \<longrightarrow> dget e ''decided_by'' \<noteq> PNone)"
proof -
  have "check_answer R e (item_now R L (row_key e)) = None" "event_kind e \<noteq> ''step_started''"
    using accepted_tail(1) [OF ok] assms(2) row_exclusive(2) [OF assms(2)] by (simp_all only: if_True if_False simp_thms)
  then show ?thesis by (auto simp: check_answer_def split: option.splits)
qed

lemma accepted_outcome:
  assumes ok: "validate_append R key_of sends calls L e = None" and "outcome e"
  shows "\<exists>s. item_now R L (row_key e) = Some s \<and> it_auth s \<noteq> None"
proof -
  have "check_outcome calls e (item_now R L (row_key e)) L = None"
    using accepted_tail(1) [OF ok] assms(2) row_exclusive(3) [OF assms(2)] by (simp_all only: if_True if_False simp_thms)
  then show ?thesis by (auto simp: check_outcome_def split: option.splits)
qed

lemma accepted_call:
  assumes ok: "validate_append R key_of sends calls L e = None" and "event_kind e = ''completed'' \<or> event_kind e = ''step_ran''"
  shows "\<forall>x \<in> set L. dget x ''tool_call_id'' \<noteq> dget e ''tool_call_id''"
proof -
  have "check_call calls e L = None"
  proof (cases "event_kind e = ''completed''")
    case True
    then have "outcome e" by (simp add: row_kinds)
    then have "check_outcome calls e (item_now R L (row_key e)) L = None"
      using accepted_tail(1) [OF ok] row_exclusive(3) [of e] by (simp_all only: if_True if_False simp_thms)
    then show ?thesis using True by (simp add: check_outcome_def)
  next
    case False
    then have "event_kind e = ''step_ran''" using assms(2) by simp
    moreover from this have "\<not> raising e" "\<not> verdict e" "\<not> outcome e" by (auto simp: row_kinds)
    ultimately show ?thesis using accepted_tail(1) [OF ok] by simp
  qed
  then show ?thesis by (auto simp: check_call_def Let_def)
qed

lemma grown_at:
  "grown R key_of L \<Longrightarrow> L = A @ r # B \<Longrightarrow>
     grown R key_of A \<and>
     (\<exists>e sends calls ts u. r = stamp_event ts u e \<and> validate_append R key_of sends calls A e = None)"
proof (induction arbitrary: B rule: grown.induct)
  case (grown_append L sends calls e ts ulid)
  show ?case
  proof (cases B rule: rev_cases)
    case Nil
    then have "L = A" "r = stamp_event ts ulid e" using grown_append.prems by simp_all
    then show ?thesis using grown_append.hyps(1,2) by blast
  next
    case (snoc B' b)
    then have "L = A @ r # B'" using grown_append.prems by simp
    then show ?thesis by (rule grown_append.IH)
  qed
qed simp

lemma grown_key:
  assumes "grown R key_of L" "\<forall>m s. key_of m s \<noteq> []" "x \<in> set L"
  shows "dget x ''item_key'' = PStr (row_key x) \<and> row_key x \<noteq> []"
proof -
  obtain A B where "L = A @ x # B" using split_list [OF assms(3)] by blast
  then obtain e sends calls ts u where e: "x = stamp_event ts u e" "validate_append R key_of sends calls A e = None"
    using grown_at [OF assms(1)] by blast
  obtain m s where "dget e ''item_key'' = PStr (key_of m s)" using accepted_key [OF e(2)] by blast
  then show ?thesis using e(1) assms(2) by (simp add: row_key_def)
qed

lemma item_rows_grown:
  assumes "grown R key_of L" "\<forall>m s. key_of m s \<noteq> []"
  shows "item_rows k L = filter (\<lambda>x. row_key x = k) L"
  unfolding item_rows_def using grown_key [OF assms] by (intro filter_cong) auto

text \<open>An open line found for an answer is a raise the answer meets.\<close>

lemma open_line_answers:
  assumes g: "grown R key_of A" "\<forall>m s. key_of m s \<noteq> []"
    and l: "map_of (it_decisions (item_fold R (item_rows k A))) (slot_of R a) = Some l" "ln_verdict l = None"
    and k: "row_key a = k"
  shows "\<exists>h. answers R A h a \<and> line_action l = row_action h \<and> h \<in> set A"
proof -
  obtain C h D where chd: "item_rows k A = C @ h # D" "raising h" "slot_of R h = slot_of R a"
      "ln_payload l = dict_or_empty (dget h ''payload'')"
      "\<forall>x \<in> set D. \<not> (raising x \<and> slot_of R x = slot_of R a)"
      "ln_verdict l = None \<longrightarrow> (\<forall>x \<in> set D. \<not> (verdict x \<and> slot_of R x = slot_of R a))"
    using line_of_fold [OF l(1)] unfolding line_from_def by (elim exE conjE) (rule that)
  have f: "filter (\<lambda>x. row_key x = k) A = C @ h # D" using chd(1) item_rows_grown [OF g] by simp
  obtain A1 A2 where sp: "A = A1 @ h # A2" "filter (\<lambda>x. row_key x = k) A2 = D"
    using filter_split [OF f] by (elim exE conjE) (rule that)
  have "h \<in> set (filter (\<lambda>x. row_key x = k) A)"
    using f by simp
  then have hk: "row_key h = k" by simp
  have none: "\<forall>x \<in> set A2. row_key x = row_key a \<and> slot_of R x = slot_of R a \<longrightarrow> \<not> raising x \<and> \<not> verdict x"
  proof (intro ballI impI)
    fix x assume x: "x \<in> set A2" "row_key x = row_key a \<and> slot_of R x = slot_of R a"
    then have "x \<in> set D" using sp(2) k by auto
    then show "\<not> raising x \<and> \<not> verdict x" using chd(5,6) l(2) x(2) by blast
  qed
  have "answers R A h a"
    unfolding answers_def using sp(1) chd(2,3) hk k none
    by (intro exI [of _ A1] exI [of _ A2]) simp
  moreover have "line_action l = row_action h" by (simp add: line_action_def row_action_def chd(4))
  ultimately show ?thesis using sp(1) by (intro exI [of _ h]) simp
qed

lemma verdict_answers:
  assumes g: "grown R key_of L" "\<forall>m s. key_of m s \<noteq> []" and r: "L = A @ r # B" "verdict r"
  shows "\<exists>h. answers R A h r \<and> h \<in> set A \<and>
    map_option line_action (map_of (it_decisions (item_fold R (item_rows (row_key r) A))) (slot_of R r)) =
      Some (row_action h) \<and>
    (event_kind r = ''approved'' \<and> row_action h = PStr ''complete'' \<longrightarrow> dget r ''decided_by'' \<noteq> PNone)"
proof -
  obtain e sends calls ts u where e: "r = stamp_event ts u e" "validate_append R key_of sends calls A e = None"
    and gA: "grown R key_of A" using grown_at [OF g(1) r(1)] by blast
  have ve: "verdict e" using r(2) e(1) by (simp add: verdict_def)
  have same: "row_key r = row_key e" "slot_of R r = slot_of R e" "event_kind r = event_kind e"
    "dget r ''decided_by'' = dget e ''decided_by''" by (simp_all add: e(1))
  have k: "row_key e \<noteq> []" using grown_key [OF g, of r] r(1) same(1) by simp
  obtain l where l: "line_in R e (item_now R A (row_key e)) = Some l" "ln_verdict l = None"
      "event_kind e = ''approved'' \<and> line_action l = PStr ''complete'' \<longrightarrow> dget e ''decided_by'' \<noteq> PNone"
    using accepted_verdict [OF e(2) ve] by blast
  have "map_of (it_decisions (item_fold R (item_rows (row_key e) A))) (slot_of R e) = Some l"
    using l(1) unfolding item_now_grown [OF gA k] line_in_def by (auto split: if_splits)
  from open_line_answers [OF gA g(2) this [folded same(1,2)] l(2) refl] this l(3) show ?thesis
    unfolding same by auto
qed

lemma outcome_licensed:
  assumes g: "grown R key_of L" "\<forall>m s. key_of m s \<noteq> []" and r: "L = A @ r # B" "outcome r"
  shows "\<exists>A1 a A2. A = A1 @ a # A2 \<and> row_key a = row_key r \<and> licenses R A1 a \<and>
    (\<forall>x \<in> set A2. row_key x = row_key r \<longrightarrow> \<not> outcome x)"
proof -
  let ?k = "row_key r"
  obtain e sends calls ts u where e: "r = stamp_event ts u e" "validate_append R key_of sends calls A e = None"
    and gA: "grown R key_of A" using grown_at [OF g(1) r(1)] by blast
  have oe: "outcome e" using r(2) e(1) by (simp add: outcome_def)
  have same: "row_key e = ?k" by (simp add: e(1))
  have k: "?k \<noteq> []" using grown_key [OF g, of r] r(1) by simp
  have auth: "it_auth (item_fold R (item_rows ?k A)) \<noteq> None"
    using accepted_outcome [OF e(2) oe] unfolding same item_now_grown [OF gA k] by (auto split: if_splits)
  obtain C a D where cad: "item_rows ?k A = C @ a # D" "\<forall>x \<in> set D. \<not> outcome x"
      "event_kind a = ''closed_by_record'' \<or> event_kind a = ''approved'' \<and>
          (\<exists>l. map_of (it_decisions (item_fold R C)) (slot_of R a) = Some l \<and>
               among (line_action l) WRITE_ACTIONS)"
    using auth_of_fold [OF auth] by (elim exE conjE) (rule that)
  have f: "filter (\<lambda>x. row_key x = ?k) A = C @ a # D" using cad(1) item_rows_grown [OF gA g(2)] by simp
  obtain A1 A2 where sp: "A = A1 @ a # A2" "filter (\<lambda>x. row_key x = ?k) A1 = C"
      "filter (\<lambda>x. row_key x = ?k) A2 = D"
    using filter_split [OF f] by (elim exE conjE) (rule that)
  have gA1: "grown R key_of A1" using grown_at [OF gA sp(1)] by blast
  have "a \<in> set (filter (\<lambda>x. row_key x = ?k) A)" using f by simp
  then have ak: "row_key a = ?k" by simp
  have C: "item_rows ?k A1 = C" using sp(2) item_rows_grown [OF gA1 g(2)] by simp
  obtain e' sends' calls' ts' u' where e': "a = stamp_event ts' u' e'"
      "validate_append R key_of sends' calls' A1 e' = None"
    using grown_at [OF gA sp(1)] by blast
  have "licenses R A1 a"
  proof (cases "event_kind a = ''closed_by_record''")
    case True
    then have "event_kind e' = ''closed_by_record''" "row_action e' = row_action a" "row_class e' = row_class a"
      by (simp_all add: e'(1) row_action_def row_class_def)
    then show ?thesis unfolding licenses_def using accepted_tail(2) [OF e'(2)] True by auto
  next
    case False
    then have app: "event_kind a = ''approved''" using cad(3) by blast
    then have v: "verdict a" by (simp add: row_kinds)
    obtain h where h: "answers R A1 h a" "h \<in> set A1"
        "map_option line_action (map_of (it_decisions (item_fold R C)) (slot_of R a)) = Some (row_action h)"
        "row_action h = PStr ''complete'' \<longrightarrow> dget a ''decided_by'' \<noteq> PNone"
      using verdict_answers [OF gA g(2) sp(1) v] app unfolding ak C by blast
    have rh: "raising h" using h(1) unfolding answers_def by (elim exE conjE) assumption
    obtain P Q where "A1 = P @ h # Q" using split_list [OF h(2)] by blast
    then obtain e2 sends2 calls2 ts2 u2 where e2: "h = stamp_event ts2 u2 e2"
        "validate_append R key_of sends2 calls2 P e2 = None"
      using grown_at [OF gA1] by blast
    have "raising e2" "row_action e2 = row_action h" "row_class e2 = row_class h" "dget e2 ''skill'' = dget h ''skill''"
      using rh by (simp_all add: e2(1) row_action_def row_class_def raising_def)
    then have fine: "\<not> (row_action h = PStr ''close'' \<and> row_class h = PStr ''at_stake'')"
        "row_action h = PStr ''complete'' \<longrightarrow> dget h ''skill'' = PStr COMPLETE_SKILL"
      using accepted_tail(2) [OF e2(2)] by simp_all
    have "among (row_action h) WRITE_ACTIONS" using cad(3) False h(3) by auto
    then show ?thesis unfolding licenses_def using app h(1,4) fine by blast
  qed
  moreover have "\<forall>x \<in> set A2. row_key x = ?k \<longrightarrow> \<not> outcome x" using cad(2) sp(3) by auto
  ultimately show ?thesis using sp(1) ak by (intro exI [of _ A1] exI [of _ a] exI [of _ A2]) (simp only: simp_thms)
qed

lemma calls_distinct:
  assumes "grown R key_of L"
  shows "distinct (map (\<lambda>x. dget x ''tool_call_id'')
     (filter (\<lambda>x. event_kind x \<in> {''completed'', ''step_ran''}) L))"
  using assms
proof (induction rule: grown.induct)
  case (grown_append L sends calls e ts ulid)
  then show ?case using accepted_call [OF grown_append.hyps(2)] by auto
qed simp

text \<open>The licenses count the writes: an outcome spends the open authorization.\<close>

definition spendable :: "pydict \<Rightarrow> bool" where
  "spendable x \<longleftrightarrow> event_kind x = ''approved'' \<or> event_kind x = ''closed_by_record''"

lemma auth_counts:
  assumes "grown R key_of L" "\<forall>m s. key_of m s \<noteq> []" "k \<noteq> []"
  shows "length (filter outcome (item_rows k L)) +
      (if it_auth (item_fold R (item_rows k L)) = None then 0 else 1) \<le> length (filter spendable (item_rows k L))"
  using assms(1)
proof (induction rule: grown.induct)
  case grown_empty
  then show ?case by (simp add: item_rows_def new_item_def)
next
  case (grown_append L sends calls e ts u)
  let ?F = "item_rows k L" and ?r = "stamp_event ts u e"
  show ?case
  proof (cases "row_key e = k")
    case False
    moreover have "dget e ''item_key'' = PStr (row_key e)"
      using accepted_key [OF grown_append.hyps(2)] by (auto simp: row_key_def)
    ultimately show ?thesis using grown_append.IH by (simp add: item_rows_def)
  next
    case True
    have "dget e ''item_key'' = PStr (row_key e)"
      using accepted_key [OF grown_append.hyps(2)] by (auto simp: row_key_def)
    then have F: "item_rows k (L @ [?r]) = ?F @ [?r]" using True by (simp add: item_rows_def)
    show ?thesis
    proof (cases "outcome e")
      case o: True
      then obtain v where "it_auth (item_fold R ?F) = Some v"
        using accepted_outcome [OF grown_append.hyps(2) o] True
        unfolding True item_now_grown [OF grown_append.hyps(1) assms(3)] by (auto split: if_splits)
      moreover have "outcome ?r" "\<not> spendable ?r" "\<not> verdict ?r"
        "event_kind ?r \<noteq> ''closed_by_record''" using o by (auto simp: row_kinds spendable_def)
      ultimately show ?thesis using grown_append.IH F by (simp add: fold_row_auth)
    next
      case no: False
      then have "\<not> outcome ?r" by (simp add: outcome_def)
      moreover have "spendable ?r \<or> it_auth (fold_row R (item_fold R ?F) ?r) = it_auth (item_fold R ?F)"
        using no by (auto simp: fold_row_auth spendable_def outcome_def split: option.splits)
      ultimately show ?thesis using grown_append.IH F by (auto split: if_splits)
    qed
  qed
qed

section \<open>A ledger\<close>

definition demo_readers :: readers where
  "demo_readers = \<lparr>rd_str = (\<lambda>_. ''None''), rd_day = (\<lambda>_. None)\<rparr>"

definition demo_key :: "string \<Rightarrow> string \<Rightarrow> string" where
  "demo_key m s = ''k'' @ m @ s"

definition demo_row :: "string \<Rightarrow> pydict \<Rightarrow> pydict" where
  "demo_row ev rest =
     [(''event'', PStr ev), (''skill'', PStr ''close-out''), (''matter_id'', PStr ''42''),
      (''kind'', PStr ''task''), (''source_id'', PStr ''7''), (''item_key'', PStr ''k42__cm_task:7'')] @ rest"

definition demo_raise :: pydict where
  "demo_raise = demo_row ''proposed''
     [(''n'', PInt 1), (''dispatch_ref'', PStr (replicate 32 (CHR ''a''))), (''thread_ref'', PStr ''t''),
      (''payload'', PDict [(''action'', PStr ''close''), (''class'', PStr ''done'')])]"

definition demo_answer :: pydict where
  "demo_answer = demo_row ''approved'' [(''n'', PInt 1), (''thread_ref'', PStr ''t'')]"

definition demo_done :: "string \<Rightarrow> pydict" where
  "demo_done call = demo_row ''completed'' [(''tool_call_id'', PStr call)]"

lemmas demo_defs = demo_readers_def demo_key_def demo_row_def demo_raise_def demo_answer_def demo_done_def

lemma demo_accepts:
  "validate_append demo_readers demo_key (\<lambda>_. True) (\<lambda>_. True) [] demo_raise = None"
  "validate_append demo_readers demo_key (\<lambda>_. True) (\<lambda>_. True)
     [stamp_event ''1'' ''a'' demo_raise] demo_answer = None"
  "validate_append demo_readers demo_key (\<lambda>_. True) (\<lambda>_. True)
     [stamp_event ''1'' ''a'' demo_raise, stamp_event ''2'' ''b'' demo_answer] (demo_done ''c'') = None"
  by code_simp+

lemma demo_grown:
  "grown demo_readers demo_key
     [stamp_event ''1'' ''a'' demo_raise, stamp_event ''2'' ''b'' demo_answer,
      stamp_event ''3'' ''c'' (demo_done ''c'')]"
proof -
  have a: "grown demo_readers demo_key ([] @ [stamp_event ''1'' ''a'' demo_raise])"
    by (rule grown_append [OF grown_empty demo_accepts(1)]) simp_all
  have b: "grown demo_readers demo_key
     ([stamp_event ''1'' ''a'' demo_raise] @ [stamp_event ''2'' ''b'' demo_answer])"
    by (rule grown_append [OF a [simplified] demo_accepts(2)]) simp_all
  have "grown demo_readers demo_key
     ([stamp_event ''1'' ''a'' demo_raise, stamp_event ''2'' ''b'' demo_answer] @
      [stamp_event ''3'' ''c'' (demo_done ''c'')])"
    by (rule grown_append [OF b [simplified] demo_accepts(3)]) simp_all
  then show ?thesis by simp
qed

lemma demo_key_ne: "\<forall>m s. demo_key m s \<noteq> []"
  by (simp add: demo_key_def)

section \<open>Properties\<close>

text \<open>C14: Every write the ledger records as attempted (\<open>completed\<close> or \<open>write_failed\<close>) was licensed
  by an earlier row of the same item that no other write has spent: the record closing a task
  whose class is done, or a person's approval of the line that then stood open, raised with a write
  action. No line that closes a task at stake ever licenses one, and a \<open>complete\<close> line licenses one
  only if the deadline escalator raised it and the approval names who decided.\<close>

theorem every_write_is_licensed:
  assumes "grown R key_of L" "\<forall>m s. key_of m s \<noteq> []" "L = A @ r # B" "outcome r"
  shows "licensed_write R A r"
  unfolding licensed_write_def by (rule outcome_licensed [OF assms])

lemma every_write_is_licensed_witness:
  "licensed_write demo_readers [stamp_event ''1'' ''a'' demo_raise, stamp_event ''2'' ''b'' demo_answer]
     (stamp_event ''3'' ''c'' (demo_done ''c''))"
  by (rule every_write_is_licensed [OF demo_grown demo_key_ne, where B = "[]"])
     (simp_all, code_simp)

text \<open>For each item, the writes never outnumber the approvals and record closings: one approval
  buys at most one write.\<close>

theorem writes_within_licenses:
  assumes "grown R key_of L" "\<forall>m s. key_of m s \<noteq> []" "k \<noteq> []"
  shows "length (filter outcome (item_rows k L)) \<le> length (filter spendable (item_rows k L))"
  using auth_counts [OF assms] by simp

lemma writes_within_licenses_witness:
  "length (filter outcome (item_rows ''k42__cm_task:7''
      [stamp_event ''1'' ''a'' demo_raise, stamp_event ''2'' ''b'' demo_answer,
       stamp_event ''3'' ''c'' (demo_done ''c'')])) \<le>
   length (filter spendable (item_rows ''k42__cm_task:7''
      [stamp_event ''1'' ''a'' demo_raise, stamp_event ''2'' ''b'' demo_answer,
       stamp_event ''3'' ''c'' (demo_done ''c'')]))"
  by (rule writes_within_licenses [OF demo_grown demo_key_ne]) simp

text \<open>A verdict answers a line that was raised in its slot and neither raised again nor answered
  since; an approval of a \<open>complete\<close> line names who decided.\<close>

theorem verdict_answers_an_open_line:
  assumes "grown R key_of L" "\<forall>m s. key_of m s \<noteq> []" "L = A @ r # B" "verdict r"
  shows "\<exists>h. answers R A h r \<and>
    (event_kind r = ''approved'' \<and> row_action h = PStr ''complete'' \<longrightarrow> dget r ''decided_by'' \<noteq> PNone)"
  using verdict_answers [OF assms] by (elim exE conjE) (intro exI conjI)

lemma verdict_answers_an_open_line_witness:
  "\<exists>h. answers demo_readers [stamp_event ''1'' ''a'' demo_raise] h (stamp_event ''2'' ''b'' demo_answer) \<and>
    (event_kind (stamp_event ''2'' ''b'' demo_answer) = ''approved'' \<and> row_action h = PStr ''complete'' \<longrightarrow>
     dget (stamp_event ''2'' ''b'' demo_answer) ''decided_by'' \<noteq> PNone)"
  by (rule verdict_answers_an_open_line [OF demo_grown demo_key_ne,
        where B = "[stamp_event ''3'' ''c'' (demo_done ''c'')]"]) (simp_all, code_simp)

text \<open>No tool call stands behind two rows: the call ids of the completed writes and of the steps
  that ran are pairwise distinct.\<close>

theorem each_call_backs_one_row:
  assumes "grown R key_of L"
  shows "distinct (map (\<lambda>x. dget x ''tool_call_id'')
     (filter (\<lambda>x. event_kind x \<in> {''completed'', ''step_ran''}) L))"
  by (rule calls_distinct [OF assms])

lemma each_call_backs_one_row_witness:
  "distinct (map (\<lambda>x. dget x ''tool_call_id'')
     (filter (\<lambda>x. event_kind x \<in> {''completed'', ''step_ran''})
        [stamp_event ''1'' ''a'' demo_raise, stamp_event ''2'' ''b'' demo_answer,
         stamp_event ''3'' ''c'' (demo_done ''c'')]))"
  by (rule each_call_backs_one_row [OF demo_grown])

text \<open>The rows are folded by their time stamps, so a clock that steps back between an approval and
  its outcome leaves the approval standing: a second completion of the same item is accepted on it.\<close>

theorem stepped_clock_reopens_a_spent_approval:
  "validate_append demo_readers demo_key (\<lambda>_. True) (\<lambda>_. True)
     [stamp_event ''1'' ''a'' demo_raise, stamp_event ''3'' ''b'' demo_answer,
      stamp_event ''2'' ''c'' (demo_done ''c'')] (demo_done ''d'') = None"
  by code_simp

end
