(* ===== verification/Casework_Acts.thy ===== *)
theory Casework_Acts
  imports Trust_Gate Casework_Ledger "HOL-Library.Sublist" "HOL-Library.Multiset"
begin

text \<open>
  The casework replay register (\<open>shared/casework_acts.py\<close>): per session, the queue of task writes
  that code loaded, the one in flight, and the outcomes recorded for them; and the wrapper of the
  trust gate (\<open>evaluate_tool_call\<close> in \<open>plugins/hermes-smd-trust/enforce.py\<close>) that replays the head of
  the queue over the arguments of an \<open>update_task\<close> call. Times are ticks of the monotonic clock, in
  microseconds. The broker's verb is a parameter that answers with its response, or with nothing when
  the call raised; \<open>json\<close> is \<open>json.loads\<close> of a text. The lock is held for each step as a whole.
\<close>

section \<open>Writes\<close>

definition UPDATE_TASK_TOOL :: string where
  "UPDATE_TASK_TOOL = ''mcp_smokeball_update_task''"

definition CASEWORK_TTL :: int where
  "CASEWORK_TTL = 1800 * 1000000"

definition MAX_SESSIONS :: nat where
  "MAX_SESSIONS = 64"

definition MAX_QUEUE :: nat where
  "MAX_QUEUE = 60"

definition BEYOND_QUEUE :: string where
  "BEYOND_QUEUE =
     ''there is no task update waiting in this conversation. Every approved change '' @
     ''has been made; do not update any other task. Carry on with the next step.''"

record task_write =
  tw_task :: string
  tw_staff :: string
  tw_key :: string
  tw_matter :: string
  tw_skill :: string
  tw_completed :: "bool option"
  tw_assignees :: "string list option"
  tw_n :: "int option"
  tw_line :: string

definition write_arguments :: "task_write \<Rightarrow> pydict" where
  "write_arguments w =
     [(''task_id'', PStr (tw_task w)), (''staff_id'', PStr (tw_staff w))] @
     (case tw_completed w of None \<Rightarrow> [] | Some b \<Rightarrow> [(''is_completed'', PBool b)]) @
     (case tw_assignees w of None \<Rightarrow> [] | Some xs \<Rightarrow> [(''assignee_ids'', PList (map PStr xs))])"

definition valid_write :: "(string \<Rightarrow> string \<Rightarrow> string) \<Rightarrow> task_write \<Rightarrow> bool" where
  "valid_write key_of w \<longleftrightarrow>
     tw_task w \<noteq> [] \<and> tw_staff w \<noteq> [] \<and> tw_key w \<noteq> [] \<and> tw_skill w \<noteq> [] \<and>
     item_key key_of (tw_matter w) ''task'' (tw_task w) = Some (tw_key w) \<and>
     ((tw_completed w = Some True) \<noteq>
      (case tw_assignees w of None \<Rightarrow> False | Some xs \<Rightarrow> xs \<noteq> [] \<and> list_all (\<lambda>x. x \<noteq> []) xs))"

datatype status = Completed | Write_Failed

definition status_text :: "status \<Rightarrow> string" where
  "status_text s = (case s of Completed \<Rightarrow> ''completed'' | Write_Failed \<Rightarrow> ''write_failed'')"

record act_outcome =
  ao_write :: task_write
  ao_status :: status
  ao_reason :: string
  ao_ref :: string

record queue =
  q_pending :: "task_write list"
  q_loaded :: int
  q_flight :: "task_write option"
  q_outcomes :: "act_outcome list"
  q_unwritten :: "pydict list"

definition outcome_event :: "task_write \<Rightarrow> status \<Rightarrow> string \<Rightarrow> string \<Rightarrow> string \<Rightarrow> pydict" where
  "outcome_event w s sid call err =
     [(''ts'', PNone), (''skill'', PStr (tw_skill w)), (''matter_id'', PStr (tw_matter w)),
      (''kind'', PStr ''task''), (''source_id'', PStr (tw_task w)), (''item_key'', PStr (tw_key w)),
      (''event'', PStr (status_text s)), (''session_id'', PStr sid)] @
     (case s of
        Completed \<Rightarrow> [(''tool_call_id'', PStr call)]
      | Write_Failed \<Rightarrow>
          [(''error'', PStr (take 500 (if err = [] then ''the task update did not complete'' else err)))])"

definition result_reports_error :: "(string \<Rightarrow> pyval option) \<Rightarrow> pyval \<Rightarrow> bool" where
  "result_reports_error json v =
     (case (case v of PStr s \<Rightarrow> json s | _ \<Rightarrow> Some v) of
        Some (PDict d) \<Rightarrow> truthy (dget d ''error'')
      | _ \<Rightarrow> False)"

section \<open>The register\<close>

type_synonym 'w writer = "'w \<Rightarrow> pydict \<Rightarrow> pyval option \<times> 'w"

record 'w casework =
  cw_queues :: "(string, queue) odict"
  cw_world :: 'w

text \<open>Whether the broker took a row.\<close>

definition write_row :: "'w writer \<Rightarrow> pydict \<Rightarrow> 'w \<Rightarrow> bool \<times> 'w" where
  "write_row writer e w =
     (case writer w e of (r, w') \<Rightarrow>
        (case r of Some (PDict d) \<Rightarrow> (truthy (dget d ''ok''), w') | _ \<Rightarrow> (False, w')))"

definition fresh :: "int \<Rightarrow> string \<Rightarrow> 'w casework \<Rightarrow> queue option \<times> 'w casework" where
  "fresh now sid st =
     (case odict_get (cw_queues st) sid of
        None \<Rightarrow> (None, st)
      | Some q \<Rightarrow>
          if now - q_loaded q > CASEWORK_TTL
          then (None, st\<lparr>cw_queues := odict_pop sid (cw_queues st)\<rparr>)
          else (Some q, st))"

definition set_queue :: "string \<Rightarrow> queue \<Rightarrow> 'w casework \<Rightarrow> 'w casework" where
  "set_queue sid q st = st\<lparr>cw_queues := odict_set sid q (cw_queues st)\<rparr>"

text \<open>What \<open>load\<close> accepts of the writes it is given.\<close>

definition accepted_writes ::
  "(string \<Rightarrow> string \<Rightarrow> string) \<Rightarrow> nat \<Rightarrow> task_write list \<Rightarrow> task_write list" where
  "accepted_writes key_of held wts = take (MAX_QUEUE - held) (filter (valid_write key_of) wts)"

definition load ::
  "(string \<Rightarrow> string \<Rightarrow> string) \<Rightarrow> int \<Rightarrow> string \<Rightarrow> task_write list \<Rightarrow> 'w casework \<Rightarrow> nat \<times> 'w casework" where
  "load key_of now sid wts st =
     (if sid = [] then (0, st)
      else case fresh now sid st of (q, st') \<Rightarrow>
        (let q0 = (case q of None \<Rightarrow> \<lparr>q_pending = [], q_loaded = now, q_flight = None, q_outcomes = [],
                                      q_unwritten = []\<rparr> | Some q \<Rightarrow> q);
             q1 = q0\<lparr>q_pending := q_pending q0 @ accepted_writes key_of (length (q_pending q0)) wts,
                     q_loaded := now\<rparr>
         in (length (q_pending q1), st'\<lparr>cw_queues := odict_put MAX_SESSIONS sid q1 (cw_queues st')\<rparr>)))"

definition active :: "int \<Rightarrow> string \<Rightarrow> 'w casework \<Rightarrow> bool \<times> 'w casework" where
  "active now sid st =
     (if sid = [] then (False, st) else case fresh now sid st of (q, st') \<Rightarrow> (q \<noteq> None, st'))"

definition pending_writes :: "int \<Rightarrow> string \<Rightarrow> 'w casework \<Rightarrow> nat \<times> 'w casework" where
  "pending_writes now sid st =
     (if sid = [] then (0, st)
      else case fresh now sid st of
        (None, st') \<Rightarrow> (0, st')
      | (Some q, st') \<Rightarrow> (length (q_pending q) + (if q_flight q \<noteq> None then 1 else 0), st'))"

definition outcomes_of :: "int \<Rightarrow> string \<Rightarrow> 'w casework \<Rightarrow> act_outcome list \<times> 'w casework" where
  "outcomes_of now sid st =
     (if sid = [] then ([], st)
      else case fresh now sid st of
        (None, st') \<Rightarrow> ([], st') | (Some q, st') \<Rightarrow> (q_outcomes q, st'))"

definition clear_queue :: "string \<Rightarrow> 'w casework \<Rightarrow> 'w casework" where
  "clear_queue sid st = st\<lparr>cw_queues := odict_pop sid (cw_queues st)\<rparr>"

definition record_outcome ::
  "'w writer \<Rightarrow> string \<Rightarrow> task_write \<Rightarrow> status \<Rightarrow> string \<Rightarrow> string \<Rightarrow> string \<Rightarrow> 'w casework \<Rightarrow> 'w casework" where
  "record_outcome writer sid w s ref reason row_session st =
     (let e = outcome_event w s row_session ref reason;
          st1 = (case odict_get (cw_queues st) sid of
                   None \<Rightarrow> st
                 | Some q \<Rightarrow> set_queue sid (q\<lparr>q_outcomes := q_outcomes q @
                     [\<lparr>ao_write = w, ao_status = s, ao_reason = reason, ao_ref = ref\<rparr>]\<rparr>) st)
      in case write_row writer e (cw_world st1) of (ok, w') \<Rightarrow>
           (let st2 = st1\<lparr>cw_world := w'\<rparr>
            in case odict_get (cw_queues st2) sid of
                 None \<Rightarrow> st2
               | Some q \<Rightarrow> if ok then st2
                           else set_queue sid (q\<lparr>q_unwritten := q_unwritten q @ [e]\<rparr>) st2))"

datatype replay = Untouched | Replays task_write | Beyond

definition replay_call ::
  "'w writer \<Rightarrow> int \<Rightarrow> string \<Rightarrow> string \<Rightarrow> pydict \<Rightarrow> 'w casework \<Rightarrow> replay \<times> pydict \<times> 'w casework" where
  "replay_call writer now sid tool args st =
     (if tool \<noteq> UPDATE_TASK_TOOL \<or> sid = [] then (Untouched, args, st)
      else case fresh now sid st of
        (None, st1) \<Rightarrow> (Untouched, args, st1)
      | (Some q, st1) \<Rightarrow>
          (let st2 = (case q_pending q of
                        [] \<Rightarrow> set_queue sid (q\<lparr>q_flight := None\<rparr>) st1
                      | w # wts \<Rightarrow> set_queue sid (q\<lparr>q_pending := wts, q_flight := Some w\<rparr>) st1);
               st3 = (case q_flight q of
                        None \<Rightarrow> st2
                      | Some stale \<Rightarrow>
                          record_outcome writer sid stale Write_Failed [] ''no outcome was reported'' sid st2)
           in case q_pending q of
                [] \<Rightarrow> (Beyond, args, st3)
              | w # wts \<Rightarrow> (Replays w, write_arguments w, st3)))"

text \<open>The write in flight, taken out.\<close>

definition land :: "int \<Rightarrow> string \<Rightarrow> 'w casework \<Rightarrow> task_write option \<times> 'w casework" where
  "land now sid st =
     (case fresh now sid st of
        (None, st1) \<Rightarrow> (None, st1)
      | (Some q, st1) \<Rightarrow> (q_flight q, set_queue sid (q\<lparr>q_flight := None\<rparr>) st1))"

definition blocked :: "'w writer \<Rightarrow> int \<Rightarrow> string \<Rightarrow> string \<Rightarrow> 'w casework \<Rightarrow> 'w casework" where
  "blocked writer now sid reason st =
     (case land now sid st of
        (None, st1) \<Rightarrow> st1
      | (Some w, st1) \<Rightarrow> record_outcome writer sid w Write_Failed [] reason sid st1)"

definition post_status ::
  "readers \<Rightarrow> (string \<Rightarrow> pyval option) \<Rightarrow> pydict \<Rightarrow> status \<times> string" where
  "post_status R json kw =
     (if tool_call_failed (dget kw ''status'') (dget kw ''error_type'') \<or> result_reports_error json (dget kw ''result'')
      then (Write_Failed, ''the task update failed'')
      else if text_or R (dget kw ''tool_call_id'') = []
      then (Write_Failed, ''the update could not be tied to its call'')
      else (Completed, []))"

definition on_post_tool ::
  "readers \<Rightarrow> (string \<Rightarrow> pyval option) \<Rightarrow> 'w writer \<Rightarrow> int \<Rightarrow> string \<Rightarrow> string \<Rightarrow> pydict \<Rightarrow> 'w casework \<Rightarrow> 'w casework" where
  "on_post_tool R json writer now tool sid kw st =
     (if tool \<noteq> UPDATE_TASK_TOOL \<or> sid = [] then st
      else case land now sid st of
        (None, st1) \<Rightarrow> st1
      | (Some w, st1) \<Rightarrow>
          (case post_status R json kw of
             (Completed, _) \<Rightarrow>
               record_outcome writer sid w Completed (text_or R (dget kw ''tool_call_id'')) []
                 (text_or R (dget kw ''session_id'')) st1
           | (Write_Failed, why) \<Rightarrow> record_outcome writer sid w Write_Failed [] why sid st1))"

fun retry_rows :: "'w writer \<Rightarrow> pydict list \<Rightarrow> 'w \<Rightarrow> pydict list \<times> 'w" where
  "retry_rows writer [] w = ([], w)"
| "retry_rows writer (e # es) w =
     (case write_row writer e w of (ok, w1) \<Rightarrow>
        (case retry_rows writer es w1 of (left, w2) \<Rightarrow> (if ok then left else e # left, w2)))"

definition flush :: "'w writer \<Rightarrow> int \<Rightarrow> string \<Rightarrow> 'w casework \<Rightarrow> nat \<times> 'w casework" where
  "flush writer now sid st =
     (if sid = [] then (0, st)
      else case fresh now sid st of
        (None, st1) \<Rightarrow> (0, st1)
      | (Some q, st1) \<Rightarrow>
          (case retry_rows writer (q_unwritten q) (cw_world st1) of (left, w') \<Rightarrow>
             (length left, set_queue sid (q\<lparr>q_unwritten := left\<rparr>) (st1\<lparr>cw_world := w'\<rparr>))))"

section \<open>The gate around it\<close>

datatype call_block = Beyond_Queue | Gate_Block block

definition gate_call ::
  "'w writer \<Rightarrow> (block \<Rightarrow> string) \<Rightarrow> int \<Rightarrow> world \<Rightarrow> 't tool_call \<Rightarrow> pydict \<Rightarrow> 'w casework \<Rightarrow> 't gate_state \<Rightarrow>
   call_block option \<times> pydict \<times> 'w casework \<times> 't gate_state" where
  "gate_call writer message now w c args cw st =
     (case replay_call writer now (tc_session c) (tc_tool c) args cw of
        (Beyond, args1, cw1) \<Rightarrow>
          (Some Beyond_Queue, args1, cw1,
           note_row c (call_row w c (class_value INTERNAL_WRITE) Audit_Refuse False
             (''CASEWORK_REPLAY: '' @ BEYOND_QUEUE) (Some REFUSED)) st)
      | (r, args1, cw1) \<Rightarrow>
          (case evaluate_tool_call w c args1 st of
             (None, args2, st1) \<Rightarrow> (None, args2, cw1, st1)
           | (Some b, args2, st1) \<Rightarrow>
               (Some (Gate_Block b), args2,
                (case r of
                   Replays _ \<Rightarrow> blocked writer now (tc_session c)
                     (if message b = [] then ''refused'' else message b) cw1
                 | _ \<Rightarrow> cw1), st1)))"

section \<open>Runs\<close>

datatype cw_op =
    Load int string "task_write list"
  | Call int string string pydict
  | Refusal int string string
  | Report int string string pydict
  | Flush int string
  | Look int string
  | Clear string

record 'w cw_env =
  ce_key :: "string \<Rightarrow> string \<Rightarrow> string"
  ce_readers :: readers
  ce_json :: "string \<Rightarrow> pyval option"
  ce_writer :: "'w writer"

fun cw_step :: "'w cw_env \<Rightarrow> cw_op \<Rightarrow> 'w casework \<Rightarrow> 'w casework" where
  "cw_step E (Load now sid wts) st = snd (load (ce_key E) now sid wts st)"
| "cw_step E (Call now sid tool args) st = snd (snd (replay_call (ce_writer E) now sid tool args st))"
| "cw_step E (Refusal now sid reason) st = blocked (ce_writer E) now sid reason st"
| "cw_step E (Report now sid tool kw) st = on_post_tool (ce_readers E) (ce_json E) (ce_writer E) now tool sid kw st"
| "cw_step E (Flush now sid) st = snd (flush (ce_writer E) now sid st)"
| "cw_step E (Look now sid) st = snd (active now sid st)"
| "cw_step E (Clear sid) st = clear_queue sid st"

text \<open>What one operation accepts into the queue of a session, and which write it replays there.\<close>

fun loaded_now :: "'w cw_env \<Rightarrow> string \<Rightarrow> cw_op \<Rightarrow> 'w casework \<Rightarrow> task_write list" where
  "loaded_now E s (Load now sid wts) st =
     (if sid = s \<and> sid \<noteq> []
      then accepted_writes (ce_key E)
             (case fst (fresh now sid st) of None \<Rightarrow> 0 | Some q \<Rightarrow> length (q_pending q)) wts
      else [])"
| "loaded_now E s x st = []"

fun replayed_now :: "'w cw_env \<Rightarrow> string \<Rightarrow> cw_op \<Rightarrow> 'w casework \<Rightarrow> task_write list" where
  "replayed_now E s (Call now sid tool args) st =
     (if sid = s
      then (case fst (replay_call (ce_writer E) now sid tool args st) of Replays w \<Rightarrow> [w] | _ \<Rightarrow> [])
      else [])"
| "replayed_now E s x st = []"

fun cw_run :: "'w cw_env \<Rightarrow> cw_op list \<Rightarrow> 'w casework \<Rightarrow> 'w casework" where
  "cw_run E [] st = st"
| "cw_run E (x # xs) st = cw_run E xs (cw_step E x st)"

fun loads :: "'w cw_env \<Rightarrow> string \<Rightarrow> cw_op list \<Rightarrow> 'w casework \<Rightarrow> task_write list" where
  "loads E s [] st = []"
| "loads E s (x # xs) st = loaded_now E s x st @ loads E s xs (cw_step E x st)"

fun replays :: "'w cw_env \<Rightarrow> string \<Rightarrow> cw_op list \<Rightarrow> 'w casework \<Rightarrow> task_write list" where
  "replays E s [] st = []"
| "replays E s (x # xs) st = replayed_now E s x st @ replays E s xs (cw_step E x st)"

definition shipped :: "queue \<Rightarrow> task_write list" where
  "shipped q = map ao_write (q_outcomes q) @ (case q_flight q of None \<Rightarrow> [] | Some w \<Rightarrow> [w])"

definition books :: "queue \<Rightarrow> task_write list" where
  "books q = shipped q @ q_pending q"

section \<open>One step and the books of a session\<close>

lemma fresh_fst: "fst (fresh now sid st) =
    (case odict_get (cw_queues st) sid of None \<Rightarrow> None
     | Some q \<Rightarrow> if now - q_loaded q > CASEWORK_TTL then None else Some q)"
  by (simp add: fresh_def split: option.split)

lemma fresh_get: "odict_get (cw_queues (snd (fresh now sid st))) s =
    (if s = sid then fst (fresh now sid st) else odict_get (cw_queues st) s)"
  by (simp add: fresh_def split: option.split)

lemma fresh_Some: "fst (fresh now sid st) = Some q \<Longrightarrow> odict_get (cw_queues st) sid = Some q"
  by (auto simp: fresh_fst split: option.splits if_splits)

lemma set_queue_get [simp]:
  "odict_get (cw_queues (set_queue sid q st)) = (odict_get (cw_queues st))(sid \<mapsto> q)"
  by (simp add: set_queue_def)

lemma record_queues:
  "\<exists>u. odict_get (cw_queues (record_outcome writer sid w x ref reason rs st)) =
     (case odict_get (cw_queues st) sid of
        None \<Rightarrow> odict_get (cw_queues st)
      | Some q \<Rightarrow> (odict_get (cw_queues st))(sid \<mapsto> q\<lparr>q_outcomes := q_outcomes q @
            [\<lparr>ao_write = w, ao_status = x, ao_reason = reason, ao_ref = ref\<rparr>], q_unwritten := u\<rparr>))"
proof (cases "odict_get (cw_queues st) sid")
  case None
  then show ?thesis by (simp add: record_outcome_def Let_def split: prod.split)
next
  case (Some q)
  show ?thesis
  proof (cases "write_row writer (outcome_event w x rs ref reason) (cw_world st)")
    case (Pair ok w')
    show ?thesis using Some Pair
      by (cases ok)
        (auto simp: record_outcome_def Let_def set_queue_def intro: exI [of _ "q_unwritten q"]
          exI [of _ "q_unwritten q @ [outcome_event w x rs ref reason]"])
  qed
qed

lemma record_get:
  assumes "odict_get (cw_queues st) sid = Some q"
  obtains u where "odict_get (cw_queues (record_outcome writer sid w x ref reason rs st)) =
     (odict_get (cw_queues st))(sid \<mapsto> q\<lparr>q_outcomes := q_outcomes q @
            [\<lparr>ao_write = w, ao_status = x, ao_reason = reason, ao_ref = ref\<rparr>], q_unwritten := u\<rparr>)"
  using record_queues [of writer sid w x ref reason rs st] assms by auto

lemma land_get:
  "odict_get (cw_queues (snd (land now sid st))) =
     (case fst (fresh now sid st) of
        None \<Rightarrow> (odict_get (cw_queues st))(sid := None)
      | Some q \<Rightarrow> (odict_get (cw_queues st))(sid \<mapsto> q\<lparr>q_flight := None\<rparr>))"
  "fst (land now sid st) = (case fst (fresh now sid st) of None \<Rightarrow> None | Some q \<Rightarrow> q_flight q)"
proof -
  have "odict_get (cw_queues (snd (fresh now sid st))) = (odict_get (cw_queues st))(sid := fst (fresh now sid st))"
    by (auto simp: fun_eq_iff fresh_get)
  then show "odict_get (cw_queues (snd (land now sid st))) =
     (case fst (fresh now sid st) of
        None \<Rightarrow> (odict_get (cw_queues st))(sid := None)
      | Some q \<Rightarrow> (odict_get (cw_queues st))(sid \<mapsto> q\<lparr>q_flight := None\<rparr>))"
    by (cases "fresh now sid st"; cases "fst (fresh now sid st)") (auto simp: land_def)
  show "fst (land now sid st) = (case fst (fresh now sid st) of None \<Rightarrow> None | Some q \<Rightarrow> q_flight q)"
    by (cases "fresh now sid st"; cases "fst (fresh now sid st)") (auto simp: land_def)
qed

text \<open>A landing that records an outcome keeps the books of its session.\<close>

lemma landed_books:
  assumes "fst (land now sid st) = Some w"
    and "odict_get (cw_queues (record_outcome writer sid w x ref reason rs (snd (land now sid st)))) sid = Some q'"
  shows "\<exists>q. odict_get (cw_queues st) sid = Some q \<and> q_flight q = Some w \<and> shipped q' = shipped q \<and> q_pending q' = q_pending q \<and>
    q_outcomes q' = q_outcomes q @ [\<lparr>ao_write = w, ao_status = x, ao_reason = reason, ao_ref = ref\<rparr>]"
proof -
  obtain q where q: "fst (fresh now sid st) = Some q" "q_flight q = Some w"
    using assms(1) by (auto simp: land_get(2) split: option.splits)
  have "odict_get (cw_queues (snd (land now sid st))) sid = Some (q\<lparr>q_flight := None\<rparr>)"
    using q by (simp add: land_get)
  then obtain u where "q' = q\<lparr>q_flight := None\<rparr>\<lparr>q_outcomes := q_outcomes (q\<lparr>q_flight := None\<rparr>) @
            [\<lparr>ao_write = w, ao_status = x, ao_reason = reason, ao_ref = ref\<rparr>], q_unwritten := u\<rparr>"
    by (rule record_get [where writer = writer and w = w and x = x and ref = ref and reason = reason and rs = rs])
      (use assms(2) in auto)
  then have "shipped q' = shipped q" "q_pending q' = q_pending q"
    "q_outcomes q' = q_outcomes q @ [\<lparr>ao_write = w, ao_status = x, ao_reason = reason, ao_ref = ref\<rparr>]"
    using q(2) by (simp_all add: shipped_def)
  then show ?thesis using fresh_Some [OF q(1)] q(2) by blast
qed

text \<open>A completed outcome comes from a report of success that names its call.\<close>

definition truthful :: "'w cw_env \<Rightarrow> string \<Rightarrow> cw_op \<Rightarrow> act_outcome \<Rightarrow> bool" where
  "truthful E s x out \<longleftrightarrow>
     ao_status out = Completed \<longrightarrow>
       (\<exists>now kw. x = Report now s UPDATE_TASK_TOOL kw \<and>
          fst (post_status (ce_readers E) (ce_json E) kw) = Completed \<and>
          ao_ref out = text_or (ce_readers E) (dget kw ''tool_call_id''))"

lemma truthful_failed [simp]: "ao_status out = Write_Failed \<Longrightarrow> truthful E s x out"
  by (simp add: truthful_def)

definition follows :: "'w cw_env \<Rightarrow> string \<Rightarrow> cw_op \<Rightarrow> 'w casework \<Rightarrow> queue \<Rightarrow> bool" where
  "follows E s x st q' \<longleftrightarrow>
     (\<exists>q. odict_get (cw_queues st) s = Some q \<and> shipped q' = shipped q @ replayed_now E s x st \<and>
          books q' = books q @ loaded_now E s x st \<and>
          (\<forall>out \<in> set (q_outcomes q'). out \<in> set (q_outcomes q) \<or> truthful E s x out)) \<or>
     shipped q' = [] \<and> books q' = loaded_now E s x st \<and> replayed_now E s x st = []"

lemma follows_same:
  assumes "odict_get (cw_queues st) s = Some q" "shipped q' = shipped q" "q_pending q' = q_pending q"
    "\<forall>out \<in> set (q_outcomes q'). out \<in> set (q_outcomes q) \<or> truthful E s x out"
    "replayed_now E s x st = []" "loaded_now E s x st = []"
  shows "follows E s x st q'"
  using assms by (auto simp: follows_def books_def)

lemma load_follows:
  assumes "odict_get (cw_queues (snd (load (ce_key E) now sid wts st))) s = Some q'"
  shows "follows E s (Load now sid wts) st q'"
proof (cases "sid = [] \<or> sid \<noteq> s")
  case True
  have "odict_get (cw_queues st) s = Some q'"
  proof (cases "sid = []")
    case True
    then show ?thesis using assms by (simp add: load_def)
  next
    case False
    obtain r st' where f: "fresh now sid st = (r, st')" by fastforce
    have "\<exists>q1. snd (load (ce_key E) now sid wts st) = st'\<lparr>cw_queues := odict_put MAX_SESSIONS sid q1 (cw_queues st')\<rparr>"
      using False f by (simp add: load_def Let_def) (rule exI, rule refl)
    then have "odict_get (cw_queues st') s = Some q'"
      using assms True False od.get_put_other [of s sid MAX_SESSIONS _ "cw_queues st'"] by (metis casework.select_convs(1) casework.surjective casework.update_convs(1) option.distinct(1))
    moreover have "odict_get (cw_queues st') s = odict_get (cw_queues st) s"
      using fresh_get [of now sid st s] f True False by auto
    ultimately show ?thesis by simp
  qed
  then show ?thesis by (rule follows_same) (use True in auto)
next
  case False
  obtain r st' where f: "fresh now sid st = (r, st')" by fastforce
  define q0 where "q0 = (case r of None \<Rightarrow> \<lparr>q_pending = [], q_loaded = now, q_flight = None, q_outcomes = [],
                                      q_unwritten = []\<rparr> | Some q \<Rightarrow> q)"
  have "q' = q0\<lparr>q_pending := q_pending q0 @ accepted_writes (ce_key E) (length (q_pending q0)) wts, q_loaded := now\<rparr>"
  proof -
    have "sid = s" "s \<noteq> []" using False by auto
    moreover have "odict_get (odict_put MAX_SESSIONS s q1 d) s = Some q1" for q1 :: queue and d
      by (rule od.get_put_same) (simp add: MAX_SESSIONS_def)
    ultimately show ?thesis using assms f by (simp add: load_def Let_def q0_def)
  qed
  then have "shipped q' = shipped q0" "books q' = books q0 @ accepted_writes (ce_key E) (length (q_pending q0)) wts"
    and outs: "q_outcomes q' = q_outcomes q0"
    by (simp_all add: shipped_def books_def)
  moreover have "loaded_now E s (Load now sid wts) st = accepted_writes (ce_key E) (length (q_pending q0)) wts"
    using False f by (auto simp: q0_def split: option.splits)
  ultimately show ?thesis
  proof (cases r)
    case None
    then have "shipped q0 = []" "books q0 = []" by (simp_all add: q0_def shipped_def books_def)
    then show ?thesis using \<open>shipped q' = shipped q0\<close>
      \<open>books q' = books q0 @ accepted_writes (ce_key E) (length (q_pending q0)) wts\<close>
      \<open>loaded_now E s (Load now sid wts) st = accepted_writes (ce_key E) (length (q_pending q0)) wts\<close>
      by (simp add: follows_def)
  next
    case (Some q)
    then have "odict_get (cw_queues st) s = Some q0" using fresh_Some [of now sid st q] f False by (simp add: q0_def)
    then show ?thesis using \<open>shipped q' = shipped q0\<close>
      \<open>books q' = books q0 @ accepted_writes (ce_key E) (length (q_pending q0)) wts\<close>
      \<open>loaded_now E s (Load now sid wts) st = accepted_writes (ce_key E) (length (q_pending q0)) wts\<close>
      outs by (simp add: follows_def)
  qed
qed

lemma landing_follows:
  assumes "odict_get (cw_queues st') s = Some q'" "replayed_now E s x st = []" "loaded_now E s x st = []"
    and "st' = (case land now sid st of (None, st1) \<Rightarrow> st1
          | (Some w, st1) \<Rightarrow> record_outcome writer sid w (f w) (ref w) (reason w) (rs w) st1)"
    and "\<And>w. s = sid \<Longrightarrow> truthful E s x \<lparr>ao_write = w, ao_status = f w, ao_reason = reason w, ao_ref = ref w\<rparr>"
  shows "follows E s x st q'"
proof (cases "fst (land now sid st)")
  case None
  then have st': "st' = snd (land now sid st)" using assms(4) by (simp split: prod.splits option.splits)
  show ?thesis
  proof (cases "fst (fresh now sid st)")
    case None
    then have "odict_get (cw_queues st) s = Some q'" using assms(1) st' by (simp add: land_get split: if_splits)
    then show ?thesis by (rule follows_same) (use assms in auto)
  next
    case (Some q)
    then have "q_flight q = None" using None by (simp add: land_get(2))
    then have "odict_get (cw_queues st) s = Some (if s = sid then q else q')"
      "shipped q' = shipped (if s = sid then q else q')" "q_pending q' = q_pending (if s = sid then q else q')"
      "\<forall>out \<in> set (q_outcomes q'). out \<in> set (q_outcomes (if s = sid then q else q')) \<or> truthful E s x out"
      using assms(1) st' Some fresh_Some [OF Some] by (auto simp: land_get shipped_def split: if_splits)
    then show ?thesis by (rule follows_same) (use assms in auto)
  qed
next
  case (Some w)
  then have st': "st' = record_outcome writer sid w (f w) (ref w) (reason w) (rs w) (snd (land now sid st))"
    using assms(4) by (simp split: prod.splits option.splits)
  show ?thesis
  proof (cases "s = sid")
    case True
    obtain q where "odict_get (cw_queues st) sid = Some q" "shipped q' = shipped q" "q_pending q' = q_pending q"
      "q_outcomes q' = q_outcomes q @ [\<lparr>ao_write = w, ao_status = f w, ao_reason = reason w, ao_ref = ref w\<rparr>]"
      using landed_books [OF Some, of writer "f w" "ref w" "reason w" "rs w" q'] assms(1) st' True by auto
    then show ?thesis using assms True by (intro follows_same) auto
  next
    case False
    have "odict_get (cw_queues st') s = odict_get (cw_queues (snd (land now sid st))) s"
      using record_queues [of writer sid w "f w" "ref w" "reason w" "rs w" "snd (land now sid st)"] st' False
      by (auto split: option.splits)
    also have "\<dots> = odict_get (cw_queues st) s" using False by (auto simp: land_get split: option.split)
    finally show ?thesis using assms by (intro follows_same) auto
  qed
qed

lemma blocked_landing:
  "blocked writer now sid reason st =
     (case land now sid st of (None, st1) \<Rightarrow> st1
      | (Some w, st1) \<Rightarrow> record_outcome writer sid w Write_Failed [] reason sid st1)"
  by (simp add: blocked_def)

lemma post_landing:
  assumes "tool = UPDATE_TASK_TOOL" "sid \<noteq> []"
  shows "on_post_tool R json writer now tool sid kw st =
     (case land now sid st of (None, st1) \<Rightarrow> st1
      | (Some w, st1) \<Rightarrow> record_outcome writer sid w (fst (post_status R json kw))
          (if fst (post_status R json kw) = Completed then text_or R (dget kw ''tool_call_id'') else [])
          (snd (post_status R json kw))
          (if fst (post_status R json kw) = Completed then text_or R (dget kw ''session_id'') else sid) st1)"
proof (cases "post_status R json kw")
  case (Pair x why)
  then have "x = Completed \<Longrightarrow> why = []" by (auto simp: post_status_def split: if_splits)
  then show ?thesis using assms Pair
    by (cases x) (auto simp: on_post_tool_def split: prod.splits option.splits)
qed

lemma look_follows:
  assumes "odict_get (cw_queues (snd (fresh now sid st))) s = Some q'"
    "replayed_now E s x st = []" "loaded_now E s x st = []"
  shows "follows E s x st q'"
proof -
  have "odict_get (cw_queues st) s = Some q'"
    using assms(1) fresh_Some [of now sid st q'] by (auto simp: fresh_get split: if_splits)
  then show ?thesis by (rule follows_same) (use assms in auto)
qed

lemma flush_follows:
  assumes "odict_get (cw_queues (snd (flush writer now sid st))) s = Some q'"
    "replayed_now E s x st = []" "loaded_now E s x st = []"
  shows "follows E s x st q'"
proof (cases "sid = []")
  case True
  then show ?thesis using assms by (intro follows_same) (auto simp: flush_def)
next
  case ne: False
  obtain r st1 where f: "fresh now sid st = (r, st1)" by fastforce
  show ?thesis
  proof (cases r)
    case None
    then show ?thesis using look_follows [of now sid st s q' E x] assms ne f by (simp add: flush_def)
  next
    case (Some q)
    obtain left w' where rr: "retry_rows writer (q_unwritten q) (cw_world st1) = (left, w')" by fastforce
    have st1: "odict_get (cw_queues st1) s = Some p \<Longrightarrow> odict_get (cw_queues st) s = Some p" for p
      using fresh_get [of now sid st s] f Some fresh_Some [of now sid st q] by (auto split: if_splits)
    have q: "odict_get (cw_queues st) sid = Some q" using fresh_Some [of now sid st q] f Some by simp
    have "odict_get (cw_queues st) s = Some (if s = sid then q else q')"
      "shipped q' = shipped (if s = sid then q else q')" "q_pending q' = q_pending (if s = sid then q else q')"
      "\<forall>out \<in> set (q_outcomes q'). out \<in> set (q_outcomes (if s = sid then q else q')) \<or> truthful E s x out"
      using assms(1) ne f Some rr q st1 by (auto simp: flush_def shipped_def split: if_splits)
    then show ?thesis by (rule follows_same) (use assms in auto)
  qed
qed

lemma call_state:
  assumes "tool = UPDATE_TASK_TOOL" "sid \<noteq> []" "fst (fresh now sid st) = Some q"
  shows "fst (replay_call writer now sid tool args st) =
      (case q_pending q of [] \<Rightarrow> Beyond | w # wts \<Rightarrow> Replays w)"
    "fst (snd (replay_call writer now sid tool args st)) =
      (case q_pending q of [] \<Rightarrow> args | w # wts \<Rightarrow> write_arguments w)"
    "\<exists>u os. odict_get (cw_queues (snd (snd (replay_call writer now sid tool args st)))) =
      (odict_get (cw_queues st))(sid \<mapsto> q\<lparr>q_pending := tl (q_pending q),
         q_flight := (case q_pending q of [] \<Rightarrow> None | w # wts \<Rightarrow> Some w),
         q_outcomes := q_outcomes q @ os, q_unwritten := u\<rparr>) \<and>
      os = (case q_flight q of None \<Rightarrow> [] | Some w \<Rightarrow>
         [\<lparr>ao_write = w, ao_status = Write_Failed, ao_reason = ''no outcome was reported'', ao_ref = []\<rparr>])"
proof -
  obtain st1 where f: "fresh now sid st = (Some q, st1)" using assms(3) by (cases "fresh now sid st") auto
  have st1: "odict_get (cw_queues st1) = odict_get (cw_queues st)"
    using fresh_get [of now sid st] f fresh_Some [of now sid st q] by (auto simp: fun_eq_iff)
  let ?q = "q\<lparr>q_pending := tl (q_pending q), q_flight := (case q_pending q of [] \<Rightarrow> None | w # wts \<Rightarrow> Some w)\<rparr>"
  let ?st2 = "case q_pending q of [] \<Rightarrow> set_queue sid (q\<lparr>q_flight := None\<rparr>) st1
                      | w # wts \<Rightarrow> set_queue sid (q\<lparr>q_pending := wts, q_flight := Some w\<rparr>) st1"
  have st2: "odict_get (cw_queues ?st2) = (odict_get (cw_queues st))(sid \<mapsto> ?q)"
    using st1 by (auto split: list.split)
  show "fst (replay_call writer now sid tool args st) =
      (case q_pending q of [] \<Rightarrow> Beyond | w # wts \<Rightarrow> Replays w)"
    "fst (snd (replay_call writer now sid tool args st)) =
      (case q_pending q of [] \<Rightarrow> args | w # wts \<Rightarrow> write_arguments w)"
    using assms(1,2) f by (simp_all add: replay_call_def Let_def split: list.split)
  have eq: "snd (snd (replay_call writer now sid tool args st)) =
      (case q_flight q of None \<Rightarrow> ?st2
       | Some stale \<Rightarrow> record_outcome writer sid stale Write_Failed [] ''no outcome was reported'' sid ?st2)"
    using assms(1,2) f by (auto simp: replay_call_def Let_def split: list.split option.split)
  show "\<exists>u os. odict_get (cw_queues (snd (snd (replay_call writer now sid tool args st)))) =
      (odict_get (cw_queues st))(sid \<mapsto> q\<lparr>q_pending := tl (q_pending q),
         q_flight := (case q_pending q of [] \<Rightarrow> None | w # wts \<Rightarrow> Some w),
         q_outcomes := q_outcomes q @ os, q_unwritten := u\<rparr>) \<and>
      os = (case q_flight q of None \<Rightarrow> [] | Some w \<Rightarrow>
         [\<lparr>ao_write = w, ao_status = Write_Failed, ao_reason = ''no outcome was reported'', ao_ref = []\<rparr>])"
  proof (cases "q_flight q")
    case None
    then show ?thesis using eq st2 by (intro exI [of _ "q_unwritten q"] exI [of _ "[]"]) simp
  next
    case (Some w)
    have "odict_get (cw_queues ?st2) sid = Some ?q" using st2 by simp
    then obtain u where "odict_get (cw_queues (record_outcome writer sid w Write_Failed [] ''no outcome was reported'' sid ?st2)) =
      (odict_get (cw_queues ?st2))(sid \<mapsto> ?q\<lparr>q_outcomes := q_outcomes ?q @
            [\<lparr>ao_write = w, ao_status = Write_Failed, ao_reason = ''no outcome was reported'', ao_ref = []\<rparr>],
            q_unwritten := u\<rparr>)"
      by (rule record_get)
    then show ?thesis using eq st2 Some by (intro exI [of _ u]) simp
  qed
qed

lemma call_follows:
  assumes "odict_get (cw_queues (snd (snd (replay_call (ce_writer E) now sid tool args st)))) s = Some q'"
  shows "follows E s (Call now sid tool args) st q'"
proof (cases "tool = UPDATE_TASK_TOOL \<and> sid \<noteq> []")
  case False
  then show ?thesis using assms by (intro follows_same) (auto simp: replay_call_def)
next
  case t: True
  show ?thesis
  proof (cases "fst (fresh now sid st)")
    case None
    then have "replay_call (ce_writer E) now sid tool args st = (Untouched, args, snd (fresh now sid st))"
      using t by (cases "fresh now sid st") (simp add: replay_call_def)
    then show ?thesis using assms by (intro look_follows [of now sid st s q' E]) auto
  next
    case (Some q)
    note c = call_state [OF conjunct1 [OF t] conjunct2 [OF t] Some, of "ce_writer E" args]
    obtain u os where g: "odict_get (cw_queues (snd (snd (replay_call (ce_writer E) now sid tool args st)))) =
      (odict_get (cw_queues st))(sid \<mapsto> q\<lparr>q_pending := tl (q_pending q),
         q_flight := (case q_pending q of [] \<Rightarrow> None | w # wts \<Rightarrow> Some w),
         q_outcomes := q_outcomes q @ os, q_unwritten := u\<rparr>)"
      and os: "os = (case q_flight q of None \<Rightarrow> [] | Some w \<Rightarrow>
         [\<lparr>ao_write = w, ao_status = Write_Failed, ao_reason = ''no outcome was reported'', ao_ref = []\<rparr>])"
      using c(3) by blast
    show ?thesis
    proof (cases "s = sid")
      case False
      then show ?thesis using assms g by (intro follows_same) auto
    next
      case True
      then have q': "q' = q\<lparr>q_pending := tl (q_pending q),
         q_flight := (case q_pending q of [] \<Rightarrow> None | w # wts \<Rightarrow> Some w),
         q_outcomes := q_outcomes q @ os, q_unwritten := u\<rparr>" using assms g by simp
      have "shipped q' = shipped q @ replayed_now E s (Call now sid tool args) st" "books q' = books q"
        unfolding q' using True c(1) os by (simp_all add: shipped_def books_def split: list.split option.split)
      moreover have "\<forall>out \<in> set (q_outcomes q'). out \<in> set (q_outcomes q) \<or> truthful E s (Call now sid tool args) out"
        unfolding q' os by (auto split: option.splits)
      ultimately show ?thesis using fresh_Some [OF Some] True by (auto simp: follows_def)
    qed
  qed
qed

lemma step_follows:
  assumes "odict_get (cw_queues (cw_step E x st)) s = Some q'"
  shows "follows E s x st q'"
proof (cases x)
  case (Load now sid wts)
  then show ?thesis using load_follows assms by simp
next
  case (Call now sid tool args)
  then show ?thesis using call_follows assms by simp
next
  case (Refusal now sid reason)
  show ?thesis by (rule landing_follows [OF assms, where f = "\<lambda>_. Write_Failed" and ref = "\<lambda>_. []" and reason = "\<lambda>_. reason" and rs = "\<lambda>_. sid"])
    (simp_all add: Refusal blocked_landing)
next
  case (Report now sid tool kw)
  show ?thesis
  proof (cases "tool = UPDATE_TASK_TOOL \<and> sid \<noteq> []")
    case True
    let ?p = "post_status (ce_readers E) (ce_json E) kw"
    show ?thesis
      by (rule landing_follows [OF assms, where f = "\<lambda>_. fst ?p"
            and ref = "\<lambda>_. if fst ?p = Completed then text_or (ce_readers E) (dget kw ''tool_call_id'') else []"
            and reason = "\<lambda>_. snd ?p"
            and rs = "\<lambda>_. if fst ?p = Completed then text_or (ce_readers E) (dget kw ''session_id'') else sid"])
        (use True in \<open>auto simp add: Report post_landing truthful_def\<close>)
  next
    case False
    then show ?thesis using assms Report by (intro follows_same) (auto simp: on_post_tool_def)
  qed
next
  case (Flush now sid)
  show ?thesis
    by (rule flush_follows [of "ce_writer E" now sid st]) (use assms Flush in simp_all)
next
  case (Look now sid)
  show ?thesis
  proof (cases "sid = []")
    case True
    then show ?thesis using assms Look by (intro follows_same) (auto simp: active_def)
  next
    case False
    then have "odict_get (cw_queues (snd (fresh now sid st))) s = Some q'"
      using assms Look by (simp add: active_def split: prod.splits)
    then show ?thesis by (rule look_follows) (simp_all add: Look)
  qed
next
  case (Clear sid)
  then show ?thesis using assms by (intro follows_same) (auto simp: clear_queue_def split: if_splits)
qed

lemma suffix_follow: "suffix xs (a @ l) \<Longrightarrow> suffix xs (p @ a @ l)"
  by (simp add: suffix_append)

lemma run_follows:
  assumes "odict_get (cw_queues (cw_run E xs st)) s = Some q'"
  shows "\<exists>b p. suffix (books q') (b @ loads E s xs st) \<and> suffix (shipped q') (p @ replays E s xs st) \<and>
     (case odict_get (cw_queues st) s of None \<Rightarrow> b = [] \<and> p = [] | Some q \<Rightarrow> b = books q \<and> p = shipped q)"
  using assms
proof (induction xs arbitrary: st)
  case Nil
  then show ?case by simp
next
  case (Cons x xs)
  let ?st = "cw_step E x st"
  obtain b p where ih: "suffix (books q') (b @ loads E s xs ?st)" "suffix (shipped q') (p @ replays E s xs ?st)"
     "case odict_get (cw_queues ?st) s of None \<Rightarrow> b = [] \<and> p = [] | Some q \<Rightarrow> b = books q \<and> p = shipped q"
    using Cons.IH [of ?st] Cons.prems by auto
  let ?b0 = "case odict_get (cw_queues st) s of None \<Rightarrow> [] | Some q \<Rightarrow> books q"
  let ?p0 = "case odict_get (cw_queues st) s of None \<Rightarrow> [] | Some q \<Rightarrow> shipped q"
  have "suffix b (?b0 @ loaded_now E s x st) \<and> suffix p (?p0 @ replayed_now E s x st)"
  proof (cases "odict_get (cw_queues ?st) s")
    case None
    then show ?thesis using ih(3) by simp
  next
    case (Some q)
    then have "b = books q" "p = shipped q" using ih(3) by simp_all
    then show ?thesis using step_follows [OF Some] by (auto simp: follows_def suffix_def)
  qed
  then have "suffix (b @ loads E s xs ?st) ((?b0 @ loaded_now E s x st) @ loads E s xs ?st)"
    "suffix (p @ replays E s xs ?st) ((?p0 @ replayed_now E s x st) @ replays E s xs ?st)"
    by (auto simp: suffix_def)
  then have "suffix (books q') (?b0 @ loads E s (x # xs) st)" "suffix (shipped q') (?p0 @ replays E s (x # xs) st)"
    using ih(1,2) suffix_order.trans by fastforce+
  then show ?case by (intro exI [of _ ?b0] exI [of _ ?p0]) (auto split: option.split)
qed

section \<open>The gate\<close>

lemma update_task_class:
  "classify_tool UPDATE_TASK_TOOL = Inr \<lparr>c_class = INTERNAL_WRITE, c_unmapped = False\<rparr>"
  by code_simp

lemma update_task_keeps_its_arguments:
  assumes "evaluate_tool_call w c args st = (None, args', st')" "tc_tool c = UPDATE_TASK_TOOL"
  shows "args' = args"
proof -
  have "tc_tool c \<noteq> []" using assms(2) by (simp add: UPDATE_TASK_TOOL_def)
  from allowed_call [OF assms(1) this, of "\<lparr>c_class = INTERNAL_WRITE, c_unmapped = False\<rparr>"]
  obtain expo floors cls r st1 where
    a: "allowed_by w c INTERNAL_WRITE args st args' st' expo floors cls r st1"
    using assms(2) update_task_class by auto
  then have "cls = INTERNAL_WRITE \<or> cls = EXTERNAL_SEND_AS_STAFF"
    using effective_class_cases [of w c INTERNAL_WRITE args cls] by (auto simp: allowed_by_def)
  then have "approved_send w c cls args st = None" "approved_act w c cls st = None"
    by (auto simp: approved_send_def sendable_def SEND_CLASSES_def approved_act_def is_commitment_def)
  then show ?thesis using a by (simp add: allowed_by_def call_args_def)
qed

lemma replay_loaded:
  assumes "tc_tool c = UPDATE_TASK_TOOL" "tc_session c \<noteq> []" "fst (fresh now (tc_session c) cw) = Some q"
    and g: "gate_call writer message now w c args cw st = (None, args', cw', st')"
  shows "\<exists>wr rest q'. q_pending q = wr # rest \<and> args' = write_arguments wr \<and>
    odict_get (cw_queues cw') (tc_session c) = Some q' \<and> q_flight q' = Some wr \<and> q_pending q' = rest"
proof -
  note cs = call_state [OF assms(1-3), of writer args]
  obtain r args1 cw1 where rc: "replay_call writer now (tc_session c) (tc_tool c) args cw = (r, args1, cw1)"
    by (cases "replay_call writer now (tc_session c) (tc_tool c) args cw")
  have "r \<noteq> Beyond" using g rc by (auto simp: gate_call_def)
  then obtain wr rest where p: "q_pending q = wr # rest" using cs(1) rc by (cases "q_pending q") auto
  have ev: "evaluate_tool_call w c args1 st = (None, args', st')" "cw' = cw1"
    using g rc \<open>r \<noteq> Beyond\<close> by (auto simp: gate_call_def split: replay.splits prod.splits option.splits)
  then have "args' = args1" using update_task_keeps_its_arguments assms(1) by blast
  then have "args' = write_arguments wr" using cs(2) rc p by simp
  moreover obtain u os where "odict_get (cw_queues cw1) =
      (odict_get (cw_queues cw))(tc_session c \<mapsto> q\<lparr>q_pending := tl (q_pending q),
         q_flight := (case q_pending q of [] \<Rightarrow> None | w # wts \<Rightarrow> Some w),
         q_outcomes := q_outcomes q @ os, q_unwritten := u\<rparr>)"
    using cs(3) rc by auto
  ultimately show ?thesis using p ev(2) by simp
qed

lemma outcomes_truthful:
  assumes "odict_get (cw_queues (cw_run E xs st)) s = Some q'" "out \<in> set (q_outcomes q')" "ao_status out = Completed"
  shows "(\<exists>q. odict_get (cw_queues st) s = Some q \<and> out \<in> set (q_outcomes q)) \<or>
    (\<exists>now kw. Report now s UPDATE_TASK_TOOL kw \<in> set xs \<and>
       fst (post_status (ce_readers E) (ce_json E) kw) = Completed \<and>
       ao_ref out = text_or (ce_readers E) (dget kw ''tool_call_id''))"
  using assms(1)
proof (induction xs arbitrary: st)
  case Nil
  then show ?case using assms(2) by simp
next
  case (Cons x xs)
  have "odict_get (cw_queues (cw_run E xs (cw_step E x st))) s = Some q'" using Cons.prems by simp
  from Cons.IH [OF this] show ?case
  proof
    assume "\<exists>q. odict_get (cw_queues (cw_step E x st)) s = Some q \<and> out \<in> set (q_outcomes q)"
    then obtain q where q: "odict_get (cw_queues (cw_step E x st)) s = Some q" "out \<in> set (q_outcomes q)" by blast
    then have "shipped q \<noteq> []" by (auto simp: shipped_def)
    then have "(\<exists>q. odict_get (cw_queues st) s = Some q \<and> out \<in> set (q_outcomes q)) \<or> truthful E s x out"
      using step_follows [OF q(1)] q(2) unfolding follows_def by blast
    then show ?thesis unfolding truthful_def using assms(3) by auto
  qed auto
qed

definition no_casework :: "'w \<Rightarrow> 'w casework" where
  "no_casework w = \<lparr>cw_queues = empty_odict, cw_world = w\<rparr>"

lemma no_casework_get [simp]: "odict_get (cw_queues (no_casework w)) s = None"
  by (simp add: no_casework_def)

section \<open>A session\<close>

definition demo_env :: "pydict list cw_env" where
  "demo_env = \<lparr>ce_key = demo_key, ce_readers = demo_readers, ce_json = (\<lambda>_. None),
     ce_writer = (\<lambda>w e. (Some (PDict [(''ok'', PBool True)]), w @ [e]))\<rparr>"

definition demo_write :: "string \<Rightarrow> task_write" where
  "demo_write task = \<lparr>tw_task = task, tw_staff = ''9'', tw_key = ''k42__cm_task:'' @ task, tw_matter = ''42'',
     tw_skill = ''close-out'', tw_completed = Some True, tw_assignees = None, tw_n = None, tw_line = []\<rparr>"

definition demo_ops :: "int \<Rightarrow> cw_op list" where
  "demo_ops later = [Load 0 ''s'' [demo_write ''7'', demo_write ''8''], Call 1 ''s'' UPDATE_TASK_TOOL [],
     Report later ''s'' UPDATE_TASK_TOOL [(''tool_call_id'', PStr ''c'')]]"

definition demo_queue :: queue where
  "demo_queue = \<lparr>q_pending = [demo_write ''8''], q_loaded = 0, q_flight = None,
     q_outcomes = [\<lparr>ao_write = demo_write ''7'', ao_status = Completed, ao_reason = [], ao_ref = ''c''\<rparr>],
     q_unwritten = []\<rparr>"

lemma demo_session:
  "odict_get (cw_queues (cw_run demo_env (demo_ops 2) (no_casework []))) ''s'' = Some demo_queue"
  by code_simp

definition demo_loaded :: "pydict list casework" where
  "demo_loaded = cw_run demo_env [Load 0 ''s'' [demo_write ''7'']] (no_casework [])"

definition demo_head :: queue where
  "demo_head = \<lparr>q_pending = [demo_write ''7''], q_loaded = 0, q_flight = None, q_outcomes = [], q_unwritten = []\<rparr>"

lemma demo_fresh: "fst (fresh 1 ''s'' demo_loaded) = Some demo_head"
  by code_simp

definition task_call :: "unit tool_call" where
  "task_call = sample_call UPDATE_TASK_TOOL"

lemma demo_call:
  "fst (gate_call (ce_writer demo_env) (\<lambda>_. []) 1 (sample_world ''internal_write'' ''autonomous'') task_call
     [(''task_id'', PStr ''666'')] demo_loaded sample_state) = None"
  by code_simp

section \<open>Properties\<close>

text \<open>C31: The books of a queue balance. Whatever the register was asked to do, the writes of a queue a
  session holds - those with an outcome, in the order of their outcomes, then the one in flight, then
  those pending - are the latest writes that code loaded for the session, each once and in the order
  they were loaded; and those no longer pending are the latest ones the gate replayed.\<close>

theorem every_loaded_write_is_accounted_for:
  assumes "odict_get (cw_queues (cw_run E xs (no_casework w))) s = Some q"
  shows "suffix (books q) (loads E s xs (no_casework w)) \<and> suffix (shipped q) (replays E s xs (no_casework w))"
  using run_follows [OF assms] by auto

lemma every_loaded_write_is_accounted_for_witness:
  "suffix (books demo_queue) (loads demo_env ''s'' (demo_ops 2) (no_casework [])) \<and>
   suffix (shipped demo_queue) (replays demo_env ''s'' (demo_ops 2) (no_casework []))"
  by (rule every_loaded_write_is_accounted_for [OF demo_session])

text \<open>In a session that holds a queue, an \<open>update_task\<close> call the trust gate lets run executes the
  head of the queue: its arguments are that write's, whatever the model put there, and the write is
  in flight with the rest of the queue behind it.\<close>

theorem task_update_runs_the_queue_head:
  assumes "tc_tool c = UPDATE_TASK_TOOL" "tc_session c \<noteq> []" "fst (fresh now (tc_session c) cw) = Some q"
    and "gate_call writer message now w c args cw st = (None, args', cw', st')"
  shows "\<exists>wr rest q'. q_pending q = wr # rest \<and> args' = write_arguments wr \<and>
    odict_get (cw_queues cw') (tc_session c) = Some q' \<and> q_flight q' = Some wr \<and> q_pending q' = rest"
  by (rule replay_loaded [OF assms])

lemma task_update_runs_the_queue_head_witness:
  "fst (snd (gate_call (ce_writer demo_env) (\<lambda>_. []) 1 (sample_world ''internal_write'' ''autonomous'') task_call
      [(''task_id'', PStr ''666'')] demo_loaded sample_state)) = write_arguments (demo_write ''7'')"
proof -
  let ?g = "gate_call (ce_writer demo_env) (\<lambda>_. []) 1 (sample_world ''internal_write'' ''autonomous'') task_call
      [(''task_id'', PStr ''666'')] demo_loaded sample_state"
  have s: "tc_session task_call = ''s''" "tc_tool task_call = UPDATE_TASK_TOOL"
    by (simp_all add: task_call_def sample_call_def)
  obtain args' cw' st' where g: "?g = (None, args', cw', st')" using demo_call by (cases ?g) auto
  obtain wr rest where "q_pending demo_head = wr # rest" "args' = write_arguments wr"
    using task_update_runs_the_queue_head [OF s(2) _ _ g, of demo_head] demo_fresh s(1) by auto
  then show ?thesis using g by (simp add: demo_head_def)
qed

text \<open>An outcome recorded as completed stands for a report that the call succeeded: the post-call
  hook ran for the session with no failed status, no error type and no error in the result, and the
  outcome carries the id of that call.\<close>

theorem completed_means_reported:
  assumes "odict_get (cw_queues (cw_run E xs (no_casework w))) s = Some q"
    and "out \<in> set (q_outcomes q)" "ao_status out = Completed"
  shows "\<exists>now kw. Report now s UPDATE_TASK_TOOL kw \<in> set xs \<and>
    \<not> tool_call_failed (dget kw ''status'') (dget kw ''error_type'') \<and>
    \<not> result_reports_error (ce_json E) (dget kw ''result'') \<and>
    ao_ref out = text_or (ce_readers E) (dget kw ''tool_call_id'') \<and> ao_ref out \<noteq> []"
proof -
  obtain now kw where r: "Report now s UPDATE_TASK_TOOL kw \<in> set xs"
      "fst (post_status (ce_readers E) (ce_json E) kw) = Completed"
      "ao_ref out = text_or (ce_readers E) (dget kw ''tool_call_id'')"
    using outcomes_truthful [OF assms] by auto
  then show ?thesis by (auto simp: post_status_def split: if_splits)
qed

lemma completed_means_reported_witness:
  "\<exists>now kw. Report now ''s'' UPDATE_TASK_TOOL kw \<in> set (demo_ops 2) \<and>
    \<not> tool_call_failed (dget kw ''status'') (dget kw ''error_type'') \<and>
    \<not> result_reports_error (ce_json demo_env) (dget kw ''result'') \<and>
    ao_ref (hd (q_outcomes demo_queue)) = text_or (ce_readers demo_env) (dget kw ''tool_call_id'') \<and>
    ao_ref (hd (q_outcomes demo_queue)) \<noteq> []"
  by (rule completed_means_reported [OF demo_session]) (simp_all add: demo_queue_def)

text \<open>The row of an outcome fits the ledger: for a well-formed write whose ids are short enough, the
  ledger's validation of the row meets no door but those of an outcome - an open authorization, and for
  a completed write a call that is witnessed and not used before.\<close>

theorem outcome_rows_meet_only_the_outcome_doors:
  assumes "valid_write key_of w" "short_str (PStr (tw_skill w)) 128"
    and "length (tw_task w) \<le> 128" "length (tw_matter w) \<le> 128"
  shows "validate_append R key_of sends calls L (outcome_event w s sid call err) =
    check_outcome calls (outcome_event w s sid call err) (item_now R L (tw_key w)) L"
proof -
  let ?e = "outcome_event w s sid call err"
  have k: "item_key key_of (tw_matter w) ''task'' (tw_task w) = Some (tw_key w)"
    using assms(1) by (simp add: valid_write_def)
  then have ne: "strip (tw_task w) \<noteq> []" "strip (tw_matter w) \<noteq> []" by (auto simp: item_key_def split: if_splits)
  have f: "dget ?e ''event'' = PStr (status_text s)" "dget ?e ''skill'' = PStr (tw_skill w)"
      "dget ?e ''matter_id'' = PStr (tw_matter w)" "dget ?e ''source_id'' = PStr (tw_task w)"
      "dget ?e ''kind'' = PStr ''task''" "dget ?e ''item_key'' = PStr (tw_key w)"
    by (simp_all add: outcome_event_def)
  then have ek: "event_kind ?e = status_text s" "row_key ?e = tw_key w" by (simp_all add: event_kind_def row_key_def)
  have keys: "set (keys ?e) \<subseteq> set (ALLOWED (status_text s))"
    by (cases s) (simp_all add: outcome_event_def status_text_def ALLOWED_def COMMON_def RAISING_EVENTS_def VERDICT_EVENTS_def)
  have "status_text s \<in> set EVENTS" by (cases s) (simp_all add: status_text_def EVENTS_def OUTCOME_EVENTS_def)
  then have id: "validate_identity key_of ?e rest = rest" for rest
    using assms(2-4) ne k keys
    by (simp add: validate_identity_def f ek unless_def among_def short_str_def ITEM_KINDS_def)
  have kinds: "status_text s \<in> set OUTCOME_EVENTS" "status_text s \<notin> set RAISING_EVENTS"
      "status_text s \<notin> set VERDICT_EVENTS" "status_text s \<noteq> ''step_started''" "status_text s \<noteq> ''step_ran''"
      "status_text s \<noteq> ''closed_by_record''" "status_text s \<notin> set WITNESSED_EVENTS"
    by (cases s; simp add: status_text_def OUTCOME_EVENTS_def RAISING_EVENTS_def VERDICT_EVENTS_def WITNESSED_EVENTS_def)+
  then have "''payload'' \<notin> set (ALLOWED (status_text s))" by (simp add: payload_kinds)
  then show ?thesis
    unfolding validate_append_def Let_def id ek using kinds by (simp add: unless_def)
qed

lemma outcome_rows_meet_only_the_outcome_doors_witness:
  "validate_append demo_readers demo_key (\<lambda>_. True) (\<lambda>_. True)
     [stamp_event ''1'' ''a'' demo_raise, stamp_event ''2'' ''b'' demo_answer]
     (outcome_event (demo_write ''7'') Completed ''s'' ''c'' []) = None"
  unfolding outcome_rows_meet_only_the_outcome_doors [of demo_key "demo_write ''7''", simplified demo_write_def
      valid_write_def item_key_def demo_key_def ITEM_KINDS_def short_str_def]
  by code_simp

text \<open>A queue that expires takes its write in flight along: a report that arrives half an hour after
  the load leaves no row, although the call ran and succeeded.\<close>

theorem expiry_forgets_the_write_in_flight:
  "replays demo_env ''s'' (demo_ops (CASEWORK_TTL + 1)) (no_casework []) = [demo_write ''7''] \<and>
   cw_world (cw_run demo_env (demo_ops (CASEWORK_TTL + 1)) (no_casework [])) = []"
  by (rule conjI; code_simp)

end
