(* ===== verification/Escalation_Ledger.thy ===== *)
theory Escalation_Ledger
  imports Casework_Ledger
begin

text \<open>
  The escalation ledger (\<open>shared/escalation_ledger.py\<close>): alarms the Operator raised on a firm's
  deadlines, the acknowledgements that snooze them and the releases that end them. A row is its JSON
  object; the state of an item is folded from its rows in time order; \<open>should_fire\<close> decides whether an
  item rings today. \<open>digest\<close> stands for the hash over the joined components of an item key, \<open>number\<close>
  for the first five bytes of the token hash, \<open>iso_date\<close> for the reading of the date component; case
  folding is that of the ASCII letters. The readers are those of the casework ledger.
\<close>

section \<open>Vocabulary\<close>

definition SCHEMA_VERSION :: int where
  "SCHEMA_VERSION = 2"

definition IDENTITY_EPOCH :: int where
  "IDENTITY_EPOCH = 2"

definition ALARM_EVENTS :: "string list" where
  "ALARM_EVENTS = [''fired'', ''chased'', ''acked'', ''handed_off'', ''resolved'']"

definition ALARM_RAISING :: "string list" where
  "ALARM_RAISING = [''fired'', ''chased'']"

definition RELEASE_EVENTS :: "string list" where
  "RELEASE_EVENTS = [''resolved'', ''handed_off'']"

definition REQUIRED_KEYS :: "string list" where
  "REQUIRED_KEYS = [''ts'', ''skill'', ''item_key'', ''event'']"

definition DETERMINATION_KEYS :: "string list" where
  "DETERMINATION_KEYS = [''note'', ''role_snapshot_sha256'', ''confirmed_via'']"

definition CONFIRMED_VIA :: "string list" where
  "CONFIRMED_VIA = [''matter_record'', ''person'']"

definition ACKED_BY_KEYS :: "string list" where
  "ACKED_BY_KEYS = [''name'', ''key'']"

definition CROCKFORD :: string where
  "CROCKFORD = ''0123456789ABCDEFGHJKMNPQRSTVWXYZ''"

definition UNKNOWN_SENTINELS :: "string list" where
  "UNKNOWN_SENTINELS = [''unknown-matter'']"

section \<open>Identity and token\<close>

definition normalize_id :: "readers \<Rightarrow> pyval \<Rightarrow> string" where
  "normalize_id R v = (case v of PNone \<Rightarrow> [] | PStr s \<Rightarrow> normalized s | _ \<Rightarrow> normalized (rd_str R v))"

definition unit_separator :: char where
  "unit_separator = char_of (31 :: nat)"

text \<open>The label is accepted and ignored; a date that cannot be read raises.\<close>

definition alarm_key ::
  "readers \<Rightarrow> (string \<Rightarrow> string) \<Rightarrow> (pyval \<Rightarrow> string option) \<Rightarrow> pyval \<Rightarrow> pyval \<Rightarrow> pyval \<Rightarrow> pyval \<Rightarrow> string option" where
  "alarm_key R digest iso_date matter source label authored =
     (case iso_date authored of
        None \<Rightarrow> None
      | Some d \<Rightarrow> Some (take 16 (digest
          (normalize_id R matter @ [unit_separator] @ normalize_id R source @ [unit_separator] @ d))))"

definition has_stable_identity :: "readers \<Rightarrow> pyval \<Rightarrow> pyval \<Rightarrow> bool" where
  "has_stable_identity R source matter \<longleftrightarrow>
     normalize_id R source \<noteq> [] \<and>
     normalize_id R source \<notin> set UNKNOWN_SENTINELS \<and> normalize_id R matter \<notin> set UNKNOWN_SENTINELS"

text \<open>Six steps of \<open>divmod(n, 32)\<close>, the last remainder in front.\<close>

fun base32 :: "nat \<Rightarrow> nat \<Rightarrow> string \<Rightarrow> string" where
  "base32 0 n out = out"
| "base32 (Suc i) n out = base32 i (n div 32) (CROCKFORD ! (n mod 32) # out)"

definition token_for :: "(string \<Rightarrow> nat) \<Rightarrow> string \<Rightarrow> string" where
  "token_for number key = ''ACK-'' @ base32 6 (number (''ack-token:'' @ key)) []"

section \<open>Rows\<close>

definition make_event ::
  "string \<Rightarrow> string option \<Rightarrow> string \<Rightarrow> string \<Rightarrow> int \<Rightarrow> string option \<Rightarrow> string option \<Rightarrow> pydict option \<Rightarrow> pydict option" where
  "make_event skill matter key event attempt token ts determination =
     (if event \<notin> set ALARM_EVENTS then None
      else Some
        ([(''v'', PInt SCHEMA_VERSION), (''ts'', opt_str ts), (''skill'', PStr skill), (''matter_id'', opt_str matter),
          (''item_key'', PStr key), (''event'', PStr event), (''attempt'', PInt attempt), (''token'', opt_str token)] @
         (case determination of None \<Rightarrow> [] | Some d \<Rightarrow> [(''determination'', PDict d)])))"

definition valid_event :: "pydict \<Rightarrow> bool" where
  "valid_event e \<longleftrightarrow> set REQUIRED_KEYS \<subseteq> set (keys e) \<and> among (dget e ''event'') ALARM_EVENTS"

text \<open>What \<open>read_ledger\<close> keeps of the parsed lines; \<open>None\<close> is a line that does not parse.\<close>

definition read_alarms :: "pyval option list \<Rightarrow> pydict list" where
  "read_alarms lines =
     List.map_filter (\<lambda>v. case v of Some (PDict e) \<Rightarrow> if valid_event e then Some e else None | _ \<Rightarrow> None) lines"

section \<open>State\<close>

record alarm =
  al_matter :: "string option"
  al_token :: "string option"
  al_raised_ts :: "string option"
  al_raised_day :: "int option"
  al_attempts :: nat
  al_acked :: bool
  al_acked_day :: "int option"
  al_handed :: bool
  al_resolved :: bool
  al_determination :: "pydict option"

definition new_alarm :: alarm where
  "new_alarm =
     \<lparr>al_matter = None, al_token = None, al_raised_ts = None, al_raised_day = None, al_attempts = 0,
      al_acked = False, al_acked_day = None, al_handed = False, al_resolved = False, al_determination = None\<rparr>"

definition is_raise :: "pydict \<Rightarrow> bool" where
  "is_raise e \<longleftrightarrow> event_kind e \<in> set ALARM_RAISING"

definition or_else :: "'a option \<Rightarrow> 'a option \<Rightarrow> 'a option" where
  "or_else x y = (case x of None \<Rightarrow> y | Some v \<Rightarrow> Some v)"

text \<open>The date of a row, of a time stamp of at least ten characters.\<close>

definition alarm_day :: "readers \<Rightarrow> pydict \<Rightarrow> int option" where
  "alarm_day R e =
     (case dget e ''ts'' of PStr t \<Rightarrow> if length t < 10 then None else rd_day R (take 10 t) | _ \<Rightarrow> None)"

definition alarm_fold :: "readers \<Rightarrow> alarm \<Rightarrow> pydict \<Rightarrow> alarm" where
  "alarm_fold R s0 e =
     (let s = s0\<lparr>al_matter := attr_text R (dget e ''matter_id'') (al_matter s0),
                 al_token := attr_text R (dget e ''token'') (al_token s0)\<rparr> in
      if is_raise e
      then s\<lparr>al_attempts := al_attempts s + 1,
             al_raised_ts := or_else (some_str (dget e ''ts'')) (al_raised_ts s),
             al_raised_day := or_else (alarm_day R e) (al_raised_day s),
             al_acked := False, al_resolved := False, al_handed := False\<rparr>
      else if event_kind e = ''acked''
      then s\<lparr>al_acked := True, al_acked_day := or_else (alarm_day R e) (al_acked_day s)\<rparr>
      else if event_kind e = ''handed_off'' then s\<lparr>al_handed := True\<rparr>
      else if event_kind e = ''resolved''
      then s\<lparr>al_resolved := True, al_determination := or_else (some_dict (dget e ''determination'')) (al_determination s)\<rparr>
      else s)"

definition alarm_id :: "readers \<Rightarrow> pydict \<Rightarrow> string" where
  "alarm_id R e = text_or R (dget e ''item_key'')"

definition fold_alarm :: "readers \<Rightarrow> (string \<times> alarm) list \<Rightarrow> pydict \<Rightarrow> (string \<times> alarm) list" where
  "fold_alarm R states e =
     (let k = alarm_id R e in
      if k = [] then states
      else AList.update k (alarm_fold R (case map_of states k of None \<Rightarrow> new_alarm | Some s \<Rightarrow> s) e) states)"

definition derive_alarms :: "readers \<Rightarrow> pydict list \<Rightarrow> (string \<times> alarm) list" where
  "derive_alarms R events = foldl (fold_alarm R) [] (sort_key (ts_text R) events)"

definition next_attempt :: "alarm option \<Rightarrow> nat" where
  "next_attempt s = (case s of None \<Rightarrow> 1 | Some a \<Rightarrow> al_attempts a + 1)"

definition should_fire :: "alarm option \<Rightarrow> int \<Rightarrow> int \<Rightarrow> int \<Rightarrow> bool" where
  "should_fire st today refire_days ack_snooze_days =
     (case st of
        None \<Rightarrow> True
      | Some s \<Rightarrow>
          if al_resolved s \<or> al_handed s then False
          else if al_acked s
          then (case al_acked_day s of None \<Rightarrow> True | Some d \<Rightarrow> d + max 0 ack_snooze_days \<le> today)
          else (case al_raised_day s of None \<Rightarrow> True | Some d \<Rightarrow> d + max 0 refire_days \<le> today))"

section \<open>Validation\<close>

definition pre_identity_epoch :: "pydict \<Rightarrow> bool" where
  "pre_identity_epoch e =
     (case py_int (if truthy (dget e ''v'') then dget e ''v'' else PInt 1) of
        Inl _ \<Rightarrow> True | Inr n \<Rightarrow> n < IDENTITY_EPOCH)"

datatype alarm_door =
    Unknown_Alarm_Event | No_Item_Key | No_Alarm_Skill | Determination_Misplaced | Bad_Determination
  | Acked_By_Misplaced | Bad_Acked_By | Nothing_Sent | Foreign_Token | Stale_Code | Never_Raised

definition refuse_unless :: "bool \<Rightarrow> 'd \<Rightarrow> 'd option \<Rightarrow> 'd option" where
  "refuse_unless b d rest = (if b then rest else Some d)"

definition valid_acked_by :: "pyval \<Rightarrow> bool" where
  "valid_acked_by v =
     (case v of
        PDict d \<Rightarrow> set (keys d) \<subseteq> set ACKED_BY_KEYS \<and> short_str (dget d ''name'') 120 \<and>
          str_matches (hex_text 64) (dget d ''key'')
      | _ \<Rightarrow> False)"

definition valid_determination :: "pyval \<Rightarrow> bool" where
  "valid_determination v =
     (case v of
        PDict d \<Rightarrow> set (keys d) \<subseteq> set DETERMINATION_KEYS \<and> short_str (dget d ''note'') 500 \<and>
          str_matches (hex_text 64) (dget d ''role_snapshot_sha256'') \<and> among (dget d ''confirmed_via'') CONFIRMED_VIA
      | _ \<Rightarrow> False)"

text \<open>The scan for a raise that answers for the row: a current one, or only superseded ones.\<close>

definition prior_raise :: "(pydict \<Rightarrow> bool) \<Rightarrow> pydict list \<Rightarrow> alarm_door option" where
  "prior_raise matches existing =
     (let hits = filter (\<lambda>p. is_raise p \<and> matches p) existing in
      if \<exists>p \<in> set hits. \<not> pre_identity_epoch p then None
      else if hits \<noteq> [] then Some Stale_Code else Some Never_Raised)"

definition validate_alarm ::
  "readers \<Rightarrow> (string \<Rightarrow> nat) \<Rightarrow> (pydict \<Rightarrow> bool) \<Rightarrow> pydict list \<Rightarrow> pydict \<Rightarrow> alarm_door option" where
  "validate_alarm R number send_witness existing e =
     (let kind = event_kind e; key = alarm_id R e; token = dget e ''token'';
          det = dget e ''determination''; by = dget e ''acked_by'' in
      refuse_unless (among (dget e ''event'') ALARM_EVENTS) Unknown_Alarm_Event
        (refuse_unless (strip key \<noteq> []) No_Item_Key
          (refuse_unless (strip (text_or R (dget e ''skill'')) \<noteq> []) No_Alarm_Skill
            (refuse_unless (det \<noteq> PNone \<longrightarrow> kind = ''resolved'') Determination_Misplaced
              (refuse_unless (det \<noteq> PNone \<longrightarrow> valid_determination det) Bad_Determination
                (refuse_unless (by \<noteq> PNone \<longrightarrow> kind = ''acked'') Acked_By_Misplaced
                  (refuse_unless (by \<noteq> PNone \<longrightarrow> valid_acked_by by) Bad_Acked_By
                    (refuse_unless (is_raise e \<longrightarrow> send_witness e) Nothing_Sent
                      (if kind = ''acked''
                       then refuse_unless (token \<noteq> PNone \<longrightarrow> attr_text R token None = Some (token_for number key)) Foreign_Token
                              (prior_raise (\<lambda>p. token \<noteq> PNone \<and> dget p ''token'' = token \<or> dget p ''item_key'' = PStr key) existing)
                       else if kind \<in> set RELEASE_EVENTS
                       then prior_raise (\<lambda>p. dget p ''item_key'' = PStr key) existing
                       else None)))))))))"

definition stamp_alarm :: "string \<Rightarrow> string \<Rightarrow> pydict \<Rightarrow> pydict" where
  "stamp_alarm ts ulid e =
     (let e' = AList.update ''id'' (PStr ulid) (AList.update ''ts'' (PStr ts) e)
      in if map_of e' ''v'' = None then AList.update ''v'' (PInt SCHEMA_VERSION) e' else e')"

section \<open>Reading an alarm off its rows\<close>

definition alarm_rows :: "readers \<Rightarrow> string \<Rightarrow> pydict list \<Rightarrow> pydict list" where
  "alarm_rows R k L = sort_key (ts_text R) (filter (\<lambda>e. alarm_id R e = k) L)"

definition alarm_now :: "readers \<Rightarrow> pydict list \<Rightarrow> string \<Rightarrow> alarm option" where
  "alarm_now R L k = map_of (derive_alarms R L) k"

abbreviation alarm_of :: "readers \<Rightarrow> pydict list \<Rightarrow> alarm" where
  "alarm_of R F \<equiv> foldl (alarm_fold R) new_alarm F"

lemma fold_alarms:
  assumes "k \<noteq> []"
  shows "map_of (foldl (fold_alarm R) [] F) k =
    (let G = filter (\<lambda>e. alarm_id R e = k) F in if G = [] then None else Some (alarm_of R G))"
proof (induction F rule: rev_induct)
  case (snoc e F)
  show ?case
  proof (cases "alarm_id R e = k")
    case True
    then show ?thesis using snoc assms by (auto simp: fold_alarm_def Let_def update_conv')
  next
    case False
    then show ?thesis using snoc by (auto simp: fold_alarm_def Let_def update_conv')
  qed
qed simp

lemma alarm_now_rows:
  assumes "k \<noteq> []"
  shows "alarm_now R L k = (if alarm_rows R k L = [] then None else Some (alarm_of R (alarm_rows R k L)))"
proof -
  have "filter (\<lambda>e. alarm_id R e = k) (sort_key (ts_text R) L) = alarm_rows R k L"
    unfolding alarm_rows_def by (rule filter_sort)
  then show ?thesis by (simp add: alarm_now_def derive_alarms_def fold_alarms [OF assms] Let_def)
qed

text \<open>The rows after the last raise.\<close>

definition since_raise :: "pydict list \<Rightarrow> pydict list" where
  "since_raise F = rev (takeWhile (\<lambda>e. \<not> is_raise e) (rev F))"

lemma since_raise_snoc [simp]:
  "since_raise (F @ [e]) = (if is_raise e then [] else since_raise F @ [e])"
  by (simp add: since_raise_def)

lemma since_raise_subset: "set (since_raise F) \<subseteq> set F"
  by (auto simp: since_raise_def dest: set_takeWhileD)

lemma raise_kind: "is_raise e \<Longrightarrow> event_kind e \<notin> {''acked'', ''handed_off'', ''resolved''}"
  by (auto simp: is_raise_def ALARM_RAISING_def)

lemma alarm_fold_flags:
  "al_attempts (alarm_fold R s e) = (if is_raise e then al_attempts s + 1 else al_attempts s)"
  "al_acked (alarm_fold R s e) \<longleftrightarrow> \<not> is_raise e \<and> (event_kind e = ''acked'' \<or> al_acked s)"
  "al_handed (alarm_fold R s e) \<longleftrightarrow> \<not> is_raise e \<and> (event_kind e = ''handed_off'' \<or> al_handed s)"
  "al_resolved (alarm_fold R s e) \<longleftrightarrow> \<not> is_raise e \<and> (event_kind e = ''resolved'' \<or> al_resolved s)"
  "al_raised_day (alarm_fold R s e) = (if is_raise e then or_else (alarm_day R e) (al_raised_day s) else al_raised_day s)"
  "al_acked_day (alarm_fold R s e) =
     (if \<not> is_raise e \<and> event_kind e = ''acked'' then or_else (alarm_day R e) (al_acked_day s) else al_acked_day s)"
  by (simp_all add: alarm_fold_def Let_def)

lemma alarm_of_flags:
  "al_attempts (alarm_of R F) = length (filter is_raise F)"
  "al_acked (alarm_of R F) \<longleftrightarrow> (\<exists>e \<in> set (since_raise F). event_kind e = ''acked'')"
  "al_handed (alarm_of R F) \<longleftrightarrow> (\<exists>e \<in> set (since_raise F). event_kind e = ''handed_off'')"
  "al_resolved (alarm_of R F) \<longleftrightarrow> (\<exists>e \<in> set (since_raise F). event_kind e = ''resolved'')"
  by (induction F rule: rev_induct) (auto simp: alarm_fold_flags new_alarm_def since_raise_def)

lemma alarm_of_days:
  "al_raised_day (alarm_of R F) = Some d \<Longrightarrow> \<exists>e \<in> set F. alarm_day R e = Some d"
  "al_acked_day (alarm_of R F) = Some d \<Longrightarrow> \<exists>e \<in> set F. alarm_day R e = Some d"
  by (induction F rule: rev_induct)
    (auto simp: alarm_fold_flags new_alarm_def or_else_def split: if_splits option.splits)

lemma released_flag:
  "al_resolved (alarm_of R F) \<or> al_handed (alarm_of R F) \<longleftrightarrow> (\<exists>e \<in> set (since_raise F). event_kind e \<in> set RELEASE_EVENTS)"
  by (auto simp: alarm_of_flags RELEASE_EVENTS_def)

section \<open>The ledger as it grows\<close>

inductive alarms_grown :: "readers \<Rightarrow> (string \<Rightarrow> nat) \<Rightarrow> pydict list \<Rightarrow> bool" for R number where
  alarms_empty: "alarms_grown R number []"
| alarms_append:
    "alarms_grown R number L \<Longrightarrow> validate_alarm R number sends L e = None \<Longrightarrow> ts \<noteq> [] \<Longrightarrow>
     \<forall>x \<in> set L. ts_text R x \<le> ts \<Longrightarrow> alarms_grown R number (L @ [stamp_alarm ts ulid e])"

lemma refuse_unless_None [simp]: "(refuse_unless b d rest = None) = (b \<and> rest = None)"
  by (simp add: refuse_unless_def)

lemma stamp_alarm_field [simp]:
  "k \<noteq> ''ts'' \<Longrightarrow> k \<noteq> ''id'' \<Longrightarrow> k \<noteq> ''v'' \<Longrightarrow> dget (stamp_alarm ts u e) k = dget e k"
  by (simp add: stamp_alarm_def Let_def dget_update)

lemma stamp_alarm_simps [simp]:
  "event_kind (stamp_alarm ts u e) = event_kind e" "is_raise (stamp_alarm ts u e) = is_raise e"
  "alarm_id R (stamp_alarm ts u e) = alarm_id R e"
  by (simp_all add: event_kind_def is_raise_def alarm_id_def)

lemma prior_raise_None: "prior_raise P L = None \<Longrightarrow> \<exists>p \<in> set L. is_raise p \<and> P p \<and> \<not> pre_identity_epoch p"
  by (auto simp: prior_raise_def Let_def split: if_splits)

lemma accepted_release:
  assumes "validate_alarm R number sends L e = None" "event_kind e \<in> set RELEASE_EVENTS"
  shows "\<exists>p \<in> set L. is_raise p \<and> dget p ''item_key'' = PStr (alarm_id R e) \<and> \<not> pre_identity_epoch p"
proof -
  have "event_kind e \<noteq> ''acked''" using assms(2) by (auto simp: RELEASE_EVENTS_def)
  then have "prior_raise (\<lambda>p. dget p ''item_key'' = PStr (alarm_id R e)) L = None"
    using assms by (simp add: validate_alarm_def Let_def)
  then show ?thesis by (rule prior_raise_None)
qed

lemma accepted_ack:
  assumes "validate_alarm R number sends L e = None" "event_kind e = ''acked''"
  shows "\<exists>p \<in> set L. is_raise p \<and> \<not> pre_identity_epoch p \<and>
    (dget p ''item_key'' = PStr (alarm_id R e) \<or>
     attr_text R (dget p ''token'') None = Some (token_for number (alarm_id R e)))"
proof -
  let ?t = "dget e ''token''"
  have "prior_raise (\<lambda>p. ?t \<noteq> PNone \<and> dget p ''token'' = ?t \<or> dget p ''item_key'' = PStr (alarm_id R e)) L = None"
    "?t \<noteq> PNone \<longrightarrow> attr_text R ?t None = Some (token_for number (alarm_id R e))"
    using assms by (simp_all add: validate_alarm_def Let_def)
  then obtain p where p: "p \<in> set L" "is_raise p" "\<not> pre_identity_epoch p"
      "?t \<noteq> PNone \<and> dget p ''token'' = ?t \<or> dget p ''item_key'' = PStr (alarm_id R e)"
    using prior_raise_None by blast
  then have "dget p ''item_key'' = PStr (alarm_id R e) \<or>
      attr_text R (dget p ''token'') None = Some (token_for number (alarm_id R e))"
    using \<open>?t \<noteq> PNone \<longrightarrow> attr_text R ?t None = Some (token_for number (alarm_id R e))\<close> by auto
  then show ?thesis using p(1-3) by blast
qed

lemma accepted_raise_sent:
  assumes "validate_alarm R number sends L e = None" "is_raise e"
  shows "sends e"
  using assms by (simp add: validate_alarm_def Let_def)

lemma alarms_at:
  "alarms_grown R number L \<Longrightarrow> L = A @ r # B \<Longrightarrow>
     (\<exists>e sends ts u. r = stamp_alarm ts u e \<and> validate_alarm R number sends A e = None)"
proof (induction arbitrary: B rule: alarms_grown.induct)
  case (alarms_append L sends e ts ulid)
  show ?case
  proof (cases B rule: rev_cases)
    case Nil
    then have "L = A" "r = stamp_alarm ts ulid e" using alarms_append.prems by simp_all
    then show ?thesis using alarms_append.hyps(2) by blast
  next
    case (snoc B' b)
    then have "L = A @ r # B'" using alarms_append.prems by simp
    then show ?thesis by (rule alarms_append.IH)
  qed
qed simp

section \<open>Examples\<close>

definition demo_alarm :: "string \<Rightarrow> string \<Rightarrow> (string \<times> pyval) list \<Rightarrow> pydict" where
  "demo_alarm key ev rest =
     [(''skill'', PStr ''deadlines''), (''item_key'', PStr key), (''event'', PStr ev)] @ rest"

definition day_readers :: readers where
  "day_readers = \<lparr>rd_str = (\<lambda>_. ''None''), rd_day = (\<lambda>t. if t = ''2026-08-11'' then Some 10 else if t = ''2026-08-12'' then Some 11 else None)\<rparr>"

definition demo_number :: "string \<Rightarrow> nat" where
  "demo_number key = sum_list (map of_char key)"

definition demo_fired :: pydict where
  "demo_fired = stamp_alarm ''2026-08-11'' ''a'' (demo_alarm ''k'' ''fired'' [])"

definition demo_released :: pydict where
  "demo_released = stamp_alarm ''2026-08-12'' ''b'' (demo_alarm ''k'' ''resolved'' [])"

lemma demo_alarms_accepted:
  "validate_alarm day_readers demo_number (\<lambda>_. True) [] (demo_alarm ''k'' ''fired'' []) = None"
  "validate_alarm day_readers demo_number (\<lambda>_. True) [demo_fired] (demo_alarm ''k'' ''resolved'' []) = None"
  by code_simp+

lemma demo_alarms_grown: "alarms_grown day_readers demo_number [demo_fired, demo_released]"
proof -
  have "alarms_grown day_readers demo_number ([] @ [demo_fired])"
    unfolding demo_fired_def by (rule alarms_append [OF alarms_empty demo_alarms_accepted(1)]) simp_all
  then have a: "alarms_grown day_readers demo_number [demo_fired]" by simp
  have "\<forall>x \<in> set [demo_fired]. ts_text day_readers x \<le> ''2026-08-12''" by code_simp
  then have "alarms_grown day_readers demo_number ([demo_fired] @ [demo_released])"
    unfolding demo_released_def by (intro alarms_append [OF a demo_alarms_accepted(2)]) simp_all
  then show ?thesis by simp
qed

section \<open>Properties\<close>

text \<open>The state folded for an item is what its rows say since its last raise: the attempts count the
  raises, and the item is acknowledged, handed off or resolved exactly when such a row follows the last
  raise, so no silencer survives a raise, whatever the order of the rows in the file.\<close>

theorem alarm_reads_since_its_last_raise:
  assumes "k \<noteq> []" "alarm_now R L k = Some s"
  shows "al_attempts s = length (filter is_raise (alarm_rows R k L)) \<and>
    (al_acked s \<longleftrightarrow> (\<exists>e \<in> set (since_raise (alarm_rows R k L)). event_kind e = ''acked'')) \<and>
    (al_handed s \<longleftrightarrow> (\<exists>e \<in> set (since_raise (alarm_rows R k L)). event_kind e = ''handed_off'')) \<and>
    (al_resolved s \<longleftrightarrow> (\<exists>e \<in> set (since_raise (alarm_rows R k L)). event_kind e = ''resolved''))"
proof -
  have "s = alarm_of R (alarm_rows R k L)" using assms by (auto simp: alarm_now_rows split: if_splits)
  then show ?thesis by (simp add: alarm_of_flags)
qed

lemma alarm_reads_since_its_last_raise_witness:
  "\<exists>s. alarm_now day_readers [demo_released, demo_fired] ''k'' = Some s \<and> al_resolved s \<and>
    (\<exists>e \<in> set (since_raise (alarm_rows day_readers ''k'' [demo_released, demo_fired])). event_kind e = ''resolved'')"
proof -
  have "alarm_now day_readers [demo_released, demo_fired] ''k'' \<noteq> None \<and>
      al_resolved (the (alarm_now day_readers [demo_released, demo_fired] ''k''))" by code_simp
  then obtain s where s: "alarm_now day_readers [demo_released, demo_fired] ''k'' = Some s" "al_resolved s" by auto
  then show ?thesis using alarm_reads_since_its_last_raise [OF _ s(1)] by auto
qed

text \<open>C36: An alarm nobody released rings again: if no row after an item's last raise releases it, it fires
  on every day that is the re-fire window and the acknowledgement window past the last day of its rows,
  so an acknowledgement only snoozes it.\<close>

theorem unreleased_alarm_rings_again:
  assumes "k \<noteq> []" "\<forall>e \<in> set (since_raise (alarm_rows R k L)). event_kind e \<notin> set RELEASE_EVENTS"
    and "\<forall>e \<in> set (alarm_rows R k L). \<forall>d. alarm_day R e = Some d \<longrightarrow> d \<le> day"
    and "day + max 0 refire_days \<le> today" "day + max 0 ack_snooze_days \<le> today"
  shows "should_fire (alarm_now R L k) today refire_days ack_snooze_days"
proof (cases "alarm_now R L k")
  case None
  then show ?thesis by (simp add: should_fire_def)
next
  case (Some s)
  then have s: "s = alarm_of R (alarm_rows R k L)" using assms(1) by (auto simp: alarm_now_rows split: if_splits)
  have "\<not> (al_resolved s \<or> al_handed s)" unfolding s released_flag using assms(2) by blast
  moreover have "\<forall>d. al_raised_day s = Some d \<longrightarrow> d \<le> day" "\<forall>d. al_acked_day s = Some d \<longrightarrow> d \<le> day"
    unfolding s using assms(3) alarm_of_days by blast+
  ultimately show ?thesis using assms(4,5) Some
    by (auto simp: should_fire_def split: option.split)
qed

lemma unreleased_alarm_rings_again_witness:
  "should_fire (alarm_now day_readers [demo_fired] ''k'') 17 7 7"
proof (rule unreleased_alarm_rings_again [where day = 10])
  show "\<forall>e \<in> set (since_raise (alarm_rows day_readers ''k'' [demo_fired])). event_kind e \<notin> set RELEASE_EVENTS"
    by code_simp
  show "\<forall>e \<in> set (alarm_rows day_readers ''k'' [demo_fired]). \<forall>d. alarm_day day_readers e = Some d \<longrightarrow> d \<le> 10"
  proof -
    have "alarm_rows day_readers ''k'' [demo_fired] = [demo_fired] \<and> alarm_day day_readers demo_fired = Some 10"
      by code_simp
    then show ?thesis by simp
  qed
qed simp_all

text \<open>An alarm does not ring daily: while the newest row of an item is a raise of a known day, the item
  fires exactly from that day plus the re-fire window on.\<close>

theorem newest_raise_holds_for_its_window:
  assumes "k \<noteq> []" "alarm_rows R k L = F @ [r]" "is_raise r" "alarm_day R r = Some d"
  shows "should_fire (alarm_now R L k) today refire_days ack_snooze_days \<longleftrightarrow> d + max 0 refire_days \<le> today"
proof -
  have "alarm_now R L k = Some (alarm_fold R (alarm_of R F) r)"
    using assms(1,2) by (simp add: alarm_now_rows)
  then show ?thesis using assms(3,4) by (simp add: should_fire_def alarm_fold_flags or_else_def)
qed

lemma newest_raise_holds_for_its_window_witness:
  "should_fire (alarm_now day_readers [demo_fired] ''k'') 16 7 7 \<longleftrightarrow> (10::int) + max 0 7 \<le> 16"
proof (rule newest_raise_holds_for_its_window [where F = "[]" and r = demo_fired])
  show "alarm_rows day_readers ''k'' [demo_fired] = [] @ [demo_fired]" by code_simp
  show "is_raise demo_fired" by code_simp
  show "alarm_day day_readers demo_fired = Some 10" by code_simp
qed simp

text \<open>Nothing is silenced that never rang: an acknowledgement or a release in a ledger built by
  validated appends has an earlier raise of the current identity epoch, of the same item - or, for an
  acknowledgement, one that carries the item's code.\<close>

theorem silencing_needs_a_ring:
  assumes "alarms_grown R number L" "L = A @ r # B" "event_kind r = ''acked'' \<or> event_kind r \<in> set RELEASE_EVENTS"
  shows "\<exists>p \<in> set A. is_raise p \<and> \<not> pre_identity_epoch p \<and>
    (dget p ''item_key'' = PStr (alarm_id R r) \<or>
     event_kind r = ''acked'' \<and> attr_text R (dget p ''token'') None = Some (token_for number (alarm_id R r)))"
proof -
  obtain e sends ts u where e: "r = stamp_alarm ts u e" "validate_alarm R number sends A e = None"
    using alarms_at [OF assms(1,2)] by blast
  show ?thesis
  proof (cases "event_kind e = ''acked''")
    case True
    from accepted_ack [OF e(2) True] show ?thesis unfolding e(1) using True by auto
  next
    case False
    then have "event_kind e \<in> set RELEASE_EVENTS" using assms(3) e(1) by simp
    from accepted_release [OF e(2) this] show ?thesis unfolding e(1) by auto
  qed
qed

lemma silencing_needs_a_ring_witness:
  "\<exists>p \<in> set [demo_fired]. is_raise p \<and> \<not> pre_identity_epoch p \<and>
    (dget p ''item_key'' = PStr (alarm_id day_readers demo_released) \<or>
     event_kind demo_released = ''acked'' \<and>
       attr_text day_readers (dget p ''token'') None = Some (token_for demo_number (alarm_id day_readers demo_released)))"
  by (rule silencing_needs_a_ring [OF demo_alarms_grown, where B = "[]"]) (simp, code_simp)

text \<open>The code of a raise is not checked: a raise of one item that carries another item's code lets an
  acknowledgement of that other item through, which then reads as acknowledged without one attempt.\<close>

theorem foreign_code_on_a_raise_silences_a_stranger:
  "validate_alarm day_readers demo_number (\<lambda>_. True)
     [stamp_alarm ''2026-08-11'' ''a'' (demo_alarm ''k'' ''fired'' [(''token'', PStr (token_for demo_number ''other''))])]
     (demo_alarm ''other'' ''acked'' [(''token'', PStr (token_for demo_number ''other''))]) = None \<and>
   map_option (\<lambda>s. (al_acked s, al_attempts s)) (alarm_now day_readers
     [stamp_alarm ''2026-08-11'' ''a'' (demo_alarm ''k'' ''fired'' [(''token'', PStr (token_for demo_number ''other''))]),
      stamp_alarm ''2026-08-12'' ''b'' (demo_alarm ''other'' ''acked'' [])] ''other'') = Some (True, 0)"
  by code_simp

end
