(* ===== verification/Read_Volume.thy ===== *)
theory Read_Volume
  imports Trust_Gate Inbound
begin

text \<open>
  The read-volume gate (\<open>shared/read_volume.py\<close>): which sessions are a review, the pages of the
  distinct documents each has read, and the refusal of the read that would carry a review past the
  authored threshold. \<open>re_json\<close> is \<open>json.loads\<close> of a text that looks like JSON, \<open>re_str\<close> is \<open>str\<close> of a
  value that is not a string, an integer or a constant. The trace journal and the log lines are left
  out.
\<close>

section \<open>State\<close>

definition GATED_SKILL :: string where
  "GATED_SKILL = ''opposing-response-deficiency-review''"

definition SETTING_KEY :: string where
  "SETTING_KEY = ''review_threshold_pages''"

definition COUNTED_TOOL :: string where
  "COUNTED_TOOL = ''mcp_smokeball_read_document''"

definition FALLBACK_CHARS_PER_PAGE :: int where
  "FALLBACK_CHARS_PER_PAGE = 3000"

definition VOLUME_SESSIONS :: nat where
  "VOLUME_SESSIONS = 256"

definition UNBOUND_TTL :: int where
  "UNBOUND_TTL = 180 * 1000000"

definition UNBOUND_MAX :: nat where
  "UNBOUND_MAX = 8"

datatype gate_mode = Gate_Off | Gate_Report | Gate_Block

definition volume_mode :: "string \<Rightarrow> gate_mode" where
  "volume_mode raw =
     (if normalized raw = ''off'' then Gate_Off
      else if normalized raw = ''report'' then Gate_Report else Gate_Block)"

record review =
  rv_review :: bool
  rv_pages :: "(string \<times> int) list"
  rv_unmeasured :: "string list"
  rv_names :: "(string \<times> string) list"
  rv_reported :: bool

definition new_review :: review where
  "new_review = \<lparr>rv_review = False, rv_pages = [], rv_unmeasured = [], rv_names = [], rv_reported = False\<rparr>"

record volumes =
  vs_sessions :: "(string, review) odict"
  vs_routes :: "int list"

record volume_env =
  re_json :: "string \<Rightarrow> pyval option"
  re_str :: "pyval \<Rightarrow> string"
  re_mode :: string
  re_config :: config_file

definition review_of :: "string \<Rightarrow> volumes \<Rightarrow> review" where
  "review_of sid vs = (case odict_get (vs_sessions vs) sid of None \<Rightarrow> new_review | Some r \<Rightarrow> r)"

text \<open>\<open>_state(session_id)\<close>, then a change to it.\<close>

definition with_state :: "string \<Rightarrow> (review \<Rightarrow> review) \<Rightarrow> volumes \<Rightarrow> volumes" where
  "with_state sid f vs =
     vs\<lparr>vs_sessions := odict_put VOLUME_SESSIONS sid (f (review_of sid vs)) (vs_sessions vs)\<rparr>"

definition mark_review :: "review \<Rightarrow> review" where
  "mark_review r = r\<lparr>rv_review := True\<rparr>"

section \<open>Which sessions are a review\<close>

definition last_n :: "nat \<Rightarrow> 'a list \<Rightarrow> 'a list" where
  "last_n n xs = drop (length xs - n) xs"

definition record_route :: "int \<Rightarrow> string \<Rightarrow> string \<Rightarrow> volumes \<Rightarrow> volumes" where
  "record_route now sid skill vs =
     (if strip skill \<noteq> GATED_SKILL then vs
      else if sid \<noteq> [] then with_state sid mark_review vs
      else vs\<lparr>vs_routes := last_n UNBOUND_MAX (vs_routes vs @ [now])\<rparr>)"

definition claim_unbound_routes :: "int \<Rightarrow> string \<Rightarrow> volumes \<Rightarrow> volumes" where
  "claim_unbound_routes now sid vs =
     (let vs' = vs\<lparr>vs_routes := dropWhile (\<lambda>t. now - t > UNBOUND_TTL) (vs_routes vs)\<rparr>
      in if sid = [] \<or> vs_routes vs' = [] then vs' else with_state sid mark_review vs')"

section \<open>Counting\<close>

definition looks_json :: "string \<Rightarrow> bool" where
  "looks_json t \<longleftrightarrow> t \<noteq> [] \<and> (hd t = CHR ''{'' \<or> hd t = CHR ''['')"

definition read_json :: "volume_env \<Rightarrow> string \<Rightarrow> pyval option" where
  "read_json E s = (if looks_json (strip s) then re_json E (strip s) else None)"

definition as_payload :: "volume_env \<Rightarrow> pyval \<Rightarrow> pyval option" where
  "as_payload E v =
     (case v of PDict d \<Rightarrow> Some v | PList xs \<Rightarrow> Some v | PStr s \<Rightarrow> read_json E s | _ \<Rightarrow> None)"

text \<open>The walk down the wrappings: \<open>n\<close> nodes are left, the next one is in front.\<close>

fun walk_fields :: "volume_env \<Rightarrow> nat \<Rightarrow> pyval list \<Rightarrow> pydict option" where
  "walk_fields E 0 stack = None"
| "walk_fields E (Suc n) [] = None"
| "walk_fields E (Suc n) (PStr s # stack) =
     walk_fields E n (case read_json E s of None \<Rightarrow> stack | Some v \<Rightarrow> v # stack)"
| "walk_fields E (Suc n) (PDict d # stack) =
     (if ''fileId'' \<in> set (keys d) \<or> ''file_id'' \<in> set (keys d) then Some d
      else walk_fields E n (rev (map snd d) @ stack))"
| "walk_fields E (Suc n) (PList xs # stack) = walk_fields E n (rev xs @ stack)"
| "walk_fields E (Suc n) (v # stack) = walk_fields E n stack"

definition walk_read_fields :: "volume_env \<Rightarrow> pyval \<Rightarrow> pydict option" where
  "walk_read_fields E v = walk_fields E 200 [v]"

text \<open>\<open>isinstance(v, (int, float)) and v > 0\<close>, with its value.\<close>

definition positive_number :: "pyval \<Rightarrow> rat option" where
  "positive_number v =
     (case v of
        PInt i \<Rightarrow> if 0 < i then Some (of_int i) else None
      | PBool b \<Rightarrow> if b then Some 1 else None
      | PFloat r \<Rightarrow> if 0 < r then Some r else None
      | _ \<Rightarrow> None)"

definition first_set :: "pydict \<Rightarrow> string \<Rightarrow> string \<Rightarrow> pyval" where
  "first_set d a b = (if dget d a = PNone then dget d b else dget d a)"

text \<open>The pages of a document; \<open>None\<close> when the envelope carries no volume signal.\<close>

definition document_pages :: "pydict \<Rightarrow> int option" where
  "document_pages d =
     (case positive_number (first_set d ''pageCount'' ''page_count'') of
        Some p \<Rightarrow> Some \<lfloor>p\<rfloor>
      | None \<Rightarrow>
          (case positive_number (first_set d ''total_chars'' ''totalChars'') of
             Some c \<Rightarrow> Some (max 1 \<lceil>c / of_int FALLBACK_CHARS_PER_PAGE\<rceil>)
           | None \<Rightarrow> None))"

definition file_of :: "volume_env \<Rightarrow> pydict \<Rightarrow> string" where
  "file_of E d =
     (if truthy (dget d ''fileId'') then py_str (re_str E) (dget d ''fileId'')
      else if truthy (dget d ''file_id'') then py_str (re_str E) (dget d ''file_id'') else [])"

definition count_document :: "string \<Rightarrow> pydict \<Rightarrow> review \<Rightarrow> review" where
  "count_document file d r =
     (if file \<in> set (keys (rv_pages r)) \<or> file \<in> set (rv_unmeasured r) then r
      else let r' = (case document_pages d of
                       Some p \<Rightarrow> r\<lparr>rv_pages := rv_pages r @ [(file, p)]\<rparr>
                     | None \<Rightarrow> r\<lparr>rv_unmeasured := rv_unmeasured r @ [file]\<rparr>)
           in case dget d ''name'' of
                PStr n \<Rightarrow> if n = [] then r' else r'\<lparr>rv_names := AList.update file n (rv_names r')\<rparr>
              | _ \<Rightarrow> r')"

definition joined_args :: "volume_env \<Rightarrow> pyval \<Rightarrow> string" where
  "joined_args E args =
     (case args of
        PDict d \<Rightarrow> concat (case map (\<lambda>(k, v). py_str (re_str E) v) d of [] \<Rightarrow> [] | x # xs \<Rightarrow> x # map (\<lambda>y. '' '' @ y) xs)
      | PStr s \<Rightarrow> s
      | _ \<Rightarrow> [])"

definition reads_the_procedure :: "volume_env \<Rightarrow> string \<Rightarrow> pyval \<Rightarrow> bool" where
  "reads_the_procedure E tool args \<longleftrightarrow>
     contains (joined_args E args) GATED_SKILL \<and> (tool = ''skill_view'' \<or> contains (joined_args E args) ''SKILL.md'')"

definition note_document :: "volume_env \<Rightarrow> string \<Rightarrow> pyval \<Rightarrow> volumes \<Rightarrow> volumes" where
  "note_document E sid result vs =
     (let v = (case result of PStr s \<Rightarrow> PStr (unwrap_inbound s) | _ \<Rightarrow> result) in
      case (case as_payload E v of None \<Rightarrow> None | Some p \<Rightarrow> walk_read_fields E p) of
        None \<Rightarrow> vs
      | Some d \<Rightarrow> if file_of E d = [] then vs else with_state sid (count_document (file_of E d) d) vs)"

definition note_read :: "volume_env \<Rightarrow> string \<Rightarrow> string \<Rightarrow> pyval \<Rightarrow> pyval \<Rightarrow> volumes \<Rightarrow> volumes" where
  "note_read E sid tool args result vs =
     (if sid = [] then vs
      else if tool = ''read_file'' \<or> tool = ''skill_view''
      then (if reads_the_procedure E tool args then with_state sid mark_review vs else vs)
      else if tool \<noteq> COUNTED_TOOL then vs
      else note_document E sid result vs)"

section \<open>The threshold\<close>

text \<open>The scan of the authored skills; \<open>None\<close> goes on, \<open>Some\<close> ends it (an exception ends it with no
  threshold).\<close>

definition threshold_value :: "pyval \<Rightarrow> int option" where
  "threshold_value v =
     (case v of
        PInt i \<Rightarrow> if 0 < i then Some i else None
      | PFloat r \<Rightarrow> (let i = (if 0 \<le> r then \<lfloor>r\<rfloor> else \<lceil>r\<rceil>) in if 0 < i then Some i else None)
      | _ \<Rightarrow> None)"

definition skill_threshold :: "pyval \<Rightarrow> int option option" where
  "skill_threshold skill =
     (case skill of
        PDict d \<Rightarrow>
          (case (if truthy (dget d ''name'') then dget d ''name'' else PStr []) of
             PStr n \<Rightarrow>
               if strip n \<noteq> GATED_SKILL then None
               else Some (case dget d ''settings'' of PDict s \<Rightarrow> threshold_value (dget s SETTING_KEY) | _ \<Rightarrow> None)
           | _ \<Rightarrow> Some None)
      | _ \<Rightarrow> None)"

fun first_found :: "('a \<Rightarrow> 'b option) \<Rightarrow> 'a list \<Rightarrow> 'b option" where
  "first_found f [] = None"
| "first_found f (x # xs) = (case f x of None \<Rightarrow> first_found f xs | Some y \<Rightarrow> Some y)"

definition persona_threshold :: "pyval \<Rightarrow> int option option" where
  "persona_threshold p =
     (case p of
        PDict d \<Rightarrow>
          if \<not> truthy (dget d ''skills'') then None
          else (case dget d ''skills'' of
                  PList xs \<Rightarrow> first_found skill_threshold xs
                | PStr s \<Rightarrow> None
                | PDict kv \<Rightarrow> None
                | _ \<Rightarrow> Some None)
      | _ \<Rightarrow> Some None)"

definition review_threshold :: "config_file \<Rightarrow> int option" where
  "review_threshold cfg =
     (case cfg of
        Document d \<Rightarrow>
          (case personas d of
             Inl e \<Rightarrow> None
           | Inr ps \<Rightarrow> (case first_found persona_threshold ps of None \<Rightarrow> None | Some t \<Rightarrow> t))
      | _ \<Rightarrow> None)"

section \<open>The gate\<close>

definition total_pages :: "review \<Rightarrow> int" where
  "total_pages r = sum_list (map snd (rv_pages r))"

definition semicolons :: "string list \<Rightarrow> string" where
  "semicolons xs = (case xs of [] \<Rightarrow> [] | y # ys \<Rightarrow> y @ concat (map (\<lambda>z. ''; '' @ z) ys))"

definition listing :: "review \<Rightarrow> string" where
  "listing r =
     semicolons (map (\<lambda>f. case map_of (rv_names r) f of None \<Rightarrow> f | Some n \<Rightarrow> n) (take 8 (keys (rv_pages r)))) @
     (if rv_unmeasured r = [] then []
      else '' (+'' @ show_int (int (length (rv_unmeasured r))) @ '' document(s) with no volume signal)'')"

definition volume_message :: "review \<Rightarrow> int \<Rightarrow> string" where
  "volume_message r threshold =
     (let total = show_int (total_pages r);
          docs = show_int (int (length (rv_pages r) + length (rv_unmeasured r)))
      in ''this review has read at least '' @ total @ '' pages across '' @ docs @ '' document(s) ('' @
         listing r @ ''), reaching the firm's authored review threshold of '' @ show_int threshold @
         '' pages. Do not read further documents for this review. Write the internal note instead: name the served '' @
         ''set, state that at least '' @ total @ '' pages across '' @ docs @ '' documents '' @
         ''were observed, and state that the review was suspended at the '' @
         ''authored threshold rather than completed, so the assigned person can decide how to proceed.'')"

definition evaluate_read :: "volume_env \<Rightarrow> string \<Rightarrow> string \<Rightarrow> volumes \<Rightarrow> volume \<times> volumes" where
  "evaluate_read E sid tool vs =
     (if volume_mode (re_mode E) = Gate_Off \<or> sid = [] \<or> tool \<noteq> COUNTED_TOOL then (Within, vs)
      else case odict_get (vs_sessions vs) sid of
        None \<Rightarrow> (Within, vs)
      | Some r \<Rightarrow>
          if \<not> rv_review r then (Within, vs)
          else (case review_threshold (re_config E) of
            None \<Rightarrow> (Within, vs)
          | Some t \<Rightarrow>
              if total_pages r < t then (Within, vs)
              else if volume_mode (re_mode E) = Gate_Report
              then (if rv_reported r then (Within, vs)
                    else (Reported (volume_message r t),
                          vs\<lparr>vs_sessions := odict_set sid (r\<lparr>rv_reported := True\<rparr>) (vs_sessions vs)\<rparr>))
              else (Over (volume_message r t), vs)))"

section \<open>Runs\<close>

text \<open>What happens around the gate; a document read that the gate refuses is not carried out.\<close>

datatype volume_op =
    Routed int string string
  | Claimed int string
  | Procedure_Read string string pyval
  | Document_Read string pyval

fun volume_step :: "volume_env \<Rightarrow> volume_op \<Rightarrow> volumes \<Rightarrow> volumes" where
  "volume_step E (Routed now sid skill) vs = record_route now sid skill vs"
| "volume_step E (Claimed now sid) vs = claim_unbound_routes now sid vs"
| "volume_step E (Procedure_Read sid tool args) vs =
     (if tool = COUNTED_TOOL then vs else note_read E sid tool args PNone vs)"
| "volume_step E (Document_Read sid result) vs =
     (case evaluate_read E sid COUNTED_TOOL vs of
        (Over m, vs') \<Rightarrow> vs'
      | (_, vs') \<Rightarrow> note_read E sid COUNTED_TOOL PNone result vs')"

fun volume_run :: "volume_env \<Rightarrow> volume_op list \<Rightarrow> volumes \<Rightarrow> volumes" where
  "volume_run E [] vs = vs"
| "volume_run E (x # xs) vs = volume_run E xs (volume_step E x vs)"

fun op_session :: "volume_op \<Rightarrow> string" where
  "op_session (Routed now sid skill) = sid"
| "op_session (Claimed now sid) = sid"
| "op_session (Procedure_Read sid tool args) = sid"
| "op_session (Document_Read sid result) = sid"

text \<open>The pages the read of a document reports, as the gate counts them.\<close>

definition reported_pages :: "volume_env \<Rightarrow> pyval \<Rightarrow> int" where
  "reported_pages E result =
     (let v = (case result of PStr s \<Rightarrow> PStr (unwrap_inbound s) | _ \<Rightarrow> result) in
      case (case as_payload E v of None \<Rightarrow> None | Some p \<Rightarrow> walk_read_fields E p) of
        None \<Rightarrow> 0
      | Some d \<Rightarrow> (case document_pages d of None \<Rightarrow> 0 | Some p \<Rightarrow> p))"

section \<open>One step\<close>

lemma document_pages_pos: "document_pages d = Some p \<Longrightarrow> 0 \<le> p"
  by (auto simp: document_pages_def positive_number_def split: option.splits pyval.splits if_splits)

lemma total_mark [simp]: "total_pages (mark_review r) = total_pages r" "rv_review (mark_review r)"
  by (simp_all add: total_pages_def mark_review_def)

lemma count_document_total:
  "total_pages (count_document f d r) \<in> {total_pages r, total_pages r + (case document_pages d of None \<Rightarrow> 0 | Some p \<Rightarrow> p)}"
  "rv_review (count_document f d r) = rv_review r"
  by (auto simp: count_document_def Let_def total_pages_def split: option.splits pyval.splits)

definition held_sessions :: "volumes \<Rightarrow> string set" where
  "held_sessions vs = set (odict_keys (vs_sessions vs))"

lemma with_state_same: "odict_get (vs_sessions (with_state sid f vs)) sid = Some (f (review_of sid vs))"
  by (simp add: with_state_def od.get_put_same VOLUME_SESSIONS_def)

lemma with_state_other:
  assumes "held_sessions vs \<subseteq> K" "sid \<in> K" "finite K" "card K \<le> VOLUME_SESSIONS" "s \<noteq> sid"
  shows "odict_get (vs_sessions (with_state sid f vs)) s = odict_get (vs_sessions vs) s"
proof -
  have "card (insert sid (set (odict_keys (vs_sessions vs)))) \<le> VOLUME_SESSIONS"
    by (rule od.fits [of "vs_sessions vs" K]) (use assms in \<open>simp_all add: held_sessions_def\<close>)
  then show ?thesis using od.room [of sid "vs_sessions vs" VOLUME_SESSIONS s] assms(5) by (simp add: with_state_def)
qed

lemma with_state_held:
  assumes "held_sessions vs \<subseteq> K" "sid \<in> K"
  shows "held_sessions (with_state sid f vs) \<subseteq> K"
  using od.held_put [of VOLUME_SESSIONS sid "f (review_of sid vs)" "vs_sessions vs"] assms
  by (auto simp: held_sessions_def with_state_def VOLUME_SESSIONS_def)

text \<open>Every step marks a session, counts a document in it, notes a report, or leaves the sessions.\<close>

lemma step_cases:
  assumes "volume_step E x vs = vs'"
  shows "vs_sessions vs' = vs_sessions vs \<or>
    vs_sessions vs' = vs_sessions (with_state (op_session x) mark_review vs) \<or>
    (\<exists>sid result f d w. x = Document_Read sid result \<and> vs_sessions vs' = vs_sessions (with_state sid (count_document f d) w) \<and>
       (case document_pages d of None \<Rightarrow> 0 | Some p \<Rightarrow> p) = reported_pages E result \<and>
       (\<exists>v. evaluate_read E sid COUNTED_TOOL vs = (v, w) \<and> (\<forall>m. v \<noteq> Over m))) \<or>
    (\<exists>sid result. x = Document_Read sid result \<and> (\<exists>v. evaluate_read E sid COUNTED_TOOL vs = (v, vs')))"
proof (cases x)
  case (Routed now sid skill)
  then show ?thesis using assms by (auto simp: record_route_def)
next
  case (Claimed now sid)
  then show ?thesis using assms by (auto simp: claim_unbound_routes_def Let_def with_state_def review_of_def split: if_splits)
next
  case (Procedure_Read sid tool args)
  then show ?thesis using assms by (auto simp: note_read_def)
next
  case (Document_Read sid result)
  obtain v w where vw: "evaluate_read E sid COUNTED_TOOL vs = (v, w)" by fastforce
  show ?thesis
  proof (cases "\<exists>m. v = Over m")
    case True
    then show ?thesis using assms Document_Read vw by auto
  next
    case False
    then have vs': "vs' = note_read E sid COUNTED_TOOL PNone result w"
      using assms Document_Read vw by (cases v) auto
    let ?v = "case result of PStr s \<Rightarrow> PStr (unwrap_inbound s) | _ \<Rightarrow> result"
    show ?thesis
    proof (cases "sid = []")
      case True
      then have "vs' = w" using vs' by (simp add: note_read_def)
      then show ?thesis using Document_Read vw by blast
    next
      case ne: False
      have nd: "vs' = note_document E sid result w"
        using vs' ne by (simp add: note_read_def COUNTED_TOOL_def)
      show ?thesis
      proof (cases "case as_payload E ?v of None \<Rightarrow> None | Some p \<Rightarrow> walk_read_fields E p")
        case None
        then have "vs' = w" using nd by (simp add: note_document_def Let_def)
        then show ?thesis using Document_Read vw by blast
      next
        case (Some d)
        show ?thesis
        proof (cases "file_of E d = []")
          case True
          then have "vs' = w" using nd Some by (simp add: note_document_def Let_def)
          then show ?thesis using Document_Read vw by blast
        next
          case nofile: False
          then have "vs' = with_state sid (count_document (file_of E d) d) w"
            using nd Some by (simp add: note_document_def Let_def)
          moreover have "(case document_pages d of None \<Rightarrow> 0 | Some p \<Rightarrow> p) = reported_pages E result"
            using Some by (simp add: reported_pages_def Let_def)
          ultimately show ?thesis using Document_Read vw False by blast
        qed
      qed
    qed
  qed
qed

lemma evaluate_frame:
  assumes "evaluate_read E sid tool vs = (v, w)"
  shows "held_sessions w = held_sessions vs"
    "map_option (\<lambda>r. (rv_review r, total_pages r)) (odict_get (vs_sessions w) s) =
     map_option (\<lambda>r. (rv_review r, total_pages r)) (odict_get (vs_sessions vs) s)"
proof -
  have "(w = vs) \<or> (\<exists>r. odict_get (vs_sessions vs) sid = Some r \<and>
      w = vs\<lparr>vs_sessions := odict_set sid (r\<lparr>rv_reported := True\<rparr>) (vs_sessions vs)\<rparr>)"
    using assms by (auto simp: evaluate_read_def split: if_splits option.splits)
  then show "held_sessions w = held_sessions vs"
    "map_option (\<lambda>r. (rv_review r, total_pages r)) (odict_get (vs_sessions w) s) =
     map_option (\<lambda>r. (rv_review r, total_pages r)) (odict_get (vs_sessions vs) s)"
    by (auto simp: held_sessions_def odict_keys_get total_pages_def set_eq_iff split: if_splits)
qed

lemma passed_under_threshold:
  assumes "evaluate_read E sid COUNTED_TOOL vs = (v, w)" "\<forall>m. v \<noteq> Over m" "sid \<noteq> []"
    and "volume_mode (re_mode E) = Gate_Block" "review_threshold (re_config E) = Some t"
    and "odict_get (vs_sessions vs) sid = Some r" "rv_review r"
  shows "total_pages r < t"
  using assms by (auto simp: evaluate_read_def split: if_splits)

definition bounded_review :: "int \<Rightarrow> string \<Rightarrow> volumes \<Rightarrow> bool" where
  "bounded_review b s vs \<longleftrightarrow>
     (\<exists>r. odict_get (vs_sessions vs) s = Some r \<and> rv_review r \<and> total_pages r \<le> b)"

lemma bounded_sessions: "vs_sessions vs' = vs_sessions vs \<Longrightarrow> bounded_review b s vs' = bounded_review b s vs"
  "vs_sessions vs' = vs_sessions vs \<Longrightarrow> held_sessions vs' = held_sessions vs"
  by (simp_all add: bounded_review_def held_sessions_def)

lemma bounded_with_state:
  assumes "bounded_review b s vs" "held_sessions vs \<subseteq> K" "sid \<in> K" "finite K" "card K \<le> VOLUME_SESSIONS"
    and "\<And>r. s = sid \<Longrightarrow> odict_get (vs_sessions vs) s = Some r \<Longrightarrow> rv_review r \<Longrightarrow> total_pages r \<le> b \<Longrightarrow>
      rv_review (f r) \<and> total_pages (f r) \<le> b"
  shows "bounded_review b s (with_state sid f vs)"
proof (cases "s = sid")
  case True
  then show ?thesis using assms(1,6) with_state_same [of sid f vs] by (auto simp: bounded_review_def review_of_def)
next
  case False
  then show ?thesis using assms(1) with_state_other [OF assms(2-5) False] by (simp add: bounded_review_def)
qed

lemma step_bounded:
  assumes b: "bounded_review (t - 1 + m) s vs" and h: "held_sessions vs \<subseteq> K" "op_session x \<in> K" "finite K" "card K \<le> VOLUME_SESSIONS"
    and g: "volume_mode (re_mode E) = Gate_Block" "review_threshold (re_config E) = Some t" "s \<noteq> []"
    and r: "\<And>result. x = Document_Read s result \<Longrightarrow> reported_pages E result \<le> m"
  shows "bounded_review (t - 1 + m) s (volume_step E x vs) \<and> held_sessions (volume_step E x vs) \<subseteq> K"
proof -
  let ?vs = "volume_step E x vs"
  consider (same) "vs_sessions ?vs = vs_sessions vs"
    | (mark) "vs_sessions ?vs = vs_sessions (with_state (op_session x) mark_review vs)"
    | (count) sid result f d w v where "x = Document_Read sid result"
        "vs_sessions ?vs = vs_sessions (with_state sid (count_document f d) w)"
        "(case document_pages d of None \<Rightarrow> 0 | Some p \<Rightarrow> p) = reported_pages E result"
        "evaluate_read E sid COUNTED_TOOL vs = (v, w)" "\<forall>m. v \<noteq> Over m"
    | (seen) sid result v where "x = Document_Read sid result" "evaluate_read E sid COUNTED_TOOL vs = (v, ?vs)"
    using step_cases [of E x vs ?vs] by blast
  then show ?thesis
  proof cases
    case same
    then show ?thesis using b h(1) bounded_sessions [OF same] by simp
  next
    case mark
    have "bounded_review (t - 1 + m) s (with_state (op_session x) mark_review vs)"
      by (rule bounded_with_state [OF b h]) simp
    then show ?thesis using bounded_sessions [OF mark] with_state_held [OF h(1,2)] by simp
  next
    case (count sid result f d w v)
    have K: "sid \<in> K" using h(2) count(1) by simp
    have fw: "held_sessions w \<subseteq> K" using evaluate_frame(1) [OF count(4)] h(1) by simp
    have bw: "bounded_review (t - 1 + m) s w"
      using b evaluate_frame(2) [OF count(4), of s] by (auto simp: bounded_review_def)
    have "bounded_review (t - 1 + m) s (with_state sid (count_document f d) w)"
    proof (rule bounded_with_state [OF bw fw K h(3,4)])
      fix q assume q: "s = sid" "odict_get (vs_sessions w) s = Some q" "rv_review q" "total_pages q \<le> t - 1 + m"
      obtain q0 where q0: "odict_get (vs_sessions vs) s = Some q0" "rv_review q0" "total_pages q0 = total_pages q"
        using evaluate_frame(2) [OF count(4), of s] q(2,3) by (cases "odict_get (vs_sessions vs) s") auto
      have "total_pages q < t"
        using passed_under_threshold [OF count(4,5) _ g(1,2), of q0] g(3) q(1) q0 by simp
      moreover have "(case document_pages d of None \<Rightarrow> 0 | Some p \<Rightarrow> p) \<le> m" using r count(1,3) q(1) by simp
      ultimately show "rv_review (count_document f d q) \<and> total_pages (count_document f d q) \<le> t - 1 + m"
        using count_document_total [of f d q] q(3,4) by auto
    qed
    then show ?thesis using bounded_sessions [OF count(2)] with_state_held [OF fw K] by simp
  next
    case (seen sid result v)
    have "bounded_review (t - 1 + m) s ?vs"
      using b evaluate_frame(2) [OF seen(2), of s] by (auto simp: bounded_review_def)
    then show ?thesis using evaluate_frame(1) [OF seen(2)] h(1) by simp
  qed
qed

lemma run_bounded:
  assumes "bounded_review (t - 1 + m) s vs" "held_sessions vs \<subseteq> K" "op_session ` set xs \<subseteq> K" "finite K" "card K \<le> VOLUME_SESSIONS"
    and g: "volume_mode (re_mode E) = Gate_Block" "review_threshold (re_config E) = Some t" "s \<noteq> []"
    and "\<And>result. Document_Read s result \<in> set xs \<Longrightarrow> reported_pages E result \<le> m"
  shows "bounded_review (t - 1 + m) s (volume_run E xs vs)"
  using assms(1-3,9)
proof (induction xs arbitrary: vs)
  case (Cons x xs)
  have x: "op_session x \<in> K" and xs: "op_session ` set xs \<subseteq> K" using Cons.prems(3) by simp_all
  have st: "bounded_review (t - 1 + m) s (volume_step E x vs) \<and> held_sessions (volume_step E x vs) \<subseteq> K"
    by (rule step_bounded [OF Cons.prems(1,2) x assms(4,5) g]) (use Cons.prems(4) in auto)
  then show ?case using Cons.IH [OF _ _ xs] Cons.prems(4) by simp
qed simp

text \<open>A route stays claimable until its time is over.\<close>

definition pending_since :: "int \<Rightarrow> volumes \<Rightarrow> bool" where
  "pending_since t vs \<longleftrightarrow> vs_routes vs \<noteq> [] \<and> t \<le> last (vs_routes vs)"

lemma dropWhile_keeps_last: "xs \<noteq> [] \<Longrightarrow> \<not> P (last xs) \<Longrightarrow> dropWhile P xs \<noteq> [] \<and> last (dropWhile P xs) = last xs"
  by (induction xs) auto

lemma with_state_routes [simp]: "vs_routes (with_state sid f vs) = vs_routes vs"
  by (simp add: with_state_def)

lemma note_routes [simp]: "vs_routes (note_read E sid tool args result vs) = vs_routes vs"
  by (auto simp: note_read_def note_document_def Let_def split: option.splits)

lemma evaluate_routes: "evaluate_read E sid tool vs = (v, w) \<Longrightarrow> vs_routes w = vs_routes vs"
  by (auto simp: evaluate_read_def split: if_splits option.splits)

fun op_time :: "volume_op \<Rightarrow> int option" where
  "op_time (Routed now sid skill) = Some now"
| "op_time (Claimed now sid) = Some now"
| "op_time x = None"

lemma step_pending:
  assumes "pending_since t vs" "\<And>u. op_time x = Some u \<Longrightarrow> t \<le> u \<and> u \<le> t + UNBOUND_TTL"
  shows "pending_since t (volume_step E x vs)"
proof (cases x)
  case (Routed now sid skill)
  then have "t \<le> now" using assms(2) by simp
  then show ?thesis using assms(1) Routed
    by (simp add: record_route_def pending_since_def last_n_def UNBOUND_MAX_def last_drop)
next
  case (Claimed now sid)
  then have "\<not> now - last (vs_routes vs) > UNBOUND_TTL" using assms by (force simp: pending_since_def)
  then have "dropWhile (\<lambda>u. now - u > UNBOUND_TTL) (vs_routes vs) \<noteq> [] \<and>
      last (dropWhile (\<lambda>u. now - u > UNBOUND_TTL) (vs_routes vs)) = last (vs_routes vs)"
    using assms(1) by (intro dropWhile_keeps_last) (simp_all add: pending_since_def)
  then show ?thesis using assms(1) Claimed
    by (simp add: claim_unbound_routes_def Let_def pending_since_def del: dropWhile_eq_Nil_conv)
next
  case (Document_Read sid result)
  obtain v w where vw: "evaluate_read E sid COUNTED_TOOL vs = (v, w)" by fastforce
  then show ?thesis using assms(1) Document_Read evaluate_routes [OF vw]
    by (cases v) (simp_all add: pending_since_def)
qed (use assms(1) in \<open>simp add: pending_since_def\<close>)

lemma run_pending:
  assumes "pending_since t vs" "\<forall>x \<in> set xs. \<forall>u. op_time x = Some u \<longrightarrow> t \<le> u \<and> u \<le> t + UNBOUND_TTL"
  shows "pending_since t (volume_run E xs vs)"
  using assms by (induction xs arbitrary: vs) (auto simp: step_pending)

section \<open>Examples\<close>

definition volume_config :: pydict where
  "volume_config =
     [(''personas'', PList [PDict [(''slug'', PStr ''op''),
        (''entitlements'', PDict [(''exposure'', PDict [(''read'', PStr ''autonomous'')])]),
        (''skills'', PList [PDict [(''name'', PStr GATED_SKILL), (''settings'', PDict [(SETTING_KEY, PInt 10)])]])]])]"

definition demo_volume :: volume_env where
  "demo_volume = \<lparr>re_json = (\<lambda>_. None), re_str = (\<lambda>_. []), re_mode = [], re_config = Document volume_config\<rparr>"

definition no_volumes :: volumes where
  "no_volumes = \<lparr>vs_sessions = empty_odict, vs_routes = []\<rparr>"

definition demo_document :: "string \<Rightarrow> int \<Rightarrow> pyval" where
  "demo_document file pages = PDict [(''fileId'', PStr file), (''pageCount'', PInt pages)]"

definition demo_review :: volumes where
  "demo_review = record_route 0 ''s'' GATED_SKILL no_volumes"

definition demo_reads :: "volume_op list" where
  "demo_reads = [Document_Read ''s'' (demo_document ''a'' 7), Document_Read ''s'' (demo_document ''b'' 7),
     Document_Read ''s'' (demo_document ''c'' 7)]"

lemma demo_review_held: "held_sessions demo_review \<subseteq> {''s''}" "bounded_review 16 ''s'' demo_review"
proof -
  have "odict_keys (vs_sessions demo_review) = [''s'']" by code_simp
  then show "held_sessions demo_review \<subseteq> {''s''}" by (simp add: held_sessions_def)
  have "odict_get (vs_sessions demo_review) ''s'' = Some (mark_review new_review)" by code_simp
  then show "bounded_review 16 ''s'' demo_review"
    by (simp add: bounded_review_def mark_review_def new_review_def total_pages_def)
qed

section \<open>Properties\<close>

text \<open>A review stops at the authored threshold: in blocking mode, from a marked session below it on,
  whatever sessions are routed, claimed or read meanwhile, the pages of the documents the session has
  read stay within the threshold less one plus the size of its largest document, as long as the
  register has room for the sessions involved. A refused read counts nothing.\<close>

theorem review_stays_within_the_threshold:
  assumes "bounded_review (t - 1 + m) s vs" "held_sessions vs \<subseteq> K" "op_session ` set xs \<subseteq> K" "finite K" "card K \<le> VOLUME_SESSIONS"
    and "volume_mode (re_mode E) = Gate_Block" "review_threshold (re_config E) = Some t" "s \<noteq> []"
    and "\<And>result. Document_Read s result \<in> set xs \<Longrightarrow> reported_pages E result \<le> m"
  shows "\<exists>r. odict_get (vs_sessions (volume_run E xs vs)) s = Some r \<and> rv_review r \<and> total_pages r \<le> t - 1 + m"
  using run_bounded [OF assms] by (simp add: bounded_review_def)

lemma review_stays_within_the_threshold_witness:
  "\<exists>r. odict_get (vs_sessions (volume_run demo_volume demo_reads demo_review)) ''s'' = Some r \<and> rv_review r \<and>
     total_pages r \<le> 16"
proof -
  have m: "volume_mode (re_mode demo_volume) = Gate_Block" "review_threshold (re_config demo_volume) = Some 10"
    by code_simp+
  have "\<forall>x \<in> set demo_reads. case x of Document_Read sid result \<Rightarrow> reported_pages demo_volume result \<le> 7 | _ \<Rightarrow> True"
    by code_simp
  then have r: "reported_pages demo_volume result \<le> 7" if "Document_Read ''s'' result \<in> set demo_reads" for result
    using that by force
  show ?thesis
    using review_stays_within_the_threshold [of 10 7 "''s''" demo_review "{''s''}" demo_reads demo_volume]
      demo_review_held m r by (simp add: demo_reads_def VOLUME_SESSIONS_def)
qed

text \<open>Past the threshold the trust gate blocks the read: with this gate in its place, a document read
  of a session that is a review and has reached the threshold does not run, whatever its arguments.\<close>

theorem read_past_the_threshold_is_blocked:
  assumes "read_volume (w_gates w) = (\<lambda>s tool. fst (evaluate_read E s tool vs))"
    and "tc_tool c = COUNTED_TOOL" "tc_session c \<noteq> []"
    and "volume_mode (re_mode E) = Gate_Block" "review_threshold (re_config E) = Some t"
    and "odict_get (vs_sessions vs) (tc_session c) = Some r" "rv_review r" "t \<le> total_pages r"
  shows "fst (evaluate_tool_call w c args st) \<noteq> None"
proof -
  have "fst (evaluate_read E (tc_session c) COUNTED_TOOL vs) = Over (volume_message r t)"
    using assms by (simp add: evaluate_read_def)
  then show ?thesis
    using assms(1,2) by (simp add: evaluate_tool_call_def Let_def COUNTED_TOOL_def split: sum.split classify_error.split option.split)
qed

lemma read_past_the_threshold_is_blocked_witness:
  "fst (evaluate_tool_call
     (sample_world ''read'' ''autonomous''\<lparr>w_gates := quiet_gates\<lparr>read_volume := (\<lambda>s tool.
        fst (evaluate_read demo_volume s tool (volume_run demo_volume demo_reads demo_review)))\<rparr>\<rparr>)
     (sample_call COUNTED_TOOL) [] sample_state) \<noteq> None"
proof -
  define vs where "vs = volume_run demo_volume demo_reads demo_review"
  have "map_option (\<lambda>r. (rv_review r, total_pages r)) (odict_get (vs_sessions vs) ''s'') = Some (True, 14)"
    unfolding vs_def by code_simp
  then obtain r where r: "odict_get (vs_sessions vs) ''s'' = Some r" "rv_review r" "total_pages r = 14" by auto
  have m: "volume_mode (re_mode demo_volume) = Gate_Block" "review_threshold (re_config demo_volume) = Some 10"
    by code_simp+
  show ?thesis unfolding vs_def [symmetric]
    by (rule read_past_the_threshold_is_blocked [where E = demo_volume and t = 10 and r = r and vs = vs])
      (use r m in \<open>simp_all add: sample_call_def\<close>)
qed

text \<open>The gate attaches to every review: a route of the gated skill whose session was not known marks
  each session that claims within three minutes, whatever was routed, claimed or read in between.\<close>

theorem every_fresh_claimant_is_a_review:
  assumes "\<forall>x \<in> set xs. \<forall>u. op_time x = Some u \<longrightarrow> t \<le> u \<and> u \<le> t + UNBOUND_TTL"
    and "t \<le> now" "now \<le> t + UNBOUND_TTL" "sid \<noteq> []"
  shows "rv_review (review_of sid (claim_unbound_routes now sid (volume_run E xs (record_route t [] GATED_SKILL vs))))"
proof -
  let ?vs = "volume_run E xs (record_route t [] GATED_SKILL vs)"
  have "strip GATED_SKILL = GATED_SKILL" by code_simp
  then have "pending_since t (record_route t [] GATED_SKILL vs)"
    by (simp add: record_route_def pending_since_def last_n_def UNBOUND_MAX_def last_drop)
  then have p: "pending_since t ?vs" using run_pending assms(1) by blast
  then have "\<not> now - last (vs_routes ?vs) > UNBOUND_TTL" using assms(3) by (auto simp: pending_since_def)
  then have "dropWhile (\<lambda>u. now - u > UNBOUND_TTL) (vs_routes ?vs) \<noteq> []"
    using p by (intro conjunct1 [OF dropWhile_keeps_last]) (simp_all add: pending_since_def)
  then have "claim_unbound_routes now sid ?vs =
      with_state sid mark_review (?vs\<lparr>vs_routes := dropWhile (\<lambda>u. now - u > UNBOUND_TTL) (vs_routes ?vs)\<rparr>)"
    using assms(4) by (simp add: claim_unbound_routes_def Let_def del: dropWhile_eq_Nil_conv)
  then show ?thesis by (simp add: review_of_def with_state_same)
qed

lemma every_fresh_claimant_is_a_review_witness:
  "rv_review (review_of ''s'' (claim_unbound_routes 9 ''s''
     (volume_run demo_volume [Claimed 5 ''other''] (record_route 0 [] GATED_SKILL no_volumes))))"
  by (rule every_fresh_claimant_is_a_review) (simp_all add: UNBOUND_TTL_def)

end
