(* ===== verification/Matter_Binding.thy ===== *)
theory Matter_Binding
  imports Trust_Gate
begin

text \<open>
  The matters a session has read (\<open>shared/matter_binding.py\<close>): per session, the known parties of each
  matter and whether that list is closed, the addresses whose own matter list is closed, the numbers
  that name a matter, and the matters whose content was read; and the capture of all this from the
  results of read tools. Sets are lists without repetition. Upper case is that of the letters up to
  code 254 whose upper-case form is in the same range; \<open>str_of\<close> is \<open>str\<close> of a value that is not a string,
  an integer or a constant, \<open>json\<close> is \<open>json.loads\<close> of a text that looks like JSON.
\<close>

section \<open>Normal forms\<close>

definition MATTER_SESSIONS :: nat where
  "MATTER_SESSIONS = 256"

definition MAX_MATTERS :: nat where
  "MAX_MATTERS = 512"

definition MAX_EMAILS :: nat where
  "MAX_EMAILS = 64"

definition after_last :: "char \<Rightarrow> string \<Rightarrow> nat" where
  "after_last c s = length s - length (takeWhile (\<lambda>x. x \<noteq> c) (rev s))"

text \<open>\<open>_norm\<close>: the part between the last angle brackets, when there are both.\<close>

definition norm_address :: "pyval \<Rightarrow> string" where
  "norm_address v =
     (case v of
        PStr s \<Rightarrow>
          (let a = normalized s;
               b = (if CHR ''<'' \<in> set a \<and> CHR ''>'' \<in> set a
                    then strip (drop (after_last (CHR ''<'') a) (take (after_last (CHR ''>'') a - 1) a)) else a)
           in if CHR ''@'' \<in> set b then b else [])
      | _ \<Rightarrow> [])"

definition upper_char :: "char \<Rightarrow> char" where
  "upper_char c =
     (let n = (of_char c :: nat)
      in if (97 \<le> n \<and> n \<le> 122) \<or> (224 \<le> n \<and> n \<le> 254 \<and> n \<noteq> 247) then char_of (n - 32) else c)"

definition norm_matter :: "string \<Rightarrow> string" where
  "norm_matter s = map upper_char (strip s)"

section \<open>One session\<close>

record membership =
  mm_by :: "(string \<times> string list) list"
  mm_folded :: "(string \<times> string) list"
  mm_ambiguous_ids :: "string list"
  mm_complete :: "string list"
  mm_contact_complete :: "string list"
  mm_content :: "string list"
  mm_alias :: "(string \<times> string) list"
  mm_ambiguous :: "string list"

definition no_membership :: membership where
  "no_membership =
     \<lparr>mm_by = [], mm_folded = [], mm_ambiguous_ids = [], mm_complete = [], mm_contact_complete = [],
      mm_content = [], mm_alias = [], mm_ambiguous = []\<rparr>"

definition parties :: "string \<Rightarrow> membership \<Rightarrow> string list" where
  "parties m st = (case map_of (mm_by st) m of None \<Rightarrow> [] | Some es \<Rightarrow> es)"

definition index_folded :: "string \<Rightarrow> membership \<Rightarrow> membership" where
  "index_folded m st =
     (let key = norm_matter m in
      if key = [] \<or> key \<in> set (mm_ambiguous_ids st) then st
      else case map_of (mm_folded st) key of
             Some other \<Rightarrow>
               if other \<noteq> m
               then st\<lparr>mm_folded := AList.delete key (mm_folded st),
                       mm_ambiguous_ids := List.insert key (mm_ambiguous_ids st)\<rparr>
               else st
           | None \<Rightarrow> st\<lparr>mm_folded := AList.update key m (mm_folded st)\<rparr>)"

definition put_address :: "string list \<Rightarrow> pyval \<Rightarrow> string list" where
  "put_address bucket raw =
     (let a = norm_address raw in if a \<noteq> [] \<and> length bucket < MAX_EMAILS then List.insert a bucket else bucket)"

definition add_parties :: "string \<Rightarrow> pyval list \<Rightarrow> bool \<Rightarrow> membership \<Rightarrow> membership" where
  "add_parties m emails whole st =
     (if m = [] then st
      else if map_of (mm_by st) m = None \<and> MAX_MATTERS \<le> length (mm_by st) then st
      else let st1 = index_folded m (st\<lparr>mm_by := AList.update m (parties m st) (mm_by st)\<rparr>);
               st2 = st1\<lparr>mm_by := AList.update m (foldl put_address (parties m st) emails) (mm_by st1)\<rparr>
           in if whole then st2\<lparr>mm_complete := List.insert m (mm_complete st2)\<rparr> else st2)"

definition add_alias :: "string \<Rightarrow> string \<Rightarrow> membership \<Rightarrow> membership" where
  "add_alias alias m st =
     (let key = norm_matter alias in
      if key = [] \<or> m = [] \<or> key = m then st
      else if key \<in> set (mm_ambiguous st) then st
      else case map_of (mm_alias st) key of
             Some other \<Rightarrow>
               if other \<noteq> m
               then st\<lparr>mm_alias := AList.delete key (mm_alias st), mm_ambiguous := List.insert key (mm_ambiguous st)\<rparr>
               else st
           | None \<Rightarrow>
               if MAX_MATTERS \<le> length (mm_alias st) then st
               else st\<lparr>mm_alias := AList.update key m (mm_alias st)\<rparr>)"

text \<open>The matter a cited token names; empty when the session read no such matter.\<close>

definition resolve_token :: "membership \<Rightarrow> string \<Rightarrow> string" where
  "resolve_token st token =
     (if token = [] then []
      else if map_of (mm_by st) token \<noteq> None then token
      else case map_of (mm_folded st) (norm_matter token) of
             Some m \<Rightarrow> if m \<noteq> [] then m
                        else (case map_of (mm_alias st) (norm_matter token) of None \<Rightarrow> [] | Some a \<Rightarrow> a)
           | None \<Rightarrow> (case map_of (mm_alias st) (norm_matter token) of None \<Rightarrow> [] | Some a \<Rightarrow> a))"

definition known_numbers :: "membership \<Rightarrow> string list" where
  "known_numbers st = keys (mm_alias st)"

definition is_closed :: "string \<Rightarrow> membership \<Rightarrow> bool" where
  "is_closed m st \<longleftrightarrow> m \<in> set (mm_complete st)"

definition close_contact :: "pyval \<Rightarrow> membership \<Rightarrow> membership" where
  "close_contact email st =
     (let a = norm_address email
      in if a \<noteq> [] \<and> length (mm_contact_complete st) < MAX_MATTERS
         then st\<lparr>mm_contact_complete := List.insert a (mm_contact_complete st)\<rparr> else st)"

definition is_contact_closed :: "string \<Rightarrow> membership \<Rightarrow> bool" where
  "is_contact_closed email st \<longleftrightarrow>
     (let a = norm_address (PStr email) in a \<noteq> [] \<and> a \<in> set (mm_contact_complete st))"

definition note_content_read :: "string \<Rightarrow> membership \<Rightarrow> membership" where
  "note_content_read m st =
     (if m = [] \<or> MAX_MATTERS \<le> length (mm_content st) then st
      else st\<lparr>mm_content := List.insert m (mm_content st)\<rparr>)"

definition matters_for :: "string \<Rightarrow> membership \<Rightarrow> string list" where
  "matters_for email st =
     (let a = norm_address (PStr email)
      in if a = [] then [] else map fst (filter (\<lambda>(m, es). a \<in> set es) (mm_by st)))"

section \<open>The sessions\<close>

record matters =
  mt_sessions :: "(string, membership) odict"
  mt_contacts :: "(string, (string \<times> string) list) odict"

definition no_matters :: matters where
  "no_matters = \<lparr>mt_sessions = empty_odict, mt_contacts = empty_odict\<rparr>"

definition membership_of :: "string \<Rightarrow> matters \<Rightarrow> membership" where
  "membership_of sid mt = (case odict_get (mt_sessions mt) sid of None \<Rightarrow> no_membership | Some m \<Rightarrow> m)"

text \<open>\<open>membership_for(session_id)\<close>, then a change to what it gives.\<close>

definition with_membership :: "string \<Rightarrow> (membership \<Rightarrow> membership) \<Rightarrow> matters \<Rightarrow> matters" where
  "with_membership sid f mt =
     mt\<lparr>mt_sessions := odict_put MATTER_SESSIONS sid (f (membership_of sid mt)) (mt_sessions mt)\<rparr>"

definition drop_matters :: "string \<Rightarrow> matters \<Rightarrow> matters" where
  "drop_matters sid mt = mt\<lparr>mt_sessions := odict_pop sid (mt_sessions mt)\<rparr>"

definition contacts_of :: "string \<Rightarrow> matters \<Rightarrow> (string \<times> string) list" where
  "contacts_of sid mt = (case odict_get (mt_contacts mt) sid of None \<Rightarrow> [] | Some c \<Rightarrow> c)"

definition with_contacts ::
  "string \<Rightarrow> ((string \<times> string) list \<Rightarrow> (string \<times> string) list) \<Rightarrow> matters \<Rightarrow> matters" where
  "with_contacts sid f mt =
     mt\<lparr>mt_contacts := odict_put MATTER_SESSIONS sid (f (contacts_of sid mt)) (mt_contacts mt)\<rparr>"

definition record_contact :: "string \<Rightarrow> string \<Rightarrow> pyval \<Rightarrow> matters \<Rightarrow> matters" where
  "record_contact sid contact email mt =
     (if contact \<noteq> [] \<and> norm_address email \<noteq> []
      then with_contacts sid (AList.update contact (norm_address email)) mt else mt)"

definition contact_email :: "string \<Rightarrow> string \<Rightarrow> matters \<Rightarrow> string \<times> matters" where
  "contact_email sid contact mt =
     (case map_of (contacts_of sid mt) contact of None \<Rightarrow> [] | Some a \<Rightarrow> a, with_contacts sid id mt)"

section \<open>Capture\<close>

record reading_env =
  rc_json :: "string \<Rightarrow> pyval option"
  rc_str :: "pyval \<Rightarrow> string"

definition payload_of :: "reading_env \<Rightarrow> pyval \<Rightarrow> pyval option" where
  "payload_of E v =
     (case v of
        PDict d \<Rightarrow> Some v
      | PList xs \<Rightarrow> Some v
      | PStr s \<Rightarrow> (case strip s of c # t \<Rightarrow> if c = CHR ''{'' \<or> c = CHR ''['' then rc_json E (strip s) else None | [] \<Rightarrow> None)
      | _ \<Rightarrow> None)"

text \<open>The dictionaries of a payload, six levels deep, two hundred items of a list.\<close>

fun iter_dicts :: "nat \<Rightarrow> pyval \<Rightarrow> pydict list" where
  "iter_dicts 0 v = []"
| "iter_dicts (Suc n) (PDict d) = d # concat (map (\<lambda>x. iter_dicts n (snd x)) d)"
| "iter_dicts (Suc n) (PList xs) = concat (map (iter_dicts n) (take 200 xs))"
| "iter_dicts (Suc n) v = []"

abbreviation all_dicts :: "pyval \<Rightarrow> pydict list" where
  "all_dicts \<equiv> iter_dicts 7"

definition CONTENT_READ_TOOLS :: "string list" where
  "CONTENT_READ_TOOLS = [''mcp_smokeball_get_memos_on_matter'', ''mcp_smokeball_read_document'']"

definition first_true :: "pyval list \<Rightarrow> pyval" where
  "first_true vs = (case filter truthy vs of [] \<Rightarrow> PNone | v # _ \<Rightarrow> v)"

definition text_of :: "reading_env \<Rightarrow> pyval \<Rightarrow> string" where
  "text_of E v = (if truthy v then py_str (rc_str E) v else [])"

definition content_matter_id :: "reading_env \<Rightarrow> pyval \<Rightarrow> string" where
  "content_matter_id E args =
     (case args of PDict d \<Rightarrow> text_of E (first_true [dget d ''matter_id'', dget d ''matterId'']) | _ \<Rightarrow> [])"

definition holder_address :: "pydict \<Rightarrow> string" where
  "holder_address node =
     (case filter (\<lambda>a. a \<noteq> []) (map (\<lambda>h. case h of PDict d \<Rightarrow> norm_address (dget d ''email'') | _ \<Rightarrow> [])
             [dget node ''person'', dget node ''company'', PDict node]) of
        [] \<Rightarrow> [] | a # _ \<Rightarrow> a)"

definition contact_email_in :: "reading_env \<Rightarrow> pyval \<Rightarrow> string \<Rightarrow> string" where
  "contact_email_in E payload contact =
     (case filter (\<lambda>a. a \<noteq> []) (map holder_address
             (filter (\<lambda>node. text_of E (dget node ''id'') = contact) (all_dicts payload))) of
        [] \<Rightarrow> [] | a # _ \<Rightarrow> a)"

definition alias_if_number :: "pyval \<Rightarrow> string \<Rightarrow> membership \<Rightarrow> membership" where
  "alias_if_number v m st = (case v of PStr s \<Rightarrow> add_alias s m st | _ \<Rightarrow> st)"

text \<open>The directions of \<open>record_from_read\<close>, in its order: a contact, a matter's own parties, its number,
  the matters of one person, a role.\<close>

definition read_contact :: "reading_env \<Rightarrow> string \<Rightarrow> pydict \<Rightarrow> matters \<Rightarrow> matters" where
  "read_contact E sid node mt =
     (let i = text_of E (dget node ''id'') in
      if truthy (dget node ''id'') \<and> (''person'' \<in> set (keys node) \<or> ''company'' \<in> set (keys node))
      then record_contact sid i (PStr (contact_email_in E (PDict node) i)) mt else mt)"

definition emails_in :: "pyval list \<Rightarrow> pyval list" where
  "emails_in ps =
     filter truthy (List.map_filter (\<lambda>p. case p of PDict d \<Rightarrow> Some (dget d ''email'') | _ \<Rightarrow> None) ps)"

definition read_parties :: "reading_env \<Rightarrow> string \<Rightarrow> pydict \<Rightarrow> matters \<Rightarrow> matters" where
  "read_parties E sid node mt =
     (let mv = first_true [dget node ''id'', dget node ''matterId'', dget node ''matter_id''];
          m = text_of E mv;
          mt1 = (case dget node ''parties'' of
                   PList ps \<Rightarrow> if truthy mv then with_membership sid
                     (add_parties m (emails_in ps) (truthy (dget node ''parties_complete''))) mt else mt
                 | _ \<Rightarrow> mt)
      in if truthy mv then with_membership sid (alias_if_number (dget node ''number'') m) mt1 else mt1)"

definition add_listed :: "reading_env \<Rightarrow> string \<Rightarrow> pydict \<Rightarrow> membership \<Rightarrow> membership" where
  "add_listed E email item st =
     (if truthy (dget item ''id'')
      then alias_if_number (dget item ''number'') (text_of E (dget item ''id''))
             (add_parties (text_of E (dget item ''id'')) [PStr email] False st)
      else st)"

definition read_listing :: "reading_env \<Rightarrow> string \<Rightarrow> pyval \<Rightarrow> pydict \<Rightarrow> matters \<Rightarrow> matters" where
  "read_listing E sid payload node mt =
     (if \<not> truthy (dget node ''matters_for_contact'') then mt
      else let contact = text_of E (dget node ''matters_for_contact'');
               here = contact_email_in E payload contact;
               looked = (if here \<noteq> [] then (here, mt) else contact_email sid contact mt);
               email = fst looked
           in if email = [] then snd looked
              else with_membership sid
                (\<lambda>st. fold (add_listed E email) (all_dicts (dget node ''value''))
                   (if dget node ''matters_for_contact_complete'' = PBool True
                    then close_contact (PStr email) st else st))
                (snd looked))"

definition read_role :: "reading_env \<Rightarrow> string \<Rightarrow> pydict \<Rightarrow> matters \<Rightarrow> matters" where
  "read_role E sid node mt =
     (let m = text_of E (dget node ''party_of_matter'') in
      if truthy (dget node ''party_of_matter'') \<and> norm_address (dget node ''email'') \<noteq> []
      then with_membership sid
             (\<lambda>st. alias_if_number (dget node ''matterNumber'') m
                (add_parties m [PStr (norm_address (dget node ''email''))] False st)) mt
      else mt)"

definition read_node :: "reading_env \<Rightarrow> string \<Rightarrow> pyval \<Rightarrow> pydict \<Rightarrow> matters \<Rightarrow> matters" where
  "read_node E sid payload node mt =
     read_role E sid node (read_listing E sid payload node (read_parties E sid node (read_contact E sid node mt)))"

definition record_from_read ::
  "reading_env \<Rightarrow> string \<Rightarrow> pyval \<Rightarrow> string \<Rightarrow> pyval \<Rightarrow> matters \<Rightarrow> matters" where
  "record_from_read E sid result tool args mt =
     (let mt1 = (if sid \<noteq> [] \<and> tool \<in> set CONTENT_READ_TOOLS \<and> content_matter_id E args \<noteq> []
                 then with_membership sid (note_content_read (content_matter_id E args)) mt else mt)
      in case payload_of E result of
           None \<Rightarrow> mt1
         | Some p \<Rightarrow> fold (read_node E sid p) (all_dicts p) (with_membership sid id mt1))"

end
