(* ===== verification/Matter_Gate.thy ===== *)
theory Matter_Gate
  imports Matter_Binding
begin

text \<open>
  The matter-identity gate (\<open>shared/matter_gate.py\<close>): the matters a body cites, the verdict whether every
  recipient is a party to them, the signal that a session has read the content of several matters,
  the fence that refuses the read of a second one, and the matter an audit row names. The two
  patterns of the source are sequences of character classes with repetition, tried in order, the
  longest repetition first, between word boundaries; word characters and case folding are those of
  the first 256 code points.
\<close>

section \<open>Citations\<close>

definition in_ranges :: "(nat \<times> nat) list \<Rightarrow> char \<Rightarrow> bool" where
  "in_ranges rs c \<longleftrightarrow> (let n = (of_char c :: nat) in list_ex (\<lambda>(a, b). a \<le> n \<and> n \<le> b) rs)"

definition word_char :: "char \<Rightarrow> bool" where
  "word_char = in_ranges [(48, 57), (65, 90), (95, 95), (97, 122), (170, 170), (178, 179), (181, 181),
     (185, 186), (188, 190), (192, 214), (216, 246), (248, 255)]"

definition at_boundary :: "char option \<Rightarrow> char option \<Rightarrow> bool" where
  "at_boundary p q \<longleftrightarrow>
     (case p of None \<Rightarrow> False | Some c \<Rightarrow> word_char c) \<noteq> (case q of None \<Rightarrow> False | Some c \<Rightarrow> word_char c)"

type_synonym piece = "(char \<Rightarrow> bool) \<times> nat \<times> nat"

text \<open>The lengths a sequence of repeated classes matches, in the order they are tried.\<close>

fun seq_lens :: "piece list \<Rightarrow> string \<Rightarrow> nat list" where
  "seq_lens [] s = [0]"
| "seq_lens ((P, lo, hi) # ps) s =
     (let most = length (takeWhile P (take hi s))
      in concat (map (\<lambda>n. map (\<lambda>k. n + k) (seq_lens ps (drop n s))) (rev [lo..<Suc most])))"

definition letters :: "nat \<Rightarrow> nat \<Rightarrow> piece" where
  "letters lo hi = (in_ranges [(65, 90), (97, 122)], lo, hi)"

definition digits :: "nat \<Rightarrow> nat \<Rightarrow> piece" where
  "digits lo hi = (in_ranges [(48, 57)], lo, hi)"

definition hexes :: "nat \<Rightarrow> piece" where
  "hexes n = (in_ranges [(48, 57), (65, 70), (97, 102)], n, n)"

definition dash :: piece where
  "dash = (\<lambda>c. c = CHR ''-'', 1, 1)"

definition MATTER_NUM :: "piece list list" where
  "MATTER_NUM =
     [[letters 2 4, dash, digits 4 4, dash, digits 2 5],
      [digits 2 4, dash, letters 2 4, dash, digits 2 5],
      [letters 2 4, dash, digits 4 6]]"

definition MATTER_ID :: "piece list list" where
  "MATTER_ID = [[hexes 8, dash, hexes 4, dash, hexes 4, dash, hexes 4, dash, hexes 12]]"

text \<open>The first length that ends at a word boundary.\<close>

definition bounded_match :: "(string \<Rightarrow> nat list) \<Rightarrow> char option \<Rightarrow> string \<Rightarrow> nat option" where
  "bounded_match lens prev s =
     (if \<not> at_boundary prev (case s of [] \<Rightarrow> None | c # _ \<Rightarrow> Some c) then None
      else case filter (\<lambda>n. 0 < n \<and> n \<le> length s \<and>
                  at_boundary (Some (s ! (n - 1))) (if n < length s then Some (s ! n) else None)) (lens s) of
             [] \<Rightarrow> None | n # _ \<Rightarrow> Some n)"

text \<open>\<open>finditer\<close>: \<open>skip\<close> characters of the last match are still to pass.\<close>

fun find_matches :: "(char option \<Rightarrow> string \<Rightarrow> nat option) \<Rightarrow> nat \<Rightarrow> char option \<Rightarrow> string \<Rightarrow> string list" where
  "find_matches M skip prev [] = []"
| "find_matches M skip prev (c # s) =
     (if 0 < skip then find_matches M (skip - 1) (Some c) s
      else case M prev (c # s) of
        None \<Rightarrow> find_matches M 0 (Some c) s
      | Some n \<Rightarrow> take n (c # s) # find_matches M (n - 1) (Some c) s)"

definition all_matches :: "(string \<Rightarrow> nat list) \<Rightarrow> string \<Rightarrow> string list" where
  "all_matches lens s = find_matches (bounded_match lens) 0 None s"

definition shaped :: "piece list list \<Rightarrow> string \<Rightarrow> nat list" where
  "shaped alts s = concat (map (\<lambda>a. seq_lens a s) alts)"

definition literal_lens :: "string list \<Rightarrow> string \<Rightarrow> nat list" where
  "literal_lens tokens s =
     concat (map (\<lambda>t. if lower (take (length t) s) = lower t then [length t] else []) tokens)"

definition MAX_CITED :: nat where
  "MAX_CITED = 24"

definition KNOWN_NUMBER_CHUNK :: nat where
  "KNOWN_NUMBER_CHUNK = 64"

definition number_tokens :: "string list \<Rightarrow> string list" where
  "number_tokens numbers =
     sort_key (\<lambda>t. - int (length t)) (sort (remdups (filter (\<lambda>t. t \<noteq> []) (map strip numbers))))"

definition chunks :: "nat \<Rightarrow> 'a list \<Rightarrow> 'a list list" where
  "chunks n xs = map (\<lambda>i. take n (drop (n * i) xs)) [0..<(length xs + n - 1) div n]"

definition first_distinct :: "'a list \<Rightarrow> 'a list" where
  "first_distinct xs = rev (remdups (rev xs))"

definition cited_matters :: "string \<Rightarrow> string list \<Rightarrow> string list" where
  "cited_matters body numbers =
     take MAX_CITED (first_distinct (map strip
       (all_matches (shaped MATTER_NUM) body @ all_matches (shaped MATTER_ID) body @
        concat (map (\<lambda>chunk. all_matches (literal_lens chunk) body)
          (chunks KNOWN_NUMBER_CHUNK (number_tokens numbers))))))"

definition BODY_KEYS :: "string list" where
  "BODY_KEYS = [''subject'', ''text'', ''html'', ''html_body'', ''body'', ''body_text'', ''body_plain'', ''content'',
     ''message'', ''note'']"

definition body_from_args :: "reading_env \<Rightarrow> pydict \<Rightarrow> string" where
  "body_from_args E args =
     (let parts = filter (\<lambda>t. strip t \<noteq> []) (map (\<lambda>k. if dget args k = PNone then [] else py_str (rc_str E) (dget args k)) BODY_KEYS)
      in case parts of [] \<Rightarrow> [] | p # ps \<Rightarrow> p @ concat (map (\<lambda>q. CHR 0x0A # q) ps))"

section \<open>The verdict\<close>

datatype matter_status = Matter_Ok | Mismatch | Unresolved | Not_Applicable

record matter_verdict =
  mv_status :: matter_status
  mv_reason :: string
  mv_matters :: "string list"
  mv_recipients :: "string list"

definition gate_blocks :: "string \<Rightarrow> bool" where
  "gate_blocks raw \<longleftrightarrow> normalized raw \<noteq> ''report''"

definition resolve_cited :: "membership \<Rightarrow> string list \<Rightarrow> (string \<times> string) list" where
  "resolve_cited st cited =
     map (\<lambda>t. (t, resolve_token st t)) (filter (\<lambda>t. resolve_token st t \<noteq> []) (sort cited))"

definition recipient_list :: "string set \<Rightarrow> string list" where
  "recipient_list recips = sorted_list_of_set (normalized ` recips - {[]})"

datatype membership_finding = Party | Outsider | Open_List

definition finding :: "membership \<Rightarrow> string \<Rightarrow> string \<Rightarrow> membership_finding" where
  "finding st m addr =
     (if addr \<in> set (parties m st) then Party
      else if is_closed m st \<or> is_contact_closed addr st then Outsider else Open_List)"

definition pairs_found ::
  "membership \<Rightarrow> membership_finding \<Rightarrow> (string \<times> string) list \<Rightarrow> string list \<Rightarrow> (string \<times> string) list" where
  "pairs_found st f resolved addrs =
     concat (map (\<lambda>(t, m). map (\<lambda>a. (a, t)) (filter (\<lambda>a. finding st m a = f) addrs)) resolved)"

definition joined :: "string \<Rightarrow> string list \<Rightarrow> string" where
  "joined sep xs = (case xs of [] \<Rightarrow> [] | y # ys \<Rightarrow> y @ concat (map (\<lambda>z. sep @ z) ys))"

definition verdict_for :: "membership \<Rightarrow> string list \<Rightarrow> string set \<Rightarrow> matter_verdict" where
  "verdict_for st cited recips =
     (let resolved = resolve_cited st cited; addrs = recipient_list recips;
          offenders = pairs_found st Outsider resolved addrs; openp = pairs_found st Open_List resolved addrs
      in if cited = []
         then \<lparr>mv_status = Not_Applicable, mv_reason = ''body cites no matter identifier'', mv_matters = [], mv_recipients = []\<rparr>
         else if resolved = []
         then \<lparr>mv_status = Unresolved, mv_reason = ''body cites a matter this session never read; membership unknown'',
                mv_matters = sort cited, mv_recipients = sorted_list_of_set recips\<rparr>
         else if offenders \<noteq> []
         then \<lparr>mv_status = Mismatch,
                mv_reason = joined ''; '' (take 6 (map (\<lambda>(a, t). a @ '' is not a party to '' @ t) offenders)),
                mv_matters = map fst resolved, mv_recipients = addrs\<rparr>
         else if openp \<noteq> []
         then \<lparr>mv_status = Unresolved,
                mv_reason = ''party list for the cited matter is not closed: '' @
                  joined ''; '' (take 6 (map (\<lambda>(a, t). a @ '' vs '' @ t) openp)),
                mv_matters = map fst resolved, mv_recipients = addrs\<rparr>
         else \<lparr>mv_status = Matter_Ok, mv_reason = ''every recipient is a party to every cited matter'',
                mv_matters = map fst resolved, mv_recipients = addrs\<rparr>)"

definition evaluate_matter :: "string \<Rightarrow> string \<Rightarrow> string set \<Rightarrow> bool \<Rightarrow> matters \<Rightarrow> matter_verdict \<times> matters" where
  "evaluate_matter sid body recips exempt mt =
     (if exempt
      then (\<lparr>mv_status = Not_Applicable, mv_reason = ''recipient class is not expected to be a party'',
              mv_matters = [], mv_recipients = []\<rparr>, mt)
      else if recips = {}
      then (\<lparr>mv_status = Not_Applicable, mv_reason = ''no resolvable recipients'', mv_matters = [], mv_recipients = []\<rparr>, mt)
      else let st = membership_of sid mt
           in (verdict_for st (cited_matters body (known_numbers st)) recips, with_membership sid id mt))"

section \<open>Mixing\<close>

datatype mixing_mode = Mixing_Off | Mixing_Report | Mixing_Block

definition multi_matter_mode :: "string \<Rightarrow> mixing_mode" where
  "multi_matter_mode raw =
     (if normalized raw = ''off'' then Mixing_Off
      else if normalized raw = ''report'' then Mixing_Report else Mixing_Block)"

definition multi_matter_session :: "mixing_mode \<Rightarrow> string \<Rightarrow> matters \<Rightarrow> string list \<times> matters" where
  "multi_matter_session mode sid mt =
     (if sid = [] \<or> mode = Mixing_Off then ([], mt)
      else let read = mm_content (membership_of sid mt)
           in (if length read < 2 then [] else sort read, with_membership sid id mt))"

definition mark_read_exempt :: "string \<Rightarrow> string list \<Rightarrow> string list" where
  "mark_read_exempt sid ex = (if sid = [] then ex else List.insert sid ex)"

definition clear_read_exempt :: "string \<Rightarrow> string list \<Rightarrow> string list" where
  "clear_read_exempt sid ex = removeAll sid ex"

definition mixing_refusal_text :: "string list \<Rightarrow> string \<Rightarrow> string" where
  "mixing_refusal_text held m =
     ''this session already read matter '' @ joined '', '' (sort held) @ ''; reading '' @
     ''matter '' @ m @ '' as well would put two matters' content in one '' @
     ''composition. Finish the matter you are on, then read the other in a '' @
     ''new session (ss#2167 matter mixing)''"

definition content_read_refusal ::
  "reading_env \<Rightarrow> mixing_mode \<Rightarrow> string list \<Rightarrow> string \<Rightarrow> string \<Rightarrow> pyval \<Rightarrow> matters \<Rightarrow> string option \<times> matters" where
  "content_read_refusal E mode exempt sid tool args mt =
     (let m = content_matter_id E args in
      if mode \<noteq> Mixing_Block \<or> sid = [] \<or> tool \<notin> set CONTENT_READ_TOOLS \<or> sid \<in> set exempt \<or> m = [] then (None, mt)
      else let held = mm_content (membership_of sid mt)
           in (if held = [] \<or> m \<in> set held then None else Some (mixing_refusal_text held m),
               with_membership sid id mt))"

text \<open>The one matter an outbound row names.\<close>

definition matter_ref_for :: "string \<Rightarrow> string list \<Rightarrow> matters \<Rightarrow> string option \<times> matters" where
  "matter_ref_for sid cited mt =
     (if strip sid = [] then (None, mt)
      else let st = membership_of (strip sid) mt;
               resolved = remdups (filter (\<lambda>m. m \<noteq> []) (map (resolve_token st) (filter (\<lambda>t. t \<noteq> []) cited)));
               only = (\<lambda>xs. case xs of [x] \<Rightarrow> Some x | _ \<Rightarrow> None)
           in (if resolved \<noteq> [] then only resolved else only (mm_content st), with_membership (strip sid) id mt))"

section \<open>Frames\<close>

definition matter_keys :: "matters \<Rightarrow> string set" where
  "matter_keys mt = set (odict_keys (mt_sessions mt))"

lemma with_membership_same: "membership_of sid (with_membership sid f mt) = f (membership_of sid mt)"
  using od.get_put_same [of MATTER_SESSIONS sid "f (membership_of sid mt)" "mt_sessions mt"]
  by (simp add: with_membership_def membership_of_def MATTER_SESSIONS_def)

lemma with_membership_other:
  assumes "matter_keys mt \<subseteq> K" "sid \<in> K" "finite K" "card K \<le> MATTER_SESSIONS" "s \<noteq> sid"
  shows "membership_of s (with_membership sid f mt) = membership_of s mt"
proof -
  have "card (insert sid (set (odict_keys (mt_sessions mt)))) \<le> MATTER_SESSIONS"
    by (rule od.fits [of "mt_sessions mt" K]) (use assms in \<open>simp_all add: matter_keys_def\<close>)
  then show ?thesis using od.room [of sid "mt_sessions mt" MATTER_SESSIONS s] assms(5)
    by (simp add: with_membership_def membership_of_def)
qed

lemma with_membership_keys:
  assumes "matter_keys mt \<subseteq> K" "sid \<in> K"
  shows "matter_keys (with_membership sid f mt) \<subseteq> K"
  using od.held_put [of MATTER_SESSIONS sid "f (membership_of sid mt)" "mt_sessions mt"] assms
  by (auto simp: matter_keys_def with_membership_def MATTER_SESSIONS_def)

text \<open>\<open>P\<close> holds of the memberships of \<open>s\<close> before and after, and the sessions stay within \<open>K\<close>.\<close>

definition keeps_content :: "string set \<Rightarrow> string \<Rightarrow> matters \<Rightarrow> matters \<Rightarrow> bool" where
  "keeps_content K s mt mt' \<longleftrightarrow>
     (matter_keys mt \<subseteq> K \<longrightarrow> matter_keys mt' \<subseteq> K \<and>
        mm_content (membership_of s mt') = mm_content (membership_of s mt))"

lemma keeps_refl [simp]: "keeps_content K s mt mt"
  by (simp add: keeps_content_def)

lemma keeps_trans: "keeps_content K s a b \<Longrightarrow> keeps_content K s b c \<Longrightarrow> keeps_content K s a c"
  by (auto simp: keeps_content_def)

lemma keeps_with_membership:
  assumes "sid \<in> K" "finite K" "card K \<le> MATTER_SESSIONS" "\<And>st. mm_content (f st) = mm_content st"
  shows "keeps_content K s mt (with_membership sid f mt)"
  unfolding keeps_content_def
  using assms with_membership_keys [OF _ assms(1)] with_membership_other [OF _ assms(1-3)]
  by (cases "s = sid") (auto simp: with_membership_same)

lemma content_frame [simp]:
  "mm_content (index_folded m st) = mm_content st"
  "mm_content (add_parties m es whole st) = mm_content st"
  "mm_content (add_alias a m st) = mm_content st"
  "mm_content (close_contact v st) = mm_content st"
  by (auto simp: index_folded_def add_parties_def add_alias_def close_contact_def Let_def split: option.split)

lemma content_frame2 [simp]:
  "mm_content (alias_if_number v m st) = mm_content st"
  "mm_content (add_listed E a item st) = mm_content st"
  by (auto simp: alias_if_number_def add_listed_def split: pyval.split)

lemma content_fold [simp]: "mm_content (fold (add_listed E a) items st) = mm_content st"
  by (induction items arbitrary: st) auto

lemma contacts_keep [simp]:
  "keeps_content K s mt (with_contacts sid f mt)" "keeps_content K s mt (record_contact sid c e mt)"
  "keeps_content K s mt (snd (contact_email sid c mt))"
  by (auto simp: keeps_content_def with_contacts_def record_contact_def contact_email_def membership_of_def matter_keys_def)

lemma read_node_keeps:
  assumes "sid \<in> K" "finite K" "card K \<le> MATTER_SESSIONS"
  shows "keeps_content K s mt (read_node E sid payload node mt)"
proof -
  note w = keeps_with_membership [OF assms]
  have 1: "keeps_content K s mt (read_contact E sid node mt)" for mt
    by (simp add: read_contact_def Let_def)
  have 2: "keeps_content K s mt (read_parties E sid node mt)" for mt
    by (auto simp: read_parties_def Let_def intro!: w keeps_trans [OF w w] split: pyval.split)
  have 3: "keeps_content K s mt (read_listing E sid payload node mt)" for mt
  proof -
    have "keeps_content K s mt (with_membership sid f (snd (contact_email sid c mt)))"
      if "\<And>st. mm_content (f st) = mm_content st" for f c
      by (rule keeps_trans [OF contacts_keep(3) w]) (rule that)
    then show ?thesis by (auto simp: read_listing_def Let_def intro!: w)
  qed
  have 4: "keeps_content K s mt (read_role E sid node mt)" for mt
    by (auto simp: read_role_def Let_def intro!: w)
  show ?thesis unfolding read_node_def by (rule keeps_trans [OF keeps_trans [OF keeps_trans [OF 1 2] 3] 4])
qed

lemma read_nodes_keep:
  assumes "sid \<in> K" "finite K" "card K \<le> MATTER_SESSIONS"
  shows "keeps_content K s mt (fold (read_node E sid payload) nodes mt)"
proof (induction nodes arbitrary: mt)
  case (Cons n nodes)
  then show ?case using keeps_trans [OF read_node_keeps [OF assms] Cons.IH] by simp
qed simp

lemma record_keeps:
  assumes "sid \<in> K" "finite K" "card K \<le> MATTER_SESSIONS" "matter_keys mt \<subseteq> K"
  shows "matter_keys (record_from_read E sid result tool args mt) \<subseteq> K \<and>
    mm_content (membership_of s (record_from_read E sid result tool args mt)) =
      (if s = sid \<and> sid \<noteq> [] \<and> tool \<in> set CONTENT_READ_TOOLS \<and> content_matter_id E args \<noteq> []
       then mm_content (note_content_read (content_matter_id E args) (membership_of s mt))
       else mm_content (membership_of s mt))"
proof -
  let ?noted = "sid \<noteq> [] \<and> tool \<in> set CONTENT_READ_TOOLS \<and> content_matter_id E args \<noteq> []"
  let ?mt1 = "if ?noted then with_membership sid (note_content_read (content_matter_id E args)) mt else mt"
  have k1: "matter_keys ?mt1 \<subseteq> K" using with_membership_keys [OF assms(4,1)] assms(4) by simp
  have c1: "mm_content (membership_of s ?mt1) =
      (if s = sid \<and> ?noted then mm_content (note_content_read (content_matter_id E args) (membership_of s mt))
       else mm_content (membership_of s mt))"
    using with_membership_other [OF assms(4,1-3)] by (cases "s = sid") (auto simp: with_membership_same)
  have "keeps_content K s ?mt1 (record_from_read E sid result tool args mt)"
  proof (cases "payload_of E result")
    case None
    then show ?thesis by (simp add: record_from_read_def)
  next
    case (Some p)
    have "keeps_content K s ?mt1 (fold (read_node E sid p) (all_dicts p) (with_membership sid id ?mt1))"
      by (rule keeps_trans [OF keeps_with_membership [OF assms(1-3)] read_nodes_keep [OF assms(1-3)]]) simp
    then show ?thesis using Some by (simp only: record_from_read_def Let_def option.case)
  qed
  then show ?thesis using k1 c1 unfolding keeps_content_def by argo
qed

section \<open>A session of fenced reads\<close>

text \<open>One tool call of the seat: the fence before the read, the capture after it.\<close>

record seat_read =
  rd_session :: string
  rd_tool :: string
  rd_args :: pyval
  rd_result :: pyval

definition content_of :: "reading_env \<Rightarrow> string \<Rightarrow> seat_read \<Rightarrow> string" where
  "content_of E s r =
     (if rd_session r = s \<and> s \<noteq> [] \<and> rd_tool r \<in> set CONTENT_READ_TOOLS then content_matter_id E (rd_args r) else [])"

definition fenced_read ::
  "reading_env \<Rightarrow> mixing_mode \<Rightarrow> string list \<Rightarrow> seat_read \<Rightarrow> matters \<Rightarrow> bool \<times> matters" where
  "fenced_read E mode exempt r mt =
     (case content_read_refusal E mode exempt (rd_session r) (rd_tool r) (rd_args r) mt of
        (Some _, mt1) \<Rightarrow> (False, mt1)
      | (None, mt1) \<Rightarrow> (True, record_from_read E (rd_session r) (rd_result r) (rd_tool r) (rd_args r) mt1))"

fun fenced_run ::
  "reading_env \<Rightarrow> mixing_mode \<Rightarrow> string list \<Rightarrow> seat_read list \<Rightarrow> matters \<Rightarrow> seat_read list \<times> matters" where
  "fenced_run E mode exempt [] mt = ([], mt)"
| "fenced_run E mode exempt (r # rs) mt =
     (case fenced_read E mode exempt r mt of (went, mt1) \<Rightarrow>
        (case fenced_run E mode exempt rs mt1 of (made, mt2) \<Rightarrow> (if went then r # made else made, mt2)))"

definition contents :: "reading_env \<Rightarrow> string \<Rightarrow> seat_read list \<Rightarrow> string set" where
  "contents E s rs = content_of E s ` set rs - {[]}"

lemma contents_Cons:
  "contents E s (r # rs) = (if content_of E s r = [] then {} else {content_of E s r}) \<union> contents E s rs"
  by (auto simp: contents_def)

lemma contents_Nil [simp]: "contents E s [] = {}"
  by (simp add: contents_def)

lemma refusal_keeps:
  assumes "content_read_refusal E mode exempt sid tool args mt = (ref, mt')"
    and "sid \<in> K" "finite K" "card K \<le> MATTER_SESSIONS"
  shows "keeps_content K s mt mt'"
  using assms(1) by (auto simp: content_read_refusal_def Let_def split: if_splits
    intro!: keeps_with_membership [OF assms(2-4)])

lemma fenced_read_content:
  assumes "fenced_read E Mixing_Block exempt r mt = (went, mt')" "s \<notin> set exempt"
    and "matter_keys mt \<subseteq> K" "rd_session r \<in> K" "finite K" "card K \<le> MATTER_SESSIONS"
  defines "m \<equiv> content_of E s r" and "held \<equiv> mm_content (membership_of s mt)"
  shows "matter_keys mt' \<subseteq> K"
    "mm_content (membership_of s mt') = (if went \<and> m \<noteq> [] then mm_content (note_content_read m (membership_of s mt)) else held)"
    "went \<and> m \<noteq> [] \<Longrightarrow> held = [] \<or> m \<in> set held"
proof -
  obtain ref mt1 where f: "content_read_refusal E Mixing_Block exempt (rd_session r) (rd_tool r) (rd_args r) mt = (ref, mt1)"
    by fastforce
  have k: "matter_keys mt1 \<subseteq> K" "mm_content (membership_of s mt1) = held"
    using refusal_keeps [OF f assms(4-6)] assms(3) by (simp_all add: keeps_content_def held_def)
  note rec = record_keeps [OF assms(4-6) k(1), of E "rd_result r" "rd_tool r" "rd_args r" s]
  have noted: "mm_content (note_content_read x a) = mm_content (note_content_read x b)"
    if "mm_content a = mm_content b" for x a b using that by (simp add: note_content_read_def)
  show "matter_keys mt' \<subseteq> K"
    using assms(1) f rec k by (auto simp: fenced_read_def split: option.splits)
  show "mm_content (membership_of s mt') =
      (if went \<and> m \<noteq> [] then mm_content (note_content_read m (membership_of s mt)) else held)"
    using assms(1) f rec k noted [of "membership_of s mt1" "membership_of s mt"]
    by (cases ref) (auto simp: fenced_read_def m_def content_of_def held_def)
  assume "went \<and> m \<noteq> []"
  then show "held = [] \<or> m \<in> set held"
    using assms(1,2) f by (auto simp: fenced_read_def content_read_refusal_def Let_def m_def content_of_def held_def
      split: option.splits if_splits)
qed

text \<open>What is held is what was read, and it is one matter.\<close>

lemma fenced_run_one:
  assumes "fenced_run E Mixing_Block exempt rs mt = (made, mt')" "s \<notin> set exempt"
    and "matter_keys mt \<subseteq> K" "rd_session ` set rs \<subseteq> K" "finite K" "card K \<le> MATTER_SESSIONS"
    and "length (mm_content (membership_of s mt)) \<le> 1"
  shows "contents E s made \<union> set (mm_content (membership_of s mt)) = set (mm_content (membership_of s mt')) \<and>
    length (mm_content (membership_of s mt')) \<le> 1"
  using assms(1,3,4,7)
proof (induction rs arbitrary: mt made)
  case Nil
  then show ?case by simp
next
  case (Cons r rs)
  obtain went mt1 where f: "fenced_read E Mixing_Block exempt r mt = (went, mt1)" by fastforce
  obtain rest where g: "fenced_run E Mixing_Block exempt rs mt1 = (rest, mt')"
    and d: "made = (if went then r # rest else rest)"
    using Cons.prems(1) f by (auto split: prod.splits)
  have rK: "rd_session r \<in> K" "rd_session ` set rs \<subseteq> K" using Cons.prems(3) by auto
  note step = fenced_read_content [OF f assms(2) Cons.prems(2) rK(1) assms(5,6)]
  let ?m = "content_of E s r"
  have one: "length (mm_content (membership_of s mt1)) \<le> 1 \<and>
      set (mm_content (membership_of s mt1)) =
        set (mm_content (membership_of s mt)) \<union> (if went \<and> ?m \<noteq> [] then {?m} else {})"
  proof (cases "went \<and> ?m \<noteq> []")
    case True
    have "mm_content (membership_of s mt1) = List.insert ?m (mm_content (membership_of s mt))"
      using step(2) True Cons.prems(4) by (simp add: note_content_read_def MAX_MATTERS_def)
    then show ?thesis using step(3) True Cons.prems(4) by (auto simp: List.insert_def)
  next
    case False
    then show ?thesis using step(2) Cons.prems(4) by auto
  qed
  have "contents E s rest \<union> set (mm_content (membership_of s mt1)) = set (mm_content (membership_of s mt')) \<and>
      length (mm_content (membership_of s mt')) \<le> 1"
    by (rule Cons.IH [OF g step(1) rK(2)]) (use one in simp)
  then show ?case using one d by (auto simp: contents_Cons)
qed
section \<open>What a session knows is true\<close>

text \<open>What a read teaches: parties of a matter, perhaps all of them; matters of a person, perhaps all; a number.\<close>

datatype fact = Parties_Are string "pyval list" bool | Matters_Are string "pydict list" bool | Number_Of string string

fun learn :: "reading_env \<Rightarrow> fact \<Rightarrow> membership \<Rightarrow> membership" where
  "learn E (Parties_Are m es whole) st = add_parties m es whole st"
| "learn E (Matters_Are a items whole) st =
     fold (add_listed E a) items (if whole then close_contact (PStr a) st else st)"
| "learn E (Number_Of n m) st = add_alias n m st"

definition listed_ids :: "reading_env \<Rightarrow> pydict list \<Rightarrow> string set" where
  "listed_ids E items = {text_of E (dget item ''id'') | item. item \<in> set items \<and> truthy (dget item ''id'')} - {[]}"

text \<open>\<open>P m\<close> is who really is a party to \<open>m\<close>, and \<open>M\<close> the matters there are.\<close>

fun honest :: "reading_env \<Rightarrow> string set \<Rightarrow> (string \<Rightarrow> string set) \<Rightarrow> fact \<Rightarrow> bool" where
  "honest E M P (Parties_Are m es whole) \<longleftrightarrow>
     m \<in> M \<and> norm_address ` set es - {[]} \<subseteq> P m \<and> (whole \<longrightarrow> P m \<subseteq> norm_address ` set es)"
| "honest E M P (Matters_Are a items whole) \<longleftrightarrow>
     norm_address (PStr a) = a \<and> listed_ids E items \<subseteq> {m \<in> M. a \<noteq> [] \<longrightarrow> a \<in> P m} \<and>
     (whole \<longrightarrow> {m. a \<in> P m} \<subseteq> listed_ids E items)"
| "honest E M P (Number_Of n m) \<longleftrightarrow> True"

definition within_caps :: "string set \<Rightarrow> (string \<Rightarrow> string set) \<Rightarrow> bool" where
  "within_caps M P \<longleftrightarrow>
     finite M \<and> card M \<le> MAX_MATTERS \<and> [] \<notin> M \<and> (\<forall>m. finite (P m) \<and> card (P m) \<le> MAX_EMAILS \<and> [] \<notin> P m)"

text \<open>Apart from the people of \<open>X\<close>, whose listing is being read, a closed list is the whole list.\<close>

definition knows_truth :: "string set \<Rightarrow> string set \<Rightarrow> (string \<Rightarrow> string set) \<Rightarrow> membership \<Rightarrow> bool" where
  "knows_truth X M P st \<longleftrightarrow>
     distinct (keys (mm_by st)) \<and> set (keys (mm_by st)) \<subseteq> M \<and>
     (\<forall>m. distinct (parties m st) \<and> set (parties m st) \<subseteq> P m \<and> (is_closed m st \<longrightarrow> P m \<subseteq> set (parties m st))) \<and>
     (\<forall>a \<in> set (mm_contact_complete st) - X. \<forall>m. a \<in> P m \<longrightarrow> a \<in> set (parties m st))"

lemma put_addresses:
  assumes "finite Q" "card Q \<le> MAX_EMAILS" "norm_address ` set es - {[]} \<subseteq> Q" "set b \<subseteq> Q" "distinct b"
  shows "set (foldl put_address b es) = set b \<union> (norm_address ` set es - {[]}) \<and> distinct (foldl put_address b es)"
  using assms(3-5)
proof (induction es arbitrary: b)
  case (Cons e es)
  have new: "length b < MAX_EMAILS" if "norm_address e \<noteq> []" "norm_address e \<notin> set b"
  proof -
    have "set b \<subset> Q" using that Cons.prems by auto
    then have "card (set b) < card Q" using assms(1) by (rule psubset_card_mono [rotated])
    then show ?thesis using Cons.prems(3) assms(2) by (simp add: distinct_card)
  qed
  have "set (put_address b e) = set b \<union> ({norm_address e} - {[]}) \<and> distinct (put_address b e)"
    using new Cons.prems(3) by (auto simp: put_address_def Let_def)
  then show ?case using Cons.IH [of "put_address b e"] Cons.prems by auto
qed simp

lemma index_folded_frame [simp]:
  "mm_by (index_folded m st) = mm_by st" "mm_complete (index_folded m st) = mm_complete st"
  "mm_contact_complete (index_folded m st) = mm_contact_complete st"
  by (auto simp: index_folded_def Let_def split: option.split)

lemma alias_frame [simp]:
  "mm_by (add_alias a m st) = mm_by st" "mm_complete (add_alias a m st) = mm_complete st"
  "mm_contact_complete (add_alias a m st) = mm_contact_complete st"
  by (auto simp: add_alias_def Let_def split: option.split)

lemma alias_truth [simp]: "knows_truth X M P (add_alias a m st) = knows_truth X M P st"
  by (simp add: knows_truth_def parties_def is_closed_def)

lemma alias_if_truth [simp]: "knows_truth X M P (alias_if_number v m st) = knows_truth X M P st"
  by (simp add: alias_if_number_def split: pyval.split)

lemma room_for_matter:
  assumes "knows_truth X M P st" "within_caps M P" "m \<in> M" "map_of (mm_by st) m = None"
  shows "length (mm_by st) < MAX_MATTERS"
proof -
  have "m \<notin> set (keys (mm_by st))" using assms(4) by (simp add: map_of_eq_None_iff)
  then have "set (keys (mm_by st)) \<subset> M" using assms(1,3) by (auto simp: knows_truth_def)
  then have "card (set (keys (mm_by st))) < card M"
    using assms(2) by (intro psubset_card_mono) (simp_all add: within_caps_def)
  then have "length (keys (mm_by st)) < MAX_MATTERS"
    using assms(1,2) distinct_card [of "keys (mm_by st)"] by (simp add: knows_truth_def within_caps_def)
  then show ?thesis by simp
qed

lemma add_parties_fields:
  assumes "knows_truth X M P st" "within_caps M P" "m \<in> M"
  shows "mm_by (add_parties m es whole st) =
      AList.update m (foldl put_address (parties m st) es) (AList.update m (parties m st) (mm_by st))"
    "mm_contact_complete (add_parties m es whole st) = mm_contact_complete st"
    "set (mm_complete (add_parties m es whole st)) = set (mm_complete st) \<union> (if whole then {m} else {})"
proof -
  have "m \<noteq> []" using assms(2,3) by (auto simp: within_caps_def)
  moreover have "\<not> (map_of (mm_by st) m = None \<and> MAX_MATTERS \<le> length (mm_by st))"
    using room_for_matter [OF assms] by auto
  ultimately show "mm_by (add_parties m es whole st) =
      AList.update m (foldl put_address (parties m st) es) (AList.update m (parties m st) (mm_by st))"
    "mm_contact_complete (add_parties m es whole st) = mm_contact_complete st"
    "set (mm_complete (add_parties m es whole st)) = set (mm_complete st) \<union> (if whole then {m} else {})"
    by (auto simp: add_parties_def Let_def)
qed

lemma add_parties_truth:
  assumes "knows_truth X M P st" "within_caps M P" "m \<in> M" "norm_address ` set es - {[]} \<subseteq> P m"
    and "whole \<Longrightarrow> P m \<subseteq> norm_address ` set es"
  shows "knows_truth X M P (add_parties m es whole st)"
    "set (parties m (add_parties m es whole st)) = set (parties m st) \<union> (norm_address ` set es - {[]})"
    "set (parties m' st) \<subseteq> set (parties m' (add_parties m es whole st))"
proof -
  note f = add_parties_fields [OF assms(1-3)]
  have P: "finite (P m)" "card (P m) \<le> MAX_EMAILS" "[] \<notin> P m" using assms(2) by (auto simp: within_caps_def)
  have old: "set (parties m st) \<subseteq> P m" "distinct (parties m st)" using assms(1) by (auto simp: knows_truth_def)
  note put = put_addresses [OF P(1,2) assms(4) old]
  let ?st = "add_parties m es whole st"
  have mine: "parties m ?st = foldl put_address (parties m st) es"
    by (simp add: parties_def f(1) update_conv)
  have others: "parties k ?st = parties k st" if "k \<noteq> m" for k
    using that by (simp add: parties_def f(1) update_conv)
  show "set (parties m ?st) = set (parties m st) \<union> (norm_address ` set es - {[]})" using put mine by simp
  then show grows: "set (parties m' st) \<subseteq> set (parties m' ?st)" for m' using others by (cases "m' = m") auto
  have 1: "distinct (keys (mm_by ?st)) \<and> set (keys (mm_by ?st)) \<subseteq> M"
    using assms(1,3) by (auto simp: knows_truth_def f(1) dom_update distinct_update)
  have 2: "distinct (parties k ?st) \<and> set (parties k ?st) \<subseteq> P k \<and> (is_closed k ?st \<longrightarrow> P k \<subseteq> set (parties k ?st))" for k
  proof (cases "k = m")
    case True
    have "is_closed m ?st \<Longrightarrow> P m \<subseteq> set (parties m ?st)"
      using assms(1,5) f(3) put mine P(3) by (auto simp: is_closed_def knows_truth_def split: if_splits)
    then show ?thesis using True put mine old assms(4) by auto
  next
    case False
    then have "is_closed k ?st = is_closed k st" using f(3) by (auto simp: is_closed_def split: if_splits)
    then show ?thesis using assms(1) others [OF False] by (auto simp: knows_truth_def)
  qed
  have 3: "\<forall>a \<in> set (mm_contact_complete ?st) - X. \<forall>k. a \<in> P k \<longrightarrow> a \<in> set (parties k ?st)"
    using assms(1) grows unfolding f(2) knows_truth_def by blast
  show "knows_truth X M P ?st" using 1 2 3 unfolding knows_truth_def by blast
qed

lemma knows_truth_mono: "knows_truth X M P st \<Longrightarrow> X \<subseteq> Y \<Longrightarrow> knows_truth Y M P st"
  by (auto simp: knows_truth_def)

lemma add_listed_truth:
  assumes "knows_truth X M P st" "within_caps M P" "norm_address (PStr a) = a" "listed_ids E [item] \<subseteq> {m \<in> M. a \<noteq> [] \<longrightarrow> a \<in> P m}"
  shows "knows_truth X M P (add_listed E a item st)"
    "set (parties m st) \<subseteq> set (parties m (add_listed E a item st))"
    "m \<in> listed_ids E [item] \<Longrightarrow> a \<noteq> [] \<Longrightarrow> a \<in> set (parties m (add_listed E a item st))"
proof -
  let ?m = "text_of E (dget item ''id'')"
  have frame: "parties k (alias_if_number v n s) = parties k s" for k v n s
    by (simp add: alias_if_number_def parties_def split: pyval.split)
  have empty: "add_parties [] es w s = s" for es w s by (simp add: add_parties_def)
  have ids: "listed_ids E [item] = (if truthy (dget item ''id'') then {?m} - {[]} else {})"
    by (auto simp: listed_ids_def)
  have "knows_truth X M P (add_listed E a item st) \<and> set (parties m st) \<subseteq> set (parties m (add_listed E a item st)) \<and>
      (m \<in> listed_ids E [item] \<longrightarrow> a \<noteq> [] \<longrightarrow> a \<in> set (parties m (add_listed E a item st)))"
  proof (cases "truthy (dget item ''id'') \<and> ?m \<noteq> []")
    case True
    then have m: "?m \<in> M" "norm_address ` set [PStr a] - {[]} \<subseteq> P ?m" using assms(3,4) ids by auto
    note add = add_parties_truth [OF assms(1,2) m, of False]
    have l: "add_listed E a item st = alias_if_number (dget item ''number'') ?m (add_parties ?m [PStr a] False st)"
      using True by (simp add: add_listed_def)
    show ?thesis using add(1) add(3) [of m] add(2) True assms(3) ids unfolding l frame by auto
  next
    case False
    then show ?thesis using assms(1) ids by (auto simp: add_listed_def frame empty)
  qed
  then show "knows_truth X M P (add_listed E a item st)"
    "set (parties m st) \<subseteq> set (parties m (add_listed E a item st))"
    "m \<in> listed_ids E [item] \<Longrightarrow> a \<noteq> [] \<Longrightarrow> a \<in> set (parties m (add_listed E a item st))" by auto
qed

lemma listed_ids_Cons: "listed_ids E (x # xs) = listed_ids E [x] \<union> listed_ids E xs"
  by (auto simp: listed_ids_def)

lemma listing_truth:
  assumes "knows_truth X M P st" "within_caps M P" "norm_address (PStr a) = a" "listed_ids E items \<subseteq> {m \<in> M. a \<noteq> [] \<longrightarrow> a \<in> P m}"
  shows "knows_truth X M P (fold (add_listed E a) items st) \<and>
    (\<forall>m. set (parties m st) \<subseteq> set (parties m (fold (add_listed E a) items st))) \<and>
    (a \<noteq> [] \<longrightarrow> (\<forall>m \<in> listed_ids E items. a \<in> set (parties m (fold (add_listed E a) items st))))"
  using assms(1,4)
proof (induction items arbitrary: st)
  case Nil
  then show ?case by (simp add: listed_ids_def)
next
  case (Cons x xs)
  have x: "listed_ids E [x] \<subseteq> {m \<in> M. a \<noteq> [] \<longrightarrow> a \<in> P m}" and xs: "listed_ids E xs \<subseteq> {m \<in> M. a \<noteq> [] \<longrightarrow> a \<in> P m}"
    using Cons.prems(2) listed_ids_Cons [of E x xs] by auto
  note one = add_listed_truth [OF Cons.prems(1) assms(2,3) x]
  note rest = Cons.IH [OF one(1) xs]
  show ?case using rest one(2,3) listed_ids_Cons [of E x xs] by auto blast+
qed

lemma close_contact_fields [simp]:
  "mm_by (close_contact v st) = mm_by st" "mm_complete (close_contact v st) = mm_complete st"
  "set (mm_contact_complete (close_contact v st)) \<subseteq> insert (norm_address v) (set (mm_contact_complete st))"
  by (auto simp: close_contact_def Let_def)

lemma listed_contacts: "mm_contact_complete (fold (add_listed E a) items st) = mm_contact_complete st"
proof (induction items arbitrary: st)
  case (Cons x xs)
  have "mm_contact_complete (add_parties m es w s) = mm_contact_complete s" for m es w s
    by (auto simp: add_parties_def Let_def)
  then have "mm_contact_complete (add_listed E a x st) = mm_contact_complete st"
    by (auto simp: add_listed_def alias_if_number_def split: pyval.split)
  then show ?case using Cons by simp
qed simp

lemma learn_truth:
  assumes "honest E M P f" "within_caps M P" "knows_truth {} M P st"
  shows "knows_truth {} M P (learn E f st)"
proof (cases f)
  case (Parties_Are m es whole)
  then show ?thesis using assms add_parties_truth(1) [OF assms(3,2), of m es whole] by simp
next
  case (Number_Of n m)
  then show ?thesis using assms by simp
next
  case (Matters_Are a items whole)
  let ?st = "if whole then close_contact (PStr a) st else st"
  have h: "norm_address (PStr a) = a" "listed_ids E items \<subseteq> {m \<in> M. a \<noteq> [] \<longrightarrow> a \<in> P m}"
    "whole \<Longrightarrow> {m. a \<in> P m} \<subseteq> listed_ids E items" using assms(1) Matters_Are by auto
  have closed: "set (mm_contact_complete ?st) \<subseteq> insert a (set (mm_contact_complete st))"
    using h(1) close_contact_fields(3) [of "PStr a" st] by (auto simp del: close_contact_fields)
  have same: "parties m ?st = parties m st" "is_closed m ?st = is_closed m st" "mm_by ?st = mm_by st" for m
    by (simp_all add: parties_def is_closed_def)
  have "knows_truth {a} M P ?st" using assms(3) closed unfolding knows_truth_def same by blast
  note l = listing_truth [OF this assms(2) h(1,2)]
  let ?new = "fold (add_listed E a) items ?st"
  have cc: "mm_contact_complete ?new = mm_contact_complete ?st" by (rule listed_contacts)
  have "a \<in> set (parties m ?new)" if "a \<in> set (mm_contact_complete ?new)" "a \<in> P m" for m
  proof (cases whole)
    case True
    then have "m \<in> listed_ids E items" using h(3) that(2) by auto
    moreover have "a \<noteq> []" using that(2) assms(2) by (auto simp: within_caps_def)
    ultimately show ?thesis using l by blast
  next
    case False
    then have "a \<in> set (parties m st)" using that assms(3) cc unfolding knows_truth_def by auto
    then show ?thesis using l False by auto
  qed
  then have "\<forall>b \<in> set (mm_contact_complete ?new). \<forall>m. b \<in> P m \<longrightarrow> b \<in> set (parties m ?new)"
    using conjunct1 [OF l] unfolding knows_truth_def by (metis DiffI singletonD)
  moreover have "knows_truth {a} M P ?new" using l by (rule conjunct1)
  ultimately have "knows_truth {} M P ?new" by (simp add: knows_truth_def)
  then show ?thesis using Matters_Are by simp
qed
lemma verdict_finding:
  assumes "verdict_for st cited recips = v"
  shows "mv_status v = Mismatch \<Longrightarrow> \<exists>t \<in> set cited. \<exists>r \<in> recips. normalized r \<noteq> [] \<and> resolve_token st t \<noteq> [] \<and>
      finding st (resolve_token st t) (normalized r) = Outsider"
    "mv_status v = Matter_Ok \<Longrightarrow> t \<in> set cited \<Longrightarrow> resolve_token st t \<noteq> [] \<Longrightarrow> r \<in> recips \<Longrightarrow> finite recips \<Longrightarrow>
      normalized r \<noteq> [] \<Longrightarrow> normalized r \<in> set (parties (resolve_token st t) st)"
proof -
  have in_list: "a \<in> set (recipient_list recips) \<longleftrightarrow> a \<in> normalized ` recips - {[]}" if "finite recips" for a
    using that by (simp add: recipient_list_def)
  have sub: "set (recipient_list recips) \<subseteq> normalized ` recips - {[]}"
    by (cases "finite (normalized ` recips - {[]})") (auto simp: recipient_list_def)
  have pairs: "(a, t) \<in> set (pairs_found st f (resolve_cited st cited) (recipient_list recips)) \<longleftrightarrow>
      t \<in> set cited \<and> resolve_token st t \<noteq> [] \<and> a \<in> set (recipient_list recips) \<and> finding st (resolve_token st t) a = f"
    for a t f by (auto simp: pairs_found_def resolve_cited_def)
  show "\<exists>t \<in> set cited. \<exists>r \<in> recips. normalized r \<noteq> [] \<and> resolve_token st t \<noteq> [] \<and>
      finding st (resolve_token st t) (normalized r) = Outsider" if "mv_status v = Mismatch"
  proof -
    have "pairs_found st Outsider (resolve_cited st cited) (recipient_list recips) \<noteq> []"
      using assms that by (auto simp: verdict_for_def Let_def split: if_splits)
    then obtain a t where "(a, t) \<in> set (pairs_found st Outsider (resolve_cited st cited) (recipient_list recips))"
      by (metis list.set_intros(1) neq_Nil_conv surj_pair)
    then show ?thesis using pairs sub by fastforce
  qed
  show "normalized r \<in> set (parties (resolve_token st t) st)"
    if "mv_status v = Matter_Ok" "t \<in> set cited" "resolve_token st t \<noteq> []" "r \<in> recips" "finite recips" "normalized r \<noteq> []"
  proof -
    have none: "pairs_found st Outsider (resolve_cited st cited) (recipient_list recips) = []"
      "pairs_found st Open_List (resolve_cited st cited) (recipient_list recips) = []"
      using assms that(1) by (auto simp: verdict_for_def Let_def split: if_splits)
    have "normalized r \<in> set (recipient_list recips)" using that in_list by auto
    then have "finding st (resolve_token st t) (normalized r) \<noteq> Outsider"
      "finding st (resolve_token st t) (normalized r) \<noteq> Open_List"
      using pairs [of "normalized r" t Outsider] pairs [of "normalized r" t Open_List] none that by auto
    then show ?thesis by (auto simp: finding_def split: if_splits)
  qed
qed

lemma no_membership_truth: "knows_truth {} M P no_membership"
  by (simp add: knows_truth_def no_membership_def parties_def is_closed_def)

lemma learned_truth:
  assumes "within_caps M P" "\<forall>f \<in> set fs. honest E M P f" "knows_truth {} M P st"
  shows "knows_truth {} M P (fold (learn E) fs st)"
  using assms(2,3) by (induction fs arbitrary: st) (simp_all add: learn_truth [OF _ assms(1)])

lemma put_capped: "length b \<le> MAX_EMAILS \<Longrightarrow> length (foldl put_address b es) \<le> MAX_EMAILS"
proof (induction es arbitrary: b)
  case (Cons e es)
  then show ?case by (auto simp: put_address_def Let_def List.insert_def)
qed simp

section \<open>Examples\<close>

definition plain_reading :: reading_env where
  "plain_reading = \<lparr>rc_json = (\<lambda>_. None), rc_str = (\<lambda>_. [])\<rparr>"

definition memo_read :: "string \<Rightarrow> seat_read" where
  "memo_read m = \<lparr>rd_session = ''s'', rd_tool = ''mcp_smokeball_get_memos_on_matter'',
     rd_args = PDict [(''matter_id'', PStr m)], rd_result = PStr []\<rparr>"

definition one_party :: "string \<Rightarrow> string set" where
  "one_party m = (if m = ''M1'' then {''a@x''} else {})"

definition two_read :: matters where
  "two_read = with_membership ''s'' (note_content_read ''M2'' \<circ> note_content_read ''M1'') no_matters"

lemma two_read_content: "mm_content (membership_of ''s'' two_read) = [''M2'', ''M1'']"
  by code_simp

lemma no_matters_keys: "matter_keys no_matters = {}"
  by (simp add: matter_keys_def no_matters_def)

lemma no_matters_content: "mm_content (membership_of s no_matters) = []"
  by (simp add: membership_of_def no_matters_def no_membership_def)

definition mixed_world :: "string \<Rightarrow> string \<Rightarrow> world" where
  "mixed_world action ceil = (sample_world action ceil)\<lparr>w_gates := quiet_gates\<lparr>multi_matter :=
     (\<lambda>s. fst (multi_matter_session Mixing_Block s two_read))\<rparr>\<rparr>"

definition many_parties :: "nat \<Rightarrow> pyval list" where
  "many_parties n = map (\<lambda>i. PStr [char_of (97 + i div 10), char_of (97 + i mod 10), CHR ''@'']) [0..<n]"

section \<open>Properties\<close>

text \<open>Two matters never meet in one session: with the fence in blocking mode, the content reads that run in a
  session, one after the other and among those of any other sessions, all name the same matter, as long
  as the register has room for the sessions and the session is not an establishment one.\<close>

theorem content_reads_name_one_matter:
  assumes "rd_session ` set rs \<union> matter_keys mt \<subseteq> K" "finite K" "card K \<le> MATTER_SESSIONS"
    and "s \<notin> set exempt" "mm_content (membership_of s mt) = []"
  shows "card (contents E s (fst (fenced_run E Mixing_Block exempt rs mt))) \<le> 1"
proof -
  obtain made mt' where f: "fenced_run E Mixing_Block exempt rs mt = (made, mt')" by fastforce
  have "matter_keys mt \<subseteq> K" "rd_session ` set rs \<subseteq> K" using assms(1) by auto
  note one = fenced_run_one [OF f assms(4) this assms(2,3)]
  have "contents E s made = set (mm_content (membership_of s mt'))"
    "length (mm_content (membership_of s mt')) \<le> 1" using one assms(5) by simp_all
  then show ?thesis using card_length [of "mm_content (membership_of s mt')"] f by simp
qed

lemma content_reads_name_one_matter_witness:
  "card (contents plain_reading ''s'' (fst (fenced_run plain_reading Mixing_Block [] [memo_read ''M1'', memo_read ''M2''] no_matters))) \<le> 1"
  by (rule content_reads_name_one_matter [where K = "{''s''}"])
    (simp_all add: memo_read_def no_matters_keys no_matters_content MATTER_SESSIONS_def)

text \<open>A mismatch is never a false alarm: when the reads of a session taught it the truth and the firm's
  matters fit the caps, a body is stopped only if some recipient really is no party to a matter it cites.\<close>

theorem mismatch_names_a_real_outsider:
  assumes "within_caps M P" "\<forall>f \<in> set fs. honest E M P f"
    and "mv_status (verdict_for (fold (learn E) fs no_membership) cited recips) = Mismatch"
    and "\<forall>r \<in> recips. norm_address (PStr (normalized r)) = normalized r"
  shows "\<exists>t \<in> set cited. \<exists>r \<in> recips. normalized r \<notin> P (resolve_token (fold (learn E) fs no_membership) t)"
proof -
  let ?st = "fold (learn E) fs no_membership"
  have k: "knows_truth {} M P ?st" by (rule learned_truth [OF assms(1,2) no_membership_truth])
  obtain t r where tr: "t \<in> set cited" "r \<in> recips"
    and f: "finding ?st (resolve_token ?st t) (normalized r) = Outsider"
    using verdict_finding(1) [OF refl assms(3)] by auto
  have "normalized r \<notin> P (resolve_token ?st t)"
  proof
    assume p: "normalized r \<in> P (resolve_token ?st t)"
    have "normalized r \<in> set (mm_contact_complete ?st)" if "is_contact_closed (normalized r) ?st"
      using that assms(4) tr(2) by (simp add: is_contact_closed_def Let_def)
    then have "normalized r \<in> set (parties (resolve_token ?st t) ?st)"
      using f p k by (auto simp: finding_def knows_truth_def split: if_splits)
    then show False using f by (simp add: finding_def)
  qed
  then show ?thesis using tr by blast
qed

lemma mismatch_names_a_real_outsider_witness:
  "\<exists>t \<in> set [''M1'']. \<exists>r \<in> {''b@y''}. normalized r \<notin> one_party (resolve_token
     (fold (learn plain_reading) [Parties_Are ''M1'' [PStr ''a@x''] True] no_membership) t)"
proof -
  have n: "norm_address (PStr ''a@x'') = ''a@x''" "norm_address (PStr ''b@y'') = ''b@y''" "normalized ''b@y'' = ''b@y''"
    by code_simp+
  have l: "recipient_list {''b@y''} = [''b@y'']" by (simp add: recipient_list_def n)
  have r: "resolve_cited (fold (learn plain_reading) [Parties_Are ''M1'' [PStr ''a@x''] True] no_membership) [''M1''] = [(''M1'', ''M1'')]"
    by code_simp
  have f: "finding (fold (learn plain_reading) [Parties_Are ''M1'' [PStr ''a@x''] True] no_membership) ''M1'' ''b@y'' = Outsider"
    by code_simp
  have v: "mv_status (verdict_for (fold (learn plain_reading) [Parties_Are ''M1'' [PStr ''a@x''] True] no_membership) [''M1''] {''b@y''}) = Mismatch"
    unfolding verdict_for_def Let_def l r pairs_found_def using f by simp
  show ?thesis
    by (rule mismatch_names_a_real_outsider [where M = "{''M1''}" and cited = "[''M1'']" and recips = "{''b@y''}", OF _ _ v])
      (simp_all add: within_caps_def one_party_def MAX_MATTERS_def MAX_EMAILS_def n)
qed

text \<open>The caps lie about closed lists: when the connector reports more parties than the cap as the complete list
  of a matter, some reported party is found to be an outsider to it.\<close>

theorem capped_party_list_denies_a_party:
  assumes "m \<noteq> []" "map_of (mm_by st) m \<noteq> None \<or> length (mm_by st) < MAX_MATTERS" "length (parties m st) \<le> MAX_EMAILS"
    and "MAX_EMAILS < card (norm_address ` set es - {[]})"
  shows "\<exists>a \<in> norm_address ` set es - {[]}. finding (add_parties m es True st) m a = Outsider"
proof -
  let ?st = "add_parties m es True st" and ?b = "foldl put_address (parties m st) es"
  have p: "parties m ?st = ?b" "is_closed m ?st"
    using assms(1,2) by (auto simp: parties_def is_closed_def add_parties_def Let_def update_conv)
  have "card (set ?b) \<le> MAX_EMAILS" using put_capped [OF assms(3), of es] card_length [of ?b] by linarith
  then have "card (set ?b) < card (norm_address ` set es - {[]})" using assms(4) by linarith
  then have "\<not> norm_address ` set es - {[]} \<subseteq> set ?b" using card_mono [OF finite_set, of _ ?b] leD by blast
  then show ?thesis using p by (auto simp: finding_def)
qed

lemma capped_party_list_denies_a_party_witness:
  "\<exists>a \<in> norm_address ` set (many_parties 65) - {[]}. finding (add_parties ''M1'' (many_parties 65) True no_membership) ''M1'' a = Outsider"
proof (rule capped_party_list_denies_a_party)
  define g :: "nat \<Rightarrow> string" where "g = (\<lambda>i. [char_of (97 + i div 10), char_of (97 + i mod 10), CHR ''@''])"
  have n: "map norm_address (many_parties 65) = map g [0..<65]" unfolding g_def by code_simp
  have "i = j" if "i < 65" "j < 65" "g i = g j" for i j
  proof -
    have "of_char (g i ! 0) = (of_char (g j ! 0) :: nat)" "of_char (g i ! 1) = (of_char (g j ! 1) :: nat)" using that(3) by simp_all
    then have "i div 10 = j div 10" "i mod 10 = j mod 10" using that(1,2) by (simp_all add: g_def)
    then show ?thesis by (metis div_mult_mod_eq)
  qed
  then have "inj_on g {0..<65}" by (auto intro: inj_onI)
  then have "card (g ` {0..<65}) = 65" by (simp only: card_image card_atLeastLessThan)
  moreover have "norm_address ` set (many_parties 65) = g ` {0..<65}"
    using arg_cong [OF n, of set] by (simp only: set_map set_upt)
  moreover have "g ` {0..<65} - {[]} = g ` {0..<65}" by (auto simp: g_def)
  ultimately show "MAX_EMAILS < card (norm_address ` set (many_parties 65) - {[]})"
    by (simp only: MAX_EMAILS_def)
qed (simp_all add: no_membership_def parties_def MAX_MATTERS_def MAX_EMAILS_def)

text \<open>The fence assumes one read at a time: two reads of different matters that are both dispatched before the
  first result is captured both pass it, and the session then holds the content of both.\<close>

theorem reads_in_flight_pass_together:
  assumes "mm_content (membership_of s mt) = []" "s \<noteq> []" "s \<notin> set exempt"
    and "t1 \<in> set CONTENT_READ_TOOLS" "t2 \<in> set CONTENT_READ_TOOLS"
    and "content_matter_id E a1 \<noteq> []" "content_matter_id E a2 \<noteq> []" "content_matter_id E a1 \<noteq> content_matter_id E a2"
    and "matter_keys mt \<subseteq> K" "s \<in> K" "finite K" "card K \<le> MATTER_SESSIONS"
    and "content_read_refusal E Mixing_Block exempt s t1 a1 mt = (ref1, mt1)"
    and "content_read_refusal E Mixing_Block exempt s t2 a2 mt1 = (ref2, mt2)"
  shows "ref1 = None \<and> ref2 = None \<and>
    length (mm_content (membership_of s (record_from_read E s res2 t2 a2 (record_from_read E s res1 t1 a1 mt2)))) = 2"
proof -
  note k1 = refusal_keeps [OF assms(13) assms(10-12), of s] and k2 = refusal_keeps [OF assms(14) assms(10-12), of s]
  have c1: "mm_content (membership_of s mt1) = []" "matter_keys mt1 \<subseteq> K" using k1 assms(1,9) by (simp_all add: keeps_content_def)
  then have c2: "mm_content (membership_of s mt2) = []" "matter_keys mt2 \<subseteq> K" using k2 by (simp_all add: keeps_content_def)
  have refs: "ref1 = None" "ref2 = None"
    using assms(1,13,14) c1(1) by (auto simp: content_read_refusal_def Let_def split: if_splits)
  let ?r1 = "record_from_read E s res1 t1 a1 mt2"
  note r1 = record_keeps [OF assms(10-12) c2(2), of E res1 t1 a1 s]
  have m1: "mm_content (membership_of s ?r1) = [content_matter_id E a1]" "matter_keys ?r1 \<subseteq> K"
    using r1 c2(1) assms(2,4,6) by (simp_all add: note_content_read_def MAX_MATTERS_def)
  note r2 = record_keeps [OF assms(10-12) m1(2), of E res2 t2 a2 s]
  show ?thesis using refs r2 m1(1) assms(2,5,7,8) by (simp add: note_content_read_def MAX_MATTERS_def)
qed

lemma reads_in_flight_pass_together_witness:
  "length (mm_content (membership_of ''s'' (record_from_read plain_reading ''s'' (PStr []) (rd_tool (memo_read ''M2''))
     (rd_args (memo_read ''M2'')) (record_from_read plain_reading ''s'' (PStr []) (rd_tool (memo_read ''M1''))
     (rd_args (memo_read ''M1'')) (snd (content_read_refusal plain_reading Mixing_Block [] ''s'' (rd_tool (memo_read ''M2''))
     (rd_args (memo_read ''M2'')) (snd (content_read_refusal plain_reading Mixing_Block [] ''s'' (rd_tool (memo_read ''M1''))
     (rd_args (memo_read ''M1'')) no_matters)))))))) = 2"
proof -
  have m: "content_matter_id plain_reading (rd_args (memo_read ''M1'')) = ''M1''"
    "content_matter_id plain_reading (rd_args (memo_read ''M2'')) = ''M2''" by code_simp+
  have t: "rd_tool (memo_read x) \<in> set CONTENT_READ_TOOLS" for x by (simp add: memo_read_def CONTENT_READ_TOOLS_def)
  show ?thesis
    using reads_in_flight_pass_together [where K = "{''s''}" and exempt = "[]" and mt = no_matters and E = plain_reading
        and s = "''s''", OF no_matters_content _ _ t t _ _ _ _ _ _ _ prod.collapse [symmetric] prod.collapse [symmetric]] m
    by (simp add: no_matters_keys MATTER_SESSIONS_def)
qed

text \<open>A session that read two matters sends nothing: with this gate in its place and in blocking mode, a call that
  the trust gate lets through, other than a read, reaches no one outside the seat.\<close>

theorem mixed_session_sends_nothing:
  assumes "multi_matter (w_gates w) = (\<lambda>s. fst (multi_matter_session Mixing_Block s mt))" "multi_matter_blocks (w_gates w)"
    and "2 \<le> length (mm_content (membership_of (tc_session c) mt))" "tc_session c \<noteq> []"
    and "fst (evaluate_tool_call w c args st) = None" "tc_tool c \<noteq> []"
    and "classify_tool (tc_tool c) = Inr cl" "c_class cl \<noteq> READ" "effective_class w c (c_class cl) args = Inr cls"
  shows "cls \<notin> OUTWARD_CLASSES"
proof -
  obtain args' st' where e: "evaluate_tool_call w c args st = (None, args', st')" using assms(5) by (metis prod.collapse)
  obtain r st1 st2 where r: "resolve_call w c (c_class cl) args st1 = Inr (r, args', st2)"
    "settle w c r args' st2 = (None, st')" by (rule evaluate_allows [OF e assms(6-8)])
  obtain expo floors cls' where p: "effective_class w c (c_class cl) args = Inr cls'"
    "decide_call w c expo floors cls' args st1 = (r, args', st2)" by (rule resolve_call_parts [OF r(1)])
  have cls: "r_class r = cls" using decide_call_parts(1) [OF p(2)] p(1) assms(9) by simp
  have multi: "multi_matter (w_gates w) (tc_session c) \<noteq> []"
    using assms(1,3,4) by (auto simp: multi_matter_session_def Let_def dest: arg_cong [where f = length])
  show ?thesis
  proof
    assume out: "cls \<in> OUTWARD_CLASSES"
    have ok: "d_allowed (r_decision r)" by (rule settle_allows [OF r(2)])
    let ?st = "capture_withheld w c r args' (note_row c (decision_row w c (r_decision r) (d_reason (r_decision r))) st2)"
    have "fst (matter_checks w c r args' ?st) \<noteq> None"
      using out cls multi assms(2) ok by (auto simp: matter_checks_def Let_def)
    then show False using r(2) by (auto simp: settle_def Let_def split: if_splits prod.splits option.splits)
  qed
qed

lemma mixed_session_sends_nothing_witness:
  "fst (evaluate_tool_call (mixed_world ''internal_write'' ''autonomous'') (sample_call ''mcp_agentmail_create_draft'') [] sample_state) = None \<and>
   INTERNAL_WRITE \<notin> OUTWARD_CLASSES"
proof -
  let ?w = "mixed_world ''internal_write'' ''autonomous''" and ?c = "sample_call ''mcp_agentmail_create_draft''"
  have a: "fst (evaluate_tool_call ?w ?c [] sample_state) = None" by code_simp
  have k: "classify_tool (tc_tool ?c) = Inr \<lparr>c_class = INTERNAL_WRITE, c_unmapped = False\<rparr>" by code_simp
  have e: "effective_class ?w ?c INTERNAL_WRITE [] = Inr INTERNAL_WRITE" by code_simp
  show ?thesis
    using mixed_session_sends_nothing [of ?w two_read ?c "[]" sample_state _ INTERNAL_WRITE, OF _ _ _ _ a _ k] a e two_read_content
    by (simp add: mixed_world_def quiet_gates_def sample_call_def)
qed

end
