(* ===== verification/Admin_Possession.thy ===== *)
theory Admin_Possession
  imports Text Stores
begin

text \<open>
  The mailbox possession ceremony (\<open>shared/admin_possession.py\<close>): a rostered address is mailed a code,
  and a message from it that carries the code confirms it, once. One table for the admins, re-armed by
  the authored list, and one for the other people, re-armed by a predicate that may raise (\<open>None\<close>); both
  of the one customer of the seat. A code is a fresh value handed in; a row is \<open>nonce\<close>, \<open>expires\<close>,
  \<open>confirmed\<close> and \<open>via\<close> (the two informational time stamps of the row are left out). A return without a
  commit leaves the table as it was.
\<close>

section \<open>Tables\<close>

record possession =
  ps_nonce :: "string option"
  ps_expires :: "int option"
  ps_confirmed :: bool
  ps_via :: string

type_synonym possession_table = "(string \<times> possession) list"

record possessions =
  pz_admins :: possession_table
  pz_persons :: possession_table

definition no_possessions :: possessions where
  "no_possessions = \<lparr>pz_admins = [], pz_persons = []\<rparr>"

definition NONCE_TTL :: int where
  "NONCE_TTL = 72 * 3600"

datatype standing = Confirmed | Challenge_Issued string | Challenge_Pending string

definition address_of :: "pyval \<Rightarrow> string" where
  "address_of v = (case v of PStr s \<Rightarrow> normalized s | _ \<Rightarrow> [])"

text \<open>The code that stands.\<close>

definition live_code :: "int \<Rightarrow> possession \<Rightarrow> string option" where
  "live_code now r =
     (case ps_nonce r of
        None \<Rightarrow> None
      | Some n \<Rightarrow> (case ps_expires r of None \<Rightarrow> None | Some e \<Rightarrow> if n \<noteq> [] \<and> now \<le> e then Some n else None))"

text \<open>The second half of \<open>verdict\<close>: read the row, or mint a challenge.\<close>

definition challenge :: "int \<Rightarrow> string \<Rightarrow> string \<Rightarrow> possession_table \<Rightarrow> standing \<times> possession_table" where
  "challenge now fresh a t =
     (case map_of t a of
        None \<Rightarrow>
          (Challenge_Issued fresh,
           AList.update a \<lparr>ps_nonce = Some fresh, ps_expires = Some (now + NONCE_TTL), ps_confirmed = False, ps_via = []\<rparr> t)
      | Some r \<Rightarrow>
          if ps_confirmed r then (Confirmed, t)
          else (case live_code now r of
                  Some n \<Rightarrow> (Challenge_Pending n, t)
                | None \<Rightarrow> (Challenge_Issued fresh,
                    AList.update a (r\<lparr>ps_nonce := Some fresh, ps_expires := Some (now + NONCE_TTL)\<rparr>) t)))"

text \<open>The second half of \<open>try_confirm\<close>.\<close>

definition answer_challenge ::
  "int \<Rightarrow> string \<Rightarrow> string \<Rightarrow> string \<Rightarrow> possession_table \<Rightarrow> bool \<times> possession_table" where
  "answer_challenge now message via a t =
     (case map_of t a of
        None \<Rightarrow> (False, t)
      | Some r \<Rightarrow>
          if ps_confirmed r then (False, t)
          else (case ps_nonce r of
                  None \<Rightarrow> (False, t)
                | Some n \<Rightarrow>
                    if n = [] \<or> \<not> contains message n then (False, t)
                    else (case ps_expires r of
                            None \<Rightarrow> (False, t)
                          | Some e \<Rightarrow>
                              if e < now then (False, t)
                              else (True, AList.update a
                                 \<lparr>ps_nonce = None, ps_expires = None, ps_confirmed = True, ps_via = via\<rparr> t))))"

section \<open>Admins\<close>

definition admin_set :: "string list \<Rightarrow> string set" where
  "admin_set admins = set (map normalized admins) - {[]}"

definition reconcile_admins :: "string list \<Rightarrow> possessions \<Rightarrow> possessions" where
  "reconcile_admins admins s = s\<lparr>pz_admins := filter (\<lambda>(a, r). a \<in> admin_set admins) (pz_admins s)\<rparr>"

definition admin_verdict :: "pyval \<Rightarrow> string list \<Rightarrow> int \<Rightarrow> string \<Rightarrow> possessions \<Rightarrow> standing \<times> possessions" where
  "admin_verdict address admins now fresh s =
     (let s1 = reconcile_admins admins s; a = address_of address
      in if a = [] then (Challenge_Pending [], s1)
         else (case challenge now fresh a (pz_admins s1) of (v, t) \<Rightarrow> (v, s1\<lparr>pz_admins := t\<rparr>)))"

definition admin_try_confirm ::
  "pyval \<Rightarrow> pyval \<Rightarrow> string list \<Rightarrow> string \<Rightarrow> int \<Rightarrow> possessions \<Rightarrow> bool \<times> possessions" where
  "admin_try_confirm sender message admins via now s =
     (let s1 = reconcile_admins admins s; a = address_of sender
      in if a = [] \<or> a \<notin> admin_set admins then (False, s1)
         else (case message of
                 PStr (c # m) \<Rightarrow>
                   (case answer_challenge now (c # m) via a (pz_admins s1) of (ok, t) \<Rightarrow> (ok, s1\<lparr>pz_admins := t\<rparr>))
               | _ \<Rightarrow> (False, s1)))"

section \<open>Other people\<close>

type_synonym roster = "string \<Rightarrow> bool option"

definition reconcile_persons :: "roster \<Rightarrow> possessions \<Rightarrow> possessions" where
  "reconcile_persons member s =
     (if list_ex (\<lambda>(a, r). member a = None) (pz_persons s) then s
      else s\<lparr>pz_persons := filter (\<lambda>(a, r). member a = Some True) (pz_persons s)\<rparr>)"

definition person_verdict :: "pyval \<Rightarrow> roster \<Rightarrow> int \<Rightarrow> string \<Rightarrow> possessions \<Rightarrow> standing \<times> possessions" where
  "person_verdict address member now fresh s =
     (let s1 = reconcile_persons member s; a = address_of address
      in if a = [] then (Challenge_Pending [], s1)
         else if (case map_of (pz_admins s1) a of None \<Rightarrow> False | Some r \<Rightarrow> ps_confirmed r) then (Confirmed, s1)
         else (case challenge now fresh a (pz_persons s1) of (v, t) \<Rightarrow> (v, s1\<lparr>pz_persons := t\<rparr>)))"

definition person_try_confirm ::
  "pyval \<Rightarrow> pyval \<Rightarrow> roster \<Rightarrow> string \<Rightarrow> int \<Rightarrow> possessions \<Rightarrow> bool \<times> possessions" where
  "person_try_confirm sender message member via now s =
     (let s1 = reconcile_persons member s; a = address_of sender
      in if a = [] \<or> member a \<noteq> Some True then (False, s1)
         else (case message of
                 PStr (c # m) \<Rightarrow>
                   (case answer_challenge now (c # m) via a (pz_persons s1) of (ok, t) \<Rightarrow> (ok, s1\<lparr>pz_persons := t\<rparr>))
               | _ \<Rightarrow> (False, s1)))"

text \<open>Every live code and the one address it may be mailed to; a later row of the same code wins.\<close>

definition live_codes :: "int \<Rightarrow> possession_table \<Rightarrow> (string \<times> string) list" where
  "live_codes now t =
     List.map_filter (\<lambda>(a, r). if ps_confirmed r then None else map_option (\<lambda>n. (n, a)) (live_code now r)) t"

definition outstanding_nonces :: "int \<Rightarrow> possessions \<Rightarrow> (string \<times> string) list" where
  "outstanding_nonces now s =
     fold (\<lambda>(n, a). AList.update n a) (live_codes now (pz_admins s) @ live_codes now (pz_persons s)) []"

section \<open>Histories\<close>

datatype possession_op =
    Admin_Asks pyval "string list" int string
  | Admin_Answers pyval pyval "string list" string int
  | Person_Asks pyval roster int string
  | Person_Answers pyval pyval roster string int

datatype possession_outcome = Stood standing | Answered bool

fun possession_step :: "possession_op \<Rightarrow> possessions \<Rightarrow> possession_outcome \<times> possessions" where
  "possession_step (Admin_Asks v admins now fresh) s = map_prod Stood id (admin_verdict v admins now fresh s)"
| "possession_step (Admin_Answers v m admins via now) s = map_prod Answered id (admin_try_confirm v m admins via now s)"
| "possession_step (Person_Asks v member now fresh) s = map_prod Stood id (person_verdict v member now fresh s)"
| "possession_step (Person_Answers v m member via now) s = map_prod Answered id (person_try_confirm v m member via now s)"

type_synonym history = "(possession_op \<times> possession_outcome) list"

fun possession_run :: "possession_op list \<Rightarrow> possessions \<Rightarrow> history \<times> possessions" where
  "possession_run [] s = ([], s)"
| "possession_run (x # xs) s =
     (case possession_step x s of (out, s1) \<Rightarrow> (case possession_run xs s1 of (h, s2) \<Rightarrow> ((x, out) # h, s2)))"

text \<open>The events of the ceremony of one admin.\<close>

fun issues :: "string \<Rightarrow> possession_op \<times> possession_outcome \<Rightarrow> (string \<times> int) option" where
  "issues a (Admin_Asks v admins now fresh, Stood (Challenge_Issued n)) =
     (if address_of v = a then Some (n, now) else None)"
| "issues a _ = None"

fun confirms :: "string \<Rightarrow> possession_op \<times> possession_outcome \<Rightarrow> (string \<times> int \<times> string list) option" where
  "confirms a (Admin_Answers v (PStr m) admins via now, Answered True) =
     (if address_of v = a then Some (m, now, admins) else None)"
| "confirms a _ = None"

section \<open>One row\<close>

definition admin_row :: "string \<Rightarrow> possessions \<Rightarrow> possession option" where
  "admin_row a s = map_of (pz_admins s) a"

lemma map_of_kept: "map_of (filter (\<lambda>(k, v). P k) xs) k = (if P k then map_of xs k else None)"
  by (induction xs) auto

lemma admin_row_reconcile:
  "admin_row a (reconcile_admins admins s) = (if a \<in> admin_set admins then admin_row a s else None)"
  by (simp add: admin_row_def reconcile_admins_def map_of_kept)

lemma admin_row_persons [simp]:
  "admin_row a (reconcile_persons member s) = admin_row a s" "admin_row a (s\<lparr>pz_persons := t\<rparr>) = admin_row a s"
  by (simp_all add: admin_row_def reconcile_persons_def)

lemma challenge_row:
  assumes "challenge now fresh a t = (v, t')"
  shows "k \<noteq> a \<Longrightarrow> map_of t' k = map_of t k"
    "(t' = t \<and> (\<forall>n. v \<noteq> Challenge_Issued n)) \<or>
     (v = Challenge_Issued fresh \<and> (\<exists>r. map_of t' a = Some r \<and> \<not> ps_confirmed r \<and> ps_nonce r = Some fresh \<and> ps_expires r = Some (now + NONCE_TTL)))"
  using assms by (auto simp: challenge_def update_conv split: option.splits if_splits)

lemma answer_row:
  assumes "answer_challenge now m via a t = (ok, t')"
  shows "k \<noteq> a \<Longrightarrow> map_of t' k = map_of t k" "\<not> ok \<Longrightarrow> t' = t"
    "ok \<Longrightarrow> (\<exists>r n e. map_of t a = Some r \<and> \<not> ps_confirmed r \<and> ps_nonce r = Some n \<and> n \<noteq> [] \<and> contains m n \<and>
       ps_expires r = Some e \<and> now \<le> e) \<and> (\<exists>r. map_of t' a = Some r \<and> ps_confirmed r)"
  using assms by (auto simp: answer_challenge_def update_conv split: option.splits if_splits)

lemma try_confirm_cases:
  assumes "admin_try_confirm v m admins via now s = (ok, s')"
  obtains (refused) "\<not> ok" "s' = reconcile_admins admins s"
  | (answered) c k t where "m = PStr (c # k)" "address_of v \<noteq> []" "address_of v \<in> admin_set admins"
      "answer_challenge now (c # k) via (address_of v) (pz_admins (reconcile_admins admins s)) = (ok, t)"
      "s' = reconcile_admins admins s\<lparr>pz_admins := t\<rparr>"
proof (cases "address_of v = [] \<or> address_of v \<notin> admin_set admins")
  case True
  then show ?thesis using assms refused by (simp add: admin_try_confirm_def)
next
  case at: False
  show ?thesis
  proof (cases "\<exists>c k. m = PStr (c # k)")
    case True
    then obtain c k where m: "m = PStr (c # k)" by blast
    obtain ok' t where "answer_challenge now (c # k) via (address_of v) (pz_admins (reconcile_admins admins s)) = (ok', t)"
      by fastforce
    then show ?thesis using assms at answered m by (simp add: admin_try_confirm_def)
  next
    case False
    then show ?thesis using assms at refused
      by (auto simp: admin_try_confirm_def Let_def split: pyval.splits list.splits)
  qed
qed

text \<open>What a step does to the row of one admin.\<close>

definition row_issued :: "string \<Rightarrow> int \<Rightarrow> possession \<Rightarrow> bool" where
  "row_issued n t r \<longleftrightarrow> \<not> ps_confirmed r \<and> ps_nonce r = Some n \<and> ps_expires r = Some (t + NONCE_TTL)"

lemma step_admin_row:
  assumes "possession_step x s = (out, s')"
  shows "(issues a (x, out) = None \<and> confirms a (x, out) = None \<and> (admin_row a s' = admin_row a s \<or> admin_row a s' = None)) \<or>
    (\<exists>n t r. issues a (x, out) = Some (n, t) \<and> confirms a (x, out) = None \<and> admin_row a s' = Some r \<and> row_issued n t r) \<or>
    (\<exists>m t admins r n e r'. issues a (x, out) = None \<and> confirms a (x, out) = Some (m, t, admins) \<and> a \<in> admin_set admins \<and>
       admin_row a s = Some r \<and> \<not> ps_confirmed r \<and> ps_nonce r = Some n \<and> contains m n \<and> ps_expires r = Some e \<and> t \<le> e \<and>
       admin_row a s' = Some r' \<and> ps_confirmed r')"
proof (cases x)
  case (Admin_Asks v admins now fresh)
  let ?s1 = "reconcile_admins admins s" and ?a = "address_of v"
  show ?thesis
  proof (cases "?a = []")
    case True
    then show ?thesis using assms Admin_Asks by (auto simp: admin_verdict_def Let_def admin_row_reconcile split: if_splits)
  next
    case False
    obtain st t where c: "challenge now fresh ?a (pz_admins ?s1) = (st, t)" by fastforce
    have o: "out = Stood st" "s' = ?s1\<lparr>pz_admins := t\<rparr>"
      using assms Admin_Asks False c by (auto simp: admin_verdict_def Let_def)
    have row: "admin_row k s' = map_of t k" for k by (simp add: o admin_row_def)
    have other: "admin_row k s' = admin_row k ?s1" if "k \<noteq> ?a" for k
      using challenge_row(1) [OF c that] by (simp only: row) (simp only: admin_row_def)
    show ?thesis
    proof (cases "st = Challenge_Issued fresh \<and> ?a = a")
      case True
      then obtain r where "map_of t a = Some r" "row_issued fresh now r"
        using challenge_row(2) [OF c] by (auto simp: row_issued_def)
      then show ?thesis using True Admin_Asks o row by simp
    next
      case no: False
      have "issues a (x, out) = None" "confirms a (x, out) = None"
        using no Admin_Asks o challenge_row(2) [OF c] by (cases st; auto)+
      moreover have "admin_row a s' = admin_row a ?s1"
        using no other [of a] challenge_row(2) [OF c] row [of a] by (cases "?a = a") (auto simp only: admin_row_def)
      ultimately show ?thesis using admin_row_reconcile [of a admins s] by (auto split: if_splits)
    qed
  qed
next
  case (Admin_Answers v m admins via now)
  let ?s1 = "reconcile_admins admins s" and ?a = "address_of v"
  show ?thesis
  proof (cases "out = Answered True")
    case False
    obtain ok where ok: "admin_try_confirm v m admins via now s = (ok, s')" "out = Answered ok"
      using assms Admin_Answers by (auto simp: map_prod_def split: prod.splits)
    have "admin_row a s' = admin_row a ?s1"
      using ok(1)
    proof (cases rule: try_confirm_cases)
      case refused
      then show ?thesis by simp
    next
      case (answered c k t)
      then have "t = pz_admins ?s1" using answer_row(2) [OF answered(4)] False ok(2) by simp
      then show ?thesis using answered(5) by (simp add: admin_row_def)
    qed
    moreover have "issues a (x, out) = None" "confirms a (x, out) = None"
      using False Admin_Answers ok(2) by (cases m; auto)+
    ultimately show ?thesis using admin_row_reconcile [of a admins s] by (auto split: if_splits)
  next
    case True
    then have "admin_try_confirm v m admins via now s = (True, s')"
      using assms Admin_Answers by (auto simp: map_prod_def split: prod.splits)
    then obtain c k t where m: "m = PStr (c # k)" and at: "?a \<noteq> []" "?a \<in> admin_set admins"
      and t: "answer_challenge now (c # k) via ?a (pz_admins ?s1) = (True, t)" "s' = ?s1\<lparr>pz_admins := t\<rparr>"
      by (cases rule: try_confirm_cases) auto
    have row: "admin_row j s' = map_of t j" for j by (simp add: t admin_row_def)
    show ?thesis
    proof (cases "?a = a")
      case True
      then have "admin_row a ?s1 = admin_row a s" using at by (simp add: admin_row_reconcile)
      then show ?thesis using True answer_row(3) [OF t(1)] row Admin_Answers m at \<open>out = Answered True\<close>
        by (simp add: admin_row_def) blast
    next
      case False
      then have "map_of t a = map_of (pz_admins ?s1) a" using answer_row(1) [OF t(1), of a] by blast
      then have "admin_row a s' = admin_row a ?s1" by (simp only: row) (simp only: admin_row_def)
      then show ?thesis using False Admin_Answers m admin_row_reconcile [of a admins s] \<open>out = Answered True\<close>
        by (auto split: if_splits)
    qed
  qed
next
  case (Person_Asks v member now fresh)
  then show ?thesis using assms
    by (auto simp: person_verdict_def Let_def map_prod_def split: if_splits prod.splits)
next
  case (Person_Answers v m member via now)
  then show ?thesis using assms
    by (auto simp: person_try_confirm_def Let_def map_prod_def split: if_splits prod.splits pyval.splits list.splits)
qed

section \<open>Histories of one admin\<close>

definition evidence :: "string \<Rightarrow> history \<Rightarrow> bool" where
  "evidence a h \<longleftrightarrow>
     (\<exists>h1 e1 h2 e2 h3 n t m t' admins. h = h1 @ e1 # h2 @ e2 # h3 \<and> issues a e1 = Some (n, t) \<and>
        confirms a e2 = Some (m, t', admins) \<and> contains m n \<and> t' \<le> t + NONCE_TTL \<and> a \<in> admin_set admins)"

definition accounted :: "string \<Rightarrow> history \<Rightarrow> possession option \<Rightarrow> bool" where
  "accounted a h row \<longleftrightarrow>
     (case row of None \<Rightarrow> True
      | Some r \<Rightarrow> if ps_confirmed r then evidence a h
                  else \<exists>e \<in> set h. \<exists>n t. issues a e = Some (n, t) \<and> row_issued n t r)"

lemma evidence_snoc: "evidence a h \<Longrightarrow> evidence a (h @ [e])"
proof -
  assume "evidence a h"
  then obtain h1 e1 h2 e2 h3 n t m t' admins where h: "h = h1 @ e1 # h2 @ e2 # h3"
    and e: "issues a e1 = Some (n, t)" "confirms a e2 = Some (m, t', admins)" "contains m n" "t' \<le> t + NONCE_TTL"
      "a \<in> admin_set admins"
    unfolding evidence_def by (elim exE conjE) (rule that)
  have "h @ [e] = h1 @ e1 # h2 @ e2 # (h3 @ [e])" by (simp add: h)
  then show ?thesis using e unfolding evidence_def by blast
qed

lemma accounted_snoc: "accounted a h row \<Longrightarrow> accounted a (h @ [e]) row"
  using evidence_snoc by (auto simp: accounted_def split: option.splits)

lemma step_accounted:
  assumes "possession_step x s = (out, s')" "accounted a h (admin_row a s)"
  shows "accounted a (h @ [(x, out)]) (admin_row a s')"
  using step_admin_row [OF assms(1), of a]
proof (elim disjE exE conjE)
  assume "admin_row a s' = admin_row a s"
  then show ?thesis using accounted_snoc [OF assms(2)] by simp
next
  assume "admin_row a s' = None"
  then show ?thesis by (simp add: accounted_def)
next
  fix n t r
  assume "issues a (x, out) = Some (n, t)" "admin_row a s' = Some r" "row_issued n t r"
  then show ?thesis by (auto simp: accounted_def row_issued_def)
next
  fix m t' admins r n e r'
  assume c: "confirms a (x, out) = Some (m, t', admins)" "a \<in> admin_set admins" "contains m n" "t' \<le> e"
    and r: "admin_row a s = Some r" "\<not> ps_confirmed r" "ps_nonce r = Some n" "ps_expires r = Some e"
    and r': "admin_row a s' = Some r'" "ps_confirmed r'"
  obtain ev t where ev: "ev \<in> set h" "issues a ev = Some (n, t)" "e = t + NONCE_TTL"
    using assms(2) r by (auto simp: accounted_def row_issued_def)
  obtain h1 h2 where "h = h1 @ ev # h2" using split_list [OF ev(1)] by blast
  then have "h @ [(x, out)] = h1 @ ev # h2 @ (x, out) # []" by simp
  then have "evidence a (h @ [(x, out)])" using c ev(2,3) unfolding evidence_def by blast
  then show ?thesis using r' by (simp add: accounted_def)
qed

lemma run_accounted:
  "possession_run xs s = (h', s') \<Longrightarrow> accounted a h (admin_row a s) \<Longrightarrow> accounted a (h @ h') (admin_row a s')"
proof (induction xs arbitrary: s h h')
  case (Cons x xs)
  obtain out s1 h1 where x: "possession_step x s = (out, s1)" "possession_run xs s1 = (h1, s')" "h' = (x, out) # h1"
    using Cons.prems(1) by (auto split: prod.splits)
  show ?case using Cons.IH [OF x(2) step_accounted [OF x(1) Cons.prems(2)]] x(3) by simp
qed simp

text \<open>After a confirmation nothing is left to confirm, until a code is issued.\<close>

definition spent :: "string \<Rightarrow> possessions \<Rightarrow> bool" where
  "spent a s \<longleftrightarrow> (case admin_row a s of None \<Rightarrow> True | Some r \<Rightarrow> ps_confirmed r)"

lemma step_spent:
  assumes "possession_step x s = (out, s')"
  shows "confirms a (x, out) \<noteq> None \<Longrightarrow> \<not> spent a s \<and> spent a s'"
    "issues a (x, out) = None \<Longrightarrow> spent a s \<Longrightarrow> spent a s'"
  using step_admin_row [OF assms, of a] by (auto simp: spent_def)

lemma run_after:
  assumes "possession_run xs s = (h1 @ e # h2, s')" "confirms a e \<noteq> None"
  shows "\<exists>ys s1. possession_run ys s1 = (h2, s') \<and> spent a s1"
  using assms(1)
proof (induction xs arbitrary: s h1)
  case (Cons x xs)
  obtain out s1 h where x: "possession_step x s = (out, s1)" "possession_run xs s1 = (h, s')" "h1 @ e # h2 = (x, out) # h"
    using Cons.prems by (auto split: prod.splits)
  show ?case
  proof (cases h1)
    case Nil
    then have "e = (x, out)" "h = h2" using x(3) by auto
    then show ?thesis using x(2) step_spent(1) [OF x(1)] assms(2) by blast
  next
    case (Cons e' h1')
    then have "h = h1' @ e # h2" using x(3) by auto
    then show ?thesis using Cons.IH x(2) by blast
  qed
qed simp

lemma spent_quiet:
  assumes "possession_run xs s = (h1 @ e # h2, s')" "spent a s" "\<forall>e' \<in> set h1. issues a e' = None"
  shows "confirms a e = None"
  using assms
proof (induction xs arbitrary: s h1)
  case (Cons x xs)
  obtain out s1 h where x: "possession_step x s = (out, s1)" "possession_run xs s1 = (h, s')" "h1 @ e # h2 = (x, out) # h"
    using Cons.prems(1) by (auto split: prod.splits)
  show ?case
  proof (cases h1)
    case Nil
    then have "e = (x, out)" using x(3) by auto
    then show ?thesis using step_spent(1) [OF x(1), of a] Cons.prems(2) by blast
  next
    case (Cons e' h1')
    then have h: "h = h1' @ e # h2" "e' = (x, out)" using x(3) by auto
    have "spent a s1" using step_spent(2) [OF x(1), of a] Cons.prems(2,3) h Cons by simp
    then show ?thesis using Cons.IH [of s1 h1'] x(2) h Cons.prems(3) Cons by simp
  qed
qed simp

text \<open>A standing code waits for its answer.\<close>

fun keeps_admin :: "string \<Rightarrow> int \<Rightarrow> possession_op \<Rightarrow> bool" where
  "keeps_admin a until (Admin_Asks v admins now fresh) \<longleftrightarrow> a \<in> admin_set admins \<and> now \<le> until"
| "keeps_admin a until (Admin_Answers v m admins via now) \<longleftrightarrow> a \<in> admin_set admins \<and> now \<le> until"
| "keeps_admin a until _ \<longleftrightarrow> True"

definition waiting :: "string \<Rightarrow> string \<Rightarrow> int \<Rightarrow> possessions \<Rightarrow> bool" where
  "waiting a n until s \<longleftrightarrow>
     (\<exists>r. admin_row a s = Some r \<and> (ps_confirmed r \<or> ps_nonce r = Some n \<and> ps_expires r = Some until))"

lemma waiting_not_issued:
  assumes "challenge now fresh a t = (v, t')" "map_of t a = Some r"
    "ps_confirmed r \<or> ps_nonce r = Some n \<and> ps_expires r = Some until" "n \<noteq> []" "now \<le> until"
  shows "t' = t"
  using assms by (auto simp: challenge_def live_code_def split: if_splits)

lemma step_waiting:
  assumes "possession_step x s = (out, s')" "waiting a n until s" "keeps_admin a until x" "n \<noteq> []"
  shows "waiting a n until s'"
proof (cases x)
  case (Admin_Asks v admins now fresh)
  let ?s1 = "reconcile_admins admins s" and ?a = "address_of v"
  have k: "a \<in> admin_set admins" "now \<le> until" using assms(3) Admin_Asks by auto
  then have row: "admin_row a ?s1 = admin_row a s" by (simp add: admin_row_reconcile)
  show ?thesis
  proof (cases "?a = []")
    case True
    then show ?thesis using assms(1,2) Admin_Asks row by (auto simp: admin_verdict_def Let_def waiting_def)
  next
    case False
    obtain st t where c: "challenge now fresh ?a (pz_admins ?s1) = (st, t)" by fastforce
    have s': "s' = ?s1\<lparr>pz_admins := t\<rparr>" using assms(1) Admin_Asks False c by (auto simp: admin_verdict_def Let_def)
    have "map_of t a = map_of (pz_admins ?s1) a"
    proof (cases "?a = a")
      case True
      obtain r where r: "admin_row a ?s1 = Some r" "ps_confirmed r \<or> ps_nonce r = Some n \<and> ps_expires r = Some until"
        using assms(2) row by (auto simp: waiting_def)
      have "t = pz_admins ?s1"
        by (rule waiting_not_issued [OF c _ r(2) assms(4) k(2)]) (use r(1) True in \<open>simp add: admin_row_def\<close>)
      then show ?thesis by simp
    next
      case False
      then show ?thesis by (intro challenge_row(1) [OF c]) simp
    qed
    then have "admin_row a s' = admin_row a ?s1" unfolding s' admin_row_def by simp
    then show ?thesis using assms(2) unfolding waiting_def row by simp
  qed
next
  case (Admin_Answers v m admins via now)
  have k: "a \<in> admin_set admins" using assms(3) Admin_Answers by auto
  then have row: "admin_row a (reconcile_admins admins s) = admin_row a s" by (simp add: admin_row_reconcile)
  obtain ok where ok: "admin_try_confirm v m admins via now s = (ok, s')"
    using assms(1) Admin_Answers by (auto simp: map_prod_def split: prod.splits)
  then show ?thesis
  proof (cases rule: try_confirm_cases)
    case refused
    then show ?thesis using assms(2) row by (simp add: waiting_def)
  next
    case (answered c j t)
    have s': "admin_row a s' = map_of t a" using answered(5) by (simp add: admin_row_def)
    show ?thesis
    proof (cases "ok \<and> address_of v = a")
      case True
      then show ?thesis using answer_row(3) [OF answered(4)] s' by (auto simp: waiting_def)
    next
      case False
      then have "map_of t a = map_of (pz_admins (reconcile_admins admins s)) a"
        using answer_row(1) [OF answered(4), of a] answer_row(2) [OF answered(4)] by metis
      then show ?thesis using assms(2) row s' by (simp add: waiting_def admin_row_def)
    qed
  qed
next
  case (Person_Asks v member now fresh)
  then show ?thesis using assms(1,2)
    by (auto simp: person_verdict_def Let_def waiting_def map_prod_def split: if_splits prod.splits)
next
  case (Person_Answers v m member via now)
  then show ?thesis using assms(1,2)
    by (auto simp: person_try_confirm_def Let_def waiting_def map_prod_def split: if_splits prod.splits pyval.splits list.splits)
qed

lemma run_waiting:
  "possession_run xs s = (h, s') \<Longrightarrow> waiting a n until s \<Longrightarrow> \<forall>x \<in> set xs. keeps_admin a until x \<Longrightarrow> n \<noteq> [] \<Longrightarrow> waiting a n until s'"
proof (induction xs arbitrary: s h)
  case (Cons x xs)
  then show ?case using step_waiting by (fastforce split: prod.splits)
qed simp

section \<open>Examples\<close>

definition ada :: string where
  "ada = ''a@firm.example''"

definition ceremony :: "possession_op list" where
  "ceremony = [Admin_Asks (PStr ada) [ada] 0 ''smd-confirm-1'', Admin_Answers (PStr ada) (PStr ''ok smd-confirm-1'') [ada] ''mail'' 9]"

lemma ceremony_runs:
  "map_option ps_confirmed (admin_row ada (snd (possession_run ceremony no_possessions))) = Some True"
  by code_simp

section \<open>Properties\<close>

text \<open>C25: Nobody is confirmed without the code mailed to them: in every history from an empty store, an admin whose
  row is confirmed was issued a code, and later a message from their address, while they were on the
  authored list and within 72 hours, carried it.\<close>

theorem confirmation_proves_possession:
  assumes "possession_run xs no_possessions = (h, s)" "admin_row a s = Some r" "ps_confirmed r"
  shows "\<exists>h1 e1 h2 e2 h3 n t m t' admins. h = h1 @ e1 # h2 @ e2 # h3 \<and> issues a e1 = Some (n, t) \<and>
    confirms a e2 = Some (m, t', admins) \<and> contains m n \<and> t' \<le> t + NONCE_TTL \<and> a \<in> admin_set admins"
proof -
  have "accounted a [] (admin_row a no_possessions)" by (simp add: accounted_def admin_row_def no_possessions_def)
  then have "accounted a h (admin_row a s)" using run_accounted [OF assms(1), of a "[]"] by simp
  then show ?thesis using assms(2,3) by (simp add: accounted_def evidence_def)
qed

lemma confirmation_proves_possession_witness:
  "\<exists>h1 e1 h2 e2 h3 n t m t' admins. fst (possession_run ceremony no_possessions) = h1 @ e1 # h2 @ e2 # h3 \<and>
    issues ada e1 = Some (n, t) \<and> confirms ada e2 = Some (m, t', admins) \<and> contains m n \<and> t' \<le> t + NONCE_TTL \<and>
    ada \<in> admin_set admins"
proof -
  obtain r where r: "admin_row ada (snd (possession_run ceremony no_possessions)) = Some r" "ps_confirmed r"
    using ceremony_runs by auto
  show ?thesis by (rule confirmation_proves_possession [OF prod.collapse [symmetric] r])
qed

text \<open>A code confirms once: between two confirmations of the same admin a new code was issued to them.\<close>

theorem each_confirmation_takes_a_new_code:
  assumes "possession_run xs s = (h1 @ e1 # h2 @ e2 # h3, s')" "confirms a e1 \<noteq> None" "confirms a e2 \<noteq> None"
  shows "\<exists>e \<in> set h2. issues a e \<noteq> None"
proof -
  obtain ys s1 where "possession_run ys s1 = (h2 @ e2 # h3, s')" "spent a s1"
    using run_after [OF assms(1,2)] by blast
  then show ?thesis using spent_quiet [of ys s1 h2 e2 h3 s' a] assms(3) by blast
qed

lemma each_confirmation_takes_a_new_code_witness:
  "\<exists>e \<in> set (take 2 (drop 2 (fst (possession_run (ceremony @ [Admin_Asks (PStr ada) [] 10 []] @ ceremony) no_possessions)))).
     issues ada e \<noteq> None"
proof -
  define h where "h = fst (possession_run (ceremony @ [Admin_Asks (PStr ada) [] 10 []] @ ceremony) no_possessions)"
  have l: "length h = 5" unfolding h_def by code_simp
  have c: "confirms ada (h ! 1) \<noteq> None" "confirms ada (h ! 4) \<noteq> None" unfolding h_def by code_simp+
  obtain e0 e1 e2 e3 e4 where h: "h = [e0, e1, e2, e3, e4]"
    using l by (auto simp: length_Suc_conv eval_nat_numeral)
  have "possession_run (ceremony @ [Admin_Asks (PStr ada) [] 10 []] @ ceremony) no_possessions =
      ([e0] @ e1 # [e2, e3] @ e4 # [], snd (possession_run (ceremony @ [Admin_Asks (PStr ada) [] 10 []] @ ceremony) no_possessions))"
    using h by (simp add: h_def prod_eq_iff)
  then have "\<exists>e \<in> set [e2, e3]. issues ada e \<noteq> None"
    by (rule each_confirmation_takes_a_new_code) (use c h in simp_all)
  then show ?thesis unfolding h_def [symmetric] h by simp
qed

text \<open>An answer in time is honoured: once a code has been issued to an admin, whatever else is asked or answered
  meanwhile, by anyone, within its 72 hours and while the admin stays on the list, a message from them that
  carries the code leaves them confirmed.\<close>

theorem answered_code_confirms:
  assumes "admin_verdict v admins t n s = (Challenge_Issued n, s1)" "possession_run xs s1 = (h, s2)" "n \<noteq> []"
    and "\<forall>x \<in> set xs. keeps_admin (address_of v) (t + NONCE_TTL) x"
    and "admin_try_confirm v (PStr m) admins' via t' s2 = (ok, s3)" "address_of v \<in> admin_set admins'"
    and "contains m n" "m \<noteq> []" "t' \<le> t + NONCE_TTL"
  shows "\<exists>r. admin_row (address_of v) s3 = Some r \<and> ps_confirmed r"
proof -
  let ?a = "address_of v"
  have step: "possession_step (Admin_Asks v admins t n) s = (Stood (Challenge_Issued n), s1)" using assms(1) by simp
  have "waiting ?a n (t + NONCE_TTL) s1"
    using step_admin_row [OF step, of ?a] by (auto simp: waiting_def row_issued_def)
  then have w: "waiting ?a n (t + NONCE_TTL) s2" by (rule run_waiting [OF assms(2) _ assms(4,3)])
  obtain r where r: "admin_row ?a s2 = Some r" "ps_confirmed r \<or> ps_nonce r = Some n \<and> ps_expires r = Some (t + NONCE_TTL)"
    using w by (auto simp: waiting_def)
  let ?s = "reconcile_admins admins' s2"
  have row: "map_of (pz_admins ?s) ?a = Some r" using r(1) assms(6) admin_row_reconcile [of ?a admins' s2] by (simp add: admin_row_def)
  have at: "?a \<noteq> []" using assms(6) by (auto simp: admin_set_def)
  obtain c k where m: "m = c # k" using assms(8) by (cases m) auto
  obtain ok' t3 where a: "answer_challenge t' m via ?a (pz_admins ?s) = (ok', t3)" by fastforce
  then have s3: "admin_row ?a s3 = map_of t3 ?a"
    using assms(5,6) at m by (auto simp: admin_try_confirm_def Let_def admin_row_def)
  show ?thesis
  proof (cases "ps_confirmed r")
    case True
    then show ?thesis using a row s3 by (auto simp: answer_challenge_def)
  next
    case False
    then have "ok'" using a row r(2) assms(3,7,9) by (auto simp: answer_challenge_def)
    then show ?thesis using answer_row(3) [OF a] s3 by auto
  qed
qed

lemma answered_code_confirms_witness:
  "\<exists>r. admin_row (address_of (PStr ada)) (snd (admin_try_confirm (PStr ada) (PStr ''ok smd-confirm-1'') [ada] ''mail'' 9
     (snd (admin_verdict (PStr ada) [ada] 0 ''smd-confirm-1'' no_possessions)))) = Some r \<and> ps_confirmed r"
proof -
  have v: "fst (admin_verdict (PStr ada) [ada] 0 ''smd-confirm-1'' no_possessions) = Challenge_Issued ''smd-confirm-1''" by code_simp
  have c: "contains ''ok smd-confirm-1'' ''smd-confirm-1''" by code_simp
  have a: "address_of (PStr ada) = ada" "ada \<in> admin_set [ada]" by code_simp+
  show ?thesis
    by (rule answered_code_confirms [where n = "''smd-confirm-1''" and xs = "[]" and t = 0, OF _ _ _ _ prod.collapse [symmetric]])
      (use v c a in \<open>simp_all add: prod_eq_iff NONCE_TTL_def\<close>)
qed

text \<open>A revoked admin still passes as a person: the person ceremony accepts a confirmed admin row without looking at
  the authored list, so an admin removed from the list, whose row no admin act has reconciled, is confirmed
  as a person, though the same question after any admin act mints a challenge.\<close>

theorem stale_admin_row_confirms_a_person:
  "\<exists>s. fst (person_verdict (PStr ada) (\<lambda>_. Some True) 20 ''smd-confirm-2'' s) = Confirmed \<and>
     fst (person_verdict (PStr ada) (\<lambda>_. Some True) 20 ''smd-confirm-2'' (reconcile_admins [''b@firm.example''] s)) =
       Challenge_Issued ''smd-confirm-2''"
proof (intro exI conjI)
  show "fst (person_verdict (PStr ada) (\<lambda>_. Some True) 20 ''smd-confirm-2'' (snd (possession_run ceremony no_possessions))) = Confirmed"
    by code_simp
  show "fst (person_verdict (PStr ada) (\<lambda>_. Some True) 20 ''smd-confirm-2''
      (reconcile_admins [''b@firm.example''] (snd (possession_run ceremony no_possessions)))) = Challenge_Issued ''smd-confirm-2''"
    by code_simp
qed

end
