(* ===== verification/Held_Replies.thy ===== *)
theory Held_Replies
  imports Stores
begin

text \<open>
  Replies under a rate limit: the authored policy (\<open>shared/send_policy.py\<close>), the rolling windows and the
  once-only registers of the relay (\<open>RateLimiter\<close>, \<open>RepliedOnce\<close>, \<open>DecidedOnce\<close> in
  \<open>plugins/hermes-smd-reply/relay.py\<close>), the durable queue of held replies (\<open>held_store.py\<close>) and the pass
  that releases them (\<open>sweeper.py\<close>). Times and windows are rational numbers. The transmission of a reply is
  a parameter that gives the sent id or an error text; a pass reads the limiter's clock per row and the
  wall clock once.
\<close>

section \<open>The authored policy\<close>

record send_policy =
  sp_internal_exempt :: bool
  sp_per_sender_max :: int
  sp_per_sender_window :: rat
  sp_global_max :: int
  sp_global_window :: rat
  sp_backstop_max :: int
  sp_backstop_window :: rat
  sp_held_release :: bool
  sp_held_ttl :: rat

definition DEFAULT_SEND_POLICY :: send_policy where
  "DEFAULT_SEND_POLICY =
     \<lparr>sp_internal_exempt = False, sp_per_sender_max = 3, sp_per_sender_window = 600, sp_global_max = 20,
      sp_global_window = 3600, sp_backstop_max = 0, sp_backstop_window = 3600, sp_held_release = False,
      sp_held_ttl = 86400\<rparr>"

definition REPLY_KEYS :: "string list" where
  "REPLY_KEYS = [''internal_exempt'', ''per_sender_max'', ''per_sender_window_seconds'', ''global_max'',
     ''global_window_seconds'', ''backstop_max'', ''backstop_window_seconds'']"

definition HELD_RELEASE_KEYS :: "string list" where
  "HELD_RELEASE_KEYS = [''enabled'', ''ttl_seconds'']"

definition TOP_KEYS :: "string list" where
  "TOP_KEYS = [''reply'', ''held_release'']"

definition as_bool :: "pyval \<Rightarrow> bool option" where
  "as_bool v = (case v of PBool b \<Rightarrow> Some b | _ \<Rightarrow> None)"

definition as_count :: "pyval \<Rightarrow> int option" where
  "as_count v = (case v of PInt i \<Rightarrow> if i < 0 then None else Some i | _ \<Rightarrow> None)"

definition as_window :: "pyval \<Rightarrow> rat option" where
  "as_window v =
     (case v of
        PInt i \<Rightarrow> if i \<le> 0 then None else Some (of_int i)
      | PFloat r \<Rightarrow> if r \<le> 0 then None else Some r
      | _ \<Rightarrow> None)"

text \<open>A field that is not authored is the default; a malformed one is \<open>None\<close>.\<close>

definition policy_field :: "(pyval \<Rightarrow> 'a option) \<Rightarrow> pydict \<Rightarrow> string \<Rightarrow> 'a \<Rightarrow> 'a option" where
  "policy_field read d k dflt = (case map_of d k of None \<Rightarrow> Some dflt | Some v \<Rightarrow> read v)"

text \<open>\<open>raw.get(k) or {}\<close>, when it is a mapping of known keys.\<close>

definition policy_block :: "pydict \<Rightarrow> string \<Rightarrow> string list \<Rightarrow> pydict option" where
  "policy_block d k known =
     (if \<not> truthy (dget d k) then Some []
      else (case dget d k of PDict b \<Rightarrow> if set (keys b) \<subseteq> set known then Some b else None | _ \<Rightarrow> None))"

definition read_policy :: "pydict \<Rightarrow> pydict \<Rightarrow> send_policy option" where
  "read_policy reply held =
     (let D = DEFAULT_SEND_POLICY
      in Option.bind (policy_field as_bool reply ''internal_exempt'' False) (\<lambda>ie.
         Option.bind (policy_field as_count reply ''per_sender_max'' (sp_per_sender_max D)) (\<lambda>pm.
         Option.bind (policy_field as_window reply ''per_sender_window_seconds'' (sp_per_sender_window D)) (\<lambda>pw.
         Option.bind (policy_field as_count reply ''global_max'' (sp_global_max D)) (\<lambda>gm.
         Option.bind (policy_field as_window reply ''global_window_seconds'' (sp_global_window D)) (\<lambda>gw.
         Option.bind (policy_field as_count reply ''backstop_max'' 0) (\<lambda>bm.
         Option.bind (policy_field as_window reply ''backstop_window_seconds'' (sp_backstop_window D)) (\<lambda>bw.
         Option.bind (policy_field as_bool held ''enabled'' False) (\<lambda>en.
         map_option (\<lambda>ttl.
           \<lparr>sp_internal_exempt = ie, sp_per_sender_max = pm, sp_per_sender_window = pw, sp_global_max = gm,
            sp_global_window = gw, sp_backstop_max = bm, sp_backstop_window = bw, sp_held_release = en,
            sp_held_ttl = ttl\<rparr>)
           (policy_field as_window held ''ttl_seconds'' (sp_held_ttl D)))))))))))"

definition resolve_send_policy :: "pyval \<Rightarrow> send_policy" where
  "resolve_send_policy raw =
     (case raw of
        PDict d \<Rightarrow>
          (if \<not> set (keys d) \<subseteq> set TOP_KEYS then DEFAULT_SEND_POLICY
           else (case policy_block d ''reply'' REPLY_KEYS of
                   None \<Rightarrow> DEFAULT_SEND_POLICY
                 | Some reply \<Rightarrow>
                     (case policy_block d ''held_release'' HELD_RELEASE_KEYS of
                        None \<Rightarrow> DEFAULT_SEND_POLICY
                      | Some held \<Rightarrow>
                          (case read_policy reply held of None \<Rightarrow> DEFAULT_SEND_POLICY | Some p \<Rightarrow> p))))
      | _ \<Rightarrow> DEFAULT_SEND_POLICY)"

section \<open>The windows\<close>

record limiter =
  rl_per_sender :: "(string \<times> rat list) list"
  rl_global :: "rat list"
  rl_backstop :: "rat list"

definition new_limiter :: limiter where
  "new_limiter = \<lparr>rl_per_sender = [], rl_global = [], rl_backstop = []\<rparr>"

datatype rate_reason = Rate_Backstop | Rate_Global | Rate_Per_Sender

definition evict_before :: "rat \<Rightarrow> rat list \<Rightarrow> rat list" where
  "evict_before horizon w = dropWhile (\<lambda>t. t < horizon) w"

definition bucket_of :: "string \<Rightarrow> limiter \<Rightarrow> rat list" where
  "bucket_of sender L = (case map_of (rl_per_sender L) sender of None \<Rightarrow> [] | Some b \<Rightarrow> b)"

text \<open>\<open>check\<close>: \<open>None\<close> is allowed.\<close>

definition rate_check ::
  "rat \<Rightarrow> string \<Rightarrow> bool \<Rightarrow> send_policy \<Rightarrow> limiter \<Rightarrow> rate_reason option \<times> limiter" where
  "rate_check now sender internal p L =
     (let back = evict_before (now - sp_backstop_window p) (rl_backstop L);
          L1 = L\<lparr>rl_backstop := back\<rparr>
      in if 0 < sp_backstop_max p \<and> sp_backstop_max p \<le> int (length back) then (Some Rate_Backstop, L1)
         else if internal \<and> sp_internal_exempt p then (None, L1\<lparr>rl_backstop := back @ [now]\<rparr>)
         else
           let glob = evict_before (now - sp_global_window p) (rl_global L);
               L2 = L1\<lparr>rl_global := glob\<rparr>
           in if sp_global_max p \<le> int (length glob) then (Some Rate_Global, L2)
              else
                let bucket = evict_before (now - sp_per_sender_window p) (bucket_of sender L)
                in if sp_per_sender_max p \<le> int (length bucket)
                   then (Some Rate_Per_Sender, L2\<lparr>rl_per_sender := AList.update sender bucket (rl_per_sender L)\<rparr>)
                   else (None, \<lparr>rl_per_sender = AList.update sender (bucket @ [now]) (rl_per_sender L),
                                rl_global = glob @ [now], rl_backstop = back @ [now]\<rparr>))"

section \<open>Once-only registers\<close>

text \<open>Both registers are a bounded queue of ids, oldest first, and answer for the ids in it.\<close>

definition commit_id :: "nat \<Rightarrow> string \<Rightarrow> string list \<Rightarrow> string list" where
  "commit_id cap i seen =
     (if i = [] \<or> i \<in> set seen then seen
      else (if length seen = max 1 cap then tl seen else seen) @ [i])"

definition committed :: "string \<Rightarrow> string list \<Rightarrow> bool" where
  "committed i seen \<longleftrightarrow> i \<noteq> [] \<and> i \<in> set seen"

definition claim_decision :: "nat \<Rightarrow> pyval \<Rightarrow> string list \<Rightarrow> bool option \<times> string list" where
  "claim_decision cap v seen =
     (case v of
        PStr (c # i) \<Rightarrow> if c # i \<in> set seen then (Some False, seen) else (Some True, commit_id cap (c # i) seen)
      | _ \<Rightarrow> (None, seen))"

section \<open>The durable queue\<close>

datatype held_status = Held | Sending | Sent | Expired | Failed_Interrupted | Failed_Send

definition TERMINAL_STATUSES :: "held_status list" where
  "TERMINAL_STATUSES = [Sent, Expired, Failed_Interrupted, Failed_Send]"

record held_reply =
  hr_id :: nat
  hr_created :: rat
  hr_sender :: string
  hr_class :: string
  hr_adapter :: string
  hr_inbox :: string
  hr_message :: string
  hr_text :: "string option"
  hr_html :: "string option"
  hr_digest :: string
  hr_reason :: string
  hr_status :: held_status
  hr_released :: "rat option"
  hr_error :: "string option"
  hr_reply_to :: string

text \<open>The rows in the order of their ids; ids are never reused.\<close>

record held_store =
  hs_rows :: "held_reply list"
  hs_next :: nat

definition empty_held :: held_store where
  "empty_held = \<lparr>hs_rows = [], hs_next = 1\<rparr>"

definition recipient_of :: "held_reply \<Rightarrow> string" where
  "recipient_of r = (if hr_reply_to r \<noteq> [] then hr_reply_to r else hr_sender r)"

text \<open>\<open>draft\<close> carries what the caller hands over; the store sets the rest.\<close>

definition enqueue_held :: "rat \<Rightarrow> held_reply \<Rightarrow> held_store \<Rightarrow> nat \<times> held_store" where
  "enqueue_held now draft s =
     (hs_next s,
      \<lparr>hs_rows = hs_rows s @ [draft\<lparr>hr_id := hs_next s, hr_created := now, hr_status := Held, hr_released := None, hr_error := None,
          hr_reply_to := (if hr_reply_to draft \<noteq> [] \<and> hr_reply_to draft \<noteq> hr_sender draft then hr_reply_to draft else [])\<rparr>],
       hs_next = Suc (hs_next s)\<rparr>)"

definition change_rows :: "(held_reply \<Rightarrow> bool) \<Rightarrow> (held_reply \<Rightarrow> held_reply) \<Rightarrow> held_store \<Rightarrow> held_store" where
  "change_rows P f s = s\<lparr>hs_rows := map (\<lambda>r. if P r then f r else r) (hs_rows s)\<rparr>"

definition claim_held :: "nat \<Rightarrow> held_store \<Rightarrow> bool \<times> held_store" where
  "claim_held i s =
     (list_ex (\<lambda>r. hr_id r = i \<and> hr_status r = Held) (hs_rows s),
      change_rows (\<lambda>r. hr_id r = i \<and> hr_status r = Held) (\<lambda>r. r\<lparr>hr_status := Sending\<rparr>) s)"

definition end_row :: "rat \<Rightarrow> held_status \<Rightarrow> string option \<Rightarrow> held_reply \<Rightarrow> held_reply" where
  "end_row now status err r =
     r\<lparr>hr_status := status, hr_released := Some now, hr_error := err, hr_text := None, hr_html := None\<rparr>"

definition mark_terminal :: "rat \<Rightarrow> nat \<Rightarrow> held_status \<Rightarrow> string option \<Rightarrow> held_store \<Rightarrow> held_store option" where
  "mark_terminal now i status err s =
     (if status \<notin> set TERMINAL_STATUSES then None
      else Some (change_rows (\<lambda>r. hr_id r = i) (end_row now status err) s))"

definition INTERRUPTED :: string where
  "INTERRUPTED = ''process exited mid-send; not auto-resent (at-most-once)''"

definition fail_interrupted_on_boot :: "rat \<Rightarrow> held_store \<Rightarrow> nat list \<times> held_store" where
  "fail_interrupted_on_boot now s =
     (map hr_id (filter (\<lambda>r. hr_status r = Sending) (hs_rows s)),
      change_rows (\<lambda>r. hr_status r = Sending) (end_row now Failed_Interrupted (Some INTERRUPTED)) s)"

definition TERMINAL_RETENTION :: rat where
  "TERMINAL_RETENTION = 7 * 24 * 3600"

definition purge_terminal :: "rat \<Rightarrow> rat \<Rightarrow> held_store \<Rightarrow> nat \<times> held_store" where
  "purge_terminal now older s =
     (let gone = (\<lambda>r. hr_status r \<in> set TERMINAL_STATUSES \<and>
            (case hr_released r of None \<Rightarrow> hr_created r | Some t \<Rightarrow> t) < now - older)
      in (length (filter gone (hs_rows s)), s\<lparr>hs_rows := filter (\<lambda>r. \<not> gone r) (hs_rows s)\<rparr>))"

definition iter_held :: "nat \<Rightarrow> held_store \<Rightarrow> held_reply list" where
  "iter_held limit s = take limit (filter (\<lambda>r. hr_status r = Held) (hs_rows s))"

definition pending_status :: "held_reply \<Rightarrow> bool" where
  "pending_status r \<longleftrightarrow> hr_status r = Held \<or> hr_status r = Sending"

definition has_pending :: "string \<Rightarrow> held_store \<Rightarrow> bool" where
  "has_pending sender s \<longleftrightarrow> list_ex (\<lambda>r. recipient_of r = sender \<and> pending_status r) (hs_rows s)"

definition has_pending_for_message :: "string \<Rightarrow> held_store \<Rightarrow> bool" where
  "has_pending_for_message m s \<longleftrightarrow> m \<noteq> [] \<and> list_ex (\<lambda>r. hr_message r = m \<and> pending_status r) (hs_rows s)"

definition pending_count :: "held_store \<Rightarrow> nat" where
  "pending_count s = length (filter (\<lambda>r. hr_status r = Held) (hs_rows s))"

definition get_held :: "nat \<Rightarrow> held_store \<Rightarrow> held_reply option" where
  "get_held i s = find (\<lambda>r. hr_id r = i) (hs_rows s)"

section \<open>The release pass\<close>

record sweep_env =
  sv_policy :: send_policy
  sv_now :: rat
  sv_tick :: "nat \<Rightarrow> rat"
  sv_internal :: "string \<Rightarrow> bool"
  sv_send :: "held_reply \<Rightarrow> string + string"
  sv_digests :: "held_reply \<Rightarrow> pydict"

datatype sweep_event = Emit string pydict | Notify string held_reply | Opening string string

record sweep_state =
  sw_store :: held_store
  sw_limiter :: limiter
  sw_blocked :: "string set"
  sw_events :: "sweep_event list"
  sw_transmitted :: "nat list"
  sw_released :: nat
  sw_expired :: nat
  sw_skipped :: nat
  sw_failed :: nat

definition device_metadata :: "held_reply \<Rightarrow> pydict" where
  "device_metadata r =
     (if hr_reply_to r = [] then [] else [(''device_sender'', PStr (hr_sender r)), (''redirected_from_device'', PBool True)])"

definition expired_event :: "held_reply \<Rightarrow> sweep_event" where
  "expired_event r = Emit ''REPLY_FAILED''
     ([(''reason'', PStr ''hold_expired''), (''recipient'', PStr (recipient_of r))] @ device_metadata r @
      [(''message_id'', PStr (hr_message r)), (''adapter'', PStr (hr_adapter r)), (''held_reason'', PStr (hr_reason r)),
       (''body_digest'', PStr (hr_digest r))])"

definition failed_event :: "held_reply \<Rightarrow> string \<Rightarrow> sweep_event" where
  "failed_event r why = Emit ''REPLY_FAILED''
     ([(''reason'', PStr (take 500 why)), (''recipient'', PStr (recipient_of r))] @ device_metadata r @
      [(''message_id'', PStr (hr_message r)), (''adapter'', PStr (hr_adapter r)), (''released_from_hold'', PBool True)])"

definition sent_event :: "sweep_env \<Rightarrow> held_reply \<Rightarrow> string \<Rightarrow> sweep_event" where
  "sent_event E r sid = Emit ''REPLY_SENT''
     ([(''recipient'', PStr (recipient_of r))] @ device_metadata r @
      [(''recipient_class'', PStr (if hr_class r = [] then ''unclassified'' else hr_class r)), (''adapter'', PStr (hr_adapter r)),
       (''in_reply_to'', PStr (hr_message r)), (''inbox_id'', PStr (hr_inbox r)), (''sent_message_id'', PStr sid),
       (''body_digest'', PStr (hr_digest r))] @ sv_digests E r @
      [(''released_from_hold'', PBool True), (''held_reason'', PStr (hr_reason r))])"

text \<open>\<open>mark_terminal\<close> with one of the terminal statuses, which cannot raise.\<close>

definition settle_row :: "rat \<Rightarrow> held_reply \<Rightarrow> held_status \<Rightarrow> string option \<Rightarrow> held_store \<Rightarrow> held_store" where
  "settle_row now r status err s = (case mark_terminal now (hr_id r) status err s of None \<Rightarrow> s | Some s' \<Rightarrow> s')"

definition expire_row :: "sweep_env \<Rightarrow> held_reply \<Rightarrow> sweep_state \<Rightarrow> sweep_state" where
  "expire_row E r st =
     (case claim_held (hr_id r) (sw_store st) of
        (False, s) \<Rightarrow> st\<lparr>sw_store := s\<rparr>
      | (True, s) \<Rightarrow>
          st\<lparr>sw_store := settle_row (sv_now E) r Expired None s,
             sw_events := sw_events st @ [expired_event r, Notify ''hold_expired'' r],
             sw_expired := Suc (sw_expired st)\<rparr>)"

definition release_row :: "sweep_env \<Rightarrow> held_reply \<Rightarrow> sweep_state \<Rightarrow> sweep_state" where
  "release_row E r st =
     (case claim_held (hr_id r) (sw_store st) of
        (False, s) \<Rightarrow> st\<lparr>sw_store := s\<rparr>
      | (True, s) \<Rightarrow>
          let st1 = st\<lparr>sw_transmitted := sw_transmitted st @ [hr_id r]\<rparr>
          in (case sv_send E r of
                Inl why \<Rightarrow>
                  st1\<lparr>sw_store := settle_row (sv_now E) r Failed_Send (Some (take 500 why)) s,
                      sw_events := sw_events st @ [failed_event r why], sw_failed := Suc (sw_failed st)\<rparr>
              | Inr sid \<Rightarrow>
                  st1\<lparr>sw_store := settle_row (sv_now E) r Sent None s,
                      sw_events := sw_events st @ [sent_event E r sid,
                        Opening (hr_message r) (case hr_text r of None \<Rightarrow> [] | Some t \<Rightarrow> t)],
                      sw_released := Suc (sw_released st)\<rparr>))"

fun sweep_rows :: "sweep_env \<Rightarrow> held_reply list \<Rightarrow> sweep_state \<Rightarrow> sweep_state" where
  "sweep_rows E [] st = st"
| "sweep_rows E (r # rows) st =
     (if sp_held_ttl (sv_policy E) \<le> sv_now E - hr_created r then sweep_rows E rows (expire_row E r st)
      else if \<not> sp_held_release (sv_policy E) \<or> recipient_of r \<in> sw_blocked st
      then sweep_rows E rows (st\<lparr>sw_skipped := Suc (sw_skipped st)\<rparr>)
      else case rate_check (sv_tick E (hr_id r)) (recipient_of r) (sv_internal E (recipient_of r)) (sv_policy E) (sw_limiter st) of
             (Some Rate_Per_Sender, L) \<Rightarrow>
               sweep_rows E rows (st\<lparr>sw_limiter := L, sw_blocked := insert (recipient_of r) (sw_blocked st),
                 sw_skipped := Suc (sw_skipped st)\<rparr>)
           | (Some _, L) \<Rightarrow> st\<lparr>sw_limiter := L, sw_skipped := Suc (sw_skipped st)\<rparr>
           | (None, L) \<Rightarrow> sweep_rows E rows (release_row E r (st\<lparr>sw_limiter := L\<rparr>)))"

definition start_sweep :: "held_store \<Rightarrow> limiter \<Rightarrow> sweep_state" where
  "start_sweep s L =
     \<lparr>sw_store = s, sw_limiter = L, sw_blocked = {}, sw_events = [], sw_transmitted = [], sw_released = 0,
      sw_expired = 0, sw_skipped = 0, sw_failed = 0\<rparr>"

definition SWEEP_LIMIT :: nat where
  "SWEEP_LIMIT = 200"

definition run_sweep_once :: "sweep_env \<Rightarrow> held_store \<Rightarrow> limiter \<Rightarrow> sweep_state" where
  "run_sweep_once E s L =
     (let st = sweep_rows E (iter_held SWEEP_LIMIT s) (start_sweep s L)
      in st\<lparr>sw_store := snd (purge_terminal (sv_now E) TERMINAL_RETENTION (sw_store st))\<rparr>)"

section \<open>Every interleaving\<close>

text \<open>
  The hook, any number of sweepers and the restarts of the process, one store operation at a time. A hand
  is a claimed row, and whether its reply has been handed to the transport.
\<close>

record hold_world =
  hw_store :: held_store
  hw_hands :: "nat \<Rightarrow> (nat \<times> bool) option"
  hw_sent :: "nat list"

inductive hold_step :: "hold_world \<Rightarrow> hold_world \<Rightarrow> bool" where
  Enqueue: "enqueue_held now d (hw_store w) = (i, s) \<Longrightarrow> hold_step w (w\<lparr>hw_store := s\<rparr>)"
| Claim: "hw_hands w k = None \<Longrightarrow> claim_held i (hw_store w) = (True, s) \<Longrightarrow>
    hold_step w (w\<lparr>hw_store := s, hw_hands := (hw_hands w)(k := Some (i, False))\<rparr>)"
| Transmit: "hw_hands w k = Some (i, False) \<Longrightarrow>
    hold_step w (w\<lparr>hw_hands := (hw_hands w)(k := Some (i, True)), hw_sent := hw_sent w @ [i]\<rparr>)"
| Finish: "hw_hands w k = Some (i, b) \<Longrightarrow> mark_terminal now i status err (hw_store w) = Some s \<Longrightarrow>
    hold_step w (w\<lparr>hw_store := s, hw_hands := (hw_hands w)(k := None)\<rparr>)"
| Restart: "fail_interrupted_on_boot now (hw_store w) = (ids, s) \<Longrightarrow>
    hold_step w (w\<lparr>hw_store := s, hw_hands := (\<lambda>_. None)\<rparr>)"
| Purge: "purge_terminal now older (hw_store w) = (n, s) \<Longrightarrow> hold_step w (w\<lparr>hw_store := s\<rparr>)"

inductive_cases hold_stepE: "hold_step w w'"

abbreviation hold_steps :: "hold_world \<Rightarrow> hold_world \<Rightarrow> bool" where
  "hold_steps \<equiv> hold_step\<^sup>*\<^sup>*"

definition fresh_hold :: "held_store \<Rightarrow> hold_world" where
  "fresh_hold s = \<lparr>hw_store = s, hw_hands = (\<lambda>_. None), hw_sent = []\<rparr>"

definition status_of :: "nat \<Rightarrow> held_store \<Rightarrow> held_status option" where
  "status_of i s = map_option hr_status (get_held i s)"

text \<open>Ids are unique and used up; a row without a body is at its end, and one at its end has none.\<close>

definition held_wf :: "held_store \<Rightarrow> bool" where
  "held_wf s \<longleftrightarrow>
     distinct (map hr_id (hs_rows s)) \<and>
     list_all (\<lambda>r. hr_id r < hs_next s \<and> (hr_status r \<in> set TERMINAL_STATUSES \<longrightarrow> hr_text r = None \<and> hr_html r = None)) (hs_rows s)"

definition hold_inv :: "hold_world \<Rightarrow> bool" where
  "hold_inv w \<longleftrightarrow>
     held_wf (hw_store w) \<and> distinct (hw_sent w) \<and>
     (\<forall>i \<in> set (hw_sent w). i < hs_next (hw_store w) \<and> status_of i (hw_store w) \<noteq> Some Held) \<and>
     (\<forall>k i b. hw_hands w k = Some (i, b) \<longrightarrow> status_of i (hw_store w) = Some Sending \<and> (b \<longleftrightarrow> i \<in> set (hw_sent w)) \<and>
        (\<forall>k' b'. hw_hands w k' = Some (i, b') \<longrightarrow> k' = k))"

lemma hold_invI:
  assumes "held_wf (hw_store w)" "distinct (hw_sent w)"
    and "\<And>i. i \<in> set (hw_sent w) \<Longrightarrow> i < hs_next (hw_store w) \<and> status_of i (hw_store w) \<noteq> Some Held"
    and "\<And>k i b. hw_hands w k = Some (i, b) \<Longrightarrow> status_of i (hw_store w) = Some Sending \<and> (b \<longleftrightarrow> i \<in> set (hw_sent w))"
    and "\<And>k k' i b b'. hw_hands w k = Some (i, b) \<Longrightarrow> hw_hands w k' = Some (i, b') \<Longrightarrow> k' = k"
  shows "hold_inv w"
  using assms unfolding hold_inv_def by blast

lemma find_map_keep:
  "(\<And>r. hr_id (f r) = hr_id r) \<Longrightarrow> find (\<lambda>r. hr_id r = i) (map f rows) = map_option f (find (\<lambda>r. hr_id r = i) rows)"
  by (induction rows) auto

lemma find_unique:
  "distinct (map hr_id rows) \<Longrightarrow> r \<in> set rows \<Longrightarrow> find (\<lambda>x. hr_id x = hr_id r) rows = Some r"
  by (induction rows) auto

lemma find_SomeD: "find (\<lambda>x. hr_id x = i) rows = Some r \<Longrightarrow> r \<in> set rows \<and> hr_id r = i"
  by (induction rows) (auto split: if_splits)

lemma status_change:
  assumes "\<And>r. hr_id (f r) = hr_id r"
  shows "status_of i (change_rows P f s) = map_option (\<lambda>r. hr_status (if P r then f r else r)) (get_held i s)"
  using find_map_keep [of "\<lambda>r. if P r then f r else r" i "hs_rows s"] assms
  by (simp add: status_of_def get_held_def change_rows_def option.map_comp comp_def)

lemma wf_change:
  assumes "held_wf s" "\<And>r. hr_id (f r) = hr_id r"
    and "\<And>r. P r \<Longrightarrow> hr_status (f r) \<in> set TERMINAL_STATUSES \<Longrightarrow> hr_text (f r) = None \<and> hr_html (f r) = None"
  shows "held_wf (change_rows P f s)"
proof -
  have "map hr_id (map (\<lambda>r. if P r then f r else r) (hs_rows s)) = map hr_id (hs_rows s)" using assms(2) by simp
  then show ?thesis using assms by (auto simp: held_wf_def change_rows_def list_all_iff simp del: map_map)
qed

lemma end_row_fields [simp]:
  "hr_id (end_row now st e r) = hr_id r" "hr_status (end_row now st e r) = st" "hr_text (end_row now st e r) = None"
  "hr_html (end_row now st e r) = None"
  by (simp_all add: end_row_def)

lemma terminal_cases: "status \<in> set TERMINAL_STATUSES \<longleftrightarrow> status \<noteq> Held \<and> status \<noteq> Sending"
  by (cases status) (simp_all add: TERMINAL_STATUSES_def)

lemma change_next [simp]: "hs_next (change_rows P f s) = hs_next s"
  by (simp add: change_rows_def)

lemma status_claim:
  "status_of j (snd (claim_held i s)) = (if j = i \<and> status_of j s = Some Held then Some Sending else status_of j s)"
proof -
  have "status_of j (snd (claim_held i s)) =
      map_option (\<lambda>r. hr_status (if hr_id r = i \<and> hr_status r = Held then r\<lparr>hr_status := Sending\<rparr> else r)) (get_held j s)"
    unfolding claim_held_def snd_conv by (rule status_change) simp
  then show ?thesis by (cases "get_held j s") (auto simp: status_of_def get_held_def dest: find_SomeD)
qed

lemma claim_won:
  assumes "distinct (map hr_id (hs_rows s))"
  shows "fst (claim_held i s) \<longleftrightarrow> status_of i s = Some Held"
proof
  assume "fst (claim_held i s)"
  then obtain r where "r \<in> set (hs_rows s)" "hr_id r = i" "hr_status r = Held" by (auto simp: claim_held_def list_ex_iff)
  then show "status_of i s = Some Held" using find_unique [OF assms] by (auto simp: status_of_def get_held_def)
next
  assume "status_of i s = Some Held"
  then show "fst (claim_held i s)" by (auto simp: claim_held_def list_ex_iff status_of_def get_held_def dest: find_SomeD)
qed

lemma status_mark:
  assumes "mark_terminal now i st err s = Some s'"
  shows "status_of j s' = (if j = i \<and> status_of j s \<noteq> None then Some st else status_of j s)"
proof -
  have s': "s' = change_rows (\<lambda>r. hr_id r = i) (end_row now st err) s"
    using assms by (auto simp: mark_terminal_def split: if_splits)
  have "status_of j s' = map_option (\<lambda>r. hr_status (if hr_id r = i then end_row now st err r else r)) (get_held j s)"
    unfolding s' by (rule status_change) simp
  then show ?thesis by (cases "get_held j s") (auto simp: status_of_def get_held_def dest: find_SomeD)
qed

lemma status_boot:
  "status_of j (snd (fail_interrupted_on_boot now s)) =
     (if status_of j s = Some Sending then Some Failed_Interrupted else status_of j s)"
proof -
  have "status_of j (snd (fail_interrupted_on_boot now s)) =
      map_option (\<lambda>r. hr_status (if hr_status r = Sending then end_row now Failed_Interrupted (Some INTERRUPTED) r else r)) (get_held j s)"
    unfolding fail_interrupted_on_boot_def snd_conv by (rule status_change) simp
  then show ?thesis by (cases "get_held j s") (auto simp: status_of_def)
qed

lemma status_enqueue:
  assumes "held_wf s" "enqueue_held now d s = (i, s')"
  shows "i = hs_next s" "hs_next s' = Suc (hs_next s)" "status_of j s' = (if j = hs_next s then Some Held else status_of j s)"
    "held_wf s'"
proof -
  have ids: "\<forall>r \<in> set (hs_rows s). hr_id r < hs_next s" using assms(1) by (auto simp: held_wf_def list_all_iff)
  then have n: "find (\<lambda>r. hr_id r = hs_next s) (hs_rows s) = None" by (auto simp: find_None_iff)
  have app: "find P (xs @ [x]) = (case find P xs of None \<Rightarrow> if P x then Some x else None | Some y \<Rightarrow> Some y)" for P xs x
    by (induction xs) auto
  show "i = hs_next s" "hs_next s' = Suc (hs_next s)" using assms(2) by (auto simp: enqueue_held_def)
  show "status_of j s' = (if j = hs_next s then Some Held else status_of j s)"
    using assms(2) n by (auto simp: enqueue_held_def status_of_def get_held_def app split: option.splits)
  have "hs_next s \<notin> hr_id ` set (hs_rows s)" using ids by force
  then show "held_wf s'"
    using assms by (auto simp: held_wf_def enqueue_held_def list_all_iff terminal_cases less_Suc_eq)
qed

lemma status_purge:
  assumes "distinct (map hr_id (hs_rows s))"
  shows "status_of j (snd (purge_terminal now older s)) = status_of j s \<or>
    (status_of j (snd (purge_terminal now older s)) = None \<and> status_of j s \<noteq> Some Sending \<and> status_of j s \<noteq> Some Held)"
proof -
  define gone :: "held_reply \<Rightarrow> bool" where "gone = (\<lambda>r. hr_status r \<in> set TERMINAL_STATUSES \<and>
     (case hr_released r of None \<Rightarrow> hr_created r | Some t \<Rightarrow> t) < now - older)"
  have "find (\<lambda>r. hr_id r = j) (filter (\<lambda>r. \<not> gone r) rows) =
      (case find (\<lambda>r. hr_id r = j) rows of None \<Rightarrow> None | Some r \<Rightarrow> if gone r then None else Some r)"
    if "distinct (map hr_id rows)" for rows using that
    by (induction rows) (auto split: option.splits dest!: find_SomeD)
  then have "get_held j (snd (purge_terminal now older s)) =
      (case get_held j s of None \<Rightarrow> None | Some r \<Rightarrow> if gone r then None else Some r)"
    using assms by (simp add: get_held_def purge_terminal_def gone_def)
  then show ?thesis by (cases "get_held j s") (auto simp: status_of_def gone_def terminal_cases)
qed

lemma wf_claim: "held_wf s \<Longrightarrow> held_wf (snd (claim_held i s))"
  unfolding claim_held_def snd_conv by (rule wf_change) (simp_all add: terminal_cases)

lemma wf_mark: "held_wf s \<Longrightarrow> mark_terminal now i st err s = Some s' \<Longrightarrow> held_wf s'"
  unfolding mark_terminal_def by (auto split: if_splits intro!: wf_change)

lemma wf_boot: "held_wf s \<Longrightarrow> held_wf (snd (fail_interrupted_on_boot now s))"
  unfolding fail_interrupted_on_boot_def snd_conv by (rule wf_change) simp_all

lemma wf_purge: "held_wf s \<Longrightarrow> held_wf (snd (purge_terminal now older s))"
  by (auto simp: held_wf_def purge_terminal_def Let_def list_all_iff intro: distinct_map_filter)

lemma next_fields [simp]:
  "hs_next (snd (claim_held i s)) = hs_next s" "hs_next (snd (fail_interrupted_on_boot now s)) = hs_next s"
  "hs_next (snd (purge_terminal now older s)) = hs_next s"
  "mark_terminal now i st err s = Some s' \<Longrightarrow> hs_next s' = hs_next s"
  by (auto simp: claim_held_def fail_interrupted_on_boot_def purge_terminal_def mark_terminal_def Let_def split: if_splits)

lemma status_known: "held_wf s \<Longrightarrow> status_of i s \<noteq> None \<Longrightarrow> i < hs_next s"
  by (auto simp: status_of_def get_held_def held_wf_def list_all_iff dest: find_SomeD)

lemma hold_invD:
  assumes "hold_inv w"
  shows "held_wf (hw_store w)" "distinct (map hr_id (hs_rows (hw_store w)))" "distinct (hw_sent w)"
    "i \<in> set (hw_sent w) \<Longrightarrow> i < hs_next (hw_store w) \<and> status_of i (hw_store w) \<noteq> Some Held"
    "hw_hands w k = Some (i, b) \<Longrightarrow> status_of i (hw_store w) = Some Sending \<and> (b \<longleftrightarrow> i \<in> set (hw_sent w))"
    "hw_hands w k = Some (i, b) \<Longrightarrow> hw_hands w k' = Some (i, b') \<Longrightarrow> k' = k"
  using assms unfolding hold_inv_def held_wf_def by blast+

lemma hold_step_inv:
  assumes "hold_step w w'" "hold_inv w"
  shows "hold_inv w'"
  using assms(1)
proof cases
  note I = hold_invD [OF assms(2)]
  case (Enqueue now d i s)
  note e = status_enqueue [OF I(1) Enqueue(2)]
  have old: "j \<noteq> hs_next (hw_store w)" if "status_of j (hw_store w) = Some Sending" for j
    using status_known [OF I(1), of j] that by auto
  have "j \<noteq> hs_next (hw_store w)" "j < Suc (hs_next (hw_store w))" if "j \<in> set (hw_sent w)" for j
    using I(4) [OF that] by auto
  then show ?thesis
    by (intro hold_invI) (use I e old in \<open>auto simp: Enqueue(1)\<close>)
next
  note I = hold_invD [OF assms(2)]
  case (Claim k i s)
  have s: "s = snd (claim_held i (hw_store w))" "fst (claim_held i (hw_store w))" using Claim(3) by simp_all
  then have held: "status_of i (hw_store w) = Some Held" using claim_won [OF I(2)] by simp
  have st: "status_of j s = (if j = i then Some Sending else status_of j (hw_store w))" for j
    using status_claim [of j i "hw_store w"] s(1) held by auto
  have "i \<notin> set (hw_sent w)" using I(4) held by auto
  moreover have "hw_hands w k' \<noteq> Some (i, b)" for k' b using I(5) held by fastforce
  ultimately show ?thesis
    by (intro hold_invI) (use I st wf_claim [OF I(1), of i] s in \<open>auto simp: Claim(1) split: if_splits\<close>)
next
  note I = hold_invD [OF assms(2)]
  case (Transmit k i)
  have h: "status_of i (hw_store w) = Some Sending" "i \<notin> set (hw_sent w)" using I(5) [OF Transmit(2)] by auto
  then have "i < hs_next (hw_store w)" using status_known [OF I(1)] by auto
  moreover have "k' = k" if "hw_hands w k' = Some (i, b)" for k' b using I(6) [OF Transmit(2) that] .
  ultimately show ?thesis
    by (intro hold_invI) (use I h in \<open>auto simp: Transmit(1) split: if_splits\<close>)
next
  note I = hold_invD [OF assms(2)]
  case (Finish k i b now status err s)
  note st = status_mark [OF Finish(3)]
  have "status \<noteq> Held" using Finish(3) by (auto simp: mark_terminal_def terminal_cases split: if_splits)
  moreover have "hw_hands w k' \<noteq> Some (i, b')" if "k' \<noteq> k" for k' b' using I(6) [OF Finish(2), of k' b'] that by auto
  ultimately show ?thesis
    by (intro hold_invI)
      (use I st wf_mark [OF I(1) Finish(3)] next_fields(4) [OF Finish(3)] in \<open>auto simp: Finish(1) split: if_splits\<close>)
next
  note I = hold_invD [OF assms(2)]
  case (Restart now ids s)
  then have s: "s = snd (fail_interrupted_on_boot now (hw_store w))" by (metis snd_conv)
  show ?thesis
    by (rule hold_invI) (use I wf_boot [OF I(1)] in \<open>auto simp: Restart(1) s status_boot\<close>)
next
  note I = hold_invD [OF assms(2)]
  case (Purge now older n s)
  then have s: "s = snd (purge_terminal now older (hw_store w))" by (metis snd_conv)
  have st: "status_of j s = status_of j (hw_store w) \<or>
      (status_of j s = None \<and> status_of j (hw_store w) \<noteq> Some Sending \<and> status_of j (hw_store w) \<noteq> Some Held)" for j
    unfolding s by (rule status_purge [OF I(2)])
  have sending: "status_of j s = Some Sending" if "status_of j (hw_store w) = Some Sending" for j
    using st [of j] that by auto
  have notheld: "status_of j s \<noteq> Some Held" if "status_of j (hw_store w) \<noteq> Some Held" for j
    using st [of j] that by auto
  show ?thesis
    by (rule hold_invI) (use I wf_purge [OF I(1)] sending notheld in \<open>auto simp: Purge(1) s\<close>)
qed

lemma hold_steps_inv: "hold_steps w w' \<Longrightarrow> hold_inv w \<Longrightarrow> hold_inv w'"
  by (induction rule: rtranclp_induct) (auto intro: hold_step_inv)

lemma fresh_hold_inv: "held_wf s \<Longrightarrow> hold_inv (fresh_hold s)"
  by (simp add: hold_inv_def fresh_hold_def)

section \<open>The pass is such an interleaving\<close>

lemma sweep_induct:
  assumes "P st"
    and "\<And>st L B n. P st \<Longrightarrow> P (st\<lparr>sw_limiter := L, sw_blocked := B, sw_skipped := n\<rparr>)"
    and "\<And>st r. P st \<Longrightarrow> r \<in> set rows \<Longrightarrow> sp_held_ttl (sv_policy E) \<le> sv_now E - hr_created r \<Longrightarrow> P (expire_row E r st)"
    and "\<And>st r. P st \<Longrightarrow> r \<in> set rows \<Longrightarrow> \<not> sp_held_ttl (sv_policy E) \<le> sv_now E - hr_created r \<Longrightarrow>
      sp_held_release (sv_policy E) \<Longrightarrow> P (release_row E r st)"
  shows "P (sweep_rows E rows st)"
  using assms
proof (induction rows arbitrary: st)
  case (Cons r rows)
  note upd = Cons.prems(2)
  have IH: "P st' \<Longrightarrow> P (sweep_rows E rows st')" for st' using Cons.IH Cons.prems(2-4) by simp
  show ?case
  proof (cases "sp_held_ttl (sv_policy E) \<le> sv_now E - hr_created r")
    case True
    then show ?thesis using IH Cons.prems by simp
  next
    case late: False
    show ?thesis
    proof (cases "\<not> sp_held_release (sv_policy E) \<or> recipient_of r \<in> sw_blocked st")
      case True
      have "P (st\<lparr>sw_skipped := Suc (sw_skipped st)\<rparr>)"
        using upd [OF Cons.prems(1), where L = "sw_limiter st" and B = "sw_blocked st"] by simp
      then show ?thesis using IH late True by simp
    next
      case go: False
      obtain d L where c: "rate_check (sv_tick E (hr_id r)) (recipient_of r) (sv_internal E (recipient_of r)) (sv_policy E)
          (sw_limiter st) = (d, L)" by fastforce
      have "P (st\<lparr>sw_limiter := L\<rparr>)" using upd [OF Cons.prems(1), where L = L and B = "sw_blocked st" and n = "sw_skipped st"] by simp
      then have rel: "P (release_row E r (st\<lparr>sw_limiter := L\<rparr>))" using Cons.prems(4) late go by simp
      show ?thesis
      proof (cases d)
        case None
        then show ?thesis using IH [OF rel] c late go by simp
      next
        case (Some why)
        have "P (st\<lparr>sw_limiter := L, sw_skipped := Suc (sw_skipped st)\<rparr>)"
          using upd [OF Cons.prems(1), where L = L and B = "sw_blocked st"] by simp
        then show ?thesis using IH [OF upd [OF Cons.prems(1)]] Some c late go by (cases why) simp_all
      qed
    qed
  qed
qed simp

lemma world_swap: "w\<lparr>hw_sent := a, hw_store := b\<rparr> = w\<lparr>hw_store := b, hw_sent := a\<rparr>"
  by (cases w) simp

lemma claim_lost: "claim_held i s = (False, s') \<Longrightarrow> s' = s"
proof -
  assume a: "claim_held i s = (False, s')"
  then have "\<forall>r \<in> set (hs_rows s). \<not> (hr_id r = i \<and> hr_status r = Held)" by (auto simp: claim_held_def list_ex_iff)
  then have "map (\<lambda>r. if hr_id r = i \<and> hr_status r = Held then r\<lparr>hr_status := Sending\<rparr> else r) (hs_rows s) = hs_rows s"
    by (intro map_idI) auto
  then show ?thesis using a by (auto simp: claim_held_def change_rows_def)
qed

definition carries :: "hold_world \<Rightarrow> sweep_state \<Rightarrow> sweep_state \<Rightarrow> bool" where
  "carries w st st' \<longleftrightarrow>
     (\<exists>new. sw_transmitted st' = sw_transmitted st @ new \<and>
        hold_steps w (w\<lparr>hw_store := sw_store st', hw_sent := hw_sent w @ new\<rparr>))"

lemma settle_marks:
  "status \<in> set TERMINAL_STATUSES \<Longrightarrow> mark_terminal now (hr_id r) status err s = Some (settle_row now r status err s)"
  by (simp add: settle_row_def mark_terminal_def)

lemma claim_finish:
  assumes "claim_held i s = (True, s1)" "mark_terminal now i status err s1 = Some s2" "hw_hands w k = None"
  shows "hold_steps (w\<lparr>hw_store := s\<rparr>) (w\<lparr>hw_store := s2\<rparr>)"
    "hold_steps (w\<lparr>hw_store := s\<rparr>) (w\<lparr>hw_store := s2, hw_sent := hw_sent w @ [i]\<rparr>)"
proof -
  let ?w0 = "w\<lparr>hw_store := s\<rparr>"
  let ?w1 = "w\<lparr>hw_store := s1, hw_hands := (hw_hands w)(k := Some (i, False))\<rparr>"
  let ?w2 = "w\<lparr>hw_store := s1, hw_hands := (hw_hands w)(k := Some (i, True)), hw_sent := hw_sent w @ [i]\<rparr>"
  have idle: "(hw_hands w)(k := None) = hw_hands w" using assms(3) by (auto simp: fun_eq_iff)
  have 1: "hold_step ?w0 ?w1" using hold_step.Claim [of ?w0 k i s1] assms(1,3) by simp
  have 2: "hold_step ?w1 ?w2" using hold_step.Transmit [of ?w1 k i] by simp
  have 3: "hold_step ?w1 (w\<lparr>hw_store := s2\<rparr>)"
    using hold_step.Finish [of ?w1 k i False now status err s2] assms(2) idle by simp
  have 4: "hold_step ?w2 (w\<lparr>hw_store := s2, hw_sent := hw_sent w @ [i]\<rparr>)"
    using hold_step.Finish [of ?w2 k i True now status err s2] assms(2) idle by (simp add: world_swap)
  show "hold_steps ?w0 (w\<lparr>hw_store := s2\<rparr>)" using 1 3 by (meson converse_rtranclp_into_rtranclp rtranclp.rtrancl_refl)
  show "hold_steps ?w0 (w\<lparr>hw_store := s2, hw_sent := hw_sent w @ [i]\<rparr>)"
    using 1 2 4 by (meson converse_rtranclp_into_rtranclp rtranclp.rtrancl_refl)
qed

lemma carries_trans:
  assumes "carries w st st1" "sw_transmitted st2 = sw_transmitted st1 @ extra"
    and "\<And>w1. hw_hands w1 = hw_hands w \<Longrightarrow> hold_steps (w1\<lparr>hw_store := sw_store st1\<rparr>) (w1\<lparr>hw_store := sw_store st2, hw_sent := hw_sent w1 @ extra\<rparr>)"
  shows "carries w st st2"
proof -
  obtain new where n: "sw_transmitted st1 = sw_transmitted st @ new"
    "hold_steps w (w\<lparr>hw_store := sw_store st1, hw_sent := hw_sent w @ new\<rparr>)" using assms(1) by (auto simp: carries_def)
  have "hold_steps (w\<lparr>hw_store := sw_store st1, hw_sent := hw_sent w @ new\<rparr>)
      (w\<lparr>hw_store := sw_store st2, hw_sent := hw_sent w @ new @ extra\<rparr>)"
    using assms(3) [of "w\<lparr>hw_sent := hw_sent w @ new\<rparr>"] by (simp add: world_swap)
  then have "hold_steps w (w\<lparr>hw_store := sw_store st2, hw_sent := hw_sent w @ new @ extra\<rparr>)" using n(2) by (meson rtranclp_trans)
  then show ?thesis using n(1) assms(2) by (auto simp: carries_def)
qed

lemma expire_carries:
  assumes "carries w st st1" "hw_hands w k = None"
  shows "carries w st (expire_row E r st1)"
proof (cases "claim_held (hr_id r) (sw_store st1)")
  case (Pair ok s)
  show ?thesis
  proof (cases ok)
    case False
    then show ?thesis using assms(1) claim_lost [of "hr_id r" "sw_store st1" s] Pair by (simp add: expire_row_def carries_def)
  next
    case True
    have m: "mark_terminal (sv_now E) (hr_id r) Expired None s = Some (settle_row (sv_now E) r Expired None s)"
      by (rule settle_marks) (simp add: TERMINAL_STATUSES_def)
    show ?thesis
      by (rule carries_trans [OF assms(1), where extra = "[]"])
        (use claim_finish(1) [OF _ m] Pair True assms(2) in \<open>simp_all add: expire_row_def\<close>)
  qed
qed

lemma release_carries:
  assumes "carries w st st1" "hw_hands w k = None"
  shows "carries w st (release_row E r st1)"
proof (cases "claim_held (hr_id r) (sw_store st1)")
  case (Pair ok s)
  show ?thesis
  proof (cases ok)
    case False
    then show ?thesis using assms(1) claim_lost [of "hr_id r" "sw_store st1" s] Pair by (simp add: release_row_def carries_def)
  next
    case True
    obtain status err where m: "mark_terminal (sv_now E) (hr_id r) status err s = Some (sw_store (release_row E r st1))"
    proof (cases "sv_send E r")
      case (Inl why)
      then show ?thesis using that [of Failed_Send "Some (take 500 why)"] Pair True
        by (simp add: release_row_def settle_marks TERMINAL_STATUSES_def)
    next
      case (Inr sid)
      then show ?thesis using that [of Sent None] Pair True
        by (simp add: release_row_def settle_marks TERMINAL_STATUSES_def)
    qed
    have t: "sw_transmitted (release_row E r st1) = sw_transmitted st1 @ [hr_id r]"
      using Pair True by (simp add: release_row_def Let_def split: sum.split)
    show ?thesis
      by (rule carries_trans [OF assms(1) t]) (use claim_finish(2) [OF _ m] Pair True assms(2) in simp)
  qed
qed

lemma rows_carry:
  assumes "hw_hands w k = None" "hw_store w = s"
  shows "carries w (start_sweep s L) (sweep_rows E rows (start_sweep s L))"
proof (rule sweep_induct)
  have "w\<lparr>hw_store := s\<rparr> = w" using assms(2) by simp
  then show "carries w (start_sweep s L) (start_sweep s L)" by (simp add: carries_def start_sweep_def)
  show "carries w (start_sweep s L) (st\<lparr>sw_limiter := L', sw_blocked := B, sw_skipped := n\<rparr>)"
    if "carries w (start_sweep s L) st" for st L' B n using that by (simp add: carries_def)
qed (rule expire_carries release_carries; use assms in simp)+

lemma rows_steps:
  assumes "hw_hands w k = None" "hw_store w = s"
  shows "hold_steps w (w\<lparr>hw_store := sw_store (sweep_rows E rows (start_sweep s L)),
    hw_sent := hw_sent w @ sw_transmitted (sweep_rows E rows (start_sweep s L))\<rparr>)"
  using rows_carry [OF assms, of L E rows] by (auto simp: carries_def start_sweep_def)

lemma sweep_carries:
  assumes "hw_hands w k = None" "hw_store w = s"
  shows "\<exists>w'. hold_steps w w' \<and> hw_store w' = sw_store (run_sweep_once E s L) \<and> hw_hands w' = hw_hands w \<and>
    hw_sent w' = hw_sent w @ sw_transmitted (run_sweep_once E s L)"
proof -
  let ?st = "sweep_rows E (iter_held SWEEP_LIMIT s) (start_sweep s L)"
  have c: "hold_steps w (w\<lparr>hw_store := sw_store ?st, hw_sent := hw_sent w @ sw_transmitted ?st\<rparr>)"
    by (rule rows_steps [OF assms])
  obtain n s' where p: "purge_terminal (sv_now E) TERMINAL_RETENTION (sw_store ?st) = (n, s')" by fastforce
  let ?w' = "w\<lparr>hw_store := s', hw_sent := hw_sent w @ sw_transmitted ?st\<rparr>"
  have "hold_step (w\<lparr>hw_store := sw_store ?st, hw_sent := hw_sent w @ sw_transmitted ?st\<rparr>) ?w'"
    using hold_step.Purge [of "sv_now E" TERMINAL_RETENTION "w\<lparr>hw_store := sw_store ?st, hw_sent := hw_sent w @ sw_transmitted ?st\<rparr>"] p
    by (simp add: world_swap)
  then have "hold_steps w ?w'" using c by (meson rtranclp.rtrancl_into_rtrancl)
  then show ?thesis using p by (intro exI [of _ ?w']) (simp add: run_sweep_once_def Let_def)
qed

section \<open>Order\<close>

lemma status_settle_not_held:
  "status \<in> set TERMINAL_STATUSES \<Longrightarrow> status_of i s \<noteq> Some Held \<Longrightarrow> status_of i (settle_row now r status err s) \<noteq> Some Held"
  using status_mark [OF settle_marks, of status i now r err s] by (auto simp: terminal_cases)

lemma settle_not_held [simp]:
  "status_of i s \<noteq> Some Held \<Longrightarrow> status_of i (settle_row now r Expired err s) \<noteq> Some Held"
  "status_of i s \<noteq> Some Held \<Longrightarrow> status_of i (settle_row now r Failed_Send err s) \<noteq> Some Held"
  "status_of i s \<noteq> Some Held \<Longrightarrow> status_of i (settle_row now r Sent err s) \<noteq> Some Held"
  by (rule status_settle_not_held; simp add: terminal_cases)+

lemma expire_status:
  assumes "status_of i (sw_store st) \<noteq> Some Held \<or> i = hr_id r"
  shows "status_of i (sw_store (expire_row E r st)) \<noteq> Some Held"
proof -
  obtain ok s where c: "claim_held (hr_id r) (sw_store st) = (ok, s)" by fastforce
  have "status_of i (snd (claim_held (hr_id r) (sw_store st))) \<noteq> Some Held" unfolding status_claim using assms by auto
  then have "status_of i s \<noteq> Some Held" unfolding c snd_conv .
  then show ?thesis using c by (cases ok) (simp_all add: expire_row_def)
qed

lemma release_status:
  assumes "status_of i (sw_store st) \<noteq> Some Held \<or> i = hr_id r"
  shows "status_of i (sw_store (release_row E r st)) \<noteq> Some Held"
proof -
  obtain ok s where c: "claim_held (hr_id r) (sw_store st) = (ok, s)" by fastforce
  have "status_of i (snd (claim_held (hr_id r) (sw_store st))) \<noteq> Some Held" unfolding status_claim using assms by auto
  then have "status_of i s \<noteq> Some Held" unfolding c snd_conv .
  then show ?thesis using c
    by (cases ok) (simp_all add: release_row_def Let_def split: sum.split)
qed

lemma sweep_keeps_not_held:
  "status_of i (sw_store st) \<noteq> Some Held \<Longrightarrow> status_of i (sw_store (sweep_rows E rows st)) \<noteq> Some Held"
  by (rule sweep_induct) (simp_all add: expire_status release_status)

lemma expire_transmits [simp]: "sw_transmitted (expire_row E r st) = sw_transmitted st" "sw_blocked (expire_row E r st) = sw_blocked st"
  by (auto simp: expire_row_def split: prod.splits bool.splits)

lemma release_transmits:
  "set (sw_transmitted (release_row E r st)) \<subseteq> insert (hr_id r) (set (sw_transmitted st))"
  "sw_blocked (release_row E r st) = sw_blocked st"
  by (auto simp: release_row_def Let_def split: prod.splits bool.splits sum.splits)

lemma transmitted_rows:
  "set (sw_transmitted (sweep_rows E rows st)) \<subseteq> set (sw_transmitted st) \<union>
     {hr_id r | r. r \<in> set rows \<and> sv_now E - hr_created r < sp_held_ttl (sv_policy E) \<and> sp_held_release (sv_policy E)}"
proof (rule sweep_induct [where P = "\<lambda>st' :: sweep_state. set (sw_transmitted st') \<subseteq> set (sw_transmitted st) \<union>
     {hr_id r | r. r \<in> set rows \<and> sv_now E - hr_created r < sp_held_ttl (sv_policy E) \<and> sp_held_release (sv_policy E)}"])
  fix st' :: sweep_state and r
  assume "set (sw_transmitted st') \<subseteq> set (sw_transmitted st) \<union>
     {hr_id r | r. r \<in> set rows \<and> sv_now E - hr_created r < sp_held_ttl (sv_policy E) \<and> sp_held_release (sv_policy E)}"
    "r \<in> set rows" "\<not> sp_held_ttl (sv_policy E) \<le> sv_now E - hr_created r" "sp_held_release (sv_policy E)"
  then show "set (sw_transmitted (release_row E r st')) \<subseteq> set (sw_transmitted st) \<union>
     {hr_id r | r. r \<in> set rows \<and> sv_now E - hr_created r < sp_held_ttl (sv_policy E) \<and> sp_held_release (sv_policy E)}"
    using release_transmits(1) [of E r st'] by fastforce
qed auto

lemma sweep_Cons_skip:
  "\<not> sp_held_ttl (sv_policy E) \<le> sv_now E - hr_created r \<Longrightarrow> \<not> sp_held_release (sv_policy E) \<or> recipient_of r \<in> sw_blocked st \<Longrightarrow>
   sweep_rows E (r # rows) st = sweep_rows E rows (st\<lparr>sw_skipped := Suc (sw_skipped st)\<rparr>)"
  by simp

text \<open>A step over one row: the pass ends, or goes on in a state that knows its recipient's turn has not come, or
  the row has left the queue.\<close>

lemma sweep_Cons_cases:
  obtains (stop) st1 where "sweep_rows E (r # rows) st = st1" "sw_transmitted st1 = sw_transmitted st" "sw_store st1 = sw_store st"
  | (wait) st1 where "sweep_rows E (r # rows) st = sweep_rows E rows st1" "sw_transmitted st1 = sw_transmitted st"
      "recipient_of r \<in> sw_blocked st1 \<or> \<not> sp_held_release (sv_policy E)" "sw_blocked st \<subseteq> sw_blocked st1"
  | (gone) st1 where "sweep_rows E (r # rows) st = sweep_rows E rows st1" "sw_blocked st1 = sw_blocked st"
      "status_of (hr_id r) (sw_store st1) \<noteq> Some Held"
      "set (sw_transmitted st1) \<subseteq> insert (hr_id r) (set (sw_transmitted st))"
      "recipient_of r \<in> sw_blocked st \<Longrightarrow> sw_transmitted st1 = sw_transmitted st"
proof (cases "sp_held_ttl (sv_policy E) \<le> sv_now E - hr_created r")
  case True
  then show ?thesis using gone [of "expire_row E r st"] expire_status [of "hr_id r" st r E] by auto
next
  case late: False
  show ?thesis
  proof (cases "\<not> sp_held_release (sv_policy E) \<or> recipient_of r \<in> sw_blocked st")
    case True
    show ?thesis by (rule wait [of "st\<lparr>sw_skipped := Suc (sw_skipped st)\<rparr>"]) (use late True in auto)
  next
    case go: False
    obtain d L where c: "rate_check (sv_tick E (hr_id r)) (recipient_of r) (sv_internal E (recipient_of r)) (sv_policy E)
        (sw_limiter st) = (d, L)" by fastforce
    show ?thesis
    proof (cases d)
      case None
      show ?thesis
        by (rule gone [of "release_row E r (st\<lparr>sw_limiter := L\<rparr>)"])
          (use None c late go release_transmits [of E r "st\<lparr>sw_limiter := L\<rparr>"] release_status [of "hr_id r" "st\<lparr>sw_limiter := L\<rparr>" r E]
            in auto)
    next
      case (Some why)
      show ?thesis
      proof (cases "why = Rate_Per_Sender")
        case True
        show ?thesis
          by (rule wait [of "st\<lparr>sw_limiter := L, sw_blocked := insert (recipient_of r) (sw_blocked st), sw_skipped := Suc (sw_skipped st)\<rparr>"])
            (use Some True c late go in auto)
      next
        case False
        show ?thesis
          by (rule stop [OF refl]) (use Some False c late go in \<open>cases why; auto\<close>)+
      qed
    qed
  qed
qed

lemma blocked_waits:
  assumes "distinct (map hr_id rows)" "r' \<in> set rows" "recipient_of r' \<in> sw_blocked st"
    and "hr_id r' \<in> set (sw_transmitted (sweep_rows E rows st))"
  shows "hr_id r' \<in> set (sw_transmitted st)"
  using assms
proof (induction rows arbitrary: st)
  case (Cons r rows)
  have rest: "hr_id r' \<in> set (sw_transmitted st1)"
    if t: "hr_id r' \<in> set (sw_transmitted (sweep_rows E rows st1))" and b: "recipient_of r' \<in> sw_blocked st1" for st1
  proof (cases "r' \<in> set rows")
    case True
    then show ?thesis using Cons.IH [of st1] Cons.prems(1) t b by simp
  next
    case False
    then have "r' = r" using Cons.prems(2) by simp
    then have "hr_id r' \<notin> hr_id ` set rows" using Cons.prems(1) by simp
    then show ?thesis using transmitted_rows [of E rows st1] t by blast
  qed
  show ?case
  proof (cases rule: sweep_Cons_cases [of E r rows st])
    case (stop st1)
    then show ?thesis using Cons.prems(4) by simp
  next
    case (wait st1)
    then show ?thesis using rest [of st1] Cons.prems(3,4) by auto
  next
    case (gone st1)
    then have t: "hr_id r' \<in> set (sw_transmitted st1)" using rest [of st1] Cons.prems(3,4) by simp
    show ?thesis
    proof (cases "hr_id r' = hr_id r")
      case True
      then have "r' = r" using Cons.prems(1,2) by (auto simp: image_iff)
      then show ?thesis using gone(5) t Cons.prems(3) by simp
    next
      case False
      then show ?thesis using gone(4) t by auto
    qed
  qed
qed simp

lemma sweep_fifo:
  assumes "distinct (map hr_id rows)" "rows = before @ r # after" "r' \<in> set after" "recipient_of r' = recipient_of r"
    and "hr_id r' \<in> set (sw_transmitted (sweep_rows E rows st))" "hr_id r' \<notin> set (sw_transmitted st)"
  shows "status_of (hr_id r) (sw_store (sweep_rows E rows st)) \<noteq> Some Held"
  using assms
proof (induction rows arbitrary: st before)
  case (Cons x rows)
  have late: "hr_id r' \<noteq> hr_id x"
    using Cons.prems(1-3) by (cases before) (auto simp: image_iff)
  show ?case
  proof (cases before)
    case Nil
    then have x: "x = r" "rows = after" using Cons.prems(2) by simp_all
    have d: "distinct (map hr_id rows)" using Cons.prems(1) by simp
    show ?thesis
    proof (cases rule: sweep_Cons_cases [of E x rows st])
      case (stop st1)
      then show ?thesis using Cons.prems(5,6) by simp
    next
      case (wait st1)
      have t: "hr_id r' \<in> set (sw_transmitted (sweep_rows E rows st1))" "hr_id r' \<notin> set (sw_transmitted st1)"
        using wait(1,2) Cons.prems(5,6) by simp_all
      have "sp_held_release (sv_policy E)" using transmitted_rows [of E rows st1] t by blast
      then have "recipient_of r' \<in> sw_blocked st1" using wait(3) x Cons.prems(4) by simp
      then show ?thesis using blocked_waits [OF d _ _ t(1)] t(2) Cons.prems(3) x by simp
    next
      case (gone st1)
      then show ?thesis using sweep_keeps_not_held [of "hr_id r" st1 E rows] x by simp
    qed
  next
    case (Cons y before')
    then have rows: "rows = before' @ r # after" "distinct (map hr_id rows)" using Cons.prems(1,2) by auto
    show ?thesis
    proof (cases rule: sweep_Cons_cases [of E x rows st])
      case (stop st1)
      then show ?thesis using Cons.prems(5,6) by simp
    next
      case (wait st1)
      then show ?thesis using Cons.IH [OF rows(2,1) Cons.prems(3,4)] Cons.prems(5,6) by simp
    next
      case (gone st1)
      then have "hr_id r' \<notin> set (sw_transmitted st1)" using late Cons.prems(6) by auto
      then show ?thesis using gone(1) Cons.IH [OF rows(2,1) Cons.prems(3,4)] Cons.prems(5) by simp
    qed
  qed
qed simp

section \<open>The rate\<close>

type_synonym sending = "rat \<times> string \<times> bool"

text \<open>Replies asked for one after the other, with their time, recipient and whether it is internal; those let through.\<close>

fun rate_run :: "send_policy \<Rightarrow> sending list \<Rightarrow> limiter \<Rightarrow> sending list" where
  "rate_run p [] L = []"
| "rate_run p ((now, s, internal) # xs) L =
     (case rate_check now s internal p L of
        (None, L') \<Rightarrow> (now, s, internal) # rate_run p xs L'
      | (Some _, L') \<Rightarrow> rate_run p xs L')"

definition in_window :: "rat \<Rightarrow> rat \<Rightarrow> rat list \<Rightarrow> nat" where
  "in_window W T ts = length (filter (\<lambda>t. T - W \<le> t \<and> t \<le> T) ts)"

definition paced :: "int \<Rightarrow> rat \<Rightarrow> rat list \<Rightarrow> bool" where
  "paced n W ts \<longleftrightarrow> (\<forall>T. int (in_window W T ts) \<le> n)"

definition counted_for :: "(sending \<Rightarrow> bool) \<Rightarrow> sending list \<Rightarrow> rat list" where
  "counted_for P A = map fst (filter P A)"

definition metered :: "send_policy \<Rightarrow> sending \<Rightarrow> bool" where
  "metered p x \<longleftrightarrow> \<not> (snd (snd x) \<and> sp_internal_exempt p)"

definition metered_to :: "send_policy \<Rightarrow> string \<Rightarrow> sending \<Rightarrow> bool" where
  "metered_to p s x \<longleftrightarrow> metered p x \<and> fst (snd x) = s"

definition policy_wf :: "send_policy \<Rightarrow> bool" where
  "policy_wf p \<longleftrightarrow> 0 \<le> sp_per_sender_max p \<and> 0 < sp_per_sender_window p \<and> 0 \<le> sp_global_max p \<and> 0 < sp_global_window p \<and>
     0 \<le> sp_backstop_max p \<and> 0 < sp_backstop_window p \<and> 0 < sp_held_ttl p"

lemma policy_field_P:
  assumes "policy_field read d k dflt = Some x" "P dflt" "\<And>v y. read v = Some y \<Longrightarrow> P y"
  shows "P x"
  using assms by (auto simp: policy_field_def split: option.splits)

lemma as_count_nonneg: "as_count v = Some y \<Longrightarrow> 0 \<le> y"
  by (auto simp: as_count_def split: pyval.splits if_splits)

lemma as_window_pos: "as_window v = Some y \<Longrightarrow> 0 < y"
  by (auto simp: as_window_def split: pyval.splits if_splits)

lemma read_policy_wf: "read_policy reply held = Some p \<Longrightarrow> policy_wf p"
proof -
  assume r: "read_policy reply held = Some p"
  have c: "0 \<le> x" if "policy_field as_count d k dflt = Some x" "0 \<le> dflt" for d k dflt x
    by (rule policy_field_P [OF that(1), where P = "\<lambda>y. 0 \<le> y"]) (use that(2) as_count_nonneg in auto)
  have w: "0 < x" if "policy_field as_window d k dflt = Some x" "0 < dflt" for d k dflt x
    by (rule policy_field_P [OF that(1), where P = "\<lambda>y. 0 < y"]) (use that(2) as_window_pos in auto)
  let ?D = DEFAULT_SEND_POLICY
  obtain ie pm pw gm gw bm bw en ttl where parts:
    "policy_field as_count reply ''per_sender_max'' (sp_per_sender_max ?D) = Some pm"
    "policy_field as_window reply ''per_sender_window_seconds'' (sp_per_sender_window ?D) = Some pw"
    "policy_field as_count reply ''global_max'' (sp_global_max ?D) = Some gm"
    "policy_field as_window reply ''global_window_seconds'' (sp_global_window ?D) = Some gw"
    "policy_field as_count reply ''backstop_max'' 0 = Some bm"
    "policy_field as_window reply ''backstop_window_seconds'' (sp_backstop_window ?D) = Some bw"
    "policy_field as_window held ''ttl_seconds'' (sp_held_ttl ?D) = Some ttl"
    and p: "p = \<lparr>sp_internal_exempt = ie, sp_per_sender_max = pm, sp_per_sender_window = pw, sp_global_max = gm,
      sp_global_window = gw, sp_backstop_max = bm, sp_backstop_window = bw, sp_held_release = en, sp_held_ttl = ttl\<rparr>"
    using r unfolding read_policy_def Let_def bind_eq_Some_conv map_option_eq_Some by blast
  have D: "0 \<le> sp_per_sender_max ?D" "0 < sp_per_sender_window ?D" "0 \<le> sp_global_max ?D" "0 < sp_global_window ?D"
    "0 < sp_backstop_window ?D" "0 < sp_held_ttl ?D" by (simp_all add: DEFAULT_SEND_POLICY_def)
  show "policy_wf p"
    using c [OF parts(1) D(1)] w [OF parts(2) D(2)] c [OF parts(3) D(3)] w [OF parts(4) D(4)] c [OF parts(5)] w [OF parts(6) D(5)]
      w [OF parts(7) D(6)]
    by (simp add: policy_wf_def p)
qed

lemma default_policy_wf: "policy_wf DEFAULT_SEND_POLICY"
  by (simp add: policy_wf_def DEFAULT_SEND_POLICY_def)

lemma resolved_policy_wf: "policy_wf (resolve_send_policy raw)"
  by (auto simp: resolve_send_policy_def default_policy_wf dest: read_policy_wf split: pyval.split option.split)

lemma kept_is_filter: "sorted ts \<Longrightarrow> dropWhile (\<lambda>t. t < h) ts = filter (\<lambda>t. h \<le> t) (ts :: rat list)"
  by (induction ts) (auto simp: not_less intro!: filter_True [symmetric])

lemma paced_snoc:
  assumes "paced n W ts" "sorted (ts @ [now])" "int (length (evict_before (now - W) ts)) < n"
  shows "paced n W (ts @ [now])"
  unfolding paced_def
proof
  fix T
  show "int (in_window W T (ts @ [now])) \<le> n"
  proof (cases "T < now")
    case True
    then have "in_window W T (ts @ [now]) = in_window W T ts" by (simp add: in_window_def)
    then show ?thesis using assms(1) by (simp add: paced_def)
  next
    case False
    have "in_window W T ts \<le> length (filter (\<lambda>t. now - W \<le> t) ts)"
      unfolding in_window_def using False by (induction ts) auto
    then show ?thesis using assms(2,3) by (auto simp: in_window_def evict_before_def kept_is_filter sorted_append)
  qed
qed

lemma paced_Nil: "0 \<le> n \<Longrightarrow> paced n W []"
  by (simp add: paced_def in_window_def)

text \<open>A window of the limiter holds what it counted, from some horizon on.\<close>

definition keeps_window :: "rat \<Rightarrow> rat list \<Rightarrow> rat list \<Rightarrow> bool" where
  "keeps_window limit w ts \<longleftrightarrow> (\<exists>h \<le> limit. w = dropWhile (\<lambda>t. t < h) ts)"

lemma keeps_evict:
  assumes "keeps_window limit w ts" "limit \<le> h"
  shows "evict_before h w = evict_before h ts"
proof -
  obtain g where g': "g \<le> limit" "w = dropWhile (\<lambda>t. t < g) ts" using assms(1) by (auto simp: keeps_window_def)
  then have g: "g \<le> h" "w = dropWhile (\<lambda>t. t < g) ts" using assms(2) by auto
  have "dropWhile (\<lambda>t. t < h) (dropWhile (\<lambda>t. t < g) ts) = dropWhile (\<lambda>t. t < h) ts"
    using g(1) by (induction ts) auto
  then show ?thesis by (simp add: evict_before_def g(2))
qed

lemma keeps_evicted: "keeps_window limit w ts \<Longrightarrow> limit \<le> h \<Longrightarrow> keeps_window h (evict_before h w) ts"
  unfolding keeps_evict [of limit w ts h] by (auto simp: keeps_window_def evict_before_def)

lemma keeps_snoc:
  assumes "limit \<le> h" "keeps_window limit w ts" "h \<le> now"
  shows "keeps_window h (evict_before h w @ [now]) (ts @ [now])"
proof -
  have "evict_before h ts @ [now] = dropWhile (\<lambda>t. t < h) (ts @ [now])"
    using assms(3) by (auto simp: evict_before_def dropWhile_append not_less)
  then show ?thesis using keeps_evict [OF assms(2,1)] by (auto simp: keeps_window_def)
qed

lemma keeps_mono:
  assumes "keeps_window limit w ts" "limit \<le> limit'"
  shows "keeps_window limit' w ts"
proof -
  obtain h where "h \<le> limit" "w = dropWhile (\<lambda>t. t < h) ts" using assms(1) by (auto simp: keeps_window_def)
  then show ?thesis using assms(2) unfolding keeps_window_def by (intro exI [of _ h]) simp
qed

definition rate_inv :: "send_policy \<Rightarrow> rat \<Rightarrow> sending list \<Rightarrow> limiter \<Rightarrow> bool" where
  "rate_inv p now A L \<longleftrightarrow>
     sorted (map fst A) \<and> (\<forall>x \<in> set A. fst x \<le> now) \<and>
     keeps_window (now - sp_backstop_window p) (rl_backstop L) (map fst A) \<and>
     keeps_window (now - sp_global_window p) (rl_global L) (counted_for (metered p) A) \<and>
     (\<forall>s. keeps_window (now - sp_per_sender_window p) (bucket_of s L) (counted_for (metered_to p s) A)) \<and>
     (0 < sp_backstop_max p \<longrightarrow> paced (sp_backstop_max p) (sp_backstop_window p) (map fst A)) \<and>
     paced (sp_global_max p) (sp_global_window p) (counted_for (metered p) A) \<and>
     (\<forall>s. paced (sp_per_sender_max p) (sp_per_sender_window p) (counted_for (metered_to p s) A))"

lemma bucket_update:
  "bucket_of s (L\<lparr>rl_per_sender := AList.update k b m\<rparr>) = (if s = k then b else bucket_of s (L\<lparr>rl_per_sender := m\<rparr>))"
  by (simp add: bucket_of_def update_conv)

lemma counted_snoc:
  "counted_for P (A @ [x]) = (if P x then counted_for P A @ [fst x] else counted_for P A)"
  by (simp add: counted_for_def)

lemma counted_sorted: "sorted (map fst A) \<Longrightarrow> sorted (counted_for P A)"
  by (induction A) (auto simp: counted_for_def)

lemma counted_le: "\<forall>x \<in> set A. fst x \<le> now \<Longrightarrow> t \<in> set (counted_for P A) \<Longrightarrow> t \<le> now"
  by (auto simp: counted_for_def)

lemma rate_step:
  assumes "rate_inv p before A L" "before \<le> now" "policy_wf p" "rate_check now s internal p L = (d, L')"
  shows "rate_inv p now (if d = None then A @ [(now, s, internal)] else A) L'"
proof -
  define x where "x = (now, s, internal)"
  let ?hb = "now - sp_backstop_window p" and ?hg = "now - sp_global_window p" and ?hp = "now - sp_per_sender_window p"
  let ?bkst = "evict_before ?hb (rl_backstop L)" and ?glob = "evict_before ?hg (rl_global L)"
    and ?bucket = "evict_before ?hp (bucket_of s L)"
  have I: "sorted (map fst A)" "\<forall>y \<in> set A. fst y \<le> before"
    "keeps_window (before - sp_backstop_window p) (rl_backstop L) (map fst A)"
    "keeps_window (before - sp_global_window p) (rl_global L) (counted_for (metered p) A)"
    "\<And>k. keeps_window (before - sp_per_sender_window p) (bucket_of k L) (counted_for (metered_to p k) A)"
    "0 < sp_backstop_max p \<Longrightarrow> paced (sp_backstop_max p) (sp_backstop_window p) (map fst A)"
    "paced (sp_global_max p) (sp_global_window p) (counted_for (metered p) A)"
    "\<And>k. paced (sp_per_sender_max p) (sp_per_sender_window p) (counted_for (metered_to p k) A)"
    using assms(1) unfolding rate_inv_def by blast+
  have W: "before - sp_backstop_window p \<le> ?hb" "before - sp_global_window p \<le> ?hg" "before - sp_per_sender_window p \<le> ?hp"
    "?hb \<le> now" "?hg \<le> now" "?hp \<le> now" using assms(2,3) by (auto simp: policy_wf_def)
  have le: "\<forall>y \<in> set A. fst y \<le> now" using I(2) assms(2) by auto
  have so: "sorted (map fst A @ [now])" "sorted (counted_for P A @ [now])" for P
    using I(1) le counted_sorted [OF I(1), of P] counted_le [OF le, of _ P] by (auto simp: sorted_append)
  note keep = keeps_mono [OF I(3) W(1)] keeps_mono [OF I(4) W(2)] keeps_mono [OF I(5) W(3)]
  note evicted = keeps_evicted [OF I(3) W(1)] keeps_evicted [OF I(4) W(2)] keeps_evicted [OF I(5) W(3)]
  note snoc = keeps_snoc [OF W(1) I(3) W(4)] keeps_snoc [OF W(2) I(4) W(5)] keeps_snoc [OF W(3) I(5) W(6)]
  note same = keeps_evict [OF I(3) W(1)] keeps_evict [OF I(4) W(2)] keeps_evict [OF I(5) W(3)]
  have bs: "0 < sp_backstop_max p \<Longrightarrow> \<not> sp_backstop_max p \<le> int (length ?bkst) \<Longrightarrow>
      paced (sp_backstop_max p) (sp_backstop_window p) (map fst A @ [now])"
    by (rule paced_snoc [OF I(6) so(1)]) (simp_all add: same(1))
  have gs: "\<not> sp_global_max p \<le> int (length ?glob) \<Longrightarrow> paced (sp_global_max p) (sp_global_window p) (counted_for (metered p) A @ [now])"
    by (rule paced_snoc [OF I(7) so(2)]) (simp add: same(2))
  have ps: "\<not> sp_per_sender_max p \<le> int (length ?bucket) \<Longrightarrow>
      paced (sp_per_sender_max p) (sp_per_sender_window p) (counted_for (metered_to p s) A @ [now])"
    by (rule paced_snoc [OF I(8) so(2)]) (simp add: same(3))
  have fx: "fst x = now" "metered p x \<longleftrightarrow> \<not> (internal \<and> sp_internal_exempt p)"
    "metered_to p k x \<longleftrightarrow> \<not> (internal \<and> sp_internal_exempt p) \<and> k = s" for k
    by (auto simp: x_def metered_def metered_to_def)
  show ?thesis
  proof (cases "0 < sp_backstop_max p \<and> sp_backstop_max p \<le> int (length ?bkst)")
    case True
    then have "d = Some Rate_Backstop" "L' = L\<lparr>rl_backstop := ?bkst\<rparr>" using assms(4) by (auto simp: rate_check_def Let_def)
    then show ?thesis using I le keep evicted by (auto simp: rate_inv_def bucket_of_def)
  next
    case nb: False
    show ?thesis
    proof (cases "internal \<and> sp_internal_exempt p")
      case True
      then have r: "d = None" "L' = L\<lparr>rl_backstop := ?bkst @ [now]\<rparr>" using assms(4) nb by (auto simp: rate_check_def Let_def)
      show ?thesis
        unfolding r x_def [symmetric] rate_inv_def
        using I le keep snoc(1) so bs nb True fx by (auto simp: counted_snoc bucket_of_def)
    next
      case ext: False
      show ?thesis
      proof (cases "sp_global_max p \<le> int (length ?glob)")
        case True
        then have "d = Some Rate_Global" "L' = L\<lparr>rl_backstop := ?bkst, rl_global := ?glob\<rparr>"
          using assms(4) nb ext by (auto simp: rate_check_def Let_def)
        then show ?thesis using I le keep evicted by (auto simp: rate_inv_def bucket_of_def)
      next
        case ng: False
        show ?thesis
        proof (cases "sp_per_sender_max p \<le> int (length ?bucket)")
          case True
          then have "d = Some Rate_Per_Sender" and
            L': "L' = L\<lparr>rl_backstop := ?bkst, rl_global := ?glob, rl_per_sender := AList.update s ?bucket (rl_per_sender L)\<rparr>"
            using assms(4) nb ext ng by (auto simp: rate_check_def Let_def)
          moreover have "bucket_of k L' = (if k = s then ?bucket else bucket_of k L)" for k
            by (simp add: L' bucket_of_def update_conv)
          ultimately show ?thesis using I le keep evicted by (auto simp: rate_inv_def)
        next
          case np: False
          then have r: "d = None" and
            L': "L' = \<lparr>rl_per_sender = AList.update s (?bucket @ [now]) (rl_per_sender L), rl_global = ?glob @ [now],
                   rl_backstop = ?bkst @ [now]\<rparr>"
            using assms(4) nb ext ng by (auto simp: rate_check_def Let_def)
          have b: "bucket_of k L' = (if k = s then ?bucket @ [now] else bucket_of k L)" for k
            by (simp add: L' bucket_of_def update_conv)
          have w: "rl_backstop L' = ?bkst @ [now]" "rl_global L' = ?glob @ [now]" by (simp_all add: L')
          show ?thesis
            unfolding r x_def [symmetric] rate_inv_def b w
            using I le keep snoc so bs nb gs [OF ng] ps [OF np] ext fx by (auto simp: counted_snoc)
        qed
      qed
    qed
  qed
qed

lemma rate_run_inv:
  assumes "rate_inv p before A L" "policy_wf p" "sorted (map fst xs)" "\<forall>x \<in> set xs. before \<le> fst x"
  shows "\<exists>now L'. rate_inv p now (A @ rate_run p xs L) L'"
  using assms
proof (induction xs arbitrary: before A L)
  case (Cons x xs)
  obtain now s internal where x: "x = (now, s, internal)" by (cases x) auto
  obtain d L' where c: "rate_check now s internal p L = (d, L')" by fastforce
  have "before \<le> now" "sorted (map fst xs)" "\<forall>y \<in> set xs. now \<le> fst y" using Cons.prems(3,4) by (auto simp: x)
  then have "\<exists>now' L''. rate_inv p now' ((if d = None then A @ [x] else A) @ rate_run p xs L') L''"
    using Cons.IH [OF rate_step [OF Cons.prems(1) _ Cons.prems(2) c]] Cons.prems(2) unfolding x by blast
  then show ?case by (cases d) (simp_all add: x c)
qed auto

lemma rate_inv_new: "policy_wf p \<Longrightarrow> rate_inv p now [] new_limiter"
  by (auto simp: rate_inv_def new_limiter_def keeps_window_def counted_for_def bucket_of_def policy_wf_def paced_Nil)

definition rate_caps :: "send_policy \<Rightarrow> sending list \<Rightarrow> bool" where
  "rate_caps p A \<longleftrightarrow>
     (0 < sp_backstop_max p \<longrightarrow> paced (sp_backstop_max p) (sp_backstop_window p) (map fst A)) \<and>
     paced (sp_global_max p) (sp_global_window p) (counted_for (metered p) A) \<and>
     (\<forall>s. paced (sp_per_sender_max p) (sp_per_sender_window p) (counted_for (metered_to p s) A))"

lemma rate_run_caps:
  assumes "policy_wf p" "sorted (map fst xs)"
  shows "rate_caps p (rate_run p xs new_limiter)"
proof (cases xs)
  case Nil
  then show ?thesis using assms(1) by (simp add: rate_caps_def counted_for_def policy_wf_def paced_Nil)
next
  case (Cons x ys)
  have "\<forall>y \<in> set xs. fst x \<le> fst y" using assms(2) Cons by auto
  then obtain now L' where "rate_inv p now ([] @ rate_run p xs new_limiter) L'"
    using rate_run_inv [OF rate_inv_new [OF assms(1)] assms] by blast
  then show ?thesis unfolding rate_inv_def rate_caps_def by simp
qed

section \<open>Examples\<close>

definition demo_reply :: "string \<Rightarrow> held_reply" where
  "demo_reply m = \<lparr>hr_id = 0, hr_created = 0, hr_sender = ''c@client'', hr_class = ''client'', hr_adapter = ''agentmail'',
     hr_inbox = ''i'', hr_message = m, hr_text = Some ''body'', hr_html = Some [], hr_digest = ''d'', hr_reason = ''rate_limited_global'',
     hr_status = Held, hr_released = None, hr_error = None, hr_reply_to = []\<rparr>"

definition demo_held :: held_store where
  "demo_held = snd (enqueue_held 2 (demo_reply ''m2'') (snd (enqueue_held 1 (demo_reply ''m1'') empty_held)))"

definition demo_sweep :: sweep_env where
  "demo_sweep = \<lparr>sv_policy = DEFAULT_SEND_POLICY\<lparr>sp_held_release := True\<rparr>, sv_now = 10, sv_tick = (\<lambda>_. 10), sv_internal = (\<lambda>_. False),
     sv_send = (\<lambda>r. Inr ''sent''), sv_digests = (\<lambda>r. [])\<rparr>"

definition after_sweep :: sweep_state where
  "after_sweep = run_sweep_once demo_sweep demo_held new_limiter"

lemma demo_held_wf: "held_wf demo_held"
  by code_simp

lemma after_sweep_fields: "sw_transmitted after_sweep = [1, 2]" "status_of 1 (sw_store after_sweep) = Some Sent"
  by code_simp+

section \<open>Properties\<close>

text \<open>C21: A held reply is sent at most once: in every interleaving of the hook, any number of sweepers, restarts and
  purges, no row is handed to the transport twice.\<close>

theorem held_reply_is_sent_at_most_once:
  assumes "held_wf s" "hold_steps (fresh_hold s) w"
  shows "distinct (hw_sent w)"
  using hold_steps_inv [OF assms(2) fresh_hold_inv [OF assms(1)]] by (rule hold_invD)

lemma held_reply_is_sent_at_most_once_witness: "distinct (sw_transmitted after_sweep)"
proof -
  obtain w where w: "hold_steps (fresh_hold demo_held) w" "hw_sent w = [] @ sw_transmitted after_sweep"
    using sweep_carries [of "fresh_hold demo_held" 0 demo_held demo_sweep new_limiter] by (auto simp: fresh_hold_def after_sweep_def)
  show ?thesis using held_reply_is_sent_at_most_once [OF demo_held_wf w(1)] w(2) by simp
qed

text \<open>C23: The release pass is such an interleaving: what \<open>run_sweep_once\<close> does to the queue and hands to the transport, a
  free sweeper does in single steps.\<close>

theorem release_pass_is_an_interleaving:
  assumes "hw_hands w k = None"
  shows "\<exists>w'. hold_steps w w' \<and> hw_store w' = sw_store (run_sweep_once E (hw_store w) L) \<and>
    hw_sent w' = hw_sent w @ sw_transmitted (run_sweep_once E (hw_store w) L)"
  using sweep_carries [OF assms refl, of E L] by (elim exE conjE) (intro exI conjI)

lemma release_pass_is_an_interleaving_witness:
  "\<exists>w'. hold_steps (fresh_hold demo_held) w' \<and> hw_store w' = sw_store after_sweep \<and> hw_sent w' = sw_transmitted after_sweep"
  using release_pass_is_an_interleaving [of "fresh_hold demo_held" 0 demo_sweep new_limiter]
  by (simp add: fresh_hold_def after_sweep_def)

text \<open>A recipient reads the answers in order: when a pass hands a reply to the transport, every earlier held reply of
  the pass to the same recipient has left the queue.\<close>

theorem earlier_reply_leaves_first:
  assumes "held_wf s" "iter_held SWEEP_LIMIT s = before @ r # after" "r' \<in> set after" "recipient_of r' = recipient_of r"
    and "hr_id r' \<in> set (sw_transmitted (run_sweep_once E s L))"
  shows "status_of (hr_id r) (sw_store (run_sweep_once E s L)) \<noteq> Some Held"
proof -
  let ?st = "sweep_rows E (iter_held SWEEP_LIMIT s) (start_sweep s L)"
  have "distinct (map hr_id (iter_held SWEEP_LIMIT s))"
    using assms(1) by (auto simp: iter_held_def held_wf_def take_map [symmetric] intro!: distinct_take distinct_map_filter)
  moreover have "hr_id r' \<in> set (sw_transmitted ?st)" using assms(5) by (simp add: run_sweep_once_def Let_def)
  ultimately have nh: "status_of (hr_id r) (sw_store ?st) \<noteq> Some Held"
    by (intro sweep_fifo [OF _ assms(2-4)]) (simp_all add: start_sweep_def)
  have "hold_steps (fresh_hold s) (fresh_hold s\<lparr>hw_store := sw_store ?st, hw_sent := hw_sent (fresh_hold s) @ sw_transmitted ?st\<rparr>)"
    by (rule rows_steps [where k = 0]) (simp_all add: fresh_hold_def)
  then have "distinct (map hr_id (hs_rows (sw_store ?st)))"
    using hold_invD(2) [OF hold_steps_inv [OF _ fresh_hold_inv [OF assms(1)]]] by fastforce
  then show ?thesis
    using status_purge [of "sw_store ?st" "hr_id r" "sv_now E" TERMINAL_RETENTION] nh by (auto simp: run_sweep_once_def Let_def)
qed

lemma earlier_reply_leaves_first_witness: "status_of 1 (sw_store after_sweep) \<noteq> Some Held"
proof -
  obtain r r' where i: "iter_held SWEEP_LIMIT demo_held = [r, r']" "hr_id r = 1" "hr_id r' = 2" "recipient_of r' = recipient_of r"
  proof -
    have "map hr_id (iter_held SWEEP_LIMIT demo_held) = [1, 2]" "map recipient_of (iter_held SWEEP_LIMIT demo_held) = [''c@client'', ''c@client'']"
      by code_simp+
    then show thesis using that by (auto simp: map_eq_Cons_conv)
  qed
  show ?thesis
    using earlier_reply_leaves_first [OF demo_held_wf, of "[]" r "[r']" r' demo_sweep new_limiter] i after_sweep_fields(1)
    by (simp add: after_sweep_def)
qed

text \<open>A stale answer is never sent: a pass hands only replies younger than the authored time to live to the transport, and
  none while release is off.\<close>

theorem only_fresh_replies_are_released:
  assumes "i \<in> set (sw_transmitted (run_sweep_once E s L))"
  shows "\<exists>r \<in> set (hs_rows s). hr_id r = i \<and> hr_status r = Held \<and> sv_now E - hr_created r < sp_held_ttl (sv_policy E) \<and>
    sp_held_release (sv_policy E)"
proof -
  have "i \<in> set (sw_transmitted (sweep_rows E (iter_held SWEEP_LIMIT s) (start_sweep s L)))"
    using assms by (simp add: run_sweep_once_def Let_def)
  then obtain r where "i = hr_id r" "r \<in> set (iter_held SWEEP_LIMIT s)" "sv_now E - hr_created r < sp_held_ttl (sv_policy E)"
    "sp_held_release (sv_policy E)"
    using transmitted_rows [of E "iter_held SWEEP_LIMIT s" "start_sweep s L"] by (auto simp: start_sweep_def)
  then show ?thesis by (auto simp: iter_held_def dest!: in_set_takeD)
qed

lemma only_fresh_replies_are_released_witness:
  "\<exists>r \<in> set (hs_rows demo_held). hr_id r = 2 \<and> hr_status r = Held \<and> sv_now demo_sweep - hr_created r < sp_held_ttl (sv_policy demo_sweep) \<and>
    sp_held_release (sv_policy demo_sweep)"
  by (rule only_fresh_replies_are_released [where L = new_limiter])
    (simp add: after_sweep_fields(1) [unfolded after_sweep_def])

text \<open>C22: The rate caps hold in every window: under an authored policy, of the replies asked for one after the other, those
  let through to people outside never exceed the global cap in any window of its length, nor those to one
  of them the cap per sender, nor, with a backstop, all of them the backstop.\<close>

theorem replies_stay_within_the_caps:
  assumes "p = resolve_send_policy raw" "sorted (map fst xs)"
  shows "int (in_window (sp_global_window p) T (counted_for (metered p) (rate_run p xs new_limiter))) \<le> sp_global_max p \<and>
    int (in_window (sp_per_sender_window p) T (counted_for (metered_to p s) (rate_run p xs new_limiter))) \<le> sp_per_sender_max p \<and>
    (sp_backstop_max p = 0 \<or> int (in_window (sp_backstop_window p) T (map fst (rate_run p xs new_limiter))) \<le> sp_backstop_max p)"
proof -
  have wf: "policy_wf p" using assms(1) resolved_policy_wf by simp
  have "rate_caps p (rate_run p xs new_limiter)" by (rule rate_run_caps [OF wf assms(2)])
  then show ?thesis using wf by (auto simp: rate_caps_def paced_def policy_wf_def)
qed

lemma replies_stay_within_the_caps_witness:
  "int (in_window 3600 0 (counted_for (metered (resolve_send_policy PNone)) (rate_run (resolve_send_policy PNone)
     (replicate 25 (0, ''a@x'', False)) new_limiter))) \<le> sp_global_max (resolve_send_policy PNone)"
  using conjunct1 [OF replies_stay_within_the_caps [OF refl, of "replicate 25 (0, ''a@x'', False)" PNone 0 "''a@x''"]]
  by (simp add: resolve_send_policy_def DEFAULT_SEND_POLICY_def)
end
