(* ===== verification/Job_Worker.thy ===== *)
theory Job_Worker
  imports Cost_Breaker Trust_Gate
begin

text \<open>
  The durable-job worker (\<open>shared/job_worker.py\<close>), the segment adapter that binds one bounded agent run
  to it (\<open>shared/job_segment.py\<close>), and the parts of the Hermes binding that decide something
  (\<open>shared/job_worker_runtime.py\<close>: readiness, outage severity, where a result is kept). The
  job ledger of the broker, the agent, the transports and the session log are parameters, each a
  function of a state \<open>'l\<close> of the world outside that it may change, and may raise (\<open>Inl\<close>). The loop of
  \<open>run_one\<close> may run for ever: not returning is \<open>None\<close>.
\<close>

section \<open>Jobs and segments\<close>

record job =
  jb_id :: string
  jb_status :: string
  jb_model :: string
  jb_attempts :: int
  jb_root :: string
  jb_tip :: string
  jb_cancel :: bool
  jb_spent :: int
  jb_budget :: int
  jb_brief :: string

record segment_outcome =
  sg_completed :: bool
  sg_spent_delta :: int
  sg_tip :: string
  sg_result :: "string option"
  sg_refused_budget :: bool
  sg_cost_capped :: bool
  sg_error :: "string option"

definition no_segment :: segment_outcome where
  "no_segment =
     \<lparr>sg_completed = False, sg_spent_delta = 0, sg_tip = [], sg_result = None, sg_refused_budget = False,
      sg_cost_capped = False, sg_error = None\<rparr>"

definition DEFAULT_MAX_ATTEMPTS :: int where
  "DEFAULT_MAX_ATTEMPTS = 5"

type_synonym ('l, 'a) act = "'l \<Rightarrow> (string + 'a) \<times> 'l"

record 'l job_worker =
  jw_read :: "string \<Rightarrow> ('l, job option) act"
  jw_claimable :: "('l, string list) act"
  jw_claim :: "string \<Rightarrow> ('l, int option) act"
  jw_record :: "string \<Rightarrow> int \<Rightarrow> pydict \<Rightarrow> ('l, bool) act"
  jw_segment :: "job \<Rightarrow> int \<Rightarrow> ('l, segment_outcome) act"
  jw_deliver :: "job \<Rightarrow> string \<Rightarrow> ('l, bool) act"
  jw_put_result :: "job \<Rightarrow> string \<Rightarrow> ('l, string) act"
  jw_max_attempts :: int

section \<open>One job\<close>

definition andthen :: "('l, 'a) act \<Rightarrow> ('a \<Rightarrow> ('l, 'b) act) \<Rightarrow> ('l, 'b) act" where
  "andthen m f l = (case m l of (Inl e, l1) \<Rightarrow> (Inl e, l1) | (Inr x, l1) \<Rightarrow> f x l1)"

definition give :: "'a \<Rightarrow> ('l, 'a) act" where
  "give x l = (Inr x, l)"

definition dead_letter :: "'l job_worker \<Rightarrow> string \<Rightarrow> int \<Rightarrow> string \<Rightarrow> string \<Rightarrow> ('l, string) act" where
  "dead_letter W i ep status err =
     andthen (jw_record W i ep [(''status'', PStr status), (''error'', PStr err)]) (\<lambda>_. give status)"

text \<open>A delivery that raises is a delivery that failed.\<close>

definition try_deliver :: "'l job_worker \<Rightarrow> job \<Rightarrow> string \<Rightarrow> ('l, bool) act" where
  "try_deliver W j ref l = (case jw_deliver W j ref l of (Inl e, l1) \<Rightarrow> (Inr False, l1) | (Inr b, l1) \<Rightarrow> (Inr b, l1))"

definition finish_job :: "'l job_worker \<Rightarrow> string \<Rightarrow> int \<Rightarrow> job \<Rightarrow> string \<Rightarrow> ('l, string) act" where
  "finish_job W i ep j text =
     andthen (jw_put_result W j text) (\<lambda>ref.
     andthen (jw_record W i ep [(''status'', PStr ''complete''), (''result_ref'', PStr ref)]) (\<lambda>ok1.
       if \<not> ok1 then give ''fenced''
       else andthen (jw_record W i ep [(''status'', PStr ''delivering'')]) (\<lambda>ok2.
         if \<not> ok2 then give ''fenced''
         else andthen (try_deliver W j ref) (\<lambda>delivered.
           if \<not> delivered then dead_letter W i ep ''needs_review'' ''delivery failed''
           else andthen (jw_record W i ep [(''status'', PStr ''delivered'')]) (\<lambda>ok3.
             if \<not> ok3 then give ''fenced''
             else andthen (jw_record W i ep [(''status'', PStr ''done'')]) (\<lambda>_. give ''done''))))))"

text \<open>What follows a segment: an outcome of the run, or (\<open>None\<close>) another round.\<close>

definition after_segment :: "'l job_worker \<Rightarrow> string \<Rightarrow> int \<Rightarrow> job \<Rightarrow> segment_outcome \<Rightarrow> ('l, string option) act" where
  "after_segment W i ep j seg =
     (if sg_refused_budget seg
      then andthen (dead_letter W i ep ''needs_review'' ''segment would exceed budget (pre-spend)'') (\<lambda>s. give (Some s))
      else if sg_cost_capped seg
      then andthen (dead_letter W i ep ''needs_review'' ''cost breaker hard stop (sticky_stop)'') (\<lambda>s. give (Some s))
      else case sg_error seg of
        Some (c # e) \<Rightarrow> andthen (jw_record W i ep [(''error'', PStr (c # e))]) (\<lambda>_. give (Some ''errored''))
      | _ \<Rightarrow>
          let spent = jb_spent j + max 0 (sg_spent_delta seg)
          in andthen (jw_record W i ep ([(''spent_cents'', PInt spent)] @
                 (if sg_tip seg = [] then [] else [(''current_tip_session_id'', PStr (sg_tip seg))]))) (\<lambda>ok.
               if \<not> ok then give (Some ''fenced'')
               else if jb_budget j < spent
               then andthen (dead_letter W i ep ''needs_review'' ''budget exceeded mid-segment'') (\<lambda>s. give (Some s))
               else if sg_completed seg
               then andthen (finish_job W i ep j (case sg_result seg of None \<Rightarrow> [] | Some t \<Rightarrow> t)) (\<lambda>s. give (Some s))
               else give None))"

text \<open>One round of the loop.\<close>

definition segment_round :: "'l job_worker \<Rightarrow> string \<Rightarrow> int \<Rightarrow> ('l, string option) act" where
  "segment_round W i ep =
     andthen (jw_read W i) (\<lambda>row.
       case row of
         None \<Rightarrow> give (Some ''vanished'')
       | Some j \<Rightarrow>
           if jb_cancel j then andthen (dead_letter W i ep ''cancelled'' ''cancel requested'') (\<lambda>s. give (Some s))
           else if jb_budget j \<le> jb_spent j
           then andthen (dead_letter W i ep ''needs_review'' ''budget exhausted'') (\<lambda>s. give (Some s))
           else andthen (jw_segment W j ep) (after_segment W i ep j))"

partial_function (option) segment_loop ::
  "'l job_worker \<Rightarrow> string \<Rightarrow> int \<Rightarrow> 'l \<Rightarrow> ((string + string) \<times> 'l) option" where
  "segment_loop W i ep l =
     (case segment_round W i ep l of
        (Inl e, l1) \<Rightarrow> Some (Inl e, l1)
      | (Inr (Some s), l1) \<Rightarrow> Some (Inr s, l1)
      | (Inr None, l1) \<Rightarrow> segment_loop W i ep l1)"

text \<open>What comes before the loop: an outcome, or the epoch to run with.\<close>

definition open_job :: "'l job_worker \<Rightarrow> string \<Rightarrow> ('l, string + int) act" where
  "open_job W i =
     andthen (jw_claim W i) (\<lambda>claimed.
       case claimed of
         None \<Rightarrow> give (Inl ''not_claimable'')
       | Some ep \<Rightarrow>
           andthen (jw_read W i) (\<lambda>row.
             case row of
               None \<Rightarrow> give (Inl ''vanished'')
             | Some j \<Rightarrow>
                 if jb_model j = []
                 then andthen (dead_letter W i ep ''needs_review'' ''job row has no resolved model'') (\<lambda>s. give (Inl s))
                 else if jw_max_attempts W < jb_attempts j
                 then andthen (dead_letter W i ep ''needs_review'' ''max attempts exceeded'') (\<lambda>s. give (Inl s))
                 else if jb_root j = []
                 then andthen (jw_record W i ep [(''root_session_id'', PStr (''job_'' @ i)),
                        (''current_tip_session_id'', PStr (''job_'' @ i))]) (\<lambda>ok. give (if ok then Inr ep else Inl ''fenced''))
                 else give (Inr ep)))"

definition run_one :: "'l job_worker \<Rightarrow> string \<Rightarrow> 'l \<Rightarrow> ((string + string) \<times> 'l) option" where
  "run_one W i l =
     (case open_job W i l of
        (Inl e, l1) \<Rightarrow> Some (Inl e, l1)
      | (Inr (Inl s), l1) \<Rightarrow> Some (Inr s, l1)
      | (Inr (Inr ep), l1) \<Rightarrow> segment_loop W i ep l1)"

text \<open>A pass over the claimable jobs; a run that raises is \<open>crashed\<close> and the pass goes on.\<close>

fun run_jobs :: "'l job_worker \<Rightarrow> string list \<Rightarrow> 'l \<Rightarrow> (string list \<times> 'l) option" where
  "run_jobs W [] l = Some ([], l)"
| "run_jobs W (i # is) l =
     Option.bind (run_one W i l) (\<lambda>(out, l1).
     map_option (\<lambda>(outs, l2). ((case out of Inl e \<Rightarrow> ''crashed'' | Inr s \<Rightarrow> s) # outs, l2)) (run_jobs W is l1))"

definition sweep_jobs :: "'l job_worker \<Rightarrow> 'l \<Rightarrow> ((string + string list) \<times> 'l) option" where
  "sweep_jobs W l =
     (case jw_claimable W l of
        (Inl e, l1) \<Rightarrow> Some (Inl e, l1)
      | (Inr is, l1) \<Rightarrow> map_option (\<lambda>(outs, l2). (Inr outs, l2)) (run_jobs W is l1))"

section \<open>One segment\<close>

text \<open>A history that ends in tool calls is completed with a result for each of them.\<close>

definition interrupted_results :: "string \<Rightarrow> pyval list \<Rightarrow> pydict list" where
  "interrupted_results marker calls =
     List.map_filter (\<lambda>tc. case tc of
         PDict d \<Rightarrow> if truthy (dget d ''id'')
           then Some [(''role'', PStr ''tool''), (''tool_call_id'', dget d ''id''), (''content'', PStr marker)] else None
       | _ \<Rightarrow> None) calls"

definition repair_trailing_tool_call :: "string \<Rightarrow> pydict list \<Rightarrow> pydict list" where
  "repair_trailing_tool_call marker h =
     (if h = [] then h
      else if dget (last h) ''role'' \<noteq> PStr ''assistant'' then h
      else (case dget (last h) ''tool_calls'' of PList calls \<Rightarrow> h @ interrupted_results marker calls | _ \<Rightarrow> h))"

record agent_result =
  ar_completed :: bool
  ar_final :: "string option"
  ar_session :: string
  ar_cost :: int

record 'e job_seat =
  st_taint :: taint
  st_costs :: Sticky_Stop.world
  st_env :: 'e

record 'e segment_adapter =
  sa_history :: "string \<Rightarrow> ('e job_seat, pydict list) act"
  sa_preflight :: "string \<Rightarrow> pydict list \<Rightarrow> int"
  sa_build :: "string \<Rightarrow> string \<Rightarrow> ('e job_seat, unit) act"
  sa_agent :: "job \<Rightarrow> string \<Rightarrow> int \<Rightarrow> string \<Rightarrow> pydict list option \<Rightarrow> ('e job_seat, agent_result) act"
  sa_breaker :: "breaker option"
  sa_now :: int
  sa_marker :: string

definition TRUST_CLASS_UNKNOWN_EXTERNAL :: string where
  "TRUST_CLASS_UNKNOWN_EXTERNAL = ''unknown_external''"

definition tip_of :: "job \<Rightarrow> string" where
  "tip_of j = (if jb_tip j \<noteq> [] then jb_tip j else if jb_root j \<noteq> [] then jb_root j else ''job_'' @ jb_id j)"

definition CONTINUE :: string where
  "CONTINUE = ''Continue the task. Pick up exactly where you left off; do not repeat completed steps.''"

text \<open>The breaker refuses at a hard stop only; any other fault of it lets the segment run.\<close>

definition breaker_refuses :: "'e segment_adapter \<Rightarrow> 'e job_seat \<Rightarrow> bool" where
  "breaker_refuses A s =
     (case sa_breaker A of
        None \<Rightarrow> False
      | Some b \<Rightarrow> (case breaker_assert_allowed b (sa_now A) (st_costs s) of Inl (Sticky_Stop_Error _) \<Rightarrow> True | _ \<Rightarrow> False))"

definition charge_breaker :: "'e segment_adapter \<Rightarrow> int \<Rightarrow> 'e job_seat \<Rightarrow> 'e job_seat" where
  "charge_breaker A spent s =
     (case sa_breaker A of
        None \<Rightarrow> s
      | Some b \<Rightarrow> if 0 < spent then s\<lparr>st_costs := snd (breaker_record b (sa_now A) (Cost spent) (st_costs s))\<rparr> else s)"

definition run_agent :: "'e segment_adapter \<Rightarrow> job \<Rightarrow> int \<Rightarrow> pydict list \<Rightarrow> ('e job_seat, segment_outcome) act" where
  "run_agent A j ep h s =
     (case sa_agent A j (tip_of j) ep (if h = [] then jb_brief j else CONTINUE) (if h = [] then None else Some h) s of
        (Inl e, s1) \<Rightarrow> (Inr (no_segment\<lparr>sg_error := Some (''segment error: '' @ e)\<rparr>), s1)
      | (Inr r, s1) \<Rightarrow>
          let spent = max 0 (ar_cost r)
          in (Inr (no_segment\<lparr>sg_completed := ar_completed r, sg_spent_delta := spent,
                 sg_tip := (if ar_session r = [] then tip_of j else ar_session r),
                 sg_result := (if ar_completed r then ar_final r else None)\<rparr>), charge_breaker A spent s1))"

definition run_segment :: "'e segment_adapter \<Rightarrow> job \<Rightarrow> int \<Rightarrow> ('e job_seat, segment_outcome) act" where
  "run_segment A j ep s =
     (let tip = tip_of j;
          s1 = s\<lparr>st_taint := mark max_sessions tip TRUST_CLASS_UNKNOWN_EXTERNAL (st_taint s)\<rparr>
      in andthen (sa_history A tip) (\<lambda>h s2.
           let h' = repair_trailing_tool_call (sa_marker A) h
           in if breaker_refuses A s2 then (Inr (no_segment\<lparr>sg_cost_capped := True\<rparr>), s2)
              else if jb_budget j - jb_spent j < sa_preflight A (jb_model j) h'
              then (Inr (no_segment\<lparr>sg_refused_budget := True\<rparr>), s2)
              else andthen (sa_build A (jb_model j) tip) (\<lambda>_. run_agent A j ep h') s2) s1)"

section \<open>The binding\<close>

text \<open>A check that raises is not ready.\<close>

fun readiness_ok :: "(string + bool) list \<Rightarrow> bool" where
  "readiness_ok [] = True"
| "readiness_ok (Inl e # cs) = False"
| "readiness_ok (Inr b # cs) = (b \<and> readiness_ok cs)"

text \<open>An outage is an error once, at its second missed sweep.\<close>

definition unreachable_is_error :: "nat \<Rightarrow> bool" where
  "unreachable_is_error n \<longleftrightarrow> n = 2"

datatype sweep_report = Swept | Unreachable | Sweep_Crashed

definition next_unreachable :: "nat \<Rightarrow> sweep_report \<Rightarrow> nat" where
  "next_unreachable n r = (case r of Unreachable \<Rightarrow> Suc n | _ \<Rightarrow> 0)"

fun outage_errors :: "nat \<Rightarrow> sweep_report list \<Rightarrow> nat" where
  "outage_errors n [] = 0"
| "outage_errors n (r # rs) =
     (if r = Unreachable \<and> unreachable_is_error (next_unreachable n r) then 1 else 0) + outage_errors (next_unreachable n r) rs"

text \<open>Where the result is kept: the bucket, or the volume when it is not configured or the upload fails.\<close>

definition put_job_result ::
  "(string \<times> string) option \<Rightarrow> (string \<Rightarrow> string \<Rightarrow> string \<Rightarrow> bool) \<Rightarrow> string \<Rightarrow> string \<Rightarrow> string \<Rightarrow> string" where
  "put_job_result cfg upload home i text =
     (let volume = ''file://'' @ home @ ''/job_results/'' @ i @ ''.md''
      in case cfg of
           None \<Rightarrow> volume
         | Some (bucket, slug) \<Rightarrow>
             let k = ''jobs/'' @ slug @ ''/'' @ i @ ''.md''
             in if upload bucket k text then ''r2://'' @ bucket @ ''/'' @ k else volume)"

section \<open>A watched worker\<close>

text \<open>The same worker, with what it does to the world outside written down.\<close>

datatype job_event = Ran job segment_outcome | Kept string | Delivered bool | Wrote pydict bool

definition noting :: "('a \<Rightarrow> job_event list) \<Rightarrow> job_event list \<Rightarrow> ('l, 'a) act \<Rightarrow> ('l \<times> job_event list, 'a) act" where
  "noting f raised m s =
     (case m (fst s) of
        (Inl e, l1) \<Rightarrow> (Inl e, (l1, snd s @ raised))
      | (Inr x, l1) \<Rightarrow> (Inr x, (l1, snd s @ f x)))"

definition watched :: "'l job_worker \<Rightarrow> ('l \<times> job_event list) job_worker" where
  "watched W =
     \<lparr>jw_read = (\<lambda>i. noting (\<lambda>_. []) [] (jw_read W i)), jw_claimable = noting (\<lambda>_. []) [] (jw_claimable W),
      jw_claim = (\<lambda>i. noting (\<lambda>_. []) [] (jw_claim W i)),
      jw_record = (\<lambda>i ep fs. noting (\<lambda>ok. [Wrote fs ok]) [] (jw_record W i ep fs)),
      jw_segment = (\<lambda>j ep. noting (\<lambda>seg. [Ran j seg]) [] (jw_segment W j ep)),
      jw_deliver = (\<lambda>j ref. noting (\<lambda>ok. [Delivered ok]) [Delivered False] (jw_deliver W j ref)),
      jw_put_result = (\<lambda>j text. noting (\<lambda>ref. [Kept ref]) [] (jw_put_result W j text)),
      jw_max_attempts = jw_max_attempts W\<rparr>"

lemma watched_fields [simp]:
  "jw_read (watched W) i = noting (\<lambda>_. []) [] (jw_read W i)"
  "jw_claim (watched W) i = noting (\<lambda>_. []) [] (jw_claim W i)"
  "jw_record (watched W) i ep fs = noting (\<lambda>ok. [Wrote fs ok]) [] (jw_record W i ep fs)"
  "jw_segment (watched W) j ep = noting (\<lambda>seg. [Ran j seg]) [] (jw_segment W j ep)"
  "jw_deliver (watched W) j ref = noting (\<lambda>ok. [Delivered ok]) [Delivered False] (jw_deliver W j ref)"
  "jw_put_result (watched W) j text = noting (\<lambda>ref. [Kept ref]) [] (jw_put_result W j text)"
  "jw_max_attempts (watched W) = jw_max_attempts W"
  by (simp_all add: watched_def)

text \<open>An act only adds to the record: \<open>wrote m P\<close> says what it adds with each result.\<close>

definition adds :: "('l \<times> job_event list, 'a) act \<Rightarrow> (string + 'a \<Rightarrow> job_event list \<Rightarrow> bool) \<Rightarrow> bool" where
  "adds m P \<longleftrightarrow> (\<forall>l evs res l' evs'. m (l, evs) = (res, (l', evs')) \<longrightarrow> (\<exists>new. evs' = evs @ new \<and> P res new))"

lemma addsD: "adds m P \<Longrightarrow> m (l, evs) = (res, (l', evs')) \<Longrightarrow> \<exists>new. evs' = evs @ new \<and> P res new"
  by (simp add: adds_def)

lemma adds_weaken: "adds m P \<Longrightarrow> (\<And>res new. P res new \<Longrightarrow> Q res new) \<Longrightarrow> adds m Q"
  unfolding adds_def by meson

lemma adds_give: "P (Inr x) [] \<Longrightarrow> adds (give x) P"
  by (simp add: adds_def give_def)

lemma adds_noting:
  assumes "\<And>x. P (Inr x) (f x)" "\<And>e. P (Inl e) raised"
  shows "adds (noting f raised m) P"
  unfolding adds_def
proof (intro allI impI)
  fix l evs res l' evs'
  assume a: "noting f raised m (l, evs) = (res, l', evs')"
  obtain r k where m: "m l = (r, k)" by fastforce
  show "\<exists>new. evs' = evs @ new \<and> P res new"
    using a m assms by (cases r) (auto simp: noting_def)
qed

lemma adds_andthen:
  assumes "adds m P" "\<And>x. adds (f x) (Q x)"
    and "\<And>e new. P (Inl e) new \<Longrightarrow> R (Inl e) new"
    and "\<And>x res new more. P (Inr x) new \<Longrightarrow> Q x res more \<Longrightarrow> R res (new @ more)"
  shows "adds (andthen m f) R"
  unfolding adds_def
proof (intro allI impI)
  fix l evs res l' evs'
  assume a: "andthen m f (l, evs) = (res, l', evs')"
  obtain r l1 evs1 where m: "m (l, evs) = (r, (l1, evs1))" by (metis surj_pair)
  obtain new where new: "evs1 = evs @ new" "P r new" using addsD [OF assms(1) m] by blast
  show "\<exists>new. evs' = evs @ new \<and> R res new"
  proof (cases r)
    case (Inl e)
    then show ?thesis using a m new assms(3) by (auto simp: andthen_def)
  next
    case (Inr x)
    then have "f x (l1, evs1) = (res, l', evs')" using a m by (simp add: andthen_def)
    then obtain more where "evs' = evs1 @ more" "Q x res more" using addsD [OF assms(2)] by blast
    then show ?thesis using new Inr assms(4) by auto
  qed
qed

section \<open>What a run adds\<close>

definition deliveries :: "job_event list \<Rightarrow> nat" where
  "deliveries evs = length (filter (\<lambda>e. case e of Delivered b \<Rightarrow> True | _ \<Rightarrow> False) evs)"

definition within_budget :: "job_event list \<Rightarrow> bool" where
  "within_budget evs \<longleftrightarrow> list_all (\<lambda>e. case e of Ran j seg \<Rightarrow> jb_spent j < jb_budget j \<and> \<not> jb_cancel j | _ \<Rightarrow> True) evs"

text \<open>The last six events of a run that is done.\<close>

definition delivered_tail :: "job_event list \<Rightarrow> bool" where
  "delivered_tail evs \<longleftrightarrow>
     (\<exists>pre ref ok. evs = pre @ [Kept ref, Wrote [(''status'', PStr ''complete''), (''result_ref'', PStr ref)] True,
        Wrote [(''status'', PStr ''delivering'')] True, Delivered True, Wrote [(''status'', PStr ''delivered'')] True,
        Wrote [(''status'', PStr ''done'')] ok])"

definition fenced_last :: "job_event list \<Rightarrow> bool" where
  "fenced_last evs \<longleftrightarrow> (\<exists>pre fs. evs = pre @ [Wrote fs False])"

definition outcome_ok :: "string + string \<Rightarrow> job_event list \<Rightarrow> bool" where
  "outcome_ok res new \<longleftrightarrow>
     within_budget new \<and> deliveries new \<le> 1 \<and> (res = Inr ''done'' \<longrightarrow> delivered_tail new) \<and> (res = Inr ''fenced'' \<longrightarrow> fenced_last new)"

definition round_ok :: "string + string option \<Rightarrow> job_event list \<Rightarrow> bool" where
  "round_ok res new \<longleftrightarrow>
     (case res of
        Inl e \<Rightarrow> outcome_ok (Inl e) new
      | Inr (Some s) \<Rightarrow> outcome_ok (Inr s) new
      | Inr None \<Rightarrow> within_budget new \<and> deliveries new = 0)"

lemma event_counts [simp]:
  "deliveries [] = 0" "deliveries (xs @ ys) = deliveries xs + deliveries ys" "deliveries (Ran j seg # xs) = deliveries xs"
  "deliveries (Kept r # xs) = deliveries xs" "deliveries (Wrote fs ok # xs) = deliveries xs"
  "deliveries (Delivered b # xs) = Suc (deliveries xs)"
  "within_budget []" "within_budget (xs @ ys) = (within_budget xs \<and> within_budget ys)"
  "within_budget (Ran j seg # xs) = (jb_spent j < jb_budget j \<and> \<not> jb_cancel j \<and> within_budget xs)"
  "within_budget (Kept r # xs) = within_budget xs" "within_budget (Wrote fs ok # xs) = within_budget xs"
  "within_budget (Delivered b # xs) = within_budget xs"
  by (auto simp: deliveries_def within_budget_def)

lemma tails_append: "delivered_tail ys \<Longrightarrow> delivered_tail (xs @ ys)" "fenced_last ys \<Longrightarrow> fenced_last (xs @ ys)"
  unfolding delivered_tail_def fenced_last_def by (metis append_assoc)+

lemma outcome_prepend: "outcome_ok res new \<Longrightarrow> within_budget xs \<Longrightarrow> deliveries xs = 0 \<Longrightarrow> outcome_ok res (xs @ new)"
  using tails_append [of new xs] by (auto simp: outcome_ok_def)

lemma round_prepend: "round_ok res new \<Longrightarrow> within_budget xs \<Longrightarrow> deliveries xs = 0 \<Longrightarrow> round_ok res (xs @ new)"
  using outcome_prepend by (auto simp: round_ok_def split: sum.splits option.splits)

lemma fenced_single [simp]: "fenced_last [Wrote fs False]"
  unfolding fenced_last_def by (intro exI [of _ "[]"] exI [of _ fs]) simp

lemma dead_letter_adds:
  "st \<noteq> ''done'' \<Longrightarrow> st \<noteq> ''fenced'' \<Longrightarrow> adds (dead_letter (watched W) i ep st err) outcome_ok"
  unfolding dead_letter_def watched_fields
  by (rule adds_andthen [OF adds_noting [where P = "\<lambda>res new. within_budget new \<and> deliveries new = 0"]
        adds_give [where P = "\<lambda>res new. res = Inr st \<and> new = []"]])
    (auto simp: outcome_ok_def)

lemma round_none: "round_ok (Inr None) []"
  by (simp add: round_ok_def)

lemma then_some:
  assumes "adds m outcome_ok"
  shows "adds (andthen m (\<lambda>s. give (Some s))) round_ok"
  by (rule adds_andthen [OF assms, where Q = "\<lambda>s res new. res = Inr (Some s) \<and> new = []"])
    (auto simp: round_ok_def intro: adds_give)

lemma write_adds: "adds (noting (\<lambda>ok. [Wrote fs ok]) [] m) (\<lambda>res new. case res of Inl e \<Rightarrow> new = [] | Inr ok \<Rightarrow> new = [Wrote fs ok])"
  by (rule adds_noting) simp_all

lemma keep_adds: "adds (noting (\<lambda>ref. [Kept ref]) [] m) (\<lambda>res new. case res of Inl e \<Rightarrow> new = [] | Inr ref \<Rightarrow> new = [Kept ref])"
  by (rule adds_noting) simp_all

lemma deliver_adds: "adds (try_deliver (watched W) j ref) (\<lambda>res new. \<exists>b. res = Inr b \<and> new = [Delivered b])"
  unfolding adds_def try_deliver_def by (auto simp: noting_def split: prod.splits sum.splits)

lemma finish_adds: "adds (finish_job (watched W) i ep j text) outcome_ok"
  unfolding adds_def
proof (intro allI impI)
  fix l evs res l' evs'
  assume a: "finish_job (watched W) i ep j text (l, evs) = (res, l', evs')"
  show "\<exists>new. evs' = evs @ new \<and> outcome_ok res new"
    using a
    by (auto simp: finish_job_def andthen_def noting_def give_def try_deliver_def dead_letter_def outcome_ok_def delivered_tail_def fenced_last_def
      split: prod.splits sum.splits if_splits)
qed

lemma after_segment_costs:
  assumes "\<not> sg_refused_budget seg" "\<not> sg_cost_capped seg" "\<nexists>c e. sg_error seg = Some (c # e)"
  shows "after_segment W i ep j seg =
      andthen (jw_record W i ep ((''spent_cents'', PInt (jb_spent j + max 0 (sg_spent_delta seg))) # (if sg_tip seg = [] then []
          else [(''current_tip_session_id'', PStr (sg_tip seg))]))) (\<lambda>ok.
        if \<not> ok then give (Some ''fenced'')
        else if jb_budget j < jb_spent j + max 0 (sg_spent_delta seg)
        then andthen (dead_letter W i ep ''needs_review'' ''budget exceeded mid-segment'') (\<lambda>s. give (Some s))
        else if sg_completed seg
        then andthen (finish_job W i ep j (case sg_result seg of None \<Rightarrow> [] | Some t \<Rightarrow> t)) (\<lambda>s. give (Some s))
        else give None)"
  using assms by (auto simp: after_segment_def Let_def split: option.split list.split)

lemma never_again: "andthen m (\<lambda>s. give (Some (f s))) l \<noteq> (Inr None, l')"
  by (auto simp: andthen_def give_def split: prod.splits sum.splits)

lemma after_segment_adds: "adds (after_segment (watched W) i ep j seg) round_ok"
proof -
  have err: "adds (andthen (noting (\<lambda>ok. [Wrote fs ok]) [] m) (\<lambda>_. give (Some ''errored''))) round_ok" for fs and m :: "('a, bool) act"
    by (rule adds_andthen [OF write_adds, where Q = "\<lambda>_ res new. res = Inr (Some ''errored'') \<and> new = []"])
      (auto simp: round_ok_def outcome_ok_def intro: adds_give)
  have ok: "adds (andthen (noting (\<lambda>ok. [Wrote fs ok]) [] m) f) round_ok"
    if "\<And>ok. adds (f ok) (\<lambda>res new. if ok then round_ok res new else res = Inr (Some ''fenced'') \<and> new = [])" for fs f and m :: "('a, bool) act"
    by (rule adds_andthen [OF write_adds that])
      (auto simp: round_ok_def outcome_ok_def split: if_splits sum.splits option.splits dest: round_prepend
        intro: tails_append(1) [of _ "[Wrote fs True]", simplified] tails_append(2) [of _ "[Wrote fs True]", simplified])
  show ?thesis
  proof (cases "sg_refused_budget seg \<or> sg_cost_capped seg")
    case True
    then show ?thesis by (auto simp: after_segment_def intro!: then_some dead_letter_adds)
  next
    case False
    show ?thesis
    proof (cases "\<exists>c e. sg_error seg = Some (c # e)")
      case True
      then show ?thesis using False err by (auto simp: after_segment_def)
    next
      case no: False
      have parts: "\<not> sg_refused_budget seg" "\<not> sg_cost_capped seg" using False by simp_all
      let ?spent = "jb_spent j + max 0 (sg_spent_delta seg)"
      note eq = after_segment_costs [of seg "watched W" i ep j, unfolded watched_fields]
      show ?thesis
        unfolding eq [OF parts(1,2) no]
      proof (rule ok)
        fix w
        show "adds (if \<not> w then give (Some ''fenced'')
            else if jb_budget j < ?spent
            then andthen (dead_letter (watched W) i ep ''needs_review'' ''budget exceeded mid-segment'') (\<lambda>s. give (Some s))
            else if sg_completed seg
            then andthen (finish_job (watched W) i ep j (case sg_result seg of None \<Rightarrow> [] | Some t \<Rightarrow> t)) (\<lambda>s. give (Some s))
            else give None) (\<lambda>res new. if w then round_ok res new else res = Inr (Some ''fenced'') \<and> new = [])"
          by (cases w) (auto intro!: then_some dead_letter_adds finish_adds adds_give simp: round_none)
      qed
    qed
  qed
qed

lemma round_cons: "round_ok res new \<Longrightarrow> jb_spent j < jb_budget j \<Longrightarrow> \<not> jb_cancel j \<Longrightarrow> round_ok res (Ran j x # new)"
  using round_prepend [of res new "[Ran j x]"] by simp

lemma round_error: "round_ok (Inl e) []"
  by (simp add: round_ok_def outcome_ok_def)

lemma round_adds: "adds (segment_round (watched W) i ep) round_ok"
proof -
  have read: "adds (andthen (noting (\<lambda>_. []) [] m) f) round_ok"
    if "\<And>x. adds (f x) round_ok" for m :: "('a, 'b) act" and f
    by (rule adds_andthen [OF adds_noting [where P = "\<lambda>res new. new = []"] that]) (auto simp: round_ok_def outcome_ok_def)
  have ran: "adds (andthen (noting (\<lambda>seg. [Ran j seg]) [] m) f) round_ok"
    if "\<And>x. adds (f x) round_ok" "jb_spent j < jb_budget j" "\<not> jb_cancel j" for m :: "('a, segment_outcome) act" and f j
    by (rule adds_andthen [OF adds_noting [where P = "\<lambda>res new. case res of Inl e \<Rightarrow> new = [] | Inr seg \<Rightarrow> new = [Ran j seg]"] that(1)])
      (use that(2,3) round_cons in \<open>auto simp: round_error split: sum.splits\<close>)
  have vanished: "adds (give (Some ''vanished'') :: ('a \<times> job_event list, string option) act) round_ok"
    by (rule adds_give) (simp add: round_ok_def outcome_ok_def)
  show ?thesis
    unfolding segment_round_def watched_fields
    by (rule read) (auto intro!: vanished then_some dead_letter_adds ran after_segment_adds split: option.split)
qed

lemma loop_adds_gen:
  assumes "segment_loop V i ep s = Some out"
  shows "V = watched W \<longrightarrow> (\<exists>new. snd (snd out) = snd s @ new \<and> outcome_ok (fst out) new)"
  using assms
proof (induction V i ep s out rule: segment_loop.raw_induct [rotated, consumes 1, case_names step])
  case (step loop V i ep s out)
  show ?case
  proof
    assume V: "V = watched W"
    obtain r s1 where r: "segment_round V i ep s = (r, s1)" by (rule prod.exhaust)
    obtain l evs where s: "s = (l, evs)" by (rule prod.exhaust)
    obtain l1 evs1 where s1: "s1 = (l1, evs1)" by (rule prod.exhaust)
    have "segment_round (watched W) i ep (l, evs) = (r, (l1, evs1))" using r V s s1 by simp
    from addsD [OF round_adds this] obtain new where new: "evs1 = evs @ new" "round_ok r new" by (elim exE conjE)
    show "\<exists>new. snd (snd out) = snd s @ new \<and> outcome_ok (fst out) new"
    proof (cases r)
      case (Inl e)
      then show ?thesis using step(2) r new s s1 by (auto simp: round_ok_def)
    next
      case (Inr x)
      show ?thesis
      proof (cases x)
        case None
        then have "loop V i ep s1 = Some out" using step(2) r Inr by simp
        from step(1) [OF this] V obtain more where "snd (snd out) = snd s1 @ more" "outcome_ok (fst out) more" by auto
        then show ?thesis using new Inr None s s1 outcome_prepend [of "fst out" more new] by (auto simp: round_ok_def)
      next
        case (Some st)
        then show ?thesis using step(2) r new Inr s s1 by (auto simp: round_ok_def)
      qed
    qed
  qed
qed

lemma loop_adds:
  "segment_loop (watched W) i ep (l, evs) = Some (res, (l', evs')) \<Longrightarrow> \<exists>new. evs' = evs @ new \<and> outcome_ok res new"
  using loop_adds_gen [of "watched W" i ep "(l, evs)" "(res, (l', evs'))" W] by simp

definition opened_ok :: "string + (string + int) \<Rightarrow> job_event list \<Rightarrow> bool" where
  "opened_ok res new \<longleftrightarrow>
     (case res of
        Inl e \<Rightarrow> outcome_ok (Inl e) new
      | Inr (Inl s) \<Rightarrow> outcome_ok (Inr s) new
      | Inr (Inr ep) \<Rightarrow> within_budget new \<and> deliveries new = 0)"

lemma silent_adds: "(\<And>x. adds (f x) R) \<Longrightarrow> (\<And>e. R (Inl e) []) \<Longrightarrow> adds (andthen (noting (\<lambda>_. []) [] m) f) R"
  by (rule adds_andthen [OF adds_noting [where P = "\<lambda>res new. new = []"], where Q = "\<lambda>_. R"]) simp_all

lemma open_adds: "adds (open_job (watched W) i) opened_ok"
proof -
  have dead: "adds (andthen (dead_letter (watched W) i ep ''needs_review'' err) (\<lambda>s. give (Inl s))) opened_ok" for ep err
    by (rule adds_andthen [OF dead_letter_adds, where Q = "\<lambda>s res new. res = Inr (Inl s) \<and> new = []"])
      (auto simp: opened_ok_def intro: adds_give)
  have root: "adds (andthen (noting (\<lambda>ok. [Wrote fs ok]) [] m) (\<lambda>ok. give (if ok then Inr ep else Inl ''fenced''))) opened_ok"
    for fs ep and m :: "('a, bool) act"
    by (rule adds_andthen [OF write_adds, where Q = "\<lambda>ok res new. res = Inr (if ok then Inr ep else Inl ''fenced'') \<and> new = []"])
      (auto simp: opened_ok_def outcome_ok_def intro!: adds_give split: if_splits sum.splits)
  have e: "opened_ok (Inl e) []" for e by (simp add: opened_ok_def outcome_ok_def)
  have g: "adds (give (Inl s) :: ('a \<times> job_event list, string + int) act) opened_ok" if "s \<noteq> ''done''" "s \<noteq> ''fenced''" for s
    using that by (intro adds_give) (simp add: opened_ok_def outcome_ok_def)
  have r: "adds (give (Inr ep) :: ('a \<times> job_event list, string + int) act) opened_ok" for ep
    by (intro adds_give) (simp add: opened_ok_def)
  show ?thesis
    unfolding open_job_def watched_fields
    by (intro silent_adds e) (auto intro!: silent_adds e g r dead root split: option.split)
qed

lemma run_adds:
  assumes "run_one (watched W) i (l, evs) = Some (res, (l', evs'))"
  shows "\<exists>new. evs' = evs @ new \<and> outcome_ok res new"
proof -
  obtain r l1 evs1 where o: "open_job (watched W) i (l, evs) = (r, (l1, evs1))" by (metis surj_pair)
  obtain new where new: "evs1 = evs @ new" and P: "opened_ok r new"
    using addsD [OF open_adds o] by blast
  show ?thesis
  proof (cases "\<exists>ep. r = Inr (Inr ep)")
    case True
    then obtain ep where ep: "r = Inr (Inr ep)" by blast
    then have "segment_loop (watched W) i ep (l1, evs1) = Some (res, (l', evs'))" using assms o by (simp add: run_one_def)
    from loop_adds [OF this] obtain more where "evs' = evs1 @ more" "outcome_ok res more" by blast
    then show ?thesis using new P ep outcome_prepend [of res more new] by (auto simp: opened_ok_def)
  next
    case False
    then show ?thesis using assms o new P by (auto simp: run_one_def opened_ok_def split: sum.splits)
  qed
qed

section \<open>The loop ends\<close>

text \<open>A ledger that reads back what was recorded, and segments that cost at least a cent when they neither end nor
  refuse: \<open>S\<close> is the spending the ledger holds.\<close>

definition honest_ledger :: "'l job_worker \<Rightarrow> string \<Rightarrow> int \<Rightarrow> int \<Rightarrow> ('l \<Rightarrow> int) \<Rightarrow> bool" where
  "honest_ledger W i ep B S \<longleftrightarrow>
     (\<forall>l j l1. jw_read W i l = (Inr (Some j), l1) \<longrightarrow> jb_spent j = S l1 \<and> jb_budget j = B \<and> S l1 = S l) \<and>
     (\<forall>n fs l l1. jw_record W i ep ((''spent_cents'', PInt n) # fs) l = (Inr True, l1) \<longrightarrow> S l1 = n)"

definition segments_cost :: "'l job_worker \<Rightarrow> int \<Rightarrow> bool" where
  "segments_cost W ep \<longleftrightarrow>
     (\<forall>j l seg l1. jw_segment W j ep l = (Inr seg, l1) \<longrightarrow> \<not> sg_completed seg \<longrightarrow> 1 \<le> sg_spent_delta seg)"

lemma after_segment_again:
  assumes "after_segment W i ep j seg l = (Inr None, l')"
  shows "\<not> sg_completed seg \<and> (\<exists>fs. jw_record W i ep ((''spent_cents'', PInt (jb_spent j + max 0 (sg_spent_delta seg))) # fs) l =
      (Inr True, l')) \<and> jb_spent j + max 0 (sg_spent_delta seg) \<le> jb_budget j"
proof -
  have "\<not> sg_refused_budget seg" using assms by (auto simp: after_segment_def never_again)
  moreover from this have "\<not> sg_cost_capped seg" using assms by (auto simp: after_segment_def never_again)
  moreover have "sg_error seg \<noteq> Some (c # e)" for c e
    using assms calculation by (auto simp: after_segment_def never_again [where f = "\<lambda>_. ''errored''"])
  ultimately show ?thesis
    using assms by (cases "jw_record W i ep ((''spent_cents'', PInt (jb_spent j + max 0 (sg_spent_delta seg))) # (if sg_tip seg = [] then []
        else [(''current_tip_session_id'', PStr (sg_tip seg))])) l")
      (auto simp: after_segment_costs andthen_def [of "jw_record W i ep _"] never_again give_def
        split: sum.splits if_splits)
qed

lemma round_again:
  assumes "segment_round W i ep l = (Inr None, l')" "honest_ledger W i ep B S" "segments_cost W ep"
  shows "S l < S l' \<and> S l' \<le> B"
proof -
  obtain j l1 where read: "jw_read W i l = (Inr (Some j), l1)"
    and run: "andthen (jw_segment W j ep) (after_segment W i ep j) l1 = (Inr None, l')"
    using assms(1) by (auto simp: segment_round_def andthen_def give_def split: prod.splits sum.splits option.splits if_splits)
  obtain seg l2 where seg: "jw_segment W j ep l1 = (Inr seg, l2)" and after: "after_segment W i ep j seg l2 = (Inr None, l')"
    using run by (auto simp: andthen_def split: prod.splits sum.splits)
  from after_segment_again [OF after] obtain fs where again: "\<not> sg_completed seg"
    "jw_record W i ep ((''spent_cents'', PInt (jb_spent j + max 0 (sg_spent_delta seg))) # fs) l2 = (Inr True, l')"
    "jb_spent j + max 0 (sg_spent_delta seg) \<le> jb_budget j" by (elim conjE exE)
  have "S l' = jb_spent j + max 0 (sg_spent_delta seg)" using again(2) assms(2) by (simp add: honest_ledger_def)
  moreover have "jb_spent j = S l" "jb_budget j = B" using read assms(2) by (auto simp: honest_ledger_def)
  moreover have "1 \<le> sg_spent_delta seg" using assms(3) [unfolded segments_cost_def, rule_format, OF seg again(1)] .
  ultimately show ?thesis using again(3) by simp
qed

lemma loop_returns:
  assumes "honest_ledger W i ep B S" "segments_cost W ep" "nat (B - S l) < n"
  shows "\<exists>out. segment_loop W i ep l = Some out"
  using assms(3)
proof (induction n arbitrary: l)
  case 0
  then show ?case by simp
next
  case (Suc n)
  obtain r l1 where r: "segment_round W i ep l = (r, l1)" by (rule prod.exhaust)
  show ?case
  proof (cases "r = Inr None")
    case True
    then have "S l < S l1 \<and> S l1 \<le> B" using round_again [OF _ assms(1,2)] r by simp
    then have "nat (B - S l1) < n" using Suc.prems by linarith
    then show ?thesis using Suc.IH [of l1] r True by (simp add: segment_loop.simps)
  next
    case False
    then show ?thesis using r by (auto simp: segment_loop.simps [of W i ep l] split: sum.splits option.splits)
  qed
qed

lemma loop_never_gen:
  assumes "segment_loop V i ep l = Some out"
  shows "(\<forall>l. I l \<longrightarrow> (\<exists>l'. segment_round V i ep l = (Inr None, l') \<and> I l')) \<longrightarrow> \<not> I l"
  using assms
proof (induction V i ep l out rule: segment_loop.raw_induct [rotated, consumes 1, case_names step])
  case (step loop V i ep l out)
  show ?case
  proof (intro impI notI)
    assume again: "\<forall>l. I l \<longrightarrow> (\<exists>l'. segment_round V i ep l = (Inr None, l') \<and> I l')" and "I l"
    then obtain l' where l': "segment_round V i ep l = (Inr None, l')" "I l'" by auto
    then have "loop V i ep l' = Some out" using step(2) by simp
    from step(1) [OF this] again l'(2) show False by simp
  qed
qed

lemma loop_never:
  assumes "\<And>l. I l \<Longrightarrow> \<exists>l'. segment_round W i ep l = (Inr None, l') \<and> I l'" "I l"
  shows "segment_loop W i ep l = None"
proof (cases "segment_loop W i ep l")
  case (Some out)
  have "\<forall>l. I l \<longrightarrow> (\<exists>l'. segment_round W i ep l = (Inr None, l') \<and> I l')" using assms(1) by simp
  then show ?thesis using loop_never_gen [OF Some, of I] assms(2) by simp
qed simp

section \<open>The session the agent runs in\<close>

lemma tip_nonempty [simp]: "tip_of j \<noteq> []"
  by (simp add: tip_of_def)

lemma unknown_rank: "known_rank TRUST_CLASS_UNKNOWN_EXTERNAL = 2"
  by (simp add: known_rank_def trust_rank_def TRUST_CLASS_UNKNOWN_EXTERNAL_def)

lemma rank_bound: "known_rank tc \<le> 2"
  by (auto simp: known_rank_def trust_rank_def split: option.splits if_splits)

lemma marked_is_tainted:
  assumes "s \<noteq> []"
  shows "is_tainted (mark max_sessions s TRUST_CLASS_UNKNOWN_EXTERNAL reg) s"
proof -
  have cap: "0 < max_sessions" by (simp add: max_sessions_def)
  have tr: "trust_rank TRUST_CLASS_UNKNOWN_EXTERNAL = Some 2" by (simp add: trust_rank_def TRUST_CLASS_UNKNOWN_EXTERNAL_def)
  show ?thesis
    using mark_cases [OF assms, of max_sessions TRUST_CLASS_UNKNOWN_EXTERNAL reg]
  proof (elim disjE exE conjE)
    assume "known_rank TRUST_CLASS_UNKNOWN_EXTERNAL = 0"
    then show ?thesis by (simp add: unknown_rank)
  qed (use assms unknown_rank in \<open>auto simp: is_tainted_def trust_class_def od.get_put_same [OF cap]\<close>)
qed

definition only_tainted ::
  "(job \<Rightarrow> string \<Rightarrow> int \<Rightarrow> string \<Rightarrow> pydict list option \<Rightarrow> ('e job_seat, agent_result) act) \<Rightarrow>
   job \<Rightarrow> string \<Rightarrow> int \<Rightarrow> string \<Rightarrow> pydict list option \<Rightarrow> ('e job_seat, agent_result) act" where
  "only_tainted agent j tip ep msg h s = (if is_tainted (st_taint s) tip then agent j tip ep msg h s else (Inl ''clean session'', s))"

definition quiet :: "('s \<Rightarrow> 'x) \<Rightarrow> ('s, 'a) act \<Rightarrow> bool" where
  "quiet part m \<longleftrightarrow> (\<forall>s. part (snd (m s)) = part s)"

lemma quietD: "quiet part m \<Longrightarrow> m s = (r, s') \<Longrightarrow> part s' = part s"
  by (metis quiet_def snd_conv)

lemma charge_same [simp]: "charge_breaker (A\<lparr>sa_agent := x\<rparr>) = charge_breaker A"
  by (simp add: charge_breaker_def fun_eq_iff split: option.split)

lemma breaker_same [simp]: "breaker_refuses (A\<lparr>sa_agent := x\<rparr>) = breaker_refuses A"
  by (simp add: breaker_refuses_def fun_eq_iff split: option.split)

lemma run_agent_tainted:
  "is_tainted (st_taint s) (tip_of j) \<Longrightarrow> run_agent (A\<lparr>sa_agent := only_tainted (sa_agent A)\<rparr>) j ep h s = run_agent A j ep h s"
  by (simp add: run_agent_def only_tainted_def Let_def split: prod.split sum.split)

lemma segment_taint:
  assumes "\<And>t. quiet st_taint (sa_history A t)" "\<And>m t. quiet st_taint (sa_build A m t)"
  shows "run_segment (A\<lparr>sa_agent := only_tainted (sa_agent A)\<rparr>) j ep s = run_segment A j ep s"
proof -
  let ?t = "tip_of j"
  define s1 where "s1 = s\<lparr>st_taint := mark max_sessions ?t TRUST_CLASS_UNKNOWN_EXTERNAL (st_taint s)\<rparr>"
  have m: "is_tainted (st_taint s1) ?t" by (simp add: s1_def marked_is_tainted)
  obtain r s2 where h: "sa_history A ?t s1 = (r, s2)" by (rule prod.exhaust)
  obtain b s3 where bd: "sa_build A (jb_model j) ?t s2 = (b, s3)" by (rule prod.exhaust)
  have "is_tainted (st_taint s3) ?t" using m quietD [OF assms(1) h] quietD [OF assms(2) bd] by simp
  then show ?thesis
    using h bd by (cases r; cases b)
      (simp_all add: run_segment_def s1_def [symmetric] andthen_def run_agent_tainted Let_def)
qed

lemma stopped_segment:
  assumes "sa_breaker A = Some b" "level_at ledger_ports (b_customer b) (b_persona b) (st_costs s) = HARD_STOP"
    and "\<And>t. quiet st_costs (sa_history A t)"
    and "sa_history A (tip_of j) (s\<lparr>st_taint := mark max_sessions (tip_of j) TRUST_CLASS_UNKNOWN_EXTERNAL (st_taint s)\<rparr>) = (Inr h, s2)"
  shows "run_segment A j ep s = (Inr (no_segment\<lparr>sg_cost_capped := True\<rparr>), s2)"
proof -
  have "st_costs s2 = st_costs s" using quietD [OF assms(3,4)] by simp
  then obtain x where "assert_allowed ledger_ports (sa_now A) (b_customer b) (b_persona b) (st_costs s2) = Inl (Sticky_Stop_Error x)"
    using led.assert_allowed_stopped [of "b_customer b" "b_persona b" "st_costs s2" "sa_now A"] assms(2) by auto
  then have "breaker_refuses A s2" by (simp add: breaker_refuses_def breaker_assert_allowed_def assms(1))
  then show ?thesis using assms(4) by (simp add: run_segment_def andthen_def Let_def)
qed

section \<open>A history is repaired once\<close>

lemma tool_rows: "x \<in> set (interrupted_results marker calls) \<Longrightarrow> dget x ''role'' = PStr ''tool''"
  by (auto simp: interrupted_results_def List.map_filter_def dget_def split: pyval.splits if_splits)

lemma repair_twice: "repair_trailing_tool_call m' (repair_trailing_tool_call m h) = repair_trailing_tool_call m h"
proof -
  have app: "repair_trailing_tool_call m' (h @ interrupted_results m calls) = h @ interrupted_results m calls"
    if "interrupted_results m calls \<noteq> []" for calls
  proof -
    have "last (h @ interrupted_results m calls) \<in> set (interrupted_results m calls)" using that by simp
    from tool_rows [OF this] show ?thesis by (simp add: repair_trailing_tool_call_def)
  qed
  have none: "interrupted_results m calls = [] \<longleftrightarrow> interrupted_results m' calls = []" for calls
    by (simp add: interrupted_results_def List.map_filter_def filter_empty_conv split: pyval.split)
  show ?thesis
  proof (cases "\<exists>calls. h \<noteq> [] \<and> dget (last h) ''role'' = PStr ''assistant'' \<and> dget (last h) ''tool_calls'' = PList calls")
    case True
    then obtain calls where c: "h \<noteq> []" "dget (last h) ''role'' = PStr ''assistant''" "dget (last h) ''tool_calls'' = PList calls" by auto
    then show ?thesis using app [of calls] none [of calls]
      by (cases "interrupted_results m calls = []") (simp_all add: repair_trailing_tool_call_def)
  next
    case False
    then have "repair_trailing_tool_call k h = h" for k by (auto simp: repair_trailing_tool_call_def split: pyval.split)
    then show ?thesis by simp
  qed
qed

lemma outage_swept: "r \<noteq> Unreachable \<Longrightarrow> outage_errors n (r # rs) = outage_errors 0 rs"
  by (cases r) (simp_all add: next_unreachable_def)

lemma outage_run: "outage_errors n (replicate k Unreachable @ rs) = (if n < 2 \<and> 2 \<le> n + k then 1 else 0) + outage_errors (n + k) rs"
  by (induction k arbitrary: n) (auto simp: next_unreachable_def unreachable_is_error_def)

section \<open>Watching changes nothing\<close>

definition shadows :: "('l \<times> job_event list, 'a) act \<Rightarrow> ('l, 'a) act \<Rightarrow> bool" where
  "shadows m m' \<longleftrightarrow> (\<forall>s. m' (fst s) = (fst (m s), fst (snd (m s))))"

lemma shadowsD: "shadows m m' \<Longrightarrow> m s = (r, s1) \<Longrightarrow> m' (fst s) = (r, fst s1)"
  by (simp add: shadows_def del: split_paired_All)

named_theorems shadow_rules

lemma shadow_noting [shadow_rules]: "shadows (noting f raised m) m"
  by (auto simp: shadows_def noting_def split: prod.split sum.split)

lemma shadow_give [shadow_rules]: "shadows (give x) (give x)"
  by (simp add: shadows_def give_def)

lemma shadow_andthen [shadow_rules]:
  assumes "shadows m m'" "\<And>x. shadows (f x) (f' x)"
  shows "shadows (andthen m f) (andthen m' f')"
  unfolding shadows_def
proof
  fix s
  obtain r s1 where m: "m s = (r, s1)" by (rule prod.exhaust)
  then have m': "m' (fst s) = (r, fst s1)" by (rule shadowsD [OF assms(1)])
  show "andthen m' f' (fst s) = (fst (andthen m f s), fst (snd (andthen m f s)))"
  proof (cases r)
    case (Inr x)
    then show ?thesis
      using m m' shadowsD [OF assms(2) [of x], of s1 "fst (f x s1)" "snd (f x s1)"] by (simp add: andthen_def)
  qed (use m m' in \<open>simp add: andthen_def\<close>)
qed

lemma shadow_if [shadow_rules]:
  "(c \<Longrightarrow> shadows m m') \<Longrightarrow> (\<not> c \<Longrightarrow> shadows k k') \<Longrightarrow> shadows (if c then m else k) (if c then m' else k')"
  by simp

lemma shadow_option [shadow_rules]:
  "shadows m m' \<Longrightarrow> (\<And>y. shadows (f y) (f' y)) \<Longrightarrow> shadows (case x of None \<Rightarrow> m | Some y \<Rightarrow> f y) (case x of None \<Rightarrow> m' | Some y \<Rightarrow> f' y)"
  by (simp split: option.split)

lemma shadow_deliver [shadow_rules]: "shadows (try_deliver (watched W) j ref) (try_deliver W j ref)"
  by (auto simp: shadows_def try_deliver_def noting_def split: prod.split sum.split)

lemma shadow_dead [shadow_rules]: "shadows (dead_letter (watched W) i ep st err) (dead_letter W i ep st err)"
  unfolding dead_letter_def watched_fields by (intro shadow_rules)

lemma shadow_finish [shadow_rules]: "shadows (finish_job (watched W) i ep j text) (finish_job W i ep j text)"
  unfolding finish_job_def watched_fields by (intro shadow_rules)

lemma shadow_after [shadow_rules]: "shadows (after_segment (watched W) i ep j seg) (after_segment W i ep j seg)"
  unfolding after_segment_def watched_fields Let_def list.case_distrib [symmetric]
  by (intro shadow_rules) (simp split: list.split, intro conjI impI allI shadow_rules)

lemma shadow_round: "shadows (segment_round (watched W) i ep) (segment_round W i ep)"
  unfolding segment_round_def watched_fields by (intro shadow_rules)

lemma shadow_open: "shadows (open_job (watched W) i) (open_job W i)"
  unfolding open_job_def watched_fields by (intro shadow_rules)

lemma shadow_loop:
  assumes "segment_loop V i ep s = Some out"
  shows "V = watched W \<longrightarrow> segment_loop W i ep (fst s) = Some (fst out, fst (snd out))"
  using assms
proof (induction V i ep s out rule: segment_loop.raw_induct [rotated, consumes 1, case_names step])
  case (step loop V i ep s out)
  show ?case
  proof
    assume V: "V = watched W"
    obtain r s1 where r: "segment_round V i ep s = (r, s1)" by (rule prod.exhaust)
    have k: "segment_round W i ep (fst s) = (r, fst s1)" using shadowsD [OF shadow_round] r V by simp
    show "segment_loop W i ep (fst s) = Some (fst out, fst (snd out))"
    proof (cases "r = Inr None")
      case True
      then have "loop V i ep s1 = Some out" using step(2) r by simp
      from step(1) [OF this] V show ?thesis using k True by (simp add: segment_loop.simps [of W i ep "fst s"])
    next
      case False
      then show ?thesis using step(2) r k
        by (auto simp: segment_loop.simps [of W i ep "fst s"] split: sum.splits option.splits)
    qed
  qed
qed

lemma shadow_run:
  assumes "run_one (watched W) i s = Some (res, s')"
  shows "run_one W i (fst s) = Some (res, fst s')"
proof -
  obtain r s1 where r: "open_job (watched W) i s = (r, s1)" by (rule prod.exhaust)
  have "open_job W i (fst s) = (r, fst s1)" by (rule shadowsD [OF shadow_open r])
  then show ?thesis
    using assms r shadow_loop [of "watched W" i _ s1 "(res, s')" W] by (auto simp: run_one_def split: sum.splits)
qed

section \<open>The properties\<close>

text \<open>The demonstration worker: its world counts the writes and the deliveries and holds the spending; each
  segment costs \<open>cost\<close> cents, the job is completed after \<open>n\<close> cents, and the \<open>bad\<close>th write is lost.\<close>

definition demo_job :: "int \<Rightarrow> job" where
  "demo_job spent =
     \<lparr>jb_id = ''a'', jb_status = ''running'', jb_model = ''m'', jb_attempts = 1, jb_root = ''job_a'', jb_tip = ''job_a'',
      jb_cancel = False, jb_spent = spent, jb_budget = 3, jb_brief = ''sum up''\<rparr>"

definition demo_worker :: "int \<Rightarrow> int \<Rightarrow> nat \<Rightarrow> (nat \<times> nat \<times> int) job_worker" where
  "demo_worker cost n bad =
     \<lparr>jw_read = (\<lambda>i l. (Inr (Some (demo_job (snd (snd l)))), l)), jw_claimable = (\<lambda>l. (Inr [''a''], l)),
      jw_claim = (\<lambda>i l. (Inr (Some 1), l)),
      jw_record = (\<lambda>i ep fs (w, d, sp). (if Suc w = bad then Inl ''broker unreachable'' else Inr True,
        (Suc w, d, (case dget fs ''spent_cents'' of PInt k \<Rightarrow> k | _ \<Rightarrow> sp)))),
      jw_segment = (\<lambda>j ep l. (Inr (no_segment\<lparr>sg_completed := (n \<le> jb_spent j + cost), sg_spent_delta := cost\<rparr>), l)),
      jw_deliver = (\<lambda>j ref (w, d, sp). (Inr True, (w, Suc d, sp))),
      jw_put_result = (\<lambda>j text l. (Inr ''file:///a.md'', l)),
      jw_max_attempts = DEFAULT_MAX_ATTEMPTS\<rparr>"

lemmas demo_defs = demo_worker_def demo_job_def no_segment_def DEFAULT_MAX_ATTEMPTS_def

lemmas run_defs = run_one_def open_job_def segment_loop.simps segment_round_def after_segment_def finish_job_def
  try_deliver_def dead_letter_def andthen_def give_def Let_def noting_def

lemma demo_runs:
  "run_one (watched (demo_worker 1 1 0)) ''a'' ((0, 0, 0), []) =
    Some (Inr ''done'', ((5, 1, 1), [Ran (demo_job 0) (no_segment\<lparr>sg_completed := True, sg_spent_delta := 1\<rparr>),
      Wrote [(''spent_cents'', PInt 1)] True, Kept ''file:///a.md'',
      Wrote [(''status'', PStr ''complete''), (''result_ref'', PStr ''file:///a.md'')] True,
      Wrote [(''status'', PStr ''delivering'')] True, Delivered True, Wrote [(''status'', PStr ''delivered'')] True,
      Wrote [(''status'', PStr ''done'')] True]))"
  by (simp add: run_defs demo_defs dget_def)

lemma demo_crash:
  "run_one (demo_worker 1 1 4) ''a'' (0, 0, 0) = Some (Inl ''broker unreachable'', (4, 1, 1))"
  "run_one (demo_worker 1 1 4) ''a'' (4, 1, 1) = Some (Inr ''done'', (9, 2, 2))"
  by (simp_all add: run_defs demo_defs dget_def)

text \<open>watching a worker changes nothing: a run of the watched worker that returns is the run of the worker,
  with the same outcome and the same world after it.\<close>

theorem watched_run_is_the_run:
  assumes "run_one (watched W) i s = Some (res, s')"
  shows "run_one W i (fst s) = Some (res, fst s')"
  using assms by (rule shadow_run)

lemma watched_run_is_the_run_witness:
  "run_one (demo_worker 1 1 0) ''a'' (0, 0, 0) = Some (Inr ''done'', (5, 1, 1))"
  using watched_run_is_the_run [OF demo_runs] by simp

text \<open>whatever the ledger, the agent and the transports do, a run of a job delivers at most once, and starts a
  segment only on a row that is not cancelled and has spent less than its budget.\<close>

theorem segments_run_within_budget:
  assumes "run_one (watched W) i (l, evs) = Some (res, (l', evs'))"
  shows "\<exists>new. evs' = evs @ new \<and> deliveries new \<le> 1 \<and> within_budget new"
proof -
  from run_adds [OF assms] obtain new where "evs' = evs @ new" "outcome_ok res new" by (elim exE conjE)
  then show ?thesis by (auto simp: outcome_ok_def)
qed

lemma segments_run_within_budget_witness:
  "\<exists>new. snd (snd (the (run_one (watched (demo_worker 1 1 0)) ''a'' ((0, 0, 0), [])))) = [] @ new \<and>
    deliveries new \<le> 1 \<and> within_budget new"
  using segments_run_within_budget [OF demo_runs] by (simp only: demo_runs option.sel snd_conv)

text \<open>C27: \<open>done\<close> means delivered: the result was kept, the row says complete and then delivering before the one
  delivery, the delivery succeeded, and only then does the row say delivered and done.\<close>

theorem done_means_delivered:
  assumes "run_one (watched W) i (l, evs) = Some (Inr ''done'', (l', evs'))"
  shows "delivered_tail evs'"
proof -
  from run_adds [OF assms] obtain new where "evs' = evs @ new" "outcome_ok (Inr ''done'') new" by (elim exE conjE)
  then show ?thesis using tails_append(1) by (auto simp: outcome_ok_def)
qed

lemma done_means_delivered_witness:
  "delivered_tail (snd (snd (the (run_one (watched (demo_worker 1 1 0)) ''a'' ((0, 0, 0), [])))))"
  using done_means_delivered [OF demo_runs] by (simp only: demo_runs option.sel snd_conv)

text \<open>a fenced worker stops: the write another worker's claim refused is the last thing the run does.\<close>

theorem fenced_run_stops:
  assumes "run_one (watched W) i (l, evs) = Some (Inr ''fenced'', (l', evs'))"
  shows "\<exists>pre fs. evs' = pre @ [Wrote fs False]"
proof -
  from run_adds [OF assms] obtain new where "evs' = evs @ new" "outcome_ok (Inr ''fenced'') new" by (elim exE conjE)
  then show ?thesis using tails_append(2) [of new evs] by (simp add: outcome_ok_def fenced_last_def)
qed

definition fenced_worker :: "(nat \<times> nat \<times> int) job_worker" where
  "fenced_worker = (demo_worker 1 2 0)\<lparr>jw_record := (\<lambda>i ep fs l. (Inr False, l))\<rparr>"

lemma fenced_runs:
  "run_one (watched fenced_worker) ''a'' ((0, 0, 0), []) =
    Some (Inr ''fenced'', ((0, 0, 0), [Ran (demo_job 0) (no_segment\<lparr>sg_spent_delta := 1\<rparr>), Wrote [(''spent_cents'', PInt 1)] False]))"
  by (simp add: run_defs demo_defs fenced_worker_def)

lemma fenced_run_stops_witness:
  "\<exists>pre fs. [Ran (demo_job 0) (no_segment\<lparr>sg_spent_delta := 1\<rparr>), Wrote [(''spent_cents'', PInt 1)] False] = pre @ [Wrote fs False]"
  by (rule fenced_run_stops [OF fenced_runs])

text \<open>C30: the loop ends. When the ledger reads back the spending recorded in it and every segment that does not
  complete costs at least a cent, the loop returns, whatever the agent does.\<close>

theorem paid_segments_end:
  assumes "honest_ledger W i ep B S" "segments_cost W ep"
  shows "\<exists>out. segment_loop W i ep l = Some out"
  using loop_returns [OF assms, of l "Suc (nat (B - S l))"] by simp

lemma paid_segments_end_witness:
  "\<exists>out. segment_loop (demo_worker 1 9 0) ''a'' 1 (0, 0, 0) = Some out"
proof (rule paid_segments_end)
  show "honest_ledger (demo_worker 1 9 0) ''a'' 1 3 (\<lambda>l. snd (snd l))"
    by (simp add: honest_ledger_def demo_defs dget_def)
  show "segments_cost (demo_worker 1 9 0) 1"
    by (simp add: segments_cost_def demo_defs)
qed

text \<open>nothing else ends it. While every segment reports no cost and no completion the loop never returns:
  neither the budget nor the number of attempts is met.\<close>

theorem free_segments_never_end:
  assumes "jw_read W i l = (Inr (Some j), l)" "\<not> jb_cancel j" "jb_spent j < jb_budget j"
    and "jw_segment W j ep l = (Inr (no_segment\<lparr>sg_tip := tip\<rparr>), l)"
    and "\<And>fs. jw_record W i ep fs l = (Inr True, l)"
  shows "segment_loop W i ep l = None"
proof (rule loop_never [where I = "\<lambda>l'. l' = l"])
  show "\<exists>l''. segment_round W i ep l' = (Inr None, l'') \<and> l'' = l" if "l' = l" for l'
    using assms by (simp add: that segment_round_def after_segment_def andthen_def give_def no_segment_def Let_def)
qed simp

definition free_worker :: "(nat \<times> nat \<times> int) job_worker" where
  "free_worker = (demo_worker 0 9 0)\<lparr>jw_record := (\<lambda>i ep fs l. (Inr True, l))\<rparr>"

lemma free_segments_never_end_witness: "segment_loop free_worker ''a'' 1 (0, 0, 0) = None"
  by (rule free_segments_never_end [where j = "demo_job 0" and tip = "[]"]) (simp_all add: free_worker_def demo_defs)

text \<open>the agent of a background job never runs in a clean session: an agent that refuses to start unless its
  session is tainted gives the same segment.\<close>

theorem background_agent_runs_tainted:
  assumes "\<And>t. quiet st_taint (sa_history A t)" "\<And>m t. quiet st_taint (sa_build A m t)"
  shows "run_segment (A\<lparr>sa_agent := only_tainted (sa_agent A)\<rparr>) j ep s = run_segment A j ep s"
  using assms by (rule segment_taint)

definition demo_adapter :: "unit segment_adapter" where
  "demo_adapter =
     \<lparr>sa_history = (\<lambda>t s. (Inr [], s)), sa_preflight = (\<lambda>m h. 0), sa_build = (\<lambda>m t s. (Inr (), s)),
      sa_agent = (\<lambda>j t ep msg h s. (Inr \<lparr>ar_completed = True, ar_final = Some ''done'', ar_session = [], ar_cost = 1\<rparr>, s)),
      sa_breaker = Some \<lparr>b_customer = ''acme'', b_persona = ''marcus'', b_thresholds = DEFAULT_THRESHOLDS\<rparr>,
      sa_now = 0, sa_marker = ''interrupted''\<rparr>"

definition stopped_seat :: "unit job_seat" where
  "stopped_seat = \<lparr>st_taint = empty_odict, st_costs = stopped_world, st_env = ()\<rparr>"

lemma demo_quiet: "quiet f (sa_history demo_adapter t)" "quiet f (sa_build demo_adapter m t)"
  by (simp_all add: quiet_def demo_adapter_def)

lemma background_agent_runs_tainted_witness:
  "run_segment (demo_adapter\<lparr>sa_agent := only_tainted (sa_agent demo_adapter)\<rparr>) (demo_job 0) 1 stopped_seat = run_segment demo_adapter (demo_job 0) 1 stopped_seat"
  by (rule background_agent_runs_tainted) (rule demo_quiet)+

text \<open>a machine stopped on its costs runs no background segment: the job whose turn comes is parked for
  review, whatever it has left of its own budget, and the agent does not start.\<close>

theorem hard_stop_parks_the_job:
  assumes "jw_segment W = run_segment A" "jw_read W i s = (Inr (Some j), s)" "\<not> jb_cancel j" "jb_spent j < jb_budget j"
    and "sa_breaker A = Some b" "level_at ledger_ports (b_customer b) (b_persona b) (st_costs s) = HARD_STOP"
    and "\<And>t. quiet st_costs (sa_history A t)" "\<And>t s'. \<exists>h s''. sa_history A t s' = (Inr h, s'')"
    and "\<And>fs s'. \<exists>ok s''. jw_record W i ep fs s' = (Inr ok, s'')"
  shows "\<exists>s'. segment_loop W i ep s = Some (Inr ''needs_review'', s')"
proof -
  let ?s1 = "s\<lparr>st_taint := mark max_sessions (tip_of j) TRUST_CLASS_UNKNOWN_EXTERNAL (st_taint s)\<rparr>"
  obtain h s2 where h: "sa_history A (tip_of j) ?s1 = (Inr h, s2)" using assms(8) [of "tip_of j" ?s1] by (elim exE)
  have seg: "run_segment A j ep s = (Inr (no_segment\<lparr>sg_cost_capped := True\<rparr>), s2)" by (rule stopped_segment [OF assms(5-7) h])
  obtain ok s3 where rec: "jw_record W i ep [(''status'', PStr ''needs_review''),
      (''error'', PStr ''cost breaker hard stop (sticky_stop)'')] s2 = (Inr ok, s3)"
    using assms(9) [of "[(''status'', PStr ''needs_review''), (''error'', PStr ''cost breaker hard stop (sticky_stop)'')]" s2] by (elim exE)
  show ?thesis
    using assms(1-4) seg rec
    by (simp add: segment_loop.simps segment_round_def after_segment_def andthen_def give_def dead_letter_def no_segment_def)
qed

definition seated_worker :: "unit job_seat job_worker" where
  "seated_worker =
     \<lparr>jw_read = (\<lambda>i l. (Inr (Some (demo_job 0)), l)), jw_claimable = (\<lambda>l. (Inr [''a''], l)), jw_claim = (\<lambda>i l. (Inr (Some 1), l)),
      jw_record = (\<lambda>i ep fs l. (Inr True, l)), jw_segment = run_segment demo_adapter, jw_deliver = (\<lambda>j ref l. (Inr True, l)),
      jw_put_result = (\<lambda>j text l. (Inr [], l)), jw_max_attempts = DEFAULT_MAX_ATTEMPTS\<rparr>"

lemma hard_stop_parks_the_job_witness:
  "\<exists>s'. segment_loop seated_worker ''a'' 1 stopped_seat = Some (Inr ''needs_review'', s')"
  by (rule hard_stop_parks_the_job [where A = demo_adapter and j = "demo_job 0"
        and b = "\<lparr>b_customer = ''acme'', b_persona = ''marcus'', b_thresholds = DEFAULT_THRESHOLDS\<rparr>"])
    (auto simp: seated_worker_def demo_adapter_def stopped_seat_def demo_job_def stopped_world_level quiet_def)

text \<open>a worker that dies between the delivery and the write that records it delivers the job again: the row is
  left at delivering, the next claim runs the job from its row without looking at its status.\<close>

theorem crash_after_delivery_delivers_again:
  "sweep_jobs (demo_worker 1 1 4) (0, 0, 0) = Some (Inr [''crashed''], (4, 1, 1)) \<and>
   sweep_jobs (demo_worker 1 1 4) (4, 1, 1) = Some (Inr [''done''], (9, 2, 2))"
proof
  have c: "jw_claimable (demo_worker 1 1 4) l = (Inr [''a''], l)" for l by (simp add: demo_worker_def)
  show "sweep_jobs (demo_worker 1 1 4) (0, 0, 0) = Some (Inr [''crashed''], (4, 1, 1))"
    "sweep_jobs (demo_worker 1 1 4) (4, 1, 1) = Some (Inr [''done''], (9, 2, 2))"
    unfolding sweep_jobs_def c by (simp_all add: demo_crash demo_crash [unfolded One_nat_def])
qed

text \<open>a resumed history is repaired once: repairing it again changes nothing.\<close>

theorem repair_is_idempotent:
  "repair_trailing_tool_call marker (repair_trailing_tool_call marker h) = repair_trailing_tool_call marker h"
  by (rule repair_twice)

text \<open>an outage of the broker is reported as an error once, when it lasts two sweeps or more, however long.\<close>

theorem outage_is_reported_once:
  assumes "r \<noteq> Unreachable"
  shows "outage_errors 0 (replicate k Unreachable @ r # rs) = (if 2 \<le> k then 1 else 0) + outage_errors 0 rs"
  by (simp only: outage_run outage_swept [OF assms]) simp

lemma outage_is_reported_once_witness:
  "outage_errors 0 (replicate 5 Unreachable @ Swept # []) = (if 2 \<le> (5::nat) then 1 else 0) + outage_errors 0 []"
  by (rule outage_is_reported_once) simp
end
