(* ===== verification/Reply_Binding.thy ===== *)
theory Reply_Binding
  imports Matter_Gate
begin

text \<open>
  The job wakes and the verified reply binding: which job's completion wake opened a turn
  (\<open>shared/turn_sources.py\<close>, with the cron session ids of \<open>shared/cron_attribution.py\<close>), the binding of a
  turn no email opened to one earlier email, and the sends a job's wake may not make
  (\<open>plugins/hermes-smd-reply/binding.py\<close>). The broker that resolves a binding is a parameter; \<open>str\<close> of a value
  that is not a string is \<open>rc_str\<close> of the reading environment.
\<close>

section \<open>Wakes\<close>

definition HANDOFF_SENDER :: string where
  "HANDOFF_SENDER = ''webhook:handoff''"

definition JOB_KIND :: "(string \<times> string) list" where
  "JOB_KIND = [(''demand'', ''demand_job''), (''drafting'', ''drafting_job''), (''chronology'', ''medchron_job''),
     (''litigation'', ''litigation_job''), (''negotiation'', ''negotiation_job''), (''note'', ''note_job'')]"

definition JOB_KINDS :: "string list" where
  "JOB_KINDS = map snd JOB_KIND"

definition SCHEDULED_KINDS :: "string list" where
  "SCHEDULED_KINDS = [''litigation_job'', ''negotiation_job'', ''note_job'']"

definition exactly :: "string \<Rightarrow> piece list" where
  "exactly s = map (\<lambda>c. (\<lambda>d. d = c, 1, 1)) s"

definition ulid :: piece where
  "ulid = (in_ranges [(48, 57), (65, 72), (74, 75), (77, 78), (80, 84), (86, 90)], 26, 26)"

text \<open>The texts \<open>WAKE_JOB\<close> finds, and the kind and job the first of them names.\<close>

definition WAKE_JOB :: "piece list list" where
  "WAKE_JOB = map (\<lambda>(w, k). exactly (w @ '' job '') @ [ulid]) JOB_KIND"

definition wake_named :: "string \<Rightarrow> (string \<times> string) option" where
  "wake_named text =
     (case all_matches (shaped WAKE_JOB) text of
        [] \<Rightarrow> None
      | m # _ \<Rightarrow> map_option (\<lambda>k. (k, drop (length m - 26) m)) (map_of JOB_KIND (takeWhile (\<lambda>c. c \<noteq> CHR '' '') m)))"

text \<open>\<open>WAKE_TRIGGER\<close>, a line at a time: the word of the first line that is a trigger.\<close>

definition trigger_word :: "string \<Rightarrow> string option" where
  "trigger_word line =
     find (\<lambda>w. starts_with line (''Trigger: '' @ w) \<and>
         (let rest = drop (length (''Trigger: '' @ w)) line
          in list_all ws (if take 1 rest = ''.'' then drop 1 rest else rest)))
       [''request'', ''scheduled'']"

definition wake_trigger :: "string \<Rightarrow> string option" where
  "wake_trigger text = (case List.map_filter trigger_word (split_on (CHR 0x0A) text) of [] \<Rightarrow> None | w # _ \<Rightarrow> Some w)"

record turn_sources =
  ts_handoff :: "(string \<times> string \<times> string) list"
  ts_scheduled :: "string set"

definition no_sources :: turn_sources where
  "no_sources = \<lparr>ts_handoff = [], ts_scheduled = {}\<rparr>"

definition source_sessions :: nat where
  "source_sessions = 256"

definition note_source :: "nat \<Rightarrow> string \<Rightarrow> pyval \<Rightarrow> pyval \<Rightarrow> turn_sources \<Rightarrow> turn_sources" where
  "note_source cap sid sender msg S =
     (if sid = [] \<or> sender \<noteq> PStr HANDOFF_SENDER then S
      else
        let text = (case msg of PStr t \<Rightarrow> t | _ \<Rightarrow> []);
            job = (case wake_named text of None \<Rightarrow> ([], []) | Some j \<Rightarrow> j);
            scheduled = (fst job \<in> set SCHEDULED_KINDS \<and> wake_trigger text = Some ''scheduled'')
        in if map_of (ts_handoff S) sid \<noteq> None then S
           else
             let all = ts_handoff S @ [(sid, job)];
                 over = length all - cap
             in \<lparr>ts_handoff = drop over all,
                 ts_scheduled = (if scheduled then insert sid (ts_scheduled S) else ts_scheduled S) - set (map fst (take over all))\<rparr>)"

definition scheduled_wake :: "string \<Rightarrow> turn_sources \<Rightarrow> bool" where
  "scheduled_wake sid S \<longleftrightarrow> sid \<in> ts_scheduled S"

text \<open>The id \<open>cron_<job>_<8 digits>_<6 digits>\<close>, with a line feed after it or not.\<close>

definition parse_cron_session :: "string \<Rightarrow> string option" where
  "parse_cron_session s =
     (let t = (if s \<noteq> [] \<and> last s = CHR 0x0A then butlast s else s);
          job = take (length t - 21) (drop 5 t);
          stamp = drop (length t - 16) t
      in if starts_with t ''cron_'' \<and> 21 < length t \<and> CHR 0x0A \<notin> set job \<and> take 1 stamp = ''_'' \<and>
            list_all is_digit (take 8 (drop 1 stamp)) \<and> take 1 (drop 9 stamp) = ''_'' \<and> list_all is_digit (drop 10 stamp)
         then Some job else None)"

datatype turn_source = Handoff string | Cron

definition source :: "string \<Rightarrow> turn_sources \<Rightarrow> turn_source option" where
  "source sid S =
     (case map_of (ts_handoff S) sid of
        Some (k, j) \<Rightarrow> Some (Handoff j)
      | None \<Rightarrow> if parse_cron_session sid \<noteq> None then Some Cron else None)"

definition kind_of_job :: "string \<Rightarrow> turn_sources \<Rightarrow> string" where
  "kind_of_job job S =
     (case find (\<lambda>(s, k, j). j \<noteq> [] \<and> j = job) (ts_handoff S) of None \<Rightarrow> [] | Some (s, k, j) \<Rightarrow> k)"

definition job_kind :: "string \<Rightarrow> turn_sources \<Rightarrow> string" where
  "job_kind sid S = (case map_of (ts_handoff S) sid of None \<Rightarrow> [] | Some (k, j) \<Rightarrow> k)"

definition wake_job :: "string \<Rightarrow> turn_sources \<Rightarrow> (string \<times> string) option" where
  "wake_job sid S =
     (case map_of (ts_handoff S) sid of
        None \<Rightarrow> None
      | Some (k, j) \<Rightarrow> if k \<noteq> [] \<and> j \<noteq> [] then Some (k, j) else None)"

section \<open>Bindings\<close>

definition BIND_TOOL :: string where
  "BIND_TOOL = ''reply_bind''"

definition BOUND_INBOX :: string where
  "BOUND_INBOX = ''verified-binding''"

definition new_message_key :: "string \<Rightarrow> string \<Rightarrow> string" where
  "new_message_key kind job =
     (case find (\<lambda>(w, k). k = kind) JOB_KIND of None \<Rightarrow> [] | Some (w, k) \<Rightarrow> w) @ ''-scheduled:'' @ job"

definition job_label :: "string \<Rightarrow> string" where
  "job_label kind = (case find (\<lambda>(w, k). k = kind) JOB_KIND of None \<Rightarrow> ''demand job'' | Some (w, k) \<Rightarrow> w @ '' job'')"

record binding =
  bd_sender :: string
  bd_request :: "(string \<times> string) list"
  bd_message :: string

definition binding_sessions :: nat where
  "binding_sessions = 256"

type_synonym bindings = "(string \<times> binding) list"

definition record_binding :: "nat \<Rightarrow> string \<Rightarrow> binding \<Rightarrow> bindings \<Rightarrow> binding \<times> bindings" where
  "record_binding cap sid b B =
     (case map_of B sid of
        Some have \<Rightarrow> (have, B)
      | None \<Rightarrow> (b, drop (length B + 1 - cap) (B @ [(sid, b)])))"

definition get_binding :: "string \<Rightarrow> bindings \<Rightarrow> binding option" where
  "get_binding sid B = (if sid = [] then None else map_of B sid)"

definition cleaned :: "reading_env \<Rightarrow> pyval \<Rightarrow> string" where
  "cleaned E v = strip (if truthy v then py_str (rc_str E) v else [])"

text \<open>\<open>None\<close>: not exactly one of the three names was given.\<close>

definition request_from_args :: "reading_env \<Rightarrow> turn_sources \<Rightarrow> pydict \<Rightarrow> (string \<times> string) list option" where
  "request_from_args E S args =
     (let given = filter (\<lambda>(k, v). v \<noteq> []) (map (\<lambda>k. (k, cleaned E (dget args k)))
            [''job_id'', ''graph_message_id'', ''internet_message_id''])
      in case given of
           [(k, v)] \<Rightarrow>
             Some (if k = ''job_id''
                   then [(''kind'', if kind_of_job v S = [] then ''demand_job'' else kind_of_job v S), (''job_id'', v)]
                   else [(''kind'', ''message''), (k, v)])
         | _ \<Rightarrow> None)"

text \<open>The tool's answer, as the mapping it prints; the prose of its message is left out.\<close>

definition handle_bind ::
  "reading_env \<Rightarrow> ((string \<times> string) list \<Rightarrow> string + pydict) \<Rightarrow> turn_sources \<Rightarrow> pydict \<Rightarrow> pydict" where
  "handle_bind E broker S args =
     (case request_from_args E S args of
        None \<Rightarrow> [(''bound'', PBool False),
          (''reason'', PStr ''name exactly one of job_id, graph_message_id or internet_message_id'')]
      | Some req \<Rightarrow>
          (case broker req of
             Inl e \<Rightarrow> [(''bound'', PBool False), (''reason'', PStr (''the binding could not be checked: '' @ e))]
           | Inr v \<Rightarrow>
               if dget v ''bound'' \<noteq> PBool True
               then [(''bound'', PBool False),
                 (''reason'', PStr (if truthy (dget v ''reason'') then py_str (rc_str E) (dget v ''reason'') else ''refused''))]
               else
                 let mode = (if truthy (dget v ''mode'') then py_str (rc_str E) (dget v ''mode'') else ''reply'')
                 in [(''bound'', PBool True), (''binding'', PDict (map (\<lambda>(k, x). (k, PStr x)) req)), (''mode'', PStr mode),
                     (''sender'', dget v ''sender''), (''graph_message_id'', dget v ''graph_message_id'')] @
                    (if mode = ''new_message'' then [(''subject'', dget v ''subject'')] else [])))"

section \<open>Taking a binding\<close>

datatype bind_refusal =
  Incomplete_Answer | No_Session | Email_Opened | Not_A_Wake | Bind_By_The_Job string string | Only_In_Its_Wake string
| Other_Job string string | Not_Scheduled | Scheduled_Run string string | Held_Waiting | Bound_Already

text \<open>The result stands, the agent reads a refusal instead, or the recording raises and takes nothing.\<close>

datatype bind_answer = Stands | Refused_Bind bind_refusal | Bind_Raised

text \<open>The binding the broker's answer and the wake allow; \<open>opened\<close> is whether an email opened the session, and
  \<open>waiting\<close> whether a held reply to the message waits for release.\<close>

definition binding_wanted ::
  "reading_env \<Rightarrow> turn_sources \<Rightarrow> bool \<Rightarrow> (string \<Rightarrow> bool) \<Rightarrow> string \<Rightarrow> pydict \<Rightarrow> bind_answer + binding" where
  "binding_wanted E S opened waiting sid data =
     (let sender = lower (cleaned E (dget data ''sender''));
          graph = cleaned E (dget data ''graph_message_id'');
          mode = (if truthy (dget data ''mode'') then py_str (rc_str E) (dget data ''mode'') else ''reply'');
          kind = job_kind sid S
      in if mode \<noteq> ''reply'' \<and> mode \<noteq> ''new_message'' then Inl (Refused_Bind Incomplete_Answer)
         else case dget data ''binding'' of
           PDict req \<Rightarrow>
             if sender = [] \<or> CHR ''@'' \<notin> set sender then Inl (Refused_Bind Incomplete_Answer)
             else if mode = ''reply'' \<and> graph = [] then Inl (Refused_Bind Incomplete_Answer)
             else if sid = [] then Inl (Refused_Bind No_Session)
             else if opened then Inl (Refused_Bind Email_Opened)
             else (case source sid S of
               None \<Rightarrow> Inl (Refused_Bind Not_A_Wake)
             | Some src \<Rightarrow>
                 let pinned = (case src of Handoff j \<Rightarrow> j | Cron \<Rightarrow> []);
                     wake_kind = (case src of Handoff j \<Rightarrow> kind | Cron \<Rightarrow> []);
                     asked = dget req ''kind'';
                     job_asked = (case asked of PStr k \<Rightarrow> k \<in> set JOB_KINDS | _ \<Rightarrow> False);
                     scheduled = (src \<noteq> Cron \<and> scheduled_wake sid S)
                 in if (case asked of PList _ \<Rightarrow> True | PDict _ \<Rightarrow> True | _ \<Rightarrow> False) then Inl Bind_Raised
                    else if pinned \<noteq> [] \<and> \<not> job_asked then Inl (Refused_Bind (Bind_By_The_Job wake_kind pinned))
                    else if job_asked \<and> pinned = [] then Inl (Refused_Bind (Only_In_Its_Wake (py_str (rc_str E) asked)))
                    else if job_asked \<and> (dget req ''job_id'' \<noteq> PStr pinned \<or> asked \<noteq> PStr wake_kind)
                    then Inl (Refused_Bind (Other_Job wake_kind pinned))
                    else if mode = ''new_message'' \<and> \<not> scheduled then Inl (Refused_Bind Not_Scheduled)
                    else if mode = ''reply'' \<and> scheduled then Inl (Refused_Bind (Scheduled_Run wake_kind pinned))
                    else
                      let m = (if mode = ''new_message'' then new_message_key wake_kind pinned else graph)
                      in if waiting m then Inl (Refused_Bind Held_Waiting)
                         else Inr \<lparr>bd_sender = sender, bd_request = sort_key fst (map (\<lambda>(k, v). (k, py_str (rc_str E) v)) req),
                                   bd_message = m\<rparr>)
         | _ \<Rightarrow> Inl (Refused_Bind Incomplete_Answer))"

definition record_from_result ::
  "reading_env \<Rightarrow> turn_sources \<Rightarrow> bool \<Rightarrow> (string \<Rightarrow> bool) \<Rightarrow> string \<Rightarrow> pyval option \<Rightarrow> bindings \<Rightarrow> bind_answer \<times> bindings" where
  "record_from_result E S opened waiting sid result B =
     (case result of
        Some (PDict data) \<Rightarrow>
          if dget data ''bound'' \<noteq> PBool True then (Stands, B)
          else (case binding_wanted E S opened waiting sid data of
            Inl r \<Rightarrow> (r, B)
          | Inr b \<Rightarrow>
              let (have, B') = record_binding binding_sessions sid b B
              in (if have = b then Stands else Refused_Bind Bound_Already, B'))
      | _ \<Rightarrow> (Stands, B))"

section \<open>What a wake may not send\<close>

definition WAKE_FORBIDDEN_TOOLS :: "string list" where
  "WAKE_FORBIDDEN_TOOLS = [''smd_send_message'', ''casework_brief'']"

datatype wake_refusal = Bind_With_Job string string | Only_Channel string string string

definition external_send :: "action_class \<Rightarrow> bool" where
  "external_send a \<longleftrightarrow> starts_with (class_value a) ''external_send''"

definition wake_send_refusal :: "reading_env \<Rightarrow> turn_sources \<Rightarrow> string \<Rightarrow> string \<Rightarrow> pydict \<Rightarrow> wake_refusal option" where
  "wake_send_refusal E S sid tool args =
     (case (if sid = [] then None else source sid S) of
        Some (Handoff (c # j)) \<Rightarrow>
          let job = c # j; label = job_label (job_kind sid S)
          in if tool = BIND_TOOL
             then if cleaned E (dget args ''graph_message_id'') \<noteq> [] \<or> cleaned E (dget args ''internet_message_id'') \<noteq> [] \<or>
                     (cleaned E (dget args ''job_id'') \<noteq> [] \<and> cleaned E (dget args ''job_id'') \<noteq> job)
                  then Some (Bind_With_Job label job) else None
             else
               let cls = (case classify_tool tool of Inl e \<Rightarrow> None | Inr c \<Rightarrow> Some (c_class c))
               in if tool \<in> set WAKE_FORBIDDEN_TOOLS \<or> (case cls of None \<Rightarrow> False | Some a \<Rightarrow> external_send a \<or> a = REFUSED_CLASS)
                  then Some (Only_Channel tool label job) else None
      | _ \<Rightarrow> None)"

section \<open>Where a wake comes from\<close>

type_synonym turn_note = "string \<times> pyval \<times> pyval"

definition run_notes :: "turn_note list \<Rightarrow> turn_sources" where
  "run_notes ns = fold (\<lambda>(sid, sender, msg). note_source source_sessions sid sender msg) ns no_sources"

definition job_of_text :: "pyval \<Rightarrow> string \<times> string" where
  "job_of_text msg = (case wake_named (case msg of PStr t \<Rightarrow> t | _ \<Rightarrow> []) of None \<Rightarrow> ([], []) | Some j \<Rightarrow> j)"

definition wakes_noted :: "turn_note list \<Rightarrow> turn_sources \<Rightarrow> bool" where
  "wakes_noted ns S \<longleftrightarrow>
     (\<forall>(sid, job) \<in> set (ts_handoff S). sid \<noteq> [] \<and> (\<exists>msg. (sid, PStr HANDOFF_SENDER, msg) \<in> set ns \<and> job = job_of_text msg)) \<and>
     distinct (map fst (ts_handoff S)) \<and> ts_scheduled S \<subseteq> set (map fst (ts_handoff S)) \<and> length (ts_handoff S) \<le> source_sessions"

lemma note_job [simp]:
  "(case wake_named (case msg of PStr t \<Rightarrow> t | _ \<Rightarrow> []) of None \<Rightarrow> ([], []) | Some j \<Rightarrow> j) = job_of_text msg"
  by (simp add: job_of_text_def)

lemma set_dropD: "x \<in> set (drop n xs) \<Longrightarrow> x \<in> set xs"
  by (meson in_set_dropD)

lemma take_or_drop: "x \<in> set xs \<Longrightarrow> x \<notin> set (take n xs) \<Longrightarrow> x \<in> set (drop n xs)"
  by (metis Un_iff append_take_drop_id set_append)

lemma noted_step:
  assumes "wakes_noted ns S"
  shows "wakes_noted (ns @ [(sid, sender, msg)]) (note_source source_sessions sid sender msg S)"
proof (cases "sid = [] \<or> sender \<noteq> PStr HANDOFF_SENDER \<or> map_of (ts_handoff S) sid \<noteq> None")
  case True
  then have "note_source source_sessions sid sender msg S = S" by (auto simp: note_source_def Let_def)
  then show ?thesis using assms by (auto simp: wakes_noted_def)
next
  case False
  define all where "all = ts_handoff S @ [(sid, job_of_text msg)]"
  define over where "over = length all - source_sessions"
  obtain sched where new: "note_source source_sessions sid sender msg S =
      \<lparr>ts_handoff = drop over all, ts_scheduled = (if sched then insert sid (ts_scheduled S) else ts_scheduled S) - set (map fst (take over all))\<rparr>"
    using False by (auto simp: note_source_def Let_def all_def over_def)
  have fresh: "sid \<notin> set (map fst (ts_handoff S))" using False by (auto simp: map_of_eq_None_iff)
  have d: "distinct (map fst all)" using assms fresh by (simp add: all_def wakes_noted_def)
  have origin_ok: "\<forall>(sid', job) \<in> set all. sid' \<noteq> [] \<and> (\<exists>m. (sid', PStr HANDOFF_SENDER, m) \<in> set (ns @ [(sid, sender, msg)]) \<and> job = job_of_text m)"
    using assms False by (fastforce simp: all_def wakes_noted_def)
  have "ts_scheduled S \<union> {sid} \<subseteq> set (map fst all)" using assms by (auto simp: all_def wakes_noted_def)
  then have sched: "x \<in> set (map fst (drop over all))" if "x \<in> ts_scheduled S \<union> {sid}" "x \<notin> set (map fst (take over all))" for x
    using that take_or_drop [of x "map fst all" over] by (auto simp: take_map drop_map)
  show ?thesis
    unfolding new wakes_noted_def
    using origin_ok d sched by (auto simp: over_def drop_map [symmetric] distinct_drop split: if_splits dest: set_dropD)
qed

lemma notes_noted: "wakes_noted ns (run_notes ns)"
proof (induction ns rule: rev_induct)
  case Nil
  then show ?case by (simp add: run_notes_def wakes_noted_def no_sources_def)
next
  case (snoc n ns)
  obtain sid sender msg where n: "n = (sid, sender, msg)" by (cases n)
  have "run_notes (ns @ [n]) = note_source source_sessions sid sender msg (run_notes ns)" by (simp add: run_notes_def n)
  then show ?case using noted_step [OF snoc] n by simp
qed

section \<open>What a binding holds\<close>

lemma map_of_filter: "map_of xs k = (case filter (\<lambda>p. fst p = k) xs of [] \<Rightarrow> None | p # _ \<Rightarrow> Some (snd p))"
  by (induction xs) auto

lemma map_of_sort: "map_of (sort_key fst xs) k = map_of (xs :: (string \<times> 'v) list) k"
  unfolding map_of_filter by (simp add: sort_key_stable)

lemma wanted_sound:
  assumes "binding_wanted E S opened waiting sid data = Inr b"
  obtains req src where "dget data ''binding'' = PDict req" "sid \<noteq> []" "\<not> opened" "source sid S = Some src"
    "\<not> waiting (bd_message b)" "bd_request b = sort_key fst (map (\<lambda>(k, v). (k, py_str (rc_str E) v)) req)"
    "CHR ''@'' \<in> set (bd_sender b)"
    "\<And>j. src = Handoff j \<Longrightarrow> j \<noteq> [] \<Longrightarrow> dget req ''job_id'' = PStr j \<and> dget req ''kind'' = PStr (job_kind sid S) \<and>
      (if scheduled_wake sid S then bd_message b = new_message_key (job_kind sid S) j
       else bd_message b = cleaned E (dget data ''graph_message_id''))"
proof -
  show ?thesis
  proof (cases "dget data ''binding''")
    case (PDict req)
    from assms PDict obtain src where "source sid S = Some src"
      by (auto simp: binding_wanted_def Let_def split: if_splits option.splits)
    then show ?thesis
      using assms PDict that [of req src]
      by (auto simp: binding_wanted_def Let_def split: if_splits turn_source.splits)
  qed (use assms in \<open>auto simp: binding_wanted_def Let_def split: if_splits\<close>)
qed

section \<open>The properties\<close>

definition demo_job :: string where
  "demo_job = ''01M4RXQV000000000000000001''"

definition demo_wake :: turn_note where
  "demo_wake = (''s'', PStr HANDOFF_SENDER, PStr (''The letter is ready for drafting job '' @ demo_job @ ''.''))"

definition plain_env :: reading_env where
  "plain_env = \<lparr>rc_json = (\<lambda>_. None), rc_str = (\<lambda>_. [])\<rparr>"

definition demo_answer :: pydict where
  "demo_answer = [(''bound'', PBool True), (''binding'', PDict [(''kind'', PStr ''drafting_job''), (''job_id'', PStr demo_job)]),
     (''sender'', PStr ''ana@firm.com''), (''graph_message_id'', PStr ''AAMk1'')]"

lemma demo_wake_job: "wake_job ''s'' (run_notes [demo_wake]) = Some (''drafting_job'', demo_job)"
  by code_simp

lemma demo_binding:
  "record_from_result plain_env (run_notes [demo_wake]) False (\<lambda>_. False) ''s'' (Some (PDict demo_answer)) [] =
    (Stands, [(''s'', \<lparr>bd_sender = ''ana@firm.com'', bd_request = [(''job_id'', demo_job), (''kind'', ''drafting_job'')], bd_message = ''AAMk1''\<rparr>)])"
  by code_simp

text \<open>the wake of a turn is the gateway's word: a session is a job's wake only when the gateway delivered it on the
  handoff route, and the job is the first one that delivery's text names.\<close>

theorem wake_comes_from_the_gateway:
  assumes "wake_job sid (run_notes ns) = Some job"
  shows "\<exists>msg. (sid, PStr HANDOFF_SENDER, msg) \<in> set ns \<and> job_of_text msg = job"
proof -
  obtain k j where job: "job = (k, j)" by (cases job)
  then have "(sid, (k, j)) \<in> set (ts_handoff (run_notes ns))"
    using assms by (auto simp: wake_job_def split: option.splits if_splits dest: map_of_SomeD)
  then show ?thesis using notes_noted [of ns] job by (fastforce simp: wakes_noted_def)
qed

lemma wake_comes_from_the_gateway_witness:
  "\<exists>msg. (''s'', PStr HANDOFF_SENDER, msg) \<in> set [demo_wake] \<and> job_of_text msg = (''drafting_job'', demo_job)"
  by (rule wake_comes_from_the_gateway [OF demo_wake_job])

text \<open>a job's wake binds only its own job: whatever the agent asked and the broker answered, a binding taken in a
  job's wake was verified under that job's kind and id, no email opened the turn, no held reply to it is waiting,
  and it is the wake's one new message exactly when the wake is a scheduled run's.\<close>

theorem wake_binds_its_own_job:
  assumes "wake_job sid S = Some (k, j)"
    and "record_from_result E S opened waiting sid result B = (Stands, B')" "map_of B sid = None" "map_of B' sid = Some b"
  shows "map_of (bd_request b) ''kind'' = Some k \<and> map_of (bd_request b) ''job_id'' = Some j \<and> \<not> opened \<and>
    \<not> waiting (bd_message b) \<and> (scheduled_wake sid S \<longrightarrow> bd_message b = new_message_key k j)"
proof -
  have absent: "(sid, b) \<notin> set B" using assms(3) by (auto dest: weak_map_of_SomeI)
  then obtain data where data: "result = Some (PDict data)" and w: "binding_wanted E S opened waiting sid data = Inr b"
    using assms(2-4)
    by (auto simp: record_from_result_def record_binding_def split: option.splits pyval.splits if_splits sum.splits prod.splits
      dest!: set_dropD [OF map_of_SomeD] dest: map_of_SomeD)
  have h: "map_of (ts_handoff S) sid = Some (k, j)" "k \<noteq> []" "j \<noteq> []"
    using assms(1) by (auto simp: wake_job_def split: option.splits if_splits)
  then have src: "source sid S = Some (Handoff j)" and kind: "job_kind sid S = k" by (simp_all add: source_def job_kind_def)
  show ?thesis
    using w
  proof (rule wanted_sound)
    fix req src'
    assume r: "source sid S = Some src'" "\<not> opened" "\<not> waiting (bd_message b)"
      "bd_request b = sort_key fst (map (\<lambda>(k, v). (k, py_str (rc_str E) v)) req)"
      and own: "\<And>j. src' = Handoff j \<Longrightarrow> j \<noteq> [] \<Longrightarrow> dget req ''job_id'' = PStr j \<and> dget req ''kind'' = PStr (job_kind sid S) \<and>
        (if scheduled_wake sid S then bd_message b = new_message_key (job_kind sid S) j
         else bd_message b = cleaned E (dget data ''graph_message_id''))"
    have o: "dget req ''job_id'' = PStr j" "dget req ''kind'' = PStr k" "scheduled_wake sid S \<longrightarrow> bd_message b = new_message_key k j"
      using own [of j] r(1) src h(3) kind by (auto split: if_splits)
    have "map_of (bd_request b) x = map_option (py_str (rc_str E)) (map_of req x)" for x
      by (simp add: r(4) map_of_sort map_of_map)
    then show ?thesis using o r by (auto simp: dget_def py_str_def split: option.splits)
  qed
qed

lemma wake_binds_its_own_job_witness:
  "map_of [(''job_id'', demo_job), (''kind'', ''drafting_job'')] ''job_id'' = Some demo_job"
  using wake_binds_its_own_job [OF demo_wake_job demo_binding] by simp

lemma external_values:
  "external_send EXTERNAL_SEND" "external_send EXTERNAL_SEND_INTERNAL" "external_send EXTERNAL_SEND_CLIENT" "external_send EXTERNAL_SEND_VENDOR" "external_send EXTERNAL_SEND_AS_STAFF"
  "\<not> external_send READ" "\<not> external_send INTERNAL_WRITE" "\<not> external_send COMMITMENT" "\<not> external_send DESTRUCTIVE" "\<not> external_send CODE_EXECUTION" "\<not> external_send REFUSED_CLASS"
  by code_simp+

lemma external_sends: "external_send a \<longleftrightarrow> a \<in> {EXTERNAL_SEND, EXTERNAL_SEND_INTERNAL, EXTERNAL_SEND_CLIENT, EXTERNAL_SEND_VENDOR, EXTERNAL_SEND_AS_STAFF}"
  by (cases a) (simp_all add: external_values)

text \<open>a job's wake sends nothing but its bound message: a tool the guard lets through in such a turn is neither a
  send of any kind nor a refused or unknown tool, nor a message to staff by another name.\<close>

theorem wake_sends_only_its_bound_message:
  assumes "wake_job sid S = Some (k, j)" "wake_send_refusal E S sid tool args = None" "tool \<noteq> BIND_TOOL" "sid \<noteq> []"
  shows "tool \<notin> set WAKE_FORBIDDEN_TOOLS \<and>
    (case classify_tool tool of
       Inl e \<Rightarrow> True
     | Inr c \<Rightarrow> c_class c \<in> {READ, INTERNAL_WRITE, COMMITMENT, DESTRUCTIVE, CODE_EXECUTION})"
proof -
  have src: "source sid S = Some (Handoff j)" "j \<noteq> []"
    using assms(1) by (auto simp: wake_job_def source_def split: option.splits if_splits)
  then obtain x y where "j = x # y" by (cases j) auto
  then have ok: "tool \<notin> set WAKE_FORBIDDEN_TOOLS"
    "\<And>c. classify_tool tool = Inr c \<Longrightarrow> \<not> external_send (c_class c) \<and> c_class c \<noteq> REFUSED_CLASS"
    using assms(2-4) src by (auto simp: wake_send_refusal_def Let_def split: if_splits)
  have "a \<in> {READ, INTERNAL_WRITE, COMMITMENT, DESTRUCTIVE, CODE_EXECUTION}" if "\<not> external_send a" "a \<noteq> REFUSED_CLASS" for a
    using that by (cases a) (simp_all add: external_values)
  then show ?thesis using ok by (auto split: sum.split)
qed

lemma wake_sends_only_its_bound_message_witness:
  "''mcp_msgraph_mail_create_draft'' \<notin> set WAKE_FORBIDDEN_TOOLS"
proof -
  have "wake_send_refusal plain_env (run_notes [demo_wake]) ''s'' ''mcp_msgraph_mail_create_draft'' [] = None" by code_simp
  from wake_sends_only_its_bound_message [OF demo_wake_job this] show ?thesis by (simp add: BIND_TOOL_def)
qed

text \<open>the guard does let a banned send through: a banned name has no class, and only a class is refused.\<close>

theorem banned_send_passes_the_wake_guard:
  "wake_send_refusal plain_env (run_notes [demo_wake]) ''s'' ''email_send'' [] = None \<and> ''email_send'' \<in> set BANNED_TOOLS"
  by code_simp
end
