(* ===== verification/Reply_Relay.thy ===== *)
theory Reply_Relay
  imports Held_Replies Reply_Binding
begin

text \<open>
  The reply relay (\<open>plugins/hermes-smd-reply/__init__.py\<close>, \<open>relay.py\<close>, \<open>notice.py\<close>,
  \<open>working_drafts.py\<close>): the one decision about a draft the agent made, from the turn's email to the
  transmitted reply, and the two hooks that reach it. What other components decide is a parameter of \<open>relay_env\<close>:
  the content and fabrication scanners, the output checklist, the quoting register, the space resolver, the
  transports. Rows are the ones the plugin emits; the session and matter they are joined to are left out.
\<close>

section \<open>The draft\<close>

definition CREATE_DRAFT_TOOLS :: "string list" where
  "CREATE_DRAFT_TOOLS = [''mcp_agentmail_create_draft'', ''agentmail:create_draft'', ''mcp_msgraph_mail_create_draft'']"

definition ADAPTER_MSGRAPH :: string where
  "ADAPTER_MSGRAPH = ''msgraph''"

definition email_adapter :: "pydict \<Rightarrow> string" where
  "email_adapter d =
     (case connectors d of
        Inl e \<Rightarrow> ''agentmail''
      | Inr cs \<Rightarrow>
          (case map_of cs ''Email'' of
             None \<Rightarrow> ''agentmail''
           | Some c \<Rightarrow> (case dget c ''adapter'' of PStr (x # a) \<Rightarrow> x # a | _ \<Rightarrow> ''agentmail'')))"

definition draft_recipients :: "(string \<Rightarrow> string) \<Rightarrow> pydict \<Rightarrow> string set" where
  "draft_recipients parse args = set (addresses_under parse args ''to'')"

definition recipient_locked :: "(string \<Rightarrow> string) \<Rightarrow> pydict \<Rightarrow> string \<Rightarrow> string \<Rightarrow> bool" where
  "recipient_locked parse args sender reply_to =
     (let recorded = normalized sender; named = draft_recipients parse args; target = normalized reply_to
      in if recorded = [] then False
         else if target = [] \<or> target = recorded then named = {recorded}
         else named \<noteq> {} \<and> named \<subseteq> {recorded, target})"

definition shared_recipients_locked :: "(string \<Rightarrow> string) \<Rightarrow> pydict \<Rightarrow> string \<Rightarrow> string list \<Rightarrow> bool" where
  "shared_recipients_locked parse args sender people =
     (let allowed = set (filter (\<lambda>p. p \<noteq> []) (map normalized people));
          recorded = normalized sender; named = draft_recipients parse args
      in recorded \<noteq> [] \<and> recorded \<in> allowed \<and> named \<noteq> {} \<and> named \<subseteq> allowed)"

definition text_under :: "pydict \<Rightarrow> string \<Rightarrow> string" where
  "text_under args k = (case dget args k of PStr s \<Rightarrow> s | _ \<Rightarrow> [])"

text \<open>What the floors scan, and the two bodies that are sent.\<close>

definition draft_body :: "pydict \<Rightarrow> string \<times> string \<times> string" where
  "draft_body args =
     (let subject = text_under args ''subject''; html = text_under args ''html'';
          text = (if text_under args ''text'' = [] then text_under args ''body_text'' else text_under args ''text'');
          parts = filter (\<lambda>p. strip p \<noteq> []) [subject, text, html]
      in (joined [CHR 0x0A] parts, text, html))"

definition DRAFT_FAILED_STATUSES :: "string list" where
  "DRAFT_FAILED_STATUSES = [''error'', ''errored'', ''failed'', ''failure'', ''refused'', ''blocked'', ''denied'']"

definition failed_status :: "pyval \<Rightarrow> bool" where
  "failed_status v = (case v of PStr s \<Rightarrow> normalized s \<in> set DRAFT_FAILED_STATUSES | _ \<Rightarrow> False)"

definition draft_call_failed :: "(string \<Rightarrow> pyval option) \<Rightarrow> pyval \<Rightarrow> pyval \<Rightarrow> pyval \<Rightarrow> bool" where
  "draft_call_failed decode result status err =
     (if failed_status status then True
      else if (case err of PStr s \<Rightarrow> strip s \<noteq> [] \<and> normalized s \<notin> {''none'', ''null''} | _ \<Rightarrow> False) then True
      else (case result of
              PStr s \<Rightarrow>
                if strip s = [] then False
                else (case decode s of
                        Some (PDict p) \<Rightarrow> truthy (dget p ''error'') \<or> dget p ''ok'' = PBool False \<or> dget p ''success'' = PBool False \<or>
                          failed_status (dget p ''status'')
                      | _ \<Rightarrow> False)
            | _ \<Rightarrow> False))"

definition working_draft_id :: "reading_env \<Rightarrow> pyval \<Rightarrow> string" where
  "working_draft_id E result =
     (case payload_of E result of
        Some (PDict p) \<Rightarrow>
          if dget p ''isDraft'' = PBool False then [] else (case dget p ''id'' of PStr s \<Rightarrow> strip s | _ \<Rightarrow> [])
      | _ \<Rightarrow> [])"

section \<open>Working drafts\<close>

type_synonym working_drafts = "((string \<times> string) \<times> string list) list"

definition draft_keys :: nat where
  "draft_keys = 512"

definition track_draft :: "string \<Rightarrow> string \<Rightarrow> string \<Rightarrow> working_drafts \<Rightarrow> working_drafts" where
  "track_draft sid key did W =
     (if did = [] \<or> key = [] then W
      else
        let k = (sid, key); ids = (case map_of W k of None \<Rightarrow> [] | Some xs \<Rightarrow> xs);
            W' = AList.delete k W @ [(k, if did \<in> set ids then ids else ids @ [did])]
        in drop (length W' - draft_keys) W')"

definition take_drafts :: "string \<Rightarrow> string \<Rightarrow> working_drafts \<Rightarrow> string list \<times> working_drafts" where
  "take_drafts sid key W = (case map_of W (sid, key) of None \<Rightarrow> [] | Some ids \<Rightarrow> ids, AList.delete (sid, key) W)"

section \<open>Hold notices\<close>

record hold_notice =
  hn_reason :: string
  hn_recipient :: string
  hn_message :: string
  hn_attempt :: nat
  hn_detail :: string

record notice_store =
  ns_pending :: "(string \<times> hold_notice) list"
  ns_counts :: "(string \<times> nat) list"

definition no_notices :: notice_store where
  "no_notices = \<lparr>ns_pending = [], ns_counts = []\<rparr>"

definition NOTICE_MAX :: nat where
  "NOTICE_MAX = 64"

definition NOTICE_COUNTS :: nat where
  "NOTICE_COUNTS = 256"

text \<open>A full register is emptied before the next entry.\<close>

definition record_notice :: "string \<Rightarrow> string \<Rightarrow> string \<Rightarrow> string \<Rightarrow> string \<Rightarrow> notice_store \<Rightarrow> notice_store" where
  "record_notice call reason recipient message detail N =
     (let counts = (if NOTICE_COUNTS \<le> length (ns_counts N) then [] else ns_counts N);
          attempt = (if message = [] then 1 else (case map_of counts message of None \<Rightarrow> 0 | Some n \<Rightarrow> n) + 1);
          pending = (if NOTICE_MAX \<le> length (ns_pending N) then [] else ns_pending N)
      in \<lparr>ns_pending = AList.update call \<lparr>hn_reason = reason, hn_recipient = recipient, hn_message = message,
            hn_attempt = attempt, hn_detail = detail\<rparr> pending,
          ns_counts = (if message = [] then counts else AList.update message attempt counts)\<rparr>)"

definition notice_pending :: "string \<Rightarrow> notice_store \<Rightarrow> bool" where
  "notice_pending call N \<longleftrightarrow> map_of (ns_pending N) call \<noteq> None"

definition take_notice :: "string \<Rightarrow> notice_store \<Rightarrow> hold_notice option \<times> notice_store" where
  "take_notice call N = (map_of (ns_pending N) call, N\<lparr>ns_pending := AList.delete call (ns_pending N)\<rparr>)"

definition one_line :: "nat \<Rightarrow> string \<Rightarrow> string" where
  "one_line limit s = take limit (joined '' '' (words s))"

definition REDRAFT_GUIDANCE :: string where
  "REDRAFT_GUIDANCE =
     ''Redraft once. Keep every captured fact (what you did, where the artifact '' @
     ''lives, what is reserved, what the record does not establish) and strip '' @
     ''ONLY the flagged content class. If a redraft is held again, deliver the '' @
     ''minimal factual note so a person still learns that the work happened and '' @
     ''what is waiting on them.''"

definition SECOND_HOLD_GUIDANCE :: "nat \<Rightarrow> string" where
  "SECOND_HOLD_GUIDANCE n =
     ''This is hold '' @ show_nat n @ '' for this inbound message. Do NOT redraft the same content '' @
     ''again. Deliver the minimal factual note now (what happened, where the work '' @
     ''lives, what awaits a person), or escalate.''"

definition REASON_HINTS :: "(string \<times> string) list" where
  "REASON_HINTS =
     [(''matter_mismatch'', ''The reply cites a matter this recipient is not a party to. Do not '' @
        ''restate it: reply about matters this person is on, or escalate.''),
      (''duplicate_reply'', ''A reply to this inbound message was already delivered. This second '' @
        ''draft was not transmitted. Do not redraft; the person has been told.''),
      (''recipient_mismatch'', ''The draft addressed someone other than the person who wrote in. A '' @
        ''reply can only go back to that sender, and only to that sender.''),
      (''sender_not_on_roster'', ''This sender is not on the organization roster, so no reply is sent '' @
        ''autonomously. The draft stands; a person has to take it from here.''),
      (''empty_body'', ''The draft carried no body to relay. A subject alone is not a reply.''),
      (''output_checklist'', ''The reply carried something a paralegal would correct before sending it. '' @
        ''Correct exactly what is listed and draft the reply again.''),
      (''send_failed'', ''The transport refused or failed while sending, so delivery is not '' @
        ''confirmed. Do not resend the same draft: a send that half-succeeded '' @
        ''would reach the person twice. Escalate so a person confirms whether it '' @
        ''arrived and reaches them if it did not.''),
      (''no_inbox_id'', ''No inbox was recorded for the original message, so there is nothing to thread into.'')]"

definition GENERIC_HINT :: string where
  "GENERIC_HINT =
     ''The draft was not transmitted, and no automatic release is queued for it. '' @
     ''Do not assume the person has been told.''"

definition render_notice :: "hold_notice \<Rightarrow> string" where
  "render_notice n =
     (let reason = (if one_line 120 (hn_reason n) = [] then ''unspecified'' else one_line 120 (hn_reason n));
          recipient = (if one_line 254 (hn_recipient n) = [] then ''the inbound sender'' else one_line 254 (hn_recipient n));
          guidance = (if 2 \<le> hn_attempt n then SECOND_HOLD_GUIDANCE (hn_attempt n)
            else if starts_with reason ''fabrication:'' \<or> starts_with reason ''content_sensitive'' then REDRAFT_GUIDANCE
            else (case map_of REASON_HINTS reason of None \<Rightarrow> GENERIC_HINT | Some h \<Rightarrow> h));
          detail = one_line 800 (hn_detail n)
      in ''[reply-channel] YOUR REPLY WAS NOT SENT. The draft was created, but the '' @
         ''reply channel held it: '' @ reason @ ''. Nobody has been told, and '' @ recipient @
         '' is still waiting. '' @ guidance @
         (if detail = [] then [] else '' What to correct: '' @ detail))"

definition append_notice :: "string \<Rightarrow> hold_notice \<Rightarrow> string" where
  "append_notice result n = (if result = [] then render_notice n else result @ [CHR 0x0A, CHR 0x0A] @ render_notice n)"

section \<open>What the relay decides with\<close>

datatype send_result = Sent_As string | Refused_Send string | Unknown_Send string | Faulted_Send string

datatype carrier = Bound_Carrier "(string \<times> string) list" | Graph_Carrier string "string option" | Mail_Carrier string bool

record transmission =
  tx_carrier :: carrier
  tx_text :: string
  tx_html :: string

datatype checklist_verdict = Clean_List | Report_Only string | Corrections string string

datatype space_turn = Space_Unresolved | Joint_Email | Other_Turn

record relay_env =
  rv_ready :: bool
  rv_config :: "pydict option"
  rv_now :: rat
  rv_tick :: rat
  rv_reading :: reading_env
  rv_parse :: "string \<Rightarrow> string"
  rv_origins :: origins
  rv_inbox :: "origin \<Rightarrow> string"
  rv_taint :: taint
  rv_sources :: turn_sources
  rv_bindings :: bindings
  rv_people :: "pydict \<Rightarrow> string list option"
  rv_space :: "string \<Rightarrow> space_turn"
  rv_floor :: "string \<Rightarrow> string list option option"
  rv_register :: "string \<Rightarrow> (string set \<times> string set) option"
  rv_outbound :: "string \<Rightarrow> pydict \<Rightarrow> string set \<Rightarrow> string set \<Rightarrow> (bool \<times> string) option"
  rv_checklist :: "string \<Rightarrow> bool \<Rightarrow> checklist_verdict"
  rv_visible :: "string \<Rightarrow> string"
  rv_markdown :: "string \<Rightarrow> string"
  rv_matters :: matters
  rv_matter_mode :: string
  rv_digest :: "string \<Rightarrow> string"
  rv_digests :: "string \<Rightarrow> string \<Rightarrow> pydict"
  rv_sender_key :: "string \<Rightarrow> string"
  rv_send :: "transmission \<Rightarrow> send_result"

text \<open>\<open>rv_people\<close> is \<open>None\<close> on a seat without a people block, or with one that cannot be read. \<open>rv_floor\<close> is
  \<open>None\<close> when the floor raises, else what it found sensitive in the text, if anything; \<open>rv_outbound\<close> is \<open>None\<close>
  when the fabrication gate raises, else whether it allows the text and its tier.\<close>

record relay_state =
  rs_replied :: "string list"
  rs_decided :: "string list"
  rs_drafts :: working_drafts
  rs_limiter :: "limiter option"
  rs_held :: "held_store option"
  rs_notices :: notice_store
  rs_bodies :: "(string \<times> string list) list"

datatype relay_event =
  Row string pydict
| Page string string
| Transmitted string transmission send_result
| Queued string held_reply
| Discarded string
| Opened_Answer string string

record draft_call =
  dc_tool :: string
  dc_id :: pyval
  dc_session :: string
  dc_args :: pydict
  dc_result :: pyval
  dc_status :: pyval
  dc_error :: pyval

definition call_key :: "draft_call \<Rightarrow> string" where
  "call_key c = (case dc_id c of PStr s \<Rightarrow> s | _ \<Rightarrow> [])"

type_synonym 'r relayed = "relay_event list \<times> 'r"

definition REPLIED_MAX :: nat where
  "REPLIED_MAX = 512"

definition DECIDED_MAX :: nat where
  "DECIDED_MAX = 1024"

section \<open>Rows, holds and failures\<close>

text \<open>\<open>target\<close> is the person a device's reply is redirected to, or nothing.\<close>

definition reply_recipient :: "origin \<Rightarrow> string \<Rightarrow> string \<times> pydict" where
  "reply_recipient o1 target =
     (if target = [] \<or> target = normalized (or_sender o1) then (or_sender o1, [])
      else (target, [(''device_sender'', PStr (or_sender o1)), (''redirected_from_device'', PBool True)]))"

definition wake_fields :: "relay_env \<Rightarrow> string \<Rightarrow> pydict" where
  "wake_fields E sid =
     (case wake_job sid (rv_sources E) of
        None \<Rightarrow> []
      | Some (k, j) \<Rightarrow> [(''wake_kind'', PStr k), (''wake_job_id'', PStr j)])"

record hold =
  ho_reason :: string
  ho_extra :: pydict
  ho_detail :: string

definition plain_hold :: "string \<Rightarrow> hold" where
  "plain_hold r = \<lparr>ho_reason = r, ho_extra = [], ho_detail = []\<rparr>"

definition held_reply_event :: "relay_env \<Rightarrow> draft_call \<Rightarrow> origin \<Rightarrow> string \<Rightarrow> hold \<Rightarrow> relay_event" where
  "held_reply_event E c o1 target h =
     Row ''REPLY_HELD'' ([(''reason'', PStr (ho_reason h)), (''recipient'', PStr (fst (reply_recipient o1 target))),
       (''message_id'', PStr (or_message_id o1))] @ snd (reply_recipient o1 target) @ wake_fields E (dc_session c) @ ho_extra h)"

definition hold_reply ::
  "relay_env \<Rightarrow> draft_call \<Rightarrow> origin \<Rightarrow> string \<Rightarrow> hold \<Rightarrow> relay_state \<Rightarrow> relay_state relayed" where
  "hold_reply E c o1 target h st =
     ([held_reply_event E c o1 target h],
      if truthy (dget (ho_extra h) ''held_for_release'') then st
      else st\<lparr>rs_notices := record_notice (call_key c) (ho_reason h) (fst (reply_recipient o1 target)) (or_message_id o1)
        (ho_detail h) (rs_notices st)\<rparr>)"

definition send_failed ::
  "relay_env \<Rightarrow> draft_call \<Rightarrow> origin \<Rightarrow> string \<Rightarrow> string \<Rightarrow> string \<Rightarrow> relay_state \<Rightarrow> relay_state relayed" where
  "send_failed E c o1 target adapter why st =
     (let (to, device) = reply_recipient o1 target
      in ([Row ''REPLY_FAILED'' ([(''reason'', PStr why), (''adapter'', PStr adapter), (''recipient'', PStr to),
             (''message_id'', PStr (or_message_id o1))] @ device),
           Page ''send_failed'' to],
          st\<lparr>rs_notices := record_notice (call_key c) ''send_failed'' to (or_message_id o1) [] (rs_notices st)\<rparr>))"

definition relay_fault :: "relay_env \<Rightarrow> draft_call \<Rightarrow> origin \<Rightarrow> string \<Rightarrow> string \<Rightarrow> relay_state \<Rightarrow> relay_state relayed" where
  "relay_fault E c o1 target kind st =
     (if notice_pending (call_key c) (rs_notices st) then ([], st)
      else send_failed E c o1 target [] (''relay_error: '' @ kind) st)"

definition note_body :: "string \<Rightarrow> string list \<Rightarrow> (string \<times> string list) list \<Rightarrow> (string \<times> string list) list" where
  "note_body sid parts B =
     (let body = joined [CHR 0x0A] (filter (\<lambda>p. p \<noteq> []) parts)
      in if sid = [] \<or> body = [] then B
         else
           let old = (case map_of B sid of None \<Rightarrow> [] | Some bs \<Rightarrow> bs) @ [body];
               B' = AList.delete sid B @ [(sid, drop (length old - 8) old)]
           in drop (length B' - 128) B')"

definition commit_reply :: "string \<Rightarrow> origin \<Rightarrow> string list \<Rightarrow> string list" where
  "commit_reply key o1 R =
     (let R1 = commit_id REPLIED_MAX key R
      in if key \<noteq> or_message_id o1 then commit_id REPLIED_MAX (or_message_id o1) R1 else R1)"

definition discard_drafts :: "string list \<Rightarrow> relay_event list" where
  "discard_drafts ids = map Discarded (filter (\<lambda>i. i \<noteq> []) ids)"

section \<open>Whom the reply answers\<close>

definition request_text :: "(string \<times> string) list \<Rightarrow> string" where
  "request_text req = joined ''&'' (map (\<lambda>(k, v). k @ ''='' @ v) req)"

definition reply_guard_key :: "string \<Rightarrow> binding option \<Rightarrow> origin \<Rightarrow> string" where
  "reply_guard_key sid bound o1 =
     (case bound of
        None \<Rightarrow> or_message_id o1
      | Some b \<Rightarrow> ''bound:'' @ sid @ '':'' @ request_text (bd_request b) @ '':'' @ bd_message b)"

definition reply_source :: "relay_env \<Rightarrow> string \<Rightarrow> (origin \<times> binding option) option" where
  "reply_source E sid =
     (case bound_this_turn sid (rv_origins E) of
        Some o1 \<Rightarrow> Some (o1, None)
      | None \<Rightarrow> map_option (\<lambda>b. (\<lparr>or_sender = bd_sender b, or_message_id = bd_message b\<rparr>, Some b)) (get_binding sid (rv_bindings E)))"

definition inbox_of :: "relay_env \<Rightarrow> origin \<Rightarrow> binding option \<Rightarrow> string" where
  "inbox_of E o1 bound = (case bound of None \<Rightarrow> rv_inbox E o1 | Some b \<Rightarrow> BOUND_INBOX)"

text \<open>\<open>None\<close> is a shared turn this reply cannot answer; an ordinary reply has no people.\<close>

definition shared_reply_people :: "relay_env \<Rightarrow> pydict \<Rightarrow> string \<Rightarrow> origin \<Rightarrow> binding option \<Rightarrow> bool \<Rightarrow> string list option" where
  "shared_reply_people E d sid o1 bound redirected =
     (case rv_people E d of
        None \<Rightarrow> Some []
      | Some people \<Rightarrow>
          (case rv_space E sid of
             Space_Unresolved \<Rightarrow> None
           | Other_Turn \<Rightarrow> Some []
           | Joint_Email \<Rightarrow>
               let ps = filter (\<lambda>p. p \<noteq> []) people
               in if email_adapter d \<noteq> ''agentmail'' \<or> bound \<noteq> None \<or> redirected \<or> normalized (or_sender o1) \<notin> set ps \<or> length ps < 2
                  then None else Some ps))"

record addressee =
  ad_to :: string
  ad_redirected :: bool
  ad_people :: "string list"

definition redirect_target :: "pydict \<Rightarrow> origin \<Rightarrow> string" where
  "redirect_target d o1 =
     (case device_reply_target d (PStr (or_sender o1)) of
        Some t \<Rightarrow> if t \<noteq> [] \<and> t \<noteq> normalized (or_sender o1) then t else []
      | None \<Rightarrow> [])"

definition addressed :: "relay_env \<Rightarrow> pydict \<Rightarrow> draft_call \<Rightarrow> origin \<Rightarrow> binding option \<Rightarrow> hold + addressee" where
  "addressed E d c o1 bound =
     (let target = redirect_target d o1; redirected = (target \<noteq> []);
          reply_to = (if redirected then target else or_sender o1)
      in case shared_reply_people E d (dc_session c) o1 bound redirected of
           None \<Rightarrow> Inl (plain_hold ''shared_reply_unsupported'')
         | Some people \<Rightarrow>
             if \<not> (if people \<noteq> [] then shared_recipients_locked (rv_parse E) (dc_args c) (or_sender o1) people
                   else recipient_locked (rv_parse E) (dc_args c) (or_sender o1) reply_to)
             then Inl \<lparr>ho_reason = ''recipient_mismatch'',
               ho_extra = [(''draft_to'', PList (map PStr (sorted_list_of_set (draft_recipients (rv_parse E) (dc_args c)))))], ho_detail = []\<rparr>
             else if inbox_of E o1 bound = [] then Inl (plain_hold ''no_inbox_id'')
             else if bound \<noteq> None \<and> (redirected \<or> email_adapter d \<noteq> ADAPTER_MSGRAPH) then Inl (plain_hold ''bound_reply_unsupported'')
             else if redirected \<and> email_adapter d \<noteq> ADAPTER_MSGRAPH then Inl (plain_hold ''device_redirect_unsupported'')
             else Inr \<lparr>ad_to = reply_to, ad_redirected = redirected, ad_people = people\<rparr>)"

section \<open>The floors\<close>

definition gate_body :: "relay_env \<Rightarrow> pydict \<Rightarrow> string \<Rightarrow> bool \<Rightarrow> string set \<Rightarrow> string set \<Rightarrow> hold option" where
  "gate_body E d scan internal captions money =
     (let refuse = (\<lambda>r cats. Some \<lparr>ho_reason = r, ho_extra = [(''categories'', PList (map PStr cats))], ho_detail = []\<rparr>);
          fabrication = (case rv_outbound E scan d captions money of
            None \<Rightarrow> refuse ''outbound_gate_error'' []
          | Some (ok, tier) \<Rightarrow> if ok then None else refuse (''fabrication:'' @ (if tier = [] then ''blocked'' else tier)) [])
      in if internal then fabrication
         else (case rv_floor E scan of
            None \<Rightarrow> refuse ''content_floor_error'' []
          | Some (Some cats) \<Rightarrow> refuse ''content_sensitive'' cats
          | Some None \<Rightarrow> fabrication))"

text \<open>A classification that cannot be made is \<open>None\<close>.\<close>

definition reply_class :: "pydict \<Rightarrow> string \<Rightarrow> recipient_class option" where
  "reply_class d to =
     (case (inbound_roster d, outbound_roster d) of
        (Inr internal, Inr typed) \<Rightarrow> Some (classify_recipients_typed [to] internal typed False)
      | _ \<Rightarrow> None)"

definition floor_exempt :: "relay_env \<Rightarrow> string \<Rightarrow> binding option \<Rightarrow> recipient_class option \<Rightarrow> bool" where
  "floor_exempt E sid bound cls \<longleftrightarrow> cls = Some INTERNAL \<and> \<not> (bound \<noteq> None \<and> is_tainted (rv_taint E) sid)"

record approved =
  ap_scan :: string
  ap_text :: string
  ap_html :: string
  ap_class :: "recipient_class option"
  ap_internal :: bool

definition class_name :: "recipient_class option \<Rightarrow> string" where
  "class_name c =
     (case c of
        None \<Rightarrow> ''unclassified''
      | Some INTERNAL \<Rightarrow> ''internal'' | Some CLIENT \<Rightarrow> ''client'' | Some VENDOR \<Rightarrow> ''records_vendor''
      | Some OUTSIDE \<Rightarrow> ''outside'' | Some UNKNOWN \<Rightarrow> ''unknown'')"

definition reply_verdict :: "relay_env \<Rightarrow> string \<Rightarrow> string \<Rightarrow> string \<Rightarrow> recipient_class option \<Rightarrow> matter_verdict" where
  "reply_verdict E sid scan to cls =
     fst (evaluate_matter sid scan {to} (cls = Some INTERNAL \<or> cls = Some VENDOR) (rv_matters E))"

definition matter_hold :: "relay_env \<Rightarrow> matter_verdict \<Rightarrow> hold option" where
  "matter_hold E v =
     (if mv_status v = Mismatch \<and> gate_blocks (rv_matter_mode E)
      then Some \<lparr>ho_reason = ''matter_mismatch'',
        ho_extra = [(''matters'', PList (map PStr (mv_matters v))), (''detail'', PStr (mv_reason v))], ho_detail = []\<rparr>
      else None)"

definition unresolved_row :: "origin \<Rightarrow> string \<Rightarrow> string \<Rightarrow> matter_verdict \<Rightarrow> relay_event list" where
  "unresolved_row o1 target to v =
     (if mv_status v = Unresolved \<and> mv_matters v \<noteq> []
      then [Row ''MATTER_UNRESOLVED'' ([(''recipient'', PStr to), (''message_id'', PStr (or_message_id o1))] @
        snd (reply_recipient o1 target) @ [(''matters'', PList (map PStr (mv_matters v))), (''detail'', PStr (mv_reason v))])]
      else [])"

text \<open>The rows of the checks that ran, with the hold or the approved reply.\<close>

definition check_content ::
  "relay_env \<Rightarrow> pydict \<Rightarrow> draft_call \<Rightarrow> origin \<Rightarrow> binding option \<Rightarrow> addressee \<Rightarrow> (hold + approved) relayed" where
  "check_content E d c o1 bound ad =
     (let (scan, text, html) = draft_body (dc_args c);
          cls = reply_class d (ad_to ad);
          internal = floor_exempt E (dc_session c) bound cls;
          (captions, money) = (case rv_register E (dc_session c) of None \<Rightarrow> ({}, {}) | Some r \<Rightarrow> r)
      in case gate_body E d scan internal captions money of
           Some h \<Rightarrow> ([], Inl h)
         | None \<Rightarrow>
             let checked = rv_checklist E (if text \<noteq> [] then text else rv_visible E html) internal;
                 noted = (case checked of Report_Only rules \<Rightarrow> [Row ''SPEC_GATE_TRIGGERED'' [(''rules'', PStr rules)]] | _ \<Rightarrow> [])
             in case checked of
                  Corrections rules detail \<Rightarrow>
                    (noted, Inl \<lparr>ho_reason = ''output_checklist'', ho_extra = [(''rules'', PStr rules)], ho_detail = detail\<rparr>)
                | _ \<Rightarrow>
                    if text = [] \<and> html = [] then (noted, Inl (plain_hold ''empty_body''))
                    else
                      let v = reply_verdict E (dc_session c) scan (ad_to ad) cls
                      in (case matter_hold E v of
                            Some h \<Rightarrow> (noted, Inl h)
                          | None \<Rightarrow> (noted @ unresolved_row o1 (if ad_redirected ad then ad_to ad else []) (ad_to ad) v,
                              Inr \<lparr>ap_scan = scan, ap_text = text, ap_html = html, ap_class = cls, ap_internal = internal\<rparr>)))"

section \<open>Pacing and sending\<close>

definition live_policy :: "pydict \<Rightarrow> send_policy" where
  "live_policy d = (case send_policy_block d of Inl e \<Rightarrow> DEFAULT_SEND_POLICY | Inr b \<Rightarrow> resolve_send_policy (PDict b))"

definition msgraph_html :: "relay_env \<Rightarrow> string \<Rightarrow> string \<Rightarrow> string" where
  "msgraph_html E text html =
     (if strip html \<noteq> [] then html else if strip text \<noteq> [] then rv_markdown E text else [])"

definition transmitted_body :: "relay_env \<Rightarrow> string \<Rightarrow> string \<Rightarrow> string \<Rightarrow> string \<times> string" where
  "transmitted_body E adapter text html =
     (if adapter = ADAPTER_MSGRAPH
      then let t = (if text \<noteq> [] then text else html) in (t, msgraph_html E t html)
      else (text, html))"

definition rate_text :: "rate_reason \<Rightarrow> string" where
  "rate_text r =
     (case r of Rate_Backstop \<Rightarrow> ''rate_limited_backstop'' | Rate_Global \<Rightarrow> ''rate_limited_global''
      | Rate_Per_Sender \<Rightarrow> ''rate_limited_per_sender'')"

definition held_pending_for :: "string \<Rightarrow> send_policy \<Rightarrow> relay_state \<Rightarrow> bool" where
  "held_pending_for to p st \<longleftrightarrow> sp_held_release p \<and> (case rs_held st of None \<Rightarrow> False | Some s \<Rightarrow> has_pending to s)"

text \<open>The reason for holding the reply now, if any, and the windows after asking.\<close>

definition pace_reply :: "relay_env \<Rightarrow> send_policy \<Rightarrow> string \<Rightarrow> bool \<Rightarrow> limiter \<Rightarrow> relay_state \<Rightarrow> string option \<times> limiter" where
  "pace_reply E p to internal L st =
     (if held_pending_for to p st then (Some ''queued_behind_held'', L)
      else (case rate_check (rv_tick E) to internal p L of (r, L') \<Rightarrow> (map_option rate_text r, L')))"

definition queued_row :: "relay_env \<Rightarrow> string \<Rightarrow> origin \<Rightarrow> string \<Rightarrow> string \<Rightarrow> string \<Rightarrow> approved \<Rightarrow> held_reply" where
  "queued_row E reason o1 inbox target adapter ap =
     \<lparr>hr_id = 0, hr_created = rv_now E, hr_sender = or_sender o1, hr_class = class_name (ap_class ap), hr_adapter = adapter,
      hr_inbox = inbox, hr_message = or_message_id o1, hr_text = Some (ap_text ap), hr_html = Some (ap_html ap),
      hr_digest = rv_digest E (ap_scan ap), hr_reason = reason, hr_status = Held, hr_released = None, hr_error = None,
      hr_reply_to = target\<rparr>"

definition enqueue_hold ::
  "relay_env \<Rightarrow> send_policy \<Rightarrow> string \<Rightarrow> origin \<Rightarrow> string \<Rightarrow> string \<Rightarrow> string \<Rightarrow> approved \<Rightarrow> held_store option \<Rightarrow> (held_reply \<times> held_store) option" where
  "enqueue_hold E p reason o1 inbox target adapter ap hs =
     (case hs of
        None \<Rightarrow> None
      | Some s \<Rightarrow>
          if \<not> sp_held_release p \<or> inbox = BOUND_INBOX then None
          else let row = queued_row E reason o1 inbox target adapter ap in Some (row, snd (enqueue_held (rv_now E) row s)))"

definition hold_for_pace ::
  "relay_env \<Rightarrow> pydict \<Rightarrow> draft_call \<Rightarrow> origin \<Rightarrow> binding option \<Rightarrow> string \<Rightarrow> addressee \<Rightarrow> approved \<Rightarrow> string \<Rightarrow> relay_state \<Rightarrow> relay_state relayed" where
  "hold_for_pace E d c o1 bound key ad ap reason st =
     (let target = (if ad_redirected ad then ad_to ad else []);
          extra = (\<lambda>q. \<lparr>ho_reason = reason, ho_extra = [(''sender_class'', PStr (class_name (ap_class ap))), (''held_for_release'', PBool q)],
            ho_detail = []\<rparr>)
      in if ad_people ad \<noteq> [] then hold_reply E c o1 target (plain_hold ''shared_reply_rate_limited'') st
         else (case enqueue_hold E (live_policy d) reason o1 (inbox_of E o1 bound) target (email_adapter d) ap (rs_held st) of
            None \<Rightarrow> (let (evs, st') = hold_reply E c o1 target (extra False) st in (evs @ [Page reason (ad_to ad)], st'))
          | Some (row, s) \<Rightarrow>
              let st1 = st\<lparr>rs_held := Some s, rs_replied := commit_reply key o1 (rs_replied st),
                    rs_bodies := note_body (dc_session c) [ap_text ap, ap_html ap] (rs_bodies st)\<rparr>;
                  (evs, st') = hold_reply E c o1 target (extra True) st1
              in (Queued key row # evs @ [Page reason (ad_to ad)], st')))"

definition reply_carrier :: "pydict \<Rightarrow> origin \<Rightarrow> binding option \<Rightarrow> addressee \<Rightarrow> carrier" where
  "reply_carrier d o1 bound ad =
     (case bound of
        Some b \<Rightarrow> Bound_Carrier (bd_request b)
      | None \<Rightarrow>
          if email_adapter d = ADAPTER_MSGRAPH
          then Graph_Carrier (or_message_id o1) (if ad_redirected ad then Some (ad_to ad) else None)
          else Mail_Carrier (or_message_id o1) (ad_people ad \<noteq> []))"

definition reply_sent_row ::
  "relay_env \<Rightarrow> pydict \<Rightarrow> origin \<Rightarrow> binding option \<Rightarrow> addressee \<Rightarrow> approved \<Rightarrow> transmission \<Rightarrow> string \<Rightarrow> relay_event" where
  "reply_sent_row E d o1 bound ad ap tx sent =
     Row ''REPLY_SENT'' ([(''recipient'', PStr (ad_to ad))] @ snd (reply_recipient o1 (if ad_redirected ad then ad_to ad else [])) @
       [(''recipient_class'', PStr (class_name (ap_class ap))), (''content_floor_applied'', PBool (\<not> ap_internal ap)),
        (''adapter'', PStr (email_adapter d)), (''in_reply_to'', PStr (or_message_id o1)), (''inbox_id'', PStr (inbox_of E o1 bound)),
        (''sent_message_id'', PStr sent), (''body_digest'', PStr (rv_digest E (ap_scan ap)))] @
       rv_digests E (tx_text tx) (tx_html tx) @
       (if rv_sender_key E (or_sender o1) = [] then [] else [(''sender_key'', PStr (rv_sender_key E (or_sender o1)))]))"

definition transmit_reply ::
  "relay_env \<Rightarrow> pydict \<Rightarrow> draft_call \<Rightarrow> origin \<Rightarrow> binding option \<Rightarrow> string \<Rightarrow> addressee \<Rightarrow> approved \<Rightarrow> relay_state \<Rightarrow> relay_state relayed" where
  "transmit_reply E d c o1 bound key ad ap st =
     (let (wire_text, wire_html) = transmitted_body E (email_adapter d) (ap_text ap) (ap_html ap);
          tx = \<lparr>tx_carrier = reply_carrier d o1 bound ad, tx_text = wire_text, tx_html = wire_html\<rparr>;
          result = rv_send E tx;
          target = (if ad_redirected ad then ad_to ad else []);
          carried = st\<lparr>rs_replied := commit_reply key o1 (rs_replied st),
            rs_bodies := note_body (dc_session c) [wire_text, wire_html] (rs_bodies st)\<rparr>;
          failed = (\<lambda>why st'. let (evs, st'') = send_failed E c o1 target (email_adapter d) why st' in (Transmitted key tx result # evs, st''))
      in case result of
           Sent_As sent \<Rightarrow>
             let (drafts, W) = take_drafts (dc_session c) key (rs_drafts st)
             in ([Transmitted key tx result, reply_sent_row E d o1 bound ad ap tx
                    (if sent = [] \<and> email_adapter d = ADAPTER_MSGRAPH then ''(sent via msgraph, id unavailable)'' else sent),
                  Opened_Answer (or_message_id o1) wire_text] @ discard_drafts drafts,
                 carried\<lparr>rs_drafts := W\<rparr>)
         | Unknown_Send why \<Rightarrow> failed why carried
         | Refused_Send why \<Rightarrow> failed why st
         | Faulted_Send kind \<Rightarrow> failed kind st)"

definition dispatch_reply ::
  "relay_env \<Rightarrow> pydict \<Rightarrow> draft_call \<Rightarrow> origin \<Rightarrow> binding option \<Rightarrow> string \<Rightarrow> addressee \<Rightarrow> approved \<Rightarrow> relay_state \<Rightarrow> relay_state relayed" where
  "dispatch_reply E d c o1 bound key ad ap st =
     (case rs_limiter st of
        None \<Rightarrow> hold_reply E c o1 (if ad_redirected ad then ad_to ad else []) (plain_hold ''rate_limited'') st
      | Some L \<Rightarrow>
          (case pace_reply E (live_policy d) (ad_to ad) (ap_internal ap) L st of
             (None, L') \<Rightarrow> transmit_reply E d c o1 bound key ad ap (st\<lparr>rs_limiter := Some L'\<rparr>)
           | (Some reason, L') \<Rightarrow> hold_for_pace E d c o1 bound key ad ap reason (st\<lparr>rs_limiter := Some L'\<rparr>)))"

section \<open>The decision and its two hooks\<close>

definition relay_turn :: "relay_env \<Rightarrow> pydict \<Rightarrow> draft_call \<Rightarrow> origin \<Rightarrow> binding option \<Rightarrow> relay_state \<Rightarrow> relay_state relayed" where
  "relay_turn E d c o1 bound st =
     (let key = reply_guard_key (dc_session c) bound o1;
          did = (if email_adapter d = ADAPTER_MSGRAPH then working_draft_id (rv_reading E) (dc_result c) else [])
      in if committed key (rs_replied st)
         then (let (evs, st') = hold_reply E c o1 [] (plain_hold ''duplicate_reply'') st in (evs @ discard_drafts [did], st'))
         else (case sender_on_roster d (PStr (or_sender o1)) of
            Inl e \<Rightarrow> relay_fault E c o1 [] ''CustomerConfigError'' st
          | Inr False \<Rightarrow> hold_reply E c o1 [] (plain_hold ''sender_not_on_roster'') st
          | Inr True \<Rightarrow>
              let st1 = st\<lparr>rs_drafts := track_draft (dc_session c) key did (rs_drafts st)\<rparr>
              in (case addressed E d c o1 bound of
                    Inl h \<Rightarrow> hold_reply E c o1 (redirect_target d o1) h st1
                  | Inr ad \<Rightarrow>
                      (case check_content E d c o1 bound ad of
                         (rows, Inl h) \<Rightarrow> (let (evs, st') = hold_reply E c o1 (redirect_target d o1) h st1 in (rows @ evs, st'))
                       | (rows, Inr ap) \<Rightarrow> (let (evs, st') = dispatch_reply E d c o1 bound key ad ap st1 in (rows @ evs, st'))))))"

definition relay_draft :: "relay_env \<Rightarrow> draft_call \<Rightarrow> relay_state \<Rightarrow> relay_state relayed" where
  "relay_draft E c st =
     (if \<not> rv_ready E \<or> dc_tool c \<notin> set CREATE_DRAFT_TOOLS \<or>
         draft_call_failed (rc_json (rv_reading E)) (dc_result c) (dc_status c) (dc_error c)
      then ([], st)
      else (case rv_config E of
         None \<Rightarrow> ([], st)
       | Some d \<Rightarrow>
           (case reply_source E (dc_session c) of
              None \<Rightarrow> ([], st)
            | Some (o1, bound) \<Rightarrow> relay_turn E d c o1 bound st)))"

definition on_post_tool_call :: "relay_env \<Rightarrow> draft_call \<Rightarrow> relay_state \<Rightarrow> relay_state relayed" where
  "on_post_tool_call E c st =
     (if dc_tool c \<notin> set CREATE_DRAFT_TOOLS then ([], st)
      else (case claim_decision DECIDED_MAX (dc_id c) (rs_decided st) of
         (Some False, D) \<Rightarrow> ([], st\<lparr>rs_decided := D\<rparr>)
       | (_, D) \<Rightarrow> relay_draft E c (st\<lparr>rs_decided := D\<rparr>)))"

definition on_transform_tool_result :: "relay_env \<Rightarrow> draft_call \<Rightarrow> relay_state \<Rightarrow> string option \<times> relay_state relayed" where
  "on_transform_tool_result E c st =
     (if dc_tool c \<notin> set CREATE_DRAFT_TOOLS then (None, ([], st))
      else
        let (first, D) = claim_decision DECIDED_MAX (dc_id c) (rs_decided st);
            (evs, st1) = (if first = Some True then relay_draft E c (st\<lparr>rs_decided := D\<rparr>) else ([], st\<lparr>rs_decided := D\<rparr>));
            (n, N) = take_notice (call_key c) (rs_notices st1)
        in (map_option (append_notice (case dc_result c of PStr s \<Rightarrow> s | _ \<Rightarrow> [])) n, (evs, st1\<lparr>rs_notices := N\<rparr>)))"

section \<open>What a decision does\<close>

definition delivers :: "string \<Rightarrow> relay_event \<Rightarrow> bool" where
  "delivers k ev \<longleftrightarrow>
     (case ev of
        Transmitted k' tx r \<Rightarrow> k' = k \<and> (case r of Sent_As s \<Rightarrow> True | Unknown_Send w \<Rightarrow> True | _ \<Rightarrow> False)
      | Queued k' row \<Rightarrow> k' = k
      | _ \<Rightarrow> False)"

definition deliveries_of :: "string \<Rightarrow> relay_event list \<Rightarrow> nat" where
  "deliveries_of k evs = length (filter (delivers k) evs)"

lemma delivers_simps [simp]:
  "\<not> delivers k (Row a m)" "\<not> delivers k (Page r p)" "\<not> delivers k (Discarded i)" "\<not> delivers k (Opened_Answer mid b)"
  "delivers k (Queued k' row) \<longleftrightarrow> k' = k" "delivers k (Transmitted k' tx (Sent_As s)) \<longleftrightarrow> k' = k"
  "delivers k (Transmitted k' tx (Unknown_Send w)) \<longleftrightarrow> k' = k" "\<not> delivers k (Transmitted k' tx (Refused_Send w))"
  "\<not> delivers k (Transmitted k' tx (Faulted_Send w))"
  by (simp_all add: delivers_def)

lemma deliveries_simps [simp]:
  "deliveries_of k [] = 0" "deliveries_of k (xs @ ys) = deliveries_of k xs + deliveries_of k ys"
  "deliveries_of k (x # xs) = (if delivers k x then Suc (deliveries_of k xs) else deliveries_of k xs)"
  "deliveries_of k (discard_drafts ids) = 0"
  by (auto simp: deliveries_of_def discard_drafts_def filter_empty_conv)

lemma hold_reply_events [simp]: "fst (hold_reply E c o1 t h st) = [held_reply_event E c o1 t h]"
  by (simp add: hold_reply_def)

lemma hold_reply_frame [simp]:
  "rs_replied (snd (hold_reply E c o1 t h st)) = rs_replied st" "rs_decided (snd (hold_reply E c o1 t h st)) = rs_decided st"
  "rs_held (snd (hold_reply E c o1 t h st)) = rs_held st" "rs_limiter (snd (hold_reply E c o1 t h st)) = rs_limiter st"
  by (simp_all add: hold_reply_def)

lemma held_event_silent [simp]: "\<not> delivers k (held_reply_event E c o1 t h)"
  by (simp add: held_reply_event_def)

lemma send_failed_frame [simp]:
  "rs_replied (snd (send_failed E c o1 t a w st)) = rs_replied st" "rs_decided (snd (send_failed E c o1 t a w st)) = rs_decided st"
  "rs_held (snd (send_failed E c o1 t a w st)) = rs_held st" "deliveries_of k (fst (send_failed E c o1 t a w st)) = 0"
  by (simp_all add: send_failed_def case_prod_unfold Let_def)

lemma relay_fault_frame [simp]:
  "rs_replied (snd (relay_fault E c o1 t w st)) = rs_replied st" "rs_decided (snd (relay_fault E c o1 t w st)) = rs_decided st"
  "deliveries_of k (fst (relay_fault E c o1 t w st)) = 0"
  by (simp_all add: relay_fault_def)

definition only_rows :: "relay_event list \<Rightarrow> bool" where
  "only_rows evs \<longleftrightarrow> list_all (\<lambda>e. case e of Row a m \<Rightarrow> True | _ \<Rightarrow> False) evs"

lemma unresolved_rows: "only_rows (unresolved_row o1 t to v)"
  by (simp add: unresolved_row_def only_rows_def)

lemma check_rows: "only_rows (fst (check_content E d c o1 bound ad))"
proof -
  let ?b = "draft_body (dc_args c)" and ?cls = "reply_class d (ad_to ad)"
  let ?i = "floor_exempt E (dc_session c) bound ?cls"
  let ?r = "case rv_register E (dc_session c) of None \<Rightarrow> ({}, {}) | Some r \<Rightarrow> r"
  let ?v = "reply_verdict E (dc_session c) (fst ?b) (ad_to ad) ?cls"
  show ?thesis
    using unresolved_rows [of o1 "if ad_redirected ad then ad_to ad else []" "ad_to ad" ?v]
    by (cases "gate_body E d (fst ?b) ?i (fst ?r) (snd ?r)";
        cases "rv_checklist E (if fst (snd ?b) \<noteq> [] then fst (snd ?b) else rv_visible E (snd (snd ?b))) ?i"; cases "matter_hold E ?v")
      (simp_all add: check_content_def case_prod_unfold Let_def only_rows_def)
qed

lemma rows_silent: "only_rows evs \<Longrightarrow> deliveries_of k evs = 0"
  by (auto simp: only_rows_def deliveries_of_def filter_empty_conv list_all_iff delivers_def split: relay_event.splits)

lemma check_rows_silent [simp]: "deliveries_of k (fst (check_content E d c o1 bound ad)) = 0"
  by (rule rows_silent [OF check_rows])

text \<open>Either nothing is delivered and the register of answered messages stays, or the reply is, once.\<close>

definition once_more :: "string \<Rightarrow> origin \<Rightarrow> relay_state \<Rightarrow> relay_state relayed \<Rightarrow> bool" where
  "once_more key o1 st R \<longleftrightarrow>
     ((\<forall>k. deliveries_of k (fst R) = 0) \<and> rs_replied (snd R) = rs_replied st) \<or>
     ((\<forall>k. deliveries_of k (fst R) = (if k = key then 1 else 0)) \<and> rs_replied (snd R) = commit_reply key o1 (rs_replied st))"

lemma once_more_prefix:
  "once_more key o1 st R \<Longrightarrow> (\<And>k. deliveries_of k xs = 0) \<Longrightarrow> rs_replied st = rs_replied st0 \<Longrightarrow> once_more key o1 st0 (xs @ fst R, snd R)"
  by (auto simp: once_more_def)

lemma pace_once: "once_more key o1 st (hold_for_pace E d c o1 bound key ad ap reason st)"
  by (auto simp: hold_for_pace_def once_more_def Let_def case_prod_unfold split: option.split)

lemma transmit_once: "once_more key o1 st (transmit_reply E d c o1 bound key ad ap st)"
  by (auto simp: transmit_reply_def once_more_def Let_def case_prod_unfold reply_sent_row_def split: send_result.split)

lemma dispatch_once: "once_more key o1 st (dispatch_reply E d c o1 bound key ad ap st)"
proof (cases "rs_limiter st")
  case None
  then show ?thesis by (simp add: dispatch_reply_def once_more_def)
next
  case (Some L)
  obtain r L' where p: "pace_reply E (live_policy d) (ad_to ad) (ap_internal ap) L st = (r, L')" by (rule prod.exhaust)
  then show ?thesis
    using Some transmit_once [of key o1 "st\<lparr>rs_limiter := Some L'\<rparr>"] pace_once [of key o1 "st\<lparr>rs_limiter := Some L'\<rparr>"]
    by (cases r) (simp_all add: dispatch_reply_def once_more_def)
qed

lemma turn_once:
  assumes "key = reply_guard_key (dc_session c) bound o1"
  shows "once_more key o1 st (relay_turn E d c o1 bound st)"
    and "committed key (rs_replied st) \<Longrightarrow> deliveries_of k (fst (relay_turn E d c o1 bound st)) = 0 \<and>
      rs_replied (snd (relay_turn E d c o1 bound st)) = rs_replied st"
proof -
  let ?draft = "if email_adapter d = ADAPTER_MSGRAPH then working_draft_id (rv_reading E) (dc_result c) else []"
  let ?st1 = "st\<lparr>rs_drafts := track_draft (dc_session c) key ?draft (rs_drafts st)\<rparr>"
  show done_already: "committed key (rs_replied st) \<Longrightarrow> deliveries_of k (fst (relay_turn E d c o1 bound st)) = 0 \<and>
      rs_replied (snd (relay_turn E d c o1 bound st)) = rs_replied st" for k
    by (simp add: relay_turn_def assms case_prod_unfold)
  have held: "once_more key o1 st (rows @ fst (hold_reply E c o1 t h ?st1), snd (hold_reply E c o1 t h ?st1))"
    if "\<And>k. deliveries_of k rows = 0" for rows t h
    using that by (simp add: once_more_def)
  have content: "once_more key o1 st
      (case check_content E d c o1 bound ad of
         (rows, Inl h) \<Rightarrow> (let (evs, st') = hold_reply E c o1 (redirect_target d o1) h ?st1 in (rows @ evs, st'))
       | (rows, Inr ap) \<Rightarrow> (let (evs, st') = dispatch_reply E d c o1 bound key ad ap ?st1 in (rows @ evs, st')))" for ad
  proof -
    obtain rows r where r: "check_content E d c o1 bound ad = (rows, r)" by (rule prod.exhaust)
    then have quiet: "deliveries_of k rows = 0" for k using check_rows_silent [of k E d c o1 bound ad] by simp
    show ?thesis
    proof (cases r)
      case (Inl h)
      then show ?thesis using r held [OF quiet] by (simp add: case_prod_unfold)
    next
      case (Inr ap)
      have "once_more key o1 st (rows @ fst (dispatch_reply E d c o1 bound key ad ap ?st1), snd (dispatch_reply E d c o1 bound key ad ap ?st1))"
        by (rule once_more_prefix [OF dispatch_once quiet]) simp
      then show ?thesis using r Inr by (simp only: prod.case sum.case case_prod_unfold Let_def fst_conv snd_conv)
    qed
  qed
  show "once_more key o1 st (relay_turn E d c o1 bound st)"
  proof (cases "committed key (rs_replied st)")
    case True
    then show ?thesis using done_already by (simp add: once_more_def)
  next
    case False
    have plain: "once_more key o1 st (hold_reply E c o1 t h st)" "once_more key o1 st (hold_reply E c o1 t h ?st1)"
      "once_more key o1 st (relay_fault E c o1 t w st)" for t h w
      by (simp_all add: once_more_def)
    show ?thesis
    proof (cases "sender_on_roster d (PStr (or_sender o1)) = Inr True")
      case True
      show ?thesis
      proof (cases "addressed E d c o1 bound")
        case (Inl h)
        then show ?thesis using True False plain by (simp add: relay_turn_def assms [symmetric] Let_def)
      next
        case (Inr ad)
        have "relay_turn E d c o1 bound st =
          (case check_content E d c o1 bound ad of
             (rows, Inl h) \<Rightarrow> (let (evs, st') = hold_reply E c o1 (redirect_target d o1) h ?st1 in (rows @ evs, st'))
           | (rows, Inr ap) \<Rightarrow> (let (evs, st') = dispatch_reply E d c o1 bound key ad ap ?st1 in (rows @ evs, st')))"
          unfolding relay_turn_def Let_def assms [symmetric] using True False Inr by (simp split del: if_split)
        with content [of ad] show ?thesis by (simp only:)
      qed
    next
      case other: False
      then show ?thesis
        using False plain by (cases "sender_on_roster d (PStr (or_sender o1))") (simp_all add: relay_turn_def assms [symmetric] Let_def)
    qed
  qed
qed

section \<open>Many hooks\<close>

datatype hook = Post_Hook | Transform_Hook

definition fire :: "hook \<times> relay_env \<times> draft_call \<Rightarrow> relay_state \<Rightarrow> relay_state relayed" where
  "fire f st = (case f of (Post_Hook, E, c) \<Rightarrow> on_post_tool_call E c st | (Transform_Hook, E, c) \<Rightarrow> snd (on_transform_tool_result E c st))"

fun fire_all :: "(hook \<times> relay_env \<times> draft_call) list \<Rightarrow> relay_state \<Rightarrow> relay_state relayed" where
  "fire_all [] st = ([], st)"
| "fire_all (f # fs) st = (let (evs, st1) = fire f st; (more, st2) = fire_all fs st1 in (evs @ more, st2))"

lemma source_key: "reply_source E sid = Some (o1, bound) \<Longrightarrow> reply_guard_key sid bound o1 \<noteq> []"
  by (auto simp: reply_source_def reply_guard_key_def bound_this_turn_def Let_def split: option.splits if_splits)

lemma draft_once:
  "(\<exists>key o1. key \<noteq> [] \<and> once_more key o1 st (relay_draft E c st) \<and>
     (committed key (rs_replied st) \<longrightarrow> rs_replied (snd (relay_draft E c st)) = rs_replied st \<and> (\<forall>k. deliveries_of k (fst (relay_draft E c st)) = 0)))"
proof (cases "relay_draft E c st = ([], st)")
  case True
  then show ?thesis by (intro exI [of _ "''x''"] exI) (simp add: once_more_def)
next
  case False
  then obtain d o1 bound where s: "reply_source E (dc_session c) = Some (o1, bound)" "relay_draft E c st = relay_turn E d c o1 bound st"
    by (auto simp: relay_draft_def split: if_splits option.splits prod.splits)
  note once = turn_once [where E = E and d = d and c = c and ?o1.0 = o1 and bound = bound and st = st, OF refl]
  show ?thesis
    using once source_key [OF s(1)] s(2)
    by (intro exI [of _ "reply_guard_key (dc_session c) bound o1"] exI [of _ o1]) (simp only:, blast)
qed

lemma once_more_replied: "once_more key o1 st R \<Longrightarrow> rs_replied st = rs_replied st' \<Longrightarrow> once_more key o1 st' R"
  by (simp add: once_more_def)

lemma fire_once:
  "(\<exists>key o1. key \<noteq> [] \<and> once_more key o1 st (fire f st) \<and>
     (committed key (rs_replied st) \<longrightarrow> rs_replied (snd (fire f st)) = rs_replied st \<and> (\<forall>k. deliveries_of k (fst (fire f st)) = 0)))"
proof -
  obtain h E c where f: "f = (h, E, c)" by (cases f)
  obtain b D where cl: "claim_decision DECIDED_MAX (dc_id c) (rs_decided st) = (b, D)" by (rule prod.exhaust)
  let ?R = "relay_draft E c (st\<lparr>rs_decided := D\<rparr>)"
  have shape: "fst (fire f st) = [] \<and> rs_replied (snd (fire f st)) = rs_replied st \<or>
      fst (fire f st) = fst ?R \<and> rs_replied (snd (fire f st)) = rs_replied (snd ?R)"
    using cl by (auto simp: f fire_def on_post_tool_call_def on_transform_tool_result_def Let_def take_notice_def case_prod_unfold
      split: hook.split option.split bool.split)
  obtain key o1 where k: "key \<noteq> []" "once_more key o1 (st\<lparr>rs_decided := D\<rparr>) ?R"
      "committed key (rs_replied st) \<longrightarrow> rs_replied (snd ?R) = rs_replied st \<and> (\<forall>k. deliveries_of k (fst ?R) = 0)"
    using draft_once [of "st\<lparr>rs_decided := D\<rparr>" E c] by auto
  show ?thesis
    using shape k by (intro exI [of _ key] exI [of _ o1]) (auto simp: once_more_def)
qed

lemma commit_room:
  assumes "length R < max 1 cap"
  shows "set (commit_id cap i R) = (if i = [] then set R else insert i (set R))" "length (commit_id cap i R) \<le> Suc (length R)"
  using assms by (auto simp: commit_id_def)

lemma commit_reply_room:
  assumes "length R + 2 \<le> REPLIED_MAX" "key \<noteq> []"
  shows "insert key (set R) \<subseteq> set (commit_reply key o1 R)" "length (commit_reply key o1 R) \<le> length R + 2"
proof -
  have 1: "length R < max 1 REPLIED_MAX" "length (commit_id REPLIED_MAX key R) \<le> Suc (length R)" using assms commit_room(2) [of R REPLIED_MAX key] by simp_all
  then have 2: "length (commit_id REPLIED_MAX key R) < max 1 REPLIED_MAX" using assms(1) by simp
  show "insert key (set R) \<subseteq> set (commit_reply key o1 R)"
    using commit_room(1) [OF 1(1), of key] commit_room(1) [OF 2, of "or_message_id o1"] assms(2) by (auto simp: commit_reply_def Let_def)
  show "length (commit_reply key o1 R) \<le> length R + 2"
    using 1(2) commit_room(2) [OF 2, of "or_message_id o1"] by (auto simp: commit_reply_def Let_def)
qed

text \<open>A change of the register that one decision can make, and runs of them.\<close>

definition answer_step :: "relay_state \<Rightarrow> relay_state relayed \<Rightarrow> bool" where
  "answer_step st R \<longleftrightarrow>
     (\<exists>key o1. key \<noteq> [] \<and> once_more key o1 st R \<and>
        (committed key (rs_replied st) \<longrightarrow> rs_replied (snd R) = rs_replied st \<and> (\<forall>k. deliveries_of k (fst R) = 0)))"

lemma answer_quiet: "\<forall>k. deliveries_of k (fst R) = 0 \<Longrightarrow> rs_replied (snd R) = rs_replied st \<Longrightarrow> answer_step st R"
  unfolding answer_step_def once_more_def by (intro exI [of _ "''x''"]) simp

lemma draft_steps: "answer_step st (relay_draft E c st)"
  unfolding answer_step_def by (rule draft_once)

lemma fire_steps: "answer_step st (fire f st)"
  unfolding answer_step_def by (rule fire_once)

inductive answer_run :: "nat \<Rightarrow> relay_state \<Rightarrow> relay_event list \<Rightarrow> relay_state \<Rightarrow> bool" where
  Over: "answer_run 0 st [] st"
| Step: "answer_step st (evs, st1) \<Longrightarrow> answer_run n st1 evs1 st2 \<Longrightarrow> answer_run (Suc n) st (evs @ evs1) st2"

lemma run_answers_once:
  assumes "answer_run n st evs st'" "2 * n + length (rs_replied st) \<le> REPLIED_MAX" "k \<noteq> []"
  shows "deliveries_of k evs \<le> (if k \<in> set (rs_replied st) then 0 else 1)"
  using assms(1,2)
proof (induction rule: answer_run.induct)
  case (Over st)
  then show ?case by simp
next
  case (Step st evs st1 n evs1 st2)
  obtain key o1 where key: "key \<noteq> []" "once_more key o1 st (evs, st1)"
      "committed key (rs_replied st) \<longrightarrow> rs_replied st1 = rs_replied st \<and> (\<forall>k. deliveries_of k evs = 0)"
    using Step.hyps(1) by (auto simp: answer_step_def)
  have room: "length (rs_replied st) + 2 \<le> REPLIED_MAX" using Step.prems by simp
  consider (same) "\<forall>k. deliveries_of k evs = 0" "rs_replied st1 = rs_replied st"
    | (new) "key \<notin> set (rs_replied st)" "\<forall>k. deliveries_of k evs = (if k = key then 1 else 0)" "rs_replied st1 = commit_reply key o1 (rs_replied st)"
    using key by (fastforce simp: once_more_def committed_def)
  then show ?case
  proof cases
    case same
    then show ?thesis using Step.IH Step.prems by simp
  next
    case new
    have "2 * n + length (rs_replied st1) \<le> REPLIED_MAX"
      using commit_reply_room(2) [OF room key(1), of o1] new(3) Step.prems by simp
    from Step.IH [OF this] show ?thesis
      using commit_reply_room(1) [OF room key(1), of o1] new by (auto split: if_splits)
  qed
qed

lemma fire_all_runs: "answer_run (length fs) st (fst (fire_all fs st)) (snd (fire_all fs st))"
proof (induction fs arbitrary: st)
  case Nil
  show ?case by (simp add: answer_run.Over)
next
  case (Cons f fs)
  obtain evs st1 where f: "fire f st = (evs, st1)" by (rule prod.exhaust)
  have "answer_step st (evs, st1)" using fire_steps [of st f] by (simp add: f)
  from answer_run.Step [OF this Cons.IH [of st1]] show ?case by (simp add: f case_prod_unfold Let_def)
qed

lemma answered_once:
  assumes "2 * length fs + length (rs_replied st) \<le> REPLIED_MAX" "k \<noteq> []"
  shows "deliveries_of k (fst (fire_all fs st)) \<le> (if k \<in> set (rs_replied st) then 0 else 1)"
  using fire_all_runs assms by (rule run_answers_once)

section \<open>Nobody is left untold\<close>

definition told_or_out :: "string \<Rightarrow> relay_state relayed \<Rightarrow> bool" where
  "told_or_out call R \<longleftrightarrow>
     notice_pending call (rs_notices (snd R)) \<or> (\<exists>k tx s. Transmitted k tx (Sent_As s) \<in> set (fst R)) \<or>
     (\<exists>k row. Queued k row \<in> set (fst R))"

lemma notice_recorded [simp]: "notice_pending call (record_notice call r p m d N)"
  by (simp add: notice_pending_def record_notice_def Let_def update_conv')

lemma hold_told:
  "\<not> truthy (dget (ho_extra h) ''held_for_release'') \<Longrightarrow> notice_pending (call_key c) (rs_notices (snd (hold_reply E c o1 t h st)))"
  by (simp add: hold_reply_def)

lemma failed_told [simp]: "notice_pending (call_key c) (rs_notices (snd (send_failed E c o1 t a w st)))"
  by (simp add: send_failed_def case_prod_unfold Let_def)

lemma fault_told [simp]: "notice_pending (call_key c) (rs_notices (snd (relay_fault E c o1 t w st)))"
  by (simp add: relay_fault_def)

lemma plain_told [simp]: "\<not> truthy (dget (ho_extra (plain_hold r)) k)"
  by (simp add: plain_hold_def dget_def)

lemma addressed_told: "addressed E d c o1 bound = Inl h \<Longrightarrow> \<not> truthy (dget (ho_extra h) ''held_for_release'')"
  by (auto simp: addressed_def Let_def dget_def plain_hold_def split: option.splits if_splits)

lemma gate_told: "gate_body E d scan i cs m = Some h \<Longrightarrow> \<not> truthy (dget (ho_extra h) ''held_for_release'')"
  by (auto simp: gate_body_def Let_def dget_def split: option.splits if_splits prod.splits)

lemma content_told: "check_content E d c o1 bound ad = (rows, Inl h) \<Longrightarrow> \<not> truthy (dget (ho_extra h) ''held_for_release'')"
  by (auto simp: check_content_def matter_hold_def Let_def dget_def plain_hold_def
      split: prod.splits option.splits checklist_verdict.splits if_splits dest: gate_told [unfolded dget_def])

lemma pace_told: "told_or_out (call_key c) (hold_for_pace E d c o1 bound key ad ap reason st)"
  by (auto simp: hold_for_pace_def told_or_out_def Let_def case_prod_unfold hold_told dget_def plain_hold_def split: option.split)

lemma transmit_told: "told_or_out (call_key c) (transmit_reply E d c o1 bound key ad ap st)"
  by (auto simp: transmit_reply_def told_or_out_def Let_def case_prod_unfold split: send_result.split)

lemma dispatch_told: "told_or_out (call_key c) (dispatch_reply E d c o1 bound key ad ap st)"
proof (cases "rs_limiter st")
  case None
  then show ?thesis by (simp add: dispatch_reply_def told_or_out_def hold_told)
next
  case (Some L)
  obtain r L' where p: "pace_reply E (live_policy d) (ad_to ad) (ap_internal ap) L st = (r, L')" by (rule prod.exhaust)
  then show ?thesis
    using Some transmit_told pace_told by (cases r) (simp_all add: dispatch_reply_def)
qed

lemma told_prefix: "told_or_out call R \<Longrightarrow> told_or_out call (xs @ fst R, snd R)"
  by (auto simp: told_or_out_def)

lemma told_suffix: "told_or_out call R \<Longrightarrow> told_or_out call (fst R @ xs, snd R)"
  by (auto simp: told_or_out_def)

lemma held_out: "\<not> truthy (dget (ho_extra h) ''held_for_release'') \<Longrightarrow> told_or_out (call_key c) (hold_reply E c o1 t h st)"
  by (simp add: told_or_out_def hold_told)

lemma turn_told: "told_or_out (call_key c) (relay_turn E d c o1 bound st)"
proof -
  let ?key = "reply_guard_key (dc_session c) bound o1"
  let ?draft = "if email_adapter d = ADAPTER_MSGRAPH then working_draft_id (rv_reading E) (dc_result c) else []"
  let ?st1 = "st\<lparr>rs_drafts := track_draft (dc_session c) ?key ?draft (rs_drafts st)\<rparr>"
  show ?thesis
  proof (cases "committed ?key (rs_replied st)")
    case True
    have "told_or_out (call_key c) (hold_reply E c o1 [] (plain_hold ''duplicate_reply'') st)" by (simp add: held_out)
    from told_suffix [OF this] True show ?thesis by (simp add: relay_turn_def case_prod_unfold)
  next
    case False
    show ?thesis
    proof (cases "sender_on_roster d (PStr (or_sender o1)) = Inr True")
      case roster: True
      show ?thesis
      proof (cases "addressed E d c o1 bound")
        case (Inl h)
        then show ?thesis using False roster held_out addressed_told by (simp add: relay_turn_def Let_def)
      next
        case (Inr ad)
        obtain rows r where r: "check_content E d c o1 bound ad = (rows, r)" by (rule prod.exhaust)
        show ?thesis
        proof (cases r)
          case inl: (Inl h)
          then show ?thesis
            using False roster Inr r told_prefix [OF held_out [OF content_told], of E d c o1 bound ad rows h]
            by (simp add: relay_turn_def Let_def case_prod_unfold)
        next
          case ap: (Inr ap)
          then show ?thesis
            using False roster Inr r told_prefix [OF dispatch_told] by (simp add: relay_turn_def Let_def case_prod_unfold)
        qed
      qed
    next
      case other: False
      then show ?thesis
        using False by (auto simp: relay_turn_def Let_def held_out told_or_out_def hold_told split: sum.split bool.split)
    qed
  qed
qed

section \<open>What is transmitted\<close>

lemma check_rows_untransmitted: "Transmitted k tx r \<notin> set (fst (check_content E d c o1 bound ad))"
  using check_rows [of E d c o1 bound ad] by (auto simp: only_rows_def list_all_iff split: relay_event.splits)

lemma held_untransmitted [simp]: "Transmitted k tx r \<noteq> held_reply_event E c o1 t h"
  by (simp add: held_reply_event_def)

lemma pace_untransmitted: "Transmitted k tx r \<notin> set (fst (hold_for_pace E d c o1 bound key ad ap reason st))"
  by (auto simp: hold_for_pace_def Let_def case_prod_unfold split: option.split)

lemma fault_untransmitted: "Transmitted k tx r \<notin> set (fst (relay_fault E c o1 t w st))"
  by (auto simp: relay_fault_def send_failed_def case_prod_unfold Let_def)

lemma transmits_its_own:
  assumes "Transmitted k tx r \<in> set (fst (transmit_reply E d c o1 bound key ad ap st))"
  shows "k = key \<and> tx_carrier tx = reply_carrier d o1 bound ad \<and>
    (tx_text tx, tx_html tx) = transmitted_body E (email_adapter d) (ap_text ap) (ap_html ap) \<and> r = rv_send E tx"
  using assms
  by (auto simp: transmit_reply_def Let_def case_prod_unfold reply_sent_row_def discard_drafts_def send_failed_def split: send_result.splits)

lemma turn_transmits:
  assumes "Transmitted k tx r \<in> set (fst (relay_turn E d c o1 bound st))"
  obtains ad ap rows L where "sender_on_roster d (PStr (or_sender o1)) = Inr True" "addressed E d c o1 bound = Inr ad"
    "check_content E d c o1 bound ad = (rows, Inr ap)" "k = reply_guard_key (dc_session c) bound o1"
    "tx_carrier tx = reply_carrier d o1 bound ad" "(tx_text tx, tx_html tx) = transmitted_body E (email_adapter d) (ap_text ap) (ap_html ap)"
    "r = rv_send E tx" "rs_limiter st = Some L" "\<not> held_pending_for (ad_to ad) (live_policy d) st"
    "fst (rate_check (rv_tick E) (ad_to ad) (ap_internal ap) (live_policy d) L) = None"
proof -
  let ?key = "reply_guard_key (dc_session c) bound o1"
  let ?draft = "if email_adapter d = ADAPTER_MSGRAPH then working_draft_id (rv_reading E) (dc_result c) else []"
  let ?st1 = "st\<lparr>rs_drafts := track_draft (dc_session c) ?key ?draft (rs_drafts st)\<rparr>"
  have nc: "\<not> committed ?key (rs_replied st)" and on: "sender_on_roster d (PStr (or_sender o1)) = Inr True"
    using assms fault_untransmitted
    by (auto simp: relay_turn_def Let_def case_prod_unfold discard_drafts_def split: if_splits sum.splits bool.splits)
  obtain ad where ad: "addressed E d c o1 bound = Inr ad"
    using assms nc on by (cases "addressed E d c o1 bound") (auto simp: relay_turn_def Let_def)
  obtain rows q where q: "check_content E d c o1 bound ad = (rows, q)" by (rule prod.exhaust)
  have quiet: "Transmitted k tx r \<notin> set rows" using check_rows_untransmitted [of k tx r E d c o1 bound ad] q by simp
  obtain ap where ap: "q = Inr ap"
    using assms nc on ad q quiet by (cases q) (auto simp: relay_turn_def Let_def case_prod_unfold)
  have t: "Transmitted k tx r \<in> set (fst (dispatch_reply E d c o1 bound ?key ad ap ?st1))"
    using assms nc on ad q ap quiet by (auto simp: relay_turn_def Let_def case_prod_unfold)
  obtain L where L: "rs_limiter st = Some L" using t by (cases "rs_limiter st") (auto simp: dispatch_reply_def)
  obtain p L' where p: "pace_reply E (live_policy d) (ad_to ad) (ap_internal ap) L ?st1 = (p, L')" by (rule prod.exhaust)
  have "p = None"
    using t L p pace_untransmitted by (cases p) (auto simp: dispatch_reply_def)
  moreover from this have "Transmitted k tx r \<in> set (fst (transmit_reply E d c o1 bound ?key ad ap (?st1\<lparr>rs_limiter := Some L'\<rparr>)))"
    using t L p by (simp add: dispatch_reply_def)
  moreover have "\<not> held_pending_for (ad_to ad) (live_policy d) st" "fst (rate_check (rv_tick E) (ad_to ad) (ap_internal ap) (live_policy d) L) = None"
    using p \<open>p = None\<close> by (auto simp: pace_reply_def held_pending_for_def case_prod_unfold split: if_splits prod.splits)
  ultimately show ?thesis
    using transmits_its_own that [OF on ad] q ap L by metis
qed

text \<open>Where a carrier may go: the person who wrote, or the person the seat's own configuration names for them.\<close>

fun carrier_locked :: "relay_env \<Rightarrow> pydict \<Rightarrow> string set \<Rightarrow> origin \<Rightarrow> binding option \<Rightarrow> carrier \<Rightarrow> bool" where
  "carrier_locked E d named o1 bound (Bound_Carrier req) \<longleftrightarrow>
     (\<exists>b. bound = Some b \<and> req = bd_request b) \<and> named = {normalized (or_sender o1)}"
| "carrier_locked E d named o1 bound (Graph_Carrier m None) \<longleftrightarrow>
     bound = None \<and> m = or_message_id o1 \<and> named = {normalized (or_sender o1)}"
| "carrier_locked E d named o1 bound (Graph_Carrier m (Some a)) \<longleftrightarrow>
     bound = None \<and> m = or_message_id o1 \<and> device_reply_target d (PStr (or_sender o1)) = Some a \<and>
     named \<noteq> {} \<and> named \<subseteq> {normalized (or_sender o1), normalized a}"
| "carrier_locked E d named o1 bound (Mail_Carrier m False) \<longleftrightarrow>
     bound = None \<and> m = or_message_id o1 \<and> named = {normalized (or_sender o1)}"
| "carrier_locked E d named o1 bound (Mail_Carrier m True) \<longleftrightarrow>
     bound = None \<and> m = or_message_id o1 \<and>
     (\<exists>people. rv_people E d = Some people \<and> normalized (or_sender o1) \<in> set people \<and> named \<noteq> {} \<and> named \<subseteq> normalized ` set people)"

lemma locked_carrier:
  assumes "addressed E d c o1 bound = Inr ad"
  shows "carrier_locked E d (draft_recipients (rv_parse E) (dc_args c)) o1 bound (reply_carrier d o1 bound ad)"
proof -
  let ?target = "redirect_target d o1"
  let ?named = "draft_recipients (rv_parse E) (dc_args c)"
  obtain people where p: "shared_reply_people E d (dc_session c) o1 bound (?target \<noteq> []) = Some people"
    using assms by (auto simp: addressed_def Let_def split: option.splits)
  have ad: "ad = \<lparr>ad_to = if ?target \<noteq> [] then ?target else or_sender o1, ad_redirected = (?target \<noteq> []), ad_people = people\<rparr>"
    and lock: "if people \<noteq> [] then shared_recipients_locked (rv_parse E) (dc_args c) (or_sender o1) people
      else recipient_locked (rv_parse E) (dc_args c) (or_sender o1) (if ?target \<noteq> [] then ?target else or_sender o1)"
    and b: "\<not> (bound \<noteq> None \<and> (?target \<noteq> [] \<or> email_adapter d \<noteq> ADAPTER_MSGRAPH))"
    and g: "\<not> (?target \<noteq> [] \<and> email_adapter d \<noteq> ADAPTER_MSGRAPH)"
    using assms p by (auto simp: addressed_def Let_def split: if_splits)
  show ?thesis
  proof (cases "people = []")
    case False
    then have s: "email_adapter d = ''agentmail''" "bound = None" "?target = []" "normalized (or_sender o1) \<in> set people"
      "\<exists>ps. rv_people E d = Some ps \<and> people = filter (\<lambda>p. p \<noteq> []) ps"
      using p by (auto simp: shared_reply_people_def Let_def split: option.splits space_turn.splits if_splits)
    then have c: "reply_carrier d o1 bound ad = Mail_Carrier (or_message_id o1) True"
      using False ad by (simp add: reply_carrier_def ADAPTER_MSGRAPH_def)
    have "?named \<noteq> {}" "?named \<subseteq> normalized ` set people" using lock False by (auto simp: shared_recipients_locked_def Let_def)
    then show ?thesis using s c by (simp add: image_iff subset_iff) (metis mem_Collect_eq set_filter)
  next
    case True
    have lock': "recipient_locked (rv_parse E) (dc_args c) (or_sender o1) (if ?target \<noteq> [] then ?target else or_sender o1)"
      using lock True by simp
    show ?thesis
    proof (cases "?target = []")
      case straight: True
      then have n: "?named = {normalized (or_sender o1)}" using lock' by (auto simp: recipient_locked_def Let_def split: if_splits)
      show ?thesis using n b straight True ad by (cases bound) (auto simp: reply_carrier_def)
    next
      case False
      then have t: "device_reply_target d (PStr (or_sender o1)) = Some ?target" "?target \<noteq> normalized (or_sender o1)"
        by (auto simp: redirect_target_def split: option.splits if_splits)
      have n: "?named \<noteq> {} \<and> ?named \<subseteq> {normalized (or_sender o1), normalized ?target}"
        using lock' False by (auto simp: recipient_locked_def Let_def split: if_splits)
      show ?thesis using n b g False True ad t by (cases bound) (auto simp: reply_carrier_def)
    qed
  qed
qed

lemma content_passed:
  assumes "check_content E d c o1 bound ad = (rows, Inr ap)"
  shows "(\<exists>cs m tier. rv_outbound E (ap_scan ap) d cs m = Some (True, tier)) \<and> (ap_internal ap \<or> rv_floor E (ap_scan ap) = Some None) \<and>
    matter_hold E (reply_verdict E (dc_session c) (ap_scan ap) (ad_to ad) (ap_class ap)) = None \<and> (ap_text ap \<noteq> [] \<or> ap_html ap \<noteq> [])"
proof -
  let ?b = "draft_body (dc_args c)" and ?cls = "reply_class d (ad_to ad)"
  let ?i = "floor_exempt E (dc_session c) bound ?cls"
  let ?r = "case rv_register E (dc_session c) of None \<Rightarrow> ({}, {}) | Some r \<Rightarrow> r"
  let ?v = "reply_verdict E (dc_session c) (fst ?b) (ad_to ad) ?cls"
  have g: "gate_body E d (fst ?b) ?i (fst ?r) (snd ?r) = None"
    using assms by (cases "gate_body E d (fst ?b) ?i (fst ?r) (snd ?r)") (simp_all add: check_content_def case_prod_unfold Let_def)
  have ap: "ap = \<lparr>ap_scan = fst ?b, ap_text = fst (snd ?b), ap_html = snd (snd ?b), ap_class = ?cls, ap_internal = ?i\<rparr> \<and>
      matter_hold E ?v = None \<and> \<not> (fst (snd ?b) = [] \<and> snd (snd ?b) = [])"
    using assms g
    by (cases "rv_checklist E (if fst (snd ?b) \<noteq> [] then fst (snd ?b) else rv_visible E (snd (snd ?b))) ?i"; cases "matter_hold E ?v")
      (simp_all add: check_content_def case_prod_unfold Let_def split: if_splits)
  show ?thesis
    using g ap by (auto simp: gate_body_def Let_def split: option.splits if_splits prod.splits)
qed

section \<open>The two hooks\<close>

lemma pace_decided [simp]: "rs_decided (snd (hold_for_pace E d c o1 bound key ad ap reason st)) = rs_decided st"
  by (auto simp: hold_for_pace_def Let_def case_prod_unfold split: option.split)

lemma transmit_decided [simp]: "rs_decided (snd (transmit_reply E d c o1 bound key ad ap st)) = rs_decided st"
  by (auto simp: transmit_reply_def Let_def case_prod_unfold split: send_result.split)

lemma dispatch_decided [simp]: "rs_decided (snd (dispatch_reply E d c o1 bound key ad ap st)) = rs_decided st"
  by (auto simp: dispatch_reply_def split: option.split prod.split)

lemma turn_decided [simp]: "rs_decided (snd (relay_turn E d c o1 bound st)) = rs_decided st"
  by (auto simp: relay_turn_def Let_def case_prod_unfold split: sum.split bool.split)

lemma draft_decided [simp]: "rs_decided (snd (relay_draft E c st)) = rs_decided st"
  by (auto simp: relay_draft_def split: option.split prod.split)

lemma claim_again:
  assumes "claim_decision DECIDED_MAX v D = (Some b, D')"
  shows "claim_decision DECIDED_MAX v D' = (Some False, D')"
  using assms by (auto simp: claim_decision_def commit_id_def split: pyval.splits list.splits if_splits)

lemma claim_keyed:
  assumes "call_key c \<noteq> []"
  obtains b D' where "claim_decision DECIDED_MAX (dc_id c) D = (Some b, D')"
proof -
  from assms obtain x i where "dc_id c = PStr (x # i)" by (cases "dc_id c"; cases "call_key c") (auto simp: call_key_def)
  then have "claim_decision DECIDED_MAX (dc_id c) D =
      (if x # i \<in> set D then (Some False, D) else (Some True, commit_id DECIDED_MAX (x # i) D))"
    by (simp add: claim_decision_def)
  then show ?thesis by (cases "x # i \<in> set D") (simp_all, (erule that)+)
qed

lemma same_decided [simp]: "st\<lparr>rs_decided := rs_decided st\<rparr> = st"
  by simp

lemma hooks_commute:
  assumes "call_key c \<noteq> []"
  shows "(let (e1, s1) = on_post_tool_call E c st; (t, e2, s2) = on_transform_tool_result E c s1 in (t, e1 @ e2, s2)) =
    (let (t, e1, s1) = on_transform_tool_result E c st; (e2, s2) = on_post_tool_call E c s1 in (t, e1 @ e2, s2))"
proof (cases "dc_tool c \<in> set CREATE_DRAFT_TOOLS")
  case True
  obtain b D where cl: "claim_decision DECIDED_MAX (dc_id c) (rs_decided st) = (Some b, D)" using claim_keyed [OF assms] by metis
  note again = claim_again [OF cl]
  let ?st = "st\<lparr>rs_decided := D\<rparr>"
  define R where "R = (if b then relay_draft E c ?st else ([], ?st))"
  have R: "rs_decided (snd R) = D" by (simp add: R_def)
  obtain n N where tk: "take_notice (call_key c) (rs_notices (snd R)) = (n, N)" by (rule prod.exhaust)
  have post: "on_post_tool_call E c st = R" using True cl by (cases b) (simp_all add: on_post_tool_call_def R_def)
  have keep: "(snd R)\<lparr>rs_decided := D\<rparr> = snd R" using R by (metis same_decided)
  have trans: "on_transform_tool_result E c st =
      (map_option (append_notice (case dc_result c of PStr s \<Rightarrow> s | _ \<Rightarrow> [])) n, (fst R, (snd R)\<lparr>rs_notices := N\<rparr>))"
    using True cl tk by (cases b) (simp_all add: on_transform_tool_result_def R_def case_prod_unfold Let_def)
  have trans2: "on_transform_tool_result E c (snd R) =
      (map_option (append_notice (case dc_result c of PStr s \<Rightarrow> s | _ \<Rightarrow> [])) n, ([], (snd R)\<lparr>rs_notices := N\<rparr>))"
    using True again R tk keep by (simp add: on_transform_tool_result_def)
  have post2: "on_post_tool_call E c ((snd R)\<lparr>rs_notices := N\<rparr>) = ([], (snd R)\<lparr>rs_notices := N\<rparr>)"
    using True again R keep by (simp add: on_post_tool_call_def)
  show ?thesis by (simp add: post trans trans2 post2 case_prod_unfold Let_def)
qed (simp add: on_post_tool_call_def on_transform_tool_result_def)

section \<open>The properties\<close>

definition demo_config :: pydict where
  "demo_config = [(''scope'', PDict [(''inbound_allow_from'', PList [PStr ''ana@firm.com''])])]"

definition demo_origins :: origins where
  "demo_origins = note_turn_prompt 8 ''s'' ''m1''
     (snd (bind 8 ''s'' ''m1'' (record_origin 8 0 [] \<lparr>or_sender = ''ana@firm.com'', or_message_id = ''m1''\<rparr> no_origins)))"

definition demo_relay :: "pydict option \<Rightarrow> relay_env" where
  "demo_relay cfg =
     \<lparr>rv_ready = True, rv_config = cfg, rv_now = 0, rv_tick = 0, rv_reading = plain_env, rv_parse = id,
      rv_origins = demo_origins, rv_inbox = (\<lambda>_. ''inbox''), rv_taint = empty_odict, rv_sources = no_sources, rv_bindings = [],
      rv_people = (\<lambda>_. None), rv_space = (\<lambda>_. Other_Turn), rv_floor = (\<lambda>_. Some None), rv_register = (\<lambda>_. None),
      rv_outbound = (\<lambda>_ _ _ _. Some (True, [])), rv_checklist = (\<lambda>_ _. Clean_List), rv_visible = id, rv_markdown = id,
      rv_matters = no_matters, rv_matter_mode = ''block'', rv_digest = id, rv_digests = (\<lambda>_ _. []), rv_sender_key = id,
      rv_send = (\<lambda>_. Sent_As ''r1'')\<rparr>"

definition demo_draft :: "string \<Rightarrow> draft_call" where
  "demo_draft to =
     \<lparr>dc_tool = ''mcp_agentmail_create_draft'', dc_id = PStr ''k1'', dc_session = ''s'',
      dc_args = [(''to'', PStr to), (''text'', PStr ''Done.'')], dc_result = PStr ''ok'', dc_status = PNone, dc_error = PNone\<rparr>"

definition quiet_relay :: relay_state where
  "quiet_relay = \<lparr>rs_replied = [], rs_decided = [], rs_drafts = [], rs_limiter = Some new_limiter, rs_held = None,
     rs_notices = no_notices, rs_bodies = []\<rparr>"

definition demo_sent :: transmission where
  "demo_sent = \<lparr>tx_carrier = Mail_Carrier ''m1'' False, tx_text = ''Done.'', tx_html = []\<rparr>"

lemma demo_relayed:
  "Transmitted ''m1'' demo_sent (Sent_As ''r1'') \<in> set (fst (relay_draft (demo_relay (Some demo_config)) (demo_draft ''ana@firm.com'') quiet_relay))"
  by code_simp

lemma draft_transmits:
  assumes "Transmitted k tx r \<in> set (fst (relay_draft E c st))"
  obtains d o1 bound where "rv_config E = Some d" "reply_source E (dc_session c) = Some (o1, bound)"
    "relay_draft E c st = relay_turn E d c o1 bound st" "dc_tool c \<in> set CREATE_DRAFT_TOOLS"
proof -
  have "dc_tool c \<in> set CREATE_DRAFT_TOOLS" using assms by (auto simp: relay_draft_def split: if_splits)
  then show ?thesis using assms that by (auto simp: relay_draft_def split: if_splits option.splits prod.splits)
qed

lemma transmits_locked:
  assumes "Transmitted k tx r \<in> set (fst (relay_draft E c st))"
  shows "\<exists>d o1 bound. rv_config E = Some d \<and> reply_source E (dc_session c) = Some (o1, bound) \<and>
    sender_on_roster d (PStr (or_sender o1)) = Inr True \<and>
    carrier_locked E d (draft_recipients (rv_parse E) (dc_args c)) o1 bound (tx_carrier tx)"
proof -
  obtain d o1 bound where t: "rv_config E = Some d" "reply_source E (dc_session c) = Some (o1, bound)"
    "relay_draft E c st = relay_turn E d c o1 bound st"
    using assms by (rule draft_transmits)
  obtain ad ap where "sender_on_roster d (PStr (or_sender o1)) = Inr True" "addressed E d c o1 bound = Inr ad"
    "tx_carrier tx = reply_carrier d o1 bound ad"
    using turn_transmits assms t(3) by metis
  then show ?thesis using t locked_carrier by metis
qed

text \<open>C15: a reply reaches only the person it is locked to: whatever the agent drafted, what is transmitted answers the
  turn's own message, its draft named the writer and nobody else, or the one person the seat's configuration
  redirects a device to, or the people of a joint thread the writer is one of, and the writer is on the roster.\<close>

theorem only_the_locked_person_is_answered:
  assumes "Transmitted k tx r \<in> set (fst (relay_draft E c st))"
  shows "\<exists>d o1 bound. rv_config E = Some d \<and> reply_source E (dc_session c) = Some (o1, bound) \<and>
    sender_on_roster d (PStr (or_sender o1)) = Inr True \<and>
    carrier_locked E d (draft_recipients (rv_parse E) (dc_args c)) o1 bound (tx_carrier tx)"
  using assms by (rule transmits_locked)

lemma only_the_locked_person_is_answered_witness:
  "\<exists>d o1 bound. rv_config (demo_relay (Some demo_config)) = Some d \<and>
    reply_source (demo_relay (Some demo_config)) ''s'' = Some (o1, bound) \<and>
    sender_on_roster d (PStr (or_sender o1)) = Inr True \<and>
    carrier_locked (demo_relay (Some demo_config)) d
      (draft_recipients id [(''to'', PStr ''ana@firm.com''), (''text'', PStr ''Done.'')]) o1 bound (tx_carrier demo_sent)"
  using only_the_locked_person_is_answered [OF demo_relayed] by (simp add: demo_relay_def demo_draft_def)

text \<open>one email gets one answer: over any run of hooks that the register of answered messages can hold, at most
  one reply is sent, left in doubt or queued for a message, and none for one already answered.\<close>

theorem one_email_one_answer:
  assumes "2 * length fs + length (rs_replied st) \<le> REPLIED_MAX" "k \<noteq> []"
  shows "deliveries_of k (fst (fire_all fs st)) \<le> (if k \<in> set (rs_replied st) then 0 else 1)"
  using assms by (rule answered_once)

lemma one_email_one_answer_witness:
  "deliveries_of ''m1'' (fst (fire_all
     [(Post_Hook, demo_relay (Some demo_config), demo_draft ''ana@firm.com''),
      (Transform_Hook, demo_relay (Some demo_config), demo_draft ''ana@firm.com''),
      (Post_Hook, demo_relay (Some demo_config), demo_draft ''ana@firm.com'' \<lparr>dc_id := PNone\<rparr>)] quiet_relay)) \<le> 1"
proof -
  have "deliveries_of ''m1'' (fst (fire_all
     [(Post_Hook, demo_relay (Some demo_config), demo_draft ''ana@firm.com''),
      (Transform_Hook, demo_relay (Some demo_config), demo_draft ''ana@firm.com''),
      (Post_Hook, demo_relay (Some demo_config), demo_draft ''ana@firm.com'' \<lparr>dc_id := PNone\<rparr>)] quiet_relay)) \<le>
    (if ''m1'' \<in> set (rs_replied quiet_relay) then 0 else 1)"
    by (rule one_email_one_answer) (simp_all add: quiet_relay_def REPLIED_MAX_def)
  then show ?thesis by (simp add: quiet_relay_def)
qed

text \<open>C18: it does not matter which hook runs first: the two hooks of one keyed call transmit, record and tell the agent
  the same in either order.\<close>

theorem hook_order_does_not_matter:
  assumes "call_key c \<noteq> []"
  shows "(let (e1, s1) = on_post_tool_call E c st; (t, e2, s2) = on_transform_tool_result E c s1 in (t, e1 @ e2, s2)) =
    (let (t, e1, s1) = on_transform_tool_result E c st; (e2, s2) = on_post_tool_call E c s1 in (t, e1 @ e2, s2))"
  using assms by (rule hooks_commute)

lemma hook_order_does_not_matter_witness:
  "(let (e1, s1) = on_post_tool_call (demo_relay (Some demo_config)) (demo_draft ''bob@firm.com'') quiet_relay;
        (t, e2, s2) = on_transform_tool_result (demo_relay (Some demo_config)) (demo_draft ''bob@firm.com'') s1 in (t, e1 @ e2, s2)) =
    (let (t, e1, s1) = on_transform_tool_result (demo_relay (Some demo_config)) (demo_draft ''bob@firm.com'') quiet_relay;
         (e2, s2) = on_post_tool_call (demo_relay (Some demo_config)) (demo_draft ''bob@firm.com'') s1 in (t, e1 @ e2, s2))"
  by (rule hook_order_does_not_matter) (simp add: call_key_def demo_draft_def)

text \<open>what was transmitted had passed its checks: the fabrication gate allowed the text, nothing sensitive goes
  outside the organization, no matter mismatch blocks it, nothing waits for the same person, the rate holds, and a
  body is there.\<close>

theorem transmitted_reply_passed_its_checks:
  assumes "Transmitted k tx r \<in> set (fst (relay_draft E c st))"
  shows "\<exists>d o1 bound ad ap L. rv_config E = Some d \<and> reply_source E (dc_session c) = Some (o1, bound) \<and>
    check_content E d c o1 bound ad = (fst (check_content E d c o1 bound ad), Inr ap) \<and>
    (\<exists>cs m tier. rv_outbound E (ap_scan ap) d cs m = Some (True, tier)) \<and>
    (ap_internal ap \<or> rv_floor E (ap_scan ap) = Some None) \<and>
    matter_hold E (reply_verdict E (dc_session c) (ap_scan ap) (ad_to ad) (ap_class ap)) = None \<and>
    (ap_text ap \<noteq> [] \<or> ap_html ap \<noteq> []) \<and>
    rs_limiter st = Some L \<and> \<not> held_pending_for (ad_to ad) (live_policy d) st \<and>
    fst (rate_check (rv_tick E) (ad_to ad) (ap_internal ap) (live_policy d) L) = None"
proof -
  obtain d o1 bound where t: "rv_config E = Some d" "reply_source E (dc_session c) = Some (o1, bound)"
    "relay_draft E c st = relay_turn E d c o1 bound st"
    using assms by (rule draft_transmits)
  obtain ad ap rows L where c: "check_content E d c o1 bound ad = (rows, Inr ap)" "rs_limiter st = Some L"
    "\<not> held_pending_for (ad_to ad) (live_policy d) st" "fst (rate_check (rv_tick E) (ad_to ad) (ap_internal ap) (live_policy d) L) = None"
    using turn_transmits assms t(3) by metis
  from content_passed [OF c(1)] show ?thesis
    using t c by (intro exI [of _ d] exI [of _ o1] exI [of _ bound] exI [of _ ad] exI [of _ ap] exI [of _ L]) auto
qed

lemma transmitted_reply_passed_its_checks_witness:
  "\<exists>d o1 bound. rv_config (demo_relay (Some demo_config)) = Some d \<and>
    reply_source (demo_relay (Some demo_config)) ''s'' = Some (o1, bound) \<and> \<not> held_pending_for ''ana@firm.com'' (live_policy d) quiet_relay"
  using transmitted_reply_passed_its_checks [OF demo_relayed] by (auto simp: demo_relay_def demo_draft_def quiet_relay_def held_pending_for_def)

text \<open>C17: a draft that the relay judges is not silent. On a seat whose relay is ready and whose configuration reads,
  for a successful draft call that carries an id and is seen for the first time, in a session with a message to answer: if
  the hook leaves the tool result as it is, the reply was sent or queued; otherwise the result the agent reads ends with a notice.\<close>

theorem held_reply_is_told:
  assumes "dc_tool c \<in> set CREATE_DRAFT_TOOLS" "rv_ready E" "rv_config E = Some d"
    "\<not> draft_call_failed (rc_json (rv_reading E)) (dc_result c) (dc_status c) (dc_error c)"
    "reply_source E (dc_session c) = Some src" "call_key c \<noteq> []" "call_key c \<notin> set (rs_decided st)"
  shows "case on_transform_tool_result E c st of
      (None, evs, st') \<Rightarrow> (\<exists>k tx s. Transmitted k tx (Sent_As s) \<in> set evs) \<or> (\<exists>k row. Queued k row \<in> set evs)
    | (Some told, evs, st') \<Rightarrow> \<exists>n. told = append_notice (case dc_result c of PStr s \<Rightarrow> s | _ \<Rightarrow> []) n"
proof -
  obtain o1 bound where src: "src = (o1, bound)" by (cases src)
  obtain x i where "dc_id c = PStr (x # i)" using assms(6) by (cases "dc_id c"; cases "call_key c") (auto simp: call_key_def)
  then obtain D where cl: "claim_decision DECIDED_MAX (dc_id c) (rs_decided st) = (Some True, D)"
    using assms(7) by (simp add: claim_decision_def call_key_def)
  let ?R = "relay_turn E d c o1 bound (st\<lparr>rs_decided := D\<rparr>)"
  have R: "relay_draft E c (st\<lparr>rs_decided := D\<rparr>) = ?R" using assms src by (simp add: relay_draft_def)
  have t: "on_transform_tool_result E c st =
      (map_option (append_notice (case dc_result c of PStr s \<Rightarrow> s | _ \<Rightarrow> [])) (fst (take_notice (call_key c) (rs_notices (snd ?R)))),
       fst ?R, (snd ?R)\<lparr>rs_notices := snd (take_notice (call_key c) (rs_notices (snd ?R)))\<rparr>)"
    using assms(1) cl R by (simp add: on_transform_tool_result_def case_prod_unfold Let_def)
  show ?thesis
    using turn_told [of c E d o1 bound "st\<lparr>rs_decided := D\<rparr>"] unfolding t
    by (auto simp: told_or_out_def take_notice_def notice_pending_def split: option.split)
qed

lemma demo_told:
  "fst (on_transform_tool_result (demo_relay (Some demo_config)) (demo_draft ''bob@firm.com'') quiet_relay) =
     Some (append_notice ''ok'' \<lparr>hn_reason = ''recipient_mismatch'', hn_recipient = ''ana@firm.com'', hn_message = ''m1'', hn_attempt = 1, hn_detail = []\<rparr>)"
  by code_simp

lemma held_reply_is_told_witness:
  "\<exists>n. append_notice ''ok'' \<lparr>hn_reason = ''recipient_mismatch'', hn_recipient = ''ana@firm.com'', hn_message = ''m1'', hn_attempt = 1, hn_detail = []\<rparr> =
     append_notice ''ok'' n"
proof -
  have "\<exists>src. reply_source (demo_relay (Some demo_config)) ''s'' = Some src"
    by (rule exI [of _ "(\<lparr>or_sender = ''ana@firm.com'', or_message_id = ''m1''\<rparr>, None)"]) code_simp
  then obtain src where s: "reply_source (demo_relay (Some demo_config)) (dc_session (demo_draft ''bob@firm.com'')) = Some src"
    by (auto simp: demo_draft_def)
  show ?thesis
    using held_reply_is_told [of "demo_draft ''bob@firm.com''" "demo_relay (Some demo_config)" demo_config src quiet_relay, OF _ _ _ _ s] demo_told
    by (cases "on_transform_tool_result (demo_relay (Some demo_config)) (demo_draft ''bob@firm.com'') quiet_relay")
      (simp add: demo_draft_def demo_relay_def quiet_relay_def call_key_def CREATE_DRAFT_TOOLS_def draft_call_failed_def failed_status_def plain_env_def strip_def)
qed

text \<open>a seat whose configuration cannot be read says nothing: the draft stands, no row is written, nobody is paged
  and the agent's tool result is left as it was, so it reads as sent.\<close>

theorem unreadable_config_is_silent:
  assumes "rv_config E = None" "dc_tool c \<in> set CREATE_DRAFT_TOOLS" "notice_pending (call_key c) (rs_notices st) = False"
  shows "fst (on_transform_tool_result E c st) = None \<and> fst (snd (on_transform_tool_result E c st)) = []"
  using assms by (auto simp: on_transform_tool_result_def relay_draft_def take_notice_def notice_pending_def Let_def case_prod_unfold)

lemma unreadable_config_is_silent_witness:
  "fst (on_transform_tool_result (demo_relay None) (demo_draft ''ana@firm.com'') quiet_relay) = None"
  using unreadable_config_is_silent [of "demo_relay None" "demo_draft ''ana@firm.com''" quiet_relay]
  by (simp add: demo_relay_def demo_draft_def quiet_relay_def CREATE_DRAFT_TOOLS_def notice_pending_def no_notices_def)
end
