(* ===== verification/Regex.thy ===== *)
theory Regex
  imports Matter_Gate
begin

text \<open>
  The pattern matcher of the standard library, for the patterns the code writes with alternatives, groups,
  look-around and anchors: a pattern is a tree, a match starts from a position (the text before it, reversed, and
  the text from it on), and the outcomes are listed in the order a backtracking matcher tries them. A repetition
  stops at a round that consumes nothing.
\<close>

section \<open>Stripping\<close>

definition rstrip :: "string \<Rightarrow> string" where
  "rstrip s = rev (dropWhile ws (rev s))"

definition lstrip :: "string \<Rightarrow> string" where
  "lstrip s = dropWhile ws s"

definition strip_chars :: "string \<Rightarrow> string \<Rightarrow> string" where
  "strip_chars cs s = rev (dropWhile (\<lambda>c. c \<in> set cs) (rev (dropWhile (\<lambda>c. c \<in> set cs) s)))"

section \<open>Patterns\<close>

datatype rx =
    Empty
  | One "char \<Rightarrow> bool"
  | Then rx rx
  | Or rx rx
  | Many rx
  | Group nat rx
  | Ahead bool rx
  | Behind bool "char \<Rightarrow> bool"
  | Start
  | Finish
  | Edge

type_synonym spot = "string \<times> string \<times> (nat \<times> string) list"

definition rest_of :: "spot \<Rightarrow> string" where
  "rest_of p = fst (snd p)"

definition group_of :: "nat \<Rightarrow> spot \<Rightarrow> string" where
  "group_of n p = (case map_of (snd (snd p)) n of None \<Rightarrow> [] | Some s \<Rightarrow> s)"

fun rounds :: "nat \<Rightarrow> (spot \<Rightarrow> spot list) \<Rightarrow> spot \<Rightarrow> spot list" where
  "rounds 0 f p = [p]"
| "rounds (Suc n) f p =
     concat (map (\<lambda>q. if length (rest_of q) < length (rest_of p) then rounds n f q else []) (f p)) @ [p]"

primrec outcomes :: "rx \<Rightarrow> spot \<Rightarrow> spot list" where
  "outcomes Empty p = [p]"
| "outcomes (One P) p =
     (case p of (pre, c # s, g) \<Rightarrow> if P c then [(c # pre, s, g)] else [] | _ \<Rightarrow> [])"
| "outcomes (Then a b) p = concat (map (outcomes b) (outcomes a p))"
| "outcomes (Or a b) p = outcomes a p @ outcomes b p"
| "outcomes (Many a) p = rounds (length (rest_of p)) (outcomes a) p"
| "outcomes (Group n a) p =
     map (\<lambda>(pre, s, g). (pre, s, (n, take (length (rest_of p) - length s) (rest_of p)) # g)) (outcomes a p)"
| "outcomes (Ahead b a) p = (if (outcomes a p \<noteq> []) = b then [p] else [])"
| "outcomes (Behind b P) p = (if (case p of (c # pre, _) \<Rightarrow> P c | _ \<Rightarrow> False) = b then [p] else [])"
| "outcomes Start p = (if fst p = [] then [p] else [])"
| "outcomes Finish p = (if rest_of p = [] then [p] else [])"
| "outcomes Edge p =
     (if at_boundary (case fst p of [] \<Rightarrow> None | c # _ \<Rightarrow> Some c) (case rest_of p of [] \<Rightarrow> None | c # _ \<Rightarrow> Some c)
      then [p] else [])"

fun all_of :: "rx list \<Rightarrow> rx" where
  "all_of [] = Empty"
| "all_of [a] = a"
| "all_of (a # as) = Then a (all_of as)"

fun any_of :: "rx list \<Rightarrow> rx" where
  "any_of [] = Ahead False Empty"
| "any_of [a] = a"
| "any_of (a # as) = Or a (any_of as)"

definition maybe :: "rx \<Rightarrow> rx" where
  "maybe a = Or a Empty"

definition some_of :: "rx \<Rightarrow> rx" where
  "some_of a = Then a (Many a)"

fun at_most :: "nat \<Rightarrow> rx \<Rightarrow> rx" where
  "at_most 0 a = Empty"
| "at_most (Suc n) a = Or (Then a (at_most n a)) Empty"

definition times :: "nat \<Rightarrow> rx \<Rightarrow> rx" where
  "times n a = all_of (replicate n a)"

text \<open>A literal as written, and one under \<open>re.IGNORECASE\<close>.\<close>

definition lit :: "string \<Rightarrow> rx" where
  "lit s = all_of (map (\<lambda>c. One (\<lambda>d. d = c)) s)"

definition ilit :: "string \<Rightarrow> rx" where
  "ilit s = all_of (map (\<lambda>c. One (\<lambda>d. lower_char d = lower_char c)) s)"

definition one_from :: "string \<Rightarrow> rx" where
  "one_from cs = One (\<lambda>d. d \<in> set cs)"

abbreviation space :: rx where
  "space \<equiv> One ws"

section \<open>The matching functions\<close>

definition first_match :: "rx \<Rightarrow> string \<Rightarrow> string \<Rightarrow> spot option" where
  "first_match r pre s = (case outcomes r (pre, s, []) of [] \<Rightarrow> None | m # _ \<Rightarrow> Some m)"

text \<open>\<open>r.match(s)\<close>.\<close>

definition match_start :: "rx \<Rightarrow> string \<Rightarrow> spot option" where
  "match_start r s = first_match r [] s"

text \<open>\<open>r.search(s)\<close>.\<close>

fun search_from :: "rx \<Rightarrow> string \<Rightarrow> string \<Rightarrow> spot option" where
  "search_from r pre s =
     (case first_match r pre s of
        Some m \<Rightarrow> Some m
      | None \<Rightarrow> (case s of [] \<Rightarrow> None | c # t \<Rightarrow> search_from r (c # pre) t))"

declare search_from.simps [simp del]

lemma search_from_code [code]:
  "search_from r pre [] = first_match r pre []"
  "search_from r pre (c # t) = (case first_match r pre (c # t) of Some m \<Rightarrow> Some m | None \<Rightarrow> search_from r (c # pre) t)"
  by (subst search_from.simps, simp split: option.split)+

definition search :: "rx \<Rightarrow> string \<Rightarrow> spot option" where
  "search r s = search_from r [] s"

text \<open>\<open>r.finditer(s)\<close>: \<open>skip\<close> characters of the last match are still to pass.\<close>

fun finds_from :: "rx \<Rightarrow> nat \<Rightarrow> string \<Rightarrow> string \<Rightarrow> spot list" where
  "finds_from r skip pre [] = (if 0 < skip then [] else (case first_match r pre [] of None \<Rightarrow> [] | Some m \<Rightarrow> [m]))"
| "finds_from r skip pre (c # s) =
     (if 0 < skip then finds_from r (skip - 1) (c # pre) s
      else case first_match r pre (c # s) of
        None \<Rightarrow> finds_from r 0 (c # pre) s
      | Some m \<Rightarrow> m # finds_from r (length s - length (rest_of m)) (c # pre) s)"

definition finds :: "rx \<Rightarrow> string \<Rightarrow> spot list" where
  "finds r s = finds_from r 0 [] s"

text \<open>\<open>r.sub(t, s)\<close> for a fixed text and a pattern that consumes something.\<close>

fun replace_from :: "rx \<Rightarrow> string \<Rightarrow> nat \<Rightarrow> string \<Rightarrow> string \<Rightarrow> string" where
  "replace_from r t skip pre [] = []"
| "replace_from r t skip pre (c # s) =
     (if 0 < skip then replace_from r t (skip - 1) (c # pre) s
      else case first_match r pre (c # s) of
        None \<Rightarrow> c # replace_from r t 0 (c # pre) s
      | Some m \<Rightarrow> t @ replace_from r t (length s - length (rest_of m)) (c # pre) s)"

definition replace_all :: "rx \<Rightarrow> string \<Rightarrow> string \<Rightarrow> string" where
  "replace_all r t s = replace_from r t 0 [] s"

section \<open>What a match is\<close>

text \<open>A match consumes a piece of the text from its position on.\<close>

definition consumes :: "spot \<Rightarrow> spot \<Rightarrow> bool" where
  "consumes p q \<longleftrightarrow> (\<exists>x. rest_of p = x @ rest_of q \<and> fst q = rev x @ fst p)"

lemma consumes_refl [simp]: "consumes p p"
  by (simp add: consumes_def)

lemma consumes_trans: "consumes p q \<Longrightarrow> consumes q r \<Longrightarrow> consumes p r"
  by (fastforce simp: consumes_def)

lemma rounds_consumes:
  assumes "\<And>p q. q \<in> set (f p) \<Longrightarrow> consumes p q"
  shows "q \<in> set (rounds n f p) \<Longrightarrow> consumes p q"
proof (induction n arbitrary: p)
  case (Suc n)
  then consider "q = p" | r where "r \<in> set (f p)" "q \<in> set (rounds n f r)" by (auto split: if_splits)
  then show ?case
  proof cases
    case 2
    then show ?thesis using consumes_trans [OF assms [OF 2(1)] Suc.IH [OF 2(2)]] by simp
  qed simp
qed simp

lemma outcomes_consume: "q \<in> set (outcomes r p) \<Longrightarrow> consumes p q"
proof (induction r arbitrary: p q)
  case (One P)
  then show ?case by (auto simp: consumes_def rest_of_def split: prod.splits list.splits if_splits)
next
  case (Then a b)
  from Then.prems obtain m where m: "m \<in> set (outcomes a p)" "q \<in> set (outcomes b m)" by auto
  from consumes_trans [OF Then.IH(1) [OF m(1)] Then.IH(2) [OF m(2)]] show ?case .
next
  case (Many a)
  show ?case by (rule rounds_consumes [of "outcomes a", OF Many.IH]) (use Many.prems in simp_all)
next
  case (Group n a)
  then obtain pre s g where q: "(pre, s, g) \<in> set (outcomes a p)" "q = (pre, s, (n, take (length (rest_of p) - length s) (rest_of p)) # g)" by auto
  from Group.IH [OF q(1)] show ?case by (simp add: q(2) consumes_def rest_of_def)
qed (auto split: if_splits)

lemma one_outcome: "q \<in> set (outcomes (One P) p) \<longleftrightarrow> (\<exists>c s. rest_of p = c # s \<and> P c \<and> q = (c # fst p, s, snd (snd p)))"
  by (cases p) (auto simp: rest_of_def split: list.splits)

lemma all_of_Cons: "outcomes (all_of (a # as)) p = concat (map (outcomes (all_of as)) (outcomes a p))"
proof -
  have "concat (map (\<lambda>q. [q]) ps) = ps" for ps :: "spot list" by (induction ps) simp_all
  then show ?thesis by (cases as) (simp_all add: fun_eq_iff cong: map_cong)
qed

text \<open>A sequence of single characters consumes just those.\<close>

lemma ones_outcome:
  "outcomes (all_of (map One Ps)) (pre, s, g) =
     (if length Ps \<le> length s \<and> list_all2 (\<lambda>P c. P c) Ps (take (length Ps) s)
      then [(rev (take (length Ps) s) @ pre, drop (length Ps) s, g)] else [])"
proof (induction Ps arbitrary: pre s)
  case (Cons P Ps)
  then show ?case by (cases s) (auto simp: all_of_Cons simp del: all_of.simps)
qed simp

lemma find_is_match: "m \<in> set (finds_from r skip pre s) \<Longrightarrow> \<exists>a b. s = a @ b \<and> first_match r (rev a @ pre) b = Some m"
proof (induction s arbitrary: skip pre)
  case Nil
  then show ?case by (auto split: if_splits option.splits)
next
  case (Cons c s)
  then consider "first_match r pre (c # s) = Some m" | k where "m \<in> set (finds_from r k (c # pre) s)"
    by (auto split: if_splits option.splits)
  then show ?case
  proof cases
    case 1
    then show ?thesis by (intro exI [of _ "[]"] exI [of _ "c # s"]) simp
  next
    case 2
    from Cons.IH [OF this] obtain a b where "s = a @ b" "first_match r (rev a @ c # pre) b = Some m" by auto
    then show ?thesis by (intro exI [of _ "c # a"] exI [of _ b]) simp
  qed
qed

lemma first_match_outcome: "first_match r pre s = Some m \<Longrightarrow> m \<in> set (outcomes r (pre, s, []))"
  by (auto simp: first_match_def split: list.splits)

end
