(* ===== verification/Lines.thy ===== *)
theory Lines
  imports Matter_Gate
begin

text \<open>
  The lines of a text as the standard library splits them, for the components that read a letter or a record line by line.
\<close>

section \<open>Lines\<close>

definition line_break :: "char \<Rightarrow> bool" where
  "line_break = in_ranges [(10, 13), (28, 30), (133, 133)]"

text \<open>\<open>s.splitlines()\<close>: a carriage return and a line feed together end one line.\<close>

fun lines_from :: "string \<Rightarrow> string \<Rightarrow> string list" where
  "lines_from w [] = (if w = [] then [] else [w])"
| "lines_from w [c] = (if line_break c then [w] else [w @ [c]])"
| "lines_from w (c # d # s) =
     (if c = CHR 0x0D \<and> d = CHR 0x0A then w # lines_from [] s
      else if line_break c then w # lines_from [] (d # s)
      else lines_from (w @ [c]) (d # s))"

definition splitlines :: "string \<Rightarrow> string list" where
  "splitlines s = lines_from [] s"

end
