(* ===== verification/Reply_Turn.thy ===== *)
theory Reply_Turn
  imports Reply_Relay Rule_Confirm
begin

text \<open>
  The end of a turn on the reply channel: the act line the seat sends when the turn did not
  (\<open>plugins/hermes-smd-reply/act_delivery.py\<close>), the final text it sends as the reply the turn did not draft
  (\<open>text_delivery.py\<close>), the registers both consult (\<open>shared/answered_messages.py\<close>, \<open>shared/silence.py\<close>) and the
  two hooks that hand the work to one worker in order. The seat's trust gate, the transport of an act line and the
  silence matcher of the host are parameters; the em dash, which is not a Latin-1 character, is one too.
\<close>

section \<open>Registers\<close>

type_synonym seen_ids = "(string, unit) odict"

definition TURN_IDS :: nat where
  "TURN_IDS = 512"

definition ANSWERED_MAX :: nat where
  "ANSWERED_MAX = 1024"

definition has_id :: "string \<Rightarrow> seen_ids \<Rightarrow> bool" where
  "has_id i R \<longleftrightarrow> odict_get R i \<noteq> None"

text \<open>\<open>TurnSends\<close>\<close>

definition note_attempt :: "string \<Rightarrow> seen_ids \<Rightarrow> seen_ids" where
  "note_attempt sid R = (if sid = [] then R else odict_put TURN_IDS sid () R)"

definition reset_attempt :: "string \<Rightarrow> seen_ids \<Rightarrow> seen_ids" where
  "reset_attempt sid R = odict_pop sid R"

text \<open>\<open>DeliveredOnce\<close>\<close>

definition claim_once :: "string \<Rightarrow> seen_ids \<Rightarrow> bool \<times> seen_ids" where
  "claim_once i R = (if has_id i R then (False, R) else (True, odict_put TURN_IDS i () R))"

definition note_answered :: "string \<Rightarrow> seen_ids \<Rightarrow> seen_ids" where
  "note_answered message R = (let mid = strip message in if mid = [] then R else odict_put ANSWERED_MAX mid () R)"

definition answered :: "string \<Rightarrow> seen_ids \<Rightarrow> bool" where
  "answered message R \<longleftrightarrow> strip message \<noteq> [] \<and> has_id (strip message) R"

section \<open>Act lines\<close>

type_synonym act_claims = "(string, string list) odict"

definition ACT_SESSIONS :: nat where
  "ACT_SESSIONS = 128"

definition claimed :: "string \<Rightarrow> string \<Rightarrow> act_claims \<Rightarrow> bool" where
  "claimed sid line C \<longleftrightarrow> (case odict_get C sid of None \<Rightarrow> False | Some ls \<Rightarrow> line \<in> set ls)"

definition line_carried :: "string \<Rightarrow> string \<Rightarrow> (string \<times> string list) list \<Rightarrow> act_claims \<Rightarrow> bool" where
  "line_carried sid line B C \<longleftrightarrow>
     claimed sid line C \<or> (case map_of B sid of None \<Rightarrow> False | Some bs \<Rightarrow> list_ex (\<lambda>b. contains b line) bs)"

definition claim_line :: "string \<Rightarrow> string \<Rightarrow> act_claims \<Rightarrow> bool \<times> act_claims" where
  "claim_line sid line C =
     (if claimed sid line C then (False, C)
      else (True, odict_put ACT_SESSIONS sid (line # (case odict_get C sid of None \<Rightarrow> [] | Some ls \<Rightarrow> ls)) C))"

definition release_line :: "string \<Rightarrow> string \<Rightarrow> act_claims \<Rightarrow> act_claims" where
  "release_line sid line C =
     (case odict_get C sid of None \<Rightarrow> C | Some ls \<Rightarrow> odict_set sid (removeAll line ls) C)"

definition owed_line :: "pending_act option \<Rightarrow> string option" where
  "owed_line pending =
     (case pending of
        None \<Rightarrow> None
      | Some p \<Rightarrow> if pa_readback p = [] \<or> pa_confirmed p \<noteq> None \<or> pa_in_flight p then None else Some (pa_readback p))"

definition ACT_PREAMBLE :: string where
  "ACT_PREAMBLE =
     ''The Operator is holding the action below until an administrator confirms it. '' @
     ''Nothing has been done yet. To proceed, reply to this email with the words '' @
     ''the line asks for; to stop, reply no.''"

definition body_for :: "string \<Rightarrow> string" where
  "body_for line = ACT_PREAMBLE @ [CHR 0x0A, CHR 0x0A] @ line @ [CHR 0x0A]"

section \<open>The text of a turn\<close>

definition SILENT_TOKENS :: "string list" where
  "SILENT_TOKENS = [''[silent]'', ''silent'', ''no_reply'', ''no reply'']"

definition silent_lines :: "string \<Rightarrow> bool" where
  "silent_lines text =
     (case filter (\<lambda>l. l \<noteq> []) (map normalized (splitlines (strip text))) of
        [] \<Rightarrow> True
      | l # ls \<Rightarrow> list_ex (\<lambda>c. c \<in> set SILENT_TOKENS) [normalized text, l, last (l # ls)])"

definition is_silent :: "(string \<Rightarrow> bool) option \<Rightarrow> string \<Rightarrow> bool" where
  "is_silent matcher text \<longleftrightarrow>
     strip text = [] \<or> (case matcher of Some f \<Rightarrow> f text | None \<Rightarrow> silent_lines text)"

definition EXCLAMATION :: rx where
  "EXCLAMATION = Then (One (\<lambda>c. c = CHR ''!'')) (Ahead False (One (\<lambda>c. c = CHR ''='')))"

definition EM_DASH :: "char \<Rightarrow> rx" where
  "EM_DASH em = Then (Many (One ws)) (Then (One (\<lambda>c. c = em)) (Many (One ws)))"

definition scrub :: "char \<Rightarrow> string \<Rightarrow> string" where
  "scrub em text = replace_all (EM_DASH em) '', '' (replace_all EXCLAMATION ''.'' text)"

definition text_draft_args :: "string \<Rightarrow> string \<Rightarrow> pydict" where
  "text_draft_args sender text =
     [(''to'', PList [PStr sender]), (''subject'', PStr []), (''text'', PStr text), (''html'', PStr [])]"

definition TEXT_ADAPTERS :: "string list" where
  "TEXT_ADAPTERS = [''agentmail'']"

definition DRAFT_TOOL :: string where
  "DRAFT_TOOL = ''mcp_agentmail_create_draft''"

definition TEXT_CALL_PREFIX :: string where
  "TEXT_CALL_PREFIX = ''seat-text-reply:''"

section \<open>State\<close>

record turn_env =
  tv_relay :: relay_env
  tv_clock :: int
  tv_silence :: "(string \<Rightarrow> bool) option"
  tv_dash :: char
  tv_gate :: "string \<Rightarrow> string \<Rightarrow> pydict \<Rightarrow> pydict option"
  tv_transmit :: "string \<Rightarrow> string \<Rightarrow> string \<times> string \<Rightarrow> send_result"

text \<open>\<open>tv_gate session call args\<close> is the trust gate's answer on the draft the seat builds: the arguments as it leaves
  them, or nothing when it blocks, raises or is not wired. \<open>tv_transmit adapter message body\<close> sends an act line.\<close>

record turn_state =
  tt_relay :: relay_state
  tt_acts :: acts
  tt_claims :: act_claims
  tt_attempts :: seen_ids
  tt_given :: seen_ids
  tt_texts :: seen_ids
  tt_answered :: seen_ids

datatype turn_event = Relayed relay_event | Act_Attempt string string send_result

record turn_snapshot =
  ts_origin :: "origin option"
  ts_attempted :: bool
  ts_pending :: "pending_act option"

definition snapshot :: "relay_env \<Rightarrow> int \<Rightarrow> string \<Rightarrow> turn_state \<Rightarrow> turn_snapshot \<times> turn_state" where
  "snapshot E now sid st =
     (let (p, A) = peek_act ACT_TTL now sid (tt_acts st)
      in (\<lparr>ts_origin = bound_this_turn sid (rv_origins E), ts_attempted = has_id sid (tt_attempts st), ts_pending = p\<rparr>,
          st\<lparr>tt_acts := A\<rparr>))"

definition TURN_SEND_CLASSES :: "action_class list" where
  "TURN_SEND_CLASSES =
     [EXTERNAL_SEND, EXTERNAL_SEND_INTERNAL, EXTERNAL_SEND_CLIENT, EXTERNAL_SEND_VENDOR, EXTERNAL_SEND_AS_STAFF]"

definition is_send_shaped :: "string \<Rightarrow> bool" where
  "is_send_shaped tool \<longleftrightarrow>
     tool \<in> set CREATE_DRAFT_TOOLS \<or> tool = BIND_TOOL \<or>
     (case classify_tool tool of
        Inr cl \<Rightarrow> c_class cl \<in> set TURN_SEND_CLASSES
      | Inl (Banned_Tool n r) \<Rightarrow> True
      | Inl _ \<Rightarrow> False)"

definition note_turn_send :: "string \<Rightarrow> string \<Rightarrow> turn_state \<Rightarrow> turn_state" where
  "note_turn_send tool sid st =
     (if sid \<noteq> [] \<and> is_send_shaped tool then st\<lparr>tt_attempts := note_attempt sid (tt_attempts st)\<rparr> else st)"

definition open_turn :: "string \<Rightarrow> turn_state \<Rightarrow> turn_state" where
  "open_turn sid st = st\<lparr>tt_attempts := reset_attempt sid (tt_attempts st)\<rparr>"

section \<open>Delivering an act line\<close>

datatype line_outcome = Nothing_Owed | Line_Carried | Line_Sent | Line_Failed

definition note_mail_answer :: "string \<Rightarrow> string \<Rightarrow> send_result \<Rightarrow> seen_ids \<Rightarrow> seen_ids" where
  "note_mail_answer adapter message r R =
     (if adapter = ADAPTER_MSGRAPH then R
      else case r of Sent_As s \<Rightarrow> note_answered message R | Unknown_Send w \<Rightarrow> note_answered message R | _ \<Rightarrow> R)"

definition act_adapter :: "relay_env \<Rightarrow> string" where
  "act_adapter E = (case rv_config E of None \<Rightarrow> ''agentmail'' | Some d \<Rightarrow> email_adapter d)"

definition origin_message :: "origin option \<Rightarrow> string" where
  "origin_message o1 = (case o1 of None \<Rightarrow> [] | Some og \<Rightarrow> or_message_id og)"

definition origin_sender :: "origin option \<Rightarrow> string" where
  "origin_sender o1 = (case o1 of None \<Rightarrow> [] | Some og \<Rightarrow> or_sender og)"

definition act_failed_events :: "string \<Rightarrow> string \<Rightarrow> string \<Rightarrow> string \<Rightarrow> turn_event list" where
  "act_failed_events adapter recipient proposal why =
     [Relayed (Row ''REPLY_FAILED''
        [(''reason'', PStr (''act_line_undelivered: '' @ why)), (''adapter'', PStr adapter),
         (''recipient'', PStr recipient), (''seat_delivered_act'', PStr proposal)]),
      Relayed (Page ''act_line_undelivered'' adapter)]"

definition act_sent_events ::
  "relay_env \<Rightarrow> string \<Rightarrow> origin option \<Rightarrow> string \<Rightarrow> string \<Rightarrow> string \<Rightarrow> turn_event list" where
  "act_sent_events E adapter o1 proposal line sent =
     [Relayed (Row ''REPLY_SENT''
        [(''recipient'', PStr (origin_sender o1)), (''adapter'', PStr adapter), (''in_reply_to'', PStr (origin_message o1)),
         (''sent_message_id'', PStr sent), (''body_digest'', PStr (rv_digest E (body_for line))),
         (''seat_delivered_act'', PStr proposal)]),
      Relayed (Opened_Answer (origin_message o1) (body_for line))]"

definition deliver_owed_act ::
  "turn_env \<Rightarrow> string \<Rightarrow> pending_act option \<Rightarrow> origin option \<Rightarrow> turn_state \<Rightarrow> line_outcome \<times> turn_event list \<times> turn_state" where
  "deliver_owed_act E sid pending o1 st =
     (if sid = [] then (Nothing_Owed, [], st)
      else case (pending, owed_line pending) of
        (Some p, Some line) \<Rightarrow>
          (let adapter = act_adapter (tv_relay E); message = origin_message o1;
               (first, C) = claim_line sid line (tt_claims st); st1 = st\<lparr>tt_claims := C\<rparr>;
               failed = act_failed_events adapter (origin_sender o1) (pa_proposal p);
               unclaimed = (\<lambda>s. s\<lparr>tt_claims := release_line sid line (tt_claims s)\<rparr>)
           in if line_carried sid line (rs_bodies (tt_relay st)) (tt_claims st) then (Line_Carried, [], st)
              else if \<not> first then (Line_Carried, [], st)
              else if message = []
              then (Line_Failed, failed ''no recorded inbound message to thread the act line to'', unclaimed st1)
              else
                let r = tv_transmit E adapter message (transmitted_body (tv_relay E) adapter (body_for line) []);
                    st2 = st1\<lparr>tt_answered := note_mail_answer adapter message r (tt_answered st1)\<rparr>
                in (case r of
                      Sent_As sent \<Rightarrow>
                        (Line_Sent, Act_Attempt sid line r # act_sent_events (tv_relay E) adapter o1 (pa_proposal p) line sent,
                         st2\<lparr>tt_acts := snd (mark_delivered ACT_TTL max_act_sessions (tv_clock E) sid line (tt_acts st2))\<rparr>)
                    | Unknown_Send why \<Rightarrow> (Line_Failed, Act_Attempt sid line r # failed why, st2)
                    | Refused_Send why \<Rightarrow> (Line_Failed, Act_Attempt sid line r # failed why, unclaimed st2)
                    | Faulted_Send why \<Rightarrow> (Line_Failed, Act_Attempt sid line r # failed why, unclaimed st2)))
      | _ \<Rightarrow> (Nothing_Owed, [], st))"

section \<open>Delivering the text\<close>

datatype text_outcome =
  Text_None | Text_Silent | Text_Answered | Text_Adapter | Text_Not_Rostered | Text_Blocked | Text_Held | Text_Sent | Text_Raised

text \<open>The broker client notes the email each transmission it may have made answers.\<close>

definition answers_noted :: "relay_event list \<Rightarrow> seen_ids \<Rightarrow> seen_ids" where
  "answers_noted evs R =
     fold (\<lambda>ev R. case ev of
         Transmitted k tx r \<Rightarrow> (case tx_carrier tx of Mail_Carrier m s \<Rightarrow> note_mail_answer ''agentmail'' m r R | _ \<Rightarrow> R)
       | _ \<Rightarrow> R) evs R"

definition text_call :: "string \<Rightarrow> string \<Rightarrow> pydict \<Rightarrow> draft_call" where
  "text_call sid message args =
     \<lparr>dc_tool = DRAFT_TOOL, dc_id = PStr (TEXT_CALL_PREFIX @ message), dc_session = sid, dc_args = args,
      dc_result = PNone, dc_status = PNone, dc_error = PNone\<rparr>"

definition without_notice :: "string \<Rightarrow> relay_state \<Rightarrow> hold_notice option \<times> relay_state" where
  "without_notice call st = (let (n, N) = take_notice call (rs_notices st) in (n, st\<lparr>rs_notices := N\<rparr>))"

definition refuse_text :: "turn_env \<Rightarrow> string \<Rightarrow> origin \<Rightarrow> turn_state \<Rightarrow> text_outcome \<times> turn_event list \<times> turn_state" where
  "refuse_text E sid og st =
     (let call = text_call sid (or_message_id og) [];
          (evs, R) = hold_reply (tv_relay E) call og [] (plain_hold ''trust_gate_refused'') (tt_relay st)
      in (Text_Blocked, map Relayed evs @ [Relayed (Page ''trust_gate_refused'' [])],
          st\<lparr>tt_relay := snd (without_notice (call_key call) R)\<rparr>))"

definition relay_text :: "turn_env \<Rightarrow> string \<Rightarrow> origin \<Rightarrow> pydict \<Rightarrow> turn_state \<Rightarrow> text_outcome \<times> turn_event list \<times> turn_state" where
  "relay_text E sid og args st =
     (let call = text_call sid (or_message_id og) args;
          (evs, R) = relay_draft (tv_relay E) call (tt_relay st);
          (left_over, R') = without_notice (call_key call) R;
          st' = st\<lparr>tt_relay := R', tt_answered := answers_noted evs (tt_answered st)\<rparr>
      in if committed (or_message_id og) (rs_replied R') then (Text_Sent, map Relayed evs, st')
         else (Text_Held,
           map Relayed evs @ [Relayed (Page (case left_over of None \<Rightarrow> ''held'' | Some n \<Rightarrow> if hn_reason n = [] then ''held'' else hn_reason n) [])],
           st'))"

definition already_answered :: "string \<Rightarrow> bool \<Rightarrow> turn_state \<Rightarrow> bool" where
  "already_answered message attempted st \<longleftrightarrow>
     attempted \<or> committed message (rs_replied (tt_relay st)) \<or> answered message (tt_answered st)"

definition deliver_text_reply ::
  "turn_env \<Rightarrow> string \<Rightarrow> pyval \<Rightarrow> origin option \<Rightarrow> bool \<Rightarrow> turn_state \<Rightarrow> text_outcome \<times> turn_event list \<times> turn_state" where
  "deliver_text_reply E sid response o1 attempted st =
     (if \<not> rv_ready (tv_relay E) \<or> sid = [] then (Text_None, [], st)
      else case o1 of
        None \<Rightarrow> (Text_None, [], st)
      | Some og \<Rightarrow>
          if or_message_id og = [] \<or> or_sender og = [] then (Text_None, [], st)
          else
            let text = (case response of PStr s \<Rightarrow> s | _ \<Rightarrow> [])
            in if is_silent (tv_silence E) text then (Text_Silent, [], st)
               else if already_answered (or_message_id og) attempted st then (Text_Answered, [], st)
               else (case rv_config (tv_relay E) of
                       None \<Rightarrow> (Text_None, [], st)
                     | Some d \<Rightarrow>
                         if email_adapter d \<notin> set TEXT_ADAPTERS then (Text_Adapter, [], st)
                         else (case sender_on_roster d (PStr (or_sender og)) of
                                 Inl e \<Rightarrow> (Text_Raised, [], st)
                               | Inr False \<Rightarrow> (Text_Not_Rostered, [], st)
                               | Inr True \<Rightarrow>
                                   let (first, G) = claim_once (or_message_id og) (tt_given st); st1 = st\<lparr>tt_given := G\<rparr>
                                   in if \<not> first then (Text_Answered, [], st1)
                                      else (case tv_gate E sid (TEXT_CALL_PREFIX @ or_message_id og)
                                                   (text_draft_args (or_sender og) (scrub (tv_dash E) text)) of
                                              None \<Rightarrow> refuse_text E sid og st1
                                            | Some args \<Rightarrow> relay_text E sid og args st1))))"

section \<open>The work of the two hooks\<close>

definition end_of_turn_text :: "turn_env \<Rightarrow> string \<Rightarrow> pyval \<Rightarrow> turn_snapshot \<Rightarrow> turn_state \<Rightarrow> turn_event list \<times> turn_state" where
  "end_of_turn_text E sid response sn st =
     (let st1 = (if origin_message (ts_origin sn) = [] then st
                 else st\<lparr>tt_texts := snd (claim_once (origin_message (ts_origin sn)) (tt_texts st))\<rparr>);
          (act, evs, st2) = deliver_owed_act E sid (ts_pending sn) (ts_origin sn) st1
      in if act \<noteq> Nothing_Owed then (evs, st2)
         else (let (out, evs', st3) = deliver_text_reply E sid response (ts_origin sn) (ts_attempted sn) st2
               in (evs @ evs', st3)))"

definition text_reply_lost :: "turn_env \<Rightarrow> turn_snapshot \<Rightarrow> turn_state \<Rightarrow> turn_event list" where
  "text_reply_lost E sn st =
     (let message = origin_message (ts_origin sn); sender = origin_sender (ts_origin sn)
      in if \<not> rv_ready (tv_relay E) \<or> message = [] \<or> sender = [] \<or> has_id message (tt_texts st) \<or>
            already_answered message (ts_attempted sn) st
         then []
         else (case rv_config (tv_relay E) of
                 None \<Rightarrow> []
               | Some d \<Rightarrow>
                   if email_adapter d \<in> set TEXT_ADAPTERS \<and> sender_on_roster d (PStr sender) = Inr True
                   then [Relayed (Page ''no_response_captured'' [])] else []))"

definition end_of_turn_settle :: "turn_env \<Rightarrow> string \<Rightarrow> turn_snapshot \<Rightarrow> turn_state \<Rightarrow> turn_event list \<times> turn_state" where
  "end_of_turn_settle E sid sn st =
     (let (act, evs, st1) = deliver_owed_act E sid (ts_pending sn) (ts_origin sn) st
      in (evs @ (if owed_line (ts_pending sn) = None then text_reply_lost E sn st1 else []), st1))"

section \<open>Runs\<close>

datatype turn_step =
  Open_Turn string
| Tool_Called string string
| Draft_Hook hook relay_env draft_call
| Answered_Elsewhere string
| Text_Work turn_env string pyval turn_snapshot
| Settle_Work turn_env string turn_snapshot

definition draft_hook :: "hook \<Rightarrow> relay_env \<Rightarrow> draft_call \<Rightarrow> turn_state \<Rightarrow> turn_event list \<times> turn_state" where
  "draft_hook h E c st =
     (let st1 = (if h = Post_Hook then note_turn_send (dc_tool c) (dc_session c) st else st);
          (evs, R) = fire (h, E, c) (tt_relay st1)
      in (map Relayed evs, st1\<lparr>tt_relay := R, tt_answered := answers_noted evs (tt_answered st1)\<rparr>))"

fun take_step :: "turn_step \<Rightarrow> turn_state \<Rightarrow> turn_event list \<times> turn_state" where
  "take_step (Open_Turn sid) st = ([], open_turn sid st)"
| "take_step (Tool_Called tool sid) st = ([], note_turn_send tool sid st)"
| "take_step (Draft_Hook h E c) st = draft_hook h E c st"
| "take_step (Answered_Elsewhere m) st = ([], st\<lparr>tt_answered := note_answered m (tt_answered st)\<rparr>)"
| "take_step (Text_Work E sid response sn) st = end_of_turn_text E sid response sn st"
| "take_step (Settle_Work E sid sn) st = end_of_turn_settle E sid sn st"

fun take_steps :: "turn_step list \<Rightarrow> turn_state \<Rightarrow> turn_event list \<times> turn_state" where
  "take_steps [] st = ([], st)"
| "take_steps (x # xs) st = (let (evs, st1) = take_step x st; (evs1, st2) = take_steps xs st1 in (evs @ evs1, st2))"

definition relay_part :: "turn_event list \<Rightarrow> relay_event list" where
  "relay_part evs = concat (map (\<lambda>e. case e of Relayed x \<Rightarrow> [x] | _ \<Rightarrow> []) evs)"

lemma relay_part_simps [simp]:
  "relay_part [] = []" "relay_part (xs @ ys) = relay_part xs @ relay_part ys"
  "relay_part (Relayed x # xs) = x # relay_part xs" "relay_part (Act_Attempt s l r # xs) = relay_part xs"
  "relay_part (map Relayed evs) = evs"
  by (simp_all add: relay_part_def) (induction evs, simp_all)

lemma relayed_in_part: "Relayed x \<in> set evs \<longleftrightarrow> x \<in> set (relay_part evs)"
  by (auto simp: relay_part_def split: turn_event.splits intro!: bexI [of _ "Relayed x"])

section \<open>One answer\<close>

definition quiet_change :: "turn_state \<Rightarrow> turn_event list \<times> turn_state \<Rightarrow> bool" where
  "quiet_change st R \<longleftrightarrow> (\<forall>k. deliveries_of k (relay_part (fst R)) = 0) \<and> tt_relay (snd R) = tt_relay st"

lemma act_quiet: "deliver_owed_act E sid pending o1 st = (out, evs, st') \<Longrightarrow> quiet_change st (evs, st')"
  by (auto simp: deliver_owed_act_def quiet_change_def act_failed_events_def act_sent_events_def Let_def
      split: if_splits option.splits prod.splits send_result.splits)

lemma unowed_unchanged: "deliver_owed_act E sid pending o1 st = (Nothing_Owed, evs, st') \<Longrightarrow> evs = [] \<and> st' = st"
  by (auto simp: deliver_owed_act_def Let_def split: if_splits option.splits prod.splits send_result.splits)

lemma quiet_step: "quiet_change st R \<Longrightarrow> answer_step (tt_relay st) (relay_part (fst R), tt_relay (snd R))"
  by (simp add: quiet_change_def answer_quiet)

lemma notice_replied [simp]: "rs_replied (snd (without_notice call R)) = rs_replied R"
  by (simp add: without_notice_def case_prod_unfold Let_def)

lemma relay_text_step:
  assumes "relay_text E sid og args st = (out, evs, st')"
  shows "answer_step (tt_relay st) (relay_part evs, tt_relay st')"
proof -
  let ?R = "relay_draft (tv_relay E) (text_call sid (or_message_id og) args) (tt_relay st)"
  have "\<forall>k. deliveries_of k (relay_part evs) = deliveries_of k (fst ?R)" "rs_replied (tt_relay st') = rs_replied (snd ?R)"
    using assms by (auto simp: relay_text_def Let_def case_prod_unfold split: if_splits)
  then show ?thesis
    using draft_steps [of "tt_relay st" "tv_relay E" "text_call sid (or_message_id og) args"]
    by (simp add: answer_step_def once_more_def)
qed

lemma refuse_text_step:
  "refuse_text E sid og st = (out, evs, st') \<Longrightarrow> answer_step (tt_relay st) (relay_part evs, tt_relay st')"
  by (rule answer_quiet) (auto simp: refuse_text_def Let_def case_prod_unfold)

text \<open>A text is refused by the gate or relayed only past every test, and otherwise nothing happens.\<close>

lemma text_cases:
  assumes "deliver_text_reply E sid response o1 attempted st = (out, evs, st')"
  obtains (rest) "evs = []" "tt_relay st' = tt_relay st" "out \<notin> {Text_Blocked, Text_Held, Text_Sent}"
  | (past) og d G body where "rv_ready (tv_relay E)" "sid \<noteq> []" "o1 = Some og" "or_message_id og \<noteq> []" "or_sender og \<noteq> []"
      "body = (case response of PStr s \<Rightarrow> s | _ \<Rightarrow> [])" "\<not> is_silent (tv_silence E) body"
      "\<not> already_answered (or_message_id og) attempted st"
      "rv_config (tv_relay E) = Some d" "email_adapter d \<in> set TEXT_ADAPTERS" "sender_on_roster d (PStr (or_sender og)) = Inr True"
      "claim_once (or_message_id og) (tt_given st) = (True, G)"
      "(out, evs, st') = (case tv_gate E sid (TEXT_CALL_PREFIX @ or_message_id og) (text_draft_args (or_sender og) (scrub (tv_dash E) body)) of
         None \<Rightarrow> refuse_text E sid og (st\<lparr>tt_given := G\<rparr>)
       | Some args \<Rightarrow> relay_text E sid og args (st\<lparr>tt_given := G\<rparr>))"
proof (cases "\<exists>og d. rv_ready (tv_relay E) \<and> sid \<noteq> [] \<and> o1 = Some og \<and> or_message_id og \<noteq> [] \<and> or_sender og \<noteq> [] \<and>
    \<not> is_silent (tv_silence E) (case response of PStr s \<Rightarrow> s | _ \<Rightarrow> []) \<and> \<not> already_answered (or_message_id og) attempted st \<and>
    rv_config (tv_relay E) = Some d \<and> email_adapter d \<in> set TEXT_ADAPTERS \<and> sender_on_roster d (PStr (or_sender og)) = Inr True \<and>
    fst (claim_once (or_message_id og) (tt_given st))")
  case True
  then obtain og d where h: "rv_ready (tv_relay E)" "sid \<noteq> []" "o1 = Some og" "or_message_id og \<noteq> []" "or_sender og \<noteq> []"
    "\<not> is_silent (tv_silence E) (case response of PStr s \<Rightarrow> s | _ \<Rightarrow> [])" "\<not> already_answered (or_message_id og) attempted st"
    "rv_config (tv_relay E) = Some d" "email_adapter d \<in> set TEXT_ADAPTERS" "sender_on_roster d (PStr (or_sender og)) = Inr True"
    "fst (claim_once (or_message_id og) (tt_given st))" by blast
  obtain G where g: "claim_once (or_message_id og) (tt_given st) = (True, G)"
    using h(11) by (cases "claim_once (or_message_id og) (tt_given st)") auto
  show ?thesis
    by (rule past [OF h(1-5) refl h(6-10) g]) (use assms h g in \<open>simp add: deliver_text_reply_def Let_def\<close>)
next
  case False
  have "evs = [] \<and> tt_relay st' = tt_relay st \<and> out \<notin> {Text_Blocked, Text_Held, Text_Sent}"
    using assms False unfolding deliver_text_reply_def Let_def
    by (cases o1; cases "rv_config (tv_relay E)"; cases "claim_once (origin_message o1) (tt_given st)")
      (auto simp: origin_message_def split: if_splits sum.splits bool.splits)
  then show ?thesis using rest by blast
qed

lemma text_step:
  assumes "deliver_text_reply E sid response o1 attempted st = (out, evs, st')"
  shows "answer_step (tt_relay st) (relay_part evs, tt_relay st')"
  using assms
proof (cases rule: text_cases)
  case rest
  then show ?thesis by (intro answer_quiet) simp_all
next
  case (past og d G body)
  then show ?thesis
    using refuse_text_step [of E sid og "st\<lparr>tt_given := G\<rparr>" out evs st'] relay_text_step [of E sid og _ "st\<lparr>tt_given := G\<rparr>" out evs st']
    by (auto split: option.splits)
qed

lemma text_work_step:
  "end_of_turn_text E sid response sn st = (evs, st') \<Longrightarrow> answer_step (tt_relay st) (relay_part evs, tt_relay st')"
proof -
  assume t: "end_of_turn_text E sid response sn st = (evs, st')"
  let ?st1 = "if origin_message (ts_origin sn) = [] then st
    else st\<lparr>tt_texts := snd (claim_once (origin_message (ts_origin sn)) (tt_texts st))\<rparr>"
  obtain act e1 st2 where a: "deliver_owed_act E sid (ts_pending sn) (ts_origin sn) ?st1 = (act, e1, st2)" by (rule prod_cases3)
  have relay: "tt_relay ?st1 = tt_relay st" by simp
  show ?thesis
  proof (cases "act = Nothing_Owed")
    case True
    obtain out e2 st3 where b: "deliver_text_reply E sid response (ts_origin sn) (ts_attempted sn) st2 = (out, e2, st3)" by (rule prod_cases3)
    have "e1 = [] \<and> st2 = ?st1" using a unfolding True by (rule unowed_unchanged)
    then show ?thesis using t a b True text_step [OF b] relay by (simp add: end_of_turn_text_def Let_def)
  next
    case False
    then have "evs = e1" "st' = st2" using t a by (simp_all add: end_of_turn_text_def Let_def)
    then show ?thesis using quiet_step [OF act_quiet [OF a]] relay by simp
  qed
qed

lemma lost_silent [simp]: "deliveries_of k (relay_part (text_reply_lost E sn st)) = 0"
  by (simp add: text_reply_lost_def Let_def split: option.split)

lemma settle_step:
  "end_of_turn_settle E sid sn st = (evs, st') \<Longrightarrow> answer_step (tt_relay st) (relay_part evs, tt_relay st')"
proof -
  assume t: "end_of_turn_settle E sid sn st = (evs, st')"
  obtain act e1 st1 where a: "deliver_owed_act E sid (ts_pending sn) (ts_origin sn) st = (act, e1, st1)" by (rule prod_cases3)
  have "quiet_change st (evs, st')"
    using act_quiet [OF a] t a by (auto simp: end_of_turn_settle_def quiet_change_def split: if_splits)
  from quiet_step [OF this] show ?thesis by simp
qed

lemma note_send_relay [simp]: "tt_relay (note_turn_send tool sid st) = tt_relay st" "tt_claims (note_turn_send tool sid st) = tt_claims st"
  by (simp_all add: note_turn_send_def)

lemma hook_step: "draft_hook h E c st = (evs, st') \<Longrightarrow> answer_step (tt_relay st) (relay_part evs, tt_relay st')"
  using fire_steps [of "tt_relay st" "(h, E, c)"]
  by (auto simp: draft_hook_def Let_def case_prod_unfold split: if_splits)

lemma step_answers: "take_step x st = (evs, st') \<Longrightarrow> answer_step (tt_relay st) (relay_part evs, tt_relay st')"
proof (cases x)
  case (Draft_Hook h E c)
  assume "take_step x st = (evs, st')"
  then show ?thesis using hook_step Draft_Hook by simp
next
  case (Text_Work E sid r sn)
  assume "take_step x st = (evs, st')"
  then show ?thesis using text_work_step Text_Work by simp
next
  case (Settle_Work E sid sn)
  assume "take_step x st = (evs, st')"
  then show ?thesis using settle_step Settle_Work by simp
qed (auto simp: open_turn_def intro: answer_quiet)

lemma steps_run: "answer_run (length xs) (tt_relay st) (relay_part (fst (take_steps xs st))) (tt_relay (snd (take_steps xs st)))"
proof (induction xs arbitrary: st)
  case Nil
  show ?case by (simp add: answer_run.Over)
next
  case (Cons x xs)
  obtain evs st1 where s: "take_step x st = (evs, st1)" by (rule prod.exhaust)
  from answer_run.Step [OF step_answers [OF s] Cons.IH [of st1]]
  show ?case by (simp add: s case_prod_unfold Let_def)
qed

section \<open>One act line\<close>

definition may_have_gone :: "send_result \<Rightarrow> bool" where
  "may_have_gone r \<longleftrightarrow> (case r of Sent_As s \<Rightarrow> True | Unknown_Send w \<Rightarrow> True | _ \<Rightarrow> False)"

definition lines_out :: "string \<Rightarrow> string \<Rightarrow> turn_event list \<Rightarrow> nat" where
  "lines_out sid line evs =
     length (filter (\<lambda>e. case e of Act_Attempt s l r \<Rightarrow> s = sid \<and> l = line \<and> may_have_gone r | _ \<Rightarrow> False) evs)"

lemma lines_out_simps [simp]:
  "lines_out sid line [] = 0" "lines_out sid line (xs @ ys) = lines_out sid line xs + lines_out sid line ys"
  "lines_out sid line (Relayed x # xs) = lines_out sid line xs"
  "lines_out sid line (Act_Attempt s l r # xs) = (if s = sid \<and> l = line \<and> may_have_gone r then Suc (lines_out sid line xs) else lines_out sid line xs)"
  "lines_out sid line (map Relayed evs) = 0"
  by (auto simp: lines_out_def filter_empty_conv)

lemma act_event_lines [simp]:
  "lines_out sid line (act_failed_events a r p w) = 0" "lines_out sid line (act_sent_events E a o1 p l s) = 0"
  by (simp_all add: act_failed_events_def act_sent_events_def)

definition claims_room :: "string \<Rightarrow> act_claims \<Rightarrow> bool" where
  "claims_room sid C \<longleftrightarrow> card (insert sid (set (odict_keys C))) \<le> ACT_SESSIONS"

lemma claim_line_get:
  assumes "claims_room s C" "\<not> claimed s l C"
  shows "claim_line s l C = (True, snd (claim_line s l C))"
    and "claimed sid line (snd (claim_line s l C)) \<longleftrightarrow> claimed sid line C \<or> sid = s \<and> line = l"
    and "set (odict_keys (snd (claim_line s l C))) = insert s (set (odict_keys C))"
proof -
  have cap: "0 < ACT_SESSIONS" by (simp add: ACT_SESSIONS_def)
  note put = od.get_put [OF cap assms(1) [unfolded claims_room_def]] od.held_put_room [OF cap assms(1) [unfolded claims_room_def]]
  show "claim_line s l C = (True, snd (claim_line s l C))" using assms(2) by (simp add: claim_line_def)
  show "claimed sid line (snd (claim_line s l C)) \<longleftrightarrow> claimed sid line C \<or> sid = s \<and> line = l"
    using assms(2) by (auto simp: claim_line_def claimed_def put split: option.splits)
  show "set (odict_keys (snd (claim_line s l C))) = insert s (set (odict_keys C))"
    using assms(2) by (simp add: claim_line_def put)
qed

lemma release_line_get:
  "claimed sid line (release_line s l C) \<longleftrightarrow> claimed sid line C \<and> \<not> (sid = s \<and> line = l)"
  "set (odict_keys (release_line s l C)) = set (odict_keys C)"
  by (auto simp: release_line_def claimed_def odict_keys_get split: option.splits if_splits)

definition line_step :: "string \<Rightarrow> string \<Rightarrow> string \<Rightarrow> turn_state \<Rightarrow> turn_event list \<times> turn_state \<Rightarrow> bool" where
  "line_step s sid line st R \<longleftrightarrow>
     set (odict_keys (tt_claims (snd R))) \<subseteq> insert s (set (odict_keys (tt_claims st))) \<and>
     lines_out sid line (fst R) \<le> (if claimed sid line (tt_claims st) then 0 else 1) \<and>
     (claimed sid line (tt_claims st) \<or> 0 < lines_out sid line (fst R) \<longrightarrow> claimed sid line (tt_claims (snd R)))"

lemma line_quiet: "tt_claims (snd R) = tt_claims st \<Longrightarrow> lines_out sid line (fst R) = 0 \<Longrightarrow> line_step s sid line st R"
  by (auto simp: line_step_def)

lemma act_line_step:
  assumes "deliver_owed_act E s pending o1 st = (out, evs, st')" "claims_room s (tt_claims st)"
  shows "line_step s sid line st (evs, st')"
proof (cases "evs = [] \<and> st' = st")
  case True
  then show ?thesis by (simp add: line_quiet)
next
  case False
  then obtain p l where p: "pending = Some p" "owed_line pending = Some l" "\<not> line_carried s l (rs_bodies (tt_relay st)) (tt_claims st)" "s \<noteq> []"
    using assms(1) by (auto simp: deliver_owed_act_def Let_def split: if_splits option.splits prod.splits)
  then have n: "\<not> claimed s l (tt_claims st)" by (simp add: line_carried_def)
  obtain C where C: "claim_line s l (tt_claims st) = (True, C)" using claim_line_get(1) [OF assms(2) n] by metis
  note got = claim_line_get(2,3) [OF assms(2) n, unfolded C snd_conv]
  let ?r = "tv_transmit E (act_adapter (tv_relay E)) (origin_message o1) (transmitted_body (tv_relay E) (act_adapter (tv_relay E)) (body_for l) [])"
  have run: "(out, evs, st') = deliver_owed_act E s (Some p) o1 st" using assms(1) p(1) by simp
  have "(tt_claims st' = C \<and> lines_out sid line evs = (if s = sid \<and> l = line then 1 else 0)) \<or>
      (tt_claims st' = release_line s l C \<and> lines_out sid line evs = 0)"
  proof (cases "origin_message o1 = []")
    case True
    have "tt_claims st' = release_line s l C \<and> lines_out sid line evs = 0"
      using run p n C True by (simp add: deliver_owed_act_def Let_def)
    then show ?thesis by blast
  next
    case False
    show ?thesis
      using run p n C False by (cases ?r) (simp_all add: deliver_owed_act_def Let_def may_have_gone_def)
  qed
  then show ?thesis
    using n unfolding line_step_def fst_conv snd_conv
    by (elim disjE conjE) (simp_all add: got release_line_get, auto)
qed

lemma text_reply_lines:
  assumes "deliver_text_reply E s response o1 attempted st = (out, evs, st')"
  shows "tt_claims st' = tt_claims st \<and> lines_out sid line evs = 0"
  using assms unfolding deliver_text_reply_def Let_def
  by (auto simp: refuse_text_def relay_text_def case_prod_unfold Let_def split: if_splits option.splits sum.splits bool.splits)

lemma lost_lines [simp]: "lines_out sid line (text_reply_lost E sn st) = 0"
  by (simp add: text_reply_lost_def Let_def split: option.split)

fun step_session :: "turn_step \<Rightarrow> string" where
  "step_session (Text_Work E sid response sn) = sid"
| "step_session (Settle_Work E sid sn) = sid"
| "step_session _ = []"

lemma work_lines:
  assumes "claims_room sid0 (tt_claims st)"
  shows "line_step sid0 sid line st (end_of_turn_text E sid0 response sn st)"
    and "line_step sid0 sid line st (end_of_turn_settle E sid0 sn st)"
proof -
  let ?st1 = "if origin_message (ts_origin sn) = [] then st
    else st\<lparr>tt_texts := snd (claim_once (origin_message (ts_origin sn)) (tt_texts st))\<rparr>"
  have c: "tt_claims ?st1 = tt_claims st" by simp
  obtain act e1 st2 where a: "deliver_owed_act E sid0 (ts_pending sn) (ts_origin sn) ?st1 = (act, e1, st2)" by (rule prod_cases3)
  obtain out e2 st3 where b: "deliver_text_reply E sid0 response (ts_origin sn) (ts_attempted sn) st2 = (out, e2, st3)" by (rule prod_cases3)
  have "line_step sid0 sid line ?st1 (e1, st2)" by (rule act_line_step [OF a]) (simp only: c assms)
  then show "line_step sid0 sid line st (end_of_turn_text E sid0 response sn st)"
    using a b text_reply_lines [OF b, of sid line] unfolding line_step_def c
    by (cases "act = Nothing_Owed") (simp_all add: end_of_turn_text_def Let_def)
  obtain act' e' st' where a': "deliver_owed_act E sid0 (ts_pending sn) (ts_origin sn) st = (act', e', st')" by (rule prod_cases3)
  show "line_step sid0 sid line st (end_of_turn_settle E sid0 sn st)"
    using act_line_step [OF a' assms, of sid line] a' by (cases "owed_line (ts_pending sn)") (auto simp: end_of_turn_settle_def line_step_def)
qed

lemma step_lines:
  assumes "claims_room (step_session x) (tt_claims st)"
  shows "line_step (step_session x) sid line st (take_step x st)"
  using assms
  by (cases x) (auto simp: work_lines open_turn_def draft_hook_def case_prod_unfold Let_def intro: line_quiet)

lemma steps_lines:
  assumes "length xs + card (set (odict_keys (tt_claims st))) \<le> ACT_SESSIONS"
  shows "lines_out sid line (fst (take_steps xs st)) \<le> (if claimed sid line (tt_claims st) then 0 else 1)"
  using assms
proof (induction xs arbitrary: st)
  case Nil
  then show ?case by simp
next
  case (Cons x xs)
  obtain evs st1 where s: "take_step x st = (evs, st1)" by (rule prod.exhaust)
  let ?K = "set (odict_keys (tt_claims st))"
  have c: "card (insert (step_session x) ?K) \<le> Suc (card ?K)" by (simp add: card_insert_if)
  then have "claims_room (step_session x) (tt_claims st)" using Cons.prems by (simp add: claims_room_def)
  from step_lines [OF this, of sid line] have st: "line_step (step_session x) sid line st (evs, st1)" by (simp add: s)
  then have "card (set (odict_keys (tt_claims st1))) \<le> card (insert (step_session x) ?K)"
    by (auto simp: line_step_def intro: card_mono)
  then have "length xs + card (set (odict_keys (tt_claims st1))) \<le> ACT_SESSIONS" using c Cons.prems by simp
  from Cons.IH [OF this] st show ?case by (auto simp: s line_step_def case_prod_unfold Let_def split: if_splits)
qed

section \<open>The words of a text\<close>

text \<open>A pattern that consumes only characters of one kind.\<close>

primrec only_of :: "(char \<Rightarrow> bool) \<Rightarrow> rx \<Rightarrow> bool" where
  "only_of Q Empty \<longleftrightarrow> True"
| "only_of Q (One P) \<longleftrightarrow> (\<forall>c. P c \<longrightarrow> Q c)"
| "only_of Q (Then a b) \<longleftrightarrow> only_of Q a \<and> only_of Q b"
| "only_of Q (Or a b) \<longleftrightarrow> only_of Q a \<and> only_of Q b"
| "only_of Q (Many a) \<longleftrightarrow> only_of Q a"
| "only_of Q (Group n a) \<longleftrightarrow> only_of Q a"
| "only_of Q (Ahead b a) \<longleftrightarrow> True"
| "only_of Q (Behind b P) \<longleftrightarrow> True"
| "only_of Q Start \<longleftrightarrow> True"
| "only_of Q Finish \<longleftrightarrow> True"
| "only_of Q Edge \<longleftrightarrow> True"

definition eats :: "(char \<Rightarrow> bool) \<Rightarrow> spot \<Rightarrow> spot \<Rightarrow> bool" where
  "eats Q p q \<longleftrightarrow> (\<exists>x. rest_of p = x @ rest_of q \<and> (\<forall>c \<in> set x. Q c))"

lemma eats_refl [simp]: "eats Q p p"
  by (simp add: eats_def)

lemma eats_trans: "eats Q p q \<Longrightarrow> eats Q q r \<Longrightarrow> eats Q p r"
  by (fastforce simp: eats_def)

lemma eats_length: "eats Q p q \<Longrightarrow> length (rest_of q) \<le> length (rest_of p)"
  by (auto simp: eats_def)

lemma rounds_eat:
  assumes "\<And>p q. q \<in> set (f p) \<Longrightarrow> eats Q p q"
  shows "q \<in> set (rounds n f p) \<Longrightarrow> eats Q p q"
proof (induction n arbitrary: p)
  case (Suc n)
  then consider "q = p" | r where "r \<in> set (f p)" "q \<in> set (rounds n f r)" by (auto split: if_splits)
  then show ?case
  proof cases
    case 2
    then show ?thesis using eats_trans [OF assms [OF 2(1)] Suc.IH [OF 2(2)]] by simp
  qed simp
qed simp

lemma only_eats: "only_of Q r \<Longrightarrow> q \<in> set (outcomes r p) \<Longrightarrow> eats Q p q"
proof (induction r arbitrary: p q)
  case (One P)
  then show ?case by (auto simp: eats_def rest_of_def split: prod.splits list.splits if_splits)
next
  case (Then a b)
  from Then.prems obtain m where m: "m \<in> set (outcomes a p)" "q \<in> set (outcomes b m)" by auto
  have o: "only_of Q a" "only_of Q b" using Then.prems(1) by simp_all
  from eats_trans [OF Then.IH(1) [OF o(1) m(1)] Then.IH(2) [OF o(2) m(2)]] show ?case .
next
  case (Or a b)
  then show ?case by (cases "q \<in> set (outcomes a p)") simp_all
next
  case (Many a)
  have o: "only_of Q a" using Many.prems(1) by simp
  show ?case by (rule rounds_eat [of "outcomes a", OF Many.IH [OF o]]) (use Many.prems in simp_all)
next
  case (Group n a)
  then obtain pre s g where q: "(pre, s, g) \<in> set (outcomes a p)" "q = (pre, s, (n, take (length (rest_of p) - length s) (rest_of p)) # g)" by auto
  have o: "only_of Q a" using Group.prems(1) by simp
  from Group.IH [OF o q(1)] show ?case by (simp add: q(2) eats_def rest_of_def)
qed (auto split: if_splits)

lemma replace_keeps:
  assumes "only_of Q r" "\<forall>c \<in> set t. Q c"
    and "\<And>pre s m. first_match r pre s = Some m \<Longrightarrow> length (rest_of m) < length s"
  shows "\<forall>c \<in> set (take n s). Q c \<Longrightarrow> filter (\<lambda>c. \<not> Q c) (replace_from r t n pre s) = filter (\<lambda>c. \<not> Q c) s"
proof (induction s arbitrary: n pre)
  case (Cons c s)
  show ?case
  proof (cases "0 < n")
    case True
    then have "Q c" "\<forall>d \<in> set (take (n - 1) s). Q d" using Cons.prems by (cases n; simp)+
    then show ?thesis using Cons.IH True by simp
  next
    case False
    show ?thesis
    proof (cases "first_match r pre (c # s)")
      case None
      then show ?thesis using Cons.IH [of 0] False by simp
    next
      case (Some m)
      from only_eats [OF assms(1) first_match_outcome [OF Some]]
      obtain x where x: "c # s = x @ rest_of m" "\<forall>d \<in> set x. Q d" by (auto simp: eats_def rest_of_def)
      obtain y where y: "x = c # y" "s = y @ rest_of m" using x(1) assms(3) [OF Some] by (cases x) auto
      have "\<forall>d \<in> set (take (length s - length (rest_of m)) s). Q d" using x(2) y by simp
      moreover have "filter (\<lambda>c. \<not> Q c) t = []" using assms(2) by (simp add: filter_empty_conv)
      ultimately show ?thesis using Cons.IH False Some x(2) y(1) by simp
    qed
  qed
qed simp

definition scrubbed :: "char \<Rightarrow> char \<Rightarrow> bool" where
  "scrubbed em c \<longleftrightarrow> c \<in> {CHR ''!'', CHR ''.'', CHR '','', em} \<or> ws c"

lemma exclamation_shape: "only_of (scrubbed em) EXCLAMATION" "first_match EXCLAMATION pre s = Some m \<Longrightarrow> length (rest_of m) < length s"
proof -
  show "only_of (scrubbed em) EXCLAMATION" by (simp add: EXCLAMATION_def scrubbed_def)
  assume "first_match EXCLAMATION pre s = Some m"
  from first_match_outcome [OF this]
  have "m \<in> set (outcomes (One (\<lambda>c. c = CHR ''!'')) (pre, s, []))"
    by (auto simp: EXCLAMATION_def simp del: outcomes.simps(2) split: if_splits)
  then show "length (rest_of m) < length s" unfolding one_outcome by (auto simp: rest_of_def)
qed

lemma dash_shape: "only_of (scrubbed em) (EM_DASH em)" "first_match (EM_DASH em) pre s = Some m \<Longrightarrow> length (rest_of m) < length s"
proof -
  show "only_of (scrubbed em) (EM_DASH em)" by (simp add: EM_DASH_def scrubbed_def)
  have spaces: "q \<in> set (outcomes (Many (One ws)) p) \<Longrightarrow> length (rest_of q) \<le> length (rest_of p)" for p q
    using only_eats [of ws "Many (One ws)" q p] eats_length [of ws p q] by simp
  assume "first_match (EM_DASH em) pre s = Some m"
  from first_match_outcome [OF this]
  obtain q r where q: "q \<in> set (outcomes (Many (One ws)) (pre, s, []))" "r \<in> set (outcomes (One (\<lambda>c. c = em)) q)"
    "m \<in> set (outcomes (Many (One ws)) r)"
    by (auto simp: EM_DASH_def simp del: outcomes.simps(2,5))
  have "length (rest_of r) < length (rest_of q)" using q(2) unfolding one_outcome by (auto simp: rest_of_def)
  then show "length (rest_of m) < length s" using spaces [OF q(1)] spaces [OF q(3)] by (simp add: rest_of_def)
qed

section \<open>The properties\<close>

definition demo_turn :: "relay_env \<Rightarrow> turn_env" where
  "demo_turn R =
     \<lparr>tv_relay = R, tv_clock = 0, tv_silence = None, tv_dash = CHR 0x97, tv_gate = (\<lambda>_ _ args. Some args),
      tv_transmit = (\<lambda>_ _ _. Unknown_Send ''lost'')\<rparr>"

definition quiet_turn :: turn_state where
  "quiet_turn = \<lparr>tt_relay = quiet_relay, tt_acts = empty_odict, tt_claims = empty_odict, tt_attempts = empty_odict,
     tt_given = empty_odict, tt_texts = empty_odict, tt_answered = empty_odict\<rparr>"

definition demo_origin :: origin where
  "demo_origin = \<lparr>or_sender = ''ana@firm.com'', or_message_id = ''m1''\<rparr>"

definition demo_snapshot :: "pending_act option \<Rightarrow> turn_snapshot" where
  "demo_snapshot p = \<lparr>ts_origin = Some demo_origin, ts_attempted = False, ts_pending = p\<rparr>"

definition demo_act :: pending_act where
  "demo_act = \<lparr>pa_proposal = ''527116d6'', pa_tool = ''t'', pa_readback = ''[act 527116d6]'', pa_created = 0, pa_delivered = False,
     pa_confirmed = None, pa_in_flight = False\<rparr>"

text \<open>C16: one guard key gets one reply, whichever hook sends it. Over any run of draft hooks and of the work at
  the end of turns that is short enough for the register of replies to forget nothing (two entries a step beside those
  there, at most 512), at most one reply is sent, left in doubt or queued under a key, and none under a key already
  there; whether it was drafted or taken from the turn's text. The key of a reply to the email that opened the turn is that email's
  id; a bound reply has a key of its own, and act lines are not replies: both are counted apart.\<close>

theorem one_reply_per_guard_key:
  assumes "2 * length xs + length (rs_replied (tt_relay st)) \<le> REPLIED_MAX" "k \<noteq> []"
  shows "deliveries_of k (relay_part (fst (take_steps xs st))) \<le> (if k \<in> set (rs_replied (tt_relay st)) then 0 else 1)"
  using steps_run assms by (rule run_answers_once)

lemma one_reply_per_guard_key_witness:
  "deliveries_of ''m1'' (relay_part (fst (take_steps
     [Draft_Hook Transform_Hook (demo_relay (Some demo_config)) (demo_draft ''ana@firm.com''),
      Text_Work (demo_turn (demo_relay (Some demo_config))) ''s'' (PStr ''Sure!'') (demo_snapshot None),
      Settle_Work (demo_turn (demo_relay (Some demo_config))) ''s'' (demo_snapshot None)] quiet_turn))) \<le> 1"
  using one_reply_per_guard_key [of "[Draft_Hook Transform_Hook (demo_relay (Some demo_config)) (demo_draft ''ana@firm.com''),
      Text_Work (demo_turn (demo_relay (Some demo_config))) ''s'' (PStr ''Sure!'') (demo_snapshot None),
      Settle_Work (demo_turn (demo_relay (Some demo_config))) ''s'' (demo_snapshot None)]" quiet_turn "''m1''"]
  by (simp add: quiet_turn_def quiet_relay_def REPLIED_MAX_def del: take_steps.simps)

text \<open>the seat sends an act line at most once. Over any run that the register of claims can hold (its steps and the
  sessions already there, at most 128), at most one transmission of a line in a session that the seat itself made went out or
  may have, and none if the line was already claimed there. The line inside a reply that the relay sends is not counted.\<close>

theorem act_line_goes_out_once:
  assumes "length xs + card (set (odict_keys (tt_claims st))) \<le> ACT_SESSIONS"
  shows "lines_out sid line (fst (take_steps xs st)) \<le> (if claimed sid line (tt_claims st) then 0 else 1)"
  using assms by (rule steps_lines)

lemma act_line_goes_out_once_witness:
  "lines_out ''s'' ''[act 527116d6]'' (fst (take_steps
     [Text_Work (demo_turn (demo_relay (Some demo_config))) ''s'' (PStr ''ok'') (demo_snapshot (Some demo_act)),
      Settle_Work (demo_turn (demo_relay (Some demo_config))) ''s'' (demo_snapshot (Some demo_act))] quiet_turn)) \<le> 1"
proof -
  have "lines_out ''s'' ''[act 527116d6]'' (fst (take_steps
     [Text_Work (demo_turn (demo_relay (Some demo_config))) ''s'' (PStr ''ok'') (demo_snapshot (Some demo_act)),
      Settle_Work (demo_turn (demo_relay (Some demo_config))) ''s'' (demo_snapshot (Some demo_act))] quiet_turn)) \<le>
    (if claimed ''s'' ''[act 527116d6]'' (tt_claims quiet_turn) then 0 else 1)"
    by (rule act_line_goes_out_once) (simp add: quiet_turn_def ACT_SESSIONS_def)
  then show ?thesis by (simp add: quiet_turn_def claimed_def)
qed

text \<open>Off a Graph mailbox a reply is an answer to the message the session registers, never a bound or a redirected one.\<close>

lemma mail_transmits:
  assumes "Transmitted k tx r \<in> set (fst (relay_draft E c st))" "rv_config E = Some d" "email_adapter d \<noteq> ADAPTER_MSGRAPH"
  obtains o2 joint where "reply_source E (dc_session c) = Some (o2, None)" "tx_carrier tx = Mail_Carrier (or_message_id o2) joint"
    "carrier_locked E d (draft_recipients (rv_parse E) (dc_args c)) o2 None (Mail_Carrier (or_message_id o2) joint)"
proof -
  obtain d' o2 bound where t: "rv_config E = Some d'" "reply_source E (dc_session c) = Some (o2, bound)"
    "relay_draft E c st = relay_turn E d' c o2 bound st"
    using assms(1) by (rule draft_transmits)
  then have "Transmitted k tx r \<in> set (fst (relay_turn E d c o2 bound st))" using assms(1,2) by simp
  then obtain ad where ad: "addressed E d c o2 bound = Inr ad" "tx_carrier tx = reply_carrier d o2 bound ad" by (rule turn_transmits)
  have "bound = None" using ad(1) assms(3) by (auto simp: addressed_def Let_def split: option.splits if_splits)
  then show ?thesis
    using that t(2) ad(2) locked_carrier [OF ad(1)] assms(3) by (simp add: reply_carrier_def)
qed

text \<open>C28: the text of a turn goes to its writer: when the seat transmits the text for the email \<open>og\<close>, the seat is an
  AgentMail seat, the sender of \<open>og\<close> is on its roster, the turn had not tried to send, nothing had answered the email and the text
  is not authored silence; and the transmission answers a message of that same sender, the one registered for the session
  when the worker runs, or, on a thread that several people of a shared seat are on, a message of one of those people,
  the sender being one of them. The trust gate is taken to leave the recipient of the draft as the seat wrote it, and the address
  parser to read the sender's bare address as itself.\<close>

theorem text_goes_to_its_writer:
  assumes "deliver_text_reply E sid (PStr text) (Some og) attempted st = (out, evs, st')" "Relayed (Transmitted k tx r) \<in> set evs"
    "\<forall>args. tv_gate E sid (TEXT_CALL_PREFIX @ or_message_id og) (text_draft_args (or_sender og) (scrub (tv_dash E) text)) = Some args \<longrightarrow>
       dget args ''to'' = PList [PStr (or_sender og)]"
    "rv_parse (tv_relay E) (or_sender og) = or_sender og"
  shows "\<exists>d o2 joint. rv_config (tv_relay E) = Some d \<and> email_adapter d \<in> set TEXT_ADAPTERS \<and>
    sender_on_roster d (PStr (or_sender og)) = Inr True \<and> \<not> already_answered (or_message_id og) attempted st \<and>
    \<not> is_silent (tv_silence E) text \<and>
    bound_this_turn sid (rv_origins (tv_relay E)) = Some o2 \<and> tx_carrier tx = Mail_Carrier (or_message_id o2) joint \<and>
    (\<not> joint \<longrightarrow> normalized (or_sender o2) = normalized (or_sender og)) \<and>
    (joint \<longrightarrow> (\<exists>people. rv_people (tv_relay E) d = Some people \<and> normalized (or_sender o2) \<in> set people \<and>
       normalized (or_sender og) \<in> normalized ` set people))"
  using assms(1)
proof (cases rule: text_cases)
  case rest
  then show ?thesis using assms(2) by simp
next
  case (past og' d G body)
  then have same: "og' = og" "body = text" by simp_all
  obtain args where args: "tv_gate E sid (TEXT_CALL_PREFIX @ or_message_id og) (text_draft_args (or_sender og) (scrub (tv_dash E) text)) = Some args"
    "relay_text E sid og args (st\<lparr>tt_given := G\<rparr>) = (out, evs, st')"
    using past(13) assms(2) by (auto simp: same refuse_text_def hold_reply_def held_reply_event_def case_prod_unfold Let_def split: option.splits)
  have "Transmitted k tx r \<in> set (relay_part evs)" using assms(2) by (simp add: relayed_in_part)
  then have sent: "Transmitted k tx r \<in> set (fst (relay_draft (tv_relay E) (text_call sid (or_message_id og) args) (tt_relay st)))"
    using args(2) by (auto simp: relay_text_def Let_def case_prod_unfold split: if_splits)
  have "email_adapter d \<noteq> ADAPTER_MSGRAPH" using past(10) by (auto simp: TEXT_ADAPTERS_def ADAPTER_MSGRAPH_def)
  then obtain o2 joint where o2: "reply_source (tv_relay E) sid = Some (o2, None)" "tx_carrier tx = Mail_Carrier (or_message_id o2) joint"
    "carrier_locked (tv_relay E) d (draft_recipients (rv_parse (tv_relay E)) args) o2 None (Mail_Carrier (or_message_id o2) joint)"
    using mail_transmits [OF sent past(9)] by (auto simp: text_call_def)
  have named: "draft_recipients (rv_parse (tv_relay E)) args = {normalized (or_sender og)} - {[]}"
    using assms(3,4) args(1) by (auto simp: draft_recipients_def addresses_under_def address_items_def normalize_addr_def)
  have "bound_this_turn sid (rv_origins (tv_relay E)) = Some o2" using o2(1) by (auto simp: reply_source_def split: option.splits)
  moreover have "\<not> joint \<Longrightarrow> normalized (or_sender o2) = normalized (or_sender og)"
    using o2(3) named by (cases joint) (auto split: if_splits)
  moreover have "joint \<Longrightarrow> \<exists>people. rv_people (tv_relay E) d = Some people \<and> normalized (or_sender o2) \<in> set people \<and>
      normalized (or_sender og) \<in> normalized ` set people"
    using o2(3) named by (cases joint) (auto split: if_splits)
  ultimately show ?thesis using past(7-11) o2(2) by (auto simp: same)
qed

lemma demo_text_sent:
  "Relayed (Transmitted ''m1'' (demo_sent\<lparr>tx_text := ''Sure.''\<rparr>) (Sent_As ''r1'')) \<in>
     set (fst (snd (deliver_text_reply (demo_turn (demo_relay (Some demo_config))) ''s'' (PStr ''Sure!'') (Some demo_origin) False quiet_turn)))"
  by code_simp

lemma text_goes_to_its_writer_witness:
  "\<exists>o2 joint. bound_this_turn ''s'' (rv_origins (demo_relay (Some demo_config))) = Some o2 \<and>
    Mail_Carrier ''m1'' False = Mail_Carrier (or_message_id o2) joint \<and> normalized (or_sender o2) = ''ana@firm.com''"
proof -
  obtain out evs st' where d: "deliver_text_reply (demo_turn (demo_relay (Some demo_config))) ''s'' (PStr ''Sure!'') (Some demo_origin) False quiet_turn =
    (out, evs, st')" by (rule prod_cases3)
  then have t: "Relayed (Transmitted ''m1'' (demo_sent\<lparr>tx_text := ''Sure.''\<rparr>) (Sent_As ''r1'')) \<in> set evs" using demo_text_sent by simp
  have "tx_carrier demo_sent = Mail_Carrier ''m1'' False" "normalized (or_sender demo_origin) = ''ana@firm.com''" by code_simp+
  moreover have "\<forall>args. tv_gate (demo_turn (demo_relay (Some demo_config))) ''s'' (TEXT_CALL_PREFIX @ or_message_id demo_origin)
      (text_draft_args (or_sender demo_origin) (scrub (tv_dash (demo_turn (demo_relay (Some demo_config)))) ''Sure!'')) = Some args \<longrightarrow>
      dget args ''to'' = PList [PStr (or_sender demo_origin)]"
    by (simp add: demo_turn_def text_draft_args_def dget_def)
  moreover have "rv_parse (tv_relay (demo_turn (demo_relay (Some demo_config)))) (or_sender demo_origin) = or_sender demo_origin"
    by (simp add: demo_turn_def demo_relay_def)
  ultimately show ?thesis using text_goes_to_its_writer [OF d t] by (auto simp: demo_turn_def)
qed


lemma demo_rostered:
  "sender_on_roster demo_config (PStr ''ana@firm.com'') = Inr True" "email_adapter demo_config \<in> set TEXT_ADAPTERS"
  "\<not> is_silent None ''Sure!''" "\<not> already_answered ''m1'' False quiet_turn" "\<not> has_id ''m1'' (tt_given quiet_turn)"
  by code_simp+


text \<open>the seat changes a turn's text only by its marks: without exclamation marks, full stops, commas, em dashes and
  white space, the text it sends is the text the turn ended with.\<close>

theorem scrub_keeps_the_words:
  "filter (\<lambda>c. \<not> scrubbed em c) (scrub em s) = filter (\<lambda>c. \<not> scrubbed em c) s"
proof -
  have "filter (\<lambda>c. \<not> scrubbed em c) (replace_from EXCLAMATION ''.'' 0 [] s) = filter (\<lambda>c. \<not> scrubbed em c) s"
    by (rule replace_keeps [OF exclamation_shape(1)]) (use exclamation_shape(2) in \<open>auto simp: scrubbed_def\<close>)
  moreover have "filter (\<lambda>c. \<not> scrubbed em c) (replace_from (EM_DASH em) '', '' 0 [] u) = filter (\<lambda>c. \<not> scrubbed em c) u" for u
    by (rule replace_keeps [OF dash_shape(1)]) (use dash_shape(2) in \<open>auto simp: scrubbed_def ws_def\<close>)
  ultimately show ?thesis by (simp add: scrub_def replace_all_def)
qed

text \<open>C19: with a roster that cannot be read, the person is lost in silence: the text is not sent, and neither the work at the
  end of the turn nor the check that follows it writes a row or pages anybody.\<close>

theorem malformed_roster_loses_the_text:
  assumes "owed_line (ts_pending sn) = None" "rv_config (tv_relay E) = Some d" "ts_origin sn = Some og"
    "sender_on_roster d (PStr (or_sender og)) = Inl e"
  shows "fst (end_of_turn_text E sid response sn st) = [] \<and>
    fst (end_of_turn_settle E sid sn (snd (end_of_turn_text E sid response sn st))) = []"
proof -
  have act: "deliver_owed_act E sid (ts_pending sn) (ts_origin sn) s = (Nothing_Owed, [], s)" for s
    using assms(1) by (simp add: deliver_owed_act_def split: option.split)
  have none: "fst (snd (deliver_text_reply E sid response (Some og) a s)) = []" for a s
    using assms(2,4) by (auto simp: deliver_text_reply_def Let_def)
  have lost: "text_reply_lost E sn s = []" for s
    using assms(2-4) by (simp add: text_reply_lost_def Let_def origin_sender_def)
  show ?thesis using act none lost assms(3) by (simp add: end_of_turn_text_def end_of_turn_settle_def case_prod_unfold Let_def)
qed

definition broken_roster :: pydict where
  "broken_roster = [(''scope'', PDict [(''inbound_allow_from'', PStr ''ana@firm.com'')])]"

lemma malformed_roster_loses_the_text_witness:
  "fst (end_of_turn_text (demo_turn (demo_relay (Some broken_roster))) ''s'' (PStr ''Sure!'') (demo_snapshot None) quiet_turn) = [] \<and>
    fst (end_of_turn_settle (demo_turn (demo_relay (Some broken_roster))) ''s'' (demo_snapshot None)
      (snd (end_of_turn_text (demo_turn (demo_relay (Some broken_roster))) ''s'' (PStr ''Sure!'') (demo_snapshot None) quiet_turn))) = []"
proof -
  have "isl (sender_on_roster broken_roster (PStr ''ana@firm.com''))" by code_simp
  then obtain e where e: "sender_on_roster broken_roster (PStr (or_sender demo_origin)) = Inl e"
    by (cases "sender_on_roster broken_roster (PStr ''ana@firm.com'')") (auto simp: demo_origin_def)
  show ?thesis
    by (rule malformed_roster_loses_the_text [OF _ _ _ e]) (simp_all add: demo_turn_def demo_relay_def demo_snapshot_def owed_line_def)
qed

text \<open>what a later turn of the session did is read again: when the session's registers name no email any more by the time
  the worker runs, the text of the turn that had one is not sent and the page says it was held.\<close>

theorem later_turn_drops_the_text:
  assumes "reply_source (tv_relay E) sid = None" "rv_config (tv_relay E) = Some d"
    "\<not> committed (or_message_id og) (rs_replied (tt_relay st))"
    "\<not> notice_pending (TEXT_CALL_PREFIX @ or_message_id og) (rs_notices (tt_relay st))"
  shows "fst (snd (relay_text E sid og args st)) = [Relayed (Page ''held'' [])]"
  using assms by (simp add: relay_text_def relay_draft_def without_notice_def take_notice_def notice_pending_def
      text_call_def call_key_def case_prod_unfold Let_def)

lemma later_turn_drops_the_text_witness:
  "fst (snd (relay_text (demo_turn (demo_relay (Some demo_config)\<lparr>rv_origins := no_origins\<rparr>)) ''s'' demo_origin [] quiet_turn)) = [Relayed (Page ''held'' [])]"
proof -
  have "reply_source (demo_relay (Some demo_config)\<lparr>rv_origins := no_origins\<rparr>) ''s'' = None" by code_simp
  then show ?thesis
    by (intro later_turn_drops_the_text [where d = demo_config])
      (simp_all add: demo_turn_def demo_relay_def quiet_turn_def quiet_relay_def committed_def notice_pending_def no_notices_def)
qed

end
