(* ===== verification/Prerendered.thy ===== *)
theory Prerendered
  imports Escalation_Ledger Reply_Binding Regex
begin

text \<open>
  The out-of-turn dispatch of a routine's rendered alerts (\<open>shared/prerendered_dispatch.py\<close>,
  \<open>shared/digest_reply_ref.py\<close>, \<open>outbound_attachment.sanitize\<close>, \<open>cron_attribution\<close>): the envelope a session may take, once and only while it
  is fresh, the ladder of sends of one alert, the item records a delivery earns, and the note the turn reads. The
  sender, the broker, the cron store and the other modules' validators are parameters of \<open>pre_env\<close>; what a pass does
  is a list of events, and the sender may answer by everything that was done before.
\<close>

section \<open>Bounds\<close>

definition MAX_DISPATCHES :: nat where "MAX_DISPATCHES = 10"
definition MAX_APPENDS :: nat where "MAX_APPENDS = 200"
definition MAX_RECIPIENTS :: nat where "MAX_RECIPIENTS = 20"
definition MAX_BODY_CHARS :: int where "MAX_BODY_CHARS = 131072"
definition MAX_SUBJECT_CHARS :: int where "MAX_SUBJECT_CHARS = 500"
definition MAX_IN_TURN :: nat where "MAX_IN_TURN = 64"
definition MAX_ATTACHMENTS :: nat where "MAX_ATTACHMENTS = 3"
definition MAX_DIGEST_NUMBER :: int where "MAX_DIGEST_NUMBER = 999"
definition MAX_SNOOZE_DAYS :: int where "MAX_SNOOZE_DAYS = 365"
definition HANDOFF_WINDOW :: rat where "HANDOFF_WINDOW = 1200"
definition MAX_CLOCK_SKEW :: rat where "MAX_CLOCK_SKEW = 120"

definition DISPATCH_EVENTS :: "string list" where
  "DISPATCH_EVENTS = [''fired'', ''chased'', ''handed_off'']"

definition RAISE_EVENTS :: "string list" where
  "RAISE_EVENTS = [''fired'', ''chased'']"

definition LINE_KINDS :: "string list" where
  "LINE_KINDS = [''task'', ''date'']"

section \<open>The pieces of an alert\<close>

record dispatch_result =
  dr_sent :: bool
  dr_message :: string
  dr_reason :: string
  dr_recipients :: "string list"
  dr_attachment_refused :: bool
  dr_unknown :: bool

datatype body_variant = Full_Body | Full_No_Attachment | Skeleton_Body

record letter =
  lt_ref :: string
  lt_variant :: body_variant
  lt_to :: "string list"
  lt_cc :: "string list"
  lt_subject :: string
  lt_text :: string
  lt_lane :: string
  lt_leg :: "string option"
  lt_attachments :: "pyval list"

datatype pre_event =
  Sent_Letter letter dispatch_result
| Append_Row string pydict bool
| Lines_Noted string string "(int \<times> string option) list"
| Mentions_Noted pyval
| Raises_Noted string pyval

record pre_env =
  pe_session :: string
  pe_routine :: "string \<Rightarrow> (string \<times> string option) option"
  pe_started :: "string \<Rightarrow> bool"
  pe_resolve :: "string \<Rightarrow> string"
  pe_now :: rat
  pe_json :: "string \<Rightarrow> pyval option"
  pe_instant :: "string \<Rightarrow> rat option"
  pe_str :: "pyval \<Rightarrow> string"
  pe_int :: "pyval \<Rightarrow> int option"
  pe_digest :: "string \<Rightarrow> string"
  pe_attachment :: "pyval \<Rightarrow> pyval option"
  pe_set_ok :: "pyval list \<Rightarrow> bool"
  pe_mentions_ok :: "pyval \<Rightarrow> bool"
  pe_raises_ok :: "pyval \<Rightarrow> bool"
  pe_moves :: bool
  pe_ref :: "nat \<Rightarrow> string"
  pe_lane :: "string \<Rightarrow> string"
  pe_turn_lane :: "string \<Rightarrow> string option"
  pe_send :: "pre_event list \<Rightarrow> letter \<Rightarrow> dispatch_result"
  pe_append :: "pre_event list \<Rightarrow> pydict \<Rightarrow> bool"

text \<open>\<open>pe_routine\<close> is the skill and persona of a job in the cron store, \<open>pe_started\<close> whether the stamp of a cron
  session is an instant, \<open>pe_moves\<close> whether an envelope can be renamed; \<open>pe_append\<close> is whether the broker took a row.\<close>

definition string_of :: "pyval \<Rightarrow> string option" where
  "string_of v = (case v of PStr s \<Rightarrow> Some s | _ \<Rightarrow> None)"

text \<open>The values \<open>for x in (v or [])\<close> runs over; \<open>None\<close> when it raises.\<close>

definition iterated :: "pyval \<Rightarrow> pyval list option" where
  "iterated v =
     (if \<not> truthy v then Some []
      else case v of PList xs \<Rightarrow> Some xs | PStr s \<Rightarrow> Some (map (\<lambda>c. PStr [c]) s) | PDict d \<Rightarrow> Some (map (PStr \<circ> fst) d) | _ \<Rightarrow> None)"

definition strings_in :: "pyval list \<Rightarrow> string list" where
  "strings_in vs = List.map_filter string_of vs"

section \<open>Digest numbers\<close>

definition valid_digest_number :: "pyval \<Rightarrow> bool" where
  "valid_digest_number v = (case v of PInt i \<Rightarrow> 1 \<le> i \<and> i \<le> MAX_DIGEST_NUMBER | _ \<Rightarrow> False)"

definition valid_snooze_days :: "pyval \<Rightarrow> bool" where
  "valid_snooze_days v = (case v of PInt i \<Rightarrow> 1 \<le> i \<and> i \<le> MAX_SNOOZE_DAYS | _ \<Rightarrow> False)"

definition append_digest_fields_ok :: "pydict \<Rightarrow> bool" where
  "append_digest_fields_ok a \<longleftrightarrow>
     (dget a ''n'' = PNone \<or> valid_digest_number (dget a ''n'')) \<and>
     (dget a ''snooze_days'' = PNone \<or> valid_snooze_days (dget a ''snooze_days''))"

definition stamp_raise :: "pydict \<Rightarrow> pydict \<Rightarrow> string \<Rightarrow> pydict" where
  "stamp_raise event a ref =
     (if \<not> Casework_Ledger.among (dget event ''event'') RAISE_EVENTS \<or> ref = [] then event
      else event @ [(''dispatch_ref'', PStr ref)] @
        (if valid_digest_number (dget a ''n'') then [(''n'', dget a ''n'')] else []) @
        (if valid_snooze_days (dget a ''snooze_days'') then [(''snooze_days'', dget a ''snooze_days'')] else []))"

section \<open>The envelope\<close>

definition safe_skill :: "string \<Rightarrow> string" where
  "safe_skill skill =
     (let cleaned = strip_chars ''-'' (map (\<lambda>c. if word_char c \<or> c = CHR ''-'' then c else CHR ''-'') skill)
      in if cleaned = [] then ''unnamed'' else cleaned)"

definition short_text :: "int \<Rightarrow> pyval \<Rightarrow> bool" where
  "short_text cap v = (case v of PStr s \<Rightarrow> strip s \<noteq> [] \<and> int (length s) \<le> cap | _ \<Rightarrow> False)"

definition valid_append :: "pyval \<Rightarrow> bool" where
  "valid_append v =
     (case v of
        PDict a \<Rightarrow> Casework_Ledger.among (dget a ''event'') DISPATCH_EVENTS \<and> (case dget a ''item_key'' of PStr s \<Rightarrow> s \<noteq> [] | _ \<Rightarrow> False) \<and> append_digest_fields_ok a
      | _ \<Rightarrow> False)"

definition valid_dispatch :: "pre_env \<Rightarrow> pyval \<Rightarrow> bool" where
  "valid_dispatch E v =
     (case v of
        PDict e \<Rightarrow>
          (case dget e ''recipients'' of
             PList rs \<Rightarrow> rs \<noteq> [] \<and> length rs \<le> MAX_RECIPIENTS \<and> list_all (\<lambda>r. case r of PStr s \<Rightarrow> strip s \<noteq> [] | _ \<Rightarrow> False) rs
           | _ \<Rightarrow> False) \<and>
          short_text MAX_SUBJECT_CHARS (dget e ''subject'') \<and> short_text MAX_BODY_CHARS (dget e ''full_body'') \<and>
          (case dget e ''skeleton_body'' of PNone \<Rightarrow> True | PStr s \<Rightarrow> int (length s) \<le> MAX_BODY_CHARS | _ \<Rightarrow> False) \<and>
          (case (if map_of e ''appends'' = None then PList [] else dget e ''appends'') of
             PList as \<Rightarrow> length as \<le> MAX_APPENDS \<and> list_all valid_append as
           | _ \<Rightarrow> False) \<and>
          pe_mentions_ok E (dget e ''casework_mentions'') \<and> pe_raises_ok E (dget e ''casework_raises'')
      | _ \<Rightarrow> False)"

text \<open>The claimable envelopes, by persona root (or none) and file name; \<open>in_turn\<close> is the register of declarations.\<close>

record pre_state =
  ps_files :: "((string option \<times> string) \<times> string) list"
  ps_consumed :: "((string option \<times> string) \<times> string) list"
  ps_in_turn :: "(string \<times> bool \<times> pyval list) list"
  ps_trace :: "pre_event list"

definition found_envelope :: "string \<Rightarrow> string option \<Rightarrow> pre_state \<Rightarrow> ((string option \<times> string) \<times> string) option" where
  "found_envelope skill persona st =
     (let roots = (case persona of Some (c # p) \<Rightarrow> [Some (safe_skill (c # p)), None] | _ \<Rightarrow> [None]);
          hits = List.map_filter (\<lambda>r. map_option (\<lambda>raw. ((r, safe_skill skill), raw)) (map_of (ps_files st) (r, safe_skill skill))) roots
      in case hits of [] \<Rightarrow> None | h # _ \<Rightarrow> Some h)"

definition recent :: "rat \<Rightarrow> rat \<Rightarrow> bool" where
  "recent now started \<longleftrightarrow> now - started \<le> HANDOFF_WINDOW \<and> - MAX_CLOCK_SKEW \<le> now - started"

definition readable_envelope :: "pre_env \<Rightarrow> string \<Rightarrow> string \<Rightarrow> (pydict \<times> pyval list) option" where
  "readable_envelope E skill raw =
     (case pe_json E raw of
        Some (PDict p) \<Rightarrow>
          if dget p ''skill'' \<noteq> PStr skill then None
          else
            (case Option.bind (string_of (dget p ''started_at'')) (pe_instant E) of
               None \<Rightarrow> None
             | Some started \<Rightarrow>
                 if \<not> recent (pe_now E) started then None
                 else
                   (case dget p ''dispatches'' of
                      PList ds \<Rightarrow> if length ds \<le> MAX_DISPATCHES \<and> list_all (valid_dispatch E) ds then Some (p, ds) else None
                    | _ \<Rightarrow> None))
      | _ \<Rightarrow> None)"

definition take_envelope :: "pre_env \<Rightarrow> string \<Rightarrow> string option \<Rightarrow> pre_state \<Rightarrow> (pydict \<times> pyval list) option \<times> pre_state" where
  "take_envelope E skill persona st =
     (case found_envelope skill persona st of
        None \<Rightarrow> (None, st)
      | Some (path, raw) \<Rightarrow>
          (case readable_envelope E skill raw of
             None \<Rightarrow> (None, st)
           | Some env \<Rightarrow>
               if pe_moves E
               then (Some env, st\<lparr>ps_files := AList.delete path (ps_files st), ps_consumed := AList.update path raw (ps_consumed st)\<rparr>)
               else (None, st)))"

section \<open>The item records\<close>

definition append_row :: "pre_env \<Rightarrow> string \<Rightarrow> string \<Rightarrow> pydict \<Rightarrow> pydict option" where
  "append_row E skill ref a =
     (let text = (\<lambda>v. if v = PNone then None else Some (py_str (pe_str E) v))
      in case pe_int E (if truthy (dget a ''attempt'') then dget a ''attempt'' else PInt 1) of
           None \<Rightarrow> None
         | Some n \<Rightarrow>
             (case make_event skill (text (dget a ''matter_id'')) (py_str (pe_str E) (dget a ''item_key''))
                     (py_str (pe_str E) (dget a ''event'')) n (text (dget a ''token'')) None None of
                None \<Rightarrow> None
              | Some row \<Rightarrow> Some (stamp_raise (row @ [(''session_id'', PStr (pe_resolve E (pe_session E)))]) a ref)))"

text \<open>A row the broker refuses, or one that cannot be made, is skipped; the count is of the rows written.\<close>

fun write_appends :: "pre_env \<Rightarrow> string \<Rightarrow> string \<Rightarrow> pydict list \<Rightarrow> pre_event list \<Rightarrow> nat \<times> pre_event list" where
  "write_appends E skill ref [] tr = (0, tr)"
| "write_appends E skill ref (a # as) tr =
     (case append_row E skill ref a of
        None \<Rightarrow> write_appends E skill ref as tr
      | Some row \<Rightarrow>
          let ok = pe_append E tr row; (n, tr') = write_appends E skill ref as (tr @ [Append_Row ref row ok])
          in ((if ok then Suc n else n), tr'))"

section \<open>The text of an alert\<close>

definition canonical_body :: "(string \<Rightarrow> string) \<Rightarrow> string \<Rightarrow> string" where
  "canonical_body digest text =
     digest (rev (dropWhile (\<lambda>c. c = CHR 0x0A) (rev (joined [CHR 0x0A]
       (map (\<lambda>l. rev (dropWhile (\<lambda>c. c = CHR '' '' \<or> c = CHR 0x09) (rev l))) (split_on (CHR 0x0A) (replace_all (lit [CHR 0x0D, CHR 0x0A]) [CHR 0x0A] text)))))))"

definition sanitize_attachments :: "pre_env \<Rightarrow> pyval \<Rightarrow> pyval list \<times> nat" where
  "sanitize_attachments E v =
     (case v of
        PNone \<Rightarrow> ([], 0)
      | PList items \<Rightarrow>
          if length items > MAX_ATTACHMENTS then ([], length items)
          else
            let kept = List.map_filter (pe_attachment E) items; stripped = length items - length kept
            in if pe_set_ok E kept then (kept, stripped) else ([], stripped + length kept)
      | _ \<Rightarrow> ([], 1))"

definition attachment_plan :: "pre_env \<Rightarrow> pydict \<Rightarrow> pyval list \<times> string \<times> nat" where
  "attachment_plan E e =
     (let (attachments, stripped) = sanitize_attachments E (dget e ''attachments'');
          full = (case dget e ''full_body'' of PStr s \<Rightarrow> s | _ \<Rightarrow> []);
          stamp = dget e ''body_sha256_without_attachment'';
          rung2 = (case dget e ''body_without_attachment'' of
             PStr alt \<Rightarrow>
               if strip alt \<noteq> [] \<and> int (length alt) \<le> MAX_BODY_CHARS \<and> (stamp = PNone \<or> stamp = PStr (canonical_body (pe_digest E) alt))
               then alt else full
           | _ \<Rightarrow> full)
      in (attachments, rung2, stripped))"

definition confirm_withheld :: "string \<Rightarrow> bool" where
  "confirm_withheld reason \<longleftrightarrow> contains (lower reason) ''withheld pending''"

definition draft_routed :: "string \<Rightarrow> bool" where
  "draft_routed reason \<longleftrightarrow> contains (lower reason) ''routing to draft''"

definition recipients_phrase :: "string list \<Rightarrow> string" where
  "recipients_phrase rs = (if rs = [] then ''(no recipient)'' else joined '', '' rs)"

section \<open>The lines of the note\<close>

datatype alert_line =
  Attachments_Required string string
| Delivered string string string bool nat nat
| May_Be_Out string string
| Held_For_Approval string string
| Draft_Instead string string
| Reduced_Delivered string string string
| Not_Delivered string string
| Superseded
| Attachments_Left_Off nat
| Memo_Each "string list"
| Unreachable "string list"

definition line_text :: "alert_line \<Rightarrow> string" where
  "line_text l =
     (case l of
        Attachments_Required skill who \<Rightarrow>
          ''Your '' @ skill @ '' message to '' @ who @ '' was not sent: its attachments could not '' @
          ''be included, and it does not go without them. Report that in one plain '' @
          ''line; do not compose, attach or send anything yourself.''
      | Delivered skill who message without written attempted \<Rightarrow>
          ''Your '' @ skill @ '' alert was already delivered to '' @ who @ '' (message '' @ message @ '')'' @
          (if without then '' without its attachment'' else []) @
          (if attempted = 0 then [] else ''; '' @ show_nat written @ '' of '' @ show_nat attempted @ '' item record(s) written'') @
          ''. Do not send this alert and do not record these items again.''
      | May_Be_Out skill who \<Rightarrow>
          ''Your '' @ skill @ '' alert to '' @ who @ '' may or may not have gone out: '' @
          ''the connection to the mail service failed after it was handed over. '' @
          ''Do not compose, resend, or record anything for it; SMD is checking. '' @
          ''Report that in one plain line and send nothing else.''
      | Held_For_Approval skill who \<Rightarrow>
          ''Your '' @ skill @ '' alert to '' @ who @ '' is being held for the owner'' @ [CHR 0x27] @ ''s '' @
          ''approval. Do not compose, resend, or record anything for it.''
      | Draft_Instead skill who \<Rightarrow>
          ''Your '' @ skill @ '' alert to '' @ who @ '' was not sent and is to be '' @
          ''routed to a draft for review instead: compose ONE draft of this '' @
          ''alert from your Script Output'' @ [CHR 0x27] @ ''s digest, following your skill'' @ [CHR 0x27] @ ''s '' @
          ''format reference exactly, for a person to review and send. Do '' @
          ''not send it yourself and do not record any items.''
      | Reduced_Delivered skill who message \<Rightarrow>
          ''A reduced '' @ skill @ '' alert was delivered to '' @ who @ '' (message '' @ message @ ''); the full details will be '' @
          ''retried on the next run. Do not compose or resend anything, '' @
          ''and do not record any items.''
      | Not_Delivered skill who \<Rightarrow>
          ''Your '' @ skill @ '' alert to '' @ who @ '' could not be delivered this run. '' @
          ''Follow your skill'' @ [CHR 0x27] @ ''s failure instruction: report the failure in one '' @
          ''plain line, and send nothing else.''
      | Superseded \<Rightarrow>
          ''Only the most recently held alert remains queued for approval; '' @
          ''the earlier held alerts were superseded and their items will '' @
          ''surface again on the next run.''
      | Attachments_Left_Off n \<Rightarrow>
          show_nat n @ '' attachment(s) prepared for this alert could not be '' @
          ''included and were left off. Do not try to attach anything yourself.''
      | Memo_Each ms \<Rightarrow>
          ''Flag each of these matters in place with a memo naming the alert and '' @
          ''the unassigned state (no direct delivery is pending for them): '' @ joined '', '' ms @ ''.''
      | Unreachable ns \<Rightarrow>
          ''These matters had no reachable recipient; flag each in place with '' @ ''a memo: '' @ joined '', '' ns @ ''.'')"

section \<open>One alert\<close>

definition alert_letter ::
  "pre_env \<Rightarrow> string \<Rightarrow> nat \<Rightarrow> pydict \<Rightarrow> string list \<Rightarrow> body_variant \<Rightarrow> string \<Rightarrow> pyval list \<Rightarrow> letter" where
  "alert_letter E skill i e cc variant text attachments =
     (let lane = (if pe_lane E skill = ''escalation''
            then (case pe_turn_lane E (pe_session E) of Some (c # l) \<Rightarrow> c # l | _ \<Rightarrow> pe_lane E skill) else pe_lane E skill)
      in \<lparr>lt_ref = pe_ref E i, lt_variant = variant,
          lt_to = (case dget e ''recipients'' of PList rs \<Rightarrow> map (py_str (pe_str E)) rs | _ \<Rightarrow> []), lt_cc = cc,
          lt_subject = py_str (pe_str E) (dget e ''subject''), lt_text = text, lt_lane = lane,
          lt_leg = (case dget e ''routing_leg'' of PStr (c # l) \<Rightarrow> Some (c # l) | _ \<Rightarrow> None), lt_attachments = attachments\<rparr>)"

definition dispatch_letter :: "pre_env \<Rightarrow> letter \<Rightarrow> pre_event list \<Rightarrow> dispatch_result \<times> pre_event list" where
  "dispatch_letter E l tr = (let r = pe_send E tr l in (r, tr @ [Sent_Letter l r]))"

text \<open>The numbered rows of an alert; \<open>None\<close> when a kind cannot be looked up.\<close>

definition numbered_lines :: "pydict list \<Rightarrow> (int \<times> string option) list option" where
  "numbered_lines as =
     (let numbered = filter (\<lambda>a. valid_digest_number (dget a ''n'')) as
      in if list_ex (\<lambda>a. case dget a ''kind'' of PList xs \<Rightarrow> True | PDict d \<Rightarrow> True | _ \<Rightarrow> False) numbered then None
         else Some (map (\<lambda>a. (case dget a ''n'' of PInt n \<Rightarrow> n | _ \<Rightarrow> 0,
             case dget a ''kind'' of PStr k \<Rightarrow> if k \<in> set LINE_KINDS then Some k else None | _ \<Rightarrow> None)) numbered))"

text \<open>What follows a delivery; \<open>None\<close> as the line is a raise.\<close>

definition after_delivery ::
  "pre_env \<Rightarrow> string \<Rightarrow> nat \<Rightarrow> pydict \<Rightarrow> letter \<Rightarrow> dispatch_result \<Rightarrow> bool \<Rightarrow> pre_event list \<Rightarrow> alert_line option \<times> pre_event list" where
  "after_delivery E skill i e l r without tr =
     (let as = (case dget e ''appends'' of PList vs \<Rightarrow> List.map_filter (\<lambda>v. case v of PDict a \<Rightarrow> Some a | _ \<Rightarrow> None) vs | _ \<Rightarrow> []);
          who = recipients_phrase (if dr_recipients r = [] then lt_to l else dr_recipients r);
          (written, tr1) = write_appends E skill (pe_ref E i) (take MAX_APPENDS as) tr
      in case numbered_lines as of
           None \<Rightarrow> (None, tr1)
         | Some ns \<Rightarrow>
             (Some (Delivered skill who (dr_message r) without written (length (take MAX_APPENDS as))),
              tr1 @ [Lines_Noted (pe_ref E i) (lt_text l) ns, Mentions_Noted (dget e ''casework_mentions''),
                Raises_Noted (pe_ref E i) (dget e ''casework_raises'')]))"

definition after_refusal ::
  "pre_env \<Rightarrow> string \<Rightarrow> nat \<Rightarrow> pydict \<Rightarrow> string list \<Rightarrow> bool \<Rightarrow> dispatch_result \<Rightarrow> pre_event list \<Rightarrow> alert_line \<times> pre_event list" where
  "after_refusal E skill i e cc required r tr =
     (let l = alert_letter E skill i e cc Skeleton_Body;
          who = recipients_phrase (if dr_recipients r = [] then lt_to (l [] []) else dr_recipients r)
      in if dr_unknown r then (May_Be_Out skill who, tr)
         else if confirm_withheld (dr_reason r) then (Held_For_Approval skill who, tr)
         else if draft_routed (dr_reason r) then (Draft_Instead skill who, tr)
         else
           (case dget e ''skeleton_body'' of
              PStr s \<Rightarrow>
                if strip s \<noteq> [] \<and> \<not> required
                then (case dispatch_letter E (l s []) tr of
                        (f, tr') \<Rightarrow> (if dr_sent f then Reduced_Delivered skill who (dr_message f) else Not_Delivered skill who, tr'))
                else (Not_Delivered skill who, tr)
            | _ \<Rightarrow> (Not_Delivered skill who, tr)))"

text \<open>What the answer to the last letter of an alert settles.\<close>

definition entry_end ::
  "pre_env \<Rightarrow> string \<Rightarrow> nat \<Rightarrow> pydict \<Rightarrow> string list \<Rightarrow> bool \<Rightarrow> letter \<Rightarrow> dispatch_result \<Rightarrow> bool \<Rightarrow> pre_event list \<Rightarrow> alert_line option \<times> pre_event list" where
  "entry_end E skill i e cc required l r without tr =
     (if dr_sent r then after_delivery E skill i e l r without tr
      else (case after_refusal E skill i e cc required r tr of (line, tr') \<Rightarrow> (Some line, tr')))"

definition dispatch_entry :: "pre_env \<Rightarrow> string \<Rightarrow> nat \<Rightarrow> pydict \<Rightarrow> pre_event list \<Rightarrow> alert_line option \<times> nat \<times> pre_event list" where
  "dispatch_entry E skill i e tr =
     (let (attachments, rung2, stripped) = attachment_plan E e;
          required = (dget e ''attachments_required'' = PBool True);
          who = recipients_phrase (lt_to (alert_letter E skill i e [] Full_Body [] []))
      in if required \<and> (0 < stripped \<or> attachments = []) then (Some (Attachments_Required skill who), stripped, tr)
         else
           (case iterated (dget e ''cc'') of
              None \<Rightarrow> (None, stripped, tr)
            | Some ccs \<Rightarrow>
                let cc = strings_in ccs; bare = (0 < stripped \<and> attachments = []);
                    full = (case dget e ''full_body'' of PStr s \<Rightarrow> s | _ \<Rightarrow> []);
                    l1 = alert_letter E skill i e cc (if bare then Full_No_Attachment else Full_Body) (if bare then rung2 else full) attachments;
                    (r1, tr1) = dispatch_letter E l1 tr
                in if \<not> dr_sent r1 \<and> required \<and> dr_attachment_refused r1 then (Some (Attachments_Required skill who), stripped, tr1)
                   else if \<not> dr_sent r1 \<and> attachments \<noteq> [] \<and> dr_attachment_refused r1
                   then
                     let l2 = alert_letter E skill i e cc Full_No_Attachment rung2 []; (r2, tr2) = dispatch_letter E l2 tr1;
                         (line, tr3) = entry_end E skill i e cc required l2 r2 True tr2
                     in (line, stripped, tr3)
                   else (let (line, tr2) = entry_end E skill i e cc required l1 r1 bare tr1 in (line, stripped, tr2))))"

section \<open>A pass\<close>

text \<open>\<open>None\<close> for the lines is a raise, which ends the pass.\<close>

fun dispatch_all ::
  "pre_env \<Rightarrow> string \<Rightarrow> nat \<Rightarrow> pyval list \<Rightarrow> pre_event list \<Rightarrow> (alert_line list \<times> nat) option \<times> pre_event list" where
  "dispatch_all E skill i [] tr = (Some ([], 0), tr)"
| "dispatch_all E skill i (v # vs) tr =
     (case dispatch_entry E skill i (case v of PDict e \<Rightarrow> e | _ \<Rightarrow> []) tr of
        (None, _, tr') \<Rightarrow> (None, tr')
      | (Some line, stripped, tr') \<Rightarrow>
          (case dispatch_all E skill (Suc i) vs tr' of
             (None, tr'') \<Rightarrow> (None, tr'')
           | (Some (lines, n), tr'') \<Rightarrow> (Some (line # lines, stripped + n), tr'')))"

definition held_lines :: "alert_line list \<Rightarrow> nat" where
  "held_lines ls = length (filter (\<lambda>l. case l of Held_For_Approval s w \<Rightarrow> True | _ \<Rightarrow> False) ls)"

definition closing_lines :: "pre_env \<Rightarrow> pydict \<Rightarrow> alert_line list \<Rightarrow> nat \<Rightarrow> alert_line list option" where
  "closing_lines E p lines stripped =
     (case iterated (dget p ''memo_matters'') of
        None \<Rightarrow> None
      | Some ms \<Rightarrow>
          let memo = filter (\<lambda>m. m \<noteq> []) (strings_in ms);
              ends = (if 1 < held_lines lines then [Superseded] else []) @ (if 0 < stripped then [Attachments_Left_Off stripped] else []) @
                (if memo = [] then [] else [Memo_Each memo])
          in if memo \<noteq> [] \<or> \<not> truthy (dget p ''unroutable'') then Some ends
             else
               (case iterated (dget p ''unroutable'') of
                  None \<Rightarrow> None
                | Some us \<Rightarrow>
                    let names = filter (\<lambda>n. n \<noteq> []) (List.map_filter (\<lambda>u. case u of
                          PDict d \<Rightarrow> Some (if truthy (dget d ''matter_number'') then py_str (pe_str E) (dget d ''matter_number'')
                            else if truthy (dget d ''matter_id'') then py_str (pe_str E) (dget d ''matter_id'') else [])
                        | _ \<Rightarrow> None) us)
                    in Some (ends @ (if names = [] then [] else [Unreachable names]))))"

definition note_in_turn :: "string \<Rightarrow> pydict \<Rightarrow> (string \<times> bool \<times> pyval list) list \<Rightarrow> (string \<times> bool \<times> pyval list) list" where
  "note_in_turn sid p R =
     (case dget p ''in_turn'' of
        PList (t # ts) \<Rightarrow>
          let entry = (if map_of p ''in_turn_enforce'' = None then True else truthy (dget p ''in_turn_enforce''),
                filter (\<lambda>v. case v of PDict d \<Rightarrow> True | _ \<Rightarrow> False) (t # ts));
              R' = AList.update sid entry R
          in drop (length R' - MAX_IN_TURN) R'
      | _ \<Rightarrow> R)"

definition dispatch_prerendered :: "pre_env \<Rightarrow> pre_state \<Rightarrow> string option \<times> pre_state" where
  "dispatch_prerendered E st =
     (case Option.bind (parse_cron_session (pe_session E)) (pe_routine E) of
        None \<Rightarrow> (None, st)
      | Some (skill, persona) \<Rightarrow>
          if skill = [] \<or> \<not> pe_started E (pe_session E) then (None, st)
          else
            (case take_envelope E skill persona st of
               (None, st1) \<Rightarrow> (None, st1)
             | (Some (p, ds), st1) \<Rightarrow>
                 let st2 = st1\<lparr>ps_in_turn := note_in_turn (pe_resolve E (pe_session E)) p (ps_in_turn st1)\<rparr>;
                     (out, tr) = dispatch_all E skill 0 ds (ps_trace st2);
                     st3 = st2\<lparr>ps_trace := tr\<rparr>
                 in (case out of
                       None \<Rightarrow> (None, st3)
                     | Some (lines, stripped) \<Rightarrow>
                         (case closing_lines E p lines stripped of
                            None \<Rightarrow> (None, st3)
                          | Some ends \<Rightarrow>
                              (if lines @ ends = [] then None
                               else Some (''['' @ joined '' '' (map line_text (lines @ ends)) @ '']''), st3)))))"

section \<open>What a pass adds\<close>

definition may_be_out :: "string \<Rightarrow> pre_event \<Rightarrow> bool" where
  "may_be_out ref ev \<longleftrightarrow> (case ev of Sent_Letter l r \<Rightarrow> lt_ref l = ref \<and> (dr_sent r \<or> dr_unknown r) | _ \<Rightarrow> False)"

definition outs :: "string \<Rightarrow> pre_event list \<Rightarrow> nat" where
  "outs ref evs = length (filter (may_be_out ref) evs)"

text \<open>A sender refuses an attachment only for a message that neither went nor may have gone.\<close>

definition refuses_cleanly :: "pre_env \<Rightarrow> bool" where
  "refuses_cleanly E \<longleftrightarrow>
     (\<forall>tr l. dr_attachment_refused (pe_send E tr l) \<longrightarrow> \<not> dr_sent (pe_send E tr l) \<and> \<not> dr_unknown (pe_send E tr l))"

definition delivered_full :: "string \<Rightarrow> pre_event \<Rightarrow> bool" where
  "delivered_full ref ev \<longleftrightarrow> (case ev of Sent_Letter l r \<Rightarrow> lt_ref l = ref \<and> dr_sent r \<and> lt_variant l \<noteq> Skeleton_Body | _ \<Rightarrow> False)"

fun earned :: "pre_event list \<Rightarrow> pre_event list \<Rightarrow> bool" where
  "earned seen [] = True"
| "earned seen (ev # evs) =
     ((case ev of Append_Row ref row ok \<Rightarrow> list_ex (delivered_full ref) seen | _ \<Rightarrow> True) \<and> earned (ev # seen) evs)"

lemma earned_append: "earned seen (xs @ ys) \<longleftrightarrow> earned seen xs \<and> earned (rev xs @ seen) ys"
  by (induction xs arbitrary: seen) auto

lemma earned_more: "earned seen evs \<Longrightarrow> set seen \<subseteq> set seen' \<Longrightarrow> earned seen' evs"
proof (induction evs arbitrary: seen seen')
  case (Cons e evs)
  have "earned (e # seen') evs" by (rule Cons.IH [of "e # seen"]) (use Cons.prems in auto)
  then show ?case using Cons.prems by (auto simp: list_ex_iff split: pre_event.splits)
qed simp

lemma outs_append [simp]: "outs ref (xs @ ys) = outs ref xs + outs ref ys"
  by (simp add: outs_def)

lemma outs_simps [simp]:
  "outs ref [] = 0" "outs ref (Append_Row k row ok # evs) = outs ref evs" "outs ref (Lines_Noted k t ns # evs) = outs ref evs"
  "outs ref (Mentions_Noted v # evs) = outs ref evs" "outs ref (Raises_Noted k v # evs) = outs ref evs"
  "outs ref (Sent_Letter l r # evs) = (if lt_ref l = ref \<and> (dr_sent r \<or> dr_unknown r) then 1 else 0) + outs ref evs"
  by (simp_all add: outs_def may_be_out_def)

text \<open>What one alert adds to the trace: letters under its own reference, of which at most one may be out, and records it
  earned.\<close>

definition entry_adds :: "pre_env \<Rightarrow> string \<Rightarrow> pre_event list \<Rightarrow> pre_event list \<Rightarrow> bool" where
  "entry_adds E ref tr tr' \<longleftrightarrow>
     (\<exists>evs. tr' = tr @ evs \<and> earned [] evs \<and> (\<forall>k. outs k evs \<le> (if k = ref then 1 else 0)) \<and>
        length (filter (\<lambda>ev. case ev of Sent_Letter l r \<Rightarrow> True | _ \<Rightarrow> False) evs) \<le> 3)"

lemma write_appends_adds:
  "\<exists>evs. snd (write_appends E skill ref as tr) = tr @ evs \<and> (\<forall>ev \<in> set evs. \<exists>row ok. ev = Append_Row ref row ok)"
proof (induction as arbitrary: tr)
  case Nil
  then show ?case by simp
next
  case (Cons a as)
  show ?case
  proof (cases "append_row E skill ref a")
    case None
    then show ?thesis using Cons.IH by simp
  next
    case (Some row)
    let ?ev = "Append_Row ref row (pe_append E tr row)"
    obtain evs where "snd (write_appends E skill ref as (tr @ [?ev])) = (tr @ [?ev]) @ evs" "\<forall>ev \<in> set evs. \<exists>row ok. ev = Append_Row ref row ok"
      using Cons.IH by blast
    then show ?thesis using Some by (intro exI [of _ "?ev # evs"]) (simp add: Let_def case_prod_unfold)
  qed
qed

lemma rows_quiet:
  assumes "\<forall>ev \<in> set evs. \<exists>row ok. ev = Append_Row ref row ok"
  shows "outs k evs = 0" "filter (\<lambda>ev. case ev of Sent_Letter l r \<Rightarrow> True | _ \<Rightarrow> False) evs = []"
    "list_ex (delivered_full ref) seen \<Longrightarrow> earned seen evs"
proof -
  show "outs k evs = 0" "filter (\<lambda>ev. case ev of Sent_Letter l r \<Rightarrow> True | _ \<Rightarrow> False) evs = []"
    using assms by (auto simp: outs_def may_be_out_def filter_empty_conv)
  show "list_ex (delivered_full ref) seen \<Longrightarrow> earned seen evs"
    using assms by (induction evs arbitrary: seen) auto
qed

lemma letter_ref [simp]: "lt_ref (alert_letter E skill i e cc v t as) = pe_ref E i" "lt_variant (alert_letter E skill i e cc v t as) = v"
  "lt_attachments (alert_letter E skill i e cc v t as) = as"
  by (simp_all add: alert_letter_def Let_def)

text \<open>After a letter that was sent, records may follow.\<close>

lemma delivery_adds:
  "\<exists>evs. snd (after_delivery E skill i e l r w tr) = tr @ evs \<and> (\<forall>k. outs k evs = 0) \<and>
     filter (\<lambda>ev. case ev of Sent_Letter l r \<Rightarrow> True | _ \<Rightarrow> False) evs = [] \<and>
     (\<forall>seen. list_ex (delivered_full (pe_ref E i)) seen \<longrightarrow> earned seen evs)"
proof -
  let ?as = "take MAX_APPENDS (case dget e ''appends'' of PList vs \<Rightarrow> List.map_filter (\<lambda>v. case v of PDict a \<Rightarrow> Some a | _ \<Rightarrow> None) vs | _ \<Rightarrow> [])"
  obtain rows where rows: "snd (write_appends E skill (pe_ref E i) ?as tr) = tr @ rows" "\<forall>ev \<in> set rows. \<exists>row ok. ev = Append_Row (pe_ref E i) row ok"
    using write_appends_adds by blast
  have "\<exists>ns. snd (after_delivery E skill i e l r w tr) = tr @ rows \<or> snd (after_delivery E skill i e l r w tr) = tr @ rows @
      [Lines_Noted (pe_ref E i) (lt_text l) ns, Mentions_Noted (dget e ''casework_mentions''), Raises_Noted (pe_ref E i) (dget e ''casework_raises'')]"
    using rows(1) by (auto simp: after_delivery_def Let_def case_prod_unfold split: option.split)
  then show ?thesis using rows_quiet [OF rows(2)] by (fastforce simp: earned_append)
qed

lemma refusal_adds:
  "snd (after_refusal E skill i e cc required r tr) = tr \<or>
     (\<exists>s. snd (after_refusal E skill i e cc required r tr) =
        tr @ [Sent_Letter (alert_letter E skill i e cc Skeleton_Body s []) (pe_send E tr (alert_letter E skill i e cc Skeleton_Body s []))] \<and>
        \<not> dr_unknown r \<and> \<not> required)"
  by (auto simp: after_refusal_def dispatch_letter_def Let_def split: pyval.split)

abbreviation letters_in :: "pre_event list \<Rightarrow> pre_event list" where
  "letters_in evs \<equiv> filter (\<lambda>ev. case ev of Sent_Letter l r \<Rightarrow> True | _ \<Rightarrow> False) evs"

lemma end_adds:
  obtains evs where "snd (entry_end E skill i e cc required l r w tr) = tr @ evs"
    "\<And>k. outs k evs \<le> (if k = pe_ref E i \<and> \<not> dr_sent r \<and> \<not> dr_unknown r then 1 else 0)"
    "length (letters_in evs) \<le> 1" "\<And>seen. (dr_sent r \<longrightarrow> list_ex (delivered_full (pe_ref E i)) seen) \<Longrightarrow> earned seen evs"
    "required \<Longrightarrow> letters_in evs = []"
proof (cases "dr_sent r")
  case True
  obtain evs where "snd (after_delivery E skill i e l r w tr) = tr @ evs" "\<And>k. outs k evs = 0" "letters_in evs = []"
    "\<And>seen. list_ex (delivered_full (pe_ref E i)) seen \<Longrightarrow> earned seen evs"
    using delivery_adds by metis
  then show ?thesis using that [of evs] True by (simp add: entry_end_def)
next
  case False
  let ?tr' = "snd (after_refusal E skill i e cc required r tr)"
  consider "?tr' = tr" | s where "?tr' = tr @ [Sent_Letter (alert_letter E skill i e cc Skeleton_Body s [])
      (pe_send E tr (alert_letter E skill i e cc Skeleton_Body s []))]" "\<not> dr_unknown r" "\<not> required"
    using refusal_adds by blast
  then show ?thesis
  proof cases
    case 1
    then show ?thesis using that [of "[]"] False by (simp add: entry_end_def case_prod_unfold)
  next
    case 2
    then show ?thesis using that [OF _ _ _ _ ] False by (simp add: entry_end_def case_prod_unfold)
  qed
qed

text \<open>The letters an alert starts with, and its end.\<close>

lemma entry_parts:
  obtains "snd (snd (dispatch_entry E skill i e tr)) = tr"
  | cc v t where "snd (snd (dispatch_entry E skill i e tr)) = tr @ [Sent_Letter (alert_letter E skill i e cc v t (fst (attachment_plan E e)))
        (pe_send E tr (alert_letter E skill i e cc v t (fst (attachment_plan E e))))]"
      "dr_attachment_refused (pe_send E tr (alert_letter E skill i e cc v t (fst (attachment_plan E e))))" "v \<noteq> Skeleton_Body"
  | cc v t where "snd (snd (dispatch_entry E skill i e tr)) =
        snd (entry_end E skill i e cc (dget e ''attachments_required'' = PBool True) (alert_letter E skill i e cc v t (fst (attachment_plan E e)))
          (pe_send E tr (alert_letter E skill i e cc v t (fst (attachment_plan E e)))) (v = Full_No_Attachment)
          (tr @ [Sent_Letter (alert_letter E skill i e cc v t (fst (attachment_plan E e)))
             (pe_send E tr (alert_letter E skill i e cc v t (fst (attachment_plan E e))))]))" "v \<noteq> Skeleton_Body"
  | cc v t u where "snd (snd (dispatch_entry E skill i e tr)) =
        (let l1 = alert_letter E skill i e cc v t (fst (attachment_plan E e)); ev1 = Sent_Letter l1 (pe_send E tr l1);
             l2 = alert_letter E skill i e cc Full_No_Attachment u []; r2 = pe_send E (tr @ [ev1]) l2
         in snd (entry_end E skill i e cc False l2 r2 True (tr @ [ev1, Sent_Letter l2 r2])))" "v \<noteq> Skeleton_Body"
      "dr_attachment_refused (pe_send E tr (alert_letter E skill i e cc v t (fst (attachment_plan E e))))"
      "dget e ''attachments_required'' \<noteq> PBool True"
proof -
  obtain as rung2 stripped where plan: "attachment_plan E e = (as, rung2, stripped)" by (metis prod_cases3)
  let ?req = "dget e ''attachments_required'' = PBool True"
  show ?thesis
  proof (cases "?req \<and> (0 < stripped \<or> as = []) \<or> iterated (dget e ''cc'') = None")
    case True
    then show ?thesis using that(1) plan by (cases "iterated (dget e ''cc'')") (auto simp: dispatch_entry_def Let_def)
  next
    case False
    then obtain ccs where ccs: "iterated (dget e ''cc'') = Some ccs" by auto
    let ?bare = "0 < stripped \<and> as = []" and ?cc = "strings_in ccs"
    define v where "v = (if ?bare then Full_No_Attachment else Full_Body)"
    define t where "t = (if ?bare then rung2 else (case dget e ''full_body'' of PStr s \<Rightarrow> s | _ \<Rightarrow> []))"
    define l1 where "l1 = alert_letter E skill i e ?cc v t as"
    define r1 where "r1 = pe_send E tr l1"
    have w: "(v = Full_No_Attachment) = ?bare" "v \<noteq> Skeleton_Body" by (simp_all add: v_def)
    have entry: "snd (snd (dispatch_entry E skill i e tr)) =
      (if \<not> dr_sent r1 \<and> ?req \<and> dr_attachment_refused r1 then tr @ [Sent_Letter l1 r1]
       else if \<not> dr_sent r1 \<and> as \<noteq> [] \<and> dr_attachment_refused r1
       then (let l2 = alert_letter E skill i e ?cc Full_No_Attachment rung2 []; r2 = pe_send E (tr @ [Sent_Letter l1 r1]) l2
             in snd (entry_end E skill i e ?cc ?req l2 r2 True (tr @ [Sent_Letter l1 r1, Sent_Letter l2 r2])))
       else snd (entry_end E skill i e ?cc ?req l1 r1 ?bare (tr @ [Sent_Letter l1 r1])))"
      using False ccs plan unfolding dispatch_entry_def v_def t_def l1_def r1_def
      by (simp add: dispatch_letter_def Let_def case_prod_unfold)
    have plan1: "fst (attachment_plan E e) = as" using plan by simp
    show ?thesis
    proof (cases "dr_sent r1 \<or> \<not> dr_attachment_refused r1 \<or> (\<not> ?req \<and> as = [])")
      case True
      then have "snd (snd (dispatch_entry E skill i e tr)) = snd (entry_end E skill i e ?cc ?req l1 r1 (v = Full_No_Attachment) (tr @ [Sent_Letter l1 r1]))"
        using entry w(1) by auto
      from that(3) [OF this [unfolded l1_def r1_def, folded plan1]] w(2) show ?thesis by simp
    next
      case refused: False
      show ?thesis
      proof (cases ?req)
        case True
        then have "snd (snd (dispatch_entry E skill i e tr)) = tr @ [Sent_Letter l1 r1]" using entry refused by auto
        then show ?thesis using that(2) [of ?cc v t] refused w(2) plan1 by (simp add: l1_def r1_def)
      next
        case False
        then show ?thesis using that(4) [of ?cc v t rung2] entry refused w(2) plan1 by (simp add: l1_def r1_def Let_def)
      qed
    qed
  qed
qed

lemma entry_earned:
  "\<exists>evs. snd (snd (dispatch_entry E skill i e tr)) = tr @ evs \<and> earned [] evs \<and> length (letters_in evs) \<le> 3 \<and>
     (refuses_cleanly E \<longrightarrow> (\<forall>k. outs k evs \<le> (if k = pe_ref E i then 1 else 0)))"
proof (cases rule: entry_parts [of E skill i e tr])
  case 1
  then show ?thesis by (intro exI [of _ "[]"]) simp
next
  case (2 cc v t)
  then show ?thesis by (intro exI conjI) (assumption, auto simp: refuses_cleanly_def)
next
  case (3 cc v t)
  define l where "l = alert_letter E skill i e cc v t (fst (attachment_plan E e))"
  define r where "r = pe_send E tr l"
  have l: "lt_ref l = pe_ref E i" "lt_variant l = v" by (simp_all add: l_def)
  from end_adds [of E skill i e cc "dget e ''attachments_required'' = PBool True" l r "v = Full_No_Attachment" "tr @ [Sent_Letter l r]"]
  obtain evs where evs: "snd (snd (dispatch_entry E skill i e tr)) = (tr @ [Sent_Letter l r]) @ evs"
    "\<And>k. outs k evs \<le> (if k = pe_ref E i \<and> \<not> dr_sent r \<and> \<not> dr_unknown r then 1 else 0)" "length (letters_in evs) \<le> 1"
    "\<And>seen. (dr_sent r \<longrightarrow> list_ex (delivered_full (pe_ref E i)) seen) \<Longrightarrow> earned seen evs"
    unfolding 3(1) l_def [symmetric] r_def [symmetric] by metis
  have "earned [Sent_Letter l r] evs" by (rule evs(4)) (use l 3(2) in \<open>simp add: delivered_full_def\<close>)
  moreover have "outs k (Sent_Letter l r # evs) \<le> (if k = pe_ref E i then 1 else 0)" for k
    using evs(2) [of k] l(1) by (auto split: if_splits)
  ultimately show ?thesis using evs(1,3) by (intro exI [of _ "Sent_Letter l r # evs"]) simp
next
  case (4 cc v t u)
  define l where "l = alert_letter E skill i e cc v t (fst (attachment_plan E e))"
  define r where "r = pe_send E tr l"
  define l2 where "l2 = alert_letter E skill i e cc Full_No_Attachment u []"
  define r2 where "r2 = pe_send E (tr @ [Sent_Letter l r]) l2"
  have l: "lt_ref l = pe_ref E i" "lt_ref l2 = pe_ref E i" "lt_variant l2 = Full_No_Attachment" by (simp_all add: l_def l2_def)
  from end_adds [of E skill i e cc False l2 r2 True "tr @ [Sent_Letter l r, Sent_Letter l2 r2]"]
  obtain evs where evs: "snd (snd (dispatch_entry E skill i e tr)) = (tr @ [Sent_Letter l r, Sent_Letter l2 r2]) @ evs"
    "\<And>k. outs k evs \<le> (if k = pe_ref E i \<and> \<not> dr_sent r2 \<and> \<not> dr_unknown r2 then 1 else 0)" "length (letters_in evs) \<le> 1"
    "\<And>seen. (dr_sent r2 \<longrightarrow> list_ex (delivered_full (pe_ref E i)) seen) \<Longrightarrow> earned seen evs"
    unfolding 4(1) Let_def l_def [symmetric] r_def [symmetric] l2_def [symmetric] r2_def [symmetric] by metis
  have "earned [Sent_Letter l2 r2, Sent_Letter l r] evs" by (rule evs(4)) (use l in \<open>simp add: delivered_full_def\<close>)
  moreover have "outs k (Sent_Letter l r # Sent_Letter l2 r2 # evs) \<le> (if k = pe_ref E i then 1 else 0)" if "refuses_cleanly E" for k
  proof -
    have "\<not> dr_sent r \<and> \<not> dr_unknown r" using that 4(3) by (simp add: refuses_cleanly_def r_def l_def)
    then show ?thesis using evs(2) [of k] l by (auto split: if_splits)
  qed
  ultimately show ?thesis using evs(1,3) by (intro exI [of _ "Sent_Letter l r # Sent_Letter l2 r2 # evs"]) simp
qed

lemma all_earned:
  "\<exists>evs. snd (dispatch_all E skill i vs tr) = tr @ evs \<and> earned [] evs \<and> length (letters_in evs) \<le> 3 * length vs \<and>
     (refuses_cleanly E \<longrightarrow> inj (pe_ref E) \<longrightarrow> (\<forall>k. outs k evs \<le> (if \<exists>m\<ge>i. k = pe_ref E m then 1 else 0)))"
proof (induction vs arbitrary: i tr)
  case Nil
  then show ?case by (intro exI [of _ "[]"]) simp
next
  case (Cons v vs)
  let ?e = "case v of PDict e \<Rightarrow> e | _ \<Rightarrow> []"
  obtain line n tr1 where entry: "dispatch_entry E skill i ?e tr = (line, n, tr1)" by (rule prod_cases3)
  then obtain xs where xs: "tr1 = tr @ xs" "earned [] xs" "length (letters_in xs) \<le> 3"
    "refuses_cleanly E \<Longrightarrow> outs k xs \<le> (if k = pe_ref E i then 1 else 0)" for k
    using entry_earned [of E skill i ?e tr] by auto
  show ?case
  proof (cases line)
    case None
    have "outs k xs \<le> (if \<exists>m\<ge>i. k = pe_ref E m then 1 else 0)" if "refuses_cleanly E" for k
      using xs(4) [OF that, of k] by (auto split: if_splits)
    then show ?thesis using entry None xs by (intro exI [of _ xs]) simp
  next
    case (Some l)
    obtain ys where ys: "snd (dispatch_all E skill (Suc i) vs tr1) = tr1 @ ys" "earned [] ys" "length (letters_in ys) \<le> 3 * length vs"
      "refuses_cleanly E \<Longrightarrow> inj (pe_ref E) \<Longrightarrow> outs k ys \<le> (if \<exists>m\<ge>Suc i. k = pe_ref E m then 1 else 0)" for k
      using Cons.IH [of "Suc i" tr1] by blast
    have tr: "snd (dispatch_all E skill i (v # vs) tr) = tr @ xs @ ys"
      using entry Some ys(1) xs(1) by (simp add: case_prod_unfold split: option.split)
    have "earned (rev xs) ys" by (rule earned_more [OF ys(2)]) simp
    then have "earned [] (xs @ ys)" using xs(2) by (simp add: earned_append)
    moreover have "outs k (xs @ ys) \<le> (if \<exists>m\<ge>i. k = pe_ref E m then 1 else 0)" if h: "refuses_cleanly E" "inj (pe_ref E)" for k
    proof (cases "k = pe_ref E i")
      case True
      then have "\<not> (\<exists>m\<ge>Suc i. k = pe_ref E m)" using h(2) by (auto dest: injD)
      then have "outs k ys \<le> 0" using ys(4) [OF h, of k] True by (simp only: if_False)
      moreover have "outs k xs \<le> 1" using xs(4) [OF h(1), of k] True by simp
      ultimately have "outs k (xs @ ys) \<le> 1" by simp
      then show ?thesis using True by auto
    next
      case False
      then have "outs k xs = 0" using xs(4) [OF h(1), of k] by simp
      moreover have "outs k ys \<le> (if \<exists>m\<ge>i. k = pe_ref E m then 1 else 0)"
        using ys(4) [OF h, of k] by (auto split: if_splits dest: Suc_leD)
      ultimately show ?thesis by simp
    qed
    ultimately show ?thesis using tr xs(3) ys(3) by (intro exI [of _ "xs @ ys"]) simp
  qed
qed

lemma taken:
  assumes "take_envelope E skill persona st = (Some (p, ds), st1)"
  obtains path raw where "map_of (ps_files st) path = Some raw" "ps_files st1 = AList.delete path (ps_files st)" "ps_trace st1 = ps_trace st"
    "readable_envelope E skill raw = Some (p, ds)"
proof -
  obtain path raw where f: "found_envelope skill persona st = Some (path, raw)" "readable_envelope E skill raw = Some (p, ds)" "pe_moves E"
      "st1 = st\<lparr>ps_files := AList.delete path (ps_files st), ps_consumed := AList.update path raw (ps_consumed st)\<rparr>"
    using assms by (auto simp: take_envelope_def split: option.splits prod.splits if_splits)
  then have "map_of (ps_files st) path = Some raw"
    by (auto simp: found_envelope_def map_filter_def Let_def split: option.splits list.splits if_splits)
  then show ?thesis using that f by simp
qed

lemma not_taken: "take_envelope E skill persona st = (None, st1) \<Longrightarrow> st1 = st"
  by (auto simp: take_envelope_def split: option.splits prod.splits if_splits)

lemma pass_cases:
  obtains "snd (dispatch_prerendered E st) = st"
  | skill persona p ds path raw where "map_of (ps_files st) path = Some raw" "readable_envelope E skill raw = Some (p, ds)"
      "pe_routine E (the (parse_cron_session (pe_session E))) = Some (skill, persona)" "parse_cron_session (pe_session E) \<noteq> None"
      "ps_files (snd (dispatch_prerendered E st)) = AList.delete path (ps_files st)"
      "ps_trace (snd (dispatch_prerendered E st)) = snd (dispatch_all E skill 0 ds (ps_trace st))"
proof (cases "Option.bind (parse_cron_session (pe_session E)) (pe_routine E)")
  case None
  then show ?thesis using that(1) by (simp add: dispatch_prerendered_def)
next
  case (Some sp)
  obtain skill persona where sp: "sp = (skill, persona)" by (cases sp)
  obtain env st1 where tk: "take_envelope E skill persona st = (env, st1)" by (rule prod.exhaust)
  show ?thesis
  proof (cases "skill = [] \<or> \<not> pe_started E (pe_session E) \<or> env = None")
    case True
    then show ?thesis using that(1) Some sp tk not_taken by (auto simp: dispatch_prerendered_def)
  next
    case False
    then obtain p ds where e: "env = Some (p, ds)" by auto
    from taken [OF tk [unfolded e]] obtain path raw where f: "map_of (ps_files st) path = Some raw" "ps_files st1 = AList.delete path (ps_files st)"
      "ps_trace st1 = ps_trace st" "readable_envelope E skill raw = Some (p, ds)" .
    have "ps_files (snd (dispatch_prerendered E st)) = ps_files st1 \<and>
        ps_trace (snd (dispatch_prerendered E st)) = snd (dispatch_all E skill 0 ds (ps_trace st1))"
      using False Some sp tk e by (auto simp: dispatch_prerendered_def Let_def split: prod.splits option.splits)
    then show ?thesis using that(2) [OF f(1,4)] f Some sp by (auto simp: bind_eq_Some_conv)
  qed
qed

lemma readable_bounds:
  assumes "readable_envelope E skill raw = Some (p, ds)"
  shows "length ds \<le> MAX_DISPATCHES \<and> (\<exists>started. Option.bind (string_of (dget p ''started_at'')) (pe_instant E) = Some started \<and> recent (pe_now E) started) \<and>
    dget p ''skill'' = PStr skill"
  using assms by (auto simp: readable_envelope_def split: option.splits pyval.splits if_splits)

fun run_passes :: "pre_env list \<Rightarrow> pre_state \<Rightarrow> pre_state" where
  "run_passes [] st = st"
| "run_passes (E # Es) st = run_passes Es (snd (dispatch_prerendered E st))"

fun acting :: "pre_env list \<Rightarrow> pre_state \<Rightarrow> nat" where
  "acting [] st = 0"
| "acting (E # Es) st =
     (let st' = snd (dispatch_prerendered E st) in (if ps_trace st' \<noteq> ps_trace st then 1 else 0) + acting Es st')"

lemma delete_shrinks: "map_of xs k = Some v \<Longrightarrow> Suc (length (AList.delete k xs)) \<le> length xs"
proof (induction xs)
  case (Cons x xs)
  then show ?case
    using AList.length_delete_le [of k xs] by (cases "fst x = k") (auto simp: AList.delete_eq)
qed simp

section \<open>The properties\<close>

definition demo_alert :: pydict where
  "demo_alert =
     [(''recipients'', PList [PStr ''ana@firm.com'']), (''subject'', PStr ''Deadlines''), (''full_body'', PStr ''1. File''),
      (''skeleton_body'', PStr ''See the list.''), (''appends'', PList [PDict [(''event'', PStr ''fired''), (''item_key'', PStr ''k1''), (''n'', PInt 1)]])]"

definition demo_envelope :: pyval where
  "demo_envelope = PDict [(''skill'', PStr ''alerts''), (''started_at'', PStr ''t0''), (''dispatches'', PList [PDict demo_alert])]"

definition plain_result :: dispatch_result where
  "plain_result = \<lparr>dr_sent = False, dr_message = [], dr_reason = [], dr_recipients = [], dr_attachment_refused = False, dr_unknown = False\<rparr>"

definition demo_pre :: "(pre_event list \<Rightarrow> letter \<Rightarrow> dispatch_result) \<Rightarrow> pre_env" where
  "demo_pre send =
     \<lparr>pe_session = ''cron_j1_20260101_080000'', pe_routine = (\<lambda>j. Some (''alerts'', None)), pe_started = (\<lambda>s. True), pe_resolve = id,
      pe_now = 60, pe_json = (\<lambda>raw. Some demo_envelope), pe_instant = (\<lambda>s. Some 0), pe_str = (\<lambda>v. []),
      pe_int = (\<lambda>v. case v of PInt i \<Rightarrow> Some i | _ \<Rightarrow> None), pe_digest = id, pe_attachment = (\<lambda>v. Some v), pe_set_ok = (\<lambda>vs. True),
      pe_mentions_ok = (\<lambda>v. True), pe_raises_ok = (\<lambda>v. True), pe_moves = True, pe_ref = (\<lambda>n. replicate n (CHR ''r'')), pe_lane = (\<lambda>s. ''escalation''),
      pe_turn_lane = (\<lambda>s. None), pe_send = send, pe_append = (\<lambda>tr row. True)\<rparr>"

definition sends_all :: "pre_event list \<Rightarrow> letter \<Rightarrow> dispatch_result" where
  "sends_all tr l = plain_result\<lparr>dr_sent := True, dr_message := ''m''\<rparr>"

definition loses_skeleton :: "pre_event list \<Rightarrow> letter \<Rightarrow> dispatch_result" where
  "loses_skeleton tr l = (if lt_variant l = Skeleton_Body then plain_result\<lparr>dr_unknown := True\<rparr> else plain_result)"

definition demo_files :: pre_state where
  "demo_files = \<lparr>ps_files = [((None, ''alerts''), ''raw'')], ps_consumed = [], ps_in_turn = [], ps_trace = []\<rparr>"

lemma demo_pass_sends: "length (ps_trace (snd (dispatch_prerendered (demo_pre sends_all) demo_files))) = 5"
  by code_simp

text \<open>C20: one alert goes out at most once: in a pass at most one of the letters of an alert may have reached its
  recipients, if the sender refuses an attachment only for a message that did not go.\<close>

theorem each_alert_goes_out_once:
  assumes "refuses_cleanly E" "inj (pe_ref E)"
  shows "\<exists>evs. ps_trace (snd (dispatch_prerendered E st)) = ps_trace st @ evs \<and> (\<forall>ref. outs ref evs \<le> 1)"
proof (cases rule: pass_cases [of E st])
  case 1
  then show ?thesis by (intro exI [of _ "[]"]) simp
next
  case (2 skill persona p ds path raw)
  obtain evs where evs: "snd (dispatch_all E skill 0 ds (ps_trace st)) = ps_trace st @ evs"
    "\<And>k. outs k evs \<le> (if \<exists>m\<ge>0. k = pe_ref E m then 1 else 0)"
    using all_earned [of E skill 0 ds "ps_trace st"] assms by blast
  have "outs k evs \<le> 1" for k using evs(2) [of k] by (simp split: if_splits)
  then show ?thesis using 2(6) evs(1) by auto
qed

lemma demo_refs: "inj (\<lambda>n. replicate n (CHR ''r''))"
  by (rule injI) (metis length_replicate)

lemma each_alert_goes_out_once_witness:
  "\<exists>evs. ps_trace (snd (dispatch_prerendered (demo_pre sends_all) demo_files)) = evs \<and> (\<forall>ref. outs ref evs \<le> 1)"
  using each_alert_goes_out_once [of "demo_pre sends_all" demo_files]
  by (simp add: refuses_cleanly_def demo_pre_def sends_all_def plain_result_def demo_refs demo_files_def)

text \<open>every envelope is dispatched once: over any passes the ones that did anything are no more than the envelopes
  that were there.\<close>

theorem each_envelope_is_dispatched_once:
  "acting Es st + length (ps_files (run_passes Es st)) \<le> length (ps_files st)"
proof (induction Es arbitrary: st)
  case Nil
  then show ?case by simp
next
  case (Cons E Es)
  let ?st' = "snd (dispatch_prerendered E st)"
  have "(if ps_trace ?st' \<noteq> ps_trace st then 1 else 0) + length (ps_files ?st') \<le> length (ps_files st)"
  proof (cases rule: pass_cases [of E st])
    case 1
    then show ?thesis by simp
  next
    case (2 skill persona p ds path raw)
    then show ?thesis using delete_shrinks [OF 2(1)] by simp
  qed
  then show ?case using Cons.IH [of ?st'] by (simp add: Let_def)
qed

text \<open>only a fresh envelope of the session's own routine is dispatched, once it is out of the next session's reach, and
  it sends a bounded number of letters.\<close>

theorem only_a_fresh_envelope_is_dispatched:
  assumes "ps_trace (snd (dispatch_prerendered E st)) \<noteq> ps_trace st"
  shows "\<exists>job skill persona path raw p ds started evs. parse_cron_session (pe_session E) = Some job \<and>
    pe_routine E job = Some (skill, persona) \<and> map_of (ps_files st) path = Some raw \<and>
    readable_envelope E skill raw = Some (p, ds) \<and> dget p ''skill'' = PStr skill \<and>
    Option.bind (string_of (dget p ''started_at'')) (pe_instant E) = Some started \<and> recent (pe_now E) started \<and>
    map_of (ps_files (snd (dispatch_prerendered E st))) path = None \<and>
    ps_trace (snd (dispatch_prerendered E st)) = ps_trace st @ evs \<and> length (letters_in evs) \<le> 3 * MAX_DISPATCHES"
proof (cases rule: pass_cases [of E st])
  case 1
  then show ?thesis using assms by simp
next
  case (2 skill persona p ds path raw)
  obtain evs where evs: "snd (dispatch_all E skill 0 ds (ps_trace st)) = ps_trace st @ evs" "length (letters_in evs) \<le> 3 * length ds"
    using all_earned [of E skill 0 ds "ps_trace st"] by blast
  obtain started where s: "Option.bind (string_of (dget p ''started_at'')) (pe_instant E) = Some started" "recent (pe_now E) started"
    "length ds \<le> MAX_DISPATCHES" "dget p ''skill'' = PStr skill" using readable_bounds [OF 2(2)] by blast
  obtain job where job: "parse_cron_session (pe_session E) = Some job" using 2(4) by auto
  have "length (letters_in evs) \<le> 3 * MAX_DISPATCHES" using evs(2) s(3) by linarith
  then show ?thesis
    using 2 s evs(1) job
    by (intro exI [of _ job] exI [of _ skill] exI [of _ persona] exI [of _ path] exI [of _ raw] exI [of _ p] exI [of _ ds] exI [of _ started]
        exI [of _ evs]) (simp add: delete_conv)
qed

lemma only_a_fresh_envelope_is_dispatched_witness:
  "map_of (ps_files (snd (dispatch_prerendered (demo_pre sends_all) demo_files))) (None, ''alerts'') = None"
proof -
  have "ps_trace (snd (dispatch_prerendered (demo_pre sends_all) demo_files)) \<noteq> ps_trace demo_files"
    using demo_pass_sends by (auto simp: demo_files_def)
  from only_a_fresh_envelope_is_dispatched [OF this] obtain path raw where "map_of (ps_files demo_files) path = Some raw"
    "map_of (ps_files (snd (dispatch_prerendered (demo_pre sends_all) demo_files))) path = None" by blast
  then show ?thesis by (auto simp: demo_files_def split: if_splits)
qed

text \<open>a record is written only for a delivery: whatever a pass appends to the ledger follows, in the same pass, a full
  letter of the same alert that was sent.\<close>

theorem records_follow_a_delivery:
  "\<exists>evs. ps_trace (snd (dispatch_prerendered E st)) = ps_trace st @ evs \<and> earned [] evs"
proof (cases rule: pass_cases [of E st])
  case 1
  then show ?thesis by (intro exI [of _ "[]"]) simp
next
  case (2 skill persona p ds path raw)
  then show ?thesis using all_earned [of E skill 0 ds "ps_trace st"] by metis
qed

text \<open>C29: files that are the message are never left off: an alert that requires its attachments sends no letter without
  all of them.\<close>

theorem required_files_are_never_left_off:
  assumes "dget e ''attachments_required'' = PBool True"
  shows "\<exists>evs. snd (snd (dispatch_entry E skill i e tr)) = tr @ evs \<and>
    list_all (\<lambda>ev. case ev of Sent_Letter l r \<Rightarrow> lt_attachments l = fst (attachment_plan E e) \<and> lt_attachments l \<noteq> [] \<and>
      snd (snd (attachment_plan E e)) = 0 | _ \<Rightarrow> True) evs"
proof (cases "0 < snd (snd (attachment_plan E e)) \<or> fst (attachment_plan E e) = []")
  case True
  then have "snd (snd (dispatch_entry E skill i e tr)) = tr"
    using assms by (auto simp: dispatch_entry_def Let_def case_prod_unfold)
  then show ?thesis by (intro exI [of _ "[]"]) simp
next
  case whole: False
  show ?thesis
  proof (cases rule: entry_parts [of E skill i e tr])
    case 1
    then show ?thesis by (intro exI [of _ "[]"]) simp
  next
    case (2 cc v t)
    then show ?thesis using whole by (intro exI conjI) (assumption, simp)
  next
    case (3 cc v t)
    define l where "l = alert_letter E skill i e cc v t (fst (attachment_plan E e))"
    define r where "r = pe_send E tr l"
    from end_adds [of E skill i e cc "dget e ''attachments_required'' = PBool True" l r "v = Full_No_Attachment" "tr @ [Sent_Letter l r]"]
    obtain evs where evs: "snd (snd (dispatch_entry E skill i e tr)) = (tr @ [Sent_Letter l r]) @ evs" "letters_in evs = []"
      unfolding 3(1) l_def [symmetric] r_def [symmetric] using assms by metis
    have "list_all (\<lambda>ev. case ev of Sent_Letter l r \<Rightarrow> P l r | _ \<Rightarrow> True) evs" for P
      using evs(2) by (force simp: filter_empty_conv list_all_iff split: pre_event.split)
    then show ?thesis
      using whole evs(1) by (intro exI [of _ "Sent_Letter l r # evs"]) (simp add: l_def)
  next
    case (4 cc v t u)
    then show ?thesis using assms by simp
  qed
qed

lemma required_files_are_never_left_off_witness:
  "list_all (\<lambda>ev. case ev of Sent_Letter l r \<Rightarrow> False | _ \<Rightarrow> True)
     (snd (snd (dispatch_entry (demo_pre sends_all) ''alerts'' 0 (demo_alert @ [(''attachments_required'', PBool True)]) [])))"
proof -
  let ?e = "demo_alert @ [(''attachments_required'', PBool True)]"
  have none: "fst (attachment_plan (demo_pre sends_all) ?e) = []"
    by (simp add: attachment_plan_def sanitize_attachments_def demo_alert_def Let_def)
  have "dget ?e ''attachments_required'' = PBool True" by (simp add: demo_alert_def)
  from required_files_are_never_left_off [OF this, of "demo_pre sends_all" "''alerts''" 0 "[]", unfolded none] show ?thesis
    by (auto simp: list_all_iff split: pre_event.splits)
qed

text \<open>a reduced alert whose fate is unknown is told as not delivered: the turn then reports a failure while the
  message may be in the inbox, which the other sends of the pass never do.\<close>

theorem lost_reduced_alert_reads_undelivered:
  "case dispatch_entry (demo_pre loses_skeleton) ''alerts'' 0 demo_alert [] of
     (line, stripped, evs) \<Rightarrow> line = Some (Not_Delivered ''alerts'' ''ana@firm.com'') \<and> outs [] evs = 1"
  by code_simp
end
