(* ===== verification/Shared_Space.thy ===== *)
theory Shared_Space
  imports Session_Registers Customer_Config
begin

text \<open>
  The space of a turn on a seat that several people share (\<open>shared/space.py\<close>) and what a tainted turn may still keep there
  (\<open>shared/space_taint.py\<close>): the authored people, the resolution of a turn from what the host and the webhook router recorded,
  the spaces a turn may read. The host's per-turn values, the recipients of a recorded email and the space of a routine
  are functions of the view a turn has. The cache of the parsed file is left out: it returns what a fresh parse would.
\<close>

section \<open>Shapes\<close>

text \<open>\<open>re.match\<close> with a final dollar sign accepts one newline after the text.\<close>

definition to_end :: "(string \<Rightarrow> bool) \<Rightarrow> string \<Rightarrow> bool" where
  "to_end P s \<longleftrightarrow> P s \<or> (s \<noteq> [] \<and> last s = CHR 0x0A \<and> P (butlast s))"

definition SLUG_ENDS :: string where
  "SLUG_ENDS = ''abcdefghijklmnopqrstuvwxyz0123456789''"

definition slug_text :: "string \<Rightarrow> bool" where
  "slug_text s \<longleftrightarrow>
     s \<noteq> [] \<and> length s \<le> 64 \<and> list_all (\<lambda>c. c = CHR ''-'' \<or> c \<in> set SLUG_ENDS) s \<and> hd s \<noteq> CHR ''-'' \<and> last s \<noteq> CHR ''-''"

definition PERSON_ID :: "string \<Rightarrow> bool" where
  "PERSON_ID = to_end slug_text"

definition numeric_text :: "string \<Rightarrow> bool" where
  "numeric_text s \<longleftrightarrow> s \<noteq> [] \<and> length s \<le> 20 \<and> list_all is_digit s"

definition TELEGRAM_USER :: "string \<Rightarrow> bool" where
  "TELEGRAM_USER = to_end numeric_text"

definition TELEGRAM_GROUP :: "string \<Rightarrow> bool" where
  "TELEGRAM_GROUP = to_end (\<lambda>s. case s of [] \<Rightarrow> False | c # t \<Rightarrow> c = CHR ''-'' \<and> numeric_text t)"

section \<open>Spaces\<close>

definition SHARED_KEY :: string where
  "SHARED_KEY = ''shared''"

definition PERSON_PREFIX :: string where
  "PERSON_PREFIX = ''person:''"

definition person_key :: "string \<Rightarrow> string" where
  "person_key pid = PERSON_PREFIX @ pid"

datatype space_source = Cron_Run | Telegram_DM | Telegram_Group | Email_Turn | Email_Joint

datatype space_kind = Person_Space string | Shared_Kind

record turn_space =
  sp_kind :: space_kind
  sp_source :: space_source

definition space_key :: "turn_space \<Rightarrow> string" where
  "space_key s = (case sp_kind s of Person_Space pid \<Rightarrow> person_key pid | Shared_Kind \<Rightarrow> SHARED_KEY)"

definition space_private :: "turn_space \<Rightarrow> bool" where
  "space_private s \<longleftrightarrow> (case sp_kind s of Person_Space pid \<Rightarrow> True | Shared_Kind \<Rightarrow> False)"

definition readable_spaces :: "turn_space option \<Rightarrow> string list" where
  "readable_spaces so =
     (case so of
        None \<Rightarrow> []
      | Some s \<Rightarrow> (case sp_kind s of Person_Space pid \<Rightarrow> (if pid = [] then [] else [SHARED_KEY, person_key pid]) | Shared_Kind \<Rightarrow> [SHARED_KEY]))"

definition may_read :: "turn_space option \<Rightarrow> string \<Rightarrow> bool" where
  "may_read so key \<longleftrightarrow> key \<in> set (readable_spaces so)"

section \<open>The authored people\<close>

datatype space_error =
  Expected_String | People_Not_List | Entry_Not_Mapping nat | Bad_Id nat | Twice_Id string | Bad_Telegram nat
| Twice_Telegram string | Bad_Email nat | Twice_Email string | Bad_Channel nat | Spaces_Not_Mapping | Bad_Group | Space_Unreadable

record space_person =
  pn_id :: string
  pn_name :: string
  pn_telegram :: string
  pn_email :: string
  pn_channel :: string

record space_config =
  sc_people :: "space_person list"
  sc_group :: string

definition CHANNELS :: "string list" where
  "CHANNELS = [''email'', ''telegram'']"

definition space_str :: "pyval \<Rightarrow> space_error + string" where
  "space_str v =
     (case v of PNone \<Rightarrow> Inr [] | PStr s \<Rightarrow> Inr (strip s) | PInt i \<Rightarrow> Inr (show_int i) | _ \<Rightarrow> Inl Expected_String)"

definition read_person :: "nat \<Rightarrow> space_person list \<Rightarrow> pyval \<Rightarrow> space_error + space_person" where
  "read_person i seen entry =
     (case entry of
        PDict d \<Rightarrow>
          (case space_str (dget d ''id'') of Inl e \<Rightarrow> Inl e | Inr pid \<Rightarrow>
           if \<not> PERSON_ID pid then Inl (Bad_Id i)
           else if pid \<in> set (map pn_id seen) then Inl (Twice_Id pid)
           else case space_str (dget d ''telegram_id'') of Inl e \<Rightarrow> Inl e | Inr tg \<Rightarrow>
           if tg \<noteq> [] \<and> \<not> TELEGRAM_USER tg then Inl (Bad_Telegram i)
           else if tg \<noteq> [] \<and> tg \<in> set (map pn_telegram seen) then Inl (Twice_Telegram tg)
           else case space_str (dget d ''email'') of Inl e \<Rightarrow> Inl e | Inr m \<Rightarrow>
           let email = lower m
           in if email \<noteq> [] \<and> (CHR ''@'' \<notin> set email \<or> CHR '' '' \<in> set email) then Inl (Bad_Email i)
              else if email \<noteq> [] \<and> email \<in> set (map pn_email seen) then Inl (Twice_Email email)
              else case space_str (dget d ''channel'') of Inl e \<Rightarrow> Inl e | Inr c \<Rightarrow>
                let channel = (if lower c = [] then ''email'' else lower c)
                in if channel \<notin> set CHANNELS then Inl (Bad_Channel i)
                   else case space_str (dget d ''name'') of Inl e \<Rightarrow> Inl e | Inr name \<Rightarrow>
                     Inr \<lparr>pn_id = pid, pn_name = name, pn_telegram = tg, pn_email = email, pn_channel = channel\<rparr>)
      | _ \<Rightarrow> Inl (Entry_Not_Mapping i))"

fun read_people :: "nat \<Rightarrow> space_person list \<Rightarrow> pyval list \<Rightarrow> space_error + space_person list" where
  "read_people i seen [] = Inr seen"
| "read_people i seen (v # vs) =
     (case read_person i seen v of Inl e \<Rightarrow> Inl e | Inr p \<Rightarrow> read_people (Suc i) (seen @ [p]) vs)"

definition parse_space_config :: "pydict \<Rightarrow> space_error + space_config option" where
  "parse_space_config d =
     (case dget d ''people'' of
        PNone \<Rightarrow> Inr None
      | PList (v # vs) \<Rightarrow>
          (case read_people 0 [] (v # vs) of Inl e \<Rightarrow> Inl e | Inr people \<Rightarrow>
           case dget d ''spaces'' of
             PDict spaces \<Rightarrow>
               (case space_str (dget spaces ''shared_telegram_chat'') of Inl e \<Rightarrow> Inl e | Inr gchat \<Rightarrow>
                if gchat \<noteq> [] \<and> \<not> TELEGRAM_GROUP gchat then Inl Bad_Group
                else Inr (Some \<lparr>sc_people = people, sc_group = gchat\<rparr>))
           | _ \<Rightarrow> Inl Spaces_Not_Mapping)
      | _ \<Rightarrow> Inl People_Not_List)"

definition space_config_of :: "config_file \<Rightarrow> space_error + space_config option" where
  "space_config_of f =
     (case f of Missing_File \<Rightarrow> Inr None | Faulty_File \<Rightarrow> Inl Space_Unreadable | Document d \<Rightarrow> parse_space_config d)"

definition space_mode :: "config_file \<Rightarrow> space_error + bool" where
  "space_mode f = map_sum id (\<lambda>c. c \<noteq> None) (space_config_of f)"

definition person_of :: "space_config \<Rightarrow> string \<Rightarrow> space_person option" where
  "person_of cfg pid = find (\<lambda>p. pn_id p = pid) (sc_people cfg)"

definition person_for_telegram :: "space_config \<Rightarrow> string \<Rightarrow> space_person option" where
  "person_for_telegram cfg user =
     (if strip user = [] then None else find (\<lambda>p. pn_telegram p \<noteq> [] \<and> pn_telegram p = strip user) (sc_people cfg))"

definition person_for_email :: "space_config \<Rightarrow> string \<Rightarrow> space_person option" where
  "person_for_email cfg address =
     (if normalized address = [] then None else find (\<lambda>p. pn_email p \<noteq> [] \<and> pn_email p = normalized address) (sc_people cfg))"

definition space_for_key :: "space_config \<Rightarrow> string \<Rightarrow> space_source \<Rightarrow> turn_space option" where
  "space_for_key cfg key src =
     (if key = SHARED_KEY then Some \<lparr>sp_kind = Shared_Kind, sp_source = src\<rparr>
      else if starts_with key PERSON_PREFIX
      then map_option (\<lambda>p. \<lparr>sp_kind = Person_Space (pn_id p), sp_source = src\<rparr>) (person_of cfg (drop (length PERSON_PREFIX) key))
      else None)"

definition reached_by_telegram :: "space_person \<Rightarrow> bool" where
  "reached_by_telegram p \<longleftrightarrow> pn_channel p = ''telegram'' \<and> pn_telegram p \<noteq> []"

definition delivery_chat :: "space_config \<Rightarrow> turn_space \<Rightarrow> string" where
  "delivery_chat cfg s =
     (case sp_kind s of
        Shared_Kind \<Rightarrow> if sc_people cfg \<noteq> [] \<and> list_all reached_by_telegram (sc_people cfg) then sc_group cfg else []
      | Person_Space pid \<Rightarrow> (case person_of cfg pid of None \<Rightarrow> [] | Some p \<Rightarrow> if reached_by_telegram p then pn_telegram p else []))"

definition chat_for_space :: "space_config \<Rightarrow> turn_space \<Rightarrow> string" where
  "chat_for_space cfg s =
     (case sp_kind s of
        Shared_Kind \<Rightarrow> sc_group cfg
      | Person_Space pid \<Rightarrow> (case person_of cfg pid of None \<Rightarrow> [] | Some p \<Rightarrow> pn_telegram p))"

section \<open>Resolution\<close>

record space_view =
  sv_value :: "string \<Rightarrow> string"
  sv_origins :: origins
  sv_recipients :: "origin \<Rightarrow> string list"
  sv_routine :: "string \<Rightarrow> string option"

text \<open>\<open>sv_value\<close> is a value of the session or of the environment, stripped, or nothing; \<open>sv_routine\<close> is the space key of
  the managed job a cron session names.\<close>

definition resolve_cron :: "space_config \<Rightarrow> space_view \<Rightarrow> string \<Rightarrow> turn_space option" where
  "resolve_cron cfg V sid =
     (let platform = lower (sv_value V ''HERMES_CRON_AUTO_DELIVER_PLATFORM'')
      in if platform = [] \<and> sid \<noteq> []
         then (case sv_routine V sid of None \<Rightarrow> None | Some key \<Rightarrow> space_for_key cfg key Cron_Run)
         else if platform \<noteq> ''telegram'' then None
         else
           let chat = sv_value V ''HERMES_CRON_AUTO_DELIVER_CHAT_ID''
           in if chat = [] then None
              else if sc_group cfg \<noteq> [] \<and> chat = sc_group cfg then Some \<lparr>sp_kind = Shared_Kind, sp_source = Cron_Run\<rparr>
              else map_option (\<lambda>p. \<lparr>sp_kind = Person_Space (pn_id p), sp_source = Cron_Run\<rparr>) (person_for_telegram cfg chat))"

definition resolve_telegram :: "space_config \<Rightarrow> space_view \<Rightarrow> turn_space option" where
  "resolve_telegram cfg V =
     (let chat_type = lower (sv_value V ''HERMES_SESSION_CHAT_TYPE'');
          chat = sv_value V ''HERMES_SESSION_CHAT_ID''; user = sv_value V ''HERMES_SESSION_USER_ID''
      in if chat_type = ''dm''
         then if chat \<noteq> [] \<and> chat \<noteq> user then None
              else map_option (\<lambda>p. \<lparr>sp_kind = Person_Space (pn_id p), sp_source = Telegram_DM\<rparr>) (person_for_telegram cfg user)
         else if chat \<noteq> [] \<and> sc_group cfg \<noteq> [] \<and> chat = sc_group cfg
         then Some \<lparr>sp_kind = Shared_Kind, sp_source = Telegram_Group\<rparr> else None)"

definition other_emails :: "space_config \<Rightarrow> space_person \<Rightarrow> string list" where
  "other_emails cfg p = map pn_email (filter (\<lambda>q. pn_email q \<noteq> [] \<and> pn_id q \<noteq> pn_id p) (sc_people cfg))"

definition resolve_email :: "space_config \<Rightarrow> space_view \<Rightarrow> string \<Rightarrow> turn_space option" where
  "resolve_email cfg V sid =
     (if sid = [] then None
      else case get_origin sid (sv_origins V) of
        None \<Rightarrow> None
      | Some og \<Rightarrow>
          if or_sender og = [] then None
          else case person_for_email cfg (or_sender og) of
            None \<Rightarrow> None
          | Some p \<Rightarrow>
              Some (if list_ex (\<lambda>r. normalized r \<in> set (other_emails cfg p)) (sv_recipients V og)
                    then \<lparr>sp_kind = Shared_Kind, sp_source = Email_Joint\<rparr>
                    else \<lparr>sp_kind = Person_Space (pn_id p), sp_source = Email_Turn\<rparr>))"

definition resolve_in :: "space_config \<Rightarrow> space_view \<Rightarrow> string \<Rightarrow> turn_space option" where
  "resolve_in cfg V sid =
     (if sv_value V ''HERMES_CRON_SESSION'' = ''1'' then resolve_cron cfg V sid
      else if lower (sv_value V ''HERMES_SESSION_PLATFORM'') = ''telegram'' then resolve_telegram cfg V
      else resolve_email cfg V (if strip sid = [] then sv_value V ''HERMES_SESSION_ID'' else strip sid))"

definition resolve_space :: "config_file \<Rightarrow> space_view \<Rightarrow> string \<Rightarrow> space_error + turn_space option" where
  "resolve_space f V sid =
     map_sum id (\<lambda>co. case co of None \<Rightarrow> None | Some cfg \<Rightarrow> resolve_in cfg V sid) (space_config_of f)"

definition person_for_sender :: "config_file \<Rightarrow> string \<Rightarrow> space_error + space_person option" where
  "person_for_sender f sender =
     map_sum id (\<lambda>co. case co of
         None \<Rightarrow> None
       | Some cfg \<Rightarrow>
           if strip sender = [] then None
           else if CHR ''@'' \<in> set (strip sender) then person_for_email cfg (strip sender)
           else person_for_telegram cfg (strip sender)) (space_config_of f)"

section \<open>What a tainted turn may keep\<close>

definition RECORD_WRITE :: string where
  "RECORD_WRITE = ''record_store_write''"

definition tainted_write_allowed :: "config_file \<Rightarrow> space_view \<Rightarrow> string \<Rightarrow> string \<Rightarrow> string option \<Rightarrow> bool" where
  "tainted_write_allowed f V tool sid target =
     (case resolve_space f V sid of
        Inr (Some cur) \<Rightarrow>
          (case target of
             None \<Rightarrow> False
           | Some key \<Rightarrow>
               key \<noteq> [] \<and>
               (key = space_key cur \<and> (space_private cur \<or> sp_source cur = Cron_Run) \<or>
                tool = RECORD_WRITE \<and> key = SHARED_KEY \<and> space_private cur \<and> sp_source cur \<in> {Telegram_DM, Email_Turn}))
      | _ \<Rightarrow> False)"

definition FROM_WEB :: string where
  "FROM_WEB = ''from_web''"

definition field_key :: "string \<Rightarrow> string" where
  "field_key line = strip (hd (split_on (CHR '':'') line))"

definition is_rule :: "string \<Rightarrow> bool" where
  "is_rule line \<longleftrightarrow> strip line = ''---''"

definition newline_joined :: "string list \<Rightarrow> string" where
  "newline_joined ls = (case ls of [] \<Rightarrow> [] | l # ks \<Rightarrow> l @ concat (map (\<lambda>k. CHR 0x0A # k) ks))"

definition stamp_from_web :: "string \<Rightarrow> string" where
  "stamp_from_web content =
     (let block = ''---'' @ [CHR 0x0A] @ FROM_WEB @ '': true'' @ [CHR 0x0A] @ ''---'' @ [CHR 0x0A] @ content
      in case split_on (CHR 0x0A) content of
           first # rest \<Rightarrow>
             if is_rule first \<and> list_ex is_rule rest
             then let top_part = takeWhile (\<lambda>l. \<not> is_rule l) rest
                  in if list_ex (\<lambda>h. field_key h = FROM_WEB) top_part then content
                     else newline_joined (first # top_part @ [FROM_WEB @ '': true''] @ dropWhile (\<lambda>l. \<not> is_rule l) rest)
             else block
         | [] \<Rightarrow> block)"

section \<open>The people are told apart\<close>

definition told_apart :: "space_person list \<Rightarrow> bool" where
  "told_apart ps \<longleftrightarrow>
     distinct (map pn_id ps) \<and> distinct (filter (\<lambda>t. t \<noteq> []) (map pn_telegram ps)) \<and> distinct (filter (\<lambda>m. m \<noteq> []) (map pn_email ps)) \<and>
     (\<forall>p \<in> set ps. PERSON_ID (pn_id p) \<and> pn_channel p \<in> set CHANNELS)"

lemma read_person_new:
  assumes "read_person i seen v = Inr p"
  shows "PERSON_ID (pn_id p)" "pn_channel p \<in> set CHANNELS" "pn_id p \<notin> set (map pn_id seen)"
    "pn_telegram p \<noteq> [] \<Longrightarrow> pn_telegram p \<notin> set (map pn_telegram seen)"
    "pn_email p \<noteq> [] \<Longrightarrow> pn_email p \<notin> set (map pn_email seen)"
  using assms by (auto simp: read_person_def Let_def split: pyval.splits sum.splits if_splits)

lemma read_people_apart: "read_people i seen vs = Inr ps \<Longrightarrow> told_apart seen \<Longrightarrow> told_apart ps"
proof (induction vs arbitrary: i seen)
  case (Cons v vs)
  then obtain p where p: "read_person i seen v = Inr p" "read_people (Suc i) (seen @ [p]) vs = Inr ps" by (auto split: sum.splits)
  have "told_apart (seen @ [p])"
    using Cons.prems(2) read_person_new [OF p(1)] by (auto simp: told_apart_def)
  then show ?case by (rule Cons.IH [OF p(2)])
qed simp

lemma parsed_apart:
  assumes "parse_space_config d = Inr (Some cfg)"
  shows "told_apart (sc_people cfg)"
proof -
  obtain v vs where "read_people 0 [] (v # vs) = Inr (sc_people cfg)"
    using assms by (auto simp: parse_space_config_def simp del: read_people.simps split: pyval.splits list.splits sum.splits if_splits)
  then show ?thesis by (rule read_people_apart) (simp add: told_apart_def)
qed

lemma find_sound: "find P xs = Some x \<Longrightarrow> P x \<and> x \<in> set xs"
  by (auto simp: find_Some_iff)

lemma person_key_inj [simp]: "person_key a = person_key b \<longleftrightarrow> a = b"
  by (simp add: person_key_def)

lemma person_key_shared [simp]: "person_key a \<noteq> SHARED_KEY" "SHARED_KEY \<noteq> person_key a"
  by (simp_all add: person_key_def PERSON_PREFIX_def SHARED_KEY_def)

lemma prefixed: "starts_with s pat \<Longrightarrow> pat @ drop (length pat) s = s"
  unfolding starts_with_def by (metis append_take_drop_id)

lemma key_named:
  assumes "space_for_key cfg key src = Some s"
  shows "sp_kind s = Shared_Kind \<and> key = SHARED_KEY \<or>
    (\<exists>p \<in> set (sc_people cfg). sp_kind s = Person_Space (pn_id p) \<and> key = person_key (pn_id p))"
proof (cases "key = SHARED_KEY")
  case True
  then show ?thesis using assms by (auto simp: space_for_key_def)
next
  case False
  then obtain p where p: "starts_with key PERSON_PREFIX" "person_of cfg (drop (length PERSON_PREFIX) key) = Some p"
    "s = \<lparr>sp_kind = Person_Space (pn_id p), sp_source = src\<rparr>"
    using assms by (auto simp: space_for_key_def split: if_splits)
  from p(2) have "pn_id p = drop (length PERSON_PREFIX) key" "p \<in> set (sc_people cfg)"
    unfolding person_of_def by (auto dest: find_sound)
  then show ?thesis
    using prefixed [OF p(1)] p(3) by (intro disjI2 bexI [of _ p]) (simp_all add: person_key_def)
qed

lemma key_person: "space_for_key cfg key src = Some s \<Longrightarrow> sp_kind s = Person_Space pid \<Longrightarrow>
    \<exists>p \<in> set (sc_people cfg). pn_id p = pid \<and> key = person_key pid"
  using key_named by fastforce

lemma telegram_person: "person_for_telegram cfg u = Some p \<Longrightarrow> p \<in> set (sc_people cfg) \<and> pn_telegram p = strip u \<and> pn_telegram p \<noteq> []"
  by (auto simp: person_for_telegram_def dest!: find_sound split: if_splits)

lemma email_person: "person_for_email cfg a = Some p \<Longrightarrow> p \<in> set (sc_people cfg) \<and> pn_email p = normalized a \<and> pn_email p \<noteq> []"
  by (auto simp: person_for_email_def dest!: find_sound split: if_splits)

text \<open>Two spaces that are not the same private one can both read only what is shared.\<close>

lemma spaces_meet: "may_read (Some s) k \<Longrightarrow> may_read (Some t) k \<Longrightarrow> sp_kind s \<noteq> sp_kind t \<Longrightarrow> k = SHARED_KEY"
  by (auto simp: may_read_def readable_spaces_def split: space_kind.splits if_splits)

lemma own_space_readable: "may_read (Some s) k \<Longrightarrow> k = SHARED_KEY \<or> k = space_key s"
  by (auto simp: may_read_def readable_spaces_def space_key_def split: space_kind.splits if_splits)

text \<open>What shows that a turn belongs to a person.\<close>

definition cron_evidence :: "space_view \<Rightarrow> string \<Rightarrow> space_person \<Rightarrow> bool" where
  "cron_evidence V sid p \<longleftrightarrow>
     sv_value V ''HERMES_CRON_SESSION'' = ''1'' \<and>
     (pn_telegram p = strip (sv_value V ''HERMES_CRON_AUTO_DELIVER_CHAT_ID'') \<and> pn_telegram p \<noteq> [] \<or> sv_routine V sid = Some (person_key (pn_id p)))"

definition chat_evidence :: "space_view \<Rightarrow> space_person \<Rightarrow> bool" where
  "chat_evidence V p \<longleftrightarrow>
     lower (sv_value V ''HERMES_SESSION_PLATFORM'') = ''telegram'' \<and> lower (sv_value V ''HERMES_SESSION_CHAT_TYPE'') = ''dm'' \<and>
     pn_telegram p = strip (sv_value V ''HERMES_SESSION_USER_ID'') \<and> pn_telegram p \<noteq> []"

definition email_evidence :: "space_config \<Rightarrow> space_view \<Rightarrow> space_person \<Rightarrow> bool" where
  "email_evidence cfg V p \<longleftrightarrow>
     (\<exists>s og. get_origin s (sv_origins V) = Some og \<and> pn_email p = normalized (or_sender og) \<and> pn_email p \<noteq> [] \<and>
        (\<forall>r \<in> set (sv_recipients V og). normalized r \<notin> set (other_emails cfg p)))"

lemma cron_person:
  assumes "resolve_cron cfg V sid = Some s" "sp_kind s = Person_Space pid" "sv_value V ''HERMES_CRON_SESSION'' = ''1''"
  shows "\<exists>p \<in> set (sc_people cfg). pn_id p = pid \<and> cron_evidence V sid p"
  using assms key_person
  by (fastforce simp: resolve_cron_def cron_evidence_def Let_def dest!: telegram_person split: if_splits option.splits)

lemma chat_person:
  assumes "resolve_telegram cfg V = Some s" "sp_kind s = Person_Space pid" "lower (sv_value V ''HERMES_SESSION_PLATFORM'') = ''telegram''"
  shows "\<exists>p \<in> set (sc_people cfg). pn_id p = pid \<and> chat_evidence V p"
  using assms by (fastforce simp: resolve_telegram_def chat_evidence_def Let_def dest!: telegram_person split: if_splits)

lemma email_turn_person:
  assumes "resolve_email cfg V sid = Some s" "sp_kind s = Person_Space pid"
  shows "\<exists>p \<in> set (sc_people cfg). pn_id p = pid \<and> email_evidence cfg V p"
proof -
  obtain og p where o: "get_origin sid (sv_origins V) = Some og" "person_for_email cfg (or_sender og) = Some p"
    "pid = pn_id p" "\<not> list_ex (\<lambda>r. normalized r \<in> set (other_emails cfg p)) (sv_recipients V og)"
    using assms by (auto simp: resolve_email_def split: if_splits option.splits)
  then have "email_evidence cfg V p"
    unfolding email_evidence_def using email_person [OF o(2)] by (intro exI [of _ sid] exI [of _ og]) (auto simp: list_ex_iff)
  then show ?thesis using email_person [OF o(2)] o(3) by blast
qed

section \<open>The properties\<close>

definition couple :: pydict where
  "couple =
     [(''people'', PList [PDict [(''id'', PStr ''p1''), (''telegram_id'', PInt 41), (''email'', PStr ''Ana@home.com'')],
        PDict [(''id'', PStr ''p2''), (''email'', PStr ''bob@home.com'')]]),
      (''spaces'', PDict [(''shared_telegram_chat'', PStr ''-77'')])]"

definition dm_view :: space_view where
  "dm_view =
     \<lparr>sv_value = (\<lambda>k. if k = ''HERMES_SESSION_PLATFORM'' then ''telegram'' else if k = ''HERMES_SESSION_CHAT_TYPE'' then ''dm''
        else if k = ''HERMES_SESSION_USER_ID'' then ''41'' else []),
      sv_origins = no_origins, sv_recipients = (\<lambda>_. []), sv_routine = (\<lambda>_. None)\<rparr>"

text \<open>an identity belongs to one person: in a people block that parses, no two people share an id, a Telegram user or an
  address, whatever the file holds.\<close>

theorem identity_belongs_to_one_person:
  assumes "parse_space_config d = Inr (Some cfg)"
  shows "told_apart (sc_people cfg)"
  using assms by (rule parsed_apart)

lemma identity_belongs_to_one_person_witness:
  "told_apart (case parse_space_config couple of Inr (Some cfg) \<Rightarrow> sc_people cfg | _ \<Rightarrow> [])"
proof -
  have "case parse_space_config couple of Inr (Some cfg) \<Rightarrow> True | _ \<Rightarrow> False" by code_simp
  then obtain cfg where c: "parse_space_config couple = Inr (Some cfg)" by (auto split: sum.splits option.splits)
  show ?thesis using identity_belongs_to_one_person [OF c] by (simp add: c)
qed

text \<open>a turn runs in a person's private space only on evidence that nothing in the prompt can forge: the authored target of
  its cron run, a direct chat with that person's Telegram user, or a recorded email from that person's address that went to
  none of the other people.\<close>

theorem private_space_needs_evidence:
  assumes "resolve_in cfg V sid = Some s" "sp_kind s = Person_Space pid"
  shows "\<exists>p \<in> set (sc_people cfg). pn_id p = pid \<and> (cron_evidence V sid p \<or> chat_evidence V p \<or> email_evidence cfg V p)"
  using assms cron_person chat_person email_turn_person unfolding resolve_in_def by (metis (no_types, lifting))

lemma private_space_needs_evidence_witness:
  "\<exists>cfg. \<exists>p \<in> set (sc_people cfg). pn_id p = ''p1'' \<and> (cron_evidence dm_view [] p \<or> chat_evidence dm_view p \<or> email_evidence cfg dm_view p)"
proof -
  have "case parse_space_config couple of Inr (Some cfg) \<Rightarrow> resolve_in cfg dm_view [] = Some \<lparr>sp_kind = Person_Space ''p1'', sp_source = Telegram_DM\<rparr> | _ \<Rightarrow> False"
    by code_simp
  then obtain cfg where c: "resolve_in cfg dm_view [] = Some \<lparr>sp_kind = Person_Space ''p1'', sp_source = Telegram_DM\<rparr>"
    by (auto split: sum.splits option.splits)
  from private_space_needs_evidence [OF c] show ?thesis by auto
qed

end
