(* ===== verification/Record_Store.thy ===== *)
theory Record_Store
  imports Shared_Space Lines "HOL-Library.Char_ord" "HOL-Library.List_Lexorder" "HOL-Library.Product_Lexorder"
begin

text \<open>
  The record stores of a seat (\<open>shared/record_store.py\<close>) and the three tools over them with their fence
  (\<open>plugins/hermes-smd-record-store/__init__.py\<close>). The disk is what the stores' directories hold, by name; the resolution of
  links, the clock and the text of a value that is neither a string nor an integer are parameters. Addresses of
  people and spaces come from the registers and the view of \<open>Shared_Space\<close>.
\<close>

section \<open>Names and paths\<close>

definition STORE_NAME :: "string \<Rightarrow> bool" where
  "STORE_NAME = to_end slug_text"

definition LETTERS :: string where
  "LETTERS = ''ABCDEFGHIJKLMNOPQRSTUVWXYZabcdefghijklmnopqrstuvwxyz''"

definition DIGITS :: string where
  "DIGITS = ''0123456789''"

definition RECORD_EXTENSIONS :: "string list" where
  "RECORD_EXTENSIONS = [''md'', ''txt'', ''json'', ''yaml'', ''yml'']"

definition record_stem :: "string \<Rightarrow> bool" where
  "record_stem s \<longleftrightarrow>
     (case s of
        [] \<Rightarrow> False
      | c # t \<Rightarrow> c \<in> set (LETTERS @ DIGITS) \<and> length t \<le> 158 \<and> list_all (\<lambda>d. d \<in> set (LETTERS @ DIGITS @ ''._ -'')) t)"

definition record_text :: "string \<Rightarrow> bool" where
  "record_text s \<longleftrightarrow>
     list_ex (\<lambda>x. let stem = take (length s - Suc (length x)) s in s = stem @ CHR ''.'' # x \<and> record_stem stem) RECORD_EXTENSIONS"

definition RECORD_NAME :: "string \<Rightarrow> bool" where
  "RECORD_NAME = to_end record_text"

definition key_text :: "string \<Rightarrow> bool" where
  "key_text s \<longleftrightarrow>
     (case s of
        [] \<Rightarrow> False
      | c # t \<Rightarrow> c \<in> set (drop 26 LETTERS) \<and> length t \<le> 63 \<and> list_all (\<lambda>d. d \<in> set (drop 26 LETTERS @ DIGITS @ ''_'')) t)"

definition FIELD :: "string \<Rightarrow> bool" where
  "FIELD = to_end key_text"

text \<open>\<open>os.path.normpath\<close>: the components kept so far, the latest first.\<close>

fun norm_parts :: "bool \<Rightarrow> string list \<Rightarrow> string list \<Rightarrow> string list" where
  "norm_parts rooted kept [] = rev kept"
| "norm_parts rooted kept (c # cs) =
     (if c = [] \<or> c = ''.'' then norm_parts rooted kept cs
      else if c \<noteq> ''..'' \<or> (\<not> rooted \<and> kept = []) \<or> (case kept of k # ks \<Rightarrow> k = ''..'' | [] \<Rightarrow> False)
      then norm_parts rooted (c # kept) cs
      else norm_parts rooted (drop 1 kept) cs)"

definition slash_joined :: "string list \<Rightarrow> string" where
  "slash_joined cs = (case cs of [] \<Rightarrow> [] | c # ds \<Rightarrow> c @ concat (map (\<lambda>d. CHR ''/'' # d) ds))"

definition norm_path :: "string \<Rightarrow> string" where
  "norm_path p =
     (if p = [] then ''.''
      else
        let slashes = (if starts_with p ''//'' \<and> \<not> starts_with p ''///'' then ''//'' else if starts_with p ''/'' then ''/'' else []);
            joined_path = slashes @ slash_joined (norm_parts (slashes \<noteq> []) [] (split_on (CHR ''/'') p))
        in if joined_path = [] then ''.'' else joined_path)"

definition bare_path :: "string \<Rightarrow> string" where
  "bare_path p = rev (dropWhile (\<lambda>c. c = CHR ''/'') (rev p))"

definition VOLUME_ROOT :: string where
  "VOLUME_ROOT = ''/opt/data''"

definition RESERVED_PREFIXES :: "string list" where
  "RESERVED_PREFIXES =
     [''/opt/data/profiles'', ''/opt/data/attachment-spool'', ''/opt/data/smokeball-extract-cache'', ''/opt/data/.smd'', ''/opt/data/medchron'']"

datatype path_fault = Not_Normal | Is_Volume | Off_Volume | Reserved_Path string

definition path_problem :: "string \<Rightarrow> path_fault option" where
  "path_problem path =
     (let n = norm_path path
      in if n \<noteq> bare_path path \<and> n \<noteq> path then Some Not_Normal
         else if n = VOLUME_ROOT then Some Is_Volume
         else if \<not> starts_with n (VOLUME_ROOT @ ''/'') then Some Off_Volume
         else map_option Reserved_Path (find (\<lambda>r. n = r \<or> starts_with n (r @ ''/'')) RESERVED_PREFIXES))"

section \<open>The authored stores\<close>

definition MAX_RECORD_BYTES :: int where
  "MAX_RECORD_BYTES = 256 * 1024"

datatype policy_fault = Owner_Fault | List_Fault string | Readers_Need_Owner | Not_Address string string | Not_Index_Field string

datatype store_error =
  Stores_Unreadable | Stores_Not_List | Store_Not_Mapping nat | Bad_Store_Name nat | Store_Twice string | Path_Not_Absolute nat
| Path_Fault nat path_fault | Policy_Fault nat policy_fault | No_Store | Bad_Record_Name | Outside_Store | No_Record string
| Record_Too_Large string | Content_Too_Large | Content_Empty | Record_Exists string

definition has_key :: "pydict \<Rightarrow> string \<Rightarrow> bool" where
  "has_key d k \<longleftrightarrow> map_of d k \<noteq> None"

definition str_items :: "pyval \<Rightarrow> string list option" where
  "str_items v =
     (case v of
        PList xs \<Rightarrow>
          if list_all (\<lambda>x. case x of PStr s \<Rightarrow> s \<noteq> [] | _ \<Rightarrow> False) xs
          then Some (map (\<lambda>x. case x of PStr s \<Rightarrow> s | _ \<Rightarrow> []) xs) else None
      | _ \<Rightarrow> None)"

definition list_faults :: "pydict \<Rightarrow> string \<Rightarrow> policy_fault list" where
  "list_faults entry k =
     (if \<not> has_key entry k then []
      else case str_items (dget entry k) of
        None \<Rightarrow> [List_Fault k]
      | Some vs \<Rightarrow>
          if k = ''readers'' \<or> k = ''writers''
          then (if k = ''readers'' \<and> \<not> has_key entry ''owner_field'' then [Readers_Need_Owner] else []) @
            map (Not_Address k) (filter (\<lambda>v. CHR ''@'' \<notin> set v \<or> strip v \<noteq> v) vs)
          else map Not_Index_Field (filter (\<lambda>v. \<not> FIELD v) vs))"

definition policy_problems :: "pydict \<Rightarrow> policy_fault list" where
  "policy_problems entry =
     (if has_key entry ''owner_field'' \<and> (case dget entry ''owner_field'' of PStr s \<Rightarrow> \<not> FIELD s | _ \<Rightarrow> True) then [Owner_Fault] else []) @
     list_faults entry ''readers'' @ list_faults entry ''index'' @ list_faults entry ''writers''"

record store_policy =
  po_root :: string
  po_owner :: "string option"
  po_readers :: "string list"
  po_index :: "string list"
  po_writers :: "string list"

definition store_private :: "store_policy \<Rightarrow> bool" where
  "store_private p \<longleftrightarrow> po_owner p \<noteq> None"

definition store_fenced :: "store_policy \<Rightarrow> bool" where
  "store_fenced p \<longleftrightarrow> store_private p \<or> po_writers p \<noteq> []"

definition items_of :: "pydict \<Rightarrow> string \<Rightarrow> string list" where
  "items_of entry k = (case str_items (dget entry k) of None \<Rightarrow> [] | Some vs \<Rightarrow> vs)"

definition policy_of :: "string \<Rightarrow> pydict \<Rightarrow> store_policy" where
  "policy_of path entry =
     \<lparr>po_root = bare_path path, po_owner = (case dget entry ''owner_field'' of PStr s \<Rightarrow> Some s | _ \<Rightarrow> None),
      po_readers = map normalized (items_of entry ''readers''), po_index = items_of entry ''index'',
      po_writers = map normalized (items_of entry ''writers'')\<rparr>"

text \<open>The checks on one entry in their order.\<close>

definition read_entry :: "nat \<Rightarrow> string list \<Rightarrow> pyval \<Rightarrow> store_error + string \<times> store_policy" where
  "read_entry i seen v =
     (case v of
        PDict entry \<Rightarrow>
          (case dget entry ''name'' of
             PStr name \<Rightarrow>
               if \<not> STORE_NAME name then Inl (Bad_Store_Name i)
               else if name \<in> set seen then Inl (Store_Twice name)
               else (case dget entry ''path'' of
                       PStr path \<Rightarrow>
                         if \<not> starts_with path ''/'' then Inl (Path_Not_Absolute i)
                         else (case path_problem path of
                                 Some fault \<Rightarrow> Inl (Path_Fault i fault)
                               | None \<Rightarrow>
                                   (case policy_problems entry of
                                      fault # more_faults \<Rightarrow> Inl (Policy_Fault i fault)
                                    | [] \<Rightarrow> Inr (name, policy_of path entry)))
                     | _ \<Rightarrow> Inl (Path_Not_Absolute i))
           | _ \<Rightarrow> Inl (Bad_Store_Name i))
      | _ \<Rightarrow> Inl (Store_Not_Mapping i))"

fun clean_stores :: "nat \<Rightarrow> (string \<times> store_policy) list \<Rightarrow> pyval list \<Rightarrow> store_error + (string \<times> store_policy) list" where
  "clean_stores i seen [] = Inr seen"
| "clean_stores i seen (v # vs) =
     (case read_entry i (map fst seen) v of Inl e \<Rightarrow> Inl e | Inr s \<Rightarrow> clean_stores (Suc i) (seen @ [s]) vs)"

definition authored_policies :: "config_file \<Rightarrow> store_error + (string \<times> store_policy) list" where
  "authored_policies f =
     (case f of
        Document d \<Rightarrow>
          (case dget d ''record_stores'' of PNone \<Rightarrow> Inr [] | PList vs \<Rightarrow> clean_stores 0 [] vs | _ \<Rightarrow> Inl Stores_Not_List)
      | _ \<Rightarrow> Inl Stores_Unreadable)"

section \<open>The front of a record\<close>

definition unquoted :: "string \<Rightarrow> string" where
  "unquoted v =
     (if 2 \<le> length v \<and> hd v = last v \<and> hd v \<in> {CHR 0x22, CHR 0x27} then butlast (tl v) else v)"

definition field_line :: "string \<Rightarrow> (string \<times> string) option" where
  "field_line line =
     (if line = [] \<or> hd line \<in> {CHR '' '', CHR 0x09, CHR ''-'', CHR ''#''} then None
      else case cut_first '':'' line of
        None \<Rightarrow> None
      | Some (k, v) \<Rightarrow>
          if \<not> FIELD (strip k) then None
          else Some (strip k, unquoted (strip (case cut_first '' #'' v of None \<Rightarrow> v | Some (a, b) \<Rightarrow> a))))"

fun front_fields :: "string list \<Rightarrow> (string \<times> string) list \<Rightarrow> (string \<times> string) list" where
  "front_fields [] fm = fm"
| "front_fields (l # ls) fm =
     (if is_rule l then fm
      else front_fields ls (case field_line l of None \<Rightarrow> fm | Some (k, v) \<Rightarrow> AList.update k v fm))"

definition read_frontmatter :: "string \<Rightarrow> (string \<times> string) list" where
  "read_frontmatter text =
     (case splitlines text of [] \<Rightarrow> [] | l # ls \<Rightarrow> if is_rule l then front_fields ls [] else [])"

definition record_owner :: "string \<Rightarrow> store_policy \<Rightarrow> string option" where
  "record_owner text p =
     (case po_owner p of
        None \<Rightarrow> None
      | Some k \<Rightarrow>
          (case map_of (read_frontmatter text) k of
             None \<Rightarrow> None | Some v \<Rightarrow> if normalized v = [] then None else Some (normalized v)))"

definition owner_space :: "string \<Rightarrow> store_policy \<Rightarrow> string option" where
  "owner_space text p =
     (case po_owner p of
        None \<Rightarrow> None
      | Some k \<Rightarrow>
          let value = (case map_of (read_frontmatter text) k of None \<Rightarrow> [] | Some v \<Rightarrow> normalized v);
              pid = (if starts_with value PERSON_PREFIX then drop (length PERSON_PREFIX) value else value)
          in if value = SHARED_KEY then Some SHARED_KEY
             else if pid \<noteq> [] \<and> PERSON_ID pid then Some (person_key pid) else None)"

definition target_space :: "store_policy \<Rightarrow> string option \<Rightarrow> string option" where
  "target_space p content =
     (if \<not> store_private p then Some SHARED_KEY else owner_space (case content of None \<Rightarrow> [] | Some c \<Rightarrow> c) p)"

section \<open>The two fences\<close>

datatype record_act = List_Act | Read_Act | Write_Act

datatype refusal =
  Only_Writers | Belongs_To string | Not_Stamped string | Space_Unresolved_Refusal | Names_No_Owner | Private_To_Another
| Needs_A_Space string | Not_Own_Space | Not_Yours | Keeps_Its_Space string

definition access_problem :: "store_policy \<Rightarrow> record_act \<Rightarrow> string option \<Rightarrow> string option \<Rightarrow> string option \<Rightarrow> refusal option" where
  "access_problem p act viewer existing content =
     (case viewer of
        None \<Rightarrow> None
      | Some v0 \<Rightarrow>
          let v = normalized v0; owner = (case existing of None \<Rightarrow> None | Some e \<Rightarrow> record_owner e p)
          in if act = Write_Act \<and> po_writers p \<noteq> [] \<and> v \<notin> set (po_writers p) then Some Only_Writers
             else if \<not> store_private p then None
             else (case act of
                     Read_Act \<Rightarrow>
                       (case owner of
                          Some w \<Rightarrow> if w \<noteq> v \<and> v \<notin> set (po_readers p) then Some (Belongs_To w) else None
                        | None \<Rightarrow> None)
                   | Write_Act \<Rightarrow>
                       (if owner \<noteq> None \<and> owner \<noteq> Some v then map_option Belongs_To owner
                        else if record_owner (case content of None \<Rightarrow> [] | Some c \<Rightarrow> c) p \<noteq> Some v then Some (Not_Stamped v)
                        else None)
                   | List_Act \<Rightarrow> None))"

definition space_access_problem ::
  "store_policy \<Rightarrow> record_act \<Rightarrow> turn_space option \<Rightarrow> string option \<Rightarrow> string option \<Rightarrow> string option \<Rightarrow> refusal option" where
  "space_access_problem p act so existing content writer =
     (case so of
        None \<Rightarrow> Some Space_Unresolved_Refusal
      | Some s \<Rightarrow>
          if act = List_Act then None
          else if act = Write_Act \<and> po_writers p \<noteq> [] \<and>
            (let a = (case writer of None \<Rightarrow> [] | Some w \<Rightarrow> normalized w) in a = [] \<or> a \<notin> set (po_writers p))
          then Some Only_Writers
          else if \<not> store_private p then None
          else
            let owner = (case existing of None \<Rightarrow> None | Some e \<Rightarrow> owner_space e p)
            in if act = Read_Act
               then (if existing = None then None
                     else case owner of
                       None \<Rightarrow> Some Names_No_Owner
                     | Some w \<Rightarrow> if may_read so w then None else Some Private_To_Another)
               else (case owner_space (case content of None \<Rightarrow> [] | Some c \<Rightarrow> c) p of
                       None \<Rightarrow> Some (Needs_A_Space (if space_private s then space_key s else SHARED_KEY))
                     | Some stamped \<Rightarrow>
                         if \<not> may_read so stamped then Some Not_Own_Space
                         else if existing = None then None
                         else (case owner of
                                 None \<Rightarrow> Some Not_Yours
                               | Some w \<Rightarrow>
                                   if \<not> may_read so w then Some Not_Yours
                                   else if w \<noteq> stamped then Some (Keeps_Its_Space w) else None)))"

section \<open>The records\<close>

record kept =
  kp_text :: string
  kp_modified :: string

type_synonym disk = "(string \<times> (string \<times> kept) list) list"

text \<open>A directory that does not exist is not on the list. \<open>len(s.encode("utf-8"))\<close>; \<open>data.strip()\<close> of bytes strips only ASCII.\<close>

definition byte_length :: "string \<Rightarrow> int" where
  "byte_length s = sum_list (map (\<lambda>c. if (of_char c :: nat) < 128 then 1 else 2) s)"

definition byte_space :: "char \<Rightarrow> bool" where
  "byte_space c \<longleftrightarrow> c \<in> {CHR '' '', CHR 0x09, CHR 0x0A, CHR 0x0B, CHR 0x0C, CHR 0x0D}"

definition FRONTMATTER_BYTES :: int where
  "FRONTMATTER_BYTES = 4096"

text \<open>The first bytes of a text; a character cut in two is written as a question mark.\<close>

fun head_bytes :: "int \<Rightarrow> string \<Rightarrow> string" where
  "head_bytes n [] = []"
| "head_bytes n (c # s) =
     (let w = (if (of_char c :: nat) < 128 then 1 else 2)
      in if w \<le> n then c # head_bytes (n - w) s else if 0 < n then ''?'' else [])"

definition parent_path :: "string \<Rightarrow> string" where
  "parent_path p = (case cut_last ''/'' p of None \<Rightarrow> ''.'' | Some (a, b) \<Rightarrow> if a = [] then ''/'' else a)"

definition record_path :: "(string \<Rightarrow> string) \<Rightarrow> string \<Rightarrow> string \<Rightarrow> store_error + string" where
  "record_path links dir name =
     (if \<not> RECORD_NAME name then Inl Bad_Record_Name
      else if parent_path (links (dir @ ''/'' @ name)) \<noteq> links dir then Inl Outside_Store
      else Inr name)"

definition kept_in :: "disk \<Rightarrow> string \<Rightarrow> string \<Rightarrow> kept option" where
  "kept_in disk dir name = (case map_of disk dir of None \<Rightarrow> None | Some folder \<Rightarrow> map_of folder name)"

definition read_record :: "(string \<Rightarrow> string) \<Rightarrow> disk \<Rightarrow> string \<Rightarrow> string \<Rightarrow> store_error + string" where
  "read_record links disk dir name =
     (case record_path links dir name of
        Inl e \<Rightarrow> Inl e
      | Inr n \<Rightarrow>
          (case kept_in disk dir n of
             None \<Rightarrow> Inl (No_Record name)
           | Some k \<Rightarrow> if MAX_RECORD_BYTES < byte_length (kp_text k) then Inl (Record_Too_Large name) else Inr (kp_text k)))"

record receipt =
  rt_name :: string
  rt_bytes :: int
  rt_created :: bool

definition keep_record :: "disk \<Rightarrow> string \<Rightarrow> string \<Rightarrow> kept \<Rightarrow> disk" where
  "keep_record disk dir name k =
     AList.update dir (AList.update name k (case map_of disk dir of None \<Rightarrow> [] | Some folder \<Rightarrow> folder)) disk"

definition write_record ::
  "(string \<Rightarrow> string) \<Rightarrow> string \<Rightarrow> disk \<Rightarrow> string \<Rightarrow> string \<Rightarrow> string \<Rightarrow> bool \<Rightarrow> store_error + receipt \<times> disk" where
  "write_record links now disk dir name content overwrite =
     (case record_path links dir name of
        Inl e \<Rightarrow> Inl e
      | Inr n \<Rightarrow>
          if MAX_RECORD_BYTES < byte_length content then Inl Content_Too_Large
          else if list_all byte_space content then Inl Content_Empty
          else if kept_in disk dir n \<noteq> None \<and> \<not> overwrite then Inl (Record_Exists name)
          else Inr (\<lparr>rt_name = name, rt_bytes = byte_length content, rt_created = (kept_in disk dir n = None)\<rparr>,
            keep_record disk dir n \<lparr>kp_text = content, kp_modified = now\<rparr>))"

record record_row =
  rw_name :: string
  rw_size :: int
  rw_modified :: string
  rw_index :: "(string \<times> string) list"
  rw_owner :: "string option"

definition index_entry :: "store_policy \<Rightarrow> string \<Rightarrow> (string \<times> string) list" where
  "index_entry p head_text =
     (let fm = read_frontmatter head_text
      in concat (map (\<lambda>k. case map_of fm k of None \<Rightarrow> [] | Some v \<Rightarrow> [(k, v)]) (rev (remdups (rev (po_index p @ [''status'']))))))"

definition row_for :: "store_policy \<Rightarrow> string \<times> kept \<Rightarrow> record_row" where
  "row_for p e =
     (let head_text = head_bytes FRONTMATTER_BYTES (kp_text (snd e)); shown = store_private p \<or> po_index p \<noteq> []
      in \<lparr>rw_name = fst e, rw_size = byte_length (kp_text (snd e)), rw_modified = kp_modified (snd e),
          rw_index = (if shown then index_entry p head_text else []),
          rw_owner = (if shown \<and> store_private p then record_owner head_text p else None)\<rparr>)"

definition list_records :: "disk \<Rightarrow> store_policy \<Rightarrow> record_row list" where
  "list_records disk p =
     (case map_of disk (po_root p) of
        None \<Rightarrow> []
      | Some folder \<Rightarrow>
          rev (sort_key (\<lambda>r. (rw_modified r, rw_name r)) (map (row_for p) (filter (\<lambda>e. RECORD_NAME (fst e)) folder))))"

section \<open>The tools\<close>

record record_env =
  re_config :: config_file
  re_links :: "string \<Rightarrow> string"
  re_view :: space_view
  re_taint :: taint
  re_now :: string
  re_text :: "pyval \<Rightarrow> string"

definition TOOL_LIST :: string where
  "TOOL_LIST = ''record_store_list''"

definition TOOL_READ :: string where
  "TOOL_READ = ''record_store_read''"

definition TOOL_WRITE :: string where
  "TOOL_WRITE = ''record_store_write''"

text \<open>\<open>str(args.get(k) or "")\<close>; and the value when it is a string.\<close>

definition arg_text :: "record_env \<Rightarrow> pyval \<Rightarrow> string" where
  "arg_text E v =
     (if \<not> truthy v then [] else case v of PStr s \<Rightarrow> s | PInt i \<Rightarrow> show_int i | _ \<Rightarrow> re_text E v)"

definition arg_string :: "pydict \<Rightarrow> string \<Rightarrow> string option" where
  "arg_string args k = (case dget args k of PStr s \<Rightarrow> Some s | _ \<Rightarrow> None)"

definition policy_named :: "record_env \<Rightarrow> pyval \<Rightarrow> store_error + store_policy option" where
  "policy_named E store =
     (case authored_policies (re_config E) of
        Inl e \<Rightarrow> Inl e
      | Inr ps \<Rightarrow> Inr (case store of PStr s \<Rightarrow> map_of ps s | _ \<Rightarrow> None))"

definition viewer_of :: "record_env \<Rightarrow> string \<Rightarrow> string option" where
  "viewer_of E sid =
     (case get_origin sid (sv_origins (re_view E)) of
        None \<Rightarrow> None
      | Some og \<Rightarrow> if normalized (or_sender og) = [] then None else Some (normalized (or_sender og)))"

definition space_view_of :: "record_env \<Rightarrow> string \<Rightarrow> bool \<times> turn_space option" where
  "space_view_of E sid =
     (case space_mode (re_config E) of
        Inl e \<Rightarrow> (True, None)
      | Inr False \<Rightarrow> (False, None)
      | Inr True \<Rightarrow> (True, case resolve_space (re_config E) (re_view E) sid of Inl e \<Rightarrow> None | Inr so \<Rightarrow> so))"

definition writer_address :: "record_env \<Rightarrow> turn_space option \<Rightarrow> string option" where
  "writer_address E so =
     (case so of
        None \<Rightarrow> None
      | Some s \<Rightarrow>
          (case sp_kind s of
             Shared_Kind \<Rightarrow> None
           | Person_Space pid \<Rightarrow>
               (case space_config_of (re_config E) of
                  Inr (Some cfg) \<Rightarrow>
                    (case person_of cfg pid of None \<Rightarrow> None | Some p \<Rightarrow> if pn_email p = [] then None else Some (pn_email p))
                | _ \<Rightarrow> None)))"

definition act_of :: "string \<Rightarrow> record_act" where
  "act_of tool = (if tool = TOOL_LIST then List_Act else if tool = TOOL_READ then Read_Act else Write_Act)"

text \<open>The record a fence judges: one it cannot read counts as absent.\<close>

definition existing_record :: "record_env \<Rightarrow> disk \<Rightarrow> store_policy \<Rightarrow> pydict \<Rightarrow> string option" where
  "existing_record E disk p args =
     (case dget args ''name'' of
        PStr name \<Rightarrow>
          if RECORD_NAME name then (case read_record (re_links E) disk (po_root p) name of Inl e \<Rightarrow> None | Inr text \<Rightarrow> Some text) else None
      | _ \<Rightarrow> None)"

definition fence_problem :: "record_env \<Rightarrow> disk \<Rightarrow> string \<Rightarrow> pydict \<Rightarrow> string \<Rightarrow> store_error + refusal option" where
  "fence_problem E disk tool args sid =
     map_sum id (\<lambda>po. case po of
         None \<Rightarrow> None
       | Some p \<Rightarrow>
           if \<not> store_fenced p then None
           else case viewer_of E sid of
             None \<Rightarrow> None
           | Some v \<Rightarrow>
               access_problem p (if tool = TOOL_READ then Read_Act else Write_Act) (Some v) (existing_record E disk p args)
                 (arg_string args ''content''))
       (policy_named E (dget args ''store''))"

definition space_fence_problem :: "record_env \<Rightarrow> disk \<Rightarrow> string \<Rightarrow> pydict \<Rightarrow> string \<Rightarrow> store_error + refusal option" where
  "space_fence_problem E disk tool args sid =
     (case space_view_of E sid of
        (False, so) \<Rightarrow> Inr None
      | (True, so) \<Rightarrow>
          map_sum id (\<lambda>po. case po of
              None \<Rightarrow> (if so = None then Some Space_Unresolved_Refusal else None)
            | Some p \<Rightarrow>
                space_access_problem p (act_of tool) so (if act_of tool = List_Act then None else existing_record E disk p args)
                  (arg_string args ''content'') (writer_address E so))
            (policy_named E (dget args ''store'')))"

definition visible_in_space :: "record_env \<Rightarrow> disk \<Rightarrow> store_policy \<Rightarrow> turn_space option \<Rightarrow> record_row list \<Rightarrow> record_row list" where
  "visible_in_space E disk p so rows =
     (if \<not> store_private p then rows
      else concat (map (\<lambda>r.
        case read_record (re_links E) disk (po_root p) (rw_name r) of
          Inl e \<Rightarrow> []
        | Inr text \<Rightarrow>
            (case owner_space text p of
               None \<Rightarrow> [] | Some w \<Rightarrow> if may_read so w then [r\<lparr>rw_owner := Some w\<rparr>] else [])) rows))"

datatype hook_block = Tainted_Write | Fence_Unresolved | Fence_Refused refusal

definition tainted_record_allowed :: "record_env \<Rightarrow> pydict \<Rightarrow> string \<Rightarrow> store_error + bool" where
  "tainted_record_allowed E args sid =
     (if \<not> fst (space_view_of E sid) then Inr False
      else map_sum id (\<lambda>po. case po of
          None \<Rightarrow> False
        | Some p \<Rightarrow> tainted_write_allowed (re_config E) (re_view E) TOOL_WRITE sid (target_space p (arg_string args ''content'')))
        (policy_named E (dget args ''store'')))"

definition owner_fence :: "record_env \<Rightarrow> disk \<Rightarrow> string \<Rightarrow> pydict \<Rightarrow> string \<Rightarrow> store_error + refusal option" where
  "owner_fence E disk tool args sid =
     (case space_fence_problem E disk tool args sid of
        Inl e \<Rightarrow> Inl e
      | Inr (Some r) \<Rightarrow> Inr (Some r)
      | Inr None \<Rightarrow> if fst (space_view_of E sid) then Inr None else fence_problem E disk tool args sid)"

text \<open>A blocked call, or the arguments the call goes on with.\<close>

definition record_hook :: "record_env \<Rightarrow> disk \<Rightarrow> string \<Rightarrow> pydict \<Rightarrow> string \<Rightarrow> hook_block + pydict" where
  "record_hook E disk tool args sid =
     (if tool \<notin> {TOOL_LIST, TOOL_READ, TOOL_WRITE} then Inr args
      else if tool = TOOL_LIST
      then (case space_fence_problem E disk tool args sid of
              Inl e \<Rightarrow> Inl Fence_Unresolved | Inr (Some r) \<Rightarrow> Inl (Fence_Refused r) | Inr None \<Rightarrow> Inr args)
      else
        let tainted = (tool = TOOL_WRITE \<and> is_tainted (re_taint E) sid)
        in if tainted \<and> tainted_record_allowed E args sid \<noteq> Inr True then Inl Tainted_Write
           else (case owner_fence E disk tool args sid of
                   Inl e \<Rightarrow> Inl Fence_Unresolved
                 | Inr (Some r) \<Rightarrow> Inl (Fence_Refused r)
                 | Inr None \<Rightarrow>
                     (case (tainted, dget args ''content'') of
                        (True, PStr c) \<Rightarrow> Inr (AList.update ''content'' (PStr (stamp_from_web c)) args)
                      | _ \<Rightarrow> Inr args)))"

datatype record_reply =
  Not_Registered | Blocked_Call hook_block | Raised store_error | Refused_Call refusal | Listing "record_row list" | Record_Text string | Written receipt

definition list_handler :: "record_env \<Rightarrow> disk \<Rightarrow> pydict \<Rightarrow> string \<Rightarrow> record_reply" where
  "list_handler E disk args sid =
     (case policy_named E (dget args ''store'') of
        Inl e \<Rightarrow> Raised e
      | Inr None \<Rightarrow> Raised No_Store
      | Inr (Some p) \<Rightarrow>
          (case space_view_of E sid of
             (False, so) \<Rightarrow> Listing (list_records disk p)
           | (True, so) \<Rightarrow>
               (case space_access_problem p List_Act so None None None of
                  Some r \<Rightarrow> Refused_Call r
                | None \<Rightarrow> Listing (visible_in_space E disk p so (list_records disk p)))))"

definition store_root :: "record_env \<Rightarrow> string \<Rightarrow> store_error + string" where
  "store_root E store =
     (case authored_policies (re_config E) of
        Inl e \<Rightarrow> Inl e
      | Inr ps \<Rightarrow> (case map_of ps store of None \<Rightarrow> Inl No_Store | Some p \<Rightarrow> Inr (po_root p)))"

definition read_handler :: "record_env \<Rightarrow> disk \<Rightarrow> pydict \<Rightarrow> string \<Rightarrow> record_reply" where
  "read_handler E disk args sid =
     (case space_fence_problem E disk TOOL_READ args sid of
        Inl e \<Rightarrow> Raised e
      | Inr (Some r) \<Rightarrow> Refused_Call r
      | Inr None \<Rightarrow>
          (case store_root E (arg_text E (dget args ''store'')) of
             Inl e \<Rightarrow> Raised e
           | Inr dir \<Rightarrow>
               (case read_record (re_links E) disk dir (arg_text E (dget args ''name'')) of
                  Inl e \<Rightarrow> Raised e | Inr text \<Rightarrow> Record_Text text)))"

definition write_handler :: "record_env \<Rightarrow> disk \<Rightarrow> pydict \<Rightarrow> string \<Rightarrow> record_reply \<times> disk" where
  "write_handler E disk args sid =
     (case space_fence_problem E disk TOOL_WRITE args sid of
        Inl e \<Rightarrow> (Raised e, disk)
      | Inr (Some r) \<Rightarrow> (Refused_Call r, disk)
      | Inr None \<Rightarrow>
          (case store_root E (arg_text E (dget args ''store'')) of
             Inl e \<Rightarrow> (Raised e, disk)
           | Inr dir \<Rightarrow>
               (case write_record (re_links E) (re_now E) disk dir (arg_text E (dget args ''name''))
                       (case arg_string args ''content'' of None \<Rightarrow> [] | Some c \<Rightarrow> c) (truthy (dget args ''overwrite'')) of
                  Inl e \<Rightarrow> (Raised e, disk)
                | Inr (r, disk') \<Rightarrow> (Written r, disk'))))"

definition record_handler :: "record_env \<Rightarrow> disk \<Rightarrow> string \<Rightarrow> pydict \<Rightarrow> string \<Rightarrow> record_reply \<times> disk" where
  "record_handler E disk tool args sid =
     (if tool = TOOL_LIST then (list_handler E disk args sid, disk)
      else if tool = TOOL_READ then (read_handler E disk args sid, disk)
      else if tool = TOOL_WRITE then write_handler E disk args sid
      else (Not_Registered, disk))"

text \<open>One call: the hook, then the handler on the arguments the hook leaves.\<close>

definition record_call :: "record_env \<Rightarrow> string \<Rightarrow> pydict \<Rightarrow> string \<Rightarrow> disk \<Rightarrow> record_reply \<times> disk" where
  "record_call E tool args sid disk =
     (case record_hook E disk tool args sid of
        Inl b \<Rightarrow> (Blocked_Call b, disk)
      | Inr args' \<Rightarrow> record_handler E disk tool args' sid)"

section \<open>What a call does in a space\<close>

text \<open>The schema of the tools: the store and the record are named by strings.\<close>

definition typed_args :: "pydict \<Rightarrow> bool" where
  "typed_args args \<longleftrightarrow> arg_string args ''store'' \<noteq> None \<and> arg_string args ''name'' \<noteq> None"

lemma arg_string_text: "arg_string args k = Some s \<Longrightarrow> arg_text E (dget args k) = s \<and> dget args k = PStr s"
  by (auto simp: arg_string_def arg_text_def split: pyval.splits)

lemma typed_obtain:
  assumes "typed_args args"
  obtains s n where "dget args ''store'' = PStr s" "dget args ''name'' = PStr n"
    "arg_text E (dget args ''store'') = s" "arg_text E (dget args ''name'') = n"
  using assms arg_string_text unfolding typed_args_def by blast

lemma policy_named_string: "authored_policies (re_config E) = Inr ps \<Longrightarrow> policy_named E (PStr s) = Inr (map_of ps s)"
  by (simp add: policy_named_def)

lemma store_root_named:
  "authored_policies (re_config E) = Inr ps \<Longrightarrow> store_root E s = (case map_of ps s of None \<Rightarrow> Inl No_Store | Some p \<Rightarrow> Inr (po_root p))"
  by (simp add: store_root_def)

lemma read_record_name: "read_record links disk d n = Inr x \<Longrightarrow> RECORD_NAME n"
  by (auto simp: read_record_def record_path_def split: if_splits)

lemma existing_named:
  "dget args ''name'' = PStr n \<Longrightarrow>
     existing_record E disk p args = (case read_record (re_links E) disk (po_root p) n of Inl e \<Rightarrow> None | Inr x \<Rightarrow> Some x)"
  by (auto simp: existing_record_def read_record_def record_path_def split: sum.split if_splits)

lemma space_fence_named:
  assumes "space_view_of E sid = (True, so)" "authored_policies (re_config E) = Inr ps" "dget args ''store'' = PStr s"
  shows "space_fence_problem E disk tool args sid =
    Inr (case map_of ps s of
           None \<Rightarrow> (if so = None then Some Space_Unresolved_Refusal else None)
         | Some p \<Rightarrow> space_access_problem p (act_of tool) so (if act_of tool = List_Act then None else existing_record E disk p args)
             (arg_string args ''content'') (writer_address E so))"
  using assms by (simp add: space_fence_problem_def policy_named_string)

lemma read_passes:
  assumes "space_access_problem p Read_Act so existing content w = None" "store_private p" "existing = Some e"
  shows "\<exists>k. owner_space e p = Some k \<and> may_read so k"
  using assms by (auto simp: space_access_problem_def split: option.splits if_splits)

lemma write_passes:
  assumes "space_access_problem p Write_Act so existing content w = None" "store_private p"
  shows "\<exists>k. owner_space (case content of None \<Rightarrow> [] | Some c \<Rightarrow> c) p = Some k \<and> may_read so k \<and>
    (existing = None \<or> (\<exists>e. existing = Some e \<and> owner_space e p = Some k))"
  using assms by (auto simp: space_access_problem_def Let_def split: option.splits if_splits)

lemma read_reply:
  assumes "space_view_of E sid = (True, so)" "authored_policies (re_config E) = Inr ps" "typed_args args"
    "read_handler E disk args sid = Record_Text x"
  obtains s n p where "dget args ''store'' = PStr s" "dget args ''name'' = PStr n" "map_of ps s = Some p"
    "read_record (re_links E) disk (po_root p) n = Inr x"
    "store_private p \<Longrightarrow> \<exists>k. owner_space x p = Some k \<and> may_read so k"
proof -
  obtain s n where a: "dget args ''store'' = PStr s" "dget args ''name'' = PStr n"
    "arg_text E (dget args ''store'') = s" "arg_text E (dget args ''name'') = n" using assms(3) by (rule typed_obtain)
  have act: "act_of TOOL_READ = Read_Act" by (simp add: act_of_def TOOL_READ_def TOOL_LIST_def)
  obtain p where p: "map_of ps s = Some p" "read_record (re_links E) disk (po_root p) n = Inr x"
    "space_access_problem p Read_Act so (existing_record E disk p args) (arg_string args ''content'') (writer_address E so) = None"
    using assms(4) a act
    by (auto simp: read_handler_def space_fence_named [OF assms(1,2) a(1)] store_root_named [OF assms(2)] split: option.splits sum.splits)
  have e: "existing_record E disk p args = Some x" using existing_named [OF a(2)] p(2) by simp
  show ?thesis by (rule that [OF a(1,2) p(1,2)]) (rule read_passes [OF p(3) _ e])
qed

text \<open>Only a write that both fences let through changes the disk.\<close>

lemma write_reply:
  assumes "space_view_of E sid = (True, so)" "authored_policies (re_config E) = Inr ps" "typed_args args"
    "write_handler E disk args sid = (reply, disk')" "disk' \<noteq> disk"
  obtains s n p c where "map_of ps s = Some p" "disk' = keep_record disk (po_root p) n \<lparr>kp_text = c, kp_modified = re_now E\<rparr>"
    "byte_length c \<le> MAX_RECORD_BYTES" "dget args ''name'' = PStr n" "dget args ''store'' = PStr s"
    "store_private p \<Longrightarrow> \<exists>k. owner_space c p = Some k \<and> may_read so k \<and>
       (\<forall>old. kept_in disk (po_root p) n = Some old \<and> byte_length (kp_text old) \<le> MAX_RECORD_BYTES \<longrightarrow> owner_space (kp_text old) p = Some k)"
proof -
  obtain s n where a: "dget args ''store'' = PStr s" "dget args ''name'' = PStr n"
    "arg_text E (dget args ''store'') = s" "arg_text E (dget args ''name'') = n" using assms(3) by (rule typed_obtain)
  have act: "act_of TOOL_WRITE = Write_Act" by (simp add: act_of_def TOOL_READ_def TOOL_LIST_def TOOL_WRITE_def)
  let ?c = "case arg_string args ''content'' of None \<Rightarrow> [] | Some c \<Rightarrow> c"
  obtain p r where p: "map_of ps s = Some p"
    "write_record (re_links E) (re_now E) disk (po_root p) n ?c (truthy (dget args ''overwrite'')) = Inr (r, disk')"
    "space_access_problem p Write_Act so (existing_record E disk p args) (arg_string args ''content'') (writer_address E so) = None"
    using assms(4,5) a act
    by (auto simp: write_handler_def space_fence_named [OF assms(1,2) a(1)] store_root_named [OF assms(2)]
        split: option.splits sum.splits prod.splits)
  have w: "record_path (re_links E) (po_root p) n = Inr n" "disk' = keep_record disk (po_root p) n \<lparr>kp_text = ?c, kp_modified = re_now E\<rparr>"
    "byte_length ?c \<le> MAX_RECORD_BYTES"
    using p(2) by (auto simp: write_record_def record_path_def split: sum.splits if_splits)
  have e: "kept_in disk (po_root p) n = Some old \<Longrightarrow> byte_length (kp_text old) \<le> MAX_RECORD_BYTES \<Longrightarrow>
      existing_record E disk p args = Some (kp_text old)" for old
    using w(1) by (simp add: existing_named [OF a(2)] read_record_def)
  show ?thesis
    by (rule that [OF p(1) w(2,3) a(2,1)]) (use write_passes [OF p(3)] e in fastforce)
qed

lemma keep_other: "(d, m) \<noteq> (d', n) \<Longrightarrow> kept_in (keep_record disk d' n k) d m = kept_in disk d m"
  by (auto simp: kept_in_def keep_record_def update_conv' split: option.splits)

lemma keep_same [simp]: "kept_in (keep_record disk d n k) d n = Some k"
  by (simp add: kept_in_def keep_record_def update_conv')

lemma keep_absent: "kept_in disk d' m = None \<Longrightarrow> kept_in disk d n = Some k \<Longrightarrow> kept_in (keep_record disk d' m k') d n = Some k"
  using keep_other [of d n d' m disk k'] by (cases "(d, n) = (d', m)") auto

lemma dget_replace: "dget (AList.update k v args) k' = (if k' = k then v else dget args k')"
  by (simp add: dget_def update_conv')

lemma typed_update: "typed_args args \<Longrightarrow> typed_args (AList.update ''content'' v args)"
  by (simp add: typed_args_def arg_string_def dget_replace)

lemma hook_args: "record_hook E disk tool args sid = Inr args' \<Longrightarrow> args' = args \<or> (\<exists>v. args' = AList.update ''content'' v args)"
  by (auto simp: record_hook_def Let_def split: sum.splits if_splits option.splits bool.splits pyval.splits)

lemma call_shape:
  assumes "record_call E tool args sid disk = (reply, disk')" "disk' \<noteq> disk" "typed_args args"
  obtains args' where "typed_args args'" "write_handler E disk args' sid = (reply, disk')"
    "dget args' ''name'' = dget args ''name''" "dget args' ''store'' = dget args ''store''"
proof -
  obtain args' where h: "record_hook E disk tool args sid = Inr args'" "record_handler E disk tool args' sid = (reply, disk')"
    using assms(1,2) by (auto simp: record_call_def split: sum.splits)
  have "write_handler E disk args' sid = (reply, disk')" using h(2) assms(2) by (auto simp: record_handler_def split: if_splits)
  then show ?thesis
    using hook_args [OF h(1)] assms(3) typed_update [OF assms(3)] by (intro that [of args']) (auto simp: dget_replace)
qed

section \<open>A record keeps its space\<close>

type_synonym record_step = "record_env \<times> string \<times> pydict \<times> string"

fun record_run :: "record_step list \<Rightarrow> disk \<Rightarrow> disk" where
  "record_run [] disk = disk"
| "record_run ((E, tool, args, sid) # cs) disk = record_run cs (snd (record_call E tool args sid disk))"

text \<open>Calls of one seat in space mode.\<close>

definition on_seat :: "config_file \<Rightarrow> record_step \<Rightarrow> bool" where
  "on_seat f c \<longleftrightarrow> (case c of (E, tool, args, sid) \<Rightarrow> re_config E = f \<and> typed_args args)"

definition separate_roots :: "(string \<times> store_policy) list \<Rightarrow> bool" where
  "separate_roots ps \<longleftrightarrow> (\<forall>a \<in> set ps. \<forall>b \<in> set ps. po_root (snd a) = po_root (snd b) \<longrightarrow> snd a = snd b)"

definition held_in_space :: "disk \<Rightarrow> store_policy \<Rightarrow> string \<Rightarrow> string \<Rightarrow> bool" where
  "held_in_space disk p n w \<longleftrightarrow>
     (\<exists>k. kept_in disk (po_root p) n = Some k \<and> byte_length (kp_text k) \<le> MAX_RECORD_BYTES \<and> owner_space (kp_text k) p = Some w)"

lemma space_mode_view: "space_mode (re_config E) = Inr True \<Longrightarrow> \<exists>so. space_view_of E sid = (True, so)"
  by (simp add: space_view_of_def)

lemma call_changes:
  assumes "space_view_of E sid = (True, so)" "authored_policies (re_config E) = Inr ps" "typed_args args"
    "separate_roots ps" "(s, p) \<in> set ps" "store_private p"
    "kept_in (snd (record_call E tool args sid disk)) (po_root p) n \<noteq> kept_in disk (po_root p) n"
  shows "\<exists>w k. may_read so w \<and> kept_in (snd (record_call E tool args sid disk)) (po_root p) n = Some k \<and>
    owner_space (kp_text k) p = Some w \<and> byte_length (kp_text k) \<le> MAX_RECORD_BYTES \<and>
    (\<forall>old. kept_in disk (po_root p) n = Some old \<and> byte_length (kp_text old) \<le> MAX_RECORD_BYTES \<longrightarrow> owner_space (kp_text old) p = Some w)"
proof -
  obtain reply disk' where c: "record_call E tool args sid disk = (reply, disk')" by (rule prod.exhaust)
  have ne: "disk' \<noteq> disk" using assms(7) c by auto
  obtain args' where a: "typed_args args'" "write_handler E disk args' sid = (reply, disk')" using call_shape [OF c ne assms(3)] by blast
  obtain s' m q ct where w: "map_of ps s' = Some q" "disk' = keep_record disk (po_root q) m \<lparr>kp_text = ct, kp_modified = re_now E\<rparr>"
    "byte_length ct \<le> MAX_RECORD_BYTES"
    "store_private q \<Longrightarrow> \<exists>k. owner_space ct q = Some k \<and> may_read so k \<and>
       (\<forall>old. kept_in disk (po_root q) m = Some old \<and> byte_length (kp_text old) \<le> MAX_RECORD_BYTES \<longrightarrow> owner_space (kp_text old) q = Some k)"
    using write_reply [OF assms(1,2) a ne] by metis
  have same: "(po_root p, n) = (po_root q, m)"
    using assms(7) c w(2) keep_other [of "po_root p" n "po_root q" m] by auto
  then have "q = p" using assms(4,5) map_of_SomeD [OF w(1)] by (force simp: separate_roots_def)
  then show ?thesis using w c same assms(6) by auto
qed

lemma run_keeps_space:
  assumes "authored_policies f = Inr ps" "space_mode f = Inr True" "separate_roots ps" "(s, p) \<in> set ps" "store_private p"
  shows "list_all (on_seat f) cs \<Longrightarrow> held_in_space disk p n w \<Longrightarrow> held_in_space (record_run cs disk) p n w"
proof (induction cs arbitrary: disk)
  case (Cons c cs)
  obtain E tool args sid where c: "c = (E, tool, args, sid)" by (metis prod_cases4)
  have on: "re_config E = f" "typed_args args" using Cons.prems(1) by (simp_all add: c on_seat_def)
  obtain so where so: "space_view_of E sid = (True, so)" using space_mode_view [of E sid] on(1) assms(2) by auto
  let ?disk = "snd (record_call E tool args sid disk)"
  have "held_in_space ?disk p n w"
  proof (cases "kept_in ?disk (po_root p) n = kept_in disk (po_root p) n")
    case True
    then show ?thesis using Cons.prems(2) by (simp add: held_in_space_def)
  next
    case False
    from call_changes [OF so _ on(2) assms(3-5) False] on(1) assms(1) show ?thesis
      using Cons.prems(2) by (auto simp: held_in_space_def)
  qed
  then show ?case using Cons.IH Cons.prems(1) by (simp add: c)
qed simp

section \<open>What one space shows another\<close>

text \<open>Two records a turn may not tell apart: the same one, or two of one private owner whose space it may not read.\<close>

definition alike :: "(string \<times> store_policy) list \<Rightarrow> turn_space option \<Rightarrow> string \<Rightarrow> kept \<Rightarrow> kept \<Rightarrow> bool" where
  "alike ps so d k k' \<longleftrightarrow>
     k = k' \<or>
     byte_length (kp_text k) \<le> MAX_RECORD_BYTES \<and> byte_length (kp_text k') \<le> MAX_RECORD_BYTES \<and>
     (\<forall>s p. (s, p) \<in> set ps \<and> po_root p = d \<longrightarrow>
        store_private p \<and> owner_space (kp_text k') p = owner_space (kp_text k) p \<and>
        (\<forall>w. owner_space (kp_text k) p = Some w \<longrightarrow> \<not> may_read so w))"

definition folders_alike :: "(string \<times> store_policy) list \<Rightarrow> turn_space option \<Rightarrow> string \<Rightarrow> (string \<times> kept) list \<Rightarrow> (string \<times> kept) list \<Rightarrow> bool" where
  "folders_alike ps so d f f' \<longleftrightarrow> distinct (map fst f) \<and> list_all2 (\<lambda>e e'. fst e' = fst e \<and> alike ps so d (snd e) (snd e')) f f'"

definition disks_alike :: "(string \<times> store_policy) list \<Rightarrow> turn_space option \<Rightarrow> disk \<Rightarrow> disk \<Rightarrow> bool" where
  "disks_alike ps so disk disk' \<longleftrightarrow>
     list_all2 (\<lambda>(d, f) (d', f'). d' = d \<and> folders_alike ps so d f f') disk disk'"

lemma map_of_all2:
  "list_all2 (\<lambda>e e'. fst e' = fst e \<and> R (fst e) (snd e) (snd e')) xs ys \<Longrightarrow>
     (case map_of xs k of None \<Rightarrow> map_of ys k = None | Some v \<Rightarrow> \<exists>v'. map_of ys k = Some v' \<and> R k v v')"
  by (induction rule: list_all2_induct) (auto split: option.splits)

lemma folder_alike:
  assumes "disks_alike ps so disk disk'"
  shows "case map_of disk d of None \<Rightarrow> map_of disk' d = None | Some f \<Rightarrow> \<exists>f'. map_of disk' d = Some f' \<and> folders_alike ps so d f f'"
  by (rule map_of_all2) (use assms in \<open>simp add: disks_alike_def case_prod_unfold\<close>)

lemma kept_alike:
  assumes "disks_alike ps so disk disk'"
  shows "case kept_in disk d n of None \<Rightarrow> kept_in disk' d n = None | Some k \<Rightarrow> \<exists>k'. kept_in disk' d n = Some k' \<and> alike ps so d k k'"
proof (cases "map_of disk d")
  case None
  then show ?thesis using folder_alike [OF assms, of d] by (simp add: kept_in_def)
next
  case (Some f)
  then obtain f' where f: "map_of disk' d = Some f'" "folders_alike ps so d f f'" using folder_alike [OF assms, of d] by auto
  have "list_all2 (\<lambda>e e'. fst e' = fst e \<and> alike ps so d (snd e) (snd e')) f f'" using f(2) by (simp add: folders_alike_def)
  from map_of_all2 [where R = "\<lambda>_. alike ps so d", OF this, of n] show ?thesis
    by (cases "map_of f n") (simp_all add: kept_in_def f(1) Some)
qed

text \<open>A read by name gives the same on both, or two texts that the turn may not open.\<close>

lemma read_alike:
  assumes "disks_alike ps so disk disk'"
  shows "read_record links disk' d n = read_record links disk d n \<or>
    (\<exists>x x'. read_record links disk d n = Inr x \<and> read_record links disk' d n = Inr x' \<and>
      (\<forall>s p. (s, p) \<in> set ps \<and> po_root p = d \<longrightarrow>
        store_private p \<and> owner_space x' p = owner_space x p \<and> (\<forall>w. owner_space x p = Some w \<longrightarrow> \<not> may_read so w)))"
proof (cases "record_path links d n")
  case (Inl e)
  then show ?thesis by (simp add: read_record_def)
next
  case (Inr m)
  show ?thesis
  proof (cases "kept_in disk d m")
    case None
    then show ?thesis using kept_alike [OF assms, of d m] Inr by (simp add: read_record_def)
  next
    case (Some k)
    then obtain k' where "kept_in disk' d m = Some k'" "alike ps so d k k'" using kept_alike [OF assms, of d m] by auto
    then show ?thesis using Some Inr by (auto simp: read_record_def alike_def)
  qed
qed

lemma fence_alike:
  assumes "disks_alike ps so disk disk'" "space_view_of E sid = (True, so)" "authored_policies (re_config E) = Inr ps" "typed_args args"
  shows "space_fence_problem E disk' TOOL_READ args sid = space_fence_problem E disk TOOL_READ args sid"
proof -
  obtain s n where a: "dget args ''store'' = PStr s" "dget args ''name'' = PStr n" using assms(4) by (rule typed_obtain)
  have act: "act_of TOOL_READ = Read_Act" by (simp add: act_of_def TOOL_READ_def TOOL_LIST_def)
  have "space_access_problem p Read_Act so (existing_record E disk' p args) (arg_string args ''content'') (writer_address E so) =
      space_access_problem p Read_Act so (existing_record E disk p args) (arg_string args ''content'') (writer_address E so)"
    if p: "map_of ps s = Some p" for p
  proof -
    have in_ps: "(s, p) \<in> set ps \<and> po_root p = po_root p" using map_of_SomeD [OF p] by simp
    from read_alike [OF assms(1), of "re_links E" "po_root p" n] show ?thesis
    proof (elim disjE exE conjE)
      assume "read_record (re_links E) disk' (po_root p) n = read_record (re_links E) disk (po_root p) n"
      then show ?thesis by (simp add: existing_named [OF a(2)])
    next
      fix x x'
      assume x: "read_record (re_links E) disk (po_root p) n = Inr x" "read_record (re_links E) disk' (po_root p) n = Inr x'"
        "\<forall>s' p'. (s', p') \<in> set ps \<and> po_root p' = po_root p \<longrightarrow> store_private p' \<and> owner_space x' p' = owner_space x p' \<and>
           (\<forall>w. owner_space x p' = Some w \<longrightarrow> \<not> may_read so w)"
      have "owner_space x' p = owner_space x p" using x(3) in_ps by blast
      then show ?thesis using x(1,2) by (simp add: existing_named [OF a(2)] space_access_problem_def split: option.splits)
    qed
  qed
  then show ?thesis by (cases "map_of ps s") (simp_all add: space_fence_named [OF assms(2,3) a(1)] act)
qed

lemma read_reply_alike:
  assumes "disks_alike ps so disk disk'" "space_view_of E sid = (True, so)" "authored_policies (re_config E) = Inr ps" "typed_args args"
  shows "read_handler E disk' args sid = read_handler E disk args sid"
proof -
  obtain s n where a: "dget args ''store'' = PStr s" "dget args ''name'' = PStr n"
    "arg_text E (dget args ''store'') = s" "arg_text E (dget args ''name'') = n" using assms(4) by (rule typed_obtain)
  have act: "act_of TOOL_READ = Read_Act" by (simp add: act_of_def TOOL_READ_def TOOL_LIST_def)
  have "read_record (re_links E) disk' (po_root p) n = read_record (re_links E) disk (po_root p) n"
    if p: "map_of ps s = Some p" and ok: "space_access_problem p Read_Act so (existing_record E disk p args) (arg_string args ''content'') (writer_address E so) = None" for p
  proof (rule ccontr)
    assume "read_record (re_links E) disk' (po_root p) n \<noteq> read_record (re_links E) disk (po_root p) n"
    then obtain x where x: "read_record (re_links E) disk (po_root p) n = Inr x" "store_private p" "\<forall>w. owner_space x p = Some w \<longrightarrow> \<not> may_read so w"
      using read_alike [OF assms(1), of "re_links E" "po_root p" n] map_of_SomeD [OF p] by blast
    have "existing_record E disk p args = Some x" using x(1) by (simp add: existing_named [OF a(2)])
    from read_passes [OF ok x(2) this] x(3) show False by blast
  qed
  note same = this
  note fence = space_fence_named [OF assms(2,3) a(1), where tool = TOOL_READ, unfolded act]
  show ?thesis
  proof (cases "map_of ps s")
    case None
    then show ?thesis by (simp add: read_handler_def fence_alike [OF assms] fence store_root_named [OF assms(3)] a(3,4))
  next
    case (Some p)
    then show ?thesis
      unfolding read_handler_def fence_alike [OF assms] using same [OF Some]
      by (cases "space_access_problem p Read_Act so (existing_record E disk p args) (arg_string args ''content'') (writer_address E so)")
        (simp_all add: fence store_root_named [OF assms(3)] a(3,4))
  qed
qed

text \<open>A listing keeps the rows of readable records only, so it is a function of those.\<close>

lemma visible_rows:
  assumes "store_private p"
  shows "visible_in_space E disk p so rows =
    map (\<lambda>r. case read_record (re_links E) disk (po_root p) (rw_name r) of Inl e \<Rightarrow> r | Inr x \<Rightarrow> r\<lparr>rw_owner := owner_space x p\<rparr>)
      (filter (\<lambda>r. case read_record (re_links E) disk (po_root p) (rw_name r) of
          Inl e \<Rightarrow> False | Inr x \<Rightarrow> (case owner_space x p of None \<Rightarrow> False | Some w \<Rightarrow> may_read so w)) rows)"
  using assms by (induction rows) (auto simp: visible_in_space_def split: sum.splits option.splits)

lemma all2_filter_eq:
  assumes "list_all2 (\<lambda>x y. P y = P x \<and> (P x \<longrightarrow> y = x)) xs ys"
  shows "filter P ys = filter P xs"
  using assms by (induction rule: list_all2_induct) auto

lemma listing_alike:
  assumes "disks_alike ps so disk disk'" "(s, p) \<in> set ps" "store_private p"
  shows "visible_in_space E disk' p so (list_records disk' p) = visible_in_space E disk p so (list_records disk p)"
proof -
  let ?P = "\<lambda>dk r. case read_record (re_links E) dk (po_root p) (rw_name r) of
      Inl e \<Rightarrow> False | Inr x \<Rightarrow> (case owner_space x p of None \<Rightarrow> False | Some w \<Rightarrow> may_read so w)"
  let ?g = "\<lambda>dk r. case read_record (re_links E) dk (po_root p) (rw_name r) of Inl e \<Rightarrow> r | Inr x \<Rightarrow> r\<lparr>rw_owner := owner_space x p\<rparr>"
  have own: "read_record (re_links E) disk' (po_root p) n = read_record (re_links E) disk (po_root p) n \<or>
      (\<exists>x x'. read_record (re_links E) disk (po_root p) n = Inr x \<and> read_record (re_links E) disk' (po_root p) n = Inr x' \<and>
        owner_space x' p = owner_space x p \<and> (\<forall>w. owner_space x p = Some w \<longrightarrow> \<not> may_read so w))" for n
    using read_alike [OF assms(1), of "re_links E" "po_root p" n] assms(2) by blast
  have P: "?P disk' = ?P disk"
  proof
    fix r
    show "?P disk' r = ?P disk r" using own [of "rw_name r"] by (auto split: option.splits)
  qed
  have g: "?P disk r \<Longrightarrow> ?g disk' r = ?g disk r" for r
    using own [of "rw_name r"] by (auto split: option.splits sum.splits)
  have rows: "filter (?P disk) (list_records disk' p) = filter (?P disk) (list_records disk p)"
  proof (cases "map_of disk (po_root p)")
    case None
    then show ?thesis using folder_alike [OF assms(1), of "po_root p"] by (simp add: list_records_def)
  next
    case (Some f)
    then obtain f' where f: "map_of disk' (po_root p) = Some f'" "folders_alike ps so (po_root p) f f'"
      using folder_alike [OF assms(1), of "po_root p"] by auto
    let ?rows = "\<lambda>f. map (row_for p) (filter (\<lambda>e. RECORD_NAME (fst e)) f)"
    have rel: "list_all2 (\<lambda>e e'. fst e' = fst e \<and> (?P disk (row_for p e) \<longrightarrow> e' = e)) f f'"
    proof (rule list_all2_all_nthI)
      show "length f = length f'" using f(2) list_all2_lengthD by (auto simp: folders_alike_def)
      fix i
      assume i: "i < length f"
      have e: "fst (f' ! i) = fst (f ! i)" "alike ps so (po_root p) (snd (f ! i)) (snd (f' ! i))" "distinct (map fst f)"
        using f(2) list_all2_nthD [of _ f f' i] i by (auto simp: folders_alike_def)
      have k: "kept_in disk (po_root p) (fst (f ! i)) = Some (snd (f ! i))"
        using e(3) i Some by (simp add: kept_in_def map_of_eq_Some_iff [OF e(3)]) 
      have "f' ! i = f ! i" if "?P disk (row_for p (f ! i))"
      proof (rule ccontr)
        assume "f' ! i \<noteq> f ! i"
        then have "snd (f ! i) \<noteq> snd (f' ! i)" using e(1) by (metis prod.collapse)
        then have "\<forall>w. owner_space (kp_text (snd (f ! i))) p = Some w \<longrightarrow> \<not> may_read so w"
          using e(2) assms(2) unfolding alike_def by blast
        then show False using that k by (auto simp: row_for_def Let_def read_record_def record_path_def split: if_splits option.splits)
      qed
      then show "fst (f' ! i) = fst (f ! i) \<and> (?P disk (row_for p (f ! i)) \<longrightarrow> f' ! i = f ! i)" using e(1) by blast
    qed
    have names: "rw_name (row_for p e) = fst e" for e by (simp add: row_for_def Let_def)
    have "filter (?P disk) (?rows f') = filter (?P disk) (?rows f)"
      using rel by (induction rule: list_all2_induct) (auto simp: names)
    moreover have "filter Q (rev (sort_key key xs)) = rev (sort_key key (filter Q xs))" for Q and key :: "record_row \<Rightarrow> string \<times> string" and xs
      by (simp add: rev_filter [symmetric] filter_sort)
    ultimately show ?thesis using Some f(1) by (simp only: list_records_def option.case)
  qed
  show ?thesis
    unfolding visible_rows [OF assms(3)] P rows
    by (rule map_cong) (auto simp: g)
qed

section \<open>Between people who write in\<close>

lemma address_write:
  assumes "space_view_of E sid = (False, so)" "authored_policies (re_config E) = Inr ps" "typed_args args"
    "record_call E tool args sid disk = (reply, disk')" "disk' \<noteq> disk" "viewer_of E sid = Some v"
  obtains s n p c content where "map_of ps s = Some p" "dget args ''name'' = PStr n" "disk' = keep_record disk (po_root p) n c"
    "store_fenced p \<Longrightarrow> access_problem p Write_Act (Some v) (existing_record E disk p args) content = None"
    "record_path (re_links E) (po_root p) n = Inr n"
proof -
  obtain s n where a: "dget args ''store'' = PStr s" "dget args ''name'' = PStr n" using assms(3) by (rule typed_obtain)
  obtain args' where h: "record_hook E disk tool args sid = Inr args'" "record_handler E disk tool args' sid = (reply, disk')"
    using assms(4,5) by (auto simp: record_call_def split: sum.splits)
  have w: "write_handler E disk args' sid = (reply, disk')" "tool = TOOL_WRITE"
    using h(2) assms(5) by (auto simp: record_handler_def split: if_splits)
  have a': "dget args' ''store'' = PStr s" "dget args' ''name'' = PStr n" using hook_args [OF h(1)] a by (auto simp: dget_replace)
  have named: "arg_text E (dget args' ''store'') = s" "arg_text E (dget args' ''name'') = n" using a' by (auto simp: arg_text_def)
  have open_fence: "space_fence_problem E disk t x sid = Inr None" for t x using assms(1) by (simp add: space_fence_problem_def)
  let ?c = "case arg_string args' ''content'' of None \<Rightarrow> [] | Some c \<Rightarrow> c"
  obtain p r where p: "map_of ps s = Some p"
    "write_record (re_links E) (re_now E) disk (po_root p) n ?c (truthy (dget args' ''overwrite'')) = Inr (r, disk')"
    using w(1) named assms(5) by (auto simp: write_handler_def open_fence store_root_named [OF assms(2)] split: option.splits sum.splits prod.splits)
  have k: "disk' = keep_record disk (po_root p) n \<lparr>kp_text = ?c, kp_modified = re_now E\<rparr>" "record_path (re_links E) (po_root p) n = Inr n"
    using p(2) by (auto simp: write_record_def record_path_def split: sum.splits if_splits)
  have f: "access_problem p Write_Act (Some v) (existing_record E disk p args) (arg_string args ''content'') = None" if fenced: "store_fenced p"
  proof -
    have d: "TOOL_WRITE \<noteq> TOOL_READ" "TOOL_WRITE \<noteq> TOOL_LIST" by (simp_all add: TOOL_WRITE_def TOOL_READ_def TOOL_LIST_def)
    then have "owner_fence E disk TOOL_WRITE args sid = Inr None"
      using h(1) w(2) by (auto simp: record_hook_def Let_def split: sum.splits option.splits if_splits)
    then show ?thesis
      using p(1) fenced d assms(6)
      by (simp add: owner_fence_def open_fence assms(1) fence_problem_def a(1) policy_named_string [OF assms(2)])
  qed
  show ?thesis by (rule that [OF p(1) a(2) k(1) f k(2)])
qed

lemma foreign_record_kept:
  assumes "space_view_of E sid = (False, so)" "authored_policies (re_config E) = Inr ps" "typed_args args" "separate_roots ps"
    "(s, p) \<in> set ps" "viewer_of E sid = Some v" "kept_in disk (po_root p) n = Some old"
    "byte_length (kp_text old) \<le> MAX_RECORD_BYTES" "record_owner (kp_text old) p = Some w" "w \<noteq> v"
  shows "kept_in (snd (record_call E tool args sid disk)) (po_root p) n = Some old"
proof (rule ccontr)
  obtain reply disk' where c: "record_call E tool args sid disk = (reply, disk')" by (rule prod.exhaust)
  assume "kept_in (snd (record_call E tool args sid disk)) (po_root p) n \<noteq> Some old"
  then have changed: "kept_in disk' (po_root p) n \<noteq> kept_in disk (po_root p) n" "disk' \<noteq> disk" using assms(7) c by auto
  obtain s' m q k content where w: "map_of ps s' = Some q" "dget args ''name'' = PStr m" "disk' = keep_record disk (po_root q) m k"
    "store_fenced q \<Longrightarrow> access_problem q Write_Act (Some v) (existing_record E disk q args) content = None"
    "record_path (re_links E) (po_root q) m = Inr m"
    using address_write [OF assms(1-3) c changed(2) assms(6)] by metis
  have same: "(po_root p, n) = (po_root q, m)" using changed(1) w(3) keep_other [of "po_root p" n "po_root q" m] by auto
  then have q: "q = p" using assms(4,5) map_of_SomeD [OF w(1)] by (force simp: separate_roots_def)
  have own: "store_private p" using assms(9) by (auto simp: record_owner_def store_private_def split: option.splits)
  have e: "existing_record E disk p args = Some (kp_text old)"
    using w(5) same q assms(7,8) by (simp add: existing_named [OF w(2)] read_record_def)
  have v: "normalized v = v" using assms(6) by (auto simp: viewer_of_def split: option.splits if_splits)
  show False
    using w(4) own e assms(9,10) v by (auto simp: q store_fenced_def access_problem_def Let_def split: if_splits)
qed

section \<open>Where the stores lie\<close>

lemma split_on_free: "c \<in> set (split_on d s) \<Longrightarrow> d \<notin> set c"
  by (induction s arbitrary: c) (auto split: if_splits list.splits)

lemma norm_parts_clean:
  assumes "\<forall>c \<in> set kept \<union> set cs. CHR ''/'' \<notin> set c" "[] \<notin> set kept"
  shows "(\<forall>c \<in> set (norm_parts rooted kept cs). CHR ''/'' \<notin> set c) \<and> [] \<notin> set (norm_parts rooted kept cs)"
  using assms
proof (induction rooted kept cs rule: norm_parts.induct)
  case (2 rooted kept c cs)
  then show ?case by (cases kept) auto
qed auto

lemma slash_joined_last: "cs \<noteq> [] \<Longrightarrow> [] \<notin> set cs \<Longrightarrow> slash_joined cs \<noteq> [] \<and> last (slash_joined cs) = last (last cs)"
proof (induction cs rule: rev_induct)
  case (snoc c cs)
  then have "slash_joined (cs @ [c]) = (if cs = [] then c else slash_joined cs @ CHR ''/'' # c)"
    by (cases cs) (simp_all add: slash_joined_def)
  then show ?case using snoc.prems by auto
qed simp

lemma norm_path_end: "2 < length (norm_path p) \<Longrightarrow> last (norm_path p) \<noteq> CHR ''/''"
proof -
  assume long: "2 < length (norm_path p)"
  obtain sl where sl: "length sl \<le> (2 :: nat)" "p \<noteq> [] \<Longrightarrow> norm_path p =
      (let j = sl @ slash_joined (norm_parts (sl \<noteq> []) [] (split_on (CHR ''/'') p)) in if j = [] then ''.'' else j)"
    by (rule that [of "if starts_with p ''//'' \<and> \<not> starts_with p ''///'' then ''//'' else if starts_with p ''/'' then ''/'' else []"])
      (simp_all add: norm_path_def)
  obtain cs where cs: "cs = norm_parts (sl \<noteq> []) [] (split_on (CHR ''/'') p)" by simp
  have clean: "(\<forall>c \<in> set cs. CHR ''/'' \<notin> set c) \<and> [] \<notin> set cs"
    unfolding cs by (rule norm_parts_clean) (auto dest: split_on_free)
  have p: "p \<noteq> []" using long by (auto simp: norm_path_def)
  have n: "norm_path p = sl @ slash_joined cs" 
    using long sl(2) [OF p] unfolding cs [symmetric] by (cases "sl @ slash_joined cs = []") (simp_all only: Let_def if_True if_False, simp)
  have ne: "cs \<noteq> []"
  proof
    assume "cs = []"
    then show False using long n sl(1) by (simp add: slash_joined_def)
  qed
  have l: "slash_joined cs \<noteq> []" "last (slash_joined cs) = last (last cs)" using slash_joined_last [OF ne] clean by auto
  have "last cs \<in> set cs" "last cs \<noteq> []" using ne clean by (metis last_in_set)+
  then have "last (last cs) \<noteq> CHR ''/''" using clean by (metis last_in_set)
  then show ?thesis using n l by simp
qed

lemma unslashed: "p \<noteq> [] \<Longrightarrow> last p \<noteq> CHR ''/'' \<Longrightarrow> bare_path p = p"
  by (cases p rule: rev_cases) (simp_all add: bare_path_def)

lemma starts_with_length: "starts_with s pat \<Longrightarrow> length pat \<le> length s"
  unfolding starts_with_def by (metis length_take min.cobounded1)

definition on_volume :: "string \<Rightarrow> bool" where
  "on_volume d \<longleftrightarrow>
     starts_with d (VOLUME_ROOT @ ''/'') \<and> list_all (\<lambda>r. d \<noteq> r \<and> \<not> starts_with d (r @ ''/'')) RESERVED_PREFIXES"

lemma path_on_volume: "path_problem path = None \<Longrightarrow> on_volume (bare_path path)"
proof -
  assume a: "path_problem path = None"
  let ?n = "norm_path path"
  have n: "?n = bare_path path \<or> ?n = path" "on_volume ?n"
    using a by (auto simp: path_problem_def on_volume_def Let_def find_None_iff list_all_iff split: if_splits)
  have "length (VOLUME_ROOT @ ''/'') \<le> length ?n" using n(2) by (intro starts_with_length) (simp only: on_volume_def)
  then have "2 < length ?n" by (simp add: VOLUME_ROOT_def)
  then have "bare_path ?n = ?n" using norm_path_end [of path] by (intro unslashed) auto
  then show ?thesis using n by auto
qed

lemma read_entry_path:
  assumes "read_entry i seen v = Inr s"
  obtains path where "path_problem path = None" "po_root (snd s) = bare_path path"
proof -
  obtain entry where v: "v = PDict entry" using assms by (cases v) (simp_all add: read_entry_def)
  obtain name where n: "dget entry ''name'' = PStr name" "STORE_NAME name" "name \<notin> set seen"
    using assms by (cases "dget entry ''name''") (simp_all add: read_entry_def v split: if_splits)
  obtain path where p: "dget entry ''path'' = PStr path" "starts_with path ''/''"
    using assms by (cases "dget entry ''path''") (simp_all add: read_entry_def v n split: if_splits)
  have ok: "path_problem path = None"
    using assms by (cases "path_problem path") (simp_all add: read_entry_def v n p)
  have "s = (name, policy_of path entry)"
    using assms by (cases "policy_problems entry") (simp_all add: read_entry_def v n p ok)
  then show ?thesis using ok by (intro that) (simp_all add: policy_of_def)
qed

lemma stores_on_volume: "clean_stores i seen vs = Inr ps \<Longrightarrow> \<forall>a \<in> set seen. on_volume (po_root (snd a)) \<Longrightarrow> \<forall>a \<in> set ps. on_volume (po_root (snd a))"
proof (induction vs arbitrary: i seen)
  case (Cons v vs)
  from Cons.prems(1) obtain s where s: "read_entry i (map fst seen) v = Inr s" "clean_stores (Suc i) (seen @ [s]) vs = Inr ps"
    by (cases "read_entry i (map fst seen) v") simp_all
  have "on_volume (po_root (snd s))" using read_entry_path [OF s(1)] path_on_volume by metis
  then show ?case using Cons.prems(2) by (intro Cons.IH [OF s(2)]) auto
qed simp

lemma record_name_segment: "RECORD_NAME n \<Longrightarrow> CHR ''/'' \<notin> set n \<and> n \<noteq> [] \<and> hd n \<noteq> CHR ''.''"
proof -
  have chars: "CHR ''/'' \<notin> set (LETTERS @ DIGITS @ ''._ -'')" "CHR ''.'' \<notin> set (LETTERS @ DIGITS)" "CHR ''/'' \<notin> set (LETTERS @ DIGITS)"
    "\<forall>x \<in> set RECORD_EXTENSIONS. CHR ''/'' \<notin> set x" by (simp_all add: LETTERS_def DIGITS_def RECORD_EXTENSIONS_def)
  have core: "CHR ''/'' \<notin> set s \<and> s \<noteq> [] \<and> hd s \<noteq> CHR ''.''" if t: "record_text s" for s
  proof -
    obtain x stem where x: "x \<in> set RECORD_EXTENSIONS" "s = stem @ CHR ''.'' # x" "record_stem stem"
      using t unfolding record_text_def list_ex_iff Let_def by blast
    obtain c u where st: "stem = c # u" "c \<in> set (LETTERS @ DIGITS)" "\<forall>d \<in> set u. d \<in> set (LETTERS @ DIGITS @ ''._ -'')"
      using x(3) by (auto simp: record_stem_def list_all_iff simp del: set_append split: list.splits)
    have "CHR ''/'' \<notin> set u" using st(3) chars(1) by blast
    moreover have "c \<noteq> CHR ''/'' \<and> c \<noteq> CHR ''.''" using st(2) chars(2,3) by blast
    ultimately show ?thesis using x(1,2) st(1) chars(4) by auto
  qed
  assume "RECORD_NAME n"
  then consider "record_text n" | "n \<noteq> []" "last n = CHR 0x0A" "record_text (butlast n)" by (auto simp: RECORD_NAME_def to_end_def)
  then show ?thesis
  proof cases
    case 2
    then obtain m where "n = m @ [CHR 0x0A]" "record_text m" by (metis append_butlast_last_id)
    then show ?thesis using core [of m] by (auto simp: hd_append)
  qed (use core in blast)
qed

section \<open>What a tainted turn keeps\<close>

text \<open>The key stands in the front of a text, as the stamp of the hook looks for it.\<close>

definition says_from_web :: "string \<Rightarrow> bool" where
  "says_from_web x \<longleftrightarrow>
     (case split_on (CHR 0x0A) x of
        [] \<Rightarrow> False
      | first # rest \<Rightarrow> is_rule first \<and> list_ex (\<lambda>h. field_key h = FROM_WEB) (takeWhile (\<lambda>l. \<not> is_rule l) rest))"

lemma split_on_joined: "ls \<noteq> [] \<Longrightarrow> \<forall>l \<in> set ls. CHR 0x0A \<notin> set l \<Longrightarrow> split_on (CHR 0x0A) (newline_joined ls) = ls"
proof (induction ls)
  case (Cons l ks)
  have pre: "split_on d (l @ s) = (case split_on d s of [] \<Rightarrow> [l] | c # cs \<Rightarrow> (l @ c) # cs)" if "d \<notin> set l" for d s
    using that by (induction l) (auto split: list.splits)
  show ?case
  proof (cases ks)
    case Nil
    then show ?thesis using pre [of "CHR 0x0A" "[]"] Cons.prems by (simp add: newline_joined_def)
  next
    case (Cons k js)
    then have "newline_joined (l # ks) = l @ CHR 0x0A # newline_joined ks" by (simp add: newline_joined_def)
    then show ?thesis using pre [of "CHR 0x0A"] Cons.IH Cons.prems \<open>ks = k # js\<close> by simp
  qed
qed simp

lemma stamp_line: "\<not> is_rule (FROM_WEB @ '': true'')" "field_key (FROM_WEB @ '': true'') = FROM_WEB" "is_rule ''---''"
  "CHR 0x0A \<notin> set (FROM_WEB @ '': true'')" by code_simp+

lemma stamp_says: "says_from_web (stamp_from_web c)"
proof -
  obtain first rest where s: "split_on (CHR 0x0A) c = first # rest" by (cases "split_on (CHR 0x0A) c") simp_all
  have free: "\<forall>l \<in> set (first # rest). CHR 0x0A \<notin> set l" using split_on_free [of _ "CHR 0x0A" c] s by metis
  let ?front = "takeWhile (\<lambda>l. \<not> is_rule l) rest" and ?rear = "dropWhile (\<lambda>l. \<not> is_rule l) rest"
  consider (block) "\<not> (is_rule first \<and> list_ex is_rule rest)"
    | (there) "is_rule first" "list_ex is_rule rest" "list_ex (\<lambda>h. field_key h = FROM_WEB) ?front"
    | (stamp) "is_rule first" "list_ex is_rule rest" "\<not> list_ex (\<lambda>h. field_key h = FROM_WEB) ?front" by blast
  then show ?thesis
  proof cases
    case block
    then have "split_on (CHR 0x0A) (stamp_from_web c) = ''---'' # (FROM_WEB @ '': true'') # ''---'' # first # rest"
      by (auto simp: stamp_from_web_def s Let_def FROM_WEB_def)
    then show ?thesis using stamp_line by (simp add: says_from_web_def)
  next
    case there
    then show ?thesis by (simp add: stamp_from_web_def says_from_web_def s Let_def)
  next
    case stamp
    let ?ls = "first # ?front @ [FROM_WEB @ '': true''] @ ?rear"
    have "set ?ls \<subseteq> insert (FROM_WEB @ '': true'') (set (first # rest))" by (auto dest: set_takeWhileD set_dropWhileD)
    then have "\<forall>l \<in> set ?ls. CHR 0x0A \<notin> set l" using free stamp_line(4) by blast
    then have "split_on (CHR 0x0A) (newline_joined ?ls) = ?ls" by (intro split_on_joined) simp_all
    moreover have "stamp_from_web c = newline_joined ?ls" using stamp by (simp add: stamp_from_web_def s Let_def)
    moreover have "takeWhile (\<lambda>l. \<not> is_rule l) (?front @ xs) = ?front @ takeWhile (\<lambda>l. \<not> is_rule l) xs" for xs
      by (rule takeWhile_append2) (auto dest: set_takeWhileD)
    ultimately show ?thesis using stamp(1) stamp_line(1,2) by (simp add: says_from_web_def)
  qed
qed

text \<open>A write on a tainted session goes through the stamp and only from a turn that may keep such a thing.\<close>

lemma tainted_write:
  assumes "is_tainted (re_taint E) sid" "record_hook E disk TOOL_WRITE args sid = Inr args'"
  shows "(\<exists>cur. space_view_of E sid = (True, Some cur) \<and> (space_private cur \<or> sp_source cur = Cron_Run)) \<and>
    (\<forall>c. arg_string args' ''content'' = Some c \<longrightarrow> says_from_web c)"
proof
  have d: "TOOL_WRITE \<noteq> TOOL_READ" "TOOL_WRITE \<noteq> TOOL_LIST" by (simp_all add: TOOL_WRITE_def TOOL_READ_def TOOL_LIST_def)
  have allowed: "tainted_record_allowed E args sid = Inr True"
    using assms d by (auto simp: record_hook_def Let_def split: if_splits)
  then obtain t where t: "fst (space_view_of E sid)" "tainted_write_allowed (re_config E) (re_view E) TOOL_WRITE sid t"
    by (auto simp: tainted_record_allowed_def policy_named_def split: if_splits sum.splits option.splits pyval.splits)
  then obtain cur where cur: "resolve_space (re_config E) (re_view E) sid = Inr (Some cur)" "space_private cur \<or> sp_source cur = Cron_Run"
    by (auto simp: tainted_write_allowed_def split: sum.splits option.splits)
  then have "space_view_of E sid = (True, Some cur)"
    using t(1) by (cases "space_config_of (re_config E)") (auto simp: space_view_of_def space_mode_def resolve_space_def split: bool.splits)
  then show "\<exists>cur. space_view_of E sid = (True, Some cur) \<and> (space_private cur \<or> sp_source cur = Cron_Run)" using cur(2) by blast
  show "\<forall>c. arg_string args' ''content'' = Some c \<longrightarrow> says_from_web c"
    using assms d
    by (auto simp: record_hook_def Let_def arg_string_def dget_replace stamp_says split: if_splits sum.splits option.splits pyval.splits)
qed

section \<open>The properties\<close>

definition notes_store :: pyval where
  "notes_store = PDict [(''name'', PStr ''7''), (''path'', PStr ''/opt/data/notes''), (''owner_field'', PStr ''owner'')]"

definition couple_seat :: config_file where
  "couple_seat = Document ((''record_stores'', PList [notes_store]) # couple)"

definition firm_seat :: config_file where
  "firm_seat = Document [(''record_stores'', PList [notes_store])]"

definition demo_records :: "config_file \<Rightarrow> space_view \<Rightarrow> record_env" where
  "demo_records f V = \<lparr>re_config = f, re_links = id, re_view = V, re_taint = empty_odict, re_now = ''t1'', re_text = (\<lambda>_. [])\<rparr>"

definition note_of :: "string \<Rightarrow> string \<Rightarrow> string" where
  "note_of who body = ''---'' @ [CHR 0x0A] @ ''owner: '' @ who @ [CHR 0x0A] @ ''---'' @ [CHR 0x0A] @ body"

definition note_args :: "pyval \<Rightarrow> string \<Rightarrow> bool \<Rightarrow> pydict" where
  "note_args store content overwrite =
     [(''store'', store), (''name'', PStr ''a.md''), (''content'', PStr content), (''overwrite'', PBool overwrite)]"

definition demo_disk :: "string \<Rightarrow> disk" where
  "demo_disk content = [(''/opt/data/notes'', [(''a.md'', \<lparr>kp_text = content, kp_modified = ''t0''\<rparr>)])]"

definition notes_policy :: store_policy where
  "notes_policy = \<lparr>po_root = ''/opt/data/notes'', po_owner = Some ''owner'', po_readers = [], po_index = [], po_writers = []\<rparr>"

definition mail_view :: "string \<Rightarrow> space_view" where
  "mail_view who =
     \<lparr>sv_value = (\<lambda>_. []),
      sv_origins = snd (bind 8 ''s'' ''m1'' (record_origin 8 0 [] \<lparr>or_sender = who, or_message_id = ''m1''\<rparr> no_origins)),
      sv_recipients = (\<lambda>_. []), sv_routine = (\<lambda>_. None)\<rparr>"

lemma demo_seats:
  "authored_policies couple_seat = Inr [(''7'', notes_policy)]" "authored_policies firm_seat = Inr [(''7'', notes_policy)]"
  "space_mode couple_seat = Inr True" "space_mode firm_seat = Inr False"
  "space_view_of (demo_records couple_seat dm_view) ''s'' = (True, Some \<lparr>sp_kind = Person_Space ''p1'', sp_source = Telegram_DM\<rparr>)"
  by code_simp+

lemma demo_owner: "owner_space (note_of ''p1'' ''mine'') notes_policy = Some (person_key ''p1'')"
  "owner_space (note_of ''p2'' ''yours'') notes_policy = Some (person_key ''p2'')"
  "owner_space (note_of ''p2'' ''other'') notes_policy = Some (person_key ''p2'')"
  by code_simp+

lemma demo_read:
  "record_call (demo_records couple_seat dm_view) TOOL_READ (note_args (PStr ''7'') [] False) ''s'' (demo_disk (note_of ''p1'' ''mine'')) =
     (Record_Text (note_of ''p1'' ''mine''), demo_disk (note_of ''p1'' ''mine''))"
  by code_simp

lemma demo_typed [simp]: "typed_args (note_args (PStr s) c b)"
  by (simp add: typed_args_def arg_string_def note_args_def)

lemma demo_separate [simp]: "separate_roots [x]"
  by (simp add: separate_roots_def)

lemma demo_records_simps [simp]: "re_config (demo_records f V) = f" "re_links (demo_records f V) = id"
  by (simp_all add: demo_records_def)

lemma demo_bytes [simp]:
  "byte_length (note_of ''p1'' ''mine'') \<le> MAX_RECORD_BYTES" "byte_length (note_of ''p2'' ''yours'') \<le> MAX_RECORD_BYTES"
  "byte_length (note_of ''p2'' ''other'') \<le> MAX_RECORD_BYTES" "byte_length (note_of ''ana@firm.com'' ''mine'') \<le> MAX_RECORD_BYTES"
  by (simp_all add: byte_length_def note_of_def MAX_RECORD_BYTES_def)

lemma demo_kept [simp]: "kept_in (demo_disk c) (po_root notes_policy) ''a.md'' = Some \<lparr>kp_text = c, kp_modified = ''t0''\<rparr>"
  by (simp add: kept_in_def demo_disk_def notes_policy_def)

lemma demo_private [simp]: "store_private notes_policy"
  by (simp add: store_private_def notes_policy_def)

text \<open>a turn on a shared seat reads a private store only in the spaces it may read: the text of a record it gets is owned by
  its own space or by the shared one.\<close>

theorem read_stays_in_readable_spaces:
  assumes "space_view_of E sid = (True, so)" "authored_policies (re_config E) = Inr ps" "typed_args args"
    "fst (record_call E TOOL_READ args sid disk) = Record_Text x"
  shows "\<exists>s p. dget args ''store'' = PStr s \<and> map_of ps s = Some p \<and>
    (store_private p \<longrightarrow> (\<exists>k. owner_space x p = Some k \<and> may_read so k))"
proof -
  have d: "TOOL_READ \<noteq> TOOL_LIST" "TOOL_READ \<noteq> TOOL_WRITE" by (simp_all add: TOOL_READ_def TOOL_LIST_def TOOL_WRITE_def)
  obtain args' where h: "record_hook E disk TOOL_READ args sid = Inr args'" "read_handler E disk args' sid = Record_Text x"
    using assms(4) d by (auto simp: record_call_def record_handler_def split: sum.splits)
  have a: "typed_args args'" "dget args' ''store'' = dget args ''store''"
    using hook_args [OF h(1)] assms(3) typed_update [OF assms(3)] by (auto simp: dget_replace)
  obtain s n p where r: "dget args' ''store'' = PStr s" "map_of ps s = Some p" "store_private p \<Longrightarrow> \<exists>k. owner_space x p = Some k \<and> may_read so k"
    using read_reply [OF assms(1,2) a(1) h(2)] by metis
  then show ?thesis using a(2) by (intro exI [of _ s] exI [of _ p]) simp
qed

lemma read_stays_in_readable_spaces_witness:
  "\<exists>k. owner_space (note_of ''p1'' ''mine'') notes_policy = Some k \<and> may_read (Some \<lparr>sp_kind = Person_Space ''p1'', sp_source = Telegram_DM\<rparr>) k"
proof -
  have "fst (record_call (demo_records couple_seat dm_view) TOOL_READ (note_args (PStr ''7'') [] False) ''s'' (demo_disk (note_of ''p1'' ''mine''))) =
      Record_Text (note_of ''p1'' ''mine'')" by (simp add: demo_read)
  from read_stays_in_readable_spaces [OF demo_seats(5) _ demo_typed this, of "[(''7'', notes_policy)]"] show ?thesis
    by (auto simp: demo_seats note_args_def split: if_splits)
qed


lemma demo_alike:
  "disks_alike [(''7'', notes_policy)] (Some \<lparr>sp_kind = Person_Space ''p1'', sp_source = Telegram_DM\<rparr>)
     (demo_disk (note_of ''p2'' ''yours'')) (demo_disk (note_of ''p2'' ''other''))"
  by (simp add: disks_alike_def folders_alike_def alike_def demo_disk_def demo_owner may_read_def readable_spaces_def)


text \<open>a record of a private store keeps its space: over any run of calls on a shared seat, a record once owned by a space
  stays there, owned by that space.\<close>

theorem record_keeps_its_space:
  assumes "authored_policies f = Inr ps" "space_mode f = Inr True" "separate_roots ps" "(s, p) \<in> set ps" "store_private p"
    "list_all (on_seat f) cs" "held_in_space disk p n w"
  shows "held_in_space (record_run cs disk) p n w"
  using assms(1-5) assms(6,7) by (rule run_keeps_space)

lemma record_keeps_its_space_witness:
  "held_in_space (record_run [(demo_records couple_seat dm_view, TOOL_WRITE, note_args (PStr ''7'') (note_of ''p1'' ''mine'') True, ''s'')]
     (demo_disk (note_of ''p2'' ''yours''))) notes_policy ''a.md'' (person_key ''p2'')"
  by (rule record_keeps_its_space [OF demo_seats(1,3)])
    (simp_all add: on_seat_def held_in_space_def demo_owner)

text \<open>only a turn in a space changes the records of that space: when a call changes a record of a private store, the record
  after it is owned by a space the turn may read, and so was the one before.\<close>

theorem only_its_space_changes_a_record:
  assumes "space_view_of E sid = (True, so)" "authored_policies (re_config E) = Inr ps" "typed_args args"
    "separate_roots ps" "(s, p) \<in> set ps" "store_private p" "held_in_space disk p n w" "\<not> may_read so w"
  shows "kept_in (snd (record_call E tool args sid disk)) (po_root p) n = kept_in disk (po_root p) n"
proof (rule ccontr)
  assume "kept_in (snd (record_call E tool args sid disk)) (po_root p) n \<noteq> kept_in disk (po_root p) n"
  from call_changes [OF assms(1-6) this] show False using assms(7,8) by (auto simp: held_in_space_def)
qed

lemma only_its_space_changes_a_record_witness:
  "kept_in (snd (record_call (demo_records couple_seat dm_view) TOOL_WRITE (note_args (PStr ''7'') (note_of ''p1'' ''mine'') True) ''s''
     (demo_disk (note_of ''p2'' ''yours'')))) (po_root notes_policy) ''a.md'' = Some \<lparr>kp_text = note_of ''p2'' ''yours'', kp_modified = ''t0''\<rparr>"
proof -
  have "kept_in (snd (record_call (demo_records couple_seat dm_view) TOOL_WRITE (note_args (PStr ''7'') (note_of ''p1'' ''mine'') True) ''s''
     (demo_disk (note_of ''p2'' ''yours'')))) (po_root notes_policy) ''a.md'' = kept_in (demo_disk (note_of ''p2'' ''yours'')) (po_root notes_policy) ''a.md''"
    by (rule only_its_space_changes_a_record [OF demo_seats(5), where ps = "[(''7'', notes_policy)]" and s = "''7''" and w = "person_key ''p2''"])
      (simp_all add: demo_seats held_in_space_def demo_owner may_read_def readable_spaces_def)
  then show ?thesis by simp
qed

text \<open>on an email seat a record stamped with another person's address is never rewritten by the call of a person who
  wrote in, reader or not.\<close>

theorem foreign_record_is_not_rewritten:
  assumes "space_view_of E sid = (False, so)" "authored_policies (re_config E) = Inr ps" "typed_args args" "separate_roots ps"
    "(s, p) \<in> set ps" "viewer_of E sid = Some v" "kept_in disk (po_root p) n = Some old"
    "byte_length (kp_text old) \<le> MAX_RECORD_BYTES" "record_owner (kp_text old) p = Some w" "w \<noteq> v"
  shows "kept_in (snd (record_call E tool args sid disk)) (po_root p) n = Some old"
  using assms by (rule foreign_record_kept)

lemma demo_mail:
  "space_view_of (demo_records firm_seat (mail_view ''bob@firm.com'')) ''s'' = (False, None)"
  "viewer_of (demo_records firm_seat (mail_view ''bob@firm.com'')) ''s'' = Some ''bob@firm.com''"
  "record_owner (note_of ''ana@firm.com'' ''mine'') notes_policy = Some ''ana@firm.com''"
  by code_simp+

lemma foreign_record_is_not_rewritten_witness:
  "kept_in (snd (record_call (demo_records firm_seat (mail_view ''bob@firm.com'')) TOOL_WRITE
     (note_args (PStr ''7'') (note_of ''bob@firm.com'' ''x'') True) ''s'' (demo_disk (note_of ''ana@firm.com'' ''mine'')))) (po_root notes_policy) ''a.md'' =
   Some \<lparr>kp_text = note_of ''ana@firm.com'' ''mine'', kp_modified = ''t0''\<rparr>"
  by (rule foreign_record_is_not_rewritten [OF demo_mail(1) _ _ _ _ demo_mail(2), where ps = "[(''7'', notes_policy)]" and s = "''7''" and w = "''ana@firm.com''"])
    (simp_all add: demo_seats demo_mail)

text \<open>a record lies in its store and the store on the volume: a record a tool reaches is one segment below a directory under
  the volume that the runtime does not own, and does not resolve elsewhere.\<close>

theorem records_stay_in_their_store:
  assumes "authored_policies f = Inr ps" "(s, p) \<in> set ps" "record_path links (po_root p) name = Inr n"
  shows "on_volume (po_root p) \<and> CHR ''/'' \<notin> set n \<and> hd n \<noteq> CHR ''.'' \<and> parent_path (links (po_root p @ ''/'' @ n)) = links (po_root p)"
proof -
  have "\<forall>a \<in> set ps. on_volume (po_root (snd a))"
    using assms(1) stores_on_volume [of 0 "[]"] by (auto simp: authored_policies_def split: config_file.splits pyval.splits)
  moreover have "n = name" "RECORD_NAME name" "parent_path (links (po_root p @ ''/'' @ name)) = links (po_root p)"
    using assms(3) by (auto simp: record_path_def split: if_splits)
  ultimately show ?thesis using assms(2) record_name_segment [of name] by auto
qed

lemma records_stay_in_their_store_witness:
  "on_volume (po_root notes_policy) \<and> CHR ''/'' \<notin> set ''a.md'' \<and> hd ''a.md'' \<noteq> CHR ''.'' \<and>
    parent_path (id (po_root notes_policy @ ''/'' @ ''a.md'')) = id (po_root notes_policy)"
proof -
  have "record_path id (po_root notes_policy) ''a.md'' = Inr ''a.md''" by code_simp
  from records_stay_in_their_store [OF demo_seats(1) _ this, of "''7''"] show ?thesis by simp
qed


text \<open>nothing is replaced unasked: a call that does not ask to overwrite leaves every record there is as it was.\<close>

theorem existing_record_needs_overwrite:
  assumes "kept_in disk d n = Some k" "\<not> truthy (dget args ''overwrite'')"
  shows "kept_in (snd (record_call E tool args sid disk)) d n = Some k"
proof (cases "record_hook E disk tool args sid")
  case (Inr args')
  have "dget args' ''overwrite'' = dget args ''overwrite''" using hook_args [OF Inr] by (auto simp: dget_replace)
  then have "kept_in (snd (write_handler E disk args' sid)) d n = Some k"
    using assms by (auto simp: write_handler_def write_record_def keep_absent split: sum.split option.split if_splits)
  then show ?thesis using assms(1) by (simp add: record_call_def Inr record_handler_def)
qed (simp add: record_call_def assms(1))

lemma existing_record_needs_overwrite_witness:
  "kept_in (snd (record_call (demo_records couple_seat dm_view) TOOL_WRITE (note_args (PStr ''7'') (note_of ''p1'' ''new'') False) ''s''
     (demo_disk (note_of ''p1'' ''mine'')))) (po_root notes_policy) ''a.md'' = Some \<lparr>kp_text = note_of ''p1'' ''mine'', kp_modified = ''t0''\<rparr>"
  by (rule existing_record_needs_overwrite) (simp_all add: note_args_def dget_def)

text \<open>what a tainted session keeps says so: a call on a session that read outside content changes a record only on a shared
  seat, from a turn in a person's own space or a scheduled run's, and the text it leaves carries the \<open>from_web\<close> key.\<close>

theorem tainted_session_keeps_only_stamped_records:
  assumes "is_tainted (re_taint E) sid" "kept_in (snd (record_call E tool args sid disk)) d n \<noteq> kept_in disk d n"
  shows "(\<exists>cur. space_view_of E sid = (True, Some cur) \<and> (space_private cur \<or> sp_source cur = Cron_Run)) \<and>
    (\<exists>k. kept_in (snd (record_call E tool args sid disk)) d n = Some k \<and> says_from_web (kp_text k))"
proof -
  obtain args' where h: "record_hook E disk TOOL_WRITE args sid = Inr args'" "tool = TOOL_WRITE"
    using assms(2) by (auto simp: record_call_def record_handler_def split: sum.splits if_splits)
  have call: "snd (record_call E tool args sid disk) = snd (write_handler E disk args' sid)"
    using h by (simp add: record_call_def record_handler_def TOOL_WRITE_def TOOL_READ_def TOOL_LIST_def)
  let ?c = "case arg_string args' ''content'' of None \<Rightarrow> [] | Some c \<Rightarrow> c"
  obtain d' m where w: "snd (write_handler E disk args' sid) = keep_record disk d' m \<lparr>kp_text = ?c, kp_modified = re_now E\<rparr>"
    "\<not> list_all byte_space ?c"
    using assms(2) unfolding call by (auto simp: write_handler_def write_record_def split: sum.splits option.splits if_splits)
  have "(d, n) = (d', m)" using assms(2) keep_other [of d n d' m] unfolding call w(1) by metis
  then have "kept_in (snd (record_call E tool args sid disk)) d n = Some \<lparr>kp_text = ?c, kp_modified = re_now E\<rparr>" using call w(1) by simp
  moreover have "says_from_web ?c" using tainted_write [OF assms(1) h(1)] w(2) by (cases "arg_string args' ''content''") simp_all
  ultimately show ?thesis using tainted_write [OF assms(1) h(1)] by simp
qed

definition web_records :: record_env where
  "web_records = (demo_records couple_seat dm_view)\<lparr>re_taint := mark 8 ''s'' ''untrusted'' empty_odict\<rparr>"

lemma tainted_session_keeps_only_stamped_records_witness:
  "\<exists>k. kept_in (snd (record_call web_records TOOL_WRITE (note_args (PStr ''7'') (note_of ''p1'' ''new'') True) ''s''
     (demo_disk (note_of ''p1'' ''mine'')))) (po_root notes_policy) ''a.md'' = Some k \<and> says_from_web (kp_text k)"
proof -
  have "is_tainted (re_taint web_records) ''s''" by code_simp
  moreover have "kept_in (snd (record_call web_records TOOL_WRITE (note_args (PStr ''7'') (note_of ''p1'' ''new'') True) ''s''
     (demo_disk (note_of ''p1'' ''mine'')))) (po_root notes_policy) ''a.md'' \<noteq> kept_in (demo_disk (note_of ''p1'' ''mine'')) (po_root notes_policy) ''a.md''"
    by code_simp
  ultimately show ?thesis using tainted_session_keeps_only_stamped_records by metis
qed

section \<open>What the fences leave open\<close>

definition note_call :: "string \<Rightarrow> record_env \<Rightarrow> pyval \<Rightarrow> string \<Rightarrow> bool \<Rightarrow> disk \<Rightarrow> record_reply \<times> disk" where
  "note_call tool E store content overwrite disk = record_call E tool (note_args store content overwrite) ''s'' disk"

text \<open>A store may be named by digits alone, and the fences judge only a store named by a string while the handlers take the
  text of whatever names it: a number opens another person's record, on a firm's seat and on a shared one.\<close>

theorem number_opens_a_private_store:
  "fst (note_call TOOL_READ (demo_records firm_seat (mail_view ''bob@firm.com'')) (PInt 7) [] False (demo_disk (note_of ''ana@firm.com'' ''mine''))) =
     Record_Text (note_of ''ana@firm.com'' ''mine'') \<and>
   fst (note_call TOOL_READ (demo_records firm_seat (mail_view ''bob@firm.com'')) (PStr ''7'') [] False (demo_disk (note_of ''ana@firm.com'' ''mine''))) =
     Blocked_Call (Fence_Refused (Belongs_To ''ana@firm.com'')) \<and>
   fst (note_call TOOL_READ (demo_records couple_seat dm_view) (PInt 7) [] False (demo_disk (note_of ''p2'' ''yours''))) =
     Record_Text (note_of ''p2'' ''yours'') \<and>
   fst (note_call TOOL_READ (demo_records couple_seat dm_view) (PStr ''7'') [] False (demo_disk (note_of ''p2'' ''yours''))) =
     Blocked_Call (Fence_Refused Private_To_Another)"
  by code_simp

text \<open>On a firm's seat only the hook judges the owner: a call whose hook ran before a colleague's record was there replaces it.\<close>

theorem late_write_replaces_a_colleagues_record:
  "let E = demo_records firm_seat (mail_view ''bob@firm.com''); args = note_args (PStr ''7'') (note_of ''bob@firm.com'' ''x'') True;
       disk = demo_disk (note_of ''ana@firm.com'' ''mine'')
   in record_hook E [] TOOL_WRITE args ''s'' = Inr args \<and>
      record_hook E disk TOOL_WRITE args ''s'' = Inl (Fence_Refused (Belongs_To ''ana@firm.com'')) \<and>
      kept_in (snd (record_handler E disk TOOL_WRITE args ''s'')) (po_root notes_policy) ''a.md'' =
        Some \<lparr>kp_text = note_of ''bob@firm.com'' ''x'', kp_modified = ''t1''\<rparr>"
  by code_simp

text \<open>The stamp looks for its key, not for the value: a record that already says it is not from the web is kept so.\<close>

theorem denied_origin_is_not_stamped:
  "let note = ''---'' @ [CHR 0x0A] @ ''from_web: false'' @ [CHR 0x0A] @ ''---'' @ [CHR 0x0A] @ ''x''
   in stamp_from_web note = note \<and> map_of (read_frontmatter note) FROM_WEB = Some ''false''"
  by code_simp

theorem record_name_may_end_in_a_newline:
  "RECORD_NAME (''a.md'' @ [CHR 0x0A])"
  by code_simp

end
