(* ===== verification/Spec2Isabelle.thy ===== *)
theory Spec2Isabelle
  imports Cost_Breaker Trust_Ceiling Customer_Config Exposure_Override Recipients Inbound Session_Registers Trust_Register Pending_Send Pending_Acts Trust_Gate Audit_Chain Mcp_Dispatch Casework_Acts Escalation_Ledger Read_Volume Matter_Gate Admin_Possession Held_Replies Job_Worker Reply_Relay Reply_Turn Rule_Confirm Prerendered Shared_Space Record_Store
begin

text \<open>
  A verification development for the Hermes overlay: the plugins and shared modules that stand between an
  agent and the mailboxes, matters and records of a firm. What the program promises is mostly about authority and
  counting: nothing fires without authority, a withheld send or a confirmation is used at most once, and what is refused is
  told; each theorem says under which conditions, and where the code falls short a theorem exhibits it. The theories follow the
  code; each definition bears the name of its function or table.

  \<^bold>\<open>How a turn runs through the code.\<close> The webhook gate (\<open>webhook_gate.py\<close>) verifies a delivery, limits it and
  wakes the agent. The inbound plugin frames the email and binds the session to its sender. Every tool call passes
  the trust gate, which classifies the tool, resolves its ceiling under the entitlement dial, checks taint, matter
  and read volume, and allows, withholds, proposes or refuses. A draft is relayed as the one reply to the email that
  opened the turn, held and released later, or refused and told. At the end of the turn the seat sends an act
  line or the final text that the turn did not send. Scheduled routines speak through pre-rendered alerts, long jobs
  through the job worker, and every decision is a row of the audit chain.

  \<^bold>\<open>Shared theories.\<close> \<open>Prelude\<close>: Python values, dictionaries, strings and error sums. \<open>Text\<close>: splitting and searching.
  \<open>Stores\<close>: the locale \<open>bounded_register\<close> of an ordered dictionary with a cap, interpreted on \<open>odict\<close>. \<open>Regex\<close>: patterns
  as trees under a backtracking matcher. \<open>Lines\<close>: the lines of a text.

  \<^bold>\<open>Spending and authority.\<close> \<open>Sticky_Stop\<close> (\<open>shared/sticky_stop.py\<close>) and \<open>Cost_Breaker\<close> (\<open>shared/cost_breaker.py\<close>): a stop that no
  recording lowers. \<open>Action_Classes\<close>, \<open>Customer_Config\<close>, \<open>Trust_Ceiling\<close>, \<open>Exposure_Override\<close>, \<open>Recipients\<close>: the registry of tools,
  the accessors of the configuration, ceilings and floors (\<open>enforce.py\<close>), the dial and the classes of recipients.
  \<open>Trust_Register\<close>, \<open>Pending_Send\<close>, \<open>Pending_Acts\<close>: the registers that join two hooks of one call or two turns.
  \<open>Trust_Gate\<close> (\<open>hermes-smd-trust/enforce.py\<close>): the decision about one call, and runs of calls.

  \<^bold>\<open>Who speaks.\<close> \<open>Inbound\<close>, \<open>Session_Registers\<close> (\<open>shared/inbound.py\<close>): the fence around untrusted text, taint, and the email a
  turn answers. \<open>Admin_Possession\<close>: proof of a mailbox. \<open>Rule_Confirm\<close> (\<open>shared/rule_confirm.py\<close>): what counts as a person's
  yes. \<open>Webhook_Gate\<close>, \<open>Gate_Limits\<close>, \<open>Mcp_Store\<close>, \<open>Mcp_Dispatch\<close>: the HTTP front, its caps and its two protocols.

  \<^bold>\<open>What is answered.\<close> \<open>Reply_Binding\<close>, \<open>Reply_Relay\<close>, \<open>Held_Replies\<close>, \<open>Reply_Turn\<close> (\<open>hermes-smd-reply\<close>): whom a reply is locked to, the
  one decision about a draft and its two hooks, the held queue and its sweeper, and the end of a turn.
  \<open>Prerendered\<close> (\<open>shared/prerendered_dispatch.py\<close>): the alerts of a routine.

  \<^bold>\<open>Work and records.\<close> \<open>Matter_Binding\<close>, \<open>Matter_Gate\<close>, \<open>Read_Volume\<close>: which matter a session reads and how much.
  \<open>Casework_Ledger\<close>, \<open>Casework_Acts\<close>, \<open>Escalation_Ledger\<close>: folds of append-only rows with their validation. \<open>Job_Worker\<close>:
  claims, segments, delivery and sweep of a background job. \<open>Shared_Space\<close> (\<open>shared/space.py\<close>, \<open>space_taint.py\<close>): the space of a turn
  on a seat several people share. \<open>Record_Store\<close> (\<open>shared/record_store.py\<close>, \<open>hermes-smd-record-store\<close>): the authored stores, the
  records in them, and the fences between spaces and between people who write in; that what one space keeps does not show in
  another is proved there as an equality of two runs. \<open>Audit_Chain\<close>: the hash chain and its verifier.

  \<^bold>\<open>How it is modelled.\<close> State is a record that each operation returns updated; what leaves the program is a list of
  events in order. A raise is a value: \<open>Inl\<close> of an error, or a constructor of an outcome. Handlers are defined whole, in
  the order of the code, guards and early returns included. Where threads or processes interleave, a step relation or a
  list of steps gives every order. Clocks, digests, random identifiers, the network, the broker behind its socket, the
  classifiers of text and the host are parameters: arguments or the fields of a record named \<open>..._env\<close>. Integers
  are unbounded as in Python. Strings are lists of Latin-1 characters.

  \<^bold>\<open>What the lemmas show.\<close> Each theory proves one lemma per operation (what it keeps of the invariant, what it emits),
  then a lemma about runs, and the properties are short consequences. The locales state the laws of a
  keyed store, of a register with a cap, and of the store of stops with and without its audit sink, and are interpreted
  on the model's own operations. The theorems whose
  claim is an error or a divergence exhibit a behaviour the code does not mean to have.

  \<^bold>\<open>Bounds and fuel.\<close> Caps are those of the code: registers of 64 to 1024 entries; a theorem about a run that must not
  evict says how many steps the cap holds. Walks over nested values stop where the code stops them: 200 nodes, seven
  levels. A repetition in a pattern is bounded by the length of the text that is left, which is enough because a round
  that consumes nothing ends it. The segment loop of a job and the walk of the verifier may not end in general and are
  partial functions; \<open>paid_segments_end\<close> and \<open>verifier_returns\<close> prove that they return.

  \<^bold>\<open>Not modelled.\<close> Clients of outside services (Graph, AgentMail, Honcho, Sentry, D1), prompt text and rendering, word
  lists and patterns over the body of a letter (the outbound screen, the output checklist, the voice transform), one-shot
  translation and validation of configuration files, command-line installers, telemetry, and the registration of hooks with
  the host, whose code is not in the repository; and the allowlist of the file tools over resolved paths. Where modelled code consults them, their verdict is a parameter.
\<close>

end
